(* ===== verification/Ar_Prelude.thy ===== *)
theory Ar_Prelude
  imports Main "HOL-Library.Word" "HOL-Library.Monad_Syntax"
begin

text \<open>
  Shared vocabulary of the development: machine integer widths, the result codes of
  \<^verbatim>\<open>ar_osal/api/ar_osal_error.h\<close>, pointers and node stores.

  A C pointer is a \<open>ptr\<close>, that is an address or \<open>None\<close> for \<open>NULL\<close>. Memory that holds
  nodes of one struct type is a partial map from addresses (a \<open>store\<close>); an address outside
  its domain is memory the program does not own. Reading or writing through \<open>NULL\<close> or
  through such an address is undefined behaviour in C, and makes the whole operation return
  \<open>None\<close> here. An operation is therefore a function into an \<open>option\<close> type, and a theorem
  that it returns \<open>Some\<close> includes that it touches only memory it owns and terminates.
\<close>

unbundle bit_operations_syntax

type_synonym u8 = "8 word"
type_synonym u16 = "16 word"
type_synonym u32 = "32 word"
type_synonym addr = nat
type_synonym ptr = "addr option"
type_synonym 'n store = "addr \<rightharpoonup> 'n"

named_theorems mem_simps \<open>evaluation of loads and stores on addresses that are owned\<close>
named_theorems inv_defs \<open>definitions of the components' invariants\<close>

subsection \<open>Result codes\<close>

abbreviation (input) AR_EOK :: u32 where "AR_EOK \<equiv> 0"
abbreviation (input) AR_EFAILED :: u32 where "AR_EFAILED \<equiv> 1"
abbreviation (input) AR_EBADPARAM :: u32 where "AR_EBADPARAM \<equiv> 2"
abbreviation (input) AR_EUNSUPPORTED :: u32 where "AR_EUNSUPPORTED \<equiv> 3"
abbreviation (input) AR_ENORESOURCE :: u32 where "AR_ENORESOURCE \<equiv> 7"
abbreviation (input) AR_EALREADY :: u32 where "AR_EALREADY \<equiv> 9"
abbreviation (input) AR_ENEEDMORE :: u32 where "AR_ENEEDMORE \<equiv> 17"
abbreviation (input) AR_ENOMEMORY :: u32 where "AR_ENOMEMORY \<equiv> 18"
abbreviation (input) AR_ENOTEXIST :: u32 where "AR_ENOTEXIST \<equiv> 19"

subsection \<open>Heap ids\<close>

text \<open>The low three bits select a heap, bit 3 asks for memory of the island (\<^verbatim>\<open>posal_memory.h\<close>).\<close>

definition GET_ACTUAL_HEAP_ID :: "u32 \<Rightarrow> u32" where
  "GET_ACTUAL_HEAP_ID heap_id = heap_id AND 0x7"

definition POSAL_IS_ISLAND_HEAP_ID :: "u32 \<Rightarrow> bool" where
  "POSAL_IS_ISLAND_HEAP_ID heap_id \<longleftrightarrow> heap_id AND 0x8 = 0x8"

subsection \<open>Loads and stores\<close>

definition load :: "'n store \<Rightarrow> ptr \<Rightarrow> 'n option" where
  "load h p = Option.bind p h"

definition modify :: "'n store \<Rightarrow> ptr \<Rightarrow> ('n \<Rightarrow> 'n) \<Rightarrow> 'n store option" where
  "modify h p f = (case p of None \<Rightarrow> None
                   | Some a \<Rightarrow> (case h a of None \<Rightarrow> None | Some n \<Rightarrow> Some (h(a \<mapsto> f n))))"

lemma load_simps [simp]: "load h None = None" "load h (Some a) = h a"
  by (simp_all add: load_def)

lemma modify_None [simp]: "modify h None f = None"
  by (simp add: modify_def)

lemma modify_Some [mem_simps]: "h a = Some n \<Longrightarrow> modify h (Some a) f = Some (h(a \<mapsto> f n))"
  by (simp add: modify_def)

subsection \<open>Array reads\<close>

text \<open>An array read out of range is undefined in C; the model makes it \<open>None\<close>.\<close>

definition arr_at :: "'a list \<Rightarrow> nat \<Rightarrow> 'a option" where
  "arr_at xs i = (if i < length xs then Some (xs ! i) else None)"

lemma arr_at_Some_iff: "arr_at xs i = Some x \<longleftrightarrow> i < length xs \<and> xs ! i = x"
  by (simp add: arr_at_def)

lemma arr_at_in [mem_simps]: "i < length xs \<Longrightarrow> arr_at xs i = Some (xs ! i)"
  by (simp add: arr_at_def)

subsection \<open>Words\<close>

lemma unat_of_nat_lt: "n < 2 ^ 32 \<Longrightarrow> unat (of_nat n :: u32) = n"
  by (simp add: unsigned_of_nat take_bit_nat_eq_self)

lemma unat_lt32: "unat (w :: u32) < 2 ^ 32"
  using unsigned_less [of w, where ?'a = nat] by simp

subsection \<open>Lists\<close>

lemma distinct_butlast_last: "distinct xs \<Longrightarrow> xs \<noteq> [] \<Longrightarrow> last xs \<notin> set (butlast xs)"
  by (metis append_butlast_last_id distinct_butlast not_distinct_conv_prefix)

lemma distinct_hd_tl: "distinct xs \<Longrightarrow> xs \<noteq> [] \<Longrightarrow> hd xs \<notin> set (tl xs)"
  by (cases xs) auto

end
