(* ===== verification/Linked_Nodes.thy ===== *)
theory Linked_Nodes
  imports Ar_Prelude
begin

text \<open>
  Doubly linked node structures in a store. Three components of the engine use the same
  two pointer fields in their nodes: the list utilities (\<^verbatim>\<open>spf_list_node_t\<close>), the queue
  ring (\<^verbatim>\<open>posal_queue_element_list_t\<close>) and the GPR packet lists (\<^verbatim>\<open>gpr_list_node_t\<close>).
  The record \<open>dl_node\<close> holds these two fields and each component extends it with its
  own. The theory gives the field reads and writes, the predicates \<open>links\<close> (a chain of
  nodes in which each points to the next and back), \<open>dll\<close> (a \<open>NULL\<close>-terminated list) and
  \<open>ring\<close> (a circular list), and how they change under the pointer updates the code makes.
\<close>

record dl_node =
  next_ptr :: ptr
  prev_ptr :: ptr

subsection \<open>Field access\<close>

definition nxt :: "'a dl_node_scheme store \<Rightarrow> addr \<Rightarrow> ptr" where
  "nxt h a = Option.bind (h a) next_ptr"

definition prv :: "'a dl_node_scheme store \<Rightarrow> addr \<Rightarrow> ptr" where
  "prv h a = Option.bind (h a) prev_ptr"

definition set_nxt :: "addr \<Rightarrow> ptr \<Rightarrow> 'a dl_node_scheme store \<Rightarrow> 'a dl_node_scheme store" where
  "set_nxt a v h = h(a := map_option (next_ptr_update (\<lambda>_. v)) (h a))"

definition set_prv :: "addr \<Rightarrow> ptr \<Rightarrow> 'a dl_node_scheme store \<Rightarrow> 'a dl_node_scheme store" where
  "set_prv a v h = h(a := map_option (prev_ptr_update (\<lambda>_. v)) (h a))"

text \<open>The C expressions \<open>p->next_ptr\<close>, \<open>p->prev_ptr\<close> and the assignments to them.\<close>

definition rd_next :: "'a dl_node_scheme store \<Rightarrow> ptr \<Rightarrow> ptr option" where
  "rd_next h p = map_option next_ptr (load h p)"

definition rd_prev :: "'a dl_node_scheme store \<Rightarrow> ptr \<Rightarrow> ptr option" where
  "rd_prev h p = map_option prev_ptr (load h p)"

definition wr_next :: "'a dl_node_scheme store \<Rightarrow> ptr \<Rightarrow> ptr \<Rightarrow> 'a dl_node_scheme store option" where
  "wr_next h p v = modify h p (next_ptr_update (\<lambda>_. v))"

definition wr_prev :: "'a dl_node_scheme store \<Rightarrow> ptr \<Rightarrow> ptr \<Rightarrow> 'a dl_node_scheme store option" where
  "wr_prev h p v = modify h p (prev_ptr_update (\<lambda>_. v))"

lemma rd_wr_None [simp]:
  "rd_next h None = None" "rd_prev h None = None" "wr_next h None v = None" "wr_prev h None v = None"
  by (simp_all add: rd_next_def rd_prev_def wr_next_def wr_prev_def)

lemma rd_next_Some [mem_simps]: "a \<in> dom h \<Longrightarrow> rd_next h (Some a) = Some (nxt h a)"
  by (auto simp: rd_next_def nxt_def)

lemma rd_prev_Some [mem_simps]: "a \<in> dom h \<Longrightarrow> rd_prev h (Some a) = Some (prv h a)"
  by (auto simp: rd_prev_def prv_def)

lemma wr_next_Some [mem_simps]: "a \<in> dom h \<Longrightarrow> wr_next h (Some a) v = Some (set_nxt a v h)"
  by (auto simp: wr_next_def set_nxt_def modify_def)

lemma wr_prev_Some [mem_simps]: "a \<in> dom h \<Longrightarrow> wr_prev h (Some a) v = Some (set_prv a v h)"
  by (auto simp: wr_prev_def set_prv_def modify_def)

lemma dom_set_nxt [simp]: "dom (set_nxt a v h) = dom h"
  by (auto simp: set_nxt_def dom_def)

lemma dom_set_prv [simp]: "dom (set_prv a v h) = dom h"
  by (auto simp: set_prv_def dom_def)

lemma nxt_set_nxt: "nxt (set_nxt a v h) b = (if b = a \<and> a \<in> dom h then v else nxt h b)"
  by (cases "h a") (auto simp: nxt_def set_nxt_def)

lemma nxt_set_nxt_same [simp]: "a \<in> dom h \<Longrightarrow> nxt (set_nxt a v h) a = v"
  by (simp add: nxt_set_nxt)

lemma nxt_set_nxt_other [simp]: "b \<noteq> a \<Longrightarrow> nxt (set_nxt a v h) b = nxt h b"
  by (simp add: nxt_set_nxt)

lemma nxt_set_prv [simp]: "nxt (set_prv a v h) b = nxt h b"
  by (cases "h a") (auto simp: nxt_def set_prv_def)

lemma prv_set_prv: "prv (set_prv a v h) b = (if b = a \<and> a \<in> dom h then v else prv h b)"
  by (cases "h a") (auto simp: prv_def set_prv_def)

lemma prv_set_prv_same [simp]: "a \<in> dom h \<Longrightarrow> prv (set_prv a v h) a = v"
  by (simp add: prv_set_prv)

lemma prv_set_prv_other [simp]: "b \<noteq> a \<Longrightarrow> prv (set_prv a v h) b = prv h b"
  by (simp add: prv_set_prv)

lemma prv_set_nxt [simp]: "prv (set_nxt a v h) b = prv h b"
  by (cases "h a") (auto simp: prv_def set_nxt_def)

lemma nxt_upd [simp]: "nxt (h(a \<mapsto> n)) b = (if b = a then next_ptr n else nxt h b)"
  by (simp add: nxt_def)

lemma prv_upd [simp]: "prv (h(a \<mapsto> n)) b = (if b = a then prev_ptr n else prv h b)"
  by (simp add: prv_def)

lemma nxt_del [simp]: "nxt (h(a := None)) b = (if b = a then None else nxt h b)"
  by (simp add: nxt_def)

lemma prv_del [simp]: "prv (h(a := None)) b = (if b = a then None else prv h b)"
  by (simp add: prv_def)

lemma nxt_Some_dom: "nxt h a = Some b \<Longrightarrow> a \<in> dom h"
  by (auto simp: nxt_def bind_eq_Some_conv)

lemma prv_Some_dom: "prv h a = Some b \<Longrightarrow> a \<in> dom h"
  by (auto simp: prv_def bind_eq_Some_conv)

text \<open>A field of an extension, read through the same store, is untouched by link updates.\<close>

lemma set_nxt_apply: "set_nxt a v h b = (if b = a then map_option (next_ptr_update (\<lambda>_. v)) (h a) else h b)"
  by (simp add: set_nxt_def)

lemma set_prv_apply: "set_prv a v h b = (if b = a then map_option (prev_ptr_update (\<lambda>_. v)) (h a) else h b)"
  by (simp add: set_prv_def)

subsection \<open>Segments\<close>

text \<open>
  The pointer to the first node of a list, or \<open>p\<close> if there is none, and the pointer to its
  last node, or \<open>p\<close>.
\<close>

definition begp :: "addr list \<Rightarrow> ptr \<Rightarrow> ptr" where
  "begp xs p = (case xs of [] \<Rightarrow> p | x # _ \<Rightarrow> Some x)"

definition endp :: "ptr \<Rightarrow> addr list \<Rightarrow> ptr" where
  "endp p xs = (if xs = [] then p else Some (last xs))"

lemma begp_simps [simp]: "begp [] p = p" "begp (x # xs) p = Some x"
  by (simp_all add: begp_def)

lemma begp_append [simp]: "begp (xs @ ys) p = begp xs (begp ys p)"
  by (cases xs) simp_all

lemma begp_hd: "xs \<noteq> [] \<Longrightarrow> begp xs p = Some (hd xs)"
  by (cases xs) simp_all

lemma endp_simps [simp]: "endp p [] = p" "endp p (xs @ [x]) = Some x"
  by (simp_all add: endp_def)

lemma endp_Cons [simp]: "endp p (x # xs) = endp (Some x) xs"
  by (simp add: endp_def)

lemma endp_append [simp]: "endp p (xs @ ys) = endp (endp p xs) ys"
  by (simp add: endp_def)

text \<open>
  \<open>dseg h pr xs nx\<close>: the nodes \<open>xs\<close> are linked in this order, the first has \<open>pr\<close> as its
  predecessor and the last has \<open>nx\<close> as its successor.
\<close>

fun dseg :: "'a dl_node_scheme store \<Rightarrow> ptr \<Rightarrow> addr list \<Rightarrow> ptr \<Rightarrow> bool" where
  "dseg h pr [] nx = True"
| "dseg h pr (x # xs) nx = (x \<in> dom h \<and> prv h x = pr \<and> nxt h x = begp xs nx \<and> dseg h (Some x) xs nx)"

lemma dseg_append:
  "dseg h pr (xs @ ys) nx \<longleftrightarrow> dseg h pr xs (begp ys nx) \<and> dseg h (endp pr xs) ys nx"
  by (induction xs arbitrary: pr) auto

lemma dseg_dom: "dseg h pr xs nx \<Longrightarrow> set xs \<subseteq> dom h"
  by (induction xs arbitrary: pr) auto

lemma dseg_cong:
  assumes "\<And>x. x \<in> set xs \<Longrightarrow> nxt h' x = nxt h x \<and> prv h' x = prv h x \<and> (x \<in> dom h' \<longleftrightarrow> x \<in> dom h)"
  shows "dseg h' pr xs nx = dseg h pr xs nx"
  using assms by (induction xs arbitrary: pr) auto

lemma dseg_set_nxt [simp]: "a \<notin> set xs \<Longrightarrow> dseg (set_nxt a v h) pr xs nx = dseg h pr xs nx"
  by (rule dseg_cong) (auto simp: nxt_set_nxt)

lemma dseg_set_prv [simp]: "a \<notin> set xs \<Longrightarrow> dseg (set_prv a v h) pr xs nx = dseg h pr xs nx"
  by (rule dseg_cong) (auto simp: prv_set_prv)

lemma dseg_upd [simp]: "a \<notin> set xs \<Longrightarrow> dseg (h(a \<mapsto> n)) pr xs nx = dseg h pr xs nx"
  by (rule dseg_cong) auto

lemma dseg_del [simp]: "a \<notin> set xs \<Longrightarrow> dseg (h(a := None)) pr xs nx = dseg h pr xs nx"
  by (rule dseg_cong) (auto split: if_splits)

lemma dseg_set_prv_hd:
  "dseg h pr (x # xs) nx \<Longrightarrow> x \<notin> set xs \<Longrightarrow> dseg (set_prv x v h) v (x # xs) nx"
  by simp

lemma dseg_set_nxt_last:
  "dseg h pr (xs @ [x]) nx \<Longrightarrow> x \<notin> set xs \<Longrightarrow> dseg (set_nxt x v h) pr (xs @ [x]) v"
  by (simp add: dseg_append)

text \<open>
  The same updates on a possibly empty segment, through the pointer to its end: what the
  code writes as \<open>if (p) p->next_ptr = v\<close>.
\<close>

definition upd_nxt :: "ptr \<Rightarrow> ptr \<Rightarrow> 'a dl_node_scheme store \<Rightarrow> 'a dl_node_scheme store" where
  "upd_nxt p v h = (case p of None \<Rightarrow> h | Some a \<Rightarrow> set_nxt a v h)"

definition upd_prv :: "ptr \<Rightarrow> ptr \<Rightarrow> 'a dl_node_scheme store \<Rightarrow> 'a dl_node_scheme store" where
  "upd_prv p v h = (case p of None \<Rightarrow> h | Some a \<Rightarrow> set_prv a v h)"

definition wr_next_if :: "'a dl_node_scheme store \<Rightarrow> ptr \<Rightarrow> ptr \<Rightarrow> 'a dl_node_scheme store option" where
  "wr_next_if h p v = (if p = None then Some h else wr_next h p v)"

definition wr_prev_if :: "'a dl_node_scheme store \<Rightarrow> ptr \<Rightarrow> ptr \<Rightarrow> 'a dl_node_scheme store option" where
  "wr_prev_if h p v = (if p = None then Some h else wr_prev h p v)"

lemma wr_next_if_eq [mem_simps]: "set_option p \<subseteq> dom h \<Longrightarrow> wr_next_if h p v = Some (upd_nxt p v h)"
  by (cases p) (auto simp: wr_next_if_def upd_nxt_def mem_simps)

lemma wr_prev_if_eq [mem_simps]: "set_option p \<subseteq> dom h \<Longrightarrow> wr_prev_if h p v = Some (upd_prv p v h)"
  by (cases p) (auto simp: wr_prev_if_def upd_prv_def mem_simps)

lemma upd_simps [simp]:
  "upd_nxt None v h = h" "upd_prv None v h = h"
  "upd_nxt (Some a) v h = set_nxt a v h" "upd_prv (Some a) v h = set_prv a v h"
  by (simp_all add: upd_nxt_def upd_prv_def)

lemma dom_upd [simp]: "dom (upd_nxt p v h) = dom h" "dom (upd_prv p v h) = dom h"
  by (cases p; simp)+

lemma nxt_upd_prv [simp]: "nxt (upd_prv p v h) b = nxt h b"
  by (cases p) simp_all

lemma prv_upd_nxt [simp]: "prv (upd_nxt p v h) b = prv h b"
  by (cases p) simp_all

lemma nxt_upd_nxt_other [simp]: "p \<noteq> Some b \<Longrightarrow> nxt (upd_nxt p v h) b = nxt h b"
  by (cases p) auto

lemma prv_upd_prv_other [simp]: "p \<noteq> Some b \<Longrightarrow> prv (upd_prv p v h) b = prv h b"
  by (cases p) auto

lemma dseg_upd_nxt [simp]: "set_option p \<inter> set xs = {} \<Longrightarrow> dseg (upd_nxt p v h) pr xs nx = dseg h pr xs nx"
  by (cases p) simp_all

lemma dseg_upd_prv [simp]: "set_option p \<inter> set xs = {} \<Longrightarrow> dseg (upd_prv p v h) pr xs nx = dseg h pr xs nx"
  by (cases p) simp_all

lemma dseg_upd_prv_begp:
  "dseg h pr xs nx \<Longrightarrow> distinct xs \<Longrightarrow> dseg (upd_prv (begp xs None) v h) v xs nx"
  by (cases xs) auto

lemma dseg_upd_nxt_endp:
  "dseg h pr xs nx \<Longrightarrow> distinct xs \<Longrightarrow> dseg (upd_nxt (endp None xs) v h) pr xs v"
  by (cases xs rule: rev_cases) (auto simp: dseg_append)

lemma set_option_begp: "set_option (begp xs p) = (if xs = [] then set_option p else {hd xs})"
  by (cases xs) auto

lemma set_option_endp: "set_option (endp p xs) = (if xs = [] then set_option p else {last xs})"
  by (simp add: endp_def)

subsection \<open>Lists and rings\<close>

definition dll :: "'a dl_node_scheme store \<Rightarrow> ptr \<Rightarrow> addr list \<Rightarrow> bool" where
  "dll h p xs \<longleftrightarrow> p = begp xs None \<and> distinct xs \<and> dseg h None xs None"

definition ring :: "'a dl_node_scheme store \<Rightarrow> addr list \<Rightarrow> bool" where
  "ring h xs \<longleftrightarrow> distinct xs \<and> (xs \<noteq> [] \<longrightarrow> dseg h (Some (last xs)) xs (Some (hd xs)))"

lemma dll_dom: "dll h p xs \<Longrightarrow> set xs \<subseteq> dom h"
  by (auto simp: dll_def dest: dseg_dom)

lemma dll_frame:
  assumes "\<And>x. x \<in> set xs \<Longrightarrow> h' x = h x"
  shows "dll h' p xs = dll h p xs"
  using dseg_cong [of xs h' h None None] assms by (auto simp: dll_def nxt_def prv_def dom_def)

lemma dll_unique: "dll h p xs \<Longrightarrow> dll h p ys \<Longrightarrow> xs = ys"
proof -
  have "dseg h pr xs None \<Longrightarrow> dseg h pr' ys None \<Longrightarrow> begp xs None = begp ys None \<Longrightarrow> xs = ys" for pr pr'
  proof (induction xs arbitrary: ys pr pr')
    case Nil
    then show ?case by (cases ys) auto
  next
    case (Cons x xs)
    then obtain zs where ys: "ys = x # zs" by (cases ys) auto
    with Cons.prems have "xs = zs" by (intro Cons.IH [where pr = "Some x" and pr' = "Some x"]) auto
    with ys show ?case by simp
  qed
  then show "dll h p xs \<Longrightarrow> dll h p ys \<Longrightarrow> xs = ys" by (auto simp: dll_def)
qed

lemma dseg_nth:
  assumes "dseg h pr xs nx" "i < length xs"
  shows "nxt h (xs ! i) = (if Suc i < length xs then Some (xs ! Suc i) else nx)"
    "prv h (xs ! i) = (if i = 0 then pr else Some (xs ! (i - 1)))"
  using assms
proof (induction xs arbitrary: pr i)
  case (Cons x xs)
  { case 1 then show ?case using Cons.IH(1) by (cases i) (auto simp: begp_def split: list.splits) }
  { case 2 then show ?case using Cons.IH(2) by (cases i) (auto simp: nth_Cons') }
qed simp_all

lemma ring_cong:
  assumes "\<And>x. x \<in> set xs \<Longrightarrow> nxt h' x = nxt h x \<and> prv h' x = prv h x \<and> (x \<in> dom h' \<longleftrightarrow> x \<in> dom h)"
  shows "ring h' xs = ring h xs"
  using dseg_cong [of xs h' h] assms by (simp add: ring_def)

lemma ring_dom: "ring h xs \<Longrightarrow> set xs \<subseteq> dom h"
  by (cases "xs = []") (auto simp: ring_def dest: dseg_dom)

lemma ring_rotate1: "ring h xs \<Longrightarrow> ring h (rotate1 xs)"
  by (cases xs) (auto simp: ring_def dseg_append endp_def begp_hd)

lemma ring_unrotate: "ring h (xs @ [x]) \<Longrightarrow> ring h (x # xs)"
  by (cases xs) (auto simp: ring_def dseg_append endp_def begp_hd)

end
