(* ===== verification/Posal_Bufpool.thy ===== *)
theory Posal_Bufpool
  imports Ar_Prelude
begin

text \<open>
  The buffer pool of small fixed-size nodes
  (\<^verbatim>\<open>fwk/platform/posal/src/generic/posal_bufpool.c\<close> and \<^verbatim>\<open>posal_bufpool_island.c\<close>).

  A pool owns up to \<open>num_of_node_arrays\<close> arrays of \<open>nodes_per_arr\<close> nodes; a 32-bit mask per
  array says which nodes are handed out, and a header in front of each node says where it
  belongs. \<open>all_pools\<close> is the global table of pools, a client names a pool by a handle (a
  magic number and an index). The allocator below the pool is the parameter \<open>mal\<close>: the
  address it answers for the array at a given index, or \<open>None\<close>. The pool mutex serialises the
  operations and is not represented; \<^verbatim>\<open>BUFPOOL_ASSERT\<close> is empty outside the simulator and
  \<^verbatim>\<open>posal_island_trigger_island_exit\<close> only changes a power state. Sizes are those of a 64-bit
  build, the bit search is the portable one (not the Hexagon intrinsic).
\<close>

subsection \<open>Data\<close>

record posal_bufpool_nodes =
  list_bitmask :: u32
  mem_start_addr :: ptr

record posal_bufpool_pool =
  nodes_ptr :: "posal_bufpool_nodes list"
  num_of_node_arrays :: u16
  nodes_per_arr :: u16
  node_size :: u16
  allocated_nodes :: u16
  used_nodes :: u16
  align_padding_size :: u16

record posal_bufpool_node_header =
  pool_index :: "5 word"
  node_arr_index :: "14 word"
  node_index :: "5 word"
  magic :: u8

record posal_bufpool_state =
  all_pools :: "posal_bufpool_pool option list"
  headers :: "posal_bufpool_node_header store"

datatype posal_bufpool_align = FOUR_BYTE_ALIGN | EIGHT_BYTE_ALIGN

abbreviation (input) POSAL_BUFPOOL_MAX_POOLS :: nat where "POSAL_BUFPOOL_MAX_POOLS \<equiv> 8"
abbreviation (input) POSAL_BUFPOOL_MAX_NODES :: nat where "POSAL_BUFPOOL_MAX_NODES \<equiv> 32"
abbreviation (input) POSAL_BUFPOOL_HANDLE_MAGIC :: u32 where "POSAL_BUFPOOL_HANDLE_MAGIC \<equiv> 0x5a5a0000"
abbreviation (input) POSAL_BUFPOOL_INVALID_HANDLE :: u32 where "POSAL_BUFPOOL_INVALID_HANDLE \<equiv> 0"
abbreviation (input) POSAL_BUFPOOL_NODE_MAGIC :: u8 where "POSAL_BUFPOOL_NODE_MAGIC \<equiv> 0x5a"
abbreviation (input) POSAL_BUFPOOL_FREE_THRESHOLD :: u32 where "POSAL_BUFPOOL_FREE_THRESHOLD \<equiv> 48"
abbreviation (input) SIZEOF_NODE_HEADER :: nat where "SIZEOF_NODE_HEADER \<equiv> 8"

text \<open>Bytes of one node with its header and padding, and of a whole array.\<close>

definition node_stride :: "posal_bufpool_pool \<Rightarrow> nat" where
  "node_stride p = SIZEOF_NODE_HEADER + unat (align_padding_size p) + unat (node_size p)"

definition node_arr_bytes :: "posal_bufpool_pool \<Rightarrow> nat" where
  "node_arr_bytes p = node_stride p * unat (nodes_per_arr p)"

subsection \<open>Helpers\<close>

definition validate_handle :: "posal_bufpool_state \<Rightarrow> u32 \<Rightarrow> u32 \<times> nat" where
  "validate_handle s handle =
    (let index = unat (handle AND 0xffff) in
     if POSAL_BUFPOOL_HANDLE_MAGIC \<noteq> handle AND 0xffff0000 \<or> index > POSAL_BUFPOOL_MAX_POOLS
     then (AR_EFAILED, 0)
     else if index \<ge> POSAL_BUFPOOL_MAX_POOLS then (AR_EFAILED, index)
     else if all_pools s ! index = None then (AR_EFAILED, index)
     else (AR_EOK, index))"

definition toggle_bit_in_list_bitmask_at_idx ::
    "posal_bufpool_pool \<Rightarrow> nat \<Rightarrow> nat \<Rightarrow> posal_bufpool_pool option" where
  "toggle_bit_in_list_bitmask_at_idx p index pos = do {
     arr \<leftarrow> arr_at (nodes_ptr p) index;
     Some (p\<lparr>nodes_ptr := (nodes_ptr p)[index := arr\<lparr>list_bitmask := list_bitmask arr XOR push_bit pos 1\<rparr>]\<rparr>)
   }"

text \<open>The loop \<open>while (temp > 0) { temp >>= 1; shift_count++; }\<close>.\<close>

function shift_loop :: "u32 \<Rightarrow> nat \<Rightarrow> nat" where
  "shift_loop temp shift_count = (if temp > 0 then shift_loop (drop_bit 1 temp) (shift_count + 1) else shift_count)"
  by pat_completeness auto
termination
proof (relation "measure (\<lambda>(temp, _). unat temp)")
  fix temp :: u32 and shift_count :: nat
  assume "temp > 0"
  then have "0 < unat temp" by (simp add: word_greater_zero_iff unat_gt_0)
  then show "((drop_bit 1 temp, shift_count + 1), temp, shift_count) \<in> measure (\<lambda>(temp, _). unat temp)"
    by (simp add: drop_bit_eq_div unat_div)
qed simp

declare shift_loop.simps [simp del]

definition get_first_zero_idx_in_list_bitmask :: "u32 \<Rightarrow> nat" where
  "get_first_zero_idx_in_list_bitmask num =
    (if num = NOT 0 then POSAL_BUFPOOL_MAX_NODES
     else shift_loop (NOT num AND (num + 1)) 0 - 1)"

definition posal_bufpool_allocate_new_nodes_arr_util ::
    "ptr \<Rightarrow> posal_bufpool_pool \<Rightarrow> nat \<Rightarrow> (u32 \<times> posal_bufpool_pool) option" where
  "posal_bufpool_allocate_new_nodes_arr_util mal p index = do {
     arr \<leftarrow> arr_at (nodes_ptr p) index;
     (case mal of
        None \<Rightarrow> Some (AR_ENOMEMORY, p\<lparr>nodes_ptr := (nodes_ptr p)[index := arr\<lparr>mem_start_addr := None\<rparr>]\<rparr>)
      | Some base \<Rightarrow>
          Some (AR_EOK, p\<lparr>nodes_ptr := (nodes_ptr p)[index := arr\<lparr>mem_start_addr := Some base, list_bitmask := 0\<rparr>],
                          allocated_nodes := allocated_nodes p + nodes_per_arr p\<rparr>))
   }"

definition posal_bufpool_allocate_new_nodes_arr ::
    "ptr \<Rightarrow> posal_bufpool_pool \<Rightarrow> nat \<Rightarrow> (u32 \<times> posal_bufpool_pool) option" where
  "posal_bufpool_allocate_new_nodes_arr mal p index =
    (if index \<ge> unat (num_of_node_arrays p) then Some (AR_EFAILED, p)
     else do {
       arr \<leftarrow> arr_at (nodes_ptr p) index;
       if mem_start_addr arr \<noteq> None then Some (AR_EOK, p)
       else posal_bufpool_allocate_new_nodes_arr_util mal p index
     })"

text \<open>Freed memory leaves the store: a header in it can no longer be read.\<close>

definition drop_region :: "addr \<Rightarrow> nat \<Rightarrow> 'n store \<Rightarrow> 'n store" where
  "drop_region base sz h = (\<lambda>a. if base \<le> a \<and> a < base + sz then None else h a)"

definition posal_bufpool_free_nodes_arr ::
    "posal_bufpool_pool \<Rightarrow> posal_bufpool_node_header store \<Rightarrow> nat \<Rightarrow>
     (posal_bufpool_pool \<times> posal_bufpool_node_header store) option" where
  "posal_bufpool_free_nodes_arr p hs index =
    (if index \<ge> unat (num_of_node_arrays p) then Some (p, hs)
     else do {
       arr \<leftarrow> arr_at (nodes_ptr p) index;
       (case mem_start_addr arr of
          None \<Rightarrow> Some (p, hs)
        | Some base \<Rightarrow>
            if list_bitmask arr \<noteq> 0 then Some (p, hs)
            else Some (p\<lparr>nodes_ptr := (nodes_ptr p)[index := arr\<lparr>mem_start_addr := None\<rparr>],
                         allocated_nodes := allocated_nodes p - nodes_per_arr p\<rparr>,
                       drop_region base (node_arr_bytes p) hs))
     })"

subsection \<open>Creating a pool\<close>

fun find_first_free :: "'a option list \<Rightarrow> nat" where
  "find_first_free [] = 0"
| "find_first_free (x # xs) = (if x = None then 0 else Suc (find_first_free xs))"

text \<open>
  \<open>mal_pool\<close> says whether the allocation of the pool structure succeeds, \<open>mal\<close> is the answer
  for the first node array.
\<close>

definition posal_bufpool_pool_create ::
    "bool \<Rightarrow> ptr \<Rightarrow> posal_bufpool_state \<Rightarrow> u16 \<Rightarrow> u32 \<Rightarrow> posal_bufpool_align \<Rightarrow> u16 \<Rightarrow>
     (u32 \<times> posal_bufpool_state) option" where
  "posal_bufpool_pool_create mal_pool mal s nd_size num_arrays alignment npa =
    (if unat npa > POSAL_BUFPOOL_MAX_NODES then Some (POSAL_BUFPOOL_INVALID_HANDLE, s)
     else let i = find_first_free (all_pools s) in
     if i = POSAL_BUFPOOL_MAX_POOLS then Some (POSAL_BUFPOOL_INVALID_HANDLE, s)
     else if \<not> mal_pool then Some (POSAL_BUFPOOL_INVALID_HANDLE, s)
     else do {
       (result, p) \<leftarrow> posal_bufpool_allocate_new_nodes_arr mal
          \<lparr>nodes_ptr = replicate (unat num_arrays) \<lparr>list_bitmask = 0, mem_start_addr = None\<rparr>,
           num_of_node_arrays = ucast num_arrays, nodes_per_arr = npa, node_size = nd_size,
           allocated_nodes = 0, used_nodes = 0,
           align_padding_size = (if alignment = EIGHT_BYTE_ALIGN then 4 else 0)\<rparr> 0;
       if result \<noteq> AR_EOK then Some (POSAL_BUFPOOL_INVALID_HANDLE, s)
       else Some (POSAL_BUFPOOL_HANDLE_MAGIC OR of_nat i, s\<lparr>all_pools := (all_pools s)[i := Some p]\<rparr>)
     })"

subsection \<open>Getting and returning a node\<close>

text \<open>Where node \<open>idx\<close> of an array that starts at \<open>base\<close> has its header.\<close>

definition node_hdr_addr :: "posal_bufpool_pool \<Rightarrow> addr \<Rightarrow> nat \<Rightarrow> addr" where
  "node_hdr_addr p base idx = base + unat (align_padding_size p) + idx * node_stride p"

text \<open>
  The part of the loop body after a free node was found in array \<open>i\<close>. The header fields are
  bit fields of 5, 14, 5 and 8 bits.
\<close>

definition take_node ::
    "posal_bufpool_pool \<Rightarrow> posal_bufpool_node_header store \<Rightarrow> nat \<Rightarrow> nat \<Rightarrow> nat \<Rightarrow>
     (ptr \<times> posal_bufpool_pool \<times> posal_bufpool_node_header store) option" where
  "take_node p hs pidx i next_node_idx = do {
     arr \<leftarrow> arr_at (nodes_ptr p) i;
     base \<leftarrow> mem_start_addr arr;
     let node = node_hdr_addr p base next_node_idx;
     let hs = hs(node \<mapsto> \<lparr>pool_index = of_nat pidx, node_arr_index = of_nat i,
                          node_index = of_nat next_node_idx, magic = POSAL_BUFPOOL_NODE_MAGIC\<rparr>);
     p \<leftarrow> toggle_bit_in_list_bitmask_at_idx p i next_node_idx;
     Some (Some (node + SIZEOF_NODE_HEADER), p\<lparr>used_nodes := used_nodes p + 1\<rparr>, hs)
   }"

function get_node_loop ::
    "(nat \<Rightarrow> ptr) \<Rightarrow> posal_bufpool_pool \<Rightarrow> posal_bufpool_node_header store \<Rightarrow> nat \<Rightarrow> nat \<Rightarrow> nat \<Rightarrow>
     (ptr \<times> posal_bufpool_pool \<times> posal_bufpool_node_header store) option" where
  "get_node_loop mal p hs pidx n i =
    (if i < n then
       (case arr_at (nodes_ptr p) i of
          None \<Rightarrow> None
        | Some arr \<Rightarrow>
            if mem_start_addr arr = None then
              (case posal_bufpool_allocate_new_nodes_arr (mal i) p i of
                 None \<Rightarrow> None
               | Some (result, p') \<Rightarrow>
                   if result \<noteq> AR_EOK then Some (None, p', hs)
                   else (case arr_at (nodes_ptr p') i of
                           None \<Rightarrow> None
                         | Some arr' \<Rightarrow>
                             take_node p' hs pidx i (get_first_zero_idx_in_list_bitmask (list_bitmask arr'))))
            else
              let next_node_idx = get_first_zero_idx_in_list_bitmask (list_bitmask arr) in
              if unat (nodes_per_arr p) = next_node_idx then
                (case posal_bufpool_allocate_new_nodes_arr (mal (i + 1)) p (i + 1) of
                   None \<Rightarrow> None
                 | Some (result, p') \<Rightarrow>
                     if result \<noteq> AR_EOK then Some (None, p', hs)
                     else get_node_loop mal p' hs pidx n (i + 1))
              else take_node p hs pidx i next_node_idx)
     else Some (None, p, hs))"
  by pat_completeness auto
termination
  by (relation "measure (\<lambda>(mal, p, hs, pidx, n, i). n - i)") auto

declare get_node_loop.simps [simp del]

definition posal_bufpool_get_node ::
    "(nat \<Rightarrow> ptr) \<Rightarrow> posal_bufpool_state \<Rightarrow> u32 \<Rightarrow> (ptr \<times> posal_bufpool_state) option" where
  "posal_bufpool_get_node mal s pool_handle =
    (let (rc, pidx) = validate_handle s pool_handle in
     if rc \<noteq> AR_EOK then Some (None, s)
     else do {
       p \<leftarrow> all_pools s ! pidx;
       (node, p, hs) \<leftarrow> get_node_loop mal p (headers s) pidx (unat (num_of_node_arrays p)) 0;
       Some (node, s\<lparr>all_pools := (all_pools s)[pidx := Some p], headers := hs\<rparr>)
     })"

text \<open>
  The difference of the two 16-bit counts is taken after promotion to \<open>int\<close> and compared
  with an unsigned 32-bit constant, so it wraps around at 32 bits when it is negative.
\<close>

definition free_nodes_over_threshold :: "posal_bufpool_pool \<Rightarrow> bool" where
  "free_nodes_over_threshold p \<longleftrightarrow>
     ucast (allocated_nodes p) - ucast (used_nodes p) > POSAL_BUFPOOL_FREE_THRESHOLD"

definition posal_bufpool_return_node :: "posal_bufpool_state \<Rightarrow> addr \<Rightarrow> posal_bufpool_state option" where
  "posal_bufpool_return_node s node_to_return = do {
     hdr \<leftarrow> (if node_to_return < SIZEOF_NODE_HEADER then None
            else headers s (node_to_return - SIZEOF_NODE_HEADER));
     let pidx = unat (pool_index hdr);
     if pidx \<ge> POSAL_BUFPOOL_MAX_POOLS then Some s
     else case all_pools s ! pidx of
       None \<Rightarrow> Some s
     | Some p \<Rightarrow>
         let list_index = unat (node_arr_index hdr); nd_index = unat (node_index hdr) in
         if magic hdr \<noteq> POSAL_BUFPOOL_NODE_MAGIC then Some s
         else do {
           arr \<leftarrow> arr_at (nodes_ptr p) list_index;
           if list_bitmask arr AND push_bit nd_index 1 = 0 then Some s
           else do {
             p \<leftarrow> toggle_bit_in_list_bitmask_at_idx p list_index nd_index;
             let p = p\<lparr>used_nodes := used_nodes p - 1\<rparr>;
             arr \<leftarrow> arr_at (nodes_ptr p) list_index;
             (p, hs) \<leftarrow> (if list_bitmask arr = 0 \<and> free_nodes_over_threshold p
                         then posal_bufpool_free_nodes_arr p (headers s) list_index
                         else Some (p, headers s));
             Some (s\<lparr>all_pools := (all_pools s)[pidx := Some p], headers := hs\<rparr>)
           }
         }
   }"

subsection \<open>Maintenance operations\<close>

text \<open>The loop bodies of destroy and reset: force the mask to zero, then free the array.\<close>

definition force_free_arr ::
    "posal_bufpool_pool \<Rightarrow> posal_bufpool_node_header store \<Rightarrow> nat \<Rightarrow>
     (posal_bufpool_pool \<times> posal_bufpool_node_header store) option" where
  "force_free_arr p hs i = do {
     arr \<leftarrow> arr_at (nodes_ptr p) i;
     if mem_start_addr arr = None then Some (p, hs)
     else posal_bufpool_free_nodes_arr (p\<lparr>nodes_ptr := (nodes_ptr p)[i := arr\<lparr>list_bitmask := 0\<rparr>]\<rparr>) hs i
   }"

definition free_if_unused ::
    "posal_bufpool_pool \<Rightarrow> posal_bufpool_node_header store \<Rightarrow> nat \<Rightarrow>
     (posal_bufpool_pool \<times> posal_bufpool_node_header store) option" where
  "free_if_unused p hs i = do {
     arr \<leftarrow> arr_at (nodes_ptr p) i;
     if mem_start_addr arr \<noteq> None \<and> list_bitmask arr = 0
     then do {
       (p, hs) \<leftarrow> posal_bufpool_free_nodes_arr p hs i;
       Some (p\<lparr>allocated_nodes := allocated_nodes p - nodes_per_arr p\<rparr>, hs)
     }
     else Some (p, hs)
   }"

text \<open>\<open>for (i = first; i < num_of_node_arrays; i++)\<close> over one of these bodies.\<close>

fun for_arrays ::
    "(posal_bufpool_pool \<Rightarrow> posal_bufpool_node_header store \<Rightarrow> nat \<Rightarrow>
      (posal_bufpool_pool \<times> posal_bufpool_node_header store) option) \<Rightarrow> nat list \<Rightarrow>
     posal_bufpool_pool \<Rightarrow> posal_bufpool_node_header store \<Rightarrow>
     (posal_bufpool_pool \<times> posal_bufpool_node_header store) option" where
  "for_arrays body [] p hs = Some (p, hs)"
| "for_arrays body (i # is) p hs =
     (case body p hs i of None \<Rightarrow> None | Some (p', hs') \<Rightarrow> for_arrays body is p' hs')"

definition posal_bufpool_pool_destroy :: "posal_bufpool_state \<Rightarrow> u32 \<Rightarrow> posal_bufpool_state option" where
  "posal_bufpool_pool_destroy s pool_handle =
    (let (rc, pidx) = validate_handle s pool_handle in
     if rc \<noteq> AR_EOK then Some s
     else do {
       p \<leftarrow> all_pools s ! pidx;
       (p, hs) \<leftarrow> for_arrays force_free_arr [0..<unat (num_of_node_arrays p)] p (headers s);
       Some (s\<lparr>all_pools := (all_pools s)[pidx := None], headers := hs\<rparr>)
     })"

definition posal_bufpool_pool_reset_to_base ::
    "ptr \<Rightarrow> posal_bufpool_state \<Rightarrow> u32 \<Rightarrow> posal_bufpool_state option" where
  "posal_bufpool_pool_reset_to_base mal s pool_handle =
    (let (rc, pidx) = validate_handle s pool_handle in
     if rc \<noteq> AR_EOK then Some s
     else do {
       p \<leftarrow> all_pools s ! pidx;
       arr \<leftarrow> arr_at (nodes_ptr p) 0;
       p \<leftarrow> (if mem_start_addr arr = None
             then map_option snd (posal_bufpool_allocate_new_nodes_arr mal p 0)
             else Some (p\<lparr>nodes_ptr := (nodes_ptr p)[0 := arr\<lparr>list_bitmask := 0\<rparr>]\<rparr>));
       (p, hs) \<leftarrow> for_arrays force_free_arr [1..<unat (num_of_node_arrays p)] p (headers s);
       let p = p\<lparr>allocated_nodes := nodes_per_arr p, used_nodes := 0\<rparr>;
       Some (s\<lparr>all_pools := (all_pools s)[pidx := Some p], headers := hs\<rparr>)
     })"

definition posal_bufpool_pool_free_unused_lists ::
    "posal_bufpool_state \<Rightarrow> u32 \<Rightarrow> posal_bufpool_state option" where
  "posal_bufpool_pool_free_unused_lists s pool_handle =
    (let (rc, pidx) = validate_handle s pool_handle in
     if rc \<noteq> AR_EOK then Some s
     else do {
       p \<leftarrow> all_pools s ! pidx;
       (p, hs) \<leftarrow> for_arrays free_if_unused [0..<unat (num_of_node_arrays p)] p (headers s);
       Some (s\<lparr>all_pools := (all_pools s)[pidx := Some p], headers := hs\<rparr>)
     })"

subsection \<open>Queries\<close>

text \<open>The inner loop \<open>for (j = 0; j < 32; j++) nodes_used += list_bitmask >> j & 1\<close>.\<close>

definition mask_count :: "u32 \<Rightarrow> nat" where
  "mask_count m = sum_list (map (\<lambda>j. unat (drop_bit j m AND 1)) [0..<32])"

text \<open>
  The first two arguments say whether the output pointers are \<open>NULL\<close>; the pair is what is
  written to \<open>*bytes_used_ptr\<close> and \<open>*bytes_allocated_ptr\<close>, if anything.
\<close>

definition posal_bufpool_profile_mem_usage ::
    "posal_bufpool_state \<Rightarrow> u32 \<Rightarrow> ptr \<Rightarrow> ptr \<Rightarrow> (u32 \<times> (u32 \<times> u32) option) option" where
  "posal_bufpool_profile_mem_usage s pool_handle bytes_used_ptr bytes_allocated_ptr =
    (let (rc, pidx) = validate_handle s pool_handle in
     if rc \<noteq> AR_EOK then Some (AR_EFAILED, None)
     else if bytes_used_ptr = None \<or> bytes_allocated_ptr = None then Some (AR_EFAILED, None)
     else do {
       p \<leftarrow> all_pools s ! pidx;
       let nodes_used = sum_list (map (\<lambda>arr. mask_count (list_bitmask arr))
                                      (take (unat (num_of_node_arrays p)) (nodes_ptr p)));
       Some (AR_EOK, Some (of_nat nodes_used * ucast (node_size p), ucast (allocated_nodes p) * ucast (node_size p)))
     })"

definition posal_bufpool_profile_all_mem_usage :: "posal_bufpool_state \<Rightarrow> u32" where
  "posal_bufpool_profile_all_mem_usage s =
     sum_list (map (\<lambda>po. case po of None \<Rightarrow> 0
                         | Some p \<Rightarrow> sum_list (map (\<lambda>arr. if mem_start_addr arr \<noteq> None then of_nat (node_arr_bytes p) else 0)
                                       (take (unat (num_of_node_arrays p)) (nodes_ptr p))))
                   (all_pools s))"

definition posal_bufpool_is_address_in_bufpool :: "posal_bufpool_state \<Rightarrow> addr \<Rightarrow> u32 \<Rightarrow> bool" where
  "posal_bufpool_is_address_in_bufpool s ptr pool_handle =
    (let (rc, pidx) = validate_handle s pool_handle in
     if rc \<noteq> AR_EOK then False
     else case all_pools s ! pidx of
       None \<Rightarrow> False
     | Some p \<Rightarrow> list_ex (\<lambda>arr. case mem_start_addr arr of None \<Rightarrow> False
                               | Some start_addr \<Rightarrow> start_addr \<le> ptr \<and> ptr < start_addr + node_arr_bytes p)
                         (take (unat (num_of_node_arrays p)) (nodes_ptr p)))"

end
