(* ===== verification/Spf_List.thy ===== *)
theory Spf_List
  imports Linked_Nodes Posal_Bufpool
begin

text \<open>
  The list utilities (\<^verbatim>\<open>fwk/spf/utils/list/src/spf_list_utils.c\<close>, \<^verbatim>\<open>spf_list_utils_island.c\<close>).

  A list is a chain of \<open>spf_list_node\<close>s in the store \<open>nodes\<close>; a node comes from one of two
  buffer pools or from the heap. \<open>objs\<close> is the memory of the objects that nodes point to, as
  far as the list utilities free it. A parameter \<open>spf_list_node_t **\<close> is a \<open>ptr option\<close>,
  \<open>None\<close> when the double pointer itself is \<open>NULL\<close>, and its new content is part of the result.
  The traversals follow \<open>next_ptr\<close> without a bound: they are \<open>partial_function\<close>s, and a
  chain that never ends gives \<open>None\<close>. What the allocators answer is the argument \<open>env\<close>.
\<close>

subsection \<open>Data\<close>

record spf_list_node = dl_node +
  obj_ptr :: ptr

record spf_list_state =
  nodes :: "spf_list_node store"
  objs :: "addr set"
  pool :: posal_bufpool_state
  bufpool_handles :: "u32 list"
  spf_mem_island_heap_id :: u32

record alloc_env =
  pool_struct_mal :: bool
  pool_mal :: "nat \<Rightarrow> ptr"
  heap_mal :: ptr

abbreviation (input) SPF_LIST_NUM_POOLS :: nat where "SPF_LIST_NUM_POOLS \<equiv> 2"
abbreviation (input) SIZEOF_SPF_LIST_NODE :: u16 where "SIZEOF_SPF_LIST_NODE \<equiv> 24"

definition rd_obj :: "spf_list_node store \<Rightarrow> ptr \<Rightarrow> ptr option" where
  "rd_obj h p = map_option obj_ptr (load h p)"

subsection \<open>Pools\<close>

definition set_handle_from_heap_id :: "spf_list_state \<Rightarrow> u32 \<Rightarrow> u32 \<Rightarrow> spf_list_state" where
  "set_handle_from_heap_id st heap_id handle =
    (let heap_id = unat (GET_ACTUAL_HEAP_ID heap_id) in
     if heap_id \<ge> SPF_LIST_NUM_POOLS then st
     else st\<lparr>bufpool_handles := (bufpool_handles st)[heap_id := handle]\<rparr>)"

definition get_handle_from_heap_id :: "spf_list_state \<Rightarrow> u32 \<Rightarrow> u32" where
  "get_handle_from_heap_id st heap_id =
    (let temp_heap_id = unat (if POSAL_IS_ISLAND_HEAP_ID heap_id
                              then GET_ACTUAL_HEAP_ID (spf_mem_island_heap_id st)
                              else GET_ACTUAL_HEAP_ID heap_id) in
     if temp_heap_id \<ge> SPF_LIST_NUM_POOLS then 0
     else bufpool_handles st ! temp_heap_id)"

definition spf_list_buf_pool_init ::
    "alloc_env \<Rightarrow> spf_list_state \<Rightarrow> u32 \<Rightarrow> u32 \<Rightarrow> u16 \<Rightarrow> spf_list_state option" where
  "spf_list_buf_pool_init env st heap_id num_arrays npa = do {
     (handle, pl) \<leftarrow> posal_bufpool_pool_create (pool_struct_mal env) (pool_mal env 0) (pool st)
                        SIZEOF_SPF_LIST_NODE num_arrays FOUR_BYTE_ALIGN npa;
     Some (set_handle_from_heap_id (st\<lparr>pool := pl\<rparr>) heap_id handle)
   }"

definition spf_list_buf_pool_deinit :: "spf_list_state \<Rightarrow> u32 \<Rightarrow> spf_list_state option" where
  "spf_list_buf_pool_deinit st heap_id = do {
     pl \<leftarrow> posal_bufpool_pool_destroy (pool st) (get_handle_from_heap_id st heap_id);
     Some (st\<lparr>pool := pl\<rparr>)
   }"

definition spf_list_buf_pool_reset :: "alloc_env \<Rightarrow> spf_list_state \<Rightarrow> u32 \<Rightarrow> spf_list_state option" where
  "spf_list_buf_pool_reset env st heap_id = do {
     pl \<leftarrow> posal_bufpool_pool_reset_to_base (pool_mal env 0) (pool st) (get_handle_from_heap_id st heap_id);
     Some (st\<lparr>pool := pl\<rparr>)
   }"

definition spf_list_node_is_addr_from_heap :: "spf_list_state \<Rightarrow> addr \<Rightarrow> u32 \<Rightarrow> bool" where
  "spf_list_node_is_addr_from_heap st ptr heap_id =
     posal_bufpool_is_address_in_bufpool (pool st) ptr (get_handle_from_heap_id st heap_id)"

text \<open>The loop over the pools; the pair is \<open>*bytes_used_ptr\<close> and \<open>*bytes_allocated_ptr\<close>.\<close>

fun pool_profile_loop :: "posal_bufpool_state \<Rightarrow> u32 list \<Rightarrow> u32 \<Rightarrow> u32 \<Rightarrow> (u32 \<times> u32 \<times> u32) option" where
  "pool_profile_loop pl [] used alloc = Some (AR_EOK, used, alloc)"
| "pool_profile_loop pl (hdl # hdls) used alloc =
     (case posal_bufpool_profile_mem_usage pl hdl (Some 0) (Some 0) of
        None \<Rightarrow> None
      | Some (result, out) \<Rightarrow>
          if result \<noteq> AR_EOK then Some (result, used, alloc)
          else (case out of None \<Rightarrow> None
                | Some (bytes_used, bytes_allocated) \<Rightarrow>
                    pool_profile_loop pl hdls (used + bytes_used) (alloc + bytes_allocated)))"

definition spf_list_pool_profile_memory :: "spf_list_state \<Rightarrow> u32 \<Rightarrow> u32 \<Rightarrow> (u32 \<times> u32 \<times> u32) option" where
  "spf_list_pool_profile_memory st used alloc =
     pool_profile_loop (pool st) (take SPF_LIST_NUM_POOLS (bufpool_handles st)) used alloc"

subsection \<open>Nodes\<close>

definition spf_list_get_node :: "alloc_env \<Rightarrow> spf_list_state \<Rightarrow> u32 \<Rightarrow> (ptr \<times> spf_list_state) option" where
  "spf_list_get_node env st heap_id = do {
     (p, pl) \<leftarrow> posal_bufpool_get_node (pool_mal env) (pool st) (get_handle_from_heap_id st heap_id);
     Some (p, st\<lparr>pool := pl\<rparr>)
   }"

text \<open>A node that is given back to its pool or to the heap is no longer owned.\<close>

definition spf_list_node_return :: "spf_list_state \<Rightarrow> ptr \<Rightarrow> spf_list_state option" where
  "spf_list_node_return st node_ptr =
    (case node_ptr of None \<Rightarrow> Some st
     | Some a \<Rightarrow> do {
         pl \<leftarrow> posal_bufpool_return_node (pool st) a;
         Some (st\<lparr>pool := pl, nodes := (nodes st)(a := None)\<rparr>)
       })"

definition spf_list_node_free :: "spf_list_state \<Rightarrow> ptr \<Rightarrow> bool \<Rightarrow> spf_list_state option" where
  "spf_list_node_free st node_ptr pool_used =
    (if pool_used then spf_list_node_return st node_ptr
     else case node_ptr of None \<Rightarrow> Some st
          | Some a \<Rightarrow> if a \<in> dom (nodes st) then Some (st\<lparr>nodes := (nodes st)(a := None)\<rparr>) else None)"

definition spf_list_create_new_node ::
    "alloc_env \<Rightarrow> spf_list_state \<Rightarrow> ptr \<Rightarrow> u32 \<Rightarrow> bool \<Rightarrow> (ptr \<times> spf_list_state) option" where
  "spf_list_create_new_node env st obj heap_id use_pool = do {
     (new_node_ptr, st) \<leftarrow> (if use_pool then spf_list_get_node env st heap_id else Some (heap_mal env, st));
     (case new_node_ptr of
        None \<Rightarrow> Some (None, st)
      | Some a \<Rightarrow> Some (Some a, st\<lparr>nodes := (nodes st)(a \<mapsto> \<lparr>next_ptr = None, prev_ptr = None, obj_ptr = obj\<rparr>)\<rparr>))
   }"

text \<open>\<open>posal_memory_free\<close> of an object: nothing for \<open>NULL\<close>, a fault for memory not owned.\<close>

definition free_obj :: "spf_list_state \<Rightarrow> ptr \<Rightarrow> spf_list_state option" where
  "free_obj st p =
    (case p of None \<Rightarrow> Some st
     | Some a \<Rightarrow> if a \<in> objs st then Some (st\<lparr>objs := objs st - {a}\<rparr>) else None)"

subsection \<open>Adding nodes\<close>

partial_function (option) tail_loop :: "spf_list_node store \<Rightarrow> ptr \<Rightarrow> ptr option" where
  "tail_loop h p = do {
     n \<leftarrow> rd_next h p;
     if n = None then Some p else tail_loop h n
   }"

definition spf_list_get_tail_node :: "spf_list_node store \<Rightarrow> ptr \<Rightarrow> (u32 \<times> ptr) option" where
  "spf_list_get_tail_node h head_ptr =
    (if head_ptr = None then Some (AR_EBADPARAM, None)
     else do { t \<leftarrow> tail_loop h head_ptr; Some (AR_EOK, t) })"

definition spf_list_insert_head ::
    "alloc_env \<Rightarrow> spf_list_state \<Rightarrow> ptr option \<Rightarrow> ptr \<Rightarrow> u32 \<Rightarrow> bool \<Rightarrow> (u32 \<times> ptr option \<times> spf_list_state) option" where
  "spf_list_insert_head env st head_ptr obj heap_id use_pool =
    (case head_ptr of None \<Rightarrow> Some (AR_EBADPARAM, head_ptr, st)
     | Some hp \<Rightarrow>
         if obj = None then Some (AR_EBADPARAM, head_ptr, st)
         else do {
           (new_node_ptr, st) \<leftarrow> spf_list_create_new_node env st obj heap_id use_pool;
           if new_node_ptr = None then Some (AR_ENOMEMORY, head_ptr, st)
           else do {
             h \<leftarrow> wr_next (nodes st) new_node_ptr hp;
             h \<leftarrow> wr_prev_if h hp new_node_ptr;
             Some (AR_EOK, Some new_node_ptr, st\<lparr>nodes := h\<rparr>)
           }
         })"

definition spf_list_insert_before_node ::
    "spf_list_state \<Rightarrow> ptr option \<Rightarrow> ptr \<Rightarrow> ptr \<Rightarrow> (u32 \<times> ptr option \<times> spf_list_state) option" where
  "spf_list_insert_before_node st head_pptr new_node_ptr node_ptr =
    (case head_pptr of None \<Rightarrow> Some (AR_EBADPARAM, head_pptr, st)
     | Some hp \<Rightarrow>
         if new_node_ptr = None \<or> node_ptr = None then Some (AR_EBADPARAM, head_pptr, st)
         else do {
           h \<leftarrow> wr_next (nodes st) new_node_ptr node_ptr;
           pv \<leftarrow> rd_prev h node_ptr;
           h \<leftarrow> wr_prev h new_node_ptr pv;
           pv \<leftarrow> rd_prev h node_ptr;
           h \<leftarrow> wr_next_if h pv new_node_ptr;
           h \<leftarrow> wr_prev h node_ptr new_node_ptr;
           Some (AR_EOK, Some (if hp = node_ptr then new_node_ptr else hp), st\<lparr>nodes := h\<rparr>)
         })"

definition spf_list_create_and_insert_before_node ::
    "alloc_env \<Rightarrow> spf_list_state \<Rightarrow> ptr option \<Rightarrow> ptr \<Rightarrow> ptr \<Rightarrow> u32 \<Rightarrow> bool \<Rightarrow>
     (u32 \<times> ptr option \<times> spf_list_state) option" where
  "spf_list_create_and_insert_before_node env st head_pptr obj node_ptr heap_id use_pool =
    (if head_pptr = None \<or> obj = None \<or> node_ptr = None then Some (AR_EBADPARAM, head_pptr, st)
     else do {
       (new_node_ptr, st) \<leftarrow> spf_list_create_new_node env st obj heap_id use_pool;
       if new_node_ptr = None then Some (AR_ENOMEMORY, head_pptr, st)
       else spf_list_insert_before_node st head_pptr new_node_ptr node_ptr
     })"

text \<open>The code after the tail was needed: \<open>tail_ptr->next_ptr = node; node->prev_ptr = tail_ptr\<close>.\<close>

definition link_at_tail :: "spf_list_node store \<Rightarrow> ptr \<Rightarrow> ptr \<Rightarrow> spf_list_node store option" where
  "link_at_tail h tail_ptr node_ptr = do {
     h \<leftarrow> wr_next h tail_ptr node_ptr;
     wr_prev h node_ptr tail_ptr
   }"

definition spf_list_attach_at_tail ::
    "spf_list_state \<Rightarrow> ptr option \<Rightarrow> ptr \<Rightarrow> (u32 \<times> ptr option \<times> spf_list_state) option" where
  "spf_list_attach_at_tail st head_ptr node_ptr =
    (case head_ptr of None \<Rightarrow> Some (AR_EBADPARAM, head_ptr, st)
     | Some hp \<Rightarrow>
         if node_ptr = None then Some (AR_EBADPARAM, head_ptr, st)
         else if hp = None then Some (AR_EOK, Some node_ptr, st)
         else do {
           (_, tail_ptr) \<leftarrow> spf_list_get_tail_node (nodes st) hp;
           h \<leftarrow> link_at_tail (nodes st) tail_ptr node_ptr;
           Some (AR_EOK, head_ptr, st\<lparr>nodes := h\<rparr>)
         })"

definition spf_list_insert_tail ::
    "alloc_env \<Rightarrow> spf_list_state \<Rightarrow> ptr option \<Rightarrow> ptr \<Rightarrow> u32 \<Rightarrow> bool \<Rightarrow> (u32 \<times> ptr option \<times> spf_list_state) option" where
  "spf_list_insert_tail env st head_ptr obj heap_id use_pool =
    (case head_ptr of None \<Rightarrow> Some (AR_EBADPARAM, head_ptr, st)
     | Some hp \<Rightarrow>
         if obj = None then Some (AR_EBADPARAM, head_ptr, st)
         else do {
           (new_node_ptr, st) \<leftarrow> spf_list_create_new_node env st obj heap_id use_pool;
           if new_node_ptr = None then Some (AR_ENOMEMORY, head_ptr, st)
           else if hp = None then Some (AR_EOK, Some new_node_ptr, st)
           else do {
             (_, tail_ptr) \<leftarrow> spf_list_get_tail_node (nodes st) hp;
             h \<leftarrow> link_at_tail (nodes st) tail_ptr new_node_ptr;
             Some (AR_EOK, head_ptr, st\<lparr>nodes := h\<rparr>)
           }
         })"

definition spf_list_push_node ::
    "spf_list_state \<Rightarrow> ptr option \<Rightarrow> ptr \<Rightarrow> (u32 \<times> ptr option \<times> spf_list_state) option" where
  "spf_list_push_node st head_ptr node_ptr =
    (case head_ptr of None \<Rightarrow> Some (AR_EBADPARAM, head_ptr, st)
     | Some hp \<Rightarrow>
         if node_ptr = None then Some (AR_EBADPARAM, head_ptr, st)
         else do {
           h \<leftarrow> wr_next (nodes st) node_ptr hp;
           h \<leftarrow> wr_prev h node_ptr None;
           h \<leftarrow> wr_prev_if h hp node_ptr;
           Some (AR_EOK, Some node_ptr, st\<lparr>nodes := h\<rparr>)
         })"

text \<open>The search of \<open>spf_list_search_and_add_obj\<close>: whether the object was met, and the last node seen.\<close>

partial_function (option) search_tail_loop ::
    "spf_list_node store \<Rightarrow> ptr \<Rightarrow> ptr \<Rightarrow> ptr \<Rightarrow> (bool \<times> ptr) option" where
  "search_tail_loop h curr_ptr tail_ptr obj =
    (if curr_ptr = None then Some (False, tail_ptr)
     else do {
       ob \<leftarrow> rd_obj h curr_ptr;
       if ob = obj then Some (True, tail_ptr)
       else do { n \<leftarrow> rd_next h curr_ptr; search_tail_loop h n curr_ptr obj }
     })"

text \<open>The bool of the result is \<open>*node_added\<close>; \<open>None\<close> there when it is not written.\<close>

definition spf_list_search_and_add_obj ::
    "alloc_env \<Rightarrow> spf_list_state \<Rightarrow> ptr option \<Rightarrow> ptr \<Rightarrow> u32 \<Rightarrow> bool \<Rightarrow>
     (u32 \<times> bool option \<times> ptr option \<times> spf_list_state) option" where
  "spf_list_search_and_add_obj env st head_ptr obj heap_id use_pool =
    (case head_ptr of None \<Rightarrow> Some (AR_EFAILED, None, head_ptr, st)
     | Some hp \<Rightarrow>
         if obj = None then Some (AR_EFAILED, None, head_ptr, st)
         else do {
           (found, tail_ptr) \<leftarrow> search_tail_loop (nodes st) hp None obj;
           if found then Some (AR_EOK, Some False, head_ptr, st)
           else do {
             (new_node_ptr, st) \<leftarrow> spf_list_create_new_node env st obj heap_id use_pool;
             if new_node_ptr = None then Some (AR_ENOMEMORY, Some False, head_ptr, st)
             else if hp = None then Some (AR_EOK, Some True, Some new_node_ptr, st)
             else do {
               h \<leftarrow> link_at_tail (nodes st) tail_ptr new_node_ptr;
               Some (AR_EOK, Some True, head_ptr, st\<lparr>nodes := h\<rparr>)
             }
           }
         })"

subsection \<open>Joining lists\<close>

definition spf_list_merge_lists_internal ::
    "spf_list_state \<Rightarrow> ptr \<Rightarrow> ptr \<Rightarrow> (u32 \<times> ptr \<times> ptr \<times> spf_list_state) option" where
  "spf_list_merge_lists_internal st dest src =
    (if dest \<noteq> src then
       (if dest = None then Some (AR_EOK, src, None, st)
        else if src \<noteq> None then do {
          (_, tail_ptr) \<leftarrow> spf_list_get_tail_node (nodes st) dest;
          h \<leftarrow> wr_next (nodes st) tail_ptr src;
          h \<leftarrow> wr_prev h src tail_ptr;
          Some (AR_EOK, dest, None, st\<lparr>nodes := h\<rparr>)
        }
        else Some (AR_EOK, dest, None, st))
     else Some (AR_EOK, dest, None, st))"

definition spf_list_merge_lists ::
    "spf_list_state \<Rightarrow> ptr option \<Rightarrow> ptr option \<Rightarrow> (u32 \<times> ptr option \<times> ptr option \<times> spf_list_state) option" where
  "spf_list_merge_lists st dest_list_ptr src_list_ptr =
    (case (dest_list_ptr, src_list_ptr) of
       (Some dest, Some src) \<Rightarrow> do {
         (rc, dest, src, st) \<leftarrow> spf_list_merge_lists_internal st dest src;
         Some (rc, Some dest, Some src, st)
       }
     | _ \<Rightarrow> Some (AR_EFAILED, dest_list_ptr, src_list_ptr, st))"

text \<open>
  The two head variables are taken to be different ones. A \<open>NULL\<close> \<open>src_head_pptr\<close> is
  dereferenced at the end.
\<close>

definition spf_list_move_node_to_another_list ::
    "spf_list_state \<Rightarrow> ptr option \<Rightarrow> ptr \<Rightarrow> ptr option \<Rightarrow> (ptr option \<times> ptr option \<times> spf_list_state) option" where
  "spf_list_move_node_to_another_list st list_pptr node_ptr src_head_pptr =
    (if list_pptr = None \<or> node_ptr = None then Some (list_pptr, src_head_pptr, st)
     else do {
       nx \<leftarrow> rd_next (nodes st) node_ptr;
       pv \<leftarrow> rd_prev (nodes st) node_ptr;
       h \<leftarrow> wr_next (nodes st) node_ptr None;
       h \<leftarrow> wr_prev h node_ptr None;
       h \<leftarrow> wr_prev_if h nx pv;
       h \<leftarrow> wr_next_if h pv nx;
       (_, list_pptr, _, st) \<leftarrow> spf_list_merge_lists (st\<lparr>nodes := h\<rparr>) list_pptr (Some node_ptr);
       sh \<leftarrow> src_head_pptr;
       Some (list_pptr, Some (if sh = node_ptr then nx else sh), st)
     })"

subsection \<open>Removing nodes\<close>

text \<open>The four lines that take a node out of its chain.\<close>

definition unlink :: "spf_list_node store \<Rightarrow> ptr \<Rightarrow> ptr \<Rightarrow> spf_list_node store option" where
  "unlink h prev_node_ptr next_node_ptr = do {
     h \<leftarrow> wr_next_if h prev_node_ptr next_node_ptr;
     wr_prev_if h next_node_ptr prev_node_ptr
   }"

definition spf_list_remove_node_from_list_only :: "spf_list_state \<Rightarrow> ptr \<Rightarrow> (u32 \<times> spf_list_state) option" where
  "spf_list_remove_node_from_list_only st node_ptr =
    (if node_ptr = None then Some (AR_EBADPARAM, st)
     else do {
       pv \<leftarrow> rd_prev (nodes st) node_ptr;
       nx \<leftarrow> rd_next (nodes st) node_ptr;
       h \<leftarrow> unlink (nodes st) pv nx;
       Some (AR_EOK, st\<lparr>nodes := h\<rparr>)
     })"

definition spf_list_remove_node_from_list :: "spf_list_state \<Rightarrow> ptr \<Rightarrow> bool \<Rightarrow> (u32 \<times> spf_list_state) option" where
  "spf_list_remove_node_from_list st node_ptr pool_used = do {
     (result, st) \<leftarrow> spf_list_remove_node_from_list_only st node_ptr;
     if result \<noteq> AR_EOK then Some (result, st)
     else do { st \<leftarrow> spf_list_node_free st node_ptr pool_used; Some (AR_EOK, st) }
   }"

definition spf_list_pop_head :: "spf_list_state \<Rightarrow> ptr option \<Rightarrow> bool \<Rightarrow> (ptr \<times> ptr option \<times> spf_list_state) option" where
  "spf_list_pop_head st head_ptr pool_used =
    (case head_ptr of None \<Rightarrow> Some (None, head_ptr, st)
     | Some hp \<Rightarrow>
         if hp = None then Some (None, head_ptr, st)
         else do {
           ob \<leftarrow> rd_obj (nodes st) hp;
           nx \<leftarrow> rd_next (nodes st) hp;
           h \<leftarrow> wr_prev_if (nodes st) nx None;
           nx \<leftarrow> rd_next h hp;
           st \<leftarrow> spf_list_node_free (st\<lparr>nodes := h\<rparr>) hp pool_used;
           Some (ob, Some nx, st)
         })"

partial_function (option) delete_list_loop ::
    "spf_list_state \<Rightarrow> ptr \<Rightarrow> bool \<Rightarrow> bool \<Rightarrow> spf_list_state option" where
  "delete_list_loop st curr_ptr delete_instance pool_used =
    (if curr_ptr = None then Some st
     else do {
       nx \<leftarrow> rd_next (nodes st) curr_ptr;
       ob \<leftarrow> rd_obj (nodes st) curr_ptr;
       st \<leftarrow> (if delete_instance then free_obj st ob else Some st);
       st \<leftarrow> spf_list_node_free st curr_ptr pool_used;
       delete_list_loop st nx delete_instance pool_used
     })"

definition spf_list_delete_list_instances ::
    "spf_list_state \<Rightarrow> ptr option \<Rightarrow> bool \<Rightarrow> bool \<Rightarrow> (u32 \<times> ptr option \<times> spf_list_state) option" where
  "spf_list_delete_list_instances st head_ptr delete_instance pool_used =
    (case head_ptr of None \<Rightarrow> Some (AR_EFAILED, None, st)
     | Some hp \<Rightarrow> do {
         st \<leftarrow> delete_list_loop st hp delete_instance pool_used;
         Some (AR_EOK, Some None, st)
       })"

definition spf_list_delete_list ::
    "spf_list_state \<Rightarrow> ptr option \<Rightarrow> bool \<Rightarrow> (u32 \<times> ptr option \<times> spf_list_state) option" where
  "spf_list_delete_list st head_ptr pool_used = spf_list_delete_list_instances st head_ptr False pool_used"

definition spf_list_delete_list_and_free_objs ::
    "spf_list_state \<Rightarrow> ptr option \<Rightarrow> bool \<Rightarrow> (u32 \<times> ptr option \<times> spf_list_state) option" where
  "spf_list_delete_list_and_free_objs st head_pptr pool_used = spf_list_delete_list_instances st head_pptr True pool_used"

text \<open>
  A head variable passed next to a node variable: absent, the same variable, or another
  one with its content. The first of the two functions below is written so that both
  arguments may be the same variable.
\<close>

datatype head_ref = NoHead | SameVar | OtherVar ptr

definition is_head :: "head_ref \<Rightarrow> ptr \<Rightarrow> bool" where
  "is_head r node_ptr = (case r of NoHead \<Rightarrow> False | SameVar \<Rightarrow> True | OtherVar hp \<Rightarrow> hp = node_ptr)"

definition set_head :: "head_ref \<Rightarrow> ptr \<Rightarrow> head_ref" where
  "set_head r v = (case r of OtherVar _ \<Rightarrow> OtherVar v | _ \<Rightarrow> r)"

text \<open>The result is the code, \<open>*node_pptr\<close> and the head variable.\<close>

definition spf_list_delete_node_and_free_obj ::
    "spf_list_state \<Rightarrow> ptr option \<Rightarrow> head_ref \<Rightarrow> bool \<Rightarrow> (u32 \<times> ptr option \<times> head_ref \<times> spf_list_state) option" where
  "spf_list_delete_node_and_free_obj st node_pptr head_ref pool_used =
    (case node_pptr of
       Some (Some a) \<Rightarrow> do {
         ob \<leftarrow> rd_obj (nodes st) (Some a);
         st \<leftarrow> free_obj st ob;
         pv \<leftarrow> rd_prev (nodes st) (Some a);
         nx \<leftarrow> rd_next (nodes st) (Some a);
         h \<leftarrow> unlink (nodes st) pv nx;
         st \<leftarrow> spf_list_node_free (st\<lparr>nodes := h\<rparr>) (Some a) pool_used;
         Some (AR_EOK, Some nx, (if is_head head_ref (Some a) then set_head head_ref nx else head_ref), st)
       }
     | _ \<Rightarrow> Some (AR_EBADPARAM, node_pptr, head_ref, st))"

definition spf_list_delete_node ::
    "spf_list_state \<Rightarrow> ptr option \<Rightarrow> bool \<Rightarrow> (u32 \<times> ptr option \<times> spf_list_state) option" where
  "spf_list_delete_node st node_pptr pool_used =
    (case node_pptr of
       Some (Some a) \<Rightarrow> do {
         nx \<leftarrow> rd_next (nodes st) (Some a);
         pv \<leftarrow> rd_prev (nodes st) (Some a);
         h \<leftarrow> unlink (nodes st) pv nx;
         st \<leftarrow> spf_list_node_free (st\<lparr>nodes := h\<rparr>) (Some a) pool_used;
         Some (AR_EOK, Some nx, st)
       }
     | _ \<Rightarrow> Some (AR_EBADPARAM, node_pptr, st))"

text \<open>
  Here the head is updated before the node is freed: when both arguments are the same
  variable, it is the next node that is freed.
\<close>

definition spf_list_delete_node_update_head ::
    "spf_list_state \<Rightarrow> ptr option \<Rightarrow> head_ref \<Rightarrow> bool \<Rightarrow> (u32 \<times> ptr option \<times> head_ref \<times> spf_list_state) option" where
  "spf_list_delete_node_update_head st node_pptr head_ref pool_used =
    (case node_pptr of
       Some (Some a) \<Rightarrow> do {
         nx \<leftarrow> rd_next (nodes st) (Some a);
         pv \<leftarrow> rd_prev (nodes st) (Some a);
         h \<leftarrow> unlink (nodes st) pv nx;
         st \<leftarrow> spf_list_node_free (st\<lparr>nodes := h\<rparr>) (if head_ref = SameVar then nx else Some a) pool_used;
         Some (AR_EOK, Some nx, (if is_head head_ref (Some a) then set_head head_ref nx else head_ref), st)
       }
     | _ \<Rightarrow> Some (AR_EBADPARAM, node_pptr, head_ref, st))"

definition spf_list_realloc_replace_node ::
    "alloc_env \<Rightarrow> spf_list_state \<Rightarrow> ptr option \<Rightarrow> ptr \<Rightarrow> ptr \<Rightarrow> bool \<Rightarrow> bool \<Rightarrow> u32 \<Rightarrow>
     (u32 \<times> ptr option \<times> spf_list_state) option" where
  "spf_list_realloc_replace_node env st head_pptr node_ptr new_obj_ptr pool_used use_pool heap_id =
    (case head_pptr of None \<Rightarrow> Some (AR_EBADPARAM, head_pptr, st)
     | Some hp \<Rightarrow>
         if node_ptr = None then Some (AR_EBADPARAM, head_pptr, st)
         else do {
           pv \<leftarrow> rd_prev (nodes st) node_ptr;
           nx \<leftarrow> rd_next (nodes st) node_ptr;
           (temp_ptr, st) \<leftarrow> spf_list_create_new_node env st new_obj_ptr heap_id use_pool;
           if temp_ptr = None then Some (AR_EFAILED, head_pptr, st)
           else do {
             h \<leftarrow> wr_next (nodes st) temp_ptr nx;
             h \<leftarrow> wr_prev h temp_ptr pv;
             h \<leftarrow> wr_prev_if h nx temp_ptr;
             h \<leftarrow> wr_next_if h pv temp_ptr;
             st \<leftarrow> spf_list_node_free (st\<lparr>nodes := h\<rparr>) node_ptr pool_used;
             Some (AR_EOK, Some (if node_ptr = hp then temp_ptr else hp), st)
           }
         })"

subsection \<open>Searching\<close>

partial_function (option) find_loop :: "spf_list_node store \<Rightarrow> ptr \<Rightarrow> ptr \<Rightarrow> ptr option" where
  "find_loop h curr_ptr obj =
    (if curr_ptr = None then Some None
     else do {
       ob \<leftarrow> rd_obj h curr_ptr;
       if ob = obj then Some curr_ptr
       else do { n \<leftarrow> rd_next h curr_ptr; find_loop h n obj }
     })"

definition spf_list_search_delete_node ::
    "spf_list_state \<Rightarrow> ptr option \<Rightarrow> ptr \<Rightarrow> bool \<Rightarrow> bool \<Rightarrow> (bool \<times> ptr option \<times> spf_list_state) option" where
  "spf_list_search_delete_node st head_ptr obj to_delete pool_used =
    (case head_ptr of None \<Rightarrow> Some (False, head_ptr, st)
     | Some hp \<Rightarrow>
         if obj = None then Some (False, head_ptr, st)
         else do {
           curr_ptr \<leftarrow> find_loop (nodes st) hp obj;
           if curr_ptr = None then Some (False, head_ptr, st)
           else if \<not> to_delete then Some (True, head_ptr, st)
           else do {
             nx \<leftarrow> rd_next (nodes st) curr_ptr;
             (hp, h) \<leftarrow>
               (if curr_ptr = hp then do {
                  h \<leftarrow> wr_prev_if (nodes st) nx None;
                  Some (nx, h)
                }
                else do {
                  pv \<leftarrow> rd_prev (nodes st) curr_ptr;
                  h \<leftarrow> wr_next (nodes st) pv nx;
                  nx \<leftarrow> rd_next h curr_ptr;
                  h \<leftarrow> wr_prev_if h nx pv;
                  Some (hp, h)
                });
             st \<leftarrow> spf_list_node_free (st\<lparr>nodes := h\<rparr>) curr_ptr pool_used;
             Some (True, Some hp, st)
           }
         })"

definition spf_list_find_delete_node ::
    "spf_list_state \<Rightarrow> ptr option \<Rightarrow> ptr \<Rightarrow> bool \<Rightarrow> (bool \<times> ptr option \<times> spf_list_state) option" where
  "spf_list_find_delete_node st head_ptr obj pool_used = spf_list_search_delete_node st head_ptr obj True pool_used"

definition spf_list_contains_node ::
    "spf_list_state \<Rightarrow> ptr option \<Rightarrow> ptr \<Rightarrow> (bool \<times> ptr option \<times> spf_list_state) option" where
  "spf_list_contains_node st head_ptr obj = spf_list_search_delete_node st head_ptr obj False True"

text \<open>\<open>out\<close> says whether \<open>obj_list_node_pptr\<close> is not \<open>NULL\<close>; the second result is its content.\<close>

definition spf_list_find_list_node ::
    "spf_list_state \<Rightarrow> ptr \<Rightarrow> ptr \<Rightarrow> bool \<Rightarrow> (u32 \<times> ptr option) option" where
  "spf_list_find_list_node st head_ptr obj out =
    (if head_ptr = None \<or> obj = None \<or> \<not> out then Some (AR_EBADPARAM, None)
     else do {
       p \<leftarrow> find_loop (nodes st) head_ptr obj;
       Some (if p = None then AR_EFAILED else AR_EOK, Some p)
     })"

partial_function (option) count_loop :: "spf_list_node store \<Rightarrow> ptr \<Rightarrow> u32 \<Rightarrow> u32 option" where
  "count_loop h head_ptr count =
    (if head_ptr = None then Some count
     else do { n \<leftarrow> rd_next h head_ptr; count_loop h n (count + 1) })"

definition spf_list_count_elements :: "spf_list_node store \<Rightarrow> ptr \<Rightarrow> u32 option" where
  "spf_list_count_elements h head_ptr = (if head_ptr = None then Some 0 else count_loop h head_ptr 0)"

end
