(* ===== verification/Bufpool_Inv.thy ===== *)
theory Bufpool_Inv
  imports Posal_Bufpool
begin

text \<open>
  The invariant of the buffer pool of theory \<open>Posal_Bufpool\<close>: \<open>bufpool_inv\<close> says that the
  arrays of all pools occupy disjoint memory, that the masks and the two counters of a pool
  agree with its nodes in use, and that each node in use carries a header naming its place.
  \<open>live_nodes\<close> is the set of addresses handed out. The theory holds the facts about masks,
  node addresses and the replacement of one pool or one array that the proofs about the
  operations share.
\<close>

subsection \<open>The search for a clear bit\<close>

lemma lowest_zero_int:
  "\<exists>k. NOT (int n) AND (int n + 1) = 2 ^ k \<and> \<not> bit (int n) k \<and> (\<forall>j<k. bit (int n) j)"
proof (induction n rule: less_induct)
  case (less n)
  show ?case
  proof (cases "even n")
    case True
    then obtain m where n: "n = 2 * m" by blast
    have "NOT (int n) AND (int n + 1) = 1"
      unfolding n by (subst and_rec) (simp add: not_int_div_2 flip: bit_simps)
    with True show ?thesis by (intro exI [of _ 0]) (simp add: bit_0)
  next
    case False
    then obtain m where n: "n = 2 * m + 1" by (auto elim: oddE)
    from less.IH [of m] n obtain k where k: "NOT (int m) AND (int m + 1) = 2 ^ k" "\<not> bit (int m) k"
      "\<forall>j<k. bit (int m) j" by auto
    have "NOT (int n) AND (int n + 1) = 2 * (NOT (int m) AND (int m + 1))"
      unfolding n by (subst and_rec) (simp add: not_int_div_2 add.commute)
    with k have "NOT (int n) AND (int n + 1) = 2 ^ Suc k" by simp
    moreover have "bit (int n) (Suc j) = bit (int m) j" for j
      by (simp add: n bit_Suc)
    moreover have "bit (int n) 0" using False by (simp add: bit_0)
    ultimately show ?thesis using k
      by (intro exI [of _ "Suc k"]) (auto simp: less_Suc_eq_0_disj)
  qed
qed

lemma shift_loop_pow: "k < 32 \<Longrightarrow> shift_loop (2 ^ k) c = c + k + 1"
proof (induction k arbitrary: c)
  case 0
  show ?case by (simp add: shift_loop.simps)
next
  case (Suc k)
  have "drop_bit 1 (2 ^ Suc k :: u32) = 2 ^ k"
    using Suc.prems by (intro bit_word_eqI) (auto simp: bit_simps simp del: power_Suc)
  moreover have "(2 ^ Suc k :: u32) > 0"
    using Suc.prems by (simp add: word_greater_zero_iff del: power_Suc)
  ultimately show ?case
    using Suc by (subst shift_loop.simps) simp
qed



lemma uint_lowest_zero:
  fixes m :: u32
  assumes "m \<noteq> NOT 0"
  shows "uint (NOT m AND (m + 1)) = NOT (uint m) AND (uint m + 1)"
proof -
  have lt: "uint m + 1 < 2 ^ 32"
  proof (rule ccontr)
    assume "\<not> uint m + 1 < 2 ^ 32"
    moreover have "uint m < 2 ^ 32" using uint_lt2p [of m] by simp
    ultimately have "uint m = 2 ^ 32 - 1" by linarith
    then have "uint (m + 1) = 0" by (simp add: uint_plus_if')
    then have "m + 1 = 0" by (simp add: uint_0_iff)
    then have "m = - 1" by (simp add: eq_neg_iff_add_eq_0)
    with assms show False by simp
  qed
  then have p1: "uint (m + 1) = uint m + 1" by (simp add: uint_plus_if')
  have nb: "\<not> bit (uint m + 1) j" if "32 \<le> j" for j
  proof -
    have "uint m + 1 < 2 ^ j" using lt power_increasing [OF that, of "2::int"] by linarith
    then show ?thesis by (simp add: bit_iff_odd div_pos_pos_trivial uint_ge_0)
  qed
  show ?thesis
  proof (rule bit_eqI)
    fix j
    have "bit (uint (NOT m AND (m + 1))) j \<longleftrightarrow> j < 32 \<and> \<not> bit (uint m) j \<and> bit (uint (m + 1)) j"
      by (auto simp: bit_simps)
    then show "bit (uint (NOT m AND (m + 1))) j = bit (NOT (uint m) AND (uint m + 1)) j"
      using nb [of j] by (auto simp: p1 bit_simps not_less)
  qed
qed

lemma first_zero_spec:
  assumes "m \<noteq> NOT 0"
  shows "get_first_zero_idx_in_list_bitmask m < 32" (is "?k < _")
    and "\<not> bit m (get_first_zero_idx_in_list_bitmask m)"
    and "\<And>j. j < get_first_zero_idx_in_list_bitmask m \<Longrightarrow> bit m j"
proof -
  obtain k where k: "NOT (uint m) AND (uint m + 1) = 2 ^ k" "\<not> bit (uint m) k" "\<forall>j<k. bit (uint m) j"
    using lowest_zero_int [of "unat m"] by auto
  have u: "uint (NOT m AND (m + 1)) = 2 ^ k" using uint_lowest_zero [OF assms] k(1) by simp
  then have "(2::int) ^ k < 2 ^ 32" using uint_lt2p [of "NOT m AND (m + 1)"] by simp
  then have k32: "k < 32" by (rule power_less_imp_less_exp [rotated]) simp
  have "(0::u32) < 2 ^ k" using k32 by (simp add: word_greater_zero_iff)
  then have "uint (2 ^ k :: u32) = 2 ^ k" by (rule uint_2p)
  with u have "NOT m AND (m + 1) = 2 ^ k" by (intro word_uint_eqI) simp
  then have eq: "?k = k" using assms k32 by (simp add: get_first_zero_idx_in_list_bitmask_def shift_loop_pow)
  show "?k < 32" "\<not> bit m ?k" "\<And>j. j < ?k \<Longrightarrow> bit m j"
    using k k32 by (auto simp: eq bit_simps)
qed

lemma first_zero_full: "get_first_zero_idx_in_list_bitmask (NOT 0) = 32"
  by (simp add: get_first_zero_idx_in_list_bitmask_def)

subsection \<open>Masks as sets\<close>

lemma unat_and_1: "unat (drop_bit j m AND 1) = of_bool (bit m j)" for m :: u32
  by (simp add: and_one_eq bit_iff_odd_drop_bit mod2_eq_if)

lemma bit_u32_less: "bit m j \<Longrightarrow> j < 32" for m :: u32
  using bit_imp_le_length by fastforce

lemma finite_bits [simp]: "finite {j. bit m j}" for m :: u32
  by (rule finite_subset [of _ "{..<32}"]) (auto dest: bit_u32_less)

lemma mask_count_card: "mask_count m = card {j. bit m j}"
proof -
  have "mask_count m = (\<Sum>j<32. of_bool (bit m j))"
    by (simp add: mask_count_def unat_and_1 interv_sum_list_conv_sum_set_nat atLeast0LessThan)
  also have "\<dots> = card ({..<32} \<inter> {j. bit m j})"
    by (simp add: of_bool_def sum.If_cases Int_def)
  also have "{..<32} \<inter> {j. bit m j} = {j. bit m j}" by (auto dest: bit_u32_less)
  finally show ?thesis .
qed

lemma bit_toggle: "bit (m XOR 2 ^ k) j \<longleftrightarrow> bit m j \<noteq> (j = k \<and> k < 32)" for m :: u32
  by (auto simp: bit_simps)

lemma bit_and_single: "m AND 2 ^ k = 0 \<longleftrightarrow> \<not> bit m k" for m :: u32
proof
  assume "m AND 2 ^ k = 0"
  then have "\<not> bit (m AND 2 ^ k) k" by simp
  then show "\<not> bit m k" by (auto simp: bit_simps dest: bit_u32_less)
next
  assume "\<not> bit m k"
  then show "m AND 2 ^ k = 0" by (intro bit_word_eqI) (auto simp: bit_simps)
qed

lemma mask_count_set: "\<not> bit m k \<Longrightarrow> k < 32 \<Longrightarrow> mask_count (m XOR 2 ^ k) = Suc (mask_count m)"
proof -
  assume "\<not> bit m k" "k < 32"
  moreover from this have "{j. bit (m XOR 2 ^ k) j} = insert k {j. bit m j}"
    by (auto simp: bit_toggle)
  ultimately show ?thesis by (simp add: mask_count_card)
qed

lemma mask_count_clear: "bit m k \<Longrightarrow> Suc (mask_count (m XOR 2 ^ k)) = mask_count m"
proof -
  assume k: "bit m k"
  then have "{j. bit (m XOR 2 ^ k) j} = {j. bit m j} - {k}"
    by (auto simp: bit_toggle dest: bit_u32_less)
  moreover have "Suc (card ({j. bit m j} - {k})) = card {j. bit m j}"
    using k by (intro card_Suc_Diff1) auto
  ultimately show ?thesis by (simp only: mask_count_card)
qed

lemma mask_count_0 [simp]: "mask_count 0 = 0"
  by (simp add: mask_count_card)

lemma mask_zero_iff: "m = 0 \<longleftrightarrow> (\<forall>j. \<not> bit m j)" for m :: u32
  by (auto intro: bit_word_eqI)

subsection \<open>Well-formed pools\<close>

text \<open>The nodes a pool has handed out, as pairs of array and node index.\<close>

definition live :: "posal_bufpool_pool \<Rightarrow> (nat \<times> nat) set" where
  "live p = {(i, j). i < length (nodes_ptr p) \<and> bit (list_bitmask (nodes_ptr p ! i)) j}"

definition num_live :: "posal_bufpool_pool \<Rightarrow> nat" where
  "num_live p = sum_list (map (\<lambda>arr. mask_count (list_bitmask arr)) (nodes_ptr p))"

definition num_arrs :: "posal_bufpool_pool \<Rightarrow> nat" where
  "num_arrs p = sum_list (map (\<lambda>arr. of_bool (mem_start_addr arr \<noteq> None)) (nodes_ptr p))"

definition arr_wf :: "posal_bufpool_pool \<Rightarrow> nat \<Rightarrow> posal_bufpool_nodes \<Rightarrow> bool" where
  "arr_wf p i arr \<longleftrightarrow> (mem_start_addr arr = None \<longrightarrow> list_bitmask arr = 0)
     \<and> (\<forall>j. bit (list_bitmask arr) j \<longrightarrow> j < unat (nodes_per_arr p))
     \<and> (unat (num_of_node_arrays p) \<le> i \<longrightarrow> mem_start_addr arr = None)"

definition pool_wf :: "posal_bufpool_pool \<Rightarrow> bool" where
  "pool_wf p \<longleftrightarrow> unat (num_of_node_arrays p) \<le> length (nodes_ptr p) \<and> unat (num_of_node_arrays p) \<le> 2 ^ 14
     \<and> 0 < unat (nodes_per_arr p) \<and> unat (nodes_per_arr p) \<le> POSAL_BUFPOOL_MAX_NODES
     \<and> (\<forall>i<length (nodes_ptr p). arr_wf p i (nodes_ptr p ! i))
     \<and> used_nodes p = of_nat (num_live p) \<and> allocated_nodes p = nodes_per_arr p * of_nat (num_arrs p)"

definition arr_region :: "posal_bufpool_pool \<Rightarrow> nat \<Rightarrow> addr set" where
  "arr_region p i = (case mem_start_addr (nodes_ptr p ! i) of None \<Rightarrow> {} | Some b \<Rightarrow> {b ..< b + node_arr_bytes p})"

text \<open>A pool's live nodes carry a header that names their place.\<close>

definition hdrs_wf :: "posal_bufpool_node_header store \<Rightarrow> nat \<Rightarrow> posal_bufpool_pool \<Rightarrow> bool" where
  "hdrs_wf hs k p \<longleftrightarrow> (\<forall>i j b. (i, j) \<in> live p \<longrightarrow> mem_start_addr (nodes_ptr p ! i) = Some b \<longrightarrow>
     hs (node_hdr_addr p b j) = Some \<lparr>pool_index = of_nat k, node_arr_index = of_nat i,
                                     node_index = of_nat j, magic = POSAL_BUFPOOL_NODE_MAGIC\<rparr>)"

definition pool_at :: "posal_bufpool_state \<Rightarrow> nat \<Rightarrow> posal_bufpool_pool option" where
  "pool_at s k = (if k < length (all_pools s) then all_pools s ! k else None)"

definition regions_disjoint :: "posal_bufpool_state \<Rightarrow> bool" where
  "regions_disjoint s \<longleftrightarrow> (\<forall>k p i k' p' i'. pool_at s k = Some p \<longrightarrow> pool_at s k' = Some p' \<longrightarrow>
     i < length (nodes_ptr p) \<longrightarrow> i' < length (nodes_ptr p') \<longrightarrow> (k, i) \<noteq> (k', i') \<longrightarrow>
     arr_region p i \<inter> arr_region p' i' = {})"

definition bufpool_inv :: "posal_bufpool_state \<Rightarrow> bool" where
  "bufpool_inv s \<longleftrightarrow> length (all_pools s) = POSAL_BUFPOOL_MAX_POOLS \<and> regions_disjoint s
     \<and> (\<forall>k p. pool_at s k = Some p \<longrightarrow> pool_wf p \<and> hdrs_wf (headers s) k p)"

text \<open>The addresses handed out by one pool and by all pools.\<close>

definition pool_nodes :: "posal_bufpool_pool \<Rightarrow> addr set" where
  "pool_nodes p = {node_hdr_addr p b j + SIZEOF_NODE_HEADER | i j b.
     (i, j) \<in> live p \<and> mem_start_addr (nodes_ptr p ! i) = Some b}"

definition live_nodes :: "posal_bufpool_state \<Rightarrow> addr set" where
  "live_nodes s = {a. \<exists>k p. pool_at s k = Some p \<and> a \<in> pool_nodes p}"

text \<open>
  What the pool relies on of the allocator: an address answered for a missing array of the
  pool \<open>k\<close> starts a block that overlaps no array in use and no other answer.
\<close>

definition mal_ok :: "(nat \<Rightarrow> ptr) \<Rightarrow> posal_bufpool_state \<Rightarrow> nat \<Rightarrow> bool" where
  "mal_ok mal s k \<longleftrightarrow> (\<forall>p i b. pool_at s k = Some p \<longrightarrow> i < length (nodes_ptr p) \<longrightarrow>
     mem_start_addr (nodes_ptr p ! i) = None \<longrightarrow> mal i = Some b \<longrightarrow>
       (\<forall>k' p' i'. pool_at s k' = Some p' \<longrightarrow> i' < length (nodes_ptr p') \<longrightarrow>
          {b ..< b + node_arr_bytes p} \<inter> arr_region p' i' = {})
     \<and> (\<forall>i' b'. i' \<noteq> i \<longrightarrow> mal i' = Some b' \<longrightarrow>
          {b ..< b + node_arr_bytes p} \<inter> {b' ..< b' + node_arr_bytes p} = {}))"

subsection \<open>Addresses of nodes\<close>

lemma node_block_in_region:
  assumes "j < unat (nodes_per_arr p)" "x < SIZEOF_NODE_HEADER + unat (node_size p)"
  shows "b \<le> node_hdr_addr p b j + x" "node_hdr_addr p b j + x < b + node_arr_bytes p"
proof -
  have "(j + 1) * node_stride p \<le> unat (nodes_per_arr p) * node_stride p"
    using assms(1) by (intro mult_le_mono1) simp
  then show "node_hdr_addr p b j + x < b + node_arr_bytes p"
    using assms(2) by (simp add: node_hdr_addr_def node_arr_bytes_def mult.commute [of "node_stride p"])
      (simp add: node_stride_def)
qed (simp add: node_hdr_addr_def)

lemma node_blocks_disjoint_same:
  assumes "j < j'" "x < SIZEOF_NODE_HEADER + unat (node_size p)"
  shows "node_hdr_addr p b j + x < node_hdr_addr p b j'"
proof -
  have "(j + 1) * node_stride p \<le> j' * node_stride p"
    using assms(1) by (intro mult_le_mono1) simp
  then show ?thesis using assms(2) by (simp add: node_hdr_addr_def) (simp add: node_stride_def)
qed

lemma node_hdr_addr_inj: "node_hdr_addr p b j = node_hdr_addr p b j' \<Longrightarrow> j = j'"
  using node_blocks_disjoint_same [of j j' 0 p b] node_blocks_disjoint_same [of j' j 0 p b]
  by (cases j j' rule: linorder_cases) auto

text \<open>Two places of the state have the same header address only if they are the same place.\<close>

lemma node_place_unique:
  assumes "regions_disjoint s" "pool_at s k = Some p" "pool_at s k' = Some p'"
    and "i < length (nodes_ptr p)" "i' < length (nodes_ptr p')"
    and "mem_start_addr (nodes_ptr p ! i) = Some b" "mem_start_addr (nodes_ptr p' ! i') = Some b'"
    and "j < unat (nodes_per_arr p)" "j' < unat (nodes_per_arr p')"
    and "node_hdr_addr p b j = node_hdr_addr p' b' j'"
  shows "k = k' \<and> i = i' \<and> j = j'"
proof -
  have "node_hdr_addr p b j \<in> arr_region p i"
    using node_block_in_region [of j p 0 b] assms(6,8) by (simp add: arr_region_def)
  moreover have "node_hdr_addr p b j \<in> arr_region p' i'"
    using node_block_in_region [of j' p' 0 b'] assms(7,9,10) by (simp add: arr_region_def)
  ultimately have "k = k' \<and> i = i'"
    using assms(1-5) unfolding regions_disjoint_def by blast
  with assms show ?thesis by (auto dest: node_hdr_addr_inj)
qed

subsection \<open>Replacing a pool of the state\<close>

definition put_pool ::
    "posal_bufpool_state \<Rightarrow> nat \<Rightarrow> posal_bufpool_pool \<Rightarrow> posal_bufpool_node_header store \<Rightarrow> posal_bufpool_state" where
  "put_pool s k p hs = s\<lparr>all_pools := (all_pools s)[k := Some p], headers := hs\<rparr>"

lemma pool_at_put: "pool_at s k = Some p \<Longrightarrow> pool_at (put_pool s k p' hs) k' = (if k' = k then Some p' else pool_at s k')"
  by (auto simp: pool_at_def put_pool_def split: if_splits)

lemma headers_put [simp]: "headers (put_pool s k p hs) = hs"
  by (simp add: put_pool_def)

lemma length_put [simp]: "length (all_pools (put_pool s k p hs)) = length (all_pools s)"
  by (simp add: put_pool_def)

lemma put_put [simp]: "put_pool (put_pool s k p hs) k p' hs' = put_pool s k p' hs'"
  by (simp add: put_pool_def)

lemma put_same: "pool_at s k = Some p \<Longrightarrow> put_pool s k p (headers s) = s"
  by (cases s) (auto simp: put_pool_def pool_at_def list_update_same_conv split: if_splits)

text \<open>Pools that differ only in one array keep their other regions.\<close>

lemma regions_disjoint_put:
  assumes rd: "regions_disjoint s" and p: "pool_at s k = Some p"
    and len: "length (nodes_ptr p') = length (nodes_ptr p)"
    and same: "\<And>i. i < length (nodes_ptr p) \<Longrightarrow> i \<noteq> i0 \<Longrightarrow> arr_region p' i = arr_region p i"
    and new: "\<And>k' p2 i'. pool_at s k' = Some p2 \<Longrightarrow> i' < length (nodes_ptr p2) \<Longrightarrow> (k', i') \<noteq> (k, i0)
                \<Longrightarrow> arr_region p' i0 \<inter> arr_region p2 i' = {}"
  shows "regions_disjoint (put_pool s k p' hs)"
proof -
  have key: "arr_region q i \<inter> arr_region q' i' = {}"
    if "pool_at (put_pool s k p' hs) l = Some q" "pool_at (put_pool s k p' hs) l' = Some q'"
      "i < length (nodes_ptr q)" "i' < length (nodes_ptr q')" "(l, i) \<noteq> (l', i')" for l q i l' q' i'
  proof -
    let ?old = "\<lambda>l. if l = k then p else the (pool_at s l)"
    have old: "pool_at s l = Some (?old l)" "pool_at s l' = Some (?old l')"
      using that(1,2) p by (auto simp: pool_at_put [OF p] split: if_splits)
    have lens: "i < length (nodes_ptr (?old l))" "i' < length (nodes_ptr (?old l'))"
      using that p len by (auto simp: pool_at_put [OF p] split: if_splits)
    have reg: "arr_region q i = arr_region (?old l) i" if "(l, i) \<noteq> (k, i0)"
      using that lens \<open>pool_at (put_pool s k p' hs) l = Some q\<close> same
      by (auto simp: pool_at_put [OF p] split: if_splits)
    have reg': "arr_region q' i' = arr_region (?old l') i'" if "(l', i') \<noteq> (k, i0)"
      using that lens \<open>pool_at (put_pool s k p' hs) l' = Some q'\<close> same
      by (auto simp: pool_at_put [OF p] split: if_splits)
    consider "(l, i) = (k, i0)" | "(l', i') = (k, i0)" | "(l, i) \<noteq> (k, i0)" "(l', i') \<noteq> (k, i0)" by blast
    then show ?thesis
    proof cases
      case 1
      then have "q = p'" "(l', i') \<noteq> (k, i0)" using that by (auto simp: pool_at_put [OF p])
      with 1 show ?thesis using new [OF old(2) lens(2)] reg' by auto
    next
      case 2
      then have "q' = p'" "(l, i) \<noteq> (k, i0)" using that by (auto simp: pool_at_put [OF p])
      with 2 show ?thesis using new [OF old(1) lens(1)] reg by auto
    next
      case 3
      then show ?thesis using reg reg' old lens that(5) rd unfolding regions_disjoint_def by metis
    qed
  qed
  then show ?thesis unfolding regions_disjoint_def by blast
qed

lemma regions_disjoint_sub:
  assumes rd: "regions_disjoint s" and p: "pool_at s k = Some p"
    and len: "length (nodes_ptr p') = length (nodes_ptr p)"
    and sub: "\<And>i. i < length (nodes_ptr p) \<Longrightarrow> arr_region p' i \<subseteq> arr_region p i"
  shows "regions_disjoint (put_pool s k p' hs)"
proof -
  have old: "\<exists>q'. pool_at s l = Some q' \<and> i < length (nodes_ptr q') \<and> arr_region q i \<subseteq> arr_region q' i"
    if "pool_at (put_pool s k p' hs) l = Some q" "i < length (nodes_ptr q)" for l q i
    using that p len sub by (auto simp: pool_at_put [OF p] split: if_splits)
  have "arr_region q i \<inter> arr_region r j = {}"
    if "pool_at (put_pool s k p' hs) l = Some q" "i < length (nodes_ptr q)"
      "pool_at (put_pool s k p' hs) m = Some r" "j < length (nodes_ptr r)" "(l, i) \<noteq> (m, j)" for l q i m r j
  proof -
    note asm = that
    obtain q' r' where "pool_at s l = Some q'" "i < length (nodes_ptr q')" "arr_region q i \<subseteq> arr_region q' i"
      "pool_at s m = Some r'" "j < length (nodes_ptr r')" "arr_region r j \<subseteq> arr_region r' j"
      using old [OF asm(1,2)] old [OF asm(3,4)] by blast
    moreover from this have "arr_region q' i \<inter> arr_region r' j = {}"
      using rd asm(5) unfolding regions_disjoint_def by blast
    ultimately show ?thesis by blast
  qed
  then show ?thesis unfolding regions_disjoint_def by blast
qed

lemma bufpool_inv_put:
  assumes inv: "bufpool_inv s" and p: "pool_at s k = Some p"
    and "regions_disjoint (put_pool s k p' hs)" and "pool_wf p'" and "hdrs_wf hs k p'"
    and "\<And>k' p2. pool_at s k' = Some p2 \<Longrightarrow> k' \<noteq> k \<Longrightarrow> hdrs_wf hs k' p2"
  shows "bufpool_inv (put_pool s k p' hs)"
  using assms by (auto simp: bufpool_inv_def pool_at_put split: if_splits)

lemma inv_pool:
  assumes "bufpool_inv s" "pool_at s k = Some p"
  shows "pool_wf p" "hdrs_wf (headers s) k p" "k < POSAL_BUFPOOL_MAX_POOLS" "regions_disjoint s"
  using assms by (auto simp: bufpool_inv_def pool_at_def split: if_splits)

lemma pool_wf_arr:
  assumes "pool_wf p" "i < length (nodes_ptr p)"
  shows "mem_start_addr (nodes_ptr p ! i) = None \<Longrightarrow> list_bitmask (nodes_ptr p ! i) = 0"
    and "bit (list_bitmask (nodes_ptr p ! i)) j \<Longrightarrow> j < unat (nodes_per_arr p)"
    and "unat (num_of_node_arrays p) \<le> i \<Longrightarrow> mem_start_addr (nodes_ptr p ! i) = None"
  using assms by (auto simp: pool_wf_def arr_wf_def)

definition other_nodes :: "posal_bufpool_state \<Rightarrow> nat \<Rightarrow> addr set" where
  "other_nodes s k = {a. \<exists>k' p. k' \<noteq> k \<and> pool_at s k' = Some p \<and> a \<in> pool_nodes p}"

lemma live_nodes_split: "pool_at s k = Some p \<Longrightarrow> live_nodes s = other_nodes s k \<union> pool_nodes p"
  unfolding live_nodes_def other_nodes_def by (intro set_eqI iffI) (auto, metis option.inject)

lemma live_nodes_put: "pool_at s k = Some p \<Longrightarrow> live_nodes (put_pool s k p' hs) = other_nodes s k \<union> pool_nodes p'"
  by (auto simp: live_nodes_def other_nodes_def pool_at_put split: if_splits)

lemma live_nodes_put_same:
  "pool_at s k = Some p \<Longrightarrow> pool_nodes p' = pool_nodes p \<Longrightarrow> live_nodes (put_pool s k p' hs) = live_nodes s"
  by (simp add: live_nodes_put live_nodes_split)

text \<open>A live node lies in an allocated array, at an index below the array size.\<close>

lemma live_place:
  assumes "pool_wf p" "(i, j) \<in> live p"
  obtains b where "i < length (nodes_ptr p)" "mem_start_addr (nodes_ptr p ! i) = Some b"
    "j < unat (nodes_per_arr p)" "i < unat (num_of_node_arrays p)"
proof -
  from assms(2) have i: "i < length (nodes_ptr p)" and b: "bit (list_bitmask (nodes_ptr p ! i)) j"
    by (auto simp: live_def)
  from b have "mem_start_addr (nodes_ptr p ! i) \<noteq> None"
    by (intro notI) (use pool_wf_arr(1) [OF assms(1) i] b in simp)
  with that i b pool_wf_arr(2,3) [OF assms(1) i] show thesis
    by (metis leI option.exhaust)
qed

subsection \<open>The steps of the operations\<close>

text \<open>Sums over the arrays when one array is replaced.\<close>

lemma sum_list_map_update:
  fixes f :: "'a \<Rightarrow> nat"
  assumes "i < length xs"
  shows "sum_list (map f (xs[i := x])) + f (xs ! i) = sum_list (map f xs) + f x"
  using assms by (induction xs arbitrary: i) (auto split: nat.splits)

definition upd_arr :: "posal_bufpool_pool \<Rightarrow> nat \<Rightarrow> posal_bufpool_nodes \<Rightarrow> posal_bufpool_pool" where
  "upd_arr p i arr = p\<lparr>nodes_ptr := (nodes_ptr p)[i := arr]\<rparr>"

lemma upd_arr_simps [simp]:
  "nodes_ptr (upd_arr p i arr) = (nodes_ptr p)[i := arr]"
  "num_of_node_arrays (upd_arr p i arr) = num_of_node_arrays p"
  "nodes_per_arr (upd_arr p i arr) = nodes_per_arr p" "node_size (upd_arr p i arr) = node_size p"
  "allocated_nodes (upd_arr p i arr) = allocated_nodes p" "used_nodes (upd_arr p i arr) = used_nodes p"
  "align_padding_size (upd_arr p i arr) = align_padding_size p"
  by (simp_all add: upd_arr_def)

lemma cfg_simps [simp]:
  "node_stride (upd_arr p i arr) = node_stride p" "node_arr_bytes (upd_arr p i arr) = node_arr_bytes p"
  "node_hdr_addr (upd_arr p i arr) = node_hdr_addr p"
  "node_stride (p\<lparr>used_nodes := u\<rparr>) = node_stride p" "node_arr_bytes (p\<lparr>used_nodes := u\<rparr>) = node_arr_bytes p"
  "node_hdr_addr (p\<lparr>used_nodes := u\<rparr>) = node_hdr_addr p"
  "node_stride (p\<lparr>allocated_nodes := u\<rparr>) = node_stride p"
  "node_arr_bytes (p\<lparr>allocated_nodes := u\<rparr>) = node_arr_bytes p"
  "node_hdr_addr (p\<lparr>allocated_nodes := u\<rparr>) = node_hdr_addr p"
  by (auto simp: node_stride_def node_arr_bytes_def node_hdr_addr_def fun_eq_iff)

lemma arr_region_simps [simp]:
  "arr_region (p\<lparr>used_nodes := u\<rparr>) = arr_region p" "arr_region (p\<lparr>allocated_nodes := u\<rparr>) = arr_region p"
  by (auto simp: arr_region_def fun_eq_iff split: option.splits)

lemma live_simps [simp]: "live (p\<lparr>used_nodes := u\<rparr>) = live p" "live (p\<lparr>allocated_nodes := u\<rparr>) = live p"
  by (auto simp: live_def)

lemma arr_region_upd_other: "i \<noteq> i0 \<Longrightarrow> arr_region (upd_arr p i0 arr) i = arr_region p i"
  by (simp add: arr_region_def split: option.splits)

lemma arr_region_upd_same:
  "i0 < length (nodes_ptr p) \<Longrightarrow>
   arr_region (upd_arr p i0 arr) i0 = (case mem_start_addr arr of None \<Rightarrow> {} | Some b \<Rightarrow> {b ..< b + node_arr_bytes p})"
  by (simp add: arr_region_def split: option.splits)

lemma live_upd_arr:
  "i0 < length (nodes_ptr p) \<Longrightarrow>
   live (upd_arr p i0 arr) = {(i, j) \<in> live p. i \<noteq> i0} \<union> {(i0, j) | j. bit (list_bitmask arr) j}"
  by (auto simp: live_def nth_list_update split: if_splits)

lemma pool_wf_upd:
  assumes "pool_wf p" "i0 < length (nodes_ptr p)" "arr_wf p i0 arr"
    and "nodes_ptr p' = (nodes_ptr p)[i0 := arr]" "num_of_node_arrays p' = num_of_node_arrays p"
    and "nodes_per_arr p' = nodes_per_arr p"
    and "used_nodes p' + of_nat (mask_count (list_bitmask (nodes_ptr p ! i0))) = used_nodes p + of_nat (mask_count (list_bitmask arr))"
    and "allocated_nodes p' + nodes_per_arr p * of_bool (mem_start_addr (nodes_ptr p ! i0) \<noteq> None)
         = allocated_nodes p + nodes_per_arr p * of_bool (mem_start_addr arr \<noteq> None)"
  shows "pool_wf p'"
proof -
  let ?f = "\<lambda>arr. mask_count (list_bitmask arr)" and ?g = "\<lambda>arr. of_bool (mem_start_addr arr \<noteq> None) :: nat"
  have "num_live p' + ?f (nodes_ptr p ! i0) = num_live p + ?f arr"
    using sum_list_map_update [OF assms(2), of ?f arr] by (simp add: num_live_def assms(4))
  then have "(of_nat (num_live p') + of_nat (?f (nodes_ptr p ! i0)) :: u16) = of_nat (num_live p) + of_nat (?f arr)"
    by (metis of_nat_add)
  then have used: "used_nodes p' = of_nat (num_live p')"
    using assms(1,7) by (simp add: pool_wf_def) (metis add_right_cancel)
  have "num_arrs p' + ?g (nodes_ptr p ! i0) = num_arrs p + ?g arr"
    using sum_list_map_update [OF assms(2), of ?g arr] by (simp add: num_arrs_def assms(4))
  then have "(of_nat (num_arrs p') + of_nat (?g (nodes_ptr p ! i0)) :: u16) = of_nat (num_arrs p) + of_nat (?g arr)"
    by (metis of_nat_add)
  then have "nodes_per_arr p * of_nat (num_arrs p') + nodes_per_arr p * of_nat (?g (nodes_ptr p ! i0))
        = nodes_per_arr p * of_nat (num_arrs p) + nodes_per_arr p * of_nat (?g arr)"
    by (metis distrib_left)
  moreover have "allocated_nodes p = nodes_per_arr p * of_nat (num_arrs p)"
    using assms(1) by (simp add: pool_wf_def)
  ultimately have "allocated_nodes p' + nodes_per_arr p * of_bool (mem_start_addr (nodes_ptr p ! i0) \<noteq> None)
      = nodes_per_arr p * of_nat (num_arrs p') + nodes_per_arr p * of_bool (mem_start_addr (nodes_ptr p ! i0) \<noteq> None)"
    using assms(8) by (simp only: of_nat_of_bool)
  then have alloc: "allocated_nodes p' = nodes_per_arr p * of_nat (num_arrs p')"
    by (simp only: add_right_cancel)
  show ?thesis
    using assms(1-6) used alloc by (auto simp: pool_wf_def arr_wf_def nth_list_update)
qed

text \<open>Headers of live nodes when one header is written or a region is dropped.\<close>

lemma hdrs_wf_other:
  assumes inv: "bufpool_inv s" and p2: "pool_at s k' = Some p2"
    and "\<And>i j b. (i, j) \<in> live p2 \<Longrightarrow> mem_start_addr (nodes_ptr p2 ! i) = Some b \<Longrightarrow>
           hs (node_hdr_addr p2 b j) = headers s (node_hdr_addr p2 b j)"
  shows "hdrs_wf hs k' p2"
  using inv_pool(2) [OF inv p2] assms(3) by (auto simp: hdrs_wf_def)

end
