(* ===== verification/Node_Allocator.thy ===== *)
theory Node_Allocator
  imports Ar_Prelude
begin

text \<open>
  The contract of an allocator of nodes, as the list utilities and the queues rely on it: an
  address that is handed out was not in use, handing it back takes exactly it out of use, and
  both keep the allocator's invariant. \<open>get\<close> has an argument for what the environment
  decides (which pool, what the system allocator answers), restricted by \<open>env_ok\<close>.
\<close>

locale node_allocator =
  fixes get :: "'e \<Rightarrow> 's \<Rightarrow> (ptr \<times> 's) option"
    and put :: "'s \<Rightarrow> addr \<Rightarrow> 's option"
    and in_use :: "'s \<Rightarrow> addr set"
    and good :: "'s \<Rightarrow> bool"
    and env_ok :: "'e \<Rightarrow> 's \<Rightarrow> bool"
  assumes get_law: "good s \<Longrightarrow> env_ok e s \<Longrightarrow>
      \<exists>r s'. get e s = Some (r, s') \<and> good s' \<and>
        (case r of None \<Rightarrow> in_use s' = in_use s | Some a \<Rightarrow> a \<notin> in_use s \<and> in_use s' = insert a (in_use s))"
    and put_law: "good s \<Longrightarrow> a \<in> in_use s \<Longrightarrow> \<exists>s'. put s a = Some s' \<and> good s' \<and> in_use s' = in_use s - {a}"
begin

lemma got:
  assumes "good s" "env_ok e s" "get e s = Some (Some a, s')"
  shows "good s'" "a \<notin> in_use s" "in_use s' = insert a (in_use s)"
  using get_law [OF assms(1,2)] assms(3) by auto

lemma get_then_put:
  assumes "good s" "env_ok e s" "get e s = Some (Some a, s')"
  shows "\<exists>s''. put s' a = Some s'' \<and> good s'' \<and> in_use s'' = in_use s"
  using put_law [of s' a] got [OF assms] by auto

lemma two_gets:
  assumes "good s" "env_ok e s" "get e s = Some (Some a, s')" "env_ok e' s'" "get e' s' = Some (Some b, s'')"
  shows "a \<noteq> b" "in_use s'' = insert b (insert a (in_use s))"
  using got [OF assms(1-3)] got [OF _ assms(4,5)] by auto

lemma put_commute:
  assumes "good s" "a \<in> in_use s" "b \<in> in_use s" "a \<noteq> b" "put s a = Some s1" "put s1 b = Some s2"
  shows "good s2" "in_use s2 = in_use s - {a, b}"
  using put_law [OF assms(1,2)] put_law [of s1 b] assms by auto

text \<open>
  A client that keeps its nodes in a store \<open>h\<close> and owns only what the allocator handed out:
  a new node is never one it already has, and every node it has can be given back.
\<close>

lemma owned_get:
  assumes "good s" "env_ok e s" "dom h \<subseteq> in_use s" "get e s = Some (Some a, s')"
  shows "good s'" "a \<notin> dom h" "dom (h(a \<mapsto> n)) \<subseteq> in_use s'"
  using got [OF assms(1,2,4)] assms(3) by auto

lemma owned_get_none:
  assumes "good s" "env_ok e s" "dom h \<subseteq> in_use s" "get e s = Some (None, s')"
  shows "good s'" "dom h \<subseteq> in_use s'"
  using get_law [OF assms(1,2)] assms(3,4) by auto

lemma owned_put:
  assumes "good s" "dom h \<subseteq> in_use s" "a \<in> dom h"
  shows "\<exists>s'. put s a = Some s' \<and> good s' \<and> dom (h(a := None)) \<subseteq> in_use s'"
  using put_law [OF assms(1), of a] assms(2,3) by auto

end

end
