(* ===== verification/Bufpool_Proofs.thy ===== *)
theory Bufpool_Proofs
  imports Bufpool_Inv Node_Allocator
begin

text \<open>
  Correctness of the operations of the buffer pool: creating, getting, returning, resetting and
  destroying keep \<open>bufpool_inv\<close> (freeing unused arrays does not, see \<open>free_unused_counts_twice\<close>), getting a node
  adds a fresh address to \<open>live_nodes\<close>, returning one removes it, which makes the pool an
  instance of the allocator contract of theory \<open>Node_Allocator\<close>.
\<close>

subsection \<open>Allocating an array\<close>

text \<open>Allocating an array.\<close>

definition add_arr :: "posal_bufpool_pool \<Rightarrow> nat \<Rightarrow> addr \<Rightarrow> posal_bufpool_pool" where
  "add_arr p i base = (upd_arr p i \<lparr>list_bitmask = 0, mem_start_addr = Some base\<rparr>)
      \<lparr>allocated_nodes := allocated_nodes p + nodes_per_arr p\<rparr>"

lemma allocate_eq:
  assumes "unat (num_of_node_arrays p) \<le> length (nodes_ptr p)"
  shows "posal_bufpool_allocate_new_nodes_arr m p i = Some
    (if unat (num_of_node_arrays p) \<le> i then (AR_EFAILED, p)
     else if mem_start_addr (nodes_ptr p ! i) \<noteq> None then (AR_EOK, p)
     else case m of None \<Rightarrow> (AR_ENOMEMORY, p) | Some base \<Rightarrow> (AR_EOK, add_arr p i base))"
proof (cases "i < unat (num_of_node_arrays p) \<and> mem_start_addr (nodes_ptr p ! i) = None")
  case True
  then have i: "i < length (nodes_ptr p)" using assms by simp
  obtain bm where arr: "nodes_ptr p ! i = \<lparr>list_bitmask = bm, mem_start_addr = None\<rparr>"
    using True by (cases "nodes_ptr p ! i") simp
  then have "p\<lparr>nodes_ptr := (nodes_ptr p)[i := \<lparr>list_bitmask = bm, mem_start_addr = None\<rparr>]\<rparr> = p"
    using list_update_id [of "nodes_ptr p" i] by simp
  then show ?thesis using i True
    by (simp add: posal_bufpool_allocate_new_nodes_arr_def posal_bufpool_allocate_new_nodes_arr_util_def
        mem_simps add_arr_def upd_arr_def arr split: option.split)
next
  case False
  then show ?thesis using assms
    by (auto simp: posal_bufpool_allocate_new_nodes_arr_def mem_simps)
qed

lemma allocate_new_inv:
  assumes inv: "bufpool_inv s" and p: "pool_at s k = Some p" and mal: "mal_ok mal s k"
    and m: "mal i = Some base" and i: "i < unat (num_of_node_arrays p)" and none: "mem_start_addr (nodes_ptr p ! i) = None"
    and p'_def: "p' = add_arr p i base"
  shows "bufpool_inv (put_pool s k p' (headers s))" and "mal_ok mal (put_pool s k p' (headers s)) k"
    and "live p' = live p" and "live_nodes (put_pool s k p' (headers s)) = live_nodes s"
proof -
  note p' = p'_def add_arr_def
  have wf: "pool_wf p" and il: "i < length (nodes_ptr p)"
    using inv_pool [OF inv p] i by (auto simp: pool_wf_def)
  have mask: "list_bitmask (nodes_ptr p ! i) = 0" using pool_wf_arr(1) [OF wf il none] .
  show live: "live p' = live p"
    using mask il by (auto simp: p' live_def nth_list_update split: if_splits)
  have same_base: "mem_start_addr (nodes_ptr p' ! i') = mem_start_addr (nodes_ptr p ! i')" if "(i', j) \<in> live p" for i' j
  proof -
    have "i' \<noteq> i" using that mask by (auto simp: live_def)
    then show ?thesis by (simp add: p')
  qed
  have hdr: "hdrs_wf (headers s) k p'"
    using inv_pool(2) [OF inv p] same_base by (auto simp: hdrs_wf_def live) (auto simp: p')
  have wf': "pool_wf p'"
    by (rule pool_wf_upd [OF wf il, of "\<lparr>list_bitmask = 0, mem_start_addr = Some base\<rparr>"])
      (use i none mask in \<open>auto simp: p' arr_wf_def\<close>)
  have newreg: "{base ..< base + node_arr_bytes p} \<inter> arr_region p2 i' = {}"
    if "pool_at s k' = Some p2" "i' < length (nodes_ptr p2)" for k' p2 i'
    using mal that p il none m unfolding mal_ok_def by blast
  have regs: "regions_disjoint (put_pool s k p' (headers s))"
    by (rule regions_disjoint_put [OF inv_pool(4) [OF inv p] p, where ?i0.0 = i])
      (use newreg in \<open>auto simp: p' arr_region_upd_other arr_region_upd_same [OF il]\<close>)
  show "bufpool_inv (put_pool s k p' (headers s))"
    by (rule bufpool_inv_put [OF inv p regs wf' hdr]) (use inv in \<open>auto simp: bufpool_inv_def\<close>)
  show "live_nodes (put_pool s k p' (headers s)) = live_nodes s"
  proof (rule live_nodes_put_same [OF p])
    have "node_hdr_addr p' = node_hdr_addr p" by (simp add: p')
    then show "pool_nodes p' = pool_nodes p"
      using same_base unfolding pool_nodes_def live by (intro Collect_cong) (auto, (metis same_base)+)
  qed
  show "mal_ok mal (put_pool s k p' (headers s)) k"
    unfolding mal_ok_def
  proof (intro allI impI)
    fix q i2 b2
    assume q: "pool_at (put_pool s k p' (headers s)) k = Some q" and i2: "i2 < length (nodes_ptr q)"
      and n2: "mem_start_addr (nodes_ptr q ! i2) = None" and m2: "mal i2 = Some b2"
    have qp: "q = p'" using q by (simp add: pool_at_put [OF p])
    have ne: "i2 \<noteq> i" and l2: "i2 < length (nodes_ptr p)" and o2: "mem_start_addr (nodes_ptr p ! i2) = None"
      using i2 n2 il by (auto simp: qp p' nth_list_update split: if_splits)
    have bytes: "node_arr_bytes q = node_arr_bytes p" by (simp add: qp p')
    have pair: "{b2 ..< b2 + node_arr_bytes p} \<inter> {b' ..< b' + node_arr_bytes p} = {}"
      if "i' \<noteq> i2" "mal i' = Some b'" for i' b'
      using mal p l2 o2 m2 that unfolding mal_ok_def by blast
    have "{b2 ..< b2 + node_arr_bytes p} \<inter> arr_region r i' = {}"
      if "pool_at (put_pool s k p' (headers s)) k' = Some r" "i' < length (nodes_ptr r)" for k' r i'
    proof (cases "k' = k \<and> i' = i")
      case True
      then have "r = p'" using that by (simp add: pool_at_put [OF p])
      then have "arr_region r i' = {base ..< base + node_arr_bytes p}"
        using True by (simp add: p' arr_region_upd_same [OF il])
      then show ?thesis using pair [OF ne [symmetric] m] by simp
    next
      case False
      note asm = that
      from False obtain r' where "pool_at s k' = Some r'" "i' < length (nodes_ptr r')" "arr_region r i' = arr_region r' i'"
        using asm p by (cases "k' = k") (auto simp: pool_at_put [OF p] p' arr_region_upd_other)
      then show ?thesis using mal p l2 o2 m2 unfolding mal_ok_def by metis
    qed
    with pair show "(\<forall>k' r i'. pool_at (put_pool s k p' (headers s)) k' = Some r \<longrightarrow> i' < length (nodes_ptr r) \<longrightarrow>
          {b2 ..< b2 + node_arr_bytes q} \<inter> arr_region r i' = {})
     \<and> (\<forall>i' b'. i' \<noteq> i2 \<longrightarrow> mal i' = Some b' \<longrightarrow>
          {b2 ..< b2 + node_arr_bytes q} \<inter> {b' ..< b' + node_arr_bytes q} = {})"
      by (auto simp: bytes)
  qed
qed

text \<open>Flipping the bit of one node of an allocated array.\<close>

definition flip :: "posal_bufpool_pool \<Rightarrow> nat \<Rightarrow> nat \<Rightarrow> u16 \<Rightarrow> posal_bufpool_pool" where
  "flip p i j u = (upd_arr p i ((nodes_ptr p ! i)\<lparr>list_bitmask := list_bitmask (nodes_ptr p ! i) XOR 2 ^ j\<rparr>))
      \<lparr>used_nodes := u\<rparr>"

lemma mem_start_flip [simp]: "mem_start_addr (nodes_ptr (flip p i j u) ! i') = mem_start_addr (nodes_ptr p ! i')"
  by (cases "i < length (nodes_ptr p)") (auto simp: flip_def nth_list_update list_update_beyond)

lemma flip_simps [simp]:
  "length (nodes_ptr (flip p i j u)) = length (nodes_ptr p)" "node_hdr_addr (flip p i j u) = node_hdr_addr p"
  "nodes_per_arr (flip p i j u) = nodes_per_arr p" "num_of_node_arrays (flip p i j u) = num_of_node_arrays p"
  "node_arr_bytes (flip p i j u) = node_arr_bytes p" "used_nodes (flip p i j u) = u"
  "allocated_nodes (flip p i j u) = allocated_nodes p"
  by (simp_all add: flip_def)

lemma arr_region_flip [simp]: "arr_region (flip p i j u) = arr_region p"
  by (auto simp: arr_region_def fun_eq_iff split: option.splits)

lemma live_flip:
  assumes "i < length (nodes_ptr p)" "j < 32"
  shows "live (flip p i j u) = (if (i, j) \<in> live p then live p - {(i, j)} else insert (i, j) (live p))"
proof -
  have "(i', j') \<in> live (flip p i j u) \<longleftrightarrow> ((i', j') \<in> live p) \<noteq> ((i', j') = (i, j))" for i' j'
    using assms by (cases "i' = i") (auto simp: flip_def live_def bit_toggle)
  then show ?thesis by (auto simp: set_eq_iff)
qed

lemma num_live_flip:
  assumes "i < length (nodes_ptr p)" "j < 32"
  shows "(i, j) \<notin> live p \<Longrightarrow> num_live (flip p i j u) = Suc (num_live p)"
    and "(i, j) \<in> live p \<Longrightarrow> Suc (num_live (flip p i j u)) = num_live p"
proof -
  let ?m = "list_bitmask (nodes_ptr p ! i)"
  have "num_live (flip p i j u) + mask_count ?m = num_live p + mask_count (?m XOR 2 ^ j)"
    using sum_list_map_update [OF assms(1), of "\<lambda>arr. mask_count (list_bitmask arr)"
      "(nodes_ptr p ! i)\<lparr>list_bitmask := ?m XOR 2 ^ j\<rparr>"] by (simp add: num_live_def flip_def)
  then show "(i, j) \<notin> live p \<Longrightarrow> num_live (flip p i j u) = Suc (num_live p)"
    and "(i, j) \<in> live p \<Longrightarrow> Suc (num_live (flip p i j u)) = num_live p"
    using mask_count_set [of ?m j] mask_count_clear [of ?m j] assms by (simp_all add: live_def)
qed

lemma pool_wf_flip:
  assumes "pool_wf p" "i < length (nodes_ptr p)" "mem_start_addr (nodes_ptr p ! i) = Some b"
    and "j < unat (nodes_per_arr p)" "u = (if (i, j) \<in> live p then used_nodes p - 1 else used_nodes p + 1)"
  shows "pool_wf (flip p i j u)"
proof -
  have j: "j < 32" using assms(1,4) by (auto simp: pool_wf_def)
  let ?a = "(nodes_ptr p ! i)\<lparr>list_bitmask := list_bitmask (nodes_ptr p ! i) XOR 2 ^ j\<rparr>"
  have "num_arrs (flip p i j u) = num_arrs p"
    using sum_list_map_update [OF assms(2), of "\<lambda>arr. of_bool (mem_start_addr arr \<noteq> None)" ?a]
    by (simp add: num_arrs_def flip_def)
  moreover have "u = of_nat (num_live (flip p i j u))"
  proof (cases "(i, j) \<in> live p")
    case True
    then have "used_nodes p = of_nat (Suc (num_live (flip p i j u)))"
      using num_live_flip(2) [OF assms(2) j, of u] assms(1) by (simp add: pool_wf_def)
    then show ?thesis using assms(5) True by (metis add_diff_cancel_left' of_nat_Suc)
  next
    case False
    then show ?thesis
      using num_live_flip(1) [OF assms(2) j, of u] assms(1,5) by (simp add: pool_wf_def)
  qed
  moreover have "arr_wf (flip p i j u) i' (nodes_ptr (flip p i j u) ! i')" if "i' < length (nodes_ptr p)" for i'
    using assms that j by (cases "i' = i")
      (auto simp: pool_wf_def arr_wf_def flip_def bit_toggle nth_list_update)
  ultimately show ?thesis using assms(1) by (simp add: pool_wf_def)
qed

lemma node_place_mem:
  assumes "bufpool_inv s" "pool_at s k = Some p" "(i, j) \<in> live p" "mem_start_addr (nodes_ptr p ! i) = Some b"
  shows "node_hdr_addr p b j + SIZEOF_NODE_HEADER \<in> live_nodes s"
  using assms unfolding live_nodes_def pool_nodes_def by blast

text \<open>A place whose bit is clear has an address that is not handed out.\<close>

lemma free_place_fresh:
  assumes inv: "bufpool_inv s" and p: "pool_at s k = Some p" and i: "i < length (nodes_ptr p)"
    and b: "mem_start_addr (nodes_ptr p ! i) = Some b" and j: "j < unat (nodes_per_arr p)"
    and free: "(i, j) \<notin> live p"
  shows "node_hdr_addr p b j + SIZEOF_NODE_HEADER \<notin> live_nodes s"
proof
  assume "node_hdr_addr p b j + SIZEOF_NODE_HEADER \<in> live_nodes s"
  then obtain k' p' i' j' b' where p': "pool_at s k' = Some p'" and l: "(i', j') \<in> live p'"
    and b': "mem_start_addr (nodes_ptr p' ! i') = Some b'" and eq: "node_hdr_addr p b j = node_hdr_addr p' b' j'"
    unfolding live_nodes_def pool_nodes_def by auto
  obtain "i' < length (nodes_ptr p')" "j' < unat (nodes_per_arr p')"
    using live_place [OF inv_pool(1) [OF inv p'] l] by metis
  then have "k = k' \<and> i = i' \<and> j = j'"
    using node_place_unique [OF inv_pool(4) [OF inv p] p p' i _ b b' j _ eq] by blast
  then show False using free l p p' by simp
qed

definition place_hdr :: "nat \<Rightarrow> nat \<Rightarrow> nat \<Rightarrow> posal_bufpool_node_header" where
  "place_hdr k i j = \<lparr>pool_index = of_nat k, node_arr_index = of_nat i, node_index = of_nat j,
                      magic = POSAL_BUFPOOL_NODE_MAGIC\<rparr>"

lemma hdrs_wf_I:
  assumes "\<And>i j b. (i, j) \<in> live p \<Longrightarrow> mem_start_addr (nodes_ptr p ! i) = Some b \<Longrightarrow>
    hs (node_hdr_addr p b j) = Some (place_hdr k i j)"
  shows "hdrs_wf hs k p"
  using assms by (auto simp: hdrs_wf_def place_hdr_def)

lemma hdrs_wf_D:
  assumes "hdrs_wf hs k p" "(i, j) \<in> live p" "mem_start_addr (nodes_ptr p ! i) = Some b"
  shows "hs (node_hdr_addr p b j) = Some (place_hdr k i j)"
  using assms by (auto simp: hdrs_wf_def place_hdr_def)

lemma pool_nodes_insert:
  assumes "live p' = insert (i, j) (live p)" "node_hdr_addr p' = node_hdr_addr p"
    and "\<And>i. mem_start_addr (nodes_ptr p' ! i) = mem_start_addr (nodes_ptr p ! i)"
    and "mem_start_addr (nodes_ptr p ! i) = Some b"
  shows "pool_nodes p' = insert (node_hdr_addr p b j + SIZEOF_NODE_HEADER) (pool_nodes p)"
  using assms(4) unfolding pool_nodes_def assms(1-3) by auto

lemma live_set_inv:
  assumes inv: "bufpool_inv s" and p: "pool_at s k = Some p" and i: "i < length (nodes_ptr p)"
    and b: "mem_start_addr (nodes_ptr p ! i) = Some b" and j: "j < unat (nodes_per_arr p)"
    and free: "(i, j) \<notin> live p"
    and p': "p' = flip p i j (used_nodes p + 1)"
    and hs: "hs = (headers s)(node_hdr_addr p b j \<mapsto> place_hdr k i j)"
  shows "bufpool_inv (put_pool s k p' hs)"
    and "live_nodes (put_pool s k p' hs) = insert (node_hdr_addr p b j + SIZEOF_NODE_HEADER) (live_nodes s)"
proof -
  note pool = inv_pool [OF inv p]
  have j32: "j < 32" using pool(1) j by (auto simp: pool_wf_def)
  have live: "live p' = insert (i, j) (live p)" using free by (simp add: p' live_flip [OF i j32])
  have wf': "pool_wf p'" unfolding p' by (rule pool_wf_flip [OF pool(1) i b j]) (simp add: free)
  have regs: "regions_disjoint (put_pool s k p' hs)"
    by (rule regions_disjoint_sub [OF pool(4) p]) (simp_all add: p')
  have keep: "hs (node_hdr_addr p2 b2 j2) = Some (place_hdr k2 i2 j2)"
    if "pool_at s k2 = Some p2" "(i2, j2) \<in> live p2" "mem_start_addr (nodes_ptr p2 ! i2) = Some b2" for k2 p2 i2 j2 b2
  proof -
    have "node_hdr_addr p2 b2 j2 \<noteq> node_hdr_addr p b j"
      using node_place_mem [OF inv that] free_place_fresh [OF inv p i b j free] by auto
    then show ?thesis using hdrs_wf_D [OF inv_pool(2) [OF inv that(1)] that(2,3)] by (simp add: hs)
  qed
  have "hdrs_wf hs k p'"
  proof (rule hdrs_wf_I)
    fix i2 j2 b2
    assume "(i2, j2) \<in> live p'" "mem_start_addr (nodes_ptr p' ! i2) = Some b2"
    then show "hs (node_hdr_addr p' b2 j2) = Some (place_hdr k i2 j2)"
      using keep [OF p, of i2 j2 b2] b by (cases "(i2, j2) = (i, j)") (auto simp: live [unfolded p'] p' hs)
  qed
  from bufpool_inv_put [OF inv p regs wf' this] show "bufpool_inv (put_pool s k p' hs)"
    using keep by (blast intro: hdrs_wf_I)
  have "pool_nodes p' = insert (node_hdr_addr p b j + SIZEOF_NODE_HEADER) (pool_nodes p)"
    by (rule pool_nodes_insert [OF live]) (simp_all add: p' b)
  then show "live_nodes (put_pool s k p' hs) = insert (node_hdr_addr p b j + SIZEOF_NODE_HEADER) (live_nodes s)"
    by (simp add: live_nodes_put [OF p] live_nodes_split [OF p])
qed

lemma live_clear_inv:
  assumes inv: "bufpool_inv s" and p: "pool_at s k = Some p" and l: "(i, j) \<in> live p"
    and b: "mem_start_addr (nodes_ptr p ! i) = Some b" and p': "p' = flip p i j (used_nodes p - 1)"
  shows "bufpool_inv (put_pool s k p' (headers s))"
    and "live_nodes (put_pool s k p' (headers s)) = live_nodes s - {node_hdr_addr p b j + SIZEOF_NODE_HEADER}"
proof -
  note pool = inv_pool [OF inv p]
  obtain i: "i < length (nodes_ptr p)" and j: "j < unat (nodes_per_arr p)"
    using live_place [OF pool(1) l] by metis
  have j32: "j < 32" using pool(1) j by (auto simp: pool_wf_def)
  have live: "live p' = live p - {(i, j)}" using l by (simp add: p' live_flip [OF i j32])
  have wf': "pool_wf p'" unfolding p' by (rule pool_wf_flip [OF pool(1) i b j]) (simp add: l)
  have regs: "regions_disjoint (put_pool s k p' (headers s))"
    by (rule regions_disjoint_sub [OF pool(4) p]) (simp_all add: p')
  have "hdrs_wf (headers s) k p'"
    by (rule hdrs_wf_I) (use hdrs_wf_D [OF pool(2)] in \<open>auto simp: live [unfolded p'] p'\<close>)
  then show inv': "bufpool_inv (put_pool s k p' (headers s))"
    using inv by (intro bufpool_inv_put [OF inv p regs wf']) (auto simp: bufpool_inv_def)
  have nodes: "pool_nodes p = insert (node_hdr_addr p b j + SIZEOF_NODE_HEADER) (pool_nodes p')"
  proof -
    have "live p = insert (i, j) (live p')" using l live by auto
    from pool_nodes_insert [OF this, of b] b show ?thesis by (simp add: p')
  qed
  have "node_hdr_addr p' b j + SIZEOF_NODE_HEADER \<notin> live_nodes (put_pool s k p' (headers s))"
    by (rule free_place_fresh [OF inv', of k p' i]) (use i b j live in \<open>auto simp: pool_at_put [OF p] p'\<close>)
  then show "live_nodes (put_pool s k p' (headers s)) = live_nodes s - {node_hdr_addr p b j + SIZEOF_NODE_HEADER}"
    unfolding live_nodes_put [OF p] live_nodes_split [OF p] nodes by (auto simp: p')
qed

text \<open>Freeing an array without nodes in use.\<close>

definition del_arr :: "posal_bufpool_pool \<Rightarrow> nat \<Rightarrow> posal_bufpool_pool" where
  "del_arr p i = (upd_arr p i ((nodes_ptr p ! i)\<lparr>mem_start_addr := None\<rparr>))
      \<lparr>allocated_nodes := allocated_nodes p - nodes_per_arr p\<rparr>"

lemma del_arr_simps [simp]:
  "length (nodes_ptr (del_arr p i)) = length (nodes_ptr p)" "node_hdr_addr (del_arr p i) = node_hdr_addr p"
  "nodes_per_arr (del_arr p i) = nodes_per_arr p" "num_of_node_arrays (del_arr p i) = num_of_node_arrays p"
  "node_arr_bytes (del_arr p i) = node_arr_bytes p" "used_nodes (del_arr p i) = used_nodes p"
  by (simp_all add: del_arr_def)

lemma free_nodes_arr_eq:
  assumes "unat (num_of_node_arrays p) \<le> length (nodes_ptr p)"
  shows "posal_bufpool_free_nodes_arr p hs i = Some
    (if i < unat (num_of_node_arrays p) \<and> mem_start_addr (nodes_ptr p ! i) \<noteq> None \<and> list_bitmask (nodes_ptr p ! i) = 0
     then (del_arr p i, drop_region (the (mem_start_addr (nodes_ptr p ! i))) (node_arr_bytes p) hs)
     else (p, hs))"
  using assms by (auto simp: posal_bufpool_free_nodes_arr_def mem_simps del_arr_def upd_arr_def split: option.splits)

lemma live_del_arr:
  assumes "i < length (nodes_ptr p)"
  shows "live (del_arr p i) = live p"
  using assms by (auto simp: del_arr_def live_upd_arr) (auto simp: live_def)

lemma mem_start_del_arr: "i' \<noteq> i \<Longrightarrow> mem_start_addr (nodes_ptr (del_arr p i) ! i') = mem_start_addr (nodes_ptr p ! i')"
  by (simp add: del_arr_def)

lemma free_arr_inv:
  assumes inv: "bufpool_inv s" and p: "pool_at s k = Some p" and i: "i < length (nodes_ptr p)"
    and b: "mem_start_addr (nodes_ptr p ! i) = Some b" and z: "list_bitmask (nodes_ptr p ! i) = 0"
    and hs: "hs = drop_region b (node_arr_bytes p) (headers s)"
  shows "bufpool_inv (put_pool s k (del_arr p i) hs)"
    and "live_nodes (put_pool s k (del_arr p i) hs) = live_nodes s"
proof -
  note pool = inv_pool [OF inv p]
  have live: "live (del_arr p i) = live p" by (rule live_del_arr [OF i])
  have ne: "i2 \<noteq> i" if "(i2, j2) \<in> live p" for i2 j2 using that z by (auto simp: live_def)
  have wf': "pool_wf (del_arr p i)"
    by (rule pool_wf_upd [OF pool(1) i, of "(nodes_ptr p ! i)\<lparr>mem_start_addr := None\<rparr>"])
      (use b z in \<open>auto simp: del_arr_def arr_wf_def\<close>)
  have regs: "regions_disjoint (put_pool s k (del_arr p i) hs)"
  proof (rule regions_disjoint_sub [OF pool(4) p])
    fix i' show "arr_region (del_arr p i) i' \<subseteq> arr_region p i'"
      by (cases "i' = i") (simp_all add: del_arr_def arr_region_upd_other arr_region_upd_same [OF i])
  qed simp
  have keep: "hs (node_hdr_addr p2 b2 j2) = Some (place_hdr k2 i2 j2)"
    if p2: "pool_at s k2 = Some p2" and l2: "(i2, j2) \<in> live p2"
      and b2: "mem_start_addr (nodes_ptr p2 ! i2) = Some b2" for k2 p2 i2 j2 b2
  proof -
    have wf2: "pool_wf p2" using inv_pool(1) [OF inv p2] .
    obtain i2: "i2 < length (nodes_ptr p2)" and j2: "j2 < unat (nodes_per_arr p2)"
      using live_place [OF wf2 l2] by metis
    have "(k2, i2) \<noteq> (k, i)" using p p2 l2 by (auto dest: ne)
    then have "arr_region p2 i2 \<inter> arr_region p i = {}"
      using pool(4) p p2 i i2 unfolding regions_disjoint_def by blast
    moreover have "node_hdr_addr p2 b2 j2 \<in> arr_region p2 i2"
      using node_block_in_region [OF j2, of 0 b2] b2 by (simp add: arr_region_def)
    ultimately have "node_hdr_addr p2 b2 j2 \<notin> {b ..< b + node_arr_bytes p}"
      using b by (auto simp: arr_region_def)
    then show ?thesis
      using hdrs_wf_D [OF inv_pool(2) [OF inv p2] l2 b2] by (auto simp: hs drop_region_def)
  qed
  have "hdrs_wf hs k (del_arr p i)"
    by (rule hdrs_wf_I) (use keep [OF p] ne in \<open>auto simp: live mem_start_del_arr\<close>)
  from bufpool_inv_put [OF inv p regs wf' this] show "bufpool_inv (put_pool s k (del_arr p i) hs)"
    using keep by (blast intro: hdrs_wf_I)
  have "pool_nodes (del_arr p i) = pool_nodes p"
    unfolding pool_nodes_def live using ne by (auto simp: mem_start_del_arr) (metis mem_start_del_arr ne)+
  then show "live_nodes (put_pool s k (del_arr p i) hs) = live_nodes s" by (rule live_nodes_put_same [OF p])
qed

subsection \<open>Getting a node\<close>

lemma take_node_eq:
  assumes "i < length (nodes_ptr p)" "mem_start_addr (nodes_ptr p ! i) = Some b"
  shows "take_node p hs k i j = Some (Some (node_hdr_addr p b j + SIZEOF_NODE_HEADER), flip p i j (used_nodes p + 1),
           hs(node_hdr_addr p b j \<mapsto> place_hdr k i j))"
  using assms by (simp add: take_node_def toggle_bit_in_list_bitmask_at_idx_def mem_simps flip_def upd_arr_def
      place_hdr_def Let_def)

lemma first_zero_in_array:
  assumes "pool_wf p" "i < length (nodes_ptr p)"
  defines "j \<equiv> get_first_zero_idx_in_list_bitmask (list_bitmask (nodes_ptr p ! i))"
  shows "j \<le> unat (nodes_per_arr p)" and "j < unat (nodes_per_arr p) \<Longrightarrow> (i, j) \<notin> live p"
    and "j = unat (nodes_per_arr p) \<Longrightarrow> j' < j \<Longrightarrow> (i, j') \<in> live p"
proof -
  let ?m = "list_bitmask (nodes_ptr p ! i)"
  have npa: "unat (nodes_per_arr p) \<le> 32" "bit ?m j' \<Longrightarrow> j' < unat (nodes_per_arr p)" for j'
    using assms(1) pool_wf_arr(2) [OF assms(1,2)] by (auto simp: pool_wf_def)
  have full: "?m = NOT 0 \<Longrightarrow> unat (nodes_per_arr p) = 32"
    using npa(2) [of 31] npa(1) by simp
  consider "?m = NOT 0" "j = 32" | "?m \<noteq> NOT 0" "j < 32" "\<not> bit ?m j" "\<And>j'. j' < j \<Longrightarrow> bit ?m j'"
    using first_zero_spec [of ?m] first_zero_full unfolding j_def by metis
  note cs = this
  show "j \<le> unat (nodes_per_arr p)"
  proof (cases rule: cs)
    case 2
    then have "j' < unat (nodes_per_arr p)" if "j' < j" for j' using npa(2) that by blast
    then show ?thesis by (metis leI less_irrefl)
  qed (use full in simp)
  show "j < unat (nodes_per_arr p) \<Longrightarrow> (i, j) \<notin> live p"
    by (cases rule: cs) (use full in \<open>auto simp: live_def\<close>)
  show "j = unat (nodes_per_arr p) \<Longrightarrow> j' < j \<Longrightarrow> (i, j') \<in> live p"
    by (cases rule: cs) (use assms(2) in \<open>auto simp: live_def\<close>)
qed

text \<open>What the search for a node delivers, from the state and the pool it starts with.\<close>

definition got_node :: "posal_bufpool_state \<Rightarrow> ptr \<Rightarrow> posal_bufpool_state \<Rightarrow> bool" where
  "got_node s r s' \<longleftrightarrow> bufpool_inv s' \<and>
     (case r of None \<Rightarrow> live_nodes s' = live_nodes s
      | Some a \<Rightarrow> a \<notin> live_nodes s \<and> live_nodes s' = insert a (live_nodes s))"

lemma take_node_got:
  assumes inv: "bufpool_inv s" and p: "pool_at s k = Some p" and i: "i < length (nodes_ptr p)"
    and b: "mem_start_addr (nodes_ptr p ! i) = Some b"
    and j: "j = get_first_zero_idx_in_list_bitmask (list_bitmask (nodes_ptr p ! i))" "j \<noteq> unat (nodes_per_arr p)"
  shows "\<exists>a p' hs'. take_node p (headers s) k i j = Some (Some a, p', hs') \<and> got_node s (Some a) (put_pool s k p' hs')"
proof -
  have jlt: "j < unat (nodes_per_arr p)" and free: "(i, j) \<notin> live p"
    using first_zero_in_array [OF inv_pool(1) [OF inv p] i] j by auto
  note set = live_set_inv [OF inv p i b jlt free refl refl]
  have "got_node s (Some (node_hdr_addr p b j + SIZEOF_NODE_HEADER))
     (put_pool s k (flip p i j (used_nodes p + 1)) ((headers s)(node_hdr_addr p b j \<mapsto> place_hdr k i j)))"
    using set free_place_fresh [OF inv p i b jlt free] by (simp add: got_node_def)
  then show ?thesis by (auto simp: take_node_eq [OF i b])
qed

lemma zero_mask_free:
  assumes "pool_wf p"
  shows "get_first_zero_idx_in_list_bitmask 0 \<noteq> unat (nodes_per_arr p)"
  using assms by (auto simp: pool_wf_def get_first_zero_idx_in_list_bitmask_def shift_loop.simps)

lemma got_node_trans: "live_nodes s1 = live_nodes s \<Longrightarrow> got_node s1 r s2 \<Longrightarrow> got_node s r s2"
  unfolding got_node_def by (cases r) auto

lemma got_nothing: "bufpool_inv s \<Longrightarrow> pool_at s k = Some p \<Longrightarrow> got_node s None (put_pool s k p (headers s))"
  by (simp add: got_node_def put_same)

text \<open>
  What is claimed of the search from array \<open>i\<close> on: it ends, keeps the invariant and hands
  out only an address that was not in use; if the allocator answers and one of the places
  from array \<open>i\<close> on is free, it does hand one out.
\<close>

definition free_from :: "posal_bufpool_pool \<Rightarrow> nat \<Rightarrow> bool" where
  "free_from p i \<longleftrightarrow> (\<exists>i' j. i \<le> i' \<and> i' < unat (num_of_node_arrays p) \<and> j < unat (nodes_per_arr p) \<and> (i', j) \<notin> live p)"

definition search_ok ::
    "(nat \<Rightarrow> ptr) \<Rightarrow> posal_bufpool_state \<Rightarrow> nat \<Rightarrow> posal_bufpool_pool \<Rightarrow> nat \<Rightarrow>
     (ptr \<times> posal_bufpool_pool \<times> posal_bufpool_node_header store) option \<Rightarrow> bool" where
  "search_ok mal s k p i res \<longleftrightarrow> (\<exists>r p' hs'. res = Some (r, p', hs') \<and> got_node s r (put_pool s k p' hs')
     \<and> ((\<forall>i. mal i \<noteq> None) \<and> free_from p i \<longrightarrow> r \<noteq> None))"

lemma search_take:
  "\<exists>a p' hs'. res = Some (Some a, p', hs') \<and> got_node s (Some a) (put_pool s k p' hs') \<Longrightarrow> search_ok mal s k p i res"
  by (auto simp: search_ok_def)

lemma search_new_array:
  assumes inv: "bufpool_inv s" and p: "pool_at s k = Some p" and mal: "mal_ok mal s k"
    and i: "i < unat (num_of_node_arrays p)" and none: "mem_start_addr (nodes_ptr p ! i) = None" and base: "mal i = Some base"
  shows "search_ok mal s k p i (take_node (add_arr p i base) (headers s) k i (get_first_zero_idx_in_list_bitmask 0))"
proof -
  let ?p = "add_arr p i base" and ?s = "put_pool s k (add_arr p i base) (headers s)"
  note new = allocate_new_inv [OF inv p mal base i none refl]
  have il: "i < length (nodes_ptr p)" using inv_pool(1) [OF inv p] i by (simp add: pool_wf_def)
  have ps: "pool_at ?s k = Some ?p" by (simp add: pool_at_put [OF p])
  have "\<exists>a p' hs'. take_node ?p (headers ?s) k i (get_first_zero_idx_in_list_bitmask 0) = Some (Some a, p', hs')
          \<and> got_node ?s (Some a) (put_pool ?s k p' hs')"
    by (rule take_node_got [OF new(1) ps])
      (use il zero_mask_free [OF inv_pool(1) [OF new(1) ps]] in \<open>simp_all add: add_arr_def\<close>)
  then show ?thesis using got_node_trans [OF new(4)] by (intro search_take) fastforce
qed

text \<open>The search on a well-formed pool, case by case.\<close>

lemma get_node_loop_cases:
  assumes "pool_wf p" "n = unat (num_of_node_arrays p)" "i < n"
  defines "j \<equiv> get_first_zero_idx_in_list_bitmask (list_bitmask (nodes_ptr p ! i))"
  shows "mem_start_addr (nodes_ptr p ! i) = None \<Longrightarrow> mal i = None \<Longrightarrow> get_node_loop mal p hs k n i = Some (None, p, hs)"
    and "mem_start_addr (nodes_ptr p ! i) = None \<Longrightarrow> mal i = Some base \<Longrightarrow>
      get_node_loop mal p hs k n i = take_node (add_arr p i base) hs k i (get_first_zero_idx_in_list_bitmask 0)"
    and "mem_start_addr (nodes_ptr p ! i) \<noteq> None \<Longrightarrow> j \<noteq> unat (nodes_per_arr p) \<Longrightarrow>
      get_node_loop mal p hs k n i = take_node p hs k i j"
    and "mem_start_addr (nodes_ptr p ! i) \<noteq> None \<Longrightarrow> j = unat (nodes_per_arr p) \<Longrightarrow> get_node_loop mal p hs k n i =
      (if n \<le> i + 1 then Some (None, p, hs)
       else if mem_start_addr (nodes_ptr p ! (i + 1)) \<noteq> None then get_node_loop mal p hs k n (i + 1)
       else case mal (i + 1) of None \<Rightarrow> Some (None, p, hs)
            | Some base \<Rightarrow> get_node_loop mal (add_arr p (i + 1) base) hs k n (i + 1))"
proof -
  have len: "unat (num_of_node_arrays p) \<le> length (nodes_ptr p)" and i: "i < length (nodes_ptr p)"
    using assms(1-3) by (auto simp: pool_wf_def)
  show "mem_start_addr (nodes_ptr p ! i) = None \<Longrightarrow> mal i = None \<Longrightarrow> get_node_loop mal p hs k n i = Some (None, p, hs)"
    using assms(2,3) i by (simp add: get_node_loop.simps mem_simps allocate_eq [OF len])
  show "mem_start_addr (nodes_ptr p ! i) = None \<Longrightarrow> mal i = Some base \<Longrightarrow>
      get_node_loop mal p hs k n i = take_node (add_arr p i base) hs k i (get_first_zero_idx_in_list_bitmask 0)"
    using assms(2,3) i by (simp add: get_node_loop.simps mem_simps allocate_eq [OF len])
      (simp add: add_arr_def mem_simps)
  show "mem_start_addr (nodes_ptr p ! i) \<noteq> None \<Longrightarrow> j \<noteq> unat (nodes_per_arr p) \<Longrightarrow>
      get_node_loop mal p hs k n i = take_node p hs k i j"
    using assms(2,3) i by (auto simp: get_node_loop.simps mem_simps Let_def j_def)
  show "mem_start_addr (nodes_ptr p ! i) \<noteq> None \<Longrightarrow> j = unat (nodes_per_arr p) \<Longrightarrow> get_node_loop mal p hs k n i =
      (if n \<le> i + 1 then Some (None, p, hs)
       else if mem_start_addr (nodes_ptr p ! (i + 1)) \<noteq> None then get_node_loop mal p hs k n (i + 1)
       else case mal (i + 1) of None \<Rightarrow> Some (None, p, hs)
            | Some base \<Rightarrow> get_node_loop mal (add_arr p (i + 1) base) hs k n (i + 1))"
    using assms(2,3) i by (subst get_node_loop.simps)
      (clarsimp simp: mem_simps Let_def j_def allocate_eq [OF len] split: option.split)
qed

lemma free_from_step:
  assumes "pool_wf p" "i < length (nodes_ptr p)"
    and "get_first_zero_idx_in_list_bitmask (list_bitmask (nodes_ptr p ! i)) = unat (nodes_per_arr p)"
    and "free_from p i"
  shows "free_from p (i + 1)" "i + 1 < unat (num_of_node_arrays p)"
proof -
  from assms(4) obtain i' j where f: "i \<le> i'" "i' < unat (num_of_node_arrays p)" "j < unat (nodes_per_arr p)" "(i', j) \<notin> live p"
    by (auto simp: free_from_def)
  have "i' \<noteq> i" using first_zero_in_array(3) [OF assms(1-3), of j] f assms(3) by auto
  with f have "i + 1 \<le> i'" by simp
  with f show "free_from p (i + 1)" "i + 1 < unat (num_of_node_arrays p)"
    unfolding free_from_def by (blast, simp)
qed

lemma get_node_loop_ok:
  assumes "bufpool_inv s" "pool_at s k = Some p" "mal_ok mal s k" "n = unat (num_of_node_arrays p)" "i \<le> n"
  shows "search_ok mal s k p i (get_node_loop mal p (headers s) k n i)"
  using assms
proof (induction "n - i" arbitrary: s p i)
  case 0
  then have "get_node_loop mal p (headers s) k n i = Some (None, p, headers s)"
    by (simp add: get_node_loop.simps)
  with 0 show ?case by (auto simp: search_ok_def got_nothing free_from_def)
next
  case (Suc m)
  note inv = Suc.prems(1) and p = Suc.prems(2) and mal = Suc.prems(3) and n = Suc.prems(4)
  have wf: "pool_wf p" using inv_pool(1) [OF inv p] .
  have i: "i < n" "i < length (nodes_ptr p)" and m: "m = n - (i + 1)" "i + 1 \<le> n"
    using Suc.hyps(2) wf n by (auto simp: pool_wf_def)
  note loop = get_node_loop_cases [OF wf n i(1), where mal = mal and hs = "headers s" and k = k]
  let ?j = "get_first_zero_idx_in_list_bitmask (list_bitmask (nodes_ptr p ! i))"
  consider (fail) "mem_start_addr (nodes_ptr p ! i) = None" "mal i = None"
    | (new) base where "mem_start_addr (nodes_ptr p ! i) = None" "mal i = Some base"
    | (free) b where "mem_start_addr (nodes_ptr p ! i) = Some b" "?j \<noteq> unat (nodes_per_arr p)"
    | (full) "mem_start_addr (nodes_ptr p ! i) \<noteq> None" "?j = unat (nodes_per_arr p)"
    by (meson option.exhaust_sel)
  then show ?case
  proof cases
    case fail
    then show ?thesis using loop(1) got_nothing [OF inv p] by (auto simp: search_ok_def)
  next
    case new
    then show ?thesis using loop(2) search_new_array [OF inv p mal i(1) [unfolded n]] by simp
  next
    case free
    then show ?thesis using loop(3) take_node_got [OF inv p i(2)] by (intro search_take) auto
  next
    case full
    have skip: "search_ok mal s k p i res" if "search_ok mal s k p (i + 1) res" for res
      using that free_from_step(1) [OF wf i(2) full(2)] unfolding search_ok_def by blast
    have "search_ok mal s k p i (Some (None, p, headers s))" if "n \<le> i + 1 \<or> mal (i + 1) = None"
      using that got_nothing [OF inv p] free_from_step(2) [OF wf i(2) full(2)] n by (auto simp: search_ok_def)
    moreover have "search_ok mal s k p i (get_node_loop mal p (headers s) k n (i + 1))"
      by (rule skip) (rule Suc.hyps(1) [OF m(1) inv p mal n m(2)])
    moreover have "search_ok mal s k p i (get_node_loop mal (add_arr p (i + 1) base) (headers s) k n (i + 1))"
      if none: "mem_start_addr (nodes_ptr p ! (i + 1)) = None" and base: "mal (i + 1) = Some base" and lt: "i + 1 < n" for base
    proof (rule skip)
      let ?p = "add_arr p (i + 1) base" and ?s = "put_pool s k (add_arr p (i + 1) base) (headers s)"
      note nw = allocate_new_inv [OF inv p mal base lt [unfolded n] none refl]
      have "search_ok mal ?s k ?p (i + 1) (get_node_loop mal ?p (headers ?s) k n (i + 1))"
        by (rule Suc.hyps(1) [OF m(1) nw(1) _ nw(2) _ m(2)]) (simp_all add: pool_at_put [OF p] n add_arr_def)
      moreover have "free_from ?p (i + 1) = free_from p (i + 1)"
        unfolding free_from_def nw(3) by (simp add: add_arr_def)
      ultimately show "search_ok mal s k p (i + 1) (get_node_loop mal ?p (headers s) k n (i + 1))"
        unfolding search_ok_def using got_node_trans [OF nw(4)] by auto
    qed
    ultimately show ?thesis using loop(4) full by (auto split: option.split)
  qed
qed

subsection \<open>Handles\<close>

definition handle_of :: "nat \<Rightarrow> u32" where
  "handle_of k = POSAL_BUFPOOL_HANDLE_MAGIC OR of_nat k"

lemma handle_of_parts:
  assumes "k < POSAL_BUFPOOL_MAX_POOLS"
  shows "unat (handle_of k AND 0xffff) = k" "handle_of k AND 0xffff0000 = POSAL_BUFPOOL_HANDLE_MAGIC"
    "handle_of k \<noteq> POSAL_BUFPOOL_INVALID_HANDLE"
proof -
  have "k \<in> {0, 1, 2, 3, 4, 5, 6, 7}" using assms by auto
  then show "unat (handle_of k AND 0xffff) = k" "handle_of k AND 0xffff0000 = POSAL_BUFPOOL_HANDLE_MAGIC"
    "handle_of k \<noteq> POSAL_BUFPOOL_INVALID_HANDLE"
    by (auto simp: handle_of_def)
qed

lemma validate_handle_of:
  assumes "length (all_pools s) = POSAL_BUFPOOL_MAX_POOLS" "k < POSAL_BUFPOOL_MAX_POOLS"
  shows "validate_handle s (handle_of k) = (if pool_at s k = None then AR_EFAILED else AR_EOK, k)"
  using assms by (simp add: validate_handle_def Let_def handle_of_parts pool_at_def)

lemma validate_handle_EOK:
  assumes "length (all_pools s) = POSAL_BUFPOOL_MAX_POOLS" "validate_handle s h = (AR_EOK, k)"
  obtains p where "pool_at s k = Some p" "all_pools s ! k = Some p" "k < POSAL_BUFPOOL_MAX_POOLS"
  using assms by (auto simp: validate_handle_def Let_def pool_at_def split: if_splits)

lemma pool_at_nth: "pool_at s k = Some p \<Longrightarrow> all_pools s ! k = Some p"
  by (simp add: pool_at_def split: if_splits)

lemma get_node_total:
  assumes inv: "bufpool_inv s" and mal: "\<forall>k. mal_ok mal s k"
  shows "\<exists>r s'. posal_bufpool_get_node mal s h = Some (r, s') \<and> got_node s r s'"
proof -
  obtain rc k where v: "validate_handle s h = (rc, k)" by (cases "validate_handle s h")
  show ?thesis
  proof (cases "rc = AR_EOK")
    case True
    then obtain p where p: "pool_at s k = Some p" "all_pools s ! k = Some p"
      using v inv by (auto simp: bufpool_inv_def elim: validate_handle_EOK)
    have "search_ok mal s k p 0 (get_node_loop mal p (headers s) k (unat (num_of_node_arrays p)) 0)"
      using mal by (intro get_node_loop_ok [OF inv p(1)]) auto
    then show ?thesis using True v p(2)
      by (auto simp: posal_bufpool_get_node_def search_ok_def put_pool_def)
  next
    case False
    then show ?thesis using v inv by (simp add: posal_bufpool_get_node_def got_node_def)
  qed
qed

lemma get_node_live:
  assumes inv: "bufpool_inv s" and mal: "mal_ok mal s k" and p: "pool_at s k = Some p"
    and "free_from p 0" "\<forall>i. mal i \<noteq> None"
  shows "\<exists>a s'. posal_bufpool_get_node mal s (handle_of k) = Some (Some a, s')"
proof -
  have v: "validate_handle s (handle_of k) = (AR_EOK, k)"
    using inv p inv_pool(3) [OF inv p] by (simp add: bufpool_inv_def validate_handle_of)
  have "search_ok mal s k p 0 (get_node_loop mal p (headers s) k (unat (num_of_node_arrays p)) 0)"
    using mal by (intro get_node_loop_ok [OF inv p]) auto
  then show ?thesis using v pool_at_nth [OF p] assms(4,5)
    by (auto simp: posal_bufpool_get_node_def search_ok_def)
qed

subsection \<open>Returning a node\<close>

lemma place_hdr_simps:
  assumes "bufpool_inv s" "pool_at s k = Some p" "i < unat (num_of_node_arrays p)" "j < unat (nodes_per_arr p)"
  shows "unat (pool_index (place_hdr k i j)) = k" "unat (node_arr_index (place_hdr k i j)) = i"
    "unat (node_index (place_hdr k i j)) = j" "magic (place_hdr k i j) = POSAL_BUFPOOL_NODE_MAGIC"
  using inv_pool(1,3) [OF assms(1,2)] assms(3,4)
  by (auto simp: place_hdr_def unat_of_nat pool_wf_def)

text \<open>The pool and headers after the bit of a returned node was cleared.\<close>

definition after_return ::
    "posal_bufpool_pool \<Rightarrow> posal_bufpool_node_header store \<Rightarrow> nat \<Rightarrow> nat \<Rightarrow> addr \<Rightarrow>
     posal_bufpool_pool \<times> posal_bufpool_node_header store" where
  "after_return p hs i j b =
    (let p' = flip p i j (used_nodes p - 1) in
     if list_bitmask (nodes_ptr p' ! i) = 0 \<and> free_nodes_over_threshold p'
     then (del_arr p' i, drop_region b (node_arr_bytes p) hs) else (p', hs))"

lemma return_node_eq:
  assumes inv: "bufpool_inv s" and p: "pool_at s k = Some p" and l: "(i, j) \<in> live p"
    and b: "mem_start_addr (nodes_ptr p ! i) = Some b"
  shows "posal_bufpool_return_node s (node_hdr_addr p b j + SIZEOF_NODE_HEADER) =
    (case after_return p (headers s) i j b of (p', hs') \<Rightarrow> Some (put_pool s k p' hs'))"
proof -
  note pool = inv_pool [OF inv p]
  obtain i: "i < length (nodes_ptr p)" "i < unat (num_of_node_arrays p)" and j: "j < unat (nodes_per_arr p)"
    using live_place [OF pool(1) l] by metis
  have len: "unat (num_of_node_arrays p) \<le> length (nodes_ptr p)" using pool(1) by (simp add: pool_wf_def)
  note hdr = place_hdr_simps [OF inv p i(2) j]
  have bit: "bit (list_bitmask (nodes_ptr p ! i)) j" using l by (simp add: live_def)
  have tog: "toggle_bit_in_list_bitmask_at_idx p i j = Some (flip p i j (used_nodes p))"
    using i by (simp add: toggle_bit_in_list_bitmask_at_idx_def mem_simps flip_def upd_arr_def)
  have fl: "flip p i j (used_nodes p)\<lparr>used_nodes := used_nodes p - 1\<rparr> = flip p i j (used_nodes p - 1)"
    by (simp add: flip_def)
  have at: "arr_at (nodes_ptr (flip p i j u)) i = Some (nodes_ptr (flip p i j u) ! i)" for u
    using i by (simp add: mem_simps)
  have np: "nodes_ptr (flip p i j u) = nodes_ptr (flip p i j (used_nodes p))" for u
    by (simp add: flip_def)
  show ?thesis
    using hdrs_wf_D [OF pool(2) l b] pool_at_nth [OF p] pool(3) i bit b
    by (simp add: posal_bufpool_return_node_def hdr Let_def mem_simps tog fl at bit_and_single after_return_def
        free_nodes_arr_eq len put_pool_def np [of "used_nodes p - 1"])
qed

lemma after_return_inv:
  assumes inv: "bufpool_inv s" and p: "pool_at s k = Some p" and l: "(i, j) \<in> live p"
    and b: "mem_start_addr (nodes_ptr p ! i) = Some b" and r: "after_return p (headers s) i j b = (p', hs')"
  shows "bufpool_inv (put_pool s k p' hs')"
    and "live_nodes (put_pool s k p' hs') = live_nodes s - {node_hdr_addr p b j + SIZEOF_NODE_HEADER}"
proof -
  obtain i: "i < length (nodes_ptr p)" using live_place [OF inv_pool(1) [OF inv p] l] by metis
  let ?p = "flip p i j (used_nodes p - 1)"
  let ?s = "put_pool s k ?p (headers s)"
  note clr = live_clear_inv [OF inv p l b refl]
  have ps: "pool_at ?s k = Some ?p" by (simp add: pool_at_put [OF p])
  have fr: "bufpool_inv (put_pool s k (del_arr ?p i) (drop_region b (node_arr_bytes p) (headers s)))"
    "live_nodes (put_pool s k (del_arr ?p i) (drop_region b (node_arr_bytes p) (headers s))) = live_nodes ?s"
    if "list_bitmask (nodes_ptr ?p ! i) = 0"
    using free_arr_inv [OF clr(1) ps, of i b "drop_region b (node_arr_bytes p) (headers s)"] that i b by simp_all
  show "bufpool_inv (put_pool s k p' hs')"
    "live_nodes (put_pool s k p' hs') = live_nodes s - {node_hdr_addr p b j + SIZEOF_NODE_HEADER}"
    using r clr fr by (auto simp: after_return_def Let_def split: if_splits)
qed

lemma live_nodesE:
  assumes "a \<in> live_nodes s"
  obtains k p i j b where "pool_at s k = Some p" "(i, j) \<in> live p" "mem_start_addr (nodes_ptr p ! i) = Some b"
    "a = node_hdr_addr p b j + SIZEOF_NODE_HEADER"
  using assms unfolding live_nodes_def pool_nodes_def by blast

lemma return_node_live:
  assumes inv: "bufpool_inv s" and a: "a \<in> live_nodes s"
  shows "\<exists>s'. posal_bufpool_return_node s a = Some s' \<and> bufpool_inv s' \<and> live_nodes s' = live_nodes s - {a}"
proof -
  obtain k p i j b where p: "pool_at s k = Some p" "(i, j) \<in> live p" "mem_start_addr (nodes_ptr p ! i) = Some b"
    and a: "a = node_hdr_addr p b j + SIZEOF_NODE_HEADER" using a by (rule live_nodesE)
  obtain p' hs' where r: "after_return p (headers s) i j b = (p', hs')" by (cases "after_return p (headers s) i j b")
  show ?thesis using return_node_eq [OF inv p] after_return_inv [OF inv p r] by (simp add: r a)
qed

lemma return_node_again:
  assumes inv: "bufpool_inv s" and a: "a \<in> live_nodes s" and s': "posal_bufpool_return_node s a = Some s'"
  shows "posal_bufpool_return_node s' a = None \<or> posal_bufpool_return_node s' a = Some s'"
proof -
  obtain k p i j b where p: "pool_at s k = Some p" and l: "(i, j) \<in> live p" and b: "mem_start_addr (nodes_ptr p ! i) = Some b"
    and a: "a = node_hdr_addr p b j + SIZEOF_NODE_HEADER" using a by (rule live_nodesE)
  obtain i: "i < length (nodes_ptr p)" "i < unat (num_of_node_arrays p)" and j: "j < unat (nodes_per_arr p)"
    using live_place [OF inv_pool(1) [OF inv p] l] by metis
  note hdr = place_hdr_simps [OF inv p i(2) j]
  obtain p' hs' where r: "after_return p (headers s) i j b = (p', hs')" by (cases "after_return p (headers s) i j b")
  have s'_eq: "s' = put_pool s k p' hs'" using s' return_node_eq [OF inv p l b] by (simp add: r a)
  have pk: "all_pools s' ! k = Some p'"
    unfolding s'_eq by (rule pool_at_nth) (simp add: pool_at_put [OF p])
  have j32: "j < 32" using inv_pool(1) [OF inv p] j by (auto simp: pool_wf_def)
  have li: "length (nodes_ptr p') = length (nodes_ptr p)" and bit: "\<not> bit (list_bitmask (nodes_ptr p' ! i)) j"
    using r i l j32 by (auto simp: after_return_def Let_def del_arr_def live_def flip_def bit_toggle split: if_splits)
  have hs: "hs' (node_hdr_addr p b j) = None \<or> hs' (node_hdr_addr p b j) = Some (place_hdr k i j)"
    using r hdrs_wf_D [OF inv_pool(2) [OF inv p] l b] by (auto simp: after_return_def Let_def drop_region_def split: if_splits)
  have "headers s' = hs'" by (simp add: s'_eq)
  then show ?thesis using hs pk i li bit inv_pool(3) [OF inv p]
    by (auto simp: posal_bufpool_return_node_def a Let_def hdr mem_simps bit_and_single)
qed

subsection \<open>Creating a pool\<close>

lemma find_first_free_spec:
  "find_first_free xs \<le> length xs" "find_first_free xs < length xs \<Longrightarrow> xs ! find_first_free xs = None"
  "j < find_first_free xs \<Longrightarrow> xs ! j \<noteq> None"
proof -
  show "find_first_free xs \<le> length xs" by (induction xs) auto
  show "find_first_free xs < length xs \<Longrightarrow> xs ! find_first_free xs = None" by (induction xs) auto
  show "j < find_first_free xs \<Longrightarrow> xs ! j \<noteq> None"
    by (induction xs arbitrary: j) (auto simp: nth_Cons split: nat.splits if_splits)
qed

text \<open>A new pool with its first array at \<open>base\<close>.\<close>

definition new_pool :: "u16 \<Rightarrow> nat \<Rightarrow> posal_bufpool_align \<Rightarrow> u16 \<Rightarrow> addr \<Rightarrow> posal_bufpool_pool" where
  "new_pool nd_size n alignment npa base =
     \<lparr>nodes_ptr = \<lparr>list_bitmask = 0, mem_start_addr = Some base\<rparr> # replicate (n - 1) \<lparr>list_bitmask = 0, mem_start_addr = None\<rparr>,
      num_of_node_arrays = of_nat n, nodes_per_arr = npa, node_size = nd_size, allocated_nodes = npa, used_nodes = 0,
      align_padding_size = (if alignment = EIGHT_BYTE_ALIGN then 4 else 0)\<rparr>"

lemma new_pool_wf:
  assumes "0 < n" "n \<le> 2 ^ 14" "0 < unat npa" "unat npa \<le> POSAL_BUFPOOL_MAX_NODES"
  shows "pool_wf (new_pool sz n al npa base)" "live (new_pool sz n al npa base) = {}"
proof -
  have "unat (of_nat n :: u16) = n" using assms by (simp add: unat_of_nat)
  moreover have "nodes_ptr (new_pool sz n al npa base) ! i
      = (if i = 0 then \<lparr>list_bitmask = 0, mem_start_addr = Some base\<rparr> else \<lparr>list_bitmask = 0, mem_start_addr = None\<rparr>)"
    if "i < n" for i using that by (cases i) (simp_all add: new_pool_def)
  moreover have "num_live (new_pool sz n al npa base) = 0" "num_arrs (new_pool sz n al npa base) = 1"
    by (simp_all add: num_live_def num_arrs_def new_pool_def sum_list_replicate)
  moreover have "length (nodes_ptr (new_pool sz n al npa base)) = n" using assms by (simp add: new_pool_def)
  moreover have "num_of_node_arrays (new_pool sz n al npa base) = of_nat n"
    "nodes_per_arr (new_pool sz n al npa base) = npa" "used_nodes (new_pool sz n al npa base) = 0"
    "allocated_nodes (new_pool sz n al npa base) = npa"
    by (simp_all add: new_pool_def)
  ultimately show "pool_wf (new_pool sz n al npa base)" "live (new_pool sz n al npa base) = {}"
    using assms by (auto simp: pool_wf_def arr_wf_def live_def)
qed

lemma pool_create_eq:
  assumes "length (all_pools s) = POSAL_BUFPOOL_MAX_POOLS" "0 < n" "n < 2 ^ 16"
  shows "posal_bufpool_pool_create mal_pool mal s sz (of_nat n) al npa = Some
    (let i = find_first_free (all_pools s) in
     if unat npa > POSAL_BUFPOOL_MAX_NODES \<or> i = POSAL_BUFPOOL_MAX_POOLS \<or> \<not> mal_pool \<or> mal = None
     then (POSAL_BUFPOOL_INVALID_HANDLE, s)
     else (handle_of i, s\<lparr>all_pools := (all_pools s)[i := Some (new_pool sz n al npa (the mal))]\<rparr>))"
proof -
  have n: "unat (of_nat n :: u32) = n" "unat (of_nat n :: u16) = n" "ucast (of_nat n :: u32) = (of_nat n :: u16)"
    using assms by (simp_all add: unat_of_nat ucast_eq uint_nat)
  let ?p = "\<lparr>nodes_ptr = replicate n \<lparr>list_bitmask = 0, mem_start_addr = None\<rparr>,
           num_of_node_arrays = of_nat n, nodes_per_arr = npa, node_size = sz,
           allocated_nodes = 0, used_nodes = 0,
           align_padding_size = (if al = EIGHT_BYTE_ALIGN then 4 else 0)\<rparr>"
  have len: "unat (num_of_node_arrays ?p) \<le> length (nodes_ptr ?p)" using n by simp
  have rep: "(replicate n x)[0 := y] = y # replicate (n - 1) x" for x y :: posal_bufpool_nodes
    using assms(2) by (cases n) simp_all
  have "posal_bufpool_allocate_new_nodes_arr mal ?p 0
     = Some (case mal of None \<Rightarrow> (AR_ENOMEMORY, ?p) | Some base \<Rightarrow> (AR_EOK, new_pool sz n al npa base))"
    unfolding allocate_eq [OF len] using assms(2) n
    by (auto simp: add_arr_def upd_arr_def new_pool_def rep split: option.split)
  then show ?thesis
    by (auto simp: posal_bufpool_pool_create_def n handle_of_def Let_def split: option.splits)
qed

lemma pool_at_new:
  "length (all_pools s) = POSAL_BUFPOOL_MAX_POOLS \<Longrightarrow> k < POSAL_BUFPOOL_MAX_POOLS \<Longrightarrow>
   pool_at (s\<lparr>all_pools := (all_pools s)[k := po]\<rparr>) k' = (if k' = k then po else pool_at s k')"
  by (auto simp: pool_at_def)

lemma new_pool_inv:
  assumes inv: "bufpool_inv s" and k: "pool_at s k = None" "k < POSAL_BUFPOOL_MAX_POOLS"
    and wf: "pool_wf q" and live: "live q = {}"
    and fresh: "\<And>k' p' i i'. pool_at s k' = Some p' \<Longrightarrow> i < length (nodes_ptr q) \<Longrightarrow> i' < length (nodes_ptr p') \<Longrightarrow>
       arr_region q i \<inter> arr_region p' i' = {}"
    and own: "\<And>i i'. i < length (nodes_ptr q) \<Longrightarrow> i' < length (nodes_ptr q) \<Longrightarrow> i \<noteq> i' \<Longrightarrow> arr_region q i \<inter> arr_region q i' = {}"
  shows "bufpool_inv (s\<lparr>all_pools := (all_pools s)[k := Some q]\<rparr>)" (is "bufpool_inv ?s")
    and "live_nodes (s\<lparr>all_pools := (all_pools s)[k := Some q]\<rparr>) = live_nodes s"
proof -
  have len: "length (all_pools s) = POSAL_BUFPOOL_MAX_POOLS" using inv by (simp add: bufpool_inv_def)
  note at = pool_at_new [OF len k(2)]
  have "arr_region p i \<inter> arr_region p' i' = {}"
    if "pool_at ?s l = Some p" "pool_at ?s l' = Some p'" "i < length (nodes_ptr p)" "i' < length (nodes_ptr p')"
      "(l, i) \<noteq> (l', i')" for l p i l' p' i'
  proof -
    have old: "pool_at s m = Some r" if "pool_at ?s m = Some r" "m \<noteq> k" for m r
      using that by (simp add: at)
    have new: "r = q" if "pool_at ?s k = Some r" for r using that by (simp add: at)
    consider "l = k" "l' = k" | "l = k" "l' \<noteq> k" | "l \<noteq> k" "l' = k" | "l \<noteq> k" "l' \<noteq> k" by blast
    then show ?thesis
    proof cases
      case 1 with that new own show ?thesis by simp
    next
      case 2 with that new fresh [OF old] show ?thesis by simp
    next
      case 3 with that new fresh [OF old, of l p i' i] show ?thesis by (simp add: Int_commute)
    next
      case 4 with that old inv show ?thesis unfolding bufpool_inv_def regions_disjoint_def by blast
    qed
  qed
  then have "regions_disjoint ?s" unfolding regions_disjoint_def by blast
  moreover have "hdrs_wf (headers s) k q" using live by (simp add: hdrs_wf_def)
  ultimately show "bufpool_inv ?s" using inv wf by (auto simp: bufpool_inv_def at split: if_splits)
  have "pool_nodes q = {}" by (simp add: pool_nodes_def live)
  then have "a \<in> live_nodes ?s \<longleftrightarrow> a \<in> live_nodes s" for a
    using k(1) unfolding live_nodes_def at by (auto split: if_splits) (metis option.distinct(1))
  then show "live_nodes ?s = live_nodes s" by blast
qed

subsection \<open>Destroying and resetting a pool\<close>

text \<open>
  How the pools before and after forced freeing of the arrays \<open>is\<close> relate: those arrays are
  gone, the others are as they were, and headers outside the pool's own memory are kept.
\<close>

definition freed :: "nat set \<Rightarrow> posal_bufpool_pool \<Rightarrow> posal_bufpool_node_header store \<Rightarrow>
    posal_bufpool_pool \<Rightarrow> posal_bufpool_node_header store \<Rightarrow> bool" where
  "freed A p hs p' hs' \<longleftrightarrow> length (nodes_ptr p') = length (nodes_ptr p)
     \<and> num_of_node_arrays p' = num_of_node_arrays p \<and> nodes_per_arr p' = nodes_per_arr p
     \<and> node_size p' = node_size p \<and> align_padding_size p' = align_padding_size p
     \<and> (\<forall>i<length (nodes_ptr p). if i \<in> A then mem_start_addr (nodes_ptr p' ! i) = None
            \<and> (mem_start_addr (nodes_ptr p ! i) \<noteq> None \<or> list_bitmask (nodes_ptr p ! i) = 0 \<longrightarrow> list_bitmask (nodes_ptr p' ! i) = 0)
          else nodes_ptr p' ! i = nodes_ptr p ! i)
     \<and> (\<forall>a. (\<forall>i<length (nodes_ptr p). a \<notin> arr_region p i) \<longrightarrow> hs' a = hs a)"

lemma freed_bytes: "freed A p hs p' hs' \<Longrightarrow> node_arr_bytes p' = node_arr_bytes p \<and> node_hdr_addr p' = node_hdr_addr p"
  by (auto simp: freed_def node_arr_bytes_def node_stride_def node_hdr_addr_def fun_eq_iff)

lemma force_free_arr_freed:
  assumes "unat (num_of_node_arrays p) \<le> length (nodes_ptr p)" "i < unat (num_of_node_arrays p)"
  shows "\<exists>p' hs'. force_free_arr p hs i = Some (p', hs') \<and> freed {i} p hs p' hs'"
proof (cases "mem_start_addr (nodes_ptr p ! i)")
  case None
  then show ?thesis using assms by (auto simp: force_free_arr_def mem_simps freed_def)
next
  case (Some b)
  let ?p = "p\<lparr>nodes_ptr := (nodes_ptr p)[i := (nodes_ptr p ! i)\<lparr>list_bitmask := 0\<rparr>]\<rparr>"
  have i: "i < length (nodes_ptr p)" using assms by simp
  have bytes: "node_arr_bytes ?p = node_arr_bytes p" by (simp add: node_arr_bytes_def node_stride_def)
  have "force_free_arr p hs i = Some (del_arr ?p i, drop_region b (node_arr_bytes p) hs)"
    using i Some assms bytes by (simp add: force_free_arr_def mem_simps free_nodes_arr_eq)
  moreover have "freed {i} p hs (del_arr ?p i) (drop_region b (node_arr_bytes p) hs)"
    unfolding freed_def
  proof (intro conjI allI impI)
    fix a assume "\<forall>i<length (nodes_ptr p). a \<notin> arr_region p i"
    then have "a \<notin> arr_region p i" using i by blast
    then show "drop_region b (node_arr_bytes p) hs a = hs a" using Some by (auto simp: arr_region_def drop_region_def)
  qed (use i in \<open>auto simp: del_arr_def upd_arr_def\<close>)
  ultimately show ?thesis by blast
qed

lemma freed_trans:
  assumes "freed A p hs p' hs'" "freed B p' hs' p'' hs''"
  shows "freed (A \<union> B) p hs p'' hs''"
proof -
  have len: "length (nodes_ptr p') = length (nodes_ptr p)" using assms(1) by (simp add: freed_def)
  have sub: "arr_region p' i \<subseteq> arr_region p i" if "i < length (nodes_ptr p)" for i
  proof (cases "i \<in> A")
    case True
    then have "mem_start_addr (nodes_ptr p' ! i) = None" using assms(1) that by (auto simp: freed_def)
    then show ?thesis by (simp add: arr_region_def)
  next
    case False
    then have "nodes_ptr p' ! i = nodes_ptr p ! i" using assms(1) that by (auto simp: freed_def)
    then show ?thesis using freed_bytes [OF assms(1)] by (simp add: arr_region_def split: option.split)
  qed
  have arrs: "if i \<in> A \<union> B then mem_start_addr (nodes_ptr p'' ! i) = None
       \<and> (mem_start_addr (nodes_ptr p ! i) \<noteq> None \<or> list_bitmask (nodes_ptr p ! i) = 0 \<longrightarrow> list_bitmask (nodes_ptr p'' ! i) = 0)
     else nodes_ptr p'' ! i = nodes_ptr p ! i" if "i < length (nodes_ptr p)" for i
    using assms that len unfolding freed_def by (cases "i \<in> A"; cases "i \<in> B") fastforce+
  have hdrs: "hs'' a = hs a" if "\<forall>i<length (nodes_ptr p). a \<notin> arr_region p i" for a
  proof -
    have "hs' a = hs a" using assms(1) that unfolding freed_def by blast
    moreover have "hs'' a = hs' a" using assms(2) that sub len unfolding freed_def by (metis subsetD)
    ultimately show ?thesis by simp
  qed
  show ?thesis using assms arrs hdrs len unfolding freed_def by auto
qed

lemma for_arrays_freed:
  assumes "unat (num_of_node_arrays p) \<le> length (nodes_ptr p)" "\<forall>i\<in>set is. i < unat (num_of_node_arrays p)"
  shows "\<exists>p' hs'. for_arrays force_free_arr is p hs = Some (p', hs') \<and> freed (set is) p hs p' hs'"
  using assms
proof (induction "is" arbitrary: p hs)
  case Nil
  show ?case by (simp add: freed_def)
next
  case (Cons i "is")
  obtain p1 hs1 where 1: "force_free_arr p hs i = Some (p1, hs1)" "freed {i} p hs p1 hs1"
    using force_free_arr_freed [of p i hs] Cons.prems by auto
  then have "unat (num_of_node_arrays p1) \<le> length (nodes_ptr p1)" "\<forall>i\<in>set is. i < unat (num_of_node_arrays p1)"
    using Cons.prems by (auto simp: freed_def)
  then obtain p2 hs2 where 2: "for_arrays force_free_arr is p1 hs1 = Some (p2, hs2)" "freed (set is) p1 hs1 p2 hs2"
    using Cons.IH by blast
  then show ?case using 1 freed_trans [OF 1(2) 2(2)] by simp
qed

lemma live_header_outside:
  assumes inv: "bufpool_inv s" and p: "pool_at s k = Some p" and p2: "pool_at s k2 = Some p2" "k2 \<noteq> k"
    and l: "(i2, j2) \<in> live p2" and b2: "mem_start_addr (nodes_ptr p2 ! i2) = Some b2" and i: "i < length (nodes_ptr p)"
  shows "node_hdr_addr p2 b2 j2 \<notin> arr_region p i"
proof -
  obtain i2: "i2 < length (nodes_ptr p2)" and j2: "j2 < unat (nodes_per_arr p2)"
    using live_place [OF inv_pool(1) [OF inv p2(1)] l] by metis
  have "arr_region p i \<inter> arr_region p2 i2 = {}"
    using inv_pool(4) [OF inv p] p p2 i i2 unfolding regions_disjoint_def by blast
  moreover have "node_hdr_addr p2 b2 j2 \<in> arr_region p2 i2"
    using node_block_in_region [OF j2, of 0 b2] b2 by (simp add: arr_region_def)
  ultimately show ?thesis by blast
qed

lemma freed_hdrs:
  assumes inv: "bufpool_inv s" and p: "pool_at s k = Some p" and f: "freed A p (headers s) p' hs'"
    and p2: "pool_at s k2 = Some p2" "k2 \<noteq> k"
  shows "hdrs_wf hs' k2 p2"
proof (rule hdrs_wf_I)
  fix i j b assume l: "(i, j) \<in> live p2" and b: "mem_start_addr (nodes_ptr p2 ! i) = Some b"
  have "hs' (node_hdr_addr p2 b j) = headers s (node_hdr_addr p2 b j)"
    using f live_header_outside [OF inv p p2 l b] unfolding freed_def by blast
  then show "hs' (node_hdr_addr p2 b j) = Some (place_hdr k2 i j)"
    using hdrs_wf_D [OF inv_pool(2) [OF inv p2(1)] l b] by simp
qed

lemma pool_destroy_ok:
  assumes inv: "bufpool_inv s" and p: "pool_at s k = Some p"
  shows "\<exists>s'. posal_bufpool_pool_destroy s (handle_of k) = Some s' \<and> bufpool_inv s' \<and> pool_at s' k = None
    \<and> (\<forall>k'. k' \<noteq> k \<longrightarrow> pool_at s' k' = pool_at s k') \<and> live_nodes s' = other_nodes s k"
proof -
  note pool = inv_pool [OF inv p]
  have lens: "length (all_pools s) = POSAL_BUFPOOL_MAX_POOLS" using inv by (simp add: bufpool_inv_def)
  have "unat (num_of_node_arrays p) \<le> length (nodes_ptr p)" using pool(1) by (simp add: pool_wf_def)
  then obtain p' hs' where loop: "for_arrays force_free_arr [0..<unat (num_of_node_arrays p)] p (headers s) = Some (p', hs')"
    and f: "freed (set [0..<unat (num_of_node_arrays p)]) p (headers s) p' hs'"
    using for_arrays_freed [of p "[0..<unat (num_of_node_arrays p)]" "headers s"] by auto
  let ?s = "s\<lparr>all_pools := (all_pools s)[k := None], headers := hs'\<rparr>"
  have at: "pool_at ?s k' = (if k' = k then None else pool_at s k')" for k'
    using pool(3) lens by (auto simp: pool_at_def)
  have "posal_bufpool_pool_destroy s (handle_of k) = Some ?s"
    using loop p pool_at_nth [OF p] validate_handle_of [OF lens pool(3)] by (simp add: posal_bufpool_pool_destroy_def)
  moreover have "regions_disjoint ?s"
    using pool(4) unfolding regions_disjoint_def by (auto simp: at split: if_splits)
  then have "bufpool_inv ?s"
    using inv freed_hdrs [OF inv p f] by (auto simp: bufpool_inv_def at split: if_splits)
  moreover have "live_nodes ?s = other_nodes s k" by (auto simp: live_nodes_def other_nodes_def at)
  ultimately show ?thesis using at by auto
qed

lemma sum_list_only_first:
  assumes "xs \<noteq> []" "\<And>i. 0 < i \<Longrightarrow> i < length xs \<Longrightarrow> f (xs ! i) = (0::nat)"
  shows "sum_list (map f xs) = f (xs ! 0)"
proof (cases xs)
  case (Cons x ys)
  have "f y = 0" if "y \<in> set ys" for y
    using that assms(2) [of "Suc _"] Cons by (auto simp: in_set_conv_nth)
  then show ?thesis using Cons by simp
qed (use assms in simp)

text \<open>A pool in its base state: only the first array exists and no node is in use.\<close>

definition base_pool :: "posal_bufpool_pool \<Rightarrow> bool" where
  "base_pool p \<longleftrightarrow> used_nodes p = 0 \<and> allocated_nodes p = nodes_per_arr p
     \<and> (\<forall>i<length (nodes_ptr p). list_bitmask (nodes_ptr p ! i) = 0 \<and> (mem_start_addr (nodes_ptr p ! i) \<noteq> None \<longleftrightarrow> i = 0))"

lemma base_pool_wf:
  assumes "base_pool q" "pool_wf p" "0 < unat (num_of_node_arrays p)" "length (nodes_ptr q) = length (nodes_ptr p)"
    "num_of_node_arrays q = num_of_node_arrays p" "nodes_per_arr q = nodes_per_arr p"
  shows "pool_wf q" "live q = {}"
proof -
  have ne: "nodes_ptr q \<noteq> []" using assms(2-4) by (auto simp: pool_wf_def)
  have "num_live q = 0"
    using sum_list_only_first [OF ne, of "\<lambda>a. mask_count (list_bitmask a)"] assms(1) ne
    by (simp add: num_live_def base_pool_def)
  moreover have "num_arrs q = 1"
    unfolding num_arrs_def using assms(1) ne by (subst sum_list_only_first) (auto simp: base_pool_def)
  ultimately show "pool_wf q" "live q = {}" using assms by (auto simp: pool_wf_def base_pool_def arr_wf_def live_def)
qed

lemma put_emptied_pool:
  assumes inv: "bufpool_inv s" and p: "pool_at s k = Some p" and wf: "pool_wf q" and live: "live q = {}"
    and len: "length (nodes_ptr q) = length (nodes_ptr p)"
    and reg: "\<And>i. i < length (nodes_ptr p) \<Longrightarrow> arr_region q i \<subseteq> arr_region p i"
    and hs: "\<And>a. (\<forall>i<length (nodes_ptr p). a \<notin> arr_region p i) \<Longrightarrow> hs' a = headers s a"
  shows "bufpool_inv (put_pool s k q hs')" "live_nodes (put_pool s k q hs') = other_nodes s k"
proof -
  have "hdrs_wf hs' k2 p2" if p2: "pool_at s k2 = Some p2" "k2 \<noteq> k" for k2 p2
  proof (rule hdrs_wf_I)
    fix i j b assume l: "(i, j) \<in> live p2" and b: "mem_start_addr (nodes_ptr p2 ! i) = Some b"
    have "hs' (node_hdr_addr p2 b j) = headers s (node_hdr_addr p2 b j)"
      using hs live_header_outside [OF inv p p2 l b] by blast
    then show "hs' (node_hdr_addr p2 b j) = Some (place_hdr k2 i j)"
      using hdrs_wf_D [OF inv_pool(2) [OF inv p2(1)] l b] by simp
  qed
  moreover have "hdrs_wf hs' k q" using live by (simp add: hdrs_wf_def)
  ultimately show "bufpool_inv (put_pool s k q hs')"
    using regions_disjoint_sub [OF inv_pool(4) [OF inv p] p len reg] by (intro bufpool_inv_put [OF inv p _ wf])
  show "live_nodes (put_pool s k q hs') = other_nodes s k"
    by (simp add: live_nodes_put [OF p] pool_nodes_def live)
qed

lemma reset_arrays:
  assumes wf: "pool_wf p" and n: "0 < unat (num_of_node_arrays p)"
    and m: "mem_start_addr (nodes_ptr p ! 0) \<noteq> None"
    and f: "freed {1..<unat (num_of_node_arrays p)} (upd_arr p 0 ((nodes_ptr p ! 0)\<lparr>list_bitmask := 0\<rparr>)) hs p' hs'"
    and i: "i < length (nodes_ptr p)"
  shows "list_bitmask (nodes_ptr p' ! i) = 0"
    and "mem_start_addr (nodes_ptr p' ! i) = (if i = 0 then mem_start_addr (nodes_ptr p ! 0) else None)"
proof -
  let ?a = "(nodes_ptr p ! 0)\<lparr>list_bitmask := 0\<rparr>"
  have if_out: "nodes_ptr p' ! i = ((nodes_ptr p)[0 := ?a]) ! i" if "i \<notin> {1..<unat (num_of_node_arrays p)}"
    using f i that by (auto simp: freed_def)
  have if_in: "mem_start_addr (nodes_ptr p' ! i) = None \<and> list_bitmask (nodes_ptr p' ! i) = 0"
    if "i \<in> {1..<unat (num_of_node_arrays p)}"
  proof -
    have "nodes_ptr (upd_arr p 0 ?a) ! i = nodes_ptr p ! i" using that by simp
    moreover have "mem_start_addr (nodes_ptr p' ! i) = None \<and>
      (mem_start_addr (nodes_ptr (upd_arr p 0 ?a) ! i) \<noteq> None \<or> list_bitmask (nodes_ptr (upd_arr p 0 ?a) ! i) = 0 \<longrightarrow>
       list_bitmask (nodes_ptr p' ! i) = 0)"
      using f i that unfolding freed_def by (metis length_list_update upd_arr_simps(1))
    ultimately show ?thesis using pool_wf_arr(1) [OF wf i] by auto
  qed
  consider "i = 0" | "i \<in> {1..<unat (num_of_node_arrays p)}" | "unat (num_of_node_arrays p) \<le> i" by fastforce
  then have "list_bitmask (nodes_ptr p' ! i) = 0 \<and>
    mem_start_addr (nodes_ptr p' ! i) = (if i = 0 then mem_start_addr (nodes_ptr p ! 0) else None)"
  proof cases
    case 1
    then show ?thesis using if_out i by simp
  next
    case 2
    then show ?thesis using if_in by auto
  next
    case 3
    then show ?thesis using if_out pool_wf_arr(1,3) [OF wf i] n by auto
  qed
  then show "list_bitmask (nodes_ptr p' ! i) = 0"
    "mem_start_addr (nodes_ptr p' ! i) = (if i = 0 then mem_start_addr (nodes_ptr p ! 0) else None)" by auto
qed

lemma pool_reset_allocated:
  assumes inv: "bufpool_inv s" and p: "pool_at s k = Some p" and n: "0 < unat (num_of_node_arrays p)"
    and m: "mem_start_addr (nodes_ptr p ! 0) \<noteq> None"
  shows "\<exists>s' q. posal_bufpool_pool_reset_to_base mal s (handle_of k) = Some s' \<and> bufpool_inv s'
    \<and> pool_at s' k = Some q \<and> base_pool q \<and> live_nodes s' = other_nodes s k"
proof -
  note pool = inv_pool [OF inv p]
  let ?p0 = "upd_arr p 0 ((nodes_ptr p ! 0)\<lparr>list_bitmask := 0\<rparr>)"
  have len: "unat (num_of_node_arrays p) \<le> length (nodes_ptr p)" using pool(1) by (simp add: pool_wf_def)
  obtain p' hs' where loop: "for_arrays force_free_arr [1..<unat (num_of_node_arrays p)] ?p0 (headers s) = Some (p', hs')"
    and f: "freed {1..<unat (num_of_node_arrays p)} ?p0 (headers s) p' hs'"
    using for_arrays_freed [of ?p0 "[1..<unat (num_of_node_arrays p)]" "headers s"] len by auto
  note arrs = reset_arrays [OF pool(1) n m f]
  let ?q = "p'\<lparr>allocated_nodes := nodes_per_arr p', used_nodes := 0\<rparr>"
  have cfg: "length (nodes_ptr p') = length (nodes_ptr p)" "num_of_node_arrays p' = num_of_node_arrays p"
    "nodes_per_arr p' = nodes_per_arr p" "node_arr_bytes p' = node_arr_bytes p"
    using f freed_bytes [OF f] by (auto simp: freed_def)
  have base: "base_pool ?q" using arrs cfg m by (auto simp: base_pool_def)
  have reg0: "arr_region ?p0 i = arr_region p i" for i
  proof (cases "i = 0")
    case True
    have "0 < length (nodes_ptr p)" using len n by linarith
    then show ?thesis by (simp add: True arr_region_upd_same arr_region_def [of p])
  qed (simp add: arr_region_upd_other)
  have hs: "hs' a = headers s a" if "\<forall>i<length (nodes_ptr p). a \<notin> arr_region p i" for a
    using f that by (simp add: freed_def reg0)
  have "arr_region ?q i \<subseteq> arr_region p i" if "i < length (nodes_ptr p)" for i
    using arrs(2) [OF that] cfg by (cases "i = 0") (simp_all add: arr_region_def split: option.split)
  then have put: "bufpool_inv (put_pool s k ?q hs')" "live_nodes (put_pool s k ?q hs') = other_nodes s k"
    using put_emptied_pool [OF inv p, of ?q hs'] base_pool_wf [OF base pool(1) n] cfg hs by simp_all
  have v: "validate_handle s (handle_of k) = (AR_EOK, k)"
    using inv p pool(3) by (simp add: bufpool_inv_def validate_handle_of)
  have "arr_at (nodes_ptr p) 0 = Some (nodes_ptr p ! 0)" using n len by (intro arr_at_in) linarith
  then have "posal_bufpool_pool_reset_to_base mal s (handle_of k) = Some (put_pool s k ?q hs')"
    using v pool_at_nth [OF p] m loop
    by (auto simp: posal_bufpool_pool_reset_to_base_def put_pool_def Let_def simp flip: upd_arr_def)
  then show ?thesis using put base pool_at_put [OF p] by auto
qed

subsection \<open>Membership of an address\<close>

lemma live_nodes_in_bufpool:
  assumes inv: "bufpool_inv s" and p: "pool_at s k = Some p" and a: "a \<in> pool_nodes p" and x: "x < unat (node_size p)"
  shows "posal_bufpool_is_address_in_bufpool s (a + x) (handle_of k)"
proof -
  note pool = inv_pool [OF inv p]
  obtain i j b where l: "(i, j) \<in> live p" and b: "mem_start_addr (nodes_ptr p ! i) = Some b"
    and a: "a = node_hdr_addr p b j + SIZEOF_NODE_HEADER" using a unfolding pool_nodes_def by blast
  obtain i: "i < unat (num_of_node_arrays p)" "i < length (nodes_ptr p)" and j: "j < unat (nodes_per_arr p)"
    using live_place [OF pool(1) l] by metis
  have v: "validate_handle s (handle_of k) = (AR_EOK, k)"
    using inv p pool(3) by (simp add: bufpool_inv_def validate_handle_of)
  have "b \<le> a + x" "a + x < b + node_arr_bytes p"
    using node_block_in_region [OF j, of "SIZEOF_NODE_HEADER + x" b] x by (simp_all add: a)
  moreover have "nodes_ptr p ! i \<in> set (take (unat (num_of_node_arrays p)) (nodes_ptr p))"
    using i by (auto simp: in_set_conv_nth intro!: exI [of _ i])
  ultimately show ?thesis using v pool_at_nth [OF p] b
    by (auto simp: posal_bufpool_is_address_in_bufpool_def list_ex_iff intro!: bexI [of _ "nodes_ptr p ! i"])
qed

subsection \<open>Freeing unused arrays\<close>

lemma free_if_unused_count:
  assumes "unat (num_of_node_arrays p) \<le> length (nodes_ptr p)" "i < unat (num_of_node_arrays p)"
    and "mem_start_addr (nodes_ptr p ! i) \<noteq> None" "list_bitmask (nodes_ptr p ! i) = 0"
  shows "\<exists>p' hs'. free_if_unused p hs i = Some (p', hs') \<and> mem_start_addr (nodes_ptr p' ! i) = None
    \<and> allocated_nodes p' = allocated_nodes p - nodes_per_arr p - nodes_per_arr p"
  using assms by (auto simp: free_if_unused_def mem_simps free_nodes_arr_eq del_arr_def)

subsection \<open>The usage profile\<close>

lemma num_live_take:
  assumes "pool_wf p"
  shows "sum_list (map (\<lambda>arr. mask_count (list_bitmask arr)) (take (unat (num_of_node_arrays p)) (nodes_ptr p))) = num_live p"
proof -
  let ?n = "unat (num_of_node_arrays p)"
  have "list_bitmask arr = 0" if arr: "arr \<in> set (drop ?n (nodes_ptr p))" for arr
  proof -
    from arr obtain j where "?n + j < length (nodes_ptr p)" "arr = nodes_ptr p ! (?n + j)"
      by (auto simp: in_set_conv_nth less_diff_conv add.commute)
    then show ?thesis using pool_wf_arr(1,3) [OF assms, of "?n + j"] by simp
  qed
  then have "sum_list (map (\<lambda>arr. mask_count (list_bitmask arr)) (drop (unat (num_of_node_arrays p)) (nodes_ptr p))) = 0"
    by simp
  moreover have "num_live p = sum_list (map (\<lambda>arr. mask_count (list_bitmask arr)) (take (unat (num_of_node_arrays p)) (nodes_ptr p)))
      + sum_list (map (\<lambda>arr. mask_count (list_bitmask arr)) (drop (unat (num_of_node_arrays p)) (nodes_ptr p)))"
    unfolding num_live_def by (metis append_take_drop_id map_append sum_list_append)
  ultimately show ?thesis by simp
qed

subsection \<open>Initial state and an example\<close>

definition bufpool_init :: posal_bufpool_state where
  "bufpool_init = \<lparr>all_pools = replicate POSAL_BUFPOOL_MAX_POOLS None, headers = Map.empty\<rparr>"

lemma bufpool_init_inv: "bufpool_inv bufpool_init" and bufpool_init_live: "live_nodes bufpool_init = {}"
  by (auto simp: bufpool_init_def bufpool_inv_def regions_disjoint_def pool_at_def live_nodes_def)

lemma new_pool_region:
  "arr_region (new_pool sz n al npa base) i =
     (if i = 0 then {base ..< base + node_arr_bytes (new_pool sz n al npa base)} else {})" if "i < n"
  using that by (cases i) (simp_all add: arr_region_def new_pool_def)

text \<open>One pool of two arrays with two 16-byte nodes each, the first array at address 1000.\<close>

definition ex_pool :: posal_bufpool_pool where
  "ex_pool = new_pool 16 2 FOUR_BYTE_ALIGN 2 1000"

definition ex_state :: posal_bufpool_state where
  "ex_state = bufpool_init\<lparr>all_pools := (all_pools bufpool_init)[0 := Some ex_pool]\<rparr>"

definition ex_mal :: "nat \<Rightarrow> ptr" where
  "ex_mal i = Some (2000 + 1000 * i)"

lemma ex_create: "posal_bufpool_pool_create True (Some 1000) bufpool_init 16 2 FOUR_BYTE_ALIGN 2 = Some (handle_of 0, ex_state)"
proof -
  have "find_first_free (all_pools bufpool_init) = 0" by (simp add: bufpool_init_def eval_nat_numeral)
  then show ?thesis
    using pool_create_eq [of bufpool_init 2 True "Some 1000" 16 FOUR_BYTE_ALIGN 2]
    by (simp add: ex_state_def ex_pool_def Let_def) (simp add: bufpool_init_def)
qed

lemma ex_pool_len: "length (nodes_ptr ex_pool) = 2" by (simp add: ex_pool_def new_pool_def)

lemma ex_pool_at: "pool_at ex_state k = (if k = 0 then Some ex_pool else None)"
  by (auto simp: ex_state_def pool_at_def bufpool_init_def nth_Cons split: nat.splits)

lemma ex_state_inv: "bufpool_inv ex_state" and ex_state_live: "live_nodes ex_state = {}"
proof -
  have none: "pool_at bufpool_init k = None" for k by (simp add: bufpool_init_def pool_at_def)
  have wf: "pool_wf ex_pool" "live ex_pool = {}"
    using new_pool_wf [of 2 2 16 FOUR_BYTE_ALIGN 1000] by (simp_all add: ex_pool_def)
  have own: "arr_region ex_pool i \<inter> arr_region ex_pool i' = {}" if "i < 2" "i' < 2" "i \<noteq> i'" for i i'
    using that new_pool_region [of _ 2 16 FOUR_BYTE_ALIGN 2 1000] by (simp add: ex_pool_def)
  show "bufpool_inv ex_state" "live_nodes ex_state = {}"
    using new_pool_inv [OF bufpool_init_inv none _ wf, of 0] own
    by (simp_all add: none ex_pool_len ex_state_def bufpool_init_live)
qed

lemma ex_mal_ok: "mal_ok ex_mal ex_state k"
proof -
  have "node_arr_bytes ex_pool = 48" by (simp add: ex_pool_def new_pool_def node_arr_bytes_def node_stride_def)
  moreover have "arr_region ex_pool i \<subseteq> {1000 ..< 1048}" if "i < 2" for i
    using that new_pool_region [of i 2 16 FOUR_BYTE_ALIGN 2 1000] calculation by (auto simp: ex_pool_def)
  ultimately show ?thesis
    unfolding mal_ok_def ex_pool_at ex_mal_def by (fastforce simp: ex_pool_len split: if_splits)
qed

text \<open>The same pool after one node was handed out.\<close>

definition ex_used :: posal_bufpool_state where
  "ex_used = snd (the (posal_bufpool_get_node ex_mal ex_state (handle_of 0)))"

lemma ex_used: "posal_bufpool_get_node ex_mal ex_state (handle_of 0) = Some (Some 1008, ex_used)"
  "bufpool_inv ex_used" "live_nodes ex_used = {1008}"
proof -
  have "map_option fst (posal_bufpool_get_node ex_mal ex_state (handle_of 0)) = Some (Some 1008)"
    by code_simp
  then show 1: "posal_bufpool_get_node ex_mal ex_state (handle_of 0) = Some (Some 1008, ex_used)"
    unfolding ex_used_def by (cases "posal_bufpool_get_node ex_mal ex_state (handle_of 0)") auto
  show "bufpool_inv ex_used" "live_nodes ex_used = {1008}"
    using get_node_total [OF ex_state_inv, of ex_mal "handle_of 0"] ex_mal_ok 1 ex_state_live
    by (auto simp: got_node_def)
qed

definition ex_used_pool :: posal_bufpool_pool where
  "ex_used_pool = flip ex_pool 0 0 1"

lemma ex_used_eq: "ex_used = put_pool ex_state 0 ex_used_pool [1000 \<mapsto> place_hdr 0 0 0]"
proof -
  have hd: "node_hdr_addr ex_pool 1000 0 = 1000" by (simp add: ex_pool_def new_pool_def node_hdr_addr_def)
  have "get_first_zero_idx_in_list_bitmask 0 = 0" by (simp add: get_first_zero_idx_in_list_bitmask_def shift_loop.simps)
  moreover have "pool_wf ex_pool" using inv_pool(1) [OF ex_state_inv] ex_pool_at by simp
  moreover have arr0: "nodes_ptr ex_pool ! 0 = \<lparr>list_bitmask = 0, mem_start_addr = Some 1000\<rparr>"
    "nodes_per_arr ex_pool = 2" "used_nodes ex_pool = 0" "num_of_node_arrays ex_pool = 2"
    by (simp_all add: ex_pool_def new_pool_def)
  moreover have "take_node ex_pool Map.empty 0 0 0 = Some (Some 1008, ex_used_pool, [1000 \<mapsto> place_hdr 0 0 0])"
    using take_node_eq [of 0 ex_pool 1000 Map.empty 0 0] arr0 hd by (simp add: ex_pool_len ex_used_pool_def)
  ultimately have "get_node_loop ex_mal ex_pool Map.empty 0 2 0 = Some (Some 1008, ex_used_pool, [1000 \<mapsto> place_hdr 0 0 0])"
    using get_node_loop_cases(3) [of ex_pool 2 0 ex_mal Map.empty 0] by simp
  moreover have "validate_handle ex_state (handle_of 0) = (AR_EOK, 0)" "all_pools ex_state ! 0 = Some ex_pool" "headers ex_state = Map.empty"
    using ex_state_inv ex_pool_at
    by (simp_all add: validate_handle_of bufpool_inv_def ex_state_def bufpool_init_def)
  ultimately show ?thesis using arr0 by (simp add: ex_used_def posal_bufpool_get_node_def put_pool_def)
qed

lemma ex_used_mal_ok: "mal_ok ex_mal ex_used k"
proof -
  have at: "pool_at ex_used k = (if k = 0 then Some ex_used_pool else None)" for k
    by (simp add: ex_used_eq pool_at_put [where p = ex_pool] ex_pool_at)
  show ?thesis
    using ex_mal_ok [of k] unfolding mal_ok_def at ex_pool_at by (simp add: ex_used_pool_def split: if_splits)
qed

subsection \<open>The allocator contract\<close>

interpretation bufpool: node_allocator
  "\<lambda>(mal, h) s. posal_bufpool_get_node mal s h" posal_bufpool_return_node live_nodes bufpool_inv
  "\<lambda>(mal, h) s. \<forall>k. mal_ok mal s k"
proof unfold_locales
  fix s :: posal_bufpool_state and e :: "(nat \<Rightarrow> ptr) \<times> u32"
  assume "bufpool_inv s" "(case e of (mal, h) \<Rightarrow> \<lambda>s. \<forall>k. mal_ok mal s k) s"
  then show "\<exists>r s'. (case e of (mal, h) \<Rightarrow> \<lambda>s. posal_bufpool_get_node mal s h) s = Some (r, s') \<and> bufpool_inv s' \<and>
      (case r of None \<Rightarrow> live_nodes s' = live_nodes s | Some a \<Rightarrow> a \<notin> live_nodes s \<and> live_nodes s' = insert a (live_nodes s))"
    using get_node_total [of s "fst e" "snd e"] by (auto simp: got_node_def split: prod.splits)
qed (rule return_node_live)

subsection \<open>Properties\<close>

text \<open>a 32-bit mask that is not full has the index computed by the bit trick as its lowest clear bit.\<close>

theorem first_zero_is_lowest:
  assumes "m \<noteq> NOT 0"
  shows "get_first_zero_idx_in_list_bitmask m = (LEAST j. \<not> bit m j)"
  using first_zero_spec [OF assms] by (intro Least_equality [symmetric]) (auto simp: not_less [symmetric])

theorem first_zero_is_lowest_witness: "(0x17 :: u32) \<noteq> NOT 0 \<and> get_first_zero_idx_in_list_bitmask 0x17 = (LEAST j. \<not> bit (0x17 :: u32) j)"
proof -
  have "(0x17 :: u32) \<noteq> NOT 0" by simp
  then show ?thesis using first_zero_is_lowest by blast
qed

text \<open>
  C1: getting a node never faults and always ends; the pool invariant holds afterwards, and
  if an address is delivered, it was not in use before and is the only one added.
\<close>

theorem bufpool_get_node_fresh:
  assumes "bufpool_inv s" and "\<forall>k. mal_ok mal s k"
  shows "\<exists>r s'. posal_bufpool_get_node mal s h = Some (r, s') \<and> bufpool_inv s' \<and>
    (case r of None \<Rightarrow> live_nodes s' = live_nodes s | Some a \<Rightarrow> a \<notin> live_nodes s \<and> live_nodes s' = insert a (live_nodes s))"
  using bufpool.get_law [of s "(mal, h)"] assms by simp

theorem bufpool_get_node_fresh_witness:
  "\<exists>r s'. posal_bufpool_get_node ex_mal ex_state (handle_of 0) = Some (r, s') \<and> bufpool_inv s' \<and>
    (case r of None \<Rightarrow> live_nodes s' = {} | Some a \<Rightarrow> a \<notin> {} \<and> live_nodes s' = {a})"
  using bufpool_get_node_fresh [OF ex_state_inv, of ex_mal "handle_of 0"] ex_mal_ok unfolding ex_state_live by simp

text \<open>
  if a pool has a place that is not in use and the system allocator answers, a request
  for a node is served.
\<close>

theorem bufpool_get_node_served:
  assumes "bufpool_inv s" and "\<forall>k. mal_ok mal s k" and "\<forall>i. mal i \<noteq> None" and "pool_at s k = Some p"
    and "i < unat (num_of_node_arrays p)" and "j < unat (nodes_per_arr p)" and "(i, j) \<notin> live p"
  shows "\<exists>a s'. posal_bufpool_get_node mal s (handle_of k) = Some (Some a, s') \<and> a \<notin> live_nodes s"
proof -
  have "free_from p 0" using assms(5-7) by (auto simp: free_from_def)
  then show ?thesis using get_node_live [of s mal k p] get_node_total [of s mal "handle_of k"] assms(1-4)
    by (auto simp: got_node_def)
qed

theorem bufpool_get_node_served_witness:
  "\<exists>a s'. posal_bufpool_get_node ex_mal ex_state (handle_of 0) = Some (Some a, s') \<and> a \<notin> live_nodes ex_state"
proof (rule bufpool_get_node_served [where p = ex_pool and i = 1 and j = 0])
  show "bufpool_inv ex_state" "\<forall>k. mal_ok ex_mal ex_state k" by (simp_all add: ex_state_inv ex_mal_ok)
  show "pool_at ex_state 0 = Some ex_pool" by (simp add: ex_pool_at)
  show "\<forall>i. ex_mal i \<noteq> None" by (simp add: ex_mal_def)
  show "1 < unat (num_of_node_arrays ex_pool)" "0 < unat (nodes_per_arr ex_pool)" "(1, 0) \<notin> live ex_pool"
    by (simp_all add: ex_pool_def new_pool_def live_def)
qed

text \<open>
  C10: returning an address that is in use takes it, and nothing else, out of use and keeps
  the invariant, whether or not its array is freed by it.
\<close>

theorem bufpool_return_node_ok:
  assumes "bufpool_inv s" and "a \<in> live_nodes s"
  shows "\<exists>s'. posal_bufpool_return_node s a = Some s' \<and> bufpool_inv s' \<and> live_nodes s' = live_nodes s - {a}"
  by (rule bufpool.put_law [OF assms])

theorem bufpool_return_node_ok_witness:
  "\<exists>s'. posal_bufpool_return_node ex_used 1008 = Some s' \<and> bufpool_inv s' \<and> live_nodes s' = {}"
  using bufpool_return_node_ok [OF ex_used(2), of 1008] ex_used(3) by simp

text \<open>a node that is got and returned leaves the set of nodes in use as it was.\<close>

theorem bufpool_get_return:
  assumes "bufpool_inv s" and "\<forall>k. mal_ok mal s k" and "posal_bufpool_get_node mal s h = Some (Some a, s')"
  shows "\<exists>s''. posal_bufpool_return_node s' a = Some s'' \<and> bufpool_inv s'' \<and> live_nodes s'' = live_nodes s"
  using bufpool.get_then_put [of s "(mal, h)" a s'] assms by simp

theorem bufpool_get_return_witness:
  "\<exists>s''. posal_bufpool_return_node ex_used 1008 = Some s'' \<and> bufpool_inv s'' \<and> live_nodes s'' = live_nodes ex_state"
  using bufpool_get_return [OF ex_state_inv _ ex_used(1)] ex_mal_ok by simp

text \<open>
  returning the same address a second time changes nothing as long as its memory is
  still owned by the pool (when its array was freed, reading its header is a fault).
\<close>

theorem bufpool_double_return:
  assumes "bufpool_inv s" and "a \<in> live_nodes s" and "posal_bufpool_return_node s a = Some s'"
  shows "posal_bufpool_return_node s' a \<in> {None, Some s'}"
  using return_node_again [OF assms] by blast

theorem bufpool_double_return_witness:
  "posal_bufpool_return_node (the (posal_bufpool_return_node ex_used 1008)) 1008
     \<in> {None, Some (the (posal_bufpool_return_node ex_used 1008))}"
  using bufpool_double_return [OF ex_used(2), of 1008 "the (posal_bufpool_return_node ex_used 1008)"] ex_used(3)
    return_node_live [OF ex_used(2), of 1008] by fastforce

text \<open>
  creating a pool in a free slot, with sizes within the header's bit fields and memory
  from the allocator that overlaps no other array, yields the handle of that slot, a pool
  with one empty array, and keeps the invariant.
\<close>

theorem bufpool_create_ok:
  assumes "bufpool_inv s" and "0 < n" "n \<le> 2 ^ 14" "0 < unat npa" "unat npa \<le> POSAL_BUFPOOL_MAX_NODES"
    and "None \<in> set (all_pools s)"
    and "\<forall>k p i. pool_at s k = Some p \<longrightarrow> i < length (nodes_ptr p) \<longrightarrow>
           {base ..< base + node_arr_bytes (new_pool sz n al npa base)} \<inter> arr_region p i = {}"
  shows "\<exists>k s'. posal_bufpool_pool_create True (Some base) s sz (of_nat n) al npa = Some (handle_of k, s')
     \<and> pool_at s k = None \<and> pool_at s' k = Some (new_pool sz n al npa base) \<and> bufpool_inv s' \<and> live_nodes s' = live_nodes s"
proof -
  let ?k = "find_first_free (all_pools s)" and ?q = "new_pool sz n al npa base"
  have len: "length (all_pools s) = POSAL_BUFPOOL_MAX_POOLS" using assms(1) by (simp add: bufpool_inv_def)
  have k: "?k < POSAL_BUFPOOL_MAX_POOLS"
    using find_first_free_spec(1) [of "all_pools s"] find_first_free_spec(3) [of _ "all_pools s"] assms(6) len
    by (metis in_set_conv_nth le_neq_implies_less)
  then have none: "pool_at s ?k = None" using find_first_free_spec(2) [of "all_pools s"] len by (simp add: pool_at_def)
  have lq: "length (nodes_ptr ?q) = n" using assms(2) by (simp add: new_pool_def)
  note reg = new_pool_region [of _ n sz al npa base]
  have new: "bufpool_inv (s\<lparr>all_pools := (all_pools s)[?k := Some ?q]\<rparr>)"
    "live_nodes (s\<lparr>all_pools := (all_pools s)[?k := Some ?q]\<rparr>) = live_nodes s"
    using new_pool_inv [OF assms(1) none k new_pool_wf [OF assms(2-5), of sz al base]] assms(7) reg
    by (simp_all add: lq)
  have "posal_bufpool_pool_create True (Some base) s sz (of_nat n) al npa
      = Some (handle_of ?k, s\<lparr>all_pools := (all_pools s)[?k := Some ?q]\<rparr>)"
    using pool_create_eq [OF len assms(2), of True "Some base" sz al npa] assms(3,5) k by (simp add: Let_def)
  then show ?thesis using none new pool_at_new [OF len k] by auto
qed

theorem bufpool_create_ok_witness:
  "\<exists>k s'. posal_bufpool_pool_create True (Some 1000) bufpool_init 16 (of_nat 2) FOUR_BYTE_ALIGN 2 = Some (handle_of k, s')
     \<and> pool_at bufpool_init k = None \<and> pool_at s' k = Some (new_pool 16 2 FOUR_BYTE_ALIGN 2 1000) \<and> bufpool_inv s'
     \<and> live_nodes s' = live_nodes bufpool_init"
proof (rule bufpool_create_ok [OF bufpool_init_inv])
  show "None \<in> set (all_pools bufpool_init)" by (simp add: bufpool_init_def)
  show "\<forall>k p i. pool_at bufpool_init k = Some p \<longrightarrow> i < length (nodes_ptr p) \<longrightarrow>
      {1000 ..< 1000 + node_arr_bytes (new_pool 16 2 FOUR_BYTE_ALIGN 2 1000)} \<inter> arr_region p i = {}"
    by (simp add: bufpool_init_def pool_at_def)
qed simp_all

text \<open>
  destroying a pool frees its slot, leaves every other pool as it was and takes exactly
  the nodes of this pool out of use.
\<close>

theorem bufpool_destroy_ok:
  assumes "bufpool_inv s" and "pool_at s k = Some p"
  shows "\<exists>s'. posal_bufpool_pool_destroy s (handle_of k) = Some s' \<and> bufpool_inv s' \<and> pool_at s' k = None
    \<and> (\<forall>k'. k' \<noteq> k \<longrightarrow> pool_at s' k' = pool_at s k') \<and> live_nodes s' = other_nodes s k"
  by (rule pool_destroy_ok [OF assms])

theorem bufpool_destroy_ok_witness:
  "\<exists>s'. posal_bufpool_pool_destroy ex_state (handle_of 0) = Some s' \<and> bufpool_inv s' \<and> pool_at s' 0 = None
    \<and> (\<forall>k'. k' \<noteq> 0 \<longrightarrow> pool_at s' k' = pool_at ex_state k') \<and> live_nodes s' = other_nodes ex_state 0"
  using bufpool_destroy_ok [OF ex_state_inv, of 0 ex_pool] by (simp add: ex_pool_at)

text \<open>
  resetting a pool whose first array exists leaves that array, empty, and no other;
  the counters say so and the nodes of other pools stay in use.
\<close>

theorem bufpool_reset_ok:
  assumes "bufpool_inv s" and "pool_at s k = Some p" and "0 < unat (num_of_node_arrays p)"
    and "mem_start_addr (nodes_ptr p ! 0) \<noteq> None"
  shows "\<exists>s' q. posal_bufpool_pool_reset_to_base mal s (handle_of k) = Some s' \<and> bufpool_inv s'
    \<and> pool_at s' k = Some q \<and> base_pool q \<and> live_nodes s' = other_nodes s k"
  by (rule pool_reset_allocated [OF assms])

theorem bufpool_reset_ok_witness:
  "\<exists>s' q. posal_bufpool_pool_reset_to_base None ex_state (handle_of 0) = Some s' \<and> bufpool_inv s'
    \<and> pool_at s' 0 = Some q \<and> base_pool q \<and> live_nodes s' = other_nodes ex_state 0"
  by (rule bufpool_reset_ok [OF ex_state_inv]) (auto simp: ex_pool_at ex_pool_def new_pool_def)

text \<open>
  every byte of a node in use lies in memory that the query for addresses recognises as
  the pool's.
\<close>

theorem bufpool_address_query:
  assumes "bufpool_inv s" and "pool_at s k = Some p" and "a \<in> pool_nodes p" and "x < unat (node_size p)"
  shows "posal_bufpool_is_address_in_bufpool s (a + x) (handle_of k)"
  by (rule live_nodes_in_bufpool [OF assms])

theorem bufpool_address_query_witness: "posal_bufpool_is_address_in_bufpool ex_used (1008 + 15) (handle_of 0)"
proof -
  obtain k p where p: "pool_at ex_used k = Some p" "1008 \<in> pool_nodes p"
    using ex_used(3) unfolding live_nodes_def by blast
  have "list_all (\<lambda>x. x = None) (tl (all_pools ex_used))" by code_simp
  then have "all_pools ex_used ! Suc k' = None" if "Suc k' < length (all_pools ex_used)" for k'
    using that by (auto simp: list_all_length nth_tl)
  then have "k = 0" using p(1) by (cases k) (auto simp: pool_at_def split: if_splits)
  moreover have "map_option node_size (pool_at ex_used 0) = Some 16" by code_simp
  ultimately show ?thesis using bufpool_address_query [OF ex_used(2) p, of 15] p by auto
qed

text \<open>
  the usage profile counts exactly the nodes in use: with a consistent pool the bytes it
  reports are the number of nodes in use, recomputed from the masks, times the node size, and
  this agrees with the running 16-bit counter as long as the counter cannot have wrapped.
\<close>

theorem bufpool_profile_ok:
  assumes "bufpool_inv s" and "pool_at s k = Some p" and "num_live p < 2 ^ 16"
  shows "\<exists>alloc. posal_bufpool_profile_mem_usage s (handle_of k) (Some u) (Some a)
    = Some (AR_EOK, Some (ucast (used_nodes p) * ucast (node_size p), alloc))"
proof -
  note pool = inv_pool [OF assms(1,2)]
  have v: "validate_handle s (handle_of k) = (AR_EOK, k)"
    using assms(1,2) pool(3) by (simp add: bufpool_inv_def validate_handle_of)
  have used: "ucast (used_nodes p) = (of_nat (num_live p) :: u32)"
    using pool(1) assms(3) by (simp add: pool_wf_def ucast_eq uint_nat unat_of_nat)
  show ?thesis using v pool_at_nth [OF assms(2)] num_live_take [OF pool(1)]
    by (simp add: posal_bufpool_profile_mem_usage_def used)
qed

theorem bufpool_profile_ok_witness:
  "\<exists>alloc. posal_bufpool_profile_mem_usage ex_state (handle_of 0) (Some 1) (Some 2)
    = Some (AR_EOK, Some (ucast (used_nodes ex_pool) * ucast (node_size ex_pool), alloc))"
  by (rule bufpool_profile_ok [OF ex_state_inv])
    (simp_all add: ex_pool_at num_live_def ex_pool_def new_pool_def)

text \<open>
  freeing an unused array in \<open>posal_bufpool_pool_free_unused_lists\<close> subtracts the size of
  the array from the count of allocated nodes twice: \<open>posal_bufpool_free_nodes_arr\<close> has
  already done it.
\<close>

theorem free_unused_counts_twice:
  assumes "bufpool_inv s" and "pool_at s k = Some p" and "i < unat (num_of_node_arrays p)"
    and "mem_start_addr (nodes_ptr p ! i) \<noteq> None" and "list_bitmask (nodes_ptr p ! i) = 0"
  shows "\<exists>p' hs'. free_if_unused p (headers s) i = Some (p', hs') \<and> mem_start_addr (nodes_ptr p' ! i) = None
    \<and> allocated_nodes p' = allocated_nodes p - 2 * nodes_per_arr p"
  using free_if_unused_count [of p i "headers s"] inv_pool(1) [OF assms(1,2)] assms(3-5)
  by (auto simp: pool_wf_def)

theorem free_unused_counts_twice_witness:
  "\<exists>p' hs'. free_if_unused ex_pool (headers ex_state) 0 = Some (p', hs') \<and> mem_start_addr (nodes_ptr p' ! 0) = None
    \<and> allocated_nodes p' = allocated_nodes ex_pool - 2 * nodes_per_arr ex_pool"
  by (rule free_unused_counts_twice [OF ex_state_inv]) (auto simp: ex_pool_at ex_pool_def new_pool_def)

end
