(* ===== verification/Spf_List_Proofs.thy ===== *)
theory Spf_List_Proofs
  imports Spf_List Bufpool_Proofs
begin

text \<open>
  Correctness of the list utilities of theory \<open>Spf_List\<close>. \<open>slist h p ns os\<close> says that the store
  \<open>h\<close> holds, from the pointer \<open>p\<close>, a well-linked list of the nodes \<open>ns\<close> with the objects \<open>os\<close>.
  Each operation is shown to return and to have the effect on \<open>ns\<close> and \<open>os\<close> that its name says,
  to leave all other nodes alone (\<open>keeps\<close>) and to keep the ownership of nodes consistent with
  the allocator (\<open>owns\<close>), through the contract of theory \<open>Node_Allocator\<close>.
\<close>

subsection \<open>Lists of objects\<close>

definition obj_at :: "spf_list_node store \<Rightarrow> addr \<Rightarrow> ptr" where
  "obj_at h a = Option.bind (h a) obj_ptr"

lemma obj_at_set [simp]: "obj_at (set_nxt a v h) = obj_at h" "obj_at (set_prv a v h) = obj_at h"
  by (auto simp: obj_at_def set_nxt_def set_prv_def fun_eq_iff bind_map_option comp_def split: option.splits)

lemma obj_at_upd [simp]: "obj_at (upd_nxt p v h) = obj_at h" "obj_at (upd_prv p v h) = obj_at h"
  by (cases p; simp)+

lemma obj_at_new [simp]: "obj_at (h(a \<mapsto> n)) = (obj_at h)(a := obj_ptr n)"
  by (auto simp: obj_at_def)

lemma obj_at_del [simp]: "obj_at (h(a := None)) = (obj_at h)(a := None)"
  by (auto simp: obj_at_def)

lemma rd_obj_Some [mem_simps]: "a \<in> dom h \<Longrightarrow> rd_obj h (Some a) = Some (obj_at h a)"
  by (auto simp: rd_obj_def obj_at_def)

text \<open>\<open>slist h p ns os\<close>: from \<open>p\<close> there is a well-linked list with nodes \<open>ns\<close> and objects \<open>os\<close>.\<close>

definition slist :: "spf_list_node store \<Rightarrow> ptr \<Rightarrow> addr list \<Rightarrow> ptr list \<Rightarrow> bool" where
  "slist h p ns os \<longleftrightarrow> dll h p ns \<and> map (obj_at h) ns = os"

definition keeps :: "addr set \<Rightarrow> 'n store \<Rightarrow> 'n store \<Rightarrow> bool" where
  "keeps A h h' \<longleftrightarrow> (\<forall>a. a \<notin> A \<longrightarrow> h' a = h a)"

lemma keeps_set: "a \<in> A \<Longrightarrow> keeps A h (set_nxt a v h')  \<longleftrightarrow> keeps A h h'"
  "a \<in> A \<Longrightarrow> keeps A h (set_prv a v h') \<longleftrightarrow> keeps A h h'"
  "a \<in> A \<Longrightarrow> keeps A h (h'(a := x)) \<longleftrightarrow> keeps A h h'"
  by (auto simp: keeps_def set_nxt_def set_prv_def)

lemma keeps_upd: "set_option p \<subseteq> A \<Longrightarrow> keeps A h (upd_nxt p v h')  \<longleftrightarrow> keeps A h h'"
  "set_option p \<subseteq> A \<Longrightarrow> keeps A h (upd_prv p v h') \<longleftrightarrow> keeps A h h'"
  by (cases p; simp add: keeps_set)+

lemma keeps_refl [simp]: "keeps A h h"
  by (simp add: keeps_def)

text \<open>A list outside the changed part is still there: lists that share no node do not interfere.\<close>

lemma slist_keeps: "keeps A h h' \<Longrightarrow> A \<inter> set ns = {} \<Longrightarrow> slist h p ns os \<Longrightarrow> slist h' p ns os"
proof -
  assume k: "keeps A h h'" and d: "A \<inter> set ns = {}" and l: "slist h p ns os"
  have "h' x = h x" if "x \<in> set ns" for x using k d that by (auto simp: keeps_def)
  then show ?thesis using l dll_frame [of ns h' h p] by (auto simp: slist_def obj_at_def)
qed

lemma slist_len: "slist h p ns os \<Longrightarrow> length os = length ns"
  by (auto simp: slist_def)

lemma slist_None: "slist h None ns os \<longleftrightarrow> ns = [] \<and> os = []"
  by (cases ns) (auto simp: slist_def dll_def)

lemma slist_Some: "slist h (Some a) ns os \<Longrightarrow> \<exists>ns'. ns = a # ns'"
  by (cases ns) (auto simp: slist_def dll_def)

subsection \<open>Traversals\<close>

lemma tail_loop_dseg: "dseg h pr (x # xs) None \<Longrightarrow> tail_loop h (Some x) = Some (Some (last (x # xs)))"
proof (induction xs arbitrary: x pr)
  case Nil
  then show ?case by (subst tail_loop.simps) (simp add: mem_simps)
next
  case (Cons y ys)
  then show ?case by (subst tail_loop.simps) (simp add: mem_simps)
qed

lemma get_tail_slist:
  assumes "dll h p ns" "ns \<noteq> []"
  shows "spf_list_get_tail_node h p = Some (AR_EOK, Some (last ns))"
  using assms tail_loop_dseg [of h None "hd ns" "tl ns"]
  by (cases ns) (auto simp: dll_def spf_list_get_tail_node_def)

lemma find_loop_dseg: "dseg h pr ns None \<Longrightarrow> find_loop h (begp ns None) ob = Some (List.find (\<lambda>a. obj_at h a = ob) ns)"
proof (induction ns arbitrary: pr)
  case Nil
  then show ?case by (simp add: find_loop.simps)
next
  case (Cons x xs)
  then show ?case by (subst find_loop.simps) (auto simp: mem_simps)
qed

lemma search_tail_loop_dseg:
  "dseg h pr ns None \<Longrightarrow> ob \<notin> obj_at h ` set ns \<Longrightarrow> search_tail_loop h (begp ns None) t ob = Some (False, endp t ns)"
proof (induction ns arbitrary: pr t)
  case (Cons x xs)
  then show ?case by (subst search_tail_loop.simps) (auto simp: mem_simps)
qed (simp add: search_tail_loop.simps)

lemma search_tail_loop_found:
  "dseg h pr ns None \<Longrightarrow> ob \<in> obj_at h ` set ns \<Longrightarrow> \<exists>t'. search_tail_loop h (begp ns None) t ob = Some (True, t')"
proof (induction ns arbitrary: pr t)
  case (Cons x xs)
  then show ?case by (subst search_tail_loop.simps) (auto simp: mem_simps)
qed simp

lemma count_loop_dseg: "dseg h pr ns None \<Longrightarrow> count_loop h (begp ns None) c = Some (c + of_nat (length ns))"
proof (induction ns arbitrary: pr c)
  case Nil
  then show ?case by (simp add: count_loop.simps)
next
  case (Cons x xs)
  then show ?case by (subst count_loop.simps) (auto simp: mem_simps algebra_simps)
qed

subsection \<open>Pointer surgery\<close>

lemma dll_join:
  assumes "dll h p xs" "dll h q ys" "xs \<noteq> []" "ys \<noteq> []" "set xs \<inter> set ys = {}"
  shows "dll (set_prv (hd ys) (Some (last xs)) (set_nxt (last xs) (Some (hd ys)) h)) p (xs @ ys)"
proof -
  obtain xs' x where xs: "xs = xs' @ [x]" using assms(3) by (cases xs rule: rev_cases) auto
  obtain y ys' where ys: "ys = y # ys'" using assms(4) by (cases ys) auto
  show ?thesis using assms unfolding xs ys dll_def by (auto simp: dseg_append)
qed

lemma endp_in: "set_option (endp None xs) \<subseteq> set xs"
  by (cases xs rule: rev_cases) auto

lemma begp_in: "set_option (begp xs None) \<subseteq> set xs"
  by (cases xs) auto

lemma endp_disj: "set xs \<inter> A = {} \<Longrightarrow> set_option (endp None xs) \<inter> A = {}"
  by (cases xs rule: rev_cases) auto

lemma begp_disj: "set xs \<inter> A = {} \<Longrightarrow> set_option (begp xs None) \<inter> A = {}"
  by (cases xs) auto

lemma dll_unlink:
  assumes "dll h p (xs @ a # ys)"
  shows "dll (upd_prv (begp ys None) (endp None xs) (upd_nxt (endp None xs) (begp ys None) h)) (begp (xs @ ys) None) (xs @ ys)"
proof -
  have d: "distinct (xs @ a # ys)" and l: "dseg h None xs (Some a)" and r: "dseg h (Some a) ys None"
    using assms by (auto simp: dll_def dseg_append)
  let ?h = "upd_nxt (endp None xs) (begp ys None) h"
  have "dseg ?h None xs (begp ys None)" using dseg_upd_nxt_endp [OF l] d by simp
  moreover have "dseg ?h (Some a) ys None" using r d by (simp add: endp_disj)
  moreover have "set_option (begp ys None) \<inter> set xs = {}" using d by (intro begp_disj) auto
  ultimately show ?thesis using d dseg_upd_prv_begp [of ?h "Some a" ys None]
    by (simp add: dll_def dseg_append)
qed

lemma dll_insert_before:
  assumes "dll h p (xs @ b # ys)" "a \<in> dom h" "a \<notin> set (xs @ b # ys)"
  shows "dll (set_prv b (Some a) (upd_nxt (endp None xs) (Some a) (set_prv a (endp None xs) (set_nxt a (Some b) h))))
           (begp (xs @ a # b # ys) None) (xs @ a # b # ys)"
proof -
  have d: "distinct (xs @ b # ys)" and l: "dseg h None xs (Some b)" and r: "dseg h (endp None xs) (b # ys) None"
    using assms by (auto simp: dll_def dseg_append)
  let ?h = "set_prv a (endp None xs) (set_nxt a (Some b) h)"
  have "dseg ?h None xs (Some b)" "dseg ?h (endp None xs) (b # ys) None" using l r assms(3) by auto
  then have "dseg (upd_nxt (endp None xs) (Some a) ?h) None xs (Some a)"
    using d dseg_upd_nxt_endp by fastforce
  moreover have "endp None xs \<noteq> Some a" "endp None xs \<noteq> Some b" using assms(3) d by (auto simp: endp_def split: if_splits)
  moreover have "dseg (upd_nxt (endp None xs) (Some a) ?h) (endp None xs) (b # ys) None"
    using \<open>dseg ?h (endp None xs) (b # ys) None\<close> d endp_disj [of xs "set (b # ys)"]
    by (subst dseg_upd_nxt) auto
  ultimately show ?thesis using d assms(2,3) by (auto simp: dll_def dseg_append)
qed

lemma dll_push:
  assumes "dll h p xs" "a \<in> dom h" "a \<notin> set xs"
  shows "dll (upd_prv p (Some a) (set_prv a None (set_nxt a p h))) (Some a) (a # xs)"
  using assms by (cases xs) (auto simp: dll_def)

lemma dll_del: "a \<notin> set xs \<Longrightarrow> dll (h(a := None)) p xs = dll h p xs"
  by (simp add: dll_def)

subsection \<open>Ownership\<close>

text \<open>
  With \<open>pool_used\<close> all nodes come from the buffer pools and the allocator contract applies;
  nodes from the heap are owned by being in the store.
\<close>

definition owns :: "spf_list_state \<Rightarrow> bool \<Rightarrow> bool" where
  "owns st pool_used \<longleftrightarrow> (pool_used \<longrightarrow> bufpool_inv (pool st) \<and> dom (nodes st) \<subseteq> live_nodes (pool st))"

definition env_ok :: "alloc_env \<Rightarrow> spf_list_state \<Rightarrow> bool \<Rightarrow> bool" where
  "env_ok env st use_pool \<longleftrightarrow>
    (if use_pool then \<forall>k. mal_ok (pool_mal env) (pool st) k
     else set_option (heap_mal env) \<inter> dom (nodes st) = {})"

lemma owns_nodes [simp]: "dom h = dom (nodes st) \<Longrightarrow> owns (st\<lparr>nodes := h\<rparr>) pu = owns st pu"
  by (simp add: owns_def)

lemma owns_objs [simp]: "owns (st\<lparr>objs := X\<rparr>) pu = owns st pu"
  by (simp add: owns_def)

lemma create_new_node_ok:
  assumes "owns st up" "env_ok env st up"
  shows "\<exists>r st'. spf_list_create_new_node env st ob hid up = Some (r, st') \<and> owns st' up \<and> objs st' = objs st \<and>
    (case r of None \<Rightarrow> nodes st' = nodes st
     | Some a \<Rightarrow> a \<notin> dom (nodes st) \<and> nodes st' = (nodes st)(a \<mapsto> \<lparr>next_ptr = None, prev_ptr = None, obj_ptr = ob\<rparr>))"
proof (cases up)
  case True
  let ?hdl = "get_handle_from_heap_id st hid"
  have g: "bufpool_inv (pool st)" "\<forall>k. mal_ok (pool_mal env) (pool st) k" "dom (nodes st) \<subseteq> live_nodes (pool st)"
    using assms True by (auto simp: owns_def env_ok_def)
  from bufpool.get_law [of "pool st" "(pool_mal env, ?hdl)"] g
  obtain r pl where get: "posal_bufpool_get_node (pool_mal env) (pool st) ?hdl = Some (r, pl)" by auto
  have 1: "bufpool_inv pl \<and> dom (nodes st) \<subseteq> live_nodes pl" if "r = None"
    using bufpool.owned_get_none [of "pool st" "(pool_mal env, ?hdl)" "nodes st" pl] g get that by simp
  have 2: "bufpool_inv pl \<and> a \<notin> dom (nodes st) \<and> insert a (dom (nodes st)) \<subseteq> live_nodes pl" if "r = Some a" for a
    using bufpool.owned_get [of "pool st" "(pool_mal env, ?hdl)" "nodes st" a pl] g get that by simp
  show ?thesis
    using True get 1 2 by (cases r) (auto simp: spf_list_create_new_node_def spf_list_get_node_def owns_def)
next
  case False
  then show ?thesis using assms
    by (auto simp: spf_list_create_new_node_def env_ok_def owns_def split: option.splits)
qed

lemma node_free_ok:
  assumes "owns st pu" "a \<in> dom (nodes st)"
  shows "\<exists>st'. spf_list_node_free st (Some a) pu = Some st' \<and> owns st' pu \<and> objs st' = objs st \<and> nodes st' = (nodes st)(a := None)"
proof (cases pu)
  case True
  then obtain pl where "posal_bufpool_return_node (pool st) a = Some pl" "bufpool_inv pl" "dom ((nodes st)(a := None)) \<subseteq> live_nodes pl"
    using bufpool.owned_put [of "pool st" "nodes st" a] assms by (auto simp: owns_def)
  then show ?thesis using True by (auto simp: spf_list_node_free_def spf_list_node_return_def owns_def)
next
  case False
  then show ?thesis using assms by (auto simp: spf_list_node_free_def owns_def)
qed

lemma node_free_None: "spf_list_node_free st None pu = Some st"
  by (simp add: spf_list_node_free_def spf_list_node_return_def)

subsection \<open>Adding nodes\<close>

text \<open>The outcome of adding an object: either there was no memory and nothing changed, or the list is \<open>ns'\<close>.\<close>

definition added ::
    "spf_list_state \<Rightarrow> ptr \<Rightarrow> (addr \<Rightarrow> addr list) \<Rightarrow> addr list \<Rightarrow> ptr list \<Rightarrow> bool \<Rightarrow> (u32 \<times> ptr option \<times> spf_list_state) option \<Rightarrow> bool" where
  "added st hp place ns os' up res \<longleftrightarrow> (\<exists>rc hp' st'. res = Some (rc, Some hp', st') \<and> owns st' up \<and> objs st' = objs st \<and>
     (rc = AR_ENOMEMORY \<and> hp' = hp \<and> nodes st' = nodes st
      \<or> rc = AR_EOK \<and> (\<exists>a. a \<notin> dom (nodes st) \<and> slist (nodes st') hp' (place a) os'
                          \<and> keeps (insert a (set ns)) (nodes st) (nodes st'))))"

lemma slist_dom: "slist h p ns os \<Longrightarrow> set ns \<subseteq> dom h"
  unfolding slist_def using dll_dom by blast

lemma slist_new: "slist h p ns os \<Longrightarrow> a \<notin> dom h \<Longrightarrow> slist (h(a \<mapsto> n)) p ns os"
  by (rule slist_keeps [of "{a}"]) (auto simp: keeps_def dest: slist_dom)

lemma slist_head_in: "slist h p ns os \<Longrightarrow> set_option p \<subseteq> set ns"
  by (cases ns) (auto simp: slist_def dll_def)

abbreviation (input) "fresh_node ob \<equiv> \<lparr>next_ptr = None, prev_ptr = None, obj_ptr = ob\<rparr>"

lemma added_via_create:
  assumes o: "owns st up" "env_ok env st up" and l: "slist (nodes st) hp ns os"
    and step: "\<And>a (st1 :: spf_list_state). nodes st1 = (nodes st)(a \<mapsto> fresh_node ob) \<Longrightarrow> a \<notin> dom (nodes st) \<Longrightarrow> a \<notin> set ns \<Longrightarrow>
        slist (nodes st1) hp ns os \<Longrightarrow>
        \<exists>hp' h'. k (Some a) st1 = Some (AR_EOK, Some hp', st1\<lparr>nodes := h'\<rparr>) \<and> dom h' = dom (nodes st1)
          \<and> slist h' hp' (place a) os' \<and> keeps (insert a (set ns)) (nodes st1) h'"
  shows "added st hp place ns os' up (spf_list_create_new_node env st ob hid up \<bind>
     (\<lambda>(n, st1). if n = None then Some (AR_ENOMEMORY, Some hp, st1) else k n st1))"
proof -
  obtain r st1 where c: "spf_list_create_new_node env st ob hid up = Some (r, st1)" and o': "owns st1 up" "objs st1 = objs st"
    and n: "case r of None \<Rightarrow> nodes st1 = nodes st
     | Some a \<Rightarrow> a \<notin> dom (nodes st) \<and> nodes st1 = (nodes st)(a \<mapsto> fresh_node ob)"
    using create_new_node_ok [OF o] by blast
  show ?thesis
  proof (cases r)
    case None
    then show ?thesis using c n o' by (simp add: added_def)
  next
    case (Some a)
    then have a: "a \<notin> dom (nodes st)" "nodes st1 = (nodes st)(a \<mapsto> fresh_node ob)" using n by auto
    obtain hp' h' where k: "k (Some a) st1 = Some (AR_EOK, Some hp', st1\<lparr>nodes := h'\<rparr>)" "dom h' = dom (nodes st1)"
      "slist h' hp' (place a) os'" "keeps (insert a (set ns)) (nodes st1) h'"
      using step [OF a(2,1)] slist_new [OF l a(1)] slist_dom [OF l] a by (metis subsetD)
    have "keeps (insert a (set ns)) (nodes st) h'" using k(4) a(2) by (auto simp: keeps_def)
    then show ?thesis using c Some k o' a(1) by (auto simp: added_def)
  qed
qed

lemma insert_head_added:
  assumes l: "slist (nodes st) hp ns os" and o: "owns st up" "env_ok env st up" and ob: "ob \<noteq> None"
  shows "added st hp (\<lambda>a. a # ns) ns (ob # os) up (spf_list_insert_head env st (Some hp) ob hid up)"
proof -
  have eq: "spf_list_insert_head env st (Some hp) ob hid up = spf_list_create_new_node env st ob hid up \<bind>
     (\<lambda>(n, st1). if n = None then Some (AR_ENOMEMORY, Some hp, st1) else do { h \<leftarrow> wr_next (nodes st1) n hp; h \<leftarrow> wr_prev_if h hp n; Some (AR_EOK, Some n, st1\<lparr>nodes := h\<rparr>) })"
    using ob by (auto simp: spf_list_insert_head_def)
  show ?thesis unfolding eq
  proof (rule added_via_create [OF o l])
  fix a and st1 :: spf_list_state
  assume n: "nodes st1 = (nodes st)(a \<mapsto> fresh_node ob)" and a: "a \<notin> dom (nodes st)" "a \<notin> set ns"
    and l1: "slist (nodes st1) hp ns os"
  let ?h = "upd_prv hp (Some a) (set_nxt a hp (nodes st1))"
  have hp: "set_option hp \<subseteq> set ns" "set_option hp \<subseteq> dom (nodes st1)"
    using slist_head_in [OF l1] slist_dom [OF l1] by auto
  have "set_prv a None (set_nxt a hp (nodes st1)) = set_nxt a hp (nodes st1)"
    by (auto simp: set_prv_def set_nxt_def n)
  then have "slist ?h (Some a) (a # ns) (ob # os)"
    using dll_push [of "nodes st1" hp ns a] l1 a n by (auto simp: slist_def)
  moreover have "keeps (insert a (set ns)) (nodes st1) ?h" using hp by (simp add: keeps_upd keeps_set subset_insertI2)
  ultimately show "\<exists>hp' h'. (do { h \<leftarrow> wr_next (nodes st1) (Some a) hp; h \<leftarrow> wr_prev_if h hp (Some a);
        Some (AR_EOK, Some (Some a), st1\<lparr>nodes := h\<rparr>) }) = Some (AR_EOK, Some hp', st1\<lparr>nodes := h'\<rparr>)
      \<and> dom h' = dom (nodes st1) \<and> slist h' hp' (a # ns) (ob # os) \<and> keeps (insert a (set ns)) (nodes st1) h'"
    using hp n by (intro exI [of _ "Some a"] exI [of _ ?h]) (simp add: mem_simps)
  qed
qed

text \<open>Linking a fresh node behind the last one.\<close>

lemma link_at_tail_ok:
  assumes l: "slist h hp ns os" and ne: "ns \<noteq> []" and a: "a \<notin> set ns" "h a = Some (fresh_node ob)"
  shows "\<exists>h'. link_at_tail h (Some (last ns)) (Some a) = Some h' \<and> dom h' = dom h \<and> slist h' hp (ns @ [a]) (os @ [ob])
    \<and> keeps (insert a (set ns)) h h'"
proof -
  let ?h = "set_prv a (Some (last ns)) (set_nxt (last ns) (Some a) h)"
  have one: "dll h (Some a) [a]" using a(2) by (auto simp: dll_def nxt_def prv_def)
  have "dll ?h hp (ns @ [a])" using dll_join [OF _ one ne] l a(1) by (simp add: slist_def)
  moreover have "last ns \<in> set ns" using ne by simp
  moreover from this have "last ns \<in> dom h" using slist_dom [OF l] by blast
  moreover have "a \<in> dom h" using a(2) by blast
  ultimately show ?thesis using l a
    by (intro exI [of _ ?h]) (simp add: link_at_tail_def mem_simps slist_def keeps_set, simp add: obj_at_def)
qed

lemma insert_tail_added:
  assumes l: "slist (nodes st) hp ns os" and o: "owns st up" "env_ok env st up" and ob: "ob \<noteq> None"
  shows "added st hp (\<lambda>a. ns @ [a]) ns (os @ [ob]) up (spf_list_insert_tail env st (Some hp) ob hid up)"
proof -
  have eq: "spf_list_insert_tail env st (Some hp) ob hid up = spf_list_create_new_node env st ob hid up \<bind>
     (\<lambda>(n, st1). if n = None then Some (AR_ENOMEMORY, Some hp, st1) else (if hp = None then Some (AR_EOK, Some n, st1)
      else do { (_, tail_ptr) \<leftarrow> spf_list_get_tail_node (nodes st1) hp;
                h \<leftarrow> link_at_tail (nodes st1) tail_ptr n; Some (AR_EOK, Some hp, st1\<lparr>nodes := h\<rparr>) }))"
    using ob by (auto simp: spf_list_insert_tail_def)
  show ?thesis unfolding eq
  proof (rule added_via_create [OF o l])
  fix a and st1 :: spf_list_state
  assume n: "nodes st1 = (nodes st)(a \<mapsto> fresh_node ob)" and a: "a \<notin> dom (nodes st)" "a \<notin> set ns"
    and l1: "slist (nodes st1) hp ns os"
  show "\<exists>hp' h'. (if hp = None then Some (AR_EOK, Some (Some a), st1)
      else do { (_, tail_ptr) \<leftarrow> spf_list_get_tail_node (nodes st1) hp;
                h \<leftarrow> link_at_tail (nodes st1) tail_ptr (Some a); Some (AR_EOK, Some hp, st1\<lparr>nodes := h\<rparr>) })
      = Some (AR_EOK, Some hp', st1\<lparr>nodes := h'\<rparr>)
      \<and> dom h' = dom (nodes st1) \<and> slist h' hp' (ns @ [a]) (os @ [ob]) \<and> keeps (insert a (set ns)) (nodes st1) h'"
  proof (cases hp)
    case None
    then have "ns = []" "os = []" using l1 by (simp_all add: slist_None)
    then show ?thesis using None n
      by (intro exI [of _ "Some a"] exI [of _ "nodes st1"]) (auto simp: slist_def dll_def nxt_def prv_def)
  next
    case (Some b)
    then have ne: "ns \<noteq> []" using l1 slist_Some by fastforce
    have "spf_list_get_tail_node (nodes st1) hp = Some (AR_EOK, Some (last ns))"
      using get_tail_slist [OF _ ne] l1 by (simp add: slist_def)
    then show ?thesis using link_at_tail_ok [OF l1 ne a(2), of ob] n Some by auto
  qed
  qed
qed

text \<open>Inserting in front of a node of the list.\<close>

lemma insert_before_ok:
  assumes l: "slist (nodes st) hp (xs @ b # ys) (os1 @ os2)" "length os1 = length xs"
    and a: "a \<notin> set (xs @ b # ys)" "a \<in> dom (nodes st)" "obj_at (nodes st) a = ob"
  shows "\<exists>hp' h'. spf_list_insert_before_node st (Some hp) (Some a) (Some b) = Some (AR_EOK, Some hp', st\<lparr>nodes := h'\<rparr>)
    \<and> dom h' = dom (nodes st) \<and> slist h' hp' (xs @ a # b # ys) (os1 @ ob # os2) \<and> keeps (insert a (set (xs @ b # ys))) (nodes st) h'"
proof -
  let ?h = "set_prv b (Some a) (upd_nxt (endp None xs) (Some a) (set_prv a (endp None xs) (set_nxt a (Some b) (nodes st))))"
  let ?hp = "begp (xs @ a # b # ys) None"
  have d: "dll (nodes st) hp (xs @ b # ys)" using l by (simp add: slist_def)
  note ex = endp_in [of xs]
  then have dom: "b \<in> dom (nodes st)" "set_option (endp None xs) \<subseteq> dom (nodes st)" using dll_dom [OF d] by auto
  have pv: "prv (nodes st) b = endp None xs" "b \<noteq> a" using d a(1) by (auto simp: dll_def dseg_append)
  have objs: "map (obj_at (nodes st)) xs = os1" "map (obj_at (nodes st)) (b # ys) = os2"
    using l by (auto simp: slist_def append_eq_append_conv)
  have hp: "(if hp = Some b then Some a else hp) = ?hp" using d by (cases xs) (auto simp: dll_def)
  have "spf_list_insert_before_node st (Some hp) (Some a) (Some b) = Some (AR_EOK, Some ?hp, st\<lparr>nodes := ?h\<rparr>)"
    using a dom pv by (simp add: spf_list_insert_before_node_def mem_simps hp)
  moreover have "slist ?h ?hp (xs @ a # b # ys) (os1 @ ob # os2)"
    using dll_insert_before [OF d a(2,1)] objs a(3) by (simp add: slist_def)
  moreover have "keeps (insert a (set (xs @ b # ys))) (nodes st) ?h"
    using ex by (simp add: keeps_set keeps_upd subset_insertI2 le_supI1)
  ultimately show ?thesis by (intro exI [of _ ?hp] exI [of _ ?h]) simp
qed

lemma create_and_insert_before_added:
  assumes l: "slist (nodes st) hp (xs @ b # ys) (os1 @ os2)" "length os1 = length xs"
    and o: "owns st up" "env_ok env st up" and ob: "ob \<noteq> None"
  shows "added st hp (\<lambda>a. xs @ a # b # ys) (xs @ b # ys) (os1 @ ob # os2) up
    (spf_list_create_and_insert_before_node env st (Some hp) ob (Some b) hid up)"
proof -
  have eq: "spf_list_create_and_insert_before_node env st (Some hp) ob (Some b) hid up = spf_list_create_new_node env st ob hid up \<bind>
     (\<lambda>(n, st1). if n = None then Some (AR_ENOMEMORY, Some hp, st1) else spf_list_insert_before_node st1 (Some hp) n (Some b))"
    using ob by (auto simp: spf_list_create_and_insert_before_node_def)
  show ?thesis unfolding eq
  proof (rule added_via_create [OF o l(1)])
  fix a and st1 :: spf_list_state
  assume n: "nodes st1 = (nodes st)(a \<mapsto> fresh_node ob)" and a: "a \<notin> dom (nodes st)" "a \<notin> set (xs @ b # ys)"
    and l1: "slist (nodes st1) hp (xs @ b # ys) (os1 @ os2)"
  show "\<exists>hp' h'. spf_list_insert_before_node st1 (Some hp) (Some a) (Some b) = Some (AR_EOK, Some hp', st1\<lparr>nodes := h'\<rparr>)
    \<and> dom h' = dom (nodes st1) \<and> slist h' hp' (xs @ a # b # ys) (os1 @ ob # os2) \<and> keeps (insert a (set (xs @ b # ys))) (nodes st1) h'"
    by (rule insert_before_ok [OF l1 l(2) a(2)]) (simp_all add: n)
  qed
qed

text \<open>Nodes that are already there: pushing one in front, attaching one behind.\<close>

lemma push_node_ok:
  assumes l: "slist (nodes st) hp ns os" and a: "a \<in> dom (nodes st)" "a \<notin> set ns"
  shows "\<exists>h'. spf_list_push_node st (Some hp) (Some a) = Some (AR_EOK, Some (Some a), st\<lparr>nodes := h'\<rparr>)
    \<and> dom h' = dom (nodes st) \<and> slist h' (Some a) (a # ns) (obj_at (nodes st) a # os) \<and> keeps (insert a (set ns)) (nodes st) h'"
proof -
  let ?h = "upd_prv hp (Some a) (set_prv a None (set_nxt a hp (nodes st)))"
  have hp: "set_option hp \<subseteq> set ns" "set_option hp \<subseteq> dom (nodes st)"
    using slist_head_in [OF l] slist_dom [OF l] by auto
  have "slist ?h (Some a) (a # ns) (obj_at (nodes st) a # os)"
    using dll_push [OF _ a] l by (auto simp: slist_def)
  moreover have "keeps (insert a (set ns)) (nodes st) ?h" using hp by (simp add: keeps_upd keeps_set subset_insertI2)
  ultimately show ?thesis using a hp by (intro exI [of _ ?h]) (simp add: spf_list_push_node_def mem_simps)
qed

subsection \<open>Removing nodes\<close>

lemma slist_split:
  assumes "slist h p (xs @ a # ys) os"
  shows "\<exists>os1 os2. os = os1 @ obj_at h a # os2 \<and> map (obj_at h) xs = os1 \<and> map (obj_at h) ys = os2"
  using assms by (auto simp: slist_def)

text \<open>A node of a list, with its neighbours.\<close>

lemma slist_neighbours:
  assumes l: "slist h p (xs @ a # ys) (os1 @ ob # os2)" "length os1 = length xs"
  shows "a \<in> dom h" "prv h a = endp None xs" "nxt h a = begp ys None" "obj_at h a = ob"
    "set_option (endp None xs) \<subseteq> dom h" "set_option (begp ys None) \<subseteq> dom h" "p = begp xs (Some a)"
proof -
  have d: "dll h p (xs @ a # ys)" and m: "map (obj_at h) (xs @ a # ys) = os1 @ ob # os2" using l by (auto simp: slist_def)
  show "a \<in> dom h" "prv h a = endp None xs" "nxt h a = begp ys None" "p = begp xs (Some a)"
    using d by (auto simp: dll_def dseg_append)
  show "obj_at h a = ob" using m l(2) by (auto simp: append_eq_append_conv)
  have "set xs \<subseteq> dom h" "set ys \<subseteq> dom h" using dll_dom [OF d] by auto
  then show "set_option (endp None xs) \<subseteq> dom h" "set_option (begp ys None) \<subseteq> dom h"
    using endp_in [of xs] begp_in [of ys] by auto
qed

lemma unlink_ok:
  assumes l: "slist h p (xs @ a # ys) (os1 @ ob # os2)" "length os1 = length xs"
  shows "\<exists>h'. unlink h (prv h a) (nxt h a) = Some h' \<and> dom h' = dom h \<and> slist h' (begp (xs @ ys) None) (xs @ ys) (os1 @ os2)
    \<and> h' a = h a \<and> keeps (set (xs @ a # ys)) h h'"
proof -
  note nb = slist_neighbours [OF l]
  have d: "dll h p (xs @ a # ys)" and m: "map (obj_at h) xs = os1" "map (obj_at h) ys = os2"
    using l by (auto simp: slist_def append_eq_append_conv)
  have a: "a \<notin> set xs" "a \<notin> set ys" using d by (auto simp: dll_def)
  let ?h = "upd_prv (begp ys None) (endp None xs) (upd_nxt (endp None xs) (begp ys None) h)"
  note ex = endp_in [of xs] begp_in [of ys]
  have "keeps (set xs \<union> set ys) h ?h" using ex by (simp add: keeps_upd le_supI1 le_supI2)
  then have "?h a = h a" "keeps (set (xs @ a # ys)) h ?h" using a by (auto simp: keeps_def)
  moreover have "unlink h (prv h a) (nxt h a) = Some ?h" using nb by (simp add: unlink_def mem_simps)
  moreover have "slist ?h (begp (xs @ ys) None) (xs @ ys) (os1 @ os2)" using dll_unlink [OF d] m by (simp add: slist_def)
  ultimately show ?thesis by (intro exI [of _ ?h]) simp
qed

text \<open>What is left after a node was taken out and freed.\<close>

definition removed ::
    "spf_list_state \<Rightarrow> addr list \<Rightarrow> addr \<Rightarrow> addr list \<Rightarrow> ptr list \<Rightarrow> bool \<Rightarrow> spf_list_state \<Rightarrow> bool" where
  "removed st xs a ys os' pu st' \<longleftrightarrow> owns st' pu \<and> slist (nodes st') (begp (xs @ ys) None) (xs @ ys) os'
     \<and> dom (nodes st') = dom (nodes st) - {a} \<and> keeps (set (xs @ a # ys)) (nodes st) (nodes st')"

lemma unlink_free_removed:
  assumes l: "slist (nodes st) p (xs @ a # ys) (os1 @ ob # os2)" "length os1 = length xs" and o: "owns st pu"
    and u: "unlink (nodes st) (prv (nodes st) a) (nxt (nodes st) a) = Some h'"
  shows "\<exists>st'. spf_list_node_free (st\<lparr>nodes := h'\<rparr>) (Some a) pu = Some st' \<and> removed st xs a ys (os1 @ os2) pu st'
    \<and> objs st' = objs st"
proof -
  have h: "dom h' = dom (nodes st)" "slist h' (begp (xs @ ys) None) (xs @ ys) (os1 @ os2)" "keeps (set (xs @ a # ys)) (nodes st) h'"
    using unlink_ok [OF l] u by auto
  have a: "a \<in> dom (nodes st)" using slist_neighbours [OF l] by simp
  obtain st' where f: "spf_list_node_free (st\<lparr>nodes := h'\<rparr>) (Some a) pu = Some st'" "owns st' pu" "objs st' = objs st"
    "nodes st' = h'(a := None)"
    using node_free_ok [of "st\<lparr>nodes := h'\<rparr>" pu a] o a h(1) by auto
  have an: "a \<notin> set (xs @ ys)" using l by (auto simp: slist_def dll_def)
  have "slist (nodes st') (begp (xs @ ys) None) (xs @ ys) (os1 @ os2)"
    by (rule slist_keeps [of "{a}", OF _ _ h(2)]) (use an in \<open>auto simp: f keeps_def\<close>)
  moreover have "keeps (set (xs @ a # ys)) (nodes st) (nodes st')" using h(3) by (auto simp: keeps_def f)
  ultimately show ?thesis using f h(1) by (auto simp: removed_def)
qed

lemma unlink_free_ok:
  assumes l: "slist (nodes st) p (xs @ a # ys) (os1 @ ob # os2)" "length os1 = length xs" and o: "owns st pu"
  shows "\<exists>h' st'. unlink (nodes st) (prv (nodes st) a) (nxt (nodes st) a) = Some h'
    \<and> spf_list_node_free (st\<lparr>nodes := h'\<rparr>) (Some a) pu = Some st' \<and> removed st xs a ys (os1 @ os2) pu st' \<and> objs st' = objs st"
  using unlink_ok [OF l] unlink_free_removed [OF l o] by blast

lemma remove_node_from_list_ok:
  assumes l: "slist (nodes st) p (xs @ a # ys) (os1 @ ob # os2)" "length os1 = length xs" and o: "owns st pu"
  shows "\<exists>st'. spf_list_remove_node_from_list st (Some a) pu = Some (AR_EOK, st') \<and> removed st xs a ys (os1 @ os2) pu st'"
  using unlink_free_ok [OF l o] slist_neighbours [OF l]
  by (auto simp: spf_list_remove_node_from_list_def spf_list_remove_node_from_list_only_def mem_simps)

lemma delete_node_ok:
  assumes l: "slist (nodes st) p (xs @ a # ys) (os1 @ ob # os2)" "length os1 = length xs" and o: "owns st pu"
  shows "\<exists>st'. spf_list_delete_node st (Some (Some a)) pu = Some (AR_EOK, Some (begp ys None), st')
    \<and> removed st xs a ys (os1 @ os2) pu st'"
  using unlink_free_ok [OF l o] slist_neighbours [OF l]
  by (auto simp: spf_list_delete_node_def mem_simps)

lemma delete_node_update_head_ok:
  assumes l: "slist (nodes st) p (xs @ a # ys) (os1 @ ob # os2)" "length os1 = length xs" and o: "owns st pu"
  shows "\<exists>st'. spf_list_delete_node_update_head st (Some (Some a)) (OtherVar p) pu
      = Some (AR_EOK, Some (begp ys None), OtherVar (begp (xs @ ys) None), st') \<and> removed st xs a ys (os1 @ os2) pu st'"
proof -
  note nb = slist_neighbours [OF l]
  have "(if p = Some a then begp ys None else p) = begp (xs @ ys) None"
    using l nb(7) by (cases xs) (auto simp: slist_def dll_def)
  then show ?thesis using unlink_free_ok [OF l o] nb(1-3)
    by (auto simp: spf_list_delete_node_update_head_def mem_simps is_head_def set_head_def)
qed

text \<open>With the same variable for the node and the head, the node stays and its successor is freed.\<close>

lemma delete_node_same_var_next:
  assumes l: "slist (nodes st) (Some a) (a # b # ys) (ob # os)" and o: "owns st pu"
  shows "\<exists>st'. spf_list_delete_node_update_head st (Some (Some a)) SameVar pu = Some (AR_EOK, Some (Some b), SameVar, st')
    \<and> nodes st' b = None \<and> nodes st' a \<noteq> None"
proof -
  have l': "slist (nodes st) (Some a) ([] @ a # b # ys) ([] @ ob # os)" using l by simp
  obtain h' where u: "unlink (nodes st) (prv (nodes st) a) (nxt (nodes st) a) = Some h'" and h: "dom h' = dom (nodes st)"
    using unlink_ok [OF l'] by auto
  have ab: "b \<in> dom (nodes st)" "a \<in> dom (nodes st)" "a \<noteq> b" "nxt (nodes st) a = Some b"
    using l by (auto simp: slist_def dll_def)
  obtain st' where "spf_list_node_free (st\<lparr>nodes := h'\<rparr>) (Some b) pu = Some st'" "nodes st' = h'(b := None)"
    using node_free_ok [of "st\<lparr>nodes := h'\<rparr>" pu b] o h ab by auto
  moreover have "h' a \<noteq> None" using h ab(2) by blast
  ultimately show ?thesis using u ab
    by (auto simp: spf_list_delete_node_update_head_def mem_simps is_head_def set_head_def)
qed

lemma delete_node_and_free_obj_ok:
  assumes l: "slist (nodes st) p (xs @ a # ys) (os1 @ ob # os2)" "length os1 = length xs" and o: "owns st pu"
    and ob: "set_option ob \<subseteq> objs st"
  shows "\<exists>st'. spf_list_delete_node_and_free_obj st (Some (Some a)) (OtherVar p) pu
      = Some (AR_EOK, Some (begp ys None), OtherVar (begp (xs @ ys) None), st') \<and> removed st xs a ys (os1 @ os2) pu st'
      \<and> objs st' = objs st - set_option ob"
proof -
  note nb = slist_neighbours [OF l]
  let ?st = "st\<lparr>objs := objs st - set_option ob\<rparr>"
  have f: "free_obj st ob = Some ?st" using ob by (cases ob) (auto simp: free_obj_def)
  have l': "slist (nodes ?st) p (xs @ a # ys) (os1 @ ob # os2)" and o': "owns ?st pu" using l o by simp_all
  have "(if p = Some a then begp ys None else p) = begp (xs @ ys) None"
    using l nb(7) by (cases xs) (auto simp: slist_def dll_def)
  then show ?thesis using unlink_free_ok [OF l' l(2) o'] nb(1-4) f
    by (auto simp: spf_list_delete_node_and_free_obj_def mem_simps is_head_def set_head_def removed_def)
qed

lemma pop_head_ok:
  assumes l: "slist (nodes st) p (a # ys) (ob # os)" and o: "owns st pu"
  shows "\<exists>st'. spf_list_pop_head st (Some p) pu = Some (ob, Some (begp ys None), st') \<and> removed st [] a ys os pu st'"
proof -
  have l': "slist (nodes st) p ([] @ a # ys) ([] @ ob # os)" using l by simp
  note nb = slist_neighbours [OF l'] and u = unlink_free_ok [OF l' _ o]
  have "unlink (nodes st) (prv (nodes st) a) (nxt (nodes st) a) = wr_prev_if (nodes st) (begp ys None) None"
    using nb by (simp add: unlink_def mem_simps)
  then show ?thesis using u nb by (auto simp: spf_list_pop_head_def mem_simps)
qed

text \<open>The first node with the searched object.\<close>

lemma find_first: "\<forall>x\<in>set xs. \<not> P x \<Longrightarrow> P a \<Longrightarrow> List.find P (xs @ a # ys) = Some a"
  by (induction xs) auto

lemma slist_first:
  assumes "slist h p ns os" "ob \<in> set os"
  shows "\<exists>xs a ys os1 os2. ns = xs @ a # ys \<and> os = os1 @ ob # os2 \<and> length os1 = length xs \<and> ob \<notin> set os1"
proof -
  obtain os1 os2 where os: "os = os1 @ ob # os2" "ob \<notin> set os1" using split_list_first [OF assms(2)] by blast
  have len: "length os1 < length ns" using slist_len [OF assms(1)] os by simp
  have "length (take (length os1) ns) = length os1" using len by simp
  then obtain xs a ys where "ns = xs @ a # ys" "length xs = length os1" using id_take_nth_drop [OF len] by blast
  then show ?thesis using os by metis
qed

lemma find_SomeD: "List.find P xs = Some a \<Longrightarrow> a \<in> set xs \<and> P a"
  by (induction xs) (auto split: if_splits)

lemma find_slist:
  assumes "slist h p ns os"
  shows "find_loop h p ob = Some (List.find (\<lambda>a. obj_at h a = ob) ns)"
  using assms find_loop_dseg [of h None ns ob] by (simp add: slist_def dll_def)

lemma search_delete_found:
  assumes l: "slist (nodes st) p (xs @ a # ys) (os1 @ ob # os2)" "length os1 = length xs" and o: "owns st pu"
    and ob: "ob \<noteq> None" and first: "ob \<notin> set os1"
  shows "\<exists>st'. spf_list_search_delete_node st (Some p) ob True pu = Some (True, Some (begp (xs @ ys) None), st')
    \<and> removed st xs a ys (os1 @ os2) pu st'"
proof -
  note nb = slist_neighbours [OF l]
  have m: "map (obj_at (nodes st)) xs = os1" using l by (auto simp: slist_def append_eq_append_conv)
  have "List.find (\<lambda>a. obj_at (nodes st) a = ob) (xs @ a # ys) = Some a"
    using first nb(4) m by (intro find_first ballI) (metis image_eqI set_map, simp)
  then have found: "find_loop (nodes st) p ob = Some (Some a)" using find_slist [OF l(1), of ob] by simp
  obtain h' st' where u: "unlink (nodes st) (prv (nodes st) a) (nxt (nodes st) a) = Some h'"
    and f: "spf_list_node_free (st\<lparr>nodes := h'\<rparr>) (Some a) pu = Some st'" "removed st xs a ys (os1 @ os2) pu st'"
    using unlink_free_ok [OF l o] by blast
  show ?thesis
  proof (cases "xs = []")
    case True
    then have "wr_prev_if (nodes st) (begp ys None) None = Some h'" using u nb by (simp add: unlink_def mem_simps)
    then show ?thesis using True found f nb ob by (simp add: spf_list_search_delete_node_def mem_simps)
  next
    case False
    then have ne: "Some a \<noteq> p" "prv (nodes st) a \<noteq> None" "prv (nodes st) a \<noteq> Some a" "begp xs None = p"
      using nb(2,7) l by (cases xs; auto simp: slist_def dll_def endp_def)+
    then obtain b where b: "prv (nodes st) a = Some b" "b \<noteq> a" by auto
    have "b \<in> set_option (endp None xs)" using nb(2) b(1) by (metis option.set_intros)
    then have "b \<in> dom (nodes st)" using nb(5) by blast
    then have "wr_prev_if (set_nxt b (nxt (nodes st) a) (nodes st)) (nxt (nodes st) a) (Some b) = Some h'"
      using u b by (simp add: unlink_def mem_simps)
    moreover have "p = begp (xs @ ys) None" using nb(7) False by (simp add: begp_hd)
    ultimately show ?thesis using found f nb(1) ob ne(1) b \<open>b \<in> dom (nodes st)\<close>
      by (simp add: spf_list_search_delete_node_def mem_simps)
  qed
qed

lemma search_delete_absent:
  assumes l: "slist (nodes st) p ns os" and "ob \<notin> set os"
  shows "spf_list_search_delete_node st (Some p) ob td pu = Some (False, Some p, st)"
proof -
  have "List.find (\<lambda>a. obj_at (nodes st) a = ob) ns = None"
    using l assms(2) by (auto simp: find_None_iff slist_def)
  then show ?thesis using find_slist [OF l, of ob] by (simp add: spf_list_search_delete_node_def)
qed

lemma contains_node_ok:
  assumes l: "slist (nodes st) p ns os" and ob: "ob \<noteq> None"
  shows "spf_list_contains_node st (Some p) ob = Some (ob \<in> set os, Some p, st)"
proof (cases "ob \<in> set os")
  case True
  then have "List.find (\<lambda>a. obj_at (nodes st) a = ob) ns \<noteq> None"
    using l by (auto simp: find_None_iff slist_def)
  then show ?thesis using find_slist [OF l, of ob] ob True
    by (auto simp: spf_list_contains_node_def spf_list_search_delete_node_def)
next
  case False
  then show ?thesis using search_delete_absent [OF l] by (simp add: spf_list_contains_node_def)
qed

lemma find_list_node_ok:
  assumes l: "slist (nodes st) p ns os" and "ns \<noteq> []" "ob \<noteq> None"
  shows "\<exists>r. spf_list_find_list_node st p ob True = Some (if ob \<in> set os then AR_EOK else AR_EFAILED, Some r)
    \<and> (case r of None \<Rightarrow> ob \<notin> set os | Some a \<Rightarrow> a \<in> set ns \<and> obj_at (nodes st) a = ob)"
proof -
  let ?r = "List.find (\<lambda>a. obj_at (nodes st) a = ob) ns"
  have p: "p \<noteq> None" using l assms(2) by (cases p) (auto simp: slist_None)
  have m: "ob \<in> set os \<longleftrightarrow> ?r \<noteq> None" using l by (auto simp: find_None_iff slist_def)
  have "case ?r of None \<Rightarrow> ob \<notin> set os | Some a \<Rightarrow> a \<in> set ns \<and> obj_at (nodes st) a = ob"
    using m by (auto dest: find_SomeD split: option.split)
  then show ?thesis using p assms(3) find_slist [OF l, of ob] m
    by (auto simp: spf_list_find_list_node_def)
qed

lemma count_elements_ok:
  assumes l: "slist h p ns os"
  shows "spf_list_count_elements h p = Some (of_nat (length ns))"
  using count_loop_dseg [of h None ns 0] l
  by (cases ns) (auto simp: slist_def dll_def spf_list_count_elements_def)

text \<open>Deleting a whole list.\<close>

lemma delete_list_dseg:
  assumes "dseg (nodes st) pr ns None" "distinct ns" "map (obj_at (nodes st)) ns = os" "owns st pu"
    and "di \<longrightarrow> distinct (filter (\<lambda>x. x \<noteq> None) os) \<and> (\<forall>a. Some a \<in> set os \<longrightarrow> a \<in> objs st)"
  shows "\<exists>st'. delete_list_loop st (begp ns None) di pu = Some st' \<and> owns st' pu \<and> dom (nodes st') = dom (nodes st) - set ns
    \<and> keeps (set ns) (nodes st) (nodes st') \<and> objs st' = objs st - (if di then {a. Some a \<in> set os} else {})"
  using assms
proof (induction ns arbitrary: os st pr)
  case Nil
  then show ?case by (auto simp: delete_list_loop.simps)
next
  case (Cons x xs)
  let ?ob = "obj_at (nodes st) x"
  obtain os' where os: "os = ?ob # os'" "map (obj_at (nodes st)) xs = os'" using Cons.prems(3) by auto
  obtain st1 where f1: "(if di then free_obj st ?ob else Some st) = Some st1"
    and st1: "owns st1 pu" "nodes st1 = nodes st" "objs st1 = objs st - (if di then set_option ?ob else {})"
  proof -
    have "\<exists>st1. (if di then free_obj st ?ob else Some st) = Some st1 \<and> owns st1 pu \<and> nodes st1 = nodes st
      \<and> objs st1 = objs st - (if di then set_option ?ob else {})"
      using Cons.prems(4,5) os by (cases di; cases ?ob) (simp_all add: free_obj_def)
    then show ?thesis using that by blast
  qed
  have x: "x \<in> dom (nodes st)" "nxt (nodes st) x = begp xs None" "dseg (nodes st) (Some x) xs None" using Cons.prems(1) by auto
  obtain st2 where f2: "spf_list_node_free st1 (Some x) pu = Some st2" "owns st2 pu" "objs st2 = objs st1"
    "nodes st2 = (nodes st)(x := None)"
    using node_free_ok [of st1 pu x] st1 x(1) by auto
  have xn: "x \<notin> set xs" "distinct xs" using Cons.prems(2) by auto
  have d: "dseg (nodes st2) (Some x) xs None" using x(3) xn by (simp add: f2)
  have m: "map (obj_at (nodes st2)) xs = os'" using os(2) xn by (auto simp: f2)
  have c: "di \<longrightarrow> distinct (filter (\<lambda>x. x \<noteq> None) os') \<and> (\<forall>a. Some a \<in> set os' \<longrightarrow> a \<in> objs st2)"
    using Cons.prems(5) os f2(3) st1(3) by (auto split: if_splits)
  obtain st' where r: "delete_list_loop st2 (begp xs None) di pu = Some st'" "owns st' pu"
    "dom (nodes st') = dom (nodes st2) - set xs" "keeps (set xs) (nodes st2) (nodes st')"
    "objs st' = objs st2 - (if di then {a. Some a \<in> set os'} else {})"
    using Cons.IH [OF d xn(2) m f2(2) c] by blast
  have "delete_list_loop st (begp (x # xs) None) di pu = Some st'"
    using x f1 f2(1) r(1) by (subst delete_list_loop.simps) (simp add: mem_simps)
  moreover have "keeps (set (x # xs)) (nodes st) (nodes st')" using r(4) f2(4) by (auto simp: keeps_def)
  moreover have "objs st' = objs st - (if di then {a. Some a \<in> set os} else {})"
    using r(5) f2(3) st1(3) os by (cases ?ob) auto
  ultimately show ?case using r(2,3) f2(4) by (intro exI [of _ st']) auto
qed

lemma delete_list_ok:
  assumes "slist (nodes st) p ns os" "owns st pu"
    and "di \<longrightarrow> distinct (filter (\<lambda>x. x \<noteq> None) os) \<and> (\<forall>a. Some a \<in> set os \<longrightarrow> a \<in> objs st)"
  shows "\<exists>st'. spf_list_delete_list_instances st (Some p) di pu = Some (AR_EOK, Some None, st') \<and> owns st' pu
    \<and> dom (nodes st') = dom (nodes st) - set ns
    \<and> keeps (set ns) (nodes st) (nodes st') \<and> objs st' = objs st - (if di then {a. Some a \<in> set os} else {})"
  using delete_list_dseg [of st None ns os pu di] assms
  by (auto simp: slist_def dll_def spf_list_delete_list_instances_def)

subsection \<open>Joining and moving\<close>

lemma merge_lists_ok:
  assumes l: "slist (nodes st) p ns os" and l2: "slist (nodes st) q ms os2" and d: "set ns \<inter> set ms = {}"
  shows "\<exists>p' h'. spf_list_merge_lists st (Some p) (Some q) = Some (AR_EOK, Some p', Some None, st\<lparr>nodes := h'\<rparr>)
    \<and> dom h' = dom (nodes st) \<and> slist h' p' (ns @ ms) (os @ os2) \<and> keeps (set (ns @ ms)) (nodes st) h'"
proof -
  consider "ns = []" | "ms = []" "ns \<noteq> []" | "ns \<noteq> []" "ms \<noteq> []" by blast
  then show ?thesis
  proof cases
    case 1
    then have "p = None" "os = []" using l by (auto simp: slist_def dll_def)
    then show ?thesis using 1 l2
      by (cases q) (auto simp: spf_list_merge_lists_def spf_list_merge_lists_internal_def slist_None
          intro!: exI [of _ "nodes st"])
  next
    case 2
    then have "q = None" "os2 = []" "p \<noteq> None" using l l2 by (auto simp: slist_def dll_def begp_def split: list.splits)
    then show ?thesis using 2 l
      by (auto simp: spf_list_merge_lists_def spf_list_merge_lists_internal_def intro!: exI [of _ "nodes st"])
  next
    case 3
    let ?h = "set_prv (hd ms) (Some (last ns)) (set_nxt (last ns) (Some (hd ms)) (nodes st))"
    have e: "last ns \<in> set ns" "hd ms \<in> set ms" "hd ns \<in> set ns" using 3 by auto
    have q: "q = Some (hd ms)" "p = Some (hd ns)" using l l2 3 by (auto simp: slist_def dll_def begp_hd)
    have dom: "last ns \<in> dom (nodes st)" "hd ms \<in> dom (nodes st)" using e slist_dom [OF l] slist_dom [OF l2] by blast+
    have ne: "p \<noteq> q" using q e d by auto
    have "spf_list_get_tail_node (nodes st) p = Some (AR_EOK, Some (last ns))"
      using get_tail_slist [OF _ 3(1)] l by (simp add: slist_def)
    then have "spf_list_merge_lists st (Some p) (Some q) = Some (AR_EOK, Some p, Some None, st\<lparr>nodes := ?h\<rparr>)"
      using ne q dom by (simp add: spf_list_merge_lists_def spf_list_merge_lists_internal_def mem_simps)
    moreover have "slist ?h p (ns @ ms) (os @ os2)"
      using dll_join [of "nodes st" p ns q ms] l l2 3 d by (simp add: slist_def)
    moreover have "keeps (set (ns @ ms)) (nodes st) ?h" using e by (simp add: keeps_set)
    ultimately show ?thesis by (intro exI [of _ p] exI [of _ ?h]) simp
  qed
qed

lemma attach_at_tail_ok:
  assumes l: "slist (nodes st) hp ns os" and a: "a \<notin> set ns" "nodes st a = Some (fresh_node ob)"
  shows "\<exists>hp' h'. spf_list_attach_at_tail st (Some hp) (Some a) = Some (AR_EOK, Some hp', st\<lparr>nodes := h'\<rparr>)
    \<and> dom h' = dom (nodes st) \<and> slist h' hp' (ns @ [a]) (os @ [ob]) \<and> keeps (insert a (set ns)) (nodes st) h'"
proof (cases hp)
  case None
  then have "ns = []" "os = []" using l by (simp_all add: slist_None)
  then show ?thesis using None a
    by (intro exI [of _ "Some a"] exI [of _ "nodes st"])
      (auto simp: spf_list_attach_at_tail_def slist_def dll_def nxt_def prv_def obj_at_def)
next
  case (Some b)
  then have ne: "ns \<noteq> []" using l slist_Some by fastforce
  have "spf_list_get_tail_node (nodes st) hp = Some (AR_EOK, Some (last ns))"
    using get_tail_slist [OF _ ne] l by (simp add: slist_def)
  then show ?thesis using link_at_tail_ok [OF l ne a] Some by (auto simp: spf_list_attach_at_tail_def)
qed

text \<open>Adding an object unless it is there.\<close>

lemma search_and_add_present:
  assumes l: "slist (nodes st) hp ns os" and ob: "ob \<noteq> None" "ob \<in> set os"
  shows "spf_list_search_and_add_obj env st (Some hp) ob hid up = Some (AR_EOK, Some False, Some hp, st)"
proof -
  have "ob \<in> obj_at (nodes st) ` set ns" using l ob by (auto simp: slist_def)
  then obtain t where "search_tail_loop (nodes st) hp None ob = Some (True, t)"
    using search_tail_loop_found [of "nodes st" None ns ob None] l by (auto simp: slist_def dll_def)
  then show ?thesis using ob by (auto simp: spf_list_search_and_add_obj_def)
qed

lemma search_and_add_absent:
  assumes l: "slist (nodes st) hp ns os" and o: "owns st up" "env_ok env st up" and ob: "ob \<noteq> None" "ob \<notin> set os"
  shows "\<exists>rc hp' st'. spf_list_search_and_add_obj env st (Some hp) ob hid up = Some (rc, Some (rc = AR_EOK), Some hp', st')
    \<and> added st hp (\<lambda>a. ns @ [a]) ns (os @ [ob]) up (Some (rc, Some hp', st'))"
proof -
  have "ob \<notin> obj_at (nodes st) ` set ns" using l ob by (auto simp: slist_def)
  then have s: "search_tail_loop (nodes st) hp None ob = Some (False, endp None ns)"
    using search_tail_loop_dseg [of "nodes st" None ns ob None] l by (auto simp: slist_def dll_def)
  have t: "spf_list_get_tail_node (nodes st1) hp = Some (AR_EOK, endp None ns)"
    if "slist (nodes st1) hp ns os" "hp \<noteq> None" for st1 :: spf_list_state
  proof -
    have ne: "ns \<noteq> []" using that by (auto simp: slist_def dll_def)
    then show ?thesis using get_tail_slist [OF _ ne] that(1) by (simp add: slist_def endp_def)
  qed
  obtain r st1 where c: "spf_list_create_new_node env st ob hid up = Some (r, st1)"
    and n: "case r of None \<Rightarrow> nodes st1 = nodes st
     | Some a \<Rightarrow> a \<notin> dom (nodes st) \<and> nodes st1 = (nodes st)(a \<mapsto> fresh_node ob)"
    using create_new_node_ok [OF o] by blast
  have l1: "slist (nodes st1) hp ns os" using n l slist_new [OF l] by (cases r) auto
  have "spf_list_search_and_add_obj env st (Some hp) ob hid up
    = map_option (\<lambda>(rc, hp', st'). (rc, Some (rc = AR_EOK), hp', st')) (spf_list_insert_tail env st (Some hp) ob hid up)"
    using ob s c t [OF l1]
    by (auto simp: spf_list_search_and_add_obj_def spf_list_insert_tail_def map_option_bind comp_def split: if_splits)
  moreover have "added st hp (\<lambda>a. ns @ [a]) ns (os @ [ob]) up (spf_list_insert_tail env st (Some hp) ob hid up)"
    by (rule insert_tail_added [OF l o ob(1)])
  ultimately show ?thesis by (auto simp: added_def)
qed

text \<open>Replacing a node by a new one for another object.\<close>

lemma dll_replace:
  assumes d: "dll h p (xs @ a # ys)" and c: "c \<in> dom h" "c \<notin> set (xs @ a # ys)"
  shows "dll (upd_nxt (endp None xs) (Some c) (upd_prv (begp ys None) (Some c) (set_prv c (endp None xs) (set_nxt c (begp ys None) h))))
    (begp (xs @ c # ys) None) (xs @ c # ys)"
proof -
  have dd: "distinct (xs @ a # ys)" and l: "dseg h None xs (Some a)" and r: "dseg h (Some a) ys None"
    using d by (auto simp: dll_def dseg_append)
  let ?h = "set_prv c (endp None xs) (set_nxt c (begp ys None) h)" and ?b = "begp ys None" and ?e = "endp None xs"
  have x: "set_option ?b \<inter> set xs = {}" using dd by (intro begp_disj) auto
  have y: "set_option ?e \<inter> set ys = {}" using dd by (intro endp_disj) auto
  have ec: "?e \<noteq> Some c" "?b \<noteq> Some c" using c endp_in [of xs] begp_in [of ys] by auto
  have g: "dseg ?h None xs (Some a)" "dseg ?h (Some a) ys None" using l r c by simp_all
  have g1: "dseg (upd_prv ?b (Some c) ?h) None xs (Some a)" using g(1) x by (simp only: dseg_upd_prv)
  have g2: "dseg (upd_prv ?b (Some c) ?h) (Some c) ys None" using dseg_upd_prv_begp [OF g(2)] dd by simp
  have "dseg (upd_nxt ?e (Some c) (upd_prv ?b (Some c) ?h)) None xs (Some c)" using dseg_upd_nxt_endp [OF g1] dd by simp
  moreover have "dseg (upd_nxt ?e (Some c) (upd_prv ?b (Some c) ?h)) (Some c) ys None" using g2 y by (simp only: dseg_upd_nxt)
  moreover have "distinct (xs @ c # ys)" using dd c by auto
  ultimately show ?thesis using c(1) ec by (simp add: dll_def dseg_append)
qed

lemma realloc_replace_ok:
  assumes l: "slist (nodes st) p (xs @ a # ys) (os1 @ ob # os2)" "length os1 = length xs"
    and o: "owns st up" "env_ok env st up"
  shows "\<exists>rc p' st'. spf_list_realloc_replace_node env st (Some p) (Some a) ob' up up hid = Some (rc, Some p', st') \<and> owns st' up
    \<and> (rc = AR_EFAILED \<and> p' = p \<and> nodes st' = nodes st
       \<or> rc = AR_EOK \<and> (\<exists>c. c \<notin> dom (nodes st) \<and> slist (nodes st') p' (xs @ c # ys) (os1 @ ob' # os2)
            \<and> dom (nodes st') = insert c (dom (nodes st)) - {a} \<and> keeps (insert c (set (xs @ a # ys))) (nodes st) (nodes st')))"
proof -
  note nb = slist_neighbours [OF l]
  obtain r st1 where c: "spf_list_create_new_node env st ob' hid up = Some (r, st1)" and o': "owns st1 up"
    and n: "case r of None \<Rightarrow> nodes st1 = nodes st
     | Some c \<Rightarrow> c \<notin> dom (nodes st) \<and> nodes st1 = (nodes st)(c \<mapsto> fresh_node ob')"
    using create_new_node_ok [OF o] by blast
  show ?thesis
  proof (cases r)
    case None
    then show ?thesis using c n o' nb by (auto simp: spf_list_realloc_replace_node_def mem_simps)
  next
    case (Some x)
    let ?b = "begp ys None" and ?e = "endp None xs"
    let ?h = "upd_nxt ?e (Some x) (upd_prv ?b (Some x) (set_prv x ?e (set_nxt x ?b (nodes st1))))"
    have x: "x \<notin> dom (nodes st)" "nodes st1 = (nodes st)(x \<mapsto> fresh_node ob')" using n Some by auto
    have l1: "slist (nodes st1) p (xs @ a # ys) (os1 @ ob # os2)" using slist_new [OF l(1) x(1)] x(2) by simp
    note nb1 = slist_neighbours [OF l1 l(2)]
    have xn: "x \<notin> set (xs @ a # ys)" using slist_dom [OF l(1)] x(1) by blast
    have xd: "x \<in> dom (nodes st1)" "obj_at (nodes st1) x = ob'" using x by (auto simp: obj_at_def)
    have a: "a \<notin> set xs" "a \<notin> set ys" "a \<noteq> x" using l xn by (auto simp: slist_def dll_def)
    have m: "map (obj_at (nodes st1)) xs = os1" "map (obj_at (nodes st1)) ys = os2"
      using l1 l(2) by (auto simp: slist_def append_eq_append_conv)
    obtain st' where f: "spf_list_node_free (st1\<lparr>nodes := ?h\<rparr>) (Some a) up = Some st'" "owns st' up" "nodes st' = ?h(a := None)"
      using node_free_ok [of "st1\<lparr>nodes := ?h\<rparr>" up a] o' nb1(1) by auto
    have hp: "(if Some a = p then Some x else p) = begp (xs @ x # ys) None"
      using nb(7) a by (cases xs) auto
    have "spf_list_realloc_replace_node env st (Some p) (Some a) ob' up up hid
        = Some (AR_EOK, Some (if Some a = p then Some x else p), st')"
      using c Some nb(1-3) nb1(5,6) xd(1) f(1) by (simp add: spf_list_realloc_replace_node_def mem_simps)
    then have "spf_list_realloc_replace_node env st (Some p) (Some a) ob' up up hid = Some (AR_EOK, Some (begp (xs @ x # ys) None), st')"
      unfolding hp .
    moreover have "slist ?h (begp (xs @ x # ys) None) (xs @ x # ys) (os1 @ ob' # os2)"
      using dll_replace [of "nodes st1" p xs a ys x] l1 xd xn m by (simp add: slist_def)
    then have "slist (nodes st') (begp (xs @ x # ys) None) (xs @ x # ys) (os1 @ ob' # os2)"
      by (rule slist_keeps [of "{a}", rotated 2]) (use a in \<open>auto simp: f keeps_def\<close>)
    moreover have "keeps (insert x (set (xs @ a # ys))) (nodes st1) ?h"
      using endp_in [of xs] begp_in [of ys] by (simp add: keeps_upd keeps_set subset_insertI2 le_supI1 le_supI2)
    then have "keeps (insert x (set (xs @ a # ys))) (nodes st) (nodes st')" using x(2) by (auto simp: keeps_def f)
    moreover have "dom (nodes st') = insert x (dom (nodes st)) - {a}" using x(2) by (simp add: f)
    ultimately show ?thesis using f(2) x(1) by blast
  qed
qed

text \<open>Moving a node to the end of another list.\<close>

lemma dll_detach:
  assumes "dll h p (xs @ a # ys)"
  shows "dll (upd_nxt (endp None xs) (begp ys None) (upd_prv (begp ys None) (endp None xs) (set_prv a None (set_nxt a None h))))
     (begp (xs @ ys) None) (xs @ ys)" (is "dll ?h _ _")
proof -
  have x: "set_option (begp ys None) \<inter> set xs = {}" "set_option (endp None xs) \<inter> set ys = {}"
    using assms by (auto intro!: begp_disj endp_disj simp: dll_def)
  let ?g = "upd_prv (begp ys None) (endp None xs) (upd_nxt (endp None xs) (begp ys None) h)"
  have "a \<notin> set (xs @ ys)" using assms by (auto simp: dll_def)
  then have "nxt ?h b = nxt ?g b \<and> prv ?h b = prv ?g b" if "b \<in> set (xs @ ys)" for b
    using that by (cases "begp ys None"; cases "endp None xs") (auto simp: nxt_set_nxt prv_set_prv)
  then have "dseg ?h None (xs @ ys) None = dseg ?g None (xs @ ys) None" by (intro dseg_cong) auto
  then show ?thesis using dll_unlink [OF assms] by (simp add: dll_def)
qed

lemma move_node_ok:
  assumes l: "slist (nodes st) p (xs @ a # ys) (os1 @ ob # os2)" "length os1 = length xs"
    and l2: "slist (nodes st) q ms mos" and d: "set (xs @ a # ys) \<inter> set ms = {}"
  shows "\<exists>q' h'. spf_list_move_node_to_another_list st (Some q) (Some a) (Some p)
      = Some (Some q', Some (begp (xs @ ys) None), st\<lparr>nodes := h'\<rparr>) \<and> dom h' = dom (nodes st)
    \<and> slist h' (begp (xs @ ys) None) (xs @ ys) (os1 @ os2) \<and> slist h' q' (ms @ [a]) (mos @ [ob])
    \<and> keeps (set (xs @ a # ys) \<union> set ms) (nodes st) h'"
proof -
  note nb = slist_neighbours [OF l]
  have dl: "dll (nodes st) p (xs @ a # ys)" and m: "map (obj_at (nodes st)) xs = os1" "map (obj_at (nodes st)) ys = os2"
    using l by (auto simp: slist_def append_eq_append_conv)
  have a: "a \<notin> set xs" "a \<notin> set ys" "a \<notin> set ms" using dl d by (auto simp: dll_def)
  let ?b = "begp ys None" and ?e = "endp None xs"
  let ?h = "upd_nxt ?e ?b (upd_prv ?b ?e (set_prv a None (set_nxt a None (nodes st))))"
  have x: "?e \<noteq> Some a" "?b \<noteq> Some a" using a endp_in [of xs] begp_in [of ys] by auto
  have k: "keeps (set (xs @ a # ys)) (nodes st) ?h" using endp_in [of xs] begp_in [of ys]
    by (simp add: keeps_upd keeps_set subset_insertI2 le_supI1 le_supI2)
  have left: "slist ?h (begp (xs @ ys) None) (xs @ ys) (os1 @ os2)" using dll_detach [OF dl] m by (simp add: slist_def)
  have one: "slist ?h (Some a) [a] [ob]" using nb(1,4) x by (simp add: slist_def dll_def)
  have l2': "slist ?h q ms mos" using slist_keeps [OF k d l2] .
  obtain q' h' where mg: "spf_list_merge_lists (st\<lparr>nodes := ?h\<rparr>) (Some q) (Some (Some a)) = Some (AR_EOK, Some q', Some None, st\<lparr>nodes := h'\<rparr>)"
    and h': "dom h' = dom (nodes st)" "slist h' q' (ms @ [a]) (mos @ [ob])" "keeps (set (ms @ [a])) ?h h'"
    using merge_lists_ok [of "st\<lparr>nodes := ?h\<rparr>" q ms mos "Some a" "[a]" "[ob]"] one l2' a(3) by auto
  have hp: "(if p = Some a then ?b else p) = begp (xs @ ys) None" using nb(7) a by (cases xs) auto
  have "spf_list_move_node_to_another_list st (Some q) (Some a) (Some p)
      = Some (Some q', Some (if p = Some a then ?b else p), st\<lparr>nodes := h'\<rparr>)"
    using nb(1-3,5,6) mg by (simp add: spf_list_move_node_to_another_list_def mem_simps)
  moreover have "slist h' (begp (xs @ ys) None) (xs @ ys) (os1 @ os2)" using slist_keeps [OF h'(3) _ left] a d by auto
  moreover have "keeps (set (xs @ a # ys) \<union> set ms) (nodes st) h'" using h'(3) k by (auto simp: keeps_def)
  ultimately show ?thesis using h'(1,2) unfolding hp by blast
qed

subsection \<open>An example\<close>

text \<open>Two heap nodes for the objects at 100 and 200.\<close>

definition ex_nodes :: "spf_list_node store" where
  "ex_nodes = [10 \<mapsto> \<lparr>next_ptr = Some 20, prev_ptr = None, obj_ptr = Some 100\<rparr>,
               20 \<mapsto> \<lparr>next_ptr = None, prev_ptr = Some 10, obj_ptr = Some 200\<rparr>]"

definition ex_lists :: spf_list_state where
  "ex_lists = \<lparr>nodes = ex_nodes, objs = {100, 200}, pool = bufpool_init, bufpool_handles = [0, 0], spf_mem_island_heap_id = 0\<rparr>"

definition ex_env :: alloc_env where
  "ex_env = \<lparr>pool_struct_mal = True, pool_mal = ex_mal, heap_mal = Some 30\<rparr>"

lemma ex_lists_simps [simp]: "nodes ex_lists = ex_nodes" "objs ex_lists = {100, 200}"
  by (simp_all add: ex_lists_def)

lemma ex_slist: "slist ex_nodes (Some 10) [10, 20] [Some 100, Some 200]"
  by (simp add: slist_def dll_def ex_nodes_def nxt_def prv_def obj_at_def)

lemma ex_slist_nodes: "slist (nodes ex_lists) (Some 10) [10, 20] [Some 100, Some 200]"
  using ex_slist by simp

lemma ex_lists_owns: "owns ex_lists False"
  by (simp add: owns_def)

lemma ex_env_ok: "env_ok ex_env ex_lists False"
  by (simp add: env_ok_def ex_env_def ex_nodes_def)

text \<open>A list of one node that comes from the buffer pool.\<close>

definition ex_pool_lists :: spf_list_state where
  "ex_pool_lists = \<lparr>nodes = [1008 \<mapsto> fresh_node (Some 100)], objs = {}, pool = ex_used,
      bufpool_handles = [handle_of 0, 0], spf_mem_island_heap_id = 0\<rparr>"

lemma ex_pool_lists_simps [simp]: "nodes ex_pool_lists = [1008 \<mapsto> fresh_node (Some 100)]" "pool ex_pool_lists = ex_used"
  by (simp_all add: ex_pool_lists_def)

lemma ex_pool_slist: "slist (nodes ex_pool_lists) (Some 1008) [1008] [Some 100]"
  by (simp add: slist_def dll_def nxt_def prv_def obj_at_def)

lemma ex_pool_owns: "owns ex_pool_lists True"
  using ex_used by (simp add: owns_def)

lemma ex_pool_env_ok: "env_ok ex_env ex_pool_lists True"
  using ex_used_mal_ok unfolding env_ok_def ex_env_def by auto

text \<open>Two lists of one node each.\<close>

definition ex_two :: spf_list_state where
  "ex_two = ex_lists\<lparr>nodes := [10 \<mapsto> fresh_node (Some 100), 20 \<mapsto> fresh_node (Some 200)]\<rparr>"

lemma ex_two_slist: "slist (nodes ex_two) (Some 10) [10] [Some 100]" "slist (nodes ex_two) (Some 20) [20] [Some 200]"
  by (simp_all add: ex_two_def slist_def dll_def nxt_def prv_def obj_at_def)

subsection \<open>Properties\<close>

text \<open>
  inserting an object at the tail returns, keeps the allocator consistent and either
  reports that no memory was left and changes nothing, or appends the object with a node that
  no list had before. No node outside the list is touched.
\<close>

theorem spf_list_insert_tail_ok:
  assumes "slist (nodes st) hp ns os" and "owns st up" and "env_ok env st up" and "ob \<noteq> None"
  shows "\<exists>rc hp' st'. spf_list_insert_tail env st (Some hp) ob hid up = Some (rc, Some hp', st') \<and> owns st' up \<and>
    (rc = AR_ENOMEMORY \<and> hp' = hp \<and> nodes st' = nodes st
     \<or> rc = AR_EOK \<and> (\<exists>a. a \<notin> dom (nodes st) \<and> slist (nodes st') hp' (ns @ [a]) (os @ [ob])
                         \<and> keeps (insert a (set ns)) (nodes st) (nodes st')))"
  using insert_tail_added [OF assms(1-4)] unfolding added_def by blast

theorem spf_list_insert_tail_ok_witness:
  "\<exists>rc hp' st'. spf_list_insert_tail ex_env ex_pool_lists (Some (Some 1008)) (Some 300) 0 True = Some (rc, Some hp', st') \<and> owns st' True \<and>
    (rc = AR_ENOMEMORY \<and> hp' = Some 1008 \<and> nodes st' = nodes ex_pool_lists
     \<or> rc = AR_EOK \<and> (\<exists>a. a \<notin> dom (nodes ex_pool_lists) \<and> slist (nodes st') hp' ([1008] @ [a]) ([Some 100] @ [Some 300])
                         \<and> keeps (insert a (set [1008])) (nodes ex_pool_lists) (nodes st')))"
  by (rule spf_list_insert_tail_ok [OF ex_pool_slist ex_pool_owns ex_pool_env_ok]) simp

text \<open>inserting at the head is, likewise, either without effect or puts the object in front.\<close>

theorem spf_list_insert_head_ok:
  assumes "slist (nodes st) hp ns os" and "owns st up" and "env_ok env st up" and "ob \<noteq> None"
  shows "\<exists>rc hp' st'. spf_list_insert_head env st (Some hp) ob hid up = Some (rc, Some hp', st') \<and> owns st' up \<and>
    (rc = AR_ENOMEMORY \<and> hp' = hp \<and> nodes st' = nodes st
     \<or> rc = AR_EOK \<and> (\<exists>a. a \<notin> dom (nodes st) \<and> slist (nodes st') hp' (a # ns) (ob # os)
                         \<and> keeps (insert a (set ns)) (nodes st) (nodes st')))"
  using insert_head_added [OF assms(1-4)] unfolding added_def by blast

theorem spf_list_insert_head_ok_witness:
  "\<exists>rc hp' st'. spf_list_insert_head ex_env ex_lists (Some (Some 10)) (Some 300) 0 False = Some (rc, Some hp', st') \<and> owns st' False \<and>
    (rc = AR_ENOMEMORY \<and> hp' = Some 10 \<and> nodes st' = nodes ex_lists
     \<or> rc = AR_EOK \<and> (\<exists>a. a \<notin> dom (nodes ex_lists) \<and> slist (nodes st') hp' (a # [10, 20]) (Some 300 # [Some 100, Some 200])
                         \<and> keeps (insert a (set [10, 20])) (nodes ex_lists) (nodes st')))"
  by (rule spf_list_insert_head_ok [OF ex_slist_nodes ex_lists_owns ex_env_ok]) simp

text \<open>
  creating a node in front of a given node of the list inserts the object at that place,
  at the head too, or fails for lack of memory without effect.
\<close>

theorem spf_list_insert_before_ok:
  assumes "slist (nodes st) hp (xs @ b # ys) (os1 @ os2)" and "length os1 = length xs"
    and "owns st up" and "env_ok env st up" and "ob \<noteq> None"
  shows "\<exists>rc hp' st'. spf_list_create_and_insert_before_node env st (Some hp) ob (Some b) hid up = Some (rc, Some hp', st') \<and> owns st' up \<and>
    (rc = AR_ENOMEMORY \<and> hp' = hp \<and> nodes st' = nodes st
     \<or> rc = AR_EOK \<and> (\<exists>a. a \<notin> dom (nodes st) \<and> slist (nodes st') hp' (xs @ a # b # ys) (os1 @ ob # os2)
                         \<and> keeps (insert a (set (xs @ b # ys))) (nodes st) (nodes st')))"
  using create_and_insert_before_added [OF assms] unfolding added_def by blast

theorem spf_list_insert_before_ok_witness:
  "\<exists>rc hp' st'. spf_list_create_and_insert_before_node ex_env ex_lists (Some (Some 10)) (Some 300) (Some 10) 0 False
      = Some (rc, Some hp', st') \<and> owns st' False \<and>
    (rc = AR_ENOMEMORY \<and> hp' = Some 10 \<and> nodes st' = nodes ex_lists
     \<or> rc = AR_EOK \<and> (\<exists>a. a \<notin> dom (nodes ex_lists) \<and> slist (nodes st') hp' ([] @ a # 10 # [20]) ([] @ Some 300 # [Some 100, Some 200])
                         \<and> keeps (insert a (set ([] @ 10 # [20]))) (nodes ex_lists) (nodes st')))"
  by (rule spf_list_insert_before_ok [OF _ _ ex_lists_owns ex_env_ok]) (use ex_slist in simp_all)

text \<open>
  finding and deleting an object removes the first node that holds it, frees exactly this
  node and reports it; the other nodes stay linked in their order. If no node holds the
  object, nothing changes and the result is false.
\<close>

theorem spf_list_find_delete_ok:
  assumes "slist (nodes st) hp ns os" and "owns st pu" and "ob \<noteq> None"
  shows "\<exists>hp' st'. spf_list_find_delete_node st (Some hp) ob pu = Some (ob \<in> set os, Some hp', st') \<and> owns st' pu
    \<and> (\<exists>ns'. slist (nodes st') hp' ns' (remove1 ob os) \<and> dom (nodes st) - dom (nodes st') = set ns - set ns'
             \<and> length ns' = length (remove1 ob os) \<and> keeps (set ns) (nodes st) (nodes st'))"
proof (cases "ob \<in> set os")
  case True
  obtain xs a ys os1 os2 where s: "ns = xs @ a # ys" "os = os1 @ ob # os2" "length os1 = length xs" "ob \<notin> set os1"
    using slist_first [OF assms(1) True] by blast
  have l: "slist (nodes st) hp (xs @ a # ys) (os1 @ ob # os2)" using assms(1) s by simp
  obtain st' where st': "spf_list_search_delete_node st (Some hp) ob True pu = Some (True, Some (begp (xs @ ys) None), st')"
    "removed st xs a ys (os1 @ os2) pu st'"
    using search_delete_found [OF l s(3) assms(2,3) s(4)] by blast
  have "remove1 ob os = os1 @ os2" using s by (simp add: remove1_append)
  moreover have "dom (nodes st) - dom (nodes st') = {a}" "a \<notin> set xs" "a \<notin> set ys"
    using st'(2) slist_neighbours(1) [OF l s(3)] l by (auto simp: removed_def slist_def dll_def)
  ultimately show ?thesis
    using st' True s slist_len [of "nodes st'" _ "xs @ ys" "os1 @ os2"]
    by (intro exI [of _ "begp (xs @ ys) None"] exI [of _ st'])
      (auto simp: removed_def spf_list_find_delete_node_def intro!: exI [of _ "xs @ ys"])
next
  case False
  then show ?thesis using search_delete_absent [OF assms(1) False] assms slist_len [OF assms(1)]
    by (auto simp: spf_list_find_delete_node_def remove1_idem intro!: exI [of _ ns])
qed

theorem spf_list_find_delete_ok_witness:
  "\<exists>hp' st'. spf_list_find_delete_node ex_lists (Some (Some 10)) (Some 200) False = Some (Some (200 :: addr) \<in> set [Some 100, Some 200], Some hp', st')
    \<and> owns st' False \<and> (\<exists>ns'. slist (nodes st') hp' ns' (remove1 (Some 200) [Some 100, Some 200])
             \<and> dom (nodes ex_lists) - dom (nodes st') = set [10, 20] - set ns'
             \<and> length ns' = length (remove1 (Some (200 :: addr)) [Some 100, Some 200]) \<and> keeps (set [10, 20]) (nodes ex_lists) (nodes st'))"
  by (rule spf_list_find_delete_ok [OF ex_slist_nodes ex_lists_owns]) simp

text \<open>
  an object inserted at the head is what the next pop returns, and the list is the one
  before, with exactly the nodes it had.
\<close>

theorem spf_list_push_pop:
  assumes "slist (nodes st) hp ns os" and "owns st up" and "env_ok env st up" and "ob \<noteq> None"
    and "spf_list_insert_head env st (Some hp) ob hid up = Some (AR_EOK, Some hp', st')"
  shows "\<exists>st''. spf_list_pop_head st' (Some hp') up = Some (ob, Some hp, st'') \<and> owns st'' up
    \<and> slist (nodes st'') hp ns os \<and> dom (nodes st'') = dom (nodes st)"
proof -
  obtain a where st': "owns st' up" "a \<notin> dom (nodes st)" "slist (nodes st') hp' (a # ns) (ob # os)"
    "keeps (insert a (set ns)) (nodes st) (nodes st')"
    using insert_head_added [OF assms(1-4), of hid] assms(5) by (auto simp: added_def)
  obtain st'' where pop: "spf_list_pop_head st' (Some hp') up = Some (ob, Some (begp ns None), st'')" "removed st' [] a ns os up st''"
    using pop_head_ok [OF st'(3,1)] by blast
  have hp: "begp ns None = hp" using assms(1) by (simp add: slist_def dll_def)
  have "x \<in> dom (nodes st') \<longleftrightarrow> x \<in> insert a (dom (nodes st))" for x
    using st'(4) slist_dom [OF assms(1)] slist_dom [OF st'(3)] by (cases "x \<in> insert a (set ns)") (auto simp: keeps_def)
  then have "dom (nodes st'') = dom (nodes st)" using pop(2) st'(2) by (auto simp: removed_def)
  then show ?thesis using pop hp by (auto simp: removed_def)
qed

theorem spf_list_push_pop_witness:
  "\<exists>st' st''. spf_list_insert_head ex_env ex_lists (Some (Some 10)) (Some 300) 0 False = Some (AR_EOK, Some (Some 30), st')
    \<and> spf_list_pop_head st' (Some (Some 30)) False = Some (Some 300, Some (Some 10), st'') \<and> owns st'' False
    \<and> slist (nodes st'') (Some 10) [10, 20] [Some 100, Some 200] \<and> dom (nodes st'') = dom (nodes ex_lists)"
proof -
  let ?h = "upd_prv (Some 10) (Some 30) (set_nxt 30 (Some 10) (ex_nodes(30 \<mapsto> fresh_node (Some 300))))"
  have "30 \<in> dom (ex_nodes(30 \<mapsto> fresh_node (Some 300)))" "10 \<in> dom (ex_nodes(30 \<mapsto> fresh_node (Some 300)))"
    by (simp_all add: ex_nodes_def)
  then have ins: "spf_list_insert_head ex_env ex_lists (Some (Some 10)) (Some 300) 0 False = Some (AR_EOK, Some (Some 30), ex_lists\<lparr>nodes := ?h\<rparr>)"
    by (simp add: spf_list_insert_head_def spf_list_create_new_node_def ex_env_def mem_simps)
  show ?thesis using spf_list_push_pop [OF ex_slist_nodes ex_lists_owns ex_env_ok _ ins] ins by auto
qed

text \<open>
  deleting a list frees all its nodes and, when asked to, all its objects, each once, and
  nothing else; the head is \<open>NULL\<close> afterwards. The loop ends on every well-linked list.
\<close>

theorem spf_list_delete_list_ok:
  assumes "slist (nodes st) p ns os" and "owns st pu"
    and "delete_instance \<longrightarrow> distinct (filter (\<lambda>x. x \<noteq> None) os) \<and> (\<forall>a. Some a \<in> set os \<longrightarrow> a \<in> objs st)"
  shows "\<exists>st'. spf_list_delete_list_instances st (Some p) delete_instance pu = Some (AR_EOK, Some None, st') \<and> owns st' pu
    \<and> dom (nodes st') = dom (nodes st) - set ns \<and> keeps (set ns) (nodes st) (nodes st')
    \<and> objs st' = objs st - (if delete_instance then {a. Some a \<in> set os} else {})"
  using delete_list_ok [OF assms] by blast

theorem spf_list_delete_list_ok_witness:
  "\<exists>st'. spf_list_delete_list_instances ex_lists (Some (Some 10)) True False = Some (AR_EOK, Some None, st') \<and> owns st' False
    \<and> dom (nodes st') = dom (nodes ex_lists) - set [10, 20] \<and> keeps (set [10, 20]) (nodes ex_lists) (nodes st')
    \<and> objs st' = objs ex_lists - (if True then {a. Some a \<in> set [Some 100, Some 200]} else {})"
  by (rule spf_list_delete_list_ok [OF ex_slist_nodes ex_lists_owns]) simp

text \<open>
  merging two lists without common nodes gives their concatenation, sets the source to
  \<open>NULL\<close>, and touches no other node.
\<close>

theorem spf_list_merge_ok:
  assumes "slist (nodes st) p ns os" and "slist (nodes st) q ms os2" and "set ns \<inter> set ms = {}"
  shows "\<exists>p' h'. spf_list_merge_lists st (Some p) (Some q) = Some (AR_EOK, Some p', Some None, st\<lparr>nodes := h'\<rparr>)
    \<and> dom h' = dom (nodes st) \<and> slist h' p' (ns @ ms) (os @ os2) \<and> keeps (set (ns @ ms)) (nodes st) h'"
  by (rule merge_lists_ok [OF assms])

theorem spf_list_merge_ok_witness:
  "\<exists>p' h'. spf_list_merge_lists ex_two (Some (Some 10)) (Some (Some 20)) = Some (AR_EOK, Some p', Some None, ex_two\<lparr>nodes := h'\<rparr>)
    \<and> dom h' = dom (nodes ex_two) \<and> slist h' p' ([10] @ [20]) ([Some 100] @ [Some 200]) \<and> keeps (set ([10] @ [20])) (nodes ex_two) h'"
  by (rule spf_list_merge_ok [OF ex_two_slist]) simp

text \<open>
  moving a node to another list takes it out of its list, whose head is updated, and
  appends it to the other one; both lists are well linked afterwards.
\<close>

theorem spf_list_move_ok:
  assumes "slist (nodes st) p (xs @ a # ys) (os1 @ ob # os2)" and "length os1 = length xs"
    and "slist (nodes st) q ms mos" and "set (xs @ a # ys) \<inter> set ms = {}"
  shows "\<exists>q' h'. spf_list_move_node_to_another_list st (Some q) (Some a) (Some p)
      = Some (Some q', Some (begp (xs @ ys) None), st\<lparr>nodes := h'\<rparr>) \<and> dom h' = dom (nodes st)
    \<and> slist h' (begp (xs @ ys) None) (xs @ ys) (os1 @ os2) \<and> slist h' q' (ms @ [a]) (mos @ [ob])
    \<and> keeps (set (xs @ a # ys) \<union> set ms) (nodes st) h'"
  by (rule move_node_ok [OF assms])

theorem spf_list_move_ok_witness:
  "\<exists>q' h'. spf_list_move_node_to_another_list ex_two (Some (Some 20)) (Some 10) (Some (Some 10))
      = Some (Some q', Some (begp ([] @ []) None), ex_two\<lparr>nodes := h'\<rparr>) \<and> dom h' = dom (nodes ex_two)
    \<and> slist h' (begp ([] @ []) None) ([] @ []) ([] @ []) \<and> slist h' q' ([20] @ [10]) ([Some 200] @ [Some 100])
    \<and> keeps (set ([] @ 10 # []) \<union> set [20]) (nodes ex_two) h'"
  by (rule spf_list_move_ok [OF _ _ ex_two_slist(2)]) (use ex_two_slist(1) in simp_all)

text \<open>
  adding an object only if it is absent keeps a list of distinct objects distinct, and the
  flag says whether it was added.
\<close>

theorem spf_list_search_and_add_ok:
  assumes "slist (nodes st) hp ns os" and "owns st up" and "env_ok env st up" and "ob \<noteq> None" and "distinct os"
  shows "\<exists>rc hp' st' ns' os'. spf_list_search_and_add_obj env st (Some hp) ob hid up
      = Some (rc, Some (rc = AR_EOK \<and> ob \<notin> set os), Some hp', st')
    \<and> owns st' up \<and> slist (nodes st') hp' ns' os' \<and> distinct os'
    \<and> (if rc = AR_EOK then set os' = insert ob (set os) else rc = AR_ENOMEMORY \<and> os' = os)"
proof (cases "ob \<in> set os")
  case True
  then show ?thesis using search_and_add_present [OF assms(1,4) True] assms
    by (intro exI [of _ AR_EOK] exI [of _ hp] exI [of _ st]) (auto simp: insert_absorb)
next
  case False
  obtain rc hp' st' where r: "spf_list_search_and_add_obj env st (Some hp) ob hid up = Some (rc, Some (rc = AR_EOK), Some hp', st')"
    and ad: "added st hp (\<lambda>a. ns @ [a]) ns (os @ [ob]) up (Some (rc, Some hp', st'))"
    using search_and_add_absent [OF assms(1-4) False] by blast
  from ad consider "rc = AR_ENOMEMORY" "hp' = hp" "nodes st' = nodes st" "owns st' up"
    | a where "rc = AR_EOK" "slist (nodes st') hp' (ns @ [a]) (os @ [ob])" "owns st' up"
    unfolding added_def by auto
  then show ?thesis
  proof cases
    case 1
    then have "slist (nodes st') hp' ns os" using assms(1) by simp
    then show ?thesis using r 1 assms(5) False by fastforce
  next
    case 2
    moreover have "distinct (os @ [ob])" "set (os @ [ob]) = insert ob (set os)" using assms(5) False by auto
    ultimately show ?thesis using r False by (intro exI [of _ rc] exI [of _ hp'] exI [of _ st'] exI [of _ "ns @ [a]"] exI [of _ "os @ [ob]"]) auto
  qed
qed

theorem spf_list_search_and_add_ok_witness:
  "\<exists>rc hp' st' ns' os'. spf_list_search_and_add_obj ex_env ex_lists (Some (Some 10)) (Some 300) 0 False
      = Some (rc, Some (rc = AR_EOK \<and> Some (300 :: addr) \<notin> set [Some 100, Some 200]), Some hp', st')
    \<and> owns st' False \<and> slist (nodes st') hp' ns' os' \<and> distinct os'
    \<and> (if rc = AR_EOK then set os' = insert (Some 300) (set [Some 100, Some 200]) else rc = AR_ENOMEMORY \<and> os' = [Some 100, Some 200])"
  by (rule spf_list_search_and_add_ok [OF ex_slist_nodes ex_lists_owns ex_env_ok]) simp_all

text \<open>
  replacing a node allocates the new node before the old one is freed: on failure the list
  is unchanged, otherwise the new object stands at the same place and the old node is freed.
\<close>

theorem spf_list_realloc_replace_ok:
  assumes "slist (nodes st) p (xs @ a # ys) (os1 @ ob # os2)" and "length os1 = length xs"
    and "owns st up" and "env_ok env st up"
  shows "\<exists>rc p' st'. spf_list_realloc_replace_node env st (Some p) (Some a) ob' up up hid = Some (rc, Some p', st') \<and> owns st' up
    \<and> (rc = AR_EFAILED \<and> p' = p \<and> nodes st' = nodes st
       \<or> rc = AR_EOK \<and> (\<exists>c. c \<notin> dom (nodes st) \<and> slist (nodes st') p' (xs @ c # ys) (os1 @ ob' # os2)
            \<and> dom (nodes st') = insert c (dom (nodes st)) - {a} \<and> keeps (insert c (set (xs @ a # ys))) (nodes st) (nodes st')))"
  by (rule realloc_replace_ok [OF assms])

theorem spf_list_realloc_replace_ok_witness:
  "\<exists>rc p' st'. spf_list_realloc_replace_node ex_env ex_lists (Some (Some 10)) (Some 10) (Some 300) False False 0
      = Some (rc, Some p', st') \<and> owns st' False
    \<and> (rc = AR_EFAILED \<and> p' = Some 10 \<and> nodes st' = nodes ex_lists
       \<or> rc = AR_EOK \<and> (\<exists>c. c \<notin> dom (nodes ex_lists) \<and> slist (nodes st') p' ([] @ c # [20]) ([] @ Some 300 # [Some 200])
            \<and> dom (nodes st') = insert c (dom (nodes ex_lists)) - {10} \<and> keeps (insert c (set ([] @ 10 # [20]))) (nodes ex_lists) (nodes st')))"
  by (rule spf_list_realloc_replace_ok [OF _ _ ex_lists_owns ex_env_ok, where ob = "Some 100"]) (use ex_slist in simp_all)

text \<open>
  deleting a node with its object removes it from the list, frees node and object, and
  updates the separate head variable and the node variable to the right neighbours.
\<close>

theorem spf_list_delete_node_and_free_obj_ok:
  assumes "slist (nodes st) p (xs @ a # ys) (os1 @ ob # os2)" and "length os1 = length xs" and "owns st pu"
    and "set_option ob \<subseteq> objs st"
  shows "\<exists>st'. spf_list_delete_node_and_free_obj st (Some (Some a)) (OtherVar p) pu
      = Some (AR_EOK, Some (begp ys None), OtherVar (begp (xs @ ys) None), st') \<and> owns st' pu
      \<and> slist (nodes st') (begp (xs @ ys) None) (xs @ ys) (os1 @ os2)
      \<and> dom (nodes st') = dom (nodes st) - {a} \<and> objs st' = objs st - set_option ob"
  using delete_node_and_free_obj_ok [OF assms] by (auto simp: removed_def)

theorem spf_list_delete_node_and_free_obj_ok_witness:
  "\<exists>st'. spf_list_delete_node_and_free_obj ex_lists (Some (Some 10)) (OtherVar (Some 10)) False
      = Some (AR_EOK, Some (begp [20] None), OtherVar (begp ([] @ [20]) None), st') \<and> owns st' False
      \<and> slist (nodes st') (begp ([] @ [20]) None) ([] @ [20]) ([] @ [Some 200])
      \<and> dom (nodes st') = dom (nodes ex_lists) - {10} \<and> objs st' = objs ex_lists - set_option (Some 100)"
  by (rule spf_list_delete_node_and_free_obj_ok [OF _ _ ex_lists_owns]) (use ex_slist in simp_all)

text \<open>
  \<open>spf_list_delete_node_update_head\<close> called with one variable as node and as head frees
  the successor of the node instead of the node: the variable then points to freed memory
  and the node is leaked.
\<close>

theorem spf_list_delete_update_head_same_var:
  assumes "slist (nodes st) (Some a) (a # b # ys) (ob # os)" and "owns st pu"
  shows "\<exists>st'. spf_list_delete_node_update_head st (Some (Some a)) SameVar pu = Some (AR_EOK, Some (Some b), SameVar, st')
    \<and> nodes st' b = None \<and> nodes st' a \<noteq> None"
  by (rule delete_node_same_var_next [OF assms])

theorem spf_list_delete_update_head_same_var_witness:
  "\<exists>st'. spf_list_delete_node_update_head ex_lists (Some (Some 10)) SameVar False = Some (AR_EOK, Some (Some 20), SameVar, st')
    \<and> nodes st' 20 = None \<and> nodes st' 10 \<noteq> None"
  by (rule spf_list_delete_update_head_same_var [OF _ ex_lists_owns]) (use ex_slist in auto)

text \<open>
  the count of a list with fewer than \<open>2 ^ 32\<close> nodes is its length, and the searches answer
  membership of the object.
\<close>

theorem spf_list_queries_ok:
  assumes "slist (nodes st) p ns os" and "length ns < 2 ^ 32" and "ob \<noteq> None"
  shows "\<exists>c. spf_list_count_elements (nodes st) p = Some c \<and> unat c = length os
    \<and> spf_list_contains_node st (Some p) ob = Some (ob \<in> set os, Some p, st)"
  using count_elements_ok [OF assms(1)] contains_node_ok [OF assms(1,3)] slist_len [OF assms(1)] assms(2)
  by (auto simp: unat_of_nat)

theorem spf_list_queries_ok_witness:
  "\<exists>c. spf_list_count_elements (nodes ex_lists) (Some 10) = Some c \<and> unat c = length [Some (100 :: addr), Some 200]
    \<and> spf_list_contains_node ex_lists (Some (Some 10)) (Some 200) = Some (Some (200 :: addr) \<in> set [Some 100, Some 200], Some (Some 10), ex_lists)"
  by (rule spf_list_queries_ok [OF ex_slist_nodes]) simp_all

end
