(* ===== verification/Spf_Hashtable.thy ===== *)
theory Spf_Hashtable
  imports Ar_Prelude
begin

text \<open>
  The hash table of the framework (\<^verbatim>\<open>fwk/spf/utils/cmn/src/spf_hashtable.c\<close>): an array of
  singly linked chains of nodes that the clients own.

  A node's key (\<open>key_ptr\<close> and \<open>key_size\<close>) is the list of its bytes. A \<open>spf_hash_node_t **\<close> is a
  \<open>slot\<close>: an element of the table or the \<open>next_ptr\<close> field of a node. The client's free function
  is the argument \<open>free_f\<close> of the operations that call it, a function on the store of nodes, or
  \<open>None\<close> when the table has none; whether an allocation succeeds is a bool argument.
\<close>

subsection \<open>Data\<close>

record spf_hash_node =
  hnext :: ptr
  key_bytes :: "u8 list"

record spf_hashtable =
  table_ptr :: "ptr list option"
  table_size :: u32
  mask_size :: u32
  resize_factor :: u32
  num_nodes :: u32
  num_items :: u32
  hnodes :: "spf_hash_node store"

datatype slot = Table_Slot nat | Next_Of addr

abbreviation (input) FNV_32_PRIME :: u32 where "FNV_32_PRIME \<equiv> 0x01000193"
abbreviation (input) FNV_32_INIT :: u32 where "FNV_32_INIT \<equiv> 0x811C9DC5"

subsection \<open>Helpers\<close>

fun fnv_hash :: "u8 list \<Rightarrow> u32 \<Rightarrow> u32" where
  "fnv_hash [] h = h"
| "fnv_hash (b # bs) h = fnv_hash bs (h * FNV_32_PRIME XOR ucast b)"

definition hashtable_equalkey :: "u8 list \<Rightarrow> u8 list \<Rightarrow> bool" where
  "hashtable_equalkey k1 k2 = (if length k1 \<noteq> length k2 then False else k1 = k2)"

text \<open>\<open>*node_pptr\<close> and the assignment to it.\<close>

definition rd_slot :: "spf_hashtable \<Rightarrow> slot \<Rightarrow> ptr option" where
  "rd_slot t sl = (case sl of
      Table_Slot i \<Rightarrow> Option.bind (table_ptr t) (\<lambda>tab. arr_at tab i)
    | Next_Of a \<Rightarrow> map_option hnext (hnodes t a))"

definition wr_hnext :: "spf_hashtable \<Rightarrow> ptr \<Rightarrow> ptr \<Rightarrow> spf_hashtable option" where
  "wr_hnext t p v = do {
     h \<leftarrow> modify (hnodes t) p (hnext_update (\<lambda>_. v));
     Some (t\<lparr>hnodes := h\<rparr>)
   }"

definition wr_slot :: "spf_hashtable \<Rightarrow> slot \<Rightarrow> ptr \<Rightarrow> spf_hashtable option" where
  "wr_slot t sl v = (case sl of
      Table_Slot i \<Rightarrow> do {
        tab \<leftarrow> table_ptr t;
        _ \<leftarrow> arr_at tab i;
        Some (t\<lparr>table_ptr := Some (tab[i := v])\<rparr>)
      }
    | Next_Of a \<Rightarrow> wr_hnext t (Some a) v)"

partial_function (option) findpos_loop :: "spf_hashtable \<Rightarrow> slot \<Rightarrow> u8 list \<Rightarrow> slot option" where
  "findpos_loop t sl k = do {
     p \<leftarrow> rd_slot t sl;
     (case p of None \<Rightarrow> Some sl
      | Some a \<Rightarrow> do {
          n \<leftarrow> hnodes t a;
          if hashtable_equalkey (key_bytes n) k then Some sl else findpos_loop t (Next_Of a) k
        })
   }"

definition hash_pos :: "spf_hashtable \<Rightarrow> u8 list \<Rightarrow> nat" where
  "hash_pos t k = unat (fnv_hash k FNV_32_INIT AND mask_size t)"

definition hashtable_findpos :: "spf_hashtable \<Rightarrow> u8 list \<Rightarrow> slot option" where
  "hashtable_findpos t k = findpos_loop t (Table_Slot (hash_pos t k)) k"

text \<open>Whether \<open>node_ptr\<close> is met from \<open>dup_ptr\<close> on.\<close>

partial_function (option) dup_loop :: "spf_hash_node store \<Rightarrow> ptr \<Rightarrow> addr \<Rightarrow> bool option" where
  "dup_loop h dup_ptr node_ptr =
    (case dup_ptr of None \<Rightarrow> Some False
     | Some a \<Rightarrow> if a = node_ptr then Some True
                 else do { n \<leftarrow> h a; dup_loop h (hnext n) node_ptr })"

definition hashtable_internalinsert :: "spf_hashtable \<Rightarrow> addr \<Rightarrow> (u32 \<times> spf_hashtable) option" where
  "hashtable_internalinsert t node_ptr = do {
     n \<leftarrow> hnodes t node_ptr;
     node_pptr \<leftarrow> hashtable_findpos t (key_bytes n);
     p \<leftarrow> rd_slot t node_pptr;
     if p \<noteq> None then do {
       dup \<leftarrow> dup_loop (hnodes t) p node_ptr;
       if dup then Some (AR_EALREADY, t)
       else do {
         t \<leftarrow> wr_hnext t (Some node_ptr) p;
         t \<leftarrow> wr_slot t node_pptr (Some node_ptr);
         Some (AR_EOK, t\<lparr>num_nodes := num_nodes t + 1\<rparr>)
       }
     }
     else do {
       t \<leftarrow> wr_slot t node_pptr (Some node_ptr);
       t \<leftarrow> wr_hnext t (Some node_ptr) None;
       Some (AR_EOK, t\<lparr>num_items := num_items t + 1, num_nodes := num_nodes t + 1\<rparr>)
     }
   }"

subsection \<open>Growing\<close>

partial_function (option) reverse_loop :: "spf_hashtable \<Rightarrow> ptr \<Rightarrow> ptr \<Rightarrow> (ptr \<times> spf_hashtable) option" where
  "reverse_loop t current_node_ptr prev_node_ptr =
    (case current_node_ptr of None \<Rightarrow> Some (prev_node_ptr, t)
     | Some a \<Rightarrow> do {
         n \<leftarrow> hnodes t a;
         t \<leftarrow> wr_hnext t (Some a) prev_node_ptr;
         reverse_loop t (hnext n) (Some a)
       })"

partial_function (option) reinsert_loop :: "spf_hashtable \<Rightarrow> ptr \<Rightarrow> spf_hashtable option" where
  "reinsert_loop t node_ptr =
    (case node_ptr of None \<Rightarrow> Some t
     | Some a \<Rightarrow> do {
         n \<leftarrow> hnodes t a;
         (_, t) \<leftarrow> hashtable_internalinsert t a;
         reinsert_loop t (hnext n)
       })"

text \<open>The loop over the heads of the old table.\<close>

fun grow_loop :: "spf_hashtable \<Rightarrow> ptr list \<Rightarrow> spf_hashtable option" where
  "grow_loop t [] = Some t"
| "grow_loop t (node_ptr # heads) =
     (case reverse_loop t node_ptr None of None \<Rightarrow> None
      | Some (p, t1) \<Rightarrow>
          (case reinsert_loop t1 p of None \<Rightarrow> None | Some t2 \<Rightarrow> grow_loop t2 heads))"

definition hashtable_grow :: "bool \<Rightarrow> spf_hashtable \<Rightarrow> (u32 \<times> spf_hashtable) option" where
  "hashtable_grow mal t =
    (let new_table_size = table_size t * resize_factor t in
     if \<not> mal then Some (AR_ENOMEMORY, t)
     else do {
       old_table \<leftarrow> table_ptr t;
       t' \<leftarrow> grow_loop (t\<lparr>table_ptr := Some (replicate (unat new_table_size) None),
                         table_size := new_table_size, mask_size := new_table_size - 1\<rparr>)
              (take (unat (table_size t)) old_table);
       Some (AR_EOK, t')
     })"

subsection \<open>The interface\<close>

type_synonym free_fun = "(addr \<Rightarrow> spf_hash_node store \<Rightarrow> spf_hash_node store) option"

definition call_free :: "free_fun \<Rightarrow> spf_hashtable \<Rightarrow> addr \<Rightarrow> spf_hashtable" where
  "call_free free_f t a = (case free_f of None \<Rightarrow> t | Some f \<Rightarrow> t\<lparr>hnodes := f a (hnodes t)\<rparr>)"

partial_function (option) free_chain_loop :: "free_fun \<Rightarrow> spf_hashtable \<Rightarrow> ptr \<Rightarrow> spf_hashtable option" where
  "free_chain_loop free_f t node =
    (case node of None \<Rightarrow> Some t
     | Some a \<Rightarrow> do {
         n \<leftarrow> hnodes t a;
         free_chain_loop free_f (call_free free_f t a) (hnext n)
       })"

fun remove_all_loop :: "free_fun \<Rightarrow> spf_hashtable \<Rightarrow> nat list \<Rightarrow> spf_hashtable option" where
  "remove_all_loop free_f t [] = Some t"
| "remove_all_loop free_f t (i # is) =
     (case rd_slot t (Table_Slot i) of None \<Rightarrow> None
      | Some p \<Rightarrow>
          (case free_chain_loop free_f t p of None \<Rightarrow> None
           | Some t1 \<Rightarrow>
               (case wr_slot t1 (Table_Slot i) None of None \<Rightarrow> None | Some t2 \<Rightarrow> remove_all_loop free_f t2 is)))"

definition spf_hashtable_remove_all :: "free_fun \<Rightarrow> spf_hashtable \<Rightarrow> (u32 \<times> spf_hashtable) option" where
  "spf_hashtable_remove_all free_f t = do {
     t \<leftarrow> remove_all_loop free_f t [0..<unat (table_size t)];
     Some (AR_EOK, t\<lparr>num_items := 0, num_nodes := 0\<rparr>)
   }"

text \<open>
  The search for one particular node among those with the key. The first result is the node
  that is handed to the free function: when the node is not met, the last one of the chain.
\<close>

partial_function (option) remove_dup_loop ::
    "spf_hashtable \<Rightarrow> addr \<Rightarrow> ptr \<Rightarrow> addr \<Rightarrow> (addr \<times> spf_hashtable) option" where
  "remove_dup_loop t free_node free_nodeDup node_ptr =
    (case free_nodeDup of None \<Rightarrow> Some (free_node, t)
     | Some d \<Rightarrow> do {
         n \<leftarrow> hnodes t d;
         if node_ptr = d then do {
           t \<leftarrow> wr_hnext t (Some free_node) (hnext n);
           Some (d, t)
         }
         else remove_dup_loop t d (hnext n) node_ptr
       })"

definition spf_hashtable_remove ::
    "free_fun \<Rightarrow> spf_hashtable \<Rightarrow> u8 list \<Rightarrow> ptr \<Rightarrow> (u32 \<times> spf_hashtable) option" where
  "spf_hashtable_remove free_f t k node_ptr = do {
     node_pptr \<leftarrow> hashtable_findpos t k;
     p \<leftarrow> rd_slot t node_pptr;
     (case p of
        None \<Rightarrow> Some (AR_EFAILED, t)
      | Some free_node \<Rightarrow> do {
          n \<leftarrow> hnodes t free_node;
          let t = t\<lparr>num_nodes := num_nodes t - 1\<rparr>;
          (free_node, t) \<leftarrow>
            (case node_ptr of
               None \<Rightarrow> do {
                 t \<leftarrow> wr_slot t node_pptr (hnext n);
                 Some (free_node, t\<lparr>num_items := num_items t - 1\<rparr>)
               }
             | Some a \<Rightarrow>
                 if a = free_node then do {
                   t \<leftarrow> wr_slot t node_pptr (hnext n);
                   Some (free_node, t\<lparr>num_items := num_items t - 1\<rparr>)
                 }
                 else remove_dup_loop t free_node (hnext n) a);
          Some (AR_EOK, call_free free_f t free_node)
        })
   }"

definition spf_hashtable_insert :: "bool \<Rightarrow> spf_hashtable \<Rightarrow> addr \<Rightarrow> (u32 \<times> spf_hashtable) option" where
  "spf_hashtable_insert mal t node_ptr = do {
     t \<leftarrow> wr_hnext t (Some node_ptr) None;
     (err, t) \<leftarrow> hashtable_internalinsert t node_ptr;
     if err = AR_EOK \<and> num_items t > table_size t * resize_factor t then do {
       (_, t) \<leftarrow> hashtable_grow mal t;
       Some (err, t)
     }
     else Some (err, t)
   }"

definition spf_hashtable_find :: "spf_hashtable \<Rightarrow> u8 list \<Rightarrow> ptr option" where
  "spf_hashtable_find t k = do {
     node_pptr \<leftarrow> hashtable_findpos t k;
     rd_slot t node_pptr
   }"

text \<open>The loop \<open>while (0 != (table_size >>= 1)) log_size++\<close>.\<close>

function log_loop :: "u32 \<Rightarrow> nat \<Rightarrow> nat" where
  "log_loop tsize log_size =
    (if drop_bit 1 tsize \<noteq> 0 then log_loop (drop_bit 1 tsize) (log_size + 1) else log_size)"
  by pat_completeness auto
termination
proof (relation "measure (\<lambda>(tsize, _). unat tsize)")
  fix tsize :: u32 and log_size :: nat
  assume "drop_bit 1 tsize \<noteq> 0"
  then have "tsize \<noteq> 0" by auto
  then have "0 < unat tsize" by (simp add: unat_gt_0)
  then show "((drop_bit 1 tsize, log_size + 1), tsize, log_size) \<in> measure (\<lambda>(tsize, _). unat tsize)"
    by (simp add: drop_bit_eq_div unat_div)
qed simp

declare log_loop.simps [simp del]

text \<open>The nodes are the clients' memory and are not touched by the initialisation.\<close>

definition spf_hashtable_init ::
    "bool \<Rightarrow> spf_hash_node store \<Rightarrow> u32 \<Rightarrow> u32 \<Rightarrow> u32 \<times> spf_hashtable" where
  "spf_hashtable_init mal h tsize rfactor =
    (let t = \<lparr>table_ptr = None, table_size = 0, mask_size = 0, resize_factor = 0, num_nodes = 0, num_items = 0, hnodes = h\<rparr>;
         tsize = push_bit (log_loop tsize 0) 1 in
     if num_items t \<noteq> 0 \<or> tsize = 0 then (AR_EUNSUPPORTED, t)
     else if 0 \<ge> rfactor then (AR_EUNSUPPORTED, t)
     else let t = t\<lparr>resize_factor := rfactor\<rparr> in
     if tsize > table_size t then
       (if mal then (AR_EOK, t\<lparr>table_ptr := Some (replicate (unat tsize) None), table_size := tsize, mask_size := tsize - 1\<rparr>)
        else (AR_ENOMEMORY, t))
     else (AR_EOK, t))"

definition spf_hashtable_deinit :: "free_fun \<Rightarrow> spf_hashtable \<Rightarrow> spf_hashtable option" where
  "spf_hashtable_deinit free_f t = do {
     (_, t) \<leftarrow> spf_hashtable_remove_all free_f t;
     Some (if table_ptr t \<noteq> None then t\<lparr>table_ptr := None\<rparr> else t)
   }"

end
