(* ===== verification/Keyed_Table.thy ===== *)
theory Keyed_Table
  imports Ar_Prelude
begin

text \<open>
  The interface of a table of client-owned nodes with keys, in which a key may have several
  nodes. The abstract state of a table is the function that gives the nodes of every key,
  newest first.
\<close>

locale keyed_table =
  fixes rel :: "'t \<Rightarrow> ('k \<Rightarrow> 'n list) \<Rightarrow> bool"
    and ready :: "'t \<Rightarrow> ('k \<Rightarrow> 'n list) \<Rightarrow> 'n \<Rightarrow> bool"
    and key :: "'t \<Rightarrow> 'n \<Rightarrow> 'k"
    and find :: "'t \<Rightarrow> 'k \<Rightarrow> 'n option option"
    and insert :: "'t \<Rightarrow> 'n \<Rightarrow> (u32 \<times> 't) option"
    and remove :: "'t \<Rightarrow> 'k \<Rightarrow> 'n option \<Rightarrow> (u32 \<times> 't) option"
  assumes find_law: "rel t m \<Longrightarrow> find t k = Some (case m k of [] \<Rightarrow> None | n # _ \<Rightarrow> Some n)"
    and insert_law: "rel t m \<Longrightarrow> ready t m n \<Longrightarrow>
      \<exists>t'. insert t n = Some (AR_EOK, t') \<and> rel t' (m(key t n := n # m (key t n)))"
    and remove_law: "rel t m \<Longrightarrow> n \<in> set (m k) \<Longrightarrow>
      \<exists>t'. remove t k (Some n) = Some (AR_EOK, t') \<and> rel t' (m(k := remove1 n (m k)))"
    and remove_first_law: "rel t m \<Longrightarrow> m k = n # ns \<Longrightarrow> \<exists>t'. remove t k None = Some (AR_EOK, t') \<and> rel t' (m(k := ns))"
    and remove_none_law: "rel t m \<Longrightarrow> m k = [] \<Longrightarrow> remove t k p = Some (AR_EFAILED, t)"
begin

text \<open>A node that has been inserted is found under its key, and no other key is affected.\<close>

lemma find_after_insert:
  assumes "rel t m" "ready t m n"
  shows "\<exists>t'. insert t n = Some (AR_EOK, t') \<and> find t' (key t n) = Some (Some n)
    \<and> (\<forall>k. k \<noteq> key t n \<longrightarrow> find t' k = find t k)"
proof -
  obtain t' where i: "insert t n = Some (AR_EOK, t')" "rel t' (m(key t n := n # m (key t n)))"
    using insert_law [OF assms] by blast
  then show ?thesis using find_law [OF i(2)] find_law [OF assms(1)] by simp
qed

text \<open>Removing what was just inserted brings back the abstract state.\<close>

lemma insert_then_remove:
  assumes "rel t m" "ready t m n" "p = None \<or> p = Some n"
  shows "\<exists>t1 t2. insert t n = Some (AR_EOK, t1) \<and> remove t1 (key t n) p = Some (AR_EOK, t2) \<and> rel t2 m"
proof -
  obtain t1 where i: "insert t n = Some (AR_EOK, t1)" "rel t1 (m(key t n := n # m (key t n)))"
    using insert_law [OF assms(1,2)] by blast
  have "\<exists>t2. remove t1 (key t n) None = Some (AR_EOK, t2) \<and> rel t2 m"
    using remove_first_law [OF i(2), of "key t n" n "m (key t n)"] by simp
  moreover have "\<exists>t2. remove t1 (key t n) (Some n) = Some (AR_EOK, t2) \<and> rel t2 m"
    using remove_law [OF i(2), of n "key t n"] by simp
  ultimately show ?thesis using i(1) assms(3) by blast
qed

text \<open>A key whose only node is removed is not found any more.\<close>

lemma find_after_remove:
  assumes "rel t m" "m k = [n]"
  shows "\<exists>t'. remove t k None = Some (AR_EOK, t') \<and> find t' k = Some None \<and> remove t' k None = Some (AR_EFAILED, t')"
proof -
  obtain t' where r: "remove t k None = Some (AR_EOK, t')" "rel t' (m(k := []))"
    using remove_first_law [of t m k n "[]"] assms by auto
  have "find t' k = Some None" using find_law [OF r(2), of k] by simp
  then show ?thesis using r remove_none_law [OF r(2), of k None] by simp
qed

text \<open>A second node of the same key hides the first until it is removed.\<close>

lemma shadowing:
  assumes "rel t m" "m k = n # n' # ns"
  shows "find t k = Some (Some n) \<and> (\<exists>t'. remove t k None = Some (AR_EOK, t') \<and> find t' k = Some (Some n'))"
proof -
  obtain t' where r: "remove t k None = Some (AR_EOK, t')" "rel t' (m(k := n' # ns))"
    using remove_first_law [OF assms] by blast
  show ?thesis using r find_law [OF r(2), of k] find_law [OF assms(1), of k] assms(2) by simp
qed

end

end
