(* ===== verification/Spf_Hashtable_Proofs.thy ===== *)
theory Spf_Hashtable_Proofs
  imports Spf_Hashtable Keyed_Table
begin

text \<open>
  Correctness of the hash table of theory \<open>Spf_Hashtable\<close>. \<open>ht_rel t cs\<close> says that the chain at
  table slot \<open>i\<close> is a well-linked list of the nodes \<open>cs i\<close>, whose keys hash to \<open>i\<close>; \<open>ht_abs t m\<close>
  abstracts from the chains and gives the nodes of every key, newest first. The operations
  refine those on \<open>m\<close>, which is the contract \<open>keyed_table\<close> interpreted here.
\<close>

subsection \<open>Chains\<close>

definition hn :: "spf_hash_node store \<Rightarrow> addr \<Rightarrow> ptr" where
  "hn h a = Option.bind (h a) hnext"

definition set_hn :: "addr \<Rightarrow> ptr \<Rightarrow> spf_hash_node store \<Rightarrow> spf_hash_node store" where
  "set_hn a v h = h(a := map_option (hnext_update (\<lambda>_. v)) (h a))"

definition key_of :: "spf_hash_node store \<Rightarrow> addr \<Rightarrow> u8 list" where
  "key_of h a = key_bytes (the (h a))"

lemma dom_set_hn [simp]: "dom (set_hn a v h) = dom h"
  by (auto simp: set_hn_def)

lemma hn_set_hn: "hn (set_hn a v h) b = (if b = a \<and> a \<in> dom h then v else hn h b)"
  by (cases "h a") (auto simp: hn_def set_hn_def)

lemma key_of_set_hn [simp]: "b \<in> dom h \<Longrightarrow> key_of (set_hn a v h) b = key_of h b"
  by (auto simp: key_of_def set_hn_def)

lemma key_set_hn_eq [simp]: "a \<in> dom h \<Longrightarrow> key_of (set_hn a v h) = key_of h"
  by (auto simp: key_of_def set_hn_def fun_eq_iff)

lemma set_hn_other: "b \<noteq> a \<Longrightarrow> set_hn a v h b = h b"
  by (simp add: set_hn_def)

lemma set_hn_commute: "a \<noteq> b \<Longrightarrow> set_hn a v (set_hn b w h) = set_hn b w (set_hn a v h)"
  by (auto simp: set_hn_def)

lemma wr_hnext_Some [mem_simps]: "a \<in> dom (hnodes t) \<Longrightarrow> wr_hnext t (Some a) v = Some (t\<lparr>hnodes := set_hn a v (hnodes t)\<rparr>)"
  by (auto simp: wr_hnext_def set_hn_def modify_def)

text \<open>A segment of a chain, from \<open>p\<close> through the nodes \<open>xs\<close> to \<open>q\<close>.\<close>

fun sseg :: "spf_hash_node store \<Rightarrow> ptr \<Rightarrow> addr list \<Rightarrow> ptr \<Rightarrow> bool" where
  "sseg h p [] q = (p = q)"
| "sseg h p (x # xs) q = (p = Some x \<and> x \<in> dom h \<and> sseg h (hn h x) xs q)"

definition fst_of :: "addr list \<Rightarrow> ptr" where
  "fst_of ys = (case ys of [] \<Rightarrow> None | y # _ \<Rightarrow> Some y)"

lemma fst_of_simps [simp]: "fst_of [] = None" "fst_of (y # ys) = Some y"
  by (simp_all add: fst_of_def)

lemma sseg_fst: "sseg h p xs None \<Longrightarrow> p = fst_of xs"
  by (cases xs) auto

lemma sseg_append: "sseg h p (xs @ ys) q \<longleftrightarrow> (\<exists>r. sseg h p xs r \<and> sseg h r ys q)"
  by (induction xs arbitrary: p) auto

lemma sseg_append_None: "sseg h p (xs @ ys) None \<longleftrightarrow> sseg h p xs (fst_of ys) \<and> sseg h (fst_of ys) ys None"
  by (auto simp: sseg_append dest: sseg_fst)

lemma sseg_cong: "(\<And>x. x \<in> set xs \<Longrightarrow> h' x = h x) \<Longrightarrow> sseg h' p xs q = sseg h p xs q"
  by (induction xs arbitrary: p) (auto simp: hn_def dom_def)

lemma sseg_dom: "sseg h p xs q \<Longrightarrow> set xs \<subseteq> dom h"
  by (induction xs arbitrary: p) auto

lemma sseg_set_other [simp]: "a \<notin> set xs \<Longrightarrow> sseg (set_hn a v h) p xs q = sseg h p xs q"
  by (rule sseg_cong) (metis set_hn_other)

lemma sseg_set_last:
  "sseg h p xs q \<Longrightarrow> xs \<noteq> [] \<Longrightarrow> distinct xs \<Longrightarrow> sseg (set_hn (last xs) v h) p xs v"
proof (induction xs arbitrary: p rule: rev_induct)
  case (snoc x xs)
  then show ?case by (auto simp: sseg_append hn_set_hn)
qed simp

text \<open>The slot behind the nodes \<open>xs\<close> of a chain that starts at the slot \<open>sl\<close>.\<close>

definition slot_after :: "slot \<Rightarrow> addr list \<Rightarrow> slot" where
  "slot_after sl xs = (if xs = [] then sl else Next_Of (last xs))"

lemma slot_after_simps [simp]: "slot_after sl [] = sl" "slot_after sl (x # xs) = slot_after (Next_Of x) xs"
  by (auto simp: slot_after_def)

lemma findpos_loop_spec:
  assumes "rd_slot t sl = Some p" "sseg (hnodes t) p (xs @ ys) None"
    and "\<forall>x\<in>set xs. key_of (hnodes t) x \<noteq> k" "ys = [] \<or> key_of (hnodes t) (hd ys) = k"
  shows "findpos_loop t sl k = Some (slot_after sl xs) \<and> rd_slot t (slot_after sl xs) = Some (fst_of ys)"
  using assms
proof (induction xs arbitrary: sl p)
  case Nil
  then show ?case
    by (cases ys) (auto simp: findpos_loop.simps hashtable_equalkey_def key_of_def)
next
  case (Cons x xs)
  then obtain n where n: "hnodes t x = Some n" and p: "p = Some x" by auto
  then have "rd_slot t (Next_Of x) = Some (hn (hnodes t) x)" by (simp add: rd_slot_def hn_def)
  with Cons.prems have "findpos_loop t (Next_Of x) k = Some (slot_after (Next_Of x) xs) \<and>
      rd_slot t (slot_after (Next_Of x) xs) = Some (fst_of ys)"
    by (intro Cons.IH) auto
  moreover have "\<not> hashtable_equalkey (key_bytes n) k"
    using Cons.prems(3) n by (simp add: key_of_def hashtable_equalkey_def)
  then have "findpos_loop t sl k = findpos_loop t (Next_Of x) k"
    using n p Cons.prems(1) by (subst findpos_loop.simps) simp
  ultimately show ?case by simp
qed

lemma dup_loop_spec: "sseg h p xs None \<Longrightarrow> dup_loop h p a = Some (a \<in> set xs)"
proof (induction xs arbitrary: p)
  case (Cons x xs)
  then show ?case by (subst dup_loop.simps) (auto simp: hn_def)
qed (simp add: dup_loop.simps)

subsection \<open>The table\<close>

text \<open>\<open>ht_rel t cs\<close>: \<open>cs i\<close> are the nodes of chain \<open>i\<close>, each in the chain its key hashes to.\<close>

definition ht_rel :: "spf_hashtable \<Rightarrow> (nat \<Rightarrow> addr list) \<Rightarrow> bool" where
  "ht_rel t cs \<longleftrightarrow> (\<exists>tab. table_ptr t = Some tab \<and> length tab = unat (table_size t) \<and> 0 < table_size t
     \<and> mask_size t = table_size t - 1
     \<and> (\<forall>i<length tab. sseg (hnodes t) (tab ! i) (cs i) None \<and> distinct (cs i)
          \<and> (\<forall>x\<in>set (cs i). hash_pos t (key_of (hnodes t) x) = i))
     \<and> (\<forall>i\<ge>length tab. cs i = []))"

text \<open>The nodes with a given key, in the order in which the table has them.\<close>

definition with_key :: "spf_hashtable \<Rightarrow> (nat \<Rightarrow> addr list) \<Rightarrow> u8 list \<Rightarrow> addr list" where
  "with_key t cs k = filter (\<lambda>x. key_of (hnodes t) x = k) (cs (hash_pos t k))"

definition all_nodes :: "(nat \<Rightarrow> addr list) \<Rightarrow> addr set" where
  "all_nodes cs = (\<Union>i. set (cs i))"

lemma hash_pos_less: "ht_rel t cs \<Longrightarrow> hash_pos t k < unat (table_size t)"
proof -
  assume "ht_rel t cs"
  then have z: "0 < table_size t" and m: "mask_size t = table_size t - 1" by (auto simp: ht_rel_def)
  have "fnv_hash k FNV_32_INIT AND mask_size t \<le> mask_size t" by (rule word_and_le1)
  moreover have "unat (mask_size t) < unat (table_size t)" using z m by (auto intro: measure_unat simp: word_gt_0)
  ultimately show ?thesis by (simp add: hash_pos_def word_le_nat_alt)
qed

lemma ht_relD:
  assumes "ht_rel t cs"
  shows "\<exists>tab. table_ptr t = Some tab \<and> length tab = unat (table_size t)
    \<and> (\<forall>i<length tab. sseg (hnodes t) (tab ! i) (cs i) None)"
  using assms by (auto simp: ht_rel_def)

lemma chain_hash: "ht_rel t cs \<Longrightarrow> x \<in> set (cs i) \<Longrightarrow> hash_pos t (key_of (hnodes t) x) = i"
  unfolding ht_rel_def by (cases "i < unat (table_size t)") auto

lemma chain_disjoint: "ht_rel t cs \<Longrightarrow> x \<in> set (cs i) \<Longrightarrow> x \<in> set (cs j) \<Longrightarrow> i = j"
  using chain_hash by blast

lemma chain_distinct: "ht_rel t cs \<Longrightarrow> distinct (cs i)"
  unfolding ht_rel_def by (cases "i < unat (table_size t)") auto

lemma chain_dom: "ht_rel t cs \<Longrightarrow> set (cs i) \<subseteq> dom (hnodes t)"
  unfolding ht_rel_def by (cases "i < unat (table_size t)") (auto dest!: sseg_dom)

lemma all_nodes_dom: "ht_rel t cs \<Longrightarrow> all_nodes cs \<subseteq> dom (hnodes t)"
  unfolding all_nodes_def using chain_dom by blast

text \<open>Where a key's first node is, or would be.\<close>

lemma findpos_rel:
  fixes k :: "u8 list"
  assumes r: "ht_rel t cs"
  defines "i \<equiv> hash_pos t k"
  shows "\<exists>xs ys. cs i = xs @ ys \<and> hashtable_findpos t k = Some (slot_after (Table_Slot i) xs)
    \<and> rd_slot t (slot_after (Table_Slot i) xs) = Some (fst_of ys)
    \<and> (\<forall>x\<in>set xs. key_of (hnodes t) x \<noteq> k) \<and> (ys = [] \<or> key_of (hnodes t) (hd ys) = k)"
proof -
  obtain tab where tab: "table_ptr t = Some tab" "length tab = unat (table_size t)"
    "\<forall>i<length tab. sseg (hnodes t) (tab ! i) (cs i) None" using ht_relD [OF r] by blast
  have i: "i < length tab" using hash_pos_less [OF r] tab(2) by (simp add: i_def)
  let ?P = "\<lambda>x. key_of (hnodes t) x \<noteq> k"
  let ?xs = "takeWhile ?P (cs i)" and ?ys = "dropWhile ?P (cs i)"
  have "rd_slot t (Table_Slot i) = Some (tab ! i)" using tab i by (simp add: rd_slot_def mem_simps)
  moreover have "sseg (hnodes t) (tab ! i) (?xs @ ?ys) None" using tab(3) i by simp
  moreover have "?ys = [] \<or> key_of (hnodes t) (hd ?ys) = k" using hd_dropWhile [of ?P "cs i"] by auto
  moreover have "\<forall>x\<in>set ?xs. ?P x" by (auto dest: set_takeWhileD)
  ultimately have "findpos_loop t (Table_Slot i) k = Some (slot_after (Table_Slot i) ?xs)
      \<and> rd_slot t (slot_after (Table_Slot i) ?xs) = Some (fst_of ?ys)"
    by (intro findpos_loop_spec)
  then show ?thesis
    using \<open>?ys = [] \<or> key_of (hnodes t) (hd ?ys) = k\<close> \<open>\<forall>x\<in>set ?xs. ?P x\<close>
    unfolding hashtable_findpos_def i_def [symmetric] by (intro exI [of _ ?xs] exI [of _ ?ys]) simp
qed

lemma find_rel:
  assumes r: "ht_rel t cs"
  shows "spf_hashtable_find t k = Some (fst_of (with_key t cs k))"
proof -
  obtain xs ys where s: "cs (hash_pos t k) = xs @ ys" "hashtable_findpos t k = Some (slot_after (Table_Slot (hash_pos t k)) xs)"
    "rd_slot t (slot_after (Table_Slot (hash_pos t k)) xs) = Some (fst_of ys)"
    "\<forall>x\<in>set xs. key_of (hnodes t) x \<noteq> k" "ys = [] \<or> key_of (hnodes t) (hd ys) = k"
    using findpos_rel [OF r] by blast
  have "fst_of (with_key t cs k) = fst_of ys"
    using s(4,5) by (cases ys) (auto simp: with_key_def s(1) filter_empty_conv)
  then show ?thesis using s by (simp add: spf_hashtable_find_def)
qed

subsection \<open>Inserting\<close>

text \<open>The table part of two tables is the same but for the counters.\<close>

definition same_cfg :: "spf_hashtable \<Rightarrow> spf_hashtable \<Rightarrow> bool" where
  "same_cfg t t' \<longleftrightarrow> table_size t' = table_size t \<and> mask_size t' = mask_size t \<and> resize_factor t' = resize_factor t
     \<and> dom (hnodes t') = dom (hnodes t) \<and> (\<forall>a\<in>dom (hnodes t). key_of (hnodes t') a = key_of (hnodes t) a)"

lemma same_cfg_pos: "same_cfg t t' \<Longrightarrow> hash_pos t' k = hash_pos t k"
  by (simp add: same_cfg_def hash_pos_def)

lemma same_cfg_refl [simp]: "same_cfg t t"
  by (simp add: same_cfg_def)

lemma same_cfg_trans: "same_cfg t t' \<Longrightarrow> same_cfg t' t'' \<Longrightarrow> same_cfg t t''"
  by (simp add: same_cfg_def)

text \<open>Replacing one chain of the table.\<close>

lemma ht_rel_upd:
  assumes r: "ht_rel t cs" and c: "same_cfg t t'" and i: "i < unat (table_size t)"
    and tab: "table_ptr t = Some tab" and tab': "table_ptr t' = Some tab'" "length tab' = length tab"
      "\<And>j. j < length tab \<Longrightarrow> j \<noteq> i \<Longrightarrow> tab' ! j = tab ! j"
    and nodes: "\<And>j x. j \<noteq> i \<Longrightarrow> x \<in> set (cs j) \<Longrightarrow> hnodes t' x = hnodes t x"
    and new: "sseg (hnodes t') (tab' ! i) ys None" "distinct ys" "\<And>x. x \<in> set ys \<Longrightarrow> hash_pos t (key_of (hnodes t) x) = i"
    and sub: "set ys \<subseteq> dom (hnodes t)"
  shows "ht_rel t' (cs(i := ys))"
proof -
  have len: "length tab = unat (table_size t)" using r tab by (auto simp: ht_rel_def)
  have key: "x \<in> dom (hnodes t) \<Longrightarrow> key_of (hnodes t') x = key_of (hnodes t) x" for x
    using c by (auto simp: same_cfg_def)
  have "sseg (hnodes t') (tab' ! j) ((cs(i := ys)) j) None \<and> distinct ((cs(i := ys)) j)
        \<and> (\<forall>x\<in>set ((cs(i := ys)) j). hash_pos t' (key_of (hnodes t') x) = j)" if j: "j < length tab'" for j
  proof (cases "j = i")
    case True
    have "\<forall>x\<in>set ys. hash_pos t' (key_of (hnodes t') x) = i"
      using new(3) key sub same_cfg_pos [OF c] by (auto simp: subset_iff)
    then show ?thesis using True new by simp
  next
    case False
    have old: "sseg (hnodes t) (tab ! j) (cs j) None" using r tab j tab'(2) by (auto simp: ht_rel_def)
    have "sseg (hnodes t') (tab' ! j) (cs j) None"
      using sseg_cong [of "cs j" "hnodes t'" "hnodes t"] nodes [OF False] old tab'(2,3) j False by simp
    moreover have "\<forall>x\<in>set (cs j). hash_pos t' (key_of (hnodes t') x) = j"
      using chain_hash [OF r] key chain_dom [OF r, of j] same_cfg_pos [OF c] by (auto simp: subset_iff)
    ultimately show ?thesis using False chain_distinct [OF r] by simp
  qed
  then show ?thesis using r c tab tab' i len by (auto simp: ht_rel_def same_cfg_def)
qed

lemma with_key_upd:
  assumes r: "ht_rel t cs" and c: "same_cfg t t'" and sub: "set ys \<subseteq> dom (hnodes t)"
    and hash: "\<And>x. x \<in> set ys \<Longrightarrow> hash_pos t (key_of (hnodes t) x) = i"
  shows "with_key t' (cs(i := ys)) k = (if hash_pos t k = i then filter (\<lambda>x. key_of (hnodes t) x = k) ys else with_key t cs k)"
proof -
  have "filter (\<lambda>x. key_of (hnodes t') x = k) zs = filter (\<lambda>x. key_of (hnodes t) x = k) zs" if "set zs \<subseteq> dom (hnodes t)" for zs
    using that c by (intro filter_cong refl) (metis same_cfg_def subsetD)
  then show ?thesis using sub chain_dom [OF r] same_cfg_pos [OF c] by (auto simp: with_key_def)
qed

text \<open>
  The effect of inserting a node that is in no chain: its key's nodes are the new one
  followed by those there were, the nodes of other keys and all other memory stay.
\<close>

definition inserted :: "spf_hashtable \<Rightarrow> (nat \<Rightarrow> addr list) \<Rightarrow> addr \<Rightarrow> spf_hashtable \<Rightarrow> (nat \<Rightarrow> addr list) \<Rightarrow> bool" where
  "inserted t cs a t' cs' \<longleftrightarrow> ht_rel t' cs' \<and> same_cfg t t' \<and> all_nodes cs' = insert a (all_nodes cs)
     \<and> (\<forall>k. with_key t' cs' k = (if k = key_of (hnodes t) a then a # with_key t cs k else with_key t cs k))
     \<and> (\<forall>x. x \<notin> insert a (all_nodes cs) \<longrightarrow> hnodes t' x = hnodes t x)
     \<and> num_nodes t' = num_nodes t + 1
     \<and> num_items t' = num_items t + (if with_key t cs (key_of (hnodes t) a) = [] then 1 else 0)"

text \<open>The pointer updates at the place found, in a chain \<open>xs @ ys\<close> at table slot \<open>i\<close>.\<close>

definition linked :: "spf_hashtable \<Rightarrow> nat \<Rightarrow> addr list \<Rightarrow> addr list \<Rightarrow> addr \<Rightarrow> ptr list \<Rightarrow> spf_hashtable" where
  "linked t i xs ys a tab =
    (if xs = [] then t\<lparr>table_ptr := Some (tab[i := Some a]), hnodes := set_hn a (fst_of ys) (hnodes t)\<rparr>
     else t\<lparr>hnodes := set_hn (last xs) (Some a) (set_hn a (fst_of ys) (hnodes t))\<rparr>)"

lemma linked_sseg:
  assumes "sseg (hnodes t) (tab ! i) (xs @ ys) None" "distinct (xs @ ys)" "a \<notin> set (xs @ ys)" "a \<in> dom (hnodes t)" "i < length tab"
    and "table_ptr t = Some tab"
  shows "\<exists>tab'. table_ptr (linked t i xs ys a tab) = Some tab' \<and> length tab' = length tab \<and> (\<forall>j. j \<noteq> i \<longrightarrow> tab' ! j = tab ! j)
    \<and> sseg (hnodes (linked t i xs ys a tab)) (tab' ! i) (xs @ a # ys) None"
proof (cases "xs = []")
  case True
  then show ?thesis using assms sseg_fst [of "hnodes t" "tab ! i" ys]
    by (auto simp: linked_def hn_set_hn)
next
  case False
  let ?h = "set_hn a (fst_of ys) (hnodes t)"
  have s: "sseg ?h (tab ! i) xs (fst_of ys)" "sseg ?h (fst_of ys) ys None"
    using assms by (auto simp: sseg_append_None)
  have "last xs \<in> set xs" using False by simp
  then have l: "last xs \<noteq> a" "last xs \<notin> set ys" using assms(2,3) by auto
  have "sseg (set_hn (last xs) (Some a) ?h) (tab ! i) xs (Some a)" using sseg_set_last [OF s(1) False] assms(2) by simp
  moreover have "sseg (set_hn (last xs) (Some a) ?h) (Some a) (a # ys) None"
    using s(2) l assms(4) by (auto simp: hn_set_hn)
  ultimately show ?thesis using False assms(6) by (auto simp: linked_def sseg_append)
qed

lemma internalinsert_eq:
  assumes r: "ht_rel t cs" and a: "a \<in> dom (hnodes t)" "a \<notin> all_nodes cs" and tab: "table_ptr t = Some tab"
  shows "\<exists>xs ys. cs (hash_pos t (key_of (hnodes t) a)) = xs @ ys \<and> (\<forall>x\<in>set xs. key_of (hnodes t) x \<noteq> key_of (hnodes t) a)
    \<and> (ys = [] \<or> key_of (hnodes t) (hd ys) = key_of (hnodes t) a)
    \<and> hashtable_internalinsert t a = Some (AR_EOK, (linked t (hash_pos t (key_of (hnodes t) a)) xs ys a tab)
         \<lparr>num_items := num_items t + (if ys = [] then 1 else 0), num_nodes := num_nodes t + 1\<rparr>)"
proof -
  let ?k = "key_of (hnodes t) a" and ?i = "hash_pos t (key_of (hnodes t) a)"
  let ?sl = "Table_Slot ?i"
  obtain xs ys where s: "cs ?i = xs @ ys" "hashtable_findpos t ?k = Some (slot_after ?sl xs)"
    "rd_slot t (slot_after ?sl xs) = Some (fst_of ys)" "\<forall>x\<in>set xs. key_of (hnodes t) x \<noteq> ?k" "ys = [] \<or> key_of (hnodes t) (hd ys) = ?k"
    using findpos_rel [OF r, of ?k] by blast
  obtain n where n: "hnodes t a = Some n" using a(1) by blast
  then have nk: "key_bytes n = ?k" by (simp add: key_of_def)
  have T: "length tab = unat (table_size t)" "\<forall>i<length tab. sseg (hnodes t) (tab ! i) (cs i) None"
    using ht_relD [OF r] tab by auto
  have i: "?i < length tab" using hash_pos_less [OF r, of ?k] T(1) by simp
  have seg: "sseg (hnodes t) (tab ! ?i) (xs @ ys) None" using T(2) i s(1) by metis
  have "a \<notin> set (cs ?i)" using a(2) unfolding all_nodes_def by blast
  then have an: "a \<notin> set xs" "a \<notin> set ys" using s(1) by simp_all
  have lx: "last xs \<in> dom (hnodes t)" "last xs \<noteq> a" if "xs \<noteq> []"
    using last_in_set [OF that] sseg_dom [OF seg] an by auto
  have dup: "dup_loop (hnodes t) (fst_of ys) a = Some False"
    using dup_loop_spec [of "hnodes t" "fst_of ys" ys a] seg an(2) by (simp add: sseg_append_None)
  have sl: "wr_slot t' (slot_after ?sl xs) v = Some (if xs = [] then t'\<lparr>table_ptr := Some (tab[?i := v])\<rparr>
      else t'\<lparr>hnodes := set_hn (last xs) v (hnodes t')\<rparr>)" if "table_ptr t' = Some tab" "dom (hnodes t') = dom (hnodes t)" for t' v
    using that i lx(1) by (simp add: wr_slot_def slot_after_def mem_simps)
  have "hashtable_internalinsert t a = Some (AR_EOK, (linked t ?i xs ys a tab)
         \<lparr>num_items := num_items t + (if ys = [] then 1 else 0), num_nodes := num_nodes t + 1\<rparr>)"
  proof (cases ys)
    case Nil
    have e: "hashtable_internalinsert t a = wr_slot t (slot_after ?sl xs) (Some a) \<bind> (\<lambda>t. wr_hnext t (Some a) None \<bind>
        (\<lambda>t. Some (AR_EOK, t\<lparr>num_items := num_items t + 1, num_nodes := num_nodes t + 1\<rparr>)))"
      using s(2,3) n nk Nil by (simp add: hashtable_internalinsert_def)
    have c: "xs \<noteq> [] \<Longrightarrow> set_hn a None (set_hn (last xs) (Some a) (hnodes t)) = set_hn (last xs) (Some a) (set_hn a None (hnodes t))"
      using lx(2) set_hn_commute by metis
    show ?thesis unfolding e sl [OF tab refl] using Nil a(1) c
      by (simp add: mem_simps linked_def)
  next
    case (Cons y ys')
    have "hashtable_internalinsert t a = wr_slot (t\<lparr>hnodes := set_hn a (fst_of ys) (hnodes t)\<rparr>) (slot_after ?sl xs) (Some a) \<bind>
        (\<lambda>t. Some (AR_EOK, t\<lparr>num_nodes := num_nodes t + 1\<rparr>))"
      using s(2,3) n nk Cons dup a(1) by (simp add: hashtable_internalinsert_def mem_simps)
    then show ?thesis using sl [of "t\<lparr>hnodes := set_hn a (fst_of ys) (hnodes t)\<rparr>" "Some a"] tab Cons
      by (simp add: linked_def)
  qed
  with s(1,4,5) show ?thesis by (intro exI [of _ xs] exI [of _ ys]) simp
qed

lemma linked_cfg:
  assumes "a \<in> dom (hnodes t)" "xs \<noteq> [] \<Longrightarrow> last xs \<in> dom (hnodes t)"
  shows "same_cfg t (linked t i xs ys a tab)" "num_nodes (linked t i xs ys a tab) = num_nodes t"
    "num_items (linked t i xs ys a tab) = num_items t"
    "x \<noteq> a \<Longrightarrow> x \<notin> set xs \<Longrightarrow> hnodes (linked t i xs ys a tab) x = hnodes t x"
proof -
  show "same_cfg t (linked t i xs ys a tab)" using assms by (simp add: same_cfg_def linked_def)
  show "num_nodes (linked t i xs ys a tab) = num_nodes t" "num_items (linked t i xs ys a tab) = num_items t"
    by (simp_all add: linked_def)
  show "x \<noteq> a \<Longrightarrow> x \<notin> set xs \<Longrightarrow> hnodes (linked t i xs ys a tab) x = hnodes t x"
    using last_in_set [of xs] by (cases "xs = []") (auto simp: linked_def set_hn_def)
qed

lemma all_nodes_upd: "all_nodes (cs(i := ys)) = (\<Union>j\<in>-{i}. set (cs j)) \<union> set ys"
  by (auto simp: all_nodes_def split: if_splits)

lemma ht_rel_count [simp]: "ht_rel (t\<lparr>num_items := u\<rparr>) cs = ht_rel t cs" "ht_rel (t\<lparr>num_nodes := u\<rparr>) cs = ht_rel t cs"
  by (simp_all add: ht_rel_def hash_pos_def)

lemma with_key_count [simp]: "with_key (t\<lparr>num_items := u\<rparr>) cs k = with_key t cs k" "with_key (t\<lparr>num_nodes := u\<rparr>) cs k = with_key t cs k"
  by (simp_all add: with_key_def hash_pos_def)

lemma same_cfg_count [simp]: "same_cfg t (t'\<lparr>num_items := u\<rparr>) = same_cfg t t'" "same_cfg t (t'\<lparr>num_nodes := u\<rparr>) = same_cfg t t'"
  by (simp_all add: same_cfg_def)

lemma internalinsert_inserted:
  assumes r: "ht_rel t cs" and a: "a \<in> dom (hnodes t)" "a \<notin> all_nodes cs"
  shows "\<exists>t' cs'. hashtable_internalinsert t a = Some (AR_EOK, t') \<and> inserted t cs a t' cs'"
proof -
  let ?k = "key_of (hnodes t) a"
  let ?i = "hash_pos t ?k"
  obtain tab where tab: "table_ptr t = Some tab" "length tab = unat (table_size t)"
    "\<forall>i<length tab. sseg (hnodes t) (tab ! i) (cs i) None" using ht_relD [OF r] by blast
  obtain xs ys where s: "cs ?i = xs @ ys" "\<forall>x\<in>set xs. key_of (hnodes t) x \<noteq> ?k" "ys = [] \<or> key_of (hnodes t) (hd ys) = ?k"
    and ins: "hashtable_internalinsert t a = Some (AR_EOK, (linked t ?i xs ys a tab)
         \<lparr>num_items := num_items t + (if ys = [] then 1 else 0), num_nodes := num_nodes t + 1\<rparr>)"
    using internalinsert_eq [OF r a tab(1)] by blast
  let ?t = "linked t ?i xs ys a tab" and ?cs = "cs(?i := xs @ a # ys)"
  have i: "?i < unat (table_size t)" "?i < length tab" using hash_pos_less [OF r, of ?k] tab(2) by simp_all
  have seg: "sseg (hnodes t) (tab ! ?i) (xs @ ys) None" using tab(3) i(2) s(1) by metis
  have d: "distinct (xs @ ys)" using chain_distinct [OF r, of ?i] s(1) by simp
  have an: "a \<notin> set (cs j)" for j using a(2) unfolding all_nodes_def by blast
  have an': "a \<notin> set (xs @ ys)" using an [of ?i] s(1) by simp
  have xd: "set (xs @ ys) \<subseteq> dom (hnodes t)" using chain_dom [OF r, of ?i] s(1) by simp
  have lx: "xs \<noteq> [] \<Longrightarrow> last xs \<in> dom (hnodes t)" using xd last_in_set [of xs] by (auto simp: subset_iff)
  note cfg = linked_cfg [OF a(1) lx, where i = ?i and ys = ys and tab = tab]
  obtain tab' where tab': "table_ptr ?t = Some tab'" "length tab' = length tab" "\<forall>j. j \<noteq> ?i \<longrightarrow> tab' ! j = tab ! j"
    "sseg (hnodes ?t) (tab' ! ?i) (xs @ a # ys) None"
    using linked_sseg [OF seg d an' a(1) i(2) tab(1)] by blast
  have hash: "hash_pos t (key_of (hnodes t) x) = ?i" if "x \<in> set (xs @ a # ys)" for x
    using that chain_hash [OF r, of x ?i] s(1) by auto
  have sub: "set (xs @ a # ys) \<subseteq> dom (hnodes t)" using xd a(1) by auto
  have keep: "hnodes ?t x = hnodes t x" if "x \<notin> insert a (set (cs ?i))" for x using that cfg(4) s(1) by simp
  have "ht_rel ?t ?cs"
  proof (rule ht_rel_upd [OF r cfg(1) i(1) tab(1) tab'(1,2) _ _ tab'(4) _ hash sub])
    fix j x assume "j \<noteq> ?i" "x \<in> set (cs j)"
    then have "x \<notin> set (cs ?i)" "x \<noteq> a" using an chain_disjoint [OF r] by auto
    then show "hnodes ?t x = hnodes t x" by (intro keep) simp
  qed (use d an' tab'(3) in auto)
  moreover have wk: "with_key ?t ?cs k = (if k = ?k then a # with_key t cs k else with_key t cs k)" for k
  proof -
    have "with_key ?t ?cs k = (if hash_pos t k = ?i then filter (\<lambda>x. key_of (hnodes t) x = k) (xs @ a # ys) else with_key t cs k)"
      by (rule with_key_upd [OF r cfg(1) sub hash])
    moreover have "filter (\<lambda>x. key_of (hnodes t) x = ?k) xs = []" using s(2) by (simp add: filter_empty_conv)
    ultimately show ?thesis using s(1) by (auto simp: with_key_def)
  qed
  moreover have "all_nodes ?cs = insert a (all_nodes cs)"
  proof -
    have "all_nodes cs = all_nodes (cs(?i := xs @ ys))" using s(1) by (metis fun_upd_triv)
    then show ?thesis by (auto simp: all_nodes_upd)
  qed
  moreover have "with_key t cs ?k = [] \<longleftrightarrow> ys = []"
    using s by (cases ys) (auto simp: with_key_def filter_empty_conv)
  ultimately have "inserted t cs a (?t\<lparr>num_items := num_items t + (if ys = [] then 1 else 0), num_nodes := num_nodes t + 1\<rparr>) ?cs"
    unfolding inserted_def using cfg(1-3) keep by (auto simp: all_nodes_def)
  then show ?thesis using ins by blast
qed

subsection \<open>Growing\<close>

text \<open>Only the links of the nodes \<open>A\<close> differ.\<close>

definition relinked :: "addr set \<Rightarrow> spf_hashtable \<Rightarrow> spf_hashtable \<Rightarrow> bool" where
  "relinked A t t' \<longleftrightarrow> same_cfg t t' \<and> table_ptr t' = table_ptr t \<and> num_nodes t' = num_nodes t
    \<and> (\<forall>x. x \<notin> A \<longrightarrow> hnodes t' x = hnodes t x)"

lemma relinked_refl [simp]: "relinked A t t"
  by (simp add: relinked_def)

lemma relinked_set_hn: "a \<in> A \<Longrightarrow> a \<in> dom (hnodes t) \<Longrightarrow> relinked A t (t\<lparr>hnodes := set_hn a v (hnodes t)\<rparr>)"
  by (simp add: relinked_def same_cfg_def) (metis set_hn_other)

lemma relinked_trans: "relinked A t t' \<Longrightarrow> relinked B t' t'' \<Longrightarrow> relinked (A \<union> B) t t''"
  unfolding relinked_def using same_cfg_trans by auto

lemma reverse_loop_spec:
  assumes "sseg (hnodes t) p xs None" "sseg (hnodes t) q zs None" "distinct (xs @ zs)"
  shows "\<exists>t'. reverse_loop t p q = Some (fst_of (rev xs @ zs), t') \<and> sseg (hnodes t') (fst_of (rev xs @ zs)) (rev xs @ zs) None
    \<and> relinked (set xs) t t'"
  using assms
proof (induction xs arbitrary: t p q zs)
  case Nil
  then show ?case using sseg_fst [of "hnodes t" q zs] by (auto simp: reverse_loop.simps)
next
  case (Cons x xs)
  let ?t = "t\<lparr>hnodes := set_hn x q (hnodes t)\<rparr>"
  have x: "p = Some x" "x \<in> dom (hnodes t)" "sseg (hnodes t) (hn (hnodes t) x) xs None" using Cons.prems(1) by auto
  have d: "x \<notin> set xs" "x \<notin> set zs" "distinct (xs @ x # zs)" using Cons.prems(3) by auto
  have "sseg (hnodes ?t) (hn (hnodes t) x) xs None" "sseg (hnodes ?t) (Some x) (x # zs) None"
    using x Cons.prems(2) d by (auto simp: hn_set_hn)
  then obtain t' where r: "reverse_loop ?t (hn (hnodes t) x) (Some x) = Some (fst_of (rev xs @ x # zs), t')"
    "sseg (hnodes t') (fst_of (rev xs @ x # zs)) (rev xs @ x # zs) None" "relinked (set xs) ?t t'"
    using Cons.IH [of ?t _ "Some x" "x # zs"] d(3) by blast
  have "reverse_loop t p q = reverse_loop ?t (hn (hnodes t) x) (Some x)"
    using x by (subst reverse_loop.simps) (auto simp: mem_simps hn_def)
  moreover have "relinked (set (x # xs)) t t'"
    using relinked_trans [OF relinked_set_hn [of x "{x}" t q] r(3)] x(2) by simp
  ultimately show ?case using r by simp
qed

text \<open>Inserting the nodes of a chain one by one puts them in front, in reverse.\<close>

definition reinserted :: "spf_hashtable \<Rightarrow> (nat \<Rightarrow> addr list) \<Rightarrow> addr list \<Rightarrow> spf_hashtable \<Rightarrow> (nat \<Rightarrow> addr list) \<Rightarrow> bool" where
  "reinserted t cs xs t' cs' \<longleftrightarrow> ht_rel t' cs' \<and> same_cfg t t' \<and> all_nodes cs' = all_nodes cs \<union> set xs
     \<and> (\<forall>k. with_key t' cs' k = filter (\<lambda>x. key_of (hnodes t) x = k) xs @ with_key t cs k)
     \<and> (\<forall>x. x \<notin> all_nodes cs \<union> set xs \<longrightarrow> hnodes t' x = hnodes t x)
     \<and> num_nodes t' = num_nodes t + of_nat (length xs)"

lemma reinserted_step:
  assumes i: "inserted t cs a t1 cs1" and r: "reinserted t1 cs1 xs t2 cs2"
    and sub: "set xs \<subseteq> dom (hnodes t)"
  shows "reinserted t cs (xs @ [a]) t2 cs2"
proof -
  have key: "key_of (hnodes t1) x = key_of (hnodes t) x" if "x \<in> set xs" for x
    using i sub that by (auto simp: inserted_def same_cfg_def)
  have "filter (\<lambda>x. key_of (hnodes t1) x = k) xs = filter (\<lambda>x. key_of (hnodes t) x = k) xs" for k
    by (rule filter_cong) (simp_all add: key)
  then have "with_key t2 cs2 k = filter (\<lambda>x. key_of (hnodes t) x = k) (xs @ [a]) @ with_key t cs k" for k
    using i r by (simp add: inserted_def reinserted_def)
  moreover have "same_cfg t t2" using i r same_cfg_trans by (auto simp: inserted_def reinserted_def)
  moreover have "all_nodes cs2 = all_nodes cs \<union> set (xs @ [a])" using i r by (auto simp: inserted_def reinserted_def)
  moreover have "hnodes t2 x = hnodes t x" if "x \<notin> all_nodes cs \<union> set (xs @ [a])" for x
    using i r that by (simp add: inserted_def reinserted_def)
  ultimately show ?thesis using i r unfolding reinserted_def inserted_def by simp
qed

lemma reinsert_loop_spec:
  assumes "ht_rel t cs" "sseg (hnodes t) p xs None" "distinct xs" "set xs \<inter> all_nodes cs = {}"
  shows "\<exists>t' cs'. reinsert_loop t p = Some t' \<and> reinserted t cs (rev xs) t' cs'"
  using assms
proof (induction xs arbitrary: t cs p)
  case Nil
  then show ?case by (auto simp: reinsert_loop.simps reinserted_def)
next
  case (Cons x xs)
  have x: "p = Some x" "x \<in> dom (hnodes t)" "sseg (hnodes t) (hn (hnodes t) x) xs None" using Cons.prems(2) by auto
  have xn: "x \<notin> all_nodes cs" using Cons.prems(4) by auto
  obtain t1 cs1 where i: "hashtable_internalinsert t x = Some (AR_EOK, t1)" "inserted t cs x t1 cs1"
    using internalinsert_inserted [OF Cons.prems(1) x(2) xn] by blast
  have same: "hnodes t1 y = hnodes t y" if "y \<in> set xs" for y
    using i(2) Cons.prems(3,4) that by (auto simp: inserted_def)
  have seg1: "sseg (hnodes t1) (hn (hnodes t) x) xs None" using sseg_cong [of xs "hnodes t1" "hnodes t"] same x(3) by simp
  have disj: "set xs \<inter> all_nodes cs1 = {}" using i(2) Cons.prems(3,4) by (auto simp: inserted_def)
  obtain t2 cs2 where r: "reinsert_loop t1 (hn (hnodes t) x) = Some t2" "reinserted t1 cs1 (rev xs) t2 cs2"
    using Cons.IH [OF _ seg1 _ disj] i(2) Cons.prems(3) by (auto simp: inserted_def)
  have "reinsert_loop t p = reinsert_loop t1 (hn (hnodes t) x)"
    using x i(1) by (subst reinsert_loop.simps) (auto simp: hn_def)
  moreover have "reinserted t cs (rev xs @ [x]) t2 cs2"
    using reinserted_step [OF i(2) r(2)] sseg_dom [OF x(3)] by simp
  ultimately show ?case using r(1) by auto
qed

lemma concat_bound: "z \<in> set cl \<Longrightarrow> x \<in> set z \<Longrightarrow> x \<in> set (concat cl)"
  by auto

text \<open>Moving the chains \<open>cl\<close> of the old table one after the other.\<close>

definition moved :: "spf_hashtable \<Rightarrow> (nat \<Rightarrow> addr list) \<Rightarrow> addr list list \<Rightarrow> spf_hashtable \<Rightarrow> (nat \<Rightarrow> addr list) \<Rightarrow> bool" where
  "moved t cs cl t' cs' \<longleftrightarrow> ht_rel t' cs' \<and> same_cfg t t' \<and> all_nodes cs' = all_nodes cs \<union> set (concat cl)
     \<and> (\<forall>k. with_key t' cs' k = concat (rev (map (filter (\<lambda>x. key_of (hnodes t) x = k)) cl)) @ with_key t cs k)
     \<and> num_nodes t' = num_nodes t + of_nat (length (concat cl))"

lemma ht_rel_relinked:
  assumes "ht_rel t cs" "relinked A t t'" "A \<inter> all_nodes cs = {}"
  shows "ht_rel t' cs" "with_key t' cs k = with_key t cs k"
proof -
  have c: "same_cfg t t'" "table_ptr t' = table_ptr t" "\<And>x. x \<notin> A \<Longrightarrow> hnodes t' x = hnodes t x"
    using assms(2) by (auto simp: relinked_def)
  have same: "hnodes t' x = hnodes t x" if "x \<in> set (cs i)" for x i
    using c(3) that assms(3) by (auto simp: all_nodes_def)
  have k: "key_of (hnodes t') x = key_of (hnodes t) x" if "x \<in> set (cs i)" for x i using same [OF that] by (simp add: key_of_def)
  have seg: "sseg (hnodes t') p (cs i) None = sseg (hnodes t) p (cs i) None" for p i using same by (intro sseg_cong) auto
  have p: "hash_pos t' k = hash_pos t k" for k using same_cfg_pos [OF c(1)] .
  show "ht_rel t' cs" using assms(1) c(1,2) k by (auto simp: ht_rel_def seg p same_cfg_def)
  show "with_key t' cs k = with_key t cs k" unfolding with_key_def p by (rule filter_cong) (auto simp: k)
qed

lemma grow_loop_spec:
  assumes "ht_rel t cs" "list_all2 (\<lambda>p c. sseg (hnodes t) p c None) heads cl" "distinct (concat cl)"
    "set (concat cl) \<inter> all_nodes cs = {}"
  shows "\<exists>t' cs'. grow_loop t heads = Some t' \<and> moved t cs cl t' cs'"
  using assms
proof (induction heads arbitrary: t cs cl)
  case Nil
  then show ?case by (auto simp: moved_def)
next
  case (Cons p heads)
  then obtain c cl' where cl: "cl = c # cl'" "sseg (hnodes t) p c None" "list_all2 (\<lambda>p c. sseg (hnodes t) p c None) heads cl'"
    by (auto simp: list_all2_Cons1)
  have d: "distinct c" "distinct (concat cl')" "set c \<inter> set (concat cl') = {}" "set c \<inter> all_nodes cs = {}"
    "set (concat cl') \<inter> all_nodes cs = {}" using Cons.prems(3,4) cl(1) by auto
  obtain t1 where t1: "reverse_loop t p None = Some (fst_of (rev c), t1)" "sseg (hnodes t1) (fst_of (rev c)) (rev c) None"
    "relinked (set c) t t1" using reverse_loop_spec [OF cl(2), of None "[]"] d(1) by auto
  note rel1 = ht_rel_relinked [OF Cons.prems(1) t1(3) d(4)] and c1 = t1(3) [unfolded relinked_def]
  obtain t2 cs2 where t2: "reinsert_loop t1 (fst_of (rev c)) = Some t2" "reinserted t1 cs c t2 cs2"
    using reinsert_loop_spec [OF rel1(1) t1(2)] d by auto
  have same: "hnodes t2 x = hnodes t x" if "x \<in> set (concat cl')" for x
    using t2(2) c1 that d(3,5) unfolding reinserted_def by (metis Un_iff disjoint_iff)
  have l2: "list_all2 (\<lambda>p c. sseg (hnodes t2) p c None) heads cl'"
  proof (rule list.rel_mono_strong [OF cl(3)])
    fix q z assume "z \<in> set cl'" "sseg (hnodes t) q z None"
    then show "sseg (hnodes t2) q z None" using sseg_cong [of z "hnodes t2" "hnodes t"] same by auto
  qed
  have disj: "set (concat cl') \<inter> all_nodes cs2 = {}" using t2(2) d(3,5) unfolding reinserted_def by auto
  obtain t3 cs3 where t3: "grow_loop t2 heads = Some t3" "moved t2 cs2 cl' t3 cs3"
    using Cons.IH [OF _ l2 d(2) disj] t2(2) by (auto simp: reinserted_def)
  have c2: "same_cfg t t2" using c1 t2(2) same_cfg_trans by (auto simp: reinserted_def)
  have dom: "set c \<subseteq> dom (hnodes t)" using sseg_dom [OF cl(2)] .
  have "moved t cs cl t3 cs3"
  proof -
    have k1: "filter (\<lambda>x. key_of (hnodes t1) x = k) c = filter (\<lambda>x. key_of (hnodes t) x = k) c" for k
      using c1 dom by (intro filter_cong refl) (metis same_cfg_def subsetD)
    have k2: "map (filter (\<lambda>x. key_of (hnodes t2) x = k)) cl' = map (filter (\<lambda>x. key_of (hnodes t) x = k)) cl'" for k
      using same by (intro map_cong refl filter_cong) (metis concat_bound key_of_def)
    have "same_cfg t t3" using c2 t3(2) same_cfg_trans by (auto simp: moved_def)
    moreover have "with_key t3 cs3 k = concat (rev (map (filter (\<lambda>x. key_of (hnodes t) x = k)) cl)) @ with_key t cs k" for k
      using t3(2) t2(2) rel1(2) by (simp add: moved_def reinserted_def k1 k2 cl(1))
    ultimately show ?thesis using t3(2) t2(2) c1 unfolding moved_def reinserted_def cl(1) by auto
  qed
  then show ?case using t1(1) t2(1) t3(1) by auto
qed

lemma concat_single:
  assumes "i < n" "\<And>j. j < n \<Longrightarrow> j \<noteq> i \<Longrightarrow> f j = []"
  shows "concat (map f [0..<n]) = f i"
proof -
  have "[0..<n] = [0..<i] @ i # [Suc i..<n]" using assms(1) by (metis le0 less_imp_le_nat upt_add_eq_append upt_conv_Cons le_add_diff_inverse)
  moreover have "concat (map f [0..<i]) = []" "concat (map f [Suc i..<n]) = []" using assms by auto
  ultimately show ?thesis by (simp only: map_append concat_append list.map concat.simps append_Nil append_Nil2)
qed

lemma rev_concat_single:
  assumes "i < n" "\<And>j. j < n \<Longrightarrow> j \<noteq> i \<Longrightarrow> f j = []"
  shows "concat (rev (map f [0..<n])) = f i"
proof -
  have "rev (concat (rev (map f [0..<n]))) = concat (map (\<lambda>j. rev (f j)) [0..<n])" by (simp add: rev_concat rev_map comp_def)
  also have "\<dots> = rev (f i)" using assms by (intro concat_single) auto
  finally show ?thesis by simp
qed

lemma distinct_chains: "ht_rel t cs \<Longrightarrow> distinct (concat (map cs [0..<n]))"
proof (induction n)
  case (Suc n)
  have "set (concat (map cs [0..<n])) \<inter> set (cs n) = {}" using chain_disjoint [OF Suc.prems] by fastforce
  then show ?case using Suc chain_distinct [OF Suc.prems, of n] by simp
qed simp

lemma grow_rel:
  assumes r: "ht_rel t cs" and z: "table_size t * resize_factor t \<noteq> 0"
  shows "\<exists>t' cs'. hashtable_grow True t = Some (AR_EOK, t') \<and> ht_rel t' cs' \<and> all_nodes cs' = all_nodes cs
    \<and> (\<forall>k. with_key t' cs' k = with_key t cs k) \<and> dom (hnodes t') = dom (hnodes t)
    \<and> (\<forall>a\<in>dom (hnodes t). key_of (hnodes t') a = key_of (hnodes t) a)
    \<and> num_nodes t' = num_nodes t + of_nat (length (concat (map cs [0..<unat (table_size t)])))
    \<and> table_size t' = table_size t * resize_factor t"
proof -
  let ?n = "table_size t * resize_factor t" and ?N = "unat (table_size t)"
  let ?t = "t\<lparr>table_ptr := Some (replicate (unat ?n) None), table_size := ?n, mask_size := ?n - 1\<rparr>" and ?e = "\<lambda>_. [] :: addr list"
  obtain tab where tab: "table_ptr t = Some tab" "length tab = ?N" "\<forall>i<length tab. sseg (hnodes t) (tab ! i) (cs i) None"
    and out: "\<forall>i\<ge>length tab. cs i = []" using r by (auto simp: ht_rel_def)
  have empty: "ht_rel ?t ?e" using z by (simp add: ht_rel_def word_gt_0)
  have heads: "list_all2 (\<lambda>p c. sseg (hnodes ?t) p c None) tab (map cs [0..<?N])"
    using tab by (simp add: list_all2_conv_all_nth)
  have "set (concat (map cs [0..<?N])) \<inter> all_nodes ?e = {}" by (simp add: all_nodes_def)
  then obtain t' cs' where g: "grow_loop ?t tab = Some t'" "moved ?t ?e (map cs [0..<?N]) t' cs'"
    using grow_loop_spec [OF empty heads distinct_chains [OF r]] by auto
  have "set (concat (map cs [0..<?N])) = all_nodes cs"
  proof -
    have "i < ?N" if "x \<in> set (cs i)" for x i using out tab(2) that by (cases "i < ?N") auto
    then show ?thesis by (fastforce simp: all_nodes_def)
  qed
  then have all: "all_nodes cs' = all_nodes cs" using g(2) by (auto simp: moved_def all_nodes_def)
  have wk: "with_key t' cs' k = with_key t cs k" for k
  proof -
    have "with_key t' cs' k = concat (rev (map (\<lambda>i. filter (\<lambda>x. key_of (hnodes t) x = k) (cs i)) [0..<?N]))"
      using g(2) by (simp add: moved_def with_key_def comp_def)
    also have "\<dots> = filter (\<lambda>x. key_of (hnodes t) x = k) (cs (hash_pos t k))"
      using hash_pos_less [OF r, of k] chain_hash [OF r] by (intro rev_concat_single) (auto simp: filter_empty_conv)
    finally show ?thesis by (simp add: with_key_def)
  qed
  have "hashtable_grow True t = Some (AR_EOK, t')" using tab g(1) by (simp add: hashtable_grow_def)
  then show ?thesis using g(2) all wk by (intro exI [of _ t'] exI [of _ cs']) (simp add: moved_def same_cfg_def)
qed

text \<open>Inserting, with growing when the table is full and memory is available.\<close>

lemma insert_rel:
  assumes r: "ht_rel t cs" and a: "a \<in> dom (hnodes t)" "a \<notin> all_nodes cs" and z: "table_size t * resize_factor t \<noteq> 0"
  shows "\<exists>t' cs'. spf_hashtable_insert mal t a = Some (AR_EOK, t') \<and> ht_rel t' cs' \<and> all_nodes cs' = insert a (all_nodes cs)
    \<and> (\<forall>k. with_key t' cs' k = (if k = key_of (hnodes t) a then a # with_key t cs k else with_key t cs k))
    \<and> dom (hnodes t') = dom (hnodes t) \<and> (\<forall>x\<in>dom (hnodes t). key_of (hnodes t') x = key_of (hnodes t) x)"
proof -
  let ?t = "t\<lparr>hnodes := set_hn a None (hnodes t)\<rparr>"
  have rl: "relinked {a} t ?t" using a(1) by (intro relinked_set_hn) auto
  note rel = ht_rel_relinked [OF r rl] and key = key_set_hn_eq [OF a(1), of None]
  obtain t1 cs1 where i: "hashtable_internalinsert ?t a = Some (AR_EOK, t1)" "inserted ?t cs a t1 cs1"
    using internalinsert_inserted [OF rel(1), of a] a by auto
  have i': "ht_rel t1 cs1" "all_nodes cs1 = insert a (all_nodes cs)" "dom (hnodes t1) = dom (hnodes t)"
    "\<forall>x\<in>dom (hnodes t). key_of (hnodes t1) x = key_of (hnodes t) x"
    "\<And>k. with_key t1 cs1 k = (if k = key_of (hnodes t) a then a # with_key t cs k else with_key t cs k)"
    "table_size t1 = table_size t" "resize_factor t1 = resize_factor t"
    using i(2) rel(2) a(2) key by (auto simp: inserted_def same_cfg_def)
  have w: "wr_hnext t (Some a) None = Some ?t" using a(1) by (simp add: mem_simps)
  show ?thesis
  proof (cases "num_items t1 > table_size t1 * resize_factor t1 \<and> mal")
    case True
    obtain t2 cs2 where g: "hashtable_grow True t1 = Some (AR_EOK, t2)" "ht_rel t2 cs2" "all_nodes cs2 = all_nodes cs1"
      "\<forall>k. with_key t2 cs2 k = with_key t1 cs1 k" "dom (hnodes t2) = dom (hnodes t1)"
      "\<forall>a\<in>dom (hnodes t1). key_of (hnodes t2) a = key_of (hnodes t1) a"
      using grow_rel [OF i'(1)] z i'(6,7) by auto
    have "spf_hashtable_insert mal t a = Some (AR_EOK, t2)" using w i(1) g(1) True by (simp add: spf_hashtable_insert_def)
    then show ?thesis using g i' by (intro exI [of _ t2] exI [of _ cs2]) simp
  next
    case False
    have "spf_hashtable_insert mal t a = Some (AR_EOK, t1)"
      using w i(1) False by (auto simp: spf_hashtable_insert_def hashtable_grow_def)
    then show ?thesis using i' by (intro exI [of _ t1] exI [of _ cs1]) simp
  qed
qed

subsection \<open>Removing\<close>

text \<open>What the table relies on of the client's free function: it touches only the node it is given.\<close>

definition free_ok :: "free_fun \<Rightarrow> bool" where
  "free_ok free_f \<longleftrightarrow> (\<forall>f a h b. free_f = Some f \<longrightarrow> b \<noteq> a \<longrightarrow> f a h b = h b)"

lemma call_free_other: "free_ok free_f \<Longrightarrow> b \<noteq> a \<Longrightarrow> hnodes (call_free free_f t a) b = hnodes t b"
  by (auto simp: call_free_def free_ok_def split: option.split)

lemma call_free_cfg [simp]: "table_ptr (call_free f t a) = table_ptr t" "table_size (call_free f t a) = table_size t"
  "mask_size (call_free f t a) = mask_size t" "num_nodes (call_free f t a) = num_nodes t"
  by (auto simp: call_free_def split: option.split)

text \<open>Taking the node \<open>a\<close> out of its chain.\<close>

lemma unlink_rel:
  assumes r: "ht_rel t cs" and c: "cs i = xs @ a # ys" and tab: "table_ptr t = Some tab"
    and t': "t' = (if xs = [] then t\<lparr>table_ptr := Some (tab[i := fst_of ys])\<rparr> else t\<lparr>hnodes := set_hn (last xs) (fst_of ys) (hnodes t)\<rparr>)"
  shows "ht_rel t' (cs(i := xs @ ys))" "same_cfg t t'"
    "with_key t' (cs(i := xs @ ys)) k = (if k = key_of (hnodes t) a then remove1 a (with_key t cs k) else with_key t cs k)"
proof -
  have T: "length tab = unat (table_size t)" "\<forall>i<length tab. sseg (hnodes t) (tab ! i) (cs i) None"
    using ht_relD [OF r] tab by auto
  have i: "i < length tab" using c r tab by (cases "i < length tab") (auto simp: ht_rel_def)
  have seg: "sseg (hnodes t) (tab ! i) (xs @ a # ys) None" using T(2) i c by metis
  have d: "distinct (xs @ a # ys)" using chain_distinct [OF r, of i] c by simp
  have dom: "set (xs @ a # ys) \<subseteq> dom (hnodes t)" using chain_dom [OF r, of i] c by simp
  have lx: "last xs \<in> set xs" "last xs \<in> dom (hnodes t)" if "xs \<noteq> []" using last_in_set [OF that] dom by auto
  show cfg: "same_cfg t t'" using lx by (auto simp: t' same_cfg_def)
  have s: "sseg (hnodes t) (tab ! i) xs (Some a)" "sseg (hnodes t) (hn (hnodes t) a) ys None"
    using seg by (auto simp: sseg_append)
  have fy: "hn (hnodes t) a = fst_of ys" using sseg_fst [OF s(2)] .
  define tab' where "tab' = (if xs = [] then tab[i := fst_of ys] else tab)"
  have tab': "table_ptr t' = Some tab'" "length tab' = length tab" "\<And>j. j < length tab \<Longrightarrow> j \<noteq> i \<Longrightarrow> tab' ! j = tab ! j"
    using tab by (auto simp: t' tab'_def)
  have new: "sseg (hnodes t') (tab' ! i) (xs @ ys) None"
  proof (cases "xs = []")
    case True
    then show ?thesis using s(2) fy i by (simp add: t' tab'_def)
  next
    case False
    have "last xs \<notin> set ys" using lx(1) [OF False] d by auto
    then show ?thesis using False sseg_set_last [OF s(1) False] d s(2) fy by (auto simp: t' tab'_def sseg_append)
  qed
  have hash: "hash_pos t (key_of (hnodes t) x) = i" if "x \<in> set (xs @ ys)" for x
    using that chain_hash [OF r, of x i] c by auto
  have sub: "set (xs @ ys) \<subseteq> dom (hnodes t)" using dom by auto
  have keep: "hnodes t' x = hnodes t x" if "j \<noteq> i" "x \<in> set (cs j)" for j x
  proof -
    have "x \<notin> set xs" using that chain_disjoint [OF r, of x j i] c by auto
    then have "xs \<noteq> [] \<Longrightarrow> x \<noteq> last xs" using lx(1) by blast
    then show ?thesis by (simp add: t' set_hn_other)
  qed
  show "ht_rel t' (cs(i := xs @ ys))"
    by (rule ht_rel_upd [OF r cfg _ tab tab' keep new _ hash sub]) (use i T(1) d in auto)
  have "with_key t' (cs(i := xs @ ys)) k = (if hash_pos t k = i then filter (\<lambda>x. key_of (hnodes t) x = k) (xs @ ys) else with_key t cs k)"
    by (rule with_key_upd [OF r cfg sub hash])
  moreover have "hash_pos t (key_of (hnodes t) a) = i" using chain_hash [OF r, of a i] c by simp
  ultimately show "with_key t' (cs(i := xs @ ys)) k = (if k = key_of (hnodes t) a then remove1 a (with_key t cs k) else with_key t cs k)"
    using c d by (auto simp: with_key_def remove1_append)
qed

lemma ht_rel_free:
  assumes r: "ht_rel t cs" and f: "free_ok free_f" and a: "a \<notin> all_nodes cs"
  shows "ht_rel (call_free free_f t a) cs" "with_key (call_free free_f t a) cs k = with_key t cs k"
proof -
  have same: "hnodes (call_free free_f t a) x = hnodes t x" if "x \<in> set (cs i)" for x i
    using that a by (intro call_free_other [OF f]) (auto simp: all_nodes_def)
  then have k: "key_of (hnodes (call_free free_f t a)) x = key_of (hnodes t) x" if "x \<in> set (cs i)" for x i
    using that by (metis key_of_def)
  have seg: "sseg (hnodes (call_free free_f t a)) p (cs i) None = sseg (hnodes t) p (cs i) None" for p i
    using same by (intro sseg_cong) auto
  have p: "hash_pos (call_free free_f t a) k = hash_pos t k" for k by (simp add: hash_pos_def)
  show "ht_rel (call_free free_f t a) cs" using r k by (auto simp: ht_rel_def seg p)
  show "with_key (call_free free_f t a) cs k = with_key t cs k" unfolding with_key_def p by (rule filter_cong) (auto simp: k)
qed

lemma all_nodes_unlink: "ht_rel t cs \<Longrightarrow> cs i = xs @ a # ys \<Longrightarrow> all_nodes (cs(i := xs @ ys)) = all_nodes cs - {a}"
proof -
  assume r: "ht_rel t cs" and c: "cs i = xs @ a # ys"
  have "a \<notin> set (cs j)" if "j \<noteq> i" for j using chain_disjoint [OF r, of a i j] c that by auto
  moreover have "a \<notin> set xs" "a \<notin> set ys" using chain_distinct [OF r, of i] c by auto
  moreover have "all_nodes cs = all_nodes (cs(i := xs @ a # ys))" using c by (metis fun_upd_triv)
  ultimately show ?thesis by (auto simp: all_nodes_upd)
qed

lemma wr_slot_after:
  assumes "table_ptr t = Some tab" "i < length tab" "xs \<noteq> [] \<Longrightarrow> last xs \<in> dom (hnodes t)"
  shows "wr_slot t (slot_after (Table_Slot i) xs) v = Some (if xs = [] then t\<lparr>table_ptr := Some (tab[i := v])\<rparr>
      else t\<lparr>hnodes := set_hn (last xs) v (hnodes t)\<rparr>)"
  using assms by (simp add: wr_slot_def slot_after_def mem_simps)

lemma remove_dup_loop_found:
  assumes "sseg (hnodes t) p (us @ a # vs) None" "f \<in> dom (hnodes t)" "distinct (f # us @ a # vs)"
  shows "remove_dup_loop t f p a = Some (a, t\<lparr>hnodes := set_hn (last (f # us)) (fst_of vs) (hnodes t)\<rparr>)"
  using assms
proof (induction us arbitrary: f p)
  case Nil
  then have "p = Some a" "a \<in> dom (hnodes t)" "hn (hnodes t) a = fst_of vs" by (auto dest: sseg_fst)
  then show ?case using Nil.prems(2) by (subst remove_dup_loop.simps) (auto simp: mem_simps hn_def)
next
  case (Cons u us)
  then have u: "p = Some u" "u \<in> dom (hnodes t)" "sseg (hnodes t) (hn (hnodes t) u) (us @ a # vs) None" "a \<noteq> u" by auto
  then have "remove_dup_loop t u (hn (hnodes t) u) a = Some (a, t\<lparr>hnodes := set_hn (last (u # us)) (fst_of vs) (hnodes t)\<rparr>)"
    using Cons.prems(3) by (intro Cons.IH) auto
  then show ?case using u by (subst remove_dup_loop.simps) (auto simp: hn_def)
qed

lemma remove_dup_loop_absent:
  assumes "sseg (hnodes t) p us None" "a \<notin> set us"
  shows "remove_dup_loop t f p a = Some (last (f # us), t)"
  using assms
proof (induction us arbitrary: f p)
  case Nil
  then show ?case by (simp add: remove_dup_loop.simps)
next
  case (Cons u us)
  then have "p = Some u" "u \<in> dom (hnodes t)" "remove_dup_loop t u (hn (hnodes t) u) a = Some (last (u # us), t)" "a \<noteq> u" by auto
  then show ?case by (subst remove_dup_loop.simps) (auto simp: hn_def)
qed

text \<open>Removing the node \<open>a\<close>, which the table has under the key \<open>k\<close>.\<close>

definition removed_node :: "spf_hashtable \<Rightarrow> (nat \<Rightarrow> addr list) \<Rightarrow> addr \<Rightarrow> u8 list \<Rightarrow> spf_hashtable \<Rightarrow> (nat \<Rightarrow> addr list) \<Rightarrow> bool" where
  "removed_node t cs a k t' cs' \<longleftrightarrow> ht_rel t' cs' \<and> all_nodes cs' = all_nodes cs - {a}
    \<and> (\<forall>k'. with_key t' cs' k' = (if k' = k then remove1 a (with_key t cs k') else with_key t cs k'))
    \<and> table_size t' = table_size t \<and> resize_factor t' = resize_factor t \<and> num_nodes t' = num_nodes t - 1"

lemma removed_node_free:
  assumes r: "ht_rel t cs" and c: "cs i = xs @ a # ys" and tab: "table_ptr t = Some tab" and f: "free_ok free_f"
    and u: "u = (if xs = [] then t\<lparr>table_ptr := Some (tab[i := fst_of ys])\<rparr> else t\<lparr>hnodes := set_hn (last xs) (fst_of ys) (hnodes t)\<rparr>)"
    and t': "t' = call_free free_f (u\<lparr>num_items := ni, num_nodes := num_nodes t - 1\<rparr>) a"
  shows "removed_node t cs a (key_of (hnodes t) a) t' (cs(i := xs @ ys))"
proof -
  note un = unlink_rel [OF r c tab u]
  let ?u = "u\<lparr>num_items := ni, num_nodes := num_nodes t - 1\<rparr>" and ?cs = "cs(i := xs @ ys)"
  have all: "all_nodes ?cs = all_nodes cs - {a}" by (rule all_nodes_unlink [OF r c])
  have ru: "ht_rel ?u ?cs" using un(1) by simp
  have "ht_rel t' ?cs" "\<And>k. with_key t' ?cs k = with_key ?u ?cs k"
    using ht_rel_free [OF ru f, of a] all by (auto simp: t')
  moreover have "resize_factor (call_free free_f v a) = resize_factor v" for v by (auto simp: call_free_def split: option.split)
  ultimately show ?thesis using un(2,3) all by (auto simp: removed_node_def t' same_cfg_def)
qed

lemma ht_upd_order:
  "t\<lparr>num_nodes := x, table_ptr := y, num_items := z\<rparr> = t\<lparr>table_ptr := y, num_items := z, num_nodes := x\<rparr>"
  "t\<lparr>num_nodes := x, hnodes := h, num_items := z\<rparr> = t\<lparr>hnodes := h, num_items := z, num_nodes := x\<rparr>"
  for t :: spf_hashtable
  by simp_all

lemma remove_first_rel:
  assumes r: "ht_rel t cs" and f: "free_ok free_f" and k: "with_key t cs k = a # rest" and p: "p = None \<or> p = Some a"
  shows "\<exists>t' cs'. spf_hashtable_remove free_f t k p = Some (AR_EOK, t') \<and> removed_node t cs a k t' cs'"
proof -
  let ?i = "hash_pos t k"
  obtain tab where tab: "table_ptr t = Some tab" "length tab = unat (table_size t)"
    "\<forall>i<length tab. sseg (hnodes t) (tab ! i) (cs i) None" using ht_relD [OF r] by blast
  obtain xs ys where s: "cs ?i = xs @ ys" "hashtable_findpos t k = Some (slot_after (Table_Slot ?i) xs)"
    "rd_slot t (slot_after (Table_Slot ?i) xs) = Some (fst_of ys)"
    "\<forall>x\<in>set xs. key_of (hnodes t) x \<noteq> k" "ys = [] \<or> key_of (hnodes t) (hd ys) = k"
    using findpos_rel [OF r] by blast
  have i: "?i < length tab" using hash_pos_less [OF r, of k] tab(2) by simp
  have "filter (\<lambda>x. key_of (hnodes t) x = k) xs = []" using s(4) by (simp add: filter_empty_conv)
  then have "filter (\<lambda>x. key_of (hnodes t) x = k) ys = a # rest" using k s(1) by (simp add: with_key_def)
  then obtain ys' where ys: "ys = a # ys'" "key_of (hnodes t) a = k" using s(5) by (cases ys) auto
  have c: "cs ?i = xs @ a # ys'" using s(1) ys by simp
  have seg: "sseg (hnodes t) (tab ! ?i) (xs @ a # ys') None" using tab(3) i c by metis
  have dom: "a \<in> dom (hnodes t)" "hn (hnodes t) a = fst_of ys'" using seg by (auto simp: sseg_append dest: sseg_fst)
  then obtain n where n: "hnodes t a = Some n" "hnext n = fst_of ys'" by (auto simp: hn_def)
  have lx: "xs \<noteq> [] \<Longrightarrow> last xs \<in> dom (hnodes t)" using last_in_set [of xs] sseg_dom [OF seg] by (auto simp: subset_iff)
  let ?u = "if xs = [] then t\<lparr>table_ptr := Some (tab[?i := fst_of ys'])\<rparr> else t\<lparr>hnodes := set_hn (last xs) (fst_of ys') (hnodes t)\<rparr>"
  let ?t = "call_free free_f (?u\<lparr>num_items := num_items t - 1, num_nodes := num_nodes t - 1\<rparr>) a"
  have "spf_hashtable_remove free_f t k p = Some (AR_EOK, ?t)"
    using s(2,3) ys(1) n p wr_slot_after [of "t\<lparr>num_nodes := num_nodes t - 1\<rparr>" tab ?i xs "fst_of ys'"] tab(1) i lx
    by (auto simp: spf_hashtable_remove_def Let_def ht_upd_order)
  moreover have "removed_node t cs a k ?t (cs(?i := xs @ ys'))"
    using removed_node_free [OF r c tab(1) f refl refl] ys(2) by simp
  ultimately show ?thesis by blast
qed

lemma remove_dup_rel:
  assumes r: "ht_rel t cs" and f: "free_ok free_f" and k: "with_key t cs k = b # rest" and a: "a \<in> set rest"
  shows "\<exists>t' cs'. spf_hashtable_remove free_f t k (Some a) = Some (AR_EOK, t') \<and> removed_node t cs a k t' cs'"
proof -
  let ?i = "hash_pos t k"
  obtain tab where tab: "table_ptr t = Some tab" "length tab = unat (table_size t)"
    "\<forall>i<length tab. sseg (hnodes t) (tab ! i) (cs i) None" using ht_relD [OF r] by blast
  obtain xs ys where s: "cs ?i = xs @ ys" "hashtable_findpos t k = Some (slot_after (Table_Slot ?i) xs)"
    "rd_slot t (slot_after (Table_Slot ?i) xs) = Some (fst_of ys)"
    "\<forall>x\<in>set xs. key_of (hnodes t) x \<noteq> k" "ys = [] \<or> key_of (hnodes t) (hd ys) = k"
    using findpos_rel [OF r] by blast
  have i: "?i < length tab" using hash_pos_less [OF r, of k] tab(2) by simp
  have "filter (\<lambda>x. key_of (hnodes t) x = k) xs = []" using s(4) by (simp add: filter_empty_conv)
  then have fl: "filter (\<lambda>x. key_of (hnodes t) x = k) ys = b # rest" using k s(1) by (simp add: with_key_def)
  then obtain ys' where ys: "ys = b # ys'" "filter (\<lambda>x. key_of (hnodes t) x = k) ys' = rest" using s(5) by (cases ys) auto
  have "a \<in> set ys'" "key_of (hnodes t) a = k" using a unfolding ys(2) [symmetric] by auto
  then obtain us vs where uv: "ys' = us @ a # vs" and ak: "key_of (hnodes t) a = k" using split_list by metis
  have c: "cs ?i = (xs @ b # us) @ a # vs" using s(1) ys uv by simp
  have seg: "sseg (hnodes t) (tab ! ?i) (xs @ b # us @ a # vs) None" using tab(3) i c by (metis append.assoc append_Cons)
  have d: "distinct (b # us @ a # vs)" using chain_distinct [OF r, of ?i] c by auto
  have b: "b \<in> dom (hnodes t)" "sseg (hnodes t) (hn (hnodes t) b) (us @ a # vs) None" using seg by (auto simp: sseg_append)
  then obtain n where n: "hnodes t b = Some n" "hnext n = hn (hnodes t) b" by (auto simp: hn_def)
  let ?u = "t\<lparr>hnodes := set_hn (last (xs @ b # us)) (fst_of vs) (hnodes t)\<rparr>"
  let ?t = "call_free free_f (?u\<lparr>num_items := num_items t, num_nodes := num_nodes t - 1\<rparr>) a"
  have "remove_dup_loop (t\<lparr>num_nodes := num_nodes t - 1\<rparr>) b (hn (hnodes t) b) a
      = Some (a, ?u\<lparr>num_items := num_items t, num_nodes := num_nodes t - 1\<rparr>)"
    using remove_dup_loop_found [of "t\<lparr>num_nodes := num_nodes t - 1\<rparr>" "hn (hnodes t) b" us a vs b] b d by simp
  moreover have "a \<noteq> b" using d by auto
  ultimately have "spf_hashtable_remove free_f t k (Some a) = Some (AR_EOK, ?t)"
    using s(2,3) ys(1) n by (simp add: spf_hashtable_remove_def Let_def)
  moreover have "removed_node t cs a k ?t (cs(?i := (xs @ b # us) @ vs))"
    using removed_node_free [OF r c tab(1) f refl refl, where ni = "num_items t"] ak by simp
  ultimately show ?thesis by blast
qed

lemma remove_none_rel:
  assumes r: "ht_rel t cs" and k: "with_key t cs k = []"
  shows "spf_hashtable_remove free_f t k p = Some (AR_EFAILED, t)"
proof -
  let ?i = "hash_pos t k"
  obtain xs ys where s: "cs ?i = xs @ ys" "hashtable_findpos t k = Some (slot_after (Table_Slot ?i) xs)"
    "rd_slot t (slot_after (Table_Slot ?i) xs) = Some (fst_of ys)"
    "\<forall>x\<in>set xs. key_of (hnodes t) x \<noteq> k" "ys = [] \<or> key_of (hnodes t) (hd ys) = k"
    using findpos_rel [OF r] by blast
  have "ys = []" using k s(1,5) by (cases ys) (auto simp: with_key_def)
  then show ?thesis using s by (simp add: spf_hashtable_remove_def)
qed

lemma chain_nodes_with_key: "ht_rel t cs \<Longrightarrow> all_nodes cs = (\<Union>k. set (with_key t cs k))"
proof -
  assume r: "ht_rel t cs"
  have "x \<in> set (with_key t cs (key_of (hnodes t) x))" if "x \<in> set (cs i)" for x i
    using that chain_hash [OF r that] by (simp add: with_key_def)
  then show ?thesis by (auto simp: all_nodes_def with_key_def)
qed

subsection \<open>The table as a map from keys to lists of nodes\<close>

definition ht_abs :: "spf_hashtable \<Rightarrow> (u8 list \<Rightarrow> addr list) \<Rightarrow> bool" where
  "ht_abs t m \<longleftrightarrow> (\<exists>cs. ht_rel t cs \<and> m = with_key t cs)"

text \<open>A node that may be inserted: the client's memory, in no chain, and a table that can still grow.\<close>

definition ht_ready :: "spf_hashtable \<Rightarrow> (u8 list \<Rightarrow> addr list) \<Rightarrow> addr \<Rightarrow> bool" where
  "ht_ready t m a \<longleftrightarrow> a \<in> dom (hnodes t) \<and> (\<forall>k. a \<notin> set (m k)) \<and> table_size t * resize_factor t \<noteq> 0"

lemma fst_of_case: "fst_of xs = (case xs of [] \<Rightarrow> None | n # _ \<Rightarrow> Some n)"
  by (simp add: fst_of_def)

lemma abs_find: "ht_abs t m \<Longrightarrow> spf_hashtable_find t k = Some (fst_of (m k))"
  by (auto simp: ht_abs_def find_rel)

lemma abs_insert:
  assumes "ht_abs t m" "ht_ready t m a"
  shows "\<exists>t'. spf_hashtable_insert mal t a = Some (AR_EOK, t') \<and> ht_abs t' (m(key_of (hnodes t) a := a # m (key_of (hnodes t) a)))
    \<and> dom (hnodes t') = dom (hnodes t) \<and> (\<forall>x\<in>dom (hnodes t). key_of (hnodes t') x = key_of (hnodes t) x)"
proof -
  obtain cs where cs: "ht_rel t cs" "m = with_key t cs" using assms(1) by (auto simp: ht_abs_def)
  have a: "a \<in> dom (hnodes t)" "a \<notin> all_nodes cs" "table_size t * resize_factor t \<noteq> 0"
    using assms(2) cs chain_nodes_with_key [OF cs(1)] by (auto simp: ht_ready_def)
  obtain t' cs' where "spf_hashtable_insert mal t a = Some (AR_EOK, t')" "ht_rel t' cs'"
    "\<forall>k. with_key t' cs' k = (if k = key_of (hnodes t) a then a # with_key t cs k else with_key t cs k)"
    "dom (hnodes t') = dom (hnodes t)" "\<forall>x\<in>dom (hnodes t). key_of (hnodes t') x = key_of (hnodes t) x"
    using insert_rel [OF cs(1) a] by blast
  moreover from this(3) have "with_key t' cs' = m(key_of (hnodes t) a := a # m (key_of (hnodes t) a))"
    by (auto simp: cs(2) fun_eq_iff)
  ultimately show ?thesis unfolding ht_abs_def by metis
qed

lemma abs_removed: "removed_node t cs a k t' cs' \<Longrightarrow> ht_abs t' ((with_key t cs)(k := remove1 a (with_key t cs k)))"
  unfolding ht_abs_def by (intro exI [of _ cs']) (auto simp: removed_node_def fun_eq_iff)

lemma with_key_distinct: "ht_rel t cs \<Longrightarrow> distinct (with_key t cs k)"
  by (simp add: with_key_def chain_distinct)

lemma abs_remove:
  assumes "ht_abs t m" "free_ok f" "a \<in> set (m k)"
  shows "\<exists>t'. spf_hashtable_remove f t k (Some a) = Some (AR_EOK, t') \<and> ht_abs t' (m(k := remove1 a (m k)))
    \<and> num_nodes t' = num_nodes t - 1"
proof -
  obtain cs where cs: "ht_rel t cs" "m = with_key t cs" using assms(1) by (auto simp: ht_abs_def)
  obtain b rest where b: "with_key t cs k = b # rest" using assms(3) cs(2) by (cases "with_key t cs k") auto
  have "\<exists>t' cs'. spf_hashtable_remove f t k (Some a) = Some (AR_EOK, t') \<and> removed_node t cs a k t' cs'"
  proof (cases "a = b")
    case True
    then show ?thesis using remove_first_rel [OF cs(1) assms(2), of k a rest "Some a"] b by simp
  next
    case False
    then show ?thesis using remove_dup_rel [OF cs(1) assms(2) b, of a] assms(3) cs(2) b by simp
  qed
  then show ?thesis using abs_removed cs(2) by (metis removed_node_def)
qed

lemma abs_remove_first:
  assumes "ht_abs t m" "free_ok f" "m k = a # rest"
  shows "\<exists>t'. spf_hashtable_remove f t k None = Some (AR_EOK, t') \<and> ht_abs t' (m(k := rest)) \<and> num_nodes t' = num_nodes t - 1"
proof -
  obtain cs where cs: "ht_rel t cs" "m = with_key t cs" using assms(1) by (auto simp: ht_abs_def)
  obtain t' cs' where t': "spf_hashtable_remove f t k None = Some (AR_EOK, t')" "removed_node t cs a k t' cs'"
    using remove_first_rel [OF cs(1) assms(2), of k a rest None] assms(3) cs(2) by auto
  then show ?thesis using abs_removed [OF t'(2)] assms(3) cs(2) by (auto simp: removed_node_def)
qed

lemma abs_remove_none: "ht_abs t m \<Longrightarrow> m k = [] \<Longrightarrow> spf_hashtable_remove f t k p = Some (AR_EFAILED, t)"
  by (auto simp: ht_abs_def remove_none_rel)

text \<open>The clients of the framework pass either no free function or one that releases the node.\<close>

definition release_node :: "addr \<Rightarrow> spf_hash_node store \<Rightarrow> spf_hash_node store" where
  "release_node a h = h(a := None)"

lemma free_ok_None [simp]: "free_ok None"
  by (simp add: free_ok_def)

lemma free_ok_release [simp]: "free_ok (Some release_node)"
  by (simp add: free_ok_def release_node_def)

interpretation hashtable: keyed_table ht_abs ht_ready "\<lambda>t a. key_of (hnodes t) a"
    spf_hashtable_find "spf_hashtable_insert mal" "spf_hashtable_remove (Some release_node)" for mal
proof
  show "spf_hashtable_find t k = Some (case m k of [] \<Rightarrow> None | n # _ \<Rightarrow> Some n)" if "ht_abs t m" for t m k
    using abs_find [OF that] by (simp add: fst_of_case)
  show "\<exists>t'. spf_hashtable_insert mal t n = Some (AR_EOK, t') \<and>
      ht_abs t' (m(key_of (hnodes t) n := n # m (key_of (hnodes t) n)))" if "ht_abs t m" "ht_ready t m n" for t m n
    using abs_insert [OF that] by blast
  show "\<exists>t'. spf_hashtable_remove (Some release_node) t k (Some n) = Some (AR_EOK, t') \<and> ht_abs t' (m(k := remove1 n (m k)))"
    if "ht_abs t m" "n \<in> set (m k)" for t m n k
    using abs_remove [OF that(1) free_ok_release that(2)] by blast
  show "\<exists>t'. spf_hashtable_remove (Some release_node) t k None = Some (AR_EOK, t') \<and> ht_abs t' (m(k := ns))"
    if "ht_abs t m" "m k = n # ns" for t m n k ns
    using abs_remove_first [OF that(1) free_ok_release that(2)] by blast
  show "spf_hashtable_remove (Some release_node) t k p = Some (AR_EFAILED, t)" if "ht_abs t m" "m k = []" for t m k p
    using that by (rule abs_remove_none)
qed

subsection \<open>Initialisation\<close>

lemma log_loop_spec: "w \<noteq> 0 \<Longrightarrow> \<exists>l. log_loop w n = n + l \<and> 2 ^ l \<le> unat w \<and> unat w < 2 ^ (l + 1)"
proof (induction w n rule: log_loop.induct)
  case (1 w n)
  have half: "unat (drop_bit 1 w) = unat w div 2" by (simp add: drop_bit_eq_div unat_div)
  show ?case
  proof (cases "drop_bit 1 w = 0")
    case True
    then have "unat w div 2 = 0" using half by simp
    moreover have "0 < unat w" using 1(2) by (simp add: unat_gt_0)
    ultimately show ?thesis using True by (subst log_loop.simps) auto
  next
    case False
    then obtain l where l: "log_loop (drop_bit 1 w) (n + 1) = n + 1 + l" "2 ^ l \<le> unat w div 2" "unat w div 2 < 2 ^ (l + 1)"
      using 1(1) half by auto
    then have "log_loop w n = n + (l + 1)" using False by (subst log_loop.simps) simp
    moreover have "2 ^ (l + 1) \<le> unat w" "unat w < 2 ^ (l + 1 + 1)" using l(2,3) by auto
    ultimately show ?thesis by blast
  qed
qed

lemma log_loop_zero: "log_loop 0 n = n"
  by (subst log_loop.simps) simp

lemma unat_power2:
  assumes "2 ^ l \<le> unat (w :: u32)"
  shows "unat (push_bit l (1 :: u32)) = 2 ^ l"
proof -
  have "2 ^ l < (2 :: nat) ^ 32" using assms unsigned_less [of w, where ?'a = nat] by simp
  then have "l < 32" by (rule power_less_imp_less_exp [rotated]) simp
  then show ?thesis by (simp add: unsigned_push_bit_eq del: push_bit_of_1)
qed

lemma init_rel:
  assumes "rfactor \<noteq> 0" "tsize \<noteq> 0"
  shows "\<exists>l t. spf_hashtable_init True h tsize rfactor = (AR_EOK, t) \<and> unat (table_size t) = 2 ^ l
    \<and> 2 ^ l \<le> unat tsize \<and> unat tsize < 2 ^ (l + 1) \<and> ht_rel t (\<lambda>_. []) \<and> num_items t = 0 \<and> num_nodes t = 0
    \<and> resize_factor t = rfactor \<and> hnodes t = h"
proof -
  obtain l where l: "log_loop tsize 0 = l" "2 ^ l \<le> unat tsize" "unat tsize < 2 ^ (l + 1)" using log_loop_spec [OF assms(2), of 0] by auto
  note u = unat_power2 [OF l(2)]
  then have nz: "push_bit l (1 :: u32) \<noteq> 0" by (metis unat_0 power_not_zero zero_neq_numeral)
  then have gz: "push_bit l (1 :: u32) > 0" by (simp add: word_gt_0)
  have rz: "\<not> rfactor \<le> 0" using assms(1) by (simp add: word_le_0_iff)
  let ?t = "\<lparr>table_ptr = Some (replicate (2 ^ l) None), table_size = push_bit l 1, mask_size = push_bit l 1 - 1,
    resize_factor = rfactor, num_nodes = 0, num_items = 0, hnodes = h\<rparr>"
  have "spf_hashtable_init True h tsize rfactor = (AR_EOK, ?t)"
    using rz nz gz u by (simp add: spf_hashtable_init_def l(1) Let_def del: push_bit_of_1)
  moreover have "ht_rel ?t (\<lambda>_. [])" using gz u by (simp add: ht_rel_def del: push_bit_of_1)
  ultimately show ?thesis using u l(2,3) by (intro exI [of _ l] exI [of _ ?t]) (simp del: push_bit_of_1)
qed

subsection \<open>Removing everything\<close>

definition freed :: "free_fun \<Rightarrow> addr list \<Rightarrow> spf_hash_node store \<Rightarrow> spf_hash_node store" where
  "freed free_f xs h = (case free_f of None \<Rightarrow> h | Some f \<Rightarrow> fold f xs h)"

lemma freed_simps [simp]: "freed f [] h = h" "freed f (xs @ ys) h = freed f ys (freed f xs h)"
  by (simp_all add: freed_def split: option.split)

lemma call_free_freed: "call_free f t a = t\<lparr>hnodes := freed f [a] (hnodes t)\<rparr>"
  by (simp add: call_free_def freed_def split: option.split)

lemma freed_other: "free_ok f \<Longrightarrow> x \<notin> set xs \<Longrightarrow> freed f xs h x = h x"
proof (induction xs arbitrary: h)
  case (Cons a xs)
  then have "freed f (a # xs) h x = freed f [a] h x" using freed_simps(2) [of f "[a]" xs h] by simp
  then show ?case using Cons.prems by (auto simp: freed_def free_ok_def split: option.split)
qed simp

lemma free_chain_loop_spec:
  assumes "free_ok f" "sseg (hnodes t) p xs None" "distinct xs"
  shows "free_chain_loop f t p = Some (t\<lparr>hnodes := freed f xs (hnodes t)\<rparr>)"
  using assms(2,3)
proof (induction xs arbitrary: p t)
  case Nil
  then show ?case by (simp add: free_chain_loop.simps)
next
  case (Cons x xs)
  let ?t = "t\<lparr>hnodes := freed f [x] (hnodes t)\<rparr>"
  have x: "p = Some x" "x \<in> dom (hnodes t)" "sseg (hnodes t) (hn (hnodes t) x) xs None" "x \<notin> set xs" using Cons.prems by auto
  have "sseg (hnodes ?t) (hn (hnodes t) x) xs None = sseg (hnodes t) (hn (hnodes t) x) xs None"
    using x(4) by (intro sseg_cong) (auto intro!: freed_other [OF assms(1)])
  then have "free_chain_loop f ?t (hn (hnodes t) x) = Some (?t\<lparr>hnodes := freed f xs (hnodes ?t)\<rparr>)"
    using Cons.prems x by (intro Cons.IH) auto
  moreover have "freed f (x # xs) (hnodes t) = freed f xs (freed f [x] (hnodes t))" using freed_simps(2) [of f "[x]" xs] by simp
  ultimately show ?case using x(1,2) by (subst free_chain_loop.simps) (auto simp: hn_def call_free_freed)
qed

fun clear_slots :: "nat list \<Rightarrow> ptr list \<Rightarrow> ptr list" where
  "clear_slots [] tab = tab"
| "clear_slots (i # is) tab = clear_slots is (tab[i := None])"

lemma length_clear_slots [simp]: "length (clear_slots is tab) = length tab"
  by (induction "is" tab rule: clear_slots.induct) auto

lemma nth_clear_slots: "j < length tab \<Longrightarrow> clear_slots is tab ! j = (if j \<in> set is then None else tab ! j)"
  by (induction "is" tab rule: clear_slots.induct) (auto simp: nth_list_update)

lemma ht_upd_hnodes_table: "t\<lparr>hnodes := h, table_ptr := tab\<rparr> = t\<lparr>table_ptr := tab, hnodes := h\<rparr>" for t :: spf_hashtable
  by simp

lemma remove_all_loop_spec:
  assumes "free_ok f" "table_ptr t = Some tab" "\<And>i. i \<in> set is \<Longrightarrow> i < length tab \<and> sseg (hnodes t) (tab ! i) (cs i) None"
    and "distinct is" "distinct (concat (map cs is))"
  shows "remove_all_loop f t is = Some (t\<lparr>table_ptr := Some (clear_slots is tab), hnodes := freed f (concat (map cs is)) (hnodes t)\<rparr>)"
  using assms(2-5)
proof (induction "is" arbitrary: t tab)
  case Nil
  then show ?case by simp
next
  case (Cons i "is")
  have i: "i < length tab" "sseg (hnodes t) (tab ! i) (cs i) None" using Cons.prems(2) by auto
  let ?h = "freed f (cs i) (hnodes t)"
  let ?t = "t\<lparr>table_ptr := Some (tab[i := None]), hnodes := ?h\<rparr>"
  have fc: "free_chain_loop f t (tab ! i) = Some (t\<lparr>hnodes := ?h\<rparr>)"
    using Cons.prems(4) i by (intro free_chain_loop_spec [OF assms(1)]) auto
  have step: "remove_all_loop f t (i # is) = remove_all_loop f ?t is"
    using Cons.prems(1) i(1) fc by (simp add: ht_upd_hnodes_table rd_slot_def wr_slot_def mem_simps)
  have "j < length (tab[i := None]) \<and> sseg (hnodes ?t) (tab[i := None] ! j) (cs j) None" if j: "j \<in> set is" for j
  proof -
    have "j \<noteq> i" "j < length tab" "sseg (hnodes t) (tab ! j) (cs j) None" using Cons.prems(2,3) j by auto
    moreover have "set (cs i) \<inter> set (cs j) = {}" using Cons.prems(4) j by fastforce
    then have "sseg ?h (tab ! j) (cs j) None = sseg (hnodes t) (tab ! j) (cs j) None"
      by (intro sseg_cong freed_other [OF assms(1)]) auto
    ultimately show ?thesis by simp
  qed
  then have "remove_all_loop f ?t is = Some (?t\<lparr>table_ptr := Some (clear_slots is (tab[i := None])),
      hnodes := freed f (concat (map cs is)) (hnodes ?t)\<rparr>)"
    using Cons.prems(3,4) by (intro Cons.IH) auto
  then show ?case using step by simp
qed

lemma remove_all_rel:
  assumes r: "ht_rel t cs" and f: "free_ok f"
  shows "\<exists>t'. spf_hashtable_remove_all f t = Some (AR_EOK, t') \<and> ht_rel t' (\<lambda>_. [])
    \<and> hnodes t' = freed f (concat (map cs [0..<unat (table_size t)])) (hnodes t)
    \<and> num_items t' = 0 \<and> num_nodes t' = 0 \<and> table_size t' = table_size t \<and> resize_factor t' = resize_factor t"
proof -
  let ?is = "[0..<unat (table_size t)]"
  obtain tab where tab: "table_ptr t = Some tab" "length tab = unat (table_size t)"
    "\<forall>i<length tab. sseg (hnodes t) (tab ! i) (cs i) None" using ht_relD [OF r] by blast
  let ?t = "t\<lparr>table_ptr := Some (clear_slots ?is tab), hnodes := freed f (concat (map cs ?is)) (hnodes t)\<rparr>"
  have "remove_all_loop f t ?is = Some ?t"
    using tab distinct_chains [OF r] by (intro remove_all_loop_spec [OF f tab(1)]) auto
  moreover have "0 < table_size t" "mask_size t = table_size t - 1" using r by (auto simp: ht_rel_def)
  then have "ht_rel ?t (\<lambda>_. [])" using tab(2) by (simp add: ht_rel_def nth_clear_slots)
  ultimately show ?thesis by (simp add: spf_hashtable_remove_all_def)
qed

subsection \<open>Two departures from what the table is meant to do\<close>

lemma remove_stale_rel:
  assumes r: "ht_rel t cs" and k: "with_key t cs k = b # rest" and a: "a \<notin> all_nodes cs"
  shows "spf_hashtable_remove f t k (Some a) = Some (AR_EOK, call_free f (t\<lparr>num_nodes := num_nodes t - 1\<rparr>) (last (cs (hash_pos t k))))"
proof -
  let ?i = "hash_pos t k"
  obtain tab where tab: "table_ptr t = Some tab" "length tab = unat (table_size t)"
    "\<forall>i<length tab. sseg (hnodes t) (tab ! i) (cs i) None" using ht_relD [OF r] by blast
  obtain xs ys where s: "cs ?i = xs @ ys" "hashtable_findpos t k = Some (slot_after (Table_Slot ?i) xs)"
    "rd_slot t (slot_after (Table_Slot ?i) xs) = Some (fst_of ys)"
    "\<forall>x\<in>set xs. key_of (hnodes t) x \<noteq> k" "ys = [] \<or> key_of (hnodes t) (hd ys) = k"
    using findpos_rel [OF r] by blast
  have i: "?i < length tab" using hash_pos_less [OF r, of k] tab(2) by simp
  have "filter (\<lambda>x. key_of (hnodes t) x = k) xs = []" using s(4) by (simp add: filter_empty_conv)
  then have "ys \<noteq> []" using k s(1) by (auto simp: with_key_def)
  then obtain c zs where ys: "ys = c # zs" by (cases ys) auto
  have "sseg (hnodes t) (tab ! ?i) (xs @ c # zs) None" using tab(3) i s(1) ys by metis
  then have c: "c \<in> dom (hnodes t)" "sseg (hnodes t) (hn (hnodes t) c) zs None" by (auto simp: sseg_append)
  have "set (cs ?i) \<subseteq> all_nodes cs" by (auto simp: all_nodes_def)
  then have "a \<notin> set (xs @ c # zs)" using a s(1) ys by auto
  then have "remove_dup_loop (t\<lparr>num_nodes := num_nodes t - 1\<rparr>) c (hn (hnodes t) c) a = Some (last (c # zs), t\<lparr>num_nodes := num_nodes t - 1\<rparr>)" "a \<noteq> c"
    using c remove_dup_loop_absent [of "t\<lparr>num_nodes := num_nodes t - 1\<rparr>" "hn (hnodes t) c" zs a c] by simp_all
  moreover obtain n where "hnodes t c = Some n" "hnext n = hn (hnodes t) c" using c(1) by (auto simp: hn_def)
  ultimately show ?thesis using s ys by (simp add: spf_hashtable_remove_def Let_def)
qed

lemma all_nodes_concat: "ht_rel t cs \<Longrightarrow> set (concat (map cs [0..<unat (table_size t)])) = all_nodes cs"
proof -
  assume r: "ht_rel t cs"
  have "i < unat (table_size t)" if "x \<in> set (cs i)" for x i using r that by (cases "i < unat (table_size t)") (auto simp: ht_rel_def)
  then show ?thesis by (fastforce simp: all_nodes_def)
qed

lemma grow_abs:
  assumes "ht_abs t m" "table_size t * resize_factor t \<noteq> 0"
  shows "\<exists>t'. hashtable_grow True t = Some (AR_EOK, t') \<and> ht_abs t' m \<and> table_size t' = table_size t * resize_factor t
    \<and> dom (hnodes t') = dom (hnodes t) \<and> num_nodes t' = num_nodes t + of_nat (card (\<Union>k. set (m k)))"
proof -
  obtain cs where cs: "ht_rel t cs" "m = with_key t cs" using assms(1) by (auto simp: ht_abs_def)
  let ?l = "concat (map cs [0..<unat (table_size t)])"
  note all = all_nodes_concat [OF cs(1)]
  have len: "length ?l = card (\<Union>k. set (m k))"
    using distinct_card [OF distinct_chains [OF cs(1)]] chain_nodes_with_key [OF cs(1)] cs(2) all by metis
  obtain t' cs' where t': "hashtable_grow True t = Some (AR_EOK, t')" "ht_rel t' cs'" "\<forall>k. with_key t' cs' k = with_key t cs k"
    "dom (hnodes t') = dom (hnodes t)" "num_nodes t' = num_nodes t + of_nat (length ?l)" "table_size t' = table_size t * resize_factor t"
    using grow_rel [OF cs(1) assms(2)] by blast
  have "m = with_key t' cs'" using t'(3) cs(2) by (simp add: fun_eq_iff)
  then show ?thesis using t' len unfolding ht_abs_def by (intro exI [of _ t']) auto
qed

lemma remove_all_abs:
  assumes "ht_abs t m" "free_ok f"
  shows "\<exists>t' xs. spf_hashtable_remove_all f t = Some (AR_EOK, t') \<and> ht_abs t' (\<lambda>_. []) \<and> num_items t' = 0 \<and> num_nodes t' = 0
    \<and> distinct xs \<and> set xs = (\<Union>k. set (m k)) \<and> hnodes t' = freed f xs (hnodes t)"
proof -
  obtain cs where cs: "ht_rel t cs" "m = with_key t cs" using assms(1) by (auto simp: ht_abs_def)
  let ?l = "concat (map cs [0..<unat (table_size t)])"
  note all = all_nodes_concat [OF cs(1)]
  have "set ?l = (\<Union>k. set (m k))" using chain_nodes_with_key [OF cs(1)] cs(2) all by metis
  moreover have "with_key t' (\<lambda>_. []) = (\<lambda>_. [])" for t' by (simp add: with_key_def fun_eq_iff)
  ultimately show ?thesis using remove_all_rel [OF cs(1) assms(2)] distinct_chains [OF cs(1)] unfolding ht_abs_def by metis
qed

subsection \<open>Example tables\<close>

text \<open>One chain with the nodes 1 and 2 of one key and 3 of another; the nodes 4 and 5 are the client's.\<close>

definition ex_table :: spf_hashtable where
  "ex_table = \<lparr>table_ptr = Some [Some 1], table_size = 1, mask_size = 0, resize_factor = 2, num_nodes = 3, num_items = 2,
     hnodes = [1 \<mapsto> \<lparr>hnext = Some 2, key_bytes = [7]\<rparr>, 2 \<mapsto> \<lparr>hnext = Some 3, key_bytes = [7]\<rparr>,
       3 \<mapsto> \<lparr>hnext = None, key_bytes = [8]\<rparr>, 4 \<mapsto> \<lparr>hnext = None, key_bytes = [9]\<rparr>, 5 \<mapsto> \<lparr>hnext = None, key_bytes = [7]\<rparr>]\<rparr>"

definition ex_nodes :: "u8 list \<Rightarrow> addr list" where
  "ex_nodes k = (if k = [7] then [1, 2] else if k = [8] then [3] else [])"

lemma ex_table_rel: "ht_rel ex_table (\<lambda>i. if i = 0 then [1, 2, 3] else [])"
  by (simp add: ht_rel_def ex_table_def hn_def hash_pos_def)

lemma ex_table_with_key: "with_key ex_table (\<lambda>i. if i = 0 then [1, 2, 3] else []) = ex_nodes"
  by (auto simp: fun_eq_iff with_key_def ex_nodes_def ex_table_def key_of_def hash_pos_def)

lemma ex_table_abs: "ht_abs ex_table ex_nodes"
  unfolding ht_abs_def using ex_table_rel ex_table_with_key by metis

lemma ex_table_ready: "ht_ready ex_table ex_nodes 4" "ht_ready ex_table ex_nodes 5"
  by (simp_all add: ht_ready_def ex_table_def ex_nodes_def)

lemma ex_table_key: "key_of (hnodes ex_table) 4 = [9]" "key_of (hnodes ex_table) 5 = [7]"
  by (simp_all add: key_of_def ex_table_def)

subsection \<open>Properties\<close>

text \<open>
  looking up a key returns the newest node that the table has under the key, and \<open>NULL\<close> when it has none, on every
  well-formed table; the search over the chain terminates.
\<close>

theorem hashtable_find_newest:
  assumes "ht_abs t m"
  shows "spf_hashtable_find t k = Some (case m k of [] \<Rightarrow> None | a # _ \<Rightarrow> Some a)"
  using hashtable.find_law [OF assms] .

theorem hashtable_find_newest_witness: "ht_abs ex_table ex_nodes \<and> spf_hashtable_find ex_table [7] = Some (Some 1)
    \<and> spf_hashtable_find ex_table [6] = Some None"
  using hashtable_find_newest [OF ex_table_abs, of "[7]"] hashtable_find_newest [OF ex_table_abs, of "[6]"] ex_table_abs
  by (simp add: ex_nodes_def)

text \<open>
  C18: inserting a node that is in no chain succeeds whether or not the table has to grow and whether or not there is memory
  for that: the node becomes the newest of its key, the nodes of every other key and their order stay, no
  node's key changes, and the node is what a lookup of its key then returns.
\<close>

theorem hashtable_insert_newest:
  assumes "ht_abs t m" "ht_ready t m a"
  shows "\<exists>t'. spf_hashtable_insert mal t a = Some (AR_EOK, t')
    \<and> ht_abs t' (m(key_of (hnodes t) a := a # m (key_of (hnodes t) a)))
    \<and> dom (hnodes t') = dom (hnodes t) \<and> (\<forall>x\<in>dom (hnodes t). key_of (hnodes t') x = key_of (hnodes t) x)
    \<and> spf_hashtable_find t' (key_of (hnodes t) a) = Some (Some a)"
proof -
  obtain t' where t': "spf_hashtable_insert mal t a = Some (AR_EOK, t')"
    "ht_abs t' (m(key_of (hnodes t) a := a # m (key_of (hnodes t) a)))"
    "dom (hnodes t') = dom (hnodes t)" "\<forall>x\<in>dom (hnodes t). key_of (hnodes t') x = key_of (hnodes t) x"
    using abs_insert [OF assms] by blast
  then show ?thesis using abs_find [OF t'(2), of "key_of (hnodes t) a"] by simp
qed

theorem hashtable_insert_newest_witness:
  "\<exists>t'. spf_hashtable_insert True ex_table 4 = Some (AR_EOK, t') \<and> ht_abs t' (ex_nodes([9] := [4]))
    \<and> spf_hashtable_find t' [9] = Some (Some 4)"
proof -
  obtain t' where "spf_hashtable_insert True ex_table 4 = Some (AR_EOK, t')" "ht_abs t' (ex_nodes([9] := 4 # ex_nodes [9]))"
    "spf_hashtable_find t' [9] = Some (Some 4)"
    using hashtable_insert_newest [OF ex_table_abs ex_table_ready(1), of True] unfolding ex_table_key by blast
  then show ?thesis by (simp add: ex_nodes_def)
qed

text \<open>
  removing a particular node that the table has under a key takes out exactly that node and frees it, whichever place it
  has among the nodes of its key; every other node stays in order and the node count goes down by one.
\<close>

theorem hashtable_remove_node:
  assumes "ht_abs t m" "free_ok free_f" "a \<in> set (m k)"
  shows "\<exists>t'. spf_hashtable_remove free_f t k (Some a) = Some (AR_EOK, t') \<and> ht_abs t' (m(k := remove1 a (m k)))
    \<and> num_nodes t' = num_nodes t - 1"
  by (rule abs_remove [OF assms])

theorem hashtable_remove_node_witness:
  "\<exists>t'. spf_hashtable_remove (Some release_node) ex_table [7] (Some 2) = Some (AR_EOK, t') \<and> ht_abs t' (ex_nodes([7] := [1]))
    \<and> num_nodes t' = 2"
  using hashtable_remove_node [OF ex_table_abs free_ok_release, of 2 "[7]"] by (simp add: ex_nodes_def ex_table_def)

text \<open>
  removing without naming a node takes out the newest node of the key; a key that has no node is reported
  with \<open>AR_EFAILED\<close> and leaves the table as it is.
\<close>

theorem hashtable_remove_key:
  assumes "ht_abs t m" "free_ok free_f"
  shows "case m k of [] \<Rightarrow> spf_hashtable_remove free_f t k None = Some (AR_EFAILED, t)
    | a # rest \<Rightarrow> \<exists>t'. spf_hashtable_remove free_f t k None = Some (AR_EOK, t') \<and> ht_abs t' (m(k := rest))
        \<and> num_nodes t' = num_nodes t - 1"
  using abs_remove_first [OF assms] abs_remove_none [OF assms(1)] by (auto split: list.split)

theorem hashtable_remove_key_witness:
  "(\<exists>t'. spf_hashtable_remove None ex_table [7] None = Some (AR_EOK, t') \<and> ht_abs t' (ex_nodes([7] := [2])) \<and> num_nodes t' = 2)
    \<and> spf_hashtable_remove None ex_table [6] None = Some (AR_EFAILED, ex_table)"
  using hashtable_remove_key [OF ex_table_abs free_ok_None, of "[7]"] hashtable_remove_key [OF ex_table_abs free_ok_None, of "[6]"]
  by (simp add: ex_nodes_def ex_table_def)

text \<open>
  inserting a node and removing it again, by key or by node, gives back the nodes of all keys in their order, also when the
  insertion made the table grow.
\<close>

theorem hashtable_insert_remove_roundtrip:
  assumes "ht_abs t m" "ht_ready t m a" "p = None \<or> p = Some a"
  shows "\<exists>t1 t2. spf_hashtable_insert mal t a = Some (AR_EOK, t1)
    \<and> spf_hashtable_remove (Some release_node) t1 (key_of (hnodes t) a) p = Some (AR_EOK, t2) \<and> ht_abs t2 m"
  by (rule hashtable.insert_then_remove [OF assms])

theorem hashtable_insert_remove_roundtrip_witness:
  "\<exists>t1 t2. spf_hashtable_insert False ex_table 5 = Some (AR_EOK, t1)
    \<and> spf_hashtable_remove (Some release_node) t1 [7] (Some 5) = Some (AR_EOK, t2) \<and> ht_abs t2 ex_nodes"
  using hashtable_insert_remove_roundtrip [OF ex_table_abs ex_table_ready(2), of "Some 5" False] unfolding ex_table_key by simp

text \<open>
  a node inserted under a key that already has one hides the older node, which is found again once the
  newer one is removed.
\<close>

theorem hashtable_shadowing:
  assumes "ht_abs t m" "m k = a # b # rest"
  shows "spf_hashtable_find t k = Some (Some a)
    \<and> (\<exists>t'. spf_hashtable_remove (Some release_node) t k None = Some (AR_EOK, t') \<and> spf_hashtable_find t' k = Some (Some b))"
  by (rule hashtable.shadowing [OF assms])

theorem hashtable_shadowing_witness:
  "spf_hashtable_find ex_table [7] = Some (Some 1)
    \<and> (\<exists>t'. spf_hashtable_remove (Some release_node) ex_table [7] None = Some (AR_EOK, t') \<and> spf_hashtable_find t' [7] = Some (Some 2))"
  by (rule hashtable_shadowing [OF ex_table_abs, of "[7]" 1 2 "[]"]) (simp add: ex_nodes_def)

text \<open>
  C34: growing the table keeps the nodes of every key in their order in a table of \<open>resize_factor\<close> times as many chains. The
  node count however is not reset before the nodes are inserted again: it goes up by the number of nodes in the table.
\<close>

theorem hashtable_grow_keeps_nodes:
  assumes "ht_abs t m" "table_size t * resize_factor t \<noteq> 0"
  shows "\<exists>t'. hashtable_grow True t = Some (AR_EOK, t') \<and> ht_abs t' m \<and> table_size t' = table_size t * resize_factor t
    \<and> dom (hnodes t') = dom (hnodes t) \<and> num_nodes t' = num_nodes t + of_nat (card (\<Union>k. set (m k)))"
  by (rule grow_abs [OF assms])

theorem hashtable_grow_keeps_nodes_witness:
  "\<exists>t'. hashtable_grow True ex_table = Some (AR_EOK, t') \<and> ht_abs t' ex_nodes \<and> table_size t' = 2 \<and> num_nodes t' = 6"
proof -
  have "set (ex_nodes [7]) = {1, 2}" "set (ex_nodes [8]) = {3}" "\<And>k. set (ex_nodes k) \<subseteq> {1, 2, 3}" by (auto simp: ex_nodes_def)
  then have "(\<Union>k. set (ex_nodes k)) = {1, 2, 3}" by blast
  then have c: "card (\<Union>k. set (ex_nodes k)) = 3" by simp
  obtain t' where "hashtable_grow True ex_table = Some (AR_EOK, t')" "ht_abs t' ex_nodes"
    "table_size t' = table_size ex_table * resize_factor ex_table" "num_nodes t' = num_nodes ex_table + of_nat 3"
    using hashtable_grow_keeps_nodes [OF ex_table_abs] unfolding c by (auto simp: ex_table_def)
  then show ?thesis by (simp add: ex_table_def)
qed

text \<open>
  initialising with a non-zero size and resize factor gives an empty table whose size is the largest power of two that does
  not exceed the requested one, which is what makes the mask select a valid chain.
\<close>

theorem hashtable_init_size:
  assumes "rfactor \<noteq> 0" "tsize \<noteq> 0"
  shows "\<exists>l t. spf_hashtable_init True h tsize rfactor = (AR_EOK, t) \<and> unat (table_size t) = 2 ^ l
    \<and> 2 ^ l \<le> unat tsize \<and> unat tsize < 2 ^ (l + 1) \<and> ht_abs t (\<lambda>_. []) \<and> num_items t = 0 \<and> num_nodes t = 0
    \<and> resize_factor t = rfactor \<and> hnodes t = h"
proof -
  have "with_key t (\<lambda>_. []) = (\<lambda>_. [])" for t by (simp add: with_key_def fun_eq_iff)
  then show ?thesis using init_rel [OF assms, of h] unfolding ht_abs_def by metis
qed

theorem hashtable_init_size_witness:
  "\<exists>l t. spf_hashtable_init True Map.empty 13 2 = (AR_EOK, t) \<and> unat (table_size t) = 2 ^ l
    \<and> 2 ^ l \<le> (13 :: nat) \<and> (13 :: nat) < 2 ^ (l + 1) \<and> ht_abs t (\<lambda>_. [])"
proof -
  obtain l t where "spf_hashtable_init True Map.empty 13 2 = (AR_EOK, t)" "unat (table_size t) = 2 ^ l"
    "2 ^ l \<le> unat (13 :: u32)" "unat (13 :: u32) < 2 ^ (l + 1)" "ht_abs t (\<lambda>_. [])"
    using hashtable_init_size [of 2 13 Map.empty] by auto
  then show ?thesis by (intro exI [of _ l] exI [of _ t]) simp
qed

text \<open>
  removing everything empties the table, resets both counts and hands every node of the table to the free function exactly
  once, reading a node's successor before the node is freed.
\<close>

theorem hashtable_remove_all_frees_once:
  assumes "ht_abs t m" "free_ok free_f"
  shows "\<exists>t' xs. spf_hashtable_remove_all free_f t = Some (AR_EOK, t') \<and> ht_abs t' (\<lambda>_. []) \<and> num_items t' = 0 \<and> num_nodes t' = 0
    \<and> distinct xs \<and> set xs = (\<Union>k. set (m k)) \<and> hnodes t' = freed free_f xs (hnodes t)"
  by (rule remove_all_abs [OF assms])

theorem hashtable_remove_all_frees_once_witness:
  "\<exists>t' xs. spf_hashtable_remove_all (Some release_node) ex_table = Some (AR_EOK, t') \<and> ht_abs t' (\<lambda>_. [])
    \<and> distinct xs \<and> set xs = (\<Union>k. set (ex_nodes k)) \<and> hnodes t' = freed (Some release_node) xs (hnodes ex_table)"
  using hashtable_remove_all_frees_once [OF ex_table_abs free_ok_release] by blast

text \<open>
  removing a node that is not in the table, under a key that has some, reports success, counts one node less and frees the
  last node of the chain, which stays linked; the caller is expected to name a node of the table.
\<close>

theorem hashtable_remove_foreign_node:
  assumes "ht_rel t cs" "with_key t cs k \<noteq> []" "a \<notin> all_nodes cs"
  shows "spf_hashtable_remove free_f t k (Some a)
    = Some (AR_EOK, call_free free_f (t\<lparr>num_nodes := num_nodes t - 1\<rparr>) (last (cs (hash_pos t k))))"
  using remove_stale_rel [OF assms(1) _ assms(3)] assms(2) by (cases "with_key t cs k") auto

theorem hashtable_remove_foreign_node_witness:
  "spf_hashtable_remove (Some release_node) ex_table [7] (Some 5)
    = Some (AR_EOK, call_free (Some release_node) (ex_table\<lparr>num_nodes := num_nodes ex_table - 1\<rparr>) 3)"
proof -
  have "with_key ex_table (\<lambda>i. if i = 0 then [1, 2, 3] else []) [7] \<noteq> []" by (simp add: ex_table_with_key ex_nodes_def)
  moreover have "5 \<notin> all_nodes (\<lambda>i. if i = 0 then [1, 2, 3] else [])" by (simp add: all_nodes_def)
  moreover have "hash_pos ex_table [7] = 0" by (simp add: hash_pos_def ex_table_def)
  ultimately show ?thesis using hashtable_remove_foreign_node [OF ex_table_rel, of "[7]" 5 "Some release_node"] by simp
qed

end
