(* ===== verification/Posal_Channel.thy ===== *)
theory Posal_Channel
  imports Ar_Prelude
begin

text \<open>
  Channels and signals (\<^verbatim>\<open>fwk/platform/posal/src/generic/posal_channel.c\<close>, \<^verbatim>\<open>posal_signal.c\<close>,
  \<^verbatim>\<open>posal_signal_island.c\<close> and the Linux signal under them, \<^verbatim>\<open>posal_linux_signal.c\<close>).

  A channel is a 32-bit word of pending signals, and a mask of the bits that queues and signals
  have taken. The condition variable and the mutex of the Linux signal are not represented:
  each access to the word is atomic, and waiting is a step that is possible when one of the
  awaited bits is set. Channels are memory of the clients, named by address.
\<close>

subsection \<open>Data\<close>

record posal_channel_internal =
  anysig :: u32
  unBitsUsedMask :: u32

type_synonym channels = "posal_channel_internal store"

record posal_signal_internal =
  pChannel :: ptr
  unMyChannelBit :: u32

abbreviation (input) POSAL_CHANNEL_ALL_BITS :: u32 where "POSAL_CHANNEL_ALL_BITS \<equiv> 0xFFFFFFFF"
abbreviation (input) NUM_MASK_BITS :: nat where "NUM_MASK_BITS \<equiv> 31"

subsection \<open>The signal word of a channel\<close>

definition posal_linux_signal_set :: "channels \<Rightarrow> ptr \<Rightarrow> u32 \<Rightarrow> channels option" where
  "posal_linux_signal_set chs ch msk = modify chs ch (anysig_update (\<lambda>s. s OR msk))"

definition posal_linux_signal_clear :: "channels \<Rightarrow> ptr \<Rightarrow> u32 \<Rightarrow> channels option" where
  "posal_linux_signal_clear chs ch msk = modify chs ch (anysig_update (\<lambda>s. s AND NOT msk))"

definition posal_linux_signal_get :: "channels \<Rightarrow> ptr \<Rightarrow> u32 option" where
  "posal_linux_signal_get chs ch = map_option anysig (load chs ch)"

definition posal_channel_poll :: "channels \<Rightarrow> ptr \<Rightarrow> u32 \<Rightarrow> u32 option" where
  "posal_channel_poll chs ch unEnableBitfield = map_option (\<lambda>s. unEnableBitfield AND s) (posal_linux_signal_get chs ch)"

text \<open>The wait returns at once when no bit is asked for, and otherwise only when a bit of the mask is set.\<close>

inductive posal_channel_wait :: "channels \<Rightarrow> ptr \<Rightarrow> u32 \<Rightarrow> u32 \<Rightarrow> bool" for chs where
  wait_none: "posal_channel_wait chs ch 0 0"
| wait_some: "msk \<noteq> 0 \<Longrightarrow> posal_linux_signal_get chs ch = Some s \<Longrightarrow> s AND msk \<noteq> 0 \<Longrightarrow> posal_channel_wait chs ch msk (s AND msk AND msk)"

definition xor_bits_used :: "channels \<Rightarrow> ptr \<Rightarrow> u32 \<Rightarrow> channels option" where
  "xor_bits_used chs ch msk = modify chs ch (unBitsUsedMask_update (\<lambda>m. m XOR msk))"

definition or_bits_used :: "channels \<Rightarrow> ptr \<Rightarrow> u32 \<Rightarrow> channels option" where
  "or_bits_used chs ch msk = modify chs ch (unBitsUsedMask_update (\<lambda>m. m OR msk))"

subsection \<open>Channels\<close>

definition posal_channel_create :: "ptr \<Rightarrow> channels \<Rightarrow> u32 \<times> ptr \<times> channels" where
  "posal_channel_create mal chs =
    (case mal of None \<Rightarrow> (AR_ENOMEMORY, None, chs)
     | Some a \<Rightarrow> (AR_EOK, Some a, chs(a \<mapsto> \<lparr>anysig = 0, unBitsUsedMask = 0\<rparr>)))"

text \<open>The argument is \<open>*pp_chan\<close>, or \<open>None\<close> when \<open>pp_chan\<close> is \<open>NULL\<close>.\<close>

definition posal_channel_destroy :: "channels \<Rightarrow> ptr option \<Rightarrow> (ptr option \<times> channels) option" where
  "posal_channel_destroy chs pp_chan =
    (case pp_chan of
       None \<Rightarrow> Some (None, chs)
     | Some None \<Rightarrow> Some (Some None, chs)
     | Some (Some a) \<Rightarrow> if a \<in> dom chs then Some (Some None, chs(a := None)) else None)"

text \<open>
  Counting the leading ones (\<^verbatim>\<open>s32_cl1_s32\<close> of \<^verbatim>\<open>basic_op.c\<close>); shifting by a negative
  amount, after 32 ones, is undefined.
\<close>

function cl1_loop :: "u32 \<Rightarrow> nat \<Rightarrow> nat option" where
  "cl1_loop var1 cnt =
    (if cnt > 31 then None
     else if var1 AND push_bit (31 - cnt) 1 \<noteq> 0 then cl1_loop var1 (cnt + 1) else Some cnt)"
  by pat_completeness auto
termination
  by (relation "measure (\<lambda>(_, cnt). 32 - cnt)") auto

declare cl1_loop.simps [simp del]

definition s32_cl1_s32 :: "u32 \<Rightarrow> nat option" where
  "s32_cl1_s32 var1 = cl1_loop var1 0"

text \<open>The result code and the new content of \<open>*pUnBitMask\<close>.\<close>

definition posal_channel_check_bit_mask :: "channels \<Rightarrow> ptr \<Rightarrow> u32 \<Rightarrow> (u32 \<times> u32) option" where
  "posal_channel_check_bit_mask chs pCh unBitMask = do {
     ch \<leftarrow> load chs pCh;
     if unBitsUsedMask ch = POSAL_CHANNEL_ALL_BITS then Some (AR_ENEEDMORE, unBitMask)
     else if unBitMask \<noteq> 0 \<and> (unBitMask AND (unBitMask - 1) \<noteq> 0 \<or> unBitMask AND unBitsUsedMask ch \<noteq> 0)
     then Some (AR_EBADPARAM, unBitMask)
     else if unBitMask = 0 then do {
       n \<leftarrow> s32_cl1_s32 (unBitsUsedMask ch);
       Some (AR_EOK, push_bit (NUM_MASK_BITS - n) 1)
     }
     else Some (AR_EOK, unBitMask)
   }"

text \<open>
  The common part of adding a queue and adding a signal to a channel: move the client from
  the channel and bit it has (if any) to the new ones, and take a pending signal along. The
  result is the bit. Whether a signal is pending is kept in a \<open>bool_t\<close>, an \<open>unsigned char\<close>,
  to which the polled 32-bit word is converted.
\<close>

definition move_to_channel :: "channels \<Rightarrow> ptr \<Rightarrow> ptr \<Rightarrow> u32 \<Rightarrow> u32 \<Rightarrow> (u32 \<times> u32 \<times> channels) option" where
  "move_to_channel chs pCh old_ch old_bit unBitMask = do {
     (result, unBitMask) \<leftarrow> posal_channel_check_bit_mask chs pCh unBitMask;
     if result \<noteq> AR_EOK then Some (result, unBitMask, chs)
     else do {
       chs \<leftarrow> posal_linux_signal_clear chs pCh unBitMask;
       (is_set, chs) \<leftarrow>
         (if old_ch \<noteq> None then do {
            s \<leftarrow> posal_channel_poll chs old_ch old_bit;
            chs \<leftarrow> posal_linux_signal_clear chs old_ch old_bit;
            chs \<leftarrow> xor_bits_used chs old_ch old_bit;
            Some ((ucast s :: u8) \<noteq> 0, chs)
          }
          else Some (False, chs));
       chs \<leftarrow> or_bits_used chs pCh unBitMask;
       chs \<leftarrow> (if is_set then posal_linux_signal_set chs pCh unBitMask else Some chs);
       Some (AR_EOK, unBitMask, chs)
     }
   }"

definition posal_channel_add_signal ::
    "channels \<Rightarrow> ptr \<Rightarrow> posal_signal_internal \<Rightarrow> u32 \<Rightarrow> (u32 \<times> posal_signal_internal \<times> channels) option" where
  "posal_channel_add_signal chs pCh sig unBitMask = do {
     (result, unBitMask, chs) \<leftarrow> move_to_channel chs pCh (pChannel sig) (unMyChannelBit sig) unBitMask;
     if result \<noteq> AR_EOK then Some (result, sig, chs)
     else Some (AR_EOK, sig\<lparr>pChannel := pCh, unMyChannelBit := unBitMask\<rparr>, chs)
   }"

subsection \<open>Signals\<close>

definition posal_signal_create :: "bool \<Rightarrow> u32 \<times> posal_signal_internal option" where
  "posal_signal_create mal = (if \<not> mal then (AR_ENOMEMORY, None) else (AR_EOK, Some \<lparr>pChannel = None, unMyChannelBit = 0\<rparr>))"

definition posal_signal_destroy :: "channels \<Rightarrow> posal_signal_internal \<Rightarrow> channels option" where
  "posal_signal_destroy chs sig =
    (if pChannel sig \<noteq> None then xor_bits_used chs (pChannel sig) (unMyChannelBit sig) else Some chs)"

definition posal_signal_send :: "channels \<Rightarrow> posal_signal_internal \<Rightarrow> channels option" where
  "posal_signal_send chs sig = posal_linux_signal_set chs (pChannel sig) (unMyChannelBit sig)"

definition posal_signal_clear :: "channels \<Rightarrow> posal_signal_internal \<Rightarrow> channels option" where
  "posal_signal_clear chs sig = posal_linux_signal_clear chs (pChannel sig) (unMyChannelBit sig)"

definition posal_signal_is_set :: "channels \<Rightarrow> posal_signal_internal \<Rightarrow> bool option" where
  "posal_signal_is_set chs sig = map_option (\<lambda>s. s AND unMyChannelBit sig > 0) (posal_linux_signal_get chs (pChannel sig))"

end
