(* ===== verification/Posal_Queue.thy ===== *)
theory Posal_Queue
  imports Linked_Nodes Posal_Bufpool Posal_Channel
begin

text \<open>
  The message queue between threads (\<^verbatim>\<open>fwk/platform/posal/src/generic/posal_queue.c\<close>,
  \<^verbatim>\<open>posal_queue_island.c\<close>, \<^verbatim>\<open>posal_queue_i.h\<close> and the pool handles of \<^verbatim>\<open>linux/posal_internal.h\<close>).

  A queue is a ring of nodes of which \<open>active_nodes\<close>, from \<open>active_head_ptr\<close> to
  \<open>active_tail_ptr\<close>, hold elements; the others are kept for reuse. Nodes come from the queue's
  buffer pool, or from the heap for a priority queue. A \<open>posal_queue_t *\<close> argument is a
  \<open>posal_queue_internal option\<close>, \<open>None\<close> for \<open>NULL\<close>, and the new content of the structure is part
  of the result. The node counts are signed 16-bit integers. The mutex serialises the
  operations and is not represented. What the allocators answer, and what a new node's memory
  holds, is the argument \<open>env\<close>.
\<close>

subsection \<open>Data\<close>

type_synonym i16 = "16 word"
type_synonym i32 = "32 word"

record posal_queue_element =
  q_payload_ptr :: "64 word"
  q_sec_ptr :: "64 word"

text \<open>The base node and, for a priority queue, its extension by \<open>priority\<close>.\<close>

record posal_queue_element_list = dl_node +
  elem :: posal_queue_element
  priority :: u32

record posal_queue_internal =
  channel_ptr :: ptr
  active_head_ptr :: ptr
  active_tail_ptr :: ptr
  heap_id :: u32
  channel_bit :: u32
  active_nodes :: i16
  num_nodes :: i16
  max_nodes :: i16
  is_priority_queue :: bool
  disable_signaling :: bool

record posal_queue_init_attr =
  a_max_nodes :: i32
  a_prealloc_nodes :: i32
  a_heap_id :: u32
  a_is_priority_queue :: bool

text \<open>The memory that queues share: their nodes, the pools the nodes come from, the channels.\<close>

record posal_queue_state =
  q_nodes :: "posal_queue_element_list store"
  q_pool :: posal_bufpool_state
  g_posal_queue_bufpool_handle :: "u32 list"
  chans :: channels

record q_env =
  q_pool_mal :: "nat \<Rightarrow> ptr"
  q_heap_mal :: ptr
  q_garbage :: posal_queue_element_list

abbreviation (input) SPF_POSAL_Q_NUM_POOLS :: nat where "SPF_POSAL_Q_NUM_POOLS \<equiv> 2"
abbreviation (input) SIZEOF_QUEUE_NODE :: u16 where "SIZEOF_QUEUE_NODE \<equiv> 32"

definition rd_elem :: "posal_queue_element_list store \<Rightarrow> ptr \<Rightarrow> posal_queue_element option" where
  "rd_elem h p = map_option elem (load h p)"

definition wr_elem :: "posal_queue_element_list store \<Rightarrow> ptr \<Rightarrow> posal_queue_element \<Rightarrow> posal_queue_element_list store option" where
  "wr_elem h p e = modify h p (elem_update (\<lambda>_. e))"

subsection \<open>The pools\<close>

definition posal_queuepool_set_handle_from_heap_id :: "posal_queue_state \<Rightarrow> u32 \<Rightarrow> u32 \<Rightarrow> posal_queue_state" where
  "posal_queuepool_set_handle_from_heap_id st hid handle =
    (let hid = unat (GET_ACTUAL_HEAP_ID hid) in
     if hid < SPF_POSAL_Q_NUM_POOLS
     then st\<lparr>g_posal_queue_bufpool_handle := (g_posal_queue_bufpool_handle st)[hid := handle]\<rparr> else st)"

definition posal_queuepool_get_handle_from_heap_id :: "posal_queue_state \<Rightarrow> u32 \<Rightarrow> u32" where
  "posal_queuepool_get_handle_from_heap_id st hid =
    (let hid = unat (GET_ACTUAL_HEAP_ID hid) in
     if hid < SPF_POSAL_Q_NUM_POOLS then g_posal_queue_bufpool_handle st ! hid else 0)"

definition posal_queue_pool_setup ::
    "bool \<Rightarrow> ptr \<Rightarrow> posal_queue_state \<Rightarrow> u32 \<Rightarrow> u32 \<Rightarrow> u16 \<Rightarrow> (u32 \<times> posal_queue_state) option" where
  "posal_queue_pool_setup mal_pool mal st hid num_arrays npa = do {
     (handle, pl) \<leftarrow> posal_bufpool_pool_create mal_pool mal (q_pool st) SIZEOF_QUEUE_NODE num_arrays FOUR_BYTE_ALIGN npa;
     let st = st\<lparr>q_pool := pl\<rparr>;
     if handle = POSAL_BUFPOOL_INVALID_HANDLE then Some (AR_EFAILED, st)
     else Some (AR_EOK, posal_queuepool_set_handle_from_heap_id st hid handle)
   }"

definition posal_queue_pool_reset :: "posal_queue_state \<Rightarrow> u32 \<Rightarrow> posal_queue_state option" where
  "posal_queue_pool_reset st hid = do {
     pl \<leftarrow> posal_bufpool_pool_free_unused_lists (q_pool st) (posal_queuepool_get_handle_from_heap_id st hid);
     Some (st\<lparr>q_pool := pl\<rparr>)
   }"

definition posal_queue_pool_destroy :: "posal_queue_state \<Rightarrow> u32 \<Rightarrow> posal_queue_state option" where
  "posal_queue_pool_destroy st hid = do {
     pl \<leftarrow> posal_bufpool_pool_destroy (q_pool st) (posal_queuepool_get_handle_from_heap_id st hid);
     Some (st\<lparr>q_pool := pl\<rparr>)
   }"

subsection \<open>Nodes\<close>

definition posal_queue_create_node ::
    "q_env \<Rightarrow> posal_queue_state \<Rightarrow> posal_queue_internal \<Rightarrow> (ptr \<times> posal_queue_state) option" where
  "posal_queue_create_node env st q = do {
     (p, st) \<leftarrow> (if \<not> is_priority_queue q then do {
                   (p, pl) \<leftarrow> posal_bufpool_get_node (q_pool_mal env) (q_pool st)
                               (posal_queuepool_get_handle_from_heap_id st (heap_id q));
                   Some (p, st\<lparr>q_pool := pl\<rparr>)
                 }
                 else Some (q_heap_mal env, st));
     (case p of None \<Rightarrow> Some (None, st)
      | Some a \<Rightarrow> Some (Some a, st\<lparr>q_nodes := (q_nodes st)(a \<mapsto> q_garbage env)\<rparr>))
   }"

definition posal_queue_release_node :: "posal_queue_state \<Rightarrow> posal_queue_internal \<Rightarrow> ptr \<Rightarrow> posal_queue_state option" where
  "posal_queue_release_node st q p = do {
     a \<leftarrow> p;
     _ \<leftarrow> q_nodes st a;
     if \<not> is_priority_queue q then do {
       pl \<leftarrow> posal_bufpool_return_node (q_pool st) a;
       Some (st\<lparr>q_pool := pl, q_nodes := (q_nodes st)(a := None)\<rparr>)
     }
     else Some (st\<lparr>q_nodes := (q_nodes st)(a := None)\<rparr>)
   }"

text \<open>The first node of a queue: it is its own successor and predecessor.\<close>

definition link_first ::
    "posal_queue_element_list store \<Rightarrow> posal_queue_internal \<Rightarrow> addr \<Rightarrow> (posal_queue_element_list store \<times> posal_queue_internal) option" where
  "link_first h q a = do {
     let q = q\<lparr>active_head_ptr := Some a, active_tail_ptr := Some a\<rparr>;
     h \<leftarrow> wr_prev h (Some a) (Some a);
     h \<leftarrow> wr_next h (Some a) (Some a);
     Some (h, q)
   }"

text \<open>A further node, put behind the tail; the tail pointer is left to the caller.\<close>

definition link_after_tail ::
    "posal_queue_element_list store \<Rightarrow> posal_queue_internal \<Rightarrow> addr \<Rightarrow> posal_queue_element_list store option" where
  "link_after_tail h q a = do {
     h \<leftarrow> wr_prev h (Some a) (active_tail_ptr q);
     n \<leftarrow> rd_next h (active_tail_ptr q);
     h \<leftarrow> wr_next h (Some a) n;
     n \<leftarrow> rd_next h (active_tail_ptr q);
     h \<leftarrow> wr_prev h n (Some a);
     wr_next h (active_tail_ptr q) (Some a)
   }"

definition link_before_head ::
    "posal_queue_element_list store \<Rightarrow> posal_queue_internal \<Rightarrow> addr \<Rightarrow> posal_queue_element_list store option" where
  "link_before_head h q a = do {
     h \<leftarrow> wr_next h (Some a) (active_head_ptr q);
     p \<leftarrow> rd_prev h (active_head_ptr q);
     h \<leftarrow> wr_prev h (Some a) p;
     p \<leftarrow> rd_prev h (active_head_ptr q);
     h \<leftarrow> wr_next h p (Some a);
     wr_prev h (active_head_ptr q) (Some a)
   }"

definition set_signal :: "posal_queue_state \<Rightarrow> posal_queue_internal \<Rightarrow> posal_queue_state option" where
  "set_signal st q = do {
     chs \<leftarrow> posal_linux_signal_set (chans st) (channel_ptr q) (channel_bit q);
     Some (st\<lparr>chans := chs\<rparr>)
   }"

definition clear_signal :: "posal_queue_state \<Rightarrow> posal_queue_internal \<Rightarrow> posal_queue_state option" where
  "clear_signal st q = do {
     chs \<leftarrow> posal_linux_signal_clear (chans st) (channel_ptr q) (channel_bit q);
     Some (st\<lparr>chans := chs\<rparr>)
   }"

subsection \<open>Putting elements in\<close>

text \<open>
  The middle part of \<open>posal_queue_push_back\<close>: afterwards \<open>active_tail_ptr\<close> is the node for the
  new element. The result is \<open>AR_EOK\<close> or \<open>AR_ENOMEMORY\<close>.
\<close>

definition tail_for_push ::
    "q_env \<Rightarrow> posal_queue_state \<Rightarrow> posal_queue_internal \<Rightarrow> (u32 \<times> posal_queue_internal \<times> posal_queue_state) option" where
  "tail_for_push env st q =
    (if active_nodes q = num_nodes q then do {
       (node_ptr, st) \<leftarrow> posal_queue_create_node env st q;
       (case node_ptr of
          None \<Rightarrow> Some (AR_ENOMEMORY, q, st)
        | Some a \<Rightarrow> do {
            (h, q) \<leftarrow> (if num_nodes q = 0 then link_first (q_nodes st) q a
                       else do {
                         h \<leftarrow> link_after_tail (q_nodes st) q a;
                         Some (h, q\<lparr>active_tail_ptr := Some a\<rparr>)
                       });
            Some (AR_EOK, q\<lparr>num_nodes := num_nodes q + 1\<rparr>, st\<lparr>q_nodes := h\<rparr>)
          })
     }
     else if 0 <s active_nodes q then do {
       n \<leftarrow> rd_next (q_nodes st) (active_tail_ptr q);
       Some (AR_EOK, q\<lparr>active_tail_ptr := n\<rparr>, st)
     }
     else Some (AR_EOK, q, st))"

definition posal_queue_push_back ::
    "q_env \<Rightarrow> posal_queue_state \<Rightarrow> posal_queue_internal option \<Rightarrow> posal_queue_element \<Rightarrow>
     (u32 \<times> posal_queue_internal option \<times> posal_queue_state) option" where
  "posal_queue_push_back env st q_ptr e =
    (case q_ptr of
       None \<Rightarrow> Some (AR_EBADPARAM, None, st)
     | Some q \<Rightarrow>
         if channel_ptr q = None then Some (AR_EBADPARAM, Some q, st)
         else if active_nodes q = max_nodes q then Some (AR_ENEEDMORE, Some q, st)
         else do {
           (rc, q, st) \<leftarrow> tail_for_push env st q;
           if rc \<noteq> AR_EOK then Some (rc, Some q, st)
           else do {
             h \<leftarrow> wr_elem (q_nodes st) (active_tail_ptr q) e;
             let st = st\<lparr>q_nodes := h\<rparr>;
             let q = q\<lparr>active_nodes := active_nodes q + 1\<rparr>;
             st \<leftarrow> (if \<not> disable_signaling q then set_signal st q else Some st);
             Some (AR_EOK, Some q, st)
           }
         })"

definition head_for_insert ::
    "q_env \<Rightarrow> posal_queue_state \<Rightarrow> posal_queue_internal \<Rightarrow> (u32 \<times> posal_queue_internal \<times> posal_queue_state) option" where
  "head_for_insert env st q =
    (if active_nodes q = num_nodes q then do {
       (node_ptr, st) \<leftarrow> posal_queue_create_node env st q;
       (case node_ptr of
          None \<Rightarrow> Some (AR_ENOMEMORY, q, st)
        | Some a \<Rightarrow> do {
            (h, q) \<leftarrow> (if num_nodes q = 0 then link_first (q_nodes st) q a
                       else do {
                         h \<leftarrow> link_before_head (q_nodes st) q a;
                         Some (h, q\<lparr>active_head_ptr := Some a\<rparr>)
                       });
            Some (AR_EOK, q\<lparr>num_nodes := num_nodes q + 1\<rparr>, st\<lparr>q_nodes := h\<rparr>)
          })
     }
     else if 0 <s active_nodes q then do {
       p \<leftarrow> rd_prev (q_nodes st) (active_head_ptr q);
       Some (AR_EOK, q\<lparr>active_head_ptr := p\<rparr>, st)
     }
     else Some (AR_EOK, q, st))"

definition posal_queue_insert_front ::
    "q_env \<Rightarrow> posal_queue_state \<Rightarrow> posal_queue_internal option \<Rightarrow> posal_queue_element \<Rightarrow>
     (u32 \<times> posal_queue_internal option \<times> posal_queue_state) option" where
  "posal_queue_insert_front env st q_ptr e =
    (case q_ptr of
       None \<Rightarrow> Some (AR_EBADPARAM, None, st)
     | Some q \<Rightarrow>
         if channel_ptr q = None then Some (AR_EBADPARAM, Some q, st)
         else if active_nodes q = max_nodes q then Some (AR_ENEEDMORE, Some q, st)
         else do {
           (rc, q, st) \<leftarrow> head_for_insert env st q;
           if rc \<noteq> AR_EOK then Some (rc, Some q, st)
           else do {
             h \<leftarrow> wr_elem (q_nodes st) (active_head_ptr q) e;
             let st = st\<lparr>q_nodes := h\<rparr>;
             let q = q\<lparr>active_nodes := active_nodes q + 1\<rparr>;
             st \<leftarrow> (if \<not> disable_signaling q then set_signal st q else Some st);
             Some (AR_EOK, Some q, st)
           }
         })"

text \<open>The search for the node behind which a node of the given priority belongs.\<close>

fun priority_loop :: "posal_queue_element_list store \<Rightarrow> nat \<Rightarrow> ptr \<Rightarrow> u32 \<Rightarrow> ptr option" where
  "priority_loop h 0 dst prio = Some dst"
| "priority_loop h (Suc n) dst prio =
     (case load h dst of None \<Rightarrow> None
      | Some d \<Rightarrow> if prio \<le> priority d then Some dst else priority_loop h n (prev_ptr d) prio)"

text \<open>Moving the node \<open>src\<close> behind the node \<open>dst\<close>, in the order of the assignments of the code.\<close>

definition move_behind ::
    "posal_queue_element_list store \<Rightarrow> ptr \<Rightarrow> ptr \<Rightarrow> posal_queue_element_list store option" where
  "move_behind h src dst = do {
     sp \<leftarrow> rd_prev h src;
     sn \<leftarrow> rd_next h src;
     h \<leftarrow> wr_next h sp sn;
     sn \<leftarrow> rd_next h src;
     sp \<leftarrow> rd_prev h src;
     h \<leftarrow> wr_prev h sn sp;
     dn \<leftarrow> rd_next h dst;
     h \<leftarrow> wr_prev h dn src;
     dn \<leftarrow> rd_next h dst;
     h \<leftarrow> wr_next h src dn;
     h \<leftarrow> wr_next h dst src;
     wr_prev h src dst
   }"

definition place_by_priority ::
    "posal_queue_element_list store \<Rightarrow> posal_queue_internal \<Rightarrow> u32 \<Rightarrow>
     (posal_queue_internal \<times> posal_queue_element_list store) option" where
  "place_by_priority h q prio = do {
     let src = active_tail_ptr q;
     dst \<leftarrow> rd_prev h src;
     dst \<leftarrow> priority_loop h (unat (scast (active_nodes q) - 1 :: u32)) dst prio;
     dn \<leftarrow> rd_next h dst;
     let q = (if dn = active_head_ptr q then q\<lparr>active_head_ptr := src\<rparr> else q);
     if dn = src then Some (q, h)
     else do {
       sp \<leftarrow> rd_prev h src;
       let q = q\<lparr>active_tail_ptr := sp\<rparr>;
       h \<leftarrow> (if dst \<noteq> src then move_behind h src dst else Some h);
       Some (q, h)
     }
   }"

definition posal_queue_push_back_with_priority ::
    "q_env \<Rightarrow> posal_queue_state \<Rightarrow> posal_queue_internal option \<Rightarrow> posal_queue_element \<Rightarrow> u32 \<Rightarrow>
     (u32 \<times> posal_queue_internal option \<times> posal_queue_state) option" where
  "posal_queue_push_back_with_priority env st q_ptr e prio = do {
     (result, q_ptr, st) \<leftarrow> posal_queue_push_back env st q_ptr e;
     if result \<noteq> AR_EOK then Some (result, q_ptr, st)
     else do {
       q \<leftarrow> q_ptr;
       if \<not> (1 <s active_nodes q \<and> is_priority_queue q) then Some (result, Some q, st)
       else do {
         h \<leftarrow> modify (q_nodes st) (active_tail_ptr q) (priority_update (\<lambda>_. prio));
         let st = st\<lparr>q_nodes := h\<rparr>;
         if prio > 0 then do {
           (q, h) \<leftarrow> place_by_priority h q prio;
           Some (result, Some q, st\<lparr>q_nodes := h\<rparr>)
         }
         else Some (result, Some q, st)
       }
     }
   }"

subsection \<open>Taking elements out\<close>

definition posal_queue_pop_front ::
    "posal_queue_state \<Rightarrow> posal_queue_internal option \<Rightarrow>
     (u32 \<times> posal_queue_element option \<times> posal_queue_internal option \<times> posal_queue_state) option" where
  "posal_queue_pop_front st q_ptr = do {
     q \<leftarrow> q_ptr;
     if channel_ptr q = None then Some (AR_EBADPARAM, None, Some q, st)
     else if active_nodes q = 0 then Some (AR_ENEEDMORE, None, Some q, st)
     else do {
       payload \<leftarrow> rd_elem (q_nodes st) (active_head_ptr q);
       let q = q\<lparr>active_nodes := active_nodes q - 1\<rparr>;
       if active_nodes q = 0 then do {
         st \<leftarrow> clear_signal st q;
         Some (AR_EOK, Some payload, Some q, st)
       }
       else do {
         n \<leftarrow> rd_next (q_nodes st) (active_head_ptr q);
         Some (AR_EOK, Some payload, Some (q\<lparr>active_head_ptr := n\<rparr>), st)
       }
     }
   }"

definition posal_queue_pop_back ::
    "posal_queue_state \<Rightarrow> posal_queue_internal option \<Rightarrow>
     (u32 \<times> posal_queue_element option \<times> posal_queue_internal option \<times> posal_queue_state) option" where
  "posal_queue_pop_back st q_ptr = do {
     q \<leftarrow> q_ptr;
     if channel_ptr q = None then Some (AR_EBADPARAM, None, Some q, st)
     else if active_nodes q = 0 then Some (AR_ENEEDMORE, None, Some q, st)
     else do {
       payload \<leftarrow> rd_elem (q_nodes st) (active_tail_ptr q);
       let q = q\<lparr>active_nodes := active_nodes q - 1\<rparr>;
       if active_nodes q = 0 then do {
         st \<leftarrow> clear_signal st q;
         Some (AR_EOK, Some payload, Some q, st)
       }
       else do {
         p \<leftarrow> rd_prev (q_nodes st) (active_tail_ptr q);
         Some (AR_EOK, Some payload, Some (q\<lparr>active_tail_ptr := p\<rparr>), st)
       }
     }
   }"

text \<open>The second result is the new \<open>*payload_ptr\<close>: the address of the element, which is that of its node.\<close>

definition posal_queue_peek_front ::
    "posal_queue_state \<Rightarrow> posal_queue_internal option \<Rightarrow> ptr \<Rightarrow> (u32 \<times> ptr) option" where
  "posal_queue_peek_front st q_ptr payload = do {
     q \<leftarrow> q_ptr;
     if channel_ptr q = None then Some (AR_EBADPARAM, payload)
     else if active_nodes q = 0 then Some (AR_ENEEDMORE, payload)
     else Some (AR_EOK, active_head_ptr q)
   }"

text \<open>The arguments \<open>payload\<close> and \<open>iterator\<close> say whether these pointers are \<open>NULL\<close>, and what they point to.\<close>

definition posal_queue_peek_forward ::
    "posal_queue_state \<Rightarrow> posal_queue_internal option \<Rightarrow> ptr option \<Rightarrow> ptr option \<Rightarrow> (u32 \<times> ptr option \<times> ptr option) option" where
  "posal_queue_peek_forward st q_ptr payload iterator =
    (case (iterator, payload) of
       (Some it, Some _) \<Rightarrow> do {
         q \<leftarrow> q_ptr;
         if active_nodes q = 0 \<or> active_tail_ptr q = it then Some (AR_ENEEDMORE, Some None, Some None)
         else do {
           it \<leftarrow> (if it = None then Some (active_head_ptr q) else rd_next (q_nodes st) it);
           Some (AR_EOK, Some it, Some it)
         }
       }
     | _ \<Rightarrow> Some (AR_EBADPARAM, payload, iterator))"

definition posal_queue_poll :: "posal_queue_state \<Rightarrow> posal_queue_internal \<Rightarrow> u32 option" where
  "posal_queue_poll st q = map_option (\<lambda>s. channel_bit q AND s) (posal_linux_signal_get (chans st) (channel_ptr q))"

text \<open>The signed count is converted to an unsigned 32-bit integer.\<close>

definition posal_queue_get_queue_fullness :: "posal_queue_internal option \<Rightarrow> u32" where
  "posal_queue_get_queue_fullness q_ptr = (case q_ptr of Some q \<Rightarrow> scast (active_nodes q) | None \<Rightarrow> 0)"

definition posal_queue_enable_disable_signaling ::
    "posal_queue_state \<Rightarrow> posal_queue_internal \<Rightarrow> bool \<Rightarrow> (u32 \<times> posal_queue_internal \<times> posal_queue_state) option" where
  "posal_queue_enable_disable_signaling st q is_enable =
    (let q = q\<lparr>disable_signaling := \<not> is_enable\<rparr> in
     if disable_signaling q then do { st \<leftarrow> clear_signal st q; Some (AR_EOK, q, st) }
     else if 0 <s active_nodes q then do { st \<leftarrow> set_signal st q; Some (AR_EOK, q, st) }
     else Some (AR_EOK, q, st))"

subsection \<open>Life of a queue\<close>

text \<open>The loop \<open>while (num_nodes > 0)\<close>: the ring is followed by its successor pointers.\<close>

function free_nodes_loop ::
    "posal_queue_state \<Rightarrow> posal_queue_internal \<Rightarrow> (posal_queue_internal \<times> posal_queue_state) option" where
  "free_nodes_loop st q =
    (if 0 <s num_nodes q then
       (case rd_next (q_nodes st) (active_head_ptr q) of
          None \<Rightarrow> None
        | Some n \<Rightarrow>
            (case posal_queue_release_node st q (active_head_ptr q) of
               None \<Rightarrow> None
             | Some st' \<Rightarrow> free_nodes_loop st' (q\<lparr>active_head_ptr := n, num_nodes := num_nodes q - 1\<rparr>)))
     else Some (q, st))"
  by pat_completeness auto
termination
proof (relation "measure (\<lambda>(_, q). unat (num_nodes q))", goal_cases)
  case (2 st q)
  then have "num_nodes q \<noteq> 0" by auto
  then show ?case by (simp add: measure_unat)
qed simp

declare free_nodes_loop.simps [simp del]

definition posal_queue_free_all_nodes ::
    "posal_queue_state \<Rightarrow> posal_queue_internal \<Rightarrow> (posal_queue_internal \<times> posal_queue_state) option" where
  "posal_queue_free_all_nodes st q = do {
     (q, st) \<leftarrow> free_nodes_loop st q;
     Some (q\<lparr>active_nodes := 0, active_head_ptr := None, active_tail_ptr := None\<rparr>, st)
   }"

text \<open>\<open>env i\<close> is what the allocators answer when \<open>i\<close> more nodes are still to be created.\<close>

fun prealloc_loop ::
    "(nat \<Rightarrow> q_env) \<Rightarrow> nat \<Rightarrow> posal_queue_state \<Rightarrow> posal_queue_internal \<Rightarrow>
     (u32 \<times> posal_queue_internal \<times> posal_queue_state) option" where
  "prealloc_loop env 0 st q = Some (AR_EOK, q, st)"
| "prealloc_loop env (Suc n) st q =
     (case posal_queue_create_node (env n) st q of
        None \<Rightarrow> None
      | Some (None, st) \<Rightarrow> map_option (\<lambda>(q, st). (AR_ENOMEMORY, q, st)) (posal_queue_free_all_nodes st q)
      | Some (Some a, st) \<Rightarrow>
          (case (if num_nodes q = 0 then link_first (q_nodes st) q a
                 else map_option (\<lambda>h. (h, q)) (link_after_tail (q_nodes st) q a)) of
             None \<Rightarrow> None
           | Some (h, q) \<Rightarrow> prealloc_loop env n (st\<lparr>q_nodes := h\<rparr>) (q\<lparr>num_nodes := num_nodes q + 1\<rparr>)))"

definition posal_queue_create_prealloc_nodes ::
    "(nat \<Rightarrow> q_env) \<Rightarrow> posal_queue_state \<Rightarrow> posal_queue_internal \<Rightarrow> i32 \<Rightarrow>
     (u32 \<times> posal_queue_internal \<times> posal_queue_state) option" where
  "posal_queue_create_prealloc_nodes env st q prealloc =
    (if prealloc = 0 then Some (AR_EOK, q, st)
     else if prealloc <s 0 then Some (AR_EBADPARAM, q, st)
     else prealloc_loop env (unat prealloc) st q)"

text \<open>\<open>max_nodes\<close> is stored in 16 bits. Either pointer may be \<open>NULL\<close>.\<close>

definition posal_queue_init ::
    "(nat \<Rightarrow> q_env) \<Rightarrow> posal_queue_state \<Rightarrow> posal_queue_internal option \<Rightarrow> posal_queue_init_attr option \<Rightarrow>
     (u32 \<times> posal_queue_internal option \<times> posal_queue_state) option" where
  "posal_queue_init env st q_ptr attr_ptr =
    (case (q_ptr, attr_ptr) of
       (Some q, Some attr) \<Rightarrow>
         if a_max_nodes attr \<le>s 0 then Some (AR_EBADPARAM, q_ptr, st)
         else if a_max_nodes attr <s a_prealloc_nodes attr then Some (AR_EBADPARAM, q_ptr, st)
         else do {
           (result, q, st) \<leftarrow> posal_queue_create_prealloc_nodes env st
             \<lparr>channel_ptr = None, active_head_ptr = None, active_tail_ptr = None, heap_id = a_heap_id attr, channel_bit = 0,
              active_nodes = 0, num_nodes = 0, max_nodes = ucast (a_max_nodes attr),
              is_priority_queue = a_is_priority_queue attr, disable_signaling = False\<rparr> (a_prealloc_nodes attr);
           Some (result, Some q, st)
         }
     | _ \<Rightarrow> Some (AR_EBADPARAM, q_ptr, st))"

definition posal_queue_deinit ::
    "posal_queue_state \<Rightarrow> posal_queue_internal option \<Rightarrow> (posal_queue_internal option \<times> posal_queue_state) option" where
  "posal_queue_deinit st q_ptr =
    (case q_ptr of
       None \<Rightarrow> Some (None, st)
     | Some q \<Rightarrow> do {
         chs \<leftarrow> (if channel_ptr q \<noteq> None then xor_bits_used (chans st) (channel_ptr q) (channel_bit q) else Some (chans st));
         (q, st) \<leftarrow> posal_queue_free_all_nodes (st\<lparr>chans := chs\<rparr>) (q\<lparr>channel_ptr := None\<rparr>);
         Some (Some q, st)
       })"

text \<open>Adding a queue to a channel (\<^verbatim>\<open>posal_channel.c\<close>).\<close>

definition posal_channel_addq ::
    "posal_queue_state \<Rightarrow> ptr \<Rightarrow> posal_queue_internal \<Rightarrow> u32 \<Rightarrow> (u32 \<times> posal_queue_internal \<times> posal_queue_state) option" where
  "posal_channel_addq st pCh q unBitMask = do {
     (result, unBitMask, chs) \<leftarrow> move_to_channel (chans st) pCh (channel_ptr q) (channel_bit q) unBitMask;
     if result \<noteq> AR_EOK then Some (result, q, st\<lparr>chans := chs\<rparr>)
     else Some (AR_EOK, q\<lparr>channel_ptr := pCh, channel_bit := unBitMask\<rparr>, st\<lparr>chans := chs\<rparr>)
   }"

end
