(* ===== verification/Message_Queue.thy ===== *)
theory Message_Queue
  imports Main
begin

text \<open>
  The interface of a message queue that several producers fill and a consumer empties. The
  abstract state is the list of waiting elements. Putting in may be refused (the flag of
  \<open>push\<close>), and is a relation because it depends on what an allocator answers; taking out
  is a function.
\<close>

datatype 'e q_event = Push 'e bool | Pop "'e option"

fun pushed :: "'e q_event list \<Rightarrow> 'e list" where
  "pushed [] = []"
| "pushed (Push e ok # evs) = (if ok then e # pushed evs else pushed evs)"
| "pushed (Pop _ # evs) = pushed evs"

fun popped :: "'e q_event list \<Rightarrow> 'e list" where
  "popped [] = []"
| "popped (Push _ _ # evs) = popped evs"
| "popped (Pop r # evs) = (case r of None \<Rightarrow> popped evs | Some e \<Rightarrow> e # popped evs)"

text \<open>Executions: any interleaving of operations, with what each of them did.\<close>

inductive fifo_run :: "('s \<Rightarrow> 'e \<Rightarrow> bool \<Rightarrow> 's \<Rightarrow> bool) \<Rightarrow> ('s \<Rightarrow> ('e option \<times> 's) option) \<Rightarrow> 's \<Rightarrow> 'e q_event list \<Rightarrow> 's \<Rightarrow> bool"
  for push pop where
  run_stop: "fifo_run push pop s [] s"
| run_push: "push s e ok s1 \<Longrightarrow> fifo_run push pop s1 evs s2 \<Longrightarrow> fifo_run push pop s (Push e ok # evs) s2"
| run_pop: "pop s = Some (r, s1) \<Longrightarrow> fifo_run push pop s1 evs s2 \<Longrightarrow> fifo_run push pop s (Pop r # evs) s2"

inductive_cases run_pop_cases: "fifo_run push pop s (Pop r # evs) s'"

locale message_queue =
  fixes rel :: "'s \<Rightarrow> 'e list \<Rightarrow> bool"
    and push :: "'s \<Rightarrow> 'e \<Rightarrow> bool \<Rightarrow> 's \<Rightarrow> bool"
    and pop :: "'s \<Rightarrow> ('e option \<times> 's) option"
  assumes push_law: "rel s xs \<Longrightarrow> push s e ok s' \<Longrightarrow> rel s' (if ok then xs @ [e] else xs)"
    and pop_law: "rel s (x # xs) \<Longrightarrow> \<exists>s'. pop s = Some (Some x, s') \<and> rel s' xs"
    and pop_empty_law: "rel s [] \<Longrightarrow> pop s = Some (None, s)"
begin

lemma pop_cases:
  assumes "rel s xs"
  shows "\<exists>r s'. pop s = Some (r, s') \<and> rel s' (tl xs) \<and> r = (case xs of [] \<Rightarrow> None | x # _ \<Rightarrow> Some x)"
proof (cases xs)
  case Nil
  then show ?thesis using assms pop_empty_law [of s] by simp
next
  case (Cons x ys)
  then show ?thesis using assms pop_law [of s x ys] by simp
qed

text \<open>Elements come out in the order in which they went in, none is lost and none is duplicated.\<close>

lemma fifo:
  assumes "fifo_run push pop s evs s'" "rel s xs"
  shows "\<exists>ys. rel s' ys \<and> popped evs @ ys = xs @ pushed evs"
  using assms
proof (induction arbitrary: xs rule: fifo_run.induct)
  case (run_stop s)
  then show ?case by auto
next
  case (run_push s e ok s1 evs s2)
  then have "rel s1 (if ok then xs @ [e] else xs)" using push_law by blast
  then show ?case using run_push.IH by (cases ok) fastforce+
next
  case (run_pop s r s1 evs s2)
  obtain r' s' where p: "pop s = Some (r', s')" "rel s' (tl xs)" "r' = (case xs of [] \<Rightarrow> None | x # _ \<Rightarrow> Some x)"
    using pop_cases [OF run_pop.prems] by blast
  then have "rel s1 (tl xs)" "r = r'" using run_pop.hyps(1) by auto
  then show ?case using run_pop.IH p(3) by (cases xs) fastforce+
qed

text \<open>A queue can always be emptied, by as many operations as it has elements.\<close>

lemma drain:
  assumes "rel s xs"
  shows "\<exists>s'. fifo_run push pop s (map (\<lambda>x. Pop (Some x)) xs) s' \<and> rel s' []"
  using assms
proof (induction xs arbitrary: s)
  case Nil
  then show ?case by (auto intro: run_stop)
next
  case (Cons x xs)
  then obtain s1 where "pop s = Some (Some x, s1)" "rel s1 xs" using pop_law by blast
  then show ?case using Cons.IH [of s1] by (auto intro: run_pop)
qed

end

end
