(* ===== verification/Posal_Queue_Proofs.thy ===== *)
theory Posal_Queue_Proofs
  imports Posal_Queue Bufpool_Proofs Message_Queue
begin

text \<open>
  Correctness of the message queue of theory \<open>Posal_Queue\<close> and of the channels of theory
  \<open>Posal_Channel\<close>. \<open>queue_ok st q ns\<close> is the invariant (the nodes form a ring \<open>ns\<close> from the head
  on, the counts fit in 16 bits, the nodes are in use in the buffer pool), \<open>contents\<close> the
  waiting elements; \<open>queue_rel\<close> adds that the channel shows the queue's bit exactly when
  there is something to read. The operations implement those of theory \<open>Message_Queue\<close>,
  whose contract is interpreted here, and nodes are obtained and returned through the
  contract of theory \<open>Node_Allocator\<close>.
\<close>

subsection \<open>Rings of nodes\<close>

lemma ring_rot: "ring h (xs @ ys) \<Longrightarrow> ring h (ys @ xs)"
proof (induction xs arbitrary: ys)
  case (Cons x xs)
  then have "ring h ((xs @ ys) @ [x])" using ring_rotate1 [of h "(x # xs) @ ys"] by simp
  then show ?case using Cons.IH [of "ys @ [x]"] by simp
qed simp

lemma ring_nth:
  assumes "ring h ns" "i < length ns"
  shows "nxt h (ns ! i) = Some (if Suc i < length ns then ns ! Suc i else hd ns)"
    "prv h (ns ! i) = Some (if i = 0 then last ns else ns ! (i - 1))" "ns ! i \<in> dom h"
proof -
  have d: "dseg h (Some (last ns)) ns (Some (hd ns))" using assms by (auto simp: ring_def)
  show "nxt h (ns ! i) = Some (if Suc i < length ns then ns ! Suc i else hd ns)"
    "prv h (ns ! i) = Some (if i = 0 then last ns else ns ! (i - 1))" using dseg_nth [OF d assms(2)] by auto
  show "ns ! i \<in> dom h" using ring_dom [OF assms(1)] nth_mem [OF assms(2)] by blast
qed

lemma ring_hd: "ring h ns \<Longrightarrow> ns \<noteq> [] \<Longrightarrow> prv h (hd ns) = Some (last ns) \<and> hd ns \<in> dom h"
  using ring_nth [of h ns 0] by (simp add: hd_conv_nth)

lemma ring_last: "ring h ns \<Longrightarrow> ns \<noteq> [] \<Longrightarrow> nxt h (last ns) = Some (hd ns) \<and> last ns \<in> dom h"
  using ring_nth [of h ns "length ns - 1"] by (simp add: last_conv_nth)

lemma ring_self: "a \<in> dom h \<Longrightarrow> ring (set_nxt a (Some a) (set_prv a (Some a) h)) [a]"
  by (simp add: ring_def)

text \<open>Putting a node between the last and the first, and taking the first out.\<close>

definition ring_add :: "addr \<Rightarrow> addr \<Rightarrow> addr \<Rightarrow> 'a dl_node_scheme store \<Rightarrow> 'a dl_node_scheme store" where
  "ring_add l a f h = set_nxt l (Some a) (set_prv f (Some a) (set_nxt a (Some f) (set_prv a (Some l) h)))"

lemma ring_insert:
  assumes r: "ring h ns" and ne: "ns \<noteq> []" and a: "a \<notin> set ns" "a \<in> dom h"
  shows "ring (ring_add (last ns) a (hd ns) h) (ns @ [a])"
proof -
  obtain x xs where ns: "ns = x # xs" using ne by (cases ns) auto
  have d: "dseg h (Some (last ns)) ns (Some x)" "distinct ns" using r ns by (auto simp: ring_def)
  let ?h1 = "set_nxt a (Some x) (set_prv a (Some (last ns)) h)"
  have "dseg ?h1 (Some (last ns)) ns (Some x)" using d(1) a(1) by simp
  then have "dseg (set_prv x (Some a) ?h1) (Some a) ns (Some x)" using d(2) unfolding ns by (intro dseg_set_prv_hd) auto
  then have "dseg (set_nxt (last ns) (Some a) (set_prv x (Some a) ?h1)) (Some a) ns (Some a)"
    using dseg_upd_nxt_endp [of _ "Some a" ns "Some x" "Some a"] d(2) ne by (simp add: endp_def)
  moreover have "x \<noteq> a" "last ns \<noteq> a" using a(1) ns last_in_set [OF ne] by auto
  ultimately show ?thesis using ns a d(2) ne
    by (auto simp: ring_add_def ring_def dseg_append endp_def)
qed

lemma ring_remove:
  assumes r: "ring h (a # ns)" and ne: "ns \<noteq> []"
  shows "ring (set_prv (hd ns) (Some (last ns)) (set_nxt (last ns) (Some (hd ns)) h)) ns"
proof -
  obtain x xs where ns: "ns = x # xs" using ne by (cases ns) auto
  have d: "dseg h (Some a) ns (Some a)" "distinct ns" using r ns by (auto simp: ring_def)
  then have "dseg (set_nxt (last ns) (Some x) h) (Some a) ns (Some x)"
    using dseg_upd_nxt_endp [of h "Some a" ns "Some a" "Some x"] ne by (simp add: endp_def)
  then have "dseg (set_prv x (Some (last ns)) (set_nxt (last ns) (Some x) h)) (Some (last ns)) ns (Some x)"
    using d(2) unfolding ns by (intro dseg_set_prv_hd) auto
  then show ?thesis using ns d(2) by (simp add: ring_def)
qed

text \<open>The fields of a node that the links do not touch.\<close>

definition elem_at :: "posal_queue_element_list store \<Rightarrow> addr \<Rightarrow> posal_queue_element" where
  "elem_at h a = elem (the (h a))"

definition prio_at :: "posal_queue_element_list store \<Rightarrow> addr \<Rightarrow> u32" where
  "prio_at h a = priority (the (h a))"

lemma fields_set [simp]:
  "b \<in> dom h \<Longrightarrow> elem_at (set_nxt a v h) b = elem_at h b" "b \<in> dom h \<Longrightarrow> elem_at (set_prv a v h) b = elem_at h b"
  "b \<in> dom h \<Longrightarrow> prio_at (set_nxt a v h) b = prio_at h b" "b \<in> dom h \<Longrightarrow> prio_at (set_prv a v h) b = prio_at h b"
  by (auto simp: elem_at_def prio_at_def set_nxt_def set_prv_def)

definition set_elem :: "addr \<Rightarrow> posal_queue_element \<Rightarrow> posal_queue_element_list store \<Rightarrow> posal_queue_element_list store" where
  "set_elem a e h = h(a := map_option (elem_update (\<lambda>_. e)) (h a))"

definition set_prio :: "addr \<Rightarrow> u32 \<Rightarrow> posal_queue_element_list store \<Rightarrow> posal_queue_element_list store" where
  "set_prio a v h = h(a := map_option (priority_update (\<lambda>_. v)) (h a))"

lemma wr_elem_Some [mem_simps]: "a \<in> dom h \<Longrightarrow> wr_elem h (Some a) e = Some (set_elem a e h)"
  by (auto simp: wr_elem_def set_elem_def modify_def)

lemma rd_elem_Some [mem_simps]: "a \<in> dom h \<Longrightarrow> rd_elem h (Some a) = Some (elem_at h a)"
  by (auto simp: rd_elem_def elem_at_def)

lemma set_elem_simps [simp]:
  "dom (set_elem a e h) = dom h" "nxt (set_elem a e h) = nxt h" "prv (set_elem a e h) = prv h"
  "a \<in> dom h \<Longrightarrow> elem_at (set_elem a e h) = (elem_at h)(a := e)" "a \<in> dom h \<Longrightarrow> prio_at (set_elem a e h) = prio_at h"
  by (cases "h a"; auto simp: set_elem_def nxt_def prv_def elem_at_def prio_at_def fun_eq_iff)+

lemma set_prio_simps [simp]:
  "dom (set_prio a v h) = dom h" "nxt (set_prio a v h) = nxt h" "prv (set_prio a v h) = prv h"
  "a \<in> dom h \<Longrightarrow> prio_at (set_prio a v h) = (prio_at h)(a := v)" "a \<in> dom h \<Longrightarrow> elem_at (set_prio a v h) = elem_at h"
  by (cases "h a"; auto simp: set_prio_def nxt_def prv_def elem_at_def prio_at_def fun_eq_iff)+

lemma ring_set_elem [simp]: "ring (set_elem a e h) ns = ring h ns" "ring (set_prio a v h) ns = ring h ns"
  by (rule ring_cong, simp)+

subsection \<open>The state of a queue\<close>

text \<open>
  \<open>queue_ok st q ns\<close>: the nodes of \<open>q\<close> form the ring \<open>ns\<close>, starting at the head, the first
  \<open>active_nodes\<close> of them hold the elements, and the counts fit in signed 16-bit integers.
\<close>

definition queue_ok :: "posal_queue_state \<Rightarrow> posal_queue_internal \<Rightarrow> addr list \<Rightarrow> bool" where
  "queue_ok st q ns \<longleftrightarrow> ring (q_nodes st) ns \<and> length ns = unat (num_nodes q) \<and> unat (active_nodes q) \<le> length ns
     \<and> length ns \<le> unat (max_nodes q) \<and> unat (max_nodes q) < 2 ^ 15
     \<and> (ns \<noteq> [] \<longrightarrow> active_head_ptr q = Some (hd ns) \<and> active_tail_ptr q = Some (ns ! (unat (active_nodes q) - 1)))
     \<and> (\<exists>c. channel_ptr q = Some c \<and> c \<in> dom (chans st))
     \<and> (\<not> is_priority_queue q \<longrightarrow> bufpool_inv (q_pool st) \<and> set ns \<subseteq> live_nodes (q_pool st))"

definition contents :: "posal_queue_state \<Rightarrow> posal_queue_internal \<Rightarrow> addr list \<Rightarrow> posal_queue_element list" where
  "contents st q ns = map (elem_at (q_nodes st)) (take (unat (active_nodes q)) ns)"

definition q_env_ok :: "q_env \<Rightarrow> posal_queue_state \<Rightarrow> posal_queue_internal \<Rightarrow> bool" where
  "q_env_ok env st q \<longleftrightarrow> (if is_priority_queue q then set_option (q_heap_mal env) \<inter> dom (q_nodes st) = {}
     else \<forall>k. mal_ok (q_pool_mal env) (q_pool st) k)"

lemma create_node_ok:
  assumes "queue_ok st q ns" "q_env_ok env st q"
  shows "\<exists>p pl. posal_queue_create_node env st q = Some (p, case p of None \<Rightarrow> st\<lparr>q_pool := pl\<rparr>
        | Some a \<Rightarrow> st\<lparr>q_pool := pl, q_nodes := (q_nodes st)(a \<mapsto> q_garbage env)\<rparr>)
    \<and> (is_priority_queue q \<longrightarrow> pl = q_pool st)
    \<and> (case p of None \<Rightarrow> \<not> is_priority_queue q \<longrightarrow> bufpool_inv pl \<and> live_nodes pl = live_nodes (q_pool st)
       | Some a \<Rightarrow> a \<notin> set ns \<and> (\<not> is_priority_queue q \<longrightarrow> bufpool_inv pl \<and> a \<notin> live_nodes (q_pool st)
            \<and> live_nodes pl = insert a (live_nodes (q_pool st))))"
proof (cases "is_priority_queue q")
  case True
  have "set ns \<subseteq> dom (q_nodes st)" using assms(1) ring_dom by (auto simp: queue_ok_def)
  then show ?thesis using True assms(2)
    by (intro exI [of _ "q_heap_mal env"] exI [of _ "q_pool st"])
      (auto simp: posal_queue_create_node_def q_env_ok_def split: option.split)
next
  case False
  let ?hdl = "posal_queuepool_get_handle_from_heap_id st (heap_id q)"
  have g: "bufpool_inv (q_pool st)" "\<forall>k. mal_ok (q_pool_mal env) (q_pool st) k" "set ns \<subseteq> live_nodes (q_pool st)"
    using assms False by (auto simp: queue_ok_def q_env_ok_def)
  from bufpool.get_law [of "q_pool st" "(q_pool_mal env, ?hdl)"] g
  obtain r pl where get: "posal_bufpool_get_node (q_pool_mal env) (q_pool st) ?hdl = Some (r, pl)" "bufpool_inv pl"
    "case r of None \<Rightarrow> live_nodes pl = live_nodes (q_pool st)
     | Some a \<Rightarrow> a \<notin> live_nodes (q_pool st) \<and> live_nodes pl = insert a (live_nodes (q_pool st))" by auto
  then show ?thesis using False g(3)
    by (intro exI [of _ r] exI [of _ pl]) (auto simp: posal_queue_create_node_def split: option.splits)
qed

lemma ring_upd [simp]: "a \<notin> set xs \<Longrightarrow> ring (h(a \<mapsto> n)) xs = ring h xs"
  by (rule ring_cong) auto

lemma fields_ring_add [simp]:
  "b \<in> dom h \<Longrightarrow> elem_at (ring_add l a f h) b = elem_at h b" "b \<in> dom h \<Longrightarrow> prio_at (ring_add l a f h) b = prio_at h b"
  by (simp_all add: ring_add_def)

lemma sint_small: "unat (w :: i16) < 2 ^ 15 \<Longrightarrow> sint w = int (unat w)"
proof -
  assume "unat w < 2 ^ 15"
  then have "int (unat w) < int (2 ^ 15)" by (simp only: of_nat_less_iff)
  then have "uint w < 2 ^ 15" by simp
  moreover have "- (2 ^ 15) \<le> uint w" by (rule order_trans [of _ 0]) simp_all
  ultimately have "signed_take_bit 15 (uint w) = uint w" by (simp add: signed_take_bit_int_eq_self)
  then show ?thesis by (simp add: sint_uint)
qed

lemma sgt_zero: "unat (w :: i16) < 2 ^ 15 \<Longrightarrow> 0 <s w \<longleftrightarrow> w \<noteq> 0"
  by (simp add: word_sless_alt sint_small order_less_le) (metis uint_0_iff)

lemma unat_suc: "unat (w :: i16) < 2 ^ 15 \<Longrightarrow> unat (w + 1) = unat w + 1"
  by (simp add: unat_plus_if')

lemma queue_okD:
  assumes "queue_ok st q ns"
  shows "ring (q_nodes st) ns" "length ns = unat (num_nodes q)" "unat (active_nodes q) \<le> length ns"
    "length ns \<le> unat (max_nodes q)" "unat (max_nodes q) < 2 ^ 15"
    "ns \<noteq> [] \<Longrightarrow> active_head_ptr q = Some (hd ns)" "ns \<noteq> [] \<Longrightarrow> active_tail_ptr q = Some (ns ! (unat (active_nodes q) - 1))"
    "\<exists>c. channel_ptr q = Some c \<and> c \<in> dom (chans st)" "distinct ns" "set ns \<subseteq> dom (q_nodes st)"
  using assms ring_dom unfolding queue_ok_def by (auto simp: ring_def)

lemma queue_ok_small: "queue_ok st q ns \<Longrightarrow> unat (active_nodes q) < 2 ^ 15 \<and> unat (num_nodes q) < 2 ^ 15"
  using queue_okD(2-5) [of st q ns] by linarith

lemma queue_ok_full: "queue_ok st q ns \<Longrightarrow> active_nodes q = num_nodes q \<longleftrightarrow> unat (active_nodes q) = length ns"
  using queue_okD(2) [of st q ns] by (auto simp: word_unat_eq_iff)

text \<open>
  The step before an element is written: the ring \<open>ns'\<close> has room for one more element, and
  nothing but links has changed. New nodes were not in use before.
\<close>

definition room :: "posal_queue_state \<Rightarrow> posal_queue_internal \<Rightarrow> addr list \<Rightarrow> posal_queue_state \<Rightarrow> posal_queue_internal \<Rightarrow> addr list \<Rightarrow> bool" where
  "room st q ns st' q' ns' \<longleftrightarrow> ring (q_nodes st') ns' \<and> length ns' = unat (num_nodes q') \<and> length ns' \<le> unat (max_nodes q)
     \<and> unat (active_nodes q) < length ns'
     \<and> active_head_ptr q' = Some (hd ns') \<and> active_tail_ptr q' = Some (ns' ! unat (active_nodes q))
     \<and> q' = q\<lparr>active_head_ptr := active_head_ptr q', active_tail_ptr := active_tail_ptr q', num_nodes := num_nodes q'\<rparr>
     \<and> chans st' = chans st \<and> set ns \<subseteq> set ns'
     \<and> (\<forall>x\<in>set ns. elem_at (q_nodes st') x = elem_at (q_nodes st) x \<and> prio_at (q_nodes st') x = prio_at (q_nodes st) x)
     \<and> (\<forall>x. x \<notin> set ns' \<longrightarrow> q_nodes st' x = q_nodes st x)
     \<and> (\<not> is_priority_queue q \<longrightarrow> bufpool_inv (q_pool st') \<and> set ns' \<subseteq> live_nodes (q_pool st')
          \<and> live_nodes (q_pool st') = live_nodes (q_pool st) \<union> set ns' \<and> (set ns' - set ns) \<inter> live_nodes (q_pool st) = {})
     \<and> (is_priority_queue q \<longrightarrow> q_pool st' = q_pool st)"

lemma room_same:
  assumes k: "queue_ok st q ns" "unat (active_nodes q) < length ns"
    and ns': "ring (q_nodes st) ns'" "set ns' = set ns" "length ns' = length ns"
    and q': "q' = q\<lparr>active_head_ptr := Some (hd ns'), active_tail_ptr := Some (ns' ! unat (active_nodes q))\<rparr>"
  shows "room st q ns st q' ns'"
  using k ns' unfolding room_def q' queue_ok_def by auto

lemma room_new:
  assumes k: "queue_ok st q ns" "unat (active_nodes q) = length ns" "active_nodes q \<noteq> max_nodes q"
    and a: "a \<notin> set ns" "\<not> is_priority_queue q \<longrightarrow> bufpool_inv pl \<and> a \<notin> live_nodes (q_pool st) \<and> live_nodes pl = insert a (live_nodes (q_pool st))"
      "is_priority_queue q \<longrightarrow> pl = q_pool st"
    and h: "ring h ns'" "set ns' = insert a (set ns)" "length ns' = Suc (length ns)"
      "\<And>x. x \<notin> set ns' \<Longrightarrow> h x = q_nodes st x"
      "\<And>x. x \<in> set ns \<Longrightarrow> elem_at h x = elem_at (q_nodes st) x \<and> prio_at h x = prio_at (q_nodes st) x"
    and st': "st' = st\<lparr>q_pool := pl, q_nodes := h\<rparr>"
    and q': "q' = q\<lparr>active_head_ptr := Some (hd ns'), active_tail_ptr := Some (ns' ! length ns), num_nodes := num_nodes q + 1\<rparr>"
  shows "room st q ns st' q' ns'"
proof -
  have "unat (num_nodes q + 1) = Suc (length ns)" using queue_ok_small [OF k(1)] unat_suc queue_okD(2) [OF k(1)] by simp
  moreover have "length ns < unat (max_nodes q)"
    using k(2,3) queue_okD(4) [OF k(1)] by (metis le_neq_implies_less word_unat_eq_iff)
  moreover have "set ns \<subseteq> live_nodes (q_pool st)" if "\<not> is_priority_queue q" using k(1) that by (simp add: queue_ok_def)
  ultimately show ?thesis unfolding room_def st' q' using h k(2) a by auto
qed

lemma tail_for_push_ok:
  assumes k: "queue_ok st q ns" and e: "q_env_ok env st q" and m: "active_nodes q \<noteq> max_nodes q"
  shows "(\<exists>pl. tail_for_push env st q = Some (AR_ENOMEMORY, q, st\<lparr>q_pool := pl\<rparr>) \<and> queue_ok (st\<lparr>q_pool := pl\<rparr>) q ns
        \<and> (\<not> is_priority_queue q \<longrightarrow> live_nodes pl = live_nodes (q_pool st)))
    \<or> (\<exists>st' q' ns'. tail_for_push env st q = Some (AR_EOK, q', st') \<and> room st q ns st' q' ns'
         \<and> take (unat (active_nodes q)) ns' = take (unat (active_nodes q)) ns)"
proof (cases "active_nodes q = num_nodes q")
  case True
  have act: "unat (active_nodes q) = length ns" using True queue_ok_full [OF k] by simp
  obtain p pl where c: "posal_queue_create_node env st q = Some (p, case p of None \<Rightarrow> st\<lparr>q_pool := pl\<rparr>
        | Some a \<Rightarrow> st\<lparr>q_pool := pl, q_nodes := (q_nodes st)(a \<mapsto> q_garbage env)\<rparr>)" and pr: "is_priority_queue q \<longrightarrow> pl = q_pool st"
    and p: "case p of None \<Rightarrow> \<not> is_priority_queue q \<longrightarrow> bufpool_inv pl \<and> live_nodes pl = live_nodes (q_pool st)
       | Some a \<Rightarrow> a \<notin> set ns \<and> (\<not> is_priority_queue q \<longrightarrow> bufpool_inv pl \<and> a \<notin> live_nodes (q_pool st)
            \<and> live_nodes pl = insert a (live_nodes (q_pool st)))" using create_node_ok [OF k e] by blast
  show ?thesis
  proof (cases p)
    case None
    then have "tail_for_push env st q = Some (AR_ENOMEMORY, q, st\<lparr>q_pool := pl\<rparr>)" using c True by (simp add: tail_for_push_def)
    moreover have "queue_ok (st\<lparr>q_pool := pl\<rparr>) q ns" using k p None pr unfolding queue_ok_def by auto
    ultimately show ?thesis using p None by auto
  next
    case (Some a)
    let ?h = "(q_nodes st)(a \<mapsto> q_garbage env)"
    have a: "a \<notin> set ns" "\<not> is_priority_queue q \<longrightarrow> bufpool_inv pl \<and> a \<notin> live_nodes (q_pool st) \<and> live_nodes pl = insert a (live_nodes (q_pool st))"
      using p Some by auto
    have el: "elem_at ?h x = elem_at (q_nodes st) x \<and> prio_at ?h x = prio_at (q_nodes st) x" if "x \<in> set ns" for x
      using that a(1) by (auto simp: elem_at_def prio_at_def)
    have r: "ring ?h ns" using queue_okD(1) [OF k] a(1) by simp
    show ?thesis
    proof (cases "ns = []")
      case True
      let ?g = "set_nxt a (Some a) (set_prv a (Some a) ?h)"
      let ?q = "q\<lparr>active_head_ptr := Some a, active_tail_ptr := Some a, num_nodes := num_nodes q + 1\<rparr>"
      have z: "num_nodes q = 0" using True queue_okD(2) [OF k] by (simp add: unat_eq_zero)
      have t: "tail_for_push env st q = Some (AR_EOK, ?q, st\<lparr>q_pool := pl, q_nodes := ?g\<rparr>)"
        using c Some z \<open>active_nodes q = num_nodes q\<close> by (simp add: tail_for_push_def link_first_def mem_simps)
      have "room st q ns (st\<lparr>q_pool := pl, q_nodes := ?g\<rparr>) ?q [a]"
        by (rule room_new [OF k act m a pr, where h = ?g]) (use ring_self [of a ?h] True in \<open>auto simp: set_nxt_def set_prv_def\<close>)
      then show ?thesis using t True act by (intro disjI2 exI conjI) simp_all
    next
      case False
      let ?g = "ring_add (last ns) a (hd ns) ?h"
      let ?q = "q\<lparr>active_head_ptr := Some (hd ns), active_tail_ptr := Some a, num_nodes := num_nodes q + 1\<rparr>"
      have z: "num_nodes q \<noteq> 0" using False queue_okD(2) [OF k] by auto
      have hd: "active_head_ptr q = Some (hd ns)" and tl: "active_tail_ptr q = Some (last ns)"
        using queue_okD(6,7) [OF k False] act False by (simp_all add: last_conv_nth)
      have dl: "last ns \<in> dom ?h" "hd ns \<in> dom ?h" "nxt ?h (last ns) = Some (hd ns)" "last ns \<noteq> a" "hd ns \<noteq> a"
        using ring_last [OF r False] ring_hd [OF r False] a(1) last_in_set [OF False] hd_in_set [OF False] by auto
      have "link_after_tail ?h q a = Some ?g"
        using dl by (simp add: link_after_tail_def tl mem_simps ring_add_def)
      then have t: "tail_for_push env st q = Some (AR_EOK, ?q, st\<lparr>q_pool := pl, q_nodes := ?g\<rparr>)"
        using c Some z hd \<open>active_nodes q = num_nodes q\<close> by (simp add: tail_for_push_def)
      have "elem_at ?g x = elem_at (q_nodes st) x \<and> prio_at ?g x = prio_at (q_nodes st) x" if "x \<in> set ns" for x
        using el [OF that] subsetD [OF ring_dom [OF r] that] by simp
      then have "room st q ns (st\<lparr>q_pool := pl, q_nodes := ?g\<rparr>) ?q (ns @ [a])"
        by (intro room_new [OF k act m a pr, where h = ?g])
          (use ring_insert [OF r False a(1)] False last_in_set [OF False] in \<open>auto simp: ring_add_def set_nxt_def set_prv_def\<close>)
      moreover have "take (unat (active_nodes q)) (ns @ [a]) = take (unat (active_nodes q)) ns" unfolding act by simp
      ultimately show ?thesis using t by blast
    qed
  qed
next
  case False
  then have lt: "unat (active_nodes q) < length ns" using queue_ok_full [OF k] queue_okD(3) [OF k] by simp
  then have ne: "ns \<noteq> []" by auto
  note hd = queue_okD(6) [OF k ne] and tl = queue_okD(7) [OF k ne] and r = queue_okD(1) [OF k]
  let ?q = "q\<lparr>active_head_ptr := Some (hd ns), active_tail_ptr := Some (ns ! unat (active_nodes q))\<rparr>"
  have "tail_for_push env st q = Some (AR_EOK, ?q, st)"
  proof (cases "active_nodes q = 0")
    case True
    then show ?thesis using False hd tl by (simp add: tail_for_push_def)
  next
    case nz: False
    then have "0 < unat (active_nodes q)" by (simp add: unat_gt_0)
    then have "nxt (q_nodes st) (ns ! (unat (active_nodes q) - 1)) = Some (ns ! unat (active_nodes q))"
      "ns ! (unat (active_nodes q) - 1) \<in> dom (q_nodes st)" using ring_nth [OF r, of "unat (active_nodes q) - 1"] lt by auto
    then show ?thesis using False hd tl nz sgt_zero queue_ok_small [OF k] by (simp add: tail_for_push_def mem_simps)
  qed
  moreover have "room st q ns st ?q ns" by (rule room_same [OF k lt r]) simp_all
  ultimately show ?thesis by blast
qed

lemma ring_insert_front:
  assumes r: "ring h ns" and ne: "ns \<noteq> []" and a: "a \<notin> set ns" "a \<in> dom h"
  shows "ring (set_prv (hd ns) (Some a) (set_nxt (last ns) (Some a) (set_prv a (Some (last ns)) (set_nxt a (Some (hd ns)) h)))) (a # ns)"
proof -
  have "ring (ring_add (last ns) a (hd ns) h) (a # ns)" using ring_rot [OF ring_insert [OF assms]] by simp
  then show ?thesis by (subst ring_cong [where h = "ring_add (last ns) a (hd ns) h"]) (auto simp: ring_add_def nxt_set_nxt prv_set_prv)
qed

lemma head_for_insert_ok:
  assumes k: "queue_ok st q ns" and e: "q_env_ok env st q" and m: "active_nodes q \<noteq> max_nodes q"
  shows "(\<exists>pl. head_for_insert env st q = Some (AR_ENOMEMORY, q, st\<lparr>q_pool := pl\<rparr>) \<and> queue_ok (st\<lparr>q_pool := pl\<rparr>) q ns
        \<and> (\<not> is_priority_queue q \<longrightarrow> live_nodes pl = live_nodes (q_pool st)))
    \<or> (\<exists>st' q' ns'. head_for_insert env st q = Some (AR_EOK, q', st') \<and> room st q ns st' q' ns'
         \<and> take (unat (active_nodes q)) (tl ns') = take (unat (active_nodes q)) ns)"
proof (cases "active_nodes q = num_nodes q")
  case True
  have act: "unat (active_nodes q) = length ns" using True queue_ok_full [OF k] by simp
  obtain p pl where c: "posal_queue_create_node env st q = Some (p, case p of None \<Rightarrow> st\<lparr>q_pool := pl\<rparr>
        | Some a \<Rightarrow> st\<lparr>q_pool := pl, q_nodes := (q_nodes st)(a \<mapsto> q_garbage env)\<rparr>)" and pr: "is_priority_queue q \<longrightarrow> pl = q_pool st"
    and p: "case p of None \<Rightarrow> \<not> is_priority_queue q \<longrightarrow> bufpool_inv pl \<and> live_nodes pl = live_nodes (q_pool st)
       | Some a \<Rightarrow> a \<notin> set ns \<and> (\<not> is_priority_queue q \<longrightarrow> bufpool_inv pl \<and> a \<notin> live_nodes (q_pool st)
            \<and> live_nodes pl = insert a (live_nodes (q_pool st)))" using create_node_ok [OF k e] by blast
  show ?thesis
  proof (cases p)
    case None
    then have "head_for_insert env st q = Some (AR_ENOMEMORY, q, st\<lparr>q_pool := pl\<rparr>)" using c True by (simp add: head_for_insert_def)
    moreover have "queue_ok (st\<lparr>q_pool := pl\<rparr>) q ns" using k p None pr unfolding queue_ok_def by auto
    ultimately show ?thesis using p None by auto
  next
    case (Some a)
    let ?h = "(q_nodes st)(a \<mapsto> q_garbage env)"
    have a: "a \<notin> set ns" "\<not> is_priority_queue q \<longrightarrow> bufpool_inv pl \<and> a \<notin> live_nodes (q_pool st) \<and> live_nodes pl = insert a (live_nodes (q_pool st))"
      using p Some by auto
    have el: "elem_at ?h x = elem_at (q_nodes st) x \<and> prio_at ?h x = prio_at (q_nodes st) x" if "x \<in> set ns" for x
      using that a(1) by (auto simp: elem_at_def prio_at_def)
    have r: "ring ?h ns" using queue_okD(1) [OF k] a(1) by simp
    show ?thesis
    proof (cases "ns = []")
      case True
      let ?g = "set_nxt a (Some a) (set_prv a (Some a) ?h)"
      let ?q = "q\<lparr>active_head_ptr := Some a, active_tail_ptr := Some a, num_nodes := num_nodes q + 1\<rparr>"
      have z: "num_nodes q = 0" using True queue_okD(2) [OF k] by (simp add: unat_eq_zero)
      have t: "head_for_insert env st q = Some (AR_EOK, ?q, st\<lparr>q_pool := pl, q_nodes := ?g\<rparr>)"
        using c Some z \<open>active_nodes q = num_nodes q\<close> by (simp add: head_for_insert_def link_first_def mem_simps)
      have "room st q ns (st\<lparr>q_pool := pl, q_nodes := ?g\<rparr>) ?q [a]"
        by (rule room_new [OF k act m a pr, where h = ?g]) (use ring_self [of a ?h] True in \<open>auto simp: set_nxt_def set_prv_def\<close>)
      then show ?thesis using t True act by (intro disjI2 exI conjI) simp_all
    next
      case False
      let ?g = "set_prv (hd ns) (Some a) (set_nxt (last ns) (Some a) (set_prv a (Some (last ns)) (set_nxt a (Some (hd ns)) ?h)))"
      let ?q = "q\<lparr>active_head_ptr := Some a, active_tail_ptr := Some (last ns), num_nodes := num_nodes q + 1\<rparr>"
      have z: "num_nodes q \<noteq> 0" using False queue_okD(2) [OF k] by auto
      have hd: "active_head_ptr q = Some (hd ns)" and tl: "active_tail_ptr q = Some (last ns)"
        using queue_okD(6,7) [OF k False] act False by (simp_all add: last_conv_nth)
      have dl: "last ns \<in> dom ?h" "hd ns \<in> dom ?h" "prv ?h (hd ns) = Some (last ns)" "last ns \<noteq> a" "hd ns \<noteq> a"
        using ring_last [OF r False] ring_hd [OF r False] a(1) last_in_set [OF False] hd_in_set [OF False] by auto
      have "link_before_head ?h q a = Some ?g"
        using dl by (simp add: link_before_head_def hd mem_simps)
      then have t: "head_for_insert env st q = Some (AR_EOK, ?q, st\<lparr>q_pool := pl, q_nodes := ?g\<rparr>)"
        using c Some z tl \<open>active_nodes q = num_nodes q\<close> by (simp add: head_for_insert_def)
      have "elem_at ?g x = elem_at (q_nodes st) x \<and> prio_at ?g x = prio_at (q_nodes st) x" if "x \<in> set ns" for x
        using el [OF that] subsetD [OF ring_dom [OF r] that] by simp
      then have "room st q ns (st\<lparr>q_pool := pl, q_nodes := ?g\<rparr>) ?q (a # ns)"
        by (intro room_new [OF k act m a pr, where h = ?g])
          (use ring_insert_front [OF r False a(1)] False last_in_set [OF False] hd_in_set [OF False] in
            \<open>auto simp: set_nxt_def set_prv_def last_conv_nth nth_Cons'\<close>)
      moreover have "take (unat (active_nodes q)) (List.tl (a # ns)) = take (unat (active_nodes q)) ns" by simp
      ultimately show ?thesis using t by blast
    qed
  qed
next
  case False
  then have lt: "unat (active_nodes q) < length ns" using queue_ok_full [OF k] queue_okD(3) [OF k] by simp
  then have ne: "ns \<noteq> []" by auto
  note hd = queue_okD(6) [OF k ne] and tl = queue_okD(7) [OF k ne] and r = queue_okD(1) [OF k]
  show ?thesis
  proof (cases "active_nodes q = 0")
    case True
    have "head_for_insert env st q = Some (AR_EOK, q, st)" using True False by (simp add: head_for_insert_def)
    moreover have "room st q ns st q ns"
      by (rule room_same [OF k lt r]) (use hd tl True in simp_all)
    ultimately show ?thesis using True by (intro disjI2 exI conjI) simp_all
  next
    case nz: False
    then have pos: "0 < unat (active_nodes q)" by (simp add: unat_gt_0)
    let ?ns = "last ns # butlast ns"
    let ?q = "q\<lparr>active_head_ptr := Some (last ns), active_tail_ptr := Some (?ns ! unat (active_nodes q))\<rparr>"
    have "?ns ! unat (active_nodes q) = ns ! (unat (active_nodes q) - 1)" using pos lt by (simp add: nth_Cons' nth_butlast)
    then have t: "head_for_insert env st q = Some (AR_EOK, ?q, st)"
      using False hd tl nz sgt_zero queue_ok_small [OF k] ring_hd [OF r ne] by (simp add: head_for_insert_def mem_simps)
    have "ring (q_nodes st) ?ns" using ring_unrotate [of "q_nodes st" "butlast ns" "last ns"] r ne by simp
    moreover have "set ?ns = set ns" using ne by (metis append_butlast_last_id list.simps(15) rotate1.simps(2) set_rotate1)
    ultimately have "room st q ns st ?q ?ns" using ne by (intro room_same [OF k lt]) simp_all
    moreover have "take (unat (active_nodes q)) (List.tl ?ns) = take (unat (active_nodes q)) ns"
      using lt by (simp add: take_butlast)
    ultimately show ?thesis using t by blast
  qed
qed

subsection \<open>Putting elements in\<close>

definition sig_set :: "ptr \<Rightarrow> u32 \<Rightarrow> channels \<Rightarrow> channels" where
  "sig_set p m chs = (case p of None \<Rightarrow> chs | Some c \<Rightarrow> chs(c := map_option (anysig_update (\<lambda>s. s OR m)) (chs c)))"

definition sig_clear :: "ptr \<Rightarrow> u32 \<Rightarrow> channels \<Rightarrow> channels" where
  "sig_clear p m chs = (case p of None \<Rightarrow> chs | Some c \<Rightarrow> chs(c := map_option (anysig_update (\<lambda>s. s AND NOT m)) (chs c)))"

lemma dom_sig [simp]: "dom (sig_set p m chs) = dom chs" "dom (sig_clear p m chs) = dom chs"
  by (auto simp: sig_set_def sig_clear_def split: option.splits)

lemma signal_ops [mem_simps]:
  "c \<in> dom (chans st) \<Longrightarrow> channel_ptr q = Some c \<Longrightarrow> set_signal st q = Some (st\<lparr>chans := sig_set (Some c) (channel_bit q) (chans st)\<rparr>)"
  "c \<in> dom (chans st) \<Longrightarrow> channel_ptr q = Some c \<Longrightarrow> clear_signal st q = Some (st\<lparr>chans := sig_clear (Some c) (channel_bit q) (chans st)\<rparr>)"
  by (auto simp: set_signal_def clear_signal_def posal_linux_signal_set_def posal_linux_signal_clear_def modify_def
      sig_set_def sig_clear_def)

text \<open>The effect of putting one element in: the elements are now \<open>es\<close>, in the ring \<open>ns'\<close>.\<close>

definition put_in :: "posal_queue_state \<Rightarrow> posal_queue_internal \<Rightarrow> addr list \<Rightarrow> posal_queue_element list \<Rightarrow>
    posal_queue_state \<Rightarrow> posal_queue_internal \<Rightarrow> addr list \<Rightarrow> bool" where
  "put_in st q ns es st' q' ns' \<longleftrightarrow> queue_ok st' q' ns' \<and> contents st' q' ns' = es
     \<and> unat (active_nodes q') = Suc (unat (active_nodes q)) \<and> set ns \<subseteq> set ns'
     \<and> q' = q\<lparr>active_head_ptr := active_head_ptr q', active_tail_ptr := active_tail_ptr q', num_nodes := num_nodes q', active_nodes := active_nodes q'\<rparr>
     \<and> chans st' = (if disable_signaling q then chans st else sig_set (channel_ptr q) (channel_bit q) (chans st))
     \<and> (\<forall>x. x \<notin> set ns' \<longrightarrow> q_nodes st' x = q_nodes st x)
     \<and> (\<not> is_priority_queue q \<longrightarrow> live_nodes (q_pool st') = live_nodes (q_pool st) \<union> set ns'
           \<and> (set ns' - set ns) \<inter> live_nodes (q_pool st) = {})
     \<and> (is_priority_queue q \<longrightarrow> q_pool st' = q_pool st)"

lemma room_put:
  assumes k: "queue_ok st q ns" and r: "room st q ns st1 q1 ns'"
    and s: "take (Suc (unat (active_nodes q))) ns' = us @ x # vs" "take (unat (active_nodes q)) ns = us @ vs"
    and q': "q' = q1\<lparr>active_nodes := active_nodes q + 1\<rparr>"
    and st': "st' = st1\<lparr>q_nodes := set_elem x e (q_nodes st1),
        chans := (if disable_signaling q then chans st else sig_set (channel_ptr q) (channel_bit q) (chans st))\<rparr>"
  shows "put_in st q ns (map (elem_at (q_nodes st)) us @ e # map (elem_at (q_nodes st)) vs) st' q' ns'"
    and "\<forall>y\<in>set (us @ vs). prio_at (q_nodes st') y = prio_at (q_nodes st) y"
proof -
  let ?n = "unat (active_nodes q)"
  have R: "ring (q_nodes st1) ns'" "length ns' = unat (num_nodes q1)" "length ns' \<le> unat (max_nodes q)" "?n < length ns'"
    "active_head_ptr q1 = Some (hd ns')" "active_tail_ptr q1 = Some (ns' ! ?n)" "chans st1 = chans st" "set ns \<subseteq> set ns'"
    "\<And>y. y \<in> set ns \<Longrightarrow> elem_at (q_nodes st1) y = elem_at (q_nodes st) y \<and> prio_at (q_nodes st1) y = prio_at (q_nodes st) y"
    "\<And>y. y \<notin> set ns' \<Longrightarrow> q_nodes st1 y = q_nodes st y"
    "\<not> is_priority_queue q \<longrightarrow> bufpool_inv (q_pool st1) \<and> set ns' \<subseteq> live_nodes (q_pool st1)
          \<and> live_nodes (q_pool st1) = live_nodes (q_pool st) \<union> set ns' \<and> (set ns' - set ns) \<inter> live_nodes (q_pool st) = {}"
    "is_priority_queue q \<longrightarrow> q_pool st1 = q_pool st"
    using r unfolding room_def by blast+
  have Q: "q1 = q\<lparr>active_head_ptr := active_head_ptr q1, active_tail_ptr := active_tail_ptr q1, num_nodes := num_nodes q1\<rparr>"
    using r unfolding room_def by blast
  have F: "channel_ptr q1 = channel_ptr q" "max_nodes q1 = max_nodes q" "is_priority_queue q1 = is_priority_queue q"
    "channel_bit q1 = channel_bit q" by (subst Q, simp)+
  have n1: "unat (active_nodes q + 1) = Suc ?n" using unat_suc queue_ok_small [OF k] by simp
  have "distinct ns'" using R(1) by (simp add: ring_def)
  then have "distinct (us @ x # vs)" unfolding s(1) [symmetric] by (rule distinct_take)
  then have nx: "x \<notin> set (us @ vs)" by auto
  have "set (us @ x # vs) \<subseteq> set ns'" unfolding s(1) [symmetric] by (rule set_take_subset)
  then have xd: "x \<in> set ns'" "x \<in> dom (q_nodes st1)" using ring_dom [OF R(1)] by auto
  have sub: "set (us @ vs) \<subseteq> set ns" unfolding s(2) [symmetric] by (rule set_take_subset)
  have el: "map (elem_at (set_elem x e (q_nodes st1))) us = map (elem_at (q_nodes st)) us"
    "map (elem_at (set_elem x e (q_nodes st1))) vs = map (elem_at (q_nodes st)) vs"
    using nx sub xd(2) R(9) by (auto intro!: map_cong)
  have ch: "\<exists>c. channel_ptr q = Some c \<and> c \<in> dom (chans st)" by (rule queue_okD(8) [OF k])
  have ok: "queue_ok st' q' ns'"
    using R ch queue_okD(5) [OF k] F n1 by (auto simp: queue_ok_def st' q')
  have "contents st' q' ns' = map (elem_at (q_nodes st)) us @ e # map (elem_at (q_nodes st)) vs"
    using el xd(2) by (simp add: contents_def q' st' n1 s(1))
  moreover have "q' = q\<lparr>active_head_ptr := active_head_ptr q', active_tail_ptr := active_tail_ptr q', num_nodes := num_nodes q', active_nodes := active_nodes q'\<rparr>"
    unfolding q' by (subst Q) simp
  ultimately show "put_in st q ns (map (elem_at (q_nodes st)) us @ e # map (elem_at (q_nodes st)) vs) st' q' ns'"
    using ok R(7-12) xd(1) n1 unfolding put_in_def by (auto simp: q' st' set_elem_def)
  show "\<forall>y\<in>set (us @ vs). prio_at (q_nodes st') y = prio_at (q_nodes st) y"
    using sub R(9) xd(2) by (auto simp: st')
qed

lemma room_fields:
  assumes "room st q ns st1 q1 ns'"
  shows "active_nodes q1 = active_nodes q" "channel_ptr q1 = channel_ptr q" "channel_bit q1 = channel_bit q"
    "disable_signaling q1 = disable_signaling q" "is_priority_queue q1 = is_priority_queue q" "max_nodes q1 = max_nodes q"
    "active_head_ptr q1 = Some (hd ns')" "active_tail_ptr q1 = Some (ns' ! unat (active_nodes q))" "chans st1 = chans st"
    "ring (q_nodes st1) ns'" "unat (active_nodes q) < length ns'"
proof -
  have Q: "q1 = q\<lparr>active_head_ptr := active_head_ptr q1, active_tail_ptr := active_tail_ptr q1, num_nodes := num_nodes q1\<rparr>"
    using assms unfolding room_def by blast
  show "active_nodes q1 = active_nodes q" "channel_ptr q1 = channel_ptr q" "channel_bit q1 = channel_bit q"
    "disable_signaling q1 = disable_signaling q" "is_priority_queue q1 = is_priority_queue q" "max_nodes q1 = max_nodes q"
    by (subst Q, simp)+
qed (use assms in \<open>auto simp: room_def\<close>)

text \<open>What all insertions have in common once there is room: write the element, count it, send the signal.\<close>

lemma put_write:
  assumes k: "queue_ok st q ns" and r: "room st q ns st1 q1 ns'" and x: "x \<in> set ns'"
  shows "(do {
             h \<leftarrow> wr_elem (q_nodes st1) (Some x) e;
             let st = st1\<lparr>q_nodes := h\<rparr>;
             let q = q1\<lparr>active_nodes := active_nodes q1 + 1\<rparr>;
             st \<leftarrow> (if \<not> disable_signaling q then set_signal st q else Some st);
             Some (AR_EOK, Some q, st)
           }) = Some (AR_EOK, Some (q1\<lparr>active_nodes := active_nodes q + 1\<rparr>), st1\<lparr>q_nodes := set_elem x e (q_nodes st1),
        chans := (if disable_signaling q then chans st else sig_set (channel_ptr q) (channel_bit q) (chans st))\<rparr>)"
proof -
  note F = room_fields [OF r]
  obtain c where c: "channel_ptr q = Some c" "c \<in> dom (chans st)" using queue_okD(8) [OF k] by blast
  have xd: "x \<in> dom (q_nodes st1)" using x ring_dom [OF F(10)] by blast
  show ?thesis
  proof (cases "disable_signaling q")
    case True
    have "st1\<lparr>q_nodes := h, chans := chans st\<rparr> = st1\<lparr>q_nodes := h\<rparr>" for h using F(9) by simp
    then show ?thesis using True F xd by (simp add: mem_simps)
  next
    case False
    then show ?thesis using F xd c signal_ops(1) [of c "st1\<lparr>q_nodes := set_elem x e (q_nodes st1)\<rparr>" "q1\<lparr>active_nodes := active_nodes q + 1\<rparr>"]
      by (simp add: mem_simps)
  qed
qed

lemma push_back_ok:
  assumes k: "queue_ok st q ns" and e: "q_env_ok env st q"
  shows "\<exists>rc q' st' ns'. posal_queue_push_back env st (Some q) e' = Some (rc, Some q', st') \<and>
    (rc = AR_EOK \<and> active_nodes q \<noteq> max_nodes q \<and> put_in st q ns (contents st q ns @ [e']) st' q' ns'
        \<and> active_tail_ptr q' = Some (ns' ! unat (active_nodes q)) \<and> take (unat (active_nodes q)) ns' = take (unat (active_nodes q)) ns
        \<and> (\<forall>y\<in>set (take (unat (active_nodes q)) ns). prio_at (q_nodes st') y = prio_at (q_nodes st) y)
     \<or> rc = AR_ENEEDMORE \<and> active_nodes q = max_nodes q \<and> q' = q \<and> st' = st
     \<or> rc = AR_ENOMEMORY \<and> active_nodes q \<noteq> max_nodes q \<and> q' = q \<and> queue_ok st' q ns
        \<and> (\<exists>pl. st' = st\<lparr>q_pool := pl\<rparr> \<and> (\<not> is_priority_queue q \<longrightarrow> live_nodes pl = live_nodes (q_pool st))))"
proof (cases "active_nodes q = max_nodes q")
  case True
  then show ?thesis using queue_okD(8) [OF k] by (auto simp: posal_queue_push_back_def)
next
  case m: False
  have ch: "channel_ptr q \<noteq> None" using queue_okD(8) [OF k] by auto
  show ?thesis
  proof (cases "\<exists>pl. tail_for_push env st q = Some (AR_ENOMEMORY, q, st\<lparr>q_pool := pl\<rparr>) \<and> queue_ok (st\<lparr>q_pool := pl\<rparr>) q ns
      \<and> (\<not> is_priority_queue q \<longrightarrow> live_nodes pl = live_nodes (q_pool st))")
    case True
    then show ?thesis using ch m by (auto simp: posal_queue_push_back_def)
  next
    case False
    let ?n = "unat (active_nodes q)"
    obtain st1 q1 ns' where t: "tail_for_push env st q = Some (AR_EOK, q1, st1)" "room st q ns st1 q1 ns'"
      "take ?n ns' = take ?n ns" using tail_for_push_ok [OF k e m] False by blast
    note F = room_fields [OF t(2)]
    let ?x = "ns' ! ?n"
    let ?q' = "q1\<lparr>active_nodes := active_nodes q + 1\<rparr>"
    let ?st' = "st1\<lparr>q_nodes := set_elem ?x e' (q_nodes st1),
        chans := (if disable_signaling q then chans st else sig_set (channel_ptr q) (channel_bit q) (chans st))\<rparr>"
    have s: "take (Suc ?n) ns' = take ?n ns @ ?x # []" "take ?n ns = take ?n ns @ []"
      using F(11) t(3) by (simp_all add: take_Suc_conv_app_nth)
    have "posal_queue_push_back env st (Some q) e' = Some (AR_EOK, Some ?q', ?st')"
      using ch m t(1) put_write [OF k t(2), of ?x e'] F(8,11) by (simp add: posal_queue_push_back_def)
    moreover note room_put [OF k t(2) s refl refl, of e']
    moreover have "take ?n ns' = take ?n ns" by (rule t(3))
    ultimately show ?thesis using F(8) m by (intro exI [of _ "AR_EOK"] exI [of _ ?q'] exI [of _ ?st'] exI [of _ ns']) (simp add: contents_def)
  qed
qed

lemma insert_front_ok:
  assumes k: "queue_ok st q ns" and e: "q_env_ok env st q"
  shows "\<exists>rc q' st' ns'. posal_queue_insert_front env st (Some q) e' = Some (rc, Some q', st') \<and>
    (rc = AR_EOK \<and> active_nodes q \<noteq> max_nodes q \<and> put_in st q ns (e' # contents st q ns) st' q' ns'
     \<or> rc = AR_ENEEDMORE \<and> active_nodes q = max_nodes q \<and> q' = q \<and> st' = st
     \<or> rc = AR_ENOMEMORY \<and> active_nodes q \<noteq> max_nodes q \<and> q' = q \<and> queue_ok st' q ns
        \<and> (\<exists>pl. st' = st\<lparr>q_pool := pl\<rparr> \<and> (\<not> is_priority_queue q \<longrightarrow> live_nodes pl = live_nodes (q_pool st))))"
proof (cases "active_nodes q = max_nodes q")
  case True
  then show ?thesis using queue_okD(8) [OF k] by (auto simp: posal_queue_insert_front_def)
next
  case m: False
  have ch: "channel_ptr q \<noteq> None" using queue_okD(8) [OF k] by auto
  show ?thesis
  proof (cases "\<exists>pl. head_for_insert env st q = Some (AR_ENOMEMORY, q, st\<lparr>q_pool := pl\<rparr>) \<and> queue_ok (st\<lparr>q_pool := pl\<rparr>) q ns
      \<and> (\<not> is_priority_queue q \<longrightarrow> live_nodes pl = live_nodes (q_pool st))")
    case True
    then show ?thesis using ch m by (auto simp: posal_queue_insert_front_def)
  next
    case False
    let ?n = "unat (active_nodes q)"
    obtain st1 q1 ns' where t: "head_for_insert env st q = Some (AR_EOK, q1, st1)" "room st q ns st1 q1 ns'"
      "take ?n (tl ns') = take ?n ns" using head_for_insert_ok [OF k e m] False by blast
    note F = room_fields [OF t(2)]
    have ne: "ns' \<noteq> []" using F(11) by auto
    let ?x = "hd ns'"
    let ?q' = "q1\<lparr>active_nodes := active_nodes q + 1\<rparr>"
    let ?st' = "st1\<lparr>q_nodes := set_elem ?x e' (q_nodes st1),
        chans := (if disable_signaling q then chans st else sig_set (channel_ptr q) (channel_bit q) (chans st))\<rparr>"
    have s: "take (Suc ?n) ns' = [] @ ?x # take ?n ns" "take ?n ns = [] @ take ?n ns"
      using ne t(3) by (cases ns'; simp)+
    have "posal_queue_insert_front env st (Some q) e' = Some (AR_EOK, Some ?q', ?st')"
      using ch m t(1) put_write [OF k t(2), of ?x e'] F(7) ne by (simp add: posal_queue_insert_front_def)
    moreover note room_put(1) [OF k t(2) s refl refl, of e']
    ultimately show ?thesis using m by (intro exI [of _ "AR_EOK"] exI [of _ ?q'] exI [of _ ?st'] exI [of _ ns']) (simp add: contents_def)
  qed
qed

subsection \<open>Taking elements out\<close>

text \<open>The effect of taking one element out; the nodes of the ring stay with the queue.\<close>

definition taken_out :: "posal_queue_state \<Rightarrow> posal_queue_internal \<Rightarrow> addr list \<Rightarrow> posal_queue_element list \<Rightarrow>
    posal_queue_state \<Rightarrow> posal_queue_internal \<Rightarrow> addr list \<Rightarrow> bool" where
  "taken_out st q ns es st' q' ns' \<longleftrightarrow> queue_ok st' q' ns' \<and> contents st' q' ns' = es \<and> set ns' = set ns
     \<and> unat (active_nodes q) = Suc (unat (active_nodes q'))
     \<and> q' = q\<lparr>active_head_ptr := active_head_ptr q', active_tail_ptr := active_tail_ptr q', active_nodes := active_nodes q'\<rparr>
     \<and> st' = st\<lparr>chans := (if es = [] then sig_clear (channel_ptr q) (channel_bit q) (chans st) else chans st)\<rparr>"

lemma unat_pred: "(w :: i16) \<noteq> 0 \<Longrightarrow> unat w = Suc (unat (w - 1))"
  using unat_gt_0 [of w] by (simp add: unat_minus_one)

lemma contents_length: "queue_ok st q ns \<Longrightarrow> length (contents st q ns) = unat (active_nodes q)"
  using queue_okD(3) [of st q ns] by (simp add: contents_def)

lemma contents_empty: "queue_ok st q ns \<Longrightarrow> contents st q ns = [] \<longleftrightarrow> active_nodes q = 0"
  using contents_length [of st q ns] by (auto simp: unat_eq_zero)

lemma pop_last:
  assumes k: "queue_ok st q ns" and one: "active_nodes q - 1 = 0" "active_nodes q \<noteq> 0"
  shows "taken_out st q ns [] (st\<lparr>chans := sig_clear (channel_ptr q) (channel_bit q) (chans st)\<rparr>) (q\<lparr>active_nodes := active_nodes q - 1\<rparr>) ns"
proof -
  have "unat (active_nodes q) = 1" using unat_pred [OF one(2)] one(1) by simp
  then show ?thesis using k one(1) unfolding taken_out_def queue_ok_def by (auto simp: contents_def)
qed

lemma pop_front_ok:
  assumes k: "queue_ok st q ns" and c: "contents st q ns = e # es"
  shows "\<exists>q' st' ns'. posal_queue_pop_front st (Some q) = Some (AR_EOK, Some e, Some q', st') \<and> taken_out st q ns es st' q' ns'"
proof -
  have nz: "active_nodes q \<noteq> 0" using contents_empty [OF k] c by auto
  then have ne: "ns \<noteq> []" using queue_okD(3) [OF k] by (auto simp: unat_eq_zero)
  obtain ch where ch: "channel_ptr q = Some ch" "ch \<in> dom (chans st)" using queue_okD(8) [OF k] by blast
  note hd = queue_okD(6) [OF k ne] and tl = queue_okD(7) [OF k ne] and r = queue_okD(1) [OF k]
  obtain x xs where ns: "ns = x # xs" using ne by (cases ns) auto
  let ?m = "unat (active_nodes q - 1)"
  have m: "unat (active_nodes q) = Suc ?m" by (rule unat_pred [OF nz])
  have e: "e = elem_at (q_nodes st) x" "es = map (elem_at (q_nodes st)) (take ?m xs)" using c by (simp_all add: contents_def m ns)
  have rd: "rd_elem (q_nodes st) (active_head_ptr q) = Some e" using hd e(1) ns ring_hd [OF r ne] by (simp add: mem_simps)
  show ?thesis
  proof (cases "active_nodes q - 1 = 0")
    case True
    let ?q = "q\<lparr>active_nodes := active_nodes q - 1\<rparr>"
    have "posal_queue_pop_front st (Some q) = Some (AR_EOK, Some e, Some ?q, st\<lparr>chans := sig_clear (channel_ptr q) (channel_bit q) (chans st)\<rparr>)"
      using rd ch nz True signal_ops(2) [of ch st ?q] by (simp add: posal_queue_pop_front_def)
    moreover have "es = []" using e(2) True by simp
    ultimately show ?thesis using pop_last [OF k True nz] by blast
  next
    case False
    then have pos: "0 < ?m" by (simp add: unat_gt_0)
    then have "xs \<noteq> []" using queue_okD(3) [OF k] m ns by auto
    then obtain y ys where xs: "xs = y # ys" by (cases xs) auto
    have n: "nxt (q_nodes st) x = Some y" "x \<in> dom (q_nodes st)" using ring_nth [OF r, of 0] ns xs by auto
    let ?q = "q\<lparr>active_head_ptr := Some y, active_nodes := active_nodes q - 1\<rparr>"
    have p: "posal_queue_pop_front st (Some q) = Some (AR_EOK, Some e, Some ?q, st)"
      using rd ch nz False hd ns n by (simp add: posal_queue_pop_front_def mem_simps)
    have r': "ring (q_nodes st) (xs @ [x])" using ring_rotate1 [OF r] ns by simp
    have len: "?m \<le> length xs" using queue_okD(3) [OF k] m ns by simp
    have "ns ! (unat (active_nodes q) - 1) = (xs @ [x]) ! (?m - 1)" using pos len m ns by (auto simp: nth_append nth_Cons')
    then have "queue_ok st ?q (xs @ [x])"
      using r' k len m ns xs tl unfolding queue_ok_def by auto
    moreover have "contents st ?q (xs @ [x]) = es" using e(2) len by (simp add: contents_def)
    moreover have "es \<noteq> []" using e(2) pos xs by auto
    ultimately have "taken_out st q ns es st ?q (xs @ [x])" using m ns by (auto simp: taken_out_def)
    then show ?thesis using p by blast
  qed
qed

lemma pop_back_ok:
  assumes k: "queue_ok st q ns" and c: "contents st q ns = es @ [e]"
  shows "\<exists>q' st'. posal_queue_pop_back st (Some q) = Some (AR_EOK, Some e, Some q', st') \<and> taken_out st q ns es st' q' ns"
proof -
  have nz: "active_nodes q \<noteq> 0" using contents_empty [OF k] c by auto
  then have ne: "ns \<noteq> []" using queue_okD(3) [OF k] by (auto simp: unat_eq_zero)
  obtain ch where ch: "channel_ptr q = Some ch" "ch \<in> dom (chans st)" using queue_okD(8) [OF k] by blast
  note hd = queue_okD(6) [OF k ne] and tl = queue_okD(7) [OF k ne] and r = queue_okD(1) [OF k]
  let ?m = "unat (active_nodes q - 1)"
  have m: "unat (active_nodes q) = Suc ?m" by (rule unat_pred [OF nz])
  have lt: "?m < length ns" using queue_okD(3) [OF k] m by simp
  have e: "e = elem_at (q_nodes st) (ns ! ?m)" "es = map (elem_at (q_nodes st)) (take ?m ns)"
    using c lt by (simp_all add: contents_def m take_Suc_conv_app_nth)
  have d: "ns ! ?m \<in> dom (q_nodes st)" using ring_nth(3) [OF r lt] .
  have rd: "rd_elem (q_nodes st) (active_tail_ptr q) = Some e" using tl e(1) d m by (simp add: mem_simps)
  show ?thesis
  proof (cases "active_nodes q - 1 = 0")
    case True
    let ?q = "q\<lparr>active_nodes := active_nodes q - 1\<rparr>"
    have "posal_queue_pop_back st (Some q) = Some (AR_EOK, Some e, Some ?q, st\<lparr>chans := sig_clear (channel_ptr q) (channel_bit q) (chans st)\<rparr>)"
      using rd ch nz True signal_ops(2) [of ch st ?q] by (simp add: posal_queue_pop_back_def)
    moreover have "es = []" using e(2) True by simp
    ultimately show ?thesis using pop_last [OF k True nz] by blast
  next
    case False
    then have pos: "0 < ?m" by (simp add: unat_gt_0)
    let ?q = "q\<lparr>active_tail_ptr := Some (ns ! (?m - 1)), active_nodes := active_nodes q - 1\<rparr>"
    have "prv (q_nodes st) (ns ! ?m) = Some (ns ! (?m - 1))" using ring_nth(2) [OF r lt] pos by simp
    then have p: "posal_queue_pop_back st (Some q) = Some (AR_EOK, Some e, Some ?q, st)"
      using rd ch nz False tl m d by (simp add: posal_queue_pop_back_def mem_simps)
    have "queue_ok st ?q ns" using k lt m unfolding queue_ok_def by auto
    moreover have "contents st ?q ns = es" "es \<noteq> []" using e(2) lt pos by (auto simp: contents_def)
    ultimately have "taken_out st q ns es st ?q ns" using m by (auto simp: taken_out_def)
    then show ?thesis using p by blast
  qed
qed

lemma pop_empty:
  assumes "queue_ok st q ns" "contents st q ns = []"
  shows "posal_queue_pop_front st (Some q) = Some (AR_ENEEDMORE, None, Some q, st)"
    "posal_queue_pop_back st (Some q) = Some (AR_ENEEDMORE, None, Some q, st)"
  using assms(2) contents_empty [OF assms(1)] queue_okD(8) [OF assms(1)]
  by (auto simp: posal_queue_pop_front_def posal_queue_pop_back_def)

subsection \<open>Priorities\<close>

text \<open>The node before position \<open>i\<close> of the ring.\<close>

definition before :: "addr list \<Rightarrow> nat \<Rightarrow> addr" where
  "before ns i = (if i = 0 then last ns else ns ! (i - 1))"

lemma priority_loop_spec:
  assumes "ring h ns" "i \<le> length ns" "ns \<noteq> []"
  shows "\<exists>j\<le>i. priority_loop h i (Some (before ns i)) p = Some (Some (before ns j))
    \<and> (\<forall>k. j \<le> k \<longrightarrow> k < i \<longrightarrow> prio_at h (ns ! k) < p) \<and> (0 < j \<longrightarrow> p \<le> prio_at h (ns ! (j - 1)))"
  using assms(2)
proof (induction i)
  case 0
  then show ?case by simp
next
  case (Suc i)
  have n: "prv h (ns ! i) = Some (before ns i)" "ns ! i \<in> dom h" using ring_nth [OF assms(1), of i] Suc.prems by (auto simp: before_def)
  then obtain d where d: "h (ns ! i) = Some d" "prev_ptr d = Some (before ns i)" "priority d = prio_at h (ns ! i)"
    by (auto simp: prv_def prio_at_def)
  show ?case
  proof (cases "p \<le> prio_at h (ns ! i)")
    case True
    then show ?thesis using d by (intro exI [of _ "Suc i"]) (simp add: before_def)
  next
    case False
    obtain j where j: "j \<le> i" "priority_loop h i (Some (before ns i)) p = Some (Some (before ns j))"
      "\<forall>k. j \<le> k \<longrightarrow> k < i \<longrightarrow> prio_at h (ns ! k) < p" "0 < j \<longrightarrow> p \<le> prio_at h (ns ! (j - 1))"
      using Suc.IH Suc.prems by auto
    have "\<forall>k. j \<le> k \<longrightarrow> k < Suc i \<longrightarrow> prio_at h (ns ! k) < p" using j(3) False by (auto simp: less_Suc_eq)
    then show ?thesis using False d j(1,2,4) by (intro exI [of _ j]) (simp add: before_def [of ns "Suc i"])
  qed
qed

lemma move_behind_ring:
  assumes r: "ring h (s # xs @ d # ys)" and ne: "ys \<noteq> []"
  shows "\<exists>h'. move_behind h (Some s) (Some d) = Some h' \<and> ring h' (xs @ d # s # ys) \<and> dom h' = dom h
    \<and> (\<forall>x\<in>dom h. elem_at h' x = elem_at h x \<and> prio_at h' x = prio_at h x)
    \<and> (\<forall>x. x \<notin> set (s # xs @ d # ys) \<longrightarrow> h' x = h x)"
proof -
  let ?ns = "xs @ d # ys"
  define sn where "sn = hd ?ns"
  have l: "last ?ns = last ys" using ne by simp
  have dis: "distinct (s # ?ns)" using r by (simp add: ring_def)
  have mem: "sn \<in> set ?ns" "last ys \<in> set ys" "hd ys \<in> set ys" using ne hd_in_set [of ?ns] by (auto simp: sn_def)
  have dm: "s \<in> dom h" "d \<in> dom h" "sn \<in> dom h" "last ys \<in> dom h" "hd ys \<in> dom h"
    using ring_dom [OF r] mem by auto
  have neq: "s \<noteq> last ys" "s \<noteq> sn" "s \<noteq> hd ys" "s \<noteq> d" "d \<noteq> last ys" "d \<noteq> hd ys" using dis mem by auto
  have s: "prv h s = Some (last ys)" "nxt h s = Some sn"
    using ring_nth [OF r, of 0] ne by (simp_all add: sn_def hd_conv_nth)
  let ?h2 = "set_prv sn (Some (last ys)) (set_nxt (last ys) (Some sn) h)"
  have r2: "ring ?h2 ?ns" using ring_remove [OF r] by (simp add: sn_def l)
  then have r2': "ring ?h2 (ys @ xs @ [d])" using ring_rot [of ?h2 "xs @ [d]" ys] by simp
  have dn: "nxt ?h2 d = Some (hd ys)" using ring_last [OF r2'] ne by simp
  let ?h' = "set_prv s (Some d) (set_nxt d (Some s) (set_nxt s (Some (hd ys)) (set_prv (hd ys) (Some s) ?h2)))"
  have mb: "move_behind h (Some s) (Some d) = Some ?h'"
    using dm s dn neq by (simp add: move_behind_def mem_simps)
  have "ring (ring_add d s (hd ys) ?h2) ((ys @ xs @ [d]) @ [s])"
    using ring_insert [OF r2', of s] dis ne dm(1) by simp
  then have "ring ?h' ((ys @ xs @ [d]) @ [s])"
    by (subst ring_cong [where h = "ring_add d s (hd ys) ?h2"]) (use neq dm in \<open>auto simp: ring_add_def nxt_set_nxt prv_set_prv\<close>)
  then have "ring ?h' (xs @ d # s # ys)" using ring_rot [of ?h' ys "xs @ [d, s]"] by simp
  moreover have "\<forall>x. x \<notin> set (s # ?ns) \<longrightarrow> ?h' x = h x"
    using mem by (auto simp: set_nxt_def set_prv_def)
  ultimately show ?thesis using mb by (intro exI [of _ ?h']) simp
qed

text \<open>Where the loop puts the node at position \<open>n\<close>: at position \<open>j\<close>, in the ring.\<close>

definition moved_to :: "nat \<Rightarrow> nat \<Rightarrow> addr list \<Rightarrow> addr list" where
  "moved_to j n ns = take j ns @ ns ! n # drop j (take n ns) @ drop (Suc n) ns"

lemma moved_to_facts:
  assumes "n < length ns" "j \<le> n"
  shows "length (moved_to j n ns) = length ns" "set (moved_to j n ns) = set ns"
    "take (Suc n) (moved_to j n ns) = take j ns @ ns ! n # drop j (take n ns)"
    "ns = take j ns @ drop j (take n ns) @ ns ! n # drop (Suc n) ns"
proof -
  have ns: "ns = take n ns @ ns ! n # drop (Suc n) ns" using assms(1) by (simp add: id_take_nth_drop [symmetric])
  moreover have t: "take n ns = take j ns @ drop j (take n ns)" using assms(2)
    by (metis append_take_drop_id min.absorb1 take_take)
  ultimately show e: "ns = take j ns @ drop j (take n ns) @ ns ! n # drop (Suc n) ns" by (metis append.assoc)
  show "length (moved_to j n ns) = length ns" using assms by (simp add: moved_to_def)
  have "set ns = set (take j ns @ drop j (take n ns) @ ns ! n # drop (Suc n) ns)" by (rule arg_cong [OF e])
  then show "set (moved_to j n ns) = set ns" unfolding moved_to_def by auto
  show "take (Suc n) (moved_to j n ns) = take j ns @ ns ! n # drop j (take n ns)" using assms by (simp add: moved_to_def Suc_diff_le)
qed


lemma place_ok:
  assumes k: "queue_ok st q ns" and n: "unat (active_nodes q) = Suc n" "0 < n"
  shows "\<exists>j q' h'. place_by_priority (q_nodes st) q p = Some (q', h') \<and> j \<le> n
    \<and> (\<forall>k. j \<le> k \<longrightarrow> k < n \<longrightarrow> prio_at (q_nodes st) (ns ! k) < p) \<and> (0 < j \<longrightarrow> p \<le> prio_at (q_nodes st) (ns ! (j - 1)))
    \<and> ring h' (moved_to j n ns) \<and> dom h' = dom (q_nodes st)
    \<and> (\<forall>x\<in>dom (q_nodes st). elem_at h' x = elem_at (q_nodes st) x \<and> prio_at h' x = prio_at (q_nodes st) x)
    \<and> (\<forall>x. x \<notin> set ns \<longrightarrow> h' x = q_nodes st x)
    \<and> q' = q\<lparr>active_head_ptr := Some (hd (moved_to j n ns)), active_tail_ptr := Some (moved_to j n ns ! n)\<rparr>"
proof -
  let ?h = "q_nodes st"
  have lt: "n < length ns" using n(1) queue_okD(3) [OF k] by simp
  then have ne: "ns \<noteq> []" by auto
  note r = queue_okD(1) [OF k] and hd = queue_okD(6) [OF k ne] and dis = queue_okD(9) [OF k]
  have tl: "active_tail_ptr q = Some (ns ! n)" using queue_okD(7) [OF k ne] n(1) by simp
  obtain m where m: "n = Suc m" using n(2) by (cases n) auto
  have sd: "ns ! n \<in> dom ?h" "prv ?h (ns ! n) = Some (before ns n)" using ring_nth [OF r lt] n(2) by (simp_all add: before_def)
  have cnt: "unat (scast (active_nodes q) - 1 :: u32) = n"
  proof -
    have "unat (active_nodes q) < 2 ^ 15" using queue_ok_small [OF k] by blast
    then have "sint (active_nodes q) = int (Suc n)" unfolding n(1) [symmetric] by (rule sint_small)
    then have "(scast (active_nodes q) :: u32) = of_nat (Suc n)" by (metis of_int_of_nat_eq of_int_sint)
    moreover have "n < 2 ^ 15" using queue_ok_small [OF k] n(1) by simp
    ultimately show ?thesis by (simp add: unat_of_nat)
  qed
  obtain j where j: "j \<le> n" "priority_loop ?h n (Some (before ns n)) p = Some (Some (before ns j))"
    "\<forall>k. j \<le> k \<longrightarrow> k < n \<longrightarrow> prio_at ?h (ns ! k) < p" "0 < j \<longrightarrow> p \<le> prio_at ?h (ns ! (j - 1))"
    using priority_loop_spec [OF r _ ne, of n p] lt by auto
  have bd: "nxt ?h (before ns j) = Some (ns ! j)" "before ns j \<in> dom ?h"
  proof -
    show "nxt ?h (before ns j) = Some (ns ! j)"
      using ring_last [OF r ne] ring_nth(1) [OF r, of "j - 1"] j(1) lt ne by (cases j) (auto simp: before_def hd_conv_nth)
    then show "before ns j \<in> dom ?h" by (rule nxt_Some_dom)
  qed
  let ?Q = "if Some (ns ! j) = active_head_ptr q then q\<lparr>active_head_ptr := Some (ns ! n)\<rparr> else q"
  have pb: "place_by_priority ?h q p = (if ns ! j = ns ! n then Some (?Q, ?h)
      else do { h \<leftarrow> if before ns j \<noteq> ns ! n then move_behind ?h (Some (ns ! n)) (Some (before ns j)) else Some ?h;
                Some (?Q\<lparr>active_tail_ptr := Some (before ns n)\<rparr>, h) })"
    unfolding place_by_priority_def tl Let_def by (simp add: sd cnt j(2) bd mem_simps del: if_split)
  note M = moved_to_facts [OF lt j(1)]
  show ?thesis
  proof (cases "j = n")
    case True
    have "moved_to j n ns = ns" using M(4) True by (simp add: moved_to_def)
    moreover have "ns ! n \<noteq> List.hd ns" using dis lt n(2) ne by (simp add: hd_conv_nth nth_eq_iff_index_eq)
    ultimately show ?thesis using j True hd tl r by (intro exI [of _ j] exI [of _ q] exI [of _ ?h]) (simp add: pb)
  next
    case False
    then have jl: "j < n" using j(1) by simp
    let ?A = "take j ns" and ?B = "drop j (take n ns)" and ?C = "drop (Suc n) ns" and ?s = "ns ! n" and ?ns = "moved_to j n ns"
    let ?q = "q\<lparr>active_head_ptr := Some (List.hd ?ns), active_tail_ptr := Some (?ns ! n)\<rparr>"
    have B: "?B \<noteq> []" using jl lt by simp
    have dj: "ns ! j \<noteq> ?s" using dis lt jl by (simp add: nth_eq_iff_index_eq)
    have nn: "?ns ! n = ns ! (n - 1)" using jl lt by (auto simp: moved_to_def nth_append nth_Cons' m)
    have bn: "before ns n = ?ns ! n" using n(2) nn by (simp add: before_def)
    have hd': "List.hd ?ns = (if j = 0 then ?s else List.hd ns)" using ne lt jl by (cases j) (auto simp: moved_to_def hd_append take_Suc)
    have jh: "ns ! j = List.hd ns \<longleftrightarrow> j = 0" using dis lt jl ne by (simp add: hd_conv_nth nth_eq_iff_index_eq)
    have qq: "(if Some (ns ! j) = active_head_ptr q then q\<lparr>active_head_ptr := Some ?s\<rparr> else q)\<lparr>active_tail_ptr := Some (before ns n)\<rparr> = ?q"
      using jh hd hd' bn by simp
    note pb' = pb [unfolded qq]
    show ?thesis
    proof (cases "before ns j = ?s")
      case True
      have "j = 0 \<and> ?C = []"
      proof -
        have "j = 0" using True dis lt jl ne by (auto simp: before_def nth_eq_iff_index_eq split: if_splits)
        moreover from this have "length ns - 1 = n" using True dis lt ne by (simp add: before_def last_conv_nth nth_eq_iff_index_eq)
        ultimately show ?thesis by simp
      qed
      then have ns: "ns = ?B @ [?s]" "?ns = ?s # ?B" using M(4) by (simp_all add: moved_to_def)
      then have "ring ?h ?ns" using r ring_unrotate [of ?h ?B ?s] by metis
      moreover have "place_by_priority ?h q p = Some (?q, ?h)" using pb' True dj by simp
      ultimately show ?thesis using j by (intro exI [of _ j] exI [of _ ?q] exI [of _ ?h]) simp
    next
      case ds: False
      have CA: "?C @ ?A \<noteq> []"
      proof
        assume "?C @ ?A = []"
        then have "length ns = Suc n" "j = 0" using lt ne by auto
        then show False using ds ne by (simp add: before_def last_conv_nth)
      qed
      have last: "last (?C @ ?A) = before ns j"
        using CA ne lt jl by (cases j) (auto simp: before_def last_drop take_Suc_conv_app_nth)
      obtain xs where xs: "?C @ ?A = xs @ [before ns j]" using CA last by (metis append_butlast_last_id)
      have "ring ?h ((?A @ ?B) @ ?s # ?C)" using r M(4) by simp
      then have "ring ?h (?s # ?C @ ?A @ ?B)" using ring_rot [of ?h "?A @ ?B" "?s # ?C"] by simp
      then have r': "ring ?h (?s # xs @ before ns j # ?B)" using xs by (metis append.assoc append_Cons append_Nil)
      obtain h' where h': "move_behind ?h (Some ?s) (Some (before ns j)) = Some h'" "ring h' (xs @ before ns j # ?s # ?B)" "dom h' = dom ?h"
        "\<forall>x\<in>dom ?h. elem_at h' x = elem_at ?h x \<and> prio_at h' x = prio_at ?h x"
        "\<forall>x. x \<notin> set (?s # xs @ before ns j # ?B) \<longrightarrow> h' x = ?h x"
        using move_behind_ring [OF r' B] by blast
      have "ring h' (?C @ ?A @ ?s # ?B)" using h'(2) xs by (metis append.assoc append_Cons append_Nil)
      then have "ring h' ?ns" using ring_rot [of h' ?C "?A @ ?s # ?B"] by (simp add: moved_to_def)
      moreover have "set (?s # xs @ before ns j # ?B) = set ns"
      proof -
        have "set (?C @ ?A) = set (xs @ [before ns j])" using xs by metis
        then show ?thesis using M(2) unfolding moved_to_def by auto
      qed
      moreover have "place_by_priority ?h q p = Some (?q, h')" using pb' ds dj h'(1) by simp
      ultimately show ?thesis using j h'(3-5) by (intro exI [of _ j] exI [of _ ?q] exI [of _ h']) simp
    qed
  qed
qed

lemma modify_prio [mem_simps]: "a \<in> dom h \<Longrightarrow> modify h (Some a) (priority_update (\<lambda>_. v)) = Some (set_prio a v h)"
  by (auto simp: modify_def set_prio_def)

text \<open>The elements of a queue with their priorities.\<close>

definition pcontents :: "posal_queue_state \<Rightarrow> posal_queue_internal \<Rightarrow> addr list \<Rightarrow> (u32 \<times> posal_queue_element) list" where
  "pcontents st q ns = map (\<lambda>a. (prio_at (q_nodes st) a, elem_at (q_nodes st) a)) (take (unat (active_nodes q)) ns)"

lemma map_snd_pcontents: "map snd (pcontents st q ns) = contents st q ns"
  by (simp add: pcontents_def contents_def)

text \<open>
  \<open>by_priority p e old new\<close>: the element is behind the last one of the same or a higher
  priority, if the old list is sorted, and in front of those with a lower one.
\<close>

definition by_priority :: "u32 \<Rightarrow> 'e \<Rightarrow> (u32 \<times> 'e) list \<Rightarrow> (u32 \<times> 'e) list \<Rightarrow> bool" where
  "by_priority p e old new \<longleftrightarrow> (\<exists>us vs. old = us @ vs \<and> new = us @ (p, e) # vs
     \<and> (\<forall>v\<in>set vs. fst v < p) \<and> (us \<noteq> [] \<longrightarrow> p \<le> fst (last us)))"

lemma by_priority_sorted:
  assumes "by_priority p e old new" "sorted_wrt (\<ge>) (map fst old)"
  shows "sorted_wrt (\<ge>) (map fst new)"
proof -
  obtain us vs where s: "old = us @ vs" "new = us @ (p, e) # vs" "\<forall>v\<in>set vs. fst v < p" "us \<noteq> [] \<longrightarrow> p \<le> fst (last us)"
    using assms(1) by (auto simp: by_priority_def)
  have "p \<le> fst u" if u: "u \<in> set us" for u
  proof -
    have ne: "us \<noteq> []" using u by auto
    have "sorted_wrt (\<ge>) (map fst us)" using assms(2) s(1) by (simp add: sorted_wrt_append)
    then have "fst (last us) \<le> fst u" using u ne
    proof (induction us)
      case (Cons a us)
      then show ?case by (cases "us = []") auto
    qed simp
    then show ?thesis using s(4) ne by simp
  qed
  then show ?thesis using assms(2) s(1,2,3) by (auto simp: sorted_wrt_append intro: less_imp_le)
qed

lemma queue_ok_nodes:
  assumes "queue_ok st q ns" "ring h ns"
  shows "queue_ok (st\<lparr>q_nodes := h\<rparr>) q ns"
  using assms by (simp add: queue_ok_def)

lemma put_in_fields:
  assumes "put_in st q ns es st' q' ns'"
  shows "queue_ok st' q' ns'" "contents st' q' ns' = es" "unat (active_nodes q') = Suc (unat (active_nodes q))"
    "is_priority_queue q' = is_priority_queue q" "channel_ptr q' = channel_ptr q" "channel_bit q' = channel_bit q"
    "disable_signaling q' = disable_signaling q"
proof -
  have Q: "q' = q\<lparr>active_head_ptr := active_head_ptr q', active_tail_ptr := active_tail_ptr q', num_nodes := num_nodes q', active_nodes := active_nodes q'\<rparr>"
    using assms unfolding put_in_def by blast
  show "is_priority_queue q' = is_priority_queue q" "channel_ptr q' = channel_ptr q" "channel_bit q' = channel_bit q"
    "disable_signaling q' = disable_signaling q" by (subst Q, simp)+
qed (use assms in \<open>auto simp: put_in_def\<close>)

lemma push_priority_ok:
  assumes k: "queue_ok st q ns" and e: "q_env_ok env st q" and pq: "is_priority_queue q" and nz: "contents st q ns \<noteq> []"
  shows "\<exists>rc q' st' ns'. posal_queue_push_back_with_priority env st (Some q) e' p = Some (rc, Some q', st') \<and> queue_ok st' q' ns' \<and>
    (rc = AR_EOK \<and> by_priority p e' (pcontents st q ns) (pcontents st' q' ns')
     \<or> rc = AR_ENEEDMORE \<and> active_nodes q = max_nodes q \<and> q' = q \<and> st' = st \<and> ns' = ns
     \<or> rc = AR_ENOMEMORY \<and> pcontents st' q' ns' = pcontents st q ns)"
proof -
  obtain rc q1 st1 ns1 where pb: "posal_queue_push_back env st (Some q) e' = Some (rc, Some q1, st1)"
    and res: "rc = AR_EOK \<and> active_nodes q \<noteq> max_nodes q \<and> put_in st q ns (contents st q ns @ [e']) st1 q1 ns1
        \<and> active_tail_ptr q1 = Some (ns1 ! unat (active_nodes q)) \<and> take (unat (active_nodes q)) ns1 = take (unat (active_nodes q)) ns
        \<and> (\<forall>y\<in>set (take (unat (active_nodes q)) ns). prio_at (q_nodes st1) y = prio_at (q_nodes st) y)
     \<or> rc = AR_ENEEDMORE \<and> active_nodes q = max_nodes q \<and> q1 = q \<and> st1 = st
     \<or> rc = AR_ENOMEMORY \<and> active_nodes q \<noteq> max_nodes q \<and> q1 = q \<and> queue_ok st1 q ns
        \<and> (\<exists>pl. st1 = st\<lparr>q_pool := pl\<rparr> \<and> (\<not> is_priority_queue q \<longrightarrow> live_nodes pl = live_nodes (q_pool st)))"
    using push_back_ok [OF k e, of e'] by blast
  show ?thesis
  proof (cases "rc = AR_EOK")
    case False
    then have "posal_queue_push_back_with_priority env st (Some q) e' p = Some (rc, Some q1, st1)"
      using pb by (simp add: posal_queue_push_back_with_priority_def)
    then show ?thesis using res False k by (intro exI [of _ rc] exI [of _ q1] exI [of _ st1] exI [of _ ns]) (auto simp: pcontents_def)
  next
    case True
    let ?n = "unat (active_nodes q)"
    have P: "put_in st q ns (contents st q ns @ [e']) st1 q1 ns1" and tl: "active_tail_ptr q1 = Some (ns1 ! ?n)"
      and tk: "take ?n ns1 = take ?n ns" and pr: "\<forall>y\<in>set (take ?n ns). prio_at (q_nodes st1) y = prio_at (q_nodes st) y"
      using res True by auto
    note F = put_in_fields [OF P]
    note k1 = F(1) and c1 = F(2) and n1 = F(3)
    have pq1: "is_priority_queue q1" using F(4) pq by simp
    have npos: "0 < ?n" using nz contents_empty [OF k] by (auto simp: unat_gt_0)
    have lt: "?n < length ns1" using n1 queue_okD(3) [OF k1] by simp
    let ?x = "ns1 ! ?n"
    have xd: "?x \<in> dom (q_nodes st1)" using ring_nth(3) [OF queue_okD(1) [OF k1] lt] .
    have xs: "take (Suc ?n) ns1 = take ?n ns @ [?x]" using lt tk by (simp add: take_Suc_conv_app_nth)
    have ce: "map (elem_at (q_nodes st1)) (take ?n ns) = contents st q ns" "elem_at (q_nodes st1) ?x = e'"
      using c1 unfolding contents_def n1 xs by auto
    have nin: "?x \<notin> set (take ?n ns)" using distinct_take [OF queue_okD(9) [OF k1], of "Suc ?n"] unfolding xs by simp
    let ?h = "set_prio ?x p (q_nodes st1)"
    let ?st = "st1\<lparr>q_nodes := ?h\<rparr>"
    have k2: "queue_ok ?st q1 ns1" using queue_ok_nodes [OF k1, of ?h] queue_okD(1) [OF k1] by simp
    have pe: "map (\<lambda>a. (prio_at ?h a, elem_at ?h a)) (take ?n ns) = pcontents st q ns"
    proof -
      have "map (elem_at (q_nodes st1)) (take ?n ns) = map (elem_at (q_nodes st)) (take ?n ns)" using ce(1) by (simp add: contents_def)
      then have "elem_at (q_nodes st1) y = elem_at (q_nodes st) y" if "y \<in> set (take ?n ns)" for y using that by simp
      then show ?thesis using pr nin xd unfolding pcontents_def by (intro map_cong) auto
    qed
    have gt1: "1 <s active_nodes q1"
    proof -
      have "unat (active_nodes q1) < 2 ^ 15" using queue_ok_small [OF k1] by blast
      then have "sint (active_nodes q1) = int (Suc ?n)" unfolding n1 [symmetric] by (rule sint_small)
      moreover have "1 < int (Suc ?n)" using npos by (metis One_nat_def Suc_less_eq of_nat_1 of_nat_less_iff)
      ultimately have "1 < sint (active_nodes q1)" by (simp only:)
      then show ?thesis by (simp add: word_sless_alt)
    qed
    have md: "modify (q_nodes st1) (active_tail_ptr q1) (priority_update (\<lambda>_. p)) = Some ?h" using tl xd by (simp add: mem_simps)
    show ?thesis
    proof (cases "p > 0")
      case False
      then have op: "posal_queue_push_back_with_priority env st (Some q) e' p = Some (AR_EOK, Some q1, ?st)"
        using pb True gt1 pq1 md by (simp add: posal_queue_push_back_with_priority_def)
      have "p = 0" using False by (simp add: word_gt_0)
      moreover have "pcontents ?st q1 ns1 = pcontents st q ns @ [(p, e')]" using pe ce(2) xd unfolding pcontents_def n1 xs by simp
      ultimately have "by_priority p e' (pcontents st q ns) (pcontents ?st q1 ns1)"
        unfolding by_priority_def by (intro exI [of _ "pcontents st q ns"] exI [of _ "[]"]) simp
      then show ?thesis using op k2 by blast
    next
      case pos: True
      obtain j q2 h2 where pl: "place_by_priority (q_nodes ?st) q1 p = Some (q2, h2)" "j \<le> ?n"
        "\<forall>k. j \<le> k \<longrightarrow> k < ?n \<longrightarrow> prio_at (q_nodes ?st) (ns1 ! k) < p" "0 < j \<longrightarrow> p \<le> prio_at (q_nodes ?st) (ns1 ! (j - 1))"
        "ring h2 (moved_to j ?n ns1)" "dom h2 = dom (q_nodes ?st)"
        "\<forall>x\<in>dom (q_nodes ?st). elem_at h2 x = elem_at (q_nodes ?st) x \<and> prio_at h2 x = prio_at (q_nodes ?st) x"
        and q2: "q2 = q1\<lparr>active_head_ptr := Some (hd (moved_to j ?n ns1)), active_tail_ptr := Some (moved_to j ?n ns1 ! ?n)\<rparr>"
        using place_ok [OF k2 n1 npos, of p] by blast
      note M = moved_to_facts [OF lt pl(2)]
      let ?st2 = "?st\<lparr>q_nodes := h2\<rparr>" and ?ns = "moved_to j ?n ns1" and ?f = "\<lambda>a. (prio_at ?h a, elem_at ?h a)"
      have op: "posal_queue_push_back_with_priority env st (Some q) e' p = Some (AR_EOK, Some q2, ?st2)"
        using pb True gt1 pq1 md pos pl(1) by (simp add: posal_queue_push_back_with_priority_def)
      have k3: "queue_ok ?st2 q2 ?ns" using k1 pl(5) M(1,2) n1 unfolding queue_ok_def q2 by auto
      have "set (take (Suc ?n) ?ns) \<subseteq> set ?ns" by (rule set_take_subset)
      then have "set (take (Suc ?n) ?ns) \<subseteq> dom ?h" using M(2) queue_okD(10) [OF k2] by simp
      then have "pcontents ?st2 q2 ?ns = map ?f (take (Suc ?n) ?ns)"
        using pl(7) unfolding pcontents_def q2 by (simp add: n1 subset_iff)
      then have new: "pcontents ?st2 q2 ?ns = map ?f (take j ns1) @ (p, e') # map ?f (drop j (take ?n ns1))"
        using M(3) ce(2) xd by simp
      have old: "pcontents st q ns = map ?f (take j ns1) @ map ?f (drop j (take ?n ns1))"
      proof -
        have "take ?n ns1 = take j ns1 @ drop j (take ?n ns1)" using pl(2) by (metis append_take_drop_id min.absorb1 take_take)
        then show ?thesis using pe tk by (metis map_append)
      qed
      have "fst v < p" if "v \<in> set (map ?f (drop j (take ?n ns1)))" for v
        using that pl(3) lt by (auto simp: in_set_conv_nth)
      moreover have "p \<le> fst (last (map ?f (take j ns1)))" if "map ?f (take j ns1) \<noteq> []"
        using that pl(2,4) lt by (auto simp: last_map last_conv_nth min_def)
      ultimately have "by_priority p e' (pcontents st q ns) (pcontents ?st2 q2 ?ns)" unfolding by_priority_def using old new by blast
      then show ?thesis using op k3 by blast
    qed
  qed
qed

subsection \<open>The signal of a queue\<close>

text \<open>The channel shows the bit of the queue exactly when there are elements and signalling is on.\<close>

definition sig_ok :: "posal_queue_state \<Rightarrow> posal_queue_internal \<Rightarrow> bool" where
  "sig_ok st q \<longleftrightarrow> posal_queue_poll st q = Some (if disable_signaling q \<or> active_nodes q = 0 then 0 else channel_bit q)"

lemma poll_sig:
  assumes "channel_ptr q = Some c" "c \<in> dom (chans st)"
  shows "posal_queue_poll (st\<lparr>chans := sig_set (channel_ptr q) (channel_bit q) (chans st)\<rparr>) q = Some (channel_bit q)"
    "posal_queue_poll (st\<lparr>chans := sig_clear (channel_ptr q) (channel_bit q) (chans st)\<rparr>) q = Some 0"
proof -
  obtain ch where ch: "chans st c = Some ch" using assms(2) by blast
  have "channel_bit q AND (anysig ch OR channel_bit q) = channel_bit q" by (rule bit_eqI) (auto simp: bit_simps)
  moreover have "channel_bit q AND (anysig ch AND NOT (channel_bit q)) = 0" by (rule bit_eqI) (auto simp: bit_simps)
  ultimately show "posal_queue_poll (st\<lparr>chans := sig_set (channel_ptr q) (channel_bit q) (chans st)\<rparr>) q = Some (channel_bit q)"
    "posal_queue_poll (st\<lparr>chans := sig_clear (channel_ptr q) (channel_bit q) (chans st)\<rparr>) q = Some 0"
    using assms(1) ch by (simp_all add: posal_queue_poll_def posal_linux_signal_get_def sig_set_def sig_clear_def)
qed

lemma poll_cong: "chans st' = chans st \<Longrightarrow> channel_ptr q' = channel_ptr q \<Longrightarrow> channel_bit q' = channel_bit q \<Longrightarrow> posal_queue_poll st' q' = posal_queue_poll st q"
  by (simp add: posal_queue_poll_def)

lemma put_in_sig:
  assumes k: "queue_ok st q ns" and s: "sig_ok st q" and p: "put_in st q ns es st' q' ns'"
  shows "sig_ok st' q'"
proof -
  note F = put_in_fields [OF p]
  obtain c where c: "channel_ptr q = Some c" "c \<in> dom (chans st)" using queue_okD(8) [OF k] by blast
  have ch: "chans st' = (if disable_signaling q then chans st else sig_set (channel_ptr q) (channel_bit q) (chans st))"
    using p unfolding put_in_def by blast
  have "active_nodes q' \<noteq> 0" using F(3) by auto
  moreover have "posal_queue_poll st' q' = (if disable_signaling q then posal_queue_poll st q else Some (channel_bit q))"
    using ch F(5,6) poll_sig(1) [OF c] poll_cong [of st' "st\<lparr>chans := chans st'\<rparr>" q' q] poll_cong [of st' st q' q] by simp
  ultimately show ?thesis using s F(6,7) by (auto simp: sig_ok_def)
qed

lemma taken_out_fields:
  assumes "taken_out st q ns es st' q' ns'"
  shows "queue_ok st' q' ns'" "contents st' q' ns' = es" "channel_ptr q' = channel_ptr q" "channel_bit q' = channel_bit q"
    "disable_signaling q' = disable_signaling q" "is_priority_queue q' = is_priority_queue q"
    "st' = st\<lparr>chans := (if es = [] then sig_clear (channel_ptr q) (channel_bit q) (chans st) else chans st)\<rparr>"
proof -
  have Q: "q' = q\<lparr>active_head_ptr := active_head_ptr q', active_tail_ptr := active_tail_ptr q', active_nodes := active_nodes q'\<rparr>"
    using assms unfolding taken_out_def by blast
  show "channel_ptr q' = channel_ptr q" "channel_bit q' = channel_bit q"
    "disable_signaling q' = disable_signaling q" "is_priority_queue q' = is_priority_queue q" by (subst Q, simp)+
qed (use assms in \<open>auto simp: taken_out_def\<close>)

lemma taken_out_sig:
  assumes k: "queue_ok st q ns" and s: "sig_ok st q" and p: "taken_out st q ns es st' q' ns'"
  shows "sig_ok st' q'"
proof -
  note F = taken_out_fields [OF p]
  obtain c where c: "channel_ptr q = Some c" "c \<in> dom (chans st)" using queue_okD(8) [OF k] by blast
  have a: "active_nodes q' = 0 \<longleftrightarrow> es = []" using contents_empty [OF F(1)] F(2) by simp
  have "unat (active_nodes q) = Suc (unat (active_nodes q'))" using p unfolding taken_out_def by blast
  then have nz: "active_nodes q \<noteq> 0" by auto
  show ?thesis
  proof (cases "es = []")
    case True
    then have "posal_queue_poll st' q' = Some 0" using F(3,4,7) poll_sig(2) [OF c] by (simp add: posal_queue_poll_def)
    then show ?thesis using a True by (simp add: sig_ok_def)
  next
    case False
    then have "posal_queue_poll st' q' = posal_queue_poll st q" using F(3,4,7) by (intro poll_cong) simp_all
    then show ?thesis using s a False nz F(4,5) by (simp add: sig_ok_def)
  qed
qed

subsection \<open>The queue as a message queue\<close>

definition queue_rel :: "posal_queue_state \<times> posal_queue_internal \<Rightarrow> posal_queue_element list \<Rightarrow> bool" where
  "queue_rel s xs \<longleftrightarrow> (\<exists>ns. queue_ok (fst s) (snd s) ns \<and> contents (fst s) (snd s) ns = xs) \<and> sig_ok (fst s) (snd s)"

definition queue_push :: "posal_queue_state \<times> posal_queue_internal \<Rightarrow> posal_queue_element \<Rightarrow> bool \<Rightarrow>
    posal_queue_state \<times> posal_queue_internal \<Rightarrow> bool" where
  "queue_push s e ok s' \<longleftrightarrow> (\<exists>env rc. q_env_ok env (fst s) (snd s)
     \<and> posal_queue_push_back env (fst s) (Some (snd s)) e = Some (rc, Some (snd s'), fst s') \<and> (ok \<longleftrightarrow> rc = AR_EOK))"

definition queue_pop :: "posal_queue_state \<times> posal_queue_internal \<Rightarrow> (posal_queue_element option \<times> posal_queue_state \<times> posal_queue_internal) option" where
  "queue_pop s = do {
     (rc, e, q, st) \<leftarrow> posal_queue_pop_front (fst s) (Some (snd s));
     q \<leftarrow> q;
     Some (e, st, q)
   }"

lemma queue_push_rel:
  assumes "queue_rel s xs" "q_env_ok env (fst s) (snd s)"
  shows "\<exists>rc q' st'. posal_queue_push_back env (fst s) (Some (snd s)) e = Some (rc, Some q', st')
    \<and> queue_rel (st', q') (if rc = AR_EOK then xs @ [e] else xs)
    \<and> (rc = AR_ENEEDMORE \<longleftrightarrow> unat (max_nodes (snd s)) = length xs) \<and> rc \<in> {AR_EOK, AR_ENEEDMORE, AR_ENOMEMORY}"
proof -
  obtain ns where k: "queue_ok (fst s) (snd s) ns" "contents (fst s) (snd s) ns = xs" and sg: "sig_ok (fst s) (snd s)"
    using assms(1) by (auto simp: queue_rel_def)
  have mx: "active_nodes (snd s) = max_nodes (snd s) \<longleftrightarrow> unat (max_nodes (snd s)) = length xs"
    using contents_length [OF k(1)] k(2) by (auto simp: word_unat_eq_iff)
  obtain rc q' st' ns' where pb: "posal_queue_push_back env (fst s) (Some (snd s)) e = Some (rc, Some q', st')"
    and res: "rc = AR_EOK \<and> active_nodes (snd s) \<noteq> max_nodes (snd s) \<and> put_in (fst s) (snd s) ns (xs @ [e]) st' q' ns'
     \<or> rc = AR_ENEEDMORE \<and> active_nodes (snd s) = max_nodes (snd s) \<and> q' = snd s \<and> st' = fst s
     \<or> rc = AR_ENOMEMORY \<and> active_nodes (snd s) \<noteq> max_nodes (snd s) \<and> q' = snd s \<and> (\<exists>pl. st' = (fst s)\<lparr>q_pool := pl\<rparr>) \<and> queue_ok st' (snd s) ns"
    using push_back_ok [OF k(1) assms(2), of e] k(2) by blast
  have "queue_rel (st', q') (xs @ [e])" if "rc = AR_EOK"
    using res that put_in_fields(1,2) put_in_sig [OF k(1) sg] by (fastforce simp: queue_rel_def)
  moreover have "queue_rel (st', q') xs" if "rc \<noteq> AR_EOK"
    using res that k sg assms(1) by (auto simp: queue_rel_def contents_def sig_ok_def posal_queue_poll_def)
  ultimately show ?thesis using pb res mx by (intro exI [of _ rc] exI [of _ q'] exI [of _ st']) auto
qed

lemma queue_pop_rel: "queue_rel s (x # xs) \<Longrightarrow> \<exists>s'. queue_pop s = Some (Some x, s') \<and> queue_rel s' xs"
proof -
  assume r: "queue_rel s (x # xs)"
  then obtain ns where k: "queue_ok (fst s) (snd s) ns" "contents (fst s) (snd s) ns = x # xs" and sg: "sig_ok (fst s) (snd s)"
    by (auto simp: queue_rel_def)
  obtain q' st' ns' where p: "posal_queue_pop_front (fst s) (Some (snd s)) = Some (AR_EOK, Some x, Some q', st')"
    "taken_out (fst s) (snd s) ns xs st' q' ns'" using pop_front_ok [OF k] by blast
  have "queue_rel (st', q') xs" using taken_out_fields(1,2) [OF p(2)] taken_out_sig [OF k(1) sg p(2)] by (auto simp: queue_rel_def)
  then show ?thesis using p(1) by (simp add: queue_pop_def)
qed

interpretation posal_queue: message_queue queue_rel queue_push queue_pop
proof
  fix s s' :: "posal_queue_state \<times> posal_queue_internal" and xs e ok
  assume r: "queue_rel s xs" and p: "queue_push s e ok s'"
  then obtain env rc where "q_env_ok env (fst s) (snd s)"
    "posal_queue_push_back env (fst s) (Some (snd s)) e = Some (rc, Some (snd s'), fst s')" "ok \<longleftrightarrow> rc = AR_EOK"
    by (auto simp: queue_push_def)
  then show "queue_rel s' (if ok then xs @ [e] else xs)" using queue_push_rel [OF r, of env e] by auto
next
  fix s :: "posal_queue_state \<times> posal_queue_internal" and x xs
  assume "queue_rel s (x # xs)"
  then show "\<exists>s'. queue_pop s = Some (Some x, s') \<and> queue_rel s' xs" by (rule queue_pop_rel)
next
  fix s :: "posal_queue_state \<times> posal_queue_internal"
  assume "queue_rel s []"
  then show "queue_pop s = Some (None, s)" using pop_empty(1) by (fastforce simp: queue_rel_def queue_pop_def)
qed

subsection \<open>Several queues\<close>

lemma queue_frame:
  assumes k: "queue_ok st q ns"
    and n: "\<And>x. x \<in> set ns \<Longrightarrow> q_nodes st' x = q_nodes st x" and d: "dom (chans st') = dom (chans st)"
    and p: "\<not> is_priority_queue q \<longrightarrow> bufpool_inv (q_pool st') \<and> set ns \<subseteq> live_nodes (q_pool st')"
  shows "queue_ok st' q ns" "contents st' q ns = contents st q ns"
proof -
  have "nxt (q_nodes st') x = nxt (q_nodes st) x \<and> prv (q_nodes st') x = prv (q_nodes st) x
      \<and> (x \<in> dom (q_nodes st') \<longleftrightarrow> x \<in> dom (q_nodes st))" if "x \<in> set ns" for x
    using n [OF that] by (simp add: nxt_def prv_def dom_def)
  then have "ring (q_nodes st') ns = ring (q_nodes st) ns" by (rule ring_cong)
  then show "queue_ok st' q ns" using k p d unfolding queue_ok_def by auto
  have "elem_at (q_nodes st') x = elem_at (q_nodes st) x" if "x \<in> set (take (unat (active_nodes q)) ns)" for x
    using n [of x] in_set_takeD [OF that] by (simp add: elem_at_def)
  then show "contents st' q ns = contents st q ns" by (simp add: contents_def)
qed

lemma push_isolated:
  assumes k: "queue_ok st q ns" "queue_ok st q2 ns2" and e: "q_env_ok env st q" and d: "set ns \<inter> set ns2 = {}"
    and np: "\<not> is_priority_queue q" "\<not> is_priority_queue q2"
    and c: "channel_ptr q = channel_ptr q2 \<Longrightarrow> channel_bit q AND channel_bit q2 = 0"
    and op: "posal_queue_push_back env st (Some q) e' = Some (rc, Some q', st')"
  shows "queue_ok st' q2 ns2 \<and> contents st' q2 ns2 = contents st q2 ns2 \<and> posal_queue_poll st' q2 = posal_queue_poll st q2"
proof -
  have live: "set ns2 \<subseteq> live_nodes (q_pool st)" using k(2) np(2) by (simp add: queue_ok_def)
  consider ns' where "put_in st q ns (contents st q ns @ [e']) st' q' ns'" | "st' = st"
    | pl where "st' = st\<lparr>q_pool := pl\<rparr>" "queue_ok st' q ns" "live_nodes pl = live_nodes (q_pool st)"
    using push_back_ok [OF k(1) e, of e'] op np(1) by (elim exE conjE disjE) auto
  then show ?thesis
  proof cases
    case 1
    have P: "\<forall>x. x \<notin> set ns' \<longrightarrow> q_nodes st' x = q_nodes st x" "live_nodes (q_pool st') = live_nodes (q_pool st) \<union> set ns'"
      "(set ns' - set ns) \<inter> live_nodes (q_pool st) = {}"
      "chans st' = (if disable_signaling q then chans st else sig_set (channel_ptr q) (channel_bit q) (chans st))"
      "queue_ok st' q' ns'" "is_priority_queue q' = is_priority_queue q"
      using 1 np(1) put_in_fields(4) [OF 1] unfolding put_in_def by blast+
    have bi: "bufpool_inv (q_pool st')" using P(5,6) np(1) by (simp add: queue_ok_def)
    have same: "q_nodes st' x = q_nodes st x" if "x \<in> set ns2" for x
    proof -
      have "x \<notin> set ns'" using that d live P(3) by blast
      then show ?thesis using P(1) by blast
    qed
    have poll: "posal_queue_poll st' q2 = posal_queue_poll st q2"
    proof (cases "channel_ptr q = channel_ptr q2")
      case True
      obtain ch cr where ch: "channel_ptr q2 = Some ch" "chans st ch = Some cr" using queue_okD(8) [OF k(2)] by auto
      have "channel_bit q2 AND (anysig cr OR channel_bit q) = channel_bit q2 AND anysig cr"
      proof (rule bit_eqI)
        fix n
        have "bit (channel_bit q AND channel_bit q2) n = bit (0 :: u32) n" using c [OF True] by simp
        then show "bit (channel_bit q2 AND (anysig cr OR channel_bit q)) n = bit (channel_bit q2 AND anysig cr) n"
          by (auto simp: bit_simps)
      qed
      then show ?thesis using P(4) ch True by (simp add: posal_queue_poll_def posal_linux_signal_get_def sig_set_def)
    next
      case False
      then show ?thesis using P(4)
        by (auto simp: posal_queue_poll_def posal_linux_signal_get_def sig_set_def load_def split: option.split bind_splits)
    qed
    have "dom (chans st') = dom (chans st)" using P(4) by simp
    moreover have "\<not> is_priority_queue q2 \<longrightarrow> bufpool_inv (q_pool st') \<and> set ns2 \<subseteq> live_nodes (q_pool st')" using bi live P(2) by auto
    ultimately show ?thesis using queue_frame [OF k(2) same] poll by blast
  next
    case 2
    then show ?thesis using k(2) by simp
  next
    case 3
    then have "bufpool_inv (q_pool st')" "live_nodes (q_pool st') = live_nodes (q_pool st)" using np(1) by (simp_all add: queue_ok_def)
    moreover have "posal_queue_poll st' q2 = posal_queue_poll st q2" using 3(1) by (intro poll_cong) simp_all
    ultimately show ?thesis using queue_frame [OF k(2), of st'] 3(1) live by auto
  qed
qed


subsection \<open>Releasing a queue\<close>

lemma release_ok:
  assumes "a \<in> dom (q_nodes st)" "\<not> is_priority_queue q \<longrightarrow> bufpool_inv (q_pool st) \<and> a \<in> live_nodes (q_pool st)"
  shows "\<exists>pl. posal_queue_release_node st q (Some a) = Some (st\<lparr>q_pool := pl, q_nodes := (q_nodes st)(a := None)\<rparr>)
    \<and> (if is_priority_queue q then pl = q_pool st else bufpool_inv pl \<and> live_nodes pl = live_nodes (q_pool st) - {a})"
proof (cases "is_priority_queue q")
  case True
  obtain n where "q_nodes st a = Some n" using assms(1) by blast
  then show ?thesis using True by (intro exI [of _ "q_pool st"]) (simp add: posal_queue_release_node_def)
next
  case False
  obtain n where n: "q_nodes st a = Some n" using assms(1) by blast
  from False obtain pl where "posal_bufpool_return_node (q_pool st) a = Some pl" "bufpool_inv pl" "live_nodes pl = live_nodes (q_pool st) - {a}"
    using bufpool.put_law [of "q_pool st" a] assms(2) by blast
  then show ?thesis using n False by (intro exI [of _ pl]) (simp add: posal_queue_release_node_def)
qed

lemma free_nodes_loop_ok:
  assumes "dseg (q_nodes st) pr ns nx" "distinct ns" "length ns = unat (num_nodes q)" "length ns < 2 ^ 15"
    and "ns \<noteq> [] \<longrightarrow> active_head_ptr q = Some (hd ns)"
    and "\<not> is_priority_queue q \<longrightarrow> bufpool_inv (q_pool st) \<and> set ns \<subseteq> live_nodes (q_pool st)"
  shows "\<exists>p pl. free_nodes_loop st q = Some (q\<lparr>active_head_ptr := p, num_nodes := 0\<rparr>,
        st\<lparr>q_pool := pl, q_nodes := (\<lambda>x. if x \<in> set ns then None else q_nodes st x)\<rparr>)
    \<and> (if is_priority_queue q then pl = q_pool st else bufpool_inv pl \<and> live_nodes pl = live_nodes (q_pool st) - set ns)"
  using assms
proof (induction ns arbitrary: st q pr)
  case Nil
  then have "num_nodes q = 0" by (simp add: unat_eq_zero)
  then show ?case using Nil.prems(6)
    by (intro exI [of _ "active_head_ptr q"] exI [of _ "q_pool st"]) (simp add: free_nodes_loop.simps)
next
  case (Cons x xs)
  have x: "x \<in> dom (q_nodes st)" "nxt (q_nodes st) x = begp xs nx" using Cons.prems(1) by auto
  have nz: "num_nodes q \<noteq> 0" using Cons.prems(3) by auto
  then have pos: "0 <s num_nodes q" using sgt_zero [of "num_nodes q"] Cons.prems(3,4) by simp
  obtain pl where rel: "posal_queue_release_node st q (Some x) = Some (st\<lparr>q_pool := pl, q_nodes := (q_nodes st)(x := None)\<rparr>)"
    and pl: "if is_priority_queue q then pl = q_pool st else bufpool_inv pl \<and> live_nodes pl = live_nodes (q_pool st) - {x}"
    using release_ok [OF x(1), of q] Cons.prems(6) by auto
  let ?st = "st\<lparr>q_pool := pl, q_nodes := (q_nodes st)(x := None)\<rparr>"
  let ?q = "q\<lparr>active_head_ptr := begp xs nx, num_nodes := num_nodes q - 1\<rparr>"
  have step: "free_nodes_loop st q = free_nodes_loop ?st ?q"
    using pos x rel Cons.prems(5) by (subst free_nodes_loop.simps) (simp add: mem_simps)
  have "\<exists>p pl'. free_nodes_loop ?st ?q = Some (?q\<lparr>active_head_ptr := p, num_nodes := 0\<rparr>,
        ?st\<lparr>q_pool := pl', q_nodes := (\<lambda>y. if y \<in> set xs then None else q_nodes ?st y)\<rparr>)
    \<and> (if is_priority_queue ?q then pl' = q_pool ?st else bufpool_inv pl' \<and> live_nodes pl' = live_nodes (q_pool ?st) - set xs)"
  proof (rule Cons.IH)
    show "dseg (q_nodes ?st) (Some x) xs nx" using Cons.prems(1,2) by simp
    show "length xs = unat (num_nodes ?q)" using Cons.prems(3) unat_pred [OF nz] by simp
    show "xs \<noteq> [] \<longrightarrow> active_head_ptr ?q = Some (hd xs)" by (simp add: begp_hd)
    show "\<not> is_priority_queue ?q \<longrightarrow> bufpool_inv (q_pool ?st) \<and> set xs \<subseteq> live_nodes (q_pool ?st)"
      using pl Cons.prems(2,6) by auto
  qed (use Cons.prems in auto)
  then obtain p pl' where r: "free_nodes_loop ?st ?q = Some (?q\<lparr>active_head_ptr := p, num_nodes := 0\<rparr>,
        ?st\<lparr>q_pool := pl', q_nodes := (\<lambda>y. if y \<in> set xs then None else q_nodes ?st y)\<rparr>)"
    "if is_priority_queue q then pl' = pl else bufpool_inv pl' \<and> live_nodes pl' = live_nodes pl - set xs" by auto
  have "(\<lambda>y. if y \<in> set xs then None else q_nodes ?st y) = (\<lambda>y. if y \<in> set (x # xs) then None else q_nodes st y)" by auto
  then have "free_nodes_loop st q = Some (q\<lparr>active_head_ptr := p, num_nodes := 0\<rparr>,
        st\<lparr>q_pool := pl', q_nodes := (\<lambda>y. if y \<in> set (x # xs) then None else q_nodes st y)\<rparr>)"
    using step r(1) by simp
  moreover have "if is_priority_queue q then pl' = q_pool st else bufpool_inv pl' \<and> live_nodes pl' = live_nodes (q_pool st) - set (x # xs)"
    using r(2) pl by auto
  ultimately show ?case by blast
qed

lemma deinit_ok:
  assumes k: "queue_ok st q ns"
  shows "\<exists>q' st'. posal_queue_deinit st (Some q) = Some (Some q', st') \<and> num_nodes q' = 0 \<and> active_nodes q' = 0 \<and> channel_ptr q' = None
    \<and> q_nodes st' = (\<lambda>x. if x \<in> set ns then None else q_nodes st x)
    \<and> (if is_priority_queue q then q_pool st' = q_pool st else bufpool_inv (q_pool st') \<and> live_nodes (q_pool st') = live_nodes (q_pool st) - set ns)
    \<and> Some (chans st') = xor_bits_used (chans st) (channel_ptr q) (channel_bit q)"
proof -
  obtain c where c: "channel_ptr q = Some c" "c \<in> dom (chans st)" using queue_okD(8) [OF k] by blast
  then obtain chs where chs: "xor_bits_used (chans st) (channel_ptr q) (channel_bit q) = Some chs" by (auto simp: xor_bits_used_def modify_def)
  have r: "dseg (q_nodes st) (Some (last ns)) ns (Some (hd ns))" if "ns \<noteq> []" using queue_okD(1) [OF k] that by (simp add: ring_def)
  have d: "\<exists>pr nx. dseg (q_nodes st) pr ns nx" using r by (cases "ns = []") auto
  then obtain pr nx where d: "dseg (q_nodes st) pr ns nx" by blast
  let ?st = "st\<lparr>chans := chs\<rparr>" and ?q = "q\<lparr>channel_ptr := None\<rparr>"
  have "length ns < 2 ^ 15" using queue_okD(4,5) [OF k] by linarith
  moreover have "\<not> is_priority_queue ?q \<longrightarrow> bufpool_inv (q_pool ?st) \<and> set ns \<subseteq> live_nodes (q_pool ?st)" using k by (simp add: queue_ok_def)
  moreover have "ns \<noteq> [] \<longrightarrow> active_head_ptr ?q = Some (hd ns)" using queue_okD(6) [OF k] by simp
  moreover have "dseg (q_nodes ?st) pr ns nx" "length ns = unat (num_nodes ?q)" using d queue_okD(2) [OF k] by simp_all
  ultimately obtain p pl where "free_nodes_loop ?st ?q = Some (?q\<lparr>active_head_ptr := p, num_nodes := 0\<rparr>,
        ?st\<lparr>q_pool := pl, q_nodes := (\<lambda>x. if x \<in> set ns then None else q_nodes ?st x)\<rparr>)"
    "if is_priority_queue ?q then pl = q_pool ?st else bufpool_inv pl \<and> live_nodes pl = live_nodes (q_pool ?st) - set ns"
    using free_nodes_loop_ok [of ?st pr ns nx ?q] queue_okD(9) [OF k] by blast
  then show ?thesis using chs c(1) by (auto simp: posal_queue_deinit_def posal_queue_free_all_nodes_def)
qed

subsection \<open>Channel bits\<close>

lemma cl1_loop_spec:
  assumes "n \<le> 31" "\<not> bit v (31 - n)" "c \<le> n" "\<And>i. c \<le> i \<Longrightarrow> i < n \<Longrightarrow> bit v (31 - i)"
  shows "cl1_loop v c = Some n"
  using assms(3,4)
proof (induction "n - c" arbitrary: c)
  case 0
  then show ?case using assms(1,2) by (subst cl1_loop.simps) (auto simp flip: bit_iff_and_push_bit_not_eq_0 simp del: push_bit_of_1)
next
  case (Suc m)
  then have "bit v (31 - c)" "cl1_loop v (c + 1) = Some n" by auto
  then show ?case using Suc.hyps(2) assms(1) by (subst cl1_loop.simps) (auto simp flip: bit_iff_and_push_bit_not_eq_0 simp del: push_bit_of_1)
qed

text \<open>The highest bit that is free.\<close>

lemma free_bit:
  assumes "m \<noteq> POSAL_CHANNEL_ALL_BITS"
  shows "\<exists>n\<le>31. s32_cl1_s32 m = Some n \<and> \<not> bit m (31 - n) \<and> (\<forall>i<n. bit m (31 - i))"
proof -
  have "\<exists>i<32. \<not> bit m i"
  proof (rule ccontr)
    assume "\<not> (\<exists>i<32. \<not> bit m i)"
    then have "m = NOT 0" by (intro bit_eqI) (auto simp: bit_simps)
    then show False using assms by simp
  qed
  then obtain i where "i < 32" "\<not> bit m i" by blast
  then have ex: "\<exists>n. n \<le> 31 \<and> \<not> bit m (31 - n)" by (intro exI [of _ "31 - i"]) auto
  define n where "n = (LEAST n. n \<le> 31 \<and> \<not> bit m (31 - n))"
  have n: "n \<le> 31" "\<not> bit m (31 - n)" using LeastI_ex [OF ex] by (auto simp: n_def)
  have l: "bit m (31 - i)" if "i < n" for i using not_less_Least [of i "\<lambda>n. n \<le> 31 \<and> \<not> bit m (31 - n)"] that n(1) by (auto simp: n_def)
  then have "s32_cl1_s32 m = Some n" unfolding s32_cl1_s32_def using n by (intro cl1_loop_spec) auto
  then show ?thesis using n l by blast
qed

lemma check_any_bit:
  assumes "chs c = Some ch" "unBitsUsedMask ch \<noteq> POSAL_CHANNEL_ALL_BITS"
  shows "\<exists>b\<le>31. posal_channel_check_bit_mask chs (Some c) 0 = Some (AR_EOK, push_bit b 1)
    \<and> \<not> bit (unBitsUsedMask ch) b \<and> (\<forall>i. b < i \<longrightarrow> i \<le> 31 \<longrightarrow> bit (unBitsUsedMask ch) i)"
proof -
  obtain n where n: "n \<le> 31" "s32_cl1_s32 (unBitsUsedMask ch) = Some n" "\<not> bit (unBitsUsedMask ch) (31 - n)"
    "\<forall>i<n. bit (unBitsUsedMask ch) (31 - i)" using free_bit [OF assms(2)] by blast
  have "bit (unBitsUsedMask ch) i" if "31 - n < i" "i \<le> 31" for i
    using n(4) [rule_format, of "31 - i"] that by auto
  then show ?thesis using n assms by (intro exI [of _ "31 - n"]) (simp add: posal_channel_check_bit_mask_def)
qed

lemma addq_ok:
  assumes q: "channel_ptr q = Some c" "chans st c = Some ch" and n: "chans st c' = Some ch'" "c \<noteq> c'"
    and m: "posal_channel_check_bit_mask (chans st) (Some c') um = Some (AR_EOK, m)"
  shows "\<exists>st'. posal_channel_addq st (Some c') q um = Some (AR_EOK, q\<lparr>channel_ptr := Some c', channel_bit := m\<rparr>, st')
    \<and> q_nodes st' = q_nodes st \<and> q_pool st' = q_pool st
    \<and> chans st' = (chans st)(c \<mapsto> \<lparr>anysig = anysig ch AND NOT (channel_bit q), unBitsUsedMask = unBitsUsedMask ch XOR channel_bit q\<rparr>,
        c' \<mapsto> \<lparr>anysig = (anysig ch' AND NOT m) OR (if (ucast (channel_bit q AND anysig ch) :: u8) \<noteq> 0 then m else 0),
               unBitsUsedMask = unBitsUsedMask ch' OR m\<rparr>)"
proof -
  have "c' \<noteq> c" using n(2) by simp
  then show ?thesis using q n m
    by (auto simp: posal_channel_addq_def move_to_channel_def posal_linux_signal_clear_def posal_linux_signal_set_def
        posal_channel_poll_def posal_linux_signal_get_def xor_bits_used_def or_bits_used_def modify_def fun_upd_twist)
qed

lemma poll_after_addq:
  assumes q: "channel_ptr q = Some c" "chans st c = Some ch" and n: "chans st c' = Some ch'" "c \<noteq> c'"
    and m: "posal_channel_check_bit_mask (chans st) (Some c') um = Some (AR_EOK, m)"
    and p: "posal_queue_poll st q = Some (channel_bit q)"
  shows "\<exists>q' st'. posal_channel_addq st (Some c') q um = Some (AR_EOK, q', st') \<and> channel_ptr q' = Some c' \<and> channel_bit q' = m
    \<and> active_nodes q' = active_nodes q
    \<and> posal_queue_poll st' q' = Some (if (ucast (channel_bit q) :: u8) = 0 then 0 else m)"
proof -
  obtain st' where a: "posal_channel_addq st (Some c') q um = Some (AR_EOK, q\<lparr>channel_ptr := Some c', channel_bit := m\<rparr>, st')"
    "chans st' = (chans st)(c \<mapsto> \<lparr>anysig = anysig ch AND NOT (channel_bit q), unBitsUsedMask = unBitsUsedMask ch XOR channel_bit q\<rparr>,
        c' \<mapsto> \<lparr>anysig = (anysig ch' AND NOT m) OR (if (ucast (channel_bit q AND anysig ch) :: u8) \<noteq> 0 then m else 0),
               unBitsUsedMask = unBitsUsedMask ch' OR m\<rparr>)" using addq_ok [OF q n m] by blast
  have "channel_bit q AND anysig ch = channel_bit q" using p q by (simp add: posal_queue_poll_def posal_linux_signal_get_def)
  moreover have "m AND ((anysig ch' AND NOT m) OR m) = m" "m AND (anysig ch' AND NOT m) = 0" by (rule bit_eqI, auto simp: bit_simps)+
  ultimately show ?thesis using a by (simp add: posal_queue_poll_def posal_linux_signal_get_def)
qed

subsection \<open>Toggling the signal, and two details of the life of a queue\<close>

lemma enable_disable_ok:
  assumes k: "queue_ok st q ns"
  shows "\<exists>q' st'. posal_queue_enable_disable_signaling st q en = Some (AR_EOK, q', st') \<and> queue_ok st' q' ns
    \<and> contents st' q' ns = contents st q ns \<and> disable_signaling q' = (\<not> en) \<and> (sig_ok st q \<longrightarrow> sig_ok st' q')"
proof -
  obtain c where c: "channel_ptr q = Some c" "c \<in> dom (chans st)" using queue_okD(8) [OF k] by blast
  have pos: "0 <s active_nodes q \<longleftrightarrow> active_nodes q \<noteq> 0" using sgt_zero queue_ok_small [OF k] by blast
  let ?q = "q\<lparr>disable_signaling := \<not> en\<rparr>"
  have kc: "queue_ok (st\<lparr>chans := chs\<rparr>) ?q ns \<and> contents (st\<lparr>chans := chs\<rparr>) ?q ns = contents st q ns" if "dom chs = dom (chans st)" for chs
    using k that by (simp add: queue_ok_def contents_def)
  have sig: "set_signal st ?q = Some (st\<lparr>chans := sig_set (Some c) (channel_bit q) (chans st)\<rparr>)"
    "clear_signal st ?q = Some (st\<lparr>chans := sig_clear (Some c) (channel_bit q) (chans st)\<rparr>)"
    using signal_ops [of c st ?q] c by simp_all
  have poll: "posal_queue_poll (st\<lparr>chans := sig_set (Some c) (channel_bit q) (chans st)\<rparr>) ?q = Some (channel_bit q)"
    "posal_queue_poll (st\<lparr>chans := sig_clear (Some c) (channel_bit q) (chans st)\<rparr>) ?q = Some 0"
    using poll_sig [of ?q c st] c by simp_all
  consider "\<not> en" | "en" "active_nodes q \<noteq> 0" | "en" "active_nodes q = 0" by blast
  then show ?thesis
  proof cases
    case 1
    then show ?thesis using sig(2) poll(2) kc by (simp add: posal_queue_enable_disable_signaling_def sig_ok_def)
  next
    case 2
    then show ?thesis using sig(1) poll(1) kc pos by (simp add: posal_queue_enable_disable_signaling_def sig_ok_def)
  next
    case 3
    then show ?thesis using kc [of "chans st"] pos by (auto simp: posal_queue_enable_disable_signaling_def sig_ok_def posal_queue_poll_def)
  qed
qed

lemma init_truncates:
  assumes "0 <s a_max_nodes attr" "unat (a_max_nodes attr) mod 2 ^ 16 = 0" "a_prealloc_nodes attr = 0"
  shows "\<exists>q'. posal_queue_init env st (Some q) (Some attr) = Some (AR_EOK, Some q', st) \<and> max_nodes q' = 0 \<and> active_nodes q' = 0"
proof -
  have "(ucast (a_max_nodes attr) :: i16) = 0"
    using assms(2) by (simp add: word_unat_eq_iff unsigned_ucast_eq take_bit_eq_mod)
  moreover have "\<not> a_max_nodes attr \<le>s 0" using assms(1) by (simp add: word_sless_alt word_sle_eq)
  moreover have "\<not> a_max_nodes attr <s 0" using assms(1) by (simp add: word_sless_alt)
  ultimately show ?thesis using assms(3) by (simp add: posal_queue_init_def posal_queue_create_prealloc_nodes_def)
qed

subsection \<open>Example queues\<close>

definition el :: "nat \<Rightarrow> posal_queue_element" where
  "el n = \<lparr>q_payload_ptr = of_nat n, q_sec_ptr = 0\<rparr>"

definition ex_chans :: channels where
  "ex_chans = [1 \<mapsto> \<lparr>anysig = 0x80000000, unBitsUsedMask = 0xC0000000\<rparr>, 2 \<mapsto> \<lparr>anysig = 0, unBitsUsedMask = 0\<rparr>]"

text \<open>A priority queue of two elements in a ring of three nodes.\<close>

definition ex_qst :: posal_queue_state where
  "ex_qst = \<lparr>q_nodes = [10 \<mapsto> \<lparr>next_ptr = Some 20, prev_ptr = Some 30, elem = el 1, priority = 5\<rparr>,
      20 \<mapsto> \<lparr>next_ptr = Some 30, prev_ptr = Some 10, elem = el 2, priority = 3\<rparr>,
      30 \<mapsto> \<lparr>next_ptr = Some 10, prev_ptr = Some 20, elem = el 0, priority = 0\<rparr>],
    q_pool = bufpool_init, g_posal_queue_bufpool_handle = [0, 0], chans = ex_chans\<rparr>"

definition ex_q :: posal_queue_internal where
  "ex_q = \<lparr>channel_ptr = Some 1, active_head_ptr = Some 10, active_tail_ptr = Some 20, heap_id = 0, channel_bit = 0x80000000,
     active_nodes = 2, num_nodes = 3, max_nodes = 4, is_priority_queue = True, disable_signaling = False\<rparr>"

definition ex_qenv :: q_env where
  "ex_qenv = \<lparr>q_pool_mal = ex_mal, q_heap_mal = Some 40, q_garbage = \<lparr>next_ptr = None, prev_ptr = None, elem = el 0, priority = 7\<rparr>\<rparr>"

lemma ex_q_ok: "queue_ok ex_qst ex_q [10, 20, 30]"
  by (simp add: queue_ok_def ring_def ex_qst_def ex_q_def nxt_def prv_def ex_chans_def)

lemma ex_q_contents: "contents ex_qst ex_q [10, 20, 30] = [el 1, el 2]" "pcontents ex_qst ex_q [10, 20, 30] = [(5, el 1), (3, el 2)]"
  by (simp_all add: contents_def pcontents_def ex_qst_def ex_q_def elem_at_def prio_at_def)

lemma ex_q_poll: "posal_queue_poll ex_qst ex_q = Some 0x80000000"
  by (simp add: posal_queue_poll_def posal_linux_signal_get_def ex_qst_def ex_q_def ex_chans_def)

lemma ex_q_rel: "queue_rel (ex_qst, ex_q) [el 1, el 2]"
proof -
  have "sig_ok ex_qst ex_q" unfolding sig_ok_def ex_q_poll by (simp add: ex_q_def)
  then show ?thesis unfolding queue_rel_def using ex_q_ok ex_q_contents(1) by auto
qed

lemma ex_qenv_ok: "q_env_ok ex_qenv ex_qst ex_q"
  by (simp add: q_env_ok_def ex_q_def ex_qenv_def ex_qst_def)

text \<open>Two queues with nodes of the buffer pool: one without nodes, and one of a single element.\<close>

definition ex_qst2 :: posal_queue_state where
  "ex_qst2 = \<lparr>q_nodes = [1008 \<mapsto> \<lparr>next_ptr = Some 1008, prev_ptr = Some 1008, elem = el 9, priority = 0\<rparr>],
    q_pool = ex_used, g_posal_queue_bufpool_handle = [handle_of 0, 0], chans = ex_chans\<rparr>"

definition ex_qa :: posal_queue_internal where
  "ex_qa = \<lparr>channel_ptr = Some 1, active_head_ptr = None, active_tail_ptr = None, heap_id = 0, channel_bit = 0x40000000,
     active_nodes = 0, num_nodes = 0, max_nodes = 4, is_priority_queue = False, disable_signaling = False\<rparr>"

definition ex_qb :: posal_queue_internal where
  "ex_qb = \<lparr>channel_ptr = Some 1, active_head_ptr = Some 1008, active_tail_ptr = Some 1008, heap_id = 0, channel_bit = 0x80000000,
     active_nodes = 1, num_nodes = 1, max_nodes = 4, is_priority_queue = False, disable_signaling = False\<rparr>"

lemma ex_qab_ok: "queue_ok ex_qst2 ex_qa []" "queue_ok ex_qst2 ex_qb [1008]"
  using ex_used(2,3) by (simp_all add: queue_ok_def ring_def ex_qst2_def ex_qa_def ex_qb_def nxt_def prv_def ex_chans_def)

lemma ex_qa_env_ok: "q_env_ok ex_qenv ex_qst2 ex_qa"
  using ex_used_mal_ok by (auto simp: q_env_ok_def ex_qa_def ex_qenv_def ex_qst2_def)


subsection \<open>Properties\<close>

text \<open>
  C4: whatever the order in which producers push and the consumer pops, the elements popped followed by those still waiting are the
  elements that were waiting followed by those whose push succeeded: the queue is first-in first-out, and
  a refused push, an exhausted pool or a reused node never loses, duplicates or reorders an element.
\<close>

theorem queue_is_fifo:
  assumes "fifo_run queue_push queue_pop (st, q) evs s'" "queue_rel (st, q) xs"
  shows "\<exists>ys. queue_rel s' ys \<and> popped evs @ ys = xs @ pushed evs"
  by (rule posal_queue.fifo [OF assms])

theorem queue_is_fifo_witness:
  "\<exists>s' ys. fifo_run queue_push queue_pop (ex_qst, ex_q) [Pop (Some (el 1)), Pop (Some (el 2))] s' \<and> queue_rel s' ys \<and> [el 1, el 2] @ ys = [el 1, el 2]"
proof -
  obtain s' where r: "fifo_run queue_push queue_pop (ex_qst, ex_q) [Pop (Some (el 1)), Pop (Some (el 2))] s'"
    using posal_queue.drain [OF ex_q_rel] by auto
  obtain ys where "queue_rel s' ys" "popped [Pop (Some (el 1)), Pop (Some (el 2))] @ ys = [el 1, el 2] @ pushed [Pop (Some (el 1)), Pop (Some (el 2))]"
    using queue_is_fifo [OF r ex_q_rel] by blast
  then show ?thesis using r by (intro exI [of _ s'] exI [of _ ys]) simp
qed

text \<open>
  C22: a push returns one of three codes: \<open>AR_EOK\<close> with the element appended, \<open>AR_ENEEDMORE\<close> exactly when the queue has its
  maximum of elements, \<open>AR_ENOMEMORY\<close>; in the two error cases the queue is unchanged. The channel shows the
  queue's bit exactly when there is something to read, which is part of the relation.
\<close>

theorem queue_push_back_result:
  assumes "queue_rel (st, q) xs" "q_env_ok env st q"
  shows "\<exists>rc q' st'. posal_queue_push_back env st (Some q) e = Some (rc, Some q', st')
    \<and> queue_rel (st', q') (if rc = AR_EOK then xs @ [e] else xs)
    \<and> (rc = AR_ENEEDMORE \<longleftrightarrow> unat (max_nodes q) = length xs) \<and> rc \<in> {AR_EOK, AR_ENEEDMORE, AR_ENOMEMORY}"
  using queue_push_rel [OF assms(1), of env e] assms(2) by simp

theorem queue_push_back_result_witness:
  "\<exists>rc q' st'. posal_queue_push_back ex_qenv ex_qst (Some ex_q) (el 3) = Some (rc, Some q', st')
    \<and> queue_rel (st', q') (if rc = AR_EOK then [el 1, el 2] @ [el 3] else [el 1, el 2]) \<and> rc \<noteq> AR_ENEEDMORE"
proof -
  obtain rc q' st' where p: "posal_queue_push_back ex_qenv ex_qst (Some ex_q) (el 3) = Some (rc, Some q', st')"
    "queue_rel (st', q') (if rc = AR_EOK then [el 1, el 2] @ [el 3] else [el 1, el 2])"
    "rc = AR_ENEEDMORE \<longleftrightarrow> unat (max_nodes ex_q) = length [el 1, el 2]"
    using queue_push_back_result [OF ex_q_rel ex_qenv_ok, of "el 3"] by blast
  then have "rc \<noteq> AR_ENEEDMORE" by (simp add: ex_q_def)
  then show ?thesis using p(1,2) by blast
qed

text \<open>
  the two ends of the queue: what is inserted at the front is what is popped first, what is pushed at the back is what \<open>pop_back\<close>
  returns, and the rest of the queue is as before.
\<close>

theorem queue_both_ends:
  assumes "queue_ok st q ns" "q_env_ok env st q"
    and "posal_queue_insert_front env st (Some q) e = Some (AR_EOK, Some q', st')"
  shows "\<exists>q'' st'' ns''. posal_queue_pop_front st' (Some q') = Some (AR_EOK, Some e, Some q'', st'')
    \<and> queue_ok st'' q'' ns'' \<and> contents st'' q'' ns'' = contents st q ns
    \<and> (contents st q ns \<noteq> [] \<longrightarrow> (\<exists>q3 st3. posal_queue_pop_back st' (Some q') = Some (AR_EOK, Some (last (contents st q ns)), Some q3, st3)))"
proof -
  obtain ns' where p: "put_in st q ns (e # contents st q ns) st' q' ns'"
    using insert_front_ok [OF assms(1,2), of e] assms(3) by auto
  note F = put_in_fields(1,2) [OF p]
  obtain q'' st'' ns'' where f: "posal_queue_pop_front st' (Some q') = Some (AR_EOK, Some e, Some q'', st'')"
    "taken_out st' q' ns' (contents st q ns) st'' q'' ns''" using pop_front_ok [OF F] by blast
  have b: "\<exists>q3 st3. posal_queue_pop_back st' (Some q') = Some (AR_EOK, Some (last (contents st q ns)), Some q3, st3)" if "contents st q ns \<noteq> []"
    using pop_back_ok [OF F(1), of "e # butlast (contents st q ns)" "last (contents st q ns)"] F(2) that by auto
  then show ?thesis using f(1) taken_out_fields(1,2) [OF f(2)] by blast
qed

theorem queue_both_ends_witness:
  "\<exists>q' st' q'' st''. posal_queue_insert_front ex_qenv ex_qst (Some ex_q) (el 3) = Some (AR_EOK, Some q', st')
    \<and> posal_queue_pop_front st' (Some q') = Some (AR_EOK, Some (el 3), Some q'', st'')"
proof -
  have "map_option fst (posal_queue_insert_front ex_qenv ex_qst (Some ex_q) (el 3)) = Some AR_EOK"
    by (simp add: posal_queue_insert_front_def head_for_insert_def ex_q_def ex_qst_def ex_chans_def rd_prev_def wr_elem_def modify_def
        set_signal_def posal_linux_signal_set_def word_sless_alt)
  moreover obtain rc q' st' where i: "posal_queue_insert_front ex_qenv ex_qst (Some ex_q) (el 3) = Some (rc, Some q', st')"
    using insert_front_ok [OF ex_q_ok ex_qenv_ok, of "el 3"] by blast
  ultimately have "rc = AR_EOK" by simp
  then show ?thesis using i queue_both_ends [OF ex_q_ok ex_qenv_ok, of "el 3" q' st'] by blast
qed

text \<open>
  C26: pushing with a priority onto a queue that is not empty places the element behind the last waiting element of at least that
  priority and before all behind it; so a queue sorted by priority stays sorted and elements of equal
  priority leave in the order of their arrival. The ring stays well linked when its nodes are moved.
\<close>

theorem queue_priority_order:
  assumes "queue_ok st q ns" "q_env_ok env st q" "is_priority_queue q" "contents st q ns \<noteq> []"
    and "sorted_wrt (\<ge>) (map fst (pcontents st q ns))"
  shows "\<exists>rc q' st' ns'. posal_queue_push_back_with_priority env st (Some q) e p = Some (rc, Some q', st') \<and> queue_ok st' q' ns'
    \<and> sorted_wrt (\<ge>) (map fst (pcontents st' q' ns'))
    \<and> (if rc = AR_EOK then by_priority p e (pcontents st q ns) (pcontents st' q' ns') else pcontents st' q' ns' = pcontents st q ns)"
  using push_priority_ok [OF assms(1-4), of e p] by_priority_sorted [OF _ assms(5)] assms(5) by fastforce

theorem queue_priority_order_witness:
  "\<exists>rc q' st' ns'. posal_queue_push_back_with_priority ex_qenv ex_qst (Some ex_q) (el 3) 4 = Some (rc, Some q', st') \<and> queue_ok st' q' ns'
    \<and> sorted_wrt (\<ge>) (map fst (pcontents st' q' ns'))
    \<and> (rc = AR_EOK \<longrightarrow> by_priority 4 (el 3) [(5, el 1), (3, el 2)] (pcontents st' q' ns'))"
proof -
  have "is_priority_queue ex_q" by (simp add: ex_q_def)
  moreover have "contents ex_qst ex_q [10, 20, 30] \<noteq> []" "sorted_wrt (\<ge>) (map fst (pcontents ex_qst ex_q [10, 20, 30]))"
    unfolding ex_q_contents by simp_all
  ultimately obtain rc q' st' ns' where "posal_queue_push_back_with_priority ex_qenv ex_qst (Some ex_q) (el 3) 4 = Some (rc, Some q', st')"
    "queue_ok st' q' ns'" "sorted_wrt (\<ge>) (map fst (pcontents st' q' ns'))"
    "if rc = AR_EOK then by_priority 4 (el 3) (pcontents ex_qst ex_q [10, 20, 30]) (pcontents st' q' ns')
     else pcontents st' q' ns' = pcontents ex_qst ex_q [10, 20, 30]"
    using queue_priority_order [OF ex_q_ok ex_qenv_ok, of "el 3" 4] by blast
  then show ?thesis unfolding ex_q_contents(2) by (intro exI [of _ rc] exI [of _ q'] exI [of _ st'] exI [of _ ns']) auto
qed

text \<open>
  the priority of an element that is pushed onto an empty priority queue is not recorded: the operation does what a push without
  priority does, and leaves in the node whatever priority its memory holds.
\<close>

theorem queue_first_priority_ignored:
  assumes "queue_ok st q ns" "q_env_ok env st q" "contents st q ns = []"
  shows "posal_queue_push_back_with_priority env st (Some q) e p = posal_queue_push_back env st (Some q) e"
proof -
  obtain rc q' st' ns' where pb: "posal_queue_push_back env st (Some q) e = Some (rc, Some q', st')"
    and res: "rc = AR_EOK \<longrightarrow> put_in st q ns (contents st q ns @ [e]) st' q' ns'"
    using push_back_ok [OF assms(1,2), of e] by (elim exE conjE disjE) auto
  have "\<not> 1 <s active_nodes q'" if "rc = AR_EOK"
  proof -
    note F = put_in_fields(1-3) [OF res [rule_format, OF that]]
    have "unat (active_nodes q') = 1" using F(3) contents_empty [OF assms(1)] assms(3) by simp
    then have "active_nodes q' = 1" by (simp add: word_unat_eq_iff)
    then show ?thesis by simp
  qed
  then show ?thesis using pb by (auto simp: posal_queue_push_back_with_priority_def)
qed

theorem queue_first_priority_ignored_witness:
  "posal_queue_push_back_with_priority ex_qenv ex_qst2 (Some ex_qa) (el 3) 9 = posal_queue_push_back ex_qenv ex_qst2 (Some ex_qa) (el 3)"
  by (rule queue_first_priority_ignored [OF ex_qab_ok(1) ex_qa_env_ok]) (simp add: contents_def)

text \<open>
  C39: for two queues whose nodes come from the buffer pool (neither is a priority queue) and that have no node in common, a push onto one,
  whatever its result, leaves the other with its elements, its nodes and its signal, although they share the pool; when they also share a
  channel their bits must differ.
\<close>

theorem queue_push_isolated:
  assumes "queue_ok st q ns" "queue_ok st q2 ns2" "q_env_ok env st q" "set ns \<inter> set ns2 = {}"
    and "\<not> is_priority_queue q" "\<not> is_priority_queue q2"
    and "channel_ptr q = channel_ptr q2 \<Longrightarrow> channel_bit q AND channel_bit q2 = 0"
    and "posal_queue_push_back env st (Some q) e = Some (rc, Some q', st')"
  shows "queue_ok st' q2 ns2 \<and> contents st' q2 ns2 = contents st q2 ns2 \<and> posal_queue_poll st' q2 = posal_queue_poll st q2"
  using assms by (rule push_isolated)

theorem queue_push_isolated_witness:
  "\<exists>rc q' st'. posal_queue_push_back ex_qenv ex_qst2 (Some ex_qa) (el 3) = Some (rc, Some q', st')
    \<and> queue_ok st' ex_qb [1008] \<and> contents st' ex_qb [1008] = contents ex_qst2 ex_qb [1008]"
proof -
  obtain rc q' st' where p: "posal_queue_push_back ex_qenv ex_qst2 (Some ex_qa) (el 3) = Some (rc, Some q', st')"
    using push_back_ok [OF ex_qab_ok(1) ex_qa_env_ok, of "el 3"] by blast
  have "\<not> is_priority_queue ex_qa" "\<not> is_priority_queue ex_qb" "channel_bit ex_qa AND channel_bit ex_qb = 0"
    by (simp_all add: ex_qa_def ex_qb_def)
  then show ?thesis using queue_push_isolated [OF ex_qab_ok ex_qa_env_ok _ _ _ _ p] p by auto
qed

text \<open>
  deinitialising a queue gives every node of its ring back, used or not, exactly once, leaves the nodes of other queues alone, releases the
  queue's bit on its channel, and may be called on a queue that still holds elements.
\<close>

theorem queue_deinit_returns_nodes:
  assumes "queue_ok st q ns"
  shows "\<exists>q' st'. posal_queue_deinit st (Some q) = Some (Some q', st') \<and> num_nodes q' = 0 \<and> active_nodes q' = 0 \<and> channel_ptr q' = None
    \<and> q_nodes st' = (\<lambda>x. if x \<in> set ns then None else q_nodes st x)
    \<and> (if is_priority_queue q then q_pool st' = q_pool st else bufpool_inv (q_pool st') \<and> live_nodes (q_pool st') = live_nodes (q_pool st) - set ns)
    \<and> Some (chans st') = xor_bits_used (chans st) (channel_ptr q) (channel_bit q)"
  by (rule deinit_ok [OF assms])

theorem queue_deinit_returns_nodes_witness:
  "\<exists>q' st'. posal_queue_deinit ex_qst2 (Some ex_qb) = Some (Some q', st') \<and> num_nodes q' = 0 \<and> live_nodes (q_pool st') = {}"
proof -
  have "\<not> is_priority_queue ex_qb" "live_nodes (q_pool ex_qst2) = {1008}" using ex_used(3) by (simp_all add: ex_qb_def ex_qst2_def)
  then show ?thesis using queue_deinit_returns_nodes [OF ex_qab_ok(2)] by auto
qed

text \<open>
  switching the signalling of a queue off or on keeps its elements, and afterwards the channel shows the queue's bit
  exactly when signalling is on and elements are waiting, also for those pushed while it was off.
\<close>

theorem queue_signalling_toggle:
  assumes "queue_rel (st, q) xs"
  shows "\<exists>q' st'. posal_queue_enable_disable_signaling st q en = Some (AR_EOK, q', st') \<and> queue_rel (st', q') xs
    \<and> posal_queue_poll st' q' = Some (if en \<and> xs \<noteq> [] then channel_bit q' else 0)"
proof -
  obtain ns where k: "queue_ok st q ns" "contents st q ns = xs" "sig_ok st q" using assms by (auto simp: queue_rel_def)
  obtain q' st' where e: "posal_queue_enable_disable_signaling st q en = Some (AR_EOK, q', st')" "queue_ok st' q' ns" "contents st' q' ns = xs"
    "disable_signaling q' = (\<not> en)" "sig_ok st' q'" using enable_disable_ok [OF k(1), of en] k(2,3) by blast
  moreover have "active_nodes q' = 0 \<longleftrightarrow> xs = []" using contents_empty [OF e(2)] e(3) by simp
  ultimately show ?thesis by (auto simp: queue_rel_def sig_ok_def)
qed

theorem queue_signalling_toggle_witness:
  "\<exists>q' st'. posal_queue_enable_disable_signaling ex_qst ex_q False = Some (AR_EOK, q', st') \<and> queue_rel (st', q') [el 1, el 2]
    \<and> posal_queue_poll st' q' = Some 0"
  using queue_signalling_toggle [OF ex_q_rel, of False] by auto

text \<open>
  when a client does not ask for a particular bit, a channel that has one left gives it the highest free one, which is then a single bit
  that no other client of the channel has.
\<close>

theorem channel_gives_free_bit:
  assumes "chs c = Some ch" "unBitsUsedMask ch \<noteq> POSAL_CHANNEL_ALL_BITS"
  shows "\<exists>b\<le>31. posal_channel_check_bit_mask chs (Some c) 0 = Some (AR_EOK, push_bit b 1)
    \<and> \<not> bit (unBitsUsedMask ch) b \<and> (\<forall>i. b < i \<longrightarrow> i \<le> 31 \<longrightarrow> bit (unBitsUsedMask ch) i)"
  using check_any_bit [of chs c ch] assms by blast

theorem channel_gives_free_bit_witness:
  "\<exists>b\<le>31. posal_channel_check_bit_mask ex_chans (Some 1) 0 = Some (AR_EOK, push_bit b 1) \<and> \<not> bit (0xC0000000 :: u32) b"
  using channel_gives_free_bit [of ex_chans 1 "\<lparr>anysig = 0x80000000, unBitsUsedMask = 0xC0000000\<rparr>"] by (auto simp: ex_chans_def)

text \<open>
  moving a queue with waiting elements to another channel carries its signal over only when the queue's old bit is one of the
  lowest eight: the polled word is kept in an \<open>unsigned char\<close>, so for any higher bit the new channel shows nothing although elements are waiting.
\<close>

theorem addq_signal_lost:
  assumes "channel_ptr q = Some c" "chans st c = Some ch" "chans st c' = Some ch'" "c \<noteq> c'"
    and "posal_channel_check_bit_mask (chans st) (Some c') um = Some (AR_EOK, m)" "posal_queue_poll st q = Some (channel_bit q)"
  shows "\<exists>q' st'. posal_channel_addq st (Some c') q um = Some (AR_EOK, q', st') \<and> channel_ptr q' = Some c' \<and> channel_bit q' = m
    \<and> active_nodes q' = active_nodes q
    \<and> posal_queue_poll st' q' = Some (if (ucast (channel_bit q) :: u8) = 0 then 0 else m)"
  by (rule poll_after_addq [OF assms])

theorem addq_signal_lost_witness:
  "\<exists>q' st'. posal_channel_addq ex_qst (Some 2) ex_q 1 = Some (AR_EOK, q', st') \<and> active_nodes q' = 2 \<and> posal_queue_poll st' q' = Some 0"
proof -
  have "posal_channel_check_bit_mask (chans ex_qst) (Some 2) 1 = Some (AR_EOK, 1)"
    by (simp add: posal_channel_check_bit_mask_def ex_qst_def ex_chans_def)
  moreover have "posal_queue_poll ex_qst ex_q = Some (channel_bit ex_q)" using ex_q_poll by (simp add: ex_q_def)
  moreover have "chans ex_qst 1 = Some \<lparr>anysig = 0x80000000, unBitsUsedMask = 0xC0000000\<rparr>" "chans ex_qst 2 = Some \<lparr>anysig = 0, unBitsUsedMask = 0\<rparr>"
    "channel_ptr ex_q = Some 1" "active_nodes ex_q = 2" by (simp_all add: ex_qst_def ex_chans_def ex_q_def)
  moreover have "(ucast (channel_bit ex_q) :: u8) = 0" by (simp add: ex_q_def)
  ultimately show ?thesis using addq_signal_lost [of ex_q 1 ex_qst "\<lparr>anysig = 0x80000000, unBitsUsedMask = 0xC0000000\<rparr>" 2
      "\<lparr>anysig = 0, unBitsUsedMask = 0\<rparr>" 1 1] by auto
qed

text \<open>
  a queue may be initialised with any positive 32-bit maximum, but only its low 16 bits are kept: with a multiple of 65536
  the queue is created successfully and then never accepts an element.
\<close>

theorem queue_init_truncates_max:
  assumes "0 <s a_max_nodes attr" "unat (a_max_nodes attr) mod 2 ^ 16 = 0" "a_prealloc_nodes attr = 0"
  shows "\<exists>q'. posal_queue_init env st (Some q) (Some attr) = Some (AR_EOK, Some q', st)
    \<and> (\<forall>env st c e. posal_queue_push_back env st (Some (q'\<lparr>channel_ptr := Some c\<rparr>)) e = Some (AR_ENEEDMORE, Some (q'\<lparr>channel_ptr := Some c\<rparr>), st))"
  using init_truncates [OF assms, of env st q] by (auto simp: posal_queue_push_back_def)

theorem queue_init_truncates_max_witness:
  "\<exists>q'. posal_queue_init (\<lambda>_. ex_qenv) ex_qst (Some ex_q) (Some \<lparr>a_max_nodes = 0x10000, a_prealloc_nodes = 0, a_heap_id = 0, a_is_priority_queue = False\<rparr>)
      = Some (AR_EOK, Some q', ex_qst)
    \<and> (\<forall>env st c e. posal_queue_push_back env st (Some (q'\<lparr>channel_ptr := Some c\<rparr>)) e = Some (AR_ENEEDMORE, Some (q'\<lparr>channel_ptr := Some c\<rparr>), st))"
  by (rule queue_init_truncates_max) (simp_all add: word_sless_alt)

end
