(* ===== verification/Spf_Ref_Counter.thy ===== *)
theory Spf_Ref_Counter
  imports Ar_Prelude
begin

text \<open>
  The reference counter (\<^verbatim>\<open>fwk/spf/utils/cmn/src/spf_ref_counter.c\<close>): memory with a counter in
  front of it, which is freed when the last reference is removed. The entries are a store by
  the address of the entry; the client's pointer is at a fixed distance behind it. The mutex
  of an entry makes each operation atomic and is not represented. A signed overflow of the
  counter is undefined in C and gives \<open>None\<close>.
\<close>

subsection \<open>The service\<close>

record spf_ref_counter =
  ref_count :: "32 word"
  rc_magic :: u32

abbreviation (input) SPF_REF_COUNTER_MAGIC_ALLOCED :: u32 where "SPF_REF_COUNTER_MAGIC_ALLOCED \<equiv> 0x2DC463F2"
abbreviation (input) SPF_REF_COUNTER_MAGIC_FREED :: u32 where "SPF_REF_COUNTER_MAGIC_FREED \<equiv> 0x5DE1F794"

text \<open>\<open>sizeof(spf_ref_counter_t) - sizeof(uint64_t)\<close> in a 64-bit build.\<close>

abbreviation (input) DATA_OFFSET :: nat where "DATA_OFFSET \<equiv> 24"

text \<open>The entry in front of the data; the memory read must be owned.\<close>

definition spf_ref_counter_get_entry :: "spf_ref_counter store \<Rightarrow> addr \<Rightarrow> (u32 \<times> ptr) option" where
  "spf_ref_counter_get_entry h data_ptr =
    (if data_ptr < DATA_OFFSET then None
     else do {
       entry \<leftarrow> h (data_ptr - DATA_OFFSET);
       if rc_magic entry \<noteq> SPF_REF_COUNTER_MAGIC_ALLOCED then Some (AR_EFAILED, None)
       else Some (AR_EOK, Some (data_ptr - DATA_OFFSET))
     })"

text \<open>
  \<open>mal\<close> is the allocator's answer for a number of bytes, \<open>mutex_rc\<close> the result of creating the
  mutex; the number of bytes is a 32-bit sum.
\<close>

definition spf_ref_counter_create_ref ::
    "(u32 \<Rightarrow> ptr) \<Rightarrow> u32 \<Rightarrow> spf_ref_counter store \<Rightarrow> u32 \<Rightarrow> u32 \<times> ptr \<times> spf_ref_counter store" where
  "spf_ref_counter_create_ref mal mutex_rc h data_size_bytes =
    (case mal (data_size_bytes + of_nat DATA_OFFSET) of
       None \<Rightarrow> (AR_ENOMEMORY, None, h)
     | Some a \<Rightarrow>
         if mutex_rc \<noteq> AR_EOK then (mutex_rc, None, h)
         else (AR_EOK, Some (a + DATA_OFFSET), h(a \<mapsto> \<lparr>ref_count = 1, rc_magic = SPF_REF_COUNTER_MAGIC_ALLOCED\<rparr>)))"

definition spf_ref_counter_add_ref :: "spf_ref_counter store \<Rightarrow> ptr \<Rightarrow> (u32 \<times> spf_ref_counter store) option" where
  "spf_ref_counter_add_ref h data_ptr =
    (case data_ptr of
       None \<Rightarrow> Some (AR_EFAILED, h)
     | Some d \<Rightarrow> do {
         (result, entry_ptr) \<leftarrow> spf_ref_counter_get_entry h d;
         if result \<noteq> AR_EOK then Some (result, h)
         else do {
           a \<leftarrow> entry_ptr;
           entry \<leftarrow> h a;
           if ref_count entry = 0x7FFFFFFF then None
           else Some (AR_EOK, h(a \<mapsto> entry\<lparr>ref_count := ref_count entry + 1\<rparr>))
         }
       })"

text \<open>
  The second result is the count with which the callback is called, if there is one. The
  callback is code of the client; it runs under the mutex and does not change the entry.
\<close>

definition spf_ref_counter_remove_ref ::
    "spf_ref_counter store \<Rightarrow> ptr \<Rightarrow> bool \<Rightarrow> (u32 \<times> u32 option \<times> spf_ref_counter store) option" where
  "spf_ref_counter_remove_ref h data_ptr has_cb =
    (case data_ptr of
       None \<Rightarrow> Some (AR_EFAILED, None, h)
     | Some d \<Rightarrow> do {
         (result, entry_ptr) \<leftarrow> spf_ref_counter_get_entry h d;
         if result \<noteq> AR_EOK then Some (result, None, h)
         else do {
           a \<leftarrow> entry_ptr;
           entry \<leftarrow> h a;
           if ref_count entry \<le>s 0 then Some (AR_EFAILED, None, h)
           else
             let entry = entry\<lparr>ref_count := ref_count entry - 1\<rparr>;
                 cb = (if has_cb then Some (ref_count entry) else None) in
             if ref_count entry = 0 then Some (AR_EOK, cb, h(a := None))
             else Some (AR_EOK, cb, h(a \<mapsto> entry))
         }
       })"

subsection \<open>Histories of references\<close>

datatype ref_op = Add_Ref | Remove_Ref

text \<open>The references that are held after a history, beginning with one.\<close>

fun balance :: "int \<Rightarrow> ref_op list \<Rightarrow> int" where
  "balance n [] = n"
| "balance n (Add_Ref # ops) = balance (n + 1) ops"
| "balance n (Remove_Ref # ops) = balance (n - 1) ops"

text \<open>Every operation is made while a reference is held, and never more than a signed 32-bit count of them.\<close>

fun well_used :: "int \<Rightarrow> ref_op list \<Rightarrow> bool" where
  "well_used n [] = True"
| "well_used n (Add_Ref # ops) = (0 < n \<and> n + 1 < 2 ^ 31 \<and> well_used (n + 1) ops)"
| "well_used n (Remove_Ref # ops) = (0 < n \<and> well_used (n - 1) ops)"

text \<open>A history of operations on one pointer; an operation that fails ends it with \<open>None\<close>.\<close>

fun ref_run :: "spf_ref_counter store \<Rightarrow> ptr \<Rightarrow> ref_op list \<Rightarrow> spf_ref_counter store option" where
  "ref_run h d [] = Some h"
| "ref_run h d (Add_Ref # ops) =
     (case spf_ref_counter_add_ref h d of
        Some (rc, h') \<Rightarrow> if rc = AR_EOK then ref_run h' d ops else None | None \<Rightarrow> None)"
| "ref_run h d (Remove_Ref # ops) =
     (case spf_ref_counter_remove_ref h d True of
        Some (rc, _, h') \<Rightarrow> if rc = AR_EOK then ref_run h' d ops else None | None \<Rightarrow> None)"

text \<open>The entry of memory to which \<open>n\<close> references are held.\<close>

definition entry_with :: "int \<Rightarrow> spf_ref_counter option" where
  "entry_with n = (if n = 0 then None else Some \<lparr>ref_count = of_int n, rc_magic = SPF_REF_COUNTER_MAGIC_ALLOCED\<rparr>)"

lemma sint_of_pos: "0 < n \<Longrightarrow> n < 2 ^ 31 \<Longrightarrow> sint (of_int n :: 32 word) = n"
  by (simp add: signed_of_int signed_take_bit_int_eq_self)

lemma ref_run_ok:
  assumes "well_used n ops" "0 < n" "n < 2 ^ 31"
    and "h a = Some \<lparr>ref_count = of_int n, rc_magic = SPF_REF_COUNTER_MAGIC_ALLOCED\<rparr>"
  shows "ref_run h (Some (a + DATA_OFFSET)) ops
    = Some (h(a := entry_with (balance n ops)))"
  using assms
proof (induction ops arbitrary: n h)
  case Nil
  then show ?case by (simp add: fun_upd_idem entry_with_def)
next
  case (Cons op ops)
  have s: "sint (of_int n :: 32 word) = n" using Cons.prems(2,3) by (rule sint_of_pos)
  show ?case
  proof (cases op)
    case Add_Ref
    then have n: "n + 1 < 2 ^ 31" "well_used (n + 1) ops" using Cons.prems(1) by auto
    have ne: "(of_int n :: 32 word) \<noteq> 0x7FFFFFFF" using s n(1) by auto
    let ?h = "h(a \<mapsto> \<lparr>ref_count = of_int (n + 1), rc_magic = SPF_REF_COUNTER_MAGIC_ALLOCED\<rparr>)"
    have "spf_ref_counter_add_ref h (Some (a + DATA_OFFSET)) = Some (AR_EOK, ?h)"
      using Cons.prems(4) ne by (simp add: spf_ref_counter_add_ref_def spf_ref_counter_get_entry_def)
    moreover have "ref_run ?h (Some (a + DATA_OFFSET)) ops = Some (?h(a := entry_with (balance (n + 1) ops)))"
      using Cons.prems(2) n by (intro Cons.IH) simp_all
    ultimately show ?thesis using Add_Ref by (simp add: fun_eq_iff)
  next
    case Remove_Ref
    then have w: "well_used (n - 1) ops" using Cons.prems(1) by auto
    have pos: "\<not> (of_int n :: 32 word) \<le>s 0" using s Cons.prems(2) by (simp add: word_sle_eq)
    show ?thesis
    proof (cases "n = 1")
      case True
      then have ops: "ops = []" using w by (cases ops; cases "hd ops") auto
      have "spf_ref_counter_remove_ref h (Some (a + DATA_OFFSET)) True = Some (AR_EOK, Some 0, h(a := None))"
        using Cons.prems(4) pos True by (simp add: spf_ref_counter_remove_ref_def spf_ref_counter_get_entry_def)
      then show ?thesis using Remove_Ref ops True by (simp add: entry_with_def fun_eq_iff)
    next
      case False
      then have m: "0 < n - 1" "n - 1 < 2 ^ 31" using Cons.prems(2,3) by auto
      have "sint (of_int (n - 1) :: 32 word) = n - 1" using m by (rule sint_of_pos)
      then have nz: "(of_int (n - 1) :: 32 word) \<noteq> 0" using m(1) by (metis sint_0 order_less_irrefl)
      let ?h = "h(a \<mapsto> \<lparr>ref_count = of_int (n - 1), rc_magic = SPF_REF_COUNTER_MAGIC_ALLOCED\<rparr>)"
      have "spf_ref_counter_remove_ref h (Some (a + DATA_OFFSET)) True = Some (AR_EOK, Some (of_int (n - 1)), ?h)"
        using Cons.prems(4) pos nz by (simp add: spf_ref_counter_remove_ref_def spf_ref_counter_get_entry_def Let_def)
      moreover have "ref_run ?h (Some (a + DATA_OFFSET)) ops = Some (?h(a := entry_with (balance (n - 1) ops)))"
        using m w by (intro Cons.IH) simp_all
      ultimately show ?thesis using Remove_Ref by (simp add: fun_eq_iff)
    qed
  qed
qed

subsection \<open>Properties\<close>

text \<open>
  C36: memory created with the reference counter lives exactly as long as references are held: in any history in which every
  operation is made while a reference is held, each operation succeeds, the memory is freed by the removal of the
  last reference and by no other, and no other entry is touched.
\<close>

theorem ref_counter_lifetime:
  assumes "spf_ref_counter_create_ref mal AR_EOK h sz = (AR_EOK, Some d, h')" "well_used 1 ops"
  shows "\<exists>a h''. d = a + DATA_OFFSET \<and> ref_run h' (Some d) ops = Some h'' \<and> (a \<in> dom h'' \<longleftrightarrow> balance 1 ops \<noteq> 0)
    \<and> (\<forall>x. x \<noteq> a \<longrightarrow> h'' x = h x)"
proof -
  obtain a where a: "d = a + DATA_OFFSET" "h' = h(a \<mapsto> \<lparr>ref_count = 1, rc_magic = SPF_REF_COUNTER_MAGIC_ALLOCED\<rparr>)"
    using assms(1) by (auto simp: spf_ref_counter_create_ref_def split: option.splits)
  have "ref_run h' (Some (a + DATA_OFFSET)) ops = Some (h'(a := entry_with (balance 1 ops)))"
    using assms(2) by (intro ref_run_ok) (simp_all add: a(2))
  then show ?thesis using a by (intro exI [of _ a] exI conjI) (auto simp: entry_with_def)
qed

theorem ref_counter_lifetime_witness:
  "\<exists>a h''. 124 = a + DATA_OFFSET \<and> ref_run (snd (snd (spf_ref_counter_create_ref (\<lambda>_. Some 100) 0 Map.empty 64))) (Some 124)
      [Add_Ref, Remove_Ref, Remove_Ref] = Some h'' \<and> (a \<in> dom h'' \<longleftrightarrow> balance 1 [Add_Ref, Remove_Ref, Remove_Ref] \<noteq> 0)
      \<and> (\<forall>x. x \<noteq> a \<longrightarrow> h'' x = None)"
proof -
  have "spf_ref_counter_create_ref (\<lambda>_. Some 100) 0 Map.empty 64
      = (AR_EOK, Some 124, snd (snd (spf_ref_counter_create_ref (\<lambda>_. Some 100) 0 Map.empty 64)))"
    by (simp add: spf_ref_counter_create_ref_def)
  from ref_counter_lifetime [OF this, of "[Add_Ref, Remove_Ref, Remove_Ref]"] show ?thesis by simp
qed

text \<open>
  the callback given to a removal is called on every removal, with the number of references that are left, and
  not only when the last one is removed.
\<close>

theorem ref_counter_callback_always:
  assumes "h a = Some \<lparr>ref_count = n, rc_magic = SPF_REF_COUNTER_MAGIC_ALLOCED\<rparr>" "0 <s n"
  shows "\<exists>h'. spf_ref_counter_remove_ref h (Some (a + DATA_OFFSET)) True = Some (AR_EOK, Some (n - 1), h')"
proof -
  have "\<not> n \<le>s 0" using assms(2) by (simp add: word_sle_eq word_sless_alt)
  then show ?thesis using assms(1) by (simp add: spf_ref_counter_remove_ref_def spf_ref_counter_get_entry_def Let_def)
qed

theorem ref_counter_callback_always_witness:
  "\<exists>h'. spf_ref_counter_remove_ref [100 \<mapsto> \<lparr>ref_count = 3, rc_magic = SPF_REF_COUNTER_MAGIC_ALLOCED\<rparr>] (Some (100 + DATA_OFFSET)) True
    = Some (AR_EOK, Some (3 - 1), h')"
  by (rule ref_counter_callback_always) (simp_all add: word_sless_alt)

end
