(* ===== verification/Gpr_List.thy ===== *)
theory Gpr_List
  imports Linked_Nodes Message_Queue
begin

text \<open>
  The lists of the generic packet router (\<^verbatim>\<open>gpr/core/src/gpr_list.c\<close>, \<^verbatim>\<open>gpr_list_island.c\<close>):
  circular doubly linked lists through a dummy node that is the first member of the list
  struct, so the address of a list is the address of its dummy. The nodes of all lists,
  dummies included, are one store; the other members of the list structs are another. The
  lock functions of a list are called through pointers: a call through \<open>NULL\<close> is undefined,
  any other is taken to make the operation atomic.
\<close>

subsection \<open>Data\<close>

record gpr_list_node = dl_node +
  node_list :: ptr

record gpr_list =
  list_size :: u32
  lock_fn :: ptr
  unlock_fn :: ptr
  en_secure :: bool

record gpr_list_mem =
  gl_nodes :: "gpr_list_node store"
  gl_lists :: "gpr_list store"

text \<open>\<open>list->lock_fn()\<close> and \<open>list->unlock_fn()\<close>.\<close>

definition call_fn :: "ptr \<Rightarrow> unit option" where
  "call_fn f = map_option (\<lambda>_. ()) f"

subsection \<open>Operations on nodes\<close>

definition gpr_list_raw_assert_node_is_linked :: "gpr_list_node store \<Rightarrow> ptr \<Rightarrow> u32 option" where
  "gpr_list_raw_assert_node_is_linked h node = do {
     p \<leftarrow> rd_prev h node;
     pn \<leftarrow> rd_next h p;
     if pn \<noteq> node then Some AR_EFAILED
     else do {
       n \<leftarrow> rd_next h node;
       np \<leftarrow> rd_prev h n;
       if np \<noteq> node then Some AR_EFAILED else Some AR_EOK
     }
   }"

definition gpr_list_raw_assert_secure_node_is_unlinked ::
    "'a gpr_list_mem_scheme \<Rightarrow> ptr \<Rightarrow> ptr \<Rightarrow> u32 option" where
  "gpr_list_raw_assert_secure_node_is_unlinked m list node = do {
     l \<leftarrow> load (gl_lists m) list;
     if \<not> en_secure l then Some AR_EOK
     else do {
       n \<leftarrow> rd_next (gl_nodes m) node;
       if n \<noteq> node then Some AR_EFAILED
       else do {
         p \<leftarrow> rd_prev (gl_nodes m) node;
         if p \<noteq> node then Some AR_EFAILED else Some AR_EOK
       }
     }
   }"

text \<open>The result of the check that the node is linked is ignored, as in the code.\<close>

definition gpr_list_raw_delete_node :: "gpr_list_node store \<Rightarrow> ptr \<Rightarrow> gpr_list_node store option" where
  "gpr_list_raw_delete_node h node = do {
     gpr_list_raw_assert_node_is_linked h node;
     p \<leftarrow> rd_prev h node;
     n \<leftarrow> rd_next h node;
     h \<leftarrow> wr_next h p n;
     n \<leftarrow> rd_next h node;
     p \<leftarrow> rd_prev h node;
     h \<leftarrow> wr_prev h n p;
     h \<leftarrow> wr_prev h node node;
     wr_next h node node
   }"

definition gpr_list_raw_insert_node_before ::
    "'a gpr_list_mem_scheme \<Rightarrow> ptr \<Rightarrow> ptr \<Rightarrow> ptr \<Rightarrow> (u32 \<times> 'a gpr_list_mem_scheme) option" where
  "gpr_list_raw_insert_node_before m list ref_node new_node = do {
     rc \<leftarrow> gpr_list_raw_assert_node_is_linked (gl_nodes m) ref_node;
     if rc \<noteq> AR_EOK then Some (rc, m)
     else do {
       rc \<leftarrow> gpr_list_raw_assert_secure_node_is_unlinked m list new_node;
       if rc \<noteq> AR_EOK then Some (rc, m)
       else do {
         h \<leftarrow> modify (gl_nodes m) new_node (node_list_update (\<lambda>_. list));
         p \<leftarrow> rd_prev h ref_node;
         h \<leftarrow> wr_next h p new_node;
         p \<leftarrow> rd_prev h ref_node;
         h \<leftarrow> wr_prev h new_node p;
         h \<leftarrow> wr_next h new_node ref_node;
         h \<leftarrow> wr_prev h ref_node new_node;
         Some (AR_EOK, m\<lparr>gl_nodes := h\<rparr>)
       }
     }
   }"

definition gpr_list_init_node :: "'a gpr_list_mem_scheme \<Rightarrow> ptr \<Rightarrow> (u32 \<times> 'a gpr_list_mem_scheme) option" where
  "gpr_list_init_node m node =
    (if node = None then Some (AR_EBADPARAM, m)
     else do {
       h \<leftarrow> modify (gl_nodes m) node (node_list_update (\<lambda>_. None));
       h \<leftarrow> wr_prev h node node;
       h \<leftarrow> wr_next h node node;
       Some (AR_EOK, m\<lparr>gl_nodes := h\<rparr>)
     })"

subsection \<open>Operations on lists\<close>

definition gpr_list_raw_is_empty :: "'a gpr_list_mem_scheme \<Rightarrow> ptr \<Rightarrow> bool option" where
  "gpr_list_raw_is_empty m list =
    (if list = None then Some True
     else do {
       n \<leftarrow> rd_next (gl_nodes m) list;
       Some (n = list)
     })"

definition gpr_list_raw_is_not_empty :: "gpr_list_node store \<Rightarrow> ptr \<Rightarrow> bool option" where
  "gpr_list_raw_is_not_empty h list = do {
     n \<leftarrow> rd_next h list;
     Some (n \<noteq> list)
   }"

definition gpr_list_init_internal ::
    "'a gpr_list_mem_scheme \<Rightarrow> ptr \<Rightarrow> ptr \<Rightarrow> ptr \<Rightarrow> bool \<Rightarrow> (u32 \<times> 'a gpr_list_mem_scheme) option" where
  "gpr_list_init_internal m list lock unlock secure =
    (if list = None \<or> lock = None \<or> unlock = None then Some (AR_EBADPARAM, m)
     else do {
       h \<leftarrow> wr_prev (gl_nodes m) list list;
       h \<leftarrow> wr_next h list list;
       ls \<leftarrow> modify (gl_lists m) list
               (\<lambda>l. l\<lparr>list_size := 0, lock_fn := lock, unlock_fn := unlock, en_secure := secure\<rparr>);
       Some (AR_EOK, m\<lparr>gl_nodes := h, gl_lists := ls\<rparr>)
     })"

definition gpr_list_init ::
    "'a gpr_list_mem_scheme \<Rightarrow> ptr \<Rightarrow> ptr \<Rightarrow> ptr \<Rightarrow> (u32 \<times> 'a gpr_list_mem_scheme) option" where
  "gpr_list_init m list lock unlock = gpr_list_init_internal m list lock unlock True"

definition gpr_list_init_v2 ::
    "'a gpr_list_mem_scheme \<Rightarrow> ptr \<Rightarrow> ptr \<Rightarrow> ptr \<Rightarrow> (u32 \<times> 'a gpr_list_mem_scheme) option" where
  "gpr_list_init_v2 m list lock unlock = gpr_list_init_internal m list lock unlock False"

text \<open>\<open>ret_node\<close> tells whether the caller gave a place for the result, which is the second component.\<close>

definition gpr_list_get_head :: "'a gpr_list_mem_scheme \<Rightarrow> ptr \<Rightarrow> bool \<Rightarrow> (u32 \<times> ptr) option" where
  "gpr_list_get_head m list ret_node =
    (if list = None \<or> \<not> ret_node then Some (AR_EBADPARAM, None)
     else do {
       l \<leftarrow> load (gl_lists m) list;
       call_fn (lock_fn l);
       e \<leftarrow> gpr_list_raw_is_empty m list;
       if e then do { call_fn (unlock_fn l); Some (AR_EFAILED, None) }
       else do {
         n \<leftarrow> rd_next (gl_nodes m) list;
         call_fn (unlock_fn l);
         Some (AR_EOK, n)
       }
     })"

definition gpr_list_remove_head ::
    "'a gpr_list_mem_scheme \<Rightarrow> ptr \<Rightarrow> bool \<Rightarrow> (u32 \<times> ptr \<times> 'a gpr_list_mem_scheme) option" where
  "gpr_list_remove_head m list ret_node =
    (if list = None then Some (AR_EBADPARAM, None, m)
     else do {
       l \<leftarrow> load (gl_lists m) list;
       call_fn (lock_fn l);
       e \<leftarrow> gpr_list_raw_is_empty m list;
       if e then do { call_fn (unlock_fn l); Some (AR_EFAILED, None, m) }
       else do {
         node \<leftarrow> rd_next (gl_nodes m) list;
         h \<leftarrow> gpr_list_raw_delete_node (gl_nodes m) node;
         ls \<leftarrow> modify (gl_lists m) list (list_size_update (\<lambda>n. n - 1));
         call_fn (unlock_fn l);
         Some (AR_EOK, if ret_node then node else None, m\<lparr>gl_nodes := h, gl_lists := ls\<rparr>)
       }
     })"

definition gpr_list_add_tail :: "'a gpr_list_mem_scheme \<Rightarrow> ptr \<Rightarrow> ptr \<Rightarrow> (u32 \<times> 'a gpr_list_mem_scheme) option" where
  "gpr_list_add_tail m list node =
    (if list = None \<or> node = None then Some (AR_EBADPARAM, m)
     else do {
       l \<leftarrow> load (gl_lists m) list;
       call_fn (lock_fn l);
       (rc, m) \<leftarrow> gpr_list_raw_insert_node_before m list list node;
       if rc \<noteq> AR_EOK then do { call_fn (unlock_fn l); Some (rc, m) }
       else do {
         ls \<leftarrow> modify (gl_lists m) list (list_size_update (\<lambda>n. n + 1));
         call_fn (unlock_fn l);
         Some (AR_EOK, m\<lparr>gl_lists := ls\<rparr>)
       }
     })"

definition gpr_list_delete :: "'a gpr_list_mem_scheme \<Rightarrow> ptr \<Rightarrow> ptr \<Rightarrow> (u32 \<times> 'a gpr_list_mem_scheme) option" where
  "gpr_list_delete m list node =
    (if list = None \<or> node = None then Some (AR_EBADPARAM, m)
     else do {
       l \<leftarrow> load (gl_lists m) list;
       call_fn (lock_fn l);
       h \<leftarrow> gpr_list_raw_delete_node (gl_nodes m) node;
       ls \<leftarrow> modify (gl_lists m) list (list_size_update (\<lambda>n. n - 1));
       call_fn (unlock_fn l);
       Some (AR_EOK, m\<lparr>gl_nodes := h, gl_lists := ls\<rparr>)
     })"

text \<open>The loop of \<open>gpr_list_clear\<close>.\<close>

partial_function (option) gpr_list_clear_loop :: "gpr_list_node store \<Rightarrow> ptr \<Rightarrow> gpr_list_node store option" where
  "gpr_list_clear_loop h list = do {
     ne \<leftarrow> gpr_list_raw_is_not_empty h list;
     if \<not> ne then Some h
     else do {
       node \<leftarrow> rd_next h list;
       h \<leftarrow> gpr_list_raw_delete_node h node;
       gpr_list_clear_loop h list
     }
   }"

definition gpr_list_clear :: "'a gpr_list_mem_scheme \<Rightarrow> ptr \<Rightarrow> (u32 \<times> 'a gpr_list_mem_scheme) option" where
  "gpr_list_clear m list =
    (if list = None then Some (AR_EBADPARAM, m)
     else do {
       l \<leftarrow> load (gl_lists m) list;
       call_fn (lock_fn l);
       h \<leftarrow> gpr_list_clear_loop (gl_nodes m) list;
       ls \<leftarrow> modify (gl_lists m) list (list_size_update (\<lambda>_. 0));
       call_fn (unlock_fn l);
       Some (AR_EOK, m\<lparr>gl_nodes := h, gl_lists := ls\<rparr>)
     })"

end
