(* ===== verification/Gpr_List_Proofs.thy ===== *)
theory Gpr_List_Proofs
  imports Gpr_List
begin

text \<open>
  Correctness of the packet router's lists. A list in memory is a ring of its dummy and its
  nodes (\<open>glist\<close>); a node that is in no list is a ring of its own. The operations change the
  ring the way the operations on lists of addresses do, touch no node outside it, and a
  secure list refuses a node that is already in a list. The first-in first-out contract
  \<open>message_queue\<close> is interpreted on them.
\<close>

subsection \<open>Rings\<close>

lemma ring_rotate: "ring h (xs @ ys) \<Longrightarrow> ring h (ys @ xs)"
proof (induction xs arbitrary: ys)
  case Nil
  then show ?case by simp
next
  case (Cons x xs)
  have "ring h (xs @ (ys @ [x]))" using ring_rotate1 [OF Cons.prems] by simp
  from Cons.IH [OF this] show ?case by simp
qed

lemma ring_single: "ring h [a] \<longleftrightarrow> a \<in> dom h \<and> prv h a = Some a \<and> nxt h a = Some a"
  by (auto simp: ring_def)

lemma ring_Cons:
  "ring h (l # xs) \<longleftrightarrow> distinct (l # xs) \<and> l \<in> dom h \<and> prv h l = Some (last (l # xs))
     \<and> nxt h l = begp xs (Some l) \<and> dseg h (Some l) xs (Some l)"
  by (auto simp: ring_def)

lemma ring_frame: "(\<And>x. x \<in> set xs \<Longrightarrow> h' x = h x) \<Longrightarrow> ring h' xs = ring h xs"
  by (rule ring_cong) (simp add: nxt_def prv_def domIff)

lemma ring_upd_other: "a \<notin> set xs \<Longrightarrow> ring (h(a \<mapsto> n)) xs = ring h xs"
  by (rule ring_frame) auto

text \<open>A node of a ring of several nodes is not linked to itself.\<close>

lemma ring_member_linked:
  assumes "ring h (l # xs)" "a \<in> set xs"
  shows "a \<in> dom h" "nxt h a \<noteq> Some a"
proof -
  obtain ys zs where xs: "xs = ys @ a # zs" using assms(2) by (auto simp: in_set_conv_decomp)
  have "ring h (a # zs @ l # ys)" using ring_rotate [of h "l # ys" "a # zs"] assms(1) xs by simp
  then have "a \<in> dom h" "nxt h a = begp (zs @ [l]) None" "a \<notin> set (zs @ [l])" by (auto simp: ring_Cons)
  then show "a \<in> dom h" "nxt h a \<noteq> Some a" by (cases zs; simp)+
qed

text \<open>The pointer updates that take the first node out of a ring, and those that put one before it.\<close>

definition ring_unlink :: "addr \<Rightarrow> addr \<Rightarrow> addr \<Rightarrow> 'a dl_node_scheme store \<Rightarrow> 'a dl_node_scheme store" where
  "ring_unlink p n a h = set_nxt a (Some a) (set_prv a (Some a) (set_prv n (Some p) (set_nxt p (Some n) h)))"

definition link_before :: "addr \<Rightarrow> addr \<Rightarrow> addr \<Rightarrow> 'a dl_node_scheme store \<Rightarrow> 'a dl_node_scheme store" where
  "link_before p l a h = set_prv l (Some a) (set_nxt a (Some l) (set_prv a (Some p) (set_nxt p (Some a) h)))"

lemma ring_unlink_frame: "x \<notin> {p, n, a} \<Longrightarrow> ring_unlink p n a h x = h x"
  by (simp add: ring_unlink_def set_nxt_apply set_prv_apply)

lemma link_before_frame: "x \<notin> {p, l, a} \<Longrightarrow> link_before p l a h x = h x"
  by (simp add: link_before_def set_nxt_apply set_prv_apply)

lemma dom_ring_unlink [simp]: "dom (ring_unlink p n a h) = dom h"
  by (simp add: ring_unlink_def)

lemma dom_link_before [simp]: "dom (link_before p n a h) = dom h"
  by (simp add: link_before_def)

lemma ring_unlink_self:
  "a \<in> dom h \<Longrightarrow> ring (ring_unlink p n a h) [a]"
  by (simp add: ring_single ring_unlink_def)

lemma ring_unlink_ring:
  assumes "ring h (a # zs)" "zs \<noteq> []"
  shows "ring (ring_unlink (last zs) (hd zs) a h) zs"
proof (cases "tl zs" rule: rev_cases)
  case Nil
  then obtain z where "zs = [z]" using assms(2) by (cases zs) auto
  then show ?thesis using assms(1) by (auto simp: ring_Cons ring_unlink_def)
next
  case (snoc ws y)
  then obtain z where zs: "zs = z # ws @ [y]" using assms(2) by (cases zs) auto
  have r: "distinct (a # z # ws @ [y])" "{a, z, y} \<union> set ws \<subseteq> dom h" "nxt h z = begp ws (Some y)"
      "dseg h (Some z) ws (Some y)" "prv h y = endp (Some z) ws"
    using assms(1) ring_dom [OF assms(1)] by (auto simp: zs ring_Cons dseg_append)
  have "dseg (ring_unlink y z a h) (Some z) ws (Some y)"
    using r by (simp add: ring_unlink_def)
  moreover have "z \<in> dom (ring_unlink y z a h)" "y \<in> dom (ring_unlink y z a h)" "prv (ring_unlink y z a h) z = Some y"
      "nxt (ring_unlink y z a h) z = begp ws (Some y)" "prv (ring_unlink y z a h) y = endp (Some z) ws"
      "nxt (ring_unlink y z a h) y = Some z"
    using r by (simp_all add: ring_unlink_def)
  ultimately show ?thesis using r(1) by (simp add: zs ring_Cons dseg_append)
qed

lemma link_before_ring:
  assumes "ring h (l # xs)" "a \<in> dom h" "a \<notin> set (l # xs)"
  shows "ring (link_before (last (l # xs)) l a h) (l # xs @ [a])"
proof (cases xs rule: rev_cases)
  case Nil
  then show ?thesis using assms by (auto simp: ring_Cons link_before_def)
next
  case (snoc ws y)
  have r: "distinct (l # ws @ [y])" "a \<notin> set (l # ws @ [y])" "{a, l, y} \<subseteq> dom h" "nxt h l = begp ws (Some y)"
      "dseg h (Some l) ws (Some y)" "prv h y = endp (Some l) ws"
    using assms ring_dom [OF assms(1)] by (auto simp: snoc ring_Cons dseg_append)
  have "dseg (link_before y l a h) (Some l) ws (Some y)"
    using r by (simp add: link_before_def)
  moreover have "nxt (link_before y l a h) l = begp ws (Some y)" "prv (link_before y l a h) y = endp (Some l) ws"
      "nxt (link_before y l a h) y = Some a" "prv (link_before y l a h) a = Some y"
      "nxt (link_before y l a h) a = Some l" "prv (link_before y l a h) l = Some a"
    using r by (auto simp: link_before_def)
  ultimately show ?thesis using r by (simp add: snoc ring_Cons dseg_append)
qed

subsection \<open>The code's steps are those updates\<close>

lemma assert_linked_ok:
  assumes "ring h (a # zs)"
  shows "gpr_list_raw_assert_node_is_linked h (Some a) = Some AR_EOK"
proof (cases zs rule: rev_cases)
  case Nil
  then show ?thesis using assms
    by (auto simp: gpr_list_raw_assert_node_is_linked_def ring_Cons rd_prev_Some rd_next_Some domIff)
next
  case (snoc ws y)
  have d: "a \<in> dom h" "y \<in> dom h" "hd zs \<in> dom h" using ring_dom [OF assms] snoc by (cases ws; auto)+
  have "prv h a = Some y" "nxt h y = Some a" "nxt h a = Some (hd zs)" "prv h (hd zs) = Some a"
    using assms snoc by (cases ws; auto simp: ring_Cons dseg_append)+
  with d show ?thesis by (simp add: gpr_list_raw_assert_node_is_linked_def rd_prev_Some rd_next_Some)
qed

lemma raw_delete_eq:
  assumes "ring h (a # zs)" "zs \<noteq> []"
  shows "gpr_list_raw_delete_node h (Some a) = Some (ring_unlink (last zs) (hd zs) a h)"
proof -
  have d: "a \<in> dom h" "last zs \<in> dom h" "hd zs \<in> dom h"
    using ring_dom [OF assms(1)] last_in_set [OF assms(2)] hd_in_set [OF assms(2)] by (simp_all add: subset_iff)
  have f: "prv h a = Some (last zs)" "nxt h a = Some (hd zs)" "last zs \<noteq> a"
    using assms by (auto simp: ring_Cons begp_hd)
  then show ?thesis using d assert_linked_ok [OF assms(1)]
    by (simp add: gpr_list_raw_delete_node_def mem_simps ring_unlink_def)
qed

text \<open>Deleting any node of a list other than its dummy.\<close>

lemma raw_delete_ok:
  assumes "ring h (l # xs @ a # ys)"
  shows "\<exists>h'. gpr_list_raw_delete_node h (Some a) = Some h' \<and> ring h' (l # xs @ ys) \<and> ring h' [a]
    \<and> dom h' = dom h \<and> (\<forall>x. x \<notin> set (l # xs @ a # ys) \<longrightarrow> h' x = h x)"
proof -
  let ?zs = "ys @ l # xs"
  let ?h = "ring_unlink (last ?zs) (hd ?zs) a h"
  have r: "ring h (a # ?zs)" using ring_rotate [of h "l # xs" "a # ys"] assms by simp
  have "ring ?h (l # xs @ ys)" using ring_rotate [OF ring_unlink_ring [OF r]] by simp
  moreover have "ring ?h [a]" using ring_dom [OF r] by (intro ring_unlink_self) simp
  moreover have "?h x = h x" if "x \<notin> set (l # xs @ a # ys)" for x
  proof (rule ring_unlink_frame)
    have "last ?zs \<in> set ?zs" "hd ?zs \<in> set ?zs" by (rule last_in_set hd_in_set; simp)+
    then show "x \<notin> {last ?zs, hd ?zs, a}" using that by auto
  qed
  ultimately show ?thesis using raw_delete_eq [OF r] by (intro exI [of _ ?h]) simp
qed

subsection \<open>Lists in memory\<close>

definition secure_list :: "'a gpr_list_mem_scheme \<Rightarrow> addr \<Rightarrow> bool" where
  "secure_list m l \<longleftrightarrow> (case gl_lists m l of None \<Rightarrow> False | Some L \<Rightarrow> en_secure L)"

definition glist :: "'a gpr_list_mem_scheme \<Rightarrow> addr \<Rightarrow> addr list \<Rightarrow> bool" where [inv_defs]:
  "glist m l xs \<longleftrightarrow> ring (gl_nodes m) (l # xs) \<and>
     (case gl_lists m l of None \<Rightarrow> False
      | Some L \<Rightarrow> lock_fn L \<noteq> None \<and> unlock_fn L \<noteq> None \<and> list_size L = of_nat (length xs))"

text \<open>
  What an operation on the list \<open>l\<close> may change: the nodes in \<open>S\<close>, of which none is lost,
  and the other members of \<open>l\<close>, but not its mode.
\<close>

definition list_frame :: "addr set \<Rightarrow> addr \<Rightarrow> 'a gpr_list_mem_scheme \<Rightarrow> 'a gpr_list_mem_scheme \<Rightarrow> bool" where
  "list_frame S l m m' \<longleftrightarrow> (\<exists>h ls. m' = m\<lparr>gl_nodes := h, gl_lists := ls\<rparr>)
     \<and> dom (gl_nodes m') = dom (gl_nodes m) \<and> (\<forall>x. x \<notin> S \<longrightarrow> gl_nodes m' x = gl_nodes m x)
     \<and> (\<forall>k. k \<noteq> l \<longrightarrow> gl_lists m' k = gl_lists m k)
     \<and> secure_list m' l = secure_list m l"

lemma list_frameI:
  assumes "m' = m\<lparr>gl_nodes := h, gl_lists := (gl_lists m)(l \<mapsto> L')\<rparr>" "gl_lists m l = Some L" "en_secure L' = en_secure L"
    and "dom h = dom (gl_nodes m)" "\<And>x. x \<notin> S \<Longrightarrow> h x = gl_nodes m x"
  shows "list_frame S l m m'"
  using assms by (auto simp: list_frame_def secure_list_def)

lemma list_frame_refl: "list_frame S l m m"
proof -
  have "m = m\<lparr>gl_nodes := gl_nodes m, gl_lists := gl_lists m\<rparr>" by simp
  then show ?thesis unfolding list_frame_def by blast
qed

lemma list_frame_trans:
  assumes "list_frame S l m m'" "list_frame T l m' m''"
  shows "list_frame (S \<union> T) l m m''"
proof -
  obtain h ls h' ls' where "m' = m\<lparr>gl_nodes := h, gl_lists := ls\<rparr>" "m'' = m'\<lparr>gl_nodes := h', gl_lists := ls'\<rparr>"
    using assms unfolding list_frame_def by blast
  then have "m'' = m\<lparr>gl_nodes := h', gl_lists := ls'\<rparr>" by simp
  then show ?thesis using assms unfolding list_frame_def by (intro conjI exI) auto
qed

lemma list_frame_mono: "list_frame S l m m' \<Longrightarrow> S \<subseteq> T \<Longrightarrow> list_frame T l m m'"
  unfolding list_frame_def by blast

text \<open>Lists and single nodes outside what an operation may change are as they were.\<close>

lemma list_frame_ring:
  assumes "list_frame S l m m'" "set xs \<inter> S = {}"
  shows "ring (gl_nodes m') xs = ring (gl_nodes m) xs"
  using assms by (intro ring_frame) (auto simp: list_frame_def)

lemma list_frame_glist:
  assumes "list_frame S l m m'" "k \<noteq> l" "set (k # xs) \<inter> S = {}"
  shows "glist m' k xs = glist m k xs"
proof -
  have "gl_lists m' k = gl_lists m k" using assms(1,2) by (simp add: list_frame_def)
  then show ?thesis using list_frame_ring [OF assms(1,3)] by (simp add: glist_def)
qed

lemma glist_hdr:
  "glist m l xs \<Longrightarrow> \<exists>L. gl_lists m l = Some L \<and> lock_fn L \<noteq> None \<and> unlock_fn L \<noteq> None
    \<and> list_size L = of_nat (length xs)"
  by (simp add: glist_def split: option.splits)

lemma glist_ring: "glist m l xs \<Longrightarrow> ring (gl_nodes m) (l # xs)"
  by (simp add: glist_def)

lemma glist_distinct: "glist m l xs \<Longrightarrow> distinct (l # xs)"
  by (simp add: glist_def ring_def)

lemma glist_dom: "glist m l xs \<Longrightarrow> set (l # xs) \<subseteq> dom (gl_nodes m)"
  using ring_dom glist_ring by metis

lemma call_fn_ok [simp]: "f \<noteq> None \<Longrightarrow> call_fn f = Some ()"
  by (auto simp: call_fn_def)

lemma is_empty_eq:
  assumes "ring (gl_nodes m) (l # xs)"
  shows "gpr_list_raw_is_empty m (Some l) = Some (xs = [])"
proof -
  have "l \<in> dom (gl_nodes m)" "nxt (gl_nodes m) l = begp xs (Some l)" "l \<notin> set xs"
    using assms by (auto simp: ring_Cons)
  then show ?thesis by (cases xs) (auto simp: gpr_list_raw_is_empty_def rd_next_Some)
qed

lemma is_not_empty_eq:
  assumes "ring h (l # xs)"
  shows "gpr_list_raw_is_not_empty h (Some l) = Some (xs \<noteq> [])"
proof -
  have "l \<in> dom h" "nxt h l = begp xs (Some l)" "l \<notin> set xs"
    using assms by (auto simp: ring_Cons)
  then show ?thesis by (cases xs) (auto simp: gpr_list_raw_is_not_empty_def rd_next_Some)
qed

lemma init_node_ok:
  assumes "a \<in> dom (gl_nodes m)"
  shows "\<exists>h. gpr_list_init_node m (Some a) = Some (AR_EOK, m\<lparr>gl_nodes := h\<rparr>) \<and> ring h [a]
    \<and> dom h = dom (gl_nodes m) \<and> (\<forall>x. x \<noteq> a \<longrightarrow> h x = gl_nodes m x)"
proof -
  obtain n where n: "gl_nodes m a = Some n" using assms by auto
  define h where "h = set_nxt a (Some a) (set_prv a (Some a) ((gl_nodes m)(a \<mapsto> n\<lparr>node_list := None\<rparr>)))"
  have "gpr_list_init_node m (Some a) = Some (AR_EOK, m\<lparr>gl_nodes := h\<rparr>)"
    using n by (simp add: gpr_list_init_node_def mem_simps h_def)
  moreover have "ring h [a]" by (simp add: ring_single h_def)
  moreover have "dom h = dom (gl_nodes m)" using assms by (auto simp: h_def)
  moreover have "\<forall>x. x \<noteq> a \<longrightarrow> h x = gl_nodes m x" by (simp add: h_def set_nxt_apply set_prv_apply)
  ultimately show ?thesis by blast
qed

lemma init_internal_ok:
  assumes "l \<in> dom (gl_nodes m)" "l \<in> dom (gl_lists m)" "lock \<noteq> None" "unlock \<noteq> None"
  shows "\<exists>h L. gpr_list_init_internal m (Some l) lock unlock sec
      = Some (AR_EOK, m\<lparr>gl_nodes := h, gl_lists := (gl_lists m)(l \<mapsto> L)\<rparr>)
    \<and> glist (m\<lparr>gl_nodes := h, gl_lists := (gl_lists m)(l \<mapsto> L)\<rparr>) l [] \<and> en_secure L = sec
    \<and> dom h = dom (gl_nodes m) \<and> (\<forall>x. x \<noteq> l \<longrightarrow> h x = gl_nodes m x)"
proof -
  obtain L0 where L0: "gl_lists m l = Some L0" using assms(2) by auto
  define L where "L = L0\<lparr>list_size := 0, lock_fn := lock, unlock_fn := unlock, en_secure := sec\<rparr>"
  define h where "h = set_nxt l (Some l) (set_prv l (Some l) (gl_nodes m))"
  have "gpr_list_init_internal m (Some l) lock unlock sec
      = Some (AR_EOK, m\<lparr>gl_nodes := h, gl_lists := (gl_lists m)(l \<mapsto> L)\<rparr>)"
    using assms L0 by (simp add: gpr_list_init_internal_def mem_simps h_def L_def)
  moreover have "ring h [l]" using assms(1) by (simp add: ring_single h_def)
  moreover have "\<forall>x. x \<noteq> l \<longrightarrow> h x = gl_nodes m x" by (simp add: h_def set_nxt_apply set_prv_apply)
  ultimately show ?thesis using assms(3,4)
    by (intro exI [of _ h] exI [of _ L]) (simp add: glist_def L_def h_def)
qed

subsection \<open>Operations\<close>

lemma nxt_node_list [simp]:
  "h a = Some n \<Longrightarrow> nxt (h(a \<mapsto> n\<lparr>node_list := v\<rparr>)) x = nxt h x"
  "h a = Some n \<Longrightarrow> prv (h(a \<mapsto> n\<lparr>node_list := v\<rparr>)) x = prv h x"
  by (auto simp: nxt_def prv_def)

lemma secure_check_eq:
  assumes "gl_lists m l = Some L" "a \<in> dom (gl_nodes m)"
  shows "gpr_list_raw_assert_secure_node_is_unlinked m (Some l) (Some a)
    = Some (if en_secure L \<and> \<not> ring (gl_nodes m) [a] then AR_EFAILED else AR_EOK)"
  using assms by (auto simp: gpr_list_raw_assert_secure_node_is_unlinked_def ring_single rd_next_Some rd_prev_Some)

lemma raw_insert_before_ok:
  assumes "ring (gl_nodes m) (l # xs)" "gl_lists m l = Some L" "gl_nodes m a = Some n" "a \<notin> set (l # xs)"
    and "en_secure L \<longrightarrow> ring (gl_nodes m) [a]"
  shows "gpr_list_raw_insert_node_before m (Some l) (Some l) (Some a)
    = Some (AR_EOK, m\<lparr>gl_nodes := link_before (last (l # xs)) l a ((gl_nodes m)(a \<mapsto> n\<lparr>node_list := Some l\<rparr>))\<rparr>)"
proof -
  define h where "h = (gl_nodes m)(a \<mapsto> n\<lparr>node_list := Some l\<rparr>)"
  define p where "p = last (l # xs)"
  have "p \<in> set (l # xs)" unfolding p_def by (rule last_in_set) simp
  then have d: "l \<in> dom h" "p \<in> dom h" "a \<in> dom h" and a: "p \<noteq> a" "l \<noteq> a"
    using ring_dom [OF assms(1)] assms(4) by (auto simp: h_def)
  have m: "modify (gl_nodes m) (Some a) (node_list_update (\<lambda>_. Some l)) = Some h"
    using assms(3) by (simp add: modify_Some h_def)
  have p: "prv h l = Some p" using assms(1,3) a(2) by (simp add: ring_Cons h_def p_def)
  have "gpr_list_raw_assert_secure_node_is_unlinked m (Some l) (Some a) = Some AR_EOK"
    using secure_check_eq [OF assms(2), of a] assms(3,5) by (simp add: domIff)
  then show ?thesis unfolding h_def [symmetric] p_def [symmetric] using d a p m assert_linked_ok [OF assms(1)]
    by (simp add: gpr_list_raw_insert_node_before_def rd_prev_Some wr_next_Some wr_prev_Some link_before_def)
qed

lemma add_tail_ok:
  assumes "glist m l xs" "a \<in> dom (gl_nodes m)" "a \<notin> set (l # xs)" "secure_list m l \<longrightarrow> ring (gl_nodes m) [a]"
  shows "\<exists>m'. gpr_list_add_tail m (Some l) (Some a) = Some (AR_EOK, m') \<and> glist m' l (xs @ [a])
    \<and> list_frame (set (l # xs @ [a])) l m m'"
proof -
  obtain L where L: "gl_lists m l = Some L" "lock_fn L \<noteq> None" "unlock_fn L \<noteq> None" "list_size L = of_nat (length xs)"
    using glist_hdr [OF assms(1)] by blast
  have r: "ring (gl_nodes m) (l # xs)" using glist_ring [OF assms(1)] .
  obtain n where n: "gl_nodes m a = Some n" using assms(2) by auto
  let ?h = "(gl_nodes m)(a \<mapsto> n\<lparr>node_list := Some l\<rparr>)"
  define h' where "h' = link_before (last (l # xs)) l a ?h"
  define L' where "L' = list_size_update (\<lambda>n. n + 1) L"
  define m' where "m' = m\<lparr>gl_nodes := h', gl_lists := (gl_lists m)(l \<mapsto> L')\<rparr>"
  have "en_secure L \<longrightarrow> ring (gl_nodes m) [a]" using assms(4) L(1) by (simp add: secure_list_def)
  note raw_insert_before_ok [OF r L(1) n assms(3) this]
  then have "gpr_list_add_tail m (Some l) (Some a) = Some (AR_EOK, m')"
    using L by (simp add: gpr_list_add_tail_def modify_Some m'_def h'_def L'_def)
  moreover have "ring ?h (l # xs)" using r ring_upd_other [OF assms(3)] by blast
  then have r': "ring h' (l # xs @ [a])" using assms(3) unfolding h'_def by (intro link_before_ring) auto
  then have "glist m' l (xs @ [a])" using L by (simp add: glist_def m'_def L'_def)
  moreover have "list_frame (set (l # xs @ [a])) l m m'"
  proof (rule list_frameI [OF m'_def L(1)])
    show "dom h' = dom (gl_nodes m)" using assms(2) by (auto simp: h'_def)
    fix x
    assume "x \<notin> set (l # xs @ [a])"
    then have "x \<notin> {last (l # xs), l, a}" using last_in_set [of "l # xs"] by auto
    then show "h' x = gl_nodes m x" by (simp add: h'_def link_before_frame)
  qed (simp add: L'_def)
  ultimately show ?thesis by blast
qed

text \<open>A secure list refuses a node that is not alone, and nothing changes.\<close>

lemma add_tail_refused:
  assumes "glist m l xs" "secure_list m l" "a \<in> dom (gl_nodes m)" "\<not> ring (gl_nodes m) [a]"
  shows "gpr_list_add_tail m (Some l) (Some a) = Some (AR_EFAILED, m)"
proof -
  obtain L where L: "gl_lists m l = Some L" "lock_fn L \<noteq> None" "unlock_fn L \<noteq> None"
    using glist_hdr [OF assms(1)] by blast
  have r: "ring (gl_nodes m) (l # xs)" using glist_ring [OF assms(1)] .
  have "gpr_list_raw_assert_secure_node_is_unlinked m (Some l) (Some a) = Some AR_EFAILED"
    using secure_check_eq [OF L(1) assms(3)] assms(2,4) L(1) by (simp add: secure_list_def)
  then show ?thesis using L assert_linked_ok [OF r]
    by (simp add: gpr_list_add_tail_def gpr_list_raw_insert_node_before_def)
qed

lemma delete_ok:
  assumes "glist m l (xs @ a # ys)"
  shows "\<exists>m'. gpr_list_delete m (Some l) (Some a) = Some (AR_EOK, m') \<and> glist m' l (xs @ ys)
    \<and> ring (gl_nodes m') [a] \<and> list_frame (set (l # xs @ a # ys)) l m m'"
proof -
  obtain L where L: "gl_lists m l = Some L" "lock_fn L \<noteq> None" "unlock_fn L \<noteq> None" "list_size L = of_nat (length (xs @ a # ys))"
    using glist_hdr [OF assms] by blast
  have r: "ring (gl_nodes m) (l # xs @ a # ys)" using glist_ring [OF assms] .
  obtain h' where h: "gpr_list_raw_delete_node (gl_nodes m) (Some a) = Some h'" "ring h' (l # xs @ ys)" "ring h' [a]"
      "dom h' = dom (gl_nodes m)" "\<forall>x. x \<notin> set (l # xs @ a # ys) \<longrightarrow> h' x = gl_nodes m x"
    using raw_delete_ok [OF r] by blast
  define L' where "L' = list_size_update (\<lambda>n. n - 1) L"
  define m' where "m' = m\<lparr>gl_nodes := h', gl_lists := (gl_lists m)(l \<mapsto> L')\<rparr>"
  have "gpr_list_delete m (Some l) (Some a) = Some (AR_EOK, m')"
    using L h(1) by (simp add: gpr_list_delete_def modify_Some m'_def L'_def)
  moreover have "glist m' l (xs @ ys)" using L h(2) by (simp add: glist_def m'_def L'_def)
  moreover have "list_frame (set (l # xs @ a # ys)) l m m'"
    using h(4,5) by (intro list_frameI [OF m'_def L(1)]) (simp_all add: L'_def)
  ultimately show ?thesis using h(3) by (intro exI [of _ m']) (simp add: m'_def)
qed

lemma remove_head_is_delete:
  assumes "glist m l (a # xs)"
  shows "gpr_list_remove_head m (Some l) ret
    = map_option (\<lambda>(rc, m'). (rc, if ret then Some a else None, m')) (gpr_list_delete m (Some l) (Some a))"
proof -
  obtain L where L: "gl_lists m l = Some L" "lock_fn L \<noteq> None" "unlock_fn L \<noteq> None"
    using glist_hdr [OF assms] by blast
  have r: "ring (gl_nodes m) (l # a # xs)" using glist_ring [OF assms] .
  have "rd_next (gl_nodes m) (Some l) = Some (Some a)" using r by (simp add: ring_Cons rd_next_Some)
  then show ?thesis using L is_empty_eq [OF r]
    by (cases "gpr_list_raw_delete_node (gl_nodes m) (Some a)")
      (simp_all add: gpr_list_remove_head_def gpr_list_delete_def modify_Some)
qed

lemma remove_head_ok:
  assumes "glist m l (a # xs)"
  shows "\<exists>m'. gpr_list_remove_head m (Some l) ret = Some (AR_EOK, if ret then Some a else None, m') \<and> glist m' l xs
    \<and> ring (gl_nodes m') [a] \<and> list_frame (set (l # a # xs)) l m m'"
  using delete_ok [of m l "[]" a xs] assms remove_head_is_delete [OF assms, of ret] by auto

lemma remove_head_empty:
  assumes "glist m l []"
  shows "gpr_list_remove_head m (Some l) ret = Some (AR_EFAILED, None, m)"
proof -
  obtain L where L: "gl_lists m l = Some L" "lock_fn L \<noteq> None" "unlock_fn L \<noteq> None"
    using glist_hdr [OF assms] by blast
  have r: "ring (gl_nodes m) [l]" using glist_ring [OF assms] .
  show ?thesis using L is_empty_eq [OF r] by (simp add: gpr_list_remove_head_def)
qed

lemma get_head_eq:
  assumes "glist m l xs"
  shows "gpr_list_get_head m (Some l) True = Some (case xs of [] \<Rightarrow> (AR_EFAILED, None) | a # _ \<Rightarrow> (AR_EOK, Some a))"
proof -
  obtain L where L: "gl_lists m l = Some L" "lock_fn L \<noteq> None" "unlock_fn L \<noteq> None"
    using glist_hdr [OF assms] by blast
  have r: "ring (gl_nodes m) (l # xs)" using glist_ring [OF assms] .
  have "rd_next (gl_nodes m) (Some l) = Some (begp xs (Some l))" using r by (simp add: ring_Cons rd_next_Some)
  then show ?thesis using L is_empty_eq [OF r] by (cases xs) (simp_all add: gpr_list_get_head_def)
qed

text \<open>Clearing ends, and leaves every node alone.\<close>

lemma clear_loop_ok:
  assumes "ring h (l # xs)"
  shows "\<exists>h'. gpr_list_clear_loop h (Some l) = Some h' \<and> ring h' [l] \<and> (\<forall>a \<in> set xs. ring h' [a]) \<and> dom h' = dom h
    \<and> (\<forall>x. x \<notin> set (l # xs) \<longrightarrow> h' x = h x)"
  using assms
proof (induction xs arbitrary: h)
  case Nil
  then show ?case using is_not_empty_eq [OF Nil] by (subst gpr_list_clear_loop.simps) (simp add: Nil)
next
  case (Cons a xs)
  have n: "rd_next h (Some l) = Some (Some a)" using Cons.prems by (simp add: ring_Cons rd_next_Some)
  have dist: "a \<notin> set (l # xs)" using Cons.prems by (simp add: ring_Cons)
  obtain h1 where h1: "gpr_list_raw_delete_node h (Some a) = Some h1" "ring h1 (l # xs)" "ring h1 [a]" "dom h1 = dom h"
      "\<forall>x. x \<notin> set (l # a # xs) \<longrightarrow> h1 x = h x"
    using raw_delete_ok [of h l "[]" a xs] Cons.prems by auto
  obtain h' where h': "gpr_list_clear_loop h1 (Some l) = Some h'" "ring h' [l]" "\<forall>a \<in> set xs. ring h' [a]" "dom h' = dom h1"
      "\<forall>x. x \<notin> set (l # xs) \<longrightarrow> h' x = h1 x"
    using Cons.IH [OF h1(2)] by blast
  have "h' a = h1 a" using h'(5) dist by blast
  then have "ring h' [a]" using h1(3) ring_frame [of "[a]" h' h1] by simp
  moreover have "gpr_list_clear_loop h (Some l) = Some h'"
    using is_not_empty_eq [OF Cons.prems] n h1(1) h'(1) by (subst gpr_list_clear_loop.simps) simp
  ultimately show ?case using h' h1(4,5) by (intro exI [of _ h']) simp
qed

lemma clear_ok:
  assumes "glist m l xs"
  shows "\<exists>m'. gpr_list_clear m (Some l) = Some (AR_EOK, m') \<and> glist m' l [] \<and> (\<forall>a \<in> set xs. ring (gl_nodes m') [a])
    \<and> list_frame (set (l # xs)) l m m'"
proof -
  obtain L where L: "gl_lists m l = Some L" "lock_fn L \<noteq> None" "unlock_fn L \<noteq> None"
    using glist_hdr [OF assms] by blast
  have r: "ring (gl_nodes m) (l # xs)" using glist_ring [OF assms] .
  obtain h' where h: "gpr_list_clear_loop (gl_nodes m) (Some l) = Some h'" "ring h' [l]" "\<forall>a \<in> set xs. ring h' [a]"
      "dom h' = dom (gl_nodes m)" "\<forall>x. x \<notin> set (l # xs) \<longrightarrow> h' x = gl_nodes m x"
    using clear_loop_ok [OF r] by blast
  define L' where "L' = list_size_update (\<lambda>_. 0) L"
  define m' where "m' = m\<lparr>gl_nodes := h', gl_lists := (gl_lists m)(l \<mapsto> L')\<rparr>"
  have "gpr_list_clear m (Some l) = Some (AR_EOK, m')"
    using L h(1) by (simp add: gpr_list_clear_def modify_Some m'_def L'_def)
  moreover have "glist m' l []" using L h(2) by (simp add: glist_def m'_def L'_def)
  moreover have "list_frame (set (l # xs)) l m m'"
    using h(4,5) by (intro list_frameI [OF m'_def L(1)]) (simp_all add: L'_def)
  ultimately show ?thesis using h(3) by (intro exI [of _ m']) (simp add: m'_def)
qed

subsection \<open>A list is a first-in first-out queue\<close>

text \<open>Adding at the tail of the list \<open>l\<close>, with whether the node was taken; the dummy itself is never added.\<close>

definition gpr_push :: "addr \<Rightarrow> 'a gpr_list_mem_scheme \<Rightarrow> addr \<Rightarrow> bool \<Rightarrow> 'a gpr_list_mem_scheme \<Rightarrow> bool" where
  "gpr_push l m a ok m' \<longleftrightarrow> a \<noteq> l \<and> (\<exists>rc. gpr_list_add_tail m (Some l) (Some a) = Some (rc, m') \<and> (ok \<longleftrightarrow> rc = AR_EOK))"

definition gpr_pop :: "addr \<Rightarrow> 'a gpr_list_mem_scheme \<Rightarrow> (addr option \<times> 'a gpr_list_mem_scheme) option" where
  "gpr_pop l m = map_option (\<lambda>(rc, node, m'). (if rc = AR_EOK then node else None, m')) (gpr_list_remove_head m (Some l) True)"

definition secure_glist :: "addr \<Rightarrow> 'a gpr_list_mem_scheme \<Rightarrow> addr list \<Rightarrow> bool" where
  "secure_glist l m xs \<longleftrightarrow> glist m l xs \<and> secure_list m l"

lemma add_tail_owned:
  assumes "glist m l xs" "secure_list m l" "gpr_list_add_tail m (Some l) (Some a) = Some (rc, m')"
  shows "a \<in> dom (gl_nodes m)"
proof (rule ccontr)
  assume "a \<notin> dom (gl_nodes m)"
  then have n: "rd_next (gl_nodes m) (Some a) = None" by (simp add: rd_next_def domIff)
  obtain L where L: "gl_lists m l = Some L" using glist_hdr [OF assms(1)] by blast
  then have "en_secure L" using assms(2) by (simp add: secure_list_def)
  then show False using assms(3) L n assert_linked_ok [OF glist_ring [OF assms(1)]]
    by (cases "call_fn (lock_fn L)")
      (simp_all add: gpr_list_add_tail_def gpr_list_raw_insert_node_before_def gpr_list_raw_assert_secure_node_is_unlinked_def)
qed

lemma gpr_push_rel:
  assumes "secure_glist l m xs" "gpr_push l m a ok m'"
  shows "secure_glist l m' (if ok then xs @ [a] else xs)"
proof -
  obtain rc where rc: "gpr_list_add_tail m (Some l) (Some a) = Some (rc, m')" "ok \<longleftrightarrow> rc = AR_EOK" "a \<noteq> l"
    using assms(2) by (auto simp: gpr_push_def)
  have g: "glist m l xs" "secure_list m l" using assms(1) by (simp_all add: secure_glist_def)
  have d: "a \<in> dom (gl_nodes m)" by (rule add_tail_owned [OF g rc(1)])
  show ?thesis
  proof (cases "ring (gl_nodes m) [a]")
    case True
    then have "a \<notin> set xs" using ring_member_linked(2) [OF glist_ring [OF g(1)], of a] by (auto simp: ring_single)
    then obtain m1 where "gpr_list_add_tail m (Some l) (Some a) = Some (AR_EOK, m1)" "glist m1 l (xs @ [a])"
        "list_frame (set (l # xs @ [a])) l m m1"
      using add_tail_ok [OF g(1) d] True rc(3) by auto
    then show ?thesis using rc g(2) by (simp add: secure_glist_def list_frame_def)
  next
    case False
    then show ?thesis using add_tail_refused [OF g d] rc g by (simp add: secure_glist_def)
  qed
qed

interpretation gpr_fifo: message_queue "secure_glist l" "gpr_push l" "gpr_pop l" for l
proof
  fix m m' :: "'a gpr_list_mem_scheme" and xs a ok
  show "secure_glist l m xs \<Longrightarrow> gpr_push l m a ok m' \<Longrightarrow> secure_glist l m' (if ok then xs @ [a] else xs)"
    by (rule gpr_push_rel)
next
  fix m :: "'a gpr_list_mem_scheme" and x xs
  assume "secure_glist l m (x # xs)"
  then have g: "glist m l (x # xs)" "secure_list m l" by (simp_all add: secure_glist_def)
  obtain m' where m': "gpr_list_remove_head m (Some l) True = Some (AR_EOK, Some x, m')" "glist m' l xs"
      "list_frame (set (l # x # xs)) l m m'"
    using remove_head_ok [OF g(1), of True] by auto
  then show "\<exists>m'. gpr_pop l m = Some (Some x, m') \<and> secure_glist l m' xs"
    using g(2) by (simp add: gpr_pop_def secure_glist_def list_frame_def)
next
  fix m :: "'a gpr_list_mem_scheme"
  assume "secure_glist l m []"
  then show "gpr_pop l m = Some (None, m)"
    using remove_head_empty [of m l True] by (simp add: gpr_pop_def secure_glist_def)
qed

subsection \<open>Example\<close>

text \<open>A secure list at 100 with one node, and another node that is in no list.\<close>

definition ex_glist :: gpr_list_mem where
  "ex_glist = \<lparr>gl_nodes =
       [100 \<mapsto> \<lparr>next_ptr = Some 200, prev_ptr = Some 200, node_list = None\<rparr>,
        200 \<mapsto> \<lparr>next_ptr = Some 100, prev_ptr = Some 100, node_list = Some 100\<rparr>,
        300 \<mapsto> \<lparr>next_ptr = Some 300, prev_ptr = Some 300, node_list = None\<rparr>],
     gl_lists = [100 \<mapsto> \<lparr>list_size = 1, lock_fn = Some 1, unlock_fn = Some 2, en_secure = True\<rparr>]\<rparr>"

lemma ex_glist_ok: "secure_glist 100 ex_glist [200]"
  by (auto simp: secure_glist_def glist_def secure_list_def ring_Cons ex_glist_def nxt_def prv_def)

subsection \<open>Properties\<close>

text \<open>
  a secure packet list is a first-in first-out queue: over any history of additions at the tail and removals
  of the head, the nodes that were taken out, followed by those that are still there, are the nodes that were there,
  followed by those that were accepted, in order.
\<close>

theorem gpr_list_fifo:
  assumes "secure_glist l m xs" "fifo_run (gpr_push l) (gpr_pop l) m evs m'"
  shows "\<exists>ys. secure_glist l m' ys \<and> popped evs @ ys = xs @ pushed evs"
  using gpr_fifo.fifo [OF assms(2,1)] .

theorem gpr_list_fifo_witness:
  "\<exists>m' ys. fifo_run (gpr_push 100) (gpr_pop 100) ex_glist [Push 300 True, Pop (Some 200)] m' \<and> secure_glist 100 m' ys
    \<and> popped [Push 300 True, Pop (Some 200)] @ ys = [200] @ pushed [Push 300 True, Pop (Some 200)]"
proof -
  have "\<exists>m1. gpr_list_add_tail ex_glist (Some 100) (Some 300) = Some (AR_EOK, m1)"
    using add_tail_ok [of ex_glist 100 "[200]" 300] ex_glist_ok
    by (fastforce simp: secure_glist_def ring_single nxt_def prv_def ex_glist_def)
  then obtain m1 where p: "gpr_push 100 ex_glist 300 True m1" by (auto simp: gpr_push_def)
  have "secure_glist 100 m1 (200 # [300])" using gpr_push_rel [OF ex_glist_ok p] by simp
  then obtain m2 where "gpr_pop 100 m1 = Some (Some 200, m2)" using gpr_fifo.pop_law by blast
  then have r: "fifo_run (gpr_push 100) (gpr_pop 100) ex_glist [Push 300 True, Pop (Some 200)] m2"
    using p by (blast intro: fifo_run.intros)
  from gpr_list_fifo [OF ex_glist_ok r] r show ?thesis by blast
qed

text \<open>
  a node that is in some list cannot be added to a secure list, the same or another: the attempt fails and
  changes nothing. A node taken out of a list, by itself or by clearing the list, can be added again.
\<close>

theorem gpr_list_no_double_insert:
  assumes "glist m l xs" "secure_list m l" "glist m k ys" "a \<in> set ys"
  shows "gpr_list_add_tail m (Some l) (Some a) = Some (AR_EFAILED, m)
    \<and> (\<exists>m'. gpr_list_delete m (Some k) (Some a) = Some (AR_EOK, m') \<and> glist m' k (remove1 a ys) \<and> ring (gl_nodes m') [a])
    \<and> (\<exists>m'. gpr_list_clear m (Some k) = Some (AR_EOK, m') \<and> glist m' k [] \<and> ring (gl_nodes m') [a])"
proof -
  note r = glist_ring [OF assms(3)]
  have "\<not> ring (gl_nodes m) [a]" using ring_member_linked(2) [OF r assms(4)] by (simp add: ring_single)
  then have 1: "gpr_list_add_tail m (Some l) (Some a) = Some (AR_EFAILED, m)"
    using add_tail_refused [OF assms(1,2) ring_member_linked(1) [OF r assms(4)]] by blast
  obtain us vs where y: "ys = us @ a # vs" "a \<notin> set us" using split_list_first [OF assms(4)] by blast
  have "\<exists>m'. gpr_list_delete m (Some k) (Some a) = Some (AR_EOK, m') \<and> glist m' k (remove1 a ys) \<and> ring (gl_nodes m') [a]"
    using delete_ok [of m k us a vs] assms(3) y by (auto simp: remove1_append)
  with 1 show ?thesis using clear_ok [OF assms(3)] assms(4) by blast
qed

theorem gpr_list_no_double_insert_witness:
  "gpr_list_add_tail ex_glist (Some 100) (Some 200) = Some (AR_EFAILED, ex_glist)
    \<and> (\<exists>m'. gpr_list_delete ex_glist (Some 100) (Some 200) = Some (AR_EOK, m') \<and> glist m' 100 (remove1 200 [200]) \<and> ring (gl_nodes m') [200])
    \<and> (\<exists>m'. gpr_list_clear ex_glist (Some 100) = Some (AR_EOK, m') \<and> glist m' 100 [] \<and> ring (gl_nodes m') [200])"
  by (rule gpr_list_no_double_insert [of _ 100 "[200]"]) (use ex_glist_ok in \<open>simp_all add: secure_glist_def\<close>)

end
