(* ===== verification/Gpr_Memq.thy ===== *)
theory Gpr_Memq
  imports Gpr_List_Proofs Node_Allocator
begin

text \<open>
  The packet memory of the router (\<^verbatim>\<open>gpr/core/src/gpr_memq.c\<close>, \<^verbatim>\<open>gpr_memq_island.c\<close>): memory the
  client provides is cut into units of one size, and the units that are free are in a secure
  list. A unit is a list node, then the metadata words, then what the client may use. The
  list nodes at the beginning of the units are in the node store of the lists and the
  metadata words in a store of their own, which is faithful as long as a unit is large
  enough for both (the hypothesis on \<open>unit_size\<close> of the theorems). The free list is the first
  member of a block, so the address of a block is the address of its list.
\<close>

subsection \<open>Data\<close>

record gpr_memq_block =
  base_addr :: addr
  total_units :: u32
  unit_size :: u32
  metadata_size :: u32
  unique_metadata_ids :: "u32 list option"
  unique_metadata_counts :: "u32 list option"

record gpr_memq_mem = gpr_list_mem +
  mq_words :: "u32 store"
  mq_blocks :: "gpr_memq_block store"

text \<open>\<open>sizeof(int32_t)\<close> and \<open>sizeof(gpr_memq_entry_t)\<close> in a 64-bit build.\<close>

abbreviation (input) GPR_MEMQ_BYTES_PER_METADATA_ITEM_V :: nat where "GPR_MEMQ_BYTES_PER_METADATA_ITEM_V \<equiv> 4"
abbreviation (input) GPR_MEMQ_UNIT_OVERHEAD_V :: nat where "GPR_MEMQ_UNIT_OVERHEAD_V \<equiv> 24"

text \<open>\<open>ar_mem_set\<close> on the first \<open>n\<close> words of an array.\<close>

definition set_words :: "'w list \<Rightarrow> nat \<Rightarrow> 'w \<Rightarrow> 'w list option" where
  "set_words xs n v = (if n \<le> length xs then Some (replicate n v @ drop n xs) else None)"

subsection \<open>Initialisation\<close>

partial_function (option) memq_partition ::
    "'a gpr_memq_mem_scheme \<Rightarrow> ptr \<Rightarrow> addr \<Rightarrow> u32 \<Rightarrow> u32 \<Rightarrow> (u32 \<times> 'a gpr_memq_mem_scheme) option" where
  "memq_partition m block heap_base heap_size us =
    (if heap_size < us then Some (AR_EOK, m)
     else do {
       (_, m) \<leftarrow> gpr_list_init_node m (Some heap_base);
       (rc, m) \<leftarrow> gpr_list_add_tail m block (Some heap_base);
       if rc \<noteq> AR_EOK then Some (rc, m)
       else memq_partition m block (heap_base + unat us) (heap_size - us) us
     })"

text \<open>\<open>mal_ids\<close> and \<open>mal_counts\<close> tell whether the two allocations of words succeed.\<close>

definition gpr_memq_init ::
    "bool \<Rightarrow> bool \<Rightarrow> 'a gpr_memq_mem_scheme \<Rightarrow> ptr \<Rightarrow> ptr \<Rightarrow> u32 \<Rightarrow> u32 \<Rightarrow> u32 \<Rightarrow> ptr \<Rightarrow> ptr
      \<Rightarrow> (u32 \<times> 'a gpr_memq_mem_scheme) option" where
  "gpr_memq_init mal_ids mal_counts m block heap_base heap_size us ms lock unlock =
    (if block = None \<or> heap_base = None \<or> lock = None \<or> unlock = None then Some (AR_EBADPARAM, m)
     else if unat us < GPR_MEMQ_BYTES_PER_METADATA_ITEM_V * unat ms then Some (AR_EBADPARAM, m)
     else do {
       (_, m) \<leftarrow> gpr_list_init m block lock unlock;
       base \<leftarrow> heap_base;
       bs \<leftarrow> modify (mq_blocks m) block (\<lambda>b. b\<lparr>base_addr := base, unit_size := us, metadata_size := ms\<rparr>);
       (rc, m) \<leftarrow> memq_partition (m\<lparr>mq_blocks := bs\<rparr>) block base heap_size us;
       if rc \<noteq> AR_EOK then Some (rc, m)
       else do {
         l \<leftarrow> load (gl_lists m) block;
         let n = list_size l;
         bs \<leftarrow> modify (mq_blocks m) block (total_units_update (\<lambda>_. n));
         if \<not> mal_ids
         then do {
           bs \<leftarrow> modify bs block (unique_metadata_ids_update (\<lambda>_. None));
           Some (AR_EFAILED, m\<lparr>mq_blocks := bs\<rparr>)
         }
         else do {
           bs \<leftarrow> modify bs block (unique_metadata_ids_update (\<lambda>_. Some (replicate (unat n) 0)));
           if \<not> mal_counts
           then do {
             bs \<leftarrow> modify bs block (unique_metadata_counts_update (\<lambda>_. None));
             Some (AR_EFAILED, m\<lparr>mq_blocks := bs\<rparr>)
           }
           else do {
             bs \<leftarrow> modify bs block (unique_metadata_counts_update (\<lambda>_. Some (replicate (unat n) 0)));
             Some (AR_EOK, m\<lparr>mq_blocks := bs\<rparr>)
           }
         }
       }
     })"

text \<open>A block whose size differs from the number of free units is only reported in a message.\<close>

definition gpr_memq_deinit :: "'a gpr_memq_mem_scheme \<Rightarrow> ptr \<Rightarrow> 'a gpr_memq_mem_scheme option" where
  "gpr_memq_deinit m block =
    (if block = None then Some m
     else do {
       load (gl_lists m) block;
       load (mq_blocks m) block;
       (_, m) \<leftarrow> gpr_list_clear m block;
       bs \<leftarrow> modify (mq_blocks m) block
               (\<lambda>b. b\<lparr>unique_metadata_ids := None, unique_metadata_counts := None\<rparr>);
       Some (m\<lparr>mq_blocks := bs\<rparr>)
     })"

subsection \<open>Metadata\<close>

definition gpr_memq_size_of_metadata_and_overhead :: "'a gpr_memq_mem_scheme \<Rightarrow> ptr \<Rightarrow> u32 option" where
  "gpr_memq_size_of_metadata_and_overhead m block = do {
     b \<leftarrow> load (mq_blocks m) block;
     Some (of_nat GPR_MEMQ_BYTES_PER_METADATA_ITEM_V * metadata_size b + of_nat GPR_MEMQ_UNIT_OVERHEAD_V)
   }"

text \<open>The address of a metadata word, which the code writes out in both accessors.\<close>

definition metadata_addr :: "gpr_memq_block \<Rightarrow> ptr \<Rightarrow> u32 \<Rightarrow> addr option" where
  "metadata_addr b mem_ptr index = do {
     p \<leftarrow> mem_ptr;
     let off = unat (metadata_size b - index) * GPR_MEMQ_BYTES_PER_METADATA_ITEM_V;
     if p < off then None else Some (p - off)
   }"

definition gpr_memq_node_set_metadata ::
    "'a gpr_memq_mem_scheme \<Rightarrow> ptr \<Rightarrow> ptr \<Rightarrow> u32 \<Rightarrow> u32 \<Rightarrow> (u32 \<times> 'a gpr_memq_mem_scheme) option" where
  "gpr_memq_node_set_metadata m block mem_ptr index v = do {
     b \<leftarrow> load (mq_blocks m) block;
     if metadata_size b \<le> index then Some (AR_EBADPARAM, m)
     else do {
       a \<leftarrow> metadata_addr b mem_ptr index;
       ws \<leftarrow> modify (mq_words m) (Some a) (\<lambda>_. v);
       Some (AR_EOK, m\<lparr>mq_words := ws\<rparr>)
     }
   }"

text \<open>The second component is the value written to the caller's variable, if one is.\<close>

definition gpr_memq_node_get_metadata ::
    "'a gpr_memq_mem_scheme \<Rightarrow> ptr \<Rightarrow> ptr \<Rightarrow> u32 \<Rightarrow> (u32 \<times> u32 option) option" where
  "gpr_memq_node_get_metadata m block mem_ptr index = do {
     b \<leftarrow> load (mq_blocks m) block;
     if metadata_size b \<le> index then Some (AR_EBADPARAM, None)
     else do {
       a \<leftarrow> metadata_addr b mem_ptr index;
       w \<leftarrow> mq_words m a;
       Some (AR_EOK, Some w)
     }
   }"

subsection \<open>Allocation\<close>

text \<open>The loop from index \<open>i\<close> with \<open>k\<close> entries to go; the result is the return value and the counts.\<close>

fun md_scan :: "u32 list \<Rightarrow> u32 list \<Rightarrow> u32 \<Rightarrow> nat \<Rightarrow> nat \<Rightarrow> (u32 \<times> u32 list) option" where
  "md_scan ids counts metadata i 0 = Some (1, counts)"
| "md_scan ids counts metadata i (Suc k) = do {
     x \<leftarrow> arr_at ids i;
     if x = metadata
     then do { c \<leftarrow> arr_at counts i; Some (0, counts[i := c + 1]) }
     else md_scan ids counts metadata (Suc i) k
   }"

definition gpr_memq_is_metadata_unique :: "u32 list \<Rightarrow> u32 list \<Rightarrow> u32 \<Rightarrow> u32 \<Rightarrow> (u32 \<times> u32 list) option" where
  "gpr_memq_is_metadata_unique ids counts total_unique_mds metadata = md_scan ids counts metadata 0 (unat total_unique_mds)"

text \<open>
  The loop over all units that counts the packets of every holder, with \<open>k\<close> units to go. The
  variable \<open>metadata\<close> keeps its value when the block has no metadata.
\<close>

fun oom_loop :: "'a gpr_memq_mem_scheme \<Rightarrow> ptr \<Rightarrow> gpr_memq_block \<Rightarrow> addr \<Rightarrow> u32 \<Rightarrow> u32 \<Rightarrow> u32 list \<Rightarrow> u32 list \<Rightarrow> nat
    \<Rightarrow> (u32 \<times> u32 list \<times> u32 list) option" where
  "oom_loop m block b mem_ptr metadata uniq ids counts 0 = Some (uniq, ids, counts)"
| "oom_loop m block b mem_ptr metadata uniq ids counts (Suc k) = do {
     (_, r) \<leftarrow> gpr_memq_node_get_metadata m block (Some mem_ptr) 0;
     let metadata = (case r of None \<Rightarrow> metadata | Some v \<Rightarrow> v);
     let mem_ptr = mem_ptr + unat (unit_size b);
     (is_new, counts) \<leftarrow> gpr_memq_is_metadata_unique ids counts uniq metadata;
     if is_new \<noteq> 0
     then (if unat uniq < length ids \<and> unat uniq < length counts
           then oom_loop m block b mem_ptr metadata (uniq + 1) (ids[unat uniq := metadata]) (counts[unat uniq := 1]) k
           else None)
     else oom_loop m block b mem_ptr metadata uniq ids counts k
   }"

definition gpr_memq_alloc :: "'a gpr_memq_mem_scheme \<Rightarrow> ptr \<Rightarrow> (ptr \<times> 'a gpr_memq_mem_scheme) option" where
  "gpr_memq_alloc m block = do {
     (rc, node, m) \<leftarrow> gpr_list_remove_head m block True;
     if rc = AR_EOK
     then do {
       a \<leftarrow> node;
       ov \<leftarrow> gpr_memq_size_of_metadata_and_overhead m block;
       Some (Some (a + unat ov), m)
     }
     else do {
       b \<leftarrow> load (mq_blocks m) block;
       ids \<leftarrow> unique_metadata_ids b;
       ids \<leftarrow> set_words ids (unat (total_units b)) 0xFFFFFFFF;
       counts \<leftarrow> unique_metadata_counts b;
       counts \<leftarrow> set_words counts (unat (total_units b)) 0;
       ov \<leftarrow> gpr_memq_size_of_metadata_and_overhead m block;
       (_, ids, counts) \<leftarrow> oom_loop m block b (base_addr b + unat ov) 0 0 ids counts (unat (total_units b));
       bs \<leftarrow> modify (mq_blocks m) block (\<lambda>b. b\<lparr>unique_metadata_ids := Some ids, unique_metadata_counts := Some counts\<rparr>);
       Some (None, m\<lparr>mq_blocks := bs\<rparr>)
     }
   }"

text \<open>A packet that is refused is only reported in a message.\<close>

definition gpr_memq_free :: "'a gpr_memq_mem_scheme \<Rightarrow> ptr \<Rightarrow> ptr \<Rightarrow> 'a gpr_memq_mem_scheme option" where
  "gpr_memq_free m block data_ptr =
    (case data_ptr of
       None \<Rightarrow> Some m
     | Some d \<Rightarrow>
         if block = None then Some m
         else do {
           ov \<leftarrow> gpr_memq_size_of_metadata_and_overhead m block;
           if d < unat ov then None
           else do {
             (_, m) \<leftarrow> gpr_list_add_tail m block (Some (d - unat ov));
             Some m
           }
         })"

end
