(* ===== verification/Gpr_Memq_Proofs.thy ===== *)
theory Gpr_Memq_Proofs
  imports Gpr_Memq
begin

text \<open>
  Correctness of the router's packet memory. The invariant \<open>memq_inv\<close> says that the free list
  holds units of the block, and every other unit is a node of its own. It is established by
  the initialisation, which cuts the memory into units, and kept by allocation and freeing,
  which make the block an allocator in the sense of the contract \<open>node_allocator\<close>. When
  nothing is free, the analysis counts the packets of every holder.
\<close>

subsection \<open>Counting the holders of packets\<close>

text \<open>After the values \<open>vs\<close>: the first \<open>u\<close> identifiers are those values, each once, with their numbers.\<close>

definition tallied :: "u32 list \<Rightarrow> nat \<Rightarrow> u32 list \<Rightarrow> u32 list \<Rightarrow> bool" where
  "tallied vs u ids counts \<longleftrightarrow> u \<le> length ids \<and> length counts = length ids \<and> distinct (take u ids) \<and> set (take u ids) = set vs
     \<and> (\<forall>i < u. counts ! i = of_nat (count_list vs (ids ! i)))"

lemma tallied_bound: "tallied vs u ids counts \<Longrightarrow> u \<le> length vs"
proof -
  assume "tallied vs u ids counts"
  then have "distinct (take u ids)" "length (take u ids) = u" "set (take u ids) = set vs"
    by (simp_all add: tallied_def)
  then have "u = card (set vs)" using distinct_card by metis
  then show ?thesis using card_length by metis
qed

lemma md_scan_cases:
  assumes "i + k \<le> length ids" "length counts = length ids"
  shows "(\<forall>j. i \<le> j \<and> j < i + k \<longrightarrow> ids ! j \<noteq> v) \<and> md_scan ids counts v i k = Some (1, counts)
    \<or> (\<exists>j. i \<le> j \<and> j < i + k \<and> ids ! j = v \<and> md_scan ids counts v i k = Some (0, counts[j := counts ! j + 1]))"
  using assms
proof (induction k arbitrary: i)
  case 0
  then show ?case by auto
next
  case (Suc k)
  have i: "arr_at ids i = Some (ids ! i)" "arr_at counts i = Some (counts ! i)"
    using Suc.prems by (simp_all add: arr_at_def)
  show ?case
  proof (cases "ids ! i = v")
    case True
    then show ?thesis using i by (intro disjI2 exI [of _ i]) simp
  next
    case False
    then have s: "md_scan ids counts v i (Suc k) = md_scan ids counts v (Suc i) k" using i by simp
    from Suc.IH [of "Suc i"] Suc.prems consider
        (n) "\<forall>j. Suc i \<le> j \<and> j < Suc i + k \<longrightarrow> ids ! j \<noteq> v" "md_scan ids counts v (Suc i) k = Some (1, counts)"
      | (y) j where "Suc i \<le> j" "j < Suc i + k" "ids ! j = v"
          "md_scan ids counts v (Suc i) k = Some (0, counts[j := counts ! j + 1])" by auto
    then show ?thesis
    proof cases
      case n
      have "ids ! j \<noteq> v" if "i \<le> j" "j < i + Suc k" for j
        using n(1) False that by (cases "j = i") auto
      then show ?thesis using s n(2) by simp
    next
      case y
      then show ?thesis using s by (intro disjI2 exI [of _ j]) simp
    qed
  qed
qed

lemma tallied_known:
  assumes "tallied vs u ids counts" "j < u" "ids ! j = v"
  shows "tallied (vs @ [v]) u ids (counts[j := counts ! j + 1])"
proof -
  have t: "u \<le> length ids" "length counts = length ids" "distinct (take u ids)" "set (take u ids) = set vs"
      "\<And>i. i < u \<Longrightarrow> counts ! i = of_nat (count_list vs (ids ! i))"
    using assms(1) by (simp_all add: tallied_def)
  have j: "j < length (take u ids)" using t(1) assms(2) by simp
  have "v \<in> set (take u ids)" using nth_mem [OF j] assms(2,3) by simp
  then have v: "v \<in> set vs" using t(4) by simp
  have "counts[j := counts ! j + 1] ! i = of_nat (count_list (vs @ [v]) (ids ! i))" if i: "i < u" for i
  proof (cases "i = j")
    case True
    then show ?thesis using t(1,2) t(5) [OF assms(2)] assms(2,3) by simp
  next
    case False
    have "take u ids ! i \<noteq> take u ids ! j"
      using False t(1,3) i assms(2) by (subst nth_eq_iff_index_eq) simp_all
    then show ?thesis using False t(5) [OF i] i assms(2,3) by simp
  qed
  then show ?thesis using t(1-4) v by (simp add: tallied_def insert_absorb)
qed

lemma tallied_new:
  assumes "tallied vs u ids counts" "u < length ids" "\<forall>j < u. ids ! j \<noteq> v"
  shows "tallied (vs @ [v]) (Suc u) (ids[u := v]) (counts[u := 1])"
proof -
  have t: "length counts = length ids" "distinct (take u ids)" "set (take u ids) = set vs"
      "\<And>i. i < u \<Longrightarrow> counts ! i = of_nat (count_list vs (ids ! i))"
    using assms(1) by (simp_all add: tallied_def)
  have "v \<notin> set (take u ids)" using assms(2,3) by (auto simp: in_set_conv_nth)
  then have v: "v \<notin> set vs" using t(3) by simp
  have tk: "take (Suc u) (ids[u := v]) = take u ids @ [v]"
    using assms(2) by (simp add: take_Suc_conv_app_nth)
  have "counts[u := 1] ! i = of_nat (count_list (vs @ [v]) (ids[u := v] ! i))" if "i < Suc u" for i
  proof (cases "i = u")
    case True
    then show ?thesis using assms(2) t(1) v by (simp add: count_notin)
  next
    case False
    then have "i < u" using that by simp
    then show ?thesis using t(4) [of i] assms(3) by auto
  qed
  then show ?thesis using assms(2) t v by (simp add: tallied_def tk)
qed

subsection \<open>Units of a block\<close>

definition units :: "gpr_memq_block \<Rightarrow> addr list" where
  "units B = map (\<lambda>k. base_addr B + k * unat (unit_size B)) [0..<unat (total_units B)]"

definition overhead :: "gpr_memq_block \<Rightarrow> nat" where
  "overhead B = GPR_MEMQ_UNIT_OVERHEAD_V + GPR_MEMQ_BYTES_PER_METADATA_ITEM_V * unat (metadata_size B)"

text \<open>The invariant of the block at \<open>b\<close>.\<close>

definition block_ok :: "addr \<Rightarrow> gpr_memq_block \<Rightarrow> bool" where [inv_defs]:
  "block_ok b B \<longleftrightarrow> overhead B \<le> unat (unit_size B) \<and> b \<notin> set (units B)
     \<and> map_option length (unique_metadata_ids B) = Some (unat (total_units B))
     \<and> map_option length (unique_metadata_counts B) = Some (unat (total_units B))"

definition words_owned :: "gpr_memq_block \<Rightarrow> u32 store \<Rightarrow> bool" where [inv_defs]:
  "words_owned B ws \<longleftrightarrow> (\<forall>a \<in> set (units B). \<forall>i < unat (metadata_size B).
     a + GPR_MEMQ_UNIT_OVERHEAD_V + GPR_MEMQ_BYTES_PER_METADATA_ITEM_V * i \<in> dom ws)"

definition free_units :: "'a gpr_memq_mem_scheme \<Rightarrow> addr \<Rightarrow> gpr_memq_block \<Rightarrow> addr list \<Rightarrow> bool" where [inv_defs]:
  "free_units m b B free \<longleftrightarrow> glist m b free \<and> set free \<subseteq> set (units B)
     \<and> (\<forall>a \<in> set (units B) - set free. ring (gl_nodes m) [a])"

definition memq_inv :: "'a gpr_memq_mem_scheme \<Rightarrow> addr \<Rightarrow> bool" where [inv_defs]:
  "memq_inv m b \<longleftrightarrow> (case mq_blocks m b of None \<Rightarrow> False
     | Some B \<Rightarrow> block_ok b B \<and> words_owned B (mq_words m) \<and> secure_list m b \<and> (\<exists>free. free_units m b B free))"

text \<open>The packets that are handed out: the units that are alone, by the address the client has.\<close>

definition memq_in_use :: "'a gpr_memq_mem_scheme \<Rightarrow> addr \<Rightarrow> addr set" where
  "memq_in_use m b = (case mq_blocks m b of None \<Rightarrow> {}
     | Some B \<Rightarrow> {a + overhead B | a. a \<in> set (units B) \<and> ring (gl_nodes m) [a]})"

lemma overhead_eq:
  assumes "mq_blocks m b = Some B" "block_ok b B"
  shows "gpr_memq_size_of_metadata_and_overhead m (Some b) = Some (of_nat (overhead B))"
    and "unat (of_nat (overhead B) :: u32) = overhead B"
proof -
  show "gpr_memq_size_of_metadata_and_overhead m (Some b) = Some (of_nat (overhead B))"
    using assms(1) by (simp add: gpr_memq_size_of_metadata_and_overhead_def overhead_def)
  have "overhead B < 2 ^ 32"
    using assms(2) unat_lt32 [of "unit_size B"] by (simp add: block_ok_def)
  then show "unat (of_nat (overhead B) :: u32) = overhead B" by (rule unat_of_nat_lt)
qed

lemma free_not_alone:
  assumes "free_units m b B free" "a \<in> set free"
  shows "\<not> ring (gl_nodes m) [a]"
  using ring_member_linked(2) [OF glist_ring, of m b free a] assms by (simp add: free_units_def ring_single)

lemma in_use_eq:
  assumes "mq_blocks m b = Some B" "free_units m b B free"
  shows "memq_in_use m b = (\<lambda>a. a + overhead B) ` (set (units B) - set free)"
proof -
  have "{a. a \<in> set (units B) \<and> ring (gl_nodes m) [a]} = set (units B) - set free"
    using free_not_alone [OF assms(2)] assms(2) by (auto simp: free_units_def)
  then show ?thesis using assms(1) by (auto simp: memq_in_use_def)
qed

lemma memq_invI:
  assumes "mq_blocks m b = Some B" "block_ok b B" "words_owned B (mq_words m)" "secure_list m b" "free_units m b B free"
  shows "memq_inv m b"
  using assms by (auto simp: memq_inv_def)

lemma memq_invD:
  assumes "memq_inv m b"
  shows "\<exists>B free. mq_blocks m b = Some B \<and> block_ok b B \<and> words_owned B (mq_words m) \<and> secure_list m b \<and> free_units m b B free"
  using assms by (auto simp: memq_inv_def split: option.splits)

lemma list_frame_memq:
  assumes "list_frame S l m m'"
  shows "mq_blocks m' = mq_blocks m" "mq_words m' = mq_words m" "secure_list m' l = secure_list m l"
    "dom (gl_nodes m') = dom (gl_nodes m)"
  using assms by (auto simp: list_frame_def)

subsection \<open>Allocation and freeing\<close>

lemma free_units_pop:
  assumes "free_units m b B (a # xs)" "glist m' b xs" "ring (gl_nodes m') [a]" "list_frame (set (b # a # xs)) b m m'" "b \<notin> set (units B)"
  shows "free_units m' b B xs"
proof -
  have "ring (gl_nodes m') [c]" if "c \<in> set (units B) - set xs" for c
  proof (cases "c = a")
    case False
    then have "c \<notin> set (b # a # xs)" "ring (gl_nodes m) [c]" using that assms(1,5) by (auto simp: free_units_def)
    then show ?thesis using list_frame_ring [OF assms(4), of "[c]"] by simp
  qed (use assms(3) in simp)
  then show ?thesis using assms(1,2) by (simp add: free_units_def)
qed

lemma free_units_push:
  assumes "free_units m b B xs" "a \<in> set (units B)" "glist m' b (xs @ [a])" "list_frame (set (b # xs @ [a])) b m m'" "b \<notin> set (units B)"
  shows "free_units m' b B (xs @ [a])"
proof -
  have "ring (gl_nodes m') [c]" if "c \<in> set (units B) - set (xs @ [a])" for c
  proof -
    have "c \<notin> set (b # xs @ [a])" "ring (gl_nodes m) [c]" using that assms(1,5) by (auto simp: free_units_def)
    then show ?thesis using list_frame_ring [OF assms(4), of "[c]"] by simp
  qed
  then show ?thesis using assms(1,2,3) by (simp add: free_units_def)
qed

lemma alloc_some:
  assumes "mq_blocks m b = Some B" "block_ok b B" "words_owned B (mq_words m)" "secure_list m b" "free_units m b B (a # xs)"
  shows "\<exists>m'. gpr_memq_alloc m (Some b) = Some (Some (a + overhead B), m') \<and> mq_blocks m' b = Some B \<and> mq_words m' = mq_words m
    \<and> secure_list m' b \<and> free_units m' b B xs \<and> list_frame (insert b (set (units B))) b m m'"
proof -
  have g: "glist m b (a # xs)" and nb: "b \<notin> set (units B)" using assms(2,5) by (simp_all add: free_units_def block_ok_def)
  obtain m' where m': "gpr_list_remove_head m (Some b) True = Some (AR_EOK, Some a, m')" "glist m' b xs"
      "ring (gl_nodes m') [a]" "list_frame (set (b # a # xs)) b m m'"
    using remove_head_ok [OF g, of True] by auto
  note f = list_frame_memq [OF m'(4)]
  have B': "mq_blocks m' b = Some B" using f(1) assms(1) by simp
  have "free_units m' b B xs" by (rule free_units_pop [OF assms(5) m'(2,3,4) nb])
  moreover have "gpr_memq_alloc m (Some b) = Some (Some (a + overhead B), m')"
    using m'(1) overhead_eq [OF B' assms(2)] by (simp add: gpr_memq_alloc_def)
  moreover have "list_frame (insert b (set (units B))) b m m'"
    using assms(5) by (intro list_frame_mono [OF m'(4)]) (auto simp: free_units_def)
  ultimately show ?thesis using B' f(2,3) assms(4) by (intro exI [of _ m']) simp
qed

lemma free_some:
  assumes "mq_blocks m b = Some B" "block_ok b B" "words_owned B (mq_words m)" "secure_list m b" "free_units m b B xs"
    and "a \<in> set (units B) - set xs"
  shows "\<exists>m'. gpr_memq_free m (Some b) (Some (a + overhead B)) = Some m' \<and> mq_blocks m' b = Some B \<and> mq_words m' = mq_words m
    \<and> secure_list m' b \<and> free_units m' b B (xs @ [a]) \<and> list_frame (insert b (set (units B))) b m m'"
proof -
  have g: "glist m b xs" "ring (gl_nodes m) [a]" and nb: "b \<notin> set (units B)"
    using assms(2,5,6) by (simp_all add: free_units_def block_ok_def)
  have a: "a \<in> dom (gl_nodes m)" "a \<notin> set (b # xs)" using ring_dom [OF g(2)] assms(6) nb by auto
  obtain m' where m': "gpr_list_add_tail m (Some b) (Some a) = Some (AR_EOK, m')" "glist m' b (xs @ [a])"
      "list_frame (set (b # xs @ [a])) b m m'"
    using add_tail_ok [OF g(1) a] g(2) by blast
  note f = list_frame_memq [OF m'(3)]
  have "free_units m' b B (xs @ [a])" using assms(6) by (intro free_units_push [OF assms(5) _ m'(2,3) nb]) simp
  moreover have "gpr_memq_free m (Some b) (Some (a + overhead B)) = Some m'"
    using m'(1) overhead_eq [OF assms(1,2)] by (simp add: gpr_memq_free_def)
  moreover have "list_frame (insert b (set (units B))) b m m'"
    using assms(5,6) by (intro list_frame_mono [OF m'(3)]) (auto simp: free_units_def)
  ultimately show ?thesis using f assms(1,4) by (intro exI [of _ m']) simp
qed

text \<open>Freeing a packet that is free already is refused without any effect.\<close>

lemma free_twice:
  assumes "mq_blocks m b = Some B" "block_ok b B" "secure_list m b" "free_units m b B xs" "a \<in> set xs"
  shows "gpr_memq_free m (Some b) (Some (a + overhead B)) = Some m"
proof -
  have g: "glist m b xs" using assms(4) by (simp add: free_units_def)
  have "a \<in> dom (gl_nodes m)" using glist_dom [OF g] assms(5) by auto
  then have "gpr_list_add_tail m (Some b) (Some a) = Some (AR_EFAILED, m)"
    using free_not_alone [OF assms(4,5)] add_tail_refused [OF g assms(3)] by blast
  then show ?thesis using overhead_eq [OF assms(1,2)] by (simp add: gpr_memq_free_def)
qed

subsection \<open>The analysis when nothing is free\<close>

text \<open>The holder the code reads for the unit at \<open>a\<close>; 0 when the block has no metadata.\<close>

definition holder :: "gpr_memq_block \<Rightarrow> u32 store \<Rightarrow> addr \<Rightarrow> u32" where
  "holder B ws a = (if metadata_size B = 0 then 0 else the (ws (a + GPR_MEMQ_UNIT_OVERHEAD_V)))"

lemma get_holder:
  assumes "mq_blocks m b = Some B" "words_owned B (mq_words m)" "a \<in> set (units B)"
  shows "gpr_memq_node_get_metadata m (Some b) (Some (a + overhead B)) 0
    = Some (if metadata_size B = 0 then (AR_EBADPARAM, None) else (AR_EOK, Some (holder B (mq_words m) a)))"
proof (cases "metadata_size B = 0")
  case True
  then show ?thesis using assms(1) by (simp add: gpr_memq_node_get_metadata_def)
next
  case False
  then have "0 < unat (metadata_size B)" by (simp add: unat_gt_0)
  then have "a + GPR_MEMQ_UNIT_OVERHEAD_V \<in> dom (mq_words m)"
    using assms(2,3) by (fastforce simp: words_owned_def)
  moreover have "metadata_addr B (Some (a + overhead B)) 0 = Some (a + GPR_MEMQ_UNIT_OVERHEAD_V)"
    by (simp add: metadata_addr_def overhead_def)
  ultimately show ?thesis using False assms(1) by (auto simp: gpr_memq_node_get_metadata_def holder_def)
qed

text \<open>The unit after a unit.\<close>

lemma units_nth: "k < unat (total_units B) \<Longrightarrow> units B ! k = base_addr B + k * unat (unit_size B)"
  by (simp add: units_def)

lemma length_units [simp]: "length (units B) = unat (total_units B)"
  by (simp add: units_def)

lemma oom_loop_ok:
  assumes B: "mq_blocks m b = Some B" "words_owned B (mq_words m)"
    and "j + k = unat (total_units B)" "length ids = unat (total_units B)"
    and "tallied (map (holder B (mq_words m)) (take j (units B))) (unat u) ids counts"
    and "metadata_size B = 0 \<longrightarrow> md = 0"
  shows "\<exists>u' ids' counts'. oom_loop m (Some b) B (base_addr B + j * unat (unit_size B) + overhead B) md u ids counts k
      = Some (u', ids', counts') \<and> length ids' = length ids
    \<and> tallied (map (holder B (mq_words m)) (units B)) (unat u') ids' counts'"
  using assms(3-)
proof (induction k arbitrary: j md u ids counts)
  case 0
  then show ?case by simp
next
  case (Suc k)
  let ?a = "base_addr B + j * unat (unit_size B)"
  let ?v = "holder B (mq_words m) ?a"
  let ?vs = "map (holder B (mq_words m)) (take j (units B))"
  have j: "j < unat (total_units B)" using Suc.prems(1) by simp
  then have a: "?a = units B ! j" "?a \<in> set (units B)"
    using units_nth [OF j] nth_mem [of j "units B"] by simp_all
  have vs: "map (holder B (mq_words m)) (take (Suc j) (units B)) = ?vs @ [?v]"
    using j a(1) by (simp add: take_Suc_conv_app_nth)
  have ub: "unat u \<le> length ids" "length counts = length ids" using Suc.prems(3) by (simp_all add: tallied_def)
  have uj: "unat u \<le> j" using tallied_bound [OF Suc.prems(3)] j by simp
  define md' where "md' = (case snd (if metadata_size B = 0 then (AR_EBADPARAM, None) else (AR_EOK, Some ?v)) of None \<Rightarrow> md | Some v \<Rightarrow> v)"
  have md: "md' = ?v" "metadata_size B = 0 \<longrightarrow> md' = 0"
    using Suc.prems(4) by (simp_all add: md'_def holder_def)
  have p: "?a + overhead B + unat (unit_size B) = base_addr B + Suc j * unat (unit_size B) + overhead B" by simp
  have step: "oom_loop m (Some b) B (?a + overhead B) md u ids counts (Suc k) = do {
       (w, counts) \<leftarrow> gpr_memq_is_metadata_unique ids counts u ?v;
       if w \<noteq> 0
       then (if unat u < length ids \<and> unat u < length counts
             then oom_loop m (Some b) B (base_addr B + Suc j * unat (unit_size B) + overhead B) ?v (u + 1) (ids[unat u := ?v]) (counts[unat u := 1]) k
             else None)
       else oom_loop m (Some b) B (base_addr B + Suc j * unat (unit_size B) + overhead B) ?v u ids counts k }"
    unfolding p [symmetric] using get_holder [OF B a(2)] md(1)
    by (cases "metadata_size B = 0") (simp_all add: md'_def Let_def cong: if_cong)
  have sj: "Suc j + k = unat (total_units B)" using Suc.prems(1) by simp
  have mz: "metadata_size B = 0 \<longrightarrow> ?v = 0" using md by simp
  from md_scan_cases [of 0 "unat u" ids counts ?v] ub consider
      (new) "\<forall>i < unat u. ids ! i \<noteq> ?v" "md_scan ids counts ?v 0 (unat u) = Some (1, counts)"
    | (old) i where "i < unat u" "ids ! i = ?v" "md_scan ids counts ?v 0 (unat u) = Some (0, counts[i := counts ! i + 1])"
    by auto
  then show ?case
  proof cases
    case new
    have lt: "unat u < length ids" using uj j Suc.prems(2) by simp
    have s: "unat (u + 1) = Suc (unat u)"
    proof -
      have "Suc (unat u) < 2 ^ 32" using lt Suc.prems(2) unat_lt32 [of "total_units B"] by simp
      then show ?thesis by (simp add: unat_word_ariths)
    qed
    have "tallied (map (holder B (mq_words m)) (take (Suc j) (units B))) (unat (u + 1)) (ids[unat u := ?v]) (counts[unat u := 1])"
      unfolding vs s by (rule tallied_new [OF Suc.prems(3) lt new(1)])
    from Suc.IH [OF sj _ this mz] show ?thesis
      using new(2) lt ub(2) Suc.prems(2) unfolding step gpr_memq_is_metadata_unique_def by simp
  next
    case old
    have "tallied (map (holder B (mq_words m)) (take (Suc j) (units B))) (unat u) ids (counts[i := counts ! i + 1])"
      unfolding vs by (rule tallied_known [OF Suc.prems(3) old(1,2)])
    from Suc.IH [OF sj Suc.prems(2) this mz] show ?thesis
      using old(3) unfolding step gpr_memq_is_metadata_unique_def by simp
  qed
qed

lemma alloc_none:
  assumes "mq_blocks m b = Some B" "block_ok b B" "words_owned B (mq_words m)" "free_units m b B []"
  shows "\<exists>u ids counts. gpr_memq_alloc m (Some b)
      = Some (None, m\<lparr>mq_blocks := (mq_blocks m)(b \<mapsto> B\<lparr>unique_metadata_ids := Some ids, unique_metadata_counts := Some counts\<rparr>)\<rparr>)
    \<and> length ids = unat (total_units B) \<and> tallied (map (holder B (mq_words m)) (units B)) u ids counts"
proof -
  let ?n = "unat (total_units B)"
  obtain ids counts where l: "unique_metadata_ids B = Some ids" "length ids = ?n" "unique_metadata_counts B = Some counts" "length counts = ?n"
    using assms(2) by (auto simp: block_ok_def)
  let ?ids = "replicate ?n (0xFFFFFFFF :: u32)" and ?counts = "replicate ?n (0 :: u32)"
  have "tallied (map (holder B (mq_words m)) (take 0 (units B))) (unat (0 :: u32)) ?ids ?counts" by (simp add: tallied_def)
  from oom_loop_ok [OF assms(1,3) _ _ this, of ?n 0] obtain u ids' counts' where
    o: "oom_loop m (Some b) B (base_addr B + overhead B) 0 0 ?ids ?counts ?n = Some (u, ids', counts')"
      "length ids' = ?n" "tallied (map (holder B (mq_words m)) (units B)) (unat u) ids' counts'" by auto
  have g: "glist m b []" using assms(4) by (simp add: free_units_def)
  have "gpr_memq_alloc m (Some b)
      = Some (None, m\<lparr>mq_blocks := (mq_blocks m)(b \<mapsto> B\<lparr>unique_metadata_ids := Some ids', unique_metadata_counts := Some counts'\<rparr>)\<rparr>)"
    using remove_head_empty [OF g, of True] assms(1) l overhead_eq [OF assms(1,2)] o(1)
    by (simp add: gpr_memq_alloc_def set_words_def modify_Some)
  then show ?thesis using o(2,3) by blast
qed

subsection \<open>Blocks that an operation on another block does not touch\<close>

lemma memq_inv_other:
  assumes "memq_inv m k" "mq_blocks m k = Some C" "mq_blocks m' k = Some C" "gl_lists m' k = gl_lists m k"
    and "\<And>x. x \<in> insert k (set (units C)) \<Longrightarrow> gl_nodes m' x = gl_nodes m x" "dom (mq_words m) \<subseteq> dom (mq_words m')"
  shows "memq_inv m' k" "memq_in_use m' k = memq_in_use m k"
proof -
  obtain free where I: "block_ok k C" "words_owned C (mq_words m)" "secure_list m k" "free_units m k C free"
    using memq_invD [OF assms(1)] assms(2) by auto
  have r: "ring (gl_nodes m') xs = ring (gl_nodes m) xs" if "set xs \<subseteq> insert k (set (units C))" for xs
    using that assms(5) by (intro ring_frame) blast
  have "set (k # free) \<subseteq> insert k (set (units C))" using I(4) by (auto simp: free_units_def)
  then have "free_units m' k C free" using I(4) assms(4) r [of "k # free"] r by (simp add: free_units_def glist_def)
  moreover have "words_owned C (mq_words m')" using I(2) assms(6) unfolding words_owned_def by blast
  moreover have "secure_list m' k" using I(3) assms(4) by (simp add: secure_list_def)
  ultimately show "memq_inv m' k" using I(1) assms(3) by (intro memq_invI [of m' k C free])
  show "memq_in_use m' k = memq_in_use m k" using assms(2,3) r by (auto simp: memq_in_use_def)
qed

subsection \<open>Initialisation\<close>

definition cells :: "addr \<Rightarrow> nat \<Rightarrow> nat \<Rightarrow> addr list" where
  "cells base us n = map (\<lambda>k. base + k * us) [0..<n]"

lemma cells_Suc: "cells base us (Suc n) = base # cells (base + us) us n"
proof (rule nth_equalityI)
  fix i
  assume "i < length (cells base us (Suc n))"
  then show "cells base us (Suc n) ! i = (base # cells (base + us) us n) ! i"
    by (cases i) (simp_all add: cells_def del: upt_Suc)
qed (simp add: cells_def)

lemma cells_0 [simp]: "cells base us 0 = []"
  by (simp add: cells_def)

lemma cells_disjoint:
  fixes i j us base :: nat
  assumes "i < j"
  shows "base + i * us + us \<le> base + j * us"
proof -
  have "(i + 1) * us \<le> j * us" using assms by (intro mult_le_mono1) simp
  then show ?thesis by simp
qed

lemma distinct_cells: "0 < us \<Longrightarrow> distinct (cells base us n)"
  by (auto simp: cells_def distinct_map inj_on_def)

text \<open>The memory that is left after the last unit is smaller than a unit.\<close>

lemma cells_bounds:
  assumes "a \<in> set (cells base us (hs div us))"
  shows "base \<le> a" "a + us \<le> base + hs"
proof -
  obtain k where k: "a = base + k * us" "k < hs div us"
    using assms unfolding cells_def set_map set_upt by fastforce
  have "base + k * us + us \<le> base + (hs div us) * us" using cells_disjoint [OF k(2)] by simp
  then show "base \<le> a" "a + us \<le> base + hs" using k(1) div_times_less_eq_dividend [of hs us] by linarith+
qed

lemma list_frame_init_node:
  assumes "dom h = dom (gl_nodes m)" "\<forall>x. x \<noteq> a \<longrightarrow> h x = gl_nodes m x"
  shows "list_frame {a} l m (m\<lparr>gl_nodes := h\<rparr>)"
proof -
  have "\<exists>h' ls. m\<lparr>gl_nodes := h\<rparr> = m\<lparr>gl_nodes := h', gl_lists := ls\<rparr>" by (intro exI [of _ h] exI [of _ "gl_lists m"]) simp
  then show ?thesis using assms by (simp add: list_frame_def secure_list_def)
qed

lemma glist_init_node:
  assumes "glist m l xs" "a \<notin> set (l # xs)" "\<forall>x. x \<noteq> a \<longrightarrow> h x = gl_nodes m x"
  shows "glist (m\<lparr>gl_nodes := h\<rparr>) l xs"
proof -
  have "ring h (l # xs) = ring (gl_nodes m) (l # xs)" using assms(2,3) by (intro ring_frame) auto
  then show ?thesis using assms(1) by (simp add: glist_def)
qed

lemma partition_ok:
  assumes "glist m b xs" "secure_list m b" "0 < us" "unat hs div unat us = n"
    and "set (cells base (unat us) n) \<subseteq> dom (gl_nodes m)" "set (b # xs) \<inter> set (cells base (unat us) n) = {}"
  shows "\<exists>m'. memq_partition m (Some b) base hs us = Some (AR_EOK, m') \<and> glist m' b (xs @ cells base (unat us) n)
    \<and> list_frame (set (b # xs @ cells base (unat us) n)) b m m'"
  using assms
proof (induction n arbitrary: m xs base hs)
  case 0
  have "0 < unat us" using 0(3) by (simp add: word_less_nat_alt)
  then have "hs < us" using 0(4) by (simp add: word_less_nat_alt div_eq_0_iff)
  then show ?case using 0(1) list_frame_refl by (subst memq_partition.simps) auto
next
  case (Suc n)
  have u: "0 < unat us" using Suc.prems(3) by (simp add: word_less_nat_alt)
  have le: "unat us \<le> unat hs"
  proof (rule ccontr)
    assume "\<not> unat us \<le> unat hs"
    then have "unat hs div unat us = 0" by simp
    then show False using Suc.prems(4) by simp
  qed
  then have nl: "\<not> hs < us" and d: "unat (hs - us) = unat hs - unat us"
    by (simp_all add: word_less_nat_alt unat_sub word_le_nat_alt)
  have n: "unat (hs - us) div unat us = n" using Suc.prems(4) le u unfolding d by (simp add: le_div_geq)
  have c: "base \<in> dom (gl_nodes m)" "base \<notin> set (b # xs)" "set (cells (base + unat us) (unat us) n) \<subseteq> dom (gl_nodes m)"
      "base \<notin> set (cells (base + unat us) (unat us) n)"
    using Suc.prems(5,6) distinct_cells [OF u, of base "Suc n"] by (simp_all add: cells_Suc)
  obtain h where h: "gpr_list_init_node m (Some base) = Some (AR_EOK, m\<lparr>gl_nodes := h\<rparr>)" "ring h [base]"
      "dom h = dom (gl_nodes m)" "\<forall>x. x \<noteq> base \<longrightarrow> h x = gl_nodes m x"
    using init_node_ok [OF c(1)] by blast
  let ?m = "m\<lparr>gl_nodes := h\<rparr>"
  have f1: "list_frame {base} b m ?m" by (rule list_frame_init_node [OF h(3,4)])
  have s1: "secure_list ?m b" using Suc.prems(2) by (simp add: secure_list_def)
  obtain m2 where m2: "gpr_list_add_tail ?m (Some b) (Some base) = Some (AR_EOK, m2)" "glist m2 b (xs @ [base])"
      "list_frame (set (b # xs @ [base])) b ?m m2"
    using add_tail_ok [OF glist_init_node [OF Suc.prems(1) c(2) h(4)], of base] c(1,2) h(2,3) by auto
  note f2 = list_frame_memq [OF m2(3)]
  have "\<exists>m'. memq_partition m2 (Some b) (base + unat us) (hs - us) us = Some (AR_EOK, m')
      \<and> glist m' b ((xs @ [base]) @ cells (base + unat us) (unat us) n)
      \<and> list_frame (set (b # (xs @ [base]) @ cells (base + unat us) (unat us) n)) b m2 m'"
  proof (rule Suc.IH [OF m2(2) _ Suc.prems(3) n])
    show "secure_list m2 b" using f2(3) s1 by simp
    show "set (cells (base + unat us) (unat us) n) \<subseteq> dom (gl_nodes m2)" using f2(4) h(3) c(3) by simp
    show "set (b # xs @ [base]) \<inter> set (cells (base + unat us) (unat us) n) = {}"
      using Suc.prems(6) c(4) by (auto simp: cells_Suc)
  qed
  then obtain m' where m': "memq_partition m2 (Some b) (base + unat us) (hs - us) us = Some (AR_EOK, m')"
      "glist m' b (xs @ cells base (unat us) (Suc n))" "list_frame (set (b # xs @ cells base (unat us) (Suc n))) b m2 m'"
    by (auto simp: cells_Suc)
  have "list_frame (set (b # xs @ cells base (unat us) (Suc n))) b m m'"
    using list_frame_trans [OF list_frame_trans [OF f1 m2(3)] m'(3)]
    by (rule list_frame_mono) (auto simp: cells_Suc)
  moreover have "memq_partition m (Some b) base hs us = Some (AR_EOK, m')"
    using nl h(1) m2(1) m'(1) by (subst memq_partition.simps) simp
  ultimately show ?case using m'(2) by blast
qed

text \<open>The memory an initialisation needs: the block, and for every unit its node and its metadata words.\<close>

definition memq_raw :: "'a gpr_memq_mem_scheme \<Rightarrow> addr \<Rightarrow> addr \<Rightarrow> u32 \<Rightarrow> u32 \<Rightarrow> u32 \<Rightarrow> bool" where
  "memq_raw m b base hs us ms \<longleftrightarrow> b \<in> dom (gl_nodes m) \<and> b \<in> dom (gl_lists m) \<and> b \<in> dom (mq_blocks m)
     \<and> (\<forall>a \<in> set (cells base (unat us) (unat hs div unat us)). a \<noteq> b \<and> a \<in> dom (gl_nodes m)
          \<and> (\<forall>i < unat ms. a + GPR_MEMQ_UNIT_OVERHEAD_V + GPR_MEMQ_BYTES_PER_METADATA_ITEM_V * i \<in> dom (mq_words m)))"

lemma init_ok:
  assumes "memq_raw m b base hs us ms" "GPR_MEMQ_UNIT_OVERHEAD_V + GPR_MEMQ_BYTES_PER_METADATA_ITEM_V * unat ms \<le> unat us"
    and "lock \<noteq> None" "unlock \<noteq> None"
  shows "\<exists>m' B. gpr_memq_init True True m (Some b) (Some base) hs us ms lock unlock = Some (AR_EOK, m')
    \<and> mq_blocks m' b = Some B \<and> metadata_size B = ms \<and> units B = cells base (unat us) (unat hs div unat us)
    \<and> block_ok b B \<and> words_owned B (mq_words m') \<and> secure_list m' b \<and> free_units m' b B (units B)"
proof -
  let ?n = "unat hs div unat us"
  let ?cs = "cells base (unat us) ?n"
  have raw: "b \<in> dom (gl_nodes m)" "b \<in> dom (gl_lists m)" "set ?cs \<subseteq> dom (gl_nodes m)" "b \<notin> set ?cs"
    using assms(1) by (auto simp: memq_raw_def)
  obtain B0 where B0: "mq_blocks m b = Some B0" using assms(1) by (auto simp: memq_raw_def)
  obtain h L where i: "gpr_list_init m (Some b) lock unlock = Some (AR_EOK, m\<lparr>gl_nodes := h, gl_lists := (gl_lists m)(b \<mapsto> L)\<rparr>)"
      "glist (m\<lparr>gl_nodes := h, gl_lists := (gl_lists m)(b \<mapsto> L)\<rparr>) b []" "en_secure L = True" "dom h = dom (gl_nodes m)"
    using init_internal_ok [OF raw(1,2) assms(3,4), of True] unfolding gpr_list_init_def by blast
  define B1 where "B1 = B0\<lparr>base_addr := base, unit_size := us, metadata_size := ms\<rparr>"
  define m1 where "m1 = m\<lparr>gl_nodes := h, gl_lists := (gl_lists m)(b \<mapsto> L), mq_blocks := (mq_blocks m)(b \<mapsto> B1)\<rparr>"
  have m1: "glist m1 b []" "secure_list m1 b" "set ?cs \<subseteq> dom (gl_nodes m1)" "mq_blocks m1 b = Some B1" "mq_words m1 = mq_words m"
    using i(2,3,4) raw(3) by (simp_all add: m1_def glist_def secure_list_def)
  have "0 < unat us" using assms(2) by simp
  then have us: "0 < us" by (simp add: word_less_nat_alt)
  obtain m2 where m2: "memq_partition m1 (Some b) base hs us = Some (AR_EOK, m2)" "glist m2 b ?cs"
      "list_frame (set (b # ?cs)) b m1 m2"
    using partition_ok [OF m1(1,2) us refl m1(3)] raw(4) by auto
  note f = list_frame_memq [OF m2(3)]
  obtain L2 where L2: "gl_lists m2 b = Some L2" "list_size L2 = of_nat (length ?cs)" using glist_hdr [OF m2(2)] by blast
  have "?n < 2 ^ 32" by (rule le_less_trans [OF div_le_dividend unat_lt32])
  then have sz: "unat (list_size L2) = ?n" using L2(2) unat_of_nat_lt by (simp add: cells_def)
  define B where "B = B1\<lparr>total_units := list_size L2, unique_metadata_ids := Some (replicate ?n 0), unique_metadata_counts := Some (replicate ?n 0)\<rparr>"
  define m3 where "m3 = m2\<lparr>mq_blocks := (mq_blocks m2)(b \<mapsto> B)\<rparr>"
  have len: "\<not> unat us < GPR_MEMQ_BYTES_PER_METADATA_ITEM_V * unat ms" using assms(2) by simp
  have b2: "mq_blocks m2 b = Some B1" using f(1) m1(4) by simp
  have "gpr_memq_init True True m (Some b) (Some base) hs us ms lock unlock = Some (AR_EOK, m3)"
    using assms(3,4) len i(1) B0 m2(1) L2(1) b2 sz
    by (simp add: gpr_memq_init_def modify_Some m1_def [symmetric] B1_def [symmetric] Let_def)
      (simp add: m1_def B1_def m3_def B_def)
  moreover have un: "units B = ?cs" by (simp add: units_def cells_def B_def B1_def sz)
  moreover have "block_ok b B" using assms(2) raw(4) un by (simp add: block_ok_def overhead_def sz) (simp add: B_def B1_def sz)
  moreover have "words_owned B (mq_words m3)"
    using assms(1) un f(2) m1(5) by (simp add: words_owned_def memq_raw_def m3_def B_def B1_def)
  moreover have "secure_list m3 b" using f(3) m1(2) by (simp add: m3_def secure_list_def)
  moreover have "free_units m3 b B (units B)" using m2(2) un by (simp add: free_units_def glist_def m3_def)
  moreover have "metadata_size B = ms" by (simp add: B_def B1_def)
  ultimately show ?thesis by (intro exI [of _ m3] exI [of _ B]) (simp add: m3_def)
qed

subsection \<open>The contract of an allocator\<close>

lemma alloc_law:
  assumes "memq_inv m b"
  shows "\<exists>r m'. gpr_memq_alloc m (Some b) = Some (r, m') \<and> memq_inv m' b \<and>
    (case r of None \<Rightarrow> memq_in_use m' b = memq_in_use m b
     | Some d \<Rightarrow> d \<notin> memq_in_use m b \<and> memq_in_use m' b = insert d (memq_in_use m b))"
proof -
  obtain B free where I: "mq_blocks m b = Some B" "block_ok b B" "words_owned B (mq_words m)" "secure_list m b" "free_units m b B free"
    using memq_invD [OF assms] by blast
  show ?thesis
  proof (cases free)
    case Nil
    then have nf: "free_units m b B []" using I(5) by simp
    obtain u ids counts where a: "gpr_memq_alloc m (Some b)
        = Some (None, m\<lparr>mq_blocks := (mq_blocks m)(b \<mapsto> B\<lparr>unique_metadata_ids := Some ids, unique_metadata_counts := Some counts\<rparr>)\<rparr>)"
        "length ids = unat (total_units B)" "tallied (map (holder B (mq_words m)) (units B)) u ids counts"
      using alloc_none [OF I(1-3) nf] by blast
    define B' where "B' = B\<lparr>unique_metadata_ids := Some ids, unique_metadata_counts := Some counts\<rparr>"
    define m' where "m' = m\<lparr>mq_blocks := (mq_blocks m)(b \<mapsto> B')\<rparr>"
    have b: "mq_blocks m' b = Some B'" "units B' = units B" "overhead B' = overhead B"
      by (simp_all add: m'_def B'_def units_def overhead_def)
    have "length counts = length ids" using a(3) by (simp add: tallied_def)
    then have "block_ok b B'" using I(2) a(2) b(2,3) by (simp add: block_ok_def B'_def)
    moreover have "words_owned B' (mq_words m')" using I(3) b(2) by (simp add: words_owned_def m'_def B'_def)
    moreover have "secure_list m' b" using I(4) by (simp add: secure_list_def m'_def)
    moreover have f': "free_units m' b B' []" using nf b(2) by (simp add: free_units_def glist_def m'_def)
    ultimately have "memq_inv m' b" using b(1) by (intro memq_invI [of m' b B' "[]"])
    moreover have "memq_in_use m' b = memq_in_use m b" using in_use_eq [OF b(1) f'] in_use_eq [OF I(1) nf] b(2,3) by simp
    ultimately show ?thesis using a(1) by (intro exI [of _ None] exI [of _ m']) (simp add: m'_def B'_def)
  next
    case (Cons a xs)
    then have nf: "free_units m b B (a # xs)" using I(5) by simp
    obtain m' where m': "gpr_memq_alloc m (Some b) = Some (Some (a + overhead B), m')" "mq_blocks m' b = Some B"
        "mq_words m' = mq_words m" "secure_list m' b" "free_units m' b B xs"
      using alloc_some [OF I(1-4) nf] by blast
    have "memq_inv m' b" using m' I(2,3) by (intro memq_invI [of m' b B xs]) simp_all
    moreover have "a \<in> set (units B)" "a \<notin> set xs"
      using nf glist_distinct [of m b "a # xs"] by (auto simp: free_units_def)
    then have "memq_in_use m' b = insert (a + overhead B) (memq_in_use m b)" "a + overhead B \<notin> memq_in_use m b"
      unfolding in_use_eq [OF I(1) nf] in_use_eq [OF m'(2,5)] by auto
    ultimately show ?thesis using m'(1) by (intro exI [of _ "Some (a + overhead B)"] exI [of _ m']) simp
  qed
qed

lemma free_law:
  assumes "memq_inv m b" "d \<in> memq_in_use m b"
  shows "\<exists>m'. gpr_memq_free m (Some b) (Some d) = Some m' \<and> memq_inv m' b \<and> memq_in_use m' b = memq_in_use m b - {d}"
proof -
  obtain B free where I: "mq_blocks m b = Some B" "block_ok b B" "words_owned B (mq_words m)" "secure_list m b" "free_units m b B free"
    using memq_invD [OF assms(1)] by blast
  obtain a where a: "d = a + overhead B" "a \<in> set (units B) - set free" using assms(2) in_use_eq [OF I(1,5)] by auto
  obtain m' where m': "gpr_memq_free m (Some b) (Some d) = Some m'" "mq_blocks m' b = Some B"
      "mq_words m' = mq_words m" "secure_list m' b" "free_units m' b B (free @ [a])"
    using free_some [OF I a(2)] a(1) by blast
  have "memq_inv m' b" using m' I(2,3) by (intro memq_invI [of m' b B "free @ [a]"]) simp_all
  moreover have "memq_in_use m' b = memq_in_use m b - {d}"
    unfolding in_use_eq [OF I(1,5)] in_use_eq [OF m'(2,5)] using a(1) by auto
  ultimately show ?thesis using m'(1) by blast
qed

interpretation memq: node_allocator
  "\<lambda>(_ :: unit) m. gpr_memq_alloc m (Some b)" "\<lambda>m d. gpr_memq_free m (Some b) (Some d)" "\<lambda>m. memq_in_use m b"
  "\<lambda>m. memq_inv m b" "\<lambda>_ _. True" for b
  by unfold_locales (auto intro: alloc_law free_law)

subsection \<open>Metadata words\<close>

lemma metadata_addr_eq:
  assumes "i < unat (metadata_size B)"
  shows "metadata_addr B (Some (a + overhead B)) (of_nat i) = Some (a + GPR_MEMQ_UNIT_OVERHEAD_V + GPR_MEMQ_BYTES_PER_METADATA_ITEM_V * i)"
    and "\<not> metadata_size B \<le> of_nat i"
proof -
  have "unat (of_nat i :: u32) = i"
    by (rule unat_of_nat_lt) (rule less_trans [OF assms unat_lt32])
  then obtain w :: u32 where w: "of_nat i = w" "unat w = i" by blast
  have le: "w \<le> metadata_size B" using w(2) assms by (simp add: word_le_nat_alt)
  have u: "unat (metadata_size B - w) = unat (metadata_size B) - i" using unat_sub [OF le] w(2) by simp
  have k: "unat (metadata_size B) = i + (unat (metadata_size B) - i)" using assms by simp
  show "metadata_addr B (Some (a + overhead B)) (of_nat i) = Some (a + GPR_MEMQ_UNIT_OVERHEAD_V + GPR_MEMQ_BYTES_PER_METADATA_ITEM_V * i)"
    using k unfolding metadata_addr_def overhead_def w(1) by (simp add: Let_def u)
  show "\<not> metadata_size B \<le> of_nat i" using assms w by (simp add: word_le_nat_alt)
qed

subsection \<open>Examples\<close>

text \<open>Memory for a block at 1000 with units of 32 bytes in 70 bytes at 2000, each with one metadata word.\<close>

definition ex_memq :: gpr_memq_mem where
  "ex_memq = \<lparr>gl_nodes = (\<lambda>a. if a \<in> {1000, 2000, 2032} then Some \<lparr>next_ptr = None, prev_ptr = None, node_list = None\<rparr> else None),
     gl_lists = [1000 \<mapsto> \<lparr>list_size = 0, lock_fn = None, unlock_fn = None, en_secure = False\<rparr>],
     mq_words = [2024 \<mapsto> 7, 2056 \<mapsto> 7],
     mq_blocks = [1000 \<mapsto> \<lparr>base_addr = 0, total_units = 0, unit_size = 0, metadata_size = 0,
                           unique_metadata_ids = None, unique_metadata_counts = None\<rparr>]\<rparr>"

lemma ex_memq_raw: "memq_raw ex_memq 1000 2000 70 32 1"
  by (simp add: memq_raw_def ex_memq_def cells_def upt_rec domIff)

lemma ex_memq_init:
  "\<exists>m' B. gpr_memq_init True True ex_memq (Some 1000) (Some 2000) 70 32 1 (Some 1) (Some 2) = Some (AR_EOK, m')
    \<and> mq_blocks m' 1000 = Some B \<and> metadata_size B = 1 \<and> units B = [2000, 2032] \<and> block_ok 1000 B \<and> words_owned B (mq_words m') \<and> secure_list m' 1000
    \<and> free_units m' 1000 B [2000, 2032]"
proof -
  have "cells 2000 (unat (32 :: u32)) (unat (70 :: u32) div unat (32 :: u32)) = [2000, 2032]"
    by (simp add: cells_def upt_rec)
  then show ?thesis using init_ok [OF ex_memq_raw, of "Some 1" "Some 2"] by auto
qed

lemma ex_memq_inv: "\<exists>m'. gpr_memq_init True True ex_memq (Some 1000) (Some 2000) 70 32 1 (Some 1) (Some 2) = Some (AR_EOK, m')
    \<and> memq_inv m' 1000"
  using ex_memq_init memq_invI by metis

subsection \<open>Properties\<close>

text \<open>
  C29: initialising a block on memory of \<open>heap_size\<close> bytes whose unit size leaves room for the list node and the
  metadata succeeds and ends: the memory is cut into \<open>heap_size div unit_size\<close> units that do not overlap and lie inside
  it, all of them are free, and no packet is in use.
\<close>

theorem gpr_memq_init_partitions:
  assumes "memq_raw m b base hs us ms" "GPR_MEMQ_UNIT_OVERHEAD_V + GPR_MEMQ_BYTES_PER_METADATA_ITEM_V * unat ms \<le> unat us"
    and "lock \<noteq> None" "unlock \<noteq> None"
  shows "\<exists>m' B. gpr_memq_init True True m (Some b) (Some base) hs us ms lock unlock = Some (AR_EOK, m')
    \<and> memq_inv m' b \<and> memq_in_use m' b = {} \<and> mq_blocks m' b = Some B
    \<and> unat (total_units B) = unat hs div unat us \<and> free_units m' b B (units B)
    \<and> (\<forall>i j. i < j \<and> j < unat (total_units B) \<longrightarrow> units B ! i + unat us \<le> units B ! j)
    \<and> (\<forall>a \<in> set (units B). base \<le> a \<and> a + unat us \<le> base + unat hs)"
proof -
  let ?n = "unat hs div unat us"
  obtain m' B where i: "gpr_memq_init True True m (Some b) (Some base) hs us ms lock unlock = Some (AR_EOK, m')"
      "mq_blocks m' b = Some B" "units B = cells base (unat us) ?n" "block_ok b B" "words_owned B (mq_words m')"
      "secure_list m' b" "free_units m' b B (units B)"
    using init_ok [OF assms] by blast
  have n: "unat (total_units B) = ?n" using length_units [of B] unfolding i(3) by (simp add: cells_def)
  have "units B ! i + unat us \<le> units B ! j" if "i < j" "j < unat (total_units B)" for i j
    unfolding i(3) using that n cells_disjoint [OF that(1), of base "unat us"] by (simp add: cells_def)
  moreover have "base \<le> a \<and> a + unat us \<le> base + unat hs" if "a \<in> set (units B)" for a
    using cells_bounds that unfolding i(3) by blast
  moreover have "memq_in_use m' b = {}" unfolding in_use_eq [OF i(2,7)] by simp
  ultimately show ?thesis using i n memq_invI [OF i(2,4-7)] by blast
qed

theorem gpr_memq_init_partitions_witness:
  "\<exists>m' B. gpr_memq_init True True ex_memq (Some 1000) (Some 2000) 70 32 1 (Some 1) (Some 2) = Some (AR_EOK, m')
    \<and> memq_inv m' 1000 \<and> memq_in_use m' 1000 = {} \<and> mq_blocks m' 1000 = Some B
    \<and> unat (total_units B) = unat (70 :: u32) div unat (32 :: u32) \<and> free_units m' 1000 B (units B)
    \<and> (\<forall>i j. i < j \<and> j < unat (total_units B) \<longrightarrow> units B ! i + unat (32 :: u32) \<le> units B ! j)
    \<and> (\<forall>a \<in> set (units B). 2000 \<le> a \<and> a + unat (32 :: u32) \<le> 2000 + unat (70 :: u32))"
  by (rule gpr_memq_init_partitions [OF ex_memq_raw]) simp_all

text \<open>
  C13: allocation never hands out a packet that is in use, freeing a packet takes exactly it out of use, and
  both keep the invariant; allocation fails only when every unit of the block is in use.
\<close>

theorem gpr_memq_alloc_free:
  assumes "memq_inv m b"
  shows "\<exists>r m'. gpr_memq_alloc m (Some b) = Some (r, m') \<and> memq_inv m' b \<and>
    (case r of
       None \<Rightarrow> memq_in_use m' b = memq_in_use m b
         \<and> (\<exists>B. mq_blocks m b = Some B \<and> memq_in_use m b = (\<lambda>a. a + overhead B) ` set (units B))
     | Some d \<Rightarrow> d \<notin> memq_in_use m b \<and> memq_in_use m' b = insert d (memq_in_use m b)
         \<and> (\<exists>m''. gpr_memq_free m' (Some b) (Some d) = Some m'' \<and> memq_inv m'' b \<and> memq_in_use m'' b = memq_in_use m b))"
proof -
  obtain r m' where a: "gpr_memq_alloc m (Some b) = Some (r, m')" "memq_inv m' b"
      "case r of None \<Rightarrow> memq_in_use m' b = memq_in_use m b
       | Some d \<Rightarrow> d \<notin> memq_in_use m b \<and> memq_in_use m' b = insert d (memq_in_use m b)"
    using alloc_law [OF assms] by blast
  show ?thesis
  proof (cases r)
    case None
    obtain B free where I: "mq_blocks m b = Some B" "block_ok b B" "words_owned B (mq_words m)" "secure_list m b" "free_units m b B free"
      using memq_invD [OF assms] by blast
    have "free = []"
    proof (cases free)
      case (Cons x xs)
      then have "\<exists>d m'. gpr_memq_alloc m (Some b) = Some (Some d, m')" using alloc_some [OF I(1-4)] I(5) by blast
      then show ?thesis using a(1) None by simp
    qed
    then show ?thesis using a None I(1) in_use_eq [OF I(1,5)] by (intro exI [of _ r] exI [of _ m']) simp
  next
    case (Some d)
    then show ?thesis using a memq.get_then_put [OF assms TrueI, of d m'] by (intro exI [of _ r] exI [of _ m']) simp
  qed
qed

theorem gpr_memq_alloc_free_witness:
  "\<exists>m. gpr_memq_init True True ex_memq (Some 1000) (Some 2000) 70 32 1 (Some 1) (Some 2) = Some (AR_EOK, m)
    \<and> (\<exists>r m'. gpr_memq_alloc m (Some 1000) = Some (r, m') \<and> memq_inv m' 1000 \<and>
    (case r of
       None \<Rightarrow> memq_in_use m' 1000 = memq_in_use m 1000
         \<and> (\<exists>B. mq_blocks m 1000 = Some B \<and> memq_in_use m 1000 = (\<lambda>a. a + overhead B) ` set (units B))
     | Some d \<Rightarrow> d \<notin> memq_in_use m 1000 \<and> memq_in_use m' 1000 = insert d (memq_in_use m 1000)
         \<and> (\<exists>m''. gpr_memq_free m' (Some 1000) (Some d) = Some m'' \<and> memq_inv m'' 1000 \<and> memq_in_use m'' 1000 = memq_in_use m 1000)))"
  using ex_memq_inv gpr_memq_alloc_free by blast

text \<open>
  freeing a packet a second time has no effect at all.
\<close>

theorem gpr_memq_double_free:
  assumes "memq_inv m b" "d \<in> memq_in_use m b"
  shows "\<exists>m'. gpr_memq_free m (Some b) (Some d) = Some m' \<and> memq_inv m' b \<and> gpr_memq_free m' (Some b) (Some d) = Some m'"
proof -
  obtain B free where I: "mq_blocks m b = Some B" "block_ok b B" "words_owned B (mq_words m)" "secure_list m b" "free_units m b B free"
    using memq_invD [OF assms(1)] by blast
  obtain a where a: "d = a + overhead B" "a \<in> set (units B) - set free" using assms(2) in_use_eq [OF I(1,5)] by auto
  obtain m' where m': "gpr_memq_free m (Some b) (Some d) = Some m'" "mq_blocks m' b = Some B"
      "mq_words m' = mq_words m" "secure_list m' b" "free_units m' b B (free @ [a])"
    using free_some [OF I a(2)] a(1) by blast
  have "memq_inv m' b" using m' I(2,3) by (intro memq_invI [of m' b B "free @ [a]"]) simp_all
  then show ?thesis using m'(1) free_twice [OF m'(2) I(2) m'(4,5), of a] a(1) by simp
qed

theorem gpr_memq_double_free_witness:
  "\<exists>m d m'. gpr_memq_init True True ex_memq (Some 1000) (Some 2000) 70 32 1 (Some 1) (Some 2) = Some (AR_EOK, m)
    \<and> (\<exists>m1. gpr_memq_alloc m (Some 1000) = Some (Some d, m1) \<and> gpr_memq_free m1 (Some 1000) (Some d) = Some m')
    \<and> gpr_memq_free m' (Some 1000) (Some d) = Some m'"
proof -
  obtain m B where i: "gpr_memq_init True True ex_memq (Some 1000) (Some 2000) 70 32 1 (Some 1) (Some 2) = Some (AR_EOK, m)"
      "mq_blocks m 1000 = Some B" "block_ok 1000 B" "words_owned B (mq_words m)" "secure_list m 1000" "free_units m 1000 B [2000, 2032]"
    using ex_memq_init by blast
  obtain m1 where a: "gpr_memq_alloc m (Some 1000) = Some (Some (2000 + overhead B), m1)" using alloc_some [OF i(2-6)] by blast
  have "memq_inv m1 1000" "2000 + overhead B \<in> memq_in_use m1 1000"
    using memq.got [OF memq_invI [OF i(2-6)] TrueI a] by simp_all
  from gpr_memq_double_free [OF this] show ?thesis using i(1) a by blast
qed

text \<open>
  when nothing is free, allocation fails and leaves a correct account of who holds the packets: the recorded
  holders are exactly the values of the first metadata word of the units, each once, with the number of units that have it.
\<close>

theorem gpr_memq_oom_account:
  assumes "mq_blocks m b = Some B" "block_ok b B" "words_owned B (mq_words m)" "free_units m b B []"
  shows "\<exists>u ids counts m'. gpr_memq_alloc m (Some b) = Some (None, m')
    \<and> mq_blocks m' b = Some (B\<lparr>unique_metadata_ids := Some ids, unique_metadata_counts := Some counts\<rparr>)
    \<and> distinct (take u ids) \<and> set (take u ids) = holder B (mq_words m) ` set (units B)
    \<and> (\<forall>i < u. counts ! i = of_nat (count_list (map (holder B (mq_words m)) (units B)) (ids ! i)))"
proof -
  obtain u ids counts where a: "gpr_memq_alloc m (Some b)
      = Some (None, m\<lparr>mq_blocks := (mq_blocks m)(b \<mapsto> B\<lparr>unique_metadata_ids := Some ids, unique_metadata_counts := Some counts\<rparr>)\<rparr>)"
      "tallied (map (holder B (mq_words m)) (units B)) u ids counts"
    using alloc_none [OF assms] by blast
  show ?thesis using a unfolding tallied_def
    by (intro exI [of _ u] exI [of _ ids] exI [of _ counts] exI conjI) (rule a(1), simp_all)
qed

theorem gpr_memq_oom_account_witness:
  "\<exists>m m2 B u ids counts m'. gpr_memq_init True True ex_memq (Some 1000) (Some 2000) 70 32 1 (Some 1) (Some 2) = Some (AR_EOK, m)
    \<and> (\<exists>d d' m1. gpr_memq_alloc m (Some 1000) = Some (Some d, m1) \<and> gpr_memq_alloc m1 (Some 1000) = Some (Some d', m2))
    \<and> gpr_memq_alloc m2 (Some 1000) = Some (None, m')
    \<and> mq_blocks m' 1000 = Some (B\<lparr>unique_metadata_ids := Some ids, unique_metadata_counts := Some counts\<rparr>)
    \<and> distinct (take u ids) \<and> set (take u ids) = holder B (mq_words m2) ` set (units B)
    \<and> (\<forall>i < u. counts ! i = of_nat (count_list (map (holder B (mq_words m2)) (units B)) (ids ! i)))"
proof -
  obtain m B where i: "gpr_memq_init True True ex_memq (Some 1000) (Some 2000) 70 32 1 (Some 1) (Some 2) = Some (AR_EOK, m)"
      "mq_blocks m 1000 = Some B" "block_ok 1000 B" "words_owned B (mq_words m)" "secure_list m 1000" "free_units m 1000 B [2000, 2032]"
    using ex_memq_init by blast
  obtain m1 where a: "gpr_memq_alloc m (Some 1000) = Some (Some (2000 + overhead B), m1)" "mq_blocks m1 1000 = Some B"
      "mq_words m1 = mq_words m" "secure_list m1 1000" "free_units m1 1000 B [2032]" using alloc_some [OF i(2-6)] by blast
  obtain m2 where c: "gpr_memq_alloc m1 (Some 1000) = Some (Some (2032 + overhead B), m2)" "mq_blocks m2 1000 = Some B"
      "mq_words m2 = mq_words m1" "free_units m2 1000 B []"
    using alloc_some [OF a(2) i(3) _ a(4,5)] i(4) a(3) by auto
  have "words_owned B (mq_words m2)" using i(4) a(3) c(3) by simp
  then obtain u ids counts m' where o: "gpr_memq_alloc m2 (Some 1000) = Some (None, m')"
      "mq_blocks m' 1000 = Some (B\<lparr>unique_metadata_ids := Some ids, unique_metadata_counts := Some counts\<rparr>)"
      "distinct (take u ids)" "set (take u ids) = holder B (mq_words m2) ` set (units B)"
      "\<forall>i < u. counts ! i = of_nat (count_list (map (holder B (mq_words m2)) (units B)) (ids ! i))"
    using gpr_memq_oom_account [OF c(2) i(3) _ c(4)] by metis
  show ?thesis
    by (rule exI [of _ m], rule exI [of _ m2], rule exI [of _ B], rule exI [of _ u], rule exI [of _ ids],
        rule exI [of _ counts], rule exI [of _ m']) (use i(1) a(1) c(1) o in simp)
qed

text \<open>
  a metadata word of a packet reads back what was written to it, another word or another packet keeps its
  value, and an index that is out of range is refused by both accessors without any effect.
\<close>

theorem gpr_memq_metadata_roundtrip:
  assumes "mq_blocks m b = Some B" "words_owned B (mq_words m)" "a \<in> set (units B)" "i < unat (metadata_size B)"
    and "metadata_size B \<le> bad"
  shows "\<exists>m'. gpr_memq_node_set_metadata m (Some b) (Some (a + overhead B)) (of_nat i) v = Some (AR_EOK, m')
    \<and> gpr_memq_node_get_metadata m' (Some b) (Some (a + overhead B)) (of_nat i) = Some (AR_EOK, Some v)
    \<and> (\<forall>c \<in> set (units B). \<forall>j < unat (metadata_size B). c + 4 * j \<noteq> a + 4 * i \<longrightarrow>
         gpr_memq_node_get_metadata m' (Some b) (Some (c + overhead B)) (of_nat j)
           = gpr_memq_node_get_metadata m (Some b) (Some (c + overhead B)) (of_nat j))
    \<and> gpr_memq_node_set_metadata m (Some b) p bad v = Some (AR_EBADPARAM, m)
    \<and> gpr_memq_node_get_metadata m (Some b) p bad = Some (AR_EBADPARAM, None)"
proof -
  let ?w = "a + GPR_MEMQ_UNIT_OVERHEAD_V + GPR_MEMQ_BYTES_PER_METADATA_ITEM_V * i"
  define m' where "m' = m\<lparr>mq_words := (mq_words m)(?w \<mapsto> v)\<rparr>"
  have "?w \<in> dom (mq_words m)" using assms(2,3,4) unfolding words_owned_def by blast
  then have s: "gpr_memq_node_set_metadata m (Some b) (Some (a + overhead B)) (of_nat i) v = Some (AR_EOK, m')"
    using assms(1) metadata_addr_eq(1) [OF assms(4), of a] metadata_addr_eq(2) [OF assms(4)]
    by (auto simp: gpr_memq_node_set_metadata_def modify_Some m'_def)
  have g: "gpr_memq_node_get_metadata m' (Some b) (Some (a + overhead B)) (of_nat i) = Some (AR_EOK, Some v)"
    using assms(1) metadata_addr_eq(1) [OF assms(4), of a] metadata_addr_eq(2) [OF assms(4)] by (simp add: gpr_memq_node_get_metadata_def m'_def)
  have o: "gpr_memq_node_get_metadata m' (Some b) (Some (c + overhead B)) (of_nat j)
      = gpr_memq_node_get_metadata m (Some b) (Some (c + overhead B)) (of_nat j)"
    if "j < unat (metadata_size B)" "c + 4 * j \<noteq> a + 4 * i" for c j
    using assms(1) metadata_addr_eq(1) [OF that(1), of c] metadata_addr_eq(2) [OF that(1)] that(2) by (simp add: gpr_memq_node_get_metadata_def m'_def)
  show ?thesis using s g o assms(1,5)
    by (intro exI [of _ m']) (simp add: gpr_memq_node_set_metadata_def gpr_memq_node_get_metadata_def)
qed

theorem gpr_memq_metadata_roundtrip_witness:
  "\<exists>m B m'. gpr_memq_init True True ex_memq (Some 1000) (Some 2000) 70 32 1 (Some 1) (Some 2) = Some (AR_EOK, m)
    \<and> gpr_memq_node_set_metadata m (Some 1000) (Some (2000 + overhead B)) 0 5 = Some (AR_EOK, m')
    \<and> gpr_memq_node_get_metadata m' (Some 1000) (Some (2000 + overhead B)) 0 = Some (AR_EOK, Some 5)"
proof -
  obtain m B where i: "gpr_memq_init True True ex_memq (Some 1000) (Some 2000) 70 32 1 (Some 1) (Some 2) = Some (AR_EOK, m)"
      "mq_blocks m 1000 = Some B" "units B = [2000, 2032]" "words_owned B (mq_words m)" "metadata_size B = 1"
    using ex_memq_init by blast
  have "0 < unat (metadata_size B)" "metadata_size B \<le> 1" "2000 \<in> set (units B)" using i(3,5) by simp_all
  then obtain m' where "gpr_memq_node_set_metadata m (Some 1000) (Some (2000 + overhead B)) (of_nat 0) 5 = Some (AR_EOK, m')"
      "gpr_memq_node_get_metadata m' (Some 1000) (Some (2000 + overhead B)) (of_nat 0) = Some (AR_EOK, Some 5)"
    using gpr_memq_metadata_roundtrip [OF i(2,4), of 2000 0 1 5 None] by blast
  then show ?thesis using i(1) by (intro exI [of _ m] exI [of _ B] exI [of _ m']) simp
qed

end
