(* ===== verification/Gpr_Session.thy ===== *)
theory Gpr_Session
  imports Ar_Prelude
begin

text \<open>
  The sessions of the packet router: which callback a module port has. There are two
  implementations, of which a build links one: an array of nodes
  (\<^verbatim>\<open>gpr/core/src/array_based/gpr_session.c\<close>, \<^verbatim>\<open>gpr_session_island.c\<close>), searched from the
  beginning, and a hash table with chains (\<^verbatim>\<open>gpr/core/src/hash_based\<close>). The nodes are a
  store and the tables (\<^verbatim>\<open>gpr_module_node_list_t\<close>) another. A session is given by the
  address of its node. The answer of the allocator to the request for a node is a parameter:
  the address, with what the memory holds, or \<open>None\<close>.
\<close>

subsection \<open>Data\<close>

record gpr_module_entry =
  callback_fn :: ptr
  callback_data :: ptr

record gpr_module_node =
  my_module_port :: u32
  session :: gpr_module_entry
  mnext :: ptr

record gpr_module_node_list =
  heap_index :: u32
  max_cb_list_size :: u32
  cb_list :: "ptr list"

record gpr_session_mem =
  mod_nodes :: "gpr_module_node store"
  node_lists :: "gpr_module_node_list store"

type_synonym node_answer = "(addr \<times> gpr_module_node) option"

definition new_session_node :: "gpr_module_node \<Rightarrow> u32 \<Rightarrow> gpr_module_node" where
  "new_session_node raw src_port = raw\<lparr>my_module_port := src_port, mnext := None\<rparr>"

subsection \<open>Array of nodes\<close>

text \<open>
  The search for a free place, from index \<open>i\<close> with \<open>k\<close> places to go: \<open>Inl\<close> when the port is
  registered already, otherwise the last free index.
\<close>

fun free_index_loop :: "gpr_module_node store \<Rightarrow> ptr list \<Rightarrow> u32 \<Rightarrow> u32 \<Rightarrow> u32 \<Rightarrow> nat \<Rightarrow> (unit + u32) option" where
  "free_index_loop h chain src_port i free_index 0 = Some (Inr free_index)"
| "free_index_loop h chain src_port i free_index (Suc k) = do {
     p \<leftarrow> arr_at chain (unat i);
     if p = None then free_index_loop h chain src_port (i + 1) i k
     else do {
       temp \<leftarrow> load h p;
       if my_module_port temp = src_port then Some (Inl ())
       else free_index_loop h chain src_port (i + 1) free_index k
     }
   }"

text \<open>When there is no place the new node is neither used nor freed.\<close>

definition array_init_session :: "node_answer \<Rightarrow> u32 \<Rightarrow> ptr \<Rightarrow> 'a gpr_session_mem_scheme \<Rightarrow> (u32 \<times> ptr \<times> 'a gpr_session_mem_scheme) option" where
  "array_init_session mal src_port list_handle s =
    (if list_handle = None then Some (AR_EFAILED, None, s)
     else do {
       l \<leftarrow> load (node_lists s) list_handle;
       case mal of
         None \<Rightarrow> Some (AR_ENOMEMORY, None, s)
       | Some (new_node, raw) \<Rightarrow> do {
           r \<leftarrow> free_index_loop (mod_nodes s) (cb_list l) src_port 0 0xFFFF (unat (max_cb_list_size l));
           case r of
             Inl _ \<Rightarrow> Some (AR_EFAILED, None, s)
           | Inr free_index \<Rightarrow>
               if free_index = 0xFFFF then Some (AR_EFAILED, None, s\<lparr>mod_nodes := (mod_nodes s)(new_node \<mapsto> raw)\<rparr>)
               else if length (cb_list l) \<le> unat free_index then None
               else do {
                 ls \<leftarrow> modify (node_lists s) list_handle (cb_list_update (\<lambda>c. c[unat free_index := Some new_node]));
                 Some (AR_EOK, Some new_node,
                       s\<lparr>mod_nodes := (mod_nodes s)(new_node \<mapsto> new_session_node raw src_port), node_lists := ls\<rparr>)
               }
         }
     })"

text \<open>The search for the index of a port.\<close>

fun port_index_loop :: "gpr_module_node store \<Rightarrow> ptr list \<Rightarrow> u32 \<Rightarrow> u32 \<Rightarrow> nat \<Rightarrow> u32 option option" where
  "port_index_loop h cbs port i 0 = Some None"
| "port_index_loop h cbs port i (Suc k) = do {
     p \<leftarrow> arr_at cbs (unat i);
     if p = None then port_index_loop h cbs port (i + 1) k
     else do {
       n \<leftarrow> load h p;
       if my_module_port n = port then Some (Some i) else port_index_loop h cbs port (i + 1) k
     }
   }"

definition array_deinit_session :: "u32 \<Rightarrow> ptr \<Rightarrow> 'a gpr_session_mem_scheme \<Rightarrow> (u32 \<times> 'a gpr_session_mem_scheme) option" where
  "array_deinit_session src_port list_handle s =
    (if list_handle = None then Some (AR_EFAILED, s)
     else do {
       l \<leftarrow> load (node_lists s) list_handle;
       r \<leftarrow> port_index_loop (mod_nodes s) (cb_list l) src_port 0 (unat (max_cb_list_size l));
       case r of
         None \<Rightarrow> Some (AR_ENOTEXIST, s)
       | Some i \<Rightarrow> do {
           p \<leftarrow> arr_at (cb_list l) (unat i);
           a \<leftarrow> p;
           ls \<leftarrow> modify (node_lists s) list_handle (cb_list_update (\<lambda>c. c[unat i := None]));
           Some (AR_EOK, s\<lparr>mod_nodes := (mod_nodes s)(a := None), node_lists := ls\<rparr>)
         }
     })"

definition array_get_session :: "u32 \<Rightarrow> ptr \<Rightarrow> 'a gpr_session_mem_scheme \<Rightarrow> (u32 \<times> ptr) option" where
  "array_get_session my_port list_handle s =
    (if list_handle = None then Some (AR_EFAILED, None)
     else do {
       l \<leftarrow> load (node_lists s) list_handle;
       r \<leftarrow> port_index_loop (mod_nodes s) (cb_list l) my_port 0 (unat (max_cb_list_size l));
       case r of
         None \<Rightarrow> Some (AR_ENOTEXIST, None)
       | Some i \<Rightarrow> do { p \<leftarrow> arr_at (cb_list l) (unat i); Some (AR_EOK, p) }
     })"

subsection \<open>Hash table\<close>

text \<open>A table of one place would divide by zero.\<close>

definition SESSION_HASH :: "u32 \<Rightarrow> u32 \<Rightarrow> u32 option" where
  "SESSION_HASH RANGE x = (if RANGE - 1 = 0 then None else Some (x mod (RANGE - 1)))"

text \<open>The walk to the last node of a chain; \<open>None\<close> inside when the port is found behind its first node.\<close>

partial_function (option) chain_end :: "gpr_module_node store \<Rightarrow> u32 \<Rightarrow> addr \<Rightarrow> addr option option" where
  "chain_end h src_port temp = do {
     t \<leftarrow> h temp;
     case mnext t of
       None \<Rightarrow> Some (Some temp)
     | Some nx \<Rightarrow> do {
         n \<leftarrow> h nx;
         if my_module_port n = src_port then Some None else chain_end h src_port nx
       }
   }"

definition hash_init_session :: "node_answer \<Rightarrow> u32 \<Rightarrow> ptr \<Rightarrow> 'a gpr_session_mem_scheme \<Rightarrow> (u32 \<times> ptr \<times> 'a gpr_session_mem_scheme) option" where
  "hash_init_session mal src_port list_handle s =
    (if list_handle = None then Some (AR_EFAILED, None, s)
     else do {
       l \<leftarrow> load (node_lists s) list_handle;
       case mal of
         None \<Rightarrow> Some (AR_ENOMEMORY, None, s)
       | Some (new_node, raw) \<Rightarrow> do {
           hash_key \<leftarrow> SESSION_HASH (max_cb_list_size l) src_port;
           first \<leftarrow> arr_at (cb_list l) (unat hash_key);
           case first of
             None \<Rightarrow> do {
               ls \<leftarrow> modify (node_lists s) list_handle (cb_list_update (\<lambda>c. c[unat hash_key := Some new_node]));
               Some (AR_EOK, Some new_node,
                     s\<lparr>mod_nodes := (mod_nodes s)(new_node \<mapsto> new_session_node raw src_port), node_lists := ls\<rparr>)
             }
           | Some temp \<Rightarrow> do {
               t \<leftarrow> mod_nodes s temp;
               if my_module_port t = src_port then Some (AR_EFAILED, None, s)
               else do {
                 r \<leftarrow> chain_end (mod_nodes s) src_port temp;
                 case r of
                   None \<Rightarrow> Some (AR_EFAILED, None, s)
                 | Some e \<Rightarrow> do {
                     h \<leftarrow> modify (mod_nodes s) (Some e) (mnext_update (\<lambda>_. Some new_node));
                     Some (AR_EOK, Some new_node, s\<lparr>mod_nodes := h(new_node \<mapsto> new_session_node raw src_port)\<rparr>)
                   }
               }
             }
         }
     })"

text \<open>The search for a node behind \<open>temp\<close>: its predecessor and the node.\<close>

partial_function (option) chain_pred :: "gpr_module_node store \<Rightarrow> u32 \<Rightarrow> addr \<Rightarrow> (addr \<times> addr) option option" where
  "chain_pred h src_port temp = do {
     t \<leftarrow> h temp;
     case mnext t of
       None \<Rightarrow> Some None
     | Some nx \<Rightarrow> do {
         n \<leftarrow> h nx;
         if my_module_port n = src_port then Some (Some (temp, nx)) else chain_pred h src_port nx
       }
   }"

definition hash_deinit_session :: "u32 \<Rightarrow> ptr \<Rightarrow> 'a gpr_session_mem_scheme \<Rightarrow> (u32 \<times> 'a gpr_session_mem_scheme) option" where
  "hash_deinit_session src_port list_handle s =
    (if list_handle = None then Some (AR_EFAILED, s)
     else do {
       l \<leftarrow> load (node_lists s) list_handle;
       hash_key \<leftarrow> SESSION_HASH (max_cb_list_size l) src_port;
       first \<leftarrow> arr_at (cb_list l) (unat hash_key);
       case first of
         None \<Rightarrow> Some (AR_ENOTEXIST, s)
       | Some temp \<Rightarrow> do {
           t \<leftarrow> mod_nodes s temp;
           if my_module_port t = src_port \<and> mnext t = None
           then do {
             ls \<leftarrow> modify (node_lists s) list_handle (cb_list_update (\<lambda>c. c[unat hash_key := None]));
             Some (AR_EOK, s\<lparr>mod_nodes := (mod_nodes s)(temp := None), node_lists := ls\<rparr>)
           }
           else if my_module_port t = src_port
           then do {
             ls \<leftarrow> modify (node_lists s) list_handle (cb_list_update (\<lambda>c. c[unat hash_key := mnext t]));
             Some (AR_EOK, s\<lparr>mod_nodes := (mod_nodes s)(temp := None), node_lists := ls\<rparr>)
           }
           else do {
             r \<leftarrow> chain_pred (mod_nodes s) src_port temp;
             case r of
               None \<Rightarrow> Some (AR_ENOTEXIST, s)
             | Some (pr, nx) \<Rightarrow> do {
                 n \<leftarrow> mod_nodes s nx;
                 h \<leftarrow> modify ((mod_nodes s)(nx := None)) (Some pr) (mnext_update (\<lambda>_. mnext n));
                 Some (AR_EOK, s\<lparr>mod_nodes := h\<rparr>)
               }
           }
         }
     })"

partial_function (option) chain_find :: "gpr_module_node store \<Rightarrow> u32 \<Rightarrow> ptr \<Rightarrow> ptr option" where
  "chain_find h my_port temp =
    (case temp of
       None \<Rightarrow> Some None
     | Some a \<Rightarrow> do {
         t \<leftarrow> h a;
         if my_module_port t = my_port then Some (Some a) else chain_find h my_port (mnext t)
       })"

definition hash_get_session :: "u32 \<Rightarrow> ptr \<Rightarrow> 'a gpr_session_mem_scheme \<Rightarrow> (u32 \<times> ptr) option" where
  "hash_get_session my_port list_handle s =
    (if list_handle = None then Some (AR_EFAILED, None)
     else do {
       l \<leftarrow> load (node_lists s) list_handle;
       key \<leftarrow> SESSION_HASH (max_cb_list_size l) my_port;
       temp \<leftarrow> arr_at (cb_list l) (unat key);
       r \<leftarrow> chain_find (mod_nodes s) my_port temp;
       Some (if r = None then (AR_ENOTEXIST, None) else (AR_EOK, r))
     })"

end
