(* ===== verification/Session_Table.thy ===== *)
theory Session_Table
  imports Ar_Prelude
begin

text \<open>
  The contract of a table of sessions, as the router relies on it: a partial map from ports to
  sessions. \<open>init\<close> depends on what the environment answers (\<open>env_ok\<close> says that it is memory
  for the session \<open>a\<close>) and on there being room.
\<close>

datatype session_op = Init_Op u32 | Get_Op u32 | Deinit_Op u32

text \<open>What the result code of every operation must be, given the ports that are registered.\<close>

fun spec_codes :: "u32 set \<Rightarrow> session_op list \<Rightarrow> u32 list" where
  "spec_codes ps [] = []"
| "spec_codes ps (Init_Op p # ops) = (if p \<in> ps then AR_EFAILED # spec_codes ps ops else AR_EOK # spec_codes (insert p ps) ops)"
| "spec_codes ps (Get_Op p # ops) = (if p \<in> ps then AR_EOK else AR_ENOTEXIST) # spec_codes ps ops"
| "spec_codes ps (Deinit_Op p # ops) = (if p \<in> ps then AR_EOK # spec_codes (ps - {p}) ops else AR_ENOTEXIST # spec_codes ps ops)"

fun spec_ports :: "u32 set \<Rightarrow> session_op list \<Rightarrow> u32 set" where
  "spec_ports ps [] = ps"
| "spec_ports ps (Init_Op p # ops) = spec_ports (insert p ps) ops"
| "spec_ports ps (Get_Op p # ops) = spec_ports ps ops"
| "spec_ports ps (Deinit_Op p # ops) = spec_ports (ps - {p}) ops"

text \<open>There is always room for the registrations of a history.\<close>

fun spec_fits :: "nat \<Rightarrow> u32 set \<Rightarrow> session_op list \<Rightarrow> bool" where
  "spec_fits n ps [] = True"
| "spec_fits n ps (Init_Op p # ops) = (card ps < n \<and> spec_fits n (insert p ps) ops)"
| "spec_fits n ps (Get_Op p # ops) = spec_fits n ps ops"
| "spec_fits n ps (Deinit_Op p # ops) = spec_fits n (ps - {p}) ops"

text \<open>
  Executing a history on an implementation: \<open>mem\<close> chooses the memory for every registration.
  A fault is \<open>None\<close>.
\<close>

fun run_sessions ::
    "('t \<Rightarrow> 'e) \<Rightarrow> ('e \<Rightarrow> u32 \<Rightarrow> 't \<Rightarrow> (u32 \<times> ptr \<times> 't) option) \<Rightarrow> (u32 \<Rightarrow> 't \<Rightarrow> (u32 \<times> ptr) option)
      \<Rightarrow> (u32 \<Rightarrow> 't \<Rightarrow> (u32 \<times> 't) option) \<Rightarrow> 't \<Rightarrow> session_op list \<Rightarrow> (u32 list \<times> 't) option" where
  "run_sessions mem init get deinit t [] = Some ([], t)"
| "run_sessions mem init get deinit t (Init_Op p # ops) = do {
     (rc, _, t) \<leftarrow> init (mem t) p t;
     (rcs, t) \<leftarrow> run_sessions mem init get deinit t ops;
     Some (rc # rcs, t)
   }"
| "run_sessions mem init get deinit t (Get_Op p # ops) = do {
     (rc, _) \<leftarrow> get p t;
     (rcs, t) \<leftarrow> run_sessions mem init get deinit t ops;
     Some (rc # rcs, t)
   }"
| "run_sessions mem init get deinit t (Deinit_Op p # ops) = do {
     (rc, t) \<leftarrow> deinit p t;
     (rcs, t) \<leftarrow> run_sessions mem init get deinit t ops;
     Some (rc # rcs, t)
   }"

locale session_table =
  fixes rel :: "nat \<Rightarrow> 't \<Rightarrow> (u32 \<rightharpoonup> addr) \<Rightarrow> bool"
    and env_ok :: "'e \<Rightarrow> addr \<Rightarrow> 't \<Rightarrow> bool"
    and init :: "'e \<Rightarrow> u32 \<Rightarrow> 't \<Rightarrow> (u32 \<times> ptr \<times> 't) option"
    and get :: "u32 \<Rightarrow> 't \<Rightarrow> (u32 \<times> ptr) option"
    and deinit :: "u32 \<Rightarrow> 't \<Rightarrow> (u32 \<times> 't) option"
  assumes rel_finite: "rel n t m \<Longrightarrow> finite (dom m)"
    and get_law: "rel n t m \<Longrightarrow> get p t = Some (case m p of None \<Rightarrow> (AR_ENOTEXIST, None) | Some a \<Rightarrow> (AR_EOK, Some a))"
    and init_law: "rel n t m \<Longrightarrow> env_ok e a t \<Longrightarrow> m p = None \<Longrightarrow> card (dom m) < n \<Longrightarrow>
      \<exists>t'. init e p t = Some (AR_EOK, Some a, t') \<and> rel n t' (m(p \<mapsto> a))"
    and init_dup_law: "rel n t m \<Longrightarrow> env_ok e a t \<Longrightarrow> m p = Some b \<Longrightarrow> init e p t = Some (AR_EFAILED, None, t)"
    and deinit_law: "rel n t m \<Longrightarrow> m p = Some a \<Longrightarrow> \<exists>t'. deinit p t = Some (AR_EOK, t') \<and> rel n t' (m(p := None))"
    and deinit_none_law: "rel n t m \<Longrightarrow> m p = None \<Longrightarrow> deinit p t = Some (AR_ENOTEXIST, t)"
begin

text \<open>A port that has been registered is found until it is deregistered; no other port is affected.\<close>

lemma register_then_get:
  assumes "rel n t m" "env_ok e a t" "m p = None" "card (dom m) < n"
  shows "\<exists>t'. init e p t = Some (AR_EOK, Some a, t') \<and> get p t' = Some (AR_EOK, Some a)
    \<and> (\<forall>q. q \<noteq> p \<longrightarrow> get q t' = get q t)
    \<and> (\<exists>t''. deinit p t' = Some (AR_EOK, t'') \<and> rel n t'' m)"
proof -
  obtain t' where t': "init e p t = Some (AR_EOK, Some a, t')" "rel n t' (m(p \<mapsto> a))"
    using init_law [OF assms] by blast
  have "get p t' = Some (AR_EOK, Some a)" "\<forall>q. q \<noteq> p \<longrightarrow> get q t' = get q t"
    using get_law [OF t'(2)] get_law [OF assms(1)] by simp_all
  moreover have "(m(p \<mapsto> a))(p := None) = m" using assms(3) by (simp add: fun_upd_idem)
  then have "\<exists>t''. deinit p t' = Some (AR_EOK, t'') \<and> rel n t'' m"
    using deinit_law [OF t'(2), of p a] by simp
  ultimately show ?thesis using t'(1) by blast
qed

text \<open>Any history has the result codes of the specification.\<close>

lemma run_codes:
  assumes "rel n t m" "\<And>t m. rel n t m \<Longrightarrow> \<exists>a. env_ok (mem t) a t" "spec_fits n (dom m) ops"
  shows "\<exists>t' m'. run_sessions mem init get deinit t ops = Some (spec_codes (dom m) ops, t') \<and> rel n t' m'
    \<and> dom m' = spec_ports (dom m) ops"
  using assms(1,3)
proof (induction ops arbitrary: t m)
  case Nil
  then show ?case by auto
next
  case (Cons op ops)
  show ?case
  proof (cases op)
    case (Init_Op p)
    obtain a where a: "env_ok (mem t) a t" using assms(2) Cons.prems(1) by blast
    have f: "card (dom m) < n" "spec_fits n (insert p (dom m)) ops" using Cons.prems(2) Init_Op by simp_all
    show ?thesis
    proof (cases "m p")
      case None
      then obtain t1 where t1: "init (mem t) p t = Some (AR_EOK, Some a, t1)" "rel n t1 (m(p \<mapsto> a))"
        using init_law [OF Cons.prems(1) a _ f(1)] by blast
      have d: "dom (m(p \<mapsto> a)) = insert p (dom m)" by simp
      show ?thesis using Cons.IH [OF t1(2)] f(2) t1(1) None Init_Op unfolding d by auto
    next
      case (Some b)
      then have "insert p (dom m) = dom m" by auto
      then show ?thesis using Cons.IH [OF Cons.prems(1)] f(2) init_dup_law [OF Cons.prems(1) a Some] Init_Op Some by auto
    qed
  next
    case (Get_Op p)
    then show ?thesis using Cons.IH [OF Cons.prems(1)] Cons.prems(2) get_law [OF Cons.prems(1), of p]
      by (cases "m p") auto
  next
    case (Deinit_Op p)
    show ?thesis
    proof (cases "m p")
      case None
      then have "dom m - {p} = dom m" by auto
      then show ?thesis using Cons.IH [OF Cons.prems(1)] Cons.prems(2) deinit_none_law [OF Cons.prems(1) None] Deinit_Op None
        by auto
    next
      case (Some a)
      then obtain t1 where t1: "deinit p t = Some (AR_EOK, t1)" "rel n t1 (m(p := None))"
        using deinit_law [OF Cons.prems(1)] by blast
      have d: "dom (m(p := None)) = dom m - {p}" by simp
      show ?thesis using Cons.IH [OF t1(2)] Cons.prems(2) t1(1) Some Deinit_Op unfolding d by auto
    qed
  qed
qed

end

end
