(* ===== verification/Gpr_Session_Proofs.thy ===== *)
theory Gpr_Session_Proofs
  imports Gpr_Session Session_Table
begin

text \<open>
  Correctness of the two session tables: both meet the contract \<open>session_table\<close>, each under
  an invariant of its own (\<open>array_rel\<close>, \<open>hash_rel\<close>), and therefore answer every history of
  registrations in the same way.
\<close>

subsection \<open>Array of nodes\<close>

text \<open>Index \<open>i\<close> of the table holds the node \<open>a\<close>, which has the port \<open>p\<close>.\<close>

definition port_slot :: "gpr_module_node store \<Rightarrow> ptr list \<Rightarrow> nat \<Rightarrow> addr \<Rightarrow> u32 \<Rightarrow> bool" where
  "port_slot h cbs i a p \<longleftrightarrow> i < length cbs \<and> cbs ! i = Some a \<and> (\<exists>n. h a = Some n \<and> my_module_port n = p)"

definition slots_ok :: "gpr_module_node store \<Rightarrow> ptr list \<Rightarrow> (u32 \<rightharpoonup> addr) \<Rightarrow> bool" where
  "slots_ok h cbs m \<longleftrightarrow> (\<forall>i a. i < length cbs \<and> cbs ! i = Some a \<longrightarrow> a \<in> dom h)
     \<and> (\<forall>i j a b p. port_slot h cbs i a p \<and> port_slot h cbs j b p \<longrightarrow> i = j)
     \<and> (\<forall>p a. m p = Some a \<longleftrightarrow> (\<exists>i. port_slot h cbs i a p))"

definition array_rel :: "addr \<Rightarrow> nat \<Rightarrow> gpr_session_mem \<Rightarrow> (u32 \<rightharpoonup> addr) \<Rightarrow> bool" where
  "array_rel lh n s m \<longleftrightarrow> finite (dom (mod_nodes s)) \<and> (case node_lists s lh of None \<Rightarrow> False
     | Some l \<Rightarrow> length (cb_list l) = n \<and> unat (max_cb_list_size l) = n \<and> n \<le> 0xFFFF \<and> slots_ok (mod_nodes s) (cb_list l) m)"

text \<open>The answer is memory for a node that is not in use.\<close>

definition fresh_node :: "node_answer \<Rightarrow> addr \<Rightarrow> gpr_session_mem \<Rightarrow> bool" where
  "fresh_node e a s \<longleftrightarrow> (\<exists>raw. e = Some (a, raw)) \<and> a \<notin> dom (mod_nodes s)"

lemma slots_of_Some: "slots_ok h cbs m \<Longrightarrow> i < length cbs \<Longrightarrow> cbs ! i = Some a \<Longrightarrow> \<exists>n. h a = Some n \<and> port_slot h cbs i a (my_module_port n)"
  unfolding slots_ok_def port_slot_def by blast

lemma slots_at:
  assumes "slots_ok h cbs m" "m p = Some a"
  shows "\<exists>i. port_slot h cbs i a p \<and> (\<forall>j b. port_slot h cbs j b p \<longrightarrow> j = i \<and> b = a)"
proof -
  obtain i where i: "port_slot h cbs i a p" using assms by (auto simp: slots_ok_def)
  have "j = i \<and> b = a" if j: "port_slot h cbs j b p" for j b
  proof -
    have "j = i" using assms(1) i j unfolding slots_ok_def by blast
    then show ?thesis using i j by (simp add: port_slot_def)
  qed
  then show ?thesis using i by blast
qed

lemma port_index_loop_eq:
  assumes "slots_ok h cbs m" "unat i + k = length cbs" "length cbs < 2 ^ 32"
    and "\<forall>j a. j < unat i \<longrightarrow> \<not> port_slot h cbs j a p"
  shows "(m p = None \<and> port_index_loop h cbs p i k = Some None)
    \<or> (\<exists>j a. m p = Some a \<and> port_slot h cbs j a p \<and> port_index_loop h cbs p i k = Some (Some (of_nat j)) \<and> unat (of_nat j :: u32) = j)"
  using assms(2,4)
proof (induction k arbitrary: i)
  case 0
  have "m p = None"
  proof (rule ccontr)
    assume "m p \<noteq> None"
    then obtain a j where "port_slot h cbs j a p" using slots_at [OF assms(1)] by blast
    then show False using 0 by (auto simp: port_slot_def)
  qed
  then show ?case by simp
next
  case (Suc k)
  have i: "unat i < length cbs" using Suc.prems(1) by simp
  have i1: "unat (i + 1) = Suc (unat i)"
  proof -
    have "Suc (unat i) < 2 ^ 32" using i assms(3) by simp
    then show ?thesis by (simp add: unat_word_ariths)
  qed
  have ai: "arr_at cbs (unat i) = Some (cbs ! unat i)" using i by (simp add: arr_at_def)
  have next_step: "?case" if "\<forall>a. \<not> port_slot h cbs (unat i) a p" "port_index_loop h cbs p i (Suc k) = port_index_loop h cbs p (i + 1) k"
  proof -
    have "\<forall>j a. j < unat (i + 1) \<longrightarrow> \<not> port_slot h cbs j a p"
      using Suc.prems(2) that(1) by (simp add: i1 less_Suc_eq)
    then show ?thesis using Suc.IH [of "i + 1"] Suc.prems(1) i1 that(2) by simp
  qed
  show ?case
  proof (cases "cbs ! unat i")
    case None
    then show ?thesis using ai by (intro next_step) (simp_all add: port_slot_def)
  next
    case (Some a)
    then obtain n where n: "h a = Some n" "port_slot h cbs (unat i) a (my_module_port n)"
      using slots_of_Some [OF assms(1) i] by blast
    show ?thesis
    proof (cases "my_module_port n = p")
      case True
      then have "m p = Some a" using assms(1) n(2) unfolding slots_ok_def by blast
      moreover have "port_index_loop h cbs p i (Suc k) = Some (Some (of_nat (unat i)))" using ai Some n(1) True by simp
      ultimately show ?thesis using n(2) True by (intro disjI2 exI [of _ "unat i"] exI [of _ a]) simp
    next
      case False
      then show ?thesis using ai Some n(1) by (intro next_step) (simp_all add: port_slot_def)
    qed
  qed
qed

lemma array_relD:
  assumes "array_rel lh n s m"
  shows "\<exists>l. node_lists s lh = Some l \<and> length (cb_list l) = n \<and> unat (max_cb_list_size l) = n \<and> n \<le> 0xFFFF
    \<and> slots_ok (mod_nodes s) (cb_list l) m \<and> finite (dom (mod_nodes s))"
  using assms by (auto simp: array_rel_def split: option.splits)

lemma array_search:
  assumes "array_rel lh n s m" "node_lists s lh = Some l"
  shows "(m p = None \<and> port_index_loop (mod_nodes s) (cb_list l) p 0 (unat (max_cb_list_size l)) = Some None)
    \<or> (\<exists>j a. m p = Some a \<and> port_slot (mod_nodes s) (cb_list l) j a p
        \<and> port_index_loop (mod_nodes s) (cb_list l) p 0 (unat (max_cb_list_size l)) = Some (Some (of_nat j)) \<and> unat (of_nat j :: u32) = j)"
  using port_index_loop_eq [of "mod_nodes s" "cb_list l" m 0 "unat (max_cb_list_size l)" p] array_relD [OF assms(1)] assms(2)
  by auto

lemma array_get:
  assumes "array_rel lh n s m"
  shows "array_get_session p (Some lh) s = Some (case m p of None \<Rightarrow> (AR_ENOTEXIST, None) | Some a \<Rightarrow> (AR_EOK, Some a))"
proof -
  obtain l where l: "node_lists s lh = Some l" using array_relD [OF assms] by blast
  from array_search [OF assms l, of p] show ?thesis
  proof (elim disjE exE conjE)
    fix j a
    assume "m p = Some a" "port_slot (mod_nodes s) (cb_list l) j a p" "unat (of_nat j :: u32) = j"
      "port_index_loop (mod_nodes s) (cb_list l) p 0 (unat (max_cb_list_size l)) = Some (Some (of_nat j))"
    then show ?thesis using l by (simp add: array_get_session_def arr_at_def port_slot_def del: unsigned_of_nat)
  qed (simp add: array_get_session_def l)
qed

text \<open>The changes of the table and their effect on the slots.\<close>

lemma port_slot_remove:
  assumes "slots_ok h cbs m" "port_slot h cbs j a p"
  shows "port_slot (h(a := None)) (cbs[j := None]) i b q \<longleftrightarrow> port_slot h cbs i b q \<and> i \<noteq> j"
proof (cases "i = j")
  case True
  then show ?thesis by (auto simp: port_slot_def)
next
  case False
  have "b \<noteq> a" if b: "i < length cbs" "cbs ! i = Some b"
  proof
    assume "b = a"
    then have "port_slot h cbs i a p" using b assms(2) by (auto simp: port_slot_def)
    then show False using assms False unfolding slots_ok_def by blast
  qed
  then show ?thesis using False by (auto simp: port_slot_def)
qed

lemma slots_remove:
  assumes "slots_ok h cbs m" "port_slot h cbs j a p"
  shows "slots_ok (h(a := None)) (cbs[j := None]) (m(p := None))"
proof -
  note r = port_slot_remove [OF assms]
  have u: "\<And>i b. port_slot h cbs i b p \<Longrightarrow> i = j" using assms unfolding slots_ok_def by blast
  have mp: "\<And>q b. m q = Some b \<longleftrightarrow> (\<exists>i. port_slot h cbs i b q)" using assms(1) unfolding slots_ok_def by blast
  have d: "b \<in> dom (h(a := None))" if "i < length (cbs[j := None])" "cbs[j := None] ! i = Some b" for i b
  proof -
    have i: "i \<noteq> j" "i < length cbs" "cbs ! i = Some b" using that by (cases "i = j"; simp)+
    then obtain q where "port_slot h cbs i b q" using slots_of_Some [OF assms(1)] by blast
    then have "port_slot (h(a := None)) (cbs[j := None]) i b q" using r i(1) by blast
    then show ?thesis unfolding port_slot_def by blast
  qed
  have m: "(m(p := None)) q = Some b \<longleftrightarrow> (\<exists>i. port_slot (h(a := None)) (cbs[j := None]) i b q)" for q b
  proof (cases "q = p")
    case True
    then show ?thesis using u r by auto
  next
    case False
    have "i \<noteq> j" if s: "port_slot h cbs i b q" for i
    proof
      assume "i = j"
      then show False using s assms(2) False by (auto simp: port_slot_def)
    qed
    then show ?thesis using False r mp by auto
  qed
  have inj: "i = k" if "port_slot (h(a := None)) (cbs[j := None]) i b q" "port_slot (h(a := None)) (cbs[j := None]) k c q" for i k b c q
    using that assms(1) r unfolding slots_ok_def by blast
  show ?thesis unfolding slots_ok_def using d m inj by blast
qed

lemma port_slot_insert:
  assumes "slots_ok h cbs m" "f < length cbs" "cbs ! f = None" "a \<notin> dom h"
  shows "port_slot (h(a \<mapsto> n)) (cbs[f := Some a]) i b q \<longleftrightarrow> (i = f \<and> b = a \<and> q = my_module_port n) \<or> port_slot h cbs i b q"
proof (cases "i = f")
  case True
  then show ?thesis using assms by (auto simp: port_slot_def)
next
  case False
  have "b \<noteq> a" if "i < length cbs" "cbs ! i = Some b"
    using that assms(1,4) unfolding slots_ok_def by blast
  then show ?thesis using False by (auto simp: port_slot_def)
qed

lemma slots_insert:
  assumes "slots_ok h cbs m" "f < length cbs" "cbs ! f = None" "a \<notin> dom h" "m (my_module_port n) = None"
  shows "slots_ok (h(a \<mapsto> n)) (cbs[f := Some a]) (m(my_module_port n \<mapsto> a))"
proof -
  note r = port_slot_insert [OF assms(1-4)]
  have mp: "\<And>q b. m q = Some b \<longleftrightarrow> (\<exists>i. port_slot h cbs i b q)" using assms(1) unfolding slots_ok_def by blast
  then have np: "\<And>i b. \<not> port_slot h cbs i b (my_module_port n)" using assms(5) by (metis option.distinct(1))
  have d: "b \<in> dom (h(a \<mapsto> n))" if "i < length (cbs[f := Some a])" "cbs[f := Some a] ! i = Some b" for i b
  proof (cases "i = f")
    case False
    then show ?thesis using that assms(1) unfolding slots_ok_def by auto
  qed (use that assms(2) in simp)
  have m: "(m(my_module_port n \<mapsto> a)) q = Some b \<longleftrightarrow> (\<exists>i. port_slot (h(a \<mapsto> n)) (cbs[f := Some a]) i b q)" for q b
    using r np mp by (cases "q = my_module_port n") auto
  have inj: "i = k" if "port_slot (h(a \<mapsto> n)) (cbs[f := Some a]) i b q" "port_slot (h(a \<mapsto> n)) (cbs[f := Some a]) k c q" for i k b c q
  proof (cases "q = my_module_port n")
    case True
    then show ?thesis using that np unfolding r by simp
  next
    case False
    then have "port_slot h cbs i b q" "port_slot h cbs k c q" using that unfolding r by simp_all
    then show ?thesis using assms(1) unfolding slots_ok_def by blast
  qed
  show ?thesis unfolding slots_ok_def using d m inj by blast
qed

lemma array_deinit:
  assumes "array_rel lh n s m" "m p = Some a"
  shows "\<exists>s'. array_deinit_session p (Some lh) s = Some (AR_EOK, s') \<and> array_rel lh n s' (m(p := None))"
proof -
  obtain l where l: "node_lists s lh = Some l" "length (cb_list l) = n" "unat (max_cb_list_size l) = n" "n \<le> 0xFFFF"
      "slots_ok (mod_nodes s) (cb_list l) m" "finite (dom (mod_nodes s))"
    using array_relD [OF assms(1)] by blast
  obtain j where j: "port_slot (mod_nodes s) (cb_list l) j a p" "unat (of_nat j :: u32) = j"
      "port_index_loop (mod_nodes s) (cb_list l) p 0 (unat (max_cb_list_size l)) = Some (Some (of_nat j))"
    using array_search [OF assms(1) l(1), of p] assms(2) by auto
  have jl: "j < length (cb_list l)" "cb_list l ! j = Some a" using j(1) by (simp_all add: port_slot_def)
  let ?s = "s\<lparr>mod_nodes := (mod_nodes s)(a := None), node_lists := (node_lists s)(lh \<mapsto> cb_list_update (\<lambda>c. c[j := None]) l)\<rparr>"
  have "array_deinit_session p (Some lh) s = Some (AR_EOK, ?s)"
    using l(1) j(2,3) jl by (simp add: array_deinit_session_def arr_at_def modify_Some del: unsigned_of_nat)
  moreover have "array_rel lh n ?s (m(p := None))"
    using l slots_remove [OF l(5) j(1)] by (simp add: array_rel_def)
  ultimately show ?thesis by blast
qed

lemma array_deinit_none:
  assumes "array_rel lh n s m" "m p = None"
  shows "array_deinit_session p (Some lh) s = Some (AR_ENOTEXIST, s)"
proof -
  obtain l where l: "node_lists s lh = Some l" using array_relD [OF assms(1)] by blast
  then show ?thesis using array_search [OF assms(1) l, of p] assms(2) by (simp add: array_deinit_session_def)
qed

text \<open>The search for a free place.\<close>

lemma free_index_dup:
  assumes "slots_ok h cbs m" "unat i + k = length cbs" "length cbs < 2 ^ 32" "port_slot h cbs j a p" "unat i \<le> j"
  shows "free_index_loop h cbs p i f k = Some (Inl ())"
  using assms(2,5)
proof (induction k arbitrary: i f)
  case 0
  then show ?case using assms(4) by (simp add: port_slot_def)
next
  case (Suc k)
  have i: "unat i < length cbs" using Suc.prems(1) by simp
  then have "Suc (unat i) < 2 ^ 32" using assms(3) by simp
  then have i1: "unat (i + 1) = Suc (unat i)" by (simp add: unat_word_ariths)
  have ai: "arr_at cbs (unat i) = Some (cbs ! unat i)" using i by (simp add: arr_at_def)
  have IH: "free_index_loop h cbs p (i + 1) f' k = Some (Inl ())" if "unat i \<noteq> j" for f'
    using Suc.IH [of "i + 1" f'] Suc.prems that i1 by simp
  show ?case
  proof (cases "cbs ! unat i")
    case None
    then have "unat i \<noteq> j" using assms(4) by (auto simp: port_slot_def)
    then show ?thesis using ai None IH by simp
  next
    case (Some b)
    then obtain n where n: "h b = Some n" using slots_of_Some [OF assms(1) i] by blast
    have "my_module_port n = p" if "unat i = j" using assms(4) that Some n by (auto simp: port_slot_def)
    then show ?thesis using ai Some n IH by (cases "unat i = j") simp_all
  qed
qed

lemma free_index_new:
  assumes "slots_ok h cbs m" "unat i + k = length cbs" "length cbs < 2 ^ 32" "m p = None"
  shows "\<exists>g. free_index_loop h cbs p i f k = Some (Inr g)
    \<and> (g = f \<and> (\<forall>j. unat i \<le> j \<and> j < length cbs \<longrightarrow> cbs ! j \<noteq> None) \<or> unat g < length cbs \<and> cbs ! unat g = None)"
  using assms(2)
proof (induction k arbitrary: i f)
  case 0
  then show ?case by auto
next
  case (Suc k)
  have i: "unat i < length cbs" using Suc.prems(1) by simp
  then have "Suc (unat i) < 2 ^ 32" using assms(3) by simp
  then have i1: "unat (i + 1) = Suc (unat i)" by (simp add: unat_word_ariths)
  have ai: "arr_at cbs (unat i) = Some (cbs ! unat i)" using i by (simp add: arr_at_def)
  have IH: "\<exists>g. free_index_loop h cbs p (i + 1) f' k = Some (Inr g)
      \<and> (g = f' \<and> (\<forall>j. Suc (unat i) \<le> j \<and> j < length cbs \<longrightarrow> cbs ! j \<noteq> None) \<or> unat g < length cbs \<and> cbs ! unat g = None)" for f'
    using Suc.IH [of "i + 1" f'] Suc.prems i1 by simp
  show ?case
  proof (cases "cbs ! unat i")
    case None
    then have "free_index_loop h cbs p i f (Suc k) = free_index_loop h cbs p (i + 1) i k" using ai by simp
    then show ?thesis using IH [of i] None i by auto
  next
    case (Some b)
    then obtain n where n: "h b = Some n" "port_slot h cbs (unat i) b (my_module_port n)" using slots_of_Some [OF assms(1) i] by blast
    have "my_module_port n \<noteq> p"
    proof
      assume "my_module_port n = p"
      then have "m p = Some b" using n(2) assms(1) unfolding slots_ok_def by blast
      then show False using assms(4) by simp
    qed
    then have e: "free_index_loop h cbs p i f (Suc k) = free_index_loop h cbs p (i + 1) f k" using ai Some n(1) by simp
    have "cbs ! j \<noteq> None" if "\<forall>j. Suc (unat i) \<le> j \<and> j < length cbs \<longrightarrow> cbs ! j \<noteq> None" "unat i \<le> j" "j < length cbs" for j
      using that Some by (cases "j = unat i") auto
    then show ?thesis using IH [of f] e by metis
  qed
qed

lemma slots_finite: "slots_ok h cbs m \<Longrightarrow> finite (dom m)"
proof -
  assume ok: "slots_ok h cbs m"
  have "dom m \<subseteq> (\<lambda>i. my_module_port (the (h (the (cbs ! i))))) ` {..<length cbs}"
  proof
    fix p
    assume "p \<in> dom m"
    then obtain a i where "port_slot h cbs i a p" using ok unfolding slots_ok_def by blast
    then show "p \<in> (\<lambda>i. my_module_port (the (h (the (cbs ! i))))) ` {..<length cbs}"
      by (intro image_eqI [of _ _ i]) (auto simp: port_slot_def)
  qed
  then show ?thesis by (rule finite_subset) simp
qed

text \<open>A table with fewer ports than places has a free place.\<close>

lemma slots_room:
  assumes "slots_ok h cbs m" "card (dom m) < length cbs"
  shows "\<exists>i < length cbs. cbs ! i = None"
proof (rule ccontr)
  assume full: "\<not> (\<exists>i < length cbs. cbs ! i = None)"
  let ?f = "\<lambda>i. my_module_port (the (h (the (cbs ! i))))"
  have s: "port_slot h cbs i (the (cbs ! i)) (?f i)" if i: "i < length cbs" for i
  proof -
    obtain a where a: "cbs ! i = Some a" using full i by auto
    then show ?thesis using slots_of_Some [OF assms(1) i a] by auto
  qed
  have "inj_on ?f {..<length cbs}"
  proof (rule inj_onI)
    fix i j
    assume ij: "i \<in> {..<length cbs}" "j \<in> {..<length cbs}" "?f i = ?f j"
    then have "port_slot h cbs i (the (cbs ! i)) (?f i)" "port_slot h cbs j (the (cbs ! j)) (?f i)" using s [of i] s [of j] by simp_all
    then show "i = j" using assms(1) unfolding slots_ok_def by blast
  qed
  moreover have "?f ` {..<length cbs} \<subseteq> dom m"
  proof
    fix p
    assume "p \<in> ?f ` {..<length cbs}"
    then obtain i where "port_slot h cbs i (the (cbs ! i)) p" using s by blast
    then show "p \<in> dom m" using assms(1) unfolding slots_ok_def by blast
  qed
  ultimately have "length cbs \<le> card (dom m)" using card_inj_on_le slots_finite [OF assms(1)] by fastforce
  then show False using assms(2) by simp
qed

lemma array_init:
  assumes "array_rel lh n s m" "fresh_node e a s" "m p = None" "card (dom m) < n"
  shows "\<exists>s'. array_init_session e p (Some lh) s = Some (AR_EOK, Some a, s') \<and> array_rel lh n s' (m(p \<mapsto> a))"
proof -
  obtain l where l: "node_lists s lh = Some l" "length (cb_list l) = n" "unat (max_cb_list_size l) = n" "n \<le> 0xFFFF"
      "slots_ok (mod_nodes s) (cb_list l) m" "finite (dom (mod_nodes s))"
    using array_relD [OF assms(1)] by blast
  obtain raw where e: "e = Some (a, raw)" "a \<notin> dom (mod_nodes s)" using assms(2) by (auto simp: fresh_node_def)
  have n32: "length (cb_list l) < 2 ^ 32" using l(2,4) by simp
  obtain g where g: "free_index_loop (mod_nodes s) (cb_list l) p 0 0xFFFF n = Some (Inr g)"
      "g = 0xFFFF \<and> (\<forall>j. 0 \<le> j \<and> j < length (cb_list l) \<longrightarrow> cb_list l ! j \<noteq> None) \<or> unat g < length (cb_list l) \<and> cb_list l ! unat g = None"
    using free_index_new [OF l(5) _ n32 assms(3), of 0 n "0xFFFF"] l(2) by auto
  obtain i where "i < length (cb_list l)" "cb_list l ! i = None" using slots_room [OF l(5)] assms(4) l(2) by auto
  then have gi: "unat g < length (cb_list l)" "cb_list l ! unat g = None" using g(2) by auto
  have ng: "g \<noteq> 0xFFFF" using gi(1) l(2,4) by auto
  define nd where "nd = new_session_node raw p"
  let ?s = "s\<lparr>mod_nodes := (mod_nodes s)(a \<mapsto> nd), node_lists := (node_lists s)(lh \<mapsto> cb_list_update (\<lambda>c. c[unat g := Some a]) l)\<rparr>"
  have "array_init_session e p (Some lh) s = Some (AR_EOK, Some a, ?s)"
    using l(1,3) e(1) g(1) ng gi(1) by (simp add: array_init_session_def modify_Some nd_def)
  moreover have "slots_ok ((mod_nodes s)(a \<mapsto> nd)) ((cb_list l)[unat g := Some a]) (m(p \<mapsto> a))"
    using slots_insert [OF l(5) gi e(2), of nd] assms(3) by (simp add: nd_def new_session_node_def)
  then have "array_rel lh n ?s (m(p \<mapsto> a))" using l by (simp add: array_rel_def)
  ultimately show ?thesis by blast
qed

lemma array_init_dup:
  assumes "array_rel lh n s m" "fresh_node e a s" "m p = Some b"
  shows "array_init_session e p (Some lh) s = Some (AR_EFAILED, None, s)"
proof -
  obtain l where l: "node_lists s lh = Some l" "length (cb_list l) = n" "unat (max_cb_list_size l) = n" "n \<le> 0xFFFF"
      "slots_ok (mod_nodes s) (cb_list l) m" using array_relD [OF assms(1)] by blast
  obtain raw where e: "e = Some (a, raw)" using assms(2) by (auto simp: fresh_node_def)
  obtain j where j: "port_slot (mod_nodes s) (cb_list l) j b p" using slots_at [OF l(5) assms(3)] by blast
  have "free_index_loop (mod_nodes s) (cb_list l) p 0 0xFFFF n = Some (Inl ())"
    using l(2,4) by (intro free_index_dup [OF l(5) _ _ j]) simp_all
  then show ?thesis using l(1,3) e by (simp add: array_init_session_def)
qed

interpretation array_sessions: session_table "array_rel lh" fresh_node "\<lambda>e p. array_init_session e p (Some lh)"
    "\<lambda>p. array_get_session p (Some lh)" "\<lambda>p. array_deinit_session p (Some lh)" for lh
proof
  show "array_rel lh n s m \<Longrightarrow> finite (dom m)" for n s m using array_relD slots_finite by blast
qed (rule array_get array_init array_init_dup array_deinit array_deinit_none; assumption)+

subsection \<open>Chains of nodes\<close>

fun schain :: "gpr_module_node store \<Rightarrow> ptr \<Rightarrow> addr list \<Rightarrow> bool" where
  "schain h p [] = (p = None)"
| "schain h p (a # as) = (p = Some a \<and> (\<exists>n. h a = Some n \<and> schain h (mnext n) as))"

definition port_of :: "gpr_module_node store \<Rightarrow> addr \<Rightarrow> u32" where
  "port_of h a = my_module_port (the (h a))"

lemma schain_dom: "schain h p as \<Longrightarrow> set as \<subseteq> dom h"
  by (induction as arbitrary: p) auto

lemma schain_frame: "(\<And>a. a \<in> set as \<Longrightarrow> h' a = h a) \<Longrightarrow> schain h' p as = schain h p as"
  by (induction as arbitrary: p) auto

lemma port_frame: "h' a = h a \<Longrightarrow> port_of h' a = port_of h a"
  by (simp add: port_of_def)

lemma schain_del: "x \<notin> set as \<Longrightarrow> schain (h(x := None)) p as = schain h p as"
  by (rule schain_frame) auto

lemma schain_upd: "x \<notin> set as \<Longrightarrow> schain (h(x \<mapsto> n)) p as = schain h p as"
  by (rule schain_frame) auto

text \<open>The next pointer of the node before a suffix is the pointer to the suffix.\<close>

lemma schain_suffix:
  "schain h p (us @ x # vs) \<Longrightarrow> \<exists>n. h x = Some n \<and> schain h (mnext n) vs"
  by (induction us arbitrary: p) auto

text \<open>Replacing what follows a node.\<close>

lemma schain_relink:
  assumes "schain h p (us @ x # vs)" "distinct (us @ [x])" "h x = Some n"
    and "schain h' q ws" "h' x = Some (n\<lparr>mnext := q\<rparr>)" "\<And>a. a \<in> set us \<Longrightarrow> h' a = h a"
  shows "schain h' p (us @ x # ws)"
  using assms(1,2,6)
proof (induction us arbitrary: p)
  case Nil
  then show ?case using assms(4,5) by simp
next
  case (Cons u us)
  then show ?case by auto
qed

lemma chain_find_eq:
  "schain h p as \<Longrightarrow> chain_find h q p = Some (List.find (\<lambda>a. port_of h a = q) as)"
proof (induction as arbitrary: p)
  case Nil
  then show ?case by (subst chain_find.simps) simp
next
  case (Cons a as)
  then obtain n where n: "p = Some a" "h a = Some n" "schain h (mnext n) as" by auto
  then show ?case using Cons.IH [OF n(3)] by (subst chain_find.simps) (simp add: port_of_def)
qed

lemma chain_end_eq:
  "schain h (Some x) (x # xs) \<Longrightarrow>
    chain_end h q x = Some (if q \<in> port_of h ` set xs then None else Some (last (x # xs)))"
proof (induction xs arbitrary: x)
  case Nil
  then show ?case by (subst chain_end.simps) auto
next
  case (Cons y ys)
  then obtain n where n: "h x = Some n" "mnext n = Some y" "schain h (Some y) (y # ys)" by auto
  then obtain k where k: "h y = Some k" by auto
  show ?case using n k Cons.IH [OF n(3)] by (subst chain_end.simps) (auto simp: port_of_def)
qed

lemma chain_pred_eq:
  "schain h (Some x) (x # xs) \<Longrightarrow>
    (q \<notin> port_of h ` set xs \<and> chain_pred h q x = Some None)
    \<or> (\<exists>us y z vs. x # xs = us @ y # z # vs \<and> port_of h z = q \<and> q \<notin> port_of h ` set (tl (us @ [y])) \<and> chain_pred h q x = Some (Some (y, z)))"
proof (induction xs arbitrary: x)
  case Nil
  then show ?case by (subst chain_pred.simps) auto
next
  case (Cons y ys)
  then obtain n where n: "h x = Some n" "mnext n = Some y" "schain h (Some y) (y # ys)" by auto
  then obtain k where k: "h y = Some k" by auto
  show ?case
  proof (cases "my_module_port k = q")
    case True
    then have "chain_pred h q x = Some (Some (x, y))" using n k by (subst chain_pred.simps) simp
    then show ?thesis using True k
      by (intro disjI2 exI [of _ "[]"] exI [of _ x] exI [of _ y] exI [of _ ys]) (simp add: port_of_def)
  next
    case False
    then have e: "chain_pred h q x = chain_pred h q y" using n k by (subst chain_pred.simps) simp
    have py: "port_of h y \<noteq> q" using False k by (simp add: port_of_def)
    from Cons.IH [OF n(3)] show ?thesis
    proof (elim disjE exE conjE)
      assume "q \<notin> port_of h ` set ys" "chain_pred h q y = Some None"
      then show ?thesis using e py by auto
    next
      fix us u z vs
      assume a: "y # ys = us @ u # z # vs" "port_of h z = q" "q \<notin> port_of h ` set (tl (us @ [u]))" "chain_pred h q y = Some (Some (u, z))"
      have "us @ [u] = y # tl (us @ [u])" using a(1) by (cases us) simp_all
      then have "q \<notin> port_of h ` set (us @ [u])" using a(3) py by (metis image_insert insertE list.simps(15))
      then show ?thesis using a e by (intro disjI2 exI [of _ "x # us"] exI [of _ u] exI [of _ z] exI [of _ vs]) simp
    qed
  qed
qed

subsection \<open>Hash table\<close>

text \<open>The place of a port, and the map the chains represent.\<close>

definition bucket :: "u32 \<Rightarrow> u32 \<Rightarrow> nat" where
  "bucket R p = unat (p mod (R - 1))"

definition chains_ok :: "u32 \<Rightarrow> gpr_module_node store \<Rightarrow> ptr list \<Rightarrow> (nat \<Rightarrow> addr list) \<Rightarrow> bool" where
  "chains_ok R h cbs ch \<longleftrightarrow> 1 < R \<and> length cbs = unat R \<and>
     (\<forall>k < unat (R - 1). schain h (cbs ! k) (ch k) \<and> distinct (map (port_of h) (ch k))
        \<and> (\<forall>a \<in> set (ch k). bucket R (port_of h a) = k))"

definition chain_map :: "u32 \<Rightarrow> gpr_module_node store \<Rightarrow> (nat \<Rightarrow> addr list) \<Rightarrow> u32 \<rightharpoonup> addr" where
  "chain_map R h ch p = List.find (\<lambda>a. port_of h a = p) (ch (bucket R p))"

definition hash_rel :: "addr \<Rightarrow> nat \<Rightarrow> gpr_session_mem \<Rightarrow> (u32 \<rightharpoonup> addr) \<Rightarrow> bool" where
  "hash_rel lh n s m \<longleftrightarrow> finite (dom (mod_nodes s)) \<and> (case node_lists s lh of None \<Rightarrow> False
     | Some l \<Rightarrow> \<exists>ch. chains_ok (max_cb_list_size l) (mod_nodes s) (cb_list l) ch \<and> m = chain_map (max_cb_list_size l) (mod_nodes s) ch)"

lemma bucket_lt:
  assumes "1 < R"
  shows "bucket R p < unat (R - 1)" "unat (R - 1) < unat R" "SESSION_HASH R p = Some (p mod (R - 1))"
proof -
  have "(1 :: u32) \<le> R" using assms by (rule order.strict_implies_order)
  then have u: "unat (R - 1) = unat R - 1" using unat_sub by fastforce
  have "1 < unat R" using assms by (simp add: word_less_nat_alt)
  then have pos: "0 < unat (R - 1)" "unat (R - 1) < unat R" using u by simp_all
  then show "unat (R - 1) < unat R" "bucket R p < unat (R - 1)" by (simp_all add: bucket_def unat_mod)
  have "R - 1 \<noteq> 0"
  proof
    assume "R - 1 = 0"
    then show False using pos(1) by (simp only: unsigned_0 less_irrefl)
  qed
  then show "SESSION_HASH R p = Some (p mod (R - 1))" by (simp add: SESSION_HASH_def)
qed

lemma find_unique:
  assumes "distinct (map f xs)" "x \<in> set xs"
  shows "List.find (\<lambda>a. f a = f x) xs = Some x"
  using assms by (induction xs) auto

lemma chain_map_Some:
  assumes "chains_ok R h cbs ch"
  shows "chain_map R h ch p = Some a \<longleftrightarrow> a \<in> set (ch (bucket R p)) \<and> port_of h a = p"
proof -
  have R: "1 < R" using assms by (simp add: chains_ok_def)
  have d: "distinct (map (port_of h) (ch (bucket R p)))"
    using assms bucket_lt(1) [OF R] unfolding chains_ok_def by blast
  show ?thesis
  proof
    assume "chain_map R h ch p = Some a"
    then show "a \<in> set (ch (bucket R p)) \<and> port_of h a = p"
      unfolding chain_map_def find_Some_iff by (metis nth_mem)
  next
    assume "a \<in> set (ch (bucket R p)) \<and> port_of h a = p"
    then show "chain_map R h ch p = Some a" using find_unique [OF d, of a] by (simp add: chain_map_def)
  qed
qed

lemma chain_map_None:
  "chain_map R h ch p = None \<longleftrightarrow> p \<notin> port_of h ` set (ch (bucket R p))"
  unfolding chain_map_def find_None_iff by auto

text \<open>A node is in one chain only.\<close>

lemma chains_disjoint:
  assumes "chains_ok R h cbs ch" "k < unat (R - 1)" "j < unat (R - 1)" "a \<in> set (ch k)" "a \<in> set (ch j)"
  shows "k = j"
  using assms unfolding chains_ok_def by metis

text \<open>
  A change of the chain \<open>k\<close> to \<open>xs\<close> that touches only nodes outside the other chains and
  leaves the ports as they are.
\<close>

lemma chains_update:
  assumes "chains_ok R h cbs ch" "k < unat (R - 1)" "length cbs' = length cbs" "\<And>j. j \<noteq> k \<Longrightarrow> cbs' ! j = cbs ! j"
    and "schain h' (cbs' ! k) xs" "distinct (map (port_of h') xs)" "\<And>a. a \<in> set xs \<Longrightarrow> bucket R (port_of h' a) = k"
    and "\<And>j a. j < unat (R - 1) \<Longrightarrow> j \<noteq> k \<Longrightarrow> a \<in> set (ch j) \<Longrightarrow> h' a = h a"
  shows "chains_ok R h' cbs' (ch(k := xs))"
proof -
  have "schain h' (cbs' ! j) ((ch(k := xs)) j) \<and> distinct (map (port_of h') ((ch(k := xs)) j))
      \<and> (\<forall>a \<in> set ((ch(k := xs)) j). bucket R (port_of h' a) = j)" if j: "j < unat (R - 1)" for j
  proof (cases "j = k")
    case True
    then show ?thesis using assms(5-7) by simp
  next
    case False
    then have eq: "\<And>a. a \<in> set (ch j) \<Longrightarrow> h' a = h a" using assms(8) j by blast
    have old: "schain h (cbs ! j) (ch j)" "distinct (map (port_of h) (ch j))" "\<forall>a \<in> set (ch j). bucket R (port_of h a) = j"
      using assms(1) j unfolding chains_ok_def by blast+
    have pt: "\<And>a. a \<in> set (ch j) \<Longrightarrow> port_of h' a = port_of h a" using eq port_frame by blast
    have "map (port_of h') (ch j) = map (port_of h) (ch j)" using pt by (intro map_cong [OF refl])
    then have "distinct (map (port_of h') (ch j))" using old(2) by (simp only:)
    moreover have "schain h' (cbs' ! j) (ch j)" using old(1) assms(4) [OF False] schain_frame [of "ch j" h' h, OF eq] by simp
    moreover have "\<forall>a \<in> set (ch j). bucket R (port_of h' a) = j" using old(3) pt by simp
    ultimately show ?thesis using False by simp
  qed
  then show ?thesis using assms(1,3) by (simp add: chains_ok_def)
qed

lemma hash_relD:
  assumes "hash_rel lh n s m"
  shows "\<exists>l ch. node_lists s lh = Some l \<and> chains_ok (max_cb_list_size l) (mod_nodes s) (cb_list l) ch
    \<and> m = chain_map (max_cb_list_size l) (mod_nodes s) ch \<and> finite (dom (mod_nodes s))"
  using assms by (auto simp: hash_rel_def split: option.splits)

text \<open>What the operations read of the table: its first node for a port.\<close>

lemma hash_place:
  assumes "chains_ok (max_cb_list_size l) h (cb_list l) ch"
  shows "SESSION_HASH (max_cb_list_size l) p = Some (p mod (max_cb_list_size l - 1))"
    and "arr_at (cb_list l) (unat (p mod (max_cb_list_size l - 1))) = Some (cb_list l ! bucket (max_cb_list_size l) p)"
    and "schain h (cb_list l ! bucket (max_cb_list_size l) p) (ch (bucket (max_cb_list_size l) p))"
proof -
  have R: "1 < max_cb_list_size l" "length (cb_list l) = unat (max_cb_list_size l)" using assms by (simp_all add: chains_ok_def)
  note b = bucket_lt(1) [OF R(1), of p] bucket_lt(2) [OF R(1)] bucket_lt(3) [OF R(1), of p]
  show "SESSION_HASH (max_cb_list_size l) p = Some (p mod (max_cb_list_size l - 1))" by (rule b(3))
  show "arr_at (cb_list l) (unat (p mod (max_cb_list_size l - 1))) = Some (cb_list l ! bucket (max_cb_list_size l) p)"
    using b(1,2) R(2) unfolding bucket_def arr_at_def by simp
  show "schain h (cb_list l ! bucket (max_cb_list_size l) p) (ch (bucket (max_cb_list_size l) p))"
    using assms b(1) unfolding chains_ok_def by blast
qed

lemma hash_get:
  assumes "hash_rel lh n s m"
  shows "hash_get_session p (Some lh) s = Some (case m p of None \<Rightarrow> (AR_ENOTEXIST, None) | Some a \<Rightarrow> (AR_EOK, Some a))"
proof -
  obtain l ch where l: "node_lists s lh = Some l" "chains_ok (max_cb_list_size l) (mod_nodes s) (cb_list l) ch"
      "m = chain_map (max_cb_list_size l) (mod_nodes s) ch"
    using hash_relD [OF assms] by blast
  note c = hash_place [OF l(2), of p]
  have "chain_find (mod_nodes s) p (cb_list l ! bucket (max_cb_list_size l) p) = Some (m p)"
    using chain_find_eq [OF c(3), of p] by (simp add: l(3) chain_map_def)
  then show ?thesis using l(1) c(1,2) by (cases "m p") (simp_all add: hash_get_session_def)
qed

text \<open>The map after a node has been added to a chain, and after one has been taken out.\<close>

lemma option_Some_eqI: "(\<And>b. x = Some b \<longleftrightarrow> y = Some b) \<Longrightarrow> x = y"
  by (metis option.exhaust)

lemma chain_map_add:
  assumes "chains_ok R h cbs ch" "chains_ok R h' cbs' (ch(bucket R p := xs))" "set xs = insert a (set (ch (bucket R p)))"
    and "port_of h' a = p" "\<And>j b. j < unat (R - 1) \<Longrightarrow> b \<in> set (ch j) \<Longrightarrow> b \<noteq> a \<and> port_of h' b = port_of h b"
    and "chain_map R h ch p = None"
  shows "chain_map R h' (ch(bucket R p := xs)) = (chain_map R h ch)(p \<mapsto> a)"
proof (rule ext, rule option_Some_eqI)
  fix q b
  have R: "1 < R" using assms(1) by (simp add: chains_ok_def)
  have old: "b \<in> set (ch (bucket R q)) \<Longrightarrow> b \<noteq> a \<and> port_of h' b = port_of h b" using assms(5) bucket_lt(1) [OF R] by blast
  have np: "p \<notin> port_of h ` set (ch (bucket R p))" using assms(6) by (simp add: chain_map_None)
  show "chain_map R h' (ch(bucket R p := xs)) q = Some b \<longleftrightarrow> ((chain_map R h ch)(p \<mapsto> a)) q = Some b"
  proof (cases "q = p")
    case True
    then show ?thesis using chain_map_Some [OF assms(2), of q b] assms(3,4) old np by auto
  next
    case False
    then show ?thesis using chain_map_Some [OF assms(2), of q b] chain_map_Some [OF assms(1), of q b] assms(3,4) old
      by (cases "bucket R q = bucket R p") auto
  qed
qed

lemma chain_map_del:
  assumes "chains_ok R h cbs ch" "chains_ok R h' cbs' (ch(bucket R p := xs))" "set xs = set (ch (bucket R p)) - {a}"
    and "a \<in> set (ch (bucket R p))" "port_of h a = p"
    and "\<And>j b. j < unat (R - 1) \<Longrightarrow> b \<in> set (ch j) \<Longrightarrow> b \<noteq> a \<Longrightarrow> port_of h' b = port_of h b"
  shows "chain_map R h' (ch(bucket R p := xs)) = (chain_map R h ch)(p := None)"
proof (rule ext, rule option_Some_eqI)
  fix q b
  have R: "1 < R" using assms(1) by (simp add: chains_ok_def)
  let ?ch = "ch(bucket R p := xs)"
  have old: "port_of h' b = port_of h b" if "b \<in> set (ch (bucket R q))" "b \<noteq> a" using assms(6) [OF bucket_lt(1) [OF R]] that by blast
  have mem: "b \<in> set (?ch (bucket R q)) \<longleftrightarrow> b \<in> set (ch (bucket R q)) \<and> b \<noteq> a"
  proof (cases "bucket R q = bucket R p")
    case False
    have "a \<notin> set (ch (bucket R q))"
      using chains_disjoint [OF assms(1) bucket_lt(1) [OF R] bucket_lt(1) [OF R], of a q p] False assms(4) by blast
    then show ?thesis using False by auto
  qed (simp add: assms(3))
  have a: "chain_map R h ch p = Some a" using chain_map_Some [OF assms(1)] assms(4,5) by blast
  have l: "chain_map R h' ?ch q = Some b \<longleftrightarrow> b \<in> set (ch (bucket R q)) \<and> b \<noteq> a \<and> port_of h b = q"
    unfolding chain_map_Some [OF assms(2)] mem using old by auto
  also have "\<dots> \<longleftrightarrow> chain_map R h ch q = Some b \<and> b \<noteq> a" unfolding chain_map_Some [OF assms(1)] by blast
  also have "\<dots> \<longleftrightarrow> ((chain_map R h ch)(p := None)) q = Some b"
  proof (cases "q = p")
    case True
    then show ?thesis using a by auto
  next
    case False
    have "b \<noteq> a" if "chain_map R h ch q = Some b" using that False assms(5) unfolding chain_map_Some [OF assms(1)] by blast
    then show ?thesis using False by auto
  qed
  finally show "chain_map R h' ?ch q = Some b \<longleftrightarrow> ((chain_map R h ch)(p := None)) q = Some b" .
qed

lemma chain_map_finite:
  assumes "chains_ok R h cbs ch"
  shows "finite (dom (chain_map R h ch))"
proof (rule finite_subset)
  have R: "1 < R" using assms by (simp add: chains_ok_def)
  show "dom (chain_map R h ch) \<subseteq> port_of h ` (\<Union>k < unat (R - 1). set (ch k))"
  proof
    fix p
    assume "p \<in> dom (chain_map R h ch)"
    then obtain a where "a \<in> set (ch (bucket R p))" "port_of h a = p" using chain_map_Some [OF assms] by blast
    then show "p \<in> port_of h ` (\<Union>k < unat (R - 1). set (ch k))" using bucket_lt(1) [OF R, of p] by blast
  qed
qed simp

lemma hash_deinit_none:
  assumes "hash_rel lh n s m" "m p = None"
  shows "hash_deinit_session p (Some lh) s = Some (AR_ENOTEXIST, s)"
proof -
  obtain l ch where l: "node_lists s lh = Some l" "chains_ok (max_cb_list_size l) (mod_nodes s) (cb_list l) ch"
      "m = chain_map (max_cb_list_size l) (mod_nodes s) ch"
    using hash_relD [OF assms(1)] by blast
  note c = hash_place [OF l(2), of p]
  let ?c = "ch (bucket (max_cb_list_size l) p)"
  have np: "p \<notin> port_of (mod_nodes s) ` set ?c" using assms(2) l(3) by (simp add: chain_map_None)
  show ?thesis
  proof (cases ?c)
    case Nil
    then show ?thesis using l(1) c by (simp add: hash_deinit_session_def)
  next
    case (Cons x xs)
    then obtain t where t: "cb_list l ! bucket (max_cb_list_size l) p = Some x" "mod_nodes s x = Some t" "my_module_port t \<noteq> p"
      using c(3) np by (auto simp: port_of_def)
    have "schain (mod_nodes s) (Some x) (x # xs)" using c(3) Cons t(1) by simp
    from chain_pred_eq [OF this, of p] have "chain_pred (mod_nodes s) p x = Some None"
    proof (elim disjE exE conjE)
      fix us y z vs
      assume "x # xs = us @ y # z # vs" "port_of (mod_nodes s) z = p"
      then have "z \<in> set ?c" "port_of (mod_nodes s) z = p" using Cons by simp_all
      then show ?thesis using np by blast
    qed
    then show ?thesis using l(1) c(1,2) t by (simp add: hash_deinit_session_def)
  qed
qed

lemma hash_init_dup:
  assumes "hash_rel lh n s m" "fresh_node e a s" "m p = Some b"
  shows "hash_init_session e p (Some lh) s = Some (AR_EFAILED, None, s)"
proof -
  obtain l ch where l: "node_lists s lh = Some l" "chains_ok (max_cb_list_size l) (mod_nodes s) (cb_list l) ch"
      "m = chain_map (max_cb_list_size l) (mod_nodes s) ch"
    using hash_relD [OF assms(1)] by blast
  obtain raw where e: "e = Some (a, raw)" using assms(2) by (auto simp: fresh_node_def)
  note c = hash_place [OF l(2), of p]
  let ?c = "ch (bucket (max_cb_list_size l) p)"
  have b: "b \<in> set ?c" "port_of (mod_nodes s) b = p" using assms(3) l(3) chain_map_Some [OF l(2)] by blast+
  then obtain x xs where x: "?c = x # xs" by (cases ?c) auto
  then obtain t where t: "cb_list l ! bucket (max_cb_list_size l) p = Some x" "mod_nodes s x = Some t" using c(3) by auto
  show ?thesis
  proof (cases "my_module_port t = p")
    case True
    then show ?thesis using l(1) c(1,2) t e by (simp add: hash_init_session_def)
  next
    case False
    then have "b \<in> set xs" using b x t(2) by (auto simp: port_of_def)
    then have "p \<in> port_of (mod_nodes s) ` set xs" using b(2) by blast
    moreover have "schain (mod_nodes s) (Some x) (x # xs)" using c(3) x t(1) by simp
    ultimately have "chain_end (mod_nodes s) p x = Some None" using chain_end_eq by simp
    then show ?thesis using l(1) c(1,2) t e False by (simp add: hash_init_session_def)
  qed
qed

text \<open>Adding a node at the end of its chain.\<close>

lemma chain_append_ok:
  assumes ok: "chains_ok R h cbs ch" and k: "k = bucket R p" and c: "ch k = us @ [e]" "h e = Some en"
    and a: "a \<notin> dom h" "my_module_port nd = p" "mnext nd = None" and np: "p \<notin> port_of h ` set (ch k)"
  shows "chains_ok R (h(e \<mapsto> en\<lparr>mnext := Some a\<rparr>, a \<mapsto> nd)) cbs (ch(k := ch k @ [a]))"
    and "chain_map R (h(e \<mapsto> en\<lparr>mnext := Some a\<rparr>, a \<mapsto> nd)) (ch(k := ch k @ [a])) = (chain_map R h ch)(p \<mapsto> a)"
proof -
  let ?h = "h(e \<mapsto> en\<lparr>mnext := Some a\<rparr>, a \<mapsto> nd)"
  have R: "1 < R" using ok by (simp add: chains_ok_def)
  have kl: "k < unat (R - 1)" unfolding k by (rule bucket_lt(1) [OF R])
  have ck: "schain h (cbs ! k) (us @ [e])" "distinct (map (port_of h) (us @ [e]))" "\<forall>x \<in> set (us @ [e]). bucket R (port_of h x) = k"
    using ok kl unfolding chains_ok_def c(1) [symmetric] by blast+
  have dist: "distinct (us @ [e])" using ck(2) by (simp only: distinct_map)
  have dj: "b \<in> dom h" if "j < unat (R - 1)" "b \<in> set (ch j)" for j b
    using ok that schain_dom unfolding chains_ok_def by blast
  have ports: "b \<noteq> a \<and> port_of ?h b = port_of h b" if "j < unat (R - 1)" "b \<in> set (ch j)" for j b
  proof -
    have "b \<noteq> a" using dj [OF that] a(1) by blast
    then show ?thesis using c(2) by (simp add: port_of_def)
  qed
  have old: "?h b = h b" if "j < unat (R - 1)" "j \<noteq> k" "b \<in> set (ch j)" for j b
  proof -
    have "b \<noteq> e" using chains_disjoint [OF ok that(1) kl that(3)] that(2) c(1) by auto
    then show ?thesis using ports [OF that(1,3)] by simp
  qed
  have pa: "port_of ?h a = p" using a(2) by (simp add: port_of_def)
  have us: "x \<noteq> e \<and> x \<noteq> a" if "x \<in> set us" for x
  proof
    show "x \<noteq> e" using dist that by auto
    have "x \<in> set (ch k)" using that c(1) by simp
    then show "x \<noteq> a" using ports [OF kl] by blast
  qed
  have ea: "e \<noteq> a" using a(1) c(2) by blast
  have "schain ?h (cbs ! k) (us @ e # [a])"
  proof (rule schain_relink [where h = h and vs = "[]" and n = en and q = "Some a"])
    show "schain h (cbs ! k) (us @ e # [])" "distinct (us @ [e])" "h e = Some en" using ck(1) dist c(2) by simp_all
    show "schain ?h (Some a) [a]" using a(3) by simp
    show "?h e = Some (en\<lparr>mnext := Some a\<rparr>)" using ea by simp
    show "?h x = h x" if "x \<in> set us" for x using us [OF that] by simp
  qed
  then have s: "schain ?h (cbs ! k) (ch k @ [a])" using c(1) by simp
  have m: "map (port_of ?h) (ch k) = map (port_of h) (ch k)" using ports [OF kl] by (intro map_cong [OF refl]) blast
  have d: "distinct (map (port_of ?h) (ch k @ [a]))"
    unfolding map_append m using ck(2) np pa by (auto simp: c(1))
  have bk: "bucket R (port_of ?h x) = k" if x: "x \<in> set (ch k @ [a])" for x
  proof (cases "x = a")
    case True
    then show ?thesis using pa k by simp
  next
    case False
    then have "x \<in> set (ch k)" using x by simp
    then show ?thesis using ports [OF kl] ck(3) c(1) by metis
  qed
  show ok': "chains_ok R ?h cbs (ch(k := ch k @ [a]))"
    by (rule chains_update [OF ok kl refl refl s d]) (use bk old in blast)+
  have "chain_map R h ch p = None" using np by (simp add: chain_map_None k)
  then show "chain_map R ?h (ch(k := ch k @ [a])) = (chain_map R h ch)(p \<mapsto> a)"
    using chain_map_add [OF ok, of ?h cbs p "ch k @ [a]" a] ok' ports pa unfolding k by simp
qed

lemma chain_first_ok:
  assumes ok: "chains_ok R h cbs ch" and k: "k = bucket R p" and c: "ch k = []"
    and a: "a \<notin> dom h" "my_module_port nd = p" "mnext nd = None"
  shows "chains_ok R (h(a \<mapsto> nd)) (cbs[k := Some a]) (ch(k := [a]))"
    and "chain_map R (h(a \<mapsto> nd)) (ch(k := [a])) = (chain_map R h ch)(p \<mapsto> a)"
proof -
  let ?h = "h(a \<mapsto> nd)"
  have R: "1 < R" "length cbs = unat R" using ok by (simp_all add: chains_ok_def)
  have kl: "k < unat (R - 1)" unfolding k by (rule bucket_lt(1) [OF R(1)])
  then have kc: "k < length cbs" using bucket_lt(2) [OF R(1)] R(2) by simp
  have ports: "b \<noteq> a \<and> port_of ?h b = port_of h b" if "j < unat (R - 1)" "b \<in> set (ch j)" for j b
  proof -
    have "b \<in> dom h" using ok that schain_dom unfolding chains_ok_def by blast
    then have "b \<noteq> a" using a(1) by blast
    then show ?thesis by (simp add: port_of_def)
  qed
  have pa: "port_of ?h a = p" using a(2) by (simp add: port_of_def)
  show ok': "chains_ok R ?h (cbs[k := Some a]) (ch(k := [a]))"
  proof (rule chains_update [OF ok kl])
    show "schain ?h (cbs[k := Some a] ! k) [a]" using kc a(3) by simp
    show "?h b = h b" if "j < unat (R - 1)" "b \<in> set (ch j)" for j b using ports [OF that] by simp
  qed (use pa k in simp_all)
  have "chain_map R h ch p = None" using c by (simp add: chain_map_None k [symmetric])
  then show "chain_map R ?h (ch(k := [a])) = (chain_map R h ch)(p \<mapsto> a)"
    using chain_map_add [OF ok, of ?h "cbs[k := Some a]" p "[a]" a] ok' ports pa c unfolding k by simp
qed

lemma hash_init:
  assumes "hash_rel lh n s m" "fresh_node e a s" "m p = None"
  shows "\<exists>s'. hash_init_session e p (Some lh) s = Some (AR_EOK, Some a, s') \<and> hash_rel lh n s' (m(p \<mapsto> a))"
proof -
  obtain l ch where l: "node_lists s lh = Some l" "chains_ok (max_cb_list_size l) (mod_nodes s) (cb_list l) ch"
      "m = chain_map (max_cb_list_size l) (mod_nodes s) ch" "finite (dom (mod_nodes s))"
    using hash_relD [OF assms(1)] by blast
  obtain raw where e: "e = Some (a, raw)" "a \<notin> dom (mod_nodes s)" using assms(2) by (auto simp: fresh_node_def)
  note c = hash_place [OF l(2), of p]
  define nd where "nd = new_session_node raw p"
  have nd: "my_module_port nd = p" "mnext nd = None" by (simp_all add: nd_def new_session_node_def)
  define k where "k = bucket (max_cb_list_size l) p"
  have np: "p \<notin> port_of (mod_nodes s) ` set (ch k)" using assms(3) l(3) by (simp add: chain_map_None k_def)
  show ?thesis
  proof (cases "ch k")
    case Nil
    let ?s = "s\<lparr>mod_nodes := (mod_nodes s)(a \<mapsto> nd), node_lists := (node_lists s)(lh \<mapsto> cb_list_update (\<lambda>c. c[k := Some a]) l)\<rparr>"
    note f = chain_first_ok [OF l(2) k_def Nil e(2) nd]
    have "cb_list l ! k = None" using c(3) Nil by (simp add: k_def)
    then have "hash_init_session e p (Some lh) s = Some (AR_EOK, Some a, ?s)"
      using l(1) c(1,2) e(1) by (simp add: hash_init_session_def modify_Some nd_def k_def bucket_def)
    moreover have "hash_rel lh n ?s (m(p \<mapsto> a))" using l(3,4) f by (auto simp: hash_rel_def)
    ultimately show ?thesis by blast
  next
    case (Cons x xs)
    have sc: "schain (mod_nodes s) (Some x) (x # xs)" "cb_list l ! k = Some x" using c(3) Cons by (simp_all add: k_def)
    then obtain t where t: "mod_nodes s x = Some t" by auto
    have tp: "my_module_port t \<noteq> p" using np Cons t by (auto simp: port_of_def)
    obtain us z where uz: "x # xs = us @ [z]" by (metis list.distinct(1) rev_exhaust)
    have "chain_end (mod_nodes s) p x = Some (Some (last (x # xs)))" using chain_end_eq [OF sc(1), of p] np Cons by simp
    then have ce: "chain_end (mod_nodes s) p x = Some (Some z)" using uz by simp
    obtain zn where zn: "mod_nodes s z = Some zn" using schain_suffix [of "mod_nodes s" "Some x" us z "[]"] sc(1) uz by auto
    have cz: "ch k = us @ [z]" using Cons uz by simp
    note f = chain_append_ok [OF l(2) k_def cz zn e(2) nd np]
    let ?h = "(mod_nodes s)(z \<mapsto> zn\<lparr>mnext := Some a\<rparr>, a \<mapsto> nd)"
    have "hash_init_session e p (Some lh) s = Some (AR_EOK, Some a, s\<lparr>mod_nodes := ?h\<rparr>)"
      using l(1) c(1,2) e(1) sc(2) t tp ce zn by (simp add: hash_init_session_def modify_Some nd_def k_def)
    moreover have "hash_rel lh n (s\<lparr>mod_nodes := ?h\<rparr>) (m(p \<mapsto> a))" using l f by (auto simp: hash_rel_def)
    ultimately show ?thesis by blast
  qed
qed

text \<open>Taking a node out of its chain.\<close>

lemma chain_remove_ok:
  assumes ok: "chains_ok R h cbs ch" and k: "k = bucket R p" and c: "ch k = us @ a # vs" "port_of h a = p"
    and h': "h' a = None \<or> h' a = h a" "\<And>b. b \<notin> insert a (set us) \<Longrightarrow> h' b = h b" "\<And>b. b \<in> set us \<Longrightarrow> port_of h' b = port_of h b"
    and s: "schain h' (cbs' ! k) (us @ vs)" and cbs': "length cbs' = length cbs" "\<And>j. j \<noteq> k \<Longrightarrow> cbs' ! j = cbs ! j"
  shows "chains_ok R h' cbs' (ch(k := us @ vs))"
    and "chain_map R h' (ch(k := us @ vs)) = (chain_map R h ch)(p := None)"
proof -
  have R: "1 < R" using ok by (simp add: chains_ok_def)
  have kl: "k < unat (R - 1)" unfolding k by (rule bucket_lt(1) [OF R])
  have ck: "distinct (map (port_of h) (us @ a # vs))" "\<forall>x \<in> set (us @ a # vs). bucket R (port_of h x) = k"
    using ok kl unfolding chains_ok_def c(1) [symmetric] by blast+
  have dist: "distinct (us @ a # vs)" using ck(1) by (simp only: distinct_map)
  have ports: "port_of h' b = port_of h b" if "b \<noteq> a" for b
  proof (cases "b \<in> set us")
    case True
    then show ?thesis by (rule h'(3))
  next
    case False
    then show ?thesis using that h'(2) [of b] by (simp add: port_of_def)
  qed
  have old: "h' b = h b" if "j < unat (R - 1)" "j \<noteq> k" "b \<in> set (ch j)" for j b
  proof -
    have "b \<notin> set (ch k)" using chains_disjoint [OF ok that(1) kl that(3)] that(2) by blast
    then show ?thesis using c(1) by (intro h'(2)) simp
  qed
  have na: "x \<noteq> a" if "x \<in> set (us @ vs)" for x using dist that by auto
  have e: "map (port_of h') (us @ vs) = map (port_of h) (us @ vs)" using ports na by (intro map_cong [OF refl]) blast
  have d: "distinct (map (port_of h') (us @ vs))" unfolding e using ck(1) by simp
  have bk: "bucket R (port_of h' x) = k" if "x \<in> set (us @ vs)" for x
  proof -
    have "x \<in> set (us @ a # vs)" using that by auto
    then show ?thesis using ck(2) ports [OF na [OF that]] by metis
  qed
  show ok': "chains_ok R h' cbs' (ch(k := us @ vs))"
    by (rule chains_update [OF ok kl cbs' s d]) (use bk old in blast)+
  have "set (us @ vs) = set (ch k) - {a}" using c(1) dist by auto
  then show "chain_map R h' (ch(k := us @ vs)) = (chain_map R h ch)(p := None)"
    using chain_map_del [OF ok, of h' cbs' p "us @ vs" a] ok' c ports unfolding k by simp
qed

lemma hash_deinit:
  assumes "hash_rel lh n s m" "m p = Some a"
  shows "\<exists>s'. hash_deinit_session p (Some lh) s = Some (AR_EOK, s') \<and> hash_rel lh n s' (m(p := None))"
proof -
  obtain l ch where l: "node_lists s lh = Some l" "chains_ok (max_cb_list_size l) (mod_nodes s) (cb_list l) ch"
      "m = chain_map (max_cb_list_size l) (mod_nodes s) ch" "finite (dom (mod_nodes s))"
    using hash_relD [OF assms(1)] by blast
  let ?h = "mod_nodes s"
  note c = hash_place [OF l(2), of p]
  define k where "k = bucket (max_cb_list_size l) p"
  have a: "a \<in> set (ch k)" "port_of ?h a = p" using assms(2) l(3) chain_map_Some [OF l(2)] unfolding k_def by blast+
  obtain x xs where x: "ch k = x # xs" using a(1) by (cases "ch k") auto
  have R: "1 < max_cb_list_size l" "length (cb_list l) = unat (max_cb_list_size l)" using l(2) by (simp_all add: chains_ok_def)
  have kl: "k < unat (max_cb_list_size l - 1)" "k < length (cb_list l)"
    using bucket_lt(1) [OF R(1), of p] bucket_lt(2) [OF R(1)] R(2) by (simp_all add: k_def)
  have dp: "distinct (map (port_of ?h) (ch k))" using l(2) kl(1) unfolding chains_ok_def by blast
  have sc: "schain ?h (Some x) (x # xs)" "cb_list l ! k = Some x" using c(3) x by (simp_all add: k_def)
  then obtain t where t: "?h x = Some t" "schain ?h (mnext t) xs" by auto
  show ?thesis
  proof (cases "my_module_port t = p")
    case True
    then have px: "port_of ?h x = p" using t(1) by (simp add: port_of_def)
    let ?s = "s\<lparr>mod_nodes := ?h(x := None), node_lists := (node_lists s)(lh \<mapsto> cb_list_update (\<lambda>c. c[k := mnext t]) l)\<rparr>"
    have "x \<notin> set xs" using dp x by auto
    then have "schain (?h(x := None)) (mnext t) xs" using t(2) by (simp add: schain_del)
    then have f: "chains_ok (max_cb_list_size l) (?h(x := None)) ((cb_list l)[k := mnext t]) (ch(k := [] @ xs))"
        "chain_map (max_cb_list_size l) (?h(x := None)) (ch(k := [] @ xs)) = m(p := None)"
      using chain_remove_ok [OF l(2) k_def, of "[]" x xs "?h(x := None)" "(cb_list l)[k := mnext t]"] x px kl(2) l(3) by simp_all
    have "hash_deinit_session p (Some lh) s = Some (AR_EOK, ?s)"
      using l(1) c(1,2) sc(2) t(1) True by (cases "mnext t") (simp_all add: hash_deinit_session_def modify_Some k_def bucket_def)
    moreover have "hash_rel lh n ?s (m(p := None))" using l(4) f by (auto simp: hash_rel_def)
    ultimately show ?thesis by blast
  next
    case False
    then have px: "port_of ?h x \<noteq> p" using t(1) by (simp add: port_of_def)
    then have "p \<in> port_of ?h ` set xs" using a x by auto
    then obtain us y z vs where z: "x # xs = us @ y # z # vs" "port_of ?h z = p" "chain_pred ?h p x = Some (Some (y, z))"
      using chain_pred_eq [OF sc(1), of p] by blast
    obtain yn where yn: "?h y = Some yn" "schain ?h (mnext yn) (z # vs)" using schain_suffix sc(1) z(1) by metis
    obtain zn where zn: "?h z = Some zn" "schain ?h (mnext zn) vs" using yn(2) by auto
    have ck: "ch k = (us @ [y]) @ z # vs" using x z(1) by simp
    have "distinct (ch k)" using dp by (simp only: distinct_map)
    then have dist: "distinct (us @ y # z # vs)" using ck by simp
    let ?h' = "?h(z := None, y \<mapsto> yn\<lparr>mnext := mnext zn\<rparr>)"
    have "schain ?h' (mnext zn) vs" using zn(2) dist by (simp add: schain_del schain_upd)
    then have "schain ?h' (Some x) (us @ y # vs)"
    proof (rule schain_relink [where h = ?h and vs = "z # vs" and n = yn, rotated 3])
      show "schain ?h (Some x) (us @ y # z # vs)" using sc(1) z(1) by simp
      show "distinct (us @ [y])" "?h y = Some yn" "?h' y = Some (yn\<lparr>mnext := mnext zn\<rparr>)" using dist yn(1) by simp_all
      show "?h' b = ?h b" if "b \<in> set us" for b using dist that by auto
    qed
    then have sch: "schain ?h' (cb_list l ! k) ((us @ [y]) @ vs)" using sc(2) by simp
    have pt: "port_of ?h' b = port_of ?h b" if "b \<in> set (us @ [y])" for b
      using that dist yn(1) by (auto simp: port_of_def)
    have f: "chains_ok (max_cb_list_size l) ?h' (cb_list l) (ch(k := (us @ [y]) @ vs))"
        "chain_map (max_cb_list_size l) ?h' (ch(k := (us @ [y]) @ vs)) = m(p := None)"
      unfolding l(3) by (rule chain_remove_ok [OF l(2) k_def ck z(2) _ _ pt sch refl refl]; use dist in auto)+
    have "hash_deinit_session p (Some lh) s = Some (AR_EOK, s\<lparr>mod_nodes := ?h'\<rparr>)"
      using l(1) c(1,2) sc(2) t(1) False z(3) yn(1) zn(1) dist
      by (simp add: hash_deinit_session_def modify_Some k_def modify_def)
    moreover have "hash_rel lh n (s\<lparr>mod_nodes := ?h'\<rparr>) (m(p := None))" using l(1,4) f by (auto simp: hash_rel_def)
    ultimately show ?thesis by blast
  qed
qed

interpretation hash_sessions: session_table "hash_rel lh" fresh_node "\<lambda>e p. hash_init_session e p (Some lh)"
    "\<lambda>p. hash_get_session p (Some lh)" "\<lambda>p. hash_deinit_session p (Some lh)" for lh
proof
  show "hash_rel lh n s m \<Longrightarrow> finite (dom m)" for n s m using hash_relD chain_map_finite by blast
qed (rule hash_get hash_init hash_init_dup hash_deinit hash_deinit_none; assumption)+

subsection \<open>Examples\<close>

text \<open>An allocator that always finds memory beyond all nodes.\<close>

definition pick_node :: "gpr_session_mem \<Rightarrow> node_answer" where
  "pick_node s = Some (Suc (Max (insert 0 (dom (mod_nodes s)))),
     \<lparr>my_module_port = 0, session = \<lparr>callback_fn = None, callback_data = None\<rparr>, mnext = None\<rparr>)"

lemma pick_node_fresh:
  assumes "finite (dom (mod_nodes s))"
  shows "fresh_node (pick_node s) (Suc (Max (insert 0 (dom (mod_nodes s))))) s"
proof -
  have "Suc (Max (insert 0 (dom (mod_nodes s)))) \<notin> dom (mod_nodes s)"
  proof
    assume "Suc (Max (insert 0 (dom (mod_nodes s)))) \<in> dom (mod_nodes s)"
    then have "Suc (Max (insert 0 (dom (mod_nodes s)))) \<le> Max (insert 0 (dom (mod_nodes s)))" using assms by (intro Max_ge) auto
    then show False by simp
  qed
  then show ?thesis by (simp add: fresh_node_def pick_node_def)
qed

definition ex_sessions :: gpr_session_mem where
  "ex_sessions = \<lparr>mod_nodes = Map.empty,
     node_lists = [50 \<mapsto> \<lparr>heap_index = 0, max_cb_list_size = 3, cb_list = replicate 3 None\<rparr>]\<rparr>"

lemma ex_array: "array_rel 50 3 ex_sessions Map.empty"
  by (simp add: array_rel_def ex_sessions_def slots_ok_def port_slot_def)

lemma ex_hash: "hash_rel 50 3 ex_sessions Map.empty"
proof -
  have "chains_ok 3 Map.empty (replicate 3 None) (\<lambda>_. [])"
    by (simp add: chains_ok_def word_less_nat_alt)
  moreover have "chain_map 3 Map.empty (\<lambda>_. []) = Map.empty" by (simp add: chain_map_def fun_eq_iff)
  ultimately show ?thesis unfolding hash_rel_def ex_sessions_def by (simp, metis)
qed

definition ex_session_ops :: "session_op list" where
  "ex_session_ops = [Init_Op 5, Init_Op 7, Init_Op 5, Get_Op 7, Deinit_Op 5, Get_Op 5, Deinit_Op 5]"

subsection \<open>Properties\<close>

text \<open>
  C8: while the array has room and memory is available the two implementations of the session table are
  interchangeable: on two tables with the same registered ports, a history of
  registrations, lookups and deregistrations in which every registration of a new port finds fewer registered ports
  than the array has places, and in which every request for memory is served, gives the same result codes on both,
  those of a partial map, and leaves the same ports registered; neither faults or loops.  Without room the two differ:
  the array refuses the port (gpr_array_full_keeps_node), the hash table chains it.
\<close>

theorem gpr_session_tables_agree:
  assumes "array_rel lh n s m" "hash_rel lh' n s' m'" "dom m = dom m'" "spec_fits n (dom m) ops"
    and "\<And>t. finite (dom (mod_nodes t)) \<Longrightarrow> \<exists>a. fresh_node (mem t) a t"
  shows "\<exists>t t' k k'.
      run_sessions mem (\<lambda>e p. array_init_session e p (Some lh)) (\<lambda>p. array_get_session p (Some lh))
        (\<lambda>p. array_deinit_session p (Some lh)) s ops = Some (spec_codes (dom m) ops, t)
    \<and> run_sessions mem (\<lambda>e p. hash_init_session e p (Some lh')) (\<lambda>p. hash_get_session p (Some lh'))
        (\<lambda>p. hash_deinit_session p (Some lh')) s' ops = Some (spec_codes (dom m) ops, t')
    \<and> array_rel lh n t k \<and> hash_rel lh' n t' k' \<and> dom k = spec_ports (dom m) ops \<and> dom k' = spec_ports (dom m) ops"
proof -
  have a: "\<exists>a. fresh_node (mem t) a t" if "array_rel lh n t m" for t m using array_relD [OF that] assms(5) by blast
  have h: "\<exists>a. fresh_node (mem t) a t" if "hash_rel lh' n t m" for t m using hash_relD [OF that] assms(5) by blast
  have "\<exists>t k. run_sessions mem (\<lambda>e p. array_init_session e p (Some lh)) (\<lambda>p. array_get_session p (Some lh))
        (\<lambda>p. array_deinit_session p (Some lh)) s ops = Some (spec_codes (dom m) ops, t) \<and> array_rel lh n t k
      \<and> dom k = spec_ports (dom m) ops"
    by (rule array_sessions.run_codes [OF assms(1) _ assms(4)]) (rule a)
  moreover have "\<exists>t k. run_sessions mem (\<lambda>e p. hash_init_session e p (Some lh')) (\<lambda>p. hash_get_session p (Some lh'))
        (\<lambda>p. hash_deinit_session p (Some lh')) s' ops = Some (spec_codes (dom m) ops, t) \<and> hash_rel lh' n t k
      \<and> dom k = spec_ports (dom m) ops"
    unfolding assms(3) by (rule hash_sessions.run_codes [OF assms(2)]) (use h assms(3,4) in auto)
  ultimately show ?thesis by blast
qed

theorem gpr_session_tables_agree_witness:
  "\<exists>t t' k k'.
      run_sessions pick_node (\<lambda>e p. array_init_session e p (Some 50)) (\<lambda>p. array_get_session p (Some 50))
        (\<lambda>p. array_deinit_session p (Some 50)) ex_sessions ex_session_ops = Some ([AR_EOK, AR_EOK, AR_EFAILED, AR_EOK, AR_EOK, AR_ENOTEXIST, AR_ENOTEXIST], t)
    \<and> run_sessions pick_node (\<lambda>e p. hash_init_session e p (Some 50)) (\<lambda>p. hash_get_session p (Some 50))
        (\<lambda>p. hash_deinit_session p (Some 50)) ex_sessions ex_session_ops = Some ([AR_EOK, AR_EOK, AR_EFAILED, AR_EOK, AR_EOK, AR_ENOTEXIST, AR_ENOTEXIST], t')
    \<and> array_rel 50 3 t k \<and> hash_rel 50 3 t' k' \<and> dom k = {7} \<and> dom k' = {7}"
proof -
  have f: "spec_fits 3 (dom (Map.empty :: u32 \<rightharpoonup> addr)) ex_session_ops" by (simp add: ex_session_ops_def)
  have c: "spec_codes (dom (Map.empty :: u32 \<rightharpoonup> addr)) ex_session_ops = [AR_EOK, AR_EOK, AR_EFAILED, AR_EOK, AR_EOK, AR_ENOTEXIST, AR_ENOTEXIST]"
    by (simp add: ex_session_ops_def)
  have p: "spec_ports (dom (Map.empty :: u32 \<rightharpoonup> addr)) ex_session_ops = {7}" by (auto simp: ex_session_ops_def)
  show ?thesis using gpr_session_tables_agree [OF ex_array ex_hash refl f, of pick_node] pick_node_fresh unfolding c p by blast
qed

text \<open>
  in the hash table, registering a free port succeeds with a session of its own, which is what lookups of
  the port then find, lookups of every other port are unaffected, and deregistering it brings back the table as it was.
\<close>

theorem gpr_session_register_get:
  assumes "hash_rel lh n s m" "fresh_node e a s" "m p = None" "card (dom m) < n"
  shows "\<exists>s'. hash_init_session e p (Some lh) s = Some (AR_EOK, Some a, s') \<and> hash_get_session p (Some lh) s' = Some (AR_EOK, Some a)
    \<and> (\<forall>q. q \<noteq> p \<longrightarrow> hash_get_session q (Some lh) s' = hash_get_session q (Some lh) s)
    \<and> (\<exists>s''. hash_deinit_session p (Some lh) s' = Some (AR_EOK, s'') \<and> hash_rel lh n s'' m)"
  by (rule hash_sessions.register_then_get [OF assms])

theorem gpr_session_register_get_witness:
  "\<exists>a s'. hash_init_session (pick_node ex_sessions) 5 (Some 50) ex_sessions = Some (AR_EOK, Some a, s')
    \<and> hash_get_session 5 (Some 50) s' = Some (AR_EOK, Some a)
    \<and> (\<forall>q. q \<noteq> 5 \<longrightarrow> hash_get_session q (Some 50) s' = hash_get_session q (Some 50) ex_sessions)
    \<and> (\<exists>s''. hash_deinit_session 5 (Some 50) s' = Some (AR_EOK, s'') \<and> hash_rel 50 3 s'' Map.empty)"
  using gpr_session_register_get [OF ex_hash pick_node_fresh, of 5] by (auto simp: ex_sessions_def)

text \<open>
  registering a new port in an array whose places are all taken fails, and the memory that was allocated for its
  node is not given back.
\<close>

theorem gpr_array_full_keeps_node:
  assumes "array_rel lh n s m" "m p = None" "a \<notin> dom (mod_nodes s)"
    and "node_lists s lh = Some l" "None \<notin> set (cb_list l)"
  shows "\<exists>s'. array_init_session (Some (a, raw)) p (Some lh) s = Some (AR_EFAILED, None, s') \<and> mod_nodes s' = (mod_nodes s)(a \<mapsto> raw)
    \<and> (\<forall>q. array_get_session q (Some lh) s' = array_get_session q (Some lh) s) "
proof -
  have l: "length (cb_list l) = n" "unat (max_cb_list_size l) = n" "n \<le> 0xFFFF" "slots_ok (mod_nodes s) (cb_list l) m" "finite (dom (mod_nodes s))"
    using array_relD [OF assms(1)] assms(4) by auto
  have n32: "length (cb_list l) < 2 ^ 32" using l(1,3) by simp
  have full: "\<And>j. j < length (cb_list l) \<Longrightarrow> cb_list l ! j \<noteq> None" using assms(5) by (metis nth_mem)
  obtain g where g: "free_index_loop (mod_nodes s) (cb_list l) p 0 0xFFFF n = Some (Inr g)"
      "g = 0xFFFF \<or> unat g < length (cb_list l) \<and> cb_list l ! unat g = None"
    using free_index_new [OF l(4) _ n32 assms(2), of 0 n "0xFFFF"] l(1) by auto
  have "g = 0xFFFF" using g(2) full [of "unat g"] by blast
  let ?s = "s\<lparr>mod_nodes := (mod_nodes s)(a \<mapsto> raw)\<rparr>"
  have i: "array_init_session (Some (a, raw)) p (Some lh) s = Some (AR_EFAILED, None, ?s)"
    using assms(4) l(2) g(1) \<open>g = 0xFFFF\<close> by (simp add: array_init_session_def)
  have na: "b \<noteq> a" if "i < length (cb_list l)" "cb_list l ! i = Some b" for i b
    using slots_of_Some [OF l(4) that] assms(3) by auto
  have sl: "port_slot ((mod_nodes s)(a \<mapsto> raw)) (cb_list l) i b q \<longleftrightarrow> port_slot (mod_nodes s) (cb_list l) i b q" for i b q
    using na by (auto simp: port_slot_def)
  have "slots_ok ((mod_nodes s)(a \<mapsto> raw)) (cb_list l) m" using l(4) unfolding slots_ok_def sl by auto
  then have "array_rel lh n ?s m" using assms(4) l by (simp add: array_rel_def)
  then have "\<forall>q. array_get_session q (Some lh) ?s = array_get_session q (Some lh) s"
    using array_get [of lh n ?s m] array_get [OF assms(1)] by simp
  then show ?thesis using i by (intro exI [of _ ?s]) simp
qed

theorem gpr_array_full_keeps_node_witness:
  "\<exists>s'. array_init_session (Some (60, \<lparr>my_module_port = 0, session = \<lparr>callback_fn = None, callback_data = None\<rparr>, mnext = None\<rparr>)) 9 (Some 50)
      \<lparr>mod_nodes = Map.empty, node_lists = [50 \<mapsto> \<lparr>heap_index = 0, max_cb_list_size = 0, cb_list = []\<rparr>]\<rparr> = Some (AR_EFAILED, None, s')
    \<and> mod_nodes s' = Map.empty(60 \<mapsto> \<lparr>my_module_port = 0, session = \<lparr>callback_fn = None, callback_data = None\<rparr>, mnext = None\<rparr>)"
proof -
  have "array_rel 50 0 \<lparr>mod_nodes = Map.empty, node_lists = [50 \<mapsto> \<lparr>heap_index = 0, max_cb_list_size = 0, cb_list = []\<rparr>]\<rparr> Map.empty"
    by (simp add: array_rel_def slots_ok_def port_slot_def)
  from gpr_array_full_keeps_node [OF this, where p = 9 and a = 60 and l = "\<lparr>heap_index = 0, max_cb_list_size = 0, cb_list = []\<rparr>"
      and raw = "\<lparr>my_module_port = 0, session = \<lparr>callback_fn = None, callback_data = None\<rparr>, mnext = None\<rparr>"]
  show ?thesis by auto
qed

end
