(* ===== verification/Gpr_Drv.thy ===== *)
theory Gpr_Drv
  imports Gpr_Memq_Proofs Gpr_Session_Proofs
begin

text \<open>
  The packet router's driver (\<^verbatim>\<open>gpr/core/src/gpr_drv.c\<close>, \<^verbatim>\<open>gpr_drv_island.c\<close>) and the packets it
  allocates one by one (\<^verbatim>\<open>gpr/ext/dynamic_allocation/src/gpr_dynamic_allocation.c\<close>). The driver
  owns pools of packets (\<open>Gpr_Memq\<close>), the sessions of the modules of its own domain
  (\<open>Gpr_Session\<close>, the hash implementation, which the build files link) and a table of the
  data links to the other domains. The state is one record that extends the memory of the
  pools: packets are a store of their headers, with what is behind the header in a function
  of its own. Code outside the driver is a parameter: a record \<open>gpr_env\<close> holds what a module's
  callback and a data link do to the state. The driver's mutexes and log messages are left
  out.
\<close>

subsection \<open>Packets\<close>

record gpr_packet =
  header :: u32
  dst_domain_id :: u8
  src_domain_id :: u8
  client_data :: u8
  pkt_reserved :: u8
  src_port :: u32
  dst_port :: u32
  token :: u32
  opcode :: u32

abbreviation (input) GPR_PKT_VERSION_V :: u32 where "GPR_PKT_VERSION_V \<equiv> 0"
abbreviation (input) GPR_PKT_HEADER_WORD_SIZE_V :: u32 where "GPR_PKT_HEADER_WORD_SIZE_V \<equiv> 6"
abbreviation (input) GPR_PKT_HEADER_BYTE_SIZE_V :: u32 where "GPR_PKT_HEADER_BYTE_SIZE_V \<equiv> 24"
abbreviation (input) GPR_UNDEFINED_ID_V :: u32 where "GPR_UNDEFINED_ID_V \<equiv> 0xFFFFFFFF"

definition GPR_GET_BITMASK :: "u32 \<Rightarrow> nat \<Rightarrow> u32 \<Rightarrow> u32" where
  "GPR_GET_BITMASK msk shift v = drop_bit shift (v AND msk)"

definition GPR_SET_BITMASK :: "u32 \<Rightarrow> nat \<Rightarrow> u32 \<Rightarrow> u32" where
  "GPR_SET_BITMASK msk shift v = push_bit shift v AND msk"

text \<open>The fields of the header word: version, size of the header in words, size of the packet in bytes.\<close>

definition GPR_PKT_GET_PACKET_BYTE_SIZE :: "u32 \<Rightarrow> u32" where
  "GPR_PKT_GET_PACKET_BYTE_SIZE hdr = GPR_GET_BITMASK 0xFFFFFF00 8 hdr"

definition GPR_PKT_GET_HEADER_BYTE_SIZE :: "u32 \<Rightarrow> u32" where
  "GPR_PKT_GET_HEADER_BYTE_SIZE hdr = push_bit 2 (GPR_GET_BITMASK 0xF0 4 hdr)"

definition GPR_PKT_GET_PAYLOAD_BYTE_SIZE :: "u32 \<Rightarrow> u32" where
  "GPR_PKT_GET_PAYLOAD_BYTE_SIZE hdr = GPR_PKT_GET_PACKET_BYTE_SIZE hdr - GPR_PKT_GET_HEADER_BYTE_SIZE hdr"

definition packet_header :: "u32 \<Rightarrow> u32" where
  "packet_header packet_size = GPR_SET_BITMASK 0xF 0 GPR_PKT_VERSION_V OR
     GPR_SET_BITMASK 0xF0 4 GPR_PKT_HEADER_WORD_SIZE_V OR GPR_SET_BITMASK 0xFFFFFF00 8 packet_size"

text \<open>A packet right after its allocation.\<close>

definition init_packet :: "u32 \<Rightarrow> gpr_packet" where
  "init_packet packet_size = \<lparr>header = packet_header packet_size, dst_domain_id = 0, src_domain_id = 0, client_data = 0,
     pkt_reserved = 0, src_port = 0, dst_port = 0, token = 0, opcode = GPR_UNDEFINED_ID_V\<rparr>"

subsection \<open>State\<close>

record gpr_drv_pkt_static_pool_info =
  packet_heap :: ptr
  packet_heap_end :: ptr
  free_packets_memq :: ptr
  buf_size :: u32
  num_packets :: u32
  pool_heap_index :: u32

record gpr_drv_pkt_dynamic_pool_info =
  dyn_buf_size :: u32
  max_num_packets :: u32
  curr_num_packets :: u32
  dyn_heap_index :: u32

text \<open>A data link's function: the driver's own functions for its own domain, or those of another data link.\<close>

datatype dl_fn = Fn_local | Fn_datalink nat

record ipc_to_gpr_vtbl =
  send_fn :: "dl_fn option"
  receive_done_fn :: "dl_fn option"

record ipc_dl_local =
  dl_domain_id :: u16
  dl_init_fn :: "dl_fn option"
  dl_deinit_fn :: "dl_fn option"
  dl_vtbl :: "ipc_to_gpr_vtbl option"
  supports_shared_mem :: bool

record gpr_ctxt_struct =
  default_list :: ptr
  heap1_list :: ptr
  num_user_defined_domains :: u32
  default_domain_id :: u32
  drv_heap_index :: u32
  num_static_packet_pools :: u32
  static_pool_arr :: "gpr_drv_pkt_static_pool_info list"
  num_dyn_packet_pools :: u32
  dyn_pool_arr :: "gpr_drv_pkt_dynamic_pool_info list"

record gpr_drv = gpr_memq_mem +
  sessions :: gpr_session_mem
  packets :: "gpr_packet store"
  pkt_payload :: "addr \<Rightarrow> u8 list"
  ctxt :: gpr_ctxt_struct
  dl_table :: "ipc_dl_local list"
  dyn_packets :: "ptr store"
  dynamic_packet_list :: addr
  gpr_dynamic_packet_init_done :: bool
  gpr_deinit_flag :: bool

text \<open>
  What code outside the driver does: the callback of a module (given by its address) with the
  packet and the data it registered, and the functions of a data link. \<open>list_word\<close> is the
  word of memory behind the dummy node of the list of dynamic packets, read as a pointer.
\<close>

record gpr_env =
  call_callback :: "addr \<Rightarrow> addr \<Rightarrow> ptr \<Rightarrow> gpr_drv \<Rightarrow> (u32 \<times> gpr_drv) option"
  call_send :: "nat \<Rightarrow> u32 \<Rightarrow> addr \<Rightarrow> u32 \<Rightarrow> gpr_drv \<Rightarrow> (u32 \<times> gpr_drv) option"
  call_receive_done :: "nat \<Rightarrow> u32 \<Rightarrow> addr \<Rightarrow> gpr_drv \<Rightarrow> (u32 \<times> gpr_drv) option"
  list_word :: ptr

abbreviation (input) GPR_PL_MAX_DOMAIN_ID_V :: u32 where "GPR_PL_MAX_DOMAIN_ID_V \<equiv> 0xC"
abbreviation (input) GPR_HEAP_INDEX_DEFAULT :: u32 where "GPR_HEAP_INDEX_DEFAULT \<equiv> 0"
abbreviation (input) GPR_HEAP_INDEX_1 :: u32 where "GPR_HEAP_INDEX_1 \<equiv> 1"

text \<open>The value of a pointer in a comparison.\<close>

definition ptr_val :: "ptr \<Rightarrow> nat" where
  "ptr_val p = (case p of None \<Rightarrow> 0 | Some a \<Rightarrow> a)"

subsection \<open>Pools\<close>

text \<open>The test of all loops over the static pools whether a packet lies in the memory of a pool.\<close>

definition in_packet_heap :: "addr \<Rightarrow> gpr_drv_pkt_static_pool_info \<Rightarrow> bool" where
  "in_packet_heap packet pool \<longleftrightarrow> ptr_val (packet_heap pool) < packet \<and> packet < ptr_val (packet_heap_end pool)"

text \<open>A loop over the pools from index \<open>idx\<close> that stops at the first one with a property.\<close>

fun first_pool :: "('p \<Rightarrow> bool) \<Rightarrow> 'p list \<Rightarrow> nat \<Rightarrow> nat \<Rightarrow> 'p option option" where
  "first_pool P arr idx 0 = Some None"
| "first_pool P arr idx (Suc k) = do {
     pool \<leftarrow> arr_at arr idx;
     if P pool then Some (Some pool) else first_pool P arr (Suc idx) k
   }"

definition static_pool_of :: "gpr_drv \<Rightarrow> (gpr_drv_pkt_static_pool_info \<Rightarrow> bool) \<Rightarrow> gpr_drv_pkt_static_pool_info option option" where
  "static_pool_of s P = first_pool P (static_pool_arr (ctxt s)) 0 (unat (num_static_packet_pools (ctxt s)))"

subsection \<open>Sessions\<close>

definition gpr_get_session_util :: "gpr_drv \<Rightarrow> u32 \<Rightarrow> (u32 \<times> ptr) option" where
  "gpr_get_session_util s port = do {
     (result, ret) \<leftarrow> hash_get_session port (heap1_list (ctxt s)) (sessions s);
     if result \<noteq> AR_EOK then hash_get_session port (default_list (ctxt s)) (sessions s)
     else Some (result, ret)
   }"

text \<open>The callback of a session is left as it is in memory when the caller gives no data.\<close>

definition gpr_cmd_register_v2 :: "node_answer \<Rightarrow> gpr_drv \<Rightarrow> u32 \<Rightarrow> ptr \<Rightarrow> ptr \<Rightarrow> u32 \<Rightarrow> (u32 \<times> gpr_drv) option" where
  "gpr_cmd_register_v2 mal s port cb cb_data heap_idx =
    (if cb = None then Some (AR_EBADPARAM, s)
     else do {
       let list_handle = (if heap_idx = GPR_HEAP_INDEX_1 then heap1_list (ctxt s) else default_list (ctxt s));
       (rc, ses, sm) \<leftarrow> hash_init_session mal port list_handle (sessions s);
       if ses = None then Some (rc, s\<lparr>sessions := sm\<rparr>)
       else do {
         h \<leftarrow> modify (mod_nodes sm) ses (session_update (\<lambda>e.
                e\<lparr>callback_fn := cb, callback_data := (if cb_data = None then callback_data e else cb_data)\<rparr>));
         Some (rc, s\<lparr>sessions := sm\<lparr>mod_nodes := h\<rparr>\<rparr>)
       }
     })"

definition gpr_cmd_register :: "node_answer \<Rightarrow> gpr_drv \<Rightarrow> u32 \<Rightarrow> ptr \<Rightarrow> ptr \<Rightarrow> (u32 \<times> gpr_drv) option" where
  "gpr_cmd_register mal s port cb cb_data = gpr_cmd_register_v2 mal s port cb cb_data GPR_HEAP_INDEX_DEFAULT"

definition gpr_cmd_deregister_v2 :: "gpr_drv \<Rightarrow> u32 \<Rightarrow> u32 \<Rightarrow> (u32 \<times> gpr_drv) option" where
  "gpr_cmd_deregister_v2 s port heap_idx = do {
     let list_handle = (if heap_idx = GPR_HEAP_INDEX_1 then heap1_list (ctxt s) else default_list (ctxt s));
     (_, sm) \<leftarrow> hash_deinit_session port list_handle (sessions s);
     Some (AR_EOK, s\<lparr>sessions := sm\<rparr>)
   }"

definition gpr_cmd_deregister :: "gpr_drv \<Rightarrow> u32 \<Rightarrow> (u32 \<times> gpr_drv) option" where
  "gpr_cmd_deregister s port = gpr_cmd_deregister_v2 s port GPR_HEAP_INDEX_DEFAULT"

text \<open>The second component is what is written to the caller's flag.\<close>

definition gpr_cmd_is_registered :: "gpr_drv \<Rightarrow> u32 \<Rightarrow> bool \<Rightarrow> (u32 \<times> bool option) option" where
  "gpr_cmd_is_registered s port has_flag =
    (if \<not> has_flag then Some (AR_EBADPARAM, None)
     else do {
       (rc, ses) \<leftarrow> gpr_get_session_util s port;
       Some (rc, Some (ses \<noteq> None))
     })"

subsection \<open>Packets allocated one by one\<close>

text \<open>
  \<open>mal\<close> answers the two requests for memory: the list node with what the memory holds, and
  the packet. The result is the caller's packet pointer, which is left alone when there is no
  memory for the node.
\<close>

definition gpr_allocate_dynamic_packet ::
    "(addr \<times> gpr_list_node) option \<times> ptr \<Rightarrow> gpr_drv \<Rightarrow> ptr \<Rightarrow> (u32 \<times> ptr \<times> gpr_drv) option" where
  "gpr_allocate_dynamic_packet mal s packet =
    (case fst mal of
       None \<Rightarrow> Some (AR_ENOMEMORY, packet, s)
     | Some (node, raw) \<Rightarrow>
         (case snd mal of
            None \<Rightarrow> Some (AR_ENOMEMORY, None, s)
          | Some a \<Rightarrow> do {
              let s = s\<lparr>gl_nodes := (gl_nodes s)(node \<mapsto> raw), dyn_packets := (dyn_packets s)(node \<mapsto> Some a)\<rparr>;
              (_, s) \<leftarrow> gpr_list_init_node s (Some node);
              (_, s) \<leftarrow> gpr_list_add_tail s (Some (dynamic_packet_list s)) (Some node);
              Some (AR_EOK, Some a, s)
            }))"

text \<open>
  The search goes once around the ring, over the dummy node as well: there it reads the word
  behind the dummy as if it were the packet pointer of a node.
\<close>

definition dyn_packet_at :: "gpr_env \<Rightarrow> gpr_drv \<Rightarrow> addr \<Rightarrow> ptr option" where
  "dyn_packet_at E s node = (if node = dynamic_packet_list s then Some (list_word E) else dyn_packets s node)"

partial_function (option) find_dynamic :: "gpr_env \<Rightarrow> gpr_drv \<Rightarrow> ptr \<Rightarrow> addr \<Rightarrow> addr \<Rightarrow> ptr option" where
  "find_dynamic E s packet hd_node node = do {
     p \<leftarrow> dyn_packet_at E s node;
     if p = packet then Some (Some node)
     else do {
       nx \<leftarrow> rd_next (gl_nodes s) (Some node);
       n \<leftarrow> nx;
       if n \<noteq> hd_node then find_dynamic E s packet hd_node n else Some None
     }
   }"

definition gpr_get_dynamic_packet :: "gpr_env \<Rightarrow> gpr_drv \<Rightarrow> ptr \<Rightarrow> ptr option" where
  "gpr_get_dynamic_packet E s packet = do {
     e \<leftarrow> gpr_list_raw_is_empty s (Some (dynamic_packet_list s));
     if e then Some None
     else do {
       (_, hd_node) \<leftarrow> gpr_list_get_head s (Some (dynamic_packet_list s)) True;
       h \<leftarrow> hd_node;
       find_dynamic E s packet h h
     }
   }"

text \<open>Frees the packet and then the node.\<close>

definition gpr_free_dynamic_packet_raw :: "gpr_drv \<Rightarrow> addr \<Rightarrow> gpr_drv option" where
  "gpr_free_dynamic_packet_raw s node = do {
     p \<leftarrow> dyn_packets s node;
     a \<leftarrow> p;
     Some (s\<lparr>packets := (packets s)(a := None), dyn_packets := (dyn_packets s)(node := None),
             gl_nodes := (gl_nodes s)(node := None)\<rparr>)
   }"

definition gpr_check_and_free_dynamic_packet :: "gpr_env \<Rightarrow> gpr_drv \<Rightarrow> ptr \<Rightarrow> (u32 \<times> gpr_drv) option" where
  "gpr_check_and_free_dynamic_packet E s packet = do {
     r \<leftarrow> gpr_get_dynamic_packet E s packet;
     case r of
       None \<Rightarrow> Some (AR_EBADPARAM, s)
     | Some node \<Rightarrow> do {
         (_, s) \<leftarrow> gpr_list_delete s (Some (dynamic_packet_list s)) (Some node);
         s \<leftarrow> gpr_free_dynamic_packet_raw s node;
         Some (AR_EOK, s)
       }
   }"

partial_function (option) gpr_free_dynamic_packet_list :: "gpr_drv \<Rightarrow> gpr_drv option" where
  "gpr_free_dynamic_packet_list s = do {
     e \<leftarrow> gpr_list_raw_is_empty s (Some (dynamic_packet_list s));
     if e then Some s
     else do {
       (_, node, s) \<leftarrow> gpr_list_remove_head s (Some (dynamic_packet_list s)) True;
       n \<leftarrow> node;
       s \<leftarrow> gpr_free_dynamic_packet_raw s n;
       gpr_free_dynamic_packet_list s
     }
   }"

text \<open>\<open>lock\<close> and \<open>unlock\<close> are the addresses of the two functions that lock the list.\<close>

definition gpr_dynamic_packet_init :: "addr \<Rightarrow> addr \<Rightarrow> gpr_drv \<Rightarrow> (u32 \<times> gpr_drv) option" where
  "gpr_dynamic_packet_init lock unlock s =
    (if gpr_dynamic_packet_init_done s then Some (AR_EOK, s)
     else do {
       (result, s) \<leftarrow> gpr_list_init s (Some (dynamic_packet_list s)) (Some lock) (Some unlock);
       Some (result, if result = AR_EOK then s\<lparr>gpr_dynamic_packet_init_done := True\<rparr> else s)
     })"

definition gpr_dynamic_packet_deinit :: "gpr_drv \<Rightarrow> (u32 \<times> gpr_drv) option" where
  "gpr_dynamic_packet_deinit s =
    (if gpr_dynamic_packet_init_done s
     then do {
       s \<leftarrow> gpr_free_dynamic_packet_list s;
       Some (AR_EOK, s\<lparr>gpr_dynamic_packet_init_done := False\<rparr>)
     }
     else Some (AR_EOK, s))"

subsection \<open>Allocation and freeing\<close>

text \<open>
  The loop over the dynamic pools, from index \<open>idx\<close> with \<open>k\<close> pools to go. It does not stop
  after a packet has been allocated; \<open>Inl\<close> is an early return. \<open>mal i\<close> answers the requests
  made for pool \<open>i\<close>.
\<close>

fun dyn_alloc_loop :: "(nat \<Rightarrow> (addr \<times> gpr_list_node) option \<times> ptr) \<Rightarrow> gpr_drv \<Rightarrow> u32 \<Rightarrow> u32 \<Rightarrow> ptr \<Rightarrow> nat \<Rightarrow> nat
    \<Rightarrow> ((u32 + ptr) \<times> gpr_drv) option" where
  "dyn_alloc_loop mal s packet_size heap_idx new_packet idx 0 = Some (Inr new_packet, s)"
| "dyn_alloc_loop mal s packet_size heap_idx new_packet idx (Suc k) = do {
     pool \<leftarrow> arr_at (dyn_pool_arr (ctxt s)) idx;
     if packet_size \<le> dyn_buf_size pool \<and> curr_num_packets pool < max_num_packets pool \<and> heap_idx = dyn_heap_index pool
     then do {
       (_, new_packet, s) \<leftarrow> gpr_allocate_dynamic_packet (mal idx) s new_packet;
       if new_packet = None then Some (Inl AR_ENORESOURCE, s)
       else do {
         pool \<leftarrow> arr_at (dyn_pool_arr (ctxt s)) idx;
         let c = ctxt s;
         let c = c\<lparr>dyn_pool_arr := (dyn_pool_arr c)[idx := pool\<lparr>curr_num_packets := curr_num_packets pool + 1\<rparr>]\<rparr>;
         dyn_alloc_loop mal (s\<lparr>ctxt := c\<rparr>) packet_size heap_idx new_packet (Suc idx) k
       }
     }
     else dyn_alloc_loop mal s packet_size heap_idx new_packet (Suc idx) k
   }"

definition gpr_cmd_alloc_v2 ::
    "(nat \<Rightarrow> (addr \<times> gpr_list_node) option \<times> ptr) \<Rightarrow> gpr_drv \<Rightarrow> u32 \<Rightarrow> u32 \<Rightarrow> bool \<Rightarrow> (u32 \<times> ptr \<times> gpr_drv) option" where
  "gpr_cmd_alloc_v2 mal s alloc_size heap_idx has_ret = do {
     let packet_size = GPR_PKT_HEADER_BYTE_SIZE_V + alloc_size;
     if \<not> has_ret then Some (AR_EBADPARAM, None, s)
     else do {
       r \<leftarrow> static_pool_of s (\<lambda>pool. packet_size \<le> buf_size pool \<and> heap_idx = pool_heap_index pool);
       (new_packet, s) \<leftarrow> (case r of None \<Rightarrow> Some (None, s) | Some pool \<Rightarrow> gpr_memq_alloc s (free_packets_memq pool));
       (r, s) \<leftarrow> (if new_packet = None
                  then dyn_alloc_loop mal s packet_size heap_idx None 0 (unat (num_dyn_packet_pools (ctxt s)))
                  else Some (Inr new_packet, s));
       case r of
         Inl rc \<Rightarrow> Some (rc, None, s)
       | Inr None \<Rightarrow> Some (AR_ENORESOURCE, None, s)
       | Inr (Some a) \<Rightarrow> Some (AR_EOK, Some a, s\<lparr>packets := (packets s)(a \<mapsto> init_packet packet_size)\<rparr>)
     }
   }"

definition gpr_cmd_alloc ::
    "(nat \<Rightarrow> (addr \<times> gpr_list_node) option \<times> ptr) \<Rightarrow> gpr_drv \<Rightarrow> u32 \<Rightarrow> bool \<Rightarrow> (u32 \<times> ptr \<times> gpr_drv) option" where
  "gpr_cmd_alloc mal s alloc_size has_ret = gpr_cmd_alloc_v2 mal s alloc_size GPR_HEAP_INDEX_DEFAULT has_ret"

text \<open>The loop over the dynamic pools when a packet is freed; \<open>True\<close> when one of them took it.\<close>

fun dyn_free_loop :: "gpr_env \<Rightarrow> gpr_drv \<Rightarrow> u32 \<Rightarrow> addr \<Rightarrow> nat \<Rightarrow> nat \<Rightarrow> (bool \<times> gpr_drv) option" where
  "dyn_free_loop E s packet_size packet idx 0 = Some (False, s)"
| "dyn_free_loop E s packet_size packet idx (Suc k) = do {
     pool \<leftarrow> arr_at (dyn_pool_arr (ctxt s)) idx;
     if packet_size \<le> dyn_buf_size pool \<and> 0 < curr_num_packets pool
     then do {
       (rc, s) \<leftarrow> gpr_check_and_free_dynamic_packet E s (Some packet);
       if rc = AR_EOK
       then do {
         pool \<leftarrow> arr_at (dyn_pool_arr (ctxt s)) idx;
         let c = ctxt s;
         let c = c\<lparr>dyn_pool_arr := (dyn_pool_arr c)[idx := pool\<lparr>curr_num_packets := curr_num_packets pool - 1\<rparr>]\<rparr>;
         Some (True, s\<lparr>ctxt := c\<rparr>)
       }
       else dyn_free_loop E s packet_size packet (Suc idx) k
     }
     else dyn_free_loop E s packet_size packet (Suc idx) k
   }"

definition gpr_local_receive_done :: "u32 \<Rightarrow> addr \<Rightarrow> gpr_drv \<Rightarrow> (u32 \<times> gpr_drv) option" where
  "gpr_local_receive_done domain_id buf s = Some (AR_EOK, s)"

definition dl_receive_done :: "gpr_env \<Rightarrow> dl_fn \<Rightarrow> u32 \<Rightarrow> addr \<Rightarrow> gpr_drv \<Rightarrow> (u32 \<times> gpr_drv) option" where
  "dl_receive_done E f domain_id buf s =
    (case f of Fn_local \<Rightarrow> gpr_local_receive_done domain_id buf s
     | Fn_datalink n \<Rightarrow> call_receive_done E n domain_id buf s)"

definition gpr_cmd_free :: "gpr_env \<Rightarrow> gpr_drv \<Rightarrow> ptr \<Rightarrow> (u32 \<times> gpr_drv) option" where
  "gpr_cmd_free E s packet =
    (case packet of
       None \<Rightarrow> Some (AR_EBADPARAM, s)
     | Some a \<Rightarrow> do {
         p \<leftarrow> packets s a;
         let packet_size = GPR_PKT_GET_PACKET_BYTE_SIZE (header p);
         let domain_id = ucast (src_domain_id p);
         r \<leftarrow> static_pool_of s (in_packet_heap a);
         case r of
           Some pool \<Rightarrow>
             if packet_size \<le> buf_size pool
             then do {
               (_, s) \<leftarrow> gpr_memq_node_set_metadata s (free_packets_memq pool) packet 0 0;
               s \<leftarrow> gpr_memq_free s (free_packets_memq pool) packet;
               Some (AR_EOK, s)
             }
             else Some (AR_EBADPARAM, s)
         | None \<Rightarrow> do {
             (freed, s) \<leftarrow> dyn_free_loop E s packet_size a 0 (unat (num_dyn_packet_pools (ctxt s)));
             if freed then Some (AR_EOK, s)
             else if GPR_PL_MAX_DOMAIN_ID_V < domain_id then Some (AR_EBADPARAM, s)
             else do {
               d \<leftarrow> arr_at (dl_table s) (unat domain_id);
               case dl_vtbl d of
                 None \<Rightarrow> Some (AR_EFAILED, s)
               | Some v \<Rightarrow> (case receive_done_fn v of
                              None \<Rightarrow> Some (AR_EFAILED, s)
                            | Some f \<Rightarrow> dl_receive_done E f domain_id a s)
             }
           }
       })"

subsection \<open>Sending\<close>

definition gpr_local_send :: "gpr_env \<Rightarrow> u32 \<Rightarrow> addr \<Rightarrow> u32 \<Rightarrow> gpr_drv \<Rightarrow> (u32 \<times> gpr_drv) option" where
  "gpr_local_send E domain_id buf len s = do {
     p \<leftarrow> packets s buf;
     (result, ses) \<leftarrow> gpr_get_session_util s (dst_port p);
     if result = AR_ENOTEXIST then Some (AR_ENOTEXIST, s)
     else (case ses of
             None \<Rightarrow> Some (AR_EFAILED, s)
           | Some n \<Rightarrow> do {
               nd \<leftarrow> mod_nodes (sessions s) n;
               (case callback_fn (session nd) of
                  None \<Rightarrow> Some (AR_EFAILED, s)
                | Some f \<Rightarrow> call_callback E f buf (callback_data (session nd)) s)
             })
   }"

definition dl_send :: "gpr_env \<Rightarrow> dl_fn \<Rightarrow> u32 \<Rightarrow> addr \<Rightarrow> u32 \<Rightarrow> gpr_drv \<Rightarrow> (u32 \<times> gpr_drv) option" where
  "dl_send E f domain_id buf len s =
    (case f of Fn_local \<Rightarrow> gpr_local_send E domain_id buf len s
     | Fn_datalink n \<Rightarrow> call_send E n domain_id buf len s)"

definition gpr_cmd_async_send :: "gpr_env \<Rightarrow> gpr_drv \<Rightarrow> ptr \<Rightarrow> (u32 \<times> gpr_drv) option" where
  "gpr_cmd_async_send E s packet =
    (case packet of
       None \<Rightarrow> Some (AR_EBADPARAM, s)
     | Some a \<Rightarrow> do {
         p \<leftarrow> packets s a;
         let domain_id = ucast (dst_domain_id p);
         let packet_len = GPR_PKT_GET_PACKET_BYTE_SIZE (header p);
         if GPR_PL_MAX_DOMAIN_ID_V < domain_id then Some (AR_EBADPARAM, s)
         else do {
           d \<leftarrow> arr_at (dl_table s) (unat domain_id);
           case dl_vtbl d of
             None \<Rightarrow> Some (AR_EFAILED, s)
           | Some v \<Rightarrow> (case send_fn v of
               None \<Rightarrow> Some (AR_EFAILED, s)
             | Some f \<Rightarrow> do {
                 r \<leftarrow> static_pool_of s (in_packet_heap a);
                 case r of
                   None \<Rightarrow> dl_send E f domain_id a packet_len s
                 | Some pool \<Rightarrow>
                     if buf_size pool < packet_len then Some (AR_EFAILED, s)
                     else do {
                       (_, s) \<leftarrow> gpr_memq_node_set_metadata s (free_packets_memq pool) packet 0 (dst_port p);
                       (rc, s) \<leftarrow> dl_send E f domain_id a packet_len s;
                       if rc = AR_EOK then Some (rc, s)
                       else do {
                         p \<leftarrow> packets s a;
                         (_, s) \<leftarrow> gpr_memq_node_set_metadata s (free_packets_memq pool) packet 0 (src_port p);
                         Some (rc, s)
                       }
                     }
               })
         }
       })"

text \<open>The arguments of the allocation commands.\<close>

record gpr_cmd_alloc_ext_args =
  a_src_domain_id :: u8
  a_src_port :: u32
  a_dst_domain_id :: u8
  a_dst_port :: u32
  a_client_data :: u8
  a_token :: u32
  a_opcode :: u32
  a_payload_size :: u32
  a_heap_index :: u32
  a_has_ret_packet :: bool

definition gpr_cmd_alloc_ext_v2 ::
    "(nat \<Rightarrow> (addr \<times> gpr_list_node) option \<times> ptr) \<Rightarrow> gpr_drv \<Rightarrow> gpr_cmd_alloc_ext_args option \<Rightarrow> (u32 \<times> ptr \<times> gpr_drv) option" where
  "gpr_cmd_alloc_ext_v2 mal s args =
    (case args of
       None \<Rightarrow> Some (AR_EBADPARAM, None, s)
     | Some g \<Rightarrow>
         if \<not> a_has_ret_packet g then Some (AR_EBADPARAM, None, s)
         else do {
           (rc, new_packet, s) \<leftarrow> gpr_cmd_alloc_v2 mal s (a_payload_size g) (a_heap_index g) True;
           if rc \<noteq> AR_EOK then Some (rc, None, s)
           else do {
             a \<leftarrow> new_packet;
             ps \<leftarrow> modify (packets s) new_packet (\<lambda>p. p\<lparr>dst_port := a_dst_port g, dst_domain_id := a_dst_domain_id g,
                     src_port := a_src_port g, src_domain_id := a_src_domain_id g, token := a_token g,
                     opcode := a_opcode g, client_data := a_client_data g\<rparr>);
             let s = s\<lparr>packets := ps\<rparr>;
             r \<leftarrow> static_pool_of s (in_packet_heap a);
             case r of
               None \<Rightarrow> Some (AR_EOK, new_packet, s)
             | Some pool \<Rightarrow> do {
                 (_, s) \<leftarrow> gpr_memq_node_set_metadata s (free_packets_memq pool) new_packet 0 (a_src_port g);
                 Some (AR_EOK, new_packet, s)
               }
           }
         })"

text \<open>The arguments are read before they are checked.\<close>

definition gpr_cmd_alloc_ext ::
    "(nat \<Rightarrow> (addr \<times> gpr_list_node) option \<times> ptr) \<Rightarrow> gpr_drv \<Rightarrow> gpr_cmd_alloc_ext_args option \<Rightarrow> (u32 \<times> ptr \<times> gpr_drv) option" where
  "gpr_cmd_alloc_ext mal s args = do {
     g \<leftarrow> args;
     gpr_cmd_alloc_ext_v2 mal s (Some (g\<lparr>a_heap_index := GPR_HEAP_INDEX_DEFAULT\<rparr>))
   }"

text \<open>\<open>ar_mem_cpy\<close> to the payload of a packet.\<close>

definition put_payload :: "gpr_drv \<Rightarrow> addr \<Rightarrow> u8 list \<Rightarrow> gpr_drv" where
  "put_payload s a bs = s\<lparr>pkt_payload := (pkt_payload s)(a := bs @ drop (length bs) (pkt_payload s a))\<rparr>"

text \<open>The payload of the arguments: \<open>None\<close> for a \<open>NULL\<close> pointer. \<open>payload_size\<close> bytes of it are read.\<close>

definition gpr_cmd_alloc_send ::
    "gpr_env \<Rightarrow> (nat \<Rightarrow> (addr \<times> gpr_list_node) option \<times> ptr) \<Rightarrow> gpr_drv \<Rightarrow> gpr_cmd_alloc_ext_args option \<Rightarrow> u8 list option
      \<Rightarrow> (u32 \<times> gpr_drv) option" where
  "gpr_cmd_alloc_send E mal s args payload =
    (case args of
       None \<Rightarrow> Some (AR_EBADPARAM, s)
     | Some g \<Rightarrow>
         if 0 < a_payload_size g \<and> payload = None then Some (AR_EBADPARAM, s)
         else do {
           (rc, pkt, s) \<leftarrow> gpr_cmd_alloc_ext mal s (Some (g\<lparr>a_has_ret_packet := True\<rparr>));
           if rc \<noteq> AR_EOK then Some (rc, s)
           else do {
             a \<leftarrow> pkt;
             s \<leftarrow> (if 0 < a_payload_size g
                   then do {
                     bs \<leftarrow> payload;
                     if length bs < unat (a_payload_size g) then None
                     else Some (put_payload s a (take (unat (a_payload_size g)) bs))
                   }
                   else Some s);
             (rc, s) \<leftarrow> gpr_cmd_async_send E s pkt;
             if rc = AR_EOK then Some (rc, s)
             else do {
               (_, s) \<leftarrow> gpr_cmd_free E s pkt;
               Some (rc, s)
             }
           }
         })"

subsection \<open>Responses\<close>

text \<open>A 32-bit field of a payload in memory (little endian).\<close>

definition le32 :: "u32 \<Rightarrow> u8 list" where
  "le32 w = [ucast w, ucast (drop_bit 8 w), ucast (drop_bit 16 w), ucast (drop_bit 24 w)]"

abbreviation (input) GPR_IBASIC_RSP_RESULT :: u32 where "GPR_IBASIC_RSP_RESULT \<equiv> 0x02001005"
abbreviation (input) GPR_IBASIC_EVT_ACCEPTED :: u32 where "GPR_IBASIC_EVT_ACCEPTED \<equiv> 0x02001006"

definition gpr_cmd_accept_command ::
    "gpr_env \<Rightarrow> (nat \<Rightarrow> (addr \<times> gpr_list_node) option \<times> ptr) \<Rightarrow> gpr_drv \<Rightarrow> ptr \<Rightarrow> (u32 \<times> gpr_drv) option" where
  "gpr_cmd_accept_command E mal s packet =
    (case packet of
       None \<Rightarrow> Some (AR_EBADPARAM, s)
     | Some a \<Rightarrow> do {
         p \<leftarrow> packets s a;
         (_, s) \<leftarrow> gpr_cmd_alloc_send E mal s
            (Some \<lparr>a_src_domain_id = dst_domain_id p, a_src_port = dst_port p, a_dst_domain_id = src_domain_id p,
              a_dst_port = src_port p, a_client_data = client_data p, a_token = token p,
              a_opcode = GPR_IBASIC_EVT_ACCEPTED, a_payload_size = 4, a_heap_index = 0, a_has_ret_packet = True\<rparr>)
            (Some (le32 (opcode p)));
         Some (AR_EOK, s)
       })"

text \<open>The test of the opcode type for which no response is sent: the type's bits contain those of a response or an event.\<close>

definition opcode_type :: "u32 \<Rightarrow> u32" where
  "opcode_type op = drop_bit 24 (op AND 0x0F000000)"

definition no_response_type :: "u32 \<Rightarrow> bool" where
  "no_response_type t \<longleftrightarrow> t AND 2 = 2 \<or> t AND 5 = 5 \<or> t AND 3 = 3 \<or> t AND 6 = 6"

text \<open>The heap of the packet: the loop over the pools keeps the last one that matches.\<close>

fun last_pool_heap :: "addr \<Rightarrow> gpr_drv_pkt_static_pool_info list \<Rightarrow> nat \<Rightarrow> nat \<Rightarrow> u32 \<Rightarrow> u32 option" where
  "last_pool_heap a arr idx 0 heap_idx = Some heap_idx"
| "last_pool_heap a arr idx (Suc k) heap_idx = do {
     pool \<leftarrow> arr_at arr idx;
     last_pool_heap a arr (Suc idx) k (if in_packet_heap a pool then pool_heap_index pool else heap_idx)
   }"

definition gpr_cmd_end_command ::
    "gpr_env \<Rightarrow> (nat \<Rightarrow> (addr \<times> gpr_list_node) option \<times> ptr) \<Rightarrow> gpr_drv \<Rightarrow> ptr \<Rightarrow> u32 \<Rightarrow> (u32 \<times> gpr_drv) option" where
  "gpr_cmd_end_command E mal s packet status =
    (case packet of
       None \<Rightarrow> Some (AR_EBADPARAM, s)
     | Some a \<Rightarrow> do {
         p \<leftarrow> packets s a;
         (rc, s) \<leftarrow>
           (if no_response_type (opcode_type (opcode p)) then Some (AR_EOK, s)
            else do {
              heap_idx \<leftarrow> last_pool_heap a (static_pool_arr (ctxt s)) 0 (unat (num_static_packet_pools (ctxt s))) GPR_HEAP_INDEX_DEFAULT;
              (rc, rsp, s) \<leftarrow> gpr_cmd_alloc_ext_v2 mal s
                 (Some \<lparr>a_src_domain_id = dst_domain_id p, a_src_port = dst_port p, a_dst_domain_id = src_domain_id p,
                   a_dst_port = src_port p, a_client_data = client_data p, a_token = token p,
                   a_opcode = GPR_IBASIC_RSP_RESULT, a_payload_size = 8, a_heap_index = heap_idx, a_has_ret_packet = True\<rparr>);
              if rc \<noteq> AR_EOK then Some (rc, s)
              else do {
                r \<leftarrow> rsp;
                p \<leftarrow> packets s a;
                (rc, s) \<leftarrow> gpr_cmd_async_send E (put_payload s r (le32 (opcode p) @ le32 status)) rsp;
                if rc = AR_EOK then Some (rc, s)
                else do {
                  (_, s) \<leftarrow> gpr_cmd_free E s rsp;
                  Some (rc, s)
                }
              }
            });
         (_, s) \<leftarrow> gpr_cmd_free E s packet;
         Some (rc, s)
       })"

subsection \<open>Callbacks for the data links\<close>

text \<open>The header is read before the pointer is checked.\<close>

definition gpr_ipc_receive :: "gpr_env \<Rightarrow> gpr_drv \<Rightarrow> ptr \<Rightarrow> u32 \<Rightarrow> (u32 \<times> gpr_drv) option" where
  "gpr_ipc_receive E s buf len = do {
     p \<leftarrow> load (packets s) buf;
     if len \<noteq> GPR_PKT_GET_PACKET_BYTE_SIZE (header p) then Some (AR_EBADPARAM, s)
     else do {
       (rc, s) \<leftarrow> gpr_cmd_async_send E s buf;
       s \<leftarrow> (if rc = AR_EOK then Some s else do { (_, s) \<leftarrow> gpr_cmd_free E s buf; Some s });
       Some (AR_EOK, s)
     }
   }"

definition gpr_ipc_send_done :: "gpr_env \<Rightarrow> gpr_drv \<Rightarrow> ptr \<Rightarrow> u32 \<Rightarrow> (u32 \<times> gpr_drv) option" where
  "gpr_ipc_send_done E s buf len = do {
     p \<leftarrow> load (packets s) buf;
     if len \<noteq> GPR_PKT_GET_PACKET_BYTE_SIZE (header p) then Some (AR_EBADPARAM, s)
     else do { (_, s) \<leftarrow> gpr_cmd_free E s buf; Some (AR_EOK, s) }
   }"

subsection \<open>Queries\<close>

definition gpr_cmd_get_host_domain_id :: "gpr_drv \<Rightarrow> bool \<Rightarrow> u32 \<times> u32 option" where
  "gpr_cmd_get_host_domain_id s has_ret =
    (if \<not> has_ret then (AR_EBADPARAM, None) else (AR_EOK, Some (default_domain_id (ctxt s))))"

definition gpr_cmd_is_shared_mem_supported :: "gpr_drv \<Rightarrow> u32 \<Rightarrow> bool \<Rightarrow> (u32 \<times> bool option) option" where
  "gpr_cmd_is_shared_mem_supported s domain_id has_ret =
    (if \<not> has_ret then Some (AR_EBADPARAM, None)
     else do {
       d \<leftarrow> arr_at (dl_table s) (unat domain_id);
       Some (AR_EOK, Some (supports_shared_mem d))
     })"

text \<open>The loop of \<open>gpr_cmd_get_dest_domain_ids\<close> from index \<open>i\<close> over an array that is given; other entries keep their value.\<close>

fun dest_ids_loop :: "gpr_drv \<Rightarrow> u32 list \<Rightarrow> nat \<Rightarrow> nat \<Rightarrow> u32 list option" where
  "dest_ids_loop s ids i 0 = Some ids"
| "dest_ids_loop s ids i (Suc k) = do {
     d \<leftarrow> arr_at (dl_table s) i;
     let dom_id = ucast (dl_domain_id d);
     if dom_id \<noteq> default_domain_id (ctxt s) \<and> dom_id \<noteq> 0
     then (if i < length ids then dest_ids_loop s (ids[i := dom_id]) (Suc i) k else None)
     else dest_ids_loop s ids (Suc i) k
   }"

text \<open>\<open>num_domains\<close> and \<open>domain_ids\<close> are what the caller's pointers point to; both are returned.\<close>

definition gpr_cmd_get_dest_domain_ids :: "gpr_drv \<Rightarrow> u32 option \<Rightarrow> u32 list option \<Rightarrow> (u32 \<times> u32 option \<times> u32 list option) option" where
  "gpr_cmd_get_dest_domain_ids s num_domains domain_ids =
    (case num_domains of
       None \<Rightarrow> Some (AR_EBADPARAM, None, domain_ids)
     | Some n \<Rightarrow>
         if n = 0 then Some (AR_EOK, Some (num_user_defined_domains (ctxt s) - 1), domain_ids)
         else (case domain_ids of
                 None \<Rightarrow> Some (AR_EBADPARAM, num_domains, None)
               | Some ids \<Rightarrow> do { ids \<leftarrow> dest_ids_loop s ids 0 (unat n); Some (AR_EOK, num_domains, Some ids) }))"

record gpr_cmd_gpr_packet_pool_info =
  num_max_size_packets :: u32
  bytes_per_max_size_packet :: u32
  num_min_size_packets :: u32
  bytes_per_min_size_packet :: u32

fun packet_info_loop :: "gpr_drv_pkt_static_pool_info list \<Rightarrow> gpr_cmd_gpr_packet_pool_info \<Rightarrow> u32 \<Rightarrow> u32 \<Rightarrow> nat \<Rightarrow> nat
    \<Rightarrow> gpr_cmd_gpr_packet_pool_info option" where
  "packet_info_loop arr info min_buf max_buf idx 0 = Some info"
| "packet_info_loop arr info min_buf max_buf idx (Suc k) = do {
     pool \<leftarrow> arr_at arr idx;
     if pool_heap_index pool \<noteq> GPR_HEAP_INDEX_DEFAULT then packet_info_loop arr info min_buf max_buf (Suc idx) k
     else do {
       let (info, max_buf) = (if max_buf < buf_size pool
             then (info\<lparr>num_max_size_packets := num_packets pool, bytes_per_max_size_packet := buf_size pool\<rparr>, buf_size pool)
             else (info, max_buf));
       let (info, min_buf) = (if buf_size pool < min_buf
             then (info\<lparr>num_min_size_packets := num_packets pool, bytes_per_min_size_packet := buf_size pool\<rparr>, buf_size pool)
             else (info, min_buf));
       packet_info_loop arr info min_buf max_buf (Suc idx) k
     }
   }"

definition gpr_cmd_get_gpr_packet_info :: "gpr_drv \<Rightarrow> gpr_cmd_gpr_packet_pool_info option \<Rightarrow> (u32 \<times> gpr_cmd_gpr_packet_pool_info option) option" where
  "gpr_cmd_get_gpr_packet_info s args =
    (case args of
       None \<Rightarrow> Some (AR_EBADPARAM, None)
     | Some info \<Rightarrow> do {
         info \<leftarrow> packet_info_loop (static_pool_arr (ctxt s)) info 0xFFFFFFFF 0 0 (unat (num_static_packet_pools (ctxt s)));
         Some (AR_EOK, Some info)
       })"

end
