(* ===== verification/Gpr_Drv_Proofs.thy ===== *)
theory Gpr_Drv_Proofs
  imports Gpr_Drv
begin

text \<open>
  Correctness of the driver's packet handling: the header word, the pools as allocators whose
  packets are recognised by their address, delivery to the registered callback, responses.
\<close>

subsection \<open>The header word\<close>

lemma packet_size_field: "GPR_PKT_GET_PACKET_BYTE_SIZE (packet_header n) = take_bit 24 n"
proof -
  have m: "(16777215 :: u32) = mask 24" by (simp add: mask_eq_exp_minus_1)
  show ?thesis
    unfolding GPR_PKT_GET_PACKET_BYTE_SIZE_def packet_header_def GPR_GET_BITMASK_def GPR_SET_BITMASK_def
    by (rule bit_word_eqI) (auto simp: bit_simps m)
qed

lemma packet_size_eq:
  assumes "unat n < 2 ^ 24"
  shows "GPR_PKT_GET_PACKET_BYTE_SIZE (packet_header n) = n"
proof -
  have "unat (take_bit 24 n) = unat n" using assms by (simp add: unsigned_take_bit_eq take_bit_nat_eq_self)
  then show ?thesis unfolding packet_size_field by (simp add: word_unat_eq_iff)
qed

lemma header_size_field: "GPR_PKT_GET_HEADER_BYTE_SIZE (packet_header n) = GPR_PKT_HEADER_BYTE_SIZE_V"
proof -
  have "(push_bit 8 n AND 0xFFFFFF00) AND 0xF0 = (0 :: u32)" by (simp add: and.assoc)
  then have "packet_header n AND 0xF0 = 0x60"
    by (simp add: packet_header_def GPR_SET_BITMASK_def bit.conj_disj_distrib2)
  then show ?thesis by (simp add: GPR_PKT_GET_HEADER_BYTE_SIZE_def GPR_GET_BITMASK_def)
qed

subsection \<open>Loops over pools\<close>

lemma first_pool_find:
  "idx + k = length arr \<Longrightarrow> first_pool P arr idx k = Some (List.find P (drop idx arr))"
proof (induction k arbitrary: idx)
  case 0
  then show ?case by simp
next
  case (Suc k)
  then have i: "idx < length arr" by simp
  then have "drop idx arr = arr ! idx # drop (Suc idx) arr" by (simp add: Cons_nth_drop_Suc)
  then show ?case using Suc i by (simp add: arr_at_def)
qed

lemma find_at:
  assumes "i < length xs" "P (xs ! i)" "\<And>j. j < i \<Longrightarrow> \<not> P (xs ! j)"
  shows "List.find P xs = Some (xs ! i)"
  using assms by (auto simp: find_Some_iff)

subsection \<open>Pools\<close>

text \<open>A pool as the initialisation sets it up, with room for a packet's header.\<close>

definition pool_ok :: "'a gpr_memq_mem_scheme \<Rightarrow> gpr_drv_pkt_static_pool_info \<Rightarrow> addr \<Rightarrow> gpr_memq_block \<Rightarrow> bool" where [inv_defs]:
  "pool_ok m pool b B \<longleftrightarrow> free_packets_memq pool = Some b \<and> memq_inv m b \<and> mq_blocks m b = Some B \<and> metadata_size B = 1
     \<and> 24 \<le> unat (buf_size pool) \<and> unat (unit_size B) = 28 + unat (buf_size pool) \<and> packet_heap pool = Some (base_addr B)
     \<and> packet_heap_end pool = Some (base_addr B + unat (total_units B) * unat (unit_size B) - 1)"

text \<open>The memory of a pool: its packets and its block.\<close>

definition pool_area :: "gpr_memq_block \<Rightarrow> addr set" where
  "pool_area B = {base_addr B ..< base_addr B + unat (total_units B) * unat (unit_size B)}"

definition pools_ok :: "gpr_drv \<Rightarrow> (addr \<times> gpr_memq_block) list \<Rightarrow> bool" where [inv_defs]:
  "pools_ok s bs \<longleftrightarrow> unat (num_static_packet_pools (ctxt s)) = length (static_pool_arr (ctxt s))
     \<and> length bs = length (static_pool_arr (ctxt s))
     \<and> (\<forall>i < length bs. pool_ok s (static_pool_arr (ctxt s) ! i) (fst (bs ! i)) (snd (bs ! i)))
     \<and> (\<forall>i < length bs. \<forall>j < length bs. fst (bs ! j) \<notin> pool_area (snd (bs ! i)) \<and>
          (i \<noteq> j \<longrightarrow> fst (bs ! i) \<noteq> fst (bs ! j) \<and> pool_area (snd (bs ! i)) \<inter> pool_area (snd (bs ! j)) = {}))"

lemma pool_overhead: "pool_ok m pool b B \<Longrightarrow> overhead B = 28"
  by (simp add: pool_ok_def overhead_def)

lemma units_area:
  assumes "a \<in> set (units B)"
  shows "base_addr B \<le> a" "a + unat (unit_size B) \<le> base_addr B + unat (total_units B) * unat (unit_size B)"
proof -
  obtain k where k: "a = base_addr B + k * unat (unit_size B)" "k < unat (total_units B)"
    using assms unfolding units_def set_map set_upt by fastforce
  show "base_addr B \<le> a" "a + unat (unit_size B) \<le> base_addr B + unat (total_units B) * unat (unit_size B)"
    using cells_disjoint [OF k(2), of "base_addr B" "unat (unit_size B)"] k(1) by simp_all
qed

text \<open>A packet that is in use is recognised by its address, and lies in no other pool.\<close>

lemma in_use_in_heap:
  assumes "pool_ok m pool b B" "d \<in> memq_in_use m b"
  shows "in_packet_heap d pool" "d \<in> pool_area B"
proof -
  have B: "mq_blocks m b = Some B" "unat (unit_size B) = 28 + unat (buf_size pool)" using assms(1) by (simp_all add: pool_ok_def)
  obtain a where a: "d = a + 28" "a \<in> set (units B)" using assms(2) B(1) pool_overhead [OF assms(1)] by (auto simp: memq_in_use_def)
  note u = units_area [OF a(2)]
  define e where "e = base_addr B + unat (total_units B) * unat (unit_size B)"
  have P: "24 \<le> unat (buf_size pool)" "packet_heap pool = Some (base_addr B)" "packet_heap_end pool = Some (e - 1)"
    using assms(1) unfolding pool_ok_def e_def by blast+
  have "a + 52 \<le> e" using u(2) B(2) P(1) unfolding e_def by simp
  then show "in_packet_heap d pool" "d \<in> pool_area B"
    using a(1) u(1) P(2,3) by (simp_all add: in_packet_heap_def ptr_val_def pool_area_def e_def)
qed

lemma heap_in_area:
  assumes "pool_ok m pool b B" "in_packet_heap d pool"
  shows "d \<in> pool_area B"
proof -
  have "base_addr B < d" "d < base_addr B + unat (total_units B) * unat (unit_size B) - 1"
    using assms by (simp_all add: in_packet_heap_def pool_ok_def ptr_val_def)
  then show ?thesis unfolding pool_area_def atLeastLessThan_iff by linarith
qed

lemma static_pool_of_eq:
  assumes "pools_ok s bs"
  shows "static_pool_of s P = Some (List.find P (static_pool_arr (ctxt s)))"
  using assms first_pool_find [of 0 "unat (num_static_packet_pools (ctxt s))" "static_pool_arr (ctxt s)" P]
  by (simp add: static_pool_of_def pools_ok_def)

lemma pool_of_packet:
  assumes "pools_ok s bs" "i < length bs" "d \<in> memq_in_use s (fst (bs ! i))"
  shows "static_pool_of s (in_packet_heap d) = Some (Some (static_pool_arr (ctxt s) ! i))"
proof -
  let ?arr = "static_pool_arr (ctxt s)"
  have len: "length bs = length ?arr" and ok: "\<And>j. j < length bs \<Longrightarrow> pool_ok s (?arr ! j) (fst (bs ! j)) (snd (bs ! j))"
    using assms(1) by (simp_all add: pools_ok_def)
  note d = in_use_in_heap [OF ok [OF assms(2)] assms(3)]
  have "\<not> in_packet_heap d (?arr ! j)" if "j < i" for j
  proof
    assume "in_packet_heap d (?arr ! j)"
    then have "d \<in> pool_area (snd (bs ! j))" using heap_in_area ok that assms(2) by (meson order.strict_trans)
    moreover have "pool_area (snd (bs ! i)) \<inter> pool_area (snd (bs ! j)) = {}"
      using assms(1,2) that unfolding pools_ok_def by (metis nat_neq_iff order.strict_trans)
    ultimately show False using d(2) by blast
  qed
  then have "List.find (in_packet_heap d) ?arr = Some (?arr ! i)" using assms(2) len d(1) by (intro find_at) simp_all
  then show ?thesis by (simp add: static_pool_of_eq [OF assms(1)])
qed

text \<open>What the pools keep when the driver works on one of them.\<close>

lemma pools_okD:
  assumes "pools_ok s bs" "i < length bs"
  shows "pool_ok s (static_pool_arr (ctxt s) ! i) (fst (bs ! i)) (snd (bs ! i))"
  using assms by (simp add: pools_ok_def)

lemma pools_keep:
  assumes "pools_ok s bs" "ctxt s' = ctxt s"
    and "\<And>j. j < length bs \<Longrightarrow> memq_inv s' (fst (bs ! j)) \<and> mq_blocks s' (fst (bs ! j)) = Some (snd (bs ! j))"
  shows "pools_ok s' bs"
  using assms by (simp add: pools_ok_def pool_ok_def)

lemma units_in_area: "0 < unat (unit_size B) \<Longrightarrow> a \<in> set (units B) \<Longrightarrow> a \<in> pool_area B"
  using units_area [of a B] by (simp add: pool_area_def)

lemma pools_list_frame:
  assumes ok: "pools_ok s bs" and i: "i < length bs" and f: "list_frame (insert (fst (bs ! i)) (set (units (snd (bs ! i))))) (fst (bs ! i)) s s'"
    and inv: "memq_inv s' (fst (bs ! i))" and c: "ctxt s' = ctxt s"
  shows "pools_ok s' bs" "\<And>j. j < length bs \<Longrightarrow> j \<noteq> i \<Longrightarrow> memq_in_use s' (fst (bs ! j)) = memq_in_use s (fst (bs ! j))"
proof -
  let ?b = "\<lambda>j. fst (bs ! j)" and ?B = "\<lambda>j. snd (bs ! j)"
  note m = list_frame_memq [OF f]
  have us: "0 < unat (unit_size (?B j))" if "j < length bs" for j using pools_okD [OF ok that] by (simp add: pool_ok_def)
  have o: "memq_inv s' (?b j) \<and> memq_in_use s' (?b j) = memq_in_use s (?b j)" if j: "j < length bs" "j \<noteq> i" for j
  proof -
    have sep: "?b j \<noteq> ?b i" "?b j \<notin> pool_area (?B i)" "?b i \<notin> pool_area (?B j)" "pool_area (?B i) \<inter> pool_area (?B j) = {}"
      using ok i j unfolding pools_ok_def by blast+
    have fr: "gl_nodes s' x = gl_nodes s x" if "x \<in> insert (?b j) (set (units (?B j)))" for x
    proof -
      have "x \<notin> insert (?b i) (set (units (?B i)))"
        using that sep units_in_area [OF us [OF i], of x] units_in_area [OF us [OF j(1)], of x] by auto
      then show ?thesis using f by (simp add: list_frame_def)
    qed
    have p: "memq_inv s (?b j)" "mq_blocks s (?b j) = Some (?B j)" using pools_okD [OF ok j(1)] by (simp_all add: pool_ok_def)
    have l: "gl_lists s' (?b j) = gl_lists s (?b j)" using f sep(1) by (simp add: list_frame_def)
    show ?thesis using memq_inv_other [OF p _ l fr] m p(2) by simp
  qed
  show "pools_ok s' bs"
  proof (rule pools_keep [OF ok c])
    fix j
    assume j: "j < length bs"
    then show "memq_inv s' (?b j) \<and> mq_blocks s' (?b j) = Some (?B j)"
      using o [OF j] inv pools_okD [OF ok j] m(1) by (cases "j = i") (simp_all add: pool_ok_def)
  qed
  show "memq_in_use s' (?b j) = memq_in_use s (?b j)" if "j < length bs" "j \<noteq> i" for j using o [OF that] by simp
qed

lemma pools_words:
  assumes ok: "pools_ok s bs" and d: "dom (mq_words s) \<subseteq> dom ws"
  shows "pools_ok (s\<lparr>mq_words := ws\<rparr>) bs" "memq_in_use (s\<lparr>mq_words := ws\<rparr>) b = memq_in_use s b"
proof -
  show "pools_ok (s\<lparr>mq_words := ws\<rparr>) bs"
  proof (rule pools_keep [OF ok])
    fix j
    assume j: "j < length bs"
    have p: "memq_inv s (fst (bs ! j))" "mq_blocks s (fst (bs ! j)) = Some (snd (bs ! j))"
      using pools_okD [OF ok j] by (simp_all add: pool_ok_def)
    then show "memq_inv (s\<lparr>mq_words := ws\<rparr>) (fst (bs ! j)) \<and> mq_blocks (s\<lparr>mq_words := ws\<rparr>) (fst (bs ! j)) = Some (snd (bs ! j))"
      using memq_inv_other [OF p, of "s\<lparr>mq_words := ws\<rparr>"] d by simp
  qed simp
  show "memq_in_use (s\<lparr>mq_words := ws\<rparr>) b = memq_in_use s b"
    by (cases "mq_blocks s b") (simp_all add: memq_in_use_def)
qed

lemma pools_packets:
  shows "pools_ok (packets_update f s) bs = pools_ok s bs" "memq_in_use (packets_update f s) b = memq_in_use s b"
  by (simp_all add: pools_ok_def pool_ok_def memq_inv_def free_units_def glist_def secure_list_def memq_in_use_def split: option.splits)

text \<open>The owner of a packet, in the one metadata word of its unit.\<close>

lemma set_owner:
  assumes ok: "pool_ok s pool b B" and d: "d \<in> memq_in_use s b"
  shows "\<exists>a ws. gpr_memq_node_set_metadata s (free_packets_memq pool) (Some d) 0 v = Some (AR_EOK, s\<lparr>mq_words := ws\<rparr>)
    \<and> a \<in> set (units B) \<and> d = a + 28 \<and> ws = (mq_words s)(a + 24 \<mapsto> v) \<and> dom ws = dom (mq_words s)"
proof -
  have B: "mq_blocks s b = Some B" "metadata_size B = 1" "free_packets_memq pool = Some b" "memq_inv s b"
    using ok by (simp_all add: pool_ok_def)
  obtain a where a: "a \<in> set (units B)" "d = a + 28"
    using d B(1) pool_overhead [OF ok] by (auto simp: memq_in_use_def)
  have "words_owned B (mq_words s)" using memq_invD [OF B(4)] B(1) by auto
  then have w: "a + 24 \<in> dom (mq_words s)" using a(1) B(2) by (fastforce simp: words_owned_def)
  then have "gpr_memq_node_set_metadata s (free_packets_memq pool) (Some d) 0 v = Some (AR_EOK, s\<lparr>mq_words := (mq_words s)(a + 24 \<mapsto> v)\<rparr>)"
    using B a(2) by (auto simp: gpr_memq_node_set_metadata_def metadata_addr_def modify_Some add.commute)
  then show ?thesis using a w by (intro exI [of _ a] exI [of _ "(mq_words s)(a + 24 \<mapsto> v)"]) auto
qed

text \<open>Taking a packet from a pool and giving it back, seen by all pools.\<close>

lemma pool_alloc:
  assumes ok: "pools_ok s bs" and i: "i < length bs"
    and room: "memq_in_use s (fst (bs ! i)) \<noteq> (\<lambda>a. a + 28) ` set (units (snd (bs ! i)))"
  shows "\<exists>d s'. gpr_memq_alloc s (free_packets_memq (static_pool_arr (ctxt s) ! i)) = Some (Some d, s')
    \<and> d \<notin> memq_in_use s (fst (bs ! i)) \<and> memq_in_use s' (fst (bs ! i)) = insert d (memq_in_use s (fst (bs ! i)))
    \<and> pools_ok s' bs \<and> (\<forall>j < length bs. j \<noteq> i \<longrightarrow> memq_in_use s' (fst (bs ! j)) = memq_in_use s (fst (bs ! j)))
    \<and> (\<exists>h ls. s' = s\<lparr>gl_nodes := h, gl_lists := ls\<rparr>)"
proof -
  let ?b = "fst (bs ! i)" and ?B = "snd (bs ! i)"
  note p = pools_okD [OF ok i]
  have q: "memq_inv s ?b" "mq_blocks s ?b = Some ?B" "free_packets_memq (static_pool_arr (ctxt s) ! i) = Some ?b"
    using p by (simp_all add: pool_ok_def)
  obtain free where I: "block_ok ?b ?B" "words_owned ?B (mq_words s)" "secure_list s ?b" "free_units s ?b ?B free"
    using memq_invD [OF q(1)] q(2) by auto
  have "free \<noteq> []" using room in_use_eq [OF q(2) I(4)] pool_overhead [OF p] by auto
  then obtain a xs where ax: "free = a # xs" by (cases free) auto
  obtain s' where s': "gpr_memq_alloc s (Some ?b) = Some (Some (a + overhead ?B), s')" "list_frame (insert ?b (set (units ?B))) ?b s s'"
    using alloc_some [OF q(2) I(1-3)] I(4) ax by blast
  obtain h ls where h: "s' = s\<lparr>gl_nodes := h, gl_lists := ls\<rparr>" using s'(2) by (auto simp: list_frame_def)
  note g = memq.got [OF q(1) TrueI s'(1)]
  have "ctxt s' = ctxt s" using h by simp
  note k = pools_list_frame [OF ok i s'(2) _ this]
  show ?thesis using s'(1) q(3) g k h
    by (intro exI [of _ "a + overhead ?B"] exI [of _ s']) auto
qed

lemma pool_free:
  assumes ok: "pools_ok s bs" and i: "i < length bs" and d: "d \<in> memq_in_use s (fst (bs ! i))"
  shows "\<exists>s'. gpr_memq_free s (free_packets_memq (static_pool_arr (ctxt s) ! i)) (Some d) = Some s'
    \<and> memq_in_use s' (fst (bs ! i)) = memq_in_use s (fst (bs ! i)) - {d}
    \<and> pools_ok s' bs \<and> (\<forall>j < length bs. j \<noteq> i \<longrightarrow> memq_in_use s' (fst (bs ! j)) = memq_in_use s (fst (bs ! j)))
    \<and> (\<exists>h ls. s' = s\<lparr>gl_nodes := h, gl_lists := ls\<rparr>)"
proof -
  let ?b = "fst (bs ! i)" and ?B = "snd (bs ! i)"
  note p = pools_okD [OF ok i]
  have q: "memq_inv s ?b" "mq_blocks s ?b = Some ?B" "free_packets_memq (static_pool_arr (ctxt s) ! i) = Some ?b"
    using p by (simp_all add: pool_ok_def)
  obtain free where I: "block_ok ?b ?B" "words_owned ?B (mq_words s)" "secure_list s ?b" "free_units s ?b ?B free"
    using memq_invD [OF q(1)] q(2) by auto
  obtain a where a: "d = a + overhead ?B" "a \<in> set (units ?B) - set free" using d in_use_eq [OF q(2) I(4)] by auto
  obtain s' where s': "gpr_memq_free s (Some ?b) (Some d) = Some s'" "list_frame (insert ?b (set (units ?B))) ?b s s'"
    using free_some [OF q(2) I a(2)] a(1) by blast
  obtain h ls where h: "s' = s\<lparr>gl_nodes := h, gl_lists := ls\<rparr>" using s'(2) by (auto simp: list_frame_def)
  have f: "memq_inv s' ?b" "memq_in_use s' ?b = memq_in_use s ?b - {d}" using free_law [OF q(1) d] s'(1) by simp_all
  have "ctxt s' = ctxt s" using h by simp
  note k = pools_list_frame [OF ok i s'(2) f(1) this]
  show ?thesis using s'(1) q(3) f k h by (intro exI [of _ s']) auto
qed

text \<open>A packet is in use in one pool only.\<close>

lemma in_use_one_pool:
  assumes "pools_ok s bs" "i < length bs" "j < length bs" "d \<in> memq_in_use s (fst (bs ! i))" "d \<in> memq_in_use s (fst (bs ! j))"
  shows "j = i"
proof (rule ccontr)
  assume "j \<noteq> i"
  then have "pool_area (snd (bs ! i)) \<inter> pool_area (snd (bs ! j)) = {}" using assms(1-3) unfolding pools_ok_def by metis
  then show False using in_use_in_heap(2) [OF pools_okD] assms by blast
qed

subsection \<open>Allocating and freeing packets\<close>

text \<open>Pool \<open>i\<close> is the one the loop of the allocation takes.\<close>

definition first_fit :: "gpr_drv \<Rightarrow> u32 \<Rightarrow> u32 \<Rightarrow> nat \<Rightarrow> bool" where
  "first_fit s packet_size heap_idx i \<longleftrightarrow> (let arr = static_pool_arr (ctxt s) in i < length arr
     \<and> packet_size \<le> buf_size (arr ! i) \<and> heap_idx = pool_heap_index (arr ! i)
     \<and> (\<forall>j < i. \<not> (packet_size \<le> buf_size (arr ! j) \<and> heap_idx = pool_heap_index (arr ! j))))"

lemma cmd_alloc_ok:
  assumes ok: "pools_ok s bs" and fit: "first_fit s (24 + n) heap_idx i"
    and room: "memq_in_use s (fst (bs ! i)) \<noteq> (\<lambda>a. a + 28) ` set (units (snd (bs ! i)))"
  shows "\<exists>d s' h ls. gpr_cmd_alloc_v2 mal s n heap_idx True = Some (AR_EOK, Some d, s')
    \<and> (\<forall>j < length bs. d \<notin> memq_in_use s (fst (bs ! j)) \<and>
         memq_in_use s' (fst (bs ! j)) = (if j = i then insert d (memq_in_use s (fst (bs ! j))) else memq_in_use s (fst (bs ! j))))
    \<and> pools_ok s' bs \<and> s' = s\<lparr>gl_nodes := h, gl_lists := ls, packets := (packets s)(d \<mapsto> init_packet (24 + n))\<rparr>"
proof -
  let ?pool = "static_pool_arr (ctxt s) ! i"
  have i: "i < length bs" using fit ok by (simp add: first_fit_def pools_ok_def Let_def)
  have "static_pool_of s (\<lambda>pool. 24 + n \<le> buf_size pool \<and> heap_idx = pool_heap_index pool) = Some (Some ?pool)"
    unfolding static_pool_of_eq [OF ok] using fit by (simp add: first_fit_def Let_def) (rule find_at, auto)
  moreover obtain d s1 h ls where d: "gpr_memq_alloc s (free_packets_memq ?pool) = Some (Some d, s1)"
      "d \<notin> memq_in_use s (fst (bs ! i))" "memq_in_use s1 (fst (bs ! i)) = insert d (memq_in_use s (fst (bs ! i)))"
      "pools_ok s1 bs" "\<forall>j < length bs. j \<noteq> i \<longrightarrow> memq_in_use s1 (fst (bs ! j)) = memq_in_use s (fst (bs ! j))"
      "s1 = s\<lparr>gl_nodes := h, gl_lists := ls\<rparr>"
    using pool_alloc [OF ok i room] by blast
  ultimately have r: "gpr_cmd_alloc_v2 mal s n heap_idx True = Some (AR_EOK, Some d, s1\<lparr>packets := (packets s1)(d \<mapsto> init_packet (24 + n))\<rparr>)"
    by (simp add: gpr_cmd_alloc_v2_def Let_def)
  have "d \<notin> memq_in_use s (fst (bs ! j))" if j: "j < length bs" for j
    using in_use_one_pool [OF d(4) i j, of d] d(2,3,5) j by (cases "j = i") auto
  then show ?thesis using r d(3-6) pools_packets
    by (intro exI [of _ d] exI [of _ "s1\<lparr>packets := (packets s1)(d \<mapsto> init_packet (24 + n))\<rparr>"] exI [of _ h] exI [of _ ls]) auto
qed

lemma cmd_free_ok:
  assumes ok: "pools_ok s bs" and i: "i < length bs" and d: "d \<in> memq_in_use s (fst (bs ! i))" and p: "packets s d = Some p"
    and sz: "GPR_PKT_GET_PACKET_BYTE_SIZE (header p) \<le> buf_size (static_pool_arr (ctxt s) ! i)"
  shows "\<exists>s' h ls ws. gpr_cmd_free E s (Some d) = Some (AR_EOK, s') \<and> pools_ok s' bs
    \<and> (\<forall>j < length bs. memq_in_use s' (fst (bs ! j)) = memq_in_use s (fst (bs ! j)) - {d})
    \<and> s' = s\<lparr>gl_nodes := h, gl_lists := ls, mq_words := ws\<rparr>"
proof -
  let ?pool = "static_pool_arr (ctxt s) ! i"
  obtain ws where ws: "gpr_memq_node_set_metadata s (free_packets_memq ?pool) (Some d) 0 0 = Some (AR_EOK, s\<lparr>mq_words := ws\<rparr>)"
      "dom ws = dom (mq_words s)"
    using set_owner [OF pools_okD [OF ok i] d, of 0] by blast
  let ?s = "s\<lparr>mq_words := ws\<rparr>"
  have ok1: "pools_ok ?s bs" "\<And>b. memq_in_use ?s b = memq_in_use s b" using pools_words [OF ok, of ws] ws(2) by simp_all
  obtain s' where s': "gpr_memq_free ?s (free_packets_memq ?pool) (Some d) = Some s'"
      "memq_in_use s' (fst (bs ! i)) = memq_in_use s (fst (bs ! i)) - {d}" "pools_ok s' bs"
      "\<forall>j < length bs. j \<noteq> i \<longrightarrow> memq_in_use s' (fst (bs ! j)) = memq_in_use s (fst (bs ! j))"
      "\<exists>h ls. s' = ?s\<lparr>gl_nodes := h, gl_lists := ls\<rparr>"
    using pool_free [OF ok1(1) i, of d] d ok1(2) by auto
  have "gpr_cmd_free E s (Some d) = Some (AR_EOK, s')"
    using p pool_of_packet [OF ok i d] sz ws(1) s'(1) by (simp add: gpr_cmd_free_def Let_def)
  moreover have "memq_in_use s' (fst (bs ! j)) = memq_in_use s (fst (bs ! j)) - {d}" if "j < length bs" for j
    using s'(2,4) that in_use_one_pool [OF ok i that d] by (cases "j = i") auto
  moreover obtain h ls where "s' = ?s\<lparr>gl_nodes := h, gl_lists := ls\<rparr>" using s'(5) by blast
  ultimately show ?thesis using s'(3)
    by (intro exI [of _ s'] exI [of _ h] exI [of _ ls] exI [of _ ws]) auto
qed

subsection \<open>Routing\<close>

text \<open>Where a port is registered: the sessions of heap 1 come first.\<close>

definition routes_ok :: "gpr_drv \<Rightarrow> (u32 \<rightharpoonup> addr) \<Rightarrow> bool" where [inv_defs]:
  "routes_ok s route \<longleftrightarrow> (\<exists>h1 h0 n1 n0 m1 m0. heap1_list (ctxt s) = Some h1 \<and> default_list (ctxt s) = Some h0
     \<and> hash_rel h1 n1 (sessions s) m1 \<and> hash_rel h0 n0 (sessions s) m0 \<and> route = m0 ++ m1)"

lemma get_session_route:
  assumes "routes_ok s route"
  shows "gpr_get_session_util s port = Some (case route port of None \<Rightarrow> (AR_ENOTEXIST, None) | Some a \<Rightarrow> (AR_EOK, Some a))"
proof -
  obtain h1 h0 n1 n0 m1 m0 where r: "heap1_list (ctxt s) = Some h1" "default_list (ctxt s) = Some h0"
      "hash_rel h1 n1 (sessions s) m1" "hash_rel h0 n0 (sessions s) m0" "route = m0 ++ m1"
    using assms unfolding routes_ok_def by blast
  note g = hash_sessions.get_law [OF r(3), of port] hash_sessions.get_law [OF r(4), of port]
  show ?thesis using g r(1,2,5)
    by (cases "m1 port"; cases "m0 port") (simp_all add: gpr_get_session_util_def map_add_def)
qed

text \<open>The data link of a domain is the driver's own.\<close>

definition local_domain :: "gpr_drv \<Rightarrow> u8 \<Rightarrow> bool" where [inv_defs]:
  "local_domain s dom_id \<longleftrightarrow> unat dom_id \<le> 12 \<and> unat dom_id < length (dl_table s)
     \<and> dl_vtbl (dl_table s ! unat dom_id) = Some \<lparr>send_fn = Some Fn_local, receive_done_fn = Some Fn_local\<rparr>"

lemma local_domainD:
  assumes "local_domain s dom_id"
  shows "\<not> GPR_PL_MAX_DOMAIN_ID_V < (ucast dom_id :: u32)"
    and "arr_at (dl_table s) (unat (ucast dom_id :: u32)) = Some (dl_table s ! unat dom_id)"
proof -
  have u: "unat (ucast dom_id :: u32) = unat dom_id" by transfer (simp add: take_bit_take_bit)
  show "\<not> GPR_PL_MAX_DOMAIN_ID_V < (ucast dom_id :: u32)" using assms u by (simp add: local_domain_def word_less_nat_alt)
  show "arr_at (dl_table s) (unat (ucast dom_id :: u32)) = Some (dl_table s ! unat dom_id)"
    using assms unfolding u by (simp add: local_domain_def arr_at_def)
qed

text \<open>The state with the owner of the packet at \<open>d\<close> written to its metadata word.\<close>

definition set_own :: "addr \<Rightarrow> u32 \<Rightarrow> gpr_drv \<Rightarrow> gpr_drv" where
  "set_own d v s = s\<lparr>mq_words := (mq_words s)(d - 4 \<mapsto> v)\<rparr>"

lemma set_own_ok:
  assumes ok: "pools_ok s bs" and i: "i < length bs" and d: "d \<in> memq_in_use s (fst (bs ! i))"
  shows "gpr_memq_node_set_metadata s (free_packets_memq (static_pool_arr (ctxt s) ! i)) (Some d) 0 v = Some (AR_EOK, set_own d v s)"
    and "pools_ok (set_own d v s) bs" "memq_in_use (set_own d v s) b = memq_in_use s b"
proof -
  obtain a ws where a: "gpr_memq_node_set_metadata s (free_packets_memq (static_pool_arr (ctxt s) ! i)) (Some d) 0 v
      = Some (AR_EOK, s\<lparr>mq_words := ws\<rparr>)" "d = a + 28" "ws = (mq_words s)(a + 24 \<mapsto> v)" "dom ws = dom (mq_words s)"
    using set_owner [OF pools_okD [OF ok i] d, of v] by blast
  have "set_own d v s = s\<lparr>mq_words := ws\<rparr>" using a(2,3) by (simp add: set_own_def add.commute)
  then show "gpr_memq_node_set_metadata s (free_packets_memq (static_pool_arr (ctxt s) ! i)) (Some d) 0 v = Some (AR_EOK, set_own d v s)"
      "pools_ok (set_own d v s) bs" "memq_in_use (set_own d v s) b = memq_in_use s b"
    using a(1,4) pools_words [OF ok, of ws] by simp_all
qed

lemma set_own_sel [simp]:
  "ctxt (set_own d v s) = ctxt s" "sessions (set_own d v s) = sessions s" "packets (set_own d v s) = packets s"
  "dl_table (set_own d v s) = dl_table s" "pkt_payload (set_own d v s) = pkt_payload s"
  "routes_ok (set_own d v s) route = routes_ok s route"
  by (simp_all add: set_own_def routes_ok_def)

text \<open>What the driver's own data link does with a packet.\<close>

definition deliver :: "gpr_env \<Rightarrow> (u32 \<rightharpoonup> addr) \<Rightarrow> addr \<Rightarrow> u32 \<Rightarrow> gpr_drv \<Rightarrow> (u32 \<times> gpr_drv) option" where
  "deliver E route d port s = (case route port of None \<Rightarrow> Some (AR_ENOTEXIST, s)
     | Some n \<Rightarrow> do {
         nd \<leftarrow> mod_nodes (sessions s) n;
         case callback_fn (session nd) of None \<Rightarrow> Some (AR_EFAILED, s)
         | Some f \<Rightarrow> call_callback E f d (callback_data (session nd)) s
       })"

lemma local_send_deliver:
  assumes "routes_ok s route" "packets s d = Some p"
  shows "gpr_local_send E domain_id d len s = deliver E route d (dst_port p) s"
  using assms(2) get_session_route [OF assms(1), of "dst_port p"]
  by (cases "route (dst_port p)") (simp_all add: gpr_local_send_def deliver_def)

lemma async_send_local:
  assumes ok: "pools_ok s bs" and i: "i < length bs" and d: "d \<in> memq_in_use s (fst (bs ! i))" and p: "packets s d = Some p"
    and sz: "GPR_PKT_GET_PACKET_BYTE_SIZE (header p) \<le> buf_size (static_pool_arr (ctxt s) ! i)"
    and l: "local_domain s (dst_domain_id p)" and r: "routes_ok s route"
  shows "gpr_cmd_async_send E s (Some d) = do {
      (rc, s') \<leftarrow> deliver E route d (dst_port p) (set_own d (dst_port p) s);
      if rc = AR_EOK then Some (rc, s')
      else do {
        p \<leftarrow> packets s' d;
        (_, s') \<leftarrow> gpr_memq_node_set_metadata s' (free_packets_memq (static_pool_arr (ctxt s) ! i)) (Some d) 0 (src_port p);
        Some (rc, s')
      }
    }"
proof -
  let ?s = "set_own d (dst_port p) s"
  have nsz: "\<not> buf_size (static_pool_arr (ctxt s) ! i) < GPR_PKT_GET_PACKET_BYTE_SIZE (header p)" using sz by simp
  have "gpr_local_send E (ucast (dst_domain_id p)) d (GPR_PKT_GET_PACKET_BYTE_SIZE (header p)) ?s = deliver E route d (dst_port p) ?s"
    using r p by (intro local_send_deliver) simp_all
  moreover have "dl_vtbl (dl_table s ! unat (dst_domain_id p)) = Some \<lparr>send_fn = Some Fn_local, receive_done_fn = Some Fn_local\<rparr>"
    using l by (simp add: local_domain_def)
  ultimately show ?thesis
    using p local_domainD(2) [OF l] pool_of_packet [OF ok i d] set_own_ok(1) [OF ok i d, of "dst_port p"]
    by (simp add: gpr_cmd_async_send_def Let_def dl_send_def nsz [THEN if_not_P] local_domainD(1) [OF l, THEN if_not_P])
qed

lemma pools_payload:
  shows "pools_ok (pkt_payload_update f s) bs = pools_ok s bs" "memq_in_use (pkt_payload_update f s) b = memq_in_use s b"
  by (simp_all add: pools_ok_def pool_ok_def memq_inv_def free_units_def glist_def secure_list_def memq_in_use_def split: option.splits)

subsection \<open>Responses\<close>

text \<open>The packet of an allocation with arguments.\<close>

definition packet_of :: "gpr_cmd_alloc_ext_args \<Rightarrow> gpr_packet" where
  "packet_of g = \<lparr>header = packet_header (24 + a_payload_size g), dst_domain_id = a_dst_domain_id g, src_domain_id = a_src_domain_id g,
     client_data = a_client_data g, pkt_reserved = 0, src_port = a_src_port g, dst_port = a_dst_port g, token = a_token g, opcode = a_opcode g\<rparr>"

lemma alloc_ext_ok:
  assumes ok: "pools_ok s bs" and fit: "first_fit s (24 + a_payload_size g) (a_heap_index g) i"
    and room: "memq_in_use s (fst (bs ! i)) \<noteq> (\<lambda>a. a + 28) ` set (units (snd (bs ! i)))" and ret: "a_has_ret_packet g"
  shows "\<exists>d s' h ls. gpr_cmd_alloc_ext_v2 mal s (Some g) = Some (AR_EOK, Some d, s')
    \<and> (\<forall>j < length bs. d \<notin> memq_in_use s (fst (bs ! j)) \<and>
         memq_in_use s' (fst (bs ! j)) = (if j = i then insert d (memq_in_use s (fst (bs ! j))) else memq_in_use s (fst (bs ! j))))
    \<and> pools_ok s' bs
    \<and> s' = set_own d (a_src_port g) (s\<lparr>gl_nodes := h, gl_lists := ls, packets := (packets s)(d \<mapsto> packet_of g)\<rparr>)"
proof -
  have i: "i < length bs" using fit ok by (simp add: first_fit_def pools_ok_def Let_def)
  obtain d s1 h ls where a: "gpr_cmd_alloc_v2 mal s (a_payload_size g) (a_heap_index g) True = Some (AR_EOK, Some d, s1)"
      "\<forall>j < length bs. d \<notin> memq_in_use s (fst (bs ! j)) \<and>
         memq_in_use s1 (fst (bs ! j)) = (if j = i then insert d (memq_in_use s (fst (bs ! j))) else memq_in_use s (fst (bs ! j)))"
      "pools_ok s1 bs" "s1 = s\<lparr>gl_nodes := h, gl_lists := ls, packets := (packets s)(d \<mapsto> init_packet (24 + a_payload_size g))\<rparr>"
    using cmd_alloc_ok [OF ok fit room, of mal] by blast
  define s2 where "s2 = packets_update (\<lambda>_. (packets s)(d \<mapsto> packet_of g)) s1"
  have ok2: "pools_ok s2 bs" "\<And>b. memq_in_use s2 b = memq_in_use s1 b" "ctxt s2 = ctxt s" "static_pool_arr (ctxt s2) = static_pool_arr (ctxt s)"
    using a(3) pools_packets [of "\<lambda>_. (packets s)(d \<mapsto> packet_of g)" s1] a(4) by (simp_all add: s2_def)
  have d: "d \<in> memq_in_use s2 (fst (bs ! i))" using a(2) i ok2(2) by simp
  note so = set_own_ok [OF ok2(1) i d, of "a_src_port g"]
  have ps: "modify (packets s1) (Some d) (\<lambda>p. p\<lparr>dst_port := a_dst_port g, dst_domain_id := a_dst_domain_id g,
      src_port := a_src_port g, src_domain_id := a_src_domain_id g, token := a_token g, opcode := a_opcode g,
      client_data := a_client_data g\<rparr>) = Some ((packets s)(d \<mapsto> packet_of g))"
    using a(4) by (simp add: modify_Some init_packet_def packet_of_def)
  have "gpr_cmd_alloc_ext_v2 mal s (Some g) = Some (AR_EOK, Some d, set_own d (a_src_port g) s2)"
    using a(1) ret ps pool_of_packet [OF ok2(1) i d] so(1) ok2(3)
    by (simp add: gpr_cmd_alloc_ext_v2_def Let_def s2_def [symmetric])
  then show ?thesis using a(2,4) so(2,3) ok2(2)
    by (intro exI [of _ d] exI [of _ "set_own d (a_src_port g) s2"] exI [of _ h] exI [of _ ls]) (auto simp: s2_def)
qed

lemma last_pool_heap_fold:
  "idx + k = length arr \<Longrightarrow> last_pool_heap a arr idx k hp
    = Some (fold (\<lambda>pool h. if in_packet_heap a pool then pool_heap_index pool else h) (drop idx arr) hp)"
proof (induction k arbitrary: idx hp)
  case 0
  then show ?case by simp
next
  case (Suc k)
  then have i: "idx < length arr" by simp
  then have "drop idx arr = arr ! idx # drop (Suc idx) arr" by (simp add: Cons_nth_drop_Suc)
  then show ?case using Suc i by (simp add: arr_at_def)
qed

lemma heap_of_packet:
  assumes ok: "pools_ok s bs" and i: "i < length bs" and d: "d \<in> memq_in_use s (fst (bs ! i))"
  shows "last_pool_heap d (static_pool_arr (ctxt s)) 0 (unat (num_static_packet_pools (ctxt s))) hp
    = Some (pool_heap_index (static_pool_arr (ctxt s) ! i))"
proof -
  let ?arr = "static_pool_arr (ctxt s)"
  let ?f = "\<lambda>pool h. if in_packet_heap d pool then pool_heap_index pool else h"
  have len: "length bs = length ?arr" using ok by (simp add: pools_ok_def)
  have "\<not> in_packet_heap d (?arr ! j)" if j: "j < length bs" "j \<noteq> i" for j
  proof
    assume "in_packet_heap d (?arr ! j)"
    then have "d \<in> pool_area (snd (bs ! j))" using heap_in_area pools_okD [OF ok j(1)] by blast
    moreover have "pool_area (snd (bs ! i)) \<inter> pool_area (snd (bs ! j)) = {}"
      using ok i j unfolding pools_ok_def by metis
    ultimately show False using in_use_in_heap(2) [OF pools_okD [OF ok i] d] by blast
  qed
  then have out: "\<forall>pool \<in> set (drop (Suc i) ?arr). \<not> in_packet_heap d pool"
    using len by (auto simp: in_set_conv_nth)
  have skip: "fold ?f xs h = h" if "\<forall>pool \<in> set xs. \<not> in_packet_heap d pool" for xs h
    using that by (induction xs) simp_all
  have "fold ?f ?arr hp = fold ?f (take i ?arr @ ?arr ! i # drop (Suc i) ?arr) hp" using i len by (simp only: id_take_nth_drop [symmetric])
  also have "\<dots> = fold ?f (drop (Suc i) ?arr) (pool_heap_index (?arr ! i))"
    using in_use_in_heap(1) [OF pools_okD [OF ok i] d] by (simp only: fold_append fold_simps comp_apply if_True)
  also have "\<dots> = pool_heap_index (?arr ! i)" by (rule skip [OF out])
  finally have "fold ?f ?arr hp = pool_heap_index (?arr ! i)" .
  then show ?thesis using last_pool_heap_fold [of 0 "unat (num_static_packet_pools (ctxt s))" ?arr d hp] ok by (simp add: pools_ok_def)
qed

text \<open>The arguments of the response to the packet \<open>p\<close>, and the response.\<close>

definition rsp_args :: "gpr_packet \<Rightarrow> u32 \<Rightarrow> gpr_cmd_alloc_ext_args" where
  "rsp_args p heap_idx = \<lparr>a_src_domain_id = dst_domain_id p, a_src_port = dst_port p, a_dst_domain_id = src_domain_id p,
     a_dst_port = src_port p, a_client_data = client_data p, a_token = token p,
     a_opcode = GPR_IBASIC_RSP_RESULT, a_payload_size = 8, a_heap_index = heap_idx, a_has_ret_packet = True\<rparr>"

definition rsp_packet :: "gpr_packet \<Rightarrow> gpr_packet" where
  "rsp_packet p = \<lparr>header = packet_header 32, dst_domain_id = src_domain_id p, src_domain_id = dst_domain_id p,
     client_data = client_data p, pkt_reserved = 0, src_port = dst_port p, dst_port = src_port p, token = token p,
     opcode = GPR_IBASIC_RSP_RESULT\<rparr>"

lemma packet_of_rsp: "packet_of (rsp_args p heap_idx) = rsp_packet p"
  by (simp add: packet_of_def rsp_args_def rsp_packet_def)

lemma rsp_size: "GPR_PKT_GET_PACKET_BYTE_SIZE (header (rsp_packet p)) = 32"
  by (simp add: rsp_packet_def packet_size_eq)

lemma put_payload_sel [simp]:
  "ctxt (put_payload s r bs) = ctxt s" "sessions (put_payload s r bs) = sessions s" "packets (put_payload s r bs) = packets s"
  "dl_table (put_payload s r bs) = dl_table s" "pools_ok (put_payload s r bs) ps = pools_ok s ps"
  "memq_in_use (put_payload s r bs) b = memq_in_use s b" "routes_ok (put_payload s r bs) route = routes_ok s route"
  "local_domain (put_payload s r bs) dom_id = local_domain s dom_id"
  by (simp_all add: put_payload_def pools_payload routes_ok_def local_domain_def)

text \<open>A command in use in pool \<open>i\<close> whose response is taken from pool \<open>j\<close>.\<close>

definition command_ok :: "gpr_drv \<Rightarrow> (addr \<times> gpr_memq_block) list \<Rightarrow> addr \<Rightarrow> gpr_packet \<Rightarrow> nat \<Rightarrow> nat \<Rightarrow> bool" where
  "command_ok s bs a p i j \<longleftrightarrow> pools_ok s bs \<and> i < length bs \<and> a \<in> memq_in_use s (fst (bs ! i)) \<and> packets s a = Some p
     \<and> GPR_PKT_GET_PACKET_BYTE_SIZE (header p) \<le> buf_size (static_pool_arr (ctxt s) ! i)
     \<and> \<not> no_response_type (opcode_type (opcode p))
     \<and> first_fit s 32 (pool_heap_index (static_pool_arr (ctxt s) ! i)) j
     \<and> memq_in_use s (fst (bs ! j)) \<noteq> (\<lambda>a. a + 28) ` set (units (snd (bs ! j)))"

lemma end_command_rsp:
  assumes c: "command_ok s bs a p i j"
  shows "\<exists>r s1 h ls. (\<forall>k < length bs. r \<notin> memq_in_use s (fst (bs ! k)) \<and>
         memq_in_use s1 (fst (bs ! k)) = (if k = j then insert r (memq_in_use s (fst (bs ! k))) else memq_in_use s (fst (bs ! k))))
    \<and> pools_ok s1 bs \<and> j < length bs \<and> 32 \<le> buf_size (static_pool_arr (ctxt s) ! j) \<and> r \<noteq> a
    \<and> s1 = put_payload (set_own r (dst_port p) (s\<lparr>gl_nodes := h, gl_lists := ls, packets := (packets s)(r \<mapsto> rsp_packet p)\<rparr>)) r (le32 (opcode p) @ le32 status)
    \<and> gpr_cmd_end_command E mal s (Some a) status = do {
        (rc, s2) \<leftarrow> gpr_cmd_async_send E s1 (Some r);
        s3 \<leftarrow> (if rc = AR_EOK then Some s2 else do { (_, s3) \<leftarrow> gpr_cmd_free E s2 (Some r); Some s3 });
        (_, s4) \<leftarrow> gpr_cmd_free E s3 (Some a);
        Some (rc, s4)
      }"
proof -
  let ?hp = "pool_heap_index (static_pool_arr (ctxt s) ! i)"
  have C: "pools_ok s bs" "i < length bs" "a \<in> memq_in_use s (fst (bs ! i))" "packets s a = Some p"
      "\<not> no_response_type (opcode_type (opcode p))" "first_fit s 32 ?hp j"
      "memq_in_use s (fst (bs ! j)) \<noteq> (\<lambda>a. a + 28) ` set (units (snd (bs ! j)))"
    using c by (simp_all add: command_ok_def)
  have j: "j < length bs" "32 \<le> buf_size (static_pool_arr (ctxt s) ! j)" using C(1,6) by (simp_all add: first_fit_def pools_ok_def Let_def)
  have f: "first_fit s (24 + a_payload_size (rsp_args p ?hp)) (a_heap_index (rsp_args p ?hp)) j" "a_has_ret_packet (rsp_args p ?hp)"
    using C(6) by (simp_all add: rsp_args_def)
  obtain r s1 h ls where x: "gpr_cmd_alloc_ext_v2 mal s (Some (rsp_args p ?hp)) = Some (AR_EOK, Some r, s1)"
      "\<forall>k < length bs. r \<notin> memq_in_use s (fst (bs ! k)) \<and>
         memq_in_use s1 (fst (bs ! k)) = (if k = j then insert r (memq_in_use s (fst (bs ! k))) else memq_in_use s (fst (bs ! k)))"
      "pools_ok s1 bs" "s1 = set_own r (a_src_port (rsp_args p ?hp)) (s\<lparr>gl_nodes := h, gl_lists := ls, packets := (packets s)(r \<mapsto> packet_of (rsp_args p ?hp))\<rparr>)"
    using alloc_ext_ok [OF C(1) f(1) C(7) f(2), of mal] by blast
  have ra: "r \<noteq> a" using x(2) C(2,3) by blast
  have s1: "s1 = set_own r (dst_port p) (s\<lparr>gl_nodes := h, gl_lists := ls, packets := (packets s)(r \<mapsto> rsp_packet p)\<rparr>)"
    using x(4) by (simp add: packet_of_rsp) (simp add: rsp_args_def)
  have pa: "packets s1 a = Some p" using s1 ra C(4) by simp
  let ?s = "put_payload s1 r (le32 (opcode p) @ le32 status)"
  have "gpr_cmd_end_command E mal s (Some a) status = do {
        (rc, s2) \<leftarrow> gpr_cmd_async_send E ?s (Some r);
        s3 \<leftarrow> (if rc = AR_EOK then Some s2 else do { (_, s3) \<leftarrow> gpr_cmd_free E s2 (Some r); Some s3 });
        (_, s4) \<leftarrow> gpr_cmd_free E s3 (Some a);
        Some (rc, s4)
      }"
    using C(4,5) heap_of_packet [OF C(1-3)] x(1) pa
    by (auto simp: gpr_cmd_end_command_def rsp_args_def [symmetric] split: Option.bind_split)
  then show ?thesis using x(2,3) j ra s1 by (intro exI [of _ r] exI [of _ ?s] exI [of _ h] exI [of _ ls]) simp
qed

text \<open>Freeing the response and then the command leaves in use what was in use besides the command.\<close>

lemma free_both:
  assumes c: "command_ok s bs a p i j" and t: "pools_ok t bs" "ctxt t = ctxt s" "packets t r = Some (rsp_packet p)" "packets t a = Some p"
    and u: "\<forall>k < length bs. r \<notin> memq_in_use s (fst (bs ! k)) \<and>
         memq_in_use t (fst (bs ! k)) = (if k = j then insert r (memq_in_use s (fst (bs ! k))) else memq_in_use s (fst (bs ! k)))"
    and j: "j < length bs" "32 \<le> buf_size (static_pool_arr (ctxt s) ! j)"
  shows "\<exists>s3 s4. gpr_cmd_free E t (Some r) = Some (AR_EOK, s3) \<and> gpr_cmd_free E' s3 (Some a) = Some (AR_EOK, s4) \<and> pools_ok s4 bs
    \<and> (\<forall>k < length bs. memq_in_use s4 (fst (bs ! k)) = memq_in_use s (fst (bs ! k)) - {a})"
proof -
  have C: "i < length bs" "a \<in> memq_in_use s (fst (bs ! i))" "GPR_PKT_GET_PACKET_BYTE_SIZE (header p) \<le> buf_size (static_pool_arr (ctxt s) ! i)"
    using c by (simp_all add: command_ok_def)
  have "r \<in> memq_in_use t (fst (bs ! j))" using u j(1) by simp
  then obtain s3 h ls ws where s3: "gpr_cmd_free E t (Some r) = Some (AR_EOK, s3)" "pools_ok s3 bs"
      "\<forall>k < length bs. memq_in_use s3 (fst (bs ! k)) = memq_in_use t (fst (bs ! k)) - {r}"
      "s3 = t\<lparr>gl_nodes := h, gl_lists := ls, mq_words := ws\<rparr>"
    using cmd_free_ok [OF t(1) j(1) _ t(3), of E] j(2) t(2) rsp_size by fastforce
  have u3: "memq_in_use s3 (fst (bs ! k)) = memq_in_use s (fst (bs ! k))" if "k < length bs" for k
    using s3(3) u that by (cases "k = j") auto
  have "a \<in> memq_in_use s3 (fst (bs ! i))" using u3 C(1,2) by simp
  then have "\<exists>s4. gpr_cmd_free E' s3 (Some a) = Some (AR_EOK, s4) \<and> pools_ok s4 bs
      \<and> (\<forall>k < length bs. memq_in_use s4 (fst (bs ! k)) = memq_in_use s3 (fst (bs ! k)) - {a})"
    using cmd_free_ok [OF s3(2) C(1), of a p E'] s3(4) t(2,4) C(3) by fastforce
  then show ?thesis using s3(1) u3 by auto
qed

text \<open>What the receiver of the response must leave alone: the pools are as they should be and the command packet is still in use.\<close>

definition command_kept :: "(addr \<times> gpr_memq_block) list \<Rightarrow> nat \<Rightarrow> addr \<Rightarrow> gpr_packet \<Rightarrow> gpr_drv \<Rightarrow> gpr_drv \<Rightarrow> bool" where
  "command_kept bs i a p t t' \<longleftrightarrow> pools_ok t' bs \<and> ctxt t' = ctxt t \<and> packets t' a = Some p \<and> a \<in> memq_in_use t' (fst (bs ! i))"

lemma end_command_ends:
  assumes c: "command_ok s bs a p i j" and l: "local_domain s (src_domain_id p)" and r: "routes_ok s route"
  shows "\<exists>r t. (\<forall>k < length bs. r \<notin> memq_in_use s (fst (bs ! k))
        \<and> memq_in_use t (fst (bs ! k)) = (if k = j then insert r (memq_in_use s (fst (bs ! k))) else memq_in_use s (fst (bs ! k))))
    \<and> pools_ok t bs \<and> ctxt t = ctxt s \<and> sessions t = sessions s \<and> packets t r = Some (rsp_packet p) \<and> packets t a = Some p
    \<and> (\<forall>rc t'. deliver E route r (src_port p) t = Some (rc, t') \<and> (if rc = AR_EOK then command_kept bs i a p t t' else t' = t) \<longrightarrow>
        (\<exists>s'. gpr_cmd_end_command E mal s (Some a) status = Some (rc, s') \<and> pools_ok s' bs
          \<and> (\<forall>k < length bs. memq_in_use s' (fst (bs ! k)) = (if rc = AR_EOK then memq_in_use t' (fst (bs ! k)) else memq_in_use s (fst (bs ! k))) - {a})))"
proof -
  obtain d s1 hh ls where x: "\<forall>k < length bs. d \<notin> memq_in_use s (fst (bs ! k)) \<and>
         memq_in_use s1 (fst (bs ! k)) = (if k = j then insert d (memq_in_use s (fst (bs ! k))) else memq_in_use s (fst (bs ! k)))"
      "pools_ok s1 bs" "j < length bs" "32 \<le> buf_size (static_pool_arr (ctxt s) ! j)" "d \<noteq> a"
      "s1 = put_payload (set_own d (dst_port p) (s\<lparr>gl_nodes := hh, gl_lists := ls, packets := (packets s)(d \<mapsto> rsp_packet p)\<rparr>)) d (le32 (opcode p) @ le32 status)"
      "gpr_cmd_end_command E mal s (Some a) status = do {
        (rc, s2) \<leftarrow> gpr_cmd_async_send E s1 (Some d);
        s3 \<leftarrow> (if rc = AR_EOK then Some s2 else do { (_, s3) \<leftarrow> gpr_cmd_free E s2 (Some d); Some s3 });
        (_, s4) \<leftarrow> gpr_cmd_free E s3 (Some a);
        Some (rc, s4) }"
    using end_command_rsp [OF c, of status E mal] by (elim exE conjE) (rule that; assumption)
  let ?p = "rsp_packet p"
  have C: "packets s a = Some p" "i < length bs" "GPR_PKT_GET_PACKET_BYTE_SIZE (header p) \<le> buf_size (static_pool_arr (ctxt s) ! i)"
    using c by (simp_all add: command_ok_def)
  have q: "ctxt s1 = ctxt s" "packets s1 d = Some ?p" "packets s1 a = Some p" "sessions s1 = sessions s" "dst_port ?p = src_port p" "src_port ?p = dst_port p"
    using x(5,6) C(1) by (simp_all add: rsp_packet_def)
  have l1: "local_domain s1 (dst_domain_id ?p)" and r1: "routes_ok s1 route"
    using l r x(6) by (simp_all add: rsp_packet_def local_domain_def routes_ok_def)
  have d: "d \<in> memq_in_use s1 (fst (bs ! j))" using x(1,3) by simp
  define t where "t = set_own d (src_port p) s1"
  have t: "pools_ok t bs" "\<And>b. memq_in_use t b = memq_in_use s1 b" "ctxt t = ctxt s" "packets t d = Some ?p" "packets t a = Some p" "sessions t = sessions s"
    using set_own_ok(2,3) [OF x(2,3) d, of "src_port p"] q(1-4) by (simp_all add: t_def)
  have send: "gpr_cmd_async_send E s1 (Some d) = do {
      (rc, s') \<leftarrow> deliver E route d (src_port p) t;
      if rc = AR_EOK then Some (rc, s')
      else do {
        p \<leftarrow> packets s' d;
        (_, s') \<leftarrow> gpr_memq_node_set_metadata s' (free_packets_memq (static_pool_arr (ctxt s) ! j)) (Some d) 0 (src_port p);
        Some (rc, s')
      } }"
    using async_send_local [OF x(2,3) d q(2) _ l1 r1, of E] x(4) rsp_size q(1,5) by (simp add: t_def cong: if_cong)
  have ok: "\<exists>s'. gpr_cmd_end_command E mal s (Some a) status = Some (AR_EOK, s') \<and> pools_ok s' bs
      \<and> (\<forall>k < length bs. memq_in_use s' (fst (bs ! k)) = memq_in_use t' (fst (bs ! k)) - {a})"
    if "deliver E route d (src_port p) t = Some (AR_EOK, t')" "command_kept bs i a p t t'" for t'
    using cmd_free_ok [of t' bs i a p E] that C(2,3) t(3) unfolding x(7) send command_kept_def by fastforce
  have bad: "\<exists>s'. gpr_cmd_end_command E mal s (Some a) status = Some (rc, s') \<and> pools_ok s' bs
      \<and> (\<forall>k < length bs. memq_in_use s' (fst (bs ! k)) = memq_in_use s (fst (bs ! k)) - {a})"
    if "deliver E route d (src_port p) t = Some (rc, t)" "rc \<noteq> AR_EOK" for rc
  proof -
    define t2 where "t2 = set_own d (dst_port p) t"
    have d2: "d \<in> memq_in_use t (fst (bs ! j))" using d t(2) by simp
    note o = set_own_ok [OF t(1) x(3) d2, of "dst_port p", folded t2_def]
    have "gpr_cmd_async_send E s1 (Some d) = Some (rc, t2)" unfolding send using that t(3,4) o(1) q(6) by simp
    moreover have "\<exists>s3 s4. gpr_cmd_free E t2 (Some d) = Some (AR_EOK, s3) \<and> gpr_cmd_free E s3 (Some a) = Some (AR_EOK, s4) \<and> pools_ok s4 bs
      \<and> (\<forall>k < length bs. memq_in_use s4 (fst (bs ! k)) = memq_in_use s (fst (bs ! k)) - {a})"
      using o(2,3) t x(1,3,4) by (intro free_both [OF c]) (simp_all add: t2_def)
    ultimately show ?thesis unfolding x(7) using that(2) by auto
  qed
  have "\<exists>s'. gpr_cmd_end_command E mal s (Some a) status = Some (rc, s') \<and> pools_ok s' bs
      \<and> (\<forall>k < length bs. memq_in_use s' (fst (bs ! k)) = (if rc = AR_EOK then memq_in_use t' (fst (bs ! k)) else memq_in_use s (fst (bs ! k))) - {a})"
    if "deliver E route d (src_port p) t = Some (rc, t') \<and> (if rc = AR_EOK then command_kept bs i a p t t' else t' = t)" for rc t'
    using ok [of t'] bad [of rc] that by (cases "rc = AR_EOK") auto
  then show ?thesis using t x(1) by (intro exI [of _ d] exI [of _ t]) auto
qed

subsection \<open>Examples\<close>

text \<open>
  A driver with one pool of two packets, of which one is a command from port 7 to port 9, and
  with port 7 registered in the default list.
\<close>

definition ex_block :: gpr_memq_block where
  "ex_block = \<lparr>base_addr = 2000, total_units = 2, unit_size = 60, metadata_size = 1,
     unique_metadata_ids = Some [0, 0], unique_metadata_counts = Some [0, 0]\<rparr>"

definition ex_command :: gpr_packet where
  "ex_command = \<lparr>header = packet_header 24, dst_domain_id = 1, src_domain_id = 1, client_data = 0, pkt_reserved = 0,
     src_port = 7, dst_port = 9, token = 5, opcode = 0x01001000\<rparr>"

definition ex_routes :: gpr_session_mem where
  "ex_routes = \<lparr>mod_nodes = [60 \<mapsto> \<lparr>my_module_port = 7, session = \<lparr>callback_fn = Some 70, callback_data = Some 71\<rparr>, mnext = None\<rparr>],
     node_lists = [50 \<mapsto> \<lparr>heap_index = 0, max_cb_list_size = 3, cb_list = [None, Some 60, None]\<rparr>,
                   51 \<mapsto> \<lparr>heap_index = 1, max_cb_list_size = 3, cb_list = [None, None, None]\<rparr>]\<rparr>"

definition ex_ctxt :: gpr_ctxt_struct where
  "ex_ctxt = \<lparr>default_list = Some 50, heap1_list = Some 51, num_user_defined_domains = 1, default_domain_id = 1, drv_heap_index = 0,
     num_static_packet_pools = 1,
     static_pool_arr = [\<lparr>packet_heap = Some 2000, packet_heap_end = Some 2119, free_packets_memq = Some 1000, buf_size = 32,
       num_packets = 2, pool_heap_index = 0\<rparr>],
     num_dyn_packet_pools = 0, dyn_pool_arr = []\<rparr>"

definition ex_dl :: "ipc_dl_local list" where
  "ex_dl = (replicate 13 \<lparr>dl_domain_id = 0, dl_init_fn = None, dl_deinit_fn = None, dl_vtbl = None, supports_shared_mem = False\<rparr>)
     [1 := \<lparr>dl_domain_id = 1, dl_init_fn = Some Fn_local, dl_deinit_fn = Some Fn_local,
       dl_vtbl = Some \<lparr>send_fn = Some Fn_local, receive_done_fn = Some Fn_local\<rparr>, supports_shared_mem = True\<rparr>]"

definition ex_drv :: gpr_drv where
  "ex_drv = \<lparr>gl_nodes = [1000 \<mapsto> \<lparr>next_ptr = Some 2060, prev_ptr = Some 2060, node_list = None\<rparr>,
       2060 \<mapsto> \<lparr>next_ptr = Some 1000, prev_ptr = Some 1000, node_list = None\<rparr>,
       2000 \<mapsto> \<lparr>next_ptr = Some 2000, prev_ptr = Some 2000, node_list = None\<rparr>],
     gl_lists = [1000 \<mapsto> \<lparr>list_size = 1, lock_fn = Some 1, unlock_fn = Some 2, en_secure = True\<rparr>],
     mq_words = [2024 \<mapsto> 7, 2084 \<mapsto> 0], mq_blocks = [1000 \<mapsto> ex_block],
     sessions = ex_routes, packets = [2028 \<mapsto> ex_command], pkt_payload = (\<lambda>_. replicate 8 0), ctxt = ex_ctxt, dl_table = ex_dl,
     dyn_packets = Map.empty, dynamic_packet_list = 3000, gpr_dynamic_packet_init_done = False, gpr_deinit_flag = False\<rparr>"

definition ex_env0 :: gpr_env where
  "ex_env0 = \<lparr>call_callback = (\<lambda>_ _ _ t. Some (AR_EOK, t)), call_send = (\<lambda>_ _ _ _ t. Some (AR_EFAILED, t)),
     call_receive_done = (\<lambda>_ _ _ t. Some (AR_EOK, t)), list_word = None\<rparr>"

text \<open>Here every callback frees the packet.\<close>

definition ex_env :: gpr_env where
  "ex_env = ex_env0\<lparr>call_callback := (\<lambda>_ d _ t. gpr_cmd_free ex_env0 t (Some d))\<rparr>"

lemma ex_units: "units ex_block = [2000, 2060]" "overhead ex_block = 28"
  by (simp_all add: units_def ex_block_def overhead_def upt_rec)

lemma ex_free_units: "free_units ex_drv 1000 ex_block [2060]"
  by (auto simp: free_units_def ex_units glist_def ring_def ex_drv_def)

lemma ex_memq_ok: "memq_inv ex_drv 1000"
proof (rule memq_invI [OF _ _ _ _ ex_free_units])
  show "mq_blocks ex_drv 1000 = Some ex_block" by (simp add: ex_drv_def)
  show "block_ok 1000 ex_block" by (simp add: block_ok_def ex_units) (simp add: ex_block_def)
  show "words_owned ex_block (mq_words ex_drv)" by (simp add: words_owned_def ex_units) (simp add: ex_block_def ex_drv_def)
  show "secure_list ex_drv 1000" by (simp add: secure_list_def ex_drv_def)
qed

lemma ex_pools: "pools_ok ex_drv [(1000, ex_block)]"
proof -
  have c: "ctxt ex_drv = ex_ctxt" "mq_blocks ex_drv 1000 = Some ex_block" by (simp_all add: ex_drv_def)
  have "1000 \<notin> pool_area ex_block" by (simp add: pool_area_def ex_block_def)
  moreover have "pool_ok ex_drv (static_pool_arr ex_ctxt ! 0) 1000 ex_block"
    using c(2) ex_memq_ok by (simp add: pool_ok_def) (simp add: ex_ctxt_def ex_block_def)
  ultimately show ?thesis using c(1) by (simp add: pools_ok_def) (simp add: ex_ctxt_def)
qed

lemma ex_in_use: "memq_in_use ex_drv 1000 = {2028}"
proof -
  have "mq_blocks ex_drv 1000 = Some ex_block" by (simp add: ex_drv_def)
  from in_use_eq [OF this ex_free_units] show ?thesis by (auto simp: ex_units)
qed

lemma ex_hash0: "hash_rel 50 3 ex_routes [7 \<mapsto> 60]"
proof -
  let ?ch = "\<lambda>k. if k = 1 then [60] else [] :: addr list"
  have b: "bucket 3 7 = 1" by (simp add: bucket_def)
  have "chains_ok 3 (mod_nodes ex_routes) [None, Some 60, None] ?ch"
    by (auto simp: chains_ok_def ex_routes_def port_of_def b word_less_nat_alt nth_Cons')
  moreover have "chain_map 3 (mod_nodes ex_routes) ?ch = [7 \<mapsto> 60]"
    using b by (auto simp: chain_map_def fun_eq_iff ex_routes_def port_of_def)
  ultimately show ?thesis unfolding hash_rel_def by (simp add: ex_routes_def) metis
qed

lemma ex_hash1: "hash_rel 51 3 ex_routes Map.empty"
proof -
  have "chains_ok 3 (mod_nodes ex_routes) [None, None, None] (\<lambda>_. [])"
    by (simp add: chains_ok_def word_less_nat_alt nth_Cons')
  moreover have "chain_map 3 (mod_nodes ex_routes) (\<lambda>_. []) = Map.empty" by (simp add: chain_map_def fun_eq_iff)
  ultimately show ?thesis unfolding hash_rel_def by (simp add: ex_routes_def) metis
qed

lemma ex_route: "routes_ok ex_drv [7 \<mapsto> 60]"
proof -
  have "sessions ex_drv = ex_routes" "heap1_list (ctxt ex_drv) = Some 51" "default_list (ctxt ex_drv) = Some 50"
    by (simp_all add: ex_drv_def ex_ctxt_def)
  then show ?thesis using ex_hash0 ex_hash1 unfolding routes_ok_def
    by (intro exI [of _ 51] exI [of _ 50] exI [of _ 3] exI [of _ Map.empty] exI [of _ "[7 \<mapsto> 60]"]) simp
qed

lemma ex_local: "local_domain ex_drv 1"
  by (simp add: local_domain_def ex_drv_def ex_dl_def)

lemma ex_command_ok: "command_ok ex_drv [(1000, ex_block)] 2028 ex_command 0 0"
proof -
  have "GPR_PKT_GET_PACKET_BYTE_SIZE (header ex_command) = 24" by (simp add: ex_command_def packet_size_eq)
  moreover have "\<not> no_response_type (opcode_type (opcode ex_command))"
    by (simp add: ex_command_def no_response_type_def opcode_type_def)
  moreover have "packets ex_drv 2028 = Some ex_command" "static_pool_arr (ctxt ex_drv) ! 0 = static_pool_arr ex_ctxt ! 0"
    by (simp_all add: ex_drv_def)
  moreover have "first_fit ex_drv 32 (pool_heap_index (static_pool_arr ex_ctxt ! 0)) 0"
    by (simp add: first_fit_def ex_drv_def ex_ctxt_def)
  ultimately show ?thesis using ex_pools ex_in_use by (auto simp: command_ok_def ex_units) (simp add: ex_ctxt_def)
qed

subsection \<open>Properties\<close>

text \<open>
  the header word of a packet that was allocated is well formed: the size of the header reads back as 24 bytes
  and, as long as the whole packet is below 2^24 bytes, the payload size reads back as what was asked for; the size
  field is exactly the packet size modulo 2^24.
\<close>

theorem gpr_packet_header_roundtrip:
  "GPR_PKT_GET_HEADER_BYTE_SIZE (header (init_packet (GPR_PKT_HEADER_BYTE_SIZE_V + n))) = GPR_PKT_HEADER_BYTE_SIZE_V
    \<and> unat (GPR_PKT_GET_PACKET_BYTE_SIZE (header (init_packet m))) = unat m mod 2 ^ 24
    \<and> (24 + unat n < 2 ^ 24 \<longrightarrow> GPR_PKT_GET_PAYLOAD_BYTE_SIZE (header (init_packet (GPR_PKT_HEADER_BYTE_SIZE_V + n))) = n)"
proof -
  have "unat (24 + n) = 24 + unat n" if "24 + unat n < 2 ^ 24"
  proof -
    have "24 + unat n < 2 ^ 32" using that by simp
    then show ?thesis by (simp add: unat_word_ariths)
  qed
  then have "24 + unat n < 2 ^ 24 \<longrightarrow> GPR_PKT_GET_PACKET_BYTE_SIZE (packet_header (24 + n)) = 24 + n"
    using packet_size_eq [of "24 + n"] by simp
  moreover have "unat (GPR_PKT_GET_PACKET_BYTE_SIZE (packet_header m)) = unat m mod 2 ^ 24"
    unfolding packet_size_field by (simp add: unsigned_take_bit_eq take_bit_eq_mod [where 'a = nat])
  ultimately show ?thesis by (simp add: init_packet_def header_size_field GPR_PKT_GET_PAYLOAD_BYTE_SIZE_def)
qed

theorem gpr_packet_header_roundtrip_witness:
  "GPR_PKT_GET_PAYLOAD_BYTE_SIZE (header (init_packet (GPR_PKT_HEADER_BYTE_SIZE_V + 100))) = 100
    \<and> unat (GPR_PKT_GET_PACKET_BYTE_SIZE (header (init_packet 0x1000001))) = 1"
  using gpr_packet_header_roundtrip [of 100 "0x1000001"] by simp

text \<open>
  C19: the driver allocates a packet from the first static pool of the heap that is large enough, as long as it has
  a free packet: the packet was in use in no pool, its payload size is the one asked for, no other packet is touched,
  and freeing it gives it back to the pool it came from, so that every pool has the same packets in use as before.
\<close>

theorem gpr_alloc_free_packet:
  assumes "pools_ok s bs" "first_fit s (GPR_PKT_HEADER_BYTE_SIZE_V + n) heap_idx i" "24 + unat n < 2 ^ 24"
    and "memq_in_use s (fst (bs ! i)) \<noteq> (\<lambda>a. a + 28) ` set (units (snd (bs ! i)))"
  shows "\<exists>d s' s''. gpr_cmd_alloc_v2 mal s n heap_idx True = Some (AR_EOK, Some d, s')
    \<and> (\<forall>j < length bs. d \<notin> memq_in_use s (fst (bs ! j))) \<and> d \<in> memq_in_use s' (fst (bs ! i)) \<and> pools_ok s' bs
    \<and> packets s' = (packets s)(d \<mapsto> init_packet (GPR_PKT_HEADER_BYTE_SIZE_V + n))
    \<and> gpr_cmd_free E s' (Some d) = Some (AR_EOK, s'') \<and> pools_ok s'' bs
    \<and> (\<forall>j < length bs. memq_in_use s'' (fst (bs ! j)) = memq_in_use s (fst (bs ! j)))"
proof -
  obtain d s' h ls where a: "gpr_cmd_alloc_v2 mal s n heap_idx True = Some (AR_EOK, Some d, s')"
      "\<forall>j < length bs. d \<notin> memq_in_use s (fst (bs ! j)) \<and>
         memq_in_use s' (fst (bs ! j)) = (if j = i then insert d (memq_in_use s (fst (bs ! j))) else memq_in_use s (fst (bs ! j)))"
      "pools_ok s' bs" "s' = s\<lparr>gl_nodes := h, gl_lists := ls, packets := (packets s)(d \<mapsto> init_packet (24 + n))\<rparr>"
    using cmd_alloc_ok [OF assms(1,2,4), of mal] by blast
  have i: "i < length bs" "24 + n \<le> buf_size (static_pool_arr (ctxt s) ! i)"
    using assms(1,2) by (simp_all add: first_fit_def pools_ok_def Let_def)
  have "24 + unat n < 2 ^ 32" using assms(3) by simp
  then have "unat (24 + n) = 24 + unat n" by (simp add: unat_word_ariths)
  then have sz: "GPR_PKT_GET_PACKET_BYTE_SIZE (header (init_packet (24 + n))) = 24 + n"
    using assms(3) packet_size_eq [of "24 + n"] by (simp add: init_packet_def)
  have d: "d \<in> memq_in_use s' (fst (bs ! i))" "packets s' d = Some (init_packet (24 + n))" "ctxt s' = ctxt s" using a(2,4) i by simp_all
  have "\<exists>s''. gpr_cmd_free E s' (Some d) = Some (AR_EOK, s'') \<and> pools_ok s'' bs
      \<and> (\<forall>j < length bs. memq_in_use s'' (fst (bs ! j)) = memq_in_use s' (fst (bs ! j)) - {d})"
    using cmd_free_ok [OF a(3) i(1) d(1,2), of E] sz i(2) d(3) by auto
  then obtain s'' where f: "gpr_cmd_free E s' (Some d) = Some (AR_EOK, s'')" "pools_ok s'' bs"
      "\<forall>j < length bs. memq_in_use s'' (fst (bs ! j)) = memq_in_use s' (fst (bs ! j)) - {d}" by blast
  have "memq_in_use s'' (fst (bs ! j)) = memq_in_use s (fst (bs ! j))" if "j < length bs" for j
    using f(3) a(2) that by (cases "j = i") auto
  then show ?thesis using a d(1) f by (intro exI [of _ d] exI [of _ s'] exI [of _ s'']) auto
qed

theorem gpr_alloc_free_packet_witness:
  "\<exists>d s' s''. gpr_cmd_alloc_v2 (\<lambda>_. (None, None)) ex_drv 8 0 True = Some (AR_EOK, Some d, s')
    \<and> d \<notin> memq_in_use ex_drv 1000 \<and> gpr_cmd_free ex_env0 s' (Some d) = Some (AR_EOK, s'') \<and> memq_in_use s'' 1000 = {2028}"
proof -
  have "memq_in_use ex_drv (fst ([(1000, ex_block)] ! 0)) \<noteq> (\<lambda>a. a + 28) ` set (units (snd ([(1000, ex_block)] ! 0)))"
    by (auto simp: ex_in_use ex_units)
  moreover have "first_fit ex_drv (GPR_PKT_HEADER_BYTE_SIZE_V + 8) 0 0" by (simp add: first_fit_def ex_drv_def ex_ctxt_def)
  ultimately obtain d s' s'' where "gpr_cmd_alloc_v2 (\<lambda>_. (None, None)) ex_drv 8 0 True = Some (AR_EOK, Some d, s')"
      "\<forall>j < length [(1000, ex_block)]. d \<notin> memq_in_use ex_drv (fst ([(1000, ex_block)] ! j))"
      "gpr_cmd_free ex_env0 s' (Some d) = Some (AR_EOK, s'')"
      "\<forall>j < length [(1000, ex_block)]. memq_in_use s'' (fst ([(1000, ex_block)] ! j)) = memq_in_use ex_drv (fst ([(1000, ex_block)] ! j))"
    using gpr_alloc_free_packet [OF ex_pools, of 8 0 0 "\<lambda>_. (None, None)" ex_env0] by auto
  then show ?thesis using ex_in_use by (intro exI [of _ d] exI [of _ s'] exI [of _ s'']) simp
qed

text \<open>
  C11: a packet for a port of the driver's own domain is handed to the callback that is registered for its destination
  port (a port registered in heap 1 has priority), with the data registered for it and with the packet's metadata word
  naming the destination port as the owner and nothing else changed. When the callback refuses, or the port
  is not registered, the caller gets the error and owns the packet again: the metadata word names its source port.
\<close>

theorem gpr_send_local_delivers:
  assumes "pools_ok s bs" "i < length bs" "d \<in> memq_in_use s (fst (bs ! i))" "packets s d = Some p"
    and "GPR_PKT_GET_PACKET_BYTE_SIZE (header p) \<le> buf_size (static_pool_arr (ctxt s) ! i)"
    and "local_domain s (dst_domain_id p)" "routes_ok s route"
  shows "(route (dst_port p) = None \<longrightarrow> gpr_cmd_async_send E s (Some d) = Some (AR_ENOTEXIST, set_own d (src_port p) s))
    \<and> (\<forall>n nd f. route (dst_port p) = Some n \<and> mod_nodes (sessions s) n = Some nd \<and> callback_fn (session nd) = Some f \<longrightarrow>
      (case call_callback E f d (callback_data (session nd)) (set_own d (dst_port p) s) of
         None \<Rightarrow> gpr_cmd_async_send E s (Some d) = None
       | Some (rc, s') \<Rightarrow>
           (rc = AR_EOK \<longrightarrow> gpr_cmd_async_send E s (Some d) = Some (AR_EOK, s'))
         \<and> (rc \<noteq> AR_EOK \<and> s' = set_own d (dst_port p) s \<longrightarrow> gpr_cmd_async_send E s (Some d) = Some (rc, set_own d (src_port p) s))))"
proof -
  let ?s = "set_own d (dst_port p) s"
  note send = async_send_local [OF assms, of E]
  have own: "gpr_memq_node_set_metadata ?s (free_packets_memq (static_pool_arr (ctxt s) ! i)) (Some d) 0 (src_port p)
      = Some (AR_EOK, set_own d (src_port p) s)"
    using set_own_ok(1) [OF set_own_ok(2) [OF assms(1-3)] assms(2), of d "dst_port p" "src_port p"] set_own_ok(3) [OF assms(1-3)] assms(3)
    by (simp add: set_own_def)
  then show ?thesis using assms(4) by (auto simp: send deliver_def split: option.splits)
qed

theorem gpr_send_local_delivers_witness:
  "gpr_cmd_async_send ex_env0 (ex_drv\<lparr>packets := [2028 \<mapsto> ex_command\<lparr>dst_port := 7\<rparr>]\<rparr>) (Some 2028)
      = Some (AR_EOK, set_own 2028 7 (ex_drv\<lparr>packets := [2028 \<mapsto> ex_command\<lparr>dst_port := 7\<rparr>]\<rparr>))
    \<and> gpr_cmd_async_send ex_env0 ex_drv (Some 2028) = Some (AR_ENOTEXIST, set_own 2028 7 ex_drv)"
proof
  let ?s = "ex_drv\<lparr>packets := [2028 \<mapsto> ex_command\<lparr>dst_port := 7\<rparr>]\<rparr>"
  note u = pools_packets [of "\<lambda>_. [2028 \<mapsto> ex_command\<lparr>dst_port := 7\<rparr>]" ex_drv]
  have sz: "GPR_PKT_GET_PACKET_BYTE_SIZE (packet_header 24) = 24" by (simp add: packet_size_eq)
  have e: "ctxt ex_drv = ex_ctxt" "packets ex_drv 2028 = Some ex_command" "sessions ex_drv = ex_routes"
      "header ex_command = packet_header 24" "dst_domain_id ex_command = 1" "dst_port ex_command = 9" "src_port ex_command = 7"
      "buf_size (static_pool_arr ex_ctxt ! 0) = 32"
      "mod_nodes ex_routes 60 = Some \<lparr>my_module_port = 7, session = \<lparr>callback_fn = Some 70, callback_data = Some 71\<rparr>, mnext = None\<rparr>"
    by (simp_all add: ex_drv_def ex_command_def ex_ctxt_def ex_routes_def)
  have r: "routes_ok ?s [7 \<mapsto> 60]" "local_domain ?s 1" using ex_route ex_local by (simp_all add: routes_ok_def local_domain_def)
  show "gpr_cmd_async_send ex_env0 ?s (Some 2028) = Some (AR_EOK, set_own 2028 7 ?s)"
    using gpr_send_local_delivers [of ?s "[(1000, ex_block)]" 0 2028 "ex_command\<lparr>dst_port := 7\<rparr>" "[7 \<mapsto> 60]" ex_env0]
      u(1) [of "[(1000, ex_block)]"] u(2) [of 1000] ex_pools ex_in_use r e sz by (simp add: ex_env0_def)
  show "gpr_cmd_async_send ex_env0 ex_drv (Some 2028) = Some (AR_ENOTEXIST, set_own 2028 7 ex_drv)"
    using gpr_send_local_delivers [of ex_drv "[(1000, ex_block)]" 0 2028 ex_command "[7 \<mapsto> 60]" ex_env0]
      ex_pools ex_in_use ex_route ex_local e sz by simp
qed

text \<open>
  C16: ending a command that wants a response, from a requester in the driver's own domain, with a free packet in the pool that fits a response,
  loses no packet and delivers the response: a packet that was in no pool's use is taken from that one pool, gets the response, and is handed to the
  callback registered for the requester's port (when the port is not registered, delivery gives AR_ENOTEXIST).  When the callback
  accepts it, whatever it does with the response (frees it or keeps it, as long as it leaves the command packet and the pools in order), the
  command ends with AR_EOK and every pool has in use what the callback left, less the command packet.  When delivery fails without a change of
  state, the command ends with its code and every pool has in use what it had before the call, less the command packet: the driver has
  freed the response.
\<close>

theorem gpr_end_command_no_leak:
  assumes "command_ok s bs a p i j" "local_domain s (src_domain_id p)" "routes_ok s route"
  shows "\<exists>r t. (\<forall>k < length bs. r \<notin> memq_in_use s (fst (bs ! k))
        \<and> memq_in_use t (fst (bs ! k)) = (if k = j then insert r (memq_in_use s (fst (bs ! k))) else memq_in_use s (fst (bs ! k))))
    \<and> pools_ok t bs \<and> ctxt t = ctxt s \<and> sessions t = sessions s \<and> packets t r = Some (rsp_packet p) \<and> packets t a = Some p
    \<and> (\<forall>rc t'. deliver E route r (src_port p) t = Some (rc, t') \<and> (if rc = AR_EOK then command_kept bs i a p t t' else t' = t) \<longrightarrow>
        (\<exists>s'. gpr_cmd_end_command E mal s (Some a) status = Some (rc, s') \<and> pools_ok s' bs
          \<and> (\<forall>k < length bs. memq_in_use s' (fst (bs ! k)) = (if rc = AR_EOK then memq_in_use t' (fst (bs ! k)) else memq_in_use s (fst (bs ! k))) - {a})))"
  using assms by (rule end_command_ends)

theorem gpr_end_command_no_leak_witness:
  "\<exists>s'. gpr_cmd_end_command ex_env (\<lambda>_. (None, None)) ex_drv (Some 2028) 0 = Some (AR_EOK, s')
    \<and> pools_ok s' [(1000, ex_block)] \<and> memq_in_use s' 1000 = {}"
proof -
  have p: "src_domain_id ex_command = 1" "src_port ex_command = 7" by (simp_all add: ex_command_def)
  note ends = gpr_end_command_no_leak [OF ex_command_ok _ ex_route, of ex_env "\<lambda>_. (None, None)" 0]
  obtain r t where t: "r \<notin> {2028}" "memq_in_use t 1000 = {r, 2028}" "pools_ok t [(1000, ex_block)]" "ctxt t = ctxt ex_drv" "sessions t = sessions ex_drv"
      "packets t r = Some (rsp_packet ex_command)" "packets t 2028 = Some ex_command"
      "\<forall>rc t'. deliver ex_env [7 \<mapsto> 60] r 7 t = Some (rc, t')
          \<and> (if rc = AR_EOK then command_kept [(1000, ex_block)] 0 2028 ex_command t t' else t' = t) \<longrightarrow>
        (\<exists>s'. gpr_cmd_end_command ex_env (\<lambda>_. (None, None)) ex_drv (Some 2028) 0 = Some (rc, s') \<and> pools_ok s' [(1000, ex_block)]
          \<and> memq_in_use s' 1000 = (if rc = AR_EOK then memq_in_use t' (fst ([(1000, ex_block)] ! 0))
              else memq_in_use ex_drv (fst ([(1000, ex_block)] ! 0))) - {2028})"
    using ends ex_local p ex_in_use by auto
  have dl: "deliver ex_env [7 \<mapsto> 60] r 7 t = gpr_cmd_free ex_env0 t (Some r)"
    using t(5) by (simp add: deliver_def ex_drv_def ex_routes_def ex_env_def)
  have "buf_size (static_pool_arr (ctxt t) ! 0) = 32" using t(4) by (simp add: ex_drv_def ex_ctxt_def)
  then obtain t' where "gpr_cmd_free ex_env0 t (Some r) = Some (AR_EOK, t')" "pools_ok t' [(1000, ex_block)]" "memq_in_use t' 1000 = {r, 2028} - {r}"
      "ctxt t' = ctxt t" "packets t' = packets t"
    using cmd_free_ok [OF t(3), of 0 r "rsp_packet ex_command" ex_env0] t(2,6) rsp_size by auto
  moreover from this have "command_kept [(1000, ex_block)] 0 2028 ex_command t t'" using t(1,7) by (simp add: command_kept_def)
  ultimately show ?thesis using t(1) t(8) [rule_format, of AR_EOK t'] dl by auto
qed

text \<open>
  C33: what the requester gets: the response has the command's addresses swapped, its token and client data, the opcode of a basic
  response and as payload the command's opcode followed by the status; it is a packet that was not in use, and the command packet
  is untouched while the requester's callback runs.
\<close>

theorem gpr_end_command_response:
  assumes "command_ok s bs a p i j" "local_domain s (src_domain_id p)" "routes_ok s route"
    and "route (src_port p) = Some n" "mod_nodes (sessions s) n = Some nd" "callback_fn (session nd) = Some f"
  shows "\<exists>r t. (\<forall>k < length bs. r \<notin> memq_in_use s (fst (bs ! k))) \<and> pools_ok t bs
    \<and> packets t r = Some (rsp_packet p) \<and> packets t a = Some p
    \<and> take 8 (pkt_payload t r) = le32 (opcode p) @ le32 status
    \<and> (\<forall>t'. call_callback E f r (callback_data (session nd)) t = Some (AR_EOK, t') \<longrightarrow>
         gpr_cmd_end_command E mal s (Some a) status = do { (_, s') \<leftarrow> gpr_cmd_free E t' (Some a); Some (AR_EOK, s') })"
proof -
  obtain d s1 hh ls where x: "\<forall>k < length bs. d \<notin> memq_in_use s (fst (bs ! k)) \<and>
         memq_in_use s1 (fst (bs ! k)) = (if k = j then insert d (memq_in_use s (fst (bs ! k))) else memq_in_use s (fst (bs ! k)))"
      "pools_ok s1 bs" "j < length bs" "32 \<le> buf_size (static_pool_arr (ctxt s) ! j)" "d \<noteq> a"
      "s1 = put_payload (set_own d (dst_port p) (s\<lparr>gl_nodes := hh, gl_lists := ls, packets := (packets s)(d \<mapsto> rsp_packet p)\<rparr>)) d (le32 (opcode p) @ le32 status)"
      "gpr_cmd_end_command E mal s (Some a) status = do {
        (rc, s2) \<leftarrow> gpr_cmd_async_send E s1 (Some d);
        s3 \<leftarrow> (if rc = AR_EOK then Some s2 else do { (_, s3) \<leftarrow> gpr_cmd_free E s2 (Some d); Some s3 });
        (_, s4) \<leftarrow> gpr_cmd_free E s3 (Some a);
        Some (rc, s4) }"
    using end_command_rsp [OF assms(1), of status E mal] by (elim exE conjE) (rule that; assumption)
  have pa: "packets s a = Some p" using assms(1) by (simp add: command_ok_def)
  have q: "ctxt s1 = ctxt s" "packets s1 d = Some (rsp_packet p)" "packets s1 a = Some p" "sessions s1 = sessions s" "dst_port (rsp_packet p) = src_port p"
    using x(5,6) pa by (simp_all add: rsp_packet_def)
  have l1: "local_domain s1 (dst_domain_id (rsp_packet p))" and r1: "routes_ok s1 route"
    using assms(2,3) x(6) by (simp_all add: rsp_packet_def local_domain_def routes_ok_def)
  have d: "d \<in> memq_in_use s1 (fst (bs ! j))" using x(1,3) by simp
  have pl: "take 8 (pkt_payload s1 d) = le32 (opcode p) @ le32 status" using x(6) by (simp add: put_payload_def le32_def)
  note send = async_send_local [OF x(2,3) d q(2) _ l1 r1, of E]
  show ?thesis
    using x(1,2,4,5,7) q pl assms(4-6) rsp_size send set_own_ok(2) [OF x(2,3) d, of "src_port p"]
    by (intro exI [of _ d] exI [of _ "set_own d (src_port p) s1"]) (auto simp: deliver_def)
qed

theorem gpr_end_command_response_witness:
  "\<exists>r t. r \<noteq> 2028 \<and> packets t r = Some (rsp_packet ex_command) \<and> take 8 (pkt_payload t r) = [0, 0x10, 0, 1, 3, 0, 0, 0]
    \<and> (\<exists>t'. call_callback ex_env0 70 r (Some 71) t = Some (AR_EOK, t') \<and>
         gpr_cmd_end_command ex_env0 (\<lambda>_. (None, None)) ex_drv (Some 2028) 3 = do { (_, s') \<leftarrow> gpr_cmd_free ex_env0 t' (Some 2028); Some (AR_EOK, s') })"
proof -
  have p: "src_domain_id ex_command = 1" "src_port ex_command = 7" "opcode ex_command = 0x01001000"
      "mod_nodes (sessions ex_drv) 60 = Some \<lparr>my_module_port = 7, session = \<lparr>callback_fn = Some 70, callback_data = Some 71\<rparr>, mnext = None\<rparr>"
    by (simp_all add: ex_command_def ex_drv_def ex_routes_def)
  obtain r t where "\<forall>k < length [(1000, ex_block)]. r \<notin> memq_in_use ex_drv (fst ([(1000, ex_block)] ! k))"
      "packets t r = Some (rsp_packet ex_command)" "take 8 (pkt_payload t r) = le32 (opcode ex_command) @ le32 3"
      "\<forall>t'. call_callback ex_env0 70 r (Some 71) t = Some (AR_EOK, t') \<longrightarrow>
         gpr_cmd_end_command ex_env0 (\<lambda>_. (None, None)) ex_drv (Some 2028) 3 = do { (_, s') \<leftarrow> gpr_cmd_free ex_env0 t' (Some 2028); Some (AR_EOK, s') }"
    using gpr_end_command_response [OF ex_command_ok _ ex_route _ p(4), of 70 3 ex_env0 "\<lambda>_. (None, None)"] ex_local p(1,2) by auto
  moreover have "call_callback ex_env0 70 r (Some 71) t = Some (AR_EOK, t)" by (simp add: ex_env0_def)
  ultimately show ?thesis using ex_in_use p(3) by (intro exI [of _ r] exI [of _ t]) (simp add: le32_def)
qed

end
