(* ===== verification/Dam_Circ_Buf.thy ===== *)
theory Dam_Circ_Buf
  imports Spf_List_Proofs
begin

text \<open>
  The circular buffer of the audio dam (\<^verbatim>\<open>modules/audio_dam_buffer/lib/src/circular_buffer.c\<close>, \<^verbatim>\<open>circular_buffer_island.c\<close>,
  \<^verbatim>\<open>circular_buffer_read_island.c\<close>): one writer and any number of readers share a ring of bytes that is made of
  memory chunks in a linked list, and that grows and shrinks with what the readers ask for. The lists of chunks
  and of readers are those of theory \<open>Spf_List\<close>. Chunks, clients and buffers are stores; the bytes behind a chunk's
  header are part of the chunk. What the allocators answer is the argument \<open>env\<close>, a function of the state
  at the time of the request. Log messages are left out.
\<close>

subsection \<open>Data\<close>

datatype circbuf_result = CIRCBUF_SUCCESS | CIRCBUF_FAIL | CIRCBUF_OVERRUN | CIRCBUF_UNDERRUN

record chunk_buffer =
  ck_id :: u32
  ck_size :: u32
  ck_data :: "u8 list"

record circ_buf_client =
  is_read_client :: bool
  circ_buf_ptr :: ptr
  req_base_buffer_size :: u32
  rw_chunk_node_ptr :: ptr
  rw_chunk_offset :: u32
  unread_bytes :: u32
  req_buffer_resize :: u32
  cl_chunk_heap_id :: u32

record circ_buf =
  cb_id :: u32
  circ_buf_size :: u32
  cb_heap_id :: u32
  preferred_chunk_size :: u32
  num_chunks :: u32
  head_chunk_ptr :: ptr
  prebuffering_delay :: u32
  wr_client_ptr :: ptr
  write_byte_counter :: u32
  num_read_clients :: u32
  rd_client_list_ptr :: ptr
  max_req_buf_resize :: u32
  cb_chunk_heap_id :: u32
  is_valid_timestamp :: u32
  timestamp :: "64 word"

record circ_state =
  cb_lists :: spf_list_state
  cb_chunks :: "chunk_buffer store"
  cb_clients :: "circ_buf_client store"
  cb_bufs :: "circ_buf store"

record circ_env =
  node_env :: "spf_list_state \<Rightarrow> alloc_env"
  chunk_mal :: "circ_state \<Rightarrow> u32 \<Rightarrow> u32 \<Rightarrow> ptr"

abbreviation (input) SIZEOF_CHUNK_BUFFER :: u32 where "SIZEOF_CHUNK_BUFFER \<equiv> 16"

abbreviation cb_nodes :: "circ_state \<Rightarrow> spf_list_node store" where
  "cb_nodes s \<equiv> nodes (cb_lists s)"

text \<open>Structures after \<open>memset\<close> with 0.\<close>

definition zero_client :: circ_buf_client where
  "zero_client = \<lparr>is_read_client = False, circ_buf_ptr = None, req_base_buffer_size = 0, rw_chunk_node_ptr = None,
     rw_chunk_offset = 0, unread_bytes = 0, req_buffer_resize = 0, cl_chunk_heap_id = 0\<rparr>"

definition zero_buf :: circ_buf where
  "zero_buf = \<lparr>cb_id = 0, circ_buf_size = 0, cb_heap_id = 0, preferred_chunk_size = 0, num_chunks = 0, head_chunk_ptr = None,
     prebuffering_delay = 0, wr_client_ptr = None, write_byte_counter = 0, num_read_clients = 0, rd_client_list_ptr = None,
     max_req_buf_resize = 0, cb_chunk_heap_id = 0, is_valid_timestamp = 0, timestamp = 0\<rparr>"

subsection \<open>Access\<close>

text \<open>The chunk a list node points to; a chunk that was freed is no longer there.\<close>

definition chunk_of :: "circ_state \<Rightarrow> ptr \<Rightarrow> (addr \<times> chunk_buffer) option" where
  "chunk_of s node = do {
     ob \<leftarrow> rd_obj (cb_nodes s) node;
     a \<leftarrow> ob;
     if a \<in> objs (cb_lists s) then map_option (Pair a) (cb_chunks s a) else None
   }"

definition upd_client :: "circ_state \<Rightarrow> ptr \<Rightarrow> (circ_buf_client \<Rightarrow> circ_buf_client) \<Rightarrow> circ_state option" where
  "upd_client s p f = do { cs \<leftarrow> modify (cb_clients s) p f; Some (s\<lparr>cb_clients := cs\<rparr>) }"

definition upd_buf :: "circ_state \<Rightarrow> ptr \<Rightarrow> (circ_buf \<Rightarrow> circ_buf) \<Rightarrow> circ_state option" where
  "upd_buf s p f = do { bs \<leftarrow> modify (cb_bufs s) p f; Some (s\<lparr>cb_bufs := bs\<rparr>) }"

text \<open>Memory of a chunk: reading and writing \<open>n\<close> bytes at an offset.\<close>

definition mem_read :: "u8 list \<Rightarrow> nat \<Rightarrow> nat \<Rightarrow> u8 list option" where
  "mem_read d off n = (if off + n \<le> length d then Some (take n (drop off d)) else None)"

definition mem_write :: "u8 list \<Rightarrow> nat \<Rightarrow> u8 list \<Rightarrow> u8 list option" where
  "mem_write d off bs = (if off + length bs \<le> length d then Some (take off d @ bs @ drop (off + length bs) d) else None)"

definition write_chunk :: "circ_state \<Rightarrow> addr \<Rightarrow> nat \<Rightarrow> u8 list \<Rightarrow> circ_state option" where
  "write_chunk s a off bs = do {
     c \<leftarrow> cb_chunks s a;
     d \<leftarrow> mem_write (ck_data c) off bs;
     Some (s\<lparr>cb_chunks := (cb_chunks s)(a \<mapsto> c\<lparr>ck_data := d\<rparr>)\<rparr>)
   }"

text \<open>
  A loop over a list of clients, with what the loop keeps in local variables: the body
  gets the client and may leave the loop (\<open>Inl\<close>). The next node is read after the body.
\<close>

partial_function (option) for_clients ::
    "(ptr \<Rightarrow> 'v \<Rightarrow> circ_state \<Rightarrow> (('r + 'v) \<times> circ_state) option) \<Rightarrow> ptr \<Rightarrow> 'v \<Rightarrow> circ_state \<Rightarrow> (('r + 'v) \<times> circ_state) option" where
  "for_clients body node v s =
    (if node = None then Some (Inr v, s)
     else do {
       ob \<leftarrow> rd_obj (cb_nodes s) node;
       (r, s) \<leftarrow> body ob v s;
       case r of
         Inl x \<Rightarrow> Some (Inl x, s)
       | Inr v \<Rightarrow> do { nx \<leftarrow> rd_next (cb_nodes s) node; for_clients body nx v s }
     })"

text \<open>A loop without local variables that is never left early.\<close>

definition for_each_client :: "(ptr \<Rightarrow> circ_state \<Rightarrow> circ_state option) \<Rightarrow> ptr \<Rightarrow> circ_state \<Rightarrow> circ_state option" where
  "for_each_client body node s = do {
     (r, s) \<leftarrow> for_clients (\<lambda>c (_ :: unit) s. do { s \<leftarrow> body c s; Some (Inr () :: unit + unit, s) }) node () s;
     Some s
   }"

subsection \<open>Positions\<close>

definition add_circ_buf_next_chunk_node :: "circ_state \<Rightarrow> ptr \<Rightarrow> ptr \<Rightarrow> (circbuf_result \<times> ptr) option" where
  "add_circ_buf_next_chunk_node s buf node =
    (if node = None \<or> buf = None then Some (CIRCBUF_FAIL, node)
     else do {
       nx \<leftarrow> rd_next (cb_nodes s) node;
       if nx \<noteq> None then Some (CIRCBUF_SUCCESS, nx)
       else do { b \<leftarrow> load (cb_bufs s) buf; Some (CIRCBUF_SUCCESS, head_chunk_ptr b) }
     })"

partial_function (option) pos_shift_loop :: "circ_state \<Rightarrow> ptr \<Rightarrow> ptr \<Rightarrow> u32 \<Rightarrow> u32 \<Rightarrow> (ptr \<times> u32) option" where
  "pos_shift_loop s buf node off counter =
    (if counter = 0 then Some (node, off)
     else do {
       (_, c) \<leftarrow> chunk_of s node;
       if counter < ck_size c - off then pos_shift_loop s buf node (off + counter) 0
       else do {
         (_, node) \<leftarrow> add_circ_buf_next_chunk_node s buf node;
         pos_shift_loop s buf node 0 (counter - (ck_size c - off))
       }
     })"

text \<open>The position is given and returned; both pointers to it are never \<open>NULL\<close>.\<close>

definition add_circ_buf_position_shift_forward ::
    "circ_state \<Rightarrow> ptr \<Rightarrow> ptr \<Rightarrow> u32 \<Rightarrow> u32 \<Rightarrow> (circbuf_result \<times> ptr \<times> u32) option" where
  "add_circ_buf_position_shift_forward s buf node off bytes_to_advance = do {
     b \<leftarrow> load (cb_bufs s) buf;
     if circ_buf_size b < bytes_to_advance then Some (CIRCBUF_FAIL, node, off)
     else if bytes_to_advance = circ_buf_size b \<or> bytes_to_advance = 0 then Some (CIRCBUF_SUCCESS, node, off)
     else do {
       (node, off) \<leftarrow> pos_shift_loop s buf node off bytes_to_advance;
       Some (CIRCBUF_SUCCESS, node, off)
     }
   }"

text \<open>The same for the position of a client.\<close>

definition shift_client :: "circ_state \<Rightarrow> ptr \<Rightarrow> ptr \<Rightarrow> u32 \<Rightarrow> (circbuf_result \<times> circ_state) option" where
  "shift_client s buf client n = do {
     c \<leftarrow> load (cb_clients s) client;
     (rc, node, off) \<leftarrow> add_circ_buf_position_shift_forward s buf (rw_chunk_node_ptr c) (rw_chunk_offset c) n;
     s \<leftarrow> upd_client s client (\<lambda>c. c\<lparr>rw_chunk_node_ptr := node, rw_chunk_offset := off\<rparr>);
     Some (rc, s)
   }"

definition add_circ_buf_read_advance :: "circ_state \<Rightarrow> ptr \<Rightarrow> u32 \<Rightarrow> (circbuf_result \<times> circ_state) option" where
  "add_circ_buf_read_advance s client bytes_to_advance =
    (if client = None then Some (CIRCBUF_FAIL, s)
     else do {
       c \<leftarrow> load (cb_clients s) client;
       if rw_chunk_node_ptr c = None then Some (CIRCBUF_FAIL, s)
       else if unread_bytes c < bytes_to_advance then Some (CIRCBUF_FAIL, s)
       else do {
         (rc, s) \<leftarrow> shift_client s (circ_buf_ptr c) client bytes_to_advance;
         if rc = CIRCBUF_FAIL then Some (rc, s)
         else do {
           s \<leftarrow> upd_client s client (unread_bytes_update (\<lambda>u. u - bytes_to_advance));
           Some (rc, s)
         }
       }
     })"

subsection \<open>Writing\<close>

text \<open>Where the bytes that are copied come from: nowhere (then the memory is set to a value), the caller's memory, or the memory of a chunk.\<close>

datatype copy_src = Src_null | Src_bytes "u8 list" | Src_chunk addr nat

text \<open>
  \<open>n\<close> bytes from offset \<open>k\<close> of the source, for a copy to offset \<open>off\<close> of the chunk at \<open>dst\<close>.
  \<open>memscpy\<close> on overlapping memory is undefined.
\<close>

definition fetch :: "circ_state \<Rightarrow> copy_src \<Rightarrow> u8 \<Rightarrow> nat \<Rightarrow> nat \<Rightarrow> addr \<Rightarrow> nat \<Rightarrow> u8 list option" where
  "fetch s src v k n dst off =
    (case src of
       Src_null \<Rightarrow> Some (replicate n v)
     | Src_bytes bs \<Rightarrow> mem_read bs k n
     | Src_chunk a o' \<Rightarrow>
         if a = dst \<and> 0 < n \<and> o' + k < off + n \<and> off < o' + k + n then None
         else do { c \<leftarrow> cb_chunks s a; mem_read (ck_data c) (o' + k) n })"

partial_function (option) copy_loop ::
    "circ_state \<Rightarrow> ptr \<Rightarrow> u32 \<Rightarrow> copy_src \<Rightarrow> u8 \<Rightarrow> ptr \<Rightarrow> u32 \<Rightarrow> u32 \<Rightarrow> (ptr \<times> u32 \<times> circ_state) option" where
  "copy_loop s buf bytes_to_copy src v node off counter =
    (if counter = 0 then Some (node, off, s)
     else do {
       (a, c) \<leftarrow> chunk_of s node;
       let n = (if counter < ck_size c - off then counter else ck_size c - off);
       bs \<leftarrow> fetch s src v (unat (bytes_to_copy - counter)) (unat n) a (unat off);
       s \<leftarrow> write_chunk s a (unat off) bs;
       if counter < ck_size c - off then copy_loop s buf bytes_to_copy src v node (off + counter) 0
       else do {
         (_, node) \<leftarrow> add_circ_buf_next_chunk_node s buf node;
         copy_loop s buf bytes_to_copy src v node 0 (counter - (ck_size c - off))
       }
     })"

definition add_circ_buf_data_copy_util ::
    "circ_state \<Rightarrow> ptr \<Rightarrow> u32 \<Rightarrow> copy_src \<Rightarrow> u8 \<Rightarrow> ptr \<Rightarrow> u32 \<Rightarrow> (circbuf_result \<times> ptr \<times> u32 \<times> circ_state) option" where
  "add_circ_buf_data_copy_util s buf bytes_to_copy src v node off = do {
     (node, off, s) \<leftarrow> copy_loop s buf bytes_to_copy src v node off bytes_to_copy;
     Some (CIRCBUF_SUCCESS, node, off, s)
   }"

definition circ_buf_detect_and_handle_overflow :: "circ_state \<Rightarrow> ptr \<Rightarrow> u32 \<Rightarrow> (circbuf_result \<times> circ_state) option" where
  "circ_buf_detect_and_handle_overflow s buf bytes_to_write = do {
     b \<leftarrow> load (cb_bufs s) buf;
     (r, s) \<leftarrow> for_clients (\<lambda>client result s. do {
         b \<leftarrow> load (cb_bufs s) buf;
         c \<leftarrow> load (cb_clients s) client;
         let free_bytes = circ_buf_size b - unread_bytes c;
         if free_bytes < bytes_to_write
         then do {
           (_, s) \<leftarrow> add_circ_buf_read_advance s client (bytes_to_write - free_bytes);
           Some (Inr CIRCBUF_OVERRUN, s)
         }
         else Some (Inr result :: circbuf_result + circbuf_result, s)
       }) (rd_client_list_ptr b) CIRCBUF_SUCCESS s;
     Some (case r of Inl x \<Rightarrow> x | Inr x \<Rightarrow> x, s)
   }"

text \<open>The body of the loop at the end of a write: the reader's count goes up and saturates.\<close>

definition add_unread :: "u32 \<Rightarrow> ptr \<Rightarrow> circ_state \<Rightarrow> circ_state option" where
  "add_unread bytes_to_write client s = do {
     s \<leftarrow> upd_client s client (unread_bytes_update (\<lambda>u. u + bytes_to_write));
     c \<leftarrow> load (cb_clients s) client;
     b \<leftarrow> load (cb_bufs s) (circ_buf_ptr c);
     if circ_buf_size b < unread_bytes c then upd_client s client (unread_bytes_update (\<lambda>_. circ_buf_size b)) else Some s
   }"

definition add_circ_buf_write_util ::
    "circ_state \<Rightarrow> ptr \<Rightarrow> copy_src \<Rightarrow> u8 \<Rightarrow> u32 \<Rightarrow> u32 \<Rightarrow> 64 word \<Rightarrow> (circbuf_result \<times> circ_state) option" where
  "add_circ_buf_write_util s wr_client src v bytes_to_write valid_ts ts =
    (if wr_client = None then Some (CIRCBUF_FAIL, s)
     else do {
       w \<leftarrow> load (cb_clients s) wr_client;
       if rw_chunk_node_ptr w = None \<or> circ_buf_ptr w = None then Some (CIRCBUF_FAIL, s)
       else do {
         let buf = circ_buf_ptr w;
         b \<leftarrow> load (cb_bufs s) buf;
         let bsize = circ_buf_size b;
         if bsize < bytes_to_write then Some (CIRCBUF_FAIL, s)
         else do {
           (result, s) \<leftarrow> circ_buf_detect_and_handle_overflow s buf bytes_to_write;
           w \<leftarrow> load (cb_clients s) wr_client;
           (_, node, off, s) \<leftarrow> add_circ_buf_data_copy_util s buf bytes_to_write src v (rw_chunk_node_ptr w) (rw_chunk_offset w);
           s \<leftarrow> upd_client s wr_client (\<lambda>c. c\<lparr>rw_chunk_node_ptr := node, rw_chunk_offset := off\<rparr>);
           s \<leftarrow> upd_buf s buf (write_byte_counter_update (\<lambda>n. if bsize < n + bytes_to_write then bsize else n + bytes_to_write));
           s \<leftarrow> upd_buf s buf (\<lambda>b. if 0 < bytes_to_write then b\<lparr>timestamp := ts, is_valid_timestamp := valid_ts\<rparr> else b);
           b \<leftarrow> load (cb_bufs s) buf;
           s \<leftarrow> for_each_client (add_unread bytes_to_write) (rd_client_list_ptr b) s;
           Some (result, s)
         }
       }
     })"

definition circ_buf_write :: "circ_state \<Rightarrow> ptr \<Rightarrow> copy_src \<Rightarrow> u32 \<Rightarrow> u32 \<Rightarrow> 64 word \<Rightarrow> (circbuf_result \<times> circ_state) option" where
  "circ_buf_write s wr_client inp bytes_to_write valid_ts ts = add_circ_buf_write_util s wr_client inp 0 bytes_to_write valid_ts ts"

definition circ_buf_memset :: "circ_state \<Rightarrow> ptr \<Rightarrow> u8 \<Rightarrow> u32 \<Rightarrow> (circbuf_result \<times> circ_state) option" where
  "circ_buf_memset s buf write_value num_bytes = do {
     b \<leftarrow> load (cb_bufs s) buf;
     add_circ_buf_write_util s (wr_client_ptr b) Src_null write_value num_bytes 0 0
   }"

subsection \<open>Reading\<close>

text \<open>The bytes that are copied to the caller's memory are the last argument, in the order they are read.\<close>

partial_function (option) read_loop ::
    "circ_state \<Rightarrow> ptr \<Rightarrow> ptr \<Rightarrow> u32 \<Rightarrow> u32 \<Rightarrow> u8 list \<Rightarrow> (ptr \<times> u32 \<times> u8 list) option" where
  "read_loop s buf node off counter out =
    (if counter = 0 then Some (node, off, out)
     else do {
       (_, c) \<leftarrow> chunk_of s node;
       if counter < ck_size c - off
       then do {
         bs \<leftarrow> mem_read (ck_data c) (unat off) (unat counter);
         read_loop s buf node (off + counter) 0 (out @ bs)
       }
       else do {
         let n = min counter (ck_size c - off);
         bs \<leftarrow> mem_read (ck_data c) (unat off) (unat n);
         (_, node) \<leftarrow> add_circ_buf_next_chunk_node s buf node;
         read_loop s buf node 0 (counter - n) (out @ bs)
       }
     })"

text \<open>\<open>has_out\<close>: whether the caller gives memory. The result has the bytes and what is written to the caller's length, if it is.\<close>

definition circ_buf_read :: "circ_state \<Rightarrow> ptr \<Rightarrow> bool \<Rightarrow> u32 \<Rightarrow> (circbuf_result \<times> u8 list \<times> u32 option \<times> circ_state) option" where
  "circ_buf_read s client has_out bytes_to_read =
    (if \<not> has_out then Some (CIRCBUF_FAIL, [], None, s)
     else do {
       c \<leftarrow> load (cb_clients s) client;
       if rw_chunk_node_ptr c = None \<or> circ_buf_ptr c = None then Some (CIRCBUF_FAIL, [], None, s)
       else do {
         b \<leftarrow> load (cb_bufs s) (circ_buf_ptr c);
         if circ_buf_size b < bytes_to_read then Some (CIRCBUF_FAIL, [], None, s)
         else if unread_bytes c < bytes_to_read \<and> unread_bytes c = 0 then Some (CIRCBUF_UNDERRUN, [], None, s)
         else do {
           let n = (if unread_bytes c < bytes_to_read then unread_bytes c else bytes_to_read);
           (node, off, out) \<leftarrow> read_loop s (circ_buf_ptr c) (rw_chunk_node_ptr c) (rw_chunk_offset c) n [];
           s \<leftarrow> upd_client s client (\<lambda>c. c\<lparr>rw_chunk_node_ptr := node, rw_chunk_offset := off, unread_bytes := unread_bytes c - n\<rparr>);
           Some (CIRCBUF_SUCCESS, out, Some n, s)
         }
       }
     })"

definition add_circ_buf_read_client_reset :: "circ_state \<Rightarrow> ptr \<Rightarrow> bool \<Rightarrow> (circbuf_result \<times> circ_state) option" where
  "add_circ_buf_read_client_reset s client force_reset = do {
     c \<leftarrow> load (cb_clients s) client;
     let buf = circ_buf_ptr c;
     if \<not> is_read_client c then Some (CIRCBUF_SUCCESS, s)
     else do {
       b \<leftarrow> load (cb_bufs s) buf;
       if wr_client_ptr b = None
       then do {
         s \<leftarrow> upd_client s client (\<lambda>c. c\<lparr>rw_chunk_node_ptr := None, rw_chunk_offset := 0\<rparr>);
         Some (CIRCBUF_SUCCESS, s)
       }
       else do {
         w \<leftarrow> load (cb_clients s) (wr_client_ptr b);
         let max_data = min (write_byte_counter b) (circ_buf_size b);
         s \<leftarrow> upd_client s client (\<lambda>c. c\<lparr>rw_chunk_node_ptr := rw_chunk_node_ptr w, rw_chunk_offset := rw_chunk_offset w,
                unread_bytes := (if force_reset then max_data else min (unread_bytes c) max_data)\<rparr>);
         c \<leftarrow> load (cb_clients s) client;
         if unread_bytes c < circ_buf_size b
         then shift_client s buf client (circ_buf_size b - write_byte_counter b)
         else Some (CIRCBUF_SUCCESS, s)
       }
     }
   }"

text \<open>The second component is what is written to the caller's variable.\<close>

definition circ_buf_read_adjust :: "circ_state \<Rightarrow> ptr \<Rightarrow> u32 \<Rightarrow> bool \<Rightarrow> (circbuf_result \<times> u32 option \<times> circ_state) option" where
  "circ_buf_read_adjust s client read_offset force_adjust = do {
     c \<leftarrow> load (cb_clients s) client;
     if \<not> is_read_client c then Some (CIRCBUF_FAIL, None, s)
     else do {
       s \<leftarrow> (if force_adjust then do { (_, s) \<leftarrow> add_circ_buf_read_client_reset s client True; Some s } else Some s);
       c \<leftarrow> load (cb_clients s) client;
       let off = (if unread_bytes c < read_offset then unread_bytes c else read_offset);
       (rc, s) \<leftarrow> add_circ_buf_read_advance s client (unread_bytes c - off);
       Some (rc, Some off, s)
     }
   }"

subsection \<open>Size of the buffer\<close>

definition circ_buf_write_client_reset :: "circ_state \<Rightarrow> ptr \<Rightarrow> circ_state option" where
  "circ_buf_write_client_reset s client =
    (if client = None then Some s
     else do {
       c \<leftarrow> load (cb_clients s) client;
       b \<leftarrow> load (cb_bufs s) (circ_buf_ptr c);
       s \<leftarrow> upd_client s client (\<lambda>c. c\<lparr>rw_chunk_node_ptr := head_chunk_ptr b, rw_chunk_offset := 0\<rparr>);
       upd_buf s (circ_buf_ptr c) (write_byte_counter_update (\<lambda>_. 0))
     })"

text \<open>
  Memory for a chunk of \<open>n\<close> bytes, set to 0, with its header. The sum with the size of the header
  is a 32-bit sum; memory too small for the header cannot be written to.
\<close>

definition new_chunk :: "circ_env \<Rightarrow> circ_state \<Rightarrow> u32 \<Rightarrow> u32 \<Rightarrow> u32 \<Rightarrow> (ptr \<times> circ_state) option" where
  "new_chunk env s hid cid n =
    (case chunk_mal env s (n + SIZEOF_CHUNK_BUFFER) hid of
       None \<Rightarrow> Some (None, s)
     | Some a \<Rightarrow>
         if unat (n + SIZEOF_CHUNK_BUFFER) < unat SIZEOF_CHUNK_BUFFER then None
         else Some (Some a, s\<lparr>cb_chunks := (cb_chunks s)(a \<mapsto>
                \<lparr>ck_id = cid, ck_size = n, ck_data = replicate (unat (n + SIZEOF_CHUNK_BUFFER) - unat SIZEOF_CHUNK_BUFFER) 0\<rparr>),
              cb_lists := (cb_lists s)\<lparr>objs := insert a (objs (cb_lists s))\<rparr>\<rparr>))"

definition free_chunk :: "circ_state \<Rightarrow> ptr \<Rightarrow> circ_state option" where
  "free_chunk s p = do { l \<leftarrow> free_obj (cb_lists s) p; Some (s\<lparr>cb_lists := l\<rparr>) }"

text \<open>\<open>spf_list_delete_list_and_free_objs\<close> of a list of chunks.\<close>

definition delete_chunks :: "circ_state \<Rightarrow> ptr \<Rightarrow> circ_state option" where
  "delete_chunks s hd_ptr = do {
     (_, _, l) \<leftarrow> spf_list_delete_list_and_free_objs (cb_lists s) (Some hd_ptr) True;
     Some (s\<lparr>cb_lists := l\<rparr>)
   }"

text \<open>The loop that creates \<open>total\<close> chunks from index \<open>iter\<close>, with \<open>k\<close> to go: \<open>None\<close> inside when memory runs out, otherwise the list.\<close>

fun add_chunks_loop ::
    "circ_env \<Rightarrow> circ_state \<Rightarrow> u32 \<Rightarrow> u32 \<Rightarrow> u32 \<Rightarrow> u32 \<Rightarrow> ptr \<Rightarrow> nat \<Rightarrow> (ptr option \<times> circ_state) option" where
  "add_chunks_loop env s hid pref last_size idx hd_ptr 0 = Some (Some hd_ptr, s)"
| "add_chunks_loop env s hid pref last_size idx hd_ptr (Suc k) = do {
     let n = (if k = 0 then last_size else pref);
     (ck, s) \<leftarrow> new_chunk env s hid idx n;
     if ck = None then do { s \<leftarrow> delete_chunks s hd_ptr; Some (None, s) }
     else do {
       (rc, hp, l) \<leftarrow> spf_list_insert_tail (node_env env (cb_lists s)) (cb_lists s) (Some hd_ptr) ck hid True;
       let s = s\<lparr>cb_lists := l\<rparr>;
       if rc \<noteq> AR_EOK
       then do { s \<leftarrow> free_chunk s ck; s \<leftarrow> delete_chunks s hd_ptr; Some (None, s) }
       else do { hd_ptr \<leftarrow> hp; add_chunks_loop env s hid pref last_size (idx + 1) hd_ptr k }
     }
   }"

text \<open>New chunks are put behind the chunk of the writer, if there is one. The result is the tail of the new list.\<close>

definition insert_after_writer :: "circ_state \<Rightarrow> ptr \<Rightarrow> ptr \<Rightarrow> (ptr \<times> circ_state) option" where
  "insert_after_writer s cur new_list = do {
     nx \<leftarrow> rd_next (cb_nodes s) cur;
     h \<leftarrow> wr_next (cb_nodes s) cur new_list;
     h \<leftarrow> wr_prev h new_list cur;
     (_, tl_ptr) \<leftarrow> spf_list_get_tail_node h new_list;
     h \<leftarrow> wr_next h tl_ptr nx;
     h \<leftarrow> wr_prev_if h nx tl_ptr;
     Some (tl_ptr, s\<lparr>cb_lists := (cb_lists s)\<lparr>nodes := h\<rparr>\<rparr>)
   }"

text \<open>
  The body of the loop over the readers after new chunks were put behind the writer: a reader
  in the writer's chunk and not behind the writer moves by the added size, and the rest of
  that chunk is copied to where it is now.
\<close>

definition move_reader ::
    "ptr \<Rightarrow> ptr \<Rightarrow> u32 \<Rightarrow> ptr \<Rightarrow> unit \<Rightarrow> circ_state \<Rightarrow> ((circbuf_result + unit) \<times> circ_state) option" where
  "move_reader buf wr_client added_size client _ s = do {
     w \<leftarrow> load (cb_clients s) wr_client;
     (a, wc) \<leftarrow> chunk_of s (rw_chunk_node_ptr w);
     c \<leftarrow> load (cb_clients s) client;
     if unread_bytes c = 0 then Some (Inr (), s)
     else if rw_chunk_node_ptr c \<noteq> rw_chunk_node_ptr w then Some (Inr (), s)
     else if rw_chunk_offset c < rw_chunk_offset w then Some (Inr (), s)
     else do {
       let src = Src_chunk a (unat (rw_chunk_offset c));
       let bytes_to_move = ck_size wc - rw_chunk_offset c;
       (rc, s) \<leftarrow> shift_client s buf client added_size;
       if rc = CIRCBUF_FAIL then Some (Inl rc, s)
       else do {
         c \<leftarrow> load (cb_clients s) client;
         (_, _, _, s) \<leftarrow> add_circ_buf_data_copy_util s buf bytes_to_move src 0 (rw_chunk_node_ptr c) (rw_chunk_offset c);
         Some (Inr (), s)
       }
     }
   }"

text \<open>What is done with the list of new chunks; \<open>b\<close> is the buffer as it was before.\<close>

definition attach_chunks :: "circ_state \<Rightarrow> ptr \<Rightarrow> circ_buf \<Rightarrow> u32 \<Rightarrow> u32 \<Rightarrow> u32 \<Rightarrow> ptr \<Rightarrow> (circbuf_result \<times> circ_state) option" where
  "attach_chunks s buf b num added_size hid new_list = do {
     s \<leftarrow> upd_buf s buf (cb_chunk_heap_id_update (\<lambda>_. hid));
     if new_list = None then Some (CIRCBUF_FAIL, s)
     else do {
       wr_node \<leftarrow> (if wr_client_ptr b = None then Some None
                    else do { w \<leftarrow> load (cb_clients s) (wr_client_ptr b); Some (rw_chunk_node_ptr w) });
       (new_tail, s) \<leftarrow>
         (if wr_node \<noteq> None then insert_after_writer s wr_node new_list
          else do {
            (_, dest, _, l) \<leftarrow> spf_list_merge_lists (cb_lists s) (Some (head_chunk_ptr b)) (Some new_list);
            dest \<leftarrow> dest;
            s \<leftarrow> upd_buf (s\<lparr>cb_lists := l\<rparr>) buf (head_chunk_ptr_update (\<lambda>_. dest));
            Some (None, s)
          });
       s \<leftarrow> upd_buf s buf (\<lambda>b. b\<lparr>num_chunks := num_chunks b + num, circ_buf_size := circ_buf_size b + added_size\<rparr>);
       b' \<leftarrow> load (cb_bufs s) buf;
       if circ_buf_size b = 0 \<and> 0 < circ_buf_size b'
       then do {
         s \<leftarrow> circ_buf_write_client_reset s (wr_client_ptr b');
         s \<leftarrow> for_each_client (\<lambda>c s. do { (_, s) \<leftarrow> add_circ_buf_read_client_reset s c True; Some s }) (rd_client_list_ptr b') s;
         Some (CIRCBUF_SUCCESS, s)
       }
       else if wr_node \<noteq> None \<and> new_tail \<noteq> None
       then do {
         (r, s) \<leftarrow> for_clients (move_reader buf (wr_client_ptr b') added_size) (rd_client_list_ptr b') () s;
         Some (case r of Inl rc \<Rightarrow> rc | Inr _ \<Rightarrow> CIRCBUF_SUCCESS, s)
       }
       else Some (CIRCBUF_SUCCESS, s)
     }
   }"

definition circ_buf_add_chunks :: "circ_env \<Rightarrow> circ_state \<Rightarrow> ptr \<Rightarrow> u32 \<Rightarrow> u32 \<Rightarrow> (circbuf_result \<times> circ_state) option" where
  "circ_buf_add_chunks env s buf added_size hid = do {
     b \<leftarrow> load (cb_bufs s) buf;
     let pref = preferred_chunk_size b;
     if added_size = 0 then Some (CIRCBUF_SUCCESS, s)
     else if pref = 0 then None
     else do {
       let rest = added_size mod pref;
       let (num, last_size) = (if rest = 0 then (added_size div pref, pref) else (added_size div pref + 1, rest));
       (r, s) \<leftarrow> add_chunks_loop env s hid pref last_size (num_chunks b) None (unat num);
       case r of
         None \<Rightarrow> Some (CIRCBUF_FAIL, s)
       | Some new_list \<Rightarrow> attach_chunks s buf b num added_size hid new_list
     }
   }"

text \<open>
  The last chunk to shrink is replaced by a smaller one. The bytes next to the writer are
  kept; when the writer's chunk itself shrinks below the writer's offset the writer moves on.
  \<open>cur_wr\<close> is the node of the writer as it was before.
\<close>

definition replace_chunk :: "circ_env \<Rightarrow> circ_state \<Rightarrow> ptr \<Rightarrow> ptr \<Rightarrow> ptr \<Rightarrow> u32 \<Rightarrow> (bool \<times> circ_state) option" where
  "replace_chunk env s buf cur_wr rm_node removable_size = do {
     (a, rem) \<leftarrow> chunk_of s rm_node;
     b \<leftarrow> load (cb_bufs s) buf;
     let n = ck_size rem - removable_size;
     (ck, s) \<leftarrow> new_chunk env s (cb_chunk_heap_id b) (ck_id rem) n;
     case ck of
       None \<Rightarrow> Some (False, s)
     | Some new \<Rightarrow> do {
         s \<leftarrow> upd_buf s buf (circ_buf_size_update (\<lambda>z. z - removable_size));
         cur_obj \<leftarrow> (if cur_wr = None then Some None else rd_obj (cb_nodes s) cur_wr);
         w \<leftarrow> (if wr_client_ptr b = None then Some None else map_option Some (load (cb_clients s) (wr_client_ptr b)));
         s \<leftarrow>
           (if cur_wr \<noteq> None \<and> cur_obj \<noteq> Some a
            then do {
              bs \<leftarrow> mem_read (ck_data rem) (unat (ck_size rem - n)) (unat n);
              write_chunk s new 0 bs
            }
            else (case w of
              Some wc \<Rightarrow>
                if n \<le> rw_chunk_offset wc
                then do {
                  bs \<leftarrow> mem_read (ck_data rem) (unat (rw_chunk_offset wc - n)) (unat n);
                  s \<leftarrow> write_chunk s new 0 bs;
                  (_, node) \<leftarrow> add_circ_buf_next_chunk_node s buf (rw_chunk_node_ptr wc);
                  upd_client s (wr_client_ptr b) (\<lambda>c. c\<lparr>rw_chunk_node_ptr := node, rw_chunk_offset := 0\<rparr>)
                }
                else do { bs \<leftarrow> mem_read (ck_data rem) 0 (unat n); write_chunk s new 0 bs }
            | None \<Rightarrow> do { bs \<leftarrow> mem_read (ck_data rem) 0 (unat n); write_chunk s new 0 bs }));
         s \<leftarrow> free_chunk s (Some a);
         h \<leftarrow> modify (cb_nodes s) rm_node (obj_ptr_update (\<lambda>_. Some new));
         Some (True, s\<lparr>cb_lists := (cb_lists s)\<lparr>nodes := h\<rparr>\<rparr>)
       }
   }"

text \<open>The loop that removes chunks behind the writer; \<open>Inl\<close> is an early return. A failed allocation ends the loop.\<close>

partial_function (option) remove_loop ::
    "circ_env \<Rightarrow> circ_state \<Rightarrow> ptr \<Rightarrow> u32 \<Rightarrow> ((circbuf_result + unit) \<times> circ_state) option" where
  "remove_loop env s buf removable_size =
    (if removable_size = 0 then Some (Inr (), s)
     else do {
       b \<leftarrow> load (cb_bufs s) buf;
       cur_wr \<leftarrow> (if wr_client_ptr b = None then Some None
                   else do { w \<leftarrow> load (cb_clients s) (wr_client_ptr b); Some (rw_chunk_node_ptr w) });
       nx \<leftarrow> (if cur_wr = None then Some None else rd_next (cb_nodes s) cur_wr);
       let rm_node = (if nx \<noteq> None then nx else head_chunk_ptr b);
       if rm_node = None then Some (Inl CIRCBUF_FAIL, s)
       else do {
         (_, rem) \<leftarrow> chunk_of s rm_node;
         if ck_size rem \<le> removable_size
         then do {
           s \<leftarrow> upd_buf s buf (\<lambda>b. b\<lparr>circ_buf_size := circ_buf_size b - ck_size rem,
                  num_chunks := (if num_chunks b = 0 then 0 else num_chunks b - 1)\<rparr>);
           (_, _, hd_ref, l) \<leftarrow> spf_list_delete_node_and_free_obj (cb_lists s) (Some rm_node) (OtherVar (head_chunk_ptr b)) True;
           s \<leftarrow> upd_buf (s\<lparr>cb_lists := l\<rparr>) buf (head_chunk_ptr_update (\<lambda>p. case hd_ref of OtherVar hp \<Rightarrow> hp | _ \<Rightarrow> p));
           remove_loop env s buf (removable_size - ck_size rem)
         }
         else do {
           (done, s) \<leftarrow> replace_chunk env s buf cur_wr rm_node removable_size;
           if done then remove_loop env s buf 0 else Some (Inr (), s)
         }
       }
     })"

definition circ_buf_remove_chunks :: "circ_env \<Rightarrow> circ_state \<Rightarrow> ptr \<Rightarrow> u32 \<Rightarrow> (circbuf_result \<times> circ_state) option" where
  "circ_buf_remove_chunks env s buf removable_size =
    (if removable_size = 0 then Some (CIRCBUF_SUCCESS, s)
     else do {
       (r, s) \<leftarrow> remove_loop env s buf removable_size;
       case r of
         Inl rc \<Rightarrow> Some (rc, s)
       | Inr _ \<Rightarrow> do {
           s \<leftarrow> upd_buf s buf (\<lambda>b. b\<lparr>write_byte_counter := min (write_byte_counter b) (circ_buf_size b)\<rparr>);
           b \<leftarrow> load (cb_bufs s) buf;
           s \<leftarrow> (if circ_buf_size b = 0 \<and> wr_client_ptr b \<noteq> None then circ_buf_write_client_reset s (wr_client_ptr b) else Some s);
           s \<leftarrow> for_each_client (\<lambda>c s. do { (_, s) \<leftarrow> add_circ_buf_read_client_reset s c False; Some s }) (rd_client_list_ptr b) s;
           Some (CIRCBUF_SUCCESS, s)
         }
     })"

text \<open>The loop over the chunks that moves each to another heap; \<open>False\<close> when memory runs out.\<close>

partial_function (option) realloc_loop :: "circ_env \<Rightarrow> circ_state \<Rightarrow> u32 \<Rightarrow> ptr \<Rightarrow> (bool \<times> circ_state) option" where
  "realloc_loop env s hid node =
    (if node = None then Some (True, s)
     else do {
       (a, old) \<leftarrow> chunk_of s node;
       (ck, s) \<leftarrow> new_chunk env s hid (ck_id old) (ck_size old);
       case ck of
         None \<Rightarrow> Some (False, s)
       | Some new \<Rightarrow> do {
           bs \<leftarrow> mem_read (ck_data old) 0 (unat (ck_size old));
           s \<leftarrow> write_chunk s new 0 bs;
           s \<leftarrow> free_chunk s (Some a);
           h \<leftarrow> modify (cb_nodes s) node (obj_ptr_update (\<lambda>_. Some new));
           let s = s\<lparr>cb_lists := (cb_lists s)\<lparr>nodes := h\<rparr>\<rparr>;
           nx \<leftarrow> rd_next (cb_nodes s) node;
           realloc_loop env s hid nx
         }
     })"

definition circ_buf_realloc_chunks :: "circ_env \<Rightarrow> circ_state \<Rightarrow> ptr \<Rightarrow> u32 \<Rightarrow> (circbuf_result \<times> circ_state) option" where
  "circ_buf_realloc_chunks env s buf hid =
    (if buf = None then Some (CIRCBUF_FAIL, s)
     else do {
       b \<leftarrow> load (cb_bufs s) buf;
       (done, s) \<leftarrow> realloc_loop env s hid (head_chunk_ptr b);
       if \<not> done
       then do {
         s \<leftarrow> delete_chunks s (head_chunk_ptr b);
         s \<leftarrow> upd_buf s buf (head_chunk_ptr_update (\<lambda>_. None));
         Some (CIRCBUF_FAIL, s)
       }
       else do {
         s \<leftarrow> upd_buf s buf (cb_chunk_heap_id_update (\<lambda>_. hid));
         Some (CIRCBUF_SUCCESS, s)
       }
     })"

text \<open>The largest request of the readers and its heap; the first one of the largest. \<open>Inl\<close> for a node without a client.\<close>

definition max_request :: "ptr \<Rightarrow> u32 \<times> u32 \<Rightarrow> circ_state \<Rightarrow> ((circbuf_result + u32 \<times> u32) \<times> circ_state) option" where
  "max_request client v s =
    (if client = None then Some (Inl CIRCBUF_FAIL, s)
     else do {
       c \<leftarrow> load (cb_clients s) client;
       let n = req_base_buffer_size c + req_buffer_resize c;
       Some (Inr (if is_read_client c \<and> fst v < n then (n, cl_chunk_heap_id c) else v), s)
     })"

definition circ_buf_client_resize :: "circ_env \<Rightarrow> circ_state \<Rightarrow> ptr \<Rightarrow> (circbuf_result \<times> circ_state) option" where
  "circ_buf_client_resize env s buf =
    (if buf = None then Some (CIRCBUF_FAIL, s)
     else do {
       b \<leftarrow> load (cb_bufs s) buf;
       (r, s) \<leftarrow> for_clients max_request (rd_client_list_ptr b) (0, cb_chunk_heap_id b) s;
       case r of
         Inl rc \<Rightarrow> Some (rc, s)
       | Inr (max_size, hid) \<Rightarrow>
           if max_size = max_req_buf_resize b
           then (if hid \<noteq> cb_chunk_heap_id b then circ_buf_realloc_chunks env s buf hid else Some (CIRCBUF_SUCCESS, s))
           else if max_req_buf_resize b < max_size
           then do {
             (rc, s) \<leftarrow> (if hid \<noteq> cb_chunk_heap_id b then circ_buf_realloc_chunks env s buf hid else Some (CIRCBUF_SUCCESS, s));
             if rc \<noteq> CIRCBUF_SUCCESS then Some (rc, s)
             else do {
               (rc, s) \<leftarrow> circ_buf_add_chunks env s buf (max_size - max_req_buf_resize b) hid;
               s \<leftarrow> (if rc = CIRCBUF_SUCCESS then upd_buf s buf (max_req_buf_resize_update (\<lambda>_. max_size)) else Some s);
               Some (rc, s)
             }
           }
           else do {
             (rc, s) \<leftarrow> circ_buf_remove_chunks env s buf (max_req_buf_resize b - max_size);
             if rc \<noteq> CIRCBUF_SUCCESS then Some (rc, s)
             else do {
               b \<leftarrow> load (cb_bufs s) buf;
               (rc, s) \<leftarrow> (if hid \<noteq> cb_chunk_heap_id b then circ_buf_realloc_chunks env s buf hid else Some (CIRCBUF_SUCCESS, s));
               if rc \<noteq> CIRCBUF_SUCCESS then Some (rc, s)
               else do {
                 s \<leftarrow> upd_buf s buf (max_req_buf_resize_update (\<lambda>_. max_size));
                 Some (rc, s)
               }
             }
           }
     })"

subsection \<open>Clients and life of a buffer\<close>

definition circ_buf_alloc :: "circ_env \<Rightarrow> circ_state \<Rightarrow> ptr \<Rightarrow> u32 \<Rightarrow> u32 \<Rightarrow> u32 \<Rightarrow> u32 \<Rightarrow> (circbuf_result \<times> circ_state) option" where
  "circ_buf_alloc env s buf bsize pref buf_id hid =
    (if buf = None \<or> pref = 0 then Some (CIRCBUF_FAIL, s)
     else do {
       s \<leftarrow> upd_buf s buf (\<lambda>_. zero_buf\<lparr>preferred_chunk_size := pref, cb_heap_id := hid, cb_id := buf_id\<rparr>);
       (rc, s) \<leftarrow> circ_buf_add_chunks env s buf bsize hid;
       Some (if rc \<noteq> CIRCBUF_SUCCESS then CIRCBUF_FAIL else CIRCBUF_SUCCESS, s)
     })"

definition circ_buf_register_client :: "circ_env \<Rightarrow> circ_state \<Rightarrow> ptr \<Rightarrow> bool \<Rightarrow> u32 \<Rightarrow> u32 \<Rightarrow> ptr \<Rightarrow> (circbuf_result \<times> circ_state) option" where
  "circ_buf_register_client env s buf is_reader hid base_size client =
    (if buf = None \<or> client = None then Some (CIRCBUF_FAIL, s)
     else do {
       b \<leftarrow> load (cb_bufs s) buf;
       if \<not> is_reader \<and> wr_client_ptr b \<noteq> None then Some (CIRCBUF_FAIL, s)
       else do {
         s \<leftarrow> upd_client s client (\<lambda>c. c\<lparr>is_read_client := is_reader, circ_buf_ptr := buf, req_base_buffer_size := base_size,
                req_buffer_resize := 0, cl_chunk_heap_id := hid\<rparr>);
         if is_reader
         then do {
           (_, hp, l) \<leftarrow> spf_list_insert_tail (node_env env (cb_lists s)) (cb_lists s) (Some (rd_client_list_ptr b)) client (cb_heap_id b) True;
           hp \<leftarrow> hp;
           s \<leftarrow> upd_buf (s\<lparr>cb_lists := l\<rparr>) buf (\<lambda>b. b\<lparr>rd_client_list_ptr := hp, num_read_clients := num_read_clients b + 1\<rparr>);
           (_, s) \<leftarrow> circ_buf_client_resize env s buf;
           (_, s) \<leftarrow> add_circ_buf_read_client_reset s client True;
           Some (CIRCBUF_SUCCESS, s)
         }
         else do {
           s \<leftarrow> upd_buf s buf (wr_client_ptr_update (\<lambda>_. client));
           s \<leftarrow> circ_buf_write_client_reset s client;
           Some (CIRCBUF_SUCCESS, s)
         }
       }
     })"

definition circ_buf_read_client_resize :: "circ_env \<Rightarrow> circ_state \<Rightarrow> ptr \<Rightarrow> u32 \<Rightarrow> u32 \<Rightarrow> (circbuf_result \<times> circ_state) option" where
  "circ_buf_read_client_resize env s client resize hid =
    (if client = None then Some (CIRCBUF_FAIL, s)
     else do {
       s \<leftarrow> upd_client s client (\<lambda>c. c\<lparr>req_buffer_resize := resize, cl_chunk_heap_id := hid\<rparr>);
       c \<leftarrow> load (cb_clients s) client;
       circ_buf_client_resize env s (circ_buf_ptr c)
     })"

definition circ_buf_deregister_client :: "circ_env \<Rightarrow> circ_state \<Rightarrow> ptr \<Rightarrow> (circbuf_result \<times> circ_state) option" where
  "circ_buf_deregister_client env s client =
    (if client = None then Some (CIRCBUF_FAIL, s)
     else do {
       c \<leftarrow> load (cb_clients s) client;
       let buf = circ_buf_ptr c;
       if buf = None then Some (CIRCBUF_FAIL, s)
       else do {
         b \<leftarrow> load (cb_bufs s) buf;
         s \<leftarrow> (if is_read_client c
               then do {
                 (_, hp, l) \<leftarrow> spf_list_find_delete_node (cb_lists s) (Some (rd_client_list_ptr b)) client True;
                 hp \<leftarrow> hp;
                 s \<leftarrow> upd_buf (s\<lparr>cb_lists := l\<rparr>) buf (\<lambda>b. b\<lparr>rd_client_list_ptr := hp,
                        num_read_clients := (if 0 < num_read_clients b then num_read_clients b - 1 else 0)\<rparr>);
                 (_, s) \<leftarrow> circ_buf_client_resize env s buf;
                 Some s
               }
               else upd_buf s buf (wr_client_ptr_update (\<lambda>_. None)));
         s \<leftarrow> upd_client s client (\<lambda>_. zero_client);
         Some (CIRCBUF_SUCCESS, s)
       }
     })"

text \<open>The loop that takes every reader from the list and clears it.\<close>

partial_function (option) clear_readers :: "circ_state \<Rightarrow> ptr \<Rightarrow> (ptr \<times> circ_state) option" where
  "clear_readers s hd_ptr = do {
     (c, hp, l) \<leftarrow> spf_list_pop_head (cb_lists s) (Some hd_ptr) True;
     hp \<leftarrow> hp;
     let s = s\<lparr>cb_lists := l\<rparr>;
     if c = None then Some (hp, s)
     else do {
       s \<leftarrow> upd_client s c (\<lambda>_. zero_client);
       clear_readers s hp
     }
   }"

definition circ_buf_free :: "circ_state \<Rightarrow> ptr \<Rightarrow> (circbuf_result \<times> circ_state) option" where
  "circ_buf_free s buf = do {
     b \<leftarrow> load (cb_bufs s) buf;
     s \<leftarrow> (if head_chunk_ptr b \<noteq> None then delete_chunks s (head_chunk_ptr b) else Some s);
     s \<leftarrow> (if wr_client_ptr b \<noteq> None then upd_client s (wr_client_ptr b) (\<lambda>_. zero_client) else Some s);
     (hp, s) \<leftarrow> clear_readers s (rd_client_list_ptr b);
     s \<leftarrow> (if hp \<noteq> None
           then do { (_, _, l) \<leftarrow> spf_list_delete_list (cb_lists s) (Some hp) True; Some (s\<lparr>cb_lists := l\<rparr>) }
           else Some s);
     s \<leftarrow> upd_buf s buf (\<lambda>_. zero_buf);
     Some (CIRCBUF_SUCCESS, s)
   }"

end
