(* ===== verification/Byte_Ring.thy ===== *)
theory Byte_Ring
  imports Ar_Prelude
begin

text \<open>
  A ring of bytes (or anything else) as a list: reading and writing from a position that wraps around, the
  part right behind a position, and rings that are made of several blocks.
\<close>

subsection \<open>Reading and writing\<close>

definition rget :: "'b list \<Rightarrow> nat \<Rightarrow> nat \<Rightarrow> 'b list" where
  "rget xs p n = map (\<lambda>k. xs ! ((p + k) mod length xs)) [0..<n]"

fun rput :: "'b list \<Rightarrow> nat \<Rightarrow> 'b list \<Rightarrow> 'b list" where
  "rput xs p [] = xs"
| "rput xs p (b # bs) = rput (xs[p mod length xs := b]) (Suc p) bs"

lemma length_rget [simp]: "length (rget xs p n) = n"
  by (simp add: rget_def)

lemma nth_rget: "k < n \<Longrightarrow> rget xs p n ! k = xs ! ((p + k) mod length xs)"
  by (simp add: rget_def)

lemma length_rput [simp]: "length (rput xs p bs) = length xs"
  by (induction bs arbitrary: xs p) simp_all

lemma rget_0 [simp]: "rget xs p 0 = []"
  by (simp add: rget_def)

lemma rget_mod: "rget xs (p mod length xs) n = rget xs p n"
  by (simp add: rget_def mod_add_left_eq)

lemma rget_cong: "p mod length xs = q mod length xs \<Longrightarrow> rget xs p n = rget xs q n"
  by (metis rget_mod)

lemma rget_add: "rget xs p (m + n) = rget xs p m @ rget xs (p + m) n"
  by (rule nth_equalityI) (simp_all add: nth_rget nth_append add.assoc)

lemma rget_whole: "p + n \<le> length xs \<Longrightarrow> rget xs p n = take n (drop p xs)"
  by (rule nth_equalityI) (simp_all add: nth_rget)

lemma take_rget: "m \<le> n \<Longrightarrow> take m (rget xs p n) = rget xs p m"
  by (rule nth_equalityI) (simp_all add: nth_rget)

lemma drop_rget: "m \<le> n \<Longrightarrow> drop m (rget xs p n) = rget xs (p + m) (n - m)"
  by (rule nth_equalityI) (simp_all add: nth_rget add.assoc)

lemma rput_mod: "rput xs (p mod length xs) bs = rput xs p bs"
proof (induction bs arbitrary: xs p)
  case (Cons b bs)
  have "rput (xs[p mod length xs := b]) (Suc (p mod length xs)) bs = rput (xs[p mod length xs := b]) (Suc p) bs"
    using Cons.IH [of "xs[p mod length xs := b]" "Suc (p mod length xs)"] Cons.IH [of "xs[p mod length xs := b]" "Suc p"]
    by (simp add: mod_Suc_eq)
  then show ?case by simp
qed simp

lemma rput_append: "rput xs p (as @ bs) = rput (rput xs p as) (p + length as) bs"
  by (induction as arbitrary: xs p) simp_all

lemma rput_whole: "p + length bs \<le> length xs \<Longrightarrow> rput xs p bs = take p xs @ bs @ drop (p + length bs) xs"
proof (induction bs arbitrary: xs p)
  case (Cons b bs)
  then have p: "p < length xs" by simp
  have "rput xs p (b # bs) = rput (xs[p := b]) (Suc p) bs" using p by simp
  also have "\<dots> = take (Suc p) (xs[p := b]) @ bs @ drop (Suc p + length bs) (xs[p := b])" using Cons by simp
  also have "take (Suc p) (xs[p := b]) = take p xs @ [b]" using p by (simp add: take_Suc_conv_app_nth)
  finally show ?case by simp
qed simp

text \<open>An element of the ring after a write, by its distance from the write position.\<close>

lemma nth_rput:
  "length bs \<le> length xs \<Longrightarrow> q < length xs \<Longrightarrow>
    rput xs p bs ! ((p + q) mod length xs) = (if q < length bs then bs ! q else xs ! ((p + q) mod length xs))"
proof (induction bs arbitrary: xs p q)
  case (Cons b bs)
  let ?N = "length xs"
  let ?xs = "xs[p mod ?N := b]"
  have N: "0 < ?N" using Cons.prems by linarith
  show ?case
  proof (cases q)
    case 0
    have "Suc p + (?N - 1) = p + ?N" using N by linarith
    then have "(Suc p + (?N - 1)) mod ?N = p mod ?N" using mod_add_self2 [of p ?N] by metis
    moreover have "\<not> ?N - 1 < length bs" "?N - 1 < ?N" using Cons.prems N by simp_all
    ultimately have "rput ?xs (Suc p) bs ! (p mod ?N) = ?xs ! (p mod ?N)"
      using Cons.IH [of ?xs "?N - 1" "Suc p"] Cons.prems by simp
    then show ?thesis using 0 N by simp
  next
    case (Suc r)
    have "(p + Suc r) mod ?N \<noteq> p mod ?N"
    proof
      assume "(p + Suc r) mod ?N = p mod ?N"
      then have "?N dvd Suc r" by (metis add_diff_cancel_left' mod_eq_dvd_iff_nat le_add1)
      then show False using Suc Cons.prems(2) by (auto dest: dvd_imp_le)
    qed
    then show ?thesis using Cons.IH [of ?xs r "Suc p"] Cons.prems Suc by simp
  qed
qed simp

subsection \<open>The part behind a position\<close>

definition rbehind :: "'b list \<Rightarrow> nat \<Rightarrow> nat \<Rightarrow> 'b list" where
  "rbehind xs w k = rget xs (w + length xs - k) k"

lemma length_rbehind [simp]: "length (rbehind xs w k) = k"
  by (simp add: rbehind_def)

lemma rbehind_cong:
  assumes "w mod length xs = w' mod length xs" "k \<le> length xs"
  shows "rbehind xs w k = rbehind xs w' k"
proof -
  have "(w + (length xs - k)) mod length xs = (w' + (length xs - k)) mod length xs" using assms(1) by (metis mod_add_left_eq)
  then have "(w + length xs - k) mod length xs = (w' + length xs - k) mod length xs" using assms(2) by simp
  then show ?thesis unfolding rbehind_def by (rule rget_cong)
qed

text \<open>What is behind the writer after a write: what was there, then what was written.\<close>

lemma rbehind_rput:
  assumes "length bs \<le> length xs" "k \<le> length xs"
  shows "rbehind (rput xs w bs) (w + length bs) k
    = drop (length bs - k) (rbehind xs w (k - length bs) @ bs)"
proof (rule nth_equalityI)
  show "length (rbehind (rput xs w bs) (w + length bs) k) = length (drop (length bs - k) (rbehind xs w (k - length bs) @ bs))" by simp
next
  fix j
  assume "j < length (rbehind (rput xs w bs) (w + length bs) k)"
  then have j: "j < k" by simp
  let ?N = "length xs" and ?n = "length bs"
  have N: "0 < ?N" using j assms(2) by linarith
  have l: "rbehind (rput xs w bs) (w + ?n) k ! j = rput xs w bs ! ((w + ?n + ?N - k + j) mod ?N)"
    using j by (simp add: rbehind_def nth_rget)
  show "rbehind (rput xs w bs) (w + ?n) k ! j = drop (?n - k) (rbehind xs w (k - ?n) @ bs) ! j"
  proof (cases "j < k - ?n")
    case True
    define q where "q = ?n + ?N - k + j"
    have q: "q < ?N" "\<not> q < ?n" using True assms(2) by (simp_all add: q_def)
    have e: "w + ?n + ?N - k + j = w + q" using assms(2) by (simp add: q_def)
    have f: "w + ?N - (k - ?n) + j = w + q" using assms(2) True by (simp add: q_def)
    show ?thesis unfolding l e using nth_rput [OF assms(1) q(1), of w] q(2) True f
      by (simp add: nth_append rbehind_def nth_rget)
  next
    case False
    define q where "q = ?n + j - k"
    have q: "q < ?n" "q < ?N" using False j assms by (auto simp: q_def)
    have e: "w + ?n + ?N - k + j = w + q + ?N" using False j assms(2) by (simp add: q_def)
    have "(w + q + ?N) mod ?N = (w + q) mod ?N" by simp
    moreover have "drop (?n - k) (rbehind xs w (k - ?n) @ bs) ! j = bs ! q"
      using False j by (cases "k \<le> ?n") (simp_all add: nth_append q_def add.commute)
    ultimately show ?thesis unfolding l e using nth_rput [OF assms(1) q(2), of w] q(1) by simp
  qed
qed

lemma take_rbehind:
  assumes "m \<le> k" "k \<le> length xs"
  shows "take m (rbehind xs w k) = rget xs (w + length xs - k) m" "drop m (rbehind xs w k) = rbehind xs w (k - m)"
  using assms by (simp_all add: rbehind_def take_rget drop_rget)

subsection \<open>Rings made of blocks\<close>

definition block_pos :: "'b list list \<Rightarrow> nat \<Rightarrow> nat \<Rightarrow> nat" where
  "block_pos bls i off = length (concat (take i bls)) + off"

lemma block_split: "i < length bls \<Longrightarrow> concat bls = concat (take i bls) @ bls ! i @ concat (drop (Suc i) bls)"
  by (metis append_take_drop_id concat.simps(2) concat_append Cons_nth_drop_Suc)

lemma block_pos_Suc: "i < length bls \<Longrightarrow> block_pos bls (Suc i) 0 = block_pos bls i (length (bls ! i))"
  by (simp add: block_pos_def take_Suc_conv_app_nth)

lemma block_pos_end: "block_pos bls (length bls) 0 = length (concat bls)"
  by (simp add: block_pos_def)

lemma block_pos_bound:
  assumes "i < length bls" "off \<le> length (bls ! i)"
  shows "block_pos bls i off + (length (bls ! i) - off) + length (concat (drop (Suc i) bls)) = length (concat bls)"
  using assms arg_cong [OF block_split [OF assms(1)], of length] by (simp add: block_pos_def)

text \<open>Bytes of a block are bytes of the ring.\<close>

lemma block_read:
  assumes "i < length bls" "off + n \<le> length (bls ! i)"
  shows "take n (drop off (bls ! i)) = rget (concat bls) (block_pos bls i off) n"
proof -
  have "block_pos bls i off + n \<le> length (concat bls)" using block_pos_bound [OF assms(1), of off] assms(2) by simp
  then have "rget (concat bls) (block_pos bls i off) n = take n (drop (block_pos bls i off) (concat bls))" by (rule rget_whole)
  also have "drop (block_pos bls i off) (concat bls) = drop off (bls ! i) @ concat (drop (Suc i) bls)"
    using block_split [OF assms(1)] assms(2) by (simp add: block_pos_def)
  also have "take n \<dots> = take n (drop off (bls ! i))" using assms(2) by simp
  finally show ?thesis by simp
qed

lemma block_write:
  assumes "i < length bls" "off + length bs \<le> length (bls ! i)"
  shows "concat (bls[i := take off (bls ! i) @ bs @ drop (off + length bs) (bls ! i)]) = rput (concat bls) (block_pos bls i off) bs"
proof -
  let ?b = "take off (bls ! i) @ bs @ drop (off + length bs) (bls ! i)"
  have "block_pos bls i off + length bs \<le> length (concat bls)" using block_pos_bound [OF assms(1), of off] assms(2) by simp
  then have "rput (concat bls) (block_pos bls i off) bs
      = take (block_pos bls i off) (concat bls) @ bs @ drop (block_pos bls i off + length bs) (concat bls)" by (rule rput_whole)
  also have "\<dots> = concat (take i bls) @ ?b @ concat (drop (Suc i) bls)"
    using block_split [OF assms(1)] assms(2) by (simp add: block_pos_def)
  also have "\<dots> = concat (bls[i := ?b])" using assms(1) by (simp add: upd_conv_take_nth_drop)
  finally show ?thesis by simp
qed

end
