(* ===== verification/Stream_Buffer.thy ===== *)
theory Stream_Buffer
  imports Ar_Prelude "HOL-Library.Sublist"
begin

text \<open>
  The contract of a buffer of bounded size with one writer and several readers: every reader gets every byte, in order,
  as long as it is not more than the size of the buffer behind; a writer never waits, and a reader
  that is too slow loses the oldest bytes. The abstract machine keeps what was written last and a queue for each reader.
\<close>

subsection \<open>Abstract machine\<close>

definition last_n :: "nat \<Rightarrow> 'b list \<Rightarrow> 'b list" where
  "last_n n xs = drop (length xs - n) xs"

lemma length_last_n [simp]: "length (last_n n xs) = min (length xs) n"
  by (simp add: last_n_def)

lemma last_n_all [simp]: "length xs \<le> n \<Longrightarrow> last_n n xs = xs"
  by (simp add: last_n_def)

lemma last_n_append: "length bs \<le> n \<Longrightarrow> last_n n (xs @ bs) = drop (length xs + length bs - n) xs @ bs"
  by (simp add: last_n_def)

lemma last_n_last_n: "last_n n (last_n n xs @ bs) = last_n n (xs @ bs)"
proof (cases "length xs \<le> n")
  case False
  then have "last_n n xs @ bs = drop (length xs - n) (xs @ bs)" by (simp add: last_n_def)
  then show ?thesis using False by (simp add: last_n_def add.commute)
qed simp

lemma suffix_last_n: "suffix (last_n n xs) xs"
  by (simp add: last_n_def suffix_drop)

datatype ('r, 'b) bop = Put "'b list" | Get 'r nat | Seek 'r nat | Rewind 'r nat

record ('r, 'b) bstate =
  hist :: "'b list"
  queues :: "'r \<Rightarrow> 'b list"

fun astep :: "nat \<Rightarrow> ('r, 'b) bstate \<Rightarrow> ('r, 'b) bop \<Rightarrow> 'b list \<times> ('r, 'b) bstate" where
  "astep cap a (Put bs) = ([], \<lparr>hist = last_n cap (hist a @ bs), queues = (\<lambda>r. last_n cap (queues a r @ bs))\<rparr>)"
| "astep cap a (Get r n) = (take n (queues a r), a\<lparr>queues := (queues a)(r := drop n (queues a r))\<rparr>)"
| "astep cap a (Seek r n) = ([], a\<lparr>queues := (queues a)(r := last_n n (queues a r))\<rparr>)"
| "astep cap a (Rewind r n) = ([], a\<lparr>queues := (queues a)(r := last_n n (hist a))\<rparr>)"

fun aexec :: "nat \<Rightarrow> ('r, 'b) bstate \<Rightarrow> ('r, 'b) bop list \<Rightarrow> 'b list list \<times> ('r, 'b) bstate" where
  "aexec cap a [] = ([], a)"
| "aexec cap a (x # xs) = (let (out, a) = astep cap a x; (outs, a) = aexec cap a xs in (out # outs, a))"

text \<open>What a sequence of operations writes, and what reader \<open>r\<close> gets.\<close>

fun put_of :: "('r, 'b) bop \<Rightarrow> 'b list" where
  "put_of (Put bs) = bs"
| "put_of _ = []"

definition puts :: "('r, 'b) bop list \<Rightarrow> 'b list" where
  "puts xs = concat (map put_of xs)"

fun gets :: "'r \<Rightarrow> ('r, 'b) bop list \<Rightarrow> 'b list list \<Rightarrow> 'b list" where
  "gets r (Get r' n # xs) (out # outs) = (if r' = r then out else []) @ gets r xs outs"
| "gets r (_ # xs) (_ # outs) = gets r xs outs"
| "gets r _ _ = []"

text \<open>Operations that move a reader: \<open>Seek\<close> forward, \<open>Rewind\<close> to any byte still in the buffer.\<close>

fun rewinds :: "'r \<Rightarrow> ('r, 'b) bop \<Rightarrow> bool" where
  "rewinds r (Rewind r' n) \<longleftrightarrow> r' = r"
| "rewinds r _ \<longleftrightarrow> False"

fun moves :: "'r \<Rightarrow> ('r, 'b) bop \<Rightarrow> bool" where
  "moves r (Rewind r' n) \<longleftrightarrow> r' = r"
| "moves r (Seek r' n) \<longleftrightarrow> r' = r"
| "moves r _ \<longleftrightarrow> False"

text \<open>No write of the sequence makes reader \<open>r\<close> lose bytes.\<close>

fun keeps_up :: "nat \<Rightarrow> 'r \<Rightarrow> ('r, 'b) bstate \<Rightarrow> ('r, 'b) bop list \<Rightarrow> bool" where
  "keeps_up cap r a [] \<longleftrightarrow> True"
| "keeps_up cap r a (x # xs) \<longleftrightarrow> length (queues a r) + length (put_of x) \<le> cap \<and> keeps_up cap r (snd (astep cap a x)) xs"

lemma puts_simps [simp]: "puts [] = []" "puts (x # xs) = put_of x @ puts xs"
  by (simp_all add: puts_def)

lemma aexec_lossless:
  assumes "\<forall>x \<in> set xs. \<not> moves r x" "keeps_up cap r a xs" "aexec cap a xs = (outs, a')"
  shows "gets r xs outs @ queues a' r = queues a r @ puts xs"
  using assms
proof (induction xs arbitrary: a outs)
  case (Cons x xs)
  obtain out a1 outs1 where st: "astep cap a x = (out, a1)" "aexec cap a1 xs = (outs1, a')" "outs = out # outs1"
    using Cons.prems(3) by (auto simp: split: prod.splits)
  have "gets r xs outs1 @ queues a' r = queues a1 r @ puts xs" using Cons.IH [OF _ _ st(2)] Cons.prems(1,2) st(1) by simp
  then show ?case using st(1,3) Cons.prems(1,2) by (cases x) auto
qed simp

lemma aexec_subseq:
  assumes "\<forall>x \<in> set xs. \<not> rewinds r x" "aexec cap a xs = (outs, a')"
  shows "subseq (gets r xs outs @ queues a' r) (queues a r @ puts xs)"
  using assms
proof (induction xs arbitrary: a outs)
  case (Cons x xs)
  obtain out a1 outs1 where st: "astep cap a x = (out, a1)" "aexec cap a1 xs = (outs1, a')" "outs = out # outs1"
    using Cons.prems(2) by (auto simp: split: prod.splits)
  have IH: "subseq (gets r xs outs1 @ queues a' r) (queues a1 r @ puts xs)" using Cons.IH [OF _ st(2)] Cons.prems(1) by simp
  have ln: "subseq (last_n k ys @ puts xs) (ys @ puts xs)" for k ys
    by (intro list_emb_append_mono suffix_imp_subseq suffix_last_n subseq_order.order_refl)
  show ?case
  proof (cases x)
    case (Put bs)
    then show ?thesis using st(1,3) IH ln [of cap "queues a r @ bs"] by (auto intro: subseq_order.order_trans)
  next
    case (Get r' n)
    show ?thesis
    proof (cases "r' = r")
      case True
      have "subseq (gets r xs outs1 @ queues a' r) (drop n (queues a r) @ puts xs)" using IH st(1) Get True by auto
      from list_emb_append_mono [OF subseq_order.order_refl this]
      have "subseq (take n (queues a r) @ gets r xs outs1 @ queues a' r) (take n (queues a r) @ drop n (queues a r) @ puts xs)" .
      then show ?thesis using Get st(1,3) True by simp (metis append_assoc append_take_drop_id)
    qed (use Get st(1,3) IH in auto)
  next
    case (Seek r' n)
    then show ?thesis using st(1,3) IH ln [of n "queues a r"] by (auto split: if_splits intro: subseq_order.order_trans)
  qed (use st(1,3) IH Cons.prems(1) in auto)
qed simp

lemma aexec_hist:
  assumes "aexec cap a xs = (outs, a')" "length (hist a) \<le> cap"
  shows "hist a' = last_n cap (hist a @ puts xs)"
  using assms
proof (induction xs arbitrary: a outs)
  case (Cons x xs)
  obtain out a1 outs1 where st: "astep cap a x = (out, a1)" "aexec cap a1 xs = (outs1, a')"
    using Cons.prems(1) by (auto simp: split: prod.splits)
  have h: "hist a1 = last_n cap (hist a @ put_of x)" using st(1) Cons.prems(2) by (cases x) auto
  then have "hist a' = last_n cap (last_n cap (hist a @ put_of x) @ puts xs)" using Cons.IH [OF st(2)] by simp
  then show ?case by (simp add: last_n_last_n)
qed simp

subsection \<open>Contract\<close>

text \<open>A program that runs the operations one after the other; \<open>None\<close> is a fault.\<close>

fun exec_op where
  "exec_op wr rd sk rw s (Put bs) = map_option (Pair []) (wr s bs)"
| "exec_op wr rd sk rw s (Get r n) = rd s r n"
| "exec_op wr rd sk rw s (Seek r n) = map_option (Pair []) (sk s r n)"
| "exec_op wr rd sk rw s (Rewind r n) = map_option (Pair []) (rw s r n)"

fun exec_ops :: "('s \<Rightarrow> 'x \<Rightarrow> ('y \<times> 's) option) \<Rightarrow> 's \<Rightarrow> 'x list \<Rightarrow> ('y list \<times> 's) option" where
  "exec_ops f s [] = Some ([], s)"
| "exec_ops f s (x # xs) = do { (y, s) \<leftarrow> f s x; (ys, s) \<leftarrow> exec_ops f s xs; Some (y # ys, s) }"

fun valid_op :: "nat \<Rightarrow> 'r set \<Rightarrow> ('r, 'b) bop \<Rightarrow> bool" where
  "valid_op cap R (Put bs) \<longleftrightarrow> length bs \<le> cap"
| "valid_op cap R (Get r n) \<longleftrightarrow> r \<in> R \<and> n \<le> cap"
| "valid_op cap R (Seek r n) \<longleftrightarrow> r \<in> R \<and> n \<le> cap"
| "valid_op cap R (Rewind r n) \<longleftrightarrow> r \<in> R \<and> n \<le> cap"

locale broadcast_buffer =
  fixes inv :: "'s \<Rightarrow> bool" and cap :: nat and R :: "'r set"
    and recent_of :: "'s \<Rightarrow> 'b list" and queue_of :: "'s \<Rightarrow> 'r \<Rightarrow> 'b list"
    and wr :: "'s \<Rightarrow> 'b list \<Rightarrow> 's option" and rd :: "'s \<Rightarrow> 'r \<Rightarrow> nat \<Rightarrow> ('b list \<times> 's) option"
    and sk rw :: "'s \<Rightarrow> 'r \<Rightarrow> nat \<Rightarrow> 's option"
  assumes write_law: "inv s \<Longrightarrow> length bs \<le> cap \<Longrightarrow> \<exists>s'. wr s bs = Some s' \<and> inv s'
      \<and> recent_of s' = last_n cap (recent_of s @ bs) \<and> (\<forall>r \<in> R. queue_of s' r = last_n cap (queue_of s r @ bs))"
    and read_law: "inv s \<Longrightarrow> r \<in> R \<Longrightarrow> n \<le> cap \<Longrightarrow> \<exists>s'. rd s r n = Some (take n (queue_of s r), s') \<and> inv s'
      \<and> recent_of s' = recent_of s \<and> queue_of s' r = drop n (queue_of s r) \<and> (\<forall>r' \<in> R - {r}. queue_of s' r' = queue_of s r')"
    and seek_law: "inv s \<Longrightarrow> r \<in> R \<Longrightarrow> n \<le> cap \<Longrightarrow> \<exists>s'. sk s r n = Some s' \<and> inv s'
      \<and> recent_of s' = recent_of s \<and> queue_of s' r = last_n n (queue_of s r) \<and> (\<forall>r' \<in> R - {r}. queue_of s' r' = queue_of s r')"
    and rewind_law: "inv s \<Longrightarrow> r \<in> R \<Longrightarrow> n \<le> cap \<Longrightarrow> \<exists>s'. rw s r n = Some s' \<and> inv s'
      \<and> recent_of s' = recent_of s \<and> queue_of s' r = last_n n (recent_of s) \<and> (\<forall>r' \<in> R - {r}. queue_of s' r' = queue_of s r')"
    and recent_cap: "inv s \<Longrightarrow> length (recent_of s) \<le> cap"
begin

text \<open>A state stands for a state of the abstract machine, as far as its readers go.\<close>

definition sim :: "'s \<Rightarrow> ('r, 'b) bstate \<Rightarrow> bool" where
  "sim s a \<longleftrightarrow> inv s \<and> hist a = recent_of s \<and> (\<forall>r \<in> R. queues a r = queue_of s r)"

lemma sim_step:
  assumes "sim s a" "valid_op cap R x"
  shows "\<exists>s'. exec_op wr rd sk rw s x = Some (fst (astep cap a x), s') \<and> sim s' (snd (astep cap a x))"
proof (cases x)
  case (Put bs)
  then show ?thesis using assms write_law [of s bs] by (fastforce simp: sim_def)
next
  case (Get r n)
  then show ?thesis using assms read_law [of s r n] by (fastforce simp: sim_def)
next
  case (Seek r n)
  then show ?thesis using assms seek_law [of s r n] by (fastforce simp: sim_def)
next
  case (Rewind r n)
  then show ?thesis using assms rewind_law [of s r n] by (fastforce simp: sim_def)
qed

lemma sim_exec:
  assumes "sim s a" "list_all (valid_op cap R) xs"
  shows "\<exists>s'. exec_ops (exec_op wr rd sk rw) s xs = Some (fst (aexec cap a xs), s') \<and> sim s' (snd (aexec cap a xs))"
  using assms
proof (induction xs arbitrary: s a)
  case (Cons x xs)
  obtain s1 where s1: "exec_op wr rd sk rw s x = Some (fst (astep cap a x), s1)" "sim s1 (snd (astep cap a x))"
    using sim_step [OF Cons.prems(1)] Cons.prems(2) by auto
  then show ?case using Cons.IH [OF s1(2)] Cons.prems(2) by (auto simp: case_prod_beta)
qed simp

abbreviation abs_of :: "'s \<Rightarrow> ('r, 'b) bstate" where
  "abs_of s \<equiv> \<lparr>hist = recent_of s, queues = queue_of s\<rparr>"

lemma run_refines:
  assumes "inv s" "list_all (valid_op cap R) xs"
  shows "\<exists>s'. exec_ops (exec_op wr rd sk rw) s xs = Some (fst (aexec cap (abs_of s) xs), s') \<and> inv s'
    \<and> recent_of s' = last_n cap (recent_of s @ puts xs) \<and> (\<forall>r \<in> R. queue_of s' r = queues (snd (aexec cap (abs_of s) xs)) r)"
proof -
  have "sim s (abs_of s)" using assms(1) by (simp add: sim_def)
  from sim_exec [OF this assms(2)] show ?thesis
    using aexec_hist [of cap "abs_of s" xs "fst (aexec cap (abs_of s) xs)" "snd (aexec cap (abs_of s) xs)"] recent_cap [OF assms(1)]
    by (auto simp: sim_def)
qed

text \<open>A reader that keeps up gets every byte once and in order.\<close>

lemma run_lossless:
  assumes "inv s" "list_all (valid_op cap R) xs" "r \<in> R" "\<forall>x \<in> set xs. \<not> moves r x" "keeps_up cap r (abs_of s) xs"
  shows "\<exists>outs s'. exec_ops (exec_op wr rd sk rw) s xs = Some (outs, s') \<and> inv s'
    \<and> gets r xs outs @ queue_of s' r = queue_of s r @ puts xs"
  using run_refines [OF assms(1,2)] assms(3) aexec_lossless [OF assms(4,5), of "fst (aexec cap (abs_of s) xs)" "snd (aexec cap (abs_of s) xs)"]
  by auto

text \<open>A reader that does not keep up loses bytes, and gets nothing else, twice or out of order.\<close>

lemma run_in_order:
  assumes "inv s" "list_all (valid_op cap R) xs" "r \<in> R" "\<forall>x \<in> set xs. \<not> rewinds r x"
  shows "\<exists>outs s'. exec_ops (exec_op wr rd sk rw) s xs = Some (outs, s') \<and> inv s'
    \<and> subseq (gets r xs outs @ queue_of s' r) (queue_of s r @ puts xs)"
  using run_refines [OF assms(1,2)] assms(3) aexec_subseq [OF assms(4), of cap "abs_of s" "fst (aexec cap (abs_of s) xs)" "snd (aexec cap (abs_of s) xs)"]
  by auto

end

end
