(* ===== verification/Dam_Circ_Buf_Proofs.thy ===== *)
theory Dam_Circ_Buf_Proofs
  imports Dam_Circ_Buf Byte_Ring Stream_Buffer
begin

text \<open>
  Correctness of the circular buffer. The chunks of a buffer are the blocks of one ring of bytes; the position of a
  client is a number in that ring. Every reader has a queue of unread bytes, which are those right
  behind the writer, and an operation is described by what it does to these queues.
\<close>

subsection \<open>Positions\<close>

text \<open>The place of an offset in a chunk, for chunks of sizes \<open>zs\<close>.\<close>

definition zpos :: "nat list \<Rightarrow> nat \<Rightarrow> nat \<Rightarrow> nat" where
  "zpos zs i off = sum_list (take i zs) + off"

definition at_pos :: "addr list \<Rightarrow> nat list \<Rightarrow> ptr \<Rightarrow> u32 \<Rightarrow> nat \<Rightarrow> bool" where
  "at_pos ns zs node off p \<longleftrightarrow> (\<exists>i < length ns. node = Some (ns ! i) \<and> unat off < zs ! i \<and> p = zpos zs i (unat off))"

lemma block_pos_zpos: "block_pos bls i off = zpos (map length bls) i off"
  by (simp add: block_pos_def zpos_def length_concat take_map)

lemma zpos_add: "zpos zs i (o1 + o2) = zpos zs i o1 + o2"
  by (simp add: zpos_def)

text \<open>The end of a chunk is the beginning of the next one, around the ring.\<close>

lemma zpos_next:
  assumes "i < length zs" "0 < length zs"
  shows "zpos zs (Suc i mod length zs) 0 mod sum_list zs = zpos zs i (zs ! i) mod sum_list zs"
proof (cases "Suc i < length zs")
  case True
  then show ?thesis using assms by (simp add: zpos_def take_Suc_conv_app_nth)
next
  case False
  then have "Suc i = length zs" using assms(1) by simp
  moreover from this have "zpos zs i (zs ! i) = sum_list zs"
    using take_Suc_conv_app_nth [OF assms(1)] by (simp add: zpos_def) (metis sum_list_append sum_list.Cons sum_list.Nil add_0_right take_all_iff order_refl)
  ultimately show ?thesis by (simp add: zpos_def)
qed

lemma zpos_less:
  assumes "i < length zs" "off < zs ! i"
  shows "zpos zs i off < sum_list zs"
proof -
  have "sum_list zs = sum_list (take i zs) + zs ! i + sum_list (drop (Suc i) zs)"
    by (metis id_take_nth_drop [OF assms(1)] sum_list_append sum_list.Cons add.assoc)
  then show ?thesis using assms(2) by (simp add: zpos_def)
qed

subsection \<open>Chunks\<close>

definition chunks_ok :: "circ_state \<Rightarrow> ptr \<Rightarrow> addr list \<Rightarrow> addr list \<Rightarrow> nat list \<Rightarrow> bool" where [inv_defs]:
  "chunks_ok s hp ns os zs \<longleftrightarrow> slist (cb_nodes s) hp ns (map Some os) \<and> distinct os \<and> set os \<subseteq> objs (cb_lists s)
     \<and> length zs = length os
     \<and> (\<forall>i < length os. \<exists>c. cb_chunks s (os ! i) = Some c \<and> 0 < zs ! i \<and> unat (ck_size c) = zs ! i \<and> length (ck_data c) = zs ! i)"

definition blocks :: "circ_state \<Rightarrow> addr list \<Rightarrow> u8 list list" where
  "blocks s os = map (\<lambda>a. ck_data (the (cb_chunks s a))) os"

definition ring_of :: "circ_state \<Rightarrow> addr list \<Rightarrow> u8 list" where
  "ring_of s os = concat (blocks s os)"

lemma blocks_sizes: "chunks_ok s hp ns os zs \<Longrightarrow> map length (blocks s os) = zs"
  by (rule nth_equalityI) (auto simp: chunks_ok_def blocks_def)

lemma length_ring: "chunks_ok s hp ns os zs \<Longrightarrow> length (ring_of s os) = sum_list zs"
  using blocks_sizes by (fastforce simp: ring_of_def length_concat)

lemma chunks_len: "chunks_ok s hp ns os zs \<Longrightarrow> length ns = length zs \<and> length os = length zs"
  using slist_len by (fastforce simp: chunks_ok_def)

lemma chunk_at:
  assumes "chunks_ok s hp ns os zs" "i < length zs"
  shows "\<exists>c. chunk_of s (Some (ns ! i)) = Some (os ! i, c) \<and> cb_chunks s (os ! i) = Some c \<and> unat (ck_size c) = zs ! i
    \<and> ck_data c = blocks s os ! i \<and> length (ck_data c) = zs ! i \<and> 0 < zs ! i"
proof -
  have l: "length ns = length zs" "length os = length zs" using chunks_len [OF assms(1)] by simp_all
  have sl: "slist (cb_nodes s) hp ns (map Some os)" and ob: "set os \<subseteq> objs (cb_lists s)" using assms(1) by (simp_all add: chunks_ok_def)
  obtain c where c: "cb_chunks s (os ! i) = Some c" "0 < zs ! i" "unat (ck_size c) = zs ! i" "length (ck_data c) = zs ! i"
    using assms l by (auto simp: chunks_ok_def)
  have n: "ns ! i \<in> dom (cb_nodes s)" using slist_dom [OF sl] nth_mem [of i ns] assms(2) l(1) by (simp add: subset_iff)
  have "map (obj_at (cb_nodes s)) ns ! i = map Some os ! i" using sl by (simp add: slist_def)
  then have "obj_at (cb_nodes s) (ns ! i) = Some (os ! i)" using assms(2) l by simp
  moreover have "os ! i \<in> objs (cb_lists s)" using ob nth_mem [of i os] assms(2) l by auto
  ultimately have "chunk_of s (Some (ns ! i)) = Some (os ! i, c)" using n c(1) by (simp add: chunk_of_def mem_simps)
  then show ?thesis using c assms(2) l by (simp add: blocks_def)
qed

lemma next_chunk:
  assumes "chunks_ok s hp ns os zs" "i < length zs" "cb_bufs s b = Some B" "head_chunk_ptr B = hp"
  shows "add_circ_buf_next_chunk_node s (Some b) (Some (ns ! i)) = Some (CIRCBUF_SUCCESS, Some (ns ! (Suc i mod length zs)))"
proof -
  have l: "length ns = length zs" using chunks_len [OF assms(1)] by simp
  have d: "dll (cb_nodes s) hp ns" using assms(1) by (simp add: chunks_ok_def slist_def)
  have n: "ns ! i \<in> dom (cb_nodes s)" using dll_dom [OF d] nth_mem [of i ns] assms(2) l by (simp add: subset_iff)
  have nx: "nxt (cb_nodes s) (ns ! i) = (if Suc i < length ns then Some (ns ! Suc i) else None)"
    using dseg_nth(1) [of "cb_nodes s" None ns None i] d assms(2) l by (simp add: dll_def)
  have hd: "hp = Some (ns ! 0)" using d assms(2) l by (cases ns) (auto simp: dll_def)
  show ?thesis
  proof (cases "Suc i < length zs")
    case True
    then show ?thesis using n nx l by (simp add: add_circ_buf_next_chunk_node_def mem_simps)
  next
    case False
    then have "Suc i mod length zs = 0" using assms(2) by (metis Suc_lessI mod_self)
    then show ?thesis using False n nx l hd assms(3,4) by (simp add: add_circ_buf_next_chunk_node_def mem_simps)
  qed
qed

subsection \<open>The loops over chunks\<close>

text \<open>The arithmetic of one step: either the chunk has room for all, or the step ends at the next chunk.\<close>

lemma step_inside:
  fixes off counter z :: u32
  assumes "unat z = zi" "unat off < zi" "counter < z - off"
  shows "unat (off + counter) = unat off + unat counter" "unat off + unat counter < zi"
proof -
  have le: "off \<le> z" using assms(1,2) by (simp add: word_le_nat_alt)
  have "unat counter < unat z - unat off" using assms(3) unat_sub [OF le] by (simp add: word_less_nat_alt)
  then show b: "unat off + unat counter < zi" using assms(1) by simp
  have "unat off + unat counter < 2 ^ 32" using b assms(1) unat_lt32 [of z] by simp
  then show "unat (off + counter) = unat off + unat counter" by (simp add: unat_word_ariths)
qed

lemma step_across:
  fixes off counter z :: u32
  assumes "unat z = zi" "unat off < zi" "\<not> counter < z - off"
  shows "unat (z - off) = zi - unat off" "unat (counter - (z - off)) = unat counter - (zi - unat off)" "zi - unat off \<le> unat counter"
proof -
  have "off \<le> z" using assms(1,2) by (simp add: word_le_nat_alt)
  then show u: "unat (z - off) = zi - unat off" using unat_sub assms(1) by metis
  have le: "z - off \<le> counter" using assms(3) by simp
  then show "unat (counter - (z - off)) = unat counter - (zi - unat off)" using unat_sub [OF le] u by simp
  show "zi - unat off \<le> unat counter" using le u by (simp add: word_le_nat_alt)
qed

lemma step_next:
  fixes off counter z :: u32
  assumes ok: "chunks_ok s hp ns os zs" and i: "i < length zs" and z: "unat z = zs ! i" "unat off < zs ! i" "\<not> counter < z - off"
  shows "Suc i mod length zs < length zs" "unat (0 :: u32) < zs ! (Suc i mod length zs)" "unat (counter - (z - off)) < unat counter"
    "zpos zs (Suc i mod length zs) 0 mod sum_list zs = (zpos zs i (unat off) + (zs ! i - unat off)) mod sum_list zs"
    "(zpos zs (Suc i mod length zs) 0 + unat (counter - (z - off))) mod sum_list zs = (zpos zs i (unat off) + unat counter) mod sum_list zs"
proof -
  note st = step_across [OF z]
  have p: "0 < length zs" using i by linarith
  then show i': "Suc i mod length zs < length zs" by simp
  then show "unat (0 :: u32) < zs ! (Suc i mod length zs)" using chunk_at [OF ok i'] by auto
  show "unat (counter - (z - off)) < unat counter" using st(2,3) z(2) by linarith
  have e: "zpos zs i (zs ! i) = zpos zs i (unat off) + (zs ! i - unat off)" using z(2) by (simp add: zpos_def)
  then show n: "zpos zs (Suc i mod length zs) 0 mod sum_list zs = (zpos zs i (unat off) + (zs ! i - unat off)) mod sum_list zs"
    using zpos_next [OF i p] by simp
  have "(zpos zs (Suc i mod length zs) 0 + unat (counter - (z - off))) mod sum_list zs
      = (zpos zs i (unat off) + (zs ! i - unat off) + unat (counter - (z - off))) mod sum_list zs"
    using n by (metis mod_add_left_eq)
  then show "(zpos zs (Suc i mod length zs) 0 + unat (counter - (z - off))) mod sum_list zs = (zpos zs i (unat off) + unat counter) mod sum_list zs"
    using st(2,3) by simp
qed

lemma pos_shift_loop_ok:
  assumes ok: "chunks_ok s hp ns os zs" and b: "cb_bufs s b = Some B" "head_chunk_ptr B = hp"
    and "i < length zs" "unat off < zs ! i"
  shows "\<exists>j off'. pos_shift_loop s (Some b) (Some (ns ! i)) off counter = Some (Some (ns ! j), off') \<and> j < length zs \<and> unat off' < zs ! j
    \<and> zpos zs j (unat off') mod sum_list zs = (zpos zs i (unat off) + unat counter) mod sum_list zs"
  using assms(4,5)
proof (induction "unat counter" arbitrary: i off counter rule: less_induct)
  case less
  obtain c where c: "chunk_of s (Some (ns ! i)) = Some (os ! i, c)" "unat (ck_size c) = zs ! i"
    using chunk_at [OF ok less.prems(1)] by blast
  consider (zero) "counter = 0" | (inside) "counter \<noteq> 0" "counter < ck_size c - off" | (across) "counter \<noteq> 0" "\<not> counter < ck_size c - off" by blast
  then show ?case
  proof cases
    case zero
    then show ?thesis using less.prems by (subst pos_shift_loop.simps) auto
  next
    case inside
    note st = step_inside [OF c(2) less.prems(2) inside(2)]
    have "pos_shift_loop s (Some b) (Some (ns ! i)) off counter = Some (Some (ns ! i), off + counter)"
      using inside c(1) by (subst pos_shift_loop.simps) (simp add: pos_shift_loop.simps)
    then show ?thesis using st less.prems(1) by (auto simp: zpos_add)
  next
    case across
    note st = step_next [OF ok less.prems(1) c(2) less.prems(2) across(2)]
    obtain j off' where r: "pos_shift_loop s (Some b) (Some (ns ! (Suc i mod length zs))) 0 (counter - (ck_size c - off)) = Some (Some (ns ! j), off')"
        "j < length zs" "unat off' < zs ! j"
        "zpos zs j (unat off') mod sum_list zs = (zpos zs (Suc i mod length zs) (unat (0 :: u32)) + unat (counter - (ck_size c - off))) mod sum_list zs"
      using less.hyps [OF st(3,1,2)] by blast
    have "pos_shift_loop s (Some b) (Some (ns ! i)) off counter = Some (Some (ns ! j), off')"
      using across c(1) next_chunk [OF ok less.prems(1) b] r(1) by (subst pos_shift_loop.simps) simp
    then show ?thesis using r(2-4) st(5) by (intro exI [of _ j] exI [of _ off']) simp
  qed
qed

lemma read_loop_ok:
  assumes ok: "chunks_ok s hp ns os zs" and b: "cb_bufs s b = Some B" "head_chunk_ptr B = hp"
    and "i < length zs" "unat off < zs ! i"
  shows "\<exists>j off'. read_loop s (Some b) (Some (ns ! i)) off counter out
      = Some (Some (ns ! j), off', out @ rget (ring_of s os) (zpos zs i (unat off)) (unat counter))
    \<and> j < length zs \<and> unat off' < zs ! j \<and> zpos zs j (unat off') mod sum_list zs = (zpos zs i (unat off) + unat counter) mod sum_list zs"
  using assms(4,5)
proof (induction "unat counter" arbitrary: i off counter out rule: less_induct)
  case less
  obtain c where c: "chunk_of s (Some (ns ! i)) = Some (os ! i, c)" "unat (ck_size c) = zs ! i" "ck_data c = blocks s os ! i" "length (ck_data c) = zs ! i"
    using chunk_at [OF ok less.prems(1)] by blast
  have li: "i < length (blocks s os)" using chunks_len [OF ok] less.prems(1) by (simp add: blocks_def)
  have rd: "mem_read (ck_data c) (unat off) n = Some (rget (ring_of s os) (zpos zs i (unat off)) n)" if "unat off + n \<le> zs ! i" for n
    using that c(3,4) block_read [OF li, of "unat off" n] blocks_sizes [OF ok] by (simp add: mem_read_def ring_of_def block_pos_zpos)
  consider (zero) "counter = 0" | (inside) "counter \<noteq> 0" "counter < ck_size c - off" | (across) "counter \<noteq> 0" "\<not> counter < ck_size c - off" by blast
  then show ?case
  proof cases
    case zero
    then show ?thesis using less.prems by (subst read_loop.simps) auto
  next
    case inside
    note st = step_inside [OF c(2) less.prems(2) inside(2)]
    have "read_loop s (Some b) (Some (ns ! i)) off counter out
        = Some (Some (ns ! i), off + counter, out @ rget (ring_of s os) (zpos zs i (unat off)) (unat counter))"
      using inside c(1) rd [of "unat counter"] st(2) by (subst read_loop.simps) (simp add: read_loop.simps)
    then show ?thesis using st less.prems(1) by (auto simp: zpos_add)
  next
    case across
    note st = step_next [OF ok less.prems(1) c(2) less.prems(2) across(2)] and st2 = step_across [OF c(2) less.prems(2) across(2)]
    let ?p = "zpos zs i (unat off)" and ?n = "zs ! i - unat off" and ?xs = "ring_of s os"
    have m: "min counter (ck_size c - off) = ck_size c - off" using across(2) by (simp add: min_def)
    obtain j off' where r: "read_loop s (Some b) (Some (ns ! (Suc i mod length zs))) 0 (counter - (ck_size c - off)) (out @ rget ?xs ?p ?n)
          = Some (Some (ns ! j), off', (out @ rget ?xs ?p ?n) @ rget ?xs (zpos zs (Suc i mod length zs) (unat (0 :: u32))) (unat (counter - (ck_size c - off))))"
        "j < length zs" "unat off' < zs ! j"
        "zpos zs j (unat off') mod sum_list zs = (zpos zs (Suc i mod length zs) (unat (0 :: u32)) + unat (counter - (ck_size c - off))) mod sum_list zs"
      using less.hyps [OF st(3,1,2), of "out @ rget ?xs ?p ?n"] by blast
    have "rget ?xs (zpos zs (Suc i mod length zs) 0) (unat (counter - (ck_size c - off))) = rget ?xs (?p + ?n) (unat counter - ?n)"
      using st(4) st2(2) length_ring [OF ok] by (metis rget_cong)
    moreover have "rget ?xs ?p (unat counter) = rget ?xs ?p ?n @ rget ?xs (?p + ?n) (unat counter - ?n)"
      using rget_add [of ?xs ?p ?n "unat counter - ?n"] st2(3) by simp
    moreover have "read_loop s (Some b) (Some (ns ! i)) off counter out
        = read_loop s (Some b) (Some (ns ! (Suc i mod length zs))) 0 (counter - (ck_size c - off)) (out @ rget ?xs ?p ?n)"
      using across c(1) next_chunk [OF ok less.prems(1) b] rd [of ?n] st2(1) less.prems(2) m by (subst read_loop.simps) simp
    ultimately show ?thesis using r st(5) by (intro exI [of _ j] exI [of _ off']) simp
  qed
qed

text \<open>Writing to a chunk.\<close>

lemma write_chunk_ok:
  assumes ok: "chunks_ok s hp ns os zs" and i: "i < length zs" "off + length bs \<le> zs ! i"
  shows "\<exists>s'. write_chunk s (os ! i) off bs = Some s' \<and> chunks_ok s' hp ns os zs \<and> ring_of s' os = rput (ring_of s os) (zpos zs i off) bs
    \<and> (\<exists>h. s' = s\<lparr>cb_chunks := h\<rparr>)"
proof -
  obtain c where c: "cb_chunks s (os ! i) = Some c" "ck_data c = blocks s os ! i" "length (ck_data c) = zs ! i" "unat (ck_size c) = zs ! i"
    using chunk_at [OF ok i(1)] by blast
  have l: "length os = length zs" "distinct os" using chunks_len [OF ok] ok by (simp_all add: chunks_ok_def)
  let ?d = "take off (ck_data c) @ bs @ drop (off + length bs) (ck_data c)"
  let ?s = "s\<lparr>cb_chunks := (cb_chunks s)(os ! i \<mapsto> c\<lparr>ck_data := ?d\<rparr>)\<rparr>"
  have w: "write_chunk s (os ! i) off bs = Some ?s" using c(1,3) i(2) by (simp add: write_chunk_def mem_write_def)
  have len: "length ?d = zs ! i" using c(3) i(2) by simp
  have u: "os ! j = os ! i \<longleftrightarrow> j = i" if "j < length os" for j using that i(1) l by (simp add: nth_eq_iff_index_eq)
  have "chunks_ok ?s hp ns os zs" using ok c(4) len u unfolding chunks_ok_def by auto
  moreover have bl: "blocks ?s os = (blocks s os)[i := ?d]"
    using i(1) l u by (intro nth_equalityI) (auto simp: blocks_def nth_list_update)
  have li: "i < length (blocks s os)" using i(1) l by (simp add: blocks_def)
  have "ring_of ?s os = rput (ring_of s os) (zpos zs i off) bs"
    using block_write [OF li, of off bs] c(2,3) i(2) bl blocks_sizes [OF ok] by (simp add: ring_of_def block_pos_zpos)
  ultimately show ?thesis using w by blast
qed

text \<open>The bytes of a source outside the ring.\<close>

definition src_bytes :: "copy_src \<Rightarrow> u8 \<Rightarrow> nat \<Rightarrow> u8 list \<Rightarrow> bool" where
  "src_bytes src v n bs \<longleftrightarrow> length bs = n \<and> (src = Src_bytes bs \<or> src = Src_null \<and> bs = replicate n v)"

lemma fetch_bytes:
  assumes "src_bytes src v n bs" "k + m \<le> n"
  shows "fetch s src v k m a off = Some (take m (drop k bs))"
proof (cases src)
  case Src_null
  then have "bs = replicate n v" using assms(1) by (simp add: src_bytes_def)
  then show ?thesis using Src_null assms(2) by (simp add: fetch_def)
qed (use assms in \<open>simp_all add: src_bytes_def fetch_def mem_read_def\<close>)

lemma copy_loop_ok:
  assumes "chunks_ok s hp ns os zs" "cb_bufs s b = Some B" "head_chunk_ptr B = hp" "i < length zs" "unat off < zs ! i"
    and src: "src_bytes src v (unat tot) bs" and "counter \<le> tot"
  shows "\<exists>j off' s' h. copy_loop s (Some b) tot src v (Some (ns ! i)) off counter = Some (Some (ns ! j), off', s')
    \<and> j < length zs \<and> unat off' < zs ! j \<and> zpos zs j (unat off') mod sum_list zs = (zpos zs i (unat off) + unat counter) mod sum_list zs
    \<and> chunks_ok s' hp ns os zs \<and> s' = s\<lparr>cb_chunks := h\<rparr>
    \<and> ring_of s' os = rput (ring_of s os) (zpos zs i (unat off)) (drop (unat tot - unat counter) bs)"
  using assms(1-5,7)
proof (induction "unat counter" arbitrary: i off counter s rule: less_induct)
  case less
  note ok = less.prems(1)
  obtain c where c: "chunk_of s (Some (ns ! i)) = Some (os ! i, c)" "unat (ck_size c) = zs ! i"
    using chunk_at [OF ok less.prems(4)] by blast
  let ?p = "zpos zs i (unat off)" and ?k = "unat tot - unat counter" and ?xs = "ring_of s os"
  have k: "unat (tot - counter) = ?k" "?k + unat counter = unat tot" using unat_sub [OF less.prems(6)] less.prems(6) by (simp_all add: word_le_nat_alt)
  have bs: "length bs = unat tot" using src by (simp add: src_bytes_def)
  consider (zero) "counter = 0" | (inside) "counter \<noteq> 0" "counter < ck_size c - off" | (across) "counter \<noteq> 0" "\<not> counter < ck_size c - off" by blast
  then show ?case
  proof cases
    case zero
    then show ?thesis using less.prems bs by (subst copy_loop.simps) (auto intro!: exI [of _ i] exI [of _ "cb_chunks s"])
  next
    case inside
    note st = step_inside [OF c(2) less.prems(5) inside(2)]
    have f: "fetch s src v ?k (unat counter) (os ! i) (unat off) = Some (drop ?k bs)"
      using fetch_bytes [OF src, of ?k "unat counter"] k(2) bs by simp
    have "unat off + length (drop ?k bs) \<le> zs ! i" using st(2) bs k(2) by simp
    then obtain s' h where w: "write_chunk s (os ! i) (unat off) (drop ?k bs) = Some s'" "chunks_ok s' hp ns os zs"
        "ring_of s' os = rput ?xs ?p (drop ?k bs)" "s' = s\<lparr>cb_chunks := h\<rparr>"
      using write_chunk_ok [OF ok less.prems(4)] by blast
    have "copy_loop s (Some b) tot src v (Some (ns ! i)) off counter = Some (Some (ns ! i), off + counter, s')"
      using inside c(1) f w(1) k(1) by (subst copy_loop.simps) (simp add: copy_loop.simps Let_def)
    then show ?thesis using st less.prems(4) w(2-4) by (intro exI [of _ i] exI [of _ "off + counter"] exI [of _ s'] exI [of _ h]) (simp add: zpos_add)
  next
    case across
    note st = step_next [OF ok less.prems(4) c(2) less.prems(5) across(2)] and st2 = step_across [OF c(2) less.prems(5) across(2)]
    let ?n = "zs ! i - unat off" and ?counter = "counter - (ck_size c - off)" and ?i = "Suc i mod length zs"
    let ?as = "take ?n (drop ?k bs)"
    have f: "fetch s src v ?k ?n (os ! i) (unat off) = Some ?as"
      using fetch_bytes [OF src, of ?k ?n] k(2) st2(3) by simp
    have las: "length ?as = ?n" using bs k(2) st2(3) by simp
    have "unat off + length ?as \<le> zs ! i" using las less.prems(5) by simp
    then obtain s1 h1 where w: "write_chunk s (os ! i) (unat off) ?as = Some s1" "chunks_ok s1 hp ns os zs"
        "ring_of s1 os = rput ?xs ?p ?as" "s1 = s\<lparr>cb_chunks := h1\<rparr>"
      using write_chunk_ok [OF ok less.prems(4)] by blast
    have b1: "cb_bufs s1 b = Some B" using w(4) less.prems(2) by simp
    have ct: "?counter \<le> tot" using st(3) less.prems(6) by (simp add: word_le_nat_alt)
    obtain j off' s' h where r: "copy_loop s1 (Some b) tot src v (Some (ns ! ?i)) 0 ?counter = Some (Some (ns ! j), off', s')"
        "j < length zs" "unat off' < zs ! j" "zpos zs j (unat off') mod sum_list zs = (zpos zs ?i (unat (0 :: u32)) + unat ?counter) mod sum_list zs"
        "chunks_ok s' hp ns os zs" "s' = s1\<lparr>cb_chunks := h\<rparr>"
        "ring_of s' os = rput (ring_of s1 os) (zpos zs ?i (unat (0 :: u32))) (drop (unat tot - unat ?counter) bs)"
      using less.hyps [OF st(3) w(2) b1 less.prems(3) st(1,2) ct] by blast
    have "copy_loop s (Some b) tot src v (Some (ns ! i)) off counter = copy_loop s1 (Some b) tot src v (Some (ns ! ?i)) 0 ?counter"
      using across c(1) f w(1) k(1) st2(1) next_chunk [OF w(2) less.prems(4) b1 less.prems(3)] by (subst copy_loop.simps) (simp add: Let_def)
    moreover have "ring_of s' os = rput ?xs ?p (drop ?k bs)"
    proof -
      have d: "drop (unat tot - unat ?counter) bs = drop ?n (drop ?k bs)" using st2(2,3) k(2) by (simp add: add.commute)
      have "ring_of s' os = rput (rput ?xs ?p ?as) (zpos zs ?i 0 mod sum_list zs) (drop ?n (drop ?k bs))"
        using r(7) w(3) d rput_mod [of "rput ?xs ?p ?as" "zpos zs ?i 0"] length_ring [OF ok] by simp
      also have "\<dots> = rput (rput ?xs ?p ?as) (?p + ?n) (drop ?n (drop ?k bs))"
        using st(4) rput_mod [of "rput ?xs ?p ?as" "?p + ?n"] length_ring [OF ok] by simp
      also have "\<dots> = rput ?xs ?p (?as @ drop ?n (drop ?k bs))" using las by (simp only: rput_append)
      finally show ?thesis by (simp only: append_take_drop_id)
    qed
    ultimately show ?thesis using r(1-6) st(5) w(4) by (intro exI [of _ j] exI [of _ off'] exI [of _ s'] exI [of _ h]) simp
  qed
qed

subsection \<open>Loops over clients\<close>

lemma for_clients_dseg:
  assumes "dseg (cb_nodes s) pr (drop k cns) None" "map (obj_at (cb_nodes s)) cns = map Some cls" "k \<le> length cls" "P k v s"
    and step: "\<And>k v t. k < length cls \<Longrightarrow> cb_nodes t = cb_nodes s \<Longrightarrow> P k v t \<Longrightarrow>
      \<exists>v' t'. body (Some (cls ! k)) v t = Some (Inr v', t') \<and> cb_nodes t' = cb_nodes s \<and> P (Suc k) v' t'"
  shows "\<exists>v' s'. for_clients body (begp (drop k cns) None) v s = Some (Inr v', s') \<and> cb_nodes s' = cb_nodes s \<and> P (length cls) v' s'"
proof -
  have len: "length cns = length cls" using assms(2) by (metis length_map)
  have "\<exists>v' s'. for_clients body (begp (drop k cns) None) v t = Some (Inr v', s') \<and> cb_nodes s' = cb_nodes s \<and> P (length cls) v' s'"
    if "dseg (cb_nodes s) pr (drop k cns) None" "k \<le> length cls" "P k v t" "cb_nodes t = cb_nodes s" for k pr v t
    using that
  proof (induction "length cls - k" arbitrary: k pr v t)
    case 0
    then show ?case using len by (subst for_clients.simps) auto
  next
    case (Suc m)
    then have k: "k < length cls" by simp
    then have dr: "drop k cns = cns ! k # drop (Suc k) cns" using len by (simp add: Cons_nth_drop_Suc)
    have n: "cns ! k \<in> dom (cb_nodes s)" "nxt (cb_nodes s) (cns ! k) = begp (drop (Suc k) cns) None" "dseg (cb_nodes s) (Some (cns ! k)) (drop (Suc k) cns) None"
      using Suc.prems(1) unfolding dr by simp_all
    have "map (obj_at (cb_nodes s)) cns ! k = map Some cls ! k" using assms(2) by simp
    then have ob: "obj_at (cb_nodes s) (cns ! k) = Some (cls ! k)" using k len by simp
    obtain v' t' where b: "body (Some (cls ! k)) v t = Some (Inr v', t')" "cb_nodes t' = cb_nodes s" "P (Suc k) v' t'"
      using step [OF k Suc.prems(4,3)] by blast
    have "for_clients body (begp (drop k cns) None) v t = for_clients body (begp (drop (Suc k) cns) None) v' t'"
      unfolding dr using n ob b Suc.prems(4) by (subst for_clients.simps) (simp add: mem_simps)
    then show ?case using Suc.hyps(1) [of "Suc k"] Suc.hyps(2) k n(3) b by simp
  qed
  then show ?thesis using assms(1,3,4) by blast
qed

lemma for_clients_ok:
  assumes l: "slist (cb_nodes s) p cns (map Some cls)" and "P 0 v s"
    and step: "\<And>k v t. k < length cls \<Longrightarrow> cb_nodes t = cb_nodes s \<Longrightarrow> P k v t \<Longrightarrow>
      \<exists>v' t'. body (Some (cls ! k)) v t = Some (Inr v', t') \<and> cb_nodes t' = cb_nodes s \<and> P (Suc k) v' t'"
  shows "\<exists>v' s'. for_clients body p v s = Some (Inr v', s') \<and> cb_nodes s' = cb_nodes s \<and> P (length cls) v' s'"
proof -
  have "p = begp cns None" "dseg (cb_nodes s) None (drop 0 cns) None" "map (obj_at (cb_nodes s)) cns = map Some cls"
    using l by (simp_all add: slist_def dll_def)
  then show ?thesis using for_clients_dseg [of s None 0 cns cls P v body] assms(2) step by simp
qed

lemma for_each_ok:
  assumes l: "slist (cb_nodes s) p cns (map Some cls)" and "P 0 s"
    and step: "\<And>k t. k < length cls \<Longrightarrow> cb_nodes t = cb_nodes s \<Longrightarrow> P k t \<Longrightarrow>
      \<exists>t'. body (Some (cls ! k)) t = Some t' \<and> cb_nodes t' = cb_nodes s \<and> P (Suc k) t'"
  shows "\<exists>s'. for_each_client body p s = Some s' \<and> cb_nodes s' = cb_nodes s \<and> P (length cls) s'"
proof -
  have "\<exists>v' s'. for_clients (\<lambda>c (_ :: unit) s. do { s \<leftarrow> body c s; Some (Inr () :: unit + unit, s) }) p () s = Some (Inr v', s')
      \<and> cb_nodes s' = cb_nodes s \<and> P (length cls) s'"
    by (rule for_clients_ok [OF l, of "\<lambda>k _. P k"]) (use assms(2) step in fastforce)+
  then show ?thesis by (auto simp: for_each_client_def)
qed

subsection \<open>Clients\<close>

text \<open>The position of a client as a number, and the bytes a reader has not read yet.\<close>

definition pos_of :: "addr list \<Rightarrow> nat list \<Rightarrow> circ_buf_client \<Rightarrow> nat" where
  "pos_of ns zs c = zpos zs (length (takeWhile (\<lambda>n. rw_chunk_node_ptr c \<noteq> Some n) ns)) (unat (rw_chunk_offset c))"

definition placed :: "addr list \<Rightarrow> nat list \<Rightarrow> circ_buf_client \<Rightarrow> bool" where
  "placed ns zs c \<longleftrightarrow> at_pos ns zs (rw_chunk_node_ptr c) (rw_chunk_offset c) (pos_of ns zs c)"

definition rd_queue :: "circ_state \<Rightarrow> addr list \<Rightarrow> addr list \<Rightarrow> nat list \<Rightarrow> addr \<Rightarrow> u8 list" where
  "rd_queue s ns os zs cl = (case cb_clients s cl of None \<Rightarrow> []
     | Some c \<Rightarrow> rget (ring_of s os) (pos_of ns zs c) (unat (unread_bytes c)))"

definition reader_ok :: "addr list \<Rightarrow> nat list \<Rightarrow> addr \<Rightarrow> nat \<Rightarrow> circ_buf_client \<Rightarrow> bool" where [inv_defs]:
  "reader_ok ns zs b w c \<longleftrightarrow> is_read_client c \<and> circ_buf_ptr c = Some b \<and> placed ns zs c
     \<and> unat (unread_bytes c) \<le> sum_list zs \<and> (pos_of ns zs c + unat (unread_bytes c)) mod sum_list zs = w mod sum_list zs"

lemma at_pos_unique:
  assumes "distinct ns" "at_pos ns zs (rw_chunk_node_ptr c) (rw_chunk_offset c) p"
  shows "pos_of ns zs c = p" "placed ns zs c"
proof -
  obtain i where i: "i < length ns" "rw_chunk_node_ptr c = Some (ns ! i)" "p = zpos zs i (unat (rw_chunk_offset c))"
    using assms(2) unfolding at_pos_def by blast
  have "\<forall>j < i. ns ! j \<noteq> ns ! i" using assms(1) i(1) by (auto simp: nth_eq_iff_index_eq)
  then have "takeWhile (\<lambda>n. rw_chunk_node_ptr c \<noteq> Some n) ns = take i ns"
    using i(1,2) by (intro takeWhile_eq_take_P_nth) auto
  then show "pos_of ns zs c = p" using i by (simp add: pos_of_def)
  then show "placed ns zs c" using assms(2) by (simp add: placed_def)
qed

lemma pos_less:
  assumes "placed ns zs c" "length ns = length zs"
  shows "pos_of ns zs c < sum_list zs"
  using assms zpos_less [of _ zs "unat (rw_chunk_offset c)"] by (auto simp: placed_def at_pos_def)

lemma queue_behind:
  assumes "reader_ok ns zs b w c" "length xs = sum_list zs"
  shows "rget xs (pos_of ns zs c) (unat (unread_bytes c)) = rbehind xs w (unat (unread_bytes c))"
proof -
  let ?r = "pos_of ns zs c" and ?u = "unat (unread_bytes c)" and ?N = "sum_list zs"
  have u: "?u \<le> ?N" "(?r + ?u) mod ?N = w mod ?N" using assms(1) by (simp_all add: reader_ok_def)
  have "(?r + ?u + (?N - ?u)) mod ?N = (w + (?N - ?u)) mod ?N" using u(2) by (metis mod_add_left_eq)
  then have "?r mod ?N = (w + ?N - ?u) mod ?N" using u(1) by simp
  then show ?thesis unfolding rbehind_def assms(2) using assms(2) by (intro rget_cong) simp
qed

subsection \<open>Buffers\<close>

text \<open>
  The buffer at \<open>b\<close> has the chunk nodes \<open>ns\<close> with the chunks \<open>os\<close> of sizes \<open>zs\<close>, the readers \<open>rds\<close> and
  the writer \<open>wcl\<close>: every client has a position in the ring, and the writer is ahead of
  every reader by the number of bytes the reader has not read.
\<close>

definition buf_parts :: "circ_state \<Rightarrow> addr \<Rightarrow> addr list \<Rightarrow> addr list \<Rightarrow> nat list \<Rightarrow> addr list \<Rightarrow> addr \<Rightarrow> circ_buf \<Rightarrow> circ_buf_client \<Rightarrow> bool" where
  "buf_parts s b ns os zs rds wcl B w \<longleftrightarrow> cb_bufs s b = Some B \<and> chunks_ok s (head_chunk_ptr B) ns os zs
     \<and> unat (circ_buf_size B) = sum_list zs \<and> 0 < sum_list zs \<and> unat (write_byte_counter B) \<le> sum_list zs
     \<and> wr_client_ptr B = Some wcl \<and> cb_clients s wcl = Some w \<and> circ_buf_ptr w = Some b \<and> placed ns zs w
     \<and> (\<exists>cns. slist (cb_nodes s) (rd_client_list_ptr B) cns (map Some rds) \<and> set ns \<inter> set cns = {}) \<and> distinct rds \<and> wcl \<notin> set rds
     \<and> (\<forall>cl \<in> set rds. \<exists>c. cb_clients s cl = Some c \<and> reader_ok ns zs b (pos_of ns zs w) c)"

definition buf_inv :: "circ_state \<Rightarrow> addr \<Rightarrow> addr list \<Rightarrow> addr list \<Rightarrow> nat list \<Rightarrow> addr list \<Rightarrow> addr \<Rightarrow> bool" where
  "buf_inv s b ns os zs rds wcl \<longleftrightarrow> (\<exists>B w. buf_parts s b ns os zs rds wcl B w)"

lemma chunks_distinct: "chunks_ok s hp ns os zs \<Longrightarrow> distinct ns"
  by (simp add: chunks_ok_def slist_def dll_def)

lemma buf_partsD:
  assumes "buf_parts s b ns os zs rds wcl B w"
  shows "cb_bufs s b = Some B" "chunks_ok s (head_chunk_ptr B) ns os zs" "unat (circ_buf_size B) = sum_list zs" "0 < sum_list zs"
    "wr_client_ptr B = Some wcl" "cb_clients s wcl = Some w" "circ_buf_ptr w = Some b" "placed ns zs w" "distinct rds" "wcl \<notin> set rds"
    "unat (write_byte_counter B) \<le> sum_list zs"
  using assms by (simp_all add: buf_parts_def)

lemma buf_parts_chunks:
  assumes "buf_parts s b ns os zs rds wcl B w"
  shows "distinct ns" "length ns = length zs" "length os = length zs" "length (ring_of s os) = sum_list zs"
  using buf_partsD(2) [OF assms] chunks_distinct chunks_len length_ring by blast+

lemma buf_parts_readers:
  assumes "buf_parts s b ns os zs rds wcl B w"
  shows "\<exists>cns. slist (cb_nodes s) (rd_client_list_ptr B) cns (map Some rds) \<and> set ns \<inter> set cns = {}"
  using assms by (simp add: buf_parts_def)

lemma buf_parts_reader:
  assumes "buf_parts s b ns os zs rds wcl B w" "cl \<in> set rds"
  shows "\<exists>c. cb_clients s cl = Some c \<and> reader_ok ns zs b (pos_of ns zs w) c"
  using assms by (simp add: buf_parts_def)

lemma shift_client_ok:
  assumes ok: "chunks_ok s (head_chunk_ptr B) ns os zs" "cb_bufs s b = Some B" "unat (circ_buf_size B) = sum_list zs"
    and c: "cb_clients s cl = Some c" "placed ns zs c" and n: "unat n \<le> sum_list zs"
  shows "\<exists>c'. shift_client s (Some b) (Some cl) n = Some (CIRCBUF_SUCCESS, s\<lparr>cb_clients := (cb_clients s)(cl \<mapsto> c')\<rparr>)
    \<and> (\<exists>node off. c' = c\<lparr>rw_chunk_node_ptr := node, rw_chunk_offset := off\<rparr>) \<and> placed ns zs c'
    \<and> pos_of ns zs c' = (pos_of ns zs c + unat n) mod sum_list zs"
proof -
  have dn: "distinct ns" "length ns = length zs" using ok(1) chunks_len [OF ok(1)] by (simp_all add: chunks_ok_def slist_def dll_def)
  have p: "pos_of ns zs c < sum_list zs" using pos_less [OF c(2) dn(2)] .
  have nle: "\<not> circ_buf_size B < n" using n ok(3) by (simp add: word_less_nat_alt)
  show ?thesis
  proof (cases "n = circ_buf_size B \<or> n = 0")
    case True
    then have "add_circ_buf_position_shift_forward s (Some b) (rw_chunk_node_ptr c) (rw_chunk_offset c) n
        = Some (CIRCBUF_SUCCESS, rw_chunk_node_ptr c, rw_chunk_offset c)"
      using ok(2) nle by (auto simp: add_circ_buf_position_shift_forward_def)
    then have "shift_client s (Some b) (Some cl) n = Some (CIRCBUF_SUCCESS, s\<lparr>cb_clients := (cb_clients s)(cl \<mapsto> c)\<rparr>)"
      using c(1) by (simp add: shift_client_def upd_client_def modify_Some)
    moreover have "(pos_of ns zs c + unat n) mod sum_list zs = pos_of ns zs c" using True ok(3) p by auto
    moreover have "\<exists>node off. c = c\<lparr>rw_chunk_node_ptr := node, rw_chunk_offset := off\<rparr>"
      by (intro exI [of _ "rw_chunk_node_ptr c"] exI [of _ "rw_chunk_offset c"]) simp
    ultimately show ?thesis using c(2) by (intro exI [of _ c]) simp
  next
    case False
    obtain i where i: "i < length zs" "rw_chunk_node_ptr c = Some (ns ! i)" "unat (rw_chunk_offset c) < zs ! i"
        "pos_of ns zs c = zpos zs i (unat (rw_chunk_offset c))"
      using c(2) dn(2) unfolding placed_def at_pos_def by auto
    obtain j off' where r: "pos_shift_loop s (Some b) (Some (ns ! i)) (rw_chunk_offset c) n = Some (Some (ns ! j), off')" "j < length zs"
        "unat off' < zs ! j" "zpos zs j (unat off') mod sum_list zs = (zpos zs i (unat (rw_chunk_offset c)) + unat n) mod sum_list zs"
      using pos_shift_loop_ok [OF ok(1,2) refl i(1,3), of n] by blast
    let ?c = "c\<lparr>rw_chunk_node_ptr := Some (ns ! j), rw_chunk_offset := off'\<rparr>"
    have "at_pos ns zs (rw_chunk_node_ptr ?c) (rw_chunk_offset ?c) (zpos zs j (unat off'))" using r(2,3) dn(2) by (auto simp: at_pos_def)
    note u = at_pos_unique [OF dn(1) this]
    have "shift_client s (Some b) (Some cl) n = Some (CIRCBUF_SUCCESS, s\<lparr>cb_clients := (cb_clients s)(cl \<mapsto> ?c)\<rparr>)"
      using c(1) i(2) r(1) ok(2) nle False by (simp add: shift_client_def upd_client_def modify_Some add_circ_buf_position_shift_forward_def)
    moreover have "pos_of ns zs ?c = (pos_of ns zs c + unat n) mod sum_list zs" using u(1) r(4) i(4) zpos_less [OF r(2,3)] by simp
    ultimately show ?thesis using u(2) by blast
  qed
qed

lemma pos_unread: "pos_of ns zs (unread_bytes_update f c) = pos_of ns zs c" "placed ns zs (unread_bytes_update f c) = placed ns zs c"
  by (simp_all add: pos_of_def placed_def at_pos_def)

text \<open>Skipping unread bytes.\<close>

lemma read_advance_ok:
  assumes P: "buf_parts s b ns os zs rds wcl B w" and c: "cb_clients s cl = Some c" "reader_ok ns zs b (pos_of ns zs w) c"
    and n: "n \<le> unread_bytes c"
  shows "\<exists>c'. add_circ_buf_read_advance s (Some cl) n = Some (CIRCBUF_SUCCESS, s\<lparr>cb_clients := (cb_clients s)(cl \<mapsto> c')\<rparr>)
    \<and> reader_ok ns zs b (pos_of ns zs w) c' \<and> unread_bytes c' = unread_bytes c - n
    \<and> (\<exists>node off u. c' = c\<lparr>rw_chunk_node_ptr := node, rw_chunk_offset := off, unread_bytes := u\<rparr>)"
proof -
  note D = buf_partsD [OF P]
  have R: "is_read_client c" "circ_buf_ptr c = Some b" "placed ns zs c" "unat (unread_bytes c) \<le> sum_list zs"
      "(pos_of ns zs c + unat (unread_bytes c)) mod sum_list zs = pos_of ns zs w mod sum_list zs"
    using c(2) by (simp_all add: reader_ok_def)
  have le: "unat n \<le> unat (unread_bytes c)" using n by (simp add: word_le_nat_alt)
  then have "unat n \<le> sum_list zs" using R(4) by simp
  from shift_client_ok [OF D(2,1,3) c(1) R(3) this] obtain c1 node off where c1:
      "shift_client s (Some b) (Some cl) n = Some (CIRCBUF_SUCCESS, s\<lparr>cb_clients := (cb_clients s)(cl \<mapsto> c1)\<rparr>)"
      "c1 = c\<lparr>rw_chunk_node_ptr := node, rw_chunk_offset := off\<rparr>" "placed ns zs c1" "pos_of ns zs c1 = (pos_of ns zs c + unat n) mod sum_list zs"
    by blast
  let ?c = "unread_bytes_update (\<lambda>u. u - n) c1"
  have u: "unat (unread_bytes ?c) = unat (unread_bytes c) - unat n" using unat_sub [OF n] c1(2) by simp
  have np: "rw_chunk_node_ptr c \<noteq> None" using R(3) by (auto simp: placed_def at_pos_def)
  have nl: "\<not> unread_bytes c < n" using n by simp
  have "add_circ_buf_read_advance s (Some cl) n = Some (CIRCBUF_SUCCESS, s\<lparr>cb_clients := (cb_clients s)(cl \<mapsto> ?c)\<rparr>)"
    using c(1) np nl R(2) c1(1) by (simp add: add_circ_buf_read_advance_def upd_client_def modify_Some)
  moreover have "(pos_of ns zs ?c + unat (unread_bytes ?c)) mod sum_list zs = pos_of ns zs w mod sum_list zs"
  proof -
    have "(pos_of ns zs ?c + unat (unread_bytes ?c)) mod sum_list zs = (pos_of ns zs c + unat n + (unat (unread_bytes c) - unat n)) mod sum_list zs"
      unfolding pos_unread c1(4) u by (rule mod_add_left_eq)
    then show ?thesis using le R(5) by simp
  qed
  moreover have "unread_bytes ?c = unread_bytes c - n" using c1(2) by simp
  moreover have "?c = c\<lparr>rw_chunk_node_ptr := node, rw_chunk_offset := off, unread_bytes := unread_bytes c - n\<rparr>" using c1(2) by simp
  moreover have "is_read_client ?c" "circ_buf_ptr ?c = Some b" "placed ns zs ?c" "unat (unread_bytes ?c) \<le> sum_list zs"
    using R(1,2,4) c1(2,3) u by (simp_all add: pos_unread)
  ultimately show ?thesis unfolding reader_ok_def by blast
qed


text \<open>A reader that changes in step with the invariant.\<close>

definition unread_of :: "circ_state \<Rightarrow> addr \<Rightarrow> nat" where
  "unread_of s cl = (case cb_clients s cl of None \<Rightarrow> 0 | Some c \<Rightarrow> unat (unread_bytes c))"

lemma chunks_ok_cong:
  "cb_lists t = cb_lists s \<Longrightarrow> cb_chunks t = cb_chunks s \<Longrightarrow> chunks_ok t hp ns os zs = chunks_ok s hp ns os zs"
  "cb_chunks t = cb_chunks s \<Longrightarrow> ring_of t os = ring_of s os"
  by (simp_all add: chunks_ok_def ring_of_def blocks_def)

lemma rd_queue_cong: "cb_chunks t = cb_chunks s \<Longrightarrow> cb_clients t cl = cb_clients s cl \<Longrightarrow> rd_queue t ns os zs cl = rd_queue s ns os zs cl"
  by (simp add: rd_queue_def ring_of_def blocks_def split: option.split)

lemma buf_parts_client:
  assumes P: "buf_parts s b ns os zs rds wcl B w" and c: "cl \<in> set rds" "reader_ok ns zs b (pos_of ns zs w) c"
  shows "buf_parts (s\<lparr>cb_clients := (cb_clients s)(cl \<mapsto> c)\<rparr>) b ns os zs rds wcl B w"
proof -
  have "wcl \<noteq> cl" using buf_partsD(10) [OF P] c(1) by auto
  moreover have "chunks_ok (s\<lparr>cb_clients := (cb_clients s)(cl \<mapsto> c)\<rparr>) (head_chunk_ptr B) ns os zs"
    using buf_partsD(2) [OF P] by (simp add: chunks_ok_cong(1) [of "s\<lparr>cb_clients := (cb_clients s)(cl \<mapsto> c)\<rparr>" s])
  ultimately show ?thesis using buf_partsD [OF P] buf_parts_readers [OF P] buf_parts_reader [OF P] c(2) unfolding buf_parts_def by simp
qed

lemma queue_behind_writer:
  assumes P: "buf_parts s b ns os zs rds wcl B w" and "cl \<in> set rds"
  shows "rd_queue s ns os zs cl = rbehind (ring_of s os) (pos_of ns zs w) (unread_of s cl)" "unread_of s cl \<le> sum_list zs"
    "length (rd_queue s ns os zs cl) = unread_of s cl"
proof -
  obtain c where c: "cb_clients s cl = Some c" "reader_ok ns zs b (pos_of ns zs w) c" using buf_parts_reader [OF assms] by blast
  show "rd_queue s ns os zs cl = rbehind (ring_of s os) (pos_of ns zs w) (unread_of s cl)"
    using queue_behind [OF c(2) buf_parts_chunks(4) [OF P]] c(1) by (simp add: rd_queue_def unread_of_def)
  show "unread_of s cl \<le> sum_list zs" using c by (simp add: unread_of_def reader_ok_def)
  show "length (rd_queue s ns os zs cl) = unread_of s cl" using c by (simp add: rd_queue_def unread_of_def)
qed

subsection \<open>Overflow\<close>

definition overflow_at :: "circ_state \<Rightarrow> addr \<Rightarrow> addr list \<Rightarrow> addr list \<Rightarrow> nat list \<Rightarrow> addr list \<Rightarrow> addr \<Rightarrow> circ_buf \<Rightarrow> circ_buf_client
    \<Rightarrow> nat \<Rightarrow> nat \<Rightarrow> circbuf_result \<Rightarrow> circ_state \<Rightarrow> bool" where
  "overflow_at s b ns os zs rds wcl B w n k rc t \<longleftrightarrow> buf_parts t b ns os zs rds wcl B w \<and> (\<exists>cs. t = s\<lparr>cb_clients := cs\<rparr>)
     \<and> (\<forall>j < length rds. unread_of t (rds ! j) = (if j < k then min (unread_of s (rds ! j)) (sum_list zs - n) else unread_of s (rds ! j)))
     \<and> rc = (if \<exists>j < k. sum_list zs < unread_of s (rds ! j) + n then CIRCBUF_OVERRUN else CIRCBUF_SUCCESS)"

lemma overflow_step:
  assumes I: "overflow_at s b ns os zs rds wcl B w (unat n) k rc t" and k: "k < length rds" and n: "unat n \<le> sum_list zs"
    and c: "cb_clients t (rds ! k) = Some c"
  shows "\<exists>rc' t'. (if circ_buf_size B - unread_bytes c < n
      then do { (_, t) \<leftarrow> add_circ_buf_read_advance t (Some (rds ! k)) (n - (circ_buf_size B - unread_bytes c)); Some (CIRCBUF_OVERRUN, t) }
      else Some (rc, t)) = Some (rc', t') \<and> overflow_at s b ns os zs rds wcl B w (unat n) (Suc k) rc' t' \<and> cb_lists t' = cb_lists t"
proof -
  have P: "buf_parts t b ns os zs rds wcl B w" and cs: "\<exists>cs. t = s\<lparr>cb_clients := cs\<rparr>"
    and U: "\<forall>j < length rds. unread_of t (rds ! j) = (if j < k then min (unread_of s (rds ! j)) (sum_list zs - unat n) else unread_of s (rds ! j))"
    and rc: "rc = (if \<exists>j < k. sum_list zs < unread_of s (rds ! j) + unat n then CIRCBUF_OVERRUN else CIRCBUF_SUCCESS)"
    using I by (simp_all add: overflow_at_def)
  have kin: "rds ! k \<in> set rds" using k by simp
  have R: "reader_ok ns zs b (pos_of ns zs w) c" using buf_parts_reader [OF P kin] c by simp
  have u: "unat (unread_bytes c) = unread_of s (rds ! k)" using U [rule_format, OF k] c by (simp add: unread_of_def [of t])
  have sz: "unat (circ_buf_size B) = sum_list zs" using buf_partsD(3) [OF P] .
  have ule: "unread_bytes c \<le> circ_buf_size B" using R sz by (simp add: reader_ok_def word_le_nat_alt)
  have fr: "unat (circ_buf_size B - unread_bytes c) = sum_list zs - unread_of s (rds ! k)" using unat_sub [OF ule] sz u by simp
  have us: "unread_of s (rds ! k) \<le> sum_list zs" using ule sz u by (simp add: word_le_nat_alt)
  show ?thesis
  proof (cases "circ_buf_size B - unread_bytes c < n")
    case True
    then have lt: "sum_list zs < unread_of s (rds ! k) + unat n" using fr us by (simp add: word_less_nat_alt)
    have nf: "unat (n - (circ_buf_size B - unread_bytes c)) = unat n - (sum_list zs - unread_of s (rds ! k))"
      using unat_sub [of "circ_buf_size B - unread_bytes c" n] True fr by simp
    have le: "n - (circ_buf_size B - unread_bytes c) \<le> unread_bytes c" using nf u n us by (simp add: word_le_nat_alt)
    from read_advance_ok [OF P c R this] obtain c' where c': "add_circ_buf_read_advance t (Some (rds ! k)) (n - (circ_buf_size B - unread_bytes c))
          = Some (CIRCBUF_SUCCESS, t\<lparr>cb_clients := (cb_clients t)(rds ! k \<mapsto> c')\<rparr>)" "reader_ok ns zs b (pos_of ns zs w) c'"
        "unread_bytes c' = unread_bytes c - (n - (circ_buf_size B - unread_bytes c))" by blast
    let ?t = "t\<lparr>cb_clients := (cb_clients t)(rds ! k \<mapsto> c')\<rparr>"
    have u': "unat (unread_bytes c') = sum_list zs - unat n" using c'(3) unat_sub [OF le] nf u us n lt by simp
    have dist: "rds ! j = rds ! k \<longleftrightarrow> j = k" if "j < length rds" for j
      using that k buf_partsD(9) [OF P] by (simp add: nth_eq_iff_index_eq)
    have "unread_of ?t (rds ! j) = (if j < Suc k then min (unread_of s (rds ! j)) (sum_list zs - unat n) else unread_of s (rds ! j))" if "j < length rds" for j
      using U [rule_format, OF that] dist [OF that] u' lt by (auto simp: unread_of_def [of t] unread_of_def [of ?t] less_Suc_eq)
    moreover have "\<exists>j < Suc k. sum_list zs < unread_of s (rds ! j) + unat n" using lt by blast
    ultimately have "overflow_at s b ns os zs rds wcl B w (unat n) (Suc k) CIRCBUF_OVERRUN ?t"
      using buf_parts_client [OF P kin c'(2)] cs unfolding overflow_at_def by auto
    then show ?thesis using True c'(1) by simp
  next
    case False
    then have ge: "unread_of s (rds ! k) + unat n \<le> sum_list zs" using fr us by (simp add: word_less_nat_alt not_less)
    then have "overflow_at s b ns os zs rds wcl B w (unat n) (Suc k) rc t"
      using P cs U rc unfolding overflow_at_def by (auto simp: less_Suc_eq)
    then show ?thesis using False by simp
  qed
qed

lemma overflow_ok:
  assumes P: "buf_parts s b ns os zs rds wcl B w" and n: "unat n \<le> sum_list zs"
  shows "\<exists>rc t. circ_buf_detect_and_handle_overflow s (Some b) n = Some (rc, t) \<and> overflow_at s b ns os zs rds wcl B w (unat n) (length rds) rc t"
proof -
  obtain cns where l: "slist (cb_nodes s) (rd_client_list_ptr B) cns (map Some rds)" using buf_parts_readers [OF P] by blast
  define body where "body = (\<lambda>client result s. do {
         b \<leftarrow> load (cb_bufs s) (Some b);
         c \<leftarrow> load (cb_clients s) client;
         let free_bytes = circ_buf_size b - unread_bytes c;
         if free_bytes < n
         then do {
           (_, s) \<leftarrow> add_circ_buf_read_advance s client (n - free_bytes);
           Some (Inr CIRCBUF_OVERRUN, s)
         }
         else Some (Inr result :: circbuf_result + circbuf_result, s)
       })"
  have "\<exists>v' t. for_clients body (rd_client_list_ptr B) CIRCBUF_SUCCESS s = Some (Inr v', t) \<and> cb_nodes t = cb_nodes s
      \<and> overflow_at s b ns os zs rds wcl B w (unat n) (length rds) v' t"
  proof (rule for_clients_ok [OF l, of "overflow_at s b ns os zs rds wcl B w (unat n)"])
    show "overflow_at s b ns os zs rds wcl B w (unat n) 0 CIRCBUF_SUCCESS s"
      using P by (auto simp: overflow_at_def intro: exI [of _ "cb_clients s"])
  next
    fix k v t
    assume a: "k < length rds" "cb_nodes t = cb_nodes s" "overflow_at s b ns os zs rds wcl B w (unat n) k v t"
    then have Pt: "buf_parts t b ns os zs rds wcl B w" by (simp add: overflow_at_def)
    obtain c where c: "cb_clients t (rds ! k) = Some c" using buf_parts_reader [OF Pt nth_mem [OF a(1)]] by blast
    obtain rc' t' where st: "(if circ_buf_size B - unread_bytes c < n
      then do { (_, t) \<leftarrow> add_circ_buf_read_advance t (Some (rds ! k)) (n - (circ_buf_size B - unread_bytes c)); Some (CIRCBUF_OVERRUN, t) }
      else Some (v, t)) = Some (rc', t')" "overflow_at s b ns os zs rds wcl B w (unat n) (Suc k) rc' t'" "cb_lists t' = cb_lists t"
      using overflow_step [OF a(3,1) n c] by (elim exE conjE) (rule that; assumption)
    have "body (Some (rds ! k)) v t = Some (Inr rc', t')"
      using st(1) c buf_partsD(1) [OF Pt] by (auto simp: body_def Let_def split: if_splits Option.bind_splits)
    then show "\<exists>v' t'. body (Some (rds ! k)) v t = Some (Inr v', t') \<and> cb_nodes t' = cb_nodes s
        \<and> overflow_at s b ns os zs rds wcl B w (unat n) (Suc k) v' t'"
      using st(2,3) a(2) by auto
  qed
  then show ?thesis using buf_partsD(1) [OF P] unfolding circ_buf_detect_and_handle_overflow_def body_def by auto
qed

subsection \<open>Writing\<close>

text \<open>All clients of a set get more unread bytes.\<close>

definition grow_unread :: "addr set \<Rightarrow> u32 \<Rightarrow> circ_state \<Rightarrow> circ_state" where
  "grow_unread S n s = s\<lparr>cb_clients := (\<lambda>a. if a \<in> S then map_option (unread_bytes_update (\<lambda>u. u + n)) (cb_clients s a) else cb_clients s a)\<rparr>"

lemma grow_unread_simps [simp]:
  "cb_lists (grow_unread S n s) = cb_lists s" "cb_chunks (grow_unread S n s) = cb_chunks s" "cb_bufs (grow_unread S n s) = cb_bufs s"
  "a \<notin> S \<Longrightarrow> cb_clients (grow_unread S n s) a = cb_clients s a"
  "a \<in> S \<Longrightarrow> cb_clients (grow_unread S n s) a = map_option (unread_bytes_update (\<lambda>u. u + n)) (cb_clients s a)"
  by (simp_all add: grow_unread_def)

lemma add_unread_ok:
  assumes "cb_clients s a = Some c" "circ_buf_ptr c = Some b" "cb_bufs s b = Some B" "unread_bytes c + n \<le> circ_buf_size B" "a \<notin> S"
  shows "add_unread n (Some a) (grow_unread S n s) = Some (grow_unread (insert a S) n s)"
proof -
  have "\<not> circ_buf_size B < unread_bytes c + n" using assms(4) by simp
  then have "add_unread n (Some a) (grow_unread S n s)
      = Some ((grow_unread S n s)\<lparr>cb_clients := (cb_clients (grow_unread S n s))(a \<mapsto> unread_bytes_update (\<lambda>u. u + n) c)\<rparr>)"
    using assms by (simp add: add_unread_def upd_client_def modify_Some)
  moreover have "(cb_clients (grow_unread S n s))(a \<mapsto> unread_bytes_update (\<lambda>u. u + n) c) = cb_clients (grow_unread (insert a S) n s)"
    using assms(1) by (auto simp: grow_unread_def)
  ultimately show ?thesis by (simp add: grow_unread_def)
qed

lemma add_unread_all:
  assumes l: "slist (cb_nodes s) p cns (map Some rds)" and d: "distinct rds" and B: "cb_bufs s b = Some B"
    and c: "\<And>cl. cl \<in> set rds \<Longrightarrow> \<exists>c. cb_clients s cl = Some c \<and> circ_buf_ptr c = Some b \<and> unread_bytes c + n \<le> circ_buf_size B"
  shows "for_each_client (add_unread n) p s = Some (grow_unread (set rds) n s)"
proof -
  have "\<exists>s'. for_each_client (add_unread n) p s = Some s' \<and> cb_nodes s' = cb_nodes s \<and> s' = grow_unread (set (take (length rds) rds)) n s"
  proof (rule for_each_ok [OF l, of "\<lambda>k t. t = grow_unread (set (take k rds)) n s"])
    show "s = grow_unread (set (take 0 rds)) n s" by (simp add: grow_unread_def)
  next
    fix k t
    assume a: "k < length rds" "t = grow_unread (set (take k rds)) n s"
    obtain x where x: "cb_clients s (rds ! k) = Some x" "circ_buf_ptr x = Some b" "unread_bytes x + n \<le> circ_buf_size B"
      using c [OF nth_mem [OF a(1)]] by blast
    have "rds ! k \<notin> set (take k rds)" using d a(1) by (metis distinct_take id_take_nth_drop not_distinct_conv_prefix)
    then have "add_unread n (Some (rds ! k)) t = Some (grow_unread (insert (rds ! k) (set (take k rds))) n s)"
      unfolding a(2) by (rule add_unread_ok [OF x(1,2) B x(3)])
    moreover have "set (take (Suc k) rds) = insert (rds ! k) (set (take k rds))" using a(1) by (simp add: take_Suc_conv_app_nth)
    ultimately show "\<exists>t'. add_unread n (Some (rds ! k)) t = Some t' \<and> cb_nodes t' = cb_nodes s \<and> t' = grow_unread (set (take (Suc k) rds)) n s"
      by simp
  qed
  then show ?thesis by simp
qed

text \<open>A reader that is behind by \<open>u\<close> is behind by \<open>u + n\<close> when the writer has moved by \<open>n\<close>.\<close>

lemma reader_grow:
  assumes "reader_ok ns zs b w c" "unat (unread_bytes c) + unat n \<le> sum_list zs" "sum_list zs < 2 ^ 32" "w' mod sum_list zs = (w + unat n) mod sum_list zs"
  shows "reader_ok ns zs b w' (unread_bytes_update (\<lambda>u. u + n) c)" "unat (unread_bytes c + n) = unat (unread_bytes c) + unat n"
proof -
  show u: "unat (unread_bytes c + n) = unat (unread_bytes c) + unat n" using assms(2,3) by (simp add: unat_word_ariths)
  have "(pos_of ns zs c + unat (unread_bytes c) + unat n) mod sum_list zs = (w + unat n) mod sum_list zs"
    using assms(1) by (metis mod_add_left_eq reader_ok_def)
  then show "reader_ok ns zs b w' (unread_bytes_update (\<lambda>u. u + n) c)" using assms u by (simp add: reader_ok_def pos_unread add.assoc)
qed

definition counted :: "u32 \<Rightarrow> u32 \<Rightarrow> 64 word \<Rightarrow> circ_buf \<Rightarrow> circ_buf" where
  "counted n vts ts B = (let B = write_byte_counter_update (\<lambda>m. if circ_buf_size B < m + n then circ_buf_size B else m + n) B
     in if 0 < n then B\<lparr>timestamp := ts, is_valid_timestamp := vts\<rparr> else B)"

lemma counted_simps [simp]:
  "circ_buf_size (counted n vts ts B) = circ_buf_size B" "head_chunk_ptr (counted n vts ts B) = head_chunk_ptr B"
  "wr_client_ptr (counted n vts ts B) = wr_client_ptr B" "rd_client_list_ptr (counted n vts ts B) = rd_client_list_ptr B"
  by (simp_all add: counted_def Let_def)

lemma counted_bound: "unat (circ_buf_size B) = N \<Longrightarrow> unat (write_byte_counter (counted n vts ts B)) \<le> N"
  by (auto simp: counted_def Let_def word_less_nat_alt not_less)

text \<open>The state when the bytes are in the ring and before the readers are told, from the state after the overflow handling.\<close>

lemma copy_ok:
  assumes P: "buf_parts s b ns os zs rds wcl B w" and n: "unat n \<le> sum_list zs" and src: "src_bytes src v (unat n) bs"
  shows "\<exists>node off s' h. add_circ_buf_data_copy_util s (Some b) n src v (rw_chunk_node_ptr w) (rw_chunk_offset w) = Some (CIRCBUF_SUCCESS, node, off, s')
    \<and> s' = s\<lparr>cb_chunks := h\<rparr> \<and> chunks_ok s' (head_chunk_ptr B) ns os zs \<and> ring_of s' os = rput (ring_of s os) (pos_of ns zs w) bs
    \<and> placed ns zs (w\<lparr>rw_chunk_node_ptr := node, rw_chunk_offset := off\<rparr>)
    \<and> pos_of ns zs (w\<lparr>rw_chunk_node_ptr := node, rw_chunk_offset := off\<rparr>) = (pos_of ns zs w + unat n) mod sum_list zs"
proof -
  note D = buf_partsD [OF P]
  obtain i where i: "i < length zs" "rw_chunk_node_ptr w = Some (ns ! i)" "unat (rw_chunk_offset w) < zs ! i"
      "pos_of ns zs w = zpos zs i (unat (rw_chunk_offset w))"
    using D(8) buf_parts_chunks(2) [OF P] unfolding placed_def at_pos_def by auto
  obtain j off s' h where r: "copy_loop s (Some b) n src v (Some (ns ! i)) (rw_chunk_offset w) n = Some (Some (ns ! j), off, s')"
      "j < length zs" "unat off < zs ! j" "zpos zs j (unat off) mod sum_list zs = (zpos zs i (unat (rw_chunk_offset w)) + unat n) mod sum_list zs"
      "chunks_ok s' (head_chunk_ptr B) ns os zs" "s' = s\<lparr>cb_chunks := h\<rparr>"
      "ring_of s' os = rput (ring_of s os) (zpos zs i (unat (rw_chunk_offset w))) (drop (unat n - unat n) bs)"
    using copy_loop_ok [OF D(2,1) refl i(1,3) src order_refl] by (elim exE conjE) (rule that; assumption)
  let ?w = "w\<lparr>rw_chunk_node_ptr := Some (ns ! j), rw_chunk_offset := off\<rparr>"
  have "at_pos ns zs (rw_chunk_node_ptr ?w) (rw_chunk_offset ?w) (zpos zs j (unat off))"
    using r(2,3) buf_parts_chunks(2) [OF P] by (auto simp: at_pos_def)
  note u = at_pos_unique [OF buf_parts_chunks(1) [OF P] this]
  have "pos_of ns zs ?w = (pos_of ns zs w + unat n) mod sum_list zs" using u(1) r(4) i(4) zpos_less [OF r(2,3)] by simp
  then show ?thesis using r(1,5,6,7) i(2,4) u(2)
    by (intro exI [of _ "Some (ns ! j)"] exI [of _ off] exI [of _ s'] exI [of _ h]) (simp add: add_circ_buf_data_copy_util_def)
qed


lemma Bex_nth: "(\<exists>x \<in> set xs. P x) \<longleftrightarrow> (\<exists>j < length xs. P (xs ! j))"
  by (metis in_set_conv_nth)

lemma write_ok:
  assumes P: "buf_parts s b ns os zs rds wcl B w" and n: "unat n \<le> sum_list zs" and src: "src_bytes src v (unat n) bs"
  shows "\<exists>rc s' w'. add_circ_buf_write_util s (Some wcl) src v n vts ts = Some (rc, s') \<and> buf_parts s' b ns os zs rds wcl (counted n vts ts B) w'
    \<and> ring_of s' os = rput (ring_of s os) (pos_of ns zs w) bs \<and> pos_of ns zs w' = (pos_of ns zs w + unat n) mod sum_list zs
    \<and> (\<forall>cl \<in> set rds. unread_of s' cl = min (unread_of s cl) (sum_list zs - unat n) + unat n)
    \<and> rc = (if \<exists>cl \<in> set rds. sum_list zs < unread_of s cl + unat n then CIRCBUF_OVERRUN else CIRCBUF_SUCCESS)"
proof -
  note D = buf_partsD [OF P]
  obtain rc t where o: "circ_buf_detect_and_handle_overflow s (Some b) n = Some (rc, t)"
      "overflow_at s b ns os zs rds wcl B w (unat n) (length rds) rc t" using overflow_ok [OF P n] by blast
  have Pt: "buf_parts t b ns os zs rds wcl B w" and st: "\<exists>cs. t = s\<lparr>cb_clients := cs\<rparr>"
    and U: "\<And>cl. cl \<in> set rds \<Longrightarrow> unread_of t cl = min (unread_of s cl) (sum_list zs - unat n)"
    and rc: "rc = (if \<exists>cl \<in> set rds. sum_list zs < unread_of s cl + unat n then CIRCBUF_OVERRUN else CIRCBUF_SUCCESS)"
    using o(2) by (auto simp: overflow_at_def Bex_nth) (auto simp: in_set_conv_nth)
  note Dt = buf_partsD [OF Pt]
  obtain node off t1 h where c: "add_circ_buf_data_copy_util t (Some b) n src v (rw_chunk_node_ptr w) (rw_chunk_offset w) = Some (CIRCBUF_SUCCESS, node, off, t1)"
      "t1 = t\<lparr>cb_chunks := h\<rparr>" "chunks_ok t1 (head_chunk_ptr B) ns os zs" "ring_of t1 os = rput (ring_of t os) (pos_of ns zs w) bs"
      "placed ns zs (w\<lparr>rw_chunk_node_ptr := node, rw_chunk_offset := off\<rparr>)"
      "pos_of ns zs (w\<lparr>rw_chunk_node_ptr := node, rw_chunk_offset := off\<rparr>) = (pos_of ns zs w + unat n) mod sum_list zs"
    using copy_ok [OF Pt n src] by (elim exE conjE) (rule that; assumption)
  define w' where "w' = w\<lparr>rw_chunk_node_ptr := node, rw_chunk_offset := off\<rparr>"
  define t2 where "t2 = t1\<lparr>cb_clients := (cb_clients t1)(wcl \<mapsto> w'), cb_bufs := (cb_bufs t1)(b \<mapsto> counted n vts ts B)\<rparr>"
  obtain cns where l: "slist (cb_nodes t) (rd_client_list_ptr B) cns (map Some rds)" "set ns \<inter> set cns = {}" using buf_parts_readers [OF Pt] by blast
  have N32: "sum_list zs < 2 ^ 32" using D(3) unat_lt32 [of "circ_buf_size B"] by simp
  have rd: "\<exists>c. cb_clients t2 cl = Some c \<and> circ_buf_ptr c = Some b \<and> reader_ok ns zs b (pos_of ns zs w) c \<and> unat (unread_bytes c) = unread_of t cl"
    if cl: "cl \<in> set rds" for cl
  proof -
    obtain c where "cb_clients t cl = Some c" "reader_ok ns zs b (pos_of ns zs w) c" using buf_parts_reader [OF Pt cl] by blast
    moreover have "cl \<noteq> wcl" using Dt(10) cl by auto
    ultimately show ?thesis by (simp add: t2_def c(2) reader_ok_def unread_of_def)
  qed
  have uN: "unread_of t cl + unat n \<le> sum_list zs" if "cl \<in> set rds" for cl using U [OF that] n by simp
  let ?s = "grow_unread (set rds) n t2"
  have pw: "pos_of ns zs w' mod sum_list zs = (pos_of ns zs w + unat n) mod sum_list zs" using c(6) by (simp add: w'_def)
  have gr: "\<exists>c. cb_clients ?s cl = Some c \<and> reader_ok ns zs b (pos_of ns zs w') c \<and> unat (unread_bytes c) = unread_of t cl + unat n"
    if cl: "cl \<in> set rds" for cl
  proof -
    obtain c where "cb_clients t2 cl = Some c" "reader_ok ns zs b (pos_of ns zs w) c" "unat (unread_bytes c) = unread_of t cl" using rd [OF cl] by blast
    then show ?thesis using reader_grow [where b = b and c = c, OF _ _ N32 pw] uN [OF cl] cl by simp
  qed
  have "for_each_client (add_unread n) (rd_client_list_ptr B) t2 = Some ?s"
  proof (rule add_unread_all [where cns = cns and b = b and B = "counted n vts ts B"])
    show "slist (cb_nodes t2) (rd_client_list_ptr B) cns (map Some rds)" using l(1) by (simp add: t2_def c(2))
    show "\<exists>c. cb_clients t2 cl = Some c \<and> circ_buf_ptr c = Some b \<and> unread_bytes c + n \<le> circ_buf_size (counted n vts ts B)" if "cl \<in> set rds" for cl
      using rd [OF that] uN [OF that] N32 D(3) by (auto simp: word_le_nat_alt unat_word_ariths)
  qed (use Dt(9) in \<open>simp_all add: t2_def\<close>)
  moreover have "\<not> circ_buf_size B < n" using n D(3) by (simp add: word_less_nat_alt)
  moreover obtain y where "rw_chunk_node_ptr w = Some y" using D(8) by (auto simp: placed_def at_pos_def)
  ultimately have run: "add_circ_buf_write_util s (Some wcl) src v n vts ts = Some (rc, ?s)"
    using D(1,6,7) o(1) Dt(1,6) c(1)
    by (cases "0 < n") (simp_all add: add_circ_buf_write_util_def Let_def upd_client_def upd_buf_def modify_Some c(2) t2_def w'_def counted_def)
  have ch: "chunks_ok ?s (head_chunk_ptr B) ns os zs" "ring_of ?s os = rput (ring_of s os) (pos_of ns zs w) bs"
    using c(3,4) st chunks_ok_cong [of ?s t1] chunks_ok_cong(2) [of t s os] by (auto simp: t2_def)
  have "buf_parts ?s b ns os zs rds wcl (counted n vts ts B) w'"
    unfolding buf_parts_def
  proof (intro conjI exI [of _ cns])
    show "\<forall>cl \<in> set rds. \<exists>c. cb_clients ?s cl = Some c \<and> reader_ok ns zs b (pos_of ns zs w') c" using gr by blast
  qed (use ch(1) D(3,4,5,7) Dt(9,10) l c(5) counted_bound [OF D(3)] in \<open>simp_all add: t2_def c(2) w'_def\<close>)
  moreover have "unread_of ?s cl = min (unread_of s cl) (sum_list zs - unat n) + unat n" if "cl \<in> set rds" for cl
    using gr [OF that] U [OF that] by (auto simp: unread_of_def [of ?s])
  ultimately show ?thesis using run ch(2) c(6) rc by (intro exI [of _ rc] exI [of _ ?s] exI [of _ w']) (simp add: w'_def)
qed


text \<open>The same in terms of the queues: each reader keeps the last bytes, as many as the buffer holds.\<close>

lemma write_queues:
  assumes I: "buf_inv s b ns os zs rds wcl" and n: "unat n \<le> sum_list zs" and src: "src_bytes src v (unat n) bs"
  shows "\<exists>rc s'. add_circ_buf_write_util s (Some wcl) src v n vts ts = Some (rc, s') \<and> buf_inv s' b ns os zs rds wcl
    \<and> (\<forall>cl \<in> set rds. rd_queue s' ns os zs cl = last_n (sum_list zs) (rd_queue s ns os zs cl @ bs))
    \<and> rc = (if \<exists>cl \<in> set rds. sum_list zs < length (rd_queue s ns os zs cl @ bs) then CIRCBUF_OVERRUN else CIRCBUF_SUCCESS)"
proof -
  obtain B w where P: "buf_parts s b ns os zs rds wcl B w" using I by (auto simp: buf_inv_def)
  obtain rc s' w' where r: "add_circ_buf_write_util s (Some wcl) src v n vts ts = Some (rc, s')" "buf_parts s' b ns os zs rds wcl (counted n vts ts B) w'"
      "ring_of s' os = rput (ring_of s os) (pos_of ns zs w) bs" "pos_of ns zs w' = (pos_of ns zs w + unat n) mod sum_list zs"
      "\<forall>cl \<in> set rds. unread_of s' cl = min (unread_of s cl) (sum_list zs - unat n) + unat n"
      "rc = (if \<exists>cl \<in> set rds. sum_list zs < unread_of s cl + unat n then CIRCBUF_OVERRUN else CIRCBUF_SUCCESS)"
    using write_ok [OF P n src, of vts ts] by (elim exE conjE) (rule that; assumption)
  let ?xs = "ring_of s os" and ?w = "pos_of ns zs w" and ?N = "sum_list zs"
  have len: "length ?xs = ?N" "length bs = unat n" using buf_parts_chunks(4) [OF P] src by (simp_all add: src_bytes_def)
  have "rd_queue s' ns os zs cl = last_n ?N (rd_queue s ns os zs cl @ bs)" if cl: "cl \<in> set rds" for cl
  proof -
    let ?u = "unread_of s cl"
    note q = queue_behind_writer [OF P cl] and q' = queue_behind_writer [OF r(2) cl]
    let ?k = "min ?u (?N - unat n)"
    have kN: "?k + unat n \<le> ?N" using n by simp
    have "rd_queue s' ns os zs cl = rbehind (rput ?xs ?w bs) (pos_of ns zs w') (?k + unat n)" using q'(1) r(3,5) cl by simp
    also have "\<dots> = rbehind (rput ?xs ?w bs) (?w + length bs) (?k + unat n)" using r(4) len kN by (intro rbehind_cong) simp_all
    also have "\<dots> = rbehind ?xs ?w ?k @ bs" using rbehind_rput [of bs ?xs "?k + unat n" ?w] len n kN by simp
    also have "rbehind ?xs ?w ?k = drop (?u + unat n - ?N) (rbehind ?xs ?w ?u)"
      using take_rbehind(2) [of "?u + unat n - ?N" ?u ?xs ?w] q(2) len n by (simp add: min_def)
    finally show ?thesis using last_n_append [of bs ?N "rd_queue s ns os zs cl"] q(1,3) len n by simp
  qed
  moreover have "(\<exists>cl \<in> set rds. ?N < unread_of s cl + unat n) \<longleftrightarrow> (\<exists>cl \<in> set rds. ?N < length (rd_queue s ns os zs cl @ bs))"
    using queue_behind_writer(3) [OF P] len by simp
  moreover have "buf_inv s' b ns os zs rds wcl" unfolding buf_inv_def by (intro exI, rule r(2))
  ultimately show ?thesis using r(1,6) by (intro exI [of _ rc] exI [of _ s']) simp
qed

subsection \<open>Reading\<close>

lemma read_parts:
  assumes P: "buf_parts s b ns os zs rds wcl B w" and cl: "cl \<in> set rds" and n: "unat n \<le> sum_list zs" and ne: "rd_queue s ns os zs cl \<noteq> [] \<or> n = 0"
  shows "\<exists>s'. circ_buf_read s (Some cl) True n
      = Some (CIRCBUF_SUCCESS, take (unat n) (rd_queue s ns os zs cl), Some (of_nat (min (unat n) (length (rd_queue s ns os zs cl)))), s')
    \<and> buf_parts s' b ns os zs rds wcl B w \<and> rd_queue s' ns os zs cl = drop (unat n) (rd_queue s ns os zs cl)
    \<and> (\<forall>cl' \<in> set rds - {cl}. rd_queue s' ns os zs cl' = rd_queue s ns os zs cl') \<and> cb_chunks s' = cb_chunks s"
proof -
  note D = buf_partsD [OF P]
  obtain c where c: "cb_clients s cl = Some c" "reader_ok ns zs b (pos_of ns zs w) c" using buf_parts_reader [OF P cl] by blast
  have R: "is_read_client c" "circ_buf_ptr c = Some b" "placed ns zs c" "unat (unread_bytes c) \<le> sum_list zs"
      "(pos_of ns zs c + unat (unread_bytes c)) mod sum_list zs = pos_of ns zs w mod sum_list zs"
    using c(2) by (simp_all add: reader_ok_def)
  let ?q = "rget (ring_of s os) (pos_of ns zs c) (unat (unread_bytes c))"
  define m where "m = (if unread_bytes c < n then unread_bytes c else n)"
  have q: "rd_queue s ns os zs cl = ?q" using c(1) by (simp add: rd_queue_def)
  have m: "unat m = min (unat n) (unat (unread_bytes c))" "m \<le> unread_bytes c" by (simp_all add: m_def word_less_nat_alt word_le_nat_alt)
  obtain i where i: "i < length zs" "rw_chunk_node_ptr c = Some (ns ! i)" "unat (rw_chunk_offset c) < zs ! i"
      "pos_of ns zs c = zpos zs i (unat (rw_chunk_offset c))"
    using R(3) buf_parts_chunks(2) [OF P] unfolding placed_def at_pos_def by auto
  obtain j off' where r: "read_loop s (Some b) (Some (ns ! i)) (rw_chunk_offset c) m []
        = Some (Some (ns ! j), off', [] @ rget (ring_of s os) (zpos zs i (unat (rw_chunk_offset c))) (unat m))" "j < length zs" "unat off' < zs ! j"
      "zpos zs j (unat off') mod sum_list zs = (zpos zs i (unat (rw_chunk_offset c)) + unat m) mod sum_list zs"
    using read_loop_ok [OF D(2,1) refl i(1,3), of m "[]"] by (elim exE conjE) (rule that; assumption)
  let ?c = "c\<lparr>rw_chunk_node_ptr := Some (ns ! j), rw_chunk_offset := off', unread_bytes := unread_bytes c - m\<rparr>"
  let ?s = "s\<lparr>cb_clients := (cb_clients s)(cl \<mapsto> ?c)\<rparr>"
  have "at_pos ns zs (rw_chunk_node_ptr ?c) (rw_chunk_offset ?c) (zpos zs j (unat off'))"
    using r(2,3) buf_parts_chunks(2) [OF P] by (auto simp: at_pos_def)
  note u = at_pos_unique [OF buf_parts_chunks(1) [OF P] this]
  have p: "pos_of ns zs ?c = (pos_of ns zs c + unat m) mod sum_list zs" using u(1) r(4) i(4) zpos_less [OF r(2,3)] by simp
  have um: "unat (unread_bytes ?c) = unat (unread_bytes c) - unat m" using unat_sub [OF m(2)] by simp
  have "(pos_of ns zs ?c + unat (unread_bytes ?c)) mod sum_list zs = (pos_of ns zs c + unat m + (unat (unread_bytes c) - unat m)) mod sum_list zs"
    unfolding p um by (rule mod_add_left_eq)
  also have "\<dots> = pos_of ns zs w mod sum_list zs" using m(1) R(5) by simp
  finally have rk: "reader_ok ns zs b (pos_of ns zs w) ?c" using R(1,2,4) u(2) um by (simp add: reader_ok_def)
  have P': "buf_parts ?s b ns os zs rds wcl B w" by (rule buf_parts_client [OF P cl rk])
  have nsz: "\<not> circ_buf_size B < n" using n D(3) by (simp add: word_less_nat_alt)
  have nu: "\<not> (unread_bytes c < n \<and> unread_bytes c = 0)" using ne q by auto
  have out: "rget (ring_of s os) (pos_of ns zs c) (unat m) = take (unat n) ?q"
    using m(1) take_rget [of "unat m" "unat (unread_bytes c)" "ring_of s os" "pos_of ns zs c"] by (cases "unat n \<le> unat (unread_bytes c)") (simp_all add: min_def)
  have mw: "m = of_nat (min (unat n) (length ?q))" unfolding length_rget m(1) [symmetric] by simp
  have "circ_buf_read s (Some cl) True n = Some (CIRCBUF_SUCCESS, take (unat n) ?q, Some m, ?s)"
    using c(1) R(2) i(2,4) D(1) nsz nu r(1) out by (simp add: circ_buf_read_def Let_def upd_client_def modify_Some m_def [symmetric])
  moreover have "rd_queue ?s ns os zs cl = drop (unat n) ?q"
  proof -
    have "rd_queue ?s ns os zs cl = rget (ring_of s os) (pos_of ns zs ?c) (unat (unread_bytes ?c))"
      using chunks_ok_cong(2) [of ?s s os] by (simp add: rd_queue_def)
    also have "\<dots> = rget (ring_of s os) (pos_of ns zs c + unat m) (unat (unread_bytes c) - unat m)"
      unfolding p um using rget_mod [of "ring_of s os"] buf_parts_chunks(4) [OF P] by metis
    also have "\<dots> = drop (unat m) ?q" using m(1) by (simp add: drop_rget)
    also have "\<dots> = drop (unat n) ?q" using m(1) by (simp add: min_def)
    finally show ?thesis .
  qed
  moreover have "rd_queue ?s ns os zs cl' = rd_queue s ns os zs cl'" if "cl' \<noteq> cl" for cl'
    using that by (intro rd_queue_cong) simp_all
  ultimately show ?thesis using P' mw unfolding q by (intro exI [of _ ?s]) simp
qed


lemma read_empty:
  assumes I: "buf_inv s b ns os zs rds wcl" and cl: "cl \<in> set rds" and n: "unat n \<le> sum_list zs" "n \<noteq> 0" and "rd_queue s ns os zs cl = []"
  shows "circ_buf_read s (Some cl) True n = Some (CIRCBUF_UNDERRUN, [], None, s)"
proof -
  obtain B w where P: "buf_parts s b ns os zs rds wcl B w" using I by (auto simp: buf_inv_def)
  note D = buf_partsD [OF P]
  obtain c where c: "cb_clients s cl = Some c" "reader_ok ns zs b (pos_of ns zs w) c" using buf_parts_reader [OF P cl] by blast
  have R: "circ_buf_ptr c = Some b" "\<exists>y. rw_chunk_node_ptr c = Some y" using c(2) by (auto simp: reader_ok_def placed_def at_pos_def)
  have "unat (unread_bytes c) = 0" using assms(5) queue_behind_writer(3) [OF P cl] c(1) by (simp add: unread_of_def)
  then have "unread_bytes c = 0" by (simp add: unat_eq_0)
  moreover have "\<not> circ_buf_size B < n" using n(1) D(3) by (simp add: word_less_nat_alt)
  moreover have "0 < n" using n(2) by (simp add: word_gt_0)
  ultimately show ?thesis using c(1) R D(1) by (auto simp: circ_buf_read_def)
qed

text \<open>Requests larger than the buffer fail and change nothing.\<close>

lemma too_large:
  assumes I: "buf_inv s b ns os zs rds wcl" and n: "sum_list zs < unat n"
  shows "add_circ_buf_write_util s (Some wcl) src v n vts ts = Some (CIRCBUF_FAIL, s)"
    and "cl \<in> set rds \<Longrightarrow> circ_buf_read s (Some cl) True n = Some (CIRCBUF_FAIL, [], None, s)"
proof -
  obtain B w where P: "buf_parts s b ns os zs rds wcl B w" using I by (auto simp: buf_inv_def)
  note D = buf_partsD [OF P]
  have lt: "circ_buf_size B < n" using n D(3) by (simp add: word_less_nat_alt)
  show "add_circ_buf_write_util s (Some wcl) src v n vts ts = Some (CIRCBUF_FAIL, s)"
    using lt D(1,6,7) by (simp add: add_circ_buf_write_util_def Let_def)
  show "circ_buf_read s (Some cl) True n = Some (CIRCBUF_FAIL, [], None, s)" if cl: "cl \<in> set rds"
  proof -
    obtain c where c: "cb_clients s cl = Some c" "reader_ok ns zs b (pos_of ns zs w) c" using buf_parts_reader [OF P cl] by blast
    then show ?thesis using lt D(1) by (simp add: circ_buf_read_def reader_ok_def)
  qed
qed

end
