(* ===== verification/Dam_Circ_Buf_Contract.thy ===== *)
theory Dam_Circ_Buf_Contract
  imports Dam_Circ_Buf_Proofs
begin

text \<open>
  The circular buffer of the audio dam meets the contract of theory \<open>Stream_Buffer\<close>: moving a reader, what was written last,
  the interpretation of the contract and the properties of the buffer.
\<close>

subsection \<open>Moving a reader\<close>

lemma buf_inv_client:
  assumes P: "buf_parts s b ns os zs rds wcl B w" and c: "cl \<in> set rds" "reader_ok ns zs b (pos_of ns zs w) c"
  defines "s' \<equiv> s\<lparr>cb_clients := (cb_clients s)(cl \<mapsto> c)\<rparr>"
  shows "buf_parts s' b ns os zs rds wcl B w" "rd_queue s' ns os zs cl = rbehind (ring_of s os) (pos_of ns zs w) (unat (unread_bytes c))"
    "cl' \<noteq> cl \<Longrightarrow> rd_queue s' ns os zs cl' = rd_queue s ns os zs cl'"
proof -
  show P': "buf_parts s' b ns os zs rds wcl B w" unfolding s'_def by (rule buf_parts_client [OF P c])
  show "rd_queue s' ns os zs cl = rbehind (ring_of s os) (pos_of ns zs w) (unat (unread_bytes c))"
    using queue_behind_writer(1) [OF P' c(1)] chunks_ok_cong(2) [of s' s os] by (simp add: s'_def unread_of_def)
  show "rd_queue s' ns os zs cl' = rd_queue s ns os zs cl'" if "cl' \<noteq> cl"
    using that unfolding s'_def by (intro rd_queue_cong) simp_all
qed

text \<open>From any position that fits, a reader moves to the last \<open>off\<close> bytes before the writer.\<close>

lemma seek_ok:
  assumes P: "buf_parts s b ns os zs rds wcl B w" and cl: "cl \<in> set rds"
  defines "q \<equiv> rd_queue s ns os zs cl"
  shows "\<exists>s'. circ_buf_read_adjust s (Some cl) off False = Some (CIRCBUF_SUCCESS, Some (of_nat (min (unat off) (length q))), s')
    \<and> buf_parts s' b ns os zs rds wcl B w \<and> rd_queue s' ns os zs cl = last_n (unat off) q
    \<and> (\<forall>cl' \<in> set rds - {cl}. rd_queue s' ns os zs cl' = rd_queue s ns os zs cl') \<and> cb_chunks s' = cb_chunks s"
proof -
  obtain c where c: "cb_clients s cl = Some c" "reader_ok ns zs b (pos_of ns zs w) c" using buf_parts_reader [OF P cl] by blast
  note q = queue_behind_writer [OF P cl]
  define m where "m = (if unread_bytes c < off then unread_bytes c else off)"
  have u: "unread_of s cl = unat (unread_bytes c)" using c(1) by (simp add: unread_of_def)
  have m: "unat m = min (unat off) (unat (unread_bytes c))" "m \<le> unread_bytes c" by (simp_all add: m_def word_less_nat_alt word_le_nat_alt)
  have um: "unat (unread_bytes c - m) = unat (unread_bytes c) - unat m" using unat_sub [OF m(2)] .
  have le: "unread_bytes c - m \<le> unread_bytes c" using um by (simp add: word_le_nat_alt)
  obtain c' where c': "add_circ_buf_read_advance s (Some cl) (unread_bytes c - m) = Some (CIRCBUF_SUCCESS, s\<lparr>cb_clients := (cb_clients s)(cl \<mapsto> c')\<rparr>)"
      "reader_ok ns zs b (pos_of ns zs w) c'" "unread_bytes c' = unread_bytes c - (unread_bytes c - m)"
    using read_advance_ok [OF P c le] by blast
  let ?s = "s\<lparr>cb_clients := (cb_clients s)(cl \<mapsto> c')\<rparr>"
  have "circ_buf_read_adjust s (Some cl) off False = Some (CIRCBUF_SUCCESS, Some m, ?s)"
    using c c'(1) by (simp add: circ_buf_read_adjust_def Let_def m_def [symmetric] reader_ok_def)
  moreover have "m = of_nat (min (unat off) (length q))" unfolding q_def q(3) u m(1) [symmetric] by simp
  moreover have "rd_queue ?s ns os zs cl = last_n (unat off) q"
  proof -
    have "rd_queue ?s ns os zs cl = rbehind (ring_of s os) (pos_of ns zs w) (unat m)"
      using buf_inv_client(2) [OF P cl c'(2)] c'(3) by simp
    also have "\<dots> = drop (unread_of s cl - unat m) (rbehind (ring_of s os) (pos_of ns zs w) (unread_of s cl))"
      using take_rbehind(2) [of "unread_of s cl - unat m" "unread_of s cl" "ring_of s os" "pos_of ns zs w"] q(2) buf_parts_chunks(4) [OF P] m(1) u by simp
    also have "\<dots> = last_n (unat off) q" unfolding q_def last_n_def q(3) using q(1) m(1) u by (simp add: min_def)
    finally show ?thesis .
  qed
  ultimately show ?thesis using buf_inv_client(1,3) [OF P cl c'(2)] by (intro exI [of _ ?s]) simp
qed


subsection \<open>What was written last\<close>

definition recent :: "circ_state \<Rightarrow> addr \<Rightarrow> addr list \<Rightarrow> addr list \<Rightarrow> nat list \<Rightarrow> u8 list" where
  "recent s b ns os zs = (case cb_bufs s b of None \<Rightarrow> []
     | Some B \<Rightarrow> (case load (cb_clients s) (wr_client_ptr B) of None \<Rightarrow> []
       | Some w \<Rightarrow> rbehind (ring_of s os) (pos_of ns zs w) (unat (write_byte_counter B))))"

lemma recent_parts:
  assumes "buf_parts s b ns os zs rds wcl B w"
  shows "recent s b ns os zs = rbehind (ring_of s os) (pos_of ns zs w) (unat (write_byte_counter B))"
  using buf_partsD [OF assms] by (simp add: recent_def)

text \<open>The counter saturates at the size, if the sum of two sizes fits in 32 bits.\<close>

lemma counted_counter:
  assumes "unat (circ_buf_size B) = N" "N < 2 ^ 31" "unat (write_byte_counter B) \<le> N" "unat n \<le> N"
  shows "unat (write_byte_counter (counted n vts ts B)) = min (unat (write_byte_counter B) + unat n) N"
proof -
  have "unat (write_byte_counter B + n) = unat (write_byte_counter B) + unat n" using assms by (simp add: unat_word_ariths)
  then show ?thesis using assms(1) by (simp add: counted_def Let_def word_less_nat_alt)
qed

lemma write_recent:
  assumes I: "buf_inv s b ns os zs rds wcl" and n: "unat n \<le> sum_list zs" and src: "src_bytes src v (unat n) bs" and N: "sum_list zs < 2 ^ 31"
    and r: "add_circ_buf_write_util s (Some wcl) src v n vts ts = Some (rc, s')"
  shows "recent s' b ns os zs = last_n (sum_list zs) (recent s b ns os zs @ bs)"
proof -
  obtain B w where P: "buf_parts s b ns os zs rds wcl B w" using I by (auto simp: buf_inv_def)
  let ?xs = "ring_of s os" and ?w = "pos_of ns zs w" and ?N = "sum_list zs" and ?u = "unat (write_byte_counter B)"
  obtain w' where w: "buf_parts s' b ns os zs rds wcl (counted n vts ts B) w'"
      "ring_of s' os = rput ?xs ?w bs" "pos_of ns zs w' = (?w + unat n) mod ?N"
    using write_ok [OF P n src, of vts ts] r by auto
  have len: "length ?xs = ?N" "length bs = unat n" using buf_parts_chunks(4) [OF P] src by (simp_all add: src_bytes_def)
  have u: "?u \<le> ?N" using buf_partsD(11) [OF P] .
  have k: "unat (write_byte_counter (counted n vts ts B)) = min (?u + unat n) ?N" using counted_counter [OF buf_partsD(3) [OF P] N u n] .
  have "recent s' b ns os zs = rbehind (rput ?xs ?w bs) (pos_of ns zs w') (min (?u + unat n) ?N)" using recent_parts [OF w(1)] w(2) k by simp
  also have "\<dots> = rbehind (rput ?xs ?w bs) (?w + length bs) (min (?u + unat n) ?N)" using w(3) len by (intro rbehind_cong) simp_all
  also have "\<dots> = rbehind ?xs ?w (min (?u + unat n) ?N - unat n) @ bs" using rbehind_rput [of bs ?xs "min (?u + unat n) ?N" ?w] len n by simp
  also have "rbehind ?xs ?w (min (?u + unat n) ?N - unat n) = drop (?u + unat n - ?N) (rbehind ?xs ?w ?u)"
    using take_rbehind(2) [of "?u + unat n - ?N" ?u ?xs ?w] u len n by (simp add: min_def)
  finally show ?thesis using last_n_append [of bs ?N "recent s b ns os zs"] recent_parts [OF P] len n by simp
qed

subsection \<open>Going back\<close>

text \<open>A reset with force puts a reader behind all that was written last.\<close>

lemma reset_client:
  assumes ch: "chunks_ok s (head_chunk_ptr B) ns os zs" and B: "cb_bufs s b = Some B" "unat (circ_buf_size B) = sum_list zs" "wr_client_ptr B = Some wcl"
      "unat (write_byte_counter B) \<le> sum_list zs"
    and w: "cb_clients s wcl = Some w" "placed ns zs w" and c: "cb_clients s cl = Some c" and R: "is_read_client c" "circ_buf_ptr c = Some b"
  shows "\<exists>c'. add_circ_buf_read_client_reset s (Some cl) True = Some (CIRCBUF_SUCCESS, s\<lparr>cb_clients := (cb_clients s)(cl \<mapsto> c')\<rparr>)
    \<and> reader_ok ns zs b (pos_of ns zs w) c' \<and> unread_bytes c' = write_byte_counter B"
proof -
  have le: "write_byte_counter B \<le> circ_buf_size B" using B(2,4) by (simp add: word_le_nat_alt)
  then have mn: "min (write_byte_counter B) (circ_buf_size B) = write_byte_counter B" by simp
  define c1 where "c1 = c\<lparr>rw_chunk_node_ptr := rw_chunk_node_ptr w, rw_chunk_offset := rw_chunk_offset w, unread_bytes := write_byte_counter B\<rparr>"
  let ?s = "s\<lparr>cb_clients := (cb_clients s)(cl \<mapsto> c1)\<rparr>"
  have c1: "placed ns zs c1" "pos_of ns zs c1 = pos_of ns zs w" using w(2) by (simp_all add: c1_def placed_def pos_of_def at_pos_def)
  have F: "circ_buf_ptr c1 = Some b" "is_read_client c1" "unread_bytes c1 = write_byte_counter B" using R by (simp_all add: c1_def)
  show ?thesis
  proof (cases "write_byte_counter B < circ_buf_size B")
    case True
    let ?n = "circ_buf_size B - write_byte_counter B"
    have n: "unat ?n = sum_list zs - unat (write_byte_counter B)" using unat_sub [OF le] B(2) by simp
    have ch1: "chunks_ok ?s (head_chunk_ptr B) ns os zs" using ch chunks_ok_cong(1) [of ?s s] by simp
    from shift_client_ok [OF ch1 _ B(2), of b cl c1 ?n] obtain c2 node off where c2:
        "shift_client ?s (Some b) (Some cl) ?n = Some (CIRCBUF_SUCCESS, ?s\<lparr>cb_clients := (cb_clients ?s)(cl \<mapsto> c2)\<rparr>)"
        "c2 = c1\<lparr>rw_chunk_node_ptr := node, rw_chunk_offset := off\<rparr>" "placed ns zs c2" "pos_of ns zs c2 = (pos_of ns zs c1 + unat ?n) mod sum_list zs"
      using B(1) c1(1) n by auto
    have "add_circ_buf_read_client_reset s (Some cl) True = Some (CIRCBUF_SUCCESS, s\<lparr>cb_clients := (cb_clients s)(cl \<mapsto> c2)\<rparr>)"
      using c R B(1,3) w(1) mn True c2(1)
      by (simp add: add_circ_buf_read_client_reset_def Let_def upd_client_def modify_Some c1_def [symmetric] F)
    moreover have "(pos_of ns zs c2 + unat (unread_bytes c2)) mod sum_list zs = pos_of ns zs w mod sum_list zs"
      using c2(2,4) c1(2) n F(3) B(4) by (simp add: mod_add_left_eq)
    ultimately show ?thesis using c2(2,3) F B(4) by (intro exI [of _ c2]) (simp add: reader_ok_def)
  next
    case False
    then have eq: "write_byte_counter B = circ_buf_size B" using le by simp
    have "add_circ_buf_read_client_reset s (Some cl) True = Some (CIRCBUF_SUCCESS, ?s)"
      using c R B(1,3) w(1) mn False
      by (simp add: add_circ_buf_read_client_reset_def Let_def upd_client_def modify_Some c1_def [symmetric] F)
    then show ?thesis using c1 F eq B(2) by (intro exI [of _ c1]) (simp add: reader_ok_def)
  qed
qed

lemma reset_ok:
  assumes P: "buf_parts s b ns os zs rds wcl B w" and cl: "cl \<in> set rds"
  shows "\<exists>c'. add_circ_buf_read_client_reset s (Some cl) True = Some (CIRCBUF_SUCCESS, s\<lparr>cb_clients := (cb_clients s)(cl \<mapsto> c')\<rparr>)
    \<and> reader_ok ns zs b (pos_of ns zs w) c' \<and> unread_bytes c' = write_byte_counter B"
proof -
  note D = buf_partsD [OF P]
  obtain c where c: "cb_clients s cl = Some c" "reader_ok ns zs b (pos_of ns zs w) c" using buf_parts_reader [OF P cl] by blast
  have R: "is_read_client c" "circ_buf_ptr c = Some b" using c(2) by (simp_all add: reader_ok_def)
  show ?thesis by (rule reset_client [OF D(2,1,3,5,11,6,8) c(1) R])
qed

lemma rewind_ok:
  assumes P: "buf_parts s b ns os zs rds wcl B w" and cl: "cl \<in> set rds"
  defines "q \<equiv> recent s b ns os zs"
  shows "\<exists>s'. circ_buf_read_adjust s (Some cl) off True = Some (CIRCBUF_SUCCESS, Some (of_nat (min (unat off) (length q))), s')
    \<and> buf_parts s' b ns os zs rds wcl B w \<and> rd_queue s' ns os zs cl = last_n (unat off) q
    \<and> (\<forall>cl' \<in> set rds - {cl}. rd_queue s' ns os zs cl' = rd_queue s ns os zs cl') \<and> cb_chunks s' = cb_chunks s"
proof -
  obtain c where c: "cb_clients s cl = Some c" "reader_ok ns zs b (pos_of ns zs w) c" using buf_parts_reader [OF P cl] by blast
  obtain c' where c': "add_circ_buf_read_client_reset s (Some cl) True = Some (CIRCBUF_SUCCESS, s\<lparr>cb_clients := (cb_clients s)(cl \<mapsto> c')\<rparr>)"
      "reader_ok ns zs b (pos_of ns zs w) c'" "unread_bytes c' = write_byte_counter B" using reset_ok [OF P cl] by blast
  define s1 where "s1 = s\<lparr>cb_clients := (cb_clients s)(cl \<mapsto> c')\<rparr>"
  note s1 = buf_inv_client [OF P cl c'(2), folded s1_def]
  have q: "rd_queue s1 ns os zs cl = q" using s1(2) c'(3) recent_parts [OF P] by (simp add: q_def)
  have "is_read_client c" "is_read_client c'" "cb_clients s1 cl = Some c'" using c(2) c'(2) by (simp_all add: reader_ok_def s1_def)
  then have "circ_buf_read_adjust s (Some cl) off True = circ_buf_read_adjust s1 (Some cl) off False"
    using c(1) c'(1) by (simp add: circ_buf_read_adjust_def s1_def)
  moreover have "cb_chunks s1 = cb_chunks s" by (simp add: s1_def)
  ultimately show ?thesis using seek_ok [OF s1(1) cl, of off] s1(3) q by simp
qed


text \<open>
  A reset without force, which is what every reader gets when the buffer shrinks, keeps the number of unread bytes but moves the reader as
  far behind the writer as the reset with force does.
\<close>

lemma reset_keep:
  assumes P: "buf_parts s b ns os zs rds wcl B w" and cl: "cl \<in> set rds" and u: "unread_of s cl \<le> unat (write_byte_counter B)" "unread_of s cl < sum_list zs"
  shows "\<exists>s'. add_circ_buf_read_client_reset s (Some cl) False = Some (CIRCBUF_SUCCESS, s')
    \<and> rd_queue s' ns os zs cl = take (unread_of s cl) (recent s b ns os zs)"
proof -
  note D = buf_partsD [OF P]
  obtain c where c: "cb_clients s cl = Some c" "reader_ok ns zs b (pos_of ns zs w) c" using buf_parts_reader [OF P cl] by blast
  have R: "is_read_client c" "circ_buf_ptr c = Some b" using c(2) by (simp_all add: reader_ok_def)
  have uc: "unat (unread_bytes c) = unread_of s cl" using c(1) by (simp add: unread_of_def)
  have le: "write_byte_counter B \<le> circ_buf_size B" "unread_bytes c \<le> write_byte_counter B" "unread_bytes c < circ_buf_size B"
    using D(3,11) u uc by (simp_all add: word_le_nat_alt word_less_nat_alt)
  have mn: "min (unread_bytes c) (min (write_byte_counter B) (circ_buf_size B)) = unread_bytes c" using le by simp
  define c1 where "c1 = c\<lparr>rw_chunk_node_ptr := rw_chunk_node_ptr w, rw_chunk_offset := rw_chunk_offset w\<rparr>"
  let ?s = "s\<lparr>cb_clients := (cb_clients s)(cl \<mapsto> c1)\<rparr>" and ?n = "circ_buf_size B - write_byte_counter B"
  have c1: "placed ns zs c1" "pos_of ns zs c1 = pos_of ns zs w" using D(8) by (simp_all add: c1_def placed_def pos_of_def at_pos_def)
  have n: "unat ?n = sum_list zs - unat (write_byte_counter B)" using unat_sub [OF le(1)] D(3) by simp
  have ch: "chunks_ok ?s (head_chunk_ptr B) ns os zs" using D(2) chunks_ok_cong(1) [of ?s s] by simp
  from shift_client_ok [OF ch _ D(3), of b cl c1 ?n] obtain c2 node off where c2:
      "shift_client ?s (Some b) (Some cl) ?n = Some (CIRCBUF_SUCCESS, ?s\<lparr>cb_clients := (cb_clients ?s)(cl \<mapsto> c2)\<rparr>)"
      "c2 = c1\<lparr>rw_chunk_node_ptr := node, rw_chunk_offset := off\<rparr>" "pos_of ns zs c2 = (pos_of ns zs c1 + unat ?n) mod sum_list zs"
    using D(1) c1(1) n by auto
  let ?t = "s\<lparr>cb_clients := (cb_clients s)(cl \<mapsto> c2)\<rparr>"
  have c1u: "c\<lparr>rw_chunk_node_ptr := rw_chunk_node_ptr w, rw_chunk_offset := rw_chunk_offset w, unread_bytes := unread_bytes c\<rparr> = c1" by (simp add: c1_def)
  have run: "add_circ_buf_read_client_reset s (Some cl) False = Some (CIRCBUF_SUCCESS, ?t)"
    using c(1) R D(1,5,6) mn c2(1) le(3)
    by (simp add: add_circ_buf_read_client_reset_def Let_def upd_client_def modify_Some c1u) (simp add: c1_def)
  have "rd_queue ?t ns os zs cl = rget (ring_of s os) (pos_of ns zs c2) (unread_of s cl)"
    using chunks_ok_cong(2) [of ?t s os] uc c2(2) by (simp add: rd_queue_def c1_def)
  also have "\<dots> = rget (ring_of s os) (pos_of ns zs w + sum_list zs - unat (write_byte_counter B)) (unread_of s cl)"
    using c2(3) c1(2) n D(11) buf_parts_chunks(4) [OF P] by (intro rget_cong) simp
  also have "\<dots> = take (unread_of s cl) (recent s b ns os zs)"
    using take_rbehind(1) [of "unread_of s cl" "unat (write_byte_counter B)" "ring_of s os" "pos_of ns zs w"] recent_parts [OF P] u(1) D(11) buf_parts_chunks(4) [OF P] by simp
  finally show ?thesis using run by blast
qed

subsection \<open>The contract\<close>

text \<open>The operations of a buffer as operations of the contract.\<close>

definition dam_put :: "u32 \<Rightarrow> 64 word \<Rightarrow> addr \<Rightarrow> circ_state \<Rightarrow> u8 list \<Rightarrow> circ_state option" where
  "dam_put vts ts wcl s bs = map_option snd (circ_buf_write s (Some wcl) (Src_bytes bs) (of_nat (length bs)) vts ts)"

definition dam_get :: "circ_state \<Rightarrow> addr \<Rightarrow> nat \<Rightarrow> (u8 list \<times> circ_state) option" where
  "dam_get s cl n = map_option (\<lambda>(_, out, _, s). (out, s)) (circ_buf_read s (Some cl) True (of_nat n))"

definition dam_seek :: "bool \<Rightarrow> circ_state \<Rightarrow> addr \<Rightarrow> nat \<Rightarrow> circ_state option" where
  "dam_seek force s cl n = map_option (\<lambda>(_, _, s). s) (circ_buf_read_adjust s (Some cl) (of_nat n) force)"

definition dam_inv :: "addr \<Rightarrow> addr list \<Rightarrow> addr list \<Rightarrow> nat list \<Rightarrow> addr list \<Rightarrow> addr \<Rightarrow> circ_state \<Rightarrow> bool" where
  "dam_inv b ns os zs rds wcl s \<longleftrightarrow> buf_inv s b ns os zs rds wcl \<and> sum_list zs < 2 ^ 31"

lemma unat_of_nat_small: "n \<le> N \<Longrightarrow> N < 2 ^ 31 \<Longrightarrow> unat (of_nat n :: u32) = n"
  by (simp add: unat_of_nat)

lemma recent_other:
  assumes "buf_parts s b ns os zs rds wcl B w" "buf_parts s' b ns os zs rds wcl B w" "cb_chunks s' = cb_chunks s"
  shows "recent s' b ns os zs = recent s b ns os zs"
  using recent_parts [OF assms(1)] recent_parts [OF assms(2)] chunks_ok_cong(2) [OF assms(3)] by simp

lemma dam_put_law:
  assumes I: "dam_inv b ns os zs rds wcl s" and n: "length bs \<le> sum_list zs"
  shows "\<exists>s'. dam_put vts ts wcl s bs = Some s' \<and> dam_inv b ns os zs rds wcl s'
    \<and> recent s' b ns os zs = last_n (sum_list zs) (recent s b ns os zs @ bs)
    \<and> (\<forall>cl \<in> set rds. rd_queue s' ns os zs cl = last_n (sum_list zs) (rd_queue s ns os zs cl @ bs))"
proof -
  have J: "buf_inv s b ns os zs rds wcl" "sum_list zs < 2 ^ 31" using I by (simp_all add: dam_inv_def)
  note u = unat_of_nat_small [OF n J(2)]
  have src: "src_bytes (Src_bytes bs) 0 (unat (of_nat (length bs) :: u32)) bs" using u by (simp add: src_bytes_def)
  have le: "unat (of_nat (length bs) :: u32) \<le> sum_list zs" using u n by simp
  obtain rc s' where r: "add_circ_buf_write_util s (Some wcl) (Src_bytes bs) 0 (of_nat (length bs)) vts ts = Some (rc, s')" "buf_inv s' b ns os zs rds wcl"
      "\<forall>cl \<in> set rds. rd_queue s' ns os zs cl = last_n (sum_list zs) (rd_queue s ns os zs cl @ bs)"
    using write_queues [OF J(1) le src, of vts ts] by (elim exE conjE) (rule that; assumption)
  show ?thesis using r J(2) write_recent [OF J(1) le src J(2) r(1)]
    by (intro exI [of _ s']) (simp add: dam_put_def circ_buf_write_def dam_inv_def)
qed

lemma dam_get_law:
  assumes I: "dam_inv b ns os zs rds wcl s" and cl: "cl \<in> set rds" and n: "n \<le> sum_list zs"
  shows "\<exists>s'. dam_get s cl n = Some (take n (rd_queue s ns os zs cl), s') \<and> dam_inv b ns os zs rds wcl s'
    \<and> recent s' b ns os zs = recent s b ns os zs \<and> rd_queue s' ns os zs cl = drop n (rd_queue s ns os zs cl)
    \<and> (\<forall>cl' \<in> set rds - {cl}. rd_queue s' ns os zs cl' = rd_queue s ns os zs cl')"
proof -
  have J: "buf_inv s b ns os zs rds wcl" "sum_list zs < 2 ^ 31" using I by (simp_all add: dam_inv_def)
  obtain B w where P: "buf_parts s b ns os zs rds wcl B w" using J(1) by (auto simp: buf_inv_def)
  note u = unat_of_nat_small [OF n J(2)]
  show ?thesis
  proof (cases "rd_queue s ns os zs cl = [] \<and> n \<noteq> 0")
    case True
    have "(of_nat n :: u32) \<noteq> 0" using True u by auto
    then have "circ_buf_read s (Some cl) True (of_nat n) = Some (CIRCBUF_UNDERRUN, [], None, s)"
      using read_empty [OF J(1) cl, of "of_nat n"] True u n by simp
    then show ?thesis using True I by (intro exI [of _ s]) (simp add: dam_get_def)
  next
    case False
    then have ne: "rd_queue s ns os zs cl \<noteq> [] \<or> (of_nat n :: u32) = 0" by auto
    have le: "unat (of_nat n :: u32) \<le> sum_list zs" using u n by simp
    obtain s' B' w' where r: "circ_buf_read s (Some cl) True (of_nat n)
        = Some (CIRCBUF_SUCCESS, take n (rd_queue s ns os zs cl), Some (of_nat (min n (length (rd_queue s ns os zs cl)))), s')"
        "buf_parts s' b ns os zs rds wcl B w" "rd_queue s' ns os zs cl = drop n (rd_queue s ns os zs cl)" "cb_chunks s' = cb_chunks s"
        "\<forall>cl' \<in> set rds - {cl}. rd_queue s' ns os zs cl' = rd_queue s ns os zs cl'"
      using read_parts [OF P cl le ne] unfolding u by blast
    have "buf_inv s' b ns os zs rds wcl" unfolding buf_inv_def by (intro exI, rule r(2))
    then show ?thesis using r J(2) recent_other [OF P r(2,4)] by (intro exI [of _ s']) (simp add: dam_get_def dam_inv_def)
  qed
qed

lemma dam_seek_law:
  assumes I: "dam_inv b ns os zs rds wcl s" and cl: "cl \<in> set rds" and n: "n \<le> sum_list zs"
    and q: "q = (if force then recent s b ns os zs else rd_queue s ns os zs cl)"
  shows "\<exists>s'. dam_seek force s cl n = Some s' \<and> dam_inv b ns os zs rds wcl s' \<and> recent s' b ns os zs = recent s b ns os zs
    \<and> rd_queue s' ns os zs cl = last_n n q \<and> (\<forall>cl' \<in> set rds - {cl}. rd_queue s' ns os zs cl' = rd_queue s ns os zs cl')"
proof -
  have J: "buf_inv s b ns os zs rds wcl" "sum_list zs < 2 ^ 31" using I by (simp_all add: dam_inv_def)
  obtain B w where P: "buf_parts s b ns os zs rds wcl B w" using J(1) by (auto simp: buf_inv_def)
  note u = unat_of_nat_small [OF n J(2)]
  obtain s' m where r: "circ_buf_read_adjust s (Some cl) (of_nat n) force = Some (CIRCBUF_SUCCESS, m, s')"
      "buf_parts s' b ns os zs rds wcl B w" "rd_queue s' ns os zs cl = last_n n q" "cb_chunks s' = cb_chunks s"
      "\<forall>cl' \<in> set rds - {cl}. rd_queue s' ns os zs cl' = rd_queue s ns os zs cl'"
    using seek_ok [OF P cl, of "of_nat n"] rewind_ok [OF P cl, of "of_nat n"] unfolding u q by (cases force) auto
  have "buf_inv s' b ns os zs rds wcl" unfolding buf_inv_def by (intro exI, rule r(2))
  then show ?thesis using r J(2) recent_other [OF P r(2,4)] by (intro exI [of _ s']) (simp add: dam_seek_def dam_inv_def)
qed

interpretation dam: broadcast_buffer "dam_inv b ns os zs rds wcl" "sum_list zs" "set rds"
  "\<lambda>s. recent s b ns os zs" "\<lambda>s. rd_queue s ns os zs" "dam_put vts ts wcl" dam_get "dam_seek False" "dam_seek True"
  for b ns os zs rds wcl vts ts
proof unfold_locales
  fix s :: circ_state
  assume I: "dam_inv b ns os zs rds wcl s"
  then obtain B w where "buf_parts s b ns os zs rds wcl B w" by (auto simp: dam_inv_def buf_inv_def)
  then show "length (recent s b ns os zs) \<le> sum_list zs" using recent_parts buf_partsD(11) by simp
  show "\<exists>s'. dam_put vts ts wcl s bs = Some s' \<and> dam_inv b ns os zs rds wcl s' \<and> recent s' b ns os zs = last_n (sum_list zs) (recent s b ns os zs @ bs)
      \<and> (\<forall>r \<in> set rds. rd_queue s' ns os zs r = last_n (sum_list zs) (rd_queue s ns os zs r @ bs))" if "length bs \<le> sum_list zs" for bs
    by (rule dam_put_law [OF I that])
qed (use dam_get_law dam_seek_law [where force = False] dam_seek_law [where force = True] in simp_all)


text \<open>A sequence of operations on a buffer, and the abstract state it stands for.\<close>

definition dam_run :: "u32 \<Rightarrow> 64 word \<Rightarrow> addr \<Rightarrow> circ_state \<Rightarrow> (addr, u8) bop list \<Rightarrow> (u8 list list \<times> circ_state) option" where
  "dam_run vts ts wcl = exec_ops (exec_op (dam_put vts ts wcl) dam_get (dam_seek False) (dam_seek True))"

definition dam_abs :: "addr \<Rightarrow> addr list \<Rightarrow> addr list \<Rightarrow> nat list \<Rightarrow> circ_state \<Rightarrow> (addr, u8) bstate" where
  "dam_abs b ns os zs s = \<lparr>hist = recent s b ns os zs, queues = rd_queue s ns os zs\<rparr>"

subsection \<open>An example\<close>

text \<open>A buffer of two chunks of 3 and 2 bytes; one reader has two unread bytes, the other one five.\<close>

definition ex_dam :: circ_state where
  "ex_dam = \<lparr>cb_lists = ex_lists\<lparr>nodes := [
       10 \<mapsto> \<lparr>next_ptr = Some 20, prev_ptr = None, obj_ptr = Some 100\<rparr>,
       20 \<mapsto> \<lparr>next_ptr = None, prev_ptr = Some 10, obj_ptr = Some 200\<rparr>,
       30 \<mapsto> \<lparr>next_ptr = Some 40, prev_ptr = None, obj_ptr = Some 3\<rparr>,
       40 \<mapsto> \<lparr>next_ptr = None, prev_ptr = Some 30, obj_ptr = Some 4\<rparr>]\<rparr>,
     cb_chunks = [100 \<mapsto> \<lparr>ck_id = 0, ck_size = 3, ck_data = [1, 2, 3]\<rparr>, 200 \<mapsto> \<lparr>ck_id = 1, ck_size = 2, ck_data = [4, 5]\<rparr>],
     cb_clients = [
       2 \<mapsto> zero_client\<lparr>circ_buf_ptr := Some 1, rw_chunk_node_ptr := Some 20, rw_chunk_offset := 1\<rparr>,
       3 \<mapsto> zero_client\<lparr>is_read_client := True, circ_buf_ptr := Some 1, rw_chunk_node_ptr := Some 10, rw_chunk_offset := 2, unread_bytes := 2\<rparr>,
       4 \<mapsto> zero_client\<lparr>is_read_client := True, circ_buf_ptr := Some 1, rw_chunk_node_ptr := Some 20, rw_chunk_offset := 1, unread_bytes := 5\<rparr>],
     cb_bufs = [1 \<mapsto> zero_buf\<lparr>circ_buf_size := 5, preferred_chunk_size := 3, num_chunks := 2, head_chunk_ptr := Some 10, wr_client_ptr := Some 2,
       write_byte_counter := 5, num_read_clients := 2, rd_client_list_ptr := Some 30\<rparr>]\<rparr>"

lemma ex_dam_simps [simp]:
  "objs (cb_lists ex_dam) = {100, 200}" "cb_bufs ex_dam = [1 \<mapsto> zero_buf\<lparr>circ_buf_size := 5, preferred_chunk_size := 3, num_chunks := 2,
     head_chunk_ptr := Some 10, wr_client_ptr := Some 2, write_byte_counter := 5, num_read_clients := 2, rd_client_list_ptr := Some 30\<rparr>]"
  by (simp_all add: ex_dam_def)

lemma ex_dam_lists: "slist (cb_nodes ex_dam) (Some 10) [10, 20] (map Some [100, 200])" "slist (cb_nodes ex_dam) (Some 30) [30, 40] (map Some [3, 4])"
  by (simp_all add: ex_dam_def slist_def dll_def obj_at_def nxt_def prv_def)

lemma ex_dam_ring: "ring_of ex_dam [100, 200] = [1, 2, 3, 4, 5]"
  by (simp add: ex_dam_def ring_of_def blocks_def)

lemma ex_dam_inv: "dam_inv 1 [10, 20] [100, 200] [3, 2] [3, 4] 2 ex_dam"
proof -
  have ch: "chunks_ok ex_dam (Some 10) [10, 20] [100, 200] [3, 2]"
    using ex_dam_lists(1) by (auto simp: chunks_ok_def less_Suc_eq ex_dam_def)
  have pl: "at_pos [10, 20] [3, 2] (Some 10) (2 :: u32) (Suc (Suc 0))" "at_pos [10, 20] [3, 2] (Some 20) (1 :: u32) 4"
    by (auto simp: at_pos_def zpos_def intro: exI [of _ "0 :: nat"] exI [of _ "1 :: nat"])
  have "buf_parts ex_dam 1 [10, 20] [100, 200] [3, 2] [3, 4] 2 (the (cb_bufs ex_dam 1)) (the (cb_clients ex_dam 2))"
    using ch ex_dam_lists(2) pl unfolding buf_parts_def
    by (auto simp: zero_buf_def ex_dam_def zero_client_def reader_ok_def placed_def pos_of_def zpos_def intro: exI [of _ "[30, 40]"])
  then show ?thesis unfolding dam_inv_def buf_inv_def by auto
qed

lemma ex_dam_queues: "rd_queue ex_dam [10, 20] [100, 200] [3, 2] 3 = [3, 4]" "rd_queue ex_dam [10, 20] [100, 200] [3, 2] 4 = [5, 1, 2, 3, 4]"
  by (simp_all add: rd_queue_def ex_dam_def ring_of_def blocks_def rget_def upt_rec zero_client_def pos_of_def zpos_def)

lemma ex_dam_recent: "recent ex_dam 1 [10, 20] [100, 200] [3, 2] = [5, 1, 2, 3, 4]"
  by (simp add: recent_def ex_dam_def ring_of_def blocks_def rbehind_def rget_def upt_rec zero_client_def zero_buf_def pos_of_def zpos_def)

subsection \<open>Properties\<close>

text \<open>
  C7: a write of at most the size of the buffer always returns, keeps the invariant and appends the bytes to the queue of every reader; of
  a queue that would get longer than the buffer the oldest bytes are dropped. The result says whether a reader lost bytes.
\<close>

theorem circ_buf_write_ok:
  assumes "buf_inv s b ns os zs rds wcl" and "length bs \<le> sum_list zs"
  shows "\<exists>rc s'. circ_buf_write s (Some wcl) (Src_bytes bs) (of_nat (length bs)) vts ts = Some (rc, s') \<and> buf_inv s' b ns os zs rds wcl
    \<and> (\<forall>cl \<in> set rds. rd_queue s' ns os zs cl = last_n (sum_list zs) (rd_queue s ns os zs cl @ bs))
    \<and> rc = (if \<exists>cl \<in> set rds. sum_list zs < length (rd_queue s ns os zs cl @ bs) then CIRCBUF_OVERRUN else CIRCBUF_SUCCESS)"
proof -
  obtain B w where P: "buf_parts s b ns os zs rds wcl B w" using assms(1) by (auto simp: buf_inv_def)
  have "sum_list zs < 2 ^ 32" using buf_partsD(3) [OF P] unat_lt32 [of "circ_buf_size B"] by simp
  then have u: "unat (of_nat (length bs) :: u32) = length bs" using assms(2) by (simp add: unat_of_nat)
  then have "src_bytes (Src_bytes bs) 0 (unat (of_nat (length bs) :: u32)) bs" "unat (of_nat (length bs) :: u32) \<le> sum_list zs"
    using assms(2) by (simp_all add: src_bytes_def)
  then show ?thesis using write_queues [OF assms(1), of "of_nat (length bs)" "Src_bytes bs" 0 bs vts ts] unfolding circ_buf_write_def by blast
qed

theorem circ_buf_write_ok_witness:
  "\<exists>rc s'. circ_buf_write ex_dam (Some 2) (Src_bytes [7, 8]) (of_nat (length [7, 8 :: u8])) 1 9 = Some (rc, s') \<and> buf_inv s' 1 [10, 20] [100, 200] [3, 2] [3, 4] 2
    \<and> (\<forall>cl \<in> set [3, 4]. rd_queue s' [10, 20] [100, 200] [3, 2] cl = last_n (sum_list [3, 2]) (rd_queue ex_dam [10, 20] [100, 200] [3, 2] cl @ [7, 8]))
    \<and> rc = (if \<exists>cl \<in> set [3, 4]. sum_list [3, 2] < length (rd_queue ex_dam [10, 20] [100, 200] [3, 2] cl @ [7, 8]) then CIRCBUF_OVERRUN else CIRCBUF_SUCCESS)"
  by (rule circ_buf_write_ok) (use ex_dam_inv in \<open>simp_all add: dam_inv_def\<close>)

text \<open>
  C17: a read returns the oldest unread bytes of the reader, as many as asked for or as there are, takes them from its queue and no other
  one, and keeps the invariant; the length that is reported is the number of bytes returned.
\<close>

theorem circ_buf_read_ok:
  assumes "buf_inv s b ns os zs rds wcl" and "cl \<in> set rds" and "unat n \<le> sum_list zs" and "rd_queue s ns os zs cl \<noteq> []"
  shows "\<exists>s'. circ_buf_read s (Some cl) True n
      = Some (CIRCBUF_SUCCESS, take (unat n) (rd_queue s ns os zs cl), Some (of_nat (min (unat n) (length (rd_queue s ns os zs cl)))), s')
    \<and> buf_inv s' b ns os zs rds wcl \<and> rd_queue s' ns os zs cl = drop (unat n) (rd_queue s ns os zs cl)
    \<and> (\<forall>cl' \<in> set rds - {cl}. rd_queue s' ns os zs cl' = rd_queue s ns os zs cl')"
proof -
  obtain B w where P: "buf_parts s b ns os zs rds wcl B w" using assms(1) by (auto simp: buf_inv_def)
  show ?thesis using read_parts [OF P assms(2,3)] assms(4) unfolding buf_inv_def by blast
qed

theorem circ_buf_read_ok_witness:
  "\<exists>s'. circ_buf_read ex_dam (Some 4) True 3
      = Some (CIRCBUF_SUCCESS, take (unat (3 :: u32)) (rd_queue ex_dam [10, 20] [100, 200] [3, 2] 4), Some (of_nat (min (unat (3 :: u32)) (length (rd_queue ex_dam [10, 20] [100, 200] [3, 2] 4)))), s')
    \<and> buf_inv s' 1 [10, 20] [100, 200] [3, 2] [3, 4] 2 \<and> rd_queue s' [10, 20] [100, 200] [3, 2] 4 = drop (unat (3 :: u32)) (rd_queue ex_dam [10, 20] [100, 200] [3, 2] 4)
    \<and> (\<forall>cl' \<in> set [3, 4] - {4}. rd_queue s' [10, 20] [100, 200] [3, 2] cl' = rd_queue ex_dam [10, 20] [100, 200] [3, 2] cl')"
  by (rule circ_buf_read_ok) (use ex_dam_inv ex_dam_queues in \<open>simp_all add: dam_inv_def\<close>)

text \<open>
  C3: any sequence of writes, reads and moves of readers that ask for no more than the size of the buffer returns, gives exactly what the
  abstract machine with one bounded queue for each reader gives, and ends in a state that stands for its state.
\<close>

theorem dam_run_refines:
  assumes "dam_inv b ns os zs rds wcl s" and "list_all (valid_op (sum_list zs) (set rds)) xs"
  shows "\<exists>s'. dam_run vts ts wcl s xs = Some (fst (aexec (sum_list zs) (dam_abs b ns os zs s) xs), s') \<and> dam_inv b ns os zs rds wcl s'
    \<and> recent s' b ns os zs = last_n (sum_list zs) (recent s b ns os zs @ puts xs)
    \<and> (\<forall>cl \<in> set rds. rd_queue s' ns os zs cl = queues (snd (aexec (sum_list zs) (dam_abs b ns os zs s) xs)) cl)"
  unfolding dam_run_def dam_abs_def by (rule dam.run_refines [OF assms])

theorem dam_run_refines_witness:
  "\<exists>s'. dam_run 1 9 2 ex_dam [Get 3 1, Put [7, 8], Rewind 3 4, Get 3 5]
      = Some (fst (aexec (sum_list [3, 2]) (dam_abs 1 [10, 20] [100, 200] [3, 2] ex_dam) [Get 3 1, Put [7, 8], Rewind 3 4, Get 3 5]), s')
    \<and> dam_inv 1 [10, 20] [100, 200] [3, 2] [3, 4] 2 s'
    \<and> recent s' 1 [10, 20] [100, 200] [3, 2] = last_n (sum_list [3, 2]) (recent ex_dam 1 [10, 20] [100, 200] [3, 2] @ puts [Get 3 1, Put [7, 8], Rewind 3 4, Get (3 :: addr) 5])
    \<and> (\<forall>cl \<in> set [3, 4]. rd_queue s' [10, 20] [100, 200] [3, 2] cl
        = queues (snd (aexec (sum_list [3, 2]) (dam_abs 1 [10, 20] [100, 200] [3, 2] ex_dam) [Get 3 1, Put [7, 8], Rewind 3 4, Get 3 5])) cl)"
  by (rule dam_run_refines [OF ex_dam_inv]) simp

text \<open>
  C5: a reader that is not moved and that never falls more than the size of the buffer behind gets all bytes: what it read, followed by
  what it has not read yet, is what it had not read at the beginning, followed by what was written.
\<close>

theorem dam_reader_lossless:
  assumes "dam_inv b ns os zs rds wcl s" and "list_all (valid_op (sum_list zs) (set rds)) xs" and "cl \<in> set rds"
    and "\<forall>x \<in> set xs. \<not> moves cl x" and "keeps_up (sum_list zs) cl (dam_abs b ns os zs s) xs"
  shows "\<exists>outs s'. dam_run vts ts wcl s xs = Some (outs, s') \<and> dam_inv b ns os zs rds wcl s'
    \<and> gets cl xs outs @ rd_queue s' ns os zs cl = rd_queue s ns os zs cl @ puts xs"
  using dam.run_lossless [OF assms(1-4)] assms(5) unfolding dam_run_def dam_abs_def by blast

theorem dam_reader_lossless_witness:
  "\<exists>outs s'. dam_run 1 9 2 ex_dam [Put [7, 8], Get 3 3, Put [9, 1, 2]] = Some (outs, s') \<and> dam_inv 1 [10, 20] [100, 200] [3, 2] [3, 4] 2 s'
    \<and> gets (3 :: addr) [Put [7, 8], Get 3 3, Put [9, 1, 2]] outs @ rd_queue s' [10, 20] [100, 200] [3, 2] 3
      = rd_queue ex_dam [10, 20] [100, 200] [3, 2] 3 @ puts [Put [7, 8], Get (3 :: addr) 3, Put [9, 1, 2]]"
  by (rule dam_reader_lossless [OF ex_dam_inv]) (simp_all add: dam_abs_def ex_dam_queues)

text \<open>
  C25: a reader that is never moved with force, but may fall behind and may be moved without force, can lose bytes but never gets a byte twice,
  out of order or one that was not written: in any sequence of operations that ask for no more than the size of the buffer, what it read and has
  not read yet is a subsequence of what was there and what was written.  A move with force can take it back to bytes that it has read.
\<close>

theorem dam_reader_in_order:
  assumes "dam_inv b ns os zs rds wcl s" and "list_all (valid_op (sum_list zs) (set rds)) xs" and "cl \<in> set rds" and "\<forall>x \<in> set xs. \<not> rewinds cl x"
  shows "\<exists>outs s'. dam_run vts ts wcl s xs = Some (outs, s') \<and> dam_inv b ns os zs rds wcl s'
    \<and> subseq (gets cl xs outs @ rd_queue s' ns os zs cl) (rd_queue s ns os zs cl @ puts xs)"
  using dam.run_in_order [OF assms] unfolding dam_run_def .

theorem dam_reader_in_order_witness:
  "\<exists>outs s'. dam_run 1 9 2 ex_dam [Put [7, 8], Get 4 3, Seek 4 1, Put [9, 1, 2]] = Some (outs, s') \<and> dam_inv 1 [10, 20] [100, 200] [3, 2] [3, 4] 2 s'
    \<and> subseq (gets (4 :: addr) [Put [7, 8], Get 4 3, Seek 4 1, Put [9, 1, 2]] outs @ rd_queue s' [10, 20] [100, 200] [3, 2] 4)
      (rd_queue ex_dam [10, 20] [100, 200] [3, 2] 4 @ puts [Put [7, 8], Get (4 :: addr) 3, Seek 4 1, Put [9, 1, 2]])"
  by (rule dam_reader_in_order [OF ex_dam_inv]) simp_all

text \<open>
  C28: adjusting the position of a reader leaves it with the last \<open>off\<close> bytes before the writer, of its unread bytes, or, with force, of all bytes
  written that are still in the buffer; the offset that is reported is the number of unread bytes then, and other readers do not notice.
\<close>

theorem circ_buf_read_adjust_ok:
  assumes "buf_inv s b ns os zs rds wcl" and "cl \<in> set rds" and "q = (if force then recent s b ns os zs else rd_queue s ns os zs cl)"
  shows "\<exists>s'. circ_buf_read_adjust s (Some cl) off force = Some (CIRCBUF_SUCCESS, Some (of_nat (min (unat off) (length q))), s')
    \<and> buf_inv s' b ns os zs rds wcl \<and> rd_queue s' ns os zs cl = last_n (unat off) q
    \<and> (\<forall>cl' \<in> set rds - {cl}. rd_queue s' ns os zs cl' = rd_queue s ns os zs cl')"
proof -
  obtain B w where P: "buf_parts s b ns os zs rds wcl B w" using assms(1) by (auto simp: buf_inv_def)
  show ?thesis
  proof (cases force)
    case True
    then show ?thesis using rewind_ok [OF P assms(2), of off] assms(3) unfolding buf_inv_def by auto
  next
    case False
    then show ?thesis using seek_ok [OF P assms(2), of off] assms(3) unfolding buf_inv_def by auto
  qed
qed

theorem circ_buf_read_adjust_ok_witness:
  "\<exists>s'. circ_buf_read_adjust ex_dam (Some 3) 4 True = Some (CIRCBUF_SUCCESS, Some (of_nat (min (unat (4 :: u32)) (length [5, 1, 2, 3, 4 :: u8]))), s')
    \<and> buf_inv s' 1 [10, 20] [100, 200] [3, 2] [3, 4] 2 \<and> rd_queue s' [10, 20] [100, 200] [3, 2] 3 = last_n (unat (4 :: u32)) [5, 1, 2, 3, 4]
    \<and> (\<forall>cl' \<in> set [3, 4] - {3}. rd_queue s' [10, 20] [100, 200] [3, 2] cl' = rd_queue ex_dam [10, 20] [100, 200] [3, 2] cl')"
  by (rule circ_buf_read_adjust_ok) (use ex_dam_inv ex_dam_recent in \<open>simp_all add: dam_inv_def\<close>)

text \<open>
  requests that cannot be served change nothing: a write or a read larger than the buffer fails, and a read from an empty queue is an underrun;
  no bytes are returned and the caller's length is not set.
\<close>

theorem circ_buf_requests_refused:
  assumes "buf_inv s b ns os zs rds wcl" and "cl \<in> set rds"
  shows "(sum_list zs < unat n \<longrightarrow> circ_buf_write s (Some wcl) src n vts ts = Some (CIRCBUF_FAIL, s))
    \<and> (sum_list zs < unat n \<longrightarrow> circ_buf_read s (Some cl) True n = Some (CIRCBUF_FAIL, [], None, s))
    \<and> (0 < n \<longrightarrow> unat n \<le> sum_list zs \<longrightarrow> rd_queue s ns os zs cl = [] \<longrightarrow> circ_buf_read s (Some cl) True n = Some (CIRCBUF_UNDERRUN, [], None, s))"
  using too_large [OF assms(1)] read_empty [OF assms(1,2)] assms(2) by (auto simp: circ_buf_write_def)

theorem circ_buf_requests_refused_witness:
  "circ_buf_write ex_dam (Some 2) Src_null 6 0 0 = Some (CIRCBUF_FAIL, ex_dam) \<and> circ_buf_read ex_dam (Some 3) True 6 = Some (CIRCBUF_FAIL, [], None, ex_dam)"
  using circ_buf_requests_refused [of ex_dam 1 "[10, 20]" "[100, 200]" "[3, 2]" "[3, 4]" 2 3 6 Src_null 0 0] ex_dam_inv by (simp add: dam_inv_def)

text \<open>
  setting memory to a value is a write of that many equal bytes without a time stamp, in its effect on the queues and in its result.
\<close>

theorem circ_buf_memset_ok:
  assumes "buf_inv s b ns os zs rds wcl" and "unat n \<le> sum_list zs"
  shows "\<exists>rc s'. circ_buf_memset s (Some b) v n = Some (rc, s') \<and> buf_inv s' b ns os zs rds wcl
    \<and> (\<forall>cl \<in> set rds. rd_queue s' ns os zs cl = last_n (sum_list zs) (rd_queue s ns os zs cl @ replicate (unat n) v))
    \<and> rc = (if \<exists>cl \<in> set rds. sum_list zs < length (rd_queue s ns os zs cl) + unat n then CIRCBUF_OVERRUN else CIRCBUF_SUCCESS)"
proof -
  obtain B w where P: "buf_parts s b ns os zs rds wcl B w" using assms(1) by (auto simp: buf_inv_def)
  have "src_bytes Src_null v (unat n) (replicate (unat n) v)" by (simp add: src_bytes_def)
  from write_queues [OF assms this, of 0 0] show ?thesis using buf_partsD(1,5) [OF P] by (simp add: circ_buf_memset_def)
qed

theorem circ_buf_memset_ok_witness:
  "\<exists>rc s'. circ_buf_memset ex_dam (Some 1) 6 3 = Some (rc, s') \<and> buf_inv s' 1 [10, 20] [100, 200] [3, 2] [3, 4] 2
    \<and> (\<forall>cl \<in> set [3, 4]. rd_queue s' [10, 20] [100, 200] [3, 2] cl
        = last_n (sum_list [3, 2]) (rd_queue ex_dam [10, 20] [100, 200] [3, 2] cl @ replicate (unat (3 :: u32)) 6))
    \<and> rc = (if \<exists>cl \<in> set [3, 4]. sum_list [3, 2] < length (rd_queue ex_dam [10, 20] [100, 200] [3, 2] cl) + unat (3 :: u32) then CIRCBUF_OVERRUN else CIRCBUF_SUCCESS)"
  by (rule circ_buf_memset_ok) (use ex_dam_inv in \<open>simp_all add: dam_inv_def\<close>)

text \<open>
  a reset without force, which every reader gets when the buffer shrinks, changes what a reader reads next: with \<open>u\<close> unread bytes it gets the
  oldest \<open>u\<close> of all bytes written that are in the buffer, not the newest \<open>u\<close>, which are the unread ones. The distance to the
  writer is taken from the write counter and not from the unread count.
\<close>

theorem read_reset_rereads:
  assumes "buf_parts s b ns os zs rds wcl B w" and "cl \<in> set rds"
    and "length (rd_queue s ns os zs cl) \<le> length (recent s b ns os zs)" and "length (rd_queue s ns os zs cl) < sum_list zs"
  shows "\<exists>s'. add_circ_buf_read_client_reset s (Some cl) False = Some (CIRCBUF_SUCCESS, s')
    \<and> rd_queue s' ns os zs cl = take (length (rd_queue s ns os zs cl)) (recent s b ns os zs)
    \<and> rd_queue s ns os zs cl = last_n (length (rd_queue s ns os zs cl)) (recent s b ns os zs)"
proof -
  let ?u = "unread_of s cl" and ?k = "unat (write_byte_counter B)"
  note q = queue_behind_writer [OF assms(1,2)] and rp = recent_parts [OF assms(1)]
  have u: "?u \<le> ?k" "?u < sum_list zs" using assms(3,4) q(3) rp by simp_all
  have "last_n ?u (recent s b ns os zs) = drop (?k - ?u) (rbehind (ring_of s os) (pos_of ns zs w) ?k)" using rp by (simp add: last_n_def)
  also have "\<dots> = rbehind (ring_of s os) (pos_of ns zs w) ?u"
    using take_rbehind(2) [of "?k - ?u" ?k "ring_of s os" "pos_of ns zs w"] u buf_partsD(11) [OF assms(1)] buf_parts_chunks(4) [OF assms(1)] by simp
  finally have "rd_queue s ns os zs cl = last_n ?u (recent s b ns os zs)" using q(1) by simp
  then show ?thesis using reset_keep [OF assms(1,2) u] q(3) by simp
qed

lemma ex_dam_parts: "buf_parts ex_dam 1 [10, 20] [100, 200] [3, 2] [3, 4] 2 (the (cb_bufs ex_dam 1)) (the (cb_clients ex_dam 2))"
proof -
  obtain B w where "buf_parts ex_dam 1 [10, 20] [100, 200] [3, 2] [3, 4] 2 B w" using ex_dam_inv by (auto simp: dam_inv_def buf_inv_def)
  then show ?thesis using buf_partsD(1,6) by (metis option.sel)
qed

theorem read_reset_rereads_witness:
  "\<exists>s'. add_circ_buf_read_client_reset ex_dam (Some 3) False = Some (CIRCBUF_SUCCESS, s')
    \<and> rd_queue s' [10, 20] [100, 200] [3, 2] 3 = [5, 1] \<and> rd_queue ex_dam [10, 20] [100, 200] [3, 2] 3 = [3, 4]"
  using read_reset_rereads [OF ex_dam_parts, of 3] unfolding ex_dam_queues ex_dam_recent by (simp add: last_n_def)

end
