(* ===== verification/Dam_Circ_Buf_Create.thy ===== *)
theory Dam_Circ_Buf_Create
  imports Dam_Circ_Buf_Contract
begin

text \<open>
  Creating a circular buffer: the chunks a new buffer gets, and the writer and readers that are registered with it. What is assumed of
  the allocators is that they hand out memory that is not in use; they may fail at any time.
\<close>

subsection \<open>New chunks\<close>

definition circ_env_ok :: "circ_env \<Rightarrow> bool" where
  "circ_env_ok env \<longleftrightarrow> (\<forall>l. owns l True \<longrightarrow> env_ok (node_env env l) l True)
     \<and> (\<forall>s n hid a. chunk_mal env s n hid = Some a \<longrightarrow> a \<notin> objs (cb_lists s))"

fun chunk_sizes :: "nat \<Rightarrow> nat \<Rightarrow> nat \<Rightarrow> nat list" where
  "chunk_sizes pref lst 0 = []"
| "chunk_sizes pref lst (Suc k) = (if k = 0 then lst else pref) # chunk_sizes pref lst k"

lemma sum_chunk_sizes: "sum_list (chunk_sizes pref lst k) = (if k = 0 then 0 else (k - 1) * pref + lst)"
proof (induction k)
  case (Suc k)
  then show ?case by (cases k) simp_all
qed simp

text \<open>What the loop leaves alone, from state \<open>s\<close> to state \<open>s'\<close>, for the chunk nodes \<open>ns\<close>.\<close>

definition chunk_frame :: "circ_state \<Rightarrow> addr list \<Rightarrow> circ_state \<Rightarrow> bool" where
  "chunk_frame s ns s' \<longleftrightarrow> owns (cb_lists s') True \<and> cb_clients s' = cb_clients s \<and> cb_bufs s' = cb_bufs s
     \<and> (\<forall>a \<in> dom (cb_nodes s) - set ns. cb_nodes s' a = cb_nodes s a)
     \<and> (\<forall>a \<in> objs (cb_lists s). cb_chunks s' a = cb_chunks s a)"

lemma delete_chunks_ok:
  assumes "chunks_ok s hp ns os zs" "owns (cb_lists s) True"
  shows "\<exists>s'. delete_chunks s hp = Some s' \<and> chunk_frame s ns s' \<and> objs (cb_lists s') = objs (cb_lists s) - set os"
proof -
  have sl: "slist (cb_nodes s) hp ns (map Some os)" "distinct os" "set os \<subseteq> objs (cb_lists s)" using assms(1) by (simp_all add: chunks_ok_def)
  have "distinct (filter (\<lambda>x. x \<noteq> None) (map Some os)) \<and> (\<forall>a. Some a \<in> set (map Some os) \<longrightarrow> a \<in> objs (cb_lists s))"
    using sl(2,3) by (auto simp: distinct_map filter_map comp_def)
  then obtain l where "spf_list_delete_list_instances (cb_lists s) (Some hp) True True = Some (AR_EOK, Some None, l)" "owns l True"
      "keeps (set ns) (cb_nodes s) (nodes l)" "objs l = objs (cb_lists s) - {a. Some a \<in> set (map Some os)}"
    using delete_list_ok [OF sl(1) assms(2), of True] by auto
  then show ?thesis
    by (intro exI [of _ "s\<lparr>cb_lists := l\<rparr>"]) (auto simp: delete_chunks_def spf_list_delete_list_and_free_objs_def chunk_frame_def keeps_def)
qed

lemma new_chunk_ok:
  assumes "circ_env_ok env" "unat n < 2 ^ 32 - 16"
  shows "new_chunk env s hid cid n = Some (None, s) \<or>
    (\<exists>a. a \<notin> objs (cb_lists s) \<and> new_chunk env s hid cid n = Some (Some a, s\<lparr>cb_chunks := (cb_chunks s)(a \<mapsto>
        \<lparr>ck_id = cid, ck_size = n, ck_data = replicate (unat n) 0\<rparr>), cb_lists := (cb_lists s)\<lparr>objs := insert a (objs (cb_lists s))\<rparr>\<rparr>))"
proof (cases "chunk_mal env s (n + 16) hid")
  case (Some a)
  have "unat (n + 16) = unat n + 16" using assms(2) by (simp add: unat_word_ariths)
  then show ?thesis using Some assms(1) by (auto simp: new_chunk_def circ_env_ok_def)
qed (simp add: new_chunk_def)


definition chunks_added :: "circ_state \<Rightarrow> addr list \<Rightarrow> addr list \<Rightarrow> nat list \<Rightarrow> nat list \<Rightarrow> ptr option \<Rightarrow> circ_state \<Rightarrow> bool" where
  "chunks_added s ns os zs zs' r s' \<longleftrightarrow> chunk_frame s ns s' \<and> (case r of None \<Rightarrow> objs (cb_lists s') = objs (cb_lists s) - set os
     | Some hp' \<Rightarrow> (\<exists>ns' os'. chunks_ok s' hp' (ns @ ns') (os @ os') (zs @ zs') \<and> objs (cb_lists s') = objs (cb_lists s) \<union> set os'
         \<and> set os' \<inter> objs (cb_lists s) = {} \<and> set ns' \<inter> dom (cb_nodes s) = {} \<and> (\<forall>a \<in> set os'. \<exists>c. cb_chunks s' a = Some c \<and> set (ck_data c) \<subseteq> {0})))"

lemma chunk_frame_trans:
  assumes "chunk_frame s ns s1" "chunk_frame s1 ns1 s2" "set ns1 \<inter> dom (cb_nodes s) \<subseteq> set ns" "objs (cb_lists s) \<subseteq> objs (cb_lists s1)"
  shows "chunk_frame s ns s2"
proof -
  have "cb_nodes s2 a = cb_nodes s a" if a: "a \<in> dom (cb_nodes s) - set ns" for a
  proof -
    have "cb_nodes s1 a = cb_nodes s a" using assms(1) a by (simp add: chunk_frame_def)
    moreover from this have "a \<in> dom (cb_nodes s1) - set ns1" using a assms(3) by auto
    ultimately show ?thesis using assms(2) by (simp add: chunk_frame_def)
  qed
  then show ?thesis using assms(1,2,4) by (auto simp: chunk_frame_def)
qed

lemma chunks_ok_extend:
  assumes ok: "chunks_ok s hp ns os zs" and sl: "slist (cb_nodes s') hp' (ns @ [x]) (map Some os @ [Some a])" and a: "a \<notin> objs (cb_lists s)"
    and ob: "objs (cb_lists s') = insert a (objs (cb_lists s))" and c: "cb_chunks s' = (cb_chunks s)(a \<mapsto> ck)"
    and ck: "unat (ck_size ck) = z" "length (ck_data ck) = z" "0 < z"
  shows "chunks_ok s' hp' (ns @ [x]) (os @ [a]) (zs @ [z])"
proof -
  have o: "distinct os" "set os \<subseteq> objs (cb_lists s)" "length zs = length os"
    and z: "\<And>i. i < length os \<Longrightarrow> \<exists>c. cb_chunks s (os ! i) = Some c \<and> 0 < zs ! i \<and> unat (ck_size c) = zs ! i \<and> length (ck_data c) = zs ! i"
    using ok by (simp_all add: chunks_ok_def)
  have an: "a \<notin> set os" using o(2) a by auto
  have "\<exists>c. cb_chunks s' ((os @ [a]) ! i) = Some c \<and> 0 < (zs @ [z]) ! i \<and> unat (ck_size c) = (zs @ [z]) ! i \<and> length (ck_data c) = (zs @ [z]) ! i"
    if i: "i < Suc (length os)" for i
  proof (cases "i < length os")
    case True
    then have "os ! i \<noteq> a" using an nth_mem by metis
    then show ?thesis using z [OF True] True o(3) c by (simp add: nth_append)
  next
    case False
    then have "i = length os" using i by simp
    then show ?thesis using o(3) c ck by (simp add: nth_append)
  qed
  then show ?thesis using sl o an ob unfolding chunks_ok_def by auto
qed

lemma add_chunks_loop_ok:
  assumes env: "circ_env_ok env" and sz: "0 < unat pref" "unat pref < 2 ^ 32 - 16" "0 < unat lst" "unat lst < 2 ^ 32 - 16"
    and "owns (cb_lists s) True" "chunks_ok s hp ns os zs"
  shows "\<exists>r s'. add_chunks_loop env s hid pref lst idx hp k = Some (r, s') \<and> chunks_added s ns os zs (chunk_sizes (unat pref) (unat lst) k) r s'"
  using assms(6,7)
proof (induction k arbitrary: s hp ns os zs idx)
  case 0
  then show ?case by (auto simp: chunks_added_def chunk_frame_def intro!: exI [of _ "[]"])
next
  case (Suc k)
  note ow = Suc.prems(1) and ok = Suc.prems(2)
  define n where "n = (if k = 0 then lst else pref)"
  have n: "0 < unat n" "unat n < 2 ^ 32 - 16" using sz by (simp_all add: n_def)
  have dead: "\<exists>s'. delete_chunks s1 hp = Some s' \<and> chunks_added s ns os zs zs' None s'"
    if "cb_nodes s1 = cb_nodes s" "owns (cb_lists s1) True" "objs (cb_lists s1) = objs (cb_lists s)" "cb_clients s1 = cb_clients s" "cb_bufs s1 = cb_bufs s"
      "\<forall>a \<in> objs (cb_lists s). cb_chunks s1 a = cb_chunks s a" for s1 zs'
  proof -
    have ok1: "chunks_ok s1 hp ns os zs" using ok that(1,3,6) by (auto simp: chunks_ok_def subset_iff)
    show ?thesis using delete_chunks_ok [OF ok1 that(2)] that by (auto simp: chunks_added_def chunk_frame_def)
  qed
  consider "new_chunk env s hid idx n = Some (None, s)"
    | a where "a \<notin> objs (cb_lists s)" "new_chunk env s hid idx n = Some (Some a, s\<lparr>cb_chunks := (cb_chunks s)(a \<mapsto>
        \<lparr>ck_id = idx, ck_size = n, ck_data = replicate (unat n) 0\<rparr>), cb_lists := (cb_lists s)\<lparr>objs := insert a (objs (cb_lists s))\<rparr>\<rparr>)"
    using new_chunk_ok [OF env n(2)] by blast
  then show ?case
  proof cases
    case 1
    have "\<exists>s'. delete_chunks s hp = Some s' \<and> chunks_added s ns os zs (chunk_sizes (unat pref) (unat lst) (Suc k)) None s'"
      by (rule dead) (use ow in simp_all)
    then obtain s' where d: "delete_chunks s hp = Some s'" "chunks_added s ns os zs (chunk_sizes (unat pref) (unat lst) (Suc k)) None s'" by blast
    have "add_chunks_loop env s hid pref lst idx hp (Suc k) = Some (None, s')" using 1 d(1) by (simp add: n_def [symmetric])
    then show ?thesis using d(2) by blast
  next
    case 2
    define ck where "ck = \<lparr>ck_id = idx, ck_size = n, ck_data = replicate (unat n) (0 :: u8)\<rparr>"
    define l1 where "l1 = (cb_lists s)\<lparr>objs := insert a (objs (cb_lists s))\<rparr>"
    define s1 where "s1 = s\<lparr>cb_chunks := (cb_chunks s)(a \<mapsto> ck), cb_lists := l1\<rparr>"
    have nc: "new_chunk env s hid idx n = Some (Some a, s1)" using 2(2) by (simp add: s1_def ck_def l1_def)
    have l1: "nodes l1 = cb_nodes s" "owns l1 True" "objs l1 = insert a (objs (cb_lists s))" using ow by (simp_all add: l1_def)
    have s1: "cb_lists s1 = l1" by (simp add: s1_def)
    have e: "env_ok (node_env env l1) l1 True" using env l1(2) by (simp add: circ_env_ok_def)
    have sl: "slist (nodes l1) hp ns (map Some os)" using ok l1(1) by (simp add: chunks_ok_def)
    have "Some a \<noteq> None" by simp
    from insert_tail_added [OF sl l1(2) e this, of hid] obtain rc hp' l where ins:
        "spf_list_insert_tail (node_env env l1) l1 (Some hp) (Some a) hid True = Some (rc, Some hp', l)" "owns l True" "objs l = objs l1"
        "rc = AR_ENOMEMORY \<and> hp' = hp \<and> nodes l = nodes l1 \<or> rc = AR_EOK \<and> (\<exists>x. x \<notin> dom (nodes l1) \<and> slist (nodes l) hp' (ns @ [x]) (map Some os @ [Some a])
            \<and> keeps (insert x (set ns)) (nodes l1) (nodes l))"
      unfolding added_def by (elim exE conjE) (rule that; assumption)
    let ?s = "s1\<lparr>cb_lists := l\<rparr>"
    show ?thesis
    proof (cases "rc = AR_EOK")
      case False
      then have nm: "rc = AR_ENOMEMORY" "nodes l = cb_nodes s" using ins(4) l1(1) by auto
      have fr: "free_chunk ?s (Some a) = Some (?s\<lparr>cb_lists := l\<lparr>objs := objs l - {a}\<rparr>\<rparr>)" using ins(3) l1(3) by (simp add: free_chunk_def free_obj_def)
      let ?t = "?s\<lparr>cb_lists := l\<lparr>objs := objs l - {a}\<rparr>\<rparr>"
      have "\<exists>s'. delete_chunks ?t hp = Some s' \<and> chunks_added s ns os zs (chunk_sizes (unat pref) (unat lst) (Suc k)) None s'"
        by (rule dead) (use nm(2) ins(2,3) l1(3) 2(1) in \<open>auto simp: s1_def\<close>)
      then obtain s' where d: "delete_chunks ?t hp = Some s'" "chunks_added s ns os zs (chunk_sizes (unat pref) (unat lst) (Suc k)) None s'" by blast
      have "add_chunks_loop env s hid pref lst idx hp (Suc k) = Some (None, s')"
        using nc ins(1) s1 fr False d(1) by (simp add: n_def [symmetric])
      then show ?thesis using d(2) by blast
    next
      case True
      then obtain x where x: "x \<notin> dom (cb_nodes s)" "slist (nodes l) hp' (ns @ [x]) (map Some os @ [Some a])" "keeps (insert x (set ns)) (cb_nodes s) (nodes l)"
        using ins(4) l1(1) by auto
      have ok2: "chunks_ok ?s hp' (ns @ [x]) (os @ [a]) (zs @ [unat n])"
        by (rule chunks_ok_extend [OF ok _ 2(1), where ck = ck]) (use x(2) ins(3) l1(3) n in \<open>simp_all add: s1_def ck_def\<close>)
      have ow2: "owns (cb_lists ?s) True" using ins(2) by simp
      obtain r s' where r: "add_chunks_loop env ?s hid pref lst (idx + 1) hp' k = Some (r, s')"
          "chunks_added ?s (ns @ [x]) (os @ [a]) (zs @ [unat n]) (chunk_sizes (unat pref) (unat lst) k) r s'"
        using Suc.IH [OF ow2 ok2] by blast
      have run: "add_chunks_loop env s hid pref lst idx hp (Suc k) = Some (r, s')"
        using nc ins(1) s1 True r(1) by (simp add: n_def [symmetric])
      have f1: "chunk_frame s ns ?s" using ow2 x 2(1) by (auto simp: chunk_frame_def s1_def keeps_def)
      have fr: "chunk_frame s ns s'"
        by (rule chunk_frame_trans [OF f1, of "ns @ [x]"]) (use r(2) x(1) ins(3) l1(3) in \<open>auto simp: chunks_added_def\<close>)
      have zz: "zs @ chunk_sizes (unat pref) (unat lst) (Suc k) = (zs @ [unat n]) @ chunk_sizes (unat pref) (unat lst) k" by (simp add: n_def)
      have "chunks_added s ns os zs (chunk_sizes (unat pref) (unat lst) (Suc k)) r s'"
      proof (cases r)
        case None
        then show ?thesis using fr r(2) ins(3) l1(3) 2(1) by (auto simp: chunks_added_def)
      next
        case (Some hp2)
        then obtain ns' os' where R: "chunks_ok s' hp2 ((ns @ [x]) @ ns') ((os @ [a]) @ os') ((zs @ [unat n]) @ chunk_sizes (unat pref) (unat lst) k)"
            "objs (cb_lists s') = objs (cb_lists ?s) \<union> set os'" "set os' \<inter> objs (cb_lists ?s) = {}" "set ns' \<inter> dom (cb_nodes ?s) = {}"
            "\<forall>a \<in> set os'. \<exists>c. cb_chunks s' a = Some c \<and> set (ck_data c) \<subseteq> {0}" "chunk_frame ?s (ns @ [x]) s'"
          using r(2) by (auto simp: chunks_added_def)
        have sub: "dom (cb_nodes s) - set ns \<subseteq> dom (cb_nodes ?s)" using f1 by (auto simp: chunk_frame_def dom_def)
        have nsd: "set ns \<subseteq> dom (cb_nodes ?s)" using slist_dom [OF x(2)] by auto
        have "cb_chunks s' a = Some ck" using R(6) ins(3) l1(3) by (simp add: chunk_frame_def s1_def)
        then have c: "\<forall>b \<in> set (a # os'). \<exists>c. cb_chunks s' b = Some c \<and> set (ck_data c) \<subseteq> {0}" using R(5) by (auto simp: ck_def)
        have "chunks_ok s' hp2 (ns @ x # ns') (os @ a # os') (zs @ chunk_sizes (unat pref) (unat lst) (Suc k))" unfolding zz using R(1) by simp
        moreover have "set ns' \<inter> dom (cb_nodes s) = {}" using R(4) sub nsd by blast
        then have "set (x # ns') \<inter> dom (cb_nodes s) = {}" using x(1) by simp
        moreover have "objs (cb_lists s') = objs (cb_lists s) \<union> set (a # os')" "set (a # os') \<inter> objs (cb_lists s) = {}"
          using R(2,3) 2(1) ins(3) l1(3) by auto
        ultimately show ?thesis unfolding chunks_added_def Some option.case using fr c
          by (intro conjI exI [of _ "x # ns'"] exI [of _ "a # os'"]) assumption+
      qed
      then show ?thesis using run by blast
    qed
  qed
qed


subsection \<open>A new buffer\<close>

text \<open>The number of chunks and the size of the last one give the size that was asked for.\<close>

lemma chunk_sizes_sum:
  fixes n pref :: u32
  assumes "0 < n" "0 < pref" and k: "(num, lst) = (if n mod pref = 0 then (n div pref, pref) else (n div pref + 1, n mod pref))"
  shows "sum_list (chunk_sizes (unat pref) (unat lst) (unat num)) = unat n" "0 < unat num" "0 < unat lst" "lst \<le> pref"
proof -
  have p: "0 < unat pref" "0 < unat n" using assms(1,2) by (simp_all add: word_less_nat_alt)
  have d: "unat (n div pref) = unat n div unat pref" "unat (n mod pref) = unat n mod unat pref" by (simp_all add: unat_div unat_mod)
  have "sum_list (chunk_sizes (unat pref) (unat lst) (unat num)) = unat n \<and> 0 < unat num \<and> 0 < unat lst \<and> lst \<le> pref"
  proof (cases "n mod pref = 0")
    case True
    then have z: "unat n mod unat pref = 0" using d(2) by simp
    then have q: "0 < unat n div unat pref" "unat n div unat pref * unat pref = unat n" using p by (auto simp: div_greater_zero_iff dvd_imp_le)
    have "(unat n div unat pref - 1) * unat pref + unat pref = unat n" using q by (cases "unat n div unat pref") simp_all
    then show ?thesis using True k d q p by (simp add: sum_chunk_sizes)
  next
    case False
    then have z: "0 < unat n mod unat pref" using d(2) by (metis gr0I unat_0_iff)
    then have p2: "2 \<le> unat pref" using p(1) by (cases "unat pref = 1") auto
    have "unat n div unat pref \<le> unat n div 2" using p2 by (rule div_le_mono2 [rotated]) simp
    then have "unat n div unat pref + 1 < 2 ^ 32" using unat_lt32 [of n] by simp
    then have q: "unat (n div pref + 1) = unat n div unat pref + 1" using d(1) by (simp add: unat_word_ariths)
    have "lst \<le> pref" using False k p d(2) by (simp add: word_le_nat_alt)
    moreover have num: "unat num = unat n div unat pref + 1" "unat lst = unat n mod unat pref" using False k q d(2) by simp_all
    then have "sum_list (chunk_sizes (unat pref) (unat lst) (unat num)) = unat n" unfolding sum_chunk_sizes by simp
    ultimately show ?thesis using num z by simp
  qed
  then show "sum_list (chunk_sizes (unat pref) (unat lst) (unat num)) = unat n" "0 < unat num" "0 < unat lst" "lst \<le> pref" by blast+
qed

lemma add_chunks_unfold:
  assumes "cb_bufs s b = Some B" "n \<noteq> 0" "preferred_chunk_size B \<noteq> 0"
    and nl: "(num, lst) = (if n mod preferred_chunk_size B = 0 then (n div preferred_chunk_size B, preferred_chunk_size B)
      else (n div preferred_chunk_size B + 1, n mod preferred_chunk_size B))"
  shows "circ_buf_add_chunks env s (Some b) n hid = do {
     (r, s) \<leftarrow> add_chunks_loop env s hid (preferred_chunk_size B) lst (num_chunks B) None (unat num);
     case r of None \<Rightarrow> Some (CIRCBUF_FAIL, s) | Some l \<Rightarrow> attach_chunks s (Some b) B num n hid l }"
proof (cases "n mod preferred_chunk_size B = 0")
  case True
  then have v: "num = n div preferred_chunk_size B" "lst = preferred_chunk_size B" using nl by simp_all
  show ?thesis unfolding v using True assms(1-3) by (simp add: circ_buf_add_chunks_def Let_def)
next
  case False
  then have v: "num = n div preferred_chunk_size B + 1" "lst = n mod preferred_chunk_size B" using nl by simp_all
  show ?thesis unfolding v using False assms(1-3) by (simp add: circ_buf_add_chunks_def Let_def)
qed

definition new_buf :: "ptr \<Rightarrow> u32 \<Rightarrow> u32 \<Rightarrow> u32 \<Rightarrow> u32 \<Rightarrow> u32 \<Rightarrow> circ_buf" where
  "new_buf hp num bsize pref bid hid = zero_buf\<lparr>preferred_chunk_size := pref, cb_heap_id := hid, cb_id := bid, cb_chunk_heap_id := hid,
     head_chunk_ptr := hp, num_chunks := num, circ_buf_size := bsize\<rparr>"

lemma alloc_ok:
  assumes env: "circ_env_ok env" and ow: "owns (cb_lists s) True" and b: "cb_bufs s b = Some B0" and pref: "0 < pref" "unat pref < 2 ^ 32 - 16" and n: "0 < n"
  shows "\<exists>rc s'. circ_buf_alloc env s (Some b) n pref bid hid = Some (rc, s') \<and> owns (cb_lists s') True \<and> cb_clients s' = cb_clients s
    \<and> (rc = CIRCBUF_FAIL \<and> objs (cb_lists s') = objs (cb_lists s)
       \<or> rc = CIRCBUF_SUCCESS \<and> (\<exists>hp num ns os zs. chunks_ok s' hp ns os zs \<and> sum_list zs = unat n \<and> cb_bufs s' b = Some (new_buf hp num n pref bid hid)))"
proof -
  define B1 where "B1 = zero_buf\<lparr>preferred_chunk_size := pref, cb_heap_id := hid, cb_id := bid\<rparr>"
  define s1 where "s1 = s\<lparr>cb_bufs := (cb_bufs s)(b \<mapsto> B1)\<rparr>"
  have B1: "preferred_chunk_size B1 = pref" "circ_buf_size B1 = 0" "num_chunks B1 = 0" "wr_client_ptr B1 = None" "head_chunk_ptr B1 = None"
    "rd_client_list_ptr B1 = None" by (simp_all add: B1_def zero_buf_def)
  obtain num lst where nl: "(num, lst) = (if n mod pref = 0 then (n div pref, pref) else (n div pref + 1, n mod pref))" by (metis surj_pair)
  note cs = chunk_sizes_sum [OF n pref(1) nl]
  have l: "unat lst < 2 ^ 32 - 16" using cs(4) pref(2) by (simp add: word_le_nat_alt)
  have p0: "0 < unat pref" using pref(1) by (simp add: word_less_nat_alt)
  have ok0: "chunks_ok s1 None [] [] []" by (simp add: chunks_ok_def slist_None)
  have ow1: "owns (cb_lists s1) True" using ow by (simp add: s1_def)
  obtain r s2 where lp: "add_chunks_loop env s1 hid pref lst 0 None (unat num) = Some (r, s2)"
      "chunks_added s1 [] [] [] (chunk_sizes (unat pref) (unat lst) (unat num)) r s2"
    using add_chunks_loop_ok [OF env p0 pref(2) cs(3) l ow1 ok0] by blast
  have f: "owns (cb_lists s2) True" "cb_clients s2 = cb_clients s" "cb_bufs s2 = (cb_bufs s)(b \<mapsto> B1)"
    using lp(2) by (simp_all add: chunks_added_def chunk_frame_def s1_def)
  have n0: "n \<noteq> 0" "pref \<noteq> 0" using n pref(1) by auto
  have al: "circ_buf_alloc env s (Some b) n pref bid hid = circ_buf_add_chunks env s1 (Some b) n hid \<bind>
      (\<lambda>(rc, s). Some (if rc \<noteq> CIRCBUF_SUCCESS then CIRCBUF_FAIL else CIRCBUF_SUCCESS, s))"
    using b n0(2) by (simp add: circ_buf_alloc_def upd_buf_def modify_Some s1_def B1_def)
  have add: "circ_buf_add_chunks env s1 (Some b) n hid = (case r of None \<Rightarrow> Some (CIRCBUF_FAIL, s2) | Some l \<Rightarrow> attach_chunks s2 (Some b) B1 num n hid l)"
    using add_chunks_unfold [of s1 b B1 n num lst env hid] B1 n0 nl lp(1) by (simp add: s1_def)
  show ?thesis
  proof (cases r)
    case None
    then have "objs (cb_lists s2) = objs (cb_lists s)" using lp(2) by (simp add: chunks_added_def s1_def)
    then show ?thesis using al add None f(1,2) by simp
  next
    case (Some hp)
    obtain ns os where R: "chunks_ok s2 hp ns os (chunk_sizes (unat pref) (unat lst) (unat num))" using lp(2) Some by (auto simp: chunks_added_def)
    have sl: "slist (cb_nodes s2) hp ns (map Some os)" using R by (simp add: chunks_ok_def)
    have ne: "hp \<noteq> None"
    proof
      assume "hp = None"
      then have "os = []" using sl by (simp add: slist_None)
      then have "chunk_sizes (unat pref) (unat lst) (unat num) = []" using R by (simp add: chunks_ok_def)
      then show False using cs(1) n by (simp add: word_less_nat_alt)
    qed
    have "slist (cb_nodes s2) None [] []" by (simp add: slist_None)
    from merge_lists_ok [OF this sl] obtain p' h' where m: "spf_list_merge_lists (cb_lists s2) (Some None) (Some hp) = Some (AR_EOK, Some p', Some None, (cb_lists s2)\<lparr>nodes := h'\<rparr>)"
        "dom h' = dom (cb_nodes s2)" "slist h' p' ns (map Some os)" by auto
    let ?B = "new_buf p' num n pref bid hid"
    let ?s = "s2\<lparr>cb_lists := (cb_lists s2)\<lparr>nodes := h'\<rparr>, cb_bufs := (cb_bufs s)(b \<mapsto> ?B)\<rparr>"
    have fe: "for_each_client f None t = Some t" for f t by (simp add: for_each_client_def for_clients.simps)
    have "attach_chunks s2 (Some b) B1 num n hid hp = Some (CIRCBUF_SUCCESS, ?s)"
      using ne B1 f(3) m(1) n0(1)
      by (simp add: attach_chunks_def upd_buf_def modify_Some circ_buf_write_client_reset_def fe new_buf_def zero_buf_def B1_def word_gt_0)
    moreover have "chunks_ok ?s p' ns os (chunk_sizes (unat pref) (unat lst) (unat num))" using R m(3) by (simp add: chunks_ok_def)
    moreover have "cb_bufs ?s b = Some ?B" by simp
    ultimately have "\<exists>hp num' ns os zs. chunks_ok ?s hp ns os zs \<and> sum_list zs = unat n \<and> cb_bufs ?s b = Some (new_buf hp num' n pref bid hid)"
      using cs(1) by blast
    then show ?thesis using al add Some f(1,2) m(2) \<open>attach_chunks s2 (Some b) B1 num n hid hp = Some (CIRCBUF_SUCCESS, ?s)\<close>
      by (intro exI [of _ CIRCBUF_SUCCESS] exI [of _ ?s]) simp
  qed
qed


subsection \<open>Registration\<close>

text \<open>The writer of a new buffer is at its beginning, and nothing is written yet.\<close>

lemma register_writer_ok:
  assumes ch: "chunks_ok s (head_chunk_ptr B) ns os zs" and b: "cb_bufs s b = Some B" "wr_client_ptr B = None" "rd_client_list_ptr B = None"
    and z: "unat (circ_buf_size B) = sum_list zs" "0 < sum_list zs" and c: "cb_clients s wcl = Some c"
  shows "\<exists>s' w. circ_buf_register_client env s (Some b) False hid n (Some wcl) = Some (CIRCBUF_SUCCESS, s')
    \<and> buf_parts s' b ns os zs [] wcl (B\<lparr>wr_client_ptr := Some wcl, write_byte_counter := 0\<rparr>) w \<and> cb_lists s' = cb_lists s"
proof -
  let ?B = "B\<lparr>wr_client_ptr := Some wcl, write_byte_counter := 0\<rparr>"
  let ?w = "c\<lparr>is_read_client := False, circ_buf_ptr := Some b, req_base_buffer_size := n, req_buffer_resize := 0, cl_chunk_heap_id := hid,
      rw_chunk_node_ptr := head_chunk_ptr B, rw_chunk_offset := 0\<rparr>"
  let ?s = "s\<lparr>cb_clients := (cb_clients s)(wcl \<mapsto> ?w), cb_bufs := (cb_bufs s)(b \<mapsto> ?B)\<rparr>"
  have "circ_buf_register_client env s (Some b) False hid n (Some wcl) = Some (CIRCBUF_SUCCESS, ?s)"
    using b c by (simp add: circ_buf_register_client_def upd_client_def upd_buf_def modify_Some circ_buf_write_client_reset_def)
  moreover have "buf_parts ?s b ns os zs [] wcl ?B ?w"
  proof -
    have len: "length ns = length zs" using chunks_len [OF ch] by simp
    have i: "0 < length zs" using z(2) by (cases zs) auto
    have "head_chunk_ptr B = Some (ns ! 0)" using ch len i by (cases ns) (auto simp: chunks_ok_def slist_def dll_def)
    moreover have "0 < zs ! 0" using chunk_at [OF ch i] by blast
    ultimately have "at_pos ns zs (rw_chunk_node_ptr ?w) (rw_chunk_offset ?w) 0" using i len by (auto simp: at_pos_def zpos_def intro: exI [of _ "0 :: nat"])
    then have "placed ns zs ?w" by (rule at_pos_unique(2) [OF chunks_distinct [OF ch]])
    moreover have "chunks_ok ?s (head_chunk_ptr ?B) ns os zs" using ch chunks_ok_cong(1) [of ?s s] by simp
    ultimately show ?thesis using z b(3) by (simp add: buf_parts_def slist_None)
  qed
  ultimately show ?thesis by (intro exI [of _ ?s] exI [of _ ?w]) simp
qed








subsection \<open>An example\<close>

definition ex_circ_env :: circ_env where
  "ex_circ_env = \<lparr>node_env = (\<lambda>_. ex_env\<lparr>pool_mal := \<lambda>_. None\<rparr>), chunk_mal = (\<lambda>s n hid. if 5000 \<in> objs (cb_lists s) then None else Some 5000)\<rparr>"

lemma ex_circ_env_ok: "circ_env_ok ex_circ_env"
  by (auto simp: circ_env_ok_def ex_circ_env_def env_ok_def ex_env_def mal_ok_def split: if_splits)

definition ex_blank :: circ_state where
  "ex_blank = \<lparr>cb_lists = ex_pool_lists, cb_chunks = Map.empty, cb_clients = [2 \<mapsto> zero_client], cb_bufs = [1 \<mapsto> zero_buf]\<rparr>"

lemma ex_blank_owns: "owns (cb_lists ex_blank) True"
  using ex_pool_owns by (simp add: ex_blank_def)







subsection \<open>Properties\<close>

text \<open>
  C12: creating a buffer either fails and leaves no chunk allocated, or gives a buffer of the size asked for, and registering a writer
  with it establishes the invariant, with nothing written and no readers.
\<close>

theorem circ_buf_create_ok:
  assumes "circ_env_ok env" and "owns (cb_lists s) True" and "cb_bufs s b = Some B0" and "cb_clients s wcl = Some c"
    and "0 < pref" and "unat pref < 2 ^ 32 - 16" and "0 < n"
  shows "\<exists>rc s'. circ_buf_alloc env s (Some b) n pref bid hid = Some (rc, s')
    \<and> (rc = CIRCBUF_FAIL \<and> objs (cb_lists s') = objs (cb_lists s)
       \<or> rc = CIRCBUF_SUCCESS \<and> (\<exists>s'' ns os zs. circ_buf_register_client env s' (Some b) False hid 0 (Some wcl) = Some (CIRCBUF_SUCCESS, s'')
           \<and> buf_inv s'' b ns os zs [] wcl \<and> sum_list zs = unat n \<and> recent s'' b ns os zs = []))"
proof -
  obtain rc s' where a: "circ_buf_alloc env s (Some b) n pref bid hid = Some (rc, s')" "cb_clients s' = cb_clients s"
      "rc = CIRCBUF_FAIL \<and> objs (cb_lists s') = objs (cb_lists s) \<or> rc = CIRCBUF_SUCCESS \<and> (\<exists>hp num ns os zs. chunks_ok s' hp ns os zs
         \<and> sum_list zs = unat n \<and> cb_bufs s' b = Some (new_buf hp num n pref bid hid))"
    using alloc_ok [OF assms(1-3) assms(5-7), of bid hid] by (elim exE conjE) (rule that; assumption)
  have "\<exists>s'' ns os zs. circ_buf_register_client env s' (Some b) False hid 0 (Some wcl) = Some (CIRCBUF_SUCCESS, s'')
      \<and> buf_inv s'' b ns os zs [] wcl \<and> sum_list zs = unat n \<and> recent s'' b ns os zs = []" if ok: "rc = CIRCBUF_SUCCESS"
  proof -
    obtain hp num ns os zs where r: "chunks_ok s' hp ns os zs" "sum_list zs = unat n" "cb_bufs s' b = Some (new_buf hp num n pref bid hid)"
      using a(3) ok by auto
    let ?B = "new_buf hp num n pref bid hid"
    have B: "head_chunk_ptr ?B = hp" "wr_client_ptr ?B = None" "rd_client_list_ptr ?B = None" "unat (circ_buf_size ?B) = sum_list zs" "0 < sum_list zs"
      using r(2) assms(7) by (simp_all add: new_buf_def zero_buf_def word_less_nat_alt)
    obtain s'' w where w: "circ_buf_register_client env s' (Some b) False hid 0 (Some wcl) = Some (CIRCBUF_SUCCESS, s'')"
        "buf_parts s'' b ns os zs [] wcl (?B\<lparr>wr_client_ptr := Some wcl, write_byte_counter := 0\<rparr>) w"
      using register_writer_ok [of s' ?B ns os zs b wcl c env hid 0] r B a(2) assms(4) by auto
    have "recent s'' b ns os zs = []" using recent_parts [OF w(2)] by (simp add: rbehind_def)
    moreover have "buf_inv s'' b ns os zs [] wcl" unfolding buf_inv_def by (intro exI, rule w(2))
    ultimately show ?thesis using w(1) r(2) by blast
  qed
  then show ?thesis using a(1,3) by blast
qed

theorem circ_buf_create_ok_witness:
  "\<exists>rc s'. circ_buf_alloc ex_circ_env ex_blank (Some 1) 5 8 7 0 = Some (rc, s')
    \<and> (rc = CIRCBUF_FAIL \<and> objs (cb_lists s') = objs (cb_lists ex_blank)
       \<or> rc = CIRCBUF_SUCCESS \<and> (\<exists>s'' ns os zs. circ_buf_register_client ex_circ_env s' (Some 1) False 0 0 (Some 2) = Some (CIRCBUF_SUCCESS, s'')
           \<and> buf_inv s'' 1 ns os zs [] 2 \<and> sum_list zs = unat (5 :: u32) \<and> recent s'' 1 ns os zs = []))"
  by (rule circ_buf_create_ok [OF ex_circ_env_ok ex_blank_owns]) (simp_all add: ex_blank_def)



end
