(* ===== verification/Graph_Utils.thy ===== *)
theory Graph_Utils
  imports Ar_Prelude
begin

text \<open>
  The graph of a container (\<^verbatim>\<open>containers/cmn/graph_utils\<close>): modules with input and output ports, connected to each other or to ports of
  the container, in subgraphs. Modelled are the lookups, the placing of new ports, elementary modules that are attached to a
  port, the order in which modules run (a topological sort), the division into parallel paths and the removal of
  ports that are no longer connected. Every list of the graph (theory \<open>Spf_List\<close> has their code) is a list of addresses;
  an empty list stands for \<open>NULL\<close>. Whether there is memory for another node of a list is the argument \<open>mal\<close>, a function of the state and
  of the list that is extended. Log messages are left out.
\<close>

subsection \<open>Data\<close>

datatype gu_status = GU_STATUS_DEFAULT | GU_STATUS_NEW | GU_STATUS_UPDATED | GU_STATUS_CLOSING

datatype gu_sort_status = GU_SORT_DEFAULT | GU_SORT_UPDATED

record gu_cmn_port =
  port_id :: u32
  port_module :: ptr
  port_index :: u8
  port_mark :: bool
  elementary_pending_attachment :: bool
  port_status :: gu_status

record gu_input_port = gu_cmn_port +
  conn_out_port_ptr :: ptr
  ext_in_port_ptr :: ptr

record gu_output_port = gu_cmn_port +
  conn_in_port_ptr :: ptr
  ext_out_port_ptr :: ptr
  attached_module_ptr :: ptr

record gu_ext_in_port =
  int_in_port_ptr :: ptr

record gu_ext_out_port =
  int_out_port_ptr :: ptr
  downstream_spf_handle_ptr :: ptr

record gu_ctrl_port =
  ctrl_port_id :: u32
  ext_ctrl_port_ptr :: ptr
  peer_ctrl_port_ptr :: ptr

record gu_module =
  module_instance_id :: u32
  max_input_ports :: u8
  max_output_ports :: u8
  min_input_ports :: u8
  min_output_ports :: u8
  num_input_ports :: u8
  num_output_ports :: u8
  num_ctrl_ports :: u8
  module_status :: gu_status
  path_index :: u8
  is_source :: bool
  is_sink :: bool
  is_siso :: bool
  is_ds_at_sg_or_cntr_boundary :: bool
  is_us_at_sg_or_cntr_boundary :: bool
  input_port_list :: "addr list"
  output_port_list :: "addr list"
  ctrl_port_list :: "addr list"
  module_sg :: ptr
  host_output_port_ptr :: ptr

record gu_sg =
  sg_id :: u32
  sg_status :: gu_status
  module_list :: "addr list"

record gu =
  sort_status :: gu_sort_status
  num_parallel_paths :: u8
  sg_list :: "addr list"
  sorted_module_list :: "addr list"
  ext_in_port_list :: "addr list"

record gu_state =
  gs_gu :: gu
  gs_modules :: "gu_module store"
  gs_ins :: "gu_input_port store"
  gs_outs :: "gu_output_port store"
  gs_ctrls :: "gu_ctrl_port store"
  gs_sgs :: "gu_sg store"
  gs_ext_ins :: "gu_ext_in_port store"
  gs_ext_outs :: "gu_ext_out_port store"

type_synonym gu_mal = "gu_state \<Rightarrow> addr list \<Rightarrow> bool"

subsection \<open>Access and loops\<close>

definition upd_module :: "ptr \<Rightarrow> (gu_module \<Rightarrow> gu_module) \<Rightarrow> gu_state \<Rightarrow> gu_state option" where
  "upd_module p f s = do { h \<leftarrow> modify (gs_modules s) p f; Some (s\<lparr>gs_modules := h\<rparr>) }"

definition upd_in :: "ptr \<Rightarrow> (gu_input_port \<Rightarrow> gu_input_port) \<Rightarrow> gu_state \<Rightarrow> gu_state option" where
  "upd_in p f s = do { h \<leftarrow> modify (gs_ins s) p f; Some (s\<lparr>gs_ins := h\<rparr>) }"

definition upd_out :: "ptr \<Rightarrow> (gu_output_port \<Rightarrow> gu_output_port) \<Rightarrow> gu_state \<Rightarrow> gu_state option" where
  "upd_out p f s = do { h \<leftarrow> modify (gs_outs s) p f; Some (s\<lparr>gs_outs := h\<rparr>) }"

definition upd_ext_out :: "ptr \<Rightarrow> (gu_ext_out_port \<Rightarrow> gu_ext_out_port) \<Rightarrow> gu_state \<Rightarrow> gu_state option" where
  "upd_ext_out p f s = do { h \<leftarrow> modify (gs_ext_outs s) p f; Some (s\<lparr>gs_ext_outs := h\<rparr>) }"

definition upd_sg :: "ptr \<Rightarrow> (gu_sg \<Rightarrow> gu_sg) \<Rightarrow> gu_state \<Rightarrow> gu_state option" where
  "upd_sg p f s = do { h \<leftarrow> modify (gs_sgs s) p f; Some (s\<lparr>gs_sgs := h\<rparr>) }"

abbreviation upd_gu :: "(gu \<Rightarrow> gu) \<Rightarrow> gu_state \<Rightarrow> gu_state" where
  "upd_gu f s \<equiv> s\<lparr>gs_gu := f (gs_gu s)\<rparr>"

text \<open>A loop over a list, and one that is left at the first error.\<close>

fun for_list :: "('x \<Rightarrow> 's \<Rightarrow> 's option) \<Rightarrow> 'x list \<Rightarrow> 's \<Rightarrow> 's option" where
  "for_list f [] s = Some s"
| "for_list f (x # xs) s = do { s \<leftarrow> f x s; for_list f xs s }"

fun try_list :: "('x \<Rightarrow> 's \<Rightarrow> (u32 \<times> 's) option) \<Rightarrow> 'x list \<Rightarrow> 's \<Rightarrow> (u32 \<times> 's) option" where
  "try_list f [] s = Some (AR_EOK, s)"
| "try_list f (x # xs) s = do { (rc, s) \<leftarrow> f x s; if rc \<noteq> AR_EOK then Some (rc, s) else try_list f xs s }"

text \<open>The loops over all modules: subgraph after subgraph.\<close>

definition for_modules :: "(addr \<Rightarrow> addr \<Rightarrow> gu_state \<Rightarrow> gu_state option) \<Rightarrow> gu_state \<Rightarrow> gu_state option" where
  "for_modules f s = for_list (\<lambda>g s. do { sg \<leftarrow> load (gs_sgs s) (Some g); for_list (f g) (module_list sg) s }) (sg_list (gs_gu s)) s"

text \<open>\<open>spf_list_insert_tail\<close> of an object that is not \<open>NULL\<close>.\<close>

definition insert_tail :: "gu_mal \<Rightarrow> gu_state \<Rightarrow> addr list \<Rightarrow> addr \<Rightarrow> u32 \<times> addr list" where
  "insert_tail mal s xs x = (if mal s xs then (AR_EOK, xs @ [x]) else (AR_ENOMEMORY, xs))"

subsection \<open>Small operations\<close>

definition gu_update_is_siso_module :: "gu_module \<Rightarrow> gu_module" where
  "gu_update_is_siso_module m =
    (if num_output_ports m = 1 \<and> max_output_ports m = 1 \<and> num_input_ports m = 1 \<and> max_input_ports m = 1
     then m\<lparr>is_siso := True\<rparr> else m\<lparr>is_siso := False\<rparr>)"

definition gu_set_status :: "gu_status \<Rightarrow> gu_status \<Rightarrow> gu_status" where
  "gu_set_status cur new = (if cur = GU_STATUS_NEW \<and> new = GU_STATUS_UPDATED then cur else new)"

definition gu_update_module_sink_src_info :: "gu_module \<Rightarrow> gu_module" where
  "gu_update_module_sink_src_info m =
    (let m = (if max_input_ports m \<noteq> 0 \<and> (max_output_ports m = 0 \<or> min_output_ports m = 0 \<and> num_output_ports m = 0)
              then m\<lparr>is_sink := True\<rparr> else m\<lparr>is_sink := False\<rparr>);
         m = (if max_output_ports m \<noteq> 0 \<and> (max_input_ports m = 0 \<or> min_input_ports m = 0 \<and> num_input_ports m = 0)
              then m\<lparr>is_source := True\<rparr> else m\<lparr>is_source := False\<rparr>)
     in gu_update_is_siso_module m)"

definition gu_is_output_port_id :: "u32 \<Rightarrow> bool" where
  "gu_is_output_port_id pid \<longleftrightarrow> drop_bit 0 (pid AND 1) = 1"

text \<open>Lookups: the first port of a list with an id or an index. Ports are never \<open>NULL\<close>.\<close>

fun gu_find_port_by_id :: "'a gu_cmn_port_scheme store \<Rightarrow> addr list \<Rightarrow> u32 \<Rightarrow> ptr option" where
  "gu_find_port_by_id h [] pid = Some None"
| "gu_find_port_by_id h (p # ps) pid = do {
     c \<leftarrow> h p;
     if port_id c = pid then Some (Some p) else gu_find_port_by_id h ps pid
   }"

fun gu_find_port_by_index :: "'a gu_cmn_port_scheme store \<Rightarrow> addr list \<Rightarrow> u32 \<Rightarrow> ptr option" where
  "gu_find_port_by_index h [] i = Some None"
| "gu_find_port_by_index h (p # ps) i = do {
     c \<leftarrow> h p;
     if ucast (port_index c) = i then Some (Some p) else gu_find_port_by_index h ps i
   }"

definition gu_find_output_port :: "gu_state \<Rightarrow> ptr \<Rightarrow> u32 \<Rightarrow> ptr option" where
  "gu_find_output_port s m pid = (if m = None then Some None
     else do { md \<leftarrow> load (gs_modules s) m; gu_find_port_by_id (gs_outs s) (output_port_list md) pid })"

definition gu_find_input_port :: "gu_state \<Rightarrow> ptr \<Rightarrow> u32 \<Rightarrow> ptr option" where
  "gu_find_input_port s m pid = (if m = None then Some None
     else do { md \<leftarrow> load (gs_modules s) m; gu_find_port_by_id (gs_ins s) (input_port_list md) pid })"

definition gu_find_output_port_by_index :: "gu_state \<Rightarrow> ptr \<Rightarrow> u32 \<Rightarrow> ptr option" where
  "gu_find_output_port_by_index s m i = (if m = None then Some None
     else do { md \<leftarrow> load (gs_modules s) m; gu_find_port_by_index (gs_outs s) (output_port_list md) i })"

definition gu_find_input_port_by_index :: "gu_state \<Rightarrow> ptr \<Rightarrow> u32 \<Rightarrow> ptr option" where
  "gu_find_input_port_by_index s m i = (if m = None then Some None
     else do { md \<leftarrow> load (gs_modules s) m; gu_find_port_by_index (gs_ins s) (input_port_list md) i })"

text \<open>The port that is found is an output port or an input port, by its id.\<close>

definition gu_find_cmn_port_by_id :: "gu_state \<Rightarrow> ptr \<Rightarrow> u32 \<Rightarrow> ptr option" where
  "gu_find_cmn_port_by_id s m pid = (if gu_is_output_port_id pid then gu_find_output_port s m pid else gu_find_input_port s m pid)"

fun find_in_modules :: "gu_state \<Rightarrow> addr list \<Rightarrow> u32 \<Rightarrow> ptr option" where
  "find_in_modules s [] miid = Some None"
| "find_in_modules s (m # ms) miid = do {
     md \<leftarrow> load (gs_modules s) (Some m);
     if module_instance_id md = miid then Some (Some m) else find_in_modules s ms miid
   }"

fun find_in_sgs :: "gu_state \<Rightarrow> addr list \<Rightarrow> u32 \<Rightarrow> ptr option" where
  "find_in_sgs s [] miid = Some None"
| "find_in_sgs s (g # gs) miid = do {
     sg \<leftarrow> load (gs_sgs s) (Some g);
     r \<leftarrow> find_in_modules s (module_list sg) miid;
     if r \<noteq> None then Some r else find_in_sgs s gs miid
   }"

definition gu_find_module :: "gu_state \<Rightarrow> u32 \<Rightarrow> ptr option" where
  "gu_find_module s miid = find_in_sgs s (sg_list (gs_gu s)) miid"

fun find_sg :: "gu_state \<Rightarrow> addr list \<Rightarrow> u32 \<Rightarrow> ptr option" where
  "find_sg s [] i = Some None"
| "find_sg s (g # gs) i = do {
     sg \<leftarrow> load (gs_sgs s) (Some g);
     if sg_id sg = i then Some (Some g) else find_sg s gs i
   }"

definition gu_find_subgraph :: "gu_state \<Rightarrow> u32 \<Rightarrow> ptr option" where
  "gu_find_subgraph s i = find_sg s (sg_list (gs_gu s)) i"

subsection \<open>New ports\<close>

text \<open>
  The search for the index of a new port, which is the last one of the list and has none yet: the first gap in the indices of the
  other ports, or the number of other ports. \<open>prev\<close> is the index of the previous port, if there is one; the result is
  the index and the number of ports before the new place, or \<open>None\<close> for it when the port stays where it is. The differences are
  those of integers.
\<close>

fun index_gap :: "(addr \<Rightarrow> u8) \<Rightarrow> addr \<Rightarrow> u8 option \<Rightarrow> u32 \<Rightarrow> u32 \<Rightarrow> addr list \<Rightarrow> u32 \<times> u32 option" where
  "index_gap idx new prev i avail [] = (avail, None)"
| "index_gap idx new prev i avail (p # ps) =
    (case prev of
       Some q \<Rightarrow>
         if p \<noteq> new \<and> int (unat (idx p)) - int (unat q) > 1 then (ucast q + 1, Some i)
         else index_gap idx new (Some (idx p)) (i + 1) i ps
     | None \<Rightarrow>
         if p \<noteq> new \<and> 0 < idx p then (0, Some i)
         else index_gap idx new (Some (idx p)) (i + 1) i ps)"

text \<open>The list with its last port moved to the new place, and the new index as it is stored in 8 bits.\<close>

definition gu_move_port_to_smallest_available_index :: "(addr \<Rightarrow> u8) \<Rightarrow> addr list \<Rightarrow> addr \<Rightarrow> addr list \<times> u8" where
  "gu_move_port_to_smallest_available_index idx ps new =
    (let (avail, place) = index_gap idx new None 0 0 ps in
     (case place of None \<Rightarrow> ps | Some i \<Rightarrow> take (unat i) (butlast ps) @ last ps # drop (unat i) (butlast ps), ucast avail))"

definition gu_insert_input_port :: "gu_mal \<Rightarrow> ptr \<Rightarrow> addr \<Rightarrow> gu_state \<Rightarrow> (u32 \<times> gu_state) option" where
  "gu_insert_input_port mal m p s = do {
     md \<leftarrow> load (gs_modules s) m;
     let (rc, ps) = insert_tail mal s (input_port_list md) p;
     if rc \<noteq> AR_EOK then Some (rc, s)
     else do {
       let (ps, i) = gu_move_port_to_smallest_available_index (\<lambda>a. case gs_ins s a of None \<Rightarrow> 0 | Some c \<Rightarrow> port_index c) ps p;
       s \<leftarrow> upd_in (Some p) (port_index_update (\<lambda>_. i)) s;
       s \<leftarrow> upd_module m (\<lambda>md. md\<lparr>input_port_list := ps, num_input_ports := num_input_ports md + 1,
              module_status := gu_set_status (module_status md) GU_STATUS_UPDATED\<rparr>) s;
       s \<leftarrow> upd_sg (module_sg md) (\<lambda>g. g\<lparr>sg_status := gu_set_status (sg_status g) GU_STATUS_UPDATED\<rparr>) s;
       Some (AR_EOK, s)
     }
   }"

definition gu_insert_output_port :: "gu_mal \<Rightarrow> ptr \<Rightarrow> addr \<Rightarrow> gu_state \<Rightarrow> (u32 \<times> gu_state) option" where
  "gu_insert_output_port mal m p s = do {
     md \<leftarrow> load (gs_modules s) m;
     let (rc, ps) = insert_tail mal s (output_port_list md) p;
     if rc \<noteq> AR_EOK then Some (rc, s)
     else do {
       let (ps, i) = gu_move_port_to_smallest_available_index (\<lambda>a. case gs_outs s a of None \<Rightarrow> 0 | Some c \<Rightarrow> port_index c) ps p;
       s \<leftarrow> upd_out (Some p) (port_index_update (\<lambda>_. i)) s;
       s \<leftarrow> upd_module m (\<lambda>md. md\<lparr>output_port_list := ps, num_output_ports := num_output_ports md + 1,
              module_status := gu_set_status (module_status md) GU_STATUS_UPDATED\<rparr>) s;
       s \<leftarrow> upd_sg (module_sg md) (\<lambda>g. g\<lparr>sg_status := gu_set_status (sg_status g) GU_STATUS_UPDATED\<rparr>) s;
       Some (AR_EOK, s)
     }
   }"

subsection \<open>Attached modules\<close>

text \<open>
  An elementary module is taken out of the graph and attached to the output port before it. The debug checks are those of a
  release build, that is none.
\<close>

definition gu_attach_module :: "ptr \<Rightarrow> gu_state \<Rightarrow> (u32 \<times> gu_state) option" where
  "gu_attach_module prev s =
    (if prev = None then Some (AR_EOK, s)
     else do {
       po \<leftarrow> load (gs_outs s) prev;
       if \<not> elementary_pending_attachment po then Some (AR_EOK, s)
       else do {
         pi \<leftarrow> load (gs_ins s) (conn_in_port_ptr po);
         let att = port_module pi;
         am \<leftarrow> load (gs_modules s) att;
         cur_in \<leftarrow> (case input_port_list am of [] \<Rightarrow> None | a # _ \<Rightarrow> Some a);
         let cur_out = (case output_port_list am of [] \<Rightarrow> None | a # _ \<Rightarrow> Some a);
         if cur_out = None then Some (AR_EFAILED, s)
         else do {
           co \<leftarrow> load (gs_outs s) cur_out;
           s \<leftarrow>
             (if conn_in_port_ptr co \<noteq> None then do {
                let nxt_in = conn_in_port_ptr co;
                s \<leftarrow> upd_in (Some cur_in) (conn_out_port_ptr_update (\<lambda>_. None)) s;
                s \<leftarrow> upd_out cur_out (conn_in_port_ptr_update (\<lambda>_. None)) s;
                s \<leftarrow> upd_out prev (conn_in_port_ptr_update (\<lambda>_. nxt_in)) s;
                s \<leftarrow> upd_in nxt_in (conn_out_port_ptr_update (\<lambda>_. prev)) s;
                s \<leftarrow> upd_out prev (attached_module_ptr_update (\<lambda>_. att)) s;
                upd_module att (host_output_port_ptr_update (\<lambda>_. prev)) s
              }
              else if ext_out_port_ptr co \<noteq> None then do {
                let ext = ext_out_port_ptr co;
                s \<leftarrow> upd_in (Some cur_in) (conn_out_port_ptr_update (\<lambda>_. None)) s;
                s \<leftarrow> upd_out cur_out (ext_out_port_ptr_update (\<lambda>_. None)) s;
                s \<leftarrow> upd_out prev (conn_in_port_ptr_update (\<lambda>_. None)) s;
                s \<leftarrow> upd_out prev (ext_out_port_ptr_update (\<lambda>_. ext)) s;
                s \<leftarrow> upd_ext_out ext (int_out_port_ptr_update (\<lambda>_. prev)) s;
                s \<leftarrow> upd_out prev (attached_module_ptr_update (\<lambda>_. att)) s;
                upd_module att (host_output_port_ptr_update (\<lambda>_. prev)) s
              }
              else Some s);
           s \<leftarrow> upd_out prev (elementary_pending_attachment_update (\<lambda>_. False)) s;
           am \<leftarrow> load (gs_modules s) att;
           s \<leftarrow> upd_module (port_module po) (is_ds_at_sg_or_cntr_boundary_update (\<lambda>b. b \<or> is_ds_at_sg_or_cntr_boundary am)) s;
           s \<leftarrow> upd_module att (is_ds_at_sg_or_cntr_boundary_update (\<lambda>_. False)) s;
           Some (AR_EOK, s)
         }
       }
     })"

text \<open>
  The sorted list gets the module in front of the one after it, or at the end. Both insertions may run out of memory,
  which is not noticed; a module that is in the list already is not added at the end again. \<open>spf_list_find_list_node\<close> gives \<open>NULL\<close> for
  a module that is not in the list, and nothing is inserted in front of it.
\<close>

definition add_sorted :: "gu_mal \<Rightarrow> addr \<Rightarrow> gu_state \<Rightarrow> gu_state" where
  "add_sorted mal m s =
    (let xs = sorted_module_list (gs_gu s) in
     if m \<in> set xs then s else upd_gu (sorted_module_list_update (\<lambda>_. snd (insert_tail mal s xs m))) s)"

fun insert_before :: "addr \<Rightarrow> addr \<Rightarrow> addr list \<Rightarrow> addr list" where
  "insert_before y x [] = []"
| "insert_before y x (z # zs) = (if z = y then x # z # zs else z # insert_before y x zs)"

definition add_sorted_before :: "gu_mal \<Rightarrow> addr \<Rightarrow> addr \<Rightarrow> gu_state \<Rightarrow> gu_state" where
  "add_sorted_before mal y m s =
    (let xs = sorted_module_list (gs_gu s) in
     if mal s xs then upd_gu (sorted_module_list_update (\<lambda>_. insert_before y m xs)) s else s)"

definition gu_detach_module :: "gu_mal \<Rightarrow> addr \<Rightarrow> gu_state \<Rightarrow> (u32 \<times> gu_state) option" where
  "gu_detach_module mal att s = do {
     am \<leftarrow> load (gs_modules s) (Some att);
     let host = host_output_port_ptr am;
     ho \<leftarrow> load (gs_outs s) host;
     if ext_out_port_ptr ho \<noteq> None then do {
       let ext = ext_out_port_ptr ho;
       ip \<leftarrow> (case input_port_list am of [] \<Rightarrow> None | a # _ \<Rightarrow> Some a);
       opp \<leftarrow> (case output_port_list am of [] \<Rightarrow> None | a # _ \<Rightarrow> Some a);
       s \<leftarrow> upd_out host (conn_in_port_ptr_update (\<lambda>_. Some ip)) s;
       s \<leftarrow> upd_in (Some ip) (conn_out_port_ptr_update (\<lambda>_. host)) s;
       s \<leftarrow> upd_out (Some opp) (ext_out_port_ptr_update (\<lambda>_. ext)) s;
       s \<leftarrow> upd_ext_out ext (int_out_port_ptr_update (\<lambda>_. Some opp)) s;
       s \<leftarrow> upd_out host (ext_out_port_ptr_update (\<lambda>_. None)) s;
       s \<leftarrow> upd_out host (attached_module_ptr_update (\<lambda>_. None)) s;
       s \<leftarrow> upd_module (Some att) (host_output_port_ptr_update (\<lambda>_. None)) s;
       let s = upd_gu (sort_status_update (\<lambda>_. GU_SORT_UPDATED)) (add_sorted mal att s);
       s \<leftarrow> upd_module (port_module ho) (is_ds_at_sg_or_cntr_boundary_update (\<lambda>_. False)) s;
       s \<leftarrow> upd_module (Some att) (is_ds_at_sg_or_cntr_boundary_update (\<lambda>_. True)) s;
       Some (AR_EOK, s)
     }
     else if conn_in_port_ptr ho \<noteq> None then do {
       let nxt_in = conn_in_port_ptr ho;
       ip \<leftarrow> (case input_port_list am of [] \<Rightarrow> None | a # _ \<Rightarrow> Some a);
       opp \<leftarrow> (case output_port_list am of [] \<Rightarrow> None | a # _ \<Rightarrow> Some a);
       s \<leftarrow> upd_out host (conn_in_port_ptr_update (\<lambda>_. Some ip)) s;
       s \<leftarrow> upd_in (Some ip) (conn_out_port_ptr_update (\<lambda>_. host)) s;
       s \<leftarrow> upd_out (Some opp) (conn_in_port_ptr_update (\<lambda>_. nxt_in)) s;
       s \<leftarrow> upd_in nxt_in (conn_out_port_ptr_update (\<lambda>_. Some opp)) s;
       s \<leftarrow> upd_out host (attached_module_ptr_update (\<lambda>_. None)) s;
       s \<leftarrow> upd_module (Some att) (host_output_port_ptr_update (\<lambda>_. None)) s;
       ni \<leftarrow> load (gs_ins s) nxt_in;
       nm \<leftarrow> port_module ni;
       let s = upd_gu (sort_status_update (\<lambda>_. GU_SORT_UPDATED)) (add_sorted_before mal nm att s);
       hm \<leftarrow> load (gs_modules s) (port_module ho);
       s \<leftarrow> upd_module (Some att) (is_ds_at_sg_or_cntr_boundary_update (\<lambda>b. b \<or> is_ds_at_sg_or_cntr_boundary hm)) s;
       s \<leftarrow> upd_module (port_module ho) (is_ds_at_sg_or_cntr_boundary_update (\<lambda>_. False)) s;
       Some (AR_EOK, s)
     }
     else Some (AR_EFAILED, s)
   }"

text \<open>The body of the loop over the output ports of a module.\<close>

definition attach_pending :: "addr \<Rightarrow> gu_state \<Rightarrow> (u32 \<times> gu_state) option" where
  "attach_pending p s = do {
     po \<leftarrow> load (gs_outs s) (Some p);
     if \<not> elementary_pending_attachment po then Some (AR_EOK, s)
     else do {
       (rc, s) \<leftarrow>
         (if ext_out_port_ptr po = None then gu_attach_module (Some p) s
          else do {
            e \<leftarrow> load (gs_ext_outs s) (ext_out_port_ptr po);
            if downstream_spf_handle_ptr e \<noteq> None then gu_attach_module (Some p) s else Some (AR_EOK, s)
          });
       if rc \<noteq> AR_EOK then Some (rc, s)
       else if sorted_module_list (gs_gu s) \<noteq> []
       then do {
         po \<leftarrow> load (gs_outs s) (Some p);
         let xs = (case attached_module_ptr po of None \<Rightarrow> sorted_module_list (gs_gu s) | Some m \<Rightarrow> remove1 m (sorted_module_list (gs_gu s)));
         Some (AR_EOK, upd_gu (\<lambda>g. g\<lparr>sorted_module_list := xs, sort_status := GU_SORT_UPDATED\<rparr>) s)
       }
       else Some (AR_EOK, s)
     }
   }"

definition gu_attach_pending_elementary_modules :: "gu_state \<Rightarrow> (u32 \<times> gu_state) option" where
  "gu_attach_pending_elementary_modules s =
     try_list (\<lambda>g s. do {
         sg \<leftarrow> load (gs_sgs s) (Some g);
         try_list (\<lambda>m s. do {
             md \<leftarrow> load (gs_modules s) (Some m);
             try_list attach_pending (output_port_list md) s
           }) (module_list sg) s
       }) (sg_list (gs_gu s)) s"

definition gu_get_ext_out_port_for_last_module :: "gu_state \<Rightarrow> addr \<Rightarrow> (u32 \<times> ptr) option" where
  "gu_get_ext_out_port_for_last_module s p = do {
     po \<leftarrow> load (gs_outs s) (Some p);
     if \<not> gu_is_output_port_id (port_id po) then Some (AR_EOK, None)
     else if attached_module_ptr po \<noteq> None then Some (AR_EOK, None)
     else do {
       md \<leftarrow> load (gs_modules s) (port_module po);
       if host_output_port_ptr md \<noteq> None
       then do { ho \<leftarrow> load (gs_outs s) (host_output_port_ptr md); Some (AR_EOK, ext_out_port_ptr ho) }
       else Some (AR_EOK, ext_out_port_ptr po)
     }
   }"

subsection \<open>Sorting the modules\<close>

fun external_only :: "gu_state \<Rightarrow> addr list \<Rightarrow> bool option" where
  "external_only s [] = Some True"
| "external_only s (p # ps) = do {
     ip \<leftarrow> load (gs_ins s) (Some p);
     if ext_in_port_ptr ip = None \<or> port_mark ip then Some False else external_only s ps
   }"

fun all_marked :: "gu_state \<Rightarrow> addr list \<Rightarrow> bool option" where
  "all_marked s [] = Some True"
| "all_marked s (p # ps) = do {
     ip \<leftarrow> load (gs_ins s) (Some p);
     if \<not> port_mark ip then Some False else all_marked s ps
   }"

abbreviation set_mark :: "bool \<Rightarrow> addr \<Rightarrow> gu_state \<Rightarrow> gu_state option" where
  "set_mark b p \<equiv> upd_in (Some p) (port_mark_update (\<lambda>_. b))"

text \<open>The body of the loop over the external input ports; the list of edge modules goes along with the state.\<close>

definition edge_ext :: "gu_mal \<Rightarrow> addr \<Rightarrow> addr list \<times> gu_state \<Rightarrow> (u32 \<times> addr list \<times> gu_state) option" where
  "edge_ext mal e = (\<lambda>(edge, s). do {
     x \<leftarrow> load (gs_ext_ins s) (Some e);
     ip \<leftarrow> load (gs_ins s) (int_in_port_ptr x);
     m \<leftarrow> port_module ip;
     md \<leftarrow> load (gs_modules s) (Some m);
     only \<leftarrow> external_only s (input_port_list md);
     if only then do {
       let (rc, edge') = insert_tail mal s edge m;
       if rc \<noteq> AR_EOK then Some (rc, edge, s)
       else do { s \<leftarrow> for_list (set_mark True) (input_port_list md) s; Some (AR_EOK, edge', s) }
     }
     else do { s \<leftarrow> upd_in (int_in_port_ptr x) (port_mark_update (\<lambda>_. True)) s; Some (AR_EOK, edge, s) }
   })"

text \<open>The body of the loop over all modules.\<close>

definition edge_source :: "gu_mal \<Rightarrow> addr \<Rightarrow> addr list \<times> gu_state \<Rightarrow> (u32 \<times> addr list \<times> gu_state) option" where
  "edge_source mal m = (\<lambda>(edge, s). do {
     md \<leftarrow> load (gs_modules s) (Some m);
     if num_input_ports md = 0 \<and> 0 < num_output_ports md
       \<or> (num_input_ports md = 0 \<and> min_output_ports md = 0 \<or> num_input_ports md = 0 \<and> min_input_ports md = 0)
       \<or> num_input_ports md = 0 \<and> num_output_ports md = 0
     then do { let (rc, edge') = insert_tail mal s edge m; Some (rc, edge', s) }
     else Some (AR_EOK, edge, s)
   })"

definition edge_sources :: "gu_mal \<Rightarrow> addr \<Rightarrow> addr list \<times> gu_state \<Rightarrow> (u32 \<times> addr list \<times> gu_state) option" where
  "edge_sources mal g = (\<lambda>(edge, s). do {
     sg \<leftarrow> load (gs_sgs s) (Some g);
     try_list (edge_source mal) (module_list sg) (edge, s)
   })"

text \<open>After an error the caller gets no list.\<close>

definition gu_find_edge_modules :: "gu_mal \<Rightarrow> gu_state \<Rightarrow> (u32 \<times> addr list \<times> gu_state) option" where
  "gu_find_edge_modules mal s = do {
     (rc, edge, s) \<leftarrow> try_list (edge_ext mal) (ext_in_port_list (gs_gu s)) ([], s);
     if rc \<noteq> AR_EOK then Some (rc, [], s)
     else do {
       (rc, edge, s) \<leftarrow> try_list (edge_sources mal) (sg_list (gs_gu s)) (edge, s);
       if rc \<noteq> AR_EOK then Some (rc, [], s) else Some (AR_EOK, edge, s)
     }
   }"

text \<open>The body of the loop over the output ports of a module that is put in the sorted list.\<close>

definition mark_downstream :: "gu_mal \<Rightarrow> addr \<Rightarrow> addr list \<times> gu_state \<Rightarrow> (u32 \<times> addr list \<times> gu_state) option" where
  "mark_downstream mal p = (\<lambda>(edge, s). do {
     po \<leftarrow> load (gs_outs s) (Some p);
     if ext_out_port_ptr po \<noteq> None then Some (AR_EOK, edge, s)
     else do {
       s \<leftarrow> upd_in (conn_in_port_ptr po) (port_mark_update (\<lambda>_. True)) s;
       ip \<leftarrow> load (gs_ins s) (conn_in_port_ptr po);
       m \<leftarrow> port_module ip;
       md \<leftarrow> load (gs_modules s) (Some m);
       marked \<leftarrow> all_marked s (input_port_list md);
       if marked then do { let (rc, edge') = insert_tail mal s edge m; Some (rc, edge', s) }
       else Some (AR_EOK, edge, s)
     }
   })"

partial_function (option) sort_loop :: "gu_mal \<Rightarrow> addr list \<Rightarrow> gu_state \<Rightarrow> (u32 \<times> gu_state) option" where
  "sort_loop mal edge s =
    (case edge of
       [] \<Rightarrow> Some (AR_EOK, s)
     | m # _ \<Rightarrow> do {
         let (rc, xs) = insert_tail mal s (sorted_module_list (gs_gu s)) m;
         if rc \<noteq> AR_EOK then Some (rc, s)
         else do {
           let s = upd_gu (sorted_module_list_update (\<lambda>_. xs)) s;
           md \<leftarrow> load (gs_modules s) (Some m);
           (rc, edge, s) \<leftarrow> try_list (mark_downstream mal) (output_port_list md) (edge, s);
           if rc \<noteq> AR_EOK then Some (rc, s) else sort_loop mal (tl edge) s
         }
       })"

definition unmark_module :: "addr \<Rightarrow> gu_state \<Rightarrow> gu_state option" where
  "unmark_module m s = do {
     md \<leftarrow> load (gs_modules s) (Some m);
     s \<leftarrow> for_list (set_mark False) (input_port_list md) s;
     for_list (\<lambda>p. upd_out (Some p) (port_mark_update (\<lambda>_. False))) (output_port_list md) s
   }"

definition gu_reset_graph_port_markers :: "gu_state \<Rightarrow> gu_state option" where
  "gu_reset_graph_port_markers s = for_modules (\<lambda>g. unmark_module) s"

definition gu_update_sorted_list :: "gu_mal \<Rightarrow> gu_state \<Rightarrow> (u32 \<times> gu_state) option" where
  "gu_update_sorted_list mal s = do {
     let s = upd_gu (\<lambda>g. g\<lparr>sort_status := GU_SORT_UPDATED, sorted_module_list := []\<rparr>) s;
     (rc, edge, s) \<leftarrow> gu_find_edge_modules mal s;
     (rc, s) \<leftarrow> (if rc \<noteq> AR_EOK then Some (rc, s) else sort_loop mal edge s);
     if rc \<noteq> AR_EOK then Some (rc, upd_gu (sorted_module_list_update (\<lambda>_. [])) s)
     else do { s \<leftarrow> gu_reset_graph_port_markers s; Some (AR_EOK, s) }
   }"

subsection \<open>Parallel paths\<close>

text \<open>The two functions that go on to a neighbour, with the recursive call as an argument.\<close>

definition gu_propagate_path_index_backward ::
    "(addr \<Rightarrow> u16 \<Rightarrow> gu_state \<Rightarrow> gu_state option) \<Rightarrow> addr \<Rightarrow> u16 \<Rightarrow> gu_state \<Rightarrow> gu_state option" where
  "gu_propagate_path_index_backward rec p i s = do {
     ip \<leftarrow> load (gs_ins s) (Some p);
     if conn_out_port_ptr ip = None then Some s
     else do {
       po \<leftarrow> load (gs_outs s) (conn_out_port_ptr ip);
       m \<leftarrow> port_module po;
       md \<leftarrow> load (gs_modules s) (Some m);
       if i = ucast (path_index md) then Some s else rec m i s
     }
   }"

definition gu_propagate_path_index_forward ::
    "(addr \<Rightarrow> u16 \<Rightarrow> gu_state \<Rightarrow> gu_state option) \<Rightarrow> addr \<Rightarrow> u16 \<Rightarrow> gu_state \<Rightarrow> gu_state option" where
  "gu_propagate_path_index_forward rec p i s = do {
     po \<leftarrow> load (gs_outs s) (Some p);
     if conn_in_port_ptr po = None then Some s
     else do {
       ip \<leftarrow> load (gs_ins s) (conn_in_port_ptr po);
       m \<leftarrow> port_module ip;
       md \<leftarrow> load (gs_modules s) (Some m);
       if i = ucast (path_index md) then Some s else rec m i s
     }
   }"

text \<open>The bodies of the loops over the input and the output ports of a module.\<close>

definition propagate_input :: "(addr \<Rightarrow> u16 \<Rightarrow> gu_state \<Rightarrow> gu_state option) \<Rightarrow> addr \<Rightarrow> addr \<Rightarrow> gu_state \<Rightarrow> gu_state option" where
  "propagate_input rec m p s = do {
     md \<leftarrow> load (gs_modules s) (Some m);
     gu_propagate_path_index_backward rec p (ucast (path_index md)) s
   }"

definition propagate_output :: "(addr \<Rightarrow> u16 \<Rightarrow> gu_state \<Rightarrow> gu_state option) \<Rightarrow> addr \<Rightarrow> addr \<Rightarrow> gu_state \<Rightarrow> gu_state option" where
  "propagate_output rec m p s = do {
     md \<leftarrow> load (gs_modules s) (Some m);
     po \<leftarrow> load (gs_outs s) (Some p);
     s \<leftarrow> (if attached_module_ptr po \<noteq> None
           then upd_module (attached_module_ptr po) (path_index_update (\<lambda>_. path_index md)) s else Some s);
     md \<leftarrow> load (gs_modules s) (Some m);
     gu_propagate_path_index_forward rec p (ucast (path_index md)) s
   }"

text \<open>The depth of the recursion is bounded by the first argument; \<open>None\<close> when that is not enough.\<close>

primrec gu_propagate_path_index :: "nat \<Rightarrow> addr \<Rightarrow> u16 \<Rightarrow> gu_state \<Rightarrow> gu_state option" where
  "gu_propagate_path_index 0 m i s = None"
| "gu_propagate_path_index (Suc n) m i s = do {
     s \<leftarrow> upd_module (Some m) (path_index_update (\<lambda>_. ucast i)) s;
     md \<leftarrow> load (gs_modules s) (Some m);
     s \<leftarrow> for_list (propagate_input (gu_propagate_path_index n) m) (input_port_list md) s;
     for_list (propagate_output (gu_propagate_path_index n) m) (output_port_list md) s
   }"

abbreviation (input) INVALID_PATH_INDEX :: u8 where "INVALID_PATH_INDEX \<equiv> 0xFF"

text \<open>The body of the second loop over all modules; the next path index goes along with the state.\<close>

definition assign_path :: "nat \<Rightarrow> addr \<Rightarrow> u16 \<times> gu_state \<Rightarrow> (u16 \<times> gu_state) option" where
  "assign_path n m = (\<lambda>(i, s). do {
     md \<leftarrow> load (gs_modules s) (Some m);
     if host_output_port_ptr md \<noteq> None then Some (i, s)
     else if path_index md \<noteq> INVALID_PATH_INDEX then Some (i, s)
     else if input_port_list md = [] \<and> output_port_list md = [] then do {
       s \<leftarrow> upd_module (Some m) (path_index_update (\<lambda>_. 0)) s;
       Some (i, s)
     }
     else do {
       s \<leftarrow> gu_propagate_path_index n m i s;
       let i = i + 1;
       if i = ucast INVALID_PATH_INDEX then Some (0, upd_gu (num_parallel_paths_update (\<lambda>_. ucast i)) s) else Some (i, s)
     }
   })"

definition assign_paths :: "nat \<Rightarrow> addr \<Rightarrow> u16 \<times> gu_state \<Rightarrow> (u16 \<times> gu_state) option" where
  "assign_paths n g = (\<lambda>(i, s). do {
     sg \<leftarrow> load (gs_sgs s) (Some g);
     for_list (assign_path n) (module_list sg) (i, s)
   })"

definition gu_update_parallel_paths :: "nat \<Rightarrow> gu_state \<Rightarrow> gu_state option" where
  "gu_update_parallel_paths n s = do {
     let s = upd_gu (num_parallel_paths_update (\<lambda>_. 0)) s;
     s \<leftarrow> for_modules (\<lambda>g m. upd_module (Some m) (path_index_update (\<lambda>_. INVALID_PATH_INDEX))) s;
     (i, s) \<leftarrow> for_list (assign_paths n) (sg_list (gs_gu s)) (0, s);
     Some (if num_parallel_paths (gs_gu s) = 0 then upd_gu (num_parallel_paths_update (\<lambda>_. ucast i)) s else s)
   }"

subsection \<open>Ports without a connection\<close>

text \<open>
  The loops that delete ports: the ports that are left and what they say about the boundary. A deleted port is
  freed. The counts are 8-bit numbers.
\<close>

fun clean_inputs :: "addr \<Rightarrow> addr list \<Rightarrow> gu_state \<Rightarrow> (addr list \<times> nat \<times> bool \<times> gu_state) option" where
  "clean_inputs g [] s = Some ([], 0, False, s)"
| "clean_inputs g (p # ps) s = do {
     ip \<leftarrow> load (gs_ins s) (Some p);
     if ext_in_port_ptr ip = None \<and> conn_out_port_ptr ip = None
     then do {
       (ps, k, b, s) \<leftarrow> clean_inputs g ps (s\<lparr>gs_ins := (gs_ins s)(p := None)\<rparr>);
       Some (ps, Suc k, b, s)
     }
     else do {
       at_boundary \<leftarrow> (if ext_in_port_ptr ip \<noteq> None then Some True
         else do {
           po \<leftarrow> load (gs_outs s) (conn_out_port_ptr ip);
           md \<leftarrow> load (gs_modules s) (port_module po);
           Some (module_sg md \<noteq> Some g)
         });
       (ps, k, b, s) \<leftarrow> clean_inputs g ps s;
       Some (p # ps, k, at_boundary \<or> b, s)
     }
   }"

text \<open>A module attached to an output port that lost its connection comes back into the graph, as the last one, without its output port.\<close>

definition reattach :: "addr \<Rightarrow> gu_output_port \<Rightarrow> addr \<Rightarrow> gu_state \<Rightarrow> gu_state option" where
  "reattach p po att s = do {
     am \<leftarrow> load (gs_modules s) (Some att);
     ip \<leftarrow> (case input_port_list am of [] \<Rightarrow> None | a # _ \<Rightarrow> Some a);
     s \<leftarrow> upd_out (Some p) (conn_in_port_ptr_update (\<lambda>_. Some ip)) s;
     s \<leftarrow> upd_in (Some ip) (conn_out_port_ptr_update (\<lambda>_. Some p)) s;
     s \<leftarrow> upd_out (Some p) (attached_module_ptr_update (\<lambda>_. None)) s;
     s \<leftarrow> upd_module (Some att) (host_output_port_ptr_update (\<lambda>_. None)) s;
     case output_port_list am of
       [] \<Rightarrow> Some s
     | a # as \<Rightarrow> upd_module (Some att) (\<lambda>m. gu_update_module_sink_src_info
           (m\<lparr>output_port_list := as, is_ds_at_sg_or_cntr_boundary := True, num_output_ports := num_output_ports m - 1\<rparr>))
           (s\<lparr>gs_outs := (gs_outs s)(a := None)\<rparr>)
   }"

fun clean_outputs :: "addr \<Rightarrow> addr list \<Rightarrow> gu_state \<Rightarrow> (addr list \<times> nat \<times> bool \<times> gu_state) option" where
  "clean_outputs g [] s = Some ([], 0, False, s)"
| "clean_outputs g (p # ps) s = do {
     po \<leftarrow> load (gs_outs s) (Some p);
     if ext_out_port_ptr po = None \<and> conn_in_port_ptr po = None
     then (case attached_module_ptr po of
         Some att \<Rightarrow> do {
           s \<leftarrow> reattach p po att s;
           (ps, k, b, s) \<leftarrow> clean_outputs g ps s;
           Some (p # ps, k, b, s)
         }
       | None \<Rightarrow> do {
           (ps, k, b, s) \<leftarrow> clean_outputs g ps (s\<lparr>gs_outs := (gs_outs s)(p := None)\<rparr>);
           Some (ps, Suc k, b, s)
         })
     else do {
       at_boundary \<leftarrow> (if ext_out_port_ptr po \<noteq> None then Some True
         else do {
           ip \<leftarrow> load (gs_ins s) (conn_in_port_ptr po);
           md \<leftarrow> load (gs_modules s) (port_module ip);
           Some (module_sg md \<noteq> Some g)
         });
       (ps, k, b, s) \<leftarrow> clean_outputs g ps s;
       Some (p # ps, k, at_boundary \<or> b, s)
     }
   }"

definition clean_module :: "addr \<Rightarrow> addr \<Rightarrow> gu_state \<Rightarrow> gu_state option" where
  "clean_module g m s = do {
     md \<leftarrow> load (gs_modules s) (Some m);
     (ds, us, s) \<leftarrow>
       (if host_output_port_ptr md = None then do {
          (ips, k, us, s) \<leftarrow> clean_inputs g (input_port_list md) s;
          s \<leftarrow> upd_module (Some m) (\<lambda>md. md\<lparr>input_port_list := ips, num_input_ports := num_input_ports md - of_nat k\<rparr>) s;
          (ops, l, ds, s) \<leftarrow> clean_outputs g (output_port_list md) s;
          s \<leftarrow> upd_module (Some m) (\<lambda>md. md\<lparr>output_port_list := ops, num_output_ports := num_output_ports md - of_nat l\<rparr>) s;
          s \<leftarrow> (if 0 < k + l then upd_module (Some m) gu_update_module_sink_src_info s else Some s);
          Some (ds, us, s)
        }
        else Some (False, False, s));
     upd_module (Some m) (\<lambda>md. md\<lparr>is_ds_at_sg_or_cntr_boundary := ds, is_us_at_sg_or_cntr_boundary := us\<rparr>) s
   }"

definition gu_cleanup_dangling_data_ports :: "gu_state \<Rightarrow> gu_state option" where
  "gu_cleanup_dangling_data_ports s = for_modules clean_module s"

fun clean_ctrls :: "addr list \<Rightarrow> gu_state \<Rightarrow> (addr list \<times> nat \<times> gu_state) option" where
  "clean_ctrls [] s = Some ([], 0, s)"
| "clean_ctrls (p # ps) s = do {
     c \<leftarrow> load (gs_ctrls s) (Some p);
     if ext_ctrl_port_ptr c = None \<and> peer_ctrl_port_ptr c = None
     then do { (ps, k, s) \<leftarrow> clean_ctrls ps (s\<lparr>gs_ctrls := (gs_ctrls s)(p := None)\<rparr>); Some (ps, Suc k, s) }
     else do { (ps, k, s) \<leftarrow> clean_ctrls ps s; Some (p # ps, k, s) }
   }"

definition gu_cleanup_danling_control_ports :: "gu_state \<Rightarrow> gu_state option" where
  "gu_cleanup_danling_control_ports s = for_modules (\<lambda>g m s. do {
       md \<leftarrow> load (gs_modules s) (Some m);
       (ps, k, s) \<leftarrow> clean_ctrls (ctrl_port_list md) s;
       upd_module (Some m) (\<lambda>md. md\<lparr>ctrl_port_list := ps, num_ctrl_ports := num_ctrl_ports md - of_nat k\<rparr>) s
     }) s"

end
