(* ===== verification/Graph_Sort.thy ===== *)
theory Graph_Sort
  imports Graph_Utils
begin

text \<open>
  Correctness of the sort of a graph's modules: what a well-formed graph is, the marks of ports as a set, and the proof that the
  list of modules is in topological order and complete when the graph has no cycle.
\<close>

subsection \<open>Well-formed graphs\<close>

definition mods :: "gu_state \<Rightarrow> addr list" where
  "mods s = concat (map (\<lambda>g. module_list (the (gs_sgs s g))) (sg_list (gs_gu s)))"

definition ins_of :: "gu_state \<Rightarrow> addr \<Rightarrow> addr list" where
  "ins_of s m = input_port_list (the (gs_modules s m))"

definition outs_of :: "gu_state \<Rightarrow> addr \<Rightarrow> addr list" where
  "outs_of s m = output_port_list (the (gs_modules s m))"

text \<open>Modules that are attached to a port are not part of the graph.\<close>

definition active :: "gu_state \<Rightarrow> addr \<Rightarrow> bool" where
  "active s m \<longleftrightarrow> m \<in> set (mods s) \<and> host_output_port_ptr (the (gs_modules s m)) = None"

text \<open>The input port an output port leads to inside the graph.\<close>

definition target :: "gu_state \<Rightarrow> addr \<Rightarrow> ptr" where
  "target s p = (if ext_out_port_ptr (the (gs_outs s p)) = None then conn_in_port_ptr (the (gs_outs s p)) else None)"

definition is_ext :: "gu_state \<Rightarrow> addr \<Rightarrow> bool" where
  "is_ext s p \<longleftrightarrow> ext_in_port_ptr (the (gs_ins s p)) \<noteq> None"

definition in_ok :: "gu_state \<Rightarrow> addr \<Rightarrow> addr \<Rightarrow> bool" where
  "in_ok s m p \<longleftrightarrow> (\<exists>ip. gs_ins s p = Some ip \<and> port_module ip = Some m \<and>
     (if host_output_port_ptr (the (gs_modules s m)) \<noteq> None then ext_in_port_ptr ip = None \<and> conn_out_port_ptr ip = None
      else case ext_in_port_ptr ip of
        Some e \<Rightarrow> e \<in> set (ext_in_port_list (gs_gu s)) \<and> (\<exists>x. gs_ext_ins s e = Some x \<and> int_in_port_ptr x = Some p) \<and> conn_out_port_ptr ip = None
      | None \<Rightarrow> (\<exists>u q. active s u \<and> q \<in> set (outs_of s u) \<and> conn_out_port_ptr ip = Some q \<and> target s q = Some p)))"

definition out_ok :: "gu_state \<Rightarrow> addr \<Rightarrow> addr \<Rightarrow> bool" where
  "out_ok s m q \<longleftrightarrow> (\<exists>po. gs_outs s q = Some po \<and> port_module po = Some m \<and>
     (if ext_out_port_ptr po \<noteq> None then conn_in_port_ptr po = None else (\<exists>v p ip. conn_in_port_ptr po = Some p \<and> active s v \<and> p \<in> set (ins_of s v)
        \<and> gs_ins s p = Some ip \<and> conn_out_port_ptr ip = Some q \<and> ext_in_port_ptr ip = None)))"

definition gu_wf :: "gu_state \<Rightarrow> bool" where [inv_defs]:
  "gu_wf s \<longleftrightarrow> set (sg_list (gs_gu s)) \<subseteq> dom (gs_sgs s) \<and> distinct (mods s) \<and> set (mods s) \<subseteq> dom (gs_modules s)
     \<and> (\<forall>m \<in> set (mods s). num_input_ports (the (gs_modules s m)) = of_nat (length (ins_of s m)) \<and> length (ins_of s m) < 256
          \<and> (\<forall>p \<in> set (ins_of s m). in_ok s m p) \<and> set (outs_of s m) \<subseteq> dom (gs_outs s)
          \<and> (active s m \<longrightarrow> (\<forall>q \<in> set (outs_of s m). out_ok s m q)) \<and> distinct (outs_of s m)
          \<and> (\<not> active s m \<longrightarrow> ins_of s m \<noteq> []))
     \<and> (\<forall>e \<in> set (ext_in_port_list (gs_gu s)). \<exists>x p m. gs_ext_ins s e = Some x \<and> int_in_port_ptr x = Some p
          \<and> active s m \<and> p \<in> set (ins_of s m) \<and> ext_in_port_ptr (the (gs_ins s p)) = Some e)
     \<and> (\<forall>ip \<in> ran (gs_ins s). \<not> port_mark ip) \<and> (\<forall>po \<in> ran (gs_outs s). \<not> port_mark po)"

text \<open>The connections between modules, and a list of modules in which every module comes after those before it in the graph.\<close>

definition gu_edges :: "gu_state \<Rightarrow> (addr \<times> addr) set" where
  "gu_edges s = {(u, v). active s u \<and> active s v \<and> (\<exists>q \<in> set (outs_of s u). \<exists>p \<in> set (ins_of s v). target s q = Some p)}"

definition in_order :: "('m \<times> 'm) set \<Rightarrow> 'm list \<Rightarrow> bool" where
  "in_order E xs \<longleftrightarrow> (\<forall>i < length xs. \<forall>u. (u, xs ! i) \<in> E \<longrightarrow> u \<in> set (take i xs))"

lemma in_order_Nil [simp]: "in_order E []"
  by (simp add: in_order_def)

lemma in_order_snoc: "in_order E (xs @ [v]) \<longleftrightarrow> in_order E xs \<and> (\<forall>u. (u, v) \<in> E \<longrightarrow> u \<in> set xs)"
  by (auto simp: in_order_def less_Suc_eq nth_append)

lemma in_order_sources: "(\<forall>v \<in> set xs. \<forall>u. (u, v) \<notin> E) \<Longrightarrow> in_order E xs"
  by (auto simp: in_order_def)

subsection \<open>Marks\<close>

text \<open>The graph with a sorted list and a set of marked input ports.\<close>

definition st :: "gu_state \<Rightarrow> addr list \<Rightarrow> addr set \<Rightarrow> gu_state" where
  "st s S M = s\<lparr>gs_gu := (gs_gu s)\<lparr>sort_status := GU_SORT_UPDATED, sorted_module_list := S\<rparr>,
     gs_ins := (\<lambda>p. map_option (port_mark_update (\<lambda>_. p \<in> M)) (gs_ins s p))\<rparr>"

lemma st_simps [simp]:
  "gs_modules (st s S M) = gs_modules s" "gs_outs (st s S M) = gs_outs s" "gs_sgs (st s S M) = gs_sgs s" "gs_ext_ins (st s S M) = gs_ext_ins s"
  "sorted_module_list (gs_gu (st s S M)) = S" "sg_list (gs_gu (st s S M)) = sg_list (gs_gu s)"
  "ext_in_port_list (gs_gu (st s S M)) = ext_in_port_list (gs_gu s)"
  "gs_ins (st s S M) p = map_option (port_mark_update (\<lambda>_. p \<in> M)) (gs_ins s p)"
  "upd_gu (sorted_module_list_update (\<lambda>_. S')) (st s S M) = st s S' M"
  by (simp_all add: st_def)

lemma set_mark_st: "p \<in> dom (gs_ins s) \<Longrightarrow> set_mark b p (st s S M) = Some (st s S (if b then insert p M else M - {p}))"
  by (auto simp: upd_in_def modify_def st_def fun_eq_iff)

lemmas mark_st = set_mark_st [where b = True, simplified] set_mark_st [where b = False, simplified]

lemma mark_all_st: "set ps \<subseteq> dom (gs_ins s) \<Longrightarrow> for_list (set_mark True) ps (st s S M) = Some (st s S (M \<union> set ps))"
  by (induction ps arbitrary: M) (simp_all add: mark_st)

lemma unmark_all_st: "set ps \<subseteq> dom (gs_ins s) \<Longrightarrow> for_list (set_mark False) ps (st s S M) = Some (st s S (M - set ps))"
proof (induction ps arbitrary: M)
  case (Cons p ps)
  then show ?case by (simp add: mark_st) (metis Diff_insert2 insert_is_Un)
qed simp

lemma all_marked_st: "set ps \<subseteq> dom (gs_ins s) \<Longrightarrow> all_marked (st s S M) ps = Some (set ps \<subseteq> M)"
  by (induction ps) auto

lemma external_only_st: "set ps \<subseteq> dom (gs_ins s) \<Longrightarrow> external_only (st s S M) ps = Some (\<forall>p \<in> set ps. is_ext s p \<and> p \<notin> M)"
  by (induction ps) (auto simp: is_ext_def)

subsection \<open>What well-formedness gives\<close>

definition ext_ports :: "gu_state \<Rightarrow> addr set" where
  "ext_ports s = {p. \<exists>m. active s m \<and> p \<in> set (ins_of s m) \<and> is_ext s p}"

lemma active_mods: "active s m \<Longrightarrow> m \<in> set (mods s)"
  by (simp add: active_def)

lemma wf_module:
  assumes "gu_wf s" "m \<in> set (mods s)"
  obtains md where "gs_modules s m = Some md" "input_port_list md = ins_of s m" "output_port_list md = outs_of s m"
proof -
  obtain md where "gs_modules s m = Some md" using assms unfolding gu_wf_def by blast
  then show thesis by (intro that [of md]) (simp_all add: ins_of_def outs_of_def)
qed

lemma wf_in_ok: "gu_wf s \<Longrightarrow> m \<in> set (mods s) \<Longrightarrow> p \<in> set (ins_of s m) \<Longrightarrow> in_ok s m p"
  unfolding gu_wf_def by blast

lemma wf_out_ok: "gu_wf s \<Longrightarrow> active s m \<Longrightarrow> q \<in> set (outs_of s m) \<Longrightarrow> out_ok s m q"
  unfolding gu_wf_def by (simp add: active_mods)

lemma wf_ins_dom:
  assumes "gu_wf s" "m \<in> set (mods s)"
  shows "set (ins_of s m) \<subseteq> dom (gs_ins s)"
proof
  fix p assume "p \<in> set (ins_of s m)"
  from wf_in_ok [OF assms this] show "p \<in> dom (gs_ins s)" by (auto simp: in_ok_def)
qed

lemma wf_owner_in:
  assumes "gu_wf s" "m \<in> set (mods s)" "p \<in> set (ins_of s m)"
  shows "port_module (the (gs_ins s p)) = Some m"
  using wf_in_ok [OF assms] by (auto simp: in_ok_def)

lemma wf_owner_out:
  assumes "gu_wf s" "active s m" "q \<in> set (outs_of s m)"
  shows "port_module (the (gs_outs s q)) = Some m"
  using wf_out_ok [OF assms] by (auto simp: out_ok_def)

lemma ins_unique: "gu_wf s \<Longrightarrow> m \<in> set (mods s) \<Longrightarrow> n \<in> set (mods s) \<Longrightarrow> p \<in> set (ins_of s m) \<Longrightarrow> p \<in> set (ins_of s n) \<Longrightarrow> m = n"
  using wf_owner_in [of s m p] wf_owner_in [of s n p] by simp

lemma outs_unique: "gu_wf s \<Longrightarrow> active s m \<Longrightarrow> active s n \<Longrightarrow> q \<in> set (outs_of s m) \<Longrightarrow> q \<in> set (outs_of s n) \<Longrightarrow> m = n"
  using wf_owner_out [of s m q] wf_owner_out [of s n q] by simp

lemma wf_source:
  assumes "gu_wf s" "active s m" "p \<in> set (ins_of s m)" "\<not> is_ext s p"
  obtains u q where "active s u" "q \<in> set (outs_of s u)" "target s q = Some p"
  using wf_in_ok [OF assms(1) active_mods [OF assms(2)] assms(3)] assms(2,4)
  by (auto simp: in_ok_def is_ext_def active_def)

lemma wf_target:
  assumes "gu_wf s" "active s m" "q \<in> set (outs_of s m)" "target s q = Some p"
  obtains v where "active s v" "p \<in> set (ins_of s v)" "\<not> is_ext s p" "conn_out_port_ptr (the (gs_ins s p)) = Some q"
    "ext_out_port_ptr (the (gs_outs s q)) = None" "conn_in_port_ptr (the (gs_outs s q)) = Some p"
proof -
  obtain po where po: "gs_outs s q = Some po" and alt: "if ext_out_port_ptr po \<noteq> None then conn_in_port_ptr po = None else (\<exists>v p ip. conn_in_port_ptr po = Some p \<and> active s v
      \<and> p \<in> set (ins_of s v) \<and> gs_ins s p = Some ip \<and> conn_out_port_ptr ip = Some q \<and> ext_in_port_ptr ip = None)"
    using wf_out_ok [OF assms(1-3)] unfolding out_ok_def by blast
  have n: "ext_out_port_ptr po = None" "conn_in_port_ptr po = Some p"
    using assms(4) po by (auto simp: target_def split: if_splits)
  show thesis using alt n that by (auto simp: po is_ext_def)
qed

lemma target_inj:
  assumes "gu_wf s" "active s m" "active s n" "q \<in> set (outs_of s m)" "r \<in> set (outs_of s n)" "target s q = Some p" "target s r = Some p"
  shows "q = r"
proof -
  from wf_target [OF assms(1,2,4,6)] have "conn_out_port_ptr (the (gs_ins s p)) = Some q" by blast
  moreover from wf_target [OF assms(1,3,5,7)] have "conn_out_port_ptr (the (gs_ins s p)) = Some r" by blast
  ultimately show ?thesis by simp
qed

lemma wf_ext_in:
  assumes "gu_wf s" "e \<in> set (ext_in_port_list (gs_gu s))"
  obtains x p m where "gs_ext_ins s e = Some x" "int_in_port_ptr x = Some p" "active s m" "p \<in> set (ins_of s m)" "is_ext s p"
proof -
  have "\<forall>e \<in> set (ext_in_port_list (gs_gu s)). \<exists>x p m. gs_ext_ins s e = Some x \<and> int_in_port_ptr x = Some p
      \<and> active s m \<and> p \<in> set (ins_of s m) \<and> ext_in_port_ptr (the (gs_ins s p)) = Some e"
    using assms(1) unfolding gu_wf_def by blast
  then obtain x p m where "gs_ext_ins s e = Some x" "int_in_port_ptr x = Some p" "active s m" "p \<in> set (ins_of s m)"
      "ext_in_port_ptr (the (gs_ins s p)) = Some e" using assms(2) by blast
  then show thesis by (intro that [of x p m]) (simp_all add: is_ext_def)
qed

lemma ext_port_listed:
  assumes "gu_wf s" "p \<in> ext_ports s"
  obtains e x where "e \<in> set (ext_in_port_list (gs_gu s))" "gs_ext_ins s e = Some x" "int_in_port_ptr x = Some p"
proof -
  obtain m where m: "active s m" "p \<in> set (ins_of s m)" "is_ext s p" using assms(2) by (auto simp: ext_ports_def)
  show thesis using wf_in_ok [OF assms(1) active_mods [OF m(1)] m(2)] m that
    by (auto simp: in_ok_def is_ext_def active_def)
qed

lemma num_inputs_0: "gu_wf s \<Longrightarrow> m \<in> set (mods s) \<Longrightarrow> num_input_ports (the (gs_modules s m)) = 0 \<longleftrightarrow> ins_of s m = []"
proof -
  assume "gu_wf s" "m \<in> set (mods s)"
  then have "num_input_ports (the (gs_modules s m)) = of_nat (length (ins_of s m))" "length (ins_of s m) < 256"
    unfolding gu_wf_def by blast+
  then show ?thesis by (auto simp: word_of_nat_eq_0_iff dest: dvd_imp_le)
qed

lemma inactive_has_input: "gu_wf s \<Longrightarrow> m \<in> set (mods s) \<Longrightarrow> ins_of s m = [] \<Longrightarrow> active s m"
  unfolding gu_wf_def by blast

lemma finite_active: "finite {m. active s m}"
  by (rule finite_subset [of _ "set (mods s)"]) (auto simp: active_def)

subsection \<open>The modules to start with\<close>

text \<open>
  After some ports of the container: the marked ports and the queue of the modules that have only such ports.
\<close>

definition ext_inv :: "gu_state \<Rightarrow> addr list \<Rightarrow> addr set \<Rightarrow> bool" where
  "ext_inv s edge M \<longleftrightarrow> M \<subseteq> ext_ports s \<and> distinct edge
     \<and> (\<forall>m \<in> set edge. active s m \<and> ins_of s m \<noteq> [] \<and> set (ins_of s m) \<subseteq> M)
     \<and> (\<forall>m p. active s m \<longrightarrow> p \<in> set (ins_of s m) \<inter> M \<longrightarrow> (\<forall>p \<in> set (ins_of s m). is_ext s p) \<longrightarrow> m \<in> set edge)"

definition covers :: "gu_state \<Rightarrow> addr list \<Rightarrow> addr set \<Rightarrow> bool" where
  "covers s es M \<longleftrightarrow> (\<forall>e \<in> set es. \<forall>x p. gs_ext_ins s e = Some x \<longrightarrow> int_in_port_ptr x = Some p \<longrightarrow> p \<in> M)"

definition mem_ok :: "gu_mal \<Rightarrow> bool" where
  "mem_ok mal \<longleftrightarrow> (\<forall>s xs. mal s xs)"

lemma mem_okD: "mem_ok mal \<Longrightarrow> mal s xs"
  by (simp add: mem_ok_def)

text \<open>A loop either runs out of memory or ends well.\<close>

definition nomem_or :: "gu_state \<Rightarrow> (u32 \<times> addr list \<times> gu_state) option \<Rightarrow> bool \<Rightarrow> (addr list \<times> gu_state \<Rightarrow> bool) \<Rightarrow> bool" where
  "nomem_or s r mem P \<longleftrightarrow> (\<exists>rc edge s'. r = Some (rc, edge, s') \<and>
     (rc = AR_ENOMEMORY \<and> \<not> mem \<and> (\<exists>S M. s' = st s S M) \<or> rc = AR_EOK \<and> P (edge, s')))"

lemma nomem_orI: "r = Some (AR_EOK, edge, s') \<Longrightarrow> P (edge, s') \<Longrightarrow> nomem_or s r mem P"
  by (auto simp: nomem_or_def)

lemma nomem_orE:
  assumes "nomem_or s r mem P"
  obtains rc x y where "r = Some (rc, x, y)" "rc = AR_ENOMEMORY \<and> \<not> mem \<and> (\<exists>S M. y = st s S M) \<or> rc = AR_EOK \<and> P (x, y)"
  using assms unfolding nomem_or_def by blast

lemma nomem_or_mono: "nomem_or s r mem P \<Longrightarrow> (\<And>a. P a \<Longrightarrow> Q a) \<Longrightarrow> nomem_or s r mem Q"
  unfolding nomem_or_def by blast

lemma nomem_or_cons: "nomem_or s (f x a) mem Q \<Longrightarrow> (\<And>b. Q b \<Longrightarrow> nomem_or s (try_list f xs b) mem P) \<Longrightarrow> nomem_or s (try_list f (x # xs) a) mem P"
  unfolding nomem_or_def by fastforce

lemma edge_ext_st:
  assumes wf: "gu_wf s" and inv: "ext_inv s edge M" and e: "gs_ext_ins s e = Some x" "int_in_port_ptr x = Some p" "active s m" "p \<in> set (ins_of s m)" "is_ext s p"
  shows "nomem_or s (edge_ext mal e (edge, st s S M)) (mem_ok mal) (\<lambda>(edge', s'). \<exists>M'. s' = st s S M' \<and> ext_inv s edge' M' \<and> insert p M \<subseteq> M')"
proof -
  note m = active_mods [OF e(3)]
  have d: "set (ins_of s m) \<subseteq> dom (gs_ins s)" by (rule wf_ins_dom [OF wf m])
  then obtain ip where ip: "gs_ins s p = Some ip" using e(4) by auto
  have own: "port_module ip = Some m" using wf_owner_in [OF wf m e(4)] ip by simp
  obtain md where md: "gs_modules s m = Some md" "input_port_list md = ins_of s m" by (rule wf_module [OF wf m])
  have pe: "p \<in> ext_ports s" using e(3-5) by (auto simp: ext_ports_def)
  have eval: "edge_ext mal e (edge, st s S M) =
      (if \<forall>p \<in> set (ins_of s m). is_ext s p \<and> p \<notin> M
       then (if mal (st s S M) edge then Some (AR_EOK, edge @ [m], st s S (M \<union> set (ins_of s m))) else Some (AR_ENOMEMORY, edge, st s S M))
       else Some (AR_EOK, edge, st s S (insert p M)))"
    using md d ip own e(1,2) mark_st(1) [of p s S M]
    by (simp add: edge_ext_def insert_tail_def external_only_st mark_all_st domI)
  show ?thesis
  proof (cases "\<forall>p \<in> set (ins_of s m). is_ext s p \<and> p \<notin> M")
    case True
    have sub: "M \<union> set (ins_of s m) \<subseteq> ext_ports s" using inv True e(3) by (auto simp: ext_inv_def ext_ports_def)
    have new: "m \<notin> set edge" using inv True e(4) by (auto simp: ext_inv_def)
    have "ext_inv s (edge @ [m]) (M \<union> set (ins_of s m))"
      using inv sub new e(3,4) ins_unique [OF wf m active_mods] unfolding ext_inv_def by auto
    then show ?thesis using True e(4) unfolding eval by (auto simp: nomem_or_def dest: mem_okD)
  next
    case False
    have "m \<in> set edge" if "\<forall>p \<in> set (ins_of s m). is_ext s p"
      using inv False that e(3) unfolding ext_inv_def by blast
    moreover have "n = m" if "active s n" "p \<in> set (ins_of s n)" for n by (rule ins_unique [OF wf active_mods [OF that(1)] m that(2) e(4)])
    ultimately have "ext_inv s edge (insert p M)" using inv pe unfolding ext_inv_def by blast
    then show ?thesis using False unfolding eval by (auto simp: nomem_or_def)
  qed
qed

lemma edge_ext_loop:
  assumes wf: "gu_wf s"
  shows "set es \<subseteq> set (ext_in_port_list (gs_gu s)) \<Longrightarrow> ext_inv s edge M \<Longrightarrow>
    nomem_or s (try_list (edge_ext mal) es (edge, st s S M)) (mem_ok mal)
      (\<lambda>(edge', s'). \<exists>M'. s' = st s S M' \<and> ext_inv s edge' M' \<and> M \<subseteq> M' \<and> covers s es M')"
proof (induction es arbitrary: edge M)
  case Nil
  then show ?case by (auto simp: covers_def intro!: nomem_orI)
next
  case (Cons e es)
  obtain x p m where e: "gs_ext_ins s e = Some x" "int_in_port_ptr x = Some p" "active s m" "p \<in> set (ins_of s m)" "is_ext s p"
    using wf_ext_in [OF wf, of e] Cons.prems(1) by auto
  show ?case
  proof (rule nomem_or_cons, rule edge_ext_st [OF wf Cons.prems(2) e], clarify)
    fix edge' M' assume M': "ext_inv s edge' M'" "insert p M \<subseteq> M'"
    show "nomem_or s (try_list (edge_ext mal) es (edge', st s S M')) (mem_ok mal)
      (\<lambda>(edge', s'). \<exists>M'. s' = st s S M' \<and> ext_inv s edge' M' \<and> M \<subseteq> M' \<and> covers s (e # es) M')"
      using Cons.prems(1) M' e(1,2) by (intro nomem_or_mono [OF Cons.IH]) (fastforce simp: covers_def)+
  qed
qed

lemma ext_inv_done:
  assumes wf: "gu_wf s" and M: "ext_inv s edge M" "covers s (ext_in_port_list (gs_gu s)) M"
  shows "M = ext_ports s" "distinct edge" "set edge = {m. active s m \<and> ins_of s m \<noteq> [] \<and> set (ins_of s m) \<subseteq> ext_ports s}"
proof -
  have "ext_ports s \<subseteq> M"
  proof
    fix p assume "p \<in> ext_ports s"
    from ext_port_listed [OF wf this] show "p \<in> M" using M(2) unfolding covers_def by blast
  qed
  then show eq: "M = ext_ports s" using M(1) unfolding ext_inv_def by blast
  show "distinct edge" using M(1) unfolding ext_inv_def by blast
  have "m \<in> set edge" if m: "active s m" "ins_of s m \<noteq> []" "set (ins_of s m) \<subseteq> ext_ports s" for m
  proof -
    have "\<forall>p \<in> set (ins_of s m). is_ext s p" using m(3) unfolding ext_ports_def by blast
    moreover have "hd (ins_of s m) \<in> set (ins_of s m) \<inter> M" using m(2,3) eq by auto
    ultimately show ?thesis using M(1) m(1) unfolding ext_inv_def by blast
  qed
  then show "set edge = {m. active s m \<and> ins_of s m \<noteq> [] \<and> set (ins_of s m) \<subseteq> ext_ports s}"
    using M(1) unfolding eq ext_inv_def by blast
qed

lemma edge_ext_all:
  assumes wf: "gu_wf s"
  shows "nomem_or s (try_list (edge_ext mal) (ext_in_port_list (gs_gu s)) ([], st s S {})) (mem_ok mal)
      (\<lambda>(edge, s'). s' = st s S (ext_ports s) \<and> distinct edge \<and> set edge = {m. active s m \<and> ins_of s m \<noteq> [] \<and> set (ins_of s m) \<subseteq> ext_ports s})"
proof -
  have inv0: "ext_inv s [] {}" by (simp add: ext_inv_def)
  note loop = edge_ext_loop [where es = "ext_in_port_list (gs_gu s)" and mal = mal and S = S, OF wf subset_refl inv0]
  show ?thesis
  proof (rule nomem_or_mono [OF loop], clarify)
    fix edge M assume "ext_inv s edge M" "covers s (ext_in_port_list (gs_gu s)) M"
    note M = ext_inv_done [OF wf this]
    show "st s S M = st s S (ext_ports s) \<and> distinct edge \<and> set edge = {m. active s m \<and> ins_of s m \<noteq> [] \<and> set (ins_of s m) \<subseteq> ext_ports s}"
      using M(2,3) by (simp add: M(1))
  qed
qed

text \<open>The modules without inputs are added, in the order of the subgraphs.\<close>

definition sources :: "gu_state \<Rightarrow> addr list \<Rightarrow> addr list" where
  "sources s = filter (\<lambda>m. ins_of s m = [])"

lemma edge_source_st:
  assumes wf: "gu_wf s" and m: "m \<in> set (mods s)"
  shows "nomem_or s (edge_source mal m (edge, st s S M)) (mem_ok mal) (\<lambda>r. r = (edge @ sources s [m], st s S M))"
proof -
  obtain md where md: "gs_modules s m = Some md" by (rule wf_module [OF wf m])
  have "num_input_ports md = 0 \<longleftrightarrow> ins_of s m = []" using num_inputs_0 [OF wf m] by (simp add: md)
  then show ?thesis using md
    by (auto simp: nomem_or_def edge_source_def insert_tail_def sources_def word_neq_0_conv dest: mem_okD)
qed

lemma edge_source_loop:
  assumes wf: "gu_wf s"
  shows "set ms \<subseteq> set (mods s) \<Longrightarrow> nomem_or s (try_list (edge_source mal) ms (edge, st s S M)) (mem_ok mal) (\<lambda>r. r = (edge @ sources s ms, st s S M))"
proof (induction ms arbitrary: edge)
  case Nil
  then show ?case by (simp add: nomem_or_def sources_def)
next
  case (Cons m ms)
  have eq: "sources s (m # ms) = sources s [m] @ sources s ms" by (simp add: sources_def)
  have m: "m \<in> set (mods s)" using Cons.prems by simp
  show ?case using Cons.IH [of "edge @ sources s [m]"] Cons.prems
    by (intro nomem_or_cons [where f = "edge_source mal", OF edge_source_st [OF wf m]]) (simp_all add: eq)
qed

lemma edge_source_all:
  assumes wf: "gu_wf s"
  shows "set gs \<subseteq> set (sg_list (gs_gu s)) \<Longrightarrow>
    nomem_or s (try_list (edge_sources mal) gs (edge, st s S M))
      (mem_ok mal) (\<lambda>r. r = (edge @ sources s (concat (map (\<lambda>g. module_list (the (gs_sgs s g))) gs)), st s S M))"
proof (induction gs arbitrary: edge)
  case Nil
  then show ?case by (simp add: nomem_or_def sources_def)
next
  case (Cons g gs)
  obtain sg where sg: "gs_sgs s g = Some sg" using wf Cons.prems unfolding gu_wf_def by auto
  have ms: "set (module_list sg) \<subseteq> set (mods s)" using Cons.prems sg by (force simp: mods_def)
  have step: "nomem_or s (edge_sources mal g (edge, st s S M))
      (mem_ok mal) (\<lambda>r. r = (edge @ sources s (module_list sg), st s S M))"
    using edge_source_loop [OF wf ms, of mal edge S M] by (simp add: sg edge_sources_def)
  show ?case using Cons.IH [of "edge @ sources s (module_list sg)"] Cons.prems
    by (intro nomem_or_cons [where f = "edge_sources mal", OF step]) (simp_all add: sources_def sg)
qed

text \<open>Together: the queue holds the modules all of whose inputs are ports of the container.\<close>

lemma gu_find_edge_modules_st:
  assumes wf: "gu_wf s"
  shows "\<exists>rc edge s'. gu_find_edge_modules mal (st s S {}) = Some (rc, edge, s')
     \<and> (rc = AR_ENOMEMORY \<and> \<not> mem_ok mal \<and> (\<exists>S M. s' = st s S M)
        \<or> rc = AR_EOK \<and> s' = st s S (ext_ports s) \<and> distinct edge \<and> set edge = {m. active s m \<and> set (ins_of s m) \<subseteq> ext_ports s})"
proof -
  obtain rc edge s' where 1: "try_list (edge_ext mal) (ext_in_port_list (gs_gu s)) ([], st s S {}) = Some (rc, edge, s')"
      and alt: "rc = AR_ENOMEMORY \<and> \<not> mem_ok mal \<and> (\<exists>S M. s' = st s S M) \<or> rc = AR_EOK \<and> s' = st s S (ext_ports s) \<and> distinct edge
        \<and> set edge = {m. active s m \<and> ins_of s m \<noteq> [] \<and> set (ins_of s m) \<subseteq> ext_ports s}"
    by (rule nomem_orE [OF edge_ext_all [OF wf, of mal S]]) simp
  show ?thesis
  proof (cases "rc = AR_EOK")
    case False
    then show ?thesis using alt by (simp add: gu_find_edge_modules_def 1)
  next
    case True
    then have e: "s' = st s S (ext_ports s)" "distinct edge" "set edge = {m. active s m \<and> ins_of s m \<noteq> [] \<and> set (ins_of s m) \<subseteq> ext_ports s}"
      using alt by auto
    obtain rc2 edge2 s2 where 2: "try_list (edge_sources mal)
          (sg_list (gs_gu s)) (edge, s') = Some (rc2, edge2, s2)"
        and alt2: "rc2 = AR_ENOMEMORY \<and> \<not> mem_ok mal \<and> (\<exists>S M. s2 = st s S M) \<or> rc2 = AR_EOK \<and> (edge2, s2) = (edge @ sources s (mods s), s')"
      using edge_source_all [where gs = "sg_list (gs_gu s)" and mal = mal and edge = edge and S = S and M = "ext_ports s", OF wf subset_refl]
      unfolding nomem_or_def mods_def e(1) by blast
    have "distinct (mods s)" using wf unfolding gu_wf_def by blast
    then have d: "distinct (edge @ sources s (mods s))" using e(2,3) by (auto simp: sources_def)
    have q: "set (edge @ sources s (mods s)) = {m. active s m \<and> set (ins_of s m) \<subseteq> ext_ports s}"
      using e(3) inactive_has_input [OF wf] by (auto simp: sources_def active_mods)
    show ?thesis using alt2 d q
      by (auto simp: gu_find_edge_modules_def 1 2 [unfolded e(1)] True e(1))
  qed
qed

subsection \<open>The sort\<close>

text \<open>
  The ports that the output ports \<open>D\<close> lead to, and the invariant of the sort: \<open>xs\<close> are the modules all of whose inputs are marked, in an
  order in which each comes after its predecessors; \<open>D\<close> are output ports of such modules.
\<close>

definition targets :: "gu_state \<Rightarrow> addr set \<Rightarrow> addr set" where
  "targets s D = {p. \<exists>q \<in> D. target s q = Some p}"

definition kahn :: "gu_state \<Rightarrow> addr set \<Rightarrow> addr list \<Rightarrow> bool" where
  "kahn s D xs \<longleftrightarrow> distinct xs \<and> set xs = {m. active s m \<and> set (ins_of s m) \<subseteq> ext_ports s \<union> targets s D}
     \<and> (\<forall>q \<in> D. \<exists>u \<in> set xs. q \<in> set (outs_of s u)) \<and> in_order (gu_edges s) xs"

lemma kahnD:
  assumes "kahn s D xs"
  shows "distinct xs" "set xs = {m. active s m \<and> set (ins_of s m) \<subseteq> ext_ports s \<union> targets s D}"
    "q \<in> D \<Longrightarrow> \<exists>u \<in> set xs. q \<in> set (outs_of s u)" "in_order (gu_edges s) xs" "m \<in> set xs \<Longrightarrow> active s m"
  using assms unfolding kahn_def by blast+

lemma targets_insert: "targets s (insert q D) = targets s D \<union> set_option (target s q)"
  by (auto simp: targets_def)

text \<open>A module that becomes complete was not in the list, and all its predecessors are.\<close>

lemma kahn_new:
  assumes wf: "gu_wf s" and k: "kahn s D xs" and m: "m \<in> set xs" and q: "q \<in> set (outs_of s m)" "q \<notin> D" "target s q = Some p"
    and v: "active s v" "p \<in> set (ins_of s v)"
  shows "v \<notin> set xs" "set (ins_of s v) \<subseteq> ext_ports s \<union> targets s (insert q D) \<Longrightarrow> kahn s (insert q D) (xs @ [v])"
    "\<not> set (ins_of s v) \<subseteq> ext_ports s \<union> targets s (insert q D) \<Longrightarrow> kahn s (insert q D) xs"
proof -
  note am = kahnD(5) [OF k m]
  have ni: "\<not> is_ext s p" by (rule wf_target [OF wf am q(1,3)])
  have pE: "p \<notin> ext_ports s" using ni by (simp add: ext_ports_def)
  have src: "r = q" if "r \<in> insert q D" "target s r = Some p" for r
  proof (cases "r = q")
    case False
    then obtain u where u: "u \<in> set xs" "r \<in> set (outs_of s u)" using kahnD(3) [OF k, of r] \<open>r \<in> insert q D\<close> by auto
    show ?thesis by (rule target_inj [OF wf kahnD(5) [OF k u(1)] am u(2) q(1) that(2) q(3)])
  qed simp
  have pD: "p \<notin> targets s D" using src q(2) unfolding targets_def by auto
  show new: "v \<notin> set xs" using v pE pD unfolding kahnD(2) [OF k] by blast
  have T: "targets s (insert q D) = insert p (targets s D)" using q(3) by (auto simp: targets_insert)
  have own: "n = v" if "active s n" "p \<in> set (ins_of s n)" for n
    by (rule ins_unique [OF wf active_mods [OF that(1)] active_mods [OF v(1)] that(2) v(2)])
  have D: "\<exists>u \<in> set xs. r \<in> set (outs_of s u)" if "r \<in> insert q D" for r
    using that kahnD(3) [OF k] m q(1) by blast
  {
    assume full: "set (ins_of s v) \<subseteq> ext_ports s \<union> targets s (insert q D)"
    have sets: "set (xs @ [v]) = {m. active s m \<and> set (ins_of s m) \<subseteq> ext_ports s \<union> targets s (insert q D)}"
      using kahnD(2) [OF k] full v(1) own unfolding T by (simp add: set_eq_iff) blast
    have "u \<in> set xs" if e: "(u, v) \<in> gu_edges s" for u
    proof -
      obtain r p' where r: "active s u" "r \<in> set (outs_of s u)" "p' \<in> set (ins_of s v)" "target s r = Some p'"
        using e unfolding gu_edges_def by blast
      have "\<not> is_ext s p'" by (rule wf_target [OF wf r(1,2,4)])
      then have "p' \<in> targets s (insert q D)" using full r(3) by (auto simp: ext_ports_def)
      then obtain r' where r': "r' \<in> insert q D" "target s r' = Some p'" unfolding targets_def by blast
      obtain u' where u': "u' \<in> set xs" "r' \<in> set (outs_of s u')" using D [OF r'(1)] by blast
      have "r = r'" by (rule target_inj [OF wf r(1) kahnD(5) [OF k u'(1)] r(2) u'(2) r(4) r'(2)])
      then have "u = u'" using outs_unique [OF wf r(1) kahnD(5) [OF k u'(1)] r(2)] u'(2) by simp
      then show ?thesis using u'(1) by simp
    qed
    then have "in_order (gu_edges s) (xs @ [v])" using kahnD(4) [OF k] by (simp add: in_order_snoc)
    moreover have "distinct (xs @ [v])" using new kahnD(1) [OF k] by simp
    moreover have "\<forall>r \<in> insert q D. \<exists>u \<in> set (xs @ [v]). r \<in> set (outs_of s u)" using D by auto
    ultimately show "kahn s (insert q D) (xs @ [v])" using sets unfolding kahn_def by blast
  next
    assume part: "\<not> set (ins_of s v) \<subseteq> ext_ports s \<union> targets s (insert q D)"
    have "set xs = {m. active s m \<and> set (ins_of s m) \<subseteq> ext_ports s \<union> targets s (insert q D)}"
      using kahnD(2) [OF k] part own unfolding T by (simp add: set_eq_iff) blast
    then show "kahn s (insert q D) xs" using kahnD(1,4) [OF k] D unfolding kahn_def by blast
  }
qed

lemma kahn_none: "kahn s D xs \<Longrightarrow> m \<in> set xs \<Longrightarrow> q \<in> set (outs_of s m) \<Longrightarrow> target s q = None \<Longrightarrow> kahn s (insert q D) xs"
  unfolding kahn_def by (auto simp: targets_insert)

text \<open>The loop over the output ports of the first module of the queue; \<open>S\<close> is the sorted list, with that module as its last one.\<close>

lemma mark_downstream_st:
  assumes wf: "gu_wf s" and k: "kahn s D (S @ es)" and m: "m \<in> set S" and q: "q \<in> set (outs_of s m)" "q \<notin> D"
  shows "nomem_or s (mark_downstream mal q (m # es, st s S (ext_ports s \<union> targets s D))) (mem_ok mal)
    (\<lambda>(edge, s'). \<exists>es'. edge = m # es' \<and> s' = st s S (ext_ports s \<union> targets s (insert q D)) \<and> kahn s (insert q D) (S @ es'))"
proof -
  have mx: "m \<in> set (S @ es)" using m by simp
  note am = kahnD(5) [OF k mx]
  obtain po where po: "gs_outs s q = Some po" using wf_out_ok [OF wf am q(1)] unfolding out_ok_def by blast
  show ?thesis
  proof (cases "target s q")
    case None
    have "ext_out_port_ptr po \<noteq> None" using None wf_out_ok [OF wf am q(1)] po by (auto simp: out_ok_def target_def split: if_splits)
    then have "mark_downstream mal q (m # es, st s S (ext_ports s \<union> targets s D)) = Some (AR_EOK, m # es, st s S (ext_ports s \<union> targets s (insert q D)))"
      by (simp add: mark_downstream_def po targets_insert None)
    then show ?thesis using kahn_none [OF k mx q(1) None] by (intro nomem_orI) auto
  next
    case (Some p)
    obtain v where v: "active s v" "p \<in> set (ins_of s v)" "ext_out_port_ptr po = None" "conn_in_port_ptr po = Some p"
      using wf_target [OF wf am q(1) Some] po by auto
    note vm = active_mods [OF v(1)]
    obtain md where md: "gs_modules s v = Some md" "input_port_list md = ins_of s v" by (rule wf_module [OF wf vm])
    have d: "set (ins_of s v) \<subseteq> dom (gs_ins s)" by (rule wf_ins_dom [OF wf vm])
    then have pd: "p \<in> dom (gs_ins s)" using v(2) by blast
    then obtain ip where ip: "gs_ins s p = Some ip" by blast
    have own: "port_module ip = Some v" using wf_owner_in [OF wf vm v(2)] ip by simp
    have T: "insert p (ext_ports s \<union> targets s D) = ext_ports s \<union> targets s (insert q D)" using Some by (auto simp: targets_insert)
    have eval: "mark_downstream mal q (m # es, st s S (ext_ports s \<union> targets s D)) =
       (if set (ins_of s v) \<subseteq> ext_ports s \<union> targets s (insert q D)
        then (if mal (st s S (ext_ports s \<union> targets s (insert q D))) (m # es)
              then Some (AR_EOK, m # (es @ [v]), st s S (ext_ports s \<union> targets s (insert q D)))
              else Some (AR_ENOMEMORY, m # es, st s S (ext_ports s \<union> targets s (insert q D))))
        else Some (AR_EOK, m # es, st s S (ext_ports s \<union> targets s (insert q D))))"
      by (simp add: mark_downstream_def po v(3,4) mark_st(1) [OF pd] T ip own md all_marked_st [OF d] insert_tail_def)
    note new = kahn_new(2,3) [OF wf k mx q Some v(1,2)]
    show ?thesis using new unfolding eval by (auto simp: nomem_or_def dest: mem_okD)
  qed
qed

lemma mark_downstream_loop:
  assumes wf: "gu_wf s" and m: "m \<in> set S"
  shows "set qs \<subseteq> set (outs_of s m) \<Longrightarrow> distinct qs \<Longrightarrow> set qs \<inter> D = {} \<Longrightarrow> kahn s D (S @ es) \<Longrightarrow>
    nomem_or s (try_list (mark_downstream mal) qs (m # es, st s S (ext_ports s \<union> targets s D))) (mem_ok mal)
      (\<lambda>(edge, s'). \<exists>es'. edge = m # es' \<and> s' = st s S (ext_ports s \<union> targets s (D \<union> set qs)) \<and> kahn s (D \<union> set qs) (S @ es'))"
proof (induction qs arbitrary: D es)
  case Nil
  then show ?case by (auto intro!: nomem_orI)
next
  case (Cons q qs)
  have q: "q \<in> set (outs_of s m)" "q \<notin> D" using Cons.prems(1,3) by auto
  show ?case
  proof (rule nomem_or_cons, rule mark_downstream_st [OF wf Cons.prems(4) m q], clarify)
    fix es' assume "kahn s (insert q D) (S @ es')"
    then show "nomem_or s (try_list (mark_downstream mal) qs (m # es', st s S (ext_ports s \<union> targets s (insert q D)))) (mem_ok mal)
      (\<lambda>(edge, s'). \<exists>es'. edge = m # es' \<and> s' = st s S (ext_ports s \<union> targets s (D \<union> set (q # qs))) \<and> kahn s (D \<union> set (q # qs)) (S @ es'))"
      using Cons.IH [of "insert q D" es'] Cons.prems by simp
  qed
qed

text \<open>Every turn of the main loop makes the sorted list longer, and its modules are distinct.\<close>

abbreviation "all_outs s S \<equiv> \<Union>m \<in> set S. set (outs_of s m)"

lemma sort_loop_st:
  assumes wf: "gu_wf s"
  shows "kahn s (all_outs s S) (S @ edge) \<Longrightarrow> n = card {m. active s m} - length S \<Longrightarrow>
    \<exists>rc s'. sort_loop mal edge (st s S (ext_ports s \<union> targets s (all_outs s S))) = Some (rc, s')
      \<and> (rc = AR_ENOMEMORY \<and> \<not> mem_ok mal \<and> (\<exists>S M. s' = st s S M)
         \<or> rc = AR_EOK \<and> (\<exists>S. s' = st s S (ext_ports s \<union> targets s (all_outs s S)) \<and> kahn s (all_outs s S) S))"
proof (induction n arbitrary: S edge rule: less_induct)
  case (less n)
  show ?case
  proof (cases edge)
    case Nil
    then show ?thesis using less.prems(1) by (subst sort_loop.simps) auto
  next
    case (Cons m es)
    let ?M = "ext_ports s \<union> targets s (all_outs s S)"
    note k = less.prems(1) [unfolded Cons]
    have am: "active s m" by (rule kahnD(5) [OF k]) simp
    obtain md where md: "gs_modules s m = Some md" "output_port_list md = outs_of s m" by (rule wf_module [OF wf active_mods [OF am]])
    have mS: "m \<notin> set S" using kahnD(1) [OF k] by simp
    have d: "distinct (outs_of s m)" using wf active_mods [OF am] unfolding gu_wf_def by blast
    have disj: "set (outs_of s m) \<inter> all_outs s S = {}"
      using mS outs_unique [OF wf am kahnD(5) [OF k]] by fastforce
    have k': "kahn s (all_outs s S) ((S @ [m]) @ es)" using k by simp
    show ?thesis
    proof (cases "mal (st s S ?M) S")
      case False
      then show ?thesis
        by (subst sort_loop.simps) (auto simp: Cons insert_tail_def dest: mem_okD)
    next
      case True
      obtain rc edge2 s2 where 1: "try_list (mark_downstream mal) (outs_of s m) (m # es, st s (S @ [m]) ?M) = Some (rc, edge2, s2)"
        and alt: "rc = AR_ENOMEMORY \<and> \<not> mem_ok mal \<and> (\<exists>S M. s2 = st s S M) \<or> rc = AR_EOK \<and> (\<exists>es'. edge2 = m # es'
            \<and> s2 = st s (S @ [m]) (ext_ports s \<union> targets s (all_outs s S \<union> set (outs_of s m)))
            \<and> kahn s (all_outs s S \<union> set (outs_of s m)) ((S @ [m]) @ es'))"
        by (rule nomem_orE [OF mark_downstream_loop [OF wf _ subset_refl d disj k', where mal = mal]]) auto
      have unf: "sort_loop mal edge (st s S ?M) = (if rc \<noteq> AR_EOK then Some (rc, s2) else sort_loop mal (tl edge2) s2)"
        by (subst sort_loop.simps) (simp add: Cons insert_tail_def True md 1)
      have D: "all_outs s S \<union> set (outs_of s m) = all_outs s (S @ [m])" by auto
      show ?thesis
      proof (cases "rc = AR_EOK")
        case False
        then show ?thesis using alt False unfolding unf by auto
      next
        case True
        then obtain es' where e: "edge2 = m # es'" "s2 = st s (S @ [m]) (ext_ports s \<union> targets s (all_outs s (S @ [m])))"
            "kahn s (all_outs s (S @ [m])) ((S @ [m]) @ es')" using alt unfolding D by auto
        have "length (S @ m # es) \<le> card {m. active s m}"
          using card_mono [OF finite_active, of "set (S @ m # es)" s] kahnD(5) [OF k] distinct_card [OF kahnD(1) [OF k]] by auto
        then have "card {m. active s m} - length (S @ [m]) < n" using less.prems(2) by simp
        from less.IH [OF this e(3) refl] show ?thesis unfolding unf e(1,2) using True by simp
      qed
    qed
  qed
qed

subsection \<open>The marks are taken away again\<close>

lemma for_list_keep: "(\<And>x. x \<in> set xs \<Longrightarrow> f x s = Some s) \<Longrightarrow> for_list f xs s = Some s"
  by (induction xs) auto

lemma unmark_outs:
  assumes "set qs \<subseteq> dom (gs_outs s)" "\<forall>po \<in> ran (gs_outs s). \<not> port_mark po"
  shows "for_list (\<lambda>q. upd_out (Some q) (port_mark_update (\<lambda>_. False))) qs (st s S M) = Some (st s S M)"
proof (rule for_list_keep)
  fix q assume "q \<in> set qs"
  then obtain po where po: "gs_outs s q = Some po" using assms(1) by auto
  then have "\<not> port_mark po" using assms(2) by (auto simp: ran_def)
  then have "port_mark_update (\<lambda>_. False) po = po" by simp
  then show "upd_out (Some q) (port_mark_update (\<lambda>_. False)) (st s S M) = Some (st s S M)"
    using po by (simp add: upd_out_def modify_def st_def map_upd_triv)
qed

lemma reset_modules:
  assumes wf: "gu_wf s"
  shows "set ms \<subseteq> set (mods s) \<Longrightarrow> for_list unmark_module ms (st s S M) = Some (st s S (M - (\<Union>m \<in> set ms. set (ins_of s m))))"
proof (induction ms arbitrary: M)
  case (Cons m ms)
  have m: "m \<in> set (mods s)" using Cons.prems by simp
  obtain md where md: "gs_modules s m = Some md" "input_port_list md = ins_of s m" "output_port_list md = outs_of s m" by (rule wf_module [OF wf m])
  have o: "set (outs_of s m) \<subseteq> dom (gs_outs s)" "\<forall>po \<in> ran (gs_outs s). \<not> port_mark po" using wf m unfolding gu_wf_def by blast+
  show ?case using Cons.IH [of "M - set (ins_of s m)"] Cons.prems
    by (simp add: unmark_module_def md unmark_all_st [OF wf_ins_dom [OF wf m]] unmark_outs [OF o] Diff_eq Int_assoc)
qed simp

lemma reset_sgs:
  assumes wf: "gu_wf s"
  shows "set gs \<subseteq> set (sg_list (gs_gu s)) \<Longrightarrow> for_list (\<lambda>g s. do { sg \<leftarrow> load (gs_sgs s) (Some g); for_list unmark_module (module_list sg) s }) gs (st s S M)
     = Some (st s S (M - (\<Union>m \<in> set (concat (map (\<lambda>g. module_list (the (gs_sgs s g))) gs)). set (ins_of s m))))"
proof (induction gs arbitrary: M)
  case (Cons g gs)
  obtain sg where sg: "gs_sgs s g = Some sg" using wf Cons.prems unfolding gu_wf_def by auto
  have ms: "set (module_list sg) \<subseteq> set (mods s)" using Cons.prems sg by (force simp: mods_def)
  show ?case using Cons.IH [of "M - (\<Union>m \<in> set (module_list sg). set (ins_of s m))"] Cons.prems
    by (simp add: sg reset_modules [OF wf ms] Diff_eq Int_assoc)
qed simp

lemma gu_reset_graph_port_markers_st:
  assumes wf: "gu_wf s" and M: "M \<subseteq> (\<Union>m \<in> set (mods s). set (ins_of s m))"
  shows "gu_reset_graph_port_markers (st s S M) = Some (st s S {})"
proof -
  have none: "M - (\<Union>m \<in> set (mods s). set (ins_of s m)) = {}" using M by blast
  show ?thesis using reset_sgs [OF wf subset_refl, of S M]
    unfolding gu_reset_graph_port_markers_def for_modules_def mods_def [symmetric] none by simp
qed

lemma st_none:
  assumes "gu_wf s"
  shows "st s S {} = s\<lparr>gs_gu := (gs_gu s)\<lparr>sort_status := GU_SORT_UPDATED, sorted_module_list := S\<rparr>\<rparr>"
proof -
  have "map_option (port_mark_update (\<lambda>_. False)) (gs_ins s p) = gs_ins s p" for p
  proof (cases "gs_ins s p")
    case (Some ip)
    then have "\<not> port_mark ip" using assms unfolding gu_wf_def by (auto simp: ran_def)
    then show ?thesis using Some by simp
  qed simp
  then show ?thesis by (simp add: st_def)
qed

subsection \<open>What the list contains\<close>

lemma finite_edges: "finite (gu_edges s)"
  by (rule finite_subset [of _ "{m. active s m} \<times> {m. active s m}"]) (auto simp: gu_edges_def finite_active)

text \<open>A list in order holds only elements without an infinite chain of predecessors.\<close>

lemma in_order_acc: "in_order E xs \<Longrightarrow> x \<in> set xs \<Longrightarrow> x \<in> Wellfounded.acc E"
proof (induction xs arbitrary: x rule: rev_induct)
  case (snoc y ys)
  then have o: "in_order E ys" "\<And>u. (u, y) \<in> E \<Longrightarrow> u \<in> set ys" by (auto simp: in_order_snoc)
  have "y \<in> Wellfounded.acc E" by (rule accI) (use o snoc.IH in blast)
  then show ?case using snoc.IH [OF o(1)] snoc.prems(2) by auto
qed simp

lemma kahn_done:
  assumes wf: "gu_wf s" and k: "kahn s (all_outs s S) S"
  shows "set S = {m. active s m \<and> m \<in> Wellfounded.acc (gu_edges s)}"
proof -
  have "m \<in> set S" if "m \<in> Wellfounded.acc (gu_edges s)" "active s m" for m
    using that
  proof (induction rule: acc_induct_rule)
    case (1 v)
    have "p \<in> ext_ports s \<union> targets s (all_outs s S)" if p: "p \<in> set (ins_of s v)" for p
    proof (cases "is_ext s p")
      case True
      then show ?thesis using 1(3) p by (auto simp: ext_ports_def)
    next
      case False
      obtain u q where u: "active s u" "q \<in> set (outs_of s u)" "target s q = Some p" by (rule wf_source [OF wf 1(3) p False])
      then have "(u, v) \<in> gu_edges s" using 1(3) p unfolding gu_edges_def by blast
      then have "u \<in> set S" using 1(2) u(1) by blast
      then show ?thesis using u(2,3) unfolding targets_def by blast
    qed
    then show ?case using 1(3) by (subst kahnD(2) [OF k]) blast
  qed
  then show ?thesis using in_order_acc [OF kahnD(4) [OF k]] kahnD(5) [OF k] by blast
qed

lemma marked_are_inputs:
  assumes wf: "gu_wf s" and k: "kahn s (all_outs s S) S"
  shows "ext_ports s \<union> targets s (all_outs s S) \<subseteq> (\<Union>m \<in> set (mods s). set (ins_of s m))"
proof -
  have "p \<in> (\<Union>m \<in> set (mods s). set (ins_of s m))" if "u \<in> set S" "q \<in> set (outs_of s u)" "target s q = Some p" for p u q
    by (rule wf_target [OF wf kahnD(5) [OF k that(1)] that(2,3)]) (auto dest: active_mods)
  then show ?thesis by (auto simp: ext_ports_def targets_def dest: active_mods)
qed

lemma kahn_start:
  assumes wf: "gu_wf s" and q: "distinct edge" "set edge = {m. active s m \<and> set (ins_of s m) \<subseteq> ext_ports s}"
  shows "kahn s (all_outs s []) ([] @ edge)"
proof -
  have "(u, v) \<notin> gu_edges s" if "v \<in> set edge" for u v
    using that wf_target [OF wf] unfolding q(2) gu_edges_def ext_ports_def by blast
  then show ?thesis using q by (simp add: kahn_def targets_def in_order_sources)
qed

lemma sorted_list_st:
  assumes wf: "gu_wf s"
  shows "\<exists>rc s'. gu_update_sorted_list mal s = Some (rc, s') \<and>
    (rc = AR_ENOMEMORY \<and> \<not> mem_ok mal \<and> (\<exists>M. s' = st s [] M) \<or> rc = AR_EOK \<and> (\<exists>S. s' = st s S {} \<and> kahn s (all_outs s S) S))"
proof -
  have s0: "upd_gu (\<lambda>g. g\<lparr>sort_status := GU_SORT_UPDATED, sorted_module_list := []\<rparr>) s = st s [] {}" by (simp add: st_none [OF wf])
  obtain rc edge s1 where 1: "gu_find_edge_modules mal (st s [] {}) = Some (rc, edge, s1)"
    and alt: "rc = AR_ENOMEMORY \<and> \<not> mem_ok mal \<and> (\<exists>S M. s1 = st s S M) \<or> rc = AR_EOK \<and> s1 = st s [] (ext_ports s)
        \<and> distinct edge \<and> set edge = {m. active s m \<and> set (ins_of s m) \<subseteq> ext_ports s}"
    using gu_find_edge_modules_st [OF wf, of mal "[]"] by blast
  show ?thesis
  proof (cases "rc = AR_EOK")
    case False
    then show ?thesis using alt unfolding gu_update_sorted_list_def Let_def s0 by (auto simp: 1)
  next
    case True
    have k0: "kahn s (all_outs s []) ([] @ edge)" by (rule kahn_start [OF wf]) (use alt True in auto)
    have s1: "s1 = st s [] (ext_ports s \<union> targets s (all_outs s []))" using alt True by (simp add: targets_def)
    obtain rc2 s2 where 2: "sort_loop mal edge s1 = Some (rc2, s2)"
      and alt2: "rc2 = AR_ENOMEMORY \<and> \<not> mem_ok mal \<and> (\<exists>S M. s2 = st s S M)
        \<or> rc2 = AR_EOK \<and> (\<exists>S. s2 = st s S (ext_ports s \<union> targets s (all_outs s S)) \<and> kahn s (all_outs s S) S)"
      using sort_loop_st [OF wf k0 refl, of mal] unfolding s1 by blast
    have 3: "gu_update_sorted_list mal s = (if rc2 \<noteq> AR_EOK then Some (rc2, upd_gu (sorted_module_list_update (\<lambda>_. [])) s2)
        else do { s \<leftarrow> gu_reset_graph_port_markers s2; Some (AR_EOK, s) })"
      unfolding gu_update_sorted_list_def Let_def s0 by (simp add: 1 2 True)
    show ?thesis
    proof (cases "rc2 = AR_EOK")
      case False
      then show ?thesis using alt2 unfolding 3 by auto
    next
      case True
      then obtain S where S: "s2 = st s S (ext_ports s \<union> targets s (all_outs s S))" "kahn s (all_outs s S) S" using alt2 by auto
      show ?thesis unfolding 3
        using True S(2) gu_reset_graph_port_markers_st [OF wf marked_are_inputs [OF wf S(2)], of S] by (auto simp: S(1))
    qed
  qed
qed

subsection \<open>An example\<close>

text \<open>
  Three modules of one subgraph, listed against the flow: module 5 has an input from outside and feeds modules 6 and 7, module 6 feeds
  module 7, whose output leaves the container.
\<close>

definition ex_module :: "u32 \<Rightarrow> addr list \<Rightarrow> addr list \<Rightarrow> gu_module" where
  "ex_module i ips ops = \<lparr>module_instance_id = i, max_input_ports = 4, max_output_ports = 4, min_input_ports = 1, min_output_ports = 1,
     num_input_ports = of_nat (length ips), num_output_ports = of_nat (length ops), num_ctrl_ports = 0, module_status = GU_STATUS_DEFAULT,
     path_index = 0, is_source = False, is_sink = False, is_siso = False, is_ds_at_sg_or_cntr_boundary = False,
     is_us_at_sg_or_cntr_boundary = False, input_port_list = ips, output_port_list = ops, ctrl_port_list = [],
     module_sg = Some 100, host_output_port_ptr = None\<rparr>"

definition ex_in :: "u32 \<Rightarrow> addr \<Rightarrow> u8 \<Rightarrow> ptr \<Rightarrow> ptr \<Rightarrow> gu_input_port" where
  "ex_in i m k c e = \<lparr>port_id = i, port_module = Some m, port_index = k, port_mark = False, elementary_pending_attachment = False,
     port_status = GU_STATUS_DEFAULT, conn_out_port_ptr = c, ext_in_port_ptr = e\<rparr>"

definition ex_out :: "u32 \<Rightarrow> addr \<Rightarrow> u8 \<Rightarrow> ptr \<Rightarrow> ptr \<Rightarrow> gu_output_port" where
  "ex_out i m k c e = \<lparr>port_id = i, port_module = Some m, port_index = k, port_mark = False, elementary_pending_attachment = False,
     port_status = GU_STATUS_DEFAULT, conn_in_port_ptr = c, ext_out_port_ptr = e, attached_module_ptr = None\<rparr>"

definition ex_graph :: gu_state where
  "ex_graph = \<lparr>gs_gu = \<lparr>sort_status = GU_SORT_DEFAULT, num_parallel_paths = 0, sg_list = [100], sorted_module_list = [], ext_in_port_list = [200]\<rparr>,
     gs_modules = [5 \<mapsto> ex_module 1 [11] [12, 13], 6 \<mapsto> ex_module 2 [21] [22], 7 \<mapsto> ex_module 3 [31, 32] [33]],
     gs_ins = [11 \<mapsto> ex_in 2 5 0 None (Some 200), 21 \<mapsto> ex_in 2 6 0 (Some 12) None, 31 \<mapsto> ex_in 2 7 0 (Some 13) None, 32 \<mapsto> ex_in 4 7 1 (Some 22) None],
     gs_outs = [12 \<mapsto> ex_out 1 5 0 (Some 21) None, 13 \<mapsto> ex_out 3 5 1 (Some 31) None, 22 \<mapsto> ex_out 1 6 0 (Some 32) None,
       33 \<mapsto> ex_out 1 7 0 None (Some 300)],
     gs_ctrls = Map.empty, gs_sgs = [100 \<mapsto> \<lparr>sg_id = 7, sg_status = GU_STATUS_DEFAULT, module_list = [7, 5, 6]\<rparr>],
     gs_ext_ins = [200 \<mapsto> \<lparr>int_in_port_ptr = Some 11\<rparr>], gs_ext_outs = [300 \<mapsto> \<lparr>int_out_port_ptr = Some 33, downstream_spf_handle_ptr = None\<rparr>]\<rparr>"

lemma ex_fields [simp]:
  "host_output_port_ptr (ex_module i ips ops) = None" "input_port_list (ex_module i ips ops) = ips" "output_port_list (ex_module i ips ops) = ops"
  "num_input_ports (ex_module i ips ops) = of_nat (length ips)"
  "port_module (ex_in i m k c e) = Some m" "conn_out_port_ptr (ex_in i m k c e) = c" "ext_in_port_ptr (ex_in i m k c e) = e" "\<not> port_mark (ex_in i m k c e)"
  "port_module (ex_out i m k c e) = Some m" "conn_in_port_ptr (ex_out i m k c e) = c" "ext_out_port_ptr (ex_out i m k c e) = e" "\<not> port_mark (ex_out i m k c e)"
  by (simp_all add: ex_module_def ex_in_def ex_out_def)

lemma ex_parts:
  "gs_modules ex_graph = [5 \<mapsto> ex_module 1 [11] [12, 13], 6 \<mapsto> ex_module 2 [21] [22], 7 \<mapsto> ex_module 3 [31, 32] [33]]"
  "gs_ins ex_graph = [11 \<mapsto> ex_in 2 5 0 None (Some 200), 21 \<mapsto> ex_in 2 6 0 (Some 12) None, 31 \<mapsto> ex_in 2 7 0 (Some 13) None, 32 \<mapsto> ex_in 4 7 1 (Some 22) None]"
  "gs_outs ex_graph = [12 \<mapsto> ex_out 1 5 0 (Some 21) None, 13 \<mapsto> ex_out 3 5 1 (Some 31) None, 22 \<mapsto> ex_out 1 6 0 (Some 32) None,
     33 \<mapsto> ex_out 1 7 0 None (Some 300)]"
  "gs_ext_ins ex_graph = [200 \<mapsto> \<lparr>int_in_port_ptr = Some 11\<rparr>]" "ext_in_port_list (gs_gu ex_graph) = [200]" "sg_list (gs_gu ex_graph) = [100]"
  "mods ex_graph = [7, 5, 6]" "100 \<in> dom (gs_sgs ex_graph)"
  by (simp_all add: ex_graph_def mods_def)

lemma ex_ports: "ins_of ex_graph 5 = [11]" "ins_of ex_graph 6 = [21]" "ins_of ex_graph 7 = [31, 32]"
  "outs_of ex_graph 5 = [12, 13]" "outs_of ex_graph 6 = [22]" "outs_of ex_graph 7 = [33]"
  by (simp_all add: ins_of_def outs_of_def ex_parts)

lemma ex_active: "active ex_graph m \<longleftrightarrow> m \<in> {5, 6, 7}"
  by (auto simp: active_def ex_parts)

lemma ex_targets: "target ex_graph 12 = Some 21" "target ex_graph 13 = Some 31" "target ex_graph 22 = Some 32" "target ex_graph 33 = None"
  by (simp_all add: target_def ex_parts)

lemma ex_edges: "gu_edges ex_graph = {(5, 6), (5, 7), (6, 7)}"
  by (auto simp: gu_edges_def ex_active ex_ports ex_targets)

lemma in_ok_inner:
  "gs_ins s p = Some ip \<Longrightarrow> port_module ip = Some m \<Longrightarrow> host_output_port_ptr (the (gs_modules s m)) = None \<Longrightarrow> ext_in_port_ptr ip = None \<Longrightarrow>
   conn_out_port_ptr ip = Some q \<Longrightarrow> active s u \<Longrightarrow> q \<in> set (outs_of s u) \<Longrightarrow> target s q = Some p \<Longrightarrow> in_ok s m p"
  by (auto simp: in_ok_def)

lemma out_ok_inner:
  "gs_outs s q = Some po \<Longrightarrow> port_module po = Some m \<Longrightarrow> ext_out_port_ptr po = None \<Longrightarrow> conn_in_port_ptr po = Some p \<Longrightarrow> active s v \<Longrightarrow> p \<in> set (ins_of s v) \<Longrightarrow>
   gs_ins s p = Some ip \<Longrightarrow> conn_out_port_ptr ip = Some q \<Longrightarrow> ext_in_port_ptr ip = None \<Longrightarrow> out_ok s m q"
  by (auto simp: out_ok_def)

lemma ex_in_ok: "in_ok ex_graph 5 11" "in_ok ex_graph 6 21" "in_ok ex_graph 7 31" "in_ok ex_graph 7 32"
  using in_ok_inner [of ex_graph 21 "ex_in 2 6 0 (Some 12) None" 6 12 5] in_ok_inner [of ex_graph 31 "ex_in 2 7 0 (Some 13) None" 7 13 5]
    in_ok_inner [of ex_graph 32 "ex_in 4 7 1 (Some 22) None" 7 22 6]
  by (simp_all add: ex_parts ex_active ex_ports ex_targets) (simp add: in_ok_def ex_parts)

lemma ex_out_ok: "out_ok ex_graph 5 12" "out_ok ex_graph 5 13" "out_ok ex_graph 6 22" "out_ok ex_graph 7 33"
  using out_ok_inner [of ex_graph 12 "ex_out 1 5 0 (Some 21) None" 5 21 6] out_ok_inner [of ex_graph 13 "ex_out 3 5 1 (Some 31) None" 5 31 7]
    out_ok_inner [of ex_graph 22 "ex_out 1 6 0 (Some 32) None" 6 32 7]
  by (simp_all add: ex_parts ex_active ex_ports) (simp add: out_ok_def ex_parts)

lemma ex_graph_wf: "gu_wf ex_graph"
proof -
  have b: "(\<forall>ip \<in> ran (gs_ins ex_graph). \<not> port_mark ip) \<and> (\<forall>po \<in> ran (gs_outs ex_graph). \<not> port_mark po)"
    by (simp add: ex_parts)
  have a: "\<exists>m. active ex_graph m \<and> 11 \<in> set (ins_of ex_graph m)" by (rule exI [of _ 5]) (simp add: ex_active ex_ports)
  show ?thesis unfolding gu_wf_def using a b
    by (simp add: ex_ports ex_in_ok ex_out_ok) (simp add: ex_parts ex_ports ex_active ex_in_ok ex_out_ok)
qed

lemma ex_acyclic: "acyclic (gu_edges ex_graph)"
proof -
  have "gu_edges ex_graph \<subseteq> {(x, y). x < y}" by (auto simp: ex_edges)
  moreover have "acyclic {(x :: nat, y). x < y}" by (intro wf_acyclic wf_less)
  ultimately show ?thesis by (rule acyclic_subset [rotated])
qed

subsection \<open>Properties\<close>

text \<open>
  C2: sorting a well-formed graph always ends. Without memory the result is \<open>AR_ENOMEMORY\<close> and an empty list; with memory it is \<open>AR_EOK\<close> and
  nothing but the list and its status has changed, not even a mark. The list names each module at most once and every module after all modules that
  feed it, and it holds exactly the active modules that do not depend on a cycle: all of them when the graph has no cycle.
\<close>

theorem gu_update_sorted_list_ok:
  assumes "gu_wf s"
  shows "\<exists>rc s'. gu_update_sorted_list mal s = Some (rc, s') \<and>
    (rc = AR_ENOMEMORY \<and> \<not> mem_ok mal \<and> (\<exists>M. s' = st s [] M)
     \<or> rc = AR_EOK \<and> (\<exists>S. s' = s\<lparr>gs_gu := (gs_gu s)\<lparr>sort_status := GU_SORT_UPDATED, sorted_module_list := S\<rparr>\<rparr>
         \<and> distinct S \<and> in_order (gu_edges s) S
         \<and> set S = {m. active s m \<and> m \<in> Wellfounded.acc (gu_edges s)} \<and> (acyclic (gu_edges s) \<longrightarrow> set S = {m. active s m})))"
proof -
  have ac: "Wellfounded.acc (gu_edges s) = UNIV" if "acyclic (gu_edges s)"
    using finite_acyclic_wf [OF finite_edges that] by (auto dest: acc_wfD)
  have "distinct S \<and> in_order (gu_edges s) S \<and> set S = {m. active s m \<and> m \<in> Wellfounded.acc (gu_edges s)}
      \<and> (acyclic (gu_edges s) \<longrightarrow> set S = {m. active s m})" if "kahn s (all_outs s S) S" for S
    using kahnD(1,4) [OF that] kahn_done [OF assms that] ac by simp
  then show ?thesis using sorted_list_st [OF assms, of mal] unfolding st_none [OF assms] by blast
qed

theorem gu_update_sorted_list_ok_witness:
  "gu_wf ex_graph \<and> acyclic (gu_edges ex_graph) \<and>
   (\<exists>S. gu_update_sorted_list (\<lambda>_ _. True) ex_graph
          = Some (AR_EOK, ex_graph\<lparr>gs_gu := (gs_gu ex_graph)\<lparr>sort_status := GU_SORT_UPDATED, sorted_module_list := S\<rparr>\<rparr>)
      \<and> set S = {5, 6, 7} \<and> in_order {(5, 6), (5, 7), (6, 7)} S)"
  using gu_update_sorted_list_ok [OF ex_graph_wf, of "\<lambda>_ _. True"] ex_graph_wf ex_acyclic
  by (auto simp: mem_ok_def ex_active ex_edges)

end
