(* ===== verification/Graph_Paths.thy ===== *)
theory Graph_Paths
  imports Graph_Sort
begin

text \<open>
  Correctness of the division of a graph into parallel paths: two modules have the same path index exactly when they are connected, and
  an attached module has the index of its host. The recursion over the neighbours is a depth-first search; its depth is at most the
  number of modules.
\<close>

subsection \<open>Neighbours\<close>

definition und :: "gu_state \<Rightarrow> (addr \<times> addr) set" where
  "und s = gu_edges s \<union> (gu_edges s)\<inverse>"

definition in_nb :: "gu_state \<Rightarrow> addr \<Rightarrow> ptr" where
  "in_nb s p = (case conn_out_port_ptr (the (gs_ins s p)) of None \<Rightarrow> None | Some q \<Rightarrow> port_module (the (gs_outs s q)))"

definition out_nb :: "gu_state \<Rightarrow> addr \<Rightarrow> ptr" where
  "out_nb s q = (case conn_in_port_ptr (the (gs_outs s q)) of None \<Rightarrow> None | Some p \<Rightarrow> port_module (the (gs_ins s p)))"

definition att :: "gu_state \<Rightarrow> addr \<Rightarrow> ptr" where
  "att s q = attached_module_ptr (the (gs_outs s q))"

text \<open>Attached modules and the output ports they are attached to name each other.\<close>

definition att_wf :: "gu_state \<Rightarrow> bool" where [inv_defs]:
  "att_wf s \<longleftrightarrow> (\<forall>m q a. active s m \<longrightarrow> q \<in> set (outs_of s m) \<longrightarrow> att s q = Some a \<longrightarrow>
       a \<in> set (mods s) \<and> host_output_port_ptr (the (gs_modules s a)) = Some q)
     \<and> (\<forall>a \<in> set (mods s). \<forall>q. host_output_port_ptr (the (gs_modules s a)) = Some q \<longrightarrow>
          att s q = Some a \<and> (\<exists>m. active s m \<and> q \<in> set (outs_of s m)))"

lemma in_nbE:
  assumes wf: "gu_wf s" and m: "active s m" "p \<in> set (ins_of s m)"
  obtains ip where "gs_ins s p = Some ip" "conn_out_port_ptr ip = None" "in_nb s p = None"
  | ip u q po where "gs_ins s p = Some ip" "conn_out_port_ptr ip = Some q" "gs_outs s q = Some po" "port_module po = Some u" "in_nb s p = Some u"
      "active s u" "(u, m) \<in> gu_edges s"
proof -
  obtain ip where ip: "gs_ins s p = Some ip" using wf_in_ok [OF wf active_mods [OF m(1)] m(2)] unfolding in_ok_def by blast
  show thesis
  proof (cases "is_ext s p")
    case True
    then have "conn_out_port_ptr ip = None" using wf_in_ok [OF wf active_mods [OF m(1)] m(2)] m(1) ip
      by (auto simp: in_ok_def is_ext_def active_def)
    then show thesis using that(1) ip by (simp add: in_nb_def)
  next
    case False
    obtain u q where u: "active s u" "q \<in> set (outs_of s u)" "target s q = Some p" by (rule wf_source [OF wf m False])
    have c: "conn_out_port_ptr ip = Some q" using wf_target [OF wf u] ip by auto
    obtain po where po: "gs_outs s q = Some po" "port_module po = Some u" using wf_out_ok [OF wf u(1,2)] unfolding out_ok_def by blast
    have "(u, m) \<in> gu_edges s" using u m unfolding gu_edges_def by blast
    then show thesis using that(2) [OF ip c po] u(1) c po by (simp add: in_nb_def ip)
  qed
qed

lemma out_nbE:
  assumes wf: "gu_wf s" and m: "active s m" "q \<in> set (outs_of s m)"
  obtains po where "gs_outs s q = Some po" "conn_in_port_ptr po = None" "out_nb s q = None"
  | po v p ip where "gs_outs s q = Some po" "conn_in_port_ptr po = Some p" "gs_ins s p = Some ip" "port_module ip = Some v" "out_nb s q = Some v"
      "active s v" "(m, v) \<in> gu_edges s"
proof -
  obtain po where po: "gs_outs s q = Some po" and alt: "ext_out_port_ptr po \<noteq> None \<longrightarrow> conn_in_port_ptr po = None"
    using wf_out_ok [OF wf m] unfolding out_ok_def by (auto split: if_splits)
  show thesis
  proof (cases "target s q")
    case None
    then have "conn_in_port_ptr po = None" using alt po by (auto simp: target_def split: if_splits)
    then show thesis using that(1) po by (simp add: out_nb_def)
  next
    case (Some p)
    obtain v where v: "active s v" "p \<in> set (ins_of s v)" "conn_in_port_ptr po = Some p" using wf_target [OF wf m Some] po by auto
    obtain ip where ip: "gs_ins s p = Some ip" "port_module ip = Some v" using wf_in_ok [OF wf active_mods [OF v(1)] v(2)] unfolding in_ok_def by blast
    have "(m, v) \<in> gu_edges s" using Some m v unfolding gu_edges_def by blast
    then show thesis using that(2) [OF po v(3) ip] v(1,3) ip by (simp add: out_nb_def po)
  qed
qed

lemma in_edges: "gu_wf s \<Longrightarrow> (u, m) \<in> gu_edges s \<Longrightarrow> \<exists>p \<in> set (ins_of s m). in_nb s p = Some u"
proof -
  assume wf: "gu_wf s" and "(u, m) \<in> gu_edges s"
  then obtain q p where u: "active s u" "q \<in> set (outs_of s u)" "target s q = Some p" "p \<in> set (ins_of s m)" unfolding gu_edges_def by blast
  have "conn_out_port_ptr (the (gs_ins s p)) = Some q" by (rule wf_target [OF wf u(1-3)])
  then have "in_nb s p = Some u" using wf_owner_out [OF wf u(1,2)] by (simp add: in_nb_def)
  then show ?thesis using u(4) by blast
qed

lemma out_edges: "gu_wf s \<Longrightarrow> (m, v) \<in> gu_edges s \<Longrightarrow> \<exists>q \<in> set (outs_of s m). out_nb s q = Some v"
proof -
  assume wf: "gu_wf s" and "(m, v) \<in> gu_edges s"
  then obtain q p where u: "active s m" "q \<in> set (outs_of s m)" "target s q = Some p" "active s v" "p \<in> set (ins_of s v)" unfolding gu_edges_def by blast
  have "conn_in_port_ptr (the (gs_outs s q)) = Some p" by (rule wf_target [OF wf u(1-3)])
  then have "out_nb s q = Some v" using wf_owner_in [OF wf active_mods [OF u(4)] u(5)] by (simp add: out_nb_def)
  then show ?thesis using u(2) by blast
qed

subsection \<open>The search\<close>

text \<open>The graph with other path indices.\<close>

definition pst :: "gu_state \<Rightarrow> (addr \<Rightarrow> u8) \<Rightarrow> gu_state" where
  "pst s f = s\<lparr>gs_modules := (\<lambda>m. map_option (path_index_update (\<lambda>_. f m)) (gs_modules s m))\<rparr>"

lemma pst_simps [simp]:
  "gs_gu (pst s f) = gs_gu s" "gs_ins (pst s f) = gs_ins s" "gs_outs (pst s f) = gs_outs s" "gs_sgs (pst s f) = gs_sgs s"
  "gs_modules (pst s f) m = map_option (path_index_update (\<lambda>_. f m)) (gs_modules s m)"
  "upd_gu h (pst s f) = pst (upd_gu h s) f"
  by (simp_all add: pst_def)

lemma upd_path_pst:
  assumes "m \<in> dom (gs_modules s)"
  shows "upd_module (Some m) (path_index_update (\<lambda>_. j)) (pst s f) = Some (pst s (f(m := j)))"
  using assms by (auto simp: upd_module_def modify_def pst_def fun_eq_iff)

text \<open>
  The search from \<open>m\<close> turned the indices \<open>f\<close> into \<open>g\<close>: modules got index \<open>j\<close>, the new ones are connected to \<open>m\<close> and have only neighbours
  and attached modules with index \<open>j\<close>. For the modules in \<open>X\<close> this is not yet claimed.
\<close>

definition fresh :: "gu_state \<Rightarrow> u8 \<Rightarrow> (addr \<Rightarrow> u8) \<Rightarrow> (addr \<Rightarrow> u8) \<Rightarrow> addr set" where
  "fresh s j f g = {x. active s x \<and> f x \<noteq> j \<and> g x = j}"

definition dfs :: "gu_state \<Rightarrow> addr \<Rightarrow> u8 \<Rightarrow> addr set \<Rightarrow> (addr \<Rightarrow> u8) \<Rightarrow> (addr \<Rightarrow> u8) \<Rightarrow> bool" where
  "dfs s m j X f g \<longleftrightarrow> (\<forall>x. g x = f x \<or> g x = j) \<and> g m = j \<and> (\<forall>x \<in> fresh s j f g. (m, x) \<in> (und s)\<^sup>*)
     \<and> (\<forall>x \<in> fresh s j f g - X. (\<forall>y. (x, y) \<in> und s \<longrightarrow> g y = j) \<and> (\<forall>q a. q \<in> set (outs_of s x) \<longrightarrow> att s q = Some a \<longrightarrow> g a = j))
     \<and> (\<forall>a. g a \<noteq> f a \<longrightarrow> active s a \<or> (\<exists>x \<in> fresh s j f g. \<exists>q \<in> set (outs_of s x). att s q = Some a))"

definition unvisited :: "gu_state \<Rightarrow> u8 \<Rightarrow> (addr \<Rightarrow> u8) \<Rightarrow> addr set" where
  "unvisited s j f = {x. active s x \<and> f x \<noteq> j}"

lemma finite_unvisited: "finite (unvisited s j f)"
  by (rule finite_subset [OF _ finite_active [of s]]) (auto simp: unvisited_def)

lemma dfsD:
  assumes "dfs s m j X f g"
  shows "g x = f x \<or> g x = j" "g m = j" "x \<in> fresh s j f g \<Longrightarrow> (m, x) \<in> (und s)\<^sup>*"
    "x \<in> fresh s j f g \<Longrightarrow> x \<notin> X \<Longrightarrow> (x, y) \<in> und s \<Longrightarrow> g y = j"
    "x \<in> fresh s j f g \<Longrightarrow> x \<notin> X \<Longrightarrow> q \<in> set (outs_of s x) \<Longrightarrow> att s q = Some a \<Longrightarrow> g a = j"
    "g a \<noteq> f a \<Longrightarrow> active s a \<or> (\<exists>x \<in> fresh s j f g. \<exists>q \<in> set (outs_of s x). att s q = Some a)"
  using assms unfolding dfs_def by blast+

text \<open>A search from a neighbour continues one.\<close>

lemma dfs_compose:
  assumes 1: "dfs s m j {m} f g" and e: "(m, y) \<in> und s" and 2: "dfs s y j {} g h"
  shows "dfs s m j {m} f h"
proof -
  have fr: "fresh s j f h = fresh s j f g \<union> fresh s j g h"
    using dfsD(1) [OF 1] dfsD(1) [OF 2] unfolding fresh_def by (auto; metis)
  have a: "h x = f x \<or> h x = j" for x using dfsD(1) [OF 1, of x] dfsD(1) [OF 2, of x] by auto
  have keep: "h x = j" if "g x = j" for x using dfsD(1) [OF 2, of x] that by auto
  have r: "(m, x) \<in> (und s)\<^sup>*" if "x \<in> fresh s j f h" for x
    using that dfsD(3) [OF 1] dfsD(3) [OF 2] e unfolding fr by (auto intro: converse_rtrancl_into_rtrancl)
  have c: "h z = j" if "x \<in> fresh s j f h - {m}" "(x, z) \<in> und s" for x z
    using that dfsD(4) [OF 1] dfsD(4) [OF 2] keep unfolding fr by blast
  have d: "h b = j" if "x \<in> fresh s j f h - {m}" "q \<in> set (outs_of s x)" "att s q = Some b" for x q b
    using that dfsD(5) [OF 1] dfsD(5) [OF 2] keep unfolding fr by blast
  have "active s b \<or> (\<exists>x \<in> fresh s j f h. \<exists>q \<in> set (outs_of s x). att s q = Some b)" if "h b \<noteq> f b" for b
    using that dfsD(6) [OF 1, of b] dfsD(6) [OF 2, of b] unfolding fr by (cases "h b = g b") auto
  then show ?thesis using a r c d keep [OF dfsD(2) [OF 1]] unfolding dfs_def by blast
qed

lemma dfs_start: "f m \<noteq> j \<Longrightarrow> active s m \<Longrightarrow> dfs s m j {m} f (f(m := j))"
  by (auto simp: dfs_def fresh_def)

lemma dfs_finish:
  assumes d: "dfs s m j {m} f g" and n: "\<And>y. (m, y) \<in> und s \<Longrightarrow> g y = j" and a: "\<And>q a. q \<in> set (outs_of s m) \<Longrightarrow> att s q = Some a \<Longrightarrow> g a = j"
  shows "dfs s m j {} f g"
proof -
  have "g y = j" if "x \<in> fresh s j f g" "(x, y) \<in> und s" for x y using that n dfsD(4) [OF d, of x y] by (cases "x = m") auto
  moreover have "g b = j" if "x \<in> fresh s j f g" "q \<in> set (outs_of s x)" "att s q = Some b" for x q b
    using that a dfsD(5) [OF d, of x q b] by (cases "x = m") auto
  ultimately show ?thesis using d unfolding dfs_def by blast
qed

lemma dfs_attach:
  assumes d: "dfs s m j {m} f g" and m: "active s m" "f m \<noteq> j" and q: "q \<in> set (outs_of s m)" "att s q = Some a" and n: "\<not> active s a"
  shows "dfs s m j {m} f (g(a := j))"
proof -
  have fr: "fresh s j f (g(a := j)) = fresh s j f g" using n unfolding fresh_def by auto
  have "m \<in> fresh s j f g" using m dfsD(2) [OF d] by (simp add: fresh_def)
  then show ?thesis using d q n unfolding dfs_def fr by auto
qed

lemma ucast_8_16 [simp]: "ucast (ucast (x :: u8) :: u16) = x"
  by (rule ucast_up_ucast_id) (simp add: is_up source_size_def target_size_def word_size)

lemma ucast_8_16_eq [simp]: "(ucast (x :: u8) :: u16) = ucast y \<longleftrightarrow> x = y"
  by (metis ucast_8_16)

lemma fewer_unvisited:
  assumes d: "dfs s m j {m} f g" and m: "active s m" "f m \<noteq> j" and n: "card (unvisited s j f) \<le> Suc n"
  shows "card (unvisited s j g) \<le> n"
proof -
  have "unvisited s j g \<subseteq> unvisited s j f - {m}"
    using dfsD(1,2) [OF d] unfolding unvisited_def by auto metis
  then have "card (unvisited s j g) \<le> card (unvisited s j f - {m})" by (intro card_mono) (simp_all add: finite_unvisited)
  also have "\<dots> = card (unvisited s j f) - 1" using m by (simp add: finite_unvisited unvisited_def)
  finally show ?thesis using n by simp
qed

text \<open>What the recursive calls achieve with fuel \<open>n\<close>.\<close>

definition searches :: "gu_state \<Rightarrow> u8 \<Rightarrow> nat \<Rightarrow> bool" where
  "searches s j n \<longleftrightarrow> (\<forall>u g. active s u \<longrightarrow> g u \<noteq> j \<longrightarrow> card (unvisited s j g) \<le> n \<longrightarrow>
     (\<exists>h. gu_propagate_path_index n u (ucast j) (pst s g) = Some (pst s h) \<and> dfs s u j {} g h))"

text \<open>The step to one neighbour, which is visited already or searched.\<close>

lemma search_neighbour:
  assumes rec: "searches s j n" and d: "dfs s m j {m} f g" and m: "active s m" "f m \<noteq> j" and n: "card (unvisited s j f) \<le> Suc n"
    and u: "active s u" "(m, u) \<in> und s"
  shows "\<exists>h. (if ucast j = (ucast (g u) :: u16) then Some (pst s g) else gu_propagate_path_index n u (ucast j) (pst s g)) = Some (pst s h)
    \<and> dfs s m j {m} f h \<and> (\<forall>x. g x = j \<longrightarrow> h x = j) \<and> h u = j"
proof (cases "g u = j")
  case True
  then show ?thesis using d by auto
next
  case False
  obtain h where h: "gu_propagate_path_index n u (ucast j) (pst s g) = Some (pst s h)" "dfs s u j {} g h"
    using rec u(1) False fewer_unvisited [OF d m n] unfolding searches_def by blast
  have ne: "(ucast j :: u16) \<noteq> ucast (g u)" using False by simp
  show ?thesis using h dfs_compose [OF d u(2) h(2)] dfsD(1,2) [OF h(2)] ne by (intro exI [of _ h]) (simp, metis)
qed

lemma propagate_input_st:
  assumes wf: "gu_wf s" and rec: "searches s j n" and d: "dfs s m j {m} f g" and m: "active s m" "f m \<noteq> j"
    and n: "card (unvisited s j f) \<le> Suc n" and p: "p \<in> set (ins_of s m)"
  shows "\<exists>h. propagate_input (gu_propagate_path_index n) m p (pst s g) = Some (pst s h) \<and> dfs s m j {m} f h
    \<and> (\<forall>x. g x = j \<longrightarrow> h x = j) \<and> (\<forall>u. in_nb s p = Some u \<longrightarrow> h u = j)"
proof -
  obtain md where md: "gs_modules s m = Some md" by (rule wf_module [OF wf active_mods [OF m(1)]])
  have gm: "g m = j" by (rule dfsD(2) [OF d])
  show ?thesis
  proof (rule in_nbE [OF wf m(1) p])
    fix ip assume "gs_ins s p = Some ip" "conn_out_port_ptr ip = None" "in_nb s p = None"
    then show ?thesis using d by (auto simp: propagate_input_def gu_propagate_path_index_backward_def md)
  next
    fix ip u q po
    assume a: "gs_ins s p = Some ip" "conn_out_port_ptr ip = Some q" "gs_outs s q = Some po" "port_module po = Some u" "in_nb s p = Some u"
      "active s u" "(u, m) \<in> gu_edges s"
    obtain ud where ud: "gs_modules s u = Some ud" by (rule wf_module [OF wf active_mods [OF a(6)]])
    have e: "(m, u) \<in> und s" using a(7) by (simp add: und_def)
    have eval: "propagate_input (gu_propagate_path_index n) m p (pst s g) =
        (if ucast j = (ucast (g u) :: u16) then Some (pst s g) else gu_propagate_path_index n u (ucast j) (pst s g))"
      by (simp add: propagate_input_def gu_propagate_path_index_backward_def md ud a gm)
    show ?thesis using search_neighbour [OF rec d m n a(6) e] a(5) unfolding eval by auto
  qed
qed

lemma attached_st:
  assumes wf: "gu_wf s" "att_wf s" and d: "dfs s m j {m} f g" and m: "active s m" "f m \<noteq> j" and q: "q \<in> set (outs_of s m)"
  shows "\<exists>h. (if att s q \<noteq> None then upd_module (att s q) (path_index_update (\<lambda>_. j)) (pst s g) else Some (pst s g)) = Some (pst s h)
    \<and> dfs s m j {m} f h \<and> (\<forall>x. g x = j \<longrightarrow> h x = j) \<and> (\<forall>a. att s q = Some a \<longrightarrow> h a = j)"
proof (cases "att s q")
  case None
  then show ?thesis using d by auto
next
  case (Some a)
  have "a \<in> set (mods s) \<and> host_output_port_ptr (the (gs_modules s a)) = Some q" using wf(2) m(1) q Some unfolding att_wf_def by blast
  then have a: "a \<in> set (mods s)" "\<not> active s a" by (simp_all add: active_def)
  then have "a \<in> dom (gs_modules s)" using wf(1) unfolding gu_wf_def by blast
  then show ?thesis using dfs_attach [OF d m q Some a(2)] by (intro exI [of _ "g(a := j)"]) (simp add: Some upd_path_pst)
qed

lemma propagate_output_st:
  assumes wf: "gu_wf s" "att_wf s" and rec: "searches s j n" and d: "dfs s m j {m} f g" and m: "active s m" "f m \<noteq> j"
    and n: "card (unvisited s j f) \<le> Suc n" and q: "q \<in> set (outs_of s m)"
  shows "\<exists>h. propagate_output (gu_propagate_path_index n) m q (pst s g) = Some (pst s h) \<and> dfs s m j {m} f h
    \<and> (\<forall>x. g x = j \<longrightarrow> h x = j) \<and> (\<forall>v. out_nb s q = Some v \<longrightarrow> h v = j) \<and> (\<forall>a. att s q = Some a \<longrightarrow> h a = j)"
proof -
  obtain md where md: "gs_modules s m = Some md" by (rule wf_module [OF wf(1) active_mods [OF m(1)]])
  have gm: "g m = j" by (rule dfsD(2) [OF d])
  obtain k where upd: "(if att s q \<noteq> None then upd_module (att s q) (path_index_update (\<lambda>_. j)) (pst s g) else Some (pst s g)) = Some (pst s k)"
    and k: "dfs s m j {m} f k" "\<forall>x. g x = j \<longrightarrow> k x = j" "\<forall>a. att s q = Some a \<longrightarrow> k a = j"
    using attached_st [OF wf d m q] by (elim exE conjE)
  have km: "k m = j" by (rule dfsD(2) [OF k(1)])
  have eval1: "propagate_output (gu_propagate_path_index n) m q (pst s g) =
      gu_propagate_path_index_forward (gu_propagate_path_index n) q (ucast j) (pst s k)" if "gs_outs s q = Some po" for po
  proof -
    have "att s q = attached_module_ptr po" using that by (simp add: att_def)
    then show ?thesis unfolding propagate_output_def using that upd by (cases "attached_module_ptr po") (simp_all add: md gm km)
  qed
  show ?thesis
  proof (rule out_nbE [OF wf(1) m(1) q])
    fix po assume o: "gs_outs s q = Some po" "conn_in_port_ptr po = None" "out_nb s q = None"
    have "propagate_output (gu_propagate_path_index n) m q (pst s g) = Some (pst s k)"
      by (simp add: eval1 [OF o(1)] gu_propagate_path_index_forward_def o)
    then show ?thesis using k o(3) by (intro exI [of _ k]) simp
  next
    fix po v p ip
    assume o: "gs_outs s q = Some po" "conn_in_port_ptr po = Some p" "gs_ins s p = Some ip" "port_module ip = Some v" "out_nb s q = Some v"
      "active s v" "(m, v) \<in> gu_edges s"
    obtain vd where vd: "gs_modules s v = Some vd" by (rule wf_module [OF wf(1) active_mods [OF o(6)]])
    have e: "(m, v) \<in> und s" using o(7) by (simp add: und_def)
    have eval: "propagate_output (gu_propagate_path_index n) m q (pst s g) =
        (if ucast j = (ucast (k v) :: u16) then Some (pst s k) else gu_propagate_path_index n v (ucast j) (pst s k))"
      by (simp add: eval1 [OF o(1)] gu_propagate_path_index_forward_def vd o)
    obtain h where h: "(if ucast j = (ucast (k v) :: u16) then Some (pst s k) else gu_propagate_path_index n v (ucast j) (pst s k)) = Some (pst s h)"
      "dfs s m j {m} f h" "\<forall>x. k x = j \<longrightarrow> h x = j" "h v = j" using search_neighbour [OF rec k(1) m n o(6) e] by (elim exE conjE)
    have "out_nb s q = Some v' \<longrightarrow> h v' = j" for v' using o(5) h(4) by auto
    then show ?thesis unfolding eval using h(1-3) k(2,3) by (intro exI [of _ h] conjI allI) simp_all
  qed
qed

text \<open>The two loops, with what the ports already done have reached.\<close>

lemma propagate_loop:
  assumes step: "\<And>p g. p \<in> set ps \<Longrightarrow> dfs s m j {m} f g \<Longrightarrow>
      \<exists>h. body p (pst s g) = Some (pst s h) \<and> dfs s m j {m} f h \<and> (\<forall>x. g x = j \<longrightarrow> h x = j) \<and> (\<forall>x \<in> R p. h x = j)"
  shows "dfs s m j {m} f g \<Longrightarrow> \<exists>h. for_list body ps (pst s g) = Some (pst s h) \<and> dfs s m j {m} f h
      \<and> (\<forall>x. g x = j \<longrightarrow> h x = j) \<and> (\<forall>p \<in> set ps. \<forall>x \<in> R p. h x = j)"
  using step
proof (induction ps arbitrary: g)
  case (Cons p ps)
  obtain h where h: "body p (pst s g) = Some (pst s h)" "dfs s m j {m} f h" "\<forall>x. g x = j \<longrightarrow> h x = j" "\<forall>x \<in> R p. h x = j"
    using Cons.prems(2) [OF _ Cons.prems(1), of p] by auto
  obtain k where k: "for_list body ps (pst s h) = Some (pst s k)" "dfs s m j {m} f k" "\<forall>x. h x = j \<longrightarrow> k x = j" "\<forall>p \<in> set ps. \<forall>x \<in> R p. k x = j"
    by (rule exE [OF Cons.IH [OF h(2) Cons.prems(2)]]) auto
  show ?case using h k by (intro exI [of _ k]) auto
qed auto

lemma searches_all:
  assumes wf: "gu_wf s" "att_wf s"
  shows "searches s j n"
proof (induction n)
  case 0
  have "unvisited s j g \<noteq> {}" if "active s u" "g u \<noteq> j" for u g using that by (auto simp: unvisited_def)
  then show ?case using finite_unvisited by (auto simp: searches_def card_eq_0_iff)
next
  case (Suc n)
  show ?case unfolding searches_def
  proof (intro allI impI)
    fix m f assume m: "active s m" "f m \<noteq> j" and n: "card (unvisited s j f) \<le> Suc n"
    obtain md where md: "gs_modules s m = Some md" "input_port_list md = ins_of s m" "output_port_list md = outs_of s m"
      by (rule wf_module [OF wf(1) active_mods [OF m(1)]])
    have in_step: "\<exists>h. propagate_input (gu_propagate_path_index n) m p (pst s g) = Some (pst s h) \<and> dfs s m j {m} f h
        \<and> (\<forall>x. g x = j \<longrightarrow> h x = j) \<and> (\<forall>x \<in> set_option (in_nb s p). h x = j)" if "p \<in> set (ins_of s m)" "dfs s m j {m} f g" for p g
      using propagate_input_st [OF wf(1) Suc.IH that(2) m n that(1)] by auto
    have out_step: "\<exists>h. propagate_output (gu_propagate_path_index n) m q (pst s g) = Some (pst s h) \<and> dfs s m j {m} f h
        \<and> (\<forall>x. g x = j \<longrightarrow> h x = j) \<and> (\<forall>x \<in> set_option (out_nb s q) \<union> set_option (att s q). h x = j)" if "q \<in> set (outs_of s m)" "dfs s m j {m} f g" for q g
      using propagate_output_st [OF wf Suc.IH that(2) m n that(1)] by auto
    obtain g where g: "for_list (propagate_input (gu_propagate_path_index n) m) (ins_of s m) (pst s (f(m := j))) = Some (pst s g)"
        "dfs s m j {m} f g" "\<forall>p \<in> set (ins_of s m). \<forall>x \<in> set_option (in_nb s p). g x = j"
      using propagate_loop [where ps = "ins_of s m" and R = "\<lambda>p. set_option (in_nb s p)" and body = "propagate_input (gu_propagate_path_index n) m",
          OF in_step dfs_start [where f = f, OF m(2,1)]] by blast
    obtain h where h: "for_list (propagate_output (gu_propagate_path_index n) m) (outs_of s m) (pst s g) = Some (pst s h)"
        "dfs s m j {m} f h" "\<forall>x. g x = j \<longrightarrow> h x = j" "\<forall>q \<in> set (outs_of s m). \<forall>x \<in> set_option (out_nb s q) \<union> set_option (att s q). h x = j"
      using propagate_loop [where ps = "outs_of s m" and R = "\<lambda>q. set_option (out_nb s q) \<union> set_option (att s q)"
          and body = "propagate_output (gu_propagate_path_index n) m", OF out_step g(2)] by blast
    have "gu_propagate_path_index (Suc n) m (ucast j) (pst s f) = Some (pst s h)"
      by (simp add: upd_path_pst domI [where m = "gs_modules s", OF md(1)] md g(1) h(1))
    moreover have "dfs s m j {} f h"
    proof (rule dfs_finish [OF h(2)])
      fix y assume "(m, y) \<in> und s"
      then consider "(m, y) \<in> gu_edges s" | "(y, m) \<in> gu_edges s" unfolding und_def by blast
      then show "h y = j"
      proof cases
        case 1
        then show ?thesis using out_edges [OF wf(1) 1] h(4) by fastforce
      next
        case 2
        then show ?thesis using in_edges [OF wf(1) 2] g(3) h(3) by fastforce
      qed
    next
      fix q a assume "q \<in> set (outs_of s m)" "att s q = Some a"
      then show "h a = j" using h(4) by fastforce
    qed
    ultimately show "\<exists>h. gu_propagate_path_index (Suc n) m (ucast j) (pst s f) = Some (pst s h) \<and> dfs s m j {} f h" by blast
  qed
qed

lemma search_ok:
  assumes "gu_wf s" "att_wf s" "active s m" "f m \<noteq> j" "card (unvisited s j f) \<le> n"
  shows "\<exists>g. gu_propagate_path_index n m (ucast j) (pst s f) = Some (pst s g) \<and> dfs s m j {} f g"
  using searches_all [OF assms(1,2), of j n] assms(3-5) unfolding searches_def by simp

subsection \<open>Components\<close>

definition ported :: "gu_state \<Rightarrow> addr \<Rightarrow> bool" where
  "ported s m \<longleftrightarrow> active s m \<and> (ins_of s m \<noteq> [] \<or> outs_of s m \<noteq> [])"

definition part :: "gu_state \<Rightarrow> addr \<Rightarrow> addr set" where
  "part s m = (und s)\<^sup>* `` {m}"

text \<open>The connected parts of the graph that have one of the modules \<open>A\<close>.\<close>

definition path_comps :: "gu_state \<Rightarrow> addr set \<Rightarrow> addr set set" where
  "path_comps s A = part s ` {m \<in> A. ported s m}"

lemma conn_sym: "(x, y) \<in> (und s)\<^sup>* \<longleftrightarrow> (y, x) \<in> (und s)\<^sup>*"
proof -
  have "sym (und s)" by (auto simp: sym_def und_def)
  then show ?thesis using sym_rtrancl unfolding sym_def by blast
qed

lemma part_eq_iff: "part s x = part s y \<longleftrightarrow> (x, y) \<in> (und s)\<^sup>*"
proof
  assume "part s x = part s y"
  then show "(x, y) \<in> (und s)\<^sup>*" unfolding part_def by blast
next
  assume "(x, y) \<in> (und s)\<^sup>*"
  then show "part s x = part s y" unfolding part_def using conn_sym [of x y] by (blast intro: rtrancl_trans)
qed

lemma und_ported: "(x, y) \<in> und s \<Longrightarrow> ported s x \<and> ported s y"
  by (auto simp: und_def gu_edges_def ported_def)

lemma conn_ported: "(x, y) \<in> (und s)\<^sup>* \<Longrightarrow> ported s x \<Longrightarrow> ported s y"
  by (induction rule: rtrancl_induct) (auto dest: und_ported)

lemma finite_ported: "finite {m \<in> A. ported s m}"
  by (rule finite_subset [OF _ finite_active [of s]]) (auto simp: ported_def)

text \<open>
  The indices after the modules \<open>A\<close>: \<open>k\<close> connected parts have the indices below \<open>k\<close>; modules without ports have index 0; attached
  modules follow their hosts.
\<close>

definition hosted :: "gu_state \<Rightarrow> addr \<Rightarrow> addr \<Rightarrow> bool" where
  "hosted s a x \<longleftrightarrow> a \<in> set (mods s) \<and> active s x \<and> (\<exists>q \<in> set (outs_of s x). host_output_port_ptr (the (gs_modules s a)) = Some q)"

definition pinv :: "gu_state \<Rightarrow> addr set \<Rightarrow> nat \<Rightarrow> (addr \<Rightarrow> u8) \<Rightarrow> bool" where
  "pinv s A k f \<longleftrightarrow> k = card (path_comps s A)
     \<and> (\<forall>x. ported s x \<longrightarrow> (f x \<noteq> 255 \<longleftrightarrow> part s x \<in> path_comps s A))
     \<and> (\<forall>x. ported s x \<longrightarrow> f x \<noteq> 255 \<longrightarrow> unat (f x) < k)
     \<and> (\<forall>x y. ported s x \<longrightarrow> ported s y \<longrightarrow> f x \<noteq> 255 \<longrightarrow> f y \<noteq> 255 \<longrightarrow> (f x = f y \<longleftrightarrow> part s x = part s y))
     \<and> (\<forall>x. active s x \<longrightarrow> \<not> ported s x \<longrightarrow> f x = (if x \<in> A then 0 else 255))
     \<and> (\<forall>a x. hosted s a x \<longrightarrow> f a = f x) \<and> (\<forall>x. x \<notin> set (mods s) \<longrightarrow> f x = path_index (the (gs_modules s x)))"

lemma pinvD:
  assumes "pinv s A k f"
  shows "k = card (path_comps s A)" "ported s x \<Longrightarrow> f x \<noteq> 255 \<longleftrightarrow> part s x \<in> path_comps s A" "ported s x \<Longrightarrow> f x \<noteq> 255 \<Longrightarrow> unat (f x) < k"
    "ported s x \<Longrightarrow> ported s y \<Longrightarrow> f x \<noteq> 255 \<Longrightarrow> f y \<noteq> 255 \<Longrightarrow> f x = f y \<longleftrightarrow> part s x = part s y"
    "active s x \<Longrightarrow> \<not> ported s x \<Longrightarrow> f x = (if x \<in> A then 0 else 255)" "hosted s a x \<Longrightarrow> f a = f x"
    "x \<notin> set (mods s) \<Longrightarrow> f x = path_index (the (gs_modules s x))"
  using assms unfolding pinv_def by blast+

lemma path_comps_insert: "path_comps s (insert m A) = (if ported s m then insert (part s m) (path_comps s A) else path_comps s A)"
proof -
  have "{x \<in> insert m A. ported s x} = (if ported s m then insert m {x \<in> A. ported s x} else {x \<in> A. ported s x})" by auto
  then show ?thesis by (simp add: path_comps_def)
qed

lemma card_path_comps_mono: "A \<subseteq> B \<Longrightarrow> card (path_comps s A) \<le> card (path_comps s B)"
  unfolding path_comps_def by (intro card_mono finite_imageI finite_ported) auto

text \<open>A module that has an index, or is attached, changes nothing.\<close>

lemma pinv_skip:
  assumes p: "pinv s A k f" and m: "active s m \<Longrightarrow> f m \<noteq> 255"
  shows "pinv s (insert m A) k f"
proof -
  have "part s m \<in> path_comps s A" if "ported s m" using that m pinvD(2) [OF p that] by (simp add: ported_def)
  then have eq: "path_comps s (insert m A) = path_comps s A" by (auto simp: path_comps_insert)
  have "m \<in> A" if "active s m" "\<not> ported s m" using pinvD(5) [OF p that] m that by (auto split: if_splits)
  then show ?thesis using p unfolding pinv_def eq by auto
qed

lemma pinv_lonely:
  assumes p: "pinv s A k f" and m: "active s m" "\<not> ported s m"
  shows "pinv s (insert m A) k (f(m := 0))"
proof -
  have eq: "path_comps s (insert m A) = path_comps s A" using m(2) by (simp add: path_comps_insert)
  have n: "\<not> hosted s a m" "\<not> hosted s m x" for a x using m by (auto simp: ported_def hosted_def active_def)
  have mm: "m \<in> set (mods s)" by (rule active_mods [OF m(1)])
  show ?thesis using p m n mm unfolding pinv_def eq by auto
qed

text \<open>A search gives a new index to the part the module is in, and to nothing else.\<close>

lemma search_part:
  assumes d: "dfs s m j {} f g" and m: "ported s m" and f: "\<And>x. ported s x \<Longrightarrow> f x \<noteq> j"
  shows "fresh s j f g = part s m"
proof
  show "fresh s j f g \<subseteq> part s m" using dfsD(3) [OF d] unfolding part_def by blast
  have m0: "m \<in> fresh s j f g" using m f dfsD(2) [OF d] by (simp add: fresh_def ported_def)
  have "x \<in> fresh s j f g" if "(m, x) \<in> (und s)\<^sup>*" for x
    using that
  proof (induction rule: rtrancl_induct)
    case (step y z)
    have "g z = j" by (rule dfsD(4) [OF d step.IH _ step.hyps(2)]) simp
    then show ?case using und_ported [OF step.hyps(2)] f by (simp add: fresh_def ported_def)
  qed (rule m0)
  then show "part s m \<subseteq> fresh s j f g" unfolding part_def by blast
qed

lemma hosted_unique:
  assumes wf: "gu_wf s" "att_wf s" and a: "hosted s a x" and y: "active s y" "q \<in> set (outs_of s y)" "att s q = Some a"
  shows "x = y"
proof -
  obtain r where r: "r \<in> set (outs_of s x)" "host_output_port_ptr (the (gs_modules s a)) = Some r" "active s x" using a unfolding hosted_def by blast
  have "host_output_port_ptr (the (gs_modules s a)) = Some q" using wf(2) y unfolding att_wf_def by blast
  then show ?thesis using r outs_unique [OF wf(1) r(3) y(1) r(1)] y(2) by simp
qed

lemma search_frame:
  assumes wf: "gu_wf s" "att_wf s" and d: "dfs s m j {} f g" and c: "fresh s j f g = part s m"
  shows "active s x \<Longrightarrow> g x = (if x \<in> part s m then j else f x)" "hosted s a x \<Longrightarrow> g a = (if x \<in> part s m then j else f a)"
    "x \<notin> set (mods s) \<Longrightarrow> g x = f x"
proof -
  show "g x = (if x \<in> part s m then j else f x)" if "active s x"
    using that dfsD(1) [OF d, of x] unfolding c [symmetric] fresh_def by auto
  show "g a = (if x \<in> part s m then j else f a)" if h: "hosted s a x"
  proof (cases "x \<in> part s m")
    case True
    obtain q where q: "q \<in> set (outs_of s x)" "host_output_port_ptr (the (gs_modules s a)) = Some q" "a \<in> set (mods s)" using h unfolding hosted_def by blast
    have "att s q = Some a" using wf(2) q unfolding att_wf_def by blast
    then show ?thesis using dfsD(5) [OF d, of x q a] True q(1) by (simp add: c)
  next
    case False
    have na: "\<not> active s a" using h by (auto simp: hosted_def active_def)
    have "\<not> (\<exists>y \<in> fresh s j f g. \<exists>q \<in> set (outs_of s y). att s q = Some a)"
    proof
      assume "\<exists>y \<in> fresh s j f g. \<exists>q \<in> set (outs_of s y). att s q = Some a"
      then obtain y q where y: "y \<in> fresh s j f g" "q \<in> set (outs_of s y)" "att s q = Some a" by blast
      have "x = y" by (rule hosted_unique [OF wf h _ y(2,3)]) (use y(1) in \<open>simp add: fresh_def\<close>)
      then show False using y(1) False by (simp add: c)
    qed
    then show ?thesis using dfsD(6) [OF d, of a] na False by auto
  qed
  show "g x = f x" if "x \<notin> set (mods s)"
  proof (rule ccontr)
    assume "g x \<noteq> f x"
    moreover have "\<not> active s x" using that by (auto dest: active_mods)
    ultimately obtain y q where y: "y \<in> fresh s j f g" "q \<in> set (outs_of s y)" "att s q = Some x" using dfsD(6) [OF d] by blast
    have "active s y" using y(1) by (simp add: fresh_def)
    then show False using wf(2) y(2,3) that unfolding att_wf_def by blast
  qed
qed

lemma pinv_search:
  assumes wf: "gu_wf s" "att_wf s" and p: "pinv s A k f" and m: "ported s m" "f m = 255" and k: "k < 255" and d: "dfs s m (of_nat k) {} f g"
  shows "pinv s (insert m A) (Suc k) g"
proof -
  have uk: "unat (of_nat k :: u8) = k" using k by (simp add: unsigned_of_nat take_bit_nat_eq_self)
  have kn: "(of_nat k :: u8) \<noteq> 255"
  proof
    assume "(of_nat k :: u8) = 255"
    then show False using uk k by simp
  qed
  have fr: "f x \<noteq> of_nat k" if "ported s x" for x
    using pinvD(3) [OF p that] kn uk by (cases "f x = 255") auto
  have c: "fresh s (of_nat k) f g = part s m" by (rule search_part [OF d m(1)]) (rule fr)
  note frame = search_frame [OF wf d c]
  have new: "part s m \<notin> path_comps s A" using pinvD(2) [OF p m(1)] m(2) by simp
  have fin: "finite (path_comps s A)" unfolding path_comps_def by (intro finite_imageI finite_ported)
  have eq: "path_comps s (insert m A) = insert (part s m) (path_comps s A)" using m(1) by (simp add: path_comps_insert)
  have kk: "Suc k = card (path_comps s (insert m A))" using new fin pinvD(1) [OF p] by (simp add: eq)
  have inC: "x \<in> part s m \<longleftrightarrow> part s x = part s m" for x using part_eq_iff [of s x m] conn_sym [of x m s] by (simp add: part_def)
  have gx: "g x = (if part s x = part s m then of_nat k else f x)" if "ported s x" for x
    using frame(1) [of x] that by (simp add: ported_def inC)
  have a2: "g x \<noteq> 255 \<longleftrightarrow> part s x \<in> path_comps s (insert m A)" if "ported s x" for x
    using pinvD(2) [OF p that] kn by (simp add: gx [OF that] eq)
  have a3: "unat (g x) < Suc k" if "ported s x" "g x \<noteq> 255" for x
    using pinvD(3) [OF p that(1)] that(2) uk by (auto simp: gx [OF that(1)] split: if_splits)
  have a4: "g x = g y \<longleftrightarrow> part s x = part s y" if "ported s x" "ported s y" "g x \<noteq> 255" "g y \<noteq> 255" for x y
    using pinvD(4) [OF p that(1,2)] that(3,4) fr [OF that(1)] fr [OF that(2)] by (auto simp: gx [OF that(1)] gx [OF that(2)] split: if_splits)
  have a5: "g x = (if x \<in> insert m A then 0 else 255)" if "active s x" "\<not> ported s x" for x
  proof -
    have "x \<notin> part s m" using conn_ported [of m x s] m(1) that(2) by (auto simp: part_def)
    then show ?thesis using frame(1) [OF that(1)] pinvD(5) [OF p that] that m(1) by auto
  qed
  have a6: "g a = g x" if "hosted s a x" for a x
    using frame(2) [OF that] frame(1) [of x] pinvD(6) [OF p that] that by (simp add: hosted_def)
  have a7: "g x = path_index (the (gs_modules s x))" if "x \<notin> set (mods s)" for x
    using frame(3) [OF that] pinvD(7) [OF p that] by simp
  show ?thesis unfolding pinv_def using kk a2 a3 a4 a5 a6 a7 by blast
qed

subsection \<open>All modules\<close>

lemma ucast_of_nat_16: "k < 256 \<Longrightarrow> (ucast (of_nat k :: u8) :: u16) = of_nat k" "k < 256 \<Longrightarrow> (ucast (of_nat k :: u16) :: u8) = of_nat k"
  by (simp_all add: word_unat_eq_iff unsigned_ucast_eq unsigned_of_nat take_bit_nat_eq_self)

lemma assign_path_search:
  assumes m: "gs_modules s m = Some md" "input_port_list md = ins_of s m" "output_port_list md = outs_of s m" "host_output_port_ptr md = None"
    and f: "f m = 255" "ported s m" and k: "Suc k < 255" and g: "gu_propagate_path_index n m (ucast (of_nat k :: u8)) (pst s f) = Some (pst s g)"
  shows "assign_path n m (of_nat k, pst s f) = Some (of_nat (Suc k), pst s g)"
proof -
  have "unat (of_nat (Suc k) :: u16) = Suc k" using k by (simp add: unsigned_of_nat take_bit_nat_eq_self del: of_nat_Suc)
  then have ne: "(of_nat (Suc k) :: u16) \<noteq> 255" using k by (auto simp del: of_nat_Suc)
  have g': "gu_propagate_path_index n m (of_nat k) (pst s f) = Some (pst s g)" using g k by (simp add: ucast_of_nat_16)
  have ports: "\<not> (ins_of s m = [] \<and> outs_of s m = [])" using f(2) by (simp add: ported_def)
  have suc: "(of_nat k :: u16) + 1 = of_nat (Suc k)" by simp
  have u: "(ucast (255 :: u8) :: u16) = 255" by simp
  show ?thesis unfolding assign_path_def using ports ne
    by (simp add: m f(1) g' suc u del: of_nat_Suc) blast
qed

lemma assign_path_st:
  assumes wf: "gu_wf s" "att_wf s" and p: "pinv s A k f" and m: "m \<in> set (mods s)" and n: "card {m. active s m} \<le> n"
    and few: "card (path_comps s (set (mods s))) < 255" and A: "A \<subseteq> set (mods s)"
  shows "\<exists>k' g. assign_path n m (of_nat k, pst s f) = Some (of_nat k', pst s g) \<and> pinv s (insert m A) k' g"
proof -
  obtain md where md: "gs_modules s m = Some md" "input_port_list md = ins_of s m" "output_port_list md = outs_of s m" by (rule wf_module [OF wf(1) m])
  have act: "active s m \<longleftrightarrow> host_output_port_ptr md = None" using m by (simp add: active_def md)
  have k: "k \<le> card (path_comps s (set (mods s)))" using pinvD(1) [OF p] card_path_comps_mono [OF A] by simp
  consider "\<not> active s m" | "active s m" "f m \<noteq> 255" | "active s m" "f m = 255" "\<not> ported s m" | "f m = 255" "ported s m" by blast
  then show ?thesis
  proof cases
    case 1
    then have "assign_path n m (of_nat k, pst s f) = Some (of_nat k, pst s f)" by (simp add: assign_path_def md act)
    moreover have "pinv s (insert m A) k f" by (rule pinv_skip [OF p]) (use 1 in simp)
    ultimately show ?thesis by blast
  next
    case 2
    then have "assign_path n m (of_nat k, pst s f) = Some (of_nat k, pst s f)" by (simp add: assign_path_def md act)
    moreover have "pinv s (insert m A) k f" by (rule pinv_skip [OF p 2(2)])
    ultimately show ?thesis by blast
  next
    case 3
    then have "assign_path n m (of_nat k, pst s f) = Some (of_nat k, pst s (f(m := 0)))"
      by (simp add: assign_path_def md act ported_def upd_path_pst domI [where m = "gs_modules s", OF md(1)])
    then show ?thesis using pinv_lonely [OF p 3(1,3)] by blast
  next
    case 4
    have am: "active s m" using 4(2) by (simp add: ported_def)
    have k1: "k < 255" using k few by simp
    have fm: "f m \<noteq> of_nat k"
    proof
      assume "f m = of_nat k"
      then have "unat (255 :: u8) = unat (of_nat k :: u8)" using 4(1) by simp
      then show False using k1 by (simp add: unsigned_of_nat take_bit_nat_eq_self)
    qed
    have un: "card (unvisited s (of_nat k) f) \<le> n"
      by (rule le_trans [OF card_mono [OF finite_active] n]) (auto simp: unvisited_def)
    obtain g where g: "gu_propagate_path_index n m (ucast (of_nat k :: u8)) (pst s f) = Some (pst s g)" "dfs s m (of_nat k) {} f g"
      using search_ok [OF wf am fm un] by (elim exE conjE)
    have p': "pinv s (insert m A) (Suc k) g" by (rule pinv_search [OF wf p 4(2,1) k1 g(2)])
    have "Suc k \<le> card (path_comps s (set (mods s)))"
      using pinvD(1) [OF p'] card_path_comps_mono [of "insert m A" "set (mods s)" s] m A by simp
    then have k2: "Suc k < 255" using few by simp
    have "host_output_port_ptr md = None" using am by (simp add: act)
    from assign_path_search [OF md this 4 k2 g(1)] show ?thesis using p' by blast
  qed
qed

lemma assign_path_loop:
  assumes wf: "gu_wf s" "att_wf s" and n: "card {m. active s m} \<le> n" and few: "card (path_comps s (set (mods s))) < 255"
  shows "set ms \<subseteq> set (mods s) \<Longrightarrow> A \<subseteq> set (mods s) \<Longrightarrow> pinv s A k f \<Longrightarrow>
    \<exists>k' g. for_list (assign_path n) ms (of_nat k, pst s f) = Some (of_nat k', pst s g) \<and> pinv s (A \<union> set ms) k' g"
proof (induction ms arbitrary: A k f)
  case (Cons m ms)
  have m: "m \<in> set (mods s)" using Cons.prems(1) by simp
  obtain k1 g1 where 1: "assign_path n m (of_nat k, pst s f) = Some (of_nat k1, pst s g1)" "pinv s (insert m A) k1 g1"
    using assign_path_st [OF wf Cons.prems(3) m n few Cons.prems(2)] by blast
  show ?case using Cons.IH [OF _ _ 1(2)] Cons.prems(1,2) by (simp add: 1(1))
qed auto

lemma assign_paths_loop:
  assumes wf: "gu_wf s" "att_wf s" and n: "card {m. active s m} \<le> n" and few: "card (path_comps s (set (mods s))) < 255"
  shows "set gs \<subseteq> set (sg_list (gs_gu s)) \<Longrightarrow> A \<subseteq> set (mods s) \<Longrightarrow> pinv s A k f \<Longrightarrow>
    \<exists>k' g. for_list (assign_paths n) gs (of_nat k, pst s f) = Some (of_nat k', pst s g)
      \<and> pinv s (A \<union> set (concat (map (\<lambda>g. module_list (the (gs_sgs s g))) gs))) k' g"
proof (induction gs arbitrary: A k f)
  case (Cons g gs)
  obtain sg where sg: "gs_sgs s g = Some sg" using wf(1) Cons.prems unfolding gu_wf_def by auto
  have ms: "set (module_list sg) \<subseteq> set (mods s)" using Cons.prems(1) sg by (force simp: mods_def)
  obtain k1 g1 where 1: "for_list (assign_path n) (module_list sg) (of_nat k, pst s f) = Some (of_nat k1, pst s g1)" "pinv s (A \<union> set (module_list sg)) k1 g1"
    using assign_path_loop [OF wf n few ms Cons.prems(2,3)] by blast
  have A': "A \<union> set (module_list sg) \<subseteq> set (mods s)" using Cons.prems(2) ms by blast
  show ?case using Cons.IH [OF _ A' 1(2)] Cons.prems(1) by (simp add: assign_paths_def sg 1(1) Un_assoc)
qed auto

text \<open>The first loop: every module of the graph loses its index.\<close>

lemma clear_modules:
  "set ms \<subseteq> dom (gs_modules s) \<Longrightarrow> for_list (\<lambda>m. upd_module (Some m) (path_index_update (\<lambda>_. j))) ms (pst s f)
     = Some (pst s (\<lambda>x. if x \<in> set ms then j else f x))"
proof (induction ms arbitrary: f)
  case (Cons m ms)
  have eq: "(\<lambda>x. if x \<in> set ms then j else (f(m := j)) x) = (\<lambda>x. if x \<in> set (m # ms) then j else f x)" by (auto simp: fun_eq_iff)
  have m: "m \<in> dom (gs_modules s)" "set ms \<subseteq> dom (gs_modules s)" using Cons.prems by auto
  show ?case using Cons.IH [OF m(2), of "f(m := j)"] unfolding eq by (simp only: for_list.simps upd_path_pst [OF m(1)] Option.bind.simps)
qed simp

lemma clear_sgs:
  assumes wf: "gu_wf s"
  shows "set gs \<subseteq> set (sg_list (gs_gu s)) \<Longrightarrow>
    for_list (\<lambda>g s. do { sg \<leftarrow> load (gs_sgs s) (Some g); for_list (\<lambda>m. upd_module (Some m) (path_index_update (\<lambda>_. j))) (module_list sg) s }) gs (pst s f)
     = Some (pst s (\<lambda>x. if x \<in> set (concat (map (\<lambda>g. module_list (the (gs_sgs s g))) gs)) then j else f x))"
proof (induction gs arbitrary: f)
  case (Cons g gs)
  obtain sg where sg: "gs_sgs s g = Some sg" using wf Cons.prems unfolding gu_wf_def by auto
  have "set (module_list sg) \<subseteq> set (mods s)" using Cons.prems(1) sg by (force simp: mods_def)
  then have ms: "set (module_list sg) \<subseteq> dom (gs_modules s)" using wf unfolding gu_wf_def by blast
  have eq: "(\<lambda>x. if x \<in> set (concat (map (\<lambda>g. module_list (the (gs_sgs s g))) gs)) then j else if x \<in> set (module_list sg) then j else f x)
      = (\<lambda>x. if x \<in> set (concat (map (\<lambda>g. module_list (the (gs_sgs s g))) (g # gs))) then j else f x)" by (auto simp: fun_eq_iff sg)
  have gs: "set gs \<subseteq> set (sg_list (gs_gu s))" using Cons.prems by simp
  show ?case unfolding eq [symmetric] using Cons.IH [OF gs, of "\<lambda>x. if x \<in> set (module_list sg) then j else f x"]
    by (simp only: for_list.simps load_simps pst_simps sg Option.bind.simps clear_modules [OF ms])
qed simp

lemma pst_same: "pst s (\<lambda>x. path_index (the (gs_modules s x))) = s"
proof -
  have "map_option (path_index_update (\<lambda>_. path_index (the (gs_modules s m)))) (gs_modules s m) = gs_modules s m" for m
    by (cases "gs_modules s m") auto
  then show ?thesis by (simp add: pst_def)
qed

lemma pinv_start:
  assumes "gu_wf s" "att_wf s"
  shows "pinv s {} 0 (\<lambda>x. if x \<in> set (mods s) then 255 else path_index (the (gs_modules s x)))"
  by (auto simp: pinv_def path_comps_def ported_def active_def hosted_def)

text \<open>The number of paths plays no part in the shape of the graph.\<close>

abbreviation "zero_paths s \<equiv> upd_gu (num_parallel_paths_update (\<lambda>_. 0)) s"

lemma zero_paths_simps [simp]:
  "mods (zero_paths s) = mods s" "ins_of (zero_paths s) = ins_of s" "outs_of (zero_paths s) = outs_of s" "att (zero_paths s) = att s"
  "target (zero_paths s) = target s"
  by (simp_all add: mods_def ins_of_def outs_of_def att_def target_def fun_eq_iff)

lemma zero_paths_active [simp]: "active (zero_paths s) = active s"
  by (simp add: active_def fun_eq_iff)

lemma zero_paths_shape [simp]:
  "in_ok (zero_paths s) = in_ok s" "out_ok (zero_paths s) = out_ok s" "gu_edges (zero_paths s) = gu_edges s" "att_wf (zero_paths s) = att_wf s"
  "ported (zero_paths s) = ported s"
  by (simp_all add: in_ok_def out_ok_def gu_edges_def att_wf_def ported_def fun_eq_iff cong: option.case_cong)

lemma zero_paths_wf [simp]: "gu_wf (zero_paths s) = gu_wf s" "path_comps (zero_paths s) A = path_comps s A" "pinv (zero_paths s) A k f = pinv s A k f"
proof -
  have p: "part (zero_paths s) = part s" by (simp add: part_def und_def fun_eq_iff)
  have h: "hosted (zero_paths s) = hosted s" by (simp add: hosted_def fun_eq_iff)
  show "gu_wf (zero_paths s) = gu_wf s" by (simp add: gu_wf_def)
  show c: "path_comps (zero_paths s) A = path_comps s A" for A by (simp add: path_comps_def p)
  show "pinv (zero_paths s) A k f = pinv s A k f" by (simp add: pinv_def p h c)
qed

lemma paths_st:
  assumes wf: "gu_wf s" "att_wf s" and n: "card {m. active s m} \<le> n" and few: "card (path_comps s (set (mods s))) < 255"
  shows "\<exists>k f. gu_update_parallel_paths n s = Some (upd_gu (num_parallel_paths_update (\<lambda>_. of_nat k)) (pst s f)) \<and> pinv s (set (mods s)) k f"
proof -
  define z where "z = zero_paths s"
  have z: "gu_wf z" "att_wf z" "card {m. active z m} \<le> n" "card (path_comps z (set (mods z))) < 255" "num_parallel_paths (gs_gu z) = 0"
    using assms by (simp_all add: z_def)
  let ?f = "\<lambda>x. if x \<in> set (mods z) then 255 else path_index (the (gs_modules z x))"
  have 1: "for_modules (\<lambda>g m. upd_module (Some m) (path_index_update (\<lambda>_. INVALID_PATH_INDEX))) z = Some (pst z ?f)"
    using clear_sgs [OF z(1) subset_refl, of 255 "\<lambda>x. path_index (the (gs_modules z x))"]
    unfolding for_modules_def pst_same mods_def .
  obtain k f where 2: "for_list (assign_paths n) (sg_list (gs_gu z)) (of_nat 0, pst z ?f) = Some (of_nat k, pst z f)" "pinv z (set (mods z)) k f"
    using assign_paths_loop [OF z(1-4) subset_refl empty_subsetI pinv_start [OF z(1,2)]] unfolding mods_def by auto
  have k: "k < 256" using pinvD(1) [OF 2(2)] z(4) by simp
  have "upd_gu (num_parallel_paths_update (\<lambda>_. of_nat k)) (pst z f) = upd_gu (num_parallel_paths_update (\<lambda>_. of_nat k)) (pst s f)"
    by (simp add: z_def pst_def)
  moreover have "gu_update_parallel_paths n s = Some (upd_gu (num_parallel_paths_update (\<lambda>_. of_nat k)) (pst z f))"
    using 2(1) k unfolding gu_update_parallel_paths_def Let_def z_def [symmetric] by (simp add: 1 z(5) ucast_of_nat_16)
  moreover have "pinv s (set (mods s)) k f" using 2(2) by (simp add: z_def)
  ultimately show ?thesis by (intro exI [of _ k] exI [of _ f]) simp
qed

subsection \<open>Properties\<close>

text \<open>
  C6: dividing a well-formed graph into parallel paths always ends, with a depth of recursion of at most the number of its active modules, as long
  as there are fewer than 255 paths. Two modules with ports then have the same path index exactly when they are connected, and the indices are below the number of
  paths, which is the number of connected parts. A module without ports has index 0 and an attached module the index of the module it is
  attached to. Nothing else of the graph changes.
\<close>

theorem gu_update_parallel_paths_ok:
  assumes "gu_wf s" "att_wf s" "card {m. active s m} \<le> n" "card (path_comps s (set (mods s))) < 255"
  shows "\<exists>f. gu_update_parallel_paths n s = Some (upd_gu (num_parallel_paths_update (\<lambda>_. of_nat (card (path_comps s (set (mods s)))))) (pst s f))
    \<and> (\<forall>x y. ported s x \<longrightarrow> ported s y \<longrightarrow> (f x = f y \<longleftrightarrow> (x, y) \<in> (und s)\<^sup>*))
    \<and> (\<forall>x. ported s x \<longrightarrow> unat (f x) < card (path_comps s (set (mods s))))
    \<and> (\<forall>x. active s x \<and> \<not> ported s x \<longrightarrow> f x = 0) \<and> (\<forall>a x. hosted s a x \<longrightarrow> f a = f x)
    \<and> (\<forall>x. x \<notin> set (mods s) \<longrightarrow> f x = path_index (the (gs_modules s x)))"
proof -
  obtain k f where f: "gu_update_parallel_paths n s = Some (upd_gu (num_parallel_paths_update (\<lambda>_. of_nat k)) (pst s f))" "pinv s (set (mods s)) k f"
    using paths_st [OF assms] by (elim exE conjE)
  note inv = pinvD [OF f(2)]
  have idx: "f x \<noteq> 255" if "ported s x" for x using inv(2) [OF that] that by (auto simp: path_comps_def ported_def dest: active_mods)
  have "f x = f y \<longleftrightarrow> (x, y) \<in> (und s)\<^sup>*" if "ported s x" "ported s y" for x y
    using inv(4) [OF that idx [OF that(1)] idx [OF that(2)]] by (simp add: part_eq_iff)
  moreover have "unat (f x) < card (path_comps s (set (mods s)))" if "ported s x" for x using inv(3) [OF that idx [OF that]] inv(1) by simp
  moreover have "f x = 0" if "active s x" "\<not> ported s x" for x using inv(5) [OF that] active_mods [OF that(1)] by simp
  ultimately show ?thesis using f(1) inv(1,6,7) by (intro exI [of _ f]) simp
qed

theorem gu_update_parallel_paths_ok_witness:
  "gu_wf ex_graph \<and> att_wf ex_graph \<and> (\<exists>s'. gu_update_parallel_paths 3 ex_graph = Some s' \<and> num_parallel_paths (gs_gu s') = 1
     \<and> path_index (the (gs_modules s' 5)) = path_index (the (gs_modules s' 7)))"
proof -
  have a: "att_wf ex_graph" by (auto simp: att_wf_def att_def ex_active ex_ports ex_parts ex_out_def split: if_splits)
  have u: "und ex_graph = {(5, 6), (5, 7), (6, 7), (6, 5), (7, 5), (7, 6)}" by (auto simp: und_def ex_edges)
  have p: "ported ex_graph x \<longleftrightarrow> x \<in> {5, 6, 7}" for x by (auto simp: ported_def ex_active ex_ports)
  have "(5, 6) \<in> (und ex_graph)\<^sup>*" "(5, 7) \<in> (und ex_graph)\<^sup>*" by (auto simp: u)
  then have "part ex_graph 6 = part ex_graph 5" "part ex_graph 7 = part ex_graph 5" by (simp_all add: part_eq_iff conn_sym)
  then have c: "path_comps ex_graph (set (mods ex_graph)) = {part ex_graph 5}"
    by (auto simp: path_comps_def p ex_parts)
  have "{m. active ex_graph m} = {5, 6, 7}" by (auto simp: ex_active)
  then have n: "card {m. active ex_graph m} \<le> 3" by simp
  obtain f where f: "gu_update_parallel_paths 3 ex_graph
        = Some (upd_gu (num_parallel_paths_update (\<lambda>_. of_nat (card (path_comps ex_graph (set (mods ex_graph)))))) (pst ex_graph f))"
      "\<forall>x y. ported ex_graph x \<longrightarrow> ported ex_graph y \<longrightarrow> (f x = f y \<longleftrightarrow> (x, y) \<in> (und ex_graph)\<^sup>*)"
    using gu_update_parallel_paths_ok [OF ex_graph_wf a n] by (auto simp: c)
  have "f 5 = f 7" using f(2) \<open>(5, 7) \<in> (und ex_graph)\<^sup>*\<close> by (simp add: p)
  then show ?thesis using f(1) [unfolded c] ex_graph_wf a by (simp add: ex_parts)
qed

end
