(* ===== verification/Graph_Ports.thy ===== *)
theory Graph_Ports
  imports Graph_Sort
begin

text \<open>
  Correctness of the operations on ports: a new port gets the smallest index that is free and its place in the order of
  indices, and a module that is attached to a port and detached again is connected as before.
\<close>

subsection \<open>The place of a new port\<close>

definition by_index :: "(addr \<Rightarrow> u8) \<Rightarrow> addr list \<Rightarrow> bool" where
  "by_index idx ps \<longleftrightarrow> sorted_wrt (\<lambda>p q. idx p < idx q) ps"

text \<open>The first port whose index is not its position.\<close>

fun first_gap :: "(addr \<Rightarrow> u8) \<Rightarrow> nat \<Rightarrow> addr list \<Rightarrow> nat" where
  "first_gap idx k [] = k"
| "first_gap idx k (p # ps) = (if unat (idx p) = k then first_gap idx (Suc k) ps else k)"

lemma first_gap_le: "k \<le> first_gap idx k ps" "first_gap idx k ps \<le> k + length ps"
  by (induction ps arbitrary: k) (auto, (metis Suc_leD le_trans add_Suc_right add_Suc)+)

lemma first_gap_below: "k \<le> j \<Longrightarrow> j < first_gap idx k ps \<Longrightarrow> unat (idx (ps ! (j - k))) = j"
proof (induction ps arbitrary: k)
  case (Cons p ps)
  show ?case
  proof (cases "j = k")
    case True
    then show ?thesis using Cons.prems by (auto split: if_splits)
  next
    case False
    then have "unat (idx (ps ! (j - Suc k))) = j" using Cons.prems by (intro Cons.IH) (auto split: if_splits)
    then show ?thesis using False Cons.prems(1) by (simp add: nth_Cons')
  qed
qed simp

lemma first_gap_free:
  assumes "by_index idx ps" "\<forall>p \<in> set ps. k \<le> unat (idx p)" "i < length ps" "first_gap idx k ps \<le> k + i"
  shows "first_gap idx k ps < unat (idx (ps ! i))"
  using assms
proof (induction ps arbitrary: k i)
  case (Cons p ps)
  have gt: "idx p < idx q" if "q \<in> set ps" for q using Cons.prems(1) that by (simp add: by_index_def)
  have srt: "by_index idx ps" using Cons.prems(1) by (simp add: by_index_def)
  show ?case
  proof (cases "unat (idx p) = k")
    case True
    have "i \<noteq> 0" using Cons.prems(4) True first_gap_le(1) [of "Suc k" idx ps] by (auto split: if_splits)
    moreover have "\<forall>q \<in> set ps. Suc k \<le> unat (idx q)" using gt True by (auto simp: word_less_nat_alt Suc_le_eq)
    ultimately show ?thesis using Cons.IH [OF srt, of "Suc k" "i - 1"] Cons.prems(3,4) True by (auto simp: nth_Cons')
  next
    case False
    then have k: "k < unat (idx p)" using Cons.prems(2) by auto
    have "k < unat (idx ((p # ps) ! i))"
    proof (cases i)
      case (Suc n)
      then show ?thesis using k gt [of "ps ! n"] Cons.prems(3) by (auto simp: word_less_nat_alt)
    qed (simp add: k)
    then show ?thesis using False by simp
  qed
qed simp

lemma index_gap_ok:
  assumes "by_index idx ps" "\<forall>p \<in> set ps. k \<le> unat (idx p)" "new \<notin> set ps" "k + length ps < 256"
    "prev = (if k = 0 then None else Some (of_nat (k - 1)))"
  shows "index_gap idx new prev (of_nat k) avail (ps @ [new]) =
    (of_nat (first_gap idx k ps), if first_gap idx k ps = k + length ps then None else Some (of_nat (first_gap idx k ps)))"
  using assms
proof (induction ps arbitrary: k avail prev)
  case Nil
  then show ?case by simp
next
  case (Cons p ps)
  have gt: "idx p < idx q" if "q \<in> set ps" for q using Cons.prems(1) that by (simp add: by_index_def)
  have kp: "k \<le> unat (idx p)" "k < 256" using Cons.prems(2,4) by auto
  have uk: "uint (of_nat (k - 1) :: u8) = int (k - 1)" using kp(2) by (simp add: unsigned_of_nat take_bit_nat_eq_self del: of_nat_diff)
  have pn: "p \<noteq> new" using Cons.prems(3) by auto
  show ?case
  proof (cases "unat (idx p) = k")
    case True
    have i: "by_index idx ps" "\<forall>q \<in> set ps. Suc k \<le> unat (idx q)" "new \<notin> set ps" "Suc k + length ps < 256"
      using Cons.prems gt True by (auto simp: by_index_def word_less_nat_alt Suc_le_eq)
    have idx: "idx p = of_nat k" using True kp(2) by (simp add: word_unat_eq_iff unsigned_of_nat take_bit_nat_eq_self)
    have ip: "uint (idx p) = int k" using idx kp(2) by (simp add: unsigned_of_nat take_bit_nat_eq_self)
    have z: "k = 0 \<Longrightarrow> idx p = 0" using True by (simp add: unat_eq_0)
    have "index_gap idx new prev (of_nat k) avail ((p # ps) @ [new]) = index_gap idx new (Some (idx p)) (of_nat (Suc k)) (of_nat k) (ps @ [new])"
      using True uk ip z by (cases k) (simp_all add: Cons.prems(5) add.commute)
    also have "\<dots> = (of_nat (first_gap idx (Suc k) ps), if first_gap idx (Suc k) ps = Suc k + length ps then None else Some (of_nat (first_gap idx (Suc k) ps)))"
      by (rule Cons.IH [OF i]) (simp add: idx)
    finally show ?thesis using True by simp
  next
    case False
    have w: "(ucast (of_nat (k - 1) :: u8) :: u32) + 1 = of_nat k" if "k \<noteq> 0"
    proof -
      have "(ucast (of_nat (k - 1) :: u8) :: u32) = of_nat (k - 1)"
        using kp(2) by (simp add: word_unat_eq_iff unsigned_ucast_eq unsigned_of_nat take_bit_nat_eq_self)
      then show ?thesis using that by (cases k) (simp_all add: add.commute)
    qed
    have "int k < int (unat (idx p))" using False kp(1) by (simp only: of_nat_less_iff)
    then have ip: "int k < uint (idx p)" by simp
    have pos: "k = 0 \<Longrightarrow> 0 < idx p" using False by (simp add: unat_eq_0 word_neq_0_conv [symmetric])
    have "index_gap idx new prev (of_nat k) avail ((p # ps) @ [new]) = (of_nat k, Some (of_nat k))"
      using False kp pn uk ip w pos by (cases k) (simp_all add: Cons.prems(5))
    then show ?thesis using False by simp
  qed
qed

lemma move_port_ok:
  assumes "by_index idx ps" "new \<notin> set ps" "length ps < 256"
  shows "gu_move_port_to_smallest_available_index idx (ps @ [new]) new =
    (take (first_gap idx 0 ps) ps @ new # drop (first_gap idx 0 ps) ps, of_nat (first_gap idx 0 ps))"
proof -
  let ?r = "first_gap idx 0 ps"
  have r: "?r \<le> length ps" using first_gap_le(2) [of idx 0 ps] by simp
  have gap: "index_gap idx new None 0 0 (ps @ [new]) = (of_nat ?r, if ?r = length ps then None else Some (of_nat ?r))"
    using index_gap_ok [of idx ps 0 new None 0] assms by simp
  have u: "unat (of_nat ?r :: u32) = ?r" "(ucast (of_nat ?r :: u32) :: u8) = of_nat ?r"
    using r assms(3) by (simp_all add: word_unat_eq_iff unsigned_ucast_eq unsigned_of_nat take_bit_nat_eq_self)
  show ?thesis using r by (simp add: gu_move_port_to_smallest_available_index_def gap u)
qed

text \<open>The index is free, all smaller ones are taken, and the order of indices is kept.\<close>

lemma first_gap_smallest:
  assumes srt: "by_index idx ps" and len: "length ps < 256" and r: "r = first_gap idx 0 ps" and new: "new \<notin> set ps"
  shows "r \<le> length ps" "\<forall>p \<in> set ps. unat (idx p) \<noteq> r" "\<forall>j < r. \<exists>p \<in> set ps. unat (idx p) = j"
    "by_index (idx(new := of_nat r)) (take r ps @ new # drop r ps)"
proof -
  show rl: "r \<le> length ps" using first_gap_le(2) [of idx 0 ps] r by simp
  have lo: "unat (idx (ps ! j)) = j" if "j < r" for j using first_gap_below [of 0 j idx ps] that r by simp
  have hi: "r < unat (idx (ps ! i))" if "r \<le> i" "i < length ps" for i using first_gap_free [OF srt, of 0 i] that r by simp
  show "\<forall>p \<in> set ps. unat (idx p) \<noteq> r"
  proof
    fix p assume "p \<in> set ps"
    then obtain i where i: "i < length ps" "p = ps ! i" by (auto simp: in_set_conv_nth)
    show "unat (idx p) \<noteq> r" using lo [of i] hi [of i] i by (cases "i < r") auto
  qed
  show "\<forall>j < r. \<exists>p \<in> set ps. unat (idx p) = j"
  proof (intro allI impI)
    fix j assume "j < r"
    then show "\<exists>p \<in> set ps. unat (idx p) = j" using lo [of j] rl by (intro bexI [of _ "ps ! j"]) simp_all
  qed
  have ur: "unat (of_nat r :: u8) = r" using rl len by (simp add: unsigned_of_nat take_bit_nat_eq_self)
  have same: "by_index (idx(new := of_nat r)) ps" unfolding by_index_def
    by (rule sorted_wrt_mono_rel [OF _ srt [unfolded by_index_def]]) (use new in auto)
  have below: "idx p < of_nat r" if pp: "p \<in> set (take r ps)" for p
  proof -
    obtain i where "i < r" "i < length ps" "p = ps ! i" using pp by (auto simp: in_set_conv_nth)
    then show ?thesis using lo ur by (simp add: word_less_nat_alt)
  qed
  have above: "of_nat r < idx p" if pp: "p \<in> set (drop r ps)" for p
  proof -
    obtain i where "i < length ps - r" "p = ps ! (r + i)" using pp by (auto simp: in_set_conv_nth)
    then show ?thesis using hi [of "r + i"] ur by (simp add: word_less_nat_alt)
  qed
  let ?f = "idx(new := of_nat r)"
  have keep: "?f p = idx p" if "p \<in> set (take r ps) \<union> set (drop r ps)" for p
    using that new by (auto dest: in_set_takeD in_set_dropD)
  have "by_index ?f (take r ps @ drop r ps)" using same by simp
  then have "by_index ?f (take r ps)" "by_index ?f (drop r ps)" "\<forall>p \<in> set (take r ps). \<forall>q \<in> set (drop r ps). ?f p < ?f q"
    unfolding by_index_def sorted_wrt_append by blast+
  moreover have "\<forall>p \<in> set (take r ps). ?f p < ?f new" using below keep by simp
  moreover have "\<forall>q \<in> set (drop r ps). ?f new < ?f q" using above keep by simp
  ultimately show "by_index ?f (take r ps @ new # drop r ps)" unfolding by_index_def sorted_wrt_append sorted_wrt.simps by (simp only: list.set ball_simps) blast
qed

subsection \<open>Inserting a port\<close>

abbreviation in_index :: "gu_state \<Rightarrow> addr \<Rightarrow> u8" where
  "in_index s \<equiv> \<lambda>p. case gs_ins s p of None \<Rightarrow> 0 | Some c \<Rightarrow> port_index c"

abbreviation out_index :: "gu_state \<Rightarrow> addr \<Rightarrow> u8" where
  "out_index s \<equiv> \<lambda>p. case gs_outs s p of None \<Rightarrow> 0 | Some c \<Rightarrow> port_index c"

lemma insert_input_st:
  assumes m: "gs_modules s m = Some md" "module_sg md = Some g" "gs_sgs s g = Some sg" and p: "gs_ins s p = Some c" "p \<notin> set (input_port_list md)"
    and ps: "by_index (in_index s) (input_port_list md)" "length (input_port_list md) < 256" and mal: "mal s (input_port_list md)"
    and r: "r = first_gap (in_index s) 0 (input_port_list md)"
  shows "gu_insert_input_port mal (Some m) p s = Some (AR_EOK, s\<lparr>
     gs_ins := (gs_ins s)(p \<mapsto> c\<lparr>port_index := of_nat r\<rparr>),
     gs_modules := (gs_modules s)(m \<mapsto> md\<lparr>input_port_list := take r (input_port_list md) @ p # drop r (input_port_list md),
       num_input_ports := num_input_ports md + 1, module_status := gu_set_status (module_status md) GU_STATUS_UPDATED\<rparr>),
     gs_sgs := (gs_sgs s)(g \<mapsto> sg\<lparr>sg_status := gu_set_status (sg_status sg) GU_STATUS_UPDATED\<rparr>)\<rparr>)"
  unfolding gu_insert_input_port_def
  by (simp add: m p(1) insert_tail_def mal move_port_ok [OF ps(1) p(2) ps(2)] r upd_in_def upd_module_def upd_sg_def modify_def)

lemma insert_output_st:
  assumes m: "gs_modules s m = Some md" "module_sg md = Some g" "gs_sgs s g = Some sg" and p: "gs_outs s p = Some c" "p \<notin> set (output_port_list md)"
    and ps: "by_index (out_index s) (output_port_list md)" "length (output_port_list md) < 256" and mal: "mal s (output_port_list md)"
    and r: "r = first_gap (out_index s) 0 (output_port_list md)"
  shows "gu_insert_output_port mal (Some m) p s = Some (AR_EOK, s\<lparr>
     gs_outs := (gs_outs s)(p \<mapsto> c\<lparr>port_index := of_nat r\<rparr>),
     gs_modules := (gs_modules s)(m \<mapsto> md\<lparr>output_port_list := take r (output_port_list md) @ p # drop r (output_port_list md),
       num_output_ports := num_output_ports md + 1, module_status := gu_set_status (module_status md) GU_STATUS_UPDATED\<rparr>),
     gs_sgs := (gs_sgs s)(g \<mapsto> sg\<lparr>sg_status := gu_set_status (sg_status sg) GU_STATUS_UPDATED\<rparr>)\<rparr>)"
  unfolding gu_insert_output_port_def
  by (simp add: m p(1) insert_tail_def mal move_port_ok [OF ps(1) p(2) ps(2)] r upd_out_def upd_module_def upd_sg_def modify_def)

subsection \<open>Attached modules\<close>

text \<open>
  An elementary module \<open>a\<close> with one input \<open>i\<close> and one output \<open>q\<close> between the output port \<open>p\<close> of module \<open>u\<close> and either the input port
  \<open>x\<close> of module \<open>v\<close> or a port of the container. These are its parts.
\<close>

record elem =
  el_p :: addr
  el_po :: gu_output_port
  el_u :: addr
  el_ud :: gu_module
  el_a :: addr
  el_ad :: gu_module
  el_i :: addr
  el_ip :: gu_input_port
  el_q :: addr
  el_qo :: gu_output_port

definition elem_ok :: "gu_state \<Rightarrow> elem \<Rightarrow> bool" where
  "elem_ok s e \<longleftrightarrow> gs_outs s (el_p e) = Some (el_po e) \<and> elementary_pending_attachment (el_po e) \<and> conn_in_port_ptr (el_po e) = Some (el_i e)
     \<and> ext_out_port_ptr (el_po e) = None \<and> attached_module_ptr (el_po e) = None \<and> port_module (el_po e) = Some (el_u e)
     \<and> gs_ins s (el_i e) = Some (el_ip e) \<and> conn_out_port_ptr (el_ip e) = Some (el_p e) \<and> port_module (el_ip e) = Some (el_a e)
     \<and> gs_modules s (el_a e) = Some (el_ad e) \<and> input_port_list (el_ad e) = [el_i e] \<and> output_port_list (el_ad e) = [el_q e]
     \<and> host_output_port_ptr (el_ad e) = None \<and> gs_modules s (el_u e) = Some (el_ud e) \<and> el_u e \<noteq> el_a e
     \<and> gs_outs s (el_q e) = Some (el_qo e) \<and> el_q e \<noteq> el_p e"

text \<open>The flags about the boundary: attaching moves that of the module to its host, detaching moves that of the host to the module.\<close>

abbreviation ds_flag :: "gu_module \<Rightarrow> bool" where "ds_flag \<equiv> is_ds_at_sg_or_cntr_boundary"

lemma ds_flag_or [simp]: "is_ds_at_sg_or_cntr_boundary_update (\<lambda>b. b \<or> c) m = m\<lparr>is_ds_at_sg_or_cntr_boundary := ds_flag m \<or> c\<rparr>"
  by (cases m) simp

lemma fun_upd_around: "u \<noteq> a \<Longrightarrow> f(a := x, u := y, a := z) = f(u := y, a := z)"
  by (auto simp: fun_eq_iff)

lemma attach_inner:
  assumes e: "elem_ok s e" and x: "conn_in_port_ptr (el_qo e) = Some x" "gs_ins s x = Some xp" "x \<noteq> el_i e"
  shows "gu_attach_module (Some (el_p e)) s = Some (AR_EOK, s\<lparr>
     gs_ins := (gs_ins s)(el_i e \<mapsto> (el_ip e)\<lparr>conn_out_port_ptr := None\<rparr>, x \<mapsto> xp\<lparr>conn_out_port_ptr := Some (el_p e)\<rparr>),
     gs_outs := (gs_outs s)(el_q e \<mapsto> (el_qo e)\<lparr>conn_in_port_ptr := None\<rparr>,
       el_p e \<mapsto> (el_po e)\<lparr>conn_in_port_ptr := Some x, attached_module_ptr := Some (el_a e), elementary_pending_attachment := False\<rparr>),
     gs_modules := (gs_modules s)(el_u e \<mapsto> (el_ud e)\<lparr>is_ds_at_sg_or_cntr_boundary := ds_flag (el_ud e) \<or> ds_flag (el_ad e)\<rparr>,
       el_a e \<mapsto> (el_ad e)\<lparr>host_output_port_ptr := Some (el_p e), is_ds_at_sg_or_cntr_boundary := False\<rparr>)\<rparr>)"
  using e x unfolding elem_ok_def
  by (simp add: gu_attach_module_def upd_in_def upd_out_def upd_module_def modify_def fun_upd_around)

lemma detach_inner:
  assumes p: "gs_outs s p = Some po" "ext_out_port_ptr po = None" "conn_in_port_ptr po = Some x" "port_module po = Some u" "gs_modules s u = Some ud"
    and a: "gs_modules s a = Some ad" "host_output_port_ptr ad = Some p" "input_port_list ad = [i]" "output_port_list ad = [q]" "u \<noteq> a"
    and q: "gs_outs s q = Some qo" "q \<noteq> p" and i: "gs_ins s i = Some ip" "gs_ins s x = Some xp" "i \<noteq> x" "port_module xp = Some v"
    and mal: "\<And>s xs. mal s xs"
  shows "gu_detach_module mal a s = Some (AR_EOK, s\<lparr>
     gs_gu := (gs_gu s)\<lparr>sort_status := GU_SORT_UPDATED, sorted_module_list := insert_before v a (sorted_module_list (gs_gu s))\<rparr>,
     gs_ins := (gs_ins s)(i \<mapsto> ip\<lparr>conn_out_port_ptr := Some p\<rparr>, x \<mapsto> xp\<lparr>conn_out_port_ptr := Some q\<rparr>),
     gs_outs := (gs_outs s)(q \<mapsto> qo\<lparr>conn_in_port_ptr := Some x\<rparr>, p \<mapsto> po\<lparr>conn_in_port_ptr := Some i, attached_module_ptr := None\<rparr>),
     gs_modules := (gs_modules s)(a \<mapsto> ad\<lparr>host_output_port_ptr := None, is_ds_at_sg_or_cntr_boundary := ds_flag ad \<or> ds_flag ud\<rparr>,
       u \<mapsto> ud\<lparr>is_ds_at_sg_or_cntr_boundary := False\<rparr>)\<rparr>)"
  using assms by (simp add: gu_detach_module_def add_sorted_before_def upd_in_def upd_out_def upd_module_def modify_def fun_upd_around)

lemma attach_ext:
  assumes e: "elem_ok s e" and x: "conn_in_port_ptr (el_qo e) = None" "ext_out_port_ptr (el_qo e) = Some x" "gs_ext_outs s x = Some xp"
  shows "gu_attach_module (Some (el_p e)) s = Some (AR_EOK, s\<lparr>
     gs_ins := (gs_ins s)(el_i e \<mapsto> (el_ip e)\<lparr>conn_out_port_ptr := None\<rparr>),
     gs_outs := (gs_outs s)(el_q e \<mapsto> (el_qo e)\<lparr>ext_out_port_ptr := None\<rparr>,
       el_p e \<mapsto> (el_po e)\<lparr>conn_in_port_ptr := None, ext_out_port_ptr := Some x, attached_module_ptr := Some (el_a e), elementary_pending_attachment := False\<rparr>),
     gs_ext_outs := (gs_ext_outs s)(x \<mapsto> xp\<lparr>int_out_port_ptr := Some (el_p e)\<rparr>),
     gs_modules := (gs_modules s)(el_u e \<mapsto> (el_ud e)\<lparr>is_ds_at_sg_or_cntr_boundary := ds_flag (el_ud e) \<or> ds_flag (el_ad e)\<rparr>,
       el_a e \<mapsto> (el_ad e)\<lparr>host_output_port_ptr := Some (el_p e), is_ds_at_sg_or_cntr_boundary := False\<rparr>)\<rparr>)"
  using e x unfolding elem_ok_def
  by (simp add: gu_attach_module_def upd_in_def upd_out_def upd_module_def upd_ext_out_def modify_def fun_upd_around)

lemma detach_ext:
  assumes p: "gs_outs s p = Some po" "ext_out_port_ptr po = Some x" "port_module po = Some u" "gs_modules s u = Some ud"
    and a: "gs_modules s a = Some ad" "host_output_port_ptr ad = Some p" "input_port_list ad = [i]" "output_port_list ad = [q]" "u \<noteq> a"
    and q: "gs_outs s q = Some qo" "q \<noteq> p" and i: "gs_ins s i = Some ip" "gs_ext_outs s x = Some xp"
    and mal: "\<And>s xs. mal s xs" and new: "a \<notin> set (sorted_module_list (gs_gu s))"
  shows "gu_detach_module mal a s = Some (AR_EOK, s\<lparr>
     gs_gu := (gs_gu s)\<lparr>sort_status := GU_SORT_UPDATED, sorted_module_list := sorted_module_list (gs_gu s) @ [a]\<rparr>,
     gs_ins := (gs_ins s)(i \<mapsto> ip\<lparr>conn_out_port_ptr := Some p\<rparr>),
     gs_outs := (gs_outs s)(q \<mapsto> qo\<lparr>ext_out_port_ptr := Some x\<rparr>, p \<mapsto> po\<lparr>conn_in_port_ptr := Some i, ext_out_port_ptr := None, attached_module_ptr := None\<rparr>),
     gs_ext_outs := (gs_ext_outs s)(x \<mapsto> xp\<lparr>int_out_port_ptr := Some q\<rparr>),
     gs_modules := (gs_modules s)(u \<mapsto> ud\<lparr>is_ds_at_sg_or_cntr_boundary := False\<rparr>,
       a \<mapsto> ad\<lparr>host_output_port_ptr := None, is_ds_at_sg_or_cntr_boundary := True\<rparr>)\<rparr>)"
  using assms by (simp add: gu_detach_module_def add_sorted_def insert_tail_def upd_in_def upd_out_def upd_module_def upd_ext_out_def modify_def fun_upd_around)

subsection \<open>An example\<close>

text \<open>In the example graph module 6 waits to be attached to port 12; with a port of the container after it in the second one.\<close>

definition ex_elem :: "gu_output_port \<Rightarrow> elem" where
  "ex_elem q = \<lparr>el_p = 12, el_po = (ex_out 1 5 0 (Some 21) None)\<lparr>elementary_pending_attachment := True\<rparr>, el_u = 5, el_ud = ex_module 1 [11] [12, 13],
     el_a = 6, el_ad = ex_module 2 [21] [22], el_i = 21, el_ip = ex_in 2 6 0 (Some 12) None, el_q = 22, el_qo = q\<rparr>"

definition ex_pending :: "gu_output_port \<Rightarrow> gu_state" where
  "ex_pending q = ex_graph\<lparr>gs_outs := (gs_outs ex_graph)(12 \<mapsto> el_po (ex_elem q), 22 \<mapsto> q)\<rparr>"

lemma ex_elem_ok: "elem_ok (ex_pending q) (ex_elem q)"
  by (simp add: elem_ok_def ex_pending_def ex_elem_def ex_parts ex_out_def)

lemma ex_mem_ok: "mem_ok (\<lambda>_ _. True)"
  by (simp add: mem_ok_def)

subsection \<open>Properties\<close>

text \<open>
  C14: an input port that is inserted into a module with fewer than 256 ports gets the smallest index that no other port of the module has; the list stays in
  the order of indices, the other ports keep their order and everything they say, and the module counts one more port. Without memory
  the result is \<open>AR_ENOMEMORY\<close> and nothing changes.
\<close>

theorem gu_insert_input_port_ok:
  assumes "gs_modules s m = Some md" "module_sg md = Some g" "gs_sgs s g = Some sg" "gs_ins s p = Some c" "p \<notin> set (input_port_list md)"
    "by_index (in_index s) (input_port_list md)" "length (input_port_list md) < 256"
  shows "if mal s (input_port_list md)
    then \<exists>r s' md'. gu_insert_input_port mal (Some m) p s = Some (AR_EOK, s') \<and> gs_modules s' m = Some md'
      \<and> r \<le> length (input_port_list md) \<and> input_port_list md' = take r (input_port_list md) @ p # drop r (input_port_list md)
      \<and> num_input_ports md' = num_input_ports md + 1
      \<and> gs_ins s' = (gs_ins s)(p \<mapsto> c\<lparr>port_index := of_nat r\<rparr>) \<and> by_index (in_index s') (input_port_list md')
      \<and> (\<forall>q \<in> set (input_port_list md). unat (in_index s q) \<noteq> r) \<and> (\<forall>j < r. \<exists>q \<in> set (input_port_list md). unat (in_index s q) = j)
    else gu_insert_input_port mal (Some m) p s = Some (AR_ENOMEMORY, s)"
proof (cases "mal s (input_port_list md)")
  case True
  define r where "r = first_gap (in_index s) 0 (input_port_list md)"
  note st = insert_input_st [where mal = mal, OF assms True r_def]
  note gap = first_gap_smallest [OF assms(6,7) r_def assms(5)]
  have "(\<lambda>q. case ((gs_ins s)(p \<mapsto> c\<lparr>port_index := of_nat r\<rparr>)) q of None \<Rightarrow> 0 | Some c \<Rightarrow> port_index c) = (in_index s)(p := of_nat r)"
    by (auto simp: fun_eq_iff)
  then show ?thesis using gap by (simp add: True st) (rule exI [of _ r], simp)
next
  case False
  then show ?thesis by (simp add: gu_insert_input_port_def assms(1) insert_tail_def)
qed

theorem gu_insert_input_port_ok_witness:
  "\<exists>s'. gu_insert_input_port (\<lambda>_ _. True) (Some 7) 40 (ex_graph\<lparr>gs_ins := (gs_ins ex_graph)(40 \<mapsto> ex_in 6 7 0 None None)\<rparr>) = Some (AR_EOK, s')
     \<and> map_option input_port_list (gs_modules s' 7) = Some [31, 32, 40] \<and> in_index s' 40 = 2"
proof -
  let ?s = "ex_graph\<lparr>gs_ins := (gs_ins ex_graph)(40 \<mapsto> ex_in 6 7 0 None None)\<rparr>"
  have sg: "module_sg (ex_module 3 [31, 32] [33]) = Some 100" by (simp add: ex_module_def)
  obtain g where g: "gs_sgs ex_graph 100 = Some g" using ex_parts(8) by blast
  have idx: "port_index (ex_in i m k c e) = k" for i m k c e by (simp add: ex_in_def)
  have b: "by_index (in_index ?s) [31, 32]" by (simp add: by_index_def ex_parts idx)
  have "gs_modules ?s 7 = Some (ex_module 3 [31, 32] [33])" "gs_sgs ?s 100 = Some g" "gs_ins ?s 40 = Some (ex_in 6 7 0 None None)"
      "40 \<notin> set (input_port_list (ex_module 3 [31, 32] [33]))" "by_index (in_index ?s) (input_port_list (ex_module 3 [31, 32] [33]))"
      "length (input_port_list (ex_module 3 [31, 32] [33])) < 256"
    using g b by (simp_all add: ex_parts)
  note ins = gu_insert_input_port_ok [where mal = "\<lambda>_ _. True", OF this(1) sg this(2-6), unfolded if_True ex_fields]
  obtain r s' md' where r: "gu_insert_input_port (\<lambda>_ _. True) (Some 7) 40 ?s = Some (AR_EOK, s')" "gs_modules s' 7 = Some md'"
      "r \<le> length [31 :: addr, 32]" "input_port_list md' = take r [31, 32] @ 40 # drop r [31, 32]"
      "gs_ins s' = (gs_ins ?s)(40 \<mapsto> (ex_in 6 7 0 None None)\<lparr>port_index := of_nat r\<rparr>)"
      "\<forall>q \<in> set [31, 32]. unat (in_index ?s q) \<noteq> r"
    using ins by (elim exE conjE)
  have "r \<noteq> 0" "r \<noteq> 1" using r(6) by (auto simp: ex_parts idx)
  then have "r = 2" using r(3) by simp
  then show ?thesis using r by simp
qed

text \<open>
  C20: attaching an elementary module that lies between two modules connects its neighbours to each other and leaves its own ports without connections; detaching it
  again gives every port of the graph the connection it had before and puts the module in front of the next one in the sorted list. Only the mark that the attachment
  is pending is gone, and the flags about the boundary have moved from the host to the module.
\<close>

theorem gu_attach_detach_inner:
  assumes e: "elem_ok s e" and x: "conn_in_port_ptr (el_qo e) = Some x" "gs_ins s x = Some xp" "x \<noteq> el_i e" "conn_out_port_ptr xp = Some (el_q e)"
    and v: "port_module xp = Some v" and mal: "mem_ok mal"
  shows "\<exists>s1 s2. gu_attach_module (Some (el_p e)) s = Some (AR_EOK, s1) \<and> gu_detach_module mal (el_a e) s1 = Some (AR_EOK, s2)
    \<and> map_option conn_in_port_ptr (gs_outs s1 (el_p e)) = Some (Some x) \<and> map_option conn_out_port_ptr (gs_ins s1 x) = Some (Some (el_p e))
    \<and> map_option conn_out_port_ptr (gs_ins s1 (el_i e)) = Some None \<and> map_option conn_in_port_ptr (gs_outs s1 (el_q e)) = Some None
    \<and> s2 = s\<lparr>gs_gu := (gs_gu s)\<lparr>sort_status := GU_SORT_UPDATED, sorted_module_list := insert_before v (el_a e) (sorted_module_list (gs_gu s))\<rparr>,
        gs_outs := (gs_outs s)(el_p e \<mapsto> (el_po e)\<lparr>elementary_pending_attachment := False\<rparr>),
        gs_modules := (gs_modules s)(el_a e \<mapsto> (el_ad e)\<lparr>is_ds_at_sg_or_cntr_boundary := ds_flag (el_ud e) \<or> ds_flag (el_ad e)\<rparr>,
          el_u e \<mapsto> (el_ud e)\<lparr>is_ds_at_sg_or_cntr_boundary := False\<rparr>)\<rparr>"
proof -
  note at = attach_inner [OF e x(1-3)]
  note f = e [unfolded elem_ok_def]
  let ?s1 = "s\<lparr>
     gs_ins := (gs_ins s)(el_i e \<mapsto> (el_ip e)\<lparr>conn_out_port_ptr := None\<rparr>, x \<mapsto> xp\<lparr>conn_out_port_ptr := Some (el_p e)\<rparr>),
     gs_outs := (gs_outs s)(el_q e \<mapsto> (el_qo e)\<lparr>conn_in_port_ptr := None\<rparr>,
       el_p e \<mapsto> (el_po e)\<lparr>conn_in_port_ptr := Some x, attached_module_ptr := Some (el_a e), elementary_pending_attachment := False\<rparr>),
     gs_modules := (gs_modules s)(el_u e \<mapsto> (el_ud e)\<lparr>is_ds_at_sg_or_cntr_boundary := ds_flag (el_ud e) \<or> ds_flag (el_ad e)\<rparr>,
       el_a e \<mapsto> (el_ad e)\<lparr>host_output_port_ptr := Some (el_p e), is_ds_at_sg_or_cntr_boundary := False\<rparr>)\<rparr>"
  note de = detach_inner [where s = ?s1 and p = "el_p e" and x = x and u = "el_u e" and a = "el_a e" and i = "el_i e" and q = "el_q e" and v = v and mal = mal]
  have rest: "(el_ip e)\<lparr>conn_out_port_ptr := Some (el_p e)\<rparr> = el_ip e" "xp\<lparr>conn_out_port_ptr := Some (el_q e)\<rparr> = xp"
      "(el_qo e)\<lparr>conn_in_port_ptr := Some x\<rparr> = el_qo e"
      "(el_po e)\<lparr>elementary_pending_attachment := False, conn_in_port_ptr := Some (el_i e), attached_module_ptr := None\<rparr> = (el_po e)\<lparr>elementary_pending_attachment := False\<rparr>"
      "(el_ad e)\<lparr>host_output_port_ptr := None, is_ds_at_sg_or_cntr_boundary := b\<rparr> = (el_ad e)\<lparr>is_ds_at_sg_or_cntr_boundary := b\<rparr>" for b
    using f x by (cases "el_ip e", cases xp, cases "el_qo e", cases "el_po e", cases "el_ad e", simp)+
  show ?thesis using f x v mem_okD [OF mal] by (simp add: at de rest fun_upd_around map_upd_triv)
qed

theorem gu_attach_detach_inner_witness:
  "elem_ok (ex_pending (ex_out 1 6 0 (Some 32) None)) (ex_elem (ex_out 1 6 0 (Some 32) None)) \<and>
   (\<exists>s1 s2. gu_attach_module (Some 12) (ex_pending (ex_out 1 6 0 (Some 32) None)) = Some (AR_EOK, s1)
      \<and> gu_detach_module (\<lambda>_ _. True) 6 s1 = Some (AR_EOK, s2) \<and> gs_ins s2 = gs_ins ex_graph \<and> gs_outs s2 = gs_outs ex_graph)"
proof -
  let ?q = "ex_out 1 6 0 (Some 32) None"
  have x: "conn_in_port_ptr (el_qo (ex_elem ?q)) = Some 32" "gs_ins (ex_pending ?q) 32 = Some (ex_in 4 7 1 (Some 22) None)" "32 \<noteq> el_i (ex_elem ?q)"
      "conn_out_port_ptr (ex_in 4 7 1 (Some 22) None) = Some (el_q (ex_elem ?q))" "port_module (ex_in 4 7 1 (Some 22) None) = Some 7"
    by (simp_all add: ex_elem_def ex_pending_def ex_parts)
  have "(el_po (ex_elem ?q))\<lparr>elementary_pending_attachment := False\<rparr> = ex_out 1 5 0 (Some 21) None" by (simp add: ex_elem_def ex_out_def)
  moreover have "el_p (ex_elem ?q) = 12" "el_a (ex_elem ?q) = 6" by (simp_all add: ex_elem_def)
  moreover have "gs_outs (ex_pending ?q) = (gs_outs ex_graph)(12 \<mapsto> el_po (ex_elem ?q))" "gs_ins (ex_pending ?q) = gs_ins ex_graph"
      "(gs_outs ex_graph)(12 \<mapsto> ex_out 1 5 0 (Some 21) None) = gs_outs ex_graph"
    by (auto simp: ex_pending_def ex_parts fun_eq_iff)
  ultimately show ?thesis using gu_attach_detach_inner [OF ex_elem_ok x ex_mem_ok] ex_elem_ok by auto
qed

text \<open>
  the same for an elementary module in front of a port of the container: while it is attached the port belongs to the host's output, and detaching
  it gives the connections back, with the module at the end of the sorted list.
\<close>

theorem gu_attach_detach_ext:
  assumes e: "elem_ok s e" and x: "conn_in_port_ptr (el_qo e) = None" "ext_out_port_ptr (el_qo e) = Some x" "gs_ext_outs s x = Some xp" "int_out_port_ptr xp = Some (el_q e)"
    and mal: "mem_ok mal" and new: "el_a e \<notin> set (sorted_module_list (gs_gu s))"
  shows "\<exists>s1 s2. gu_attach_module (Some (el_p e)) s = Some (AR_EOK, s1) \<and> gu_detach_module mal (el_a e) s1 = Some (AR_EOK, s2)
    \<and> map_option ext_out_port_ptr (gs_outs s1 (el_p e)) = Some (Some x) \<and> map_option int_out_port_ptr (gs_ext_outs s1 x) = Some (Some (el_p e))
    \<and> map_option conn_out_port_ptr (gs_ins s1 (el_i e)) = Some None \<and> map_option ext_out_port_ptr (gs_outs s1 (el_q e)) = Some None
    \<and> s2 = s\<lparr>gs_gu := (gs_gu s)\<lparr>sort_status := GU_SORT_UPDATED, sorted_module_list := sorted_module_list (gs_gu s) @ [el_a e]\<rparr>,
        gs_outs := (gs_outs s)(el_p e \<mapsto> (el_po e)\<lparr>elementary_pending_attachment := False\<rparr>),
        gs_modules := (gs_modules s)(el_u e \<mapsto> (el_ud e)\<lparr>is_ds_at_sg_or_cntr_boundary := False\<rparr>,
          el_a e \<mapsto> (el_ad e)\<lparr>is_ds_at_sg_or_cntr_boundary := True\<rparr>)\<rparr>"
proof -
  note at = attach_ext [OF e x(1-3)]
  note f = e [unfolded elem_ok_def]
  let ?s1 = "s\<lparr>
     gs_ins := (gs_ins s)(el_i e \<mapsto> (el_ip e)\<lparr>conn_out_port_ptr := None\<rparr>),
     gs_outs := (gs_outs s)(el_q e \<mapsto> (el_qo e)\<lparr>ext_out_port_ptr := None\<rparr>,
       el_p e \<mapsto> (el_po e)\<lparr>conn_in_port_ptr := None, ext_out_port_ptr := Some x, attached_module_ptr := Some (el_a e), elementary_pending_attachment := False\<rparr>),
     gs_ext_outs := (gs_ext_outs s)(x \<mapsto> xp\<lparr>int_out_port_ptr := Some (el_p e)\<rparr>),
     gs_modules := (gs_modules s)(el_u e \<mapsto> (el_ud e)\<lparr>is_ds_at_sg_or_cntr_boundary := ds_flag (el_ud e) \<or> ds_flag (el_ad e)\<rparr>,
       el_a e \<mapsto> (el_ad e)\<lparr>host_output_port_ptr := Some (el_p e), is_ds_at_sg_or_cntr_boundary := False\<rparr>)\<rparr>"
  note de = detach_ext [where s = ?s1 and p = "el_p e" and x = x and u = "el_u e" and a = "el_a e" and i = "el_i e" and q = "el_q e" and mal = mal]
  have rest: "(el_ip e)\<lparr>conn_out_port_ptr := Some (el_p e)\<rparr> = el_ip e" "xp\<lparr>int_out_port_ptr := Some (el_q e)\<rparr> = xp"
      "(el_qo e)\<lparr>ext_out_port_ptr := Some x\<rparr> = el_qo e"
      "(el_po e)\<lparr>elementary_pending_attachment := False, conn_in_port_ptr := Some (el_i e), ext_out_port_ptr := None, attached_module_ptr := None\<rparr> = (el_po e)\<lparr>elementary_pending_attachment := False\<rparr>"
      "(el_ad e)\<lparr>host_output_port_ptr := None, is_ds_at_sg_or_cntr_boundary := b\<rparr> = (el_ad e)\<lparr>is_ds_at_sg_or_cntr_boundary := b\<rparr>" for b
    using f x by (cases "el_ip e", cases xp, cases "el_qo e", cases "el_po e", cases "el_ad e", simp)+
  show ?thesis using f x new mem_okD [OF mal] by (simp add: at de rest fun_upd_around map_upd_triv)
qed

theorem gu_attach_detach_ext_witness:
  "elem_ok (ex_pending (ex_out 1 6 0 None (Some 300))\<lparr>gs_ext_outs := [300 \<mapsto> \<lparr>int_out_port_ptr = Some 22, downstream_spf_handle_ptr = None\<rparr>]\<rparr>)
     (ex_elem (ex_out 1 6 0 None (Some 300))) \<and>
   (\<exists>s1 s2. gu_attach_module (Some 12) (ex_pending (ex_out 1 6 0 None (Some 300))\<lparr>gs_ext_outs := [300 \<mapsto> \<lparr>int_out_port_ptr = Some 22, downstream_spf_handle_ptr = None\<rparr>]\<rparr>) = Some (AR_EOK, s1)
      \<and> gu_detach_module (\<lambda>_ _. True) 6 s1 = Some (AR_EOK, s2) \<and> sorted_module_list (gs_gu s2) = [6])"
proof -
  let ?q = "ex_out 1 6 0 None (Some 300)" and ?e = "[300 \<mapsto> \<lparr>int_out_port_ptr = Some 22, downstream_spf_handle_ptr = None\<rparr>] :: gu_ext_out_port store"
  let ?s = "ex_pending ?q\<lparr>gs_ext_outs := ?e\<rparr>"
  have e: "elem_ok ?s (ex_elem ?q)" using ex_elem_ok [of ?q] by (simp add: elem_ok_def)
  have x: "conn_in_port_ptr (el_qo (ex_elem ?q)) = None" "ext_out_port_ptr (el_qo (ex_elem ?q)) = Some 300"
      "gs_ext_outs ?s 300 = Some \<lparr>int_out_port_ptr = Some 22, downstream_spf_handle_ptr = None\<rparr>"
      "int_out_port_ptr \<lparr>int_out_port_ptr = Some 22, downstream_spf_handle_ptr = None\<rparr> = Some (el_q (ex_elem ?q))"
    by (simp_all add: ex_elem_def)
  have n: "sorted_module_list (gs_gu ?s) = []" by (simp add: ex_pending_def ex_graph_def)
  have "el_p (ex_elem ?q) = 12" "el_a (ex_elem ?q) = 6" by (simp_all add: ex_elem_def)
  then show ?thesis using gu_attach_detach_ext [OF e x ex_mem_ok] e n by auto
qed

end
