(* ===== verification/Basic_Op.thy ===== *)
theory Basic_Op
  imports Ar_Prelude "HOL-Library.State_Monad"
begin

text \<open>
  The fixed-point operators of the signal processing modules (\<^verbatim>\<open>modules/cmn/common/utils/src/basic_op.c\<close>). Signed integers are words that are
  read with \<open>sint\<close>; conversions to a wider type are \<open>scast\<close> or \<open>ucast\<close>, those to a narrower one \<open>ucast\<close>. Signed arithmetic wraps and \<open>>>\<close> on
  a signed number is arithmetic, as on the processors the code is for; a shift by less than 0 or by the width or more is \<open>None\<close>.
  The two global flags are the state of a state monad. The counters of operations (\<^verbatim>\<open>WMOPS_FX\<close>) are left out; the count of leading ones is in \<^verbatim>\<open>Posal_Channel\<close>.
\<close>

unbundle bit_operations_syntax

type_synonym s16 = "16 word"
type_synonym s32 = "32 word"
type_synonym s64 = "64 word"

record ovf =
  giOverflow :: u32
  giOldOverflow :: u32

type_synonym 'a fx = "(ovf, 'a) state"

abbreviation (input) MAX_16 :: s16 where "MAX_16 \<equiv> 0x7FFF"
abbreviation (input) MIN_16 :: s16 where "MIN_16 \<equiv> 0x8000"
abbreviation (input) MAX_32 :: s32 where "MAX_32 \<equiv> 0x7FFFFFFF"
abbreviation (input) MIN_32 :: s32 where "MIN_32 \<equiv> 0x80000000"
abbreviation (input) LONGWORD_HALF :: s32 where "LONGWORD_HALF \<equiv> 0x40000000"

abbreviation ret :: "'a \<Rightarrow> 'a fx" where "ret \<equiv> State_Monad.return"

definition overflowed :: "unit fx" where
  "overflowed = State_Monad.update (giOverflow_update (\<lambda>_. 1))"

subsection \<open>The flags\<close>

definition clearOverflow :: "u32 fx" where
  "clearOverflow = do {
     State_Monad.update (\<lambda>s. s\<lparr>giOldOverflow := giOverflow s\<rparr>);
     State_Monad.update (giOverflow_update (\<lambda>_. 0));
     s \<leftarrow> State_Monad.get;
     ret (giOldOverflow s)
   }"

definition isOverflow :: "u32 fx" where
  "isOverflow = do { s \<leftarrow> State_Monad.get; ret (giOverflow s) }"

definition popOverflow :: "u32 fx" where
  "popOverflow = do {
     s \<leftarrow> State_Monad.get;
     let i = giOverflow s;
     State_Monad.update (\<lambda>s. s\<lparr>giOverflow := giOldOverflow s\<rparr>);
     ret i
   }"

definition setOverflow :: "u32 fx" where
  "setOverflow = do {
     State_Monad.update (\<lambda>s. s\<lparr>giOldOverflow := giOverflow s\<rparr>);
     State_Monad.update (giOverflow_update (\<lambda>_. 1));
     s \<leftarrow> State_Monad.get;
     ret (giOldOverflow s)
   }"

subsection \<open>Saturation, sums and differences\<close>

definition s16_saturate_s32 :: "s32 \<Rightarrow> s16 fx" where
  "s16_saturate_s32 var1 =
    (if scast MAX_16 <s var1 then do { overflowed; ret MAX_16 }
     else if var1 <s scast MIN_16 then do { overflowed; ret MIN_16 }
     else ret (ucast var1))"

definition s32_saturate_s64 :: "s64 \<Rightarrow> s32 fx" where
  "s32_saturate_s64 var1 =
    (if scast MAX_32 <s var1 then do { overflowed; ret (ucast (scast MAX_32 :: s64)) }
     else if var1 <s scast MIN_32 then do { overflowed; ret (ucast (scast MIN_32 :: s64)) }
     else ret (ucast var1))"

definition u16_abs_s16_sat :: "s16 \<Rightarrow> u16 fx" where
  "u16_abs_s16_sat var1 =
    (if var1 = MIN_16 then do { overflowed; ret MAX_16 }
     else if var1 <s 0 then ret (- var1) else ret var1)"

definition u32_abs_s32_sat :: "s32 \<Rightarrow> u32 fx" where
  "u32_abs_s32_sat var1 =
    (if var1 = MIN_32 then do { overflowed; ret MAX_32 }
     else if var1 <s 0 then ret (- var1) else ret var1)"

definition s16_neg_s16_sat :: "s16 \<Rightarrow> s16 fx" where
  "s16_neg_s16_sat var1 = (if var1 = MIN_16 then do { overflowed; ret MAX_16 } else ret (- var1))"

definition s32_neg_s32_sat :: "s32 \<Rightarrow> s32 fx" where
  "s32_neg_s32_sat var1 = (if var1 = MIN_32 then do { overflowed; ret MAX_32 } else ret (- var1))"

definition s16_add_s16_s16 :: "s16 \<Rightarrow> s16 \<Rightarrow> s16" where
  "s16_add_s16_s16 var1 var2 = ucast (scast var1 + scast var2 :: s32)"

definition s16_sub_s16_s16 :: "s16 \<Rightarrow> s16 \<Rightarrow> s16" where
  "s16_sub_s16_s16 var1 var2 = ucast (scast var1 - scast var2 :: s32)"

definition s16_add_s16_s16_sat :: "s16 \<Rightarrow> s16 \<Rightarrow> s16 fx" where
  "s16_add_s16_s16_sat var1 var2 = (let L_sum = scast var1 + scast var2 in s16_saturate_s32 L_sum)"

definition s16_sub_s16_s16_sat :: "s16 \<Rightarrow> s16 \<Rightarrow> s16 fx" where
  "s16_sub_s16_s16_sat var1 var2 = (let L_diff = scast var1 - scast var2 in s16_saturate_s32 L_diff)"

definition s32_add_s32_s32 :: "s32 \<Rightarrow> s32 \<Rightarrow> s32" where
  "s32_add_s32_s32 var1 var2 = var1 + var2"

definition s32_sub_s32_s32 :: "s32 \<Rightarrow> s32 \<Rightarrow> s32" where
  "s32_sub_s32_s32 var1 var2 = var1 - var2"

definition s32_add_s32_s32_sat :: "s32 \<Rightarrow> s32 \<Rightarrow> s32 fx" where
  "s32_add_s32_s32_sat var1 var2 = (let dSum = scast var1 + scast var2 in s32_saturate_s64 dSum)"

definition s32_sub_s32_s32_sat :: "s32 \<Rightarrow> s32 \<Rightarrow> s32 fx" where
  "s32_sub_s32_s32_sat var1 var2 = (let dSum = scast var1 - scast var2 in s32_saturate_s64 dSum)"

definition s64_add_s32_s32 :: "s32 \<Rightarrow> s32 \<Rightarrow> s64" where
  "s64_add_s32_s32 var1 var2 = scast var1 + scast var2"

definition s64_add_s32_u32 :: "s32 \<Rightarrow> u32 \<Rightarrow> s64" where
  "s64_add_s32_u32 var1 var2 = scast var1 + ucast var2"

definition s64_add_s64_s64 :: "s64 \<Rightarrow> s64 \<Rightarrow> s64" where
  "s64_add_s64_s64 var1 var2 = var1 + var2"

definition s64_add_s64_s32 :: "s64 \<Rightarrow> s32 \<Rightarrow> s64" where
  "s64_add_s64_s32 var1 var2 = var1 + scast var2"

definition s64_sub_s64_s64 :: "s64 \<Rightarrow> s64 \<Rightarrow> s64" where
  "s64_sub_s64_s64 var1 var2 = var1 - var2"

definition s16_min_s16_s16 :: "s16 \<Rightarrow> s16 \<Rightarrow> s16" where
  "s16_min_s16_s16 var1 var2 = (if var1 <s var2 then var1 else var2)"

definition s16_max_s16_s16 :: "s16 \<Rightarrow> s16 \<Rightarrow> s16" where
  "s16_max_s16_s16 var1 var2 = (if var2 <s var1 then var1 else var2)"

definition s32_min_s32_s32 :: "s32 \<Rightarrow> s32 \<Rightarrow> s32" where
  "s32_min_s32_s32 var1 var2 = (if var1 <s var2 then var1 else var2)"

definition s32_max_s32_s32 :: "s32 \<Rightarrow> s32 \<Rightarrow> s32" where
  "s32_max_s32_s32 var1 var2 = (if var2 <s var1 then var1 else var2)"

subsection \<open>Bits and halves\<close>

definition s16_and_s16_s16 :: "s16 \<Rightarrow> s16 \<Rightarrow> s16" where
  "s16_and_s16_s16 var1 var2 = var1 AND var2"

definition s32_and_s32_s32 :: "s32 \<Rightarrow> s32 \<Rightarrow> s32" where
  "s32_and_s32_s32 var1 var2 = var1 AND var2"

definition s16_complement_s16 :: "s16 \<Rightarrow> s16" where
  "s16_complement_s16 var1 = NOT var1"

definition s16_extract_s32_h :: "s32 \<Rightarrow> s16" where
  "s16_extract_s32_h var1 = ucast (0xFFFF AND signed_drop_bit 16 var1)"

definition s16_extract_s32_l :: "s32 \<Rightarrow> s16" where
  "s16_extract_s32_l var1 = ucast (0xFFFF AND var1)"

definition u16_extract_s32_l :: "s32 \<Rightarrow> u16" where
  "u16_extract_s32_l var1 = ucast (0xFFFF AND var1)"

definition s32_extract_s64_l :: "s64 \<Rightarrow> s32" where
  "s32_extract_s64_l var1 = ucast (0xFFFFFFFF AND var1)"

definition u32_extract_s64_l :: "s64 \<Rightarrow> u32" where
  "u32_extract_s64_l var1 = ucast (0xFFFFFFFF AND var1)"

definition s16_extract_s64_h :: "s64 \<Rightarrow> s16" where
  "s16_extract_s64_h var1 = ucast (0xFFFF AND signed_drop_bit 16 var1)"

definition s16_extract_s64_h_rnd :: "s64 \<Rightarrow> s16" where
  "s16_extract_s64_h_rnd var1 = (let var1 = var1 + 0x8000 in ucast (0xFFFF AND signed_drop_bit 16 var1))"

definition s16_extract_s64_l :: "s64 \<Rightarrow> s16" where
  "s16_extract_s64_l var1 = ucast (0xFFFF AND var1)"

definition s16_extract_s64_h_sat :: "s64 \<Rightarrow> s16 fx" where
  "s16_extract_s64_h_sat var1 = do { x \<leftarrow> s32_saturate_s64 var1; ret (s16_extract_s32_h x) }"

definition s32_deposit_s16_l :: "s16 \<Rightarrow> s32" where
  "s32_deposit_s16_l var1 = scast var1"

definition s32_deposit_s16_h :: "s16 \<Rightarrow> s32" where
  "s32_deposit_s16_h var1 = push_bit 16 (scast var1)"

definition s16_round_s32_sat :: "s32 \<Rightarrow> s16 fx" where
  "s16_round_s32_sat var1 = do { L_Prod \<leftarrow> s32_add_s32_s32_sat var1 0x8000; ret (s16_extract_s32_h L_Prod) }"

subsection \<open>Shifts\<close>

text \<open>\<open>var1 << shift\<close> for a positive shift and \<open>var1 >> -shift\<close> otherwise.\<close>

definition s64_shl_s64 :: "s64 \<Rightarrow> s16 \<Rightarrow> s64 option" where
  "s64_shl_s64 var1 shift =
    (if 0 <s shift then (if sint shift < 64 then Some (push_bit (nat (sint shift)) var1) else None)
     else (if - sint shift < 64 then Some (signed_drop_bit (nat (- sint shift)) var1) else None))"

text \<open>The loop that shifts left bit by bit until the sign changes; the first argument is the number of rounds left.\<close>

primrec shl_loop :: "nat \<Rightarrow> s32 \<Rightarrow> s32 \<Rightarrow> s32 \<times> bool" where
  "shl_loop 0 L_Mask L_Out = (L_Out, False)"
| "shl_loop (Suc n) L_Mask L_Out =
    (let L_Out = push_bit 1 (L_Out AND MAX_32) in
     if (L_Mask XOR L_Out) AND MIN_32 \<noteq> 0 then (L_Out, True) else shl_loop n L_Mask L_Out)"

lemma neg_shift_pos: "\<not> shift \<le>s - 31 \<Longrightarrow> shift <s 0 \<Longrightarrow> \<not> - shift <s (0 :: s16)"
proof -
  assume "\<not> shift \<le>s - 31" "shift <s 0"
  then have r: "- 31 < sint shift" "sint shift < 0" by (simp_all add: word_sless_alt word_sle_eq)
  then have "sint (- shift) = - sint shift" by (simp add: sint_word_ariths signed_take_bit_int_eq_self)
  then show ?thesis using r by (simp add: word_sless_alt)
qed

text \<open>The two directions call each other; the shift they pass on is positive.\<close>

function (sequential) s32_shl_s32_sat :: "s32 \<Rightarrow> s16 \<Rightarrow> s32 fx" and s32_shr_s32_sat :: "s32 \<Rightarrow> s16 \<Rightarrow> s32 fx" where
  "s32_shl_s32_sat var1 shift =
    (if shift = 0 \<or> var1 = 0 then ret var1
     else if shift <s 0 then
       (if shift \<le>s - 31 then (if 0 <s var1 then ret 0 else ret 0xFFFFFFFF)
        else s32_shr_s32_sat var1 (- shift))
     else
       (let (L_Out, iOverflow) =
          (if 31 \<le>s shift then (0, True)
           else shl_loop (unat shift) (if var1 <s 0 then MIN_32 else 0) var1) in
        if iOverflow then do { overflowed; ret (if 0 <s var1 then MAX_32 else MIN_32) } else ret L_Out))"
| "s32_shr_s32_sat var1 shift =
    (if shift = 0 \<or> var1 = 0 then ret var1
     else if shift <s 0 then
       (if shift \<le>s - 31 then do { overflowed; ret (if 0 <s var1 then MAX_32 else MIN_32) }
        else s32_shl_s32_sat var1 (- shift))
     else
       (if 31 \<le>s shift then (if 0 <s var1 then ret 0 else ret 0xFFFFFFFF)
        else
          (let L_Mask = (if var1 <s 0 then push_bit (32 - unat shift) (NOT 0) else 0) in
           ret (L_Mask OR signed_drop_bit (unat shift) var1))))"
  by pat_completeness auto

termination
  by (relation "measure (\<lambda>x. case x of Inl (_, shift) \<Rightarrow> if shift <s 0 then 1 else 0 | Inr (_, shift) \<Rightarrow> if shift <s 0 then 1 else 0)")
     (auto simp: neg_shift_pos)

declare s32_shl_s32_sat.simps [simp del] s32_shr_s32_sat.simps [simp del]

definition s32_shl_s32_rnd_sat :: "s32 \<Rightarrow> s16 \<Rightarrow> s32 fx" where
  "s32_shl_s32_rnd_sat var1 shift =
    (if shift <s - 31 then ret 0
     else if shift <s 0 then do {
       x \<leftarrow> s32_shl_s32_sat var1 (shift + 1);
       let L_rnd = x AND 1;
       y \<leftarrow> s32_shl_s32_sat var1 shift;
       s32_add_s32_s32_sat y L_rnd
     }
     else s32_shl_s32_sat var1 shift)"

lemma neg_shift_pos_15: "\<not> shift \<le>s - 15 \<Longrightarrow> shift <s 0 \<Longrightarrow> \<not> - shift <s (0 :: s16)"
  by (rule neg_shift_pos) (auto simp: word_sless_alt word_sle_eq)

function (sequential) s16_shl_s16_sat :: "s16 \<Rightarrow> s16 \<Rightarrow> s16 fx" and s16_shr_s16_sat :: "s16 \<Rightarrow> s16 \<Rightarrow> s16 fx" where
  "s16_shl_s16_sat var1 shift =
    (if shift = 0 \<or> var1 = 0 then ret var1
     else if shift <s 0 then
       (if shift \<le>s - 15 then (if var1 <s 0 then ret 0xFFFF else ret 0)
        else s16_shr_s16_sat var1 (- shift))
     else if 15 \<le>s shift then do { overflowed; ret (if 0 <s var1 then MAX_16 else MIN_16) }
     else
       (let L_Out = scast var1 * push_bit (unat shift) 1 :: s32; swOut = ucast L_Out :: s16 in
        if scast swOut \<noteq> L_Out then do { overflowed; ret (if 0 <s var1 then MAX_16 else MIN_16) } else ret swOut))"
| "s16_shr_s16_sat var1 shift =
    (if shift = 0 \<or> var1 = 0 then ret var1
     else if shift <s 0 then
       (if shift \<le>s - 15 then do { overflowed; ret (if 0 <s var1 then MAX_16 else MIN_16) }
        else s16_shl_s16_sat var1 (- shift))
     else
       (if 15 \<le>s shift then (if var1 <s 0 then ret 0xFFFF else ret 0)
        else
          (let swMask = (if var1 <s 0 then ucast (push_bit (16 - unat shift) (NOT 0 :: s32)) else 0) in
           ret (swMask OR signed_drop_bit (unat shift) var1))))"
  by pat_completeness auto

termination
  by (relation "measure (\<lambda>x. case x of Inl (_, shift) \<Rightarrow> if shift <s 0 then 1 else 0 | Inr (_, shift) \<Rightarrow> if shift <s 0 then 1 else 0)")
     (auto simp: neg_shift_pos_15)

declare s16_shl_s16_sat.simps [simp del] s16_shr_s16_sat.simps [simp del]

definition s16_shl_s16_sat_rnd :: "s16 \<Rightarrow> s16 \<Rightarrow> s16 fx" where
  "s16_shl_s16_sat_rnd var1 var2 =
    (if 0 \<le>s var2 then s16_shl_s16_sat var1 var2
     else if var2 <s - 15 then ret 0
     else do {
       x \<leftarrow> s16_shl_s16_sat var1 (var2 + 1);
       let swRnd = x AND 1;
       y \<leftarrow> s16_shl_s16_sat var1 var2;
       s16_add_s16_s16_sat y swRnd
     })"

text \<open>
  The shifts without saturation. The call of the other direction passes the negated shift, which for the smallest 16-bit number is that number
  again: the recursion does not end. The first argument tells the direction.
\<close>

partial_function (option) shift_s32 :: "bool \<Rightarrow> s32 \<Rightarrow> s16 \<Rightarrow> s32 option" where
  "shift_s32 right var1 shift =
    (if shift = 0 \<or> var1 = 0 then Some var1
     else if shift <s 0 then shift_s32 (\<not> right) var1 (- shift)
     else if 32 \<le>s shift then None
     else if right then
       (let L_Mask = (if var1 <s 0 then push_bit (32 - unat shift) (NOT 0) else 0) in
        Some (L_Mask OR signed_drop_bit (unat shift) var1))
     else Some (push_bit (unat shift) var1))"

definition s32_shl_s32 :: "s32 \<Rightarrow> s16 \<Rightarrow> s32 option" where
  "s32_shl_s32 = shift_s32 False"

definition s32_shr_s32 :: "s32 \<Rightarrow> s16 \<Rightarrow> s32 option" where
  "s32_shr_s32 = shift_s32 True"

partial_function (option) shift_s16 :: "bool \<Rightarrow> s16 \<Rightarrow> s16 \<Rightarrow> s16 option" where
  "shift_s16 right var1 shift =
    (if shift = 0 \<or> var1 = 0 then Some var1
     else if shift <s 0 then shift_s16 (\<not> right) var1 (- shift)
     else if right then
       (if (if var1 <s 0 then 16 else 31) <s shift then None
        else
          (let swMask = (if var1 <s 0 then ucast (push_bit (16 - unat shift) (NOT 0 :: s32)) else 0) in
           Some (swMask OR ucast (signed_drop_bit (unat shift) (scast var1 :: s32)))))
     else if 32 \<le>s shift then None
     else Some (ucast (scast var1 * push_bit (unat shift) 1 :: s32)))"

definition s16_shl_s16 :: "s16 \<Rightarrow> s16 \<Rightarrow> s16 option" where
  "s16_shl_s16 = shift_s16 False"

definition s16_shr_s16 :: "s16 \<Rightarrow> s16 \<Rightarrow> s16 option" where
  "s16_shr_s16 = shift_s16 True"

subsection \<open>Products\<close>

definition s32_mult_s16_s16 :: "s16 \<Rightarrow> s16 \<Rightarrow> s32" where
  "s32_mult_s16_s16 var1 var2 = scast var1 * scast var2"

definition s32_mult_s16_u16 :: "s16 \<Rightarrow> u16 \<Rightarrow> s32" where
  "s32_mult_s16_u16 var1 var2 = scast var1 * ucast var2"

definition u32_mult_u16_u16 :: "u16 \<Rightarrow> u16 \<Rightarrow> u32" where
  "u32_mult_u16_u16 var1 var2 = ucast var1 * ucast var2"

definition s64_mult_s32_s32 :: "s32 \<Rightarrow> s32 \<Rightarrow> s64" where
  "s64_mult_s32_s32 var1 var2 = scast var1 * scast var2"

definition s64_mult_s32_u32 :: "s32 \<Rightarrow> u32 \<Rightarrow> s64" where
  "s64_mult_s32_u32 var1 var2 = scast var1 * ucast var2"

definition s64_mult_s32_s16_shift :: "s32 \<Rightarrow> s16 \<Rightarrow> s16 \<Rightarrow> s64 option" where
  "s64_mult_s32_s16_shift var1 var2 shift = s64_shl_s64 (s64_mult_s32_s32 var1 (scast var2)) (shift - 16)"

definition s64_mult_s32_u16_shift :: "s32 \<Rightarrow> u16 \<Rightarrow> s16 \<Rightarrow> s64 option" where
  "s64_mult_s32_u16_shift var1 var2 shift = s64_shl_s64 (s64_mult_s32_s32 var1 (ucast var2)) (shift - 16)"

definition s64_mult_u32_s16_shift :: "u32 \<Rightarrow> s16 \<Rightarrow> s16 \<Rightarrow> s64 option" where
  "s64_mult_u32_s16_shift var1 var2 shift = s64_shl_s64 (s64_mult_s32_u32 (scast var2) var1) (shift - 16)"

definition s64_mult_s32_u32_shift :: "s32 \<Rightarrow> u32 \<Rightarrow> s16 \<Rightarrow> s64 option" where
  "s64_mult_s32_u32_shift var1 var2 shift = s64_shl_s64 (s64_mult_s32_u32 var1 var2) (shift - 32)"

definition s64_mult_s32_s32_shift :: "s32 \<Rightarrow> s32 \<Rightarrow> s16 \<Rightarrow> s64 option" where
  "s64_mult_s32_s32_shift var1 var2 shift = s64_shl_s64 (s64_mult_s32_s32 var1 var2) (shift - 32)"

definition s64_mult_s16_s16_shift :: "s16 \<Rightarrow> s16 \<Rightarrow> s16 \<Rightarrow> s64 option" where
  "s64_mult_s16_s16_shift var1 var2 shift = s64_shl_s64 (scast (scast var1 * scast var2 :: s32)) shift"

definition s64_mult_s16_u16_shift :: "s16 \<Rightarrow> u16 \<Rightarrow> s16 \<Rightarrow> s64 option" where
  "s64_mult_s16_u16_shift var1 var2 shift = s64_shl_s64 (scast (scast var1 * ucast var2 :: s32)) shift"

definition s64_mult_u16_u16_shift :: "u16 \<Rightarrow> u16 \<Rightarrow> s16 \<Rightarrow> s64 option" where
  "s64_mult_u16_u16_shift var1 var2 shift = s64_shl_s64 (ucast (ucast var1 * ucast var2 :: u32)) shift"

text \<open>Products of a 32-bit number put together from those of its halves.\<close>

definition s64_mult_s32_s16 :: "s32 \<Rightarrow> s16 \<Rightarrow> s64 option" where
  "s64_mult_s32_s16 var1 var2 = do {
     let inL32LW = s16_extract_s32_l var1;
     let inL32MW = s16_extract_s32_h var1;
     resultL64 \<leftarrow> s64_shl_s64 (scast (s32_mult_s16_s16 var2 inL32MW)) 16;
     let tempProdL32 = s32_mult_s16_u16 var2 inL32LW;
     Some (s64_add_s64_s64 resultL64 (scast tempProdL32))
   }"

definition s64_mult_u32_s16 :: "u32 \<Rightarrow> s16 \<Rightarrow> s64 option" where
  "s64_mult_u32_s16 var1 var2 = do {
     let inL32LW = s16_extract_s32_l var1;
     let inL32MW = s16_extract_s32_h var1;
     resultL64 \<leftarrow> s64_shl_s64 (scast (s32_mult_s16_u16 var2 inL32MW)) 16;
     let tempProdL32 = s32_mult_s16_u16 var2 inL32LW;
     Some (s64_add_s64_s64 resultL64 (scast tempProdL32))
   }"

definition s64_mult_s32_u16 :: "s32 \<Rightarrow> u16 \<Rightarrow> s64 option" where
  "s64_mult_s32_u16 var1 var2 = do {
     let inL32LW = s16_extract_s32_l var1;
     let inL32MW = s16_extract_s32_h var1;
     let tempProdUL32 = u32_mult_u16_u16 var2 inL32LW;
     resultL64 \<leftarrow> s64_shl_s64 (scast (s32_mult_s16_u16 inL32MW var2)) 16;
     Some (s64_add_s64_s64 resultL64 (ucast tempProdUL32))
   }"

definition s64_mult_lp_s32_u32_shift :: "s32 \<Rightarrow> u32 \<Rightarrow> s16 \<Rightarrow> s64 option" where
  "s64_mult_lp_s32_u32_shift var1 var2 shift = do {
     let in1LW = s16_extract_s32_l var1;
     let in2LW = s16_extract_s32_l var2;
     let in1MW = s16_extract_s32_h var1;
     let uin2MW = s16_extract_s32_h var2;
     let temp1ProdL32 = s32_mult_s16_u16 in1MW in2LW;
     let temp2ProdL32 = u32_mult_u16_u16 uin2MW in1LW;
     let tempSumL64 = s64_add_s32_u32 temp1ProdL32 temp2ProdL32;
     tempSumL64 \<leftarrow> s64_shl_s64 tempSumL64 shift;
     let temp2ProdL32 = s32_mult_s16_u16 in1MW uin2MW;
     tempSumL64 \<leftarrow> s64_shl_s64 tempSumL64 (- 16);
     high \<leftarrow> s64_shl_s64 (scast temp2ProdL32) shift;
     Some (s64_add_s64_s64 tempSumL64 high)
   }"

definition s64_mult_lp_s32_s32_shift :: "s32 \<Rightarrow> s32 \<Rightarrow> s16 \<Rightarrow> s64 option" where
  "s64_mult_lp_s32_s32_shift var1 var2 shift = do {
     let in1LW = s16_extract_s32_l var1;
     let in2LW = s16_extract_s32_l var2;
     let in1MW = s16_extract_s32_h var1;
     let in2MW = s16_extract_s32_h var2;
     let temp1ProdL32 = s32_mult_s16_u16 in1MW in2LW;
     let temp2ProdL32 = s32_mult_s16_u16 in2MW in1LW;
     let tempSumL64 = s64_add_s32_s32 temp1ProdL32 temp2ProdL32;
     tempSumL64 \<leftarrow> s64_shl_s64 tempSumL64 shift;
     let temp2ProdL32 = s32_mult_s16_s16 in1MW in2MW;
     tempSumL64 \<leftarrow> s64_shl_s64 tempSumL64 (- 16);
     high \<leftarrow> s64_shl_s64 (scast temp2ProdL32) shift;
     Some (s64_add_s64_s64 tempSumL64 high)
   }"

definition s32_mult_s16_s16_shift_sat :: "s16 \<Rightarrow> s16 \<Rightarrow> s32 fx" where
  "s32_mult_s16_s16_shift_sat var1 var2 =
    (if var1 = MIN_16 \<and> var2 = MIN_16 then do { overflowed; ret MAX_32 }
     else ret (push_bit 1 (scast var1 * scast var2)))"

text \<open>The shift inside is by a constant; its \<open>None\<close> is passed on.\<close>

definition s32_mult_s32_s32_rnd_sat :: "s32 \<Rightarrow> s32 \<Rightarrow> s32 option fx" where
  "s32_mult_s32_s32_rnd_sat var1 var2 =
    (let in1LW = s16_extract_s32_l var1;
         in2LW = s16_extract_s32_l var2;
         in2MW = s16_extract_s32_h var2;
         in1MW = s16_extract_s32_h var1;
         prodUL32 = u32_mult_u16_u16 in1LW in2LW;
         temp1ProdL32 = s32_mult_s16_u16 in1MW in2LW;
         temp2ProdL32 = s32_mult_s16_u16 in2MW in1LW;
         lProdL32 = scast (s16_extract_s32_h prodUL32) :: u32;
         tempSumL64 = s64_add_s32_s32 temp1ProdL32 temp2ProdL32;
         tempSumL64 = s64_add_s64_s32 tempSumL64 lProdL32;
         tempSumL64 = s64_add_s64_s32 tempSumL64 0x8000;
         temp2ProdL32 = s32_mult_s16_s16 in1MW in2MW
     in case s64_shl_s64 tempSumL64 (- 16) of
          None \<Rightarrow> ret None
        | Some tempSumL64 \<Rightarrow> do { r \<leftarrow> s32_saturate_s64 (s64_add_s64_s32 tempSumL64 temp2ProdL32); ret (Some r) })"

definition s32_mult_s32_s16_rnd_sat :: "s32 \<Rightarrow> s16 \<Rightarrow> s32 fx" where
  "s32_mult_s32_s16_rnd_sat var1 var2 = do {
     let in1LW = s16_extract_s32_l var1;
     let in1MW = s16_extract_s32_h var1;
     let temp1ProdL32 = s32_mult_s16_u16 var2 in1LW;
     temp1ProdL32 \<leftarrow> s32_add_s32_s32_sat temp1ProdL32 0x4000;
     temp1ProdL32 \<leftarrow> s32_shl_s32_sat temp1ProdL32 (- 15);
     temp2ProdL32 \<leftarrow> s32_mult_s16_s16_shift_sat var2 in1MW;
     s32_add_s32_s32_sat temp1ProdL32 temp2ProdL32
   }"

subsection \<open>Multiply and accumulate\<close>

definition s32_mac_s32_s16_s16_sat :: "s32 \<Rightarrow> s16 \<Rightarrow> s16 \<Rightarrow> s32 fx" where
  "s32_mac_s32_s16_s16_sat var3 var1 var2 = (let L_product = scast var1 * scast var2 in s32_add_s32_s32_sat var3 L_product)"

definition s32_msu_s32_s16_s16_sat :: "s32 \<Rightarrow> s16 \<Rightarrow> s16 \<Rightarrow> s32 fx" where
  "s32_msu_s32_s16_s16_sat var3 var1 var2 =
    (let L_product = scast var1 * scast var2 in
     if L_product = LONGWORD_HALF then s32_saturate_s64 (scast var3 - scast MIN_32)
     else (let L_product = push_bit 1 L_product in s32_sub_s32_s32_sat var3 L_product))"

definition s16_mac_s32_s16_s16_sat_rnd :: "s32 \<Rightarrow> s16 \<Rightarrow> s16 \<Rightarrow> s16 fx" where
  "s16_mac_s32_s16_s16_sat_rnd var3 var1 var2 = do { x \<leftarrow> s32_mac_s32_s16_s16_sat var3 var1 var2; s16_round_s32_sat x }"

definition s16_msu_s32_s16_s16_sat_rnd :: "s32 \<Rightarrow> s16 \<Rightarrow> s16 \<Rightarrow> s16 fx" where
  "s16_msu_s32_s16_s16_sat_rnd var3 var1 var2 = do { x \<leftarrow> s32_msu_s32_s16_s16_sat var3 var1 var2; s16_round_s32_sat x }"

definition s64_mac_s64_s16_s16_shift :: "s64 \<Rightarrow> s16 \<Rightarrow> s16 \<Rightarrow> s16 \<Rightarrow> s64 option" where
  "s64_mac_s64_s16_s16_shift var3 var1 var2 shift = do {
     let productL32 = (scast var1 * scast var2 :: s32);
     resultL64 \<leftarrow> s64_shl_s64 (scast productL32) shift;
     Some (resultL64 + var3)
   }"

definition s64_mac_s64_s16_s16_shift_nosat :: "s64 \<Rightarrow> s16 \<Rightarrow> s16 \<Rightarrow> s16 \<Rightarrow> s64 option" where
  "s64_mac_s64_s16_s16_shift_nosat var3 var1 var2 shift = do {
     let productL32 = (scast var1 * scast var2 :: s32);
     resultL64 \<leftarrow> s64_shl_s64 (scast productL32) shift;
     Some (resultL64 + var3)
   }"

definition s64_mac_s64_s16_s16_shift_sat :: "s64 \<Rightarrow> s16 \<Rightarrow> s16 \<Rightarrow> s16 \<Rightarrow> s64 option fx" where
  "s64_mac_s64_s16_s16_shift_sat var3 var1 var2 shift =
    (case s64_mac_s64_s16_s16_shift var3 var1 var2 shift of
       None \<Rightarrow> ret None
     | Some resultL64 \<Rightarrow> do { resultL32 \<leftarrow> s32_saturate_s64 resultL64; ret (Some (scast resultL32)) })"

definition s64_mac_s64_s16_s16_s1 :: "s64 \<Rightarrow> s16 \<Rightarrow> s16 \<Rightarrow> s64 option" where
  "s64_mac_s64_s16_s16_s1 var3 var1 var2 = s64_mac_s64_s16_s16_shift var3 var1 var2 1"

definition s32_mls_s32_s16_sat :: "s32 \<Rightarrow> s16 \<Rightarrow> s32 fx" where
  "s32_mls_s32_s16_sat Lv v = do {
     let Temp = Lv AND 0xFFFF;
     let Temp = Temp * scast v;
     Temp \<leftarrow> s32_shr_s32_sat Temp 15;
     s32_mac_s32_s16_s16_sat Temp v (s16_extract_s32_h Lv)
   }"

subsection \<open>Normalisation\<close>

partial_function (option) norm_pos :: "s32 \<Rightarrow> s16 \<Rightarrow> s16 option" where
  "norm_pos var1 swShiftCnt =
    (if var1 \<le>s MAX_32 \<and> LONGWORD_HALF \<le>s var1 then Some swShiftCnt else norm_pos (push_bit 1 var1) (swShiftCnt + 1))"

partial_function (option) norm_neg :: "s32 \<Rightarrow> s16 \<Rightarrow> s16 option" where
  "norm_neg var1 swShiftCnt =
    (if MIN_32 \<le>s var1 \<and> var1 <s 0xC0000000 then Some swShiftCnt else norm_neg (push_bit 1 var1) (swShiftCnt + 1))"

definition s16_norm_s32 :: "s32 \<Rightarrow> s16 option" where
  "s16_norm_s32 var1 =
    (if var1 \<noteq> 0 then (if var1 AND MIN_32 = 0 then norm_pos var1 0 else norm_neg var1 0) else Some 0)"

definition s16_norm_s16 :: "s16 \<Rightarrow> s16 option" where
  "s16_norm_s16 var1 = s16_norm_s32 (s32_deposit_s16_h var1)"

partial_function (option) norm_up :: "s64 \<Rightarrow> s16 \<Rightarrow> (s64 \<times> s16) option" where
  "norm_up var1 shift =
    (if scast MIN_32 <s var1 \<and> var1 <s scast MAX_32 then norm_up (push_bit 1 var1) (shift + 1) else Some (var1, shift))"

partial_function (option) norm_down :: "s64 \<Rightarrow> s16 \<Rightarrow> (s64 \<times> s16) option" where
  "norm_down var1 shift =
    (if var1 <s scast MIN_32 \<or> scast MAX_32 <s var1 then norm_down (signed_drop_bit 1 var1) (shift - 1) else Some (var1, shift))"

definition s16_norm_s64 :: "s64 \<Rightarrow> s16 option" where
  "s16_norm_s64 var1 =
    (if var1 \<noteq> 0 then do { (var1, shift) \<leftarrow> norm_up var1 0; (var1, shift) \<leftarrow> norm_down var1 shift; Some shift } else Some 0)"

end
