(* ===== verification/Basic_Op_Proofs.thy ===== *)
theory Basic_Op_Proofs
  imports Basic_Op
begin

text \<open>
  Correctness of the fixed-point operators against integers: the result of a saturating operator is the exact result, cut to the range of
  its type, and the flag is raised when something was cut off.
\<close>

subsection \<open>Words as integers\<close>

named_theorems fx_runs \<open>results of the operators that may saturate\<close>

text \<open>A number cut to the range of \<open>n\<close> bits and a sign, and whether that changes it.\<close>

definition sat :: "nat \<Rightarrow> int \<Rightarrow> int" where
  "sat n k = max (- (2 ^ n)) (min (2 ^ n - 1) k)"

definition out :: "nat \<Rightarrow> int \<Rightarrow> bool" where
  "out n k \<longleftrightarrow> k < - (2 ^ n) \<or> 2 ^ n \<le> k"

definition flag :: "bool \<Rightarrow> ovf \<Rightarrow> ovf" where
  "flag b s = (if b then s\<lparr>giOverflow := 1\<rparr> else s)"

lemma flag_simps [simp]: "flag False s = s" "flag b (flag c s) = flag (b \<or> c) s" "flag True s = s\<lparr>giOverflow := 1\<rparr>"
  by (simp_all add: flag_def)

lemma sat_id: "\<not> out n k \<Longrightarrow> sat n k = k"
  by (auto simp: sat_def out_def)

lemma sat_out: "out n k \<Longrightarrow> sat n k = (if 0 \<le> k then 2 ^ n - 1 else - (2 ^ n))"
proof -
  define m where "m = (2 :: int) ^ n"
  have "0 < m" by (simp add: m_def)
  then show "out n k \<Longrightarrow> ?thesis" by (auto simp: sat_def out_def max_def min_def simp flip: m_def)
qed

lemma sat_hi: "2 ^ n \<le> k \<Longrightarrow> sat n k = 2 ^ n - 1"
  by (simp add: sat_def max_def min_def)

lemma sat_lo: "k \<le> - (2 ^ n) \<Longrightarrow> sat n k = - (2 ^ n)"
proof -
  assume "k \<le> - (2 ^ n)"
  moreover have "(0 :: int) < 2 ^ n" by simp
  ultimately show ?thesis unfolding sat_def by linarith
qed

lemma sat_range: "- (2 ^ n) \<le> sat n k" "sat n k < 2 ^ n"
  by (simp_all add: sat_def max_def min_def)

lemma sint_range16: "- 32768 \<le> sint (w :: s16)" "sint w \<le> 32767"
  using sint_ge [of w] sint_lt [of w] by simp_all

lemma sint_range32: "- 2147483648 \<le> sint (w :: s32)" "sint w \<le> 2147483647"
  using sint_ge [of w] sint_lt [of w] by simp_all

lemma sint_range64: "- 9223372036854775808 \<le> sint (w :: s64)" "sint w \<le> 9223372036854775807"
  using sint_ge [of w] sint_lt [of w] by simp_all

lemma uint_range16: "0 \<le> uint (w :: u16)" "uint w \<le> 65535"
  using unsigned_less [of w, where ?'a = int] by simp_all

lemma uint_range32: "0 \<le> uint (w :: u32)" "uint w \<le> 4294967295"
  using unsigned_less [of w, where ?'a = int] by simp_all

lemmas int_ranges = sint_range16 sint_range32 sint_range64 uint_range16 uint_range32

lemma sint_casts [simp]:
  "sint (scast (a :: s16) :: s32) = sint a" "sint (scast (b :: s32) :: s64) = sint b"
  by (simp_all add: sint_up_scast is_up source_size_def target_size_def word_size)

lemma sint_nonneg: "0 \<le> k \<Longrightarrow> k < 2 ^ n \<Longrightarrow> signed_take_bit n k = (k :: int)"
  by (intro signed_take_bit_int_eq_self) (simp_all add: order_trans [of _ 0])

lemma sint_ucasts [simp]:
  "sint (ucast (a :: u16) :: s32) = uint a" "sint (ucast (b :: u32) :: s64) = uint b"
proof -
  have "signed_take_bit 31 (uint a) = uint a" "signed_take_bit 63 (uint b) = uint b"
    using uint_range16 [of a] uint_range32 [of b] by (simp_all add: sint_nonneg)
  then show "sint (ucast a :: s32) = uint a" "sint (ucast b :: s64) = uint b"
    using uint_range16 [of a] uint_range32 [of b] by (simp_all add: sint_uint unsigned_ucast_eq take_bit_int_eq_self)
qed

lemma sint_of_int16: "- 32768 \<le> k \<Longrightarrow> k \<le> 32767 \<Longrightarrow> sint (of_int k :: s16) = k"
  by (simp add: sint_sbintrunc' signed_take_bit_int_eq_self)

lemma sint_of_int32: "- 2147483648 \<le> k \<Longrightarrow> k \<le> 2147483647 \<Longrightarrow> sint (of_int k :: s32) = k"
  by (simp add: sint_sbintrunc' signed_take_bit_int_eq_self)

lemma sint_of_int64: "- 9223372036854775808 \<le> k \<Longrightarrow> k \<le> 9223372036854775807 \<Longrightarrow> sint (of_int k :: s64) = k"
  by (simp add: sint_sbintrunc' signed_take_bit_int_eq_self)

lemma sint_sat [simp]: "sint (of_int (sat 15 k) :: s16) = sat 15 k" "sint (of_int (sat 31 k) :: s32) = sat 31 k"
  using sat_range [of 15 k] sat_range [of 31 k] by (simp_all add: sint_of_int16 sint_of_int32)

lemma ucast_of_sint: "(ucast (a :: s32) :: s16) = of_int (sint a)" "(ucast (b :: s64) :: s32) = of_int (sint b)"
  by (transfer, simp add: take_bit_signed_take_bit)+

lemma sint_arith32:
  "- 2147483648 \<le> sint (a :: s32) + sint b \<Longrightarrow> sint a + sint b \<le> 2147483647 \<Longrightarrow> sint (a + b) = sint a + sint b"
  "- 2147483648 \<le> sint a - sint b \<Longrightarrow> sint a - sint b \<le> 2147483647 \<Longrightarrow> sint (a - b) = sint a - sint b"
  "- 2147483648 \<le> sint a * sint b \<Longrightarrow> sint a * sint b \<le> 2147483647 \<Longrightarrow> sint (a * b) = sint a * sint b"
  by (simp_all add: sint_word_ariths signed_take_bit_int_eq_self)

lemma sint_arith64:
  "- 9223372036854775808 \<le> sint (a :: s64) + sint b \<Longrightarrow> sint a + sint b \<le> 9223372036854775807 \<Longrightarrow> sint (a + b) = sint a + sint b"
  "- 9223372036854775808 \<le> sint a - sint b \<Longrightarrow> sint a - sint b \<le> 9223372036854775807 \<Longrightarrow> sint (a - b) = sint a - sint b"
  "- 9223372036854775808 \<le> sint a * sint b \<Longrightarrow> sint a * sint b \<le> 9223372036854775807 \<Longrightarrow> sint (a * b) = sint a * sint b"
  by (simp_all add: sint_word_ariths signed_take_bit_int_eq_self)

subsection \<open>Saturation, sums and differences\<close>

lemma run_overflowed [simp]: "run_state overflowed s = ((), flag True s)"
  by (simp add: overflowed_def State_Monad.update_def State_Monad.get_def State_Monad.set_def)

lemma s16_saturate_run [fx_runs]: "run_state (s16_saturate_s32 v) s = (of_int (sat 15 (sint v)), flag (out 15 (sint v)) s)"
  by (auto simp: s16_saturate_s32_def word_sless_alt sat_def out_def ucast_of_sint)

lemma s32_saturate_run [fx_runs]: "run_state (s32_saturate_s64 v) s = (of_int (sat 31 (sint v)), flag (out 31 (sint v)) s)"
  by (auto simp: s32_saturate_s64_def word_sless_alt sat_def out_def ucast_of_sint)

lemma s16_add_run [fx_runs]: "run_state (s16_add_s16_s16_sat a b) s = (of_int (sat 15 (sint a + sint b)), flag (out 15 (sint a + sint b)) s)"
  using int_ranges(1,2) [of a] int_ranges(1,2) [of b] by (simp add: s16_add_s16_s16_sat_def fx_runs sint_arith32)

lemma s16_sub_run [fx_runs]: "run_state (s16_sub_s16_s16_sat a b) s = (of_int (sat 15 (sint a - sint b)), flag (out 15 (sint a - sint b)) s)"
  using int_ranges(1,2) [of a] int_ranges(1,2) [of b] by (simp add: s16_sub_s16_s16_sat_def fx_runs sint_arith32)

lemma s32_add_run [fx_runs]: "run_state (s32_add_s32_s32_sat a b) s = (of_int (sat 31 (sint a + sint b)), flag (out 31 (sint a + sint b)) s)"
  using int_ranges(3,4) [of a] int_ranges(3,4) [of b] by (simp add: s32_add_s32_s32_sat_def fx_runs sint_arith64)

lemma s32_sub_run [fx_runs]: "run_state (s32_sub_s32_s32_sat a b) s = (of_int (sat 31 (sint a - sint b)), flag (out 31 (sint a - sint b)) s)"
  using int_ranges(3,4) [of a] int_ranges(3,4) [of b] by (simp add: s32_sub_s32_s32_sat_def fx_runs sint_arith64)

lemma eq_of_int: "sint w = k \<Longrightarrow> w = of_int k"
  by auto

lemma sint_neg: "w \<noteq> MIN_16 \<Longrightarrow> sint (- w) = - sint w" "v \<noteq> MIN_32 \<Longrightarrow> sint (- v) = - sint v"
proof -
  assume "w \<noteq> MIN_16"
  then have "sint w \<noteq> - 32768" using eq_of_int [of w "- 32768"] by auto
  then have "- 32768 \<le> - sint w" "- sint w \<le> 32767" using int_ranges(1,2) [of w] by simp_all
  then show "sint (- w) = - sint w" by (simp add: sint_word_ariths signed_take_bit_int_eq_self)
next
  assume "v \<noteq> MIN_32"
  then have "sint v \<noteq> - 2147483648" using eq_of_int [of v "- 2147483648"] by auto
  then have "- 2147483648 \<le> - sint v" "- sint v \<le> 2147483647" using int_ranges(3,4) [of v] by simp_all
  then show "sint (- v) = - sint v" by (simp add: sint_word_ariths signed_take_bit_int_eq_self)
qed

lemma s16_neg_run [fx_runs]: "run_state (s16_neg_s16_sat a) s = (of_int (sat 15 (- sint a)), flag (out 15 (- sint a)) s)"
proof (cases "a = MIN_16")
  case False
  then have "\<not> out 15 (- sint a)" using sint_neg(1) [OF False] int_ranges(1,2) [of "- a"] by (simp add: out_def)
  then show ?thesis using False sint_neg(1) [OF False] by (simp add: s16_neg_s16_sat_def sat_id)
qed (simp add: s16_neg_s16_sat_def sat_def out_def)

lemma s32_neg_run [fx_runs]: "run_state (s32_neg_s32_sat a) s = (of_int (sat 31 (- sint a)), flag (out 31 (- sint a)) s)"
proof (cases "a = MIN_32")
  case False
  then have "\<not> out 31 (- sint a)" using sint_neg(2) [OF False] int_ranges(3,4) [of "- a"] by (simp add: out_def)
  then show ?thesis using False sint_neg(2) [OF False] by (simp add: s32_neg_s32_sat_def sat_id)
qed (simp add: s32_neg_s32_sat_def sat_def out_def)

lemma u16_abs_run [fx_runs]: "run_state (u16_abs_s16_sat a) s = (of_int (sat 15 \<bar>sint a\<bar>), flag (out 15 \<bar>sint a\<bar>) s)"
proof (cases "a = MIN_16")
  case False
  then have "\<not> out 15 \<bar>sint a\<bar>" using sint_neg(1) [OF False] int_ranges(1,2) [of "- a"] int_ranges(1,2) [of a] by (auto simp: out_def abs_if)
  then show ?thesis using False by (simp add: u16_abs_s16_sat_def sat_id word_sless_alt abs_if)
qed (simp add: u16_abs_s16_sat_def sat_def out_def)

lemma u32_abs_run [fx_runs]: "run_state (u32_abs_s32_sat a) s = (of_int (sat 31 \<bar>sint a\<bar>), flag (out 31 \<bar>sint a\<bar>) s)"
proof (cases "a = MIN_32")
  case False
  then have "\<not> out 31 \<bar>sint a\<bar>" using sint_neg(2) [OF False] int_ranges(3,4) [of "- a"] int_ranges(3,4) [of a] by (auto simp: out_def abs_if)
  then show ?thesis using False by (simp add: u32_abs_s32_sat_def sat_id word_sless_alt abs_if)
qed (simp add: u32_abs_s32_sat_def sat_def out_def)

subsection \<open>Shifts\<close>

text \<open>A number times a power of two, rounded down for a negative exponent.\<close>

definition ashift :: "int \<Rightarrow> int \<Rightarrow> int" where
  "ashift k n = (if 0 \<le> n then k * 2 ^ nat n else k div 2 ^ nat (- n))"

lemma sint_neg_iff_bit: "sint (w :: s32) < 0 \<longleftrightarrow> bit w 31" "sint (v :: s16) < 0 \<longleftrightarrow> bit v 15"
  by (simp_all add: sint_uint signed_take_bit_negative_iff bit_uint_iff)

lemma sint_signed_drop: "sint (signed_drop_bit n w) = sint w div 2 ^ n"
  by (simp add: sint_signed_drop_bit_eq drop_bit_eq_div)

text \<open>The mask that is put in by the shifts to the right is there already.\<close>

lemma shr_mask32: "sint (v :: s32) < 0 \<Longrightarrow> n \<le> 32 \<Longrightarrow> push_bit (32 - n) (NOT 0) OR signed_drop_bit n v = signed_drop_bit n v"
  by (rule bit_word_eqI) (auto simp: sint_neg_iff_bit bit_simps)

lemma shr_mask16: "sint (v :: s16) < 0 \<Longrightarrow> n \<le> 16 \<Longrightarrow> ucast (push_bit (16 - n) (NOT 0 :: s32)) OR signed_drop_bit n v = signed_drop_bit n v"
  by (rule bit_word_eqI) (auto simp: sint_neg_iff_bit bit_simps)

lemma unat_sint: "0 \<le> sint (k :: s16) \<Longrightarrow> unat k = nat (sint k)"
proof -
  assume "0 \<le> sint k"
  then have "uint k = sint k" using int_ranges(2) [of k] by (simp add: uint_sint take_bit_int_eq_self)
  then show ?thesis by (metis unat_eq_nat_uint)
qed

lemma shr_pos32:
  assumes "0 < sint k" "sint k < 31"
  shows "run_state (s32_shr_s32_sat v k) s = (of_int (sint v div 2 ^ nat (sint k)), s)"
proof -
  have u: "unat k = nat (sint k)" by (rule unat_sint) (use assms in simp)
  have k: "k \<noteq> 0" "\<not> k <s 0" "\<not> 31 \<le>s k" using assms by (auto simp: word_sless_alt word_sle_eq)
  have m: "(if v <s 0 then push_bit (32 - unat k) (NOT 0) else 0) OR signed_drop_bit (unat k) v = signed_drop_bit (unat k) v"
    using shr_mask32 [of v "unat k"] assms by (simp add: word_sless_alt u)
  show ?thesis
  proof (cases "v = 0")
    case False
    have "signed_drop_bit (unat k) v = of_int (sint v div 2 ^ nat (sint k))" by (rule eq_of_int) (simp add: sint_signed_drop u)
    then show ?thesis using False k m by (subst s32_shr_s32_sat.simps) (simp add: Let_def)
  qed (subst s32_shr_s32_sat.simps, simp)
qed

lemma double32: "push_bit 1 (w AND MAX_32) = 2 * (w :: s32)"
proof -
  have "w AND MAX_32 = take_bit 31 w" by (simp add: take_bit_eq_mask mask_eq_exp_minus_1)
  moreover have "push_bit 1 (take_bit 31 w) = push_bit 1 w"
    by (rule bit_word_eqI) (simp only: bit_push_bit_iff bit_take_bit_iff, auto)
  ultimately show ?thesis by (simp add: push_bit_eq_mult mult.commute)
qed

lemma mod_shift:
  assumes "- m \<le> (x :: int)" "x < 2 * m"
  shows "x mod m = (if m \<le> x then x - m else if x < 0 then x + m else x)"
proof -
  have "x mod m = (x - m) mod m" "x mod m = (x + m) mod m" by simp_all
  then show ?thesis using assms by (auto simp: mod_pos_pos_trivial simp del: minus_mod_self2 mod_add_self2)
qed

lemma sint_double32: "sint (2 * (w :: s32)) = (if 1073741824 \<le> sint w then 2 * sint w - 4294967296 else if sint w < - 1073741824 then 2 * sint w + 4294967296 else 2 * sint w)"
proof -
  have "sint (2 * w) = signed_take_bit 31 (2 * sint w)" by (simp add: sint_word_ariths)
  also have "\<dots> = (2 * sint w + 2147483648) mod 4294967296 - 2147483648" by (simp add: signed_take_bit_eq_take_bit_shift take_bit_eq_mod)
  finally show ?thesis using int_ranges(3,4) [of w] mod_shift [of 4294967296 "2 * sint w + 2147483648"] by auto
qed

lemma and_MIN_32: "w AND MIN_32 \<noteq> 0 \<longleftrightarrow> sint (w :: s32) < 0"
proof -
  have m: "MIN_32 = push_bit 31 1" by (simp add: push_bit_eq_mult)
  have b: "bit (w AND MIN_32) n \<longleftrightarrow> bit w n \<and> n = 31" for n
    by (simp only: m bit_and_iff bit_push_bit_iff bit_1_iff) auto
  have "w AND MIN_32 \<noteq> 0 \<longleftrightarrow> (\<exists>n. bit (w AND MIN_32) n)" by (metis bit_0_eq bit_eqI bot2E bot_apply)
  then have "w AND MIN_32 \<noteq> 0 \<longleftrightarrow> bit w 31" unfolding b by blast
  then show ?thesis by (simp add: sint_neg_iff_bit)
qed

lemma xor_MIN_32: "(v XOR w) AND MIN_32 \<noteq> 0 \<longleftrightarrow> (sint (v :: s32) < 0 \<longleftrightarrow> \<not> sint w < 0)"
  unfolding and_MIN_32 sint_neg_iff_bit by (auto simp: bit_xor_iff)

lemma out_double: "out 31 (2 * k) \<Longrightarrow> out 31 (k * 2 ^ Suc n)"
proof -
  assume "out 31 (2 * k)"
  then consider "2 ^ 31 \<le> 2 * k" | "2 * k < - (2 ^ 31)" by (auto simp: out_def)
  then show ?thesis
  proof cases
    case 1
    then have "2 ^ 31 * 1 \<le> (2 * k) * 2 ^ n" by (intro mult_mono) auto
    then show ?thesis by (simp add: out_def)
  next
    case 2
    then have "2 ^ 31 * 1 < (- (2 * k)) * 2 ^ n" by (intro mult_less_le_imp_less) auto
    then show ?thesis by (simp add: out_def)
  qed
qed

lemma shl_loop_ok:
  "L_Mask AND MIN_32 \<noteq> 0 \<longleftrightarrow> sint L_Out < 0 \<Longrightarrow> (snd (shl_loop n L_Mask L_Out) \<longleftrightarrow> out 31 (sint L_Out * 2 ^ n))
     \<and> (\<not> out 31 (sint L_Out * 2 ^ n) \<longrightarrow> sint (fst (shl_loop n L_Mask L_Out)) = sint L_Out * 2 ^ n)"
proof (induction n arbitrary: L_Out)
  case 0
  then show ?case using int_ranges(3,4) [of L_Out] by (simp add: out_def)
next
  case (Suc n)
  have over: "(L_Mask XOR 2 * L_Out) AND MIN_32 \<noteq> 0 \<longleftrightarrow> out 31 (2 * sint L_Out)"
  proof -
    have "sint L_Mask < 0 \<longleftrightarrow> sint L_Out < 0" using Suc.prems unfolding and_MIN_32 .
    then show ?thesis using int_ranges(3,4) [of L_Out] unfolding xor_MIN_32 sint_double32 by (auto simp: out_def)
  qed
  have loop: "shl_loop (Suc n) L_Mask L_Out = (if out 31 (2 * sint L_Out) then (2 * L_Out, True) else shl_loop n L_Mask (2 * L_Out))"
    by (simp only: shl_loop.simps double32 Let_def over)
  show ?case
  proof (cases "out 31 (2 * sint L_Out)")
    case True
    then show ?thesis using out_double [OF True, of n] loop by simp
  next
    case False
    then have d: "sint (2 * L_Out) = 2 * sint L_Out" by (auto simp: sint_double32 out_def)
    then have "L_Mask AND MIN_32 \<noteq> 0 \<longleftrightarrow> sint (2 * L_Out) < 0" using Suc.prems by simp
    from Suc.IH [OF this] show ?thesis using False loop d by (simp add: mult.assoc mult.commute mult.left_commute)
  qed
qed

lemma ashift_0 [simp]: "ashift 0 n = 0" "ashift k 0 = k"
  by (simp_all add: ashift_def)

text \<open>Shifts by 31 or more leave the sign or overflow.\<close>

lemma div_far: "- (2 ^ m) \<le> k \<Longrightarrow> k < 2 ^ m \<Longrightarrow> m \<le> n \<Longrightarrow> k div 2 ^ n = (if k < 0 then - 1 else (0 :: int))"
proof -
  assume k: "- (2 ^ m) \<le> k" "k < 2 ^ m" and n: "m \<le> n"
  have p: "(2 :: int) ^ m \<le> 2 ^ n" using n by (intro power_increasing) auto
  show ?thesis
  proof (cases "k < 0")
    case True
    have "- (2 ^ m) \<le> k" "k < 0" "k div 2 ^ n * 2 ^ n + k mod 2 ^ n = k" using True k div_mult_mod_eq [of k "2 ^ n"] by simp_all
    moreover have "0 \<le> k mod 2 ^ n" "k mod 2 ^ n < 2 ^ n" by simp_all
    ultimately have "(- 2) * 2 ^ n < k div 2 ^ n * 2 ^ n" "k div 2 ^ n * 2 ^ n < 0 * 2 ^ n" using p by linarith+
    then have "k div 2 ^ n = - 1" by (simp only: mult_less_cancel_right_pos zero_less_power zero_less_numeral)
    then show ?thesis using True by simp
  next
    case False
    then show ?thesis using less_le_trans [OF k(2) p] by (simp add: div_pos_pos_trivial)
  qed
qed

lemma mult_far:
  assumes k: "k \<noteq> 0" and n: "m \<le> n"
  shows "sat m (k * 2 ^ n) = (if 0 < k then 2 ^ m - 1 else - (2 ^ m))" "out m (k * 2 ^ n) \<or> k = - 1 \<and> n = m"
proof -
  define p where "p = (2 :: int) ^ m"
  obtain d where d: "n = m + d" using n by (metis le_iff_add)
  have p: "0 < p" and e: "k * 2 ^ n = (k * 2 ^ d) * p" by (simp_all add: p_def d power_add)
  have pos: "p \<le> (k * 2 ^ d) * p" if "0 < k"
  proof -
    have "1 \<le> k * 2 ^ d" using mult_pos_pos [OF that, of "2 ^ d"] by simp
    from mult_right_mono [OF this, of p] show ?thesis using p by simp
  qed
  have neg: "(k * 2 ^ d) * p \<le> - p" if "k < 0"
  proof -
    have "k * 2 ^ d \<le> - 1" using mult_neg_pos [OF that, of "2 ^ d"] by simp
    from mult_right_mono [OF this, of p] show ?thesis using p by simp
  qed
  have far: "(k * 2 ^ d) * p < - p" if "k < 0" "\<not> (k = - 1 \<and> d = 0)"
  proof -
    have "k * 2 ^ d < - 1"
    proof (cases d)
      case (Suc e)
      have "k * 2 ^ e < 0" using mult_neg_pos [OF that(1), of "2 ^ e"] by simp
      then show ?thesis by (simp add: Suc mult.left_commute)
    qed (use that in auto)
    from mult_strict_right_mono [OF this p] show ?thesis by simp
  qed
  show "sat m (k * 2 ^ n) = (if 0 < k then 2 ^ m - 1 else - (2 ^ m))"
    using k pos neg unfolding e p_def by (cases "0 < k") (simp_all only: sat_hi sat_lo if_True if_False not_less_iff_gr_or_eq, auto intro: sat_lo)
  show "out m (k * 2 ^ n) \<or> k = - 1 \<and> n = m"
  proof (cases "0 < k")
    case True
    then show ?thesis using pos unfolding e out_def p_def by simp
  next
    case False
    then have "k < 0" using k by simp
    from far [OF this] show ?thesis unfolding e out_def p_def by (cases "k = - 1 \<and> d = 0") (simp_all add: d)
  qed
qed

lemma ashift_far:
  assumes "k \<noteq> 0" "int m \<le> n"
  shows "sat m (ashift k n) = (if 0 < k then 2 ^ m - 1 else - (2 ^ m))" "out m (ashift k n) \<or> k = - 1 \<and> n = int m"
proof -
  have a: "ashift k n = k * 2 ^ nat n" "nat n = m \<longleftrightarrow> n = int m" "m \<le> nat n" using assms(2) by (simp_all add: ashift_def) linarith+
  show "sat m (ashift k n) = (if 0 < k then 2 ^ m - 1 else - (2 ^ m))" "out m (ashift k n) \<or> k = - 1 \<and> n = int m"
    using mult_far [OF assms(1) a(3)] unfolding a by simp_all
qed

lemmas ashift_far_32 = ashift_far [of _ 31, simplified]
lemmas ashift_far_16 = ashift_far [of _ 15, simplified]

lemma s32_shl_run [fx_runs]:
  "run_state (s32_shl_s32_sat v k) s =
    (of_int (sat 31 (ashift (sint v) (sint k))), flag (out 31 (ashift (sint v) (sint k)) \<or> sint v = - 1 \<and> sint k = 31) s)"
proof -
  note rv = int_ranges(3,4) [of v] and rk = int_ranges(1,2) [of k]
  have in_range: "\<not> out 31 (sint v)" using rv by (simp add: out_def)
  consider "k = 0 \<or> v = 0" | "v \<noteq> 0" "sint k \<le> - 31" | "v \<noteq> 0" "- 31 < sint k" "sint k < 0" | "v \<noteq> 0" "31 \<le> sint k" | "v \<noteq> 0" "0 < sint k" "sint k < 31"
    using eq_of_int [of k 0] by force
  then show ?thesis
  proof cases
    case 1
    then show ?thesis using in_range by (subst s32_shl_s32_sat.simps) (auto simp: sat_id out_def sat_def)
  next
    case 2
    have nz: "sint v \<noteq> 0" using 2(1) eq_of_int [of v 0] by auto
    have "ashift (sint v) (sint k) = (if sint v < 0 then - 1 else 0)" using div_far [of 31 "sint v" "nat (- sint k)"] rv 2(2) by (simp add: ashift_def)
    then show ?thesis using 2 nz by (subst s32_shl_s32_sat.simps) (auto simp: word_sless_alt word_sle_eq sat_def out_def)
  next
    case 3
    have nk: "sint (- k) = - sint k" using 3(2,3) by (simp add: sint_word_ariths signed_take_bit_int_eq_self)
    have "ashift (sint v) (sint k) = sint v div 2 ^ nat (- sint k)" using 3 by (simp add: ashift_def)
    moreover have "\<not> out 31 (sint v div 2 ^ nat (- sint k))"
      using int_ranges(3,4) [of "signed_drop_bit (nat (- sint k)) v"] unfolding sint_signed_drop by (simp add: out_def)
    moreover have "run_state (s32_shl_s32_sat v k) s = run_state (s32_shr_s32_sat v (- k)) s"
      using 3 by (subst s32_shl_s32_sat.simps) (auto simp: word_sless_alt word_sle_eq)
    ultimately show ?thesis using shr_pos32 [of "- k" v s] 3 by (simp add: nk sat_id)
  next
    case 4
    have nz: "sint v \<noteq> 0" using 4(1) eq_of_int [of v 0] by auto
    show ?thesis using 4 ashift_far_32 [OF nz 4(2)] by (subst s32_shl_s32_sat.simps) (auto simp: word_sless_alt word_sle_eq)
  next
    case 5
    have u: "unat k = nat (sint k)" by (rule unat_sint) (use 5 in simp)
    have a: "ashift (sint v) (sint k) = sint v * 2 ^ nat (sint k)" using 5 by (simp add: ashift_def)
    let ?m = "if v <s 0 then MIN_32 else 0"
    have "?m AND MIN_32 \<noteq> 0 \<longleftrightarrow> sint v < 0" by (simp add: word_sless_alt)
    note loop = shl_loop_ok [OF this, of "nat (sint k)"]
    have unf: "run_state (s32_shl_s32_sat v k) s = (case shl_loop (nat (sint k)) ?m v of (L_Out, iOverflow) \<Rightarrow>
        if iOverflow then (if 0 <s v then MAX_32 else MIN_32, flag True s) else (L_Out, s))"
      using 5 u by (subst s32_shl_s32_sat.simps) (auto simp: word_sless_alt word_sle_eq split: prod.splits)
    show ?thesis
    proof (cases "out 31 (sint v * 2 ^ nat (sint k))")
      case True
      have "sat 31 (sint v * 2 ^ nat (sint k)) = (if 0 < sint v then 2147483647 else - 2147483648)"
        using True 5(1) eq_of_int [of v 0] by (simp add: sat_out zero_le_mult_iff) force
      then show ?thesis using loop True by (auto simp: unf a word_sless_alt split: prod.splits)
    next
      case False
      obtain L b where l: "shl_loop (nat (sint k)) ?m v = (L, b)" by force
      have "\<not> b" "L = of_int (sint v * 2 ^ nat (sint k))" using loop False unfolding l by (auto dest: eq_of_int)
      then show ?thesis unfolding unf l using False 5 by (simp add: a sat_id)
    qed
  qed
qed

text \<open>A shift to the right is a shift to the left by the negated amount.\<close>

lemma shr_is_shl:
  assumes "- 32768 < sint k"
  shows "run_state (s32_shr_s32_sat v k) s = run_state (s32_shl_s32_sat v (- k)) s"
proof -
  have nk: "sint (- k) = - sint k" using assms int_ranges(1,2) [of k] by (intro sint_neg) auto
  consider "k = 0 \<or> v = 0" | "v \<noteq> 0" "sint k \<le> - 31" | "v \<noteq> 0" "- 31 < sint k" "sint k < 0"
      | "v \<noteq> 0" "0 < sint k" "sint k < 31" | "v \<noteq> 0" "31 \<le> sint k"
    using eq_of_int [of k 0] by force
  then show ?thesis
  proof cases
    case 2
    then show ?thesis by (subst s32_shr_s32_sat.simps, subst s32_shl_s32_sat.simps) (auto simp: word_sless_alt word_sle_eq nk)
  next
    case 3
    then show ?thesis by (subst s32_shr_s32_sat.simps) (auto simp: word_sless_alt word_sle_eq nk)
  next
    case 4
    then show ?thesis by (subst s32_shl_s32_sat.simps) (auto simp: word_sless_alt word_sle_eq nk)
  next
    case 5
    then show ?thesis by (subst s32_shr_s32_sat.simps, subst s32_shl_s32_sat.simps) (auto simp: word_sless_alt word_sle_eq nk)
  qed (subst s32_shr_s32_sat.simps, subst s32_shl_s32_sat.simps, auto)
qed

lemma s32_shr_run [fx_runs]:
  "run_state (s32_shr_s32_sat v k) s =
    (of_int (sat 31 (ashift (sint v) (- sint k))), flag (out 31 (ashift (sint v) (- sint k)) \<or> sint v = - 1 \<and> sint k = - 31) s)"
proof (cases "sint k = - 32768")
  case True
  show ?thesis
  proof (cases "v = 0")
    case False
    then have nz: "sint v \<noteq> 0" using eq_of_int [of v 0] by auto
    have far: "31 \<le> - sint k" "k \<noteq> 0" "k <s 0" "k \<le>s - 31" "sint k \<noteq> - 31" using True by (auto simp: word_sless_alt word_sle_eq)
    show ?thesis using ashift_far_32 [OF nz far(1)] far False by (subst s32_shr_s32_sat.simps) (simp add: word_sless_alt)
  qed (subst s32_shr_s32_sat.simps, simp add: sat_def out_def)
next
  case False
  then have k: "- 32768 < sint k" using int_ranges(1) [of k] by simp
  then have "sint (- k) = - sint k" using int_ranges(1,2) [of k] by (intro sint_neg) auto
  moreover have "- sint k = 31 \<longleftrightarrow> sint k = - 31" by auto
  ultimately show ?thesis unfolding shr_is_shl [OF k] fx_runs by simp
qed

lemma sint_push_16: "m < 15 \<Longrightarrow> sint (scast (v :: s16) * push_bit m 1 :: s32) = sint v * 2 ^ m"
proof -
  assume m: "m < 15"
  have "\<bar>sint v * 2 ^ m\<bar> \<le> 32768 * 2 ^ 14"
    unfolding abs_mult using m int_ranges(1,2) [of v] by (intro mult_mono) (auto intro: power_increasing simp del: power_numeral)
  then have "- 2147483648 \<le> sint v * 2 ^ m" "sint v * 2 ^ m \<le> 2147483647" by auto
  moreover have "scast v * push_bit m 1 = (of_int (sint v * 2 ^ m) :: s32)" by (simp add: push_bit_eq_mult)
  ultimately show ?thesis by (simp only: sint_of_int32)
qed

lemma fits_16: "scast (ucast (w :: s32) :: s16) = w \<longleftrightarrow> \<not> out 15 (sint w)"
proof
  assume "scast (ucast w :: s16) = w"
  then have "sint w = sint (ucast w :: s16)" using sint_casts(1) [of "ucast w"] by simp
  then show "\<not> out 15 (sint w)" using int_ranges(1,2) [of "ucast w"] by (simp add: out_def)
next
  assume "\<not> out 15 (sint w)"
  then have "sint (of_int (sint w) :: s16) = sint w" by (intro sint_of_int16) (simp_all add: out_def)
  then have "of_int (sint (ucast w :: s16)) = (of_int (sint w) :: s32)" unfolding ucast_of_sint by (rule arg_cong)
  then show "scast (ucast w :: s16) = w" by simp
qed

lemma shr_pos16:
  assumes "0 < sint k" "sint k < 15"
  shows "run_state (s16_shr_s16_sat v k) s = (of_int (sint v div 2 ^ nat (sint k)), s)"
proof -
  have u: "unat k = nat (sint k)" by (rule unat_sint) (use assms in simp)
  have k: "k \<noteq> 0" "\<not> k <s 0" "\<not> 15 \<le>s k" using assms by (auto simp: word_sless_alt word_sle_eq)
  have m: "(if v <s 0 then ucast (push_bit (16 - unat k) (NOT 0 :: s32)) else 0) OR signed_drop_bit (unat k) v = signed_drop_bit (unat k) v"
    using shr_mask16 [of v "unat k"] assms by (simp add: word_sless_alt u)
  show ?thesis
  proof (cases "v = 0")
    case False
    have "signed_drop_bit (unat k) v = of_int (sint v div 2 ^ nat (sint k))" by (rule eq_of_int) (simp add: sint_signed_drop u)
    then show ?thesis using False k m by (subst s16_shr_s16_sat.simps) (simp add: Let_def)
  qed (subst s16_shr_s16_sat.simps, simp)
qed

lemma shl_pos16:
  assumes "v \<noteq> 0" "0 < sint k" "sint k < 15"
  shows "run_state (s16_shl_s16_sat v k) s = (of_int (sat 15 (sint v * 2 ^ nat (sint k))), flag (out 15 (sint v * 2 ^ nat (sint k))) s)"
proof -
  have u: "unat k = nat (sint k)" by (rule unat_sint) (use assms in simp)
  have nz: "sint v \<noteq> 0" using assms(1) eq_of_int [of v 0] by auto
  define w where "w = (scast v * push_bit (unat k) 1 :: s32)"
  have w: "sint w = sint v * 2 ^ nat (sint k)" unfolding w_def u by (rule sint_push_16) (use assms in simp)
  have "run_state (s16_shl_s16_sat v k) s =
      (if scast (ucast w :: s16) \<noteq> w then (if 0 <s v then MAX_16 else MIN_16, flag True s) else (ucast w, s))"
    using assms by (subst s16_shl_s16_sat.simps) (auto simp: word_sless_alt word_sle_eq Let_def w_def)
  moreover have "0 \<le> sint w \<longleftrightarrow> 0 < sint v" using nz by (auto simp: w zero_le_mult_iff)
  ultimately show ?thesis unfolding fits_16 w [symmetric] unfolding ucast_of_sint by (auto simp: sat_id sat_out word_sless_alt)
qed

lemma s16_shl_run [fx_runs]:
  "run_state (s16_shl_s16_sat v k) s =
    (of_int (sat 15 (ashift (sint v) (sint k))), flag (out 15 (ashift (sint v) (sint k)) \<or> sint v = - 1 \<and> sint k = 15) s)"
proof -
  note rv = int_ranges(1,2) [of v] and rk = int_ranges(1,2) [of k]
  have in_range: "\<not> out 15 (sint v)" using rv by (simp add: out_def)
  consider "k = 0 \<or> v = 0" | "v \<noteq> 0" "sint k \<le> - 15" | "v \<noteq> 0" "- 15 < sint k" "sint k < 0" | "v \<noteq> 0" "15 \<le> sint k" | "v \<noteq> 0" "0 < sint k" "sint k < 15"
    using eq_of_int [of k 0] by force
  then show ?thesis
  proof cases
    case 1
    then show ?thesis using in_range by (subst s16_shl_s16_sat.simps) (auto simp: sat_id out_def sat_def)
  next
    case 2
    have "ashift (sint v) (sint k) = (if sint v < 0 then - 1 else 0)" using div_far [of 15 "sint v" "nat (- sint k)"] rv 2(2) by (simp add: ashift_def)
    then show ?thesis using 2 by (subst s16_shl_s16_sat.simps) (auto simp: word_sless_alt word_sle_eq sat_def out_def)
  next
    case 3
    have nk: "sint (- k) = - sint k" using 3(2,3) by (simp add: sint_word_ariths signed_take_bit_int_eq_self)
    have "ashift (sint v) (sint k) = sint v div 2 ^ nat (- sint k)" using 3 by (simp add: ashift_def)
    moreover have "\<not> out 15 (sint v div 2 ^ nat (- sint k))"
      using int_ranges(1,2) [of "signed_drop_bit (nat (- sint k)) v"] unfolding sint_signed_drop by (simp add: out_def)
    moreover have "run_state (s16_shl_s16_sat v k) s = run_state (s16_shr_s16_sat v (- k)) s"
      using 3 by (subst s16_shl_s16_sat.simps) (auto simp: word_sless_alt word_sle_eq)
    ultimately show ?thesis using shr_pos16 [of "- k" v s] 3 by (simp add: nk sat_id)
  next
    case 4
    have nz: "sint v \<noteq> 0" using 4(1) eq_of_int [of v 0] by auto
    show ?thesis using 4 ashift_far_16 [OF nz 4(2)] by (subst s16_shl_s16_sat.simps) (auto simp: word_sless_alt word_sle_eq)
  next
    case 5
    then show ?thesis using shl_pos16 [OF 5] by (simp add: ashift_def)
  qed
qed

lemma s16_shr_is_shl:
  assumes "- 32768 < sint k"
  shows "run_state (s16_shr_s16_sat v k) s = run_state (s16_shl_s16_sat v (- k)) s"
proof -
  have nk: "sint (- k) = - sint k" using assms int_ranges(1,2) [of k] by (intro sint_neg) auto
  consider "k = 0 \<or> v = 0" | "v \<noteq> 0" "sint k \<le> - 15" | "v \<noteq> 0" "- 15 < sint k" "sint k < 0"
      | "v \<noteq> 0" "0 < sint k" "sint k < 15" | "v \<noteq> 0" "15 \<le> sint k"
    using eq_of_int [of k 0] by force
  then show ?thesis
  proof cases
    case 2
    then show ?thesis by (subst s16_shr_s16_sat.simps, subst s16_shl_s16_sat.simps) (auto simp: word_sless_alt word_sle_eq nk)
  next
    case 3
    then show ?thesis by (subst s16_shr_s16_sat.simps) (auto simp: word_sless_alt word_sle_eq nk)
  next
    case 4
    then show ?thesis by (subst s16_shl_s16_sat.simps) (auto simp: word_sless_alt word_sle_eq nk)
  next
    case 5
    then show ?thesis by (subst s16_shr_s16_sat.simps, subst s16_shl_s16_sat.simps) (auto simp: word_sless_alt word_sle_eq nk)
  qed (subst s16_shr_s16_sat.simps, subst s16_shl_s16_sat.simps, auto)
qed

lemma s16_shr_run [fx_runs]:
  "run_state (s16_shr_s16_sat v k) s =
    (of_int (sat 15 (ashift (sint v) (- sint k))), flag (out 15 (ashift (sint v) (- sint k)) \<or> sint v = - 1 \<and> sint k = - 15) s)"
proof (cases "sint k = - 32768")
  case True
  show ?thesis
  proof (cases "v = 0")
    case False
    then have nz: "sint v \<noteq> 0" using eq_of_int [of v 0] by auto
    have far: "15 \<le> - sint k" "k \<noteq> 0" "k <s 0" "k \<le>s - 15" "sint k \<noteq> - 15" using True by (auto simp: word_sless_alt word_sle_eq)
    show ?thesis using ashift_far_16 [OF nz far(1)] far False by (subst s16_shr_s16_sat.simps) (simp add: word_sless_alt)
  qed (subst s16_shr_s16_sat.simps, simp add: sat_def out_def)
next
  case False
  then have k: "- 32768 < sint k" using int_ranges(1) [of k] by simp
  then have "sint (- k) = - sint k" using int_ranges(1,2) [of k] by (intro sint_neg) auto
  moreover have "- sint k = 15 \<longleftrightarrow> sint k = - 15" by auto
  ultimately show ?thesis unfolding s16_shr_is_shl [OF k] fx_runs by simp
qed

subsection \<open>Rounding\<close>

text \<open>The same with the result rounded to the nearest integer, halves upwards.\<close>

definition rshift :: "int \<Rightarrow> int \<Rightarrow> int" where
  "rshift k n = (if 0 \<le> n then k * 2 ^ nat n else (k + 2 ^ nat (- n - 1)) div 2 ^ nat (- n))"

lemma sint_and_1: "sint (w AND 1 :: s32) = sint w mod 2" "sint (v AND 1 :: s16) = sint v mod 2"
proof -
  have "odd (sint w) \<longleftrightarrow> odd w" "odd (sint v) \<longleftrightarrow> odd v" by (simp_all only: bit_0 [symmetric] bit_sint_iff) simp_all
  then show "sint (w AND 1) = sint w mod 2" "sint (v AND 1) = sint v mod 2"
    by (simp_all add: and_one_eq mod2_eq_if)
qed

lemma half_up: "(x + 1) div 2 = x div 2 + x mod (2 :: int)"
  by presburger

lemma div_round: "v div 2 ^ Suc m + v div 2 ^ m mod 2 = (v + 2 ^ m) div 2 ^ Suc (m :: nat)" for v :: int
proof -
  have "(v + 2 ^ m) div 2 ^ Suc m = ((v + 2 ^ m) div 2 ^ m) div 2" by (simp only: power_Suc2 zdiv_zmult2_eq zero_le_numeral)
  also have "\<dots> = (v div 2 ^ m + 1) div 2" by (subst div_add_self2) simp_all
  also have "\<dots> = v div 2 ^ m div 2 + v div 2 ^ m mod 2" by (rule half_up)
  also have "v div 2 ^ m div 2 = v div 2 ^ Suc m" by (simp only: power_Suc2 zdiv_zmult2_eq zero_le_numeral)
  finally show ?thesis by simp
qed

lemma rshift_neg:
  assumes "n < 0"
  shows "rshift v n = ashift v n + ashift v (n + 1) mod 2"
proof -
  obtain m where m: "n = - int (Suc m)" using assms by (metis negD)
  have "nat (- n) = Suc m" "nat (- n - 1) = m" "nat (- (n + 1)) = m" "ashift v (n + 1) = v div 2 ^ m"
    using m by (auto simp: ashift_def nat_add_distrib)
  then show ?thesis using div_round [of v m] m by (simp add: rshift_def ashift_def)
qed

lemma rshift_far:
  assumes "- (2 ^ m) \<le> v" "v < 2 ^ m" "n < - int m"
  shows "rshift v n = 0"
proof -
  define p where "p = (2 :: int) ^ nat (- n - 1)"
  have "(2 :: int) ^ m \<le> p" unfolding p_def using assms(3) by (intro power_increasing) auto
  moreover have "nat (- n) = Suc (nat (- n - 1))" using assms(3) by simp
  then have "2 ^ nat (- n) = 2 * p" by (simp add: p_def)
  ultimately show ?thesis using assms by (auto simp: rshift_def div_pos_pos_trivial simp flip: p_def)
qed

lemma ashift_neg_le: "n \<le> 0 \<Longrightarrow> 0 \<le> v \<Longrightarrow> 0 \<le> ashift v n \<and> ashift v n \<le> v"
  by (auto simp: ashift_def pos_imp_zdiv_nonneg_iff dest: zdiv_mono2 [of v 1 "2 ^ nat (- n)", simplified])

lemma ashift_neg_ge: "n \<le> 0 \<Longrightarrow> v < 0 \<Longrightarrow> v \<le> ashift v n \<and> ashift v n \<le> - 1"
  using zdiv_mono2_neg [of v 1 "2 ^ nat (- n)"] pos_imp_zdiv_neg_iff [of "2 ^ nat (- n)" v] by (auto simp: ashift_def)

lemma ashift_in:
  assumes "n \<le> 0" "\<not> out m v"
  shows "\<not> out m (ashift v n)"
  using assms ashift_neg_le [of n v] ashift_neg_ge [of n v] by (cases "0 \<le> v") (force simp: out_def)+

lemma rshift_in:
  assumes "n < 0" "\<not> out (Suc m) v"
  shows "\<not> out (Suc m) (rshift v n)"
proof -
  define r where "r = ashift v (n + 1) mod 2"
  have r: "rshift v n = ashift v n + r" "0 \<le> r" "r \<le> 1" using rshift_neg [OF assms(1), of v] by (simp_all add: r_def)
  show ?thesis
  proof (cases "0 \<le> v")
    case True
    have "(2 :: int) ^ 1 \<le> 2 ^ nat (- n)" using assms(1) by (intro power_increasing) auto
    then have "ashift v n \<le> v div 2" using True assms(1) zdiv_mono2 [of v 2 "2 ^ nat (- n)"] by (simp add: ashift_def)
    moreover have "(0 :: int) < 2 ^ m" by simp
    ultimately show ?thesis using True assms(2) r ashift_neg_le [of n v] assms(1) unfolding out_def power_Suc by linarith
  next
    case False
    moreover have "(0 :: int) < 2 ^ m" by simp
    ultimately show ?thesis using assms(2) r ashift_neg_ge [of n v] assms(1) unfolding out_def power_Suc by linarith
  qed
qed

lemma s32_shl_rnd_run [fx_runs]:
  "run_state (s32_shl_s32_rnd_sat v k) s =
    (of_int (sat 31 (rshift (sint v) (sint k))), flag (out 31 (rshift (sint v) (sint k)) \<or> sint v = - 1 \<and> sint k = 31) s)"
proof -
  note rv = int_ranges(3,4) [of v] and rk = int_ranges(1,2) [of k]
  have v_in: "\<not> out 31 (sint v)" using rv by (simp add: out_def)
  consider "sint k < - 31" | "- 31 \<le> sint k" "sint k < 0" | "0 \<le> sint k" by linarith
  then show ?thesis
  proof cases
    case 1
    then have "rshift (sint v) (sint k) = 0" using rshift_far [of 31] rv by simp
    then show ?thesis using 1 by (simp add: s32_shl_s32_rnd_sat_def word_sless_alt sat_def out_def)
  next
    case 2
    have k1: "sint (k + 1) = sint k + 1" using 2 by (simp add: sint_word_ariths signed_take_bit_int_eq_self)
    have i: "\<not> out 31 (ashift (sint v) (sint k))" "\<not> out 31 (ashift (sint v) (sint k + 1))" "\<not> out 31 (rshift (sint v) (sint k))"
      using ashift_in [OF _ v_in] rshift_in [of "sint k" 30] v_in 2 by auto
    have r: "sint (of_int (ashift (sint v) (sint k)) :: s32) = ashift (sint v) (sint k)"
        "sint (of_int (ashift (sint v) (sint k + 1)) :: s32) = ashift (sint v) (sint k + 1)"
      using i by (auto simp: out_def intro!: sint_of_int32)
    have "sint k \<noteq> 31" "sint k + 1 \<noteq> 31" using 2 by auto
    then show ?thesis using 2 i rshift_neg [of "sint k" "sint v"]
      by (simp add: s32_shl_s32_rnd_sat_def word_sless_alt fx_runs k1 sat_id sint_and_1 r)
  next
    case 3
    then show ?thesis by (simp add: s32_shl_s32_rnd_sat_def word_sless_alt fx_runs rshift_def ashift_def)
  qed
qed

lemma s16_shl_rnd_run [fx_runs]:
  "run_state (s16_shl_s16_sat_rnd v k) s =
    (of_int (sat 15 (rshift (sint v) (sint k))), flag (out 15 (rshift (sint v) (sint k)) \<or> sint v = - 1 \<and> sint k = 15) s)"
proof -
  note rv = int_ranges(1,2) [of v] and rk = int_ranges(1,2) [of k]
  have v_in: "\<not> out 15 (sint v)" using rv by (simp add: out_def)
  consider "sint k < - 15" | "- 15 \<le> sint k" "sint k < 0" | "0 \<le> sint k" by linarith
  then show ?thesis
  proof cases
    case 1
    then have "rshift (sint v) (sint k) = 0" using rshift_far [of 15] rv by simp
    then show ?thesis using 1 by (simp add: s16_shl_s16_sat_rnd_def word_sless_alt word_sle_eq sat_def out_def)
  next
    case 2
    have k1: "sint (k + 1) = sint k + 1" using 2 by (simp add: sint_word_ariths signed_take_bit_int_eq_self)
    have i: "\<not> out 15 (ashift (sint v) (sint k))" "\<not> out 15 (ashift (sint v) (sint k + 1))" "\<not> out 15 (rshift (sint v) (sint k))"
      using ashift_in [OF _ v_in] rshift_in [of "sint k" 14] v_in 2 by auto
    have r: "sint (of_int (ashift (sint v) (sint k)) :: s16) = ashift (sint v) (sint k)"
        "sint (of_int (ashift (sint v) (sint k + 1)) :: s16) = ashift (sint v) (sint k + 1)"
      using i by (auto simp: out_def intro!: sint_of_int16)
    have "sint k \<noteq> 15" "sint k + 1 \<noteq> 15" using 2 by auto
    then show ?thesis using 2 i rshift_neg [of "sint k" "sint v"]
      by (simp add: s16_shl_s16_sat_rnd_def word_sless_alt word_sle_eq fx_runs k1 sat_id sint_and_1 r)
  next
    case 3
    then show ?thesis by (simp add: s16_shl_s16_sat_rnd_def word_sle_eq fx_runs rshift_def ashift_def)
  qed
qed

subsection \<open>Halves and products\<close>

lemma and_FFFF: "0xFFFF AND w = take_bit 16 w" for w :: "'a :: len word"
  by (simp add: take_bit_eq_mask mask_eq_exp_minus_1 and.commute)

lemma extract_h: "s16_extract_s32_h w = of_int (sint w div 65536)" "sint (s16_extract_s32_h w) = sint w div 65536"
proof -
  have "s16_extract_s32_h w = ucast (signed_drop_bit 16 w)"
    unfolding s16_extract_s32_h_def and_FFFF by (rule bit_word_eqI) (simp add: bit_simps)
  then show e: "s16_extract_s32_h w = of_int (sint w div 65536)" by (simp only: ucast_of_sint sint_signed_drop) simp
  show "sint (s16_extract_s32_h w) = sint w div 65536"
    unfolding e using int_ranges(3,4) [of w] by (intro sint_of_int16) auto
qed

lemma extract_l: "uint (s16_extract_s32_l w) = sint w mod 65536" "uint (s16_extract_s32_l w) = uint w mod 65536"
proof -
  have "uint (s16_extract_s32_l w) = take_bit 16 (uint w)"
    unfolding s16_extract_s32_l_def and_FFFF by (simp add: unsigned_ucast_eq unsigned_take_bit_eq)
  then show "uint (s16_extract_s32_l w) = uint w mod 65536" by (simp add: take_bit_eq_mod)
  moreover have "uint w mod 65536 = sint w mod 65536" by (simp add: uint_sint take_bit_eq_mod mod_mod_cancel)
  ultimately show "uint (s16_extract_s32_l w) = sint w mod 65536" by simp
qed

lemma take_32 [simp]: "take_bit 32 (uint (a :: u16)) = uint a" "take_bit 32 (uint (b :: u32)) = uint b"
  using uint_range16 [of a] uint_range32 [of b] by (simp_all add: take_bit_int_eq_self)

lemma uextract_h: "uint (s16_extract_s32_h w) = uint w div 65536"
proof -
  have "s16_extract_s32_h w = ucast (drop_bit 16 w)"
    unfolding s16_extract_s32_h_def and_FFFF by (rule bit_word_eqI) (auto simp: bit_simps)
  then have "uint (s16_extract_s32_h w) = take_bit 16 (drop_bit 16 (uint w))" by (simp add: unsigned_ucast_eq unsigned_drop_bit_eq)
  then show ?thesis using uint_range32 [of w] by (simp add: take_bit_int_eq_self drop_bit_eq_div)
qed

lemma halves: "sint (s16_extract_s32_h w) * 65536 + uint (s16_extract_s32_l w) = sint w"
    "uint (s16_extract_s32_h w) * 65536 + uint (s16_extract_s32_l w) = uint w"
  by (simp_all only: extract_h(2) extract_l(1) uextract_h div_mult_mod_eq) (simp only: extract_l(2) div_mult_mod_eq flip: extract_l(1))

lemma mult_small:
  assumes "\<bar>x\<bar> \<le> a" "\<bar>y\<bar> \<le> b"
  shows "\<bar>x * y\<bar> \<le> a * (b :: int)"
  unfolding abs_mult using assms by (intro mult_mono) auto

lemma sint_mult_s16: "sint (s32_mult_s16_s16 a b) = sint a * sint b" "sint (s32_mult_s16_u16 a c) = sint a * uint c"
    "uint (u32_mult_u16_u16 c d) = uint c * uint d"
proof -
  have "\<bar>sint a * sint b\<bar> \<le> 32768 * 32768" "\<bar>sint a * uint c\<bar> \<le> 32768 * 65535" "\<bar>uint c * uint d\<bar> \<le> 65535 * 65535"
    using int_ranges(1,2) [of a] int_ranges(1,2) [of b] uint_range16 [of c] uint_range16 [of d] by (intro mult_small; simp)+
  then show "sint (s32_mult_s16_s16 a b) = sint a * sint b" "sint (s32_mult_s16_u16 a c) = sint a * uint c"
      "uint (u32_mult_u16_u16 c d) = uint c * uint d"
    by (simp_all add: s32_mult_s16_s16_def s32_mult_s16_u16_def u32_mult_u16_u16_def sint_arith32 uint_word_arith_bintrs
        unsigned_ucast_eq take_bit_int_eq_self)
qed

lemma s64_shl_16: "s64_shl_s64 v 16 = Some (of_int (sint v * 65536))"
  by (simp add: s64_shl_s64_def word_sless_alt push_bit_eq_mult)

lemma s64_shr_16: "s64_shl_s64 v (- 16) = Some (of_int (sint v div 65536))"
proof -
  have "signed_drop_bit 16 v = of_int (sint v div 65536)" by (rule eq_of_int) (simp add: sint_signed_drop)
  then show ?thesis by (simp add: s64_shl_s64_def word_sless_alt)
qed

lemma Some_sint: "- 9223372036854775808 \<le> k \<Longrightarrow> k \<le> 9223372036854775807 \<Longrightarrow> x = Some (of_int k :: s64) \<Longrightarrow> map_option sint x = Some k"
  by (simp add: sint_of_int64)

lemma s64_mult_s32_s16_ok: "map_option sint (s64_mult_s32_s16 a b) = Some (sint a * sint b)"
proof (rule Some_sint)
  have "\<bar>sint a * sint b\<bar> \<le> 2147483648 * 32768" using int_ranges(1,2) [of b] int_ranges(3,4) [of a] by (intro mult_small; simp)
  then show "- 9223372036854775808 \<le> sint a * sint b" "sint a * sint b \<le> 9223372036854775807" by simp_all
  have "s64_mult_s32_s16 a b = Some (of_int (sint b * sint (s16_extract_s32_h a) * 65536 + sint b * uint (s16_extract_s32_l a)))"
    unfolding s64_mult_s32_s16_def s64_shl_16 sint_casts sint_mult_s16 Let_def s64_add_s64_s64_def
    by (simp add: scast_eq sint_mult_s16 del: of_int_mult of_int_sint)
  also have "sint b * sint (s16_extract_s32_h a) * 65536 + sint b * uint (s16_extract_s32_l a) = sint a * sint b"
    unfolding halves(1) [of a, symmetric] by (simp add: algebra_simps)
  finally show "s64_mult_s32_s16 a b = Some (of_int (sint a * sint b))" .
qed

lemma s64_mult_u32_s16_ok: "map_option sint (s64_mult_u32_s16 a b) = Some (uint a * sint b)"
proof (rule Some_sint)
  have "\<bar>uint a * sint b\<bar> \<le> 4294967295 * 32768" using int_ranges(1,2) [of b] uint_range32 [of a] by (intro mult_small; simp)
  then show "- 9223372036854775808 \<le> uint a * sint b" "uint a * sint b \<le> 9223372036854775807" by simp_all
  have "s64_mult_u32_s16 a b = Some (of_int (sint b * uint (s16_extract_s32_h a) * 65536 + sint b * uint (s16_extract_s32_l a)))"
    unfolding s64_mult_u32_s16_def s64_shl_16 sint_casts sint_mult_s16 Let_def s64_add_s64_s64_def
    by (simp add: scast_eq sint_mult_s16 del: of_int_mult of_int_sint)
  also have "sint b * uint (s16_extract_s32_h a) * 65536 + sint b * uint (s16_extract_s32_l a) = uint a * sint b"
    unfolding halves(2) [of a, symmetric] by (simp add: algebra_simps)
  finally show "s64_mult_u32_s16 a b = Some (of_int (uint a * sint b))" .
qed

lemma s64_mult_s32_u16_ok: "map_option sint (s64_mult_s32_u16 a b) = Some (sint a * uint b)"
proof (rule Some_sint)
  have "\<bar>sint a * uint b\<bar> \<le> 2147483648 * 65535" using uint_range16 [of b] int_ranges(3,4) [of a] by (intro mult_small; simp)
  then show "- 9223372036854775808 \<le> sint a * uint b" "sint a * uint b \<le> 9223372036854775807" by simp_all
  have "s64_mult_s32_u16 a b = Some (of_int (sint (s16_extract_s32_h a) * uint b * 65536 + uint b * uint (s16_extract_s32_l a)))"
    unfolding s64_mult_s32_u16_def s64_shl_16 sint_casts sint_mult_s16 Let_def s64_add_s64_s64_def
    by (simp add: scast_eq ucast_eq sint_mult_s16 del: of_int_mult of_int_sint of_int_uint)
  also have "sint (s16_extract_s32_h a) * uint b * 65536 + uint b * uint (s16_extract_s32_l a) = sint a * uint b"
    unfolding halves(1) [of a, symmetric] by (simp add: algebra_simps)
  finally show "s64_mult_s32_u16 a b = Some (of_int (sint a * uint b))" .
qed

lemma s16_round_run [fx_runs]:
  "run_state (s16_round_s32_sat v) s = (of_int (sat 15 ((sint v + 32768) div 65536)), flag (out 15 ((sint v + 32768) div 65536)) s)"
proof -
  note rv = int_ranges(3,4) [of v]
  have "sat 31 (sint v + 32768) div 65536 = sat 15 ((sint v + 32768) div 65536)" using rv by (auto simp: sat_def max_def min_def)
  moreover have "out 31 (sint v + 32768) \<longleftrightarrow> out 15 ((sint v + 32768) div 65536)" using rv by (auto simp: out_def)
  ultimately show ?thesis by (simp add: s16_round_s32_sat_def fx_runs extract_h)
qed

lemma s32_mac_run [fx_runs]:
  "run_state (s32_mac_s32_s16_s16_sat c a b) s = (of_int (sat 31 (sint c + sint a * sint b)), flag (out 31 (sint c + sint a * sint b)) s)"
  using sint_mult_s16(1) [of a b] by (simp add: s32_mac_s32_s16_s16_sat_def fx_runs s32_mult_s16_s16_def)

lemma min_16_iff: "(a = MIN_16) \<longleftrightarrow> sint a = - 32768"
  using eq_of_int [of a "- 32768"] by auto

lemma mult_half: "- 32768 \<le> x \<Longrightarrow> x \<le> 32767 \<Longrightarrow> - 32768 \<le> y \<Longrightarrow> y \<le> 32767 \<Longrightarrow>
    x * y = 1073741824 \<longleftrightarrow> x = - 32768 \<and> y = (- 32768 :: int)"
proof -
  assume x: "- 32768 \<le> x" "x \<le> 32767" and y: "- 32768 \<le> y" "y \<le> 32767"
  have "\<bar>x * y\<bar> \<le> 32767 * 32768" if "x \<noteq> - 32768" using that x y by (intro mult_small) auto
  moreover have "\<bar>x * y\<bar> \<le> 32768 * 32767" if "y \<noteq> - 32768" using that x y by (intro mult_small) auto
  ultimately show ?thesis by (cases "x = - 32768"; cases "y = - 32768") auto
qed

lemma double_in:
  assumes "\<not> (sint (a :: s16) = - 32768 \<and> sint (b :: s16) = - 32768)"
  shows "sint (push_bit 1 (s32_mult_s16_s16 a b)) = 2 * (sint a * sint b)"
proof -
  have "\<bar>sint a * sint b\<bar> \<le> 32768 * 32768" using int_ranges(1,2) [of a] int_ranges(1,2) [of b] by (intro mult_small) auto
  moreover have "sint a * sint b \<noteq> 1073741824"
    using assms mult_half [of "sint a" "sint b"] int_ranges(1,2) [of a] int_ranges(1,2) [of b] by simp
  ultimately show ?thesis using sint_double32 [of "s32_mult_s16_s16 a b"] by (auto simp: sint_mult_s16 push_bit_eq_mult mult.commute)
qed

lemma s32_msu_run [fx_runs]:
  "run_state (s32_msu_s32_s16_s16_sat c a b) s =
    (let d = (if sint a = - 32768 \<and> sint b = - 32768 then - 2147483648 else 2 * (sint a * sint b)) in
     (of_int (sat 31 (sint c - d)), flag (out 31 (sint c - d)) s))"
proof -
  note ra = int_ranges(1,2) [of a] and rb = int_ranges(1,2) [of b]
  have "s32_mult_s16_s16 a b = LONGWORD_HALF \<longleftrightarrow> sint a * sint b = 1073741824"
    using eq_of_int [of "s32_mult_s16_s16 a b" 1073741824] sint_mult_s16(1) [of a b] by auto
  also have "\<dots> \<longleftrightarrow> sint a = - 32768 \<and> sint b = - 32768" by (rule mult_half) (use ra rb in auto)
  finally have h: "s32_mult_s16_s16 a b = LONGWORD_HALF \<longleftrightarrow> sint a = - 32768 \<and> sint b = - 32768" .
  have c: "sint (scast c - scast MIN_32 :: s64) = sint c + 2147483648"
    using int_ranges(3,4) [of c] by (subst sint_arith64) simp_all
  show ?thesis
  proof (cases "sint a = - 32768 \<and> sint b = - 32768")
    case True
    then show ?thesis using h c unfolding s32_msu_s32_s16_s16_sat_def s32_mult_s16_s16_def by (simp add: Let_def fx_runs)
  next
    case False
    then show ?thesis using iffD1 [OF h] double_in [OF False] unfolding s32_msu_s32_s16_s16_sat_def s32_mult_s16_s16_def by (auto simp: Let_def fx_runs)
  qed
qed

lemma s32_mult_shift_run [fx_runs]:
  "run_state (s32_mult_s16_s16_shift_sat a b) s = (of_int (sat 31 (2 * (sint a * sint b))), flag (out 31 (2 * (sint a * sint b))) s)"
proof (cases "sint a = - 32768 \<and> sint b = - 32768")
  case True
  then show ?thesis by (simp add: s32_mult_s16_s16_shift_sat_def min_16_iff sat_def out_def)
next
  case False
  have "\<not> out 31 (2 * (sint a * sint b))"
    using int_ranges(3,4) [of "push_bit 1 (s32_mult_s16_s16 a b)"] unfolding double_in [OF False] by (simp add: out_def)
  moreover have "push_bit 1 (s32_mult_s16_s16 a b) = of_int (2 * (sint a * sint b))" by (rule eq_of_int) (rule double_in [OF False])
  ultimately show ?thesis using False by (auto simp: s32_mult_s16_s16_shift_sat_def min_16_iff sat_id s32_mult_s16_s16_def)
qed

lemma sat_top:
  assumes "\<bar>p\<bar> \<le> 1073741824"
  shows "out 31 (2 * p) \<longleftrightarrow> p = 1073741824" "sat 31 (2 * p) = 2 * p - of_bool (p = 1073741824)"
  using assms by (simp_all add: out_def sat_def) linarith

text \<open>The exact product of the high and the low half, put together after the low one was rounded.\<close>

lemma split_div:
  "(v * (h * 65536 + l) + 16384) div 32768 = 2 * (v * h) + (v * l + 16384) div (32768 :: int)"
proof -
  have "v * (h * 65536 + l) + 16384 = (v * l + 16384) + (2 * (v * h)) * 32768" by (simp add: algebra_simps)
  then show ?thesis by simp
qed

lemma s32_mult_s32_s16_rnd_run [fx_runs]:
  "run_state (s32_mult_s32_s16_rnd_sat v w) s =
    (let top = (sint v < - 2147418112 \<and> sint w = - 32768);
         e = (sint v * sint w + 16384) div 32768 - of_bool top in
     (of_int (sat 31 e), flag (top \<or> out 31 e) s))"
proof -
  define h where "h = sint (s16_extract_s32_h v)"
  define l where "l = uint (s16_extract_s32_l v)"
  have hl: "h * 65536 + l = sint v" "0 \<le> l" "l \<le> 65535" "- 32768 \<le> h" "h \<le> 32767"
    using halves(1) [of v] uint_range16 [of "s16_extract_s32_l v"] int_ranges(1,2) [of "s16_extract_s32_h v"] by (simp_all add: h_def l_def)
  have top: "h = - 32768 \<longleftrightarrow> sint v < - 2147418112" using hl by linarith
  have low: "\<bar>sint w * l\<bar> \<le> 32768 * 65535" using int_ranges(1,2) [of w] hl by (intro mult_small) auto
  have first: "\<not> out 31 (sint w * l + 16384)" "\<not> out 31 ((sint w * l + 16384) div 32768)" using low by (auto simp: out_def)
  have prod: "sint (s32_mult_s16_u16 w (s16_extract_s32_l v)) = sint w * l" by (simp add: sint_mult_s16 l_def)
  have sh: "ashift x (- 15) = x div 32768" for x by (simp add: ashift_def)
  have run: "run_state (s32_mult_s32_s16_rnd_sat v w) s =
      (of_int (sat 31 ((sint w * l + 16384) div 32768 + sat 31 (2 * (sint w * h)))),
       flag (out 31 (2 * (sint w * h)) \<or> out 31 ((sint w * l + 16384) div 32768 + sat 31 (2 * (sint w * h)))) s)"
    unfolding s32_mult_s32_s16_rnd_sat_def using first
    by (simp add: fx_runs prod sh flip: h_def) (simp add: sat_id disj_commute)
  have hi: "sint w * h = 1073741824 \<longleftrightarrow> sint w = - 32768 \<and> h = - 32768" by (rule mult_half) (use int_ranges(1,2) [of w] hl in auto)
  have le: "\<bar>sint w * h\<bar> \<le> 32768 * 32768" using int_ranges(1,2) [of w] hl by (intro mult_small) auto
  note top_sat = sat_top [OF le [simplified], unfolded hi]
  have e: "(sint v * sint w + 16384) div 32768 = 2 * (sint w * h) + (sint w * l + 16384) div 32768"
    unfolding hl(1) [symmetric] using split_div [of "sint w" h l] by (simp add: mult.commute)
  show ?thesis unfolding run e top_sat top [symmetric] by (simp add: Let_def algebra_simps conj_commute)
qed

lemma floor_nest: "(x * 65536 + y) div 4294967296 = (x + y div 65536) div (65536 :: int)"
proof -
  have "(x * 65536 + y) div 4294967296 = (x * 65536 + y) div (65536 * 65536)" by simp
  also have "\<dots> = ((x * 65536 + y) div 65536) div 65536" by (subst zdiv_zmult2_eq) simp_all
  finally show ?thesis by (simp add: add.commute)
qed

lemma sint_of_uint32: "sint (w :: u32) = uint w - (if 2147483648 \<le> uint w then 4294967296 else 0)"
proof -
  have "sint w = (uint w + 2147483648) mod 4294967296 - 2147483648" by (simp add: sint_uint signed_take_bit_eq_take_bit_shift take_bit_eq_mod)
  then show ?thesis using uint_range32 [of w] mod_shift [of 4294967296 "uint w + 2147483648"] by auto
qed

lemma low_product:
  "sint (s16_extract_s32_h (u32_mult_u16_u16 c d)) = uint c * uint d div 65536 - (if 2147483648 \<le> uint c * uint d then 65536 else 0)"
proof -
  have "(k - 4294967296) div 65536 = k div 65536 - 65536" for k :: int by simp
  then show ?thesis by (simp add: extract_h(2) sint_of_uint32 sint_mult_s16)
qed

lemma split_product:
  "((a * 65536 + b) * (c * 65536 + d) + 2147483648) div 4294967296 = a * c + (a * d + c * b + b * d div 65536 + 32768) div (65536 :: int)"
proof -
  have "(a * 65536 + b) * (c * 65536 + d) + 2147483648 = ((a * d + c * b + 32768) * 65536 + b * d) + a * c * 4294967296"
    by (simp add: algebra_simps)
  then have "((a * 65536 + b) * (c * 65536 + d) + 2147483648) div 4294967296 = ((a * d + c * b + 32768) * 65536 + b * d) div 4294967296 + a * c"
    by simp
  then show ?thesis unfolding floor_nest by (simp add: algebra_simps)
qed

lemma s64_sums: "s64_add_s64_s32 (of_int k) b = of_int (k + sint b)" "s64_add_s32_s32 c d = of_int (sint c + sint d)"
  by (simp_all add: s64_add_s64_s32_def s64_add_s32_s32_def)

definition low_carry :: "s32 \<Rightarrow> s32 \<Rightarrow> bool" where
  "low_carry v w \<longleftrightarrow> 2147483648 \<le> (sint v mod 65536) * (sint w mod 65536)"

lemma s32_mult_s32_s32_rnd_run [fx_runs]:
  "run_state (s32_mult_s32_s32_rnd_sat v w) s =
    (Some (of_int ((sint v * sint w + 2147483648) div 4294967296 - of_bool (low_carry v w))), s)"
proof -
  define a b c d where "a = sint (s16_extract_s32_h v)" and "b = uint (s16_extract_s32_l v)"
    and "c = sint (s16_extract_s32_h w)" and "d = uint (s16_extract_s32_l w)"
  have v: "sint v = a * 65536 + b" "sint v mod 65536 = b" and w: "sint w = c * 65536 + d" "sint w mod 65536 = d"
    using halves(1) [of v] halves(1) [of w] extract_l(1) [of v] extract_l(1) [of w] by (simp_all add: a_def b_def c_def d_def)
  have r: "0 \<le> b" "b \<le> 65535" "0 \<le> d" "d \<le> 65535" "- 32768 \<le> a" "a \<le> 32767" "- 32768 \<le> c" "c \<le> 32767"
    using uint_range16 [of "s16_extract_s32_l v"] uint_range16 [of "s16_extract_s32_l w"]
      int_ranges(1,2) [of "s16_extract_s32_h v"] int_ranges(1,2) [of "s16_extract_s32_h w"] by (simp_all add: a_def b_def c_def d_def)
  have m: "\<bar>a * d\<bar> \<le> 32768 * 65535" "\<bar>c * b\<bar> \<le> 32768 * 65535" "\<bar>a * c\<bar> \<le> 32768 * 32768" "\<bar>b * d\<bar> \<le> 65535 * 65535"
    using r by (intro mult_small; simp)+
  define low where "low = b * d div 65536 - (if 2147483648 \<le> b * d then 65536 else 0)"
  have "0 \<le> b * d" using r by simp
  then have low: "\<bar>low\<bar> \<le> 65536" using m(4) by (auto simp: low_def)
  define x where "x = a * d + c * b + low + 32768"
  have e: "(sint v * sint w + 2147483648) div 4294967296 - of_bool (low_carry v w) = x div 65536 + a * c"
  proof -
    have "x = (a * d + c * b + b * d div 65536 + 32768) - of_bool (2147483648 \<le> b * d) * 65536" by (simp add: x_def low_def)
    then have "x div 65536 = (a * d + c * b + b * d div 65536 + 32768) div 65536 - of_bool (2147483648 \<le> b * d)" by (cases "2147483648 \<le> b * d") simp_all
    then show ?thesis unfolding low_carry_def v(2) w(2) unfolding v(1) w(1) split_product by simp
  qed
  have x1: "\<bar>x\<bar> \<le> 4296000000" using m low unfolding x_def by linarith
  then have "x div 65536 \<le> 65600" "- 65600 \<le> x div 65536" by auto
  then have x2: "\<bar>x div 65536 + a * c\<bar> \<le> 1073900000" using m(3) by linarith
  have sum: "s64_add_s64_s32 (s64_add_s64_s32 (s64_add_s32_s32 (s32_mult_s16_u16 (s16_extract_s32_h v) (s16_extract_s32_l w))
      (s32_mult_s16_u16 (s16_extract_s32_h w) (s16_extract_s32_l v)))
      (scast (s16_extract_s32_h (u32_mult_u16_u16 (s16_extract_s32_l v) (s16_extract_s32_l w))))) 0x8000 = of_int x"
    unfolding s64_sums sint_casts low_product sint_mult_s16 by (simp add: x_def low_def a_def b_def c_def d_def)
  have "sint (of_int x :: s64) = x" by (rule sint_of_int64) (use x1 in auto)
  moreover have "sint (of_int (x div 65536 + a * c) :: s64) = x div 65536 + a * c" by (rule sint_of_int64) (use x2 in auto)
  moreover have "\<not> out 31 (x div 65536 + a * c)" using x2 by (auto simp: out_def)
  ultimately show ?thesis unfolding e unfolding s32_mult_s32_s32_rnd_sat_def Let_def sum s64_shr_16
    by (simp add: s64_sums sint_mult_s16 fx_runs sat_id a_def c_def)
qed

end
