(* ===== verification/Basic_Op_Norm.thy ===== *)
theory Basic_Op_Norm
  imports Basic_Op_Proofs
begin

text \<open>
  The loops of the fixed-point operators: normalisation and the shifts without saturation, which
  call each other. For each the arguments for which it ends, and the result.
\<close>

subsection \<open>Normalisation\<close>

text \<open>A number that uses all of 32 bits: its two highest bits differ.\<close>

definition normal :: "int \<Rightarrow> bool" where
  "normal k \<longleftrightarrow> 1073741824 \<le> k \<and> k \<le> 2147483647 \<or> - 2147483648 \<le> k \<and> k < - 1073741824"

lemma sint_push_1: "- 1073741824 \<le> sint w \<Longrightarrow> sint w < 1073741824 \<Longrightarrow> sint (push_bit 1 w :: s32) = 2 * sint w"
  using sint_double32 [of w] by (simp add: push_bit_eq_mult mult.commute)

lemma normal_step:
  assumes "normal (x * 2 ^ Suc n)"
  shows "- 1073741824 \<le> x" "x < 1073741824"
proof -
  define y where "y = x * 2 ^ n"
  have "\<bar>x\<bar> * 1 \<le> \<bar>x\<bar> * 2 ^ n" by (intro mult_left_mono) auto
  then have "\<bar>x\<bar> \<le> \<bar>y\<bar>" by (simp add: y_def abs_mult)
  moreover have "0 \<le> x \<longleftrightarrow> 0 \<le> y" by (simp add: y_def zero_le_mult_iff)
  moreover have "normal (2 * y)" using assms by (simp add: y_def mult.left_commute)
  then have "- 1073741824 \<le> y" "y < 1073741824" by (auto simp: normal_def)
  ultimately show "- 1073741824 \<le> x" "x < 1073741824" by linarith+
qed

lemma norm_pos_run:
  "0 < sint v \<Longrightarrow> normal (sint v * 2 ^ n) \<Longrightarrow> norm_pos v c = Some (c + of_nat n)"
proof (induction n arbitrary: v c)
  case 0
  then show ?case by (subst norm_pos.simps) (auto simp: normal_def word_sle_eq)
next
  case (Suc n)
  note r = normal_step [OF Suc.prems(2)]
  have "sint (push_bit 1 v) = 2 * sint v" by (rule sint_push_1) (use r in simp_all)
  then have "norm_pos (push_bit 1 v) (c + 1) = Some (c + 1 + of_nat n)"
    using Suc.prems by (intro Suc.IH) (simp_all add: mult.assoc mult.left_commute)
  then show ?case using r by (subst norm_pos.simps) (simp add: word_sle_eq add.assoc)
qed

lemma norm_neg_run:
  "sint v < 0 \<Longrightarrow> normal (sint v * 2 ^ n) \<Longrightarrow> norm_neg v c = Some (c + of_nat n)"
proof (induction n arbitrary: v c)
  case 0
  then show ?case by (subst norm_neg.simps) (auto simp: normal_def word_sle_eq word_sless_alt)
next
  case (Suc n)
  note r = normal_step [OF Suc.prems(2)]
  have "sint (push_bit 1 v) = 2 * sint v" by (rule sint_push_1) (use r in simp_all)
  then have "norm_neg (push_bit 1 v) (c + 1) = Some (c + 1 + of_nat n)"
    using Suc.prems by (intro Suc.IH) (simp_all add: mult.assoc mult.left_commute)
  then show ?case using r by (subst norm_neg.simps) (simp add: word_sless_alt add.assoc)
qed

lemma log_pos: "0 < k \<Longrightarrow> k < 2 ^ Suc m \<Longrightarrow> \<exists>n \<le> m. 2 ^ m \<le> k * 2 ^ n \<and> k * 2 ^ n < (2 :: int) ^ Suc m"
proof (induction m)
  case (Suc m)
  show ?case
  proof (cases "2 ^ Suc m \<le> k")
    case True
    then show ?thesis using Suc.prems by (intro exI [of _ 0]) auto
  next
    case False
    then obtain n where "n \<le> m" "2 ^ m \<le> k * 2 ^ n" "k * 2 ^ n < 2 ^ Suc m" using Suc by auto
    then show ?thesis by (intro exI [of _ "Suc n"]) auto
  qed
qed auto

lemma log_neg: "0 < k \<Longrightarrow> k \<le> 2 ^ Suc m \<Longrightarrow> \<exists>n \<le> Suc m. 2 ^ m < k * 2 ^ n \<and> k * 2 ^ n \<le> (2 :: int) ^ Suc m"
proof (induction m)
  case 0
  then have "k = 1 \<or> k = 2" by auto
  then show ?case by (auto intro: exI [of _ 0] exI [of _ 1])
next
  case (Suc m)
  show ?case
  proof (cases "2 ^ Suc m < k")
    case True
    then show ?thesis using Suc.prems by (intro exI [of _ 0]) auto
  next
    case False
    then obtain n where "n \<le> Suc m" "2 ^ m < k * 2 ^ n" "k * 2 ^ n \<le> 2 ^ Suc m" using Suc by auto
    then show ?thesis by (intro exI [of _ "Suc n"]) auto
  qed
qed

lemma normal_exists:
  assumes "k \<noteq> 0" "- 2147483648 \<le> k" "k \<le> 2147483647"
  shows "\<exists>n \<le> 31. normal (k * 2 ^ n)"
proof (cases "0 < k")
  case True
  then obtain n where "n \<le> 30" "2 ^ 30 \<le> k * 2 ^ n" "k * 2 ^ n < 2 ^ Suc 30" using log_pos [of k 30] assms by auto
  then show ?thesis by (intro exI [of _ n]) (auto simp: normal_def)
next
  case False
  then obtain n where n: "n \<le> 31" "2 ^ 30 < - k * 2 ^ n" "- k * 2 ^ n \<le> 2 ^ Suc 30" using log_neg [of "- k" 30] assms by auto
  then have "normal (k * 2 ^ n)" by (simp add: normal_def)
  then show ?thesis using n(1) by blast
qed

lemma s16_norm_s32_run: "v \<noteq> 0 \<Longrightarrow> \<exists>n \<le> 31. s16_norm_s32 v = Some (of_nat n) \<and> normal (sint v * 2 ^ n)"
proof -
  assume v: "v \<noteq> 0"
  then have nz: "sint v \<noteq> 0" using eq_of_int [of v 0] by auto
  obtain n where n: "n \<le> 31" "normal (sint v * 2 ^ n)" using normal_exists [OF nz] int_ranges(3,4) [of v] by auto
  have "s16_norm_s32 v = Some (of_nat n)"
    using norm_pos_run [OF _ n(2), of 0] norm_neg_run [OF _ n(2), of 0] and_MIN_32 [of v] nz v
    by (cases "sint v < 0") (simp_all add: s16_norm_s32_def)
  then show ?thesis using n by blast
qed

text \<open>The loops on 64 bits: the first doubles until the number leaves 32 bits, the second halves it until it is back.\<close>

lemma push_64: "- 4294967296 \<le> sint w \<Longrightarrow> sint w \<le> 4294967296 \<Longrightarrow> sint (push_bit 1 w :: s64) = 2 * sint w"
  using sint_arith64(3) [of 2 w] by (simp add: push_bit_eq_mult mult.commute)

lemma norm_up_step:
  "norm_up v c = (if - 2147483648 < sint v \<and> sint v < 2147483647 then norm_up (push_bit 1 v) (c + 1) else Some (v, c))"
  by (subst norm_up.simps) (simp add: word_sless_alt)

lemma norm_down_step:
  "norm_down v c = (if sint v < - 2147483648 \<or> 2147483647 < sint v then norm_down (signed_drop_bit 1 v) (c - 1) else Some (v, c))"
  by (subst norm_down.simps) (simp add: word_sless_alt)

lemma norm_up_run: "normal (sint v * 2 ^ n) \<Longrightarrow> \<exists>w. sint w = sint v * 2 ^ n \<and> norm_up v c = norm_up w (c + of_nat n)"
proof (induction n arbitrary: v c)
  case (Suc n)
  note r = normal_step [OF Suc.prems]
  have d: "sint (push_bit 1 v) = 2 * sint v" by (rule push_64) (use r in simp_all)
  then have "normal (sint (push_bit 1 v) * 2 ^ n)" using Suc.prems by (simp add: mult.assoc mult.left_commute)
  from Suc.IH [OF this, of "c + 1"] obtain w where "sint w = sint v * 2 ^ Suc n" "norm_up (push_bit 1 v) (c + 1) = norm_up w (c + of_nat (Suc n))"
    unfolding d by (auto simp: ac_simps)
  then show ?case using r norm_up_step [of v c] by auto
qed auto

lemma norm_tail:
  assumes "normal (sint w)"
  shows "\<exists>u. (do { (v, c) \<leftarrow> norm_up w c; norm_down v c }) = Some (u, c)"
proof (cases "- 2147483648 < sint w \<and> sint w < 2147483647")
  case True
  have r: "sint (push_bit 1 w) = 2 * sint w" by (rule push_64) (use True in simp_all)
  have far: "2 * sint w < - 2147483648 \<or> 2147483647 < 2 * sint w" using assms by (auto simp: normal_def)
  have ret_w: "sint (signed_drop_bit 1 (push_bit 1 w)) = sint w" by (simp only: sint_signed_drop r) simp
  have "norm_up w c = Some (push_bit 1 w, c + 1)" using True far r norm_up_step [of w c] norm_up_step [of "push_bit 1 w" "c + 1"] by auto
  moreover have "norm_down (push_bit 1 w) (c + 1) = Some (signed_drop_bit 1 (push_bit 1 w), c)"
    using True far r ret_w norm_down_step [of "push_bit 1 w" "c + 1"] norm_down_step [of "signed_drop_bit 1 (push_bit 1 w)" c] by auto
  ultimately show ?thesis by simp
next
  case False
  then show ?thesis using assms norm_up_step [of w c] norm_down_step [of w c] by (auto simp: normal_def)
qed

lemma norm_down_run:
  "- (2 ^ (31 + m)) \<le> sint v \<Longrightarrow> sint v < 2 ^ (31 + m) \<Longrightarrow> sint v < - 2147483648 \<or> 2147483647 < sint v \<Longrightarrow>
   \<exists>n u. 0 < n \<and> n \<le> m \<and> normal (sint v div 2 ^ n) \<and> norm_down v c = Some (u, c - of_nat n)"
proof (induction m arbitrary: v c)
  case 0
  then show ?case by simp
next
  case (Suc m)
  let ?h = "signed_drop_bit 1 v"
  have h: "sint ?h = sint v div 2" by (simp add: sint_signed_drop)
  show ?case
  proof (cases "sint ?h < - 2147483648 \<or> 2147483647 < sint ?h")
    case True
    have "- (2 ^ (31 + m)) \<le> sint ?h" "sint ?h < 2 ^ (31 + m)" using Suc.prems(1,2) unfolding h add_Suc_right power_Suc by linarith+
    from Suc.IH [OF this True, of "c - 1"] obtain n u where n: "0 < n" "n \<le> m" "normal (sint ?h div 2 ^ n)" "norm_down ?h (c - 1) = Some (u, c - 1 - of_nat n)"
      by blast
    have "sint ?h div 2 ^ n = sint v div 2 ^ Suc n" unfolding h power_Suc by (simp add: zdiv_zmult2_eq)
    moreover have "norm_down v c = Some (u, c - of_nat (Suc n))" using n(4) Suc.prems(3) norm_down_step [of v c] by (simp add: algebra_simps)
    ultimately show ?thesis using n by (intro exI [of _ "Suc n"] exI [of _ u]) auto
  next
    case False
    then have "norm_down v c = Some (?h, c - 1)" using Suc.prems(3) norm_down_step [of v c] norm_down_step [of ?h "c - 1"] by auto
    moreover have "normal (sint v div 2)" using Suc.prems(3) False unfolding h by (auto simp: normal_def)
    ultimately show ?thesis by (intro exI [of _ 1] exI [of _ ?h]) simp
  qed
qed

lemma s16_norm_s64_run: "v \<noteq> 0 \<Longrightarrow> \<exists>n. - 32 \<le> n \<and> n \<le> 31 \<and> s16_norm_s64 v = Some (of_int n) \<and> normal (ashift (sint v) n)"
proof -
  assume v: "v \<noteq> 0"
  then have nz: "sint v \<noteq> 0" using eq_of_int [of v 0] by auto
  show ?thesis
  proof (cases "- 2147483648 \<le> sint v \<and> sint v \<le> 2147483647")
    case True
    then obtain n where n: "n \<le> 31" "normal (sint v * 2 ^ n)" using normal_exists [OF nz] by auto
    then obtain w where w: "sint w = sint v * 2 ^ n" "norm_up v 0 = norm_up w (of_nat n)" using norm_up_run [OF n(2), of 0] by auto
    obtain u where "(do { (v, c) \<leftarrow> norm_up w (of_nat n); norm_down v c }) = Some (u, of_nat n)" using norm_tail [of w "of_nat n"] n w by auto
    then have "s16_norm_s64 v = Some (of_nat n)" using v w by (auto simp: s16_norm_s64_def split: bind_splits)
    then show ?thesis using n by (intro exI [of _ "int n"]) (simp add: ashift_def)
  next
    case False
    then have far: "sint v < - 2147483648 \<or> 2147483647 < sint v" by auto
    then obtain n u where n: "0 < n" "n \<le> 32" "normal (sint v div 2 ^ n)" "norm_down v 0 = Some (u, - of_nat n)"
      using norm_down_run [of 32 v 0] int_ranges(5,6) [of v] by auto
    have "norm_up v 0 = Some (v, 0)" using far norm_up_step [of v 0] by auto
    then have "s16_norm_s64 v = Some (- of_nat n)" using v n by (simp add: s16_norm_s64_def)
    then show ?thesis using n by (intro exI [of _ "- int n"]) (simp add: ashift_def)
  qed
qed

subsection \<open>Shifts without saturation\<close>

lemma neg_min_16: "- (32768 :: s16) = 32768"
  by simp

lemma shift_s32_min: "shift_s32 right v k = Some w \<Longrightarrow> v = 0 \<or> k \<noteq> MIN_16"
proof (rule shift_s32.raw_induct [where P = "\<lambda>right v k w. v = 0 \<or> k \<noteq> MIN_16"])
  fix rec :: "bool \<Rightarrow> s32 \<Rightarrow> s16 \<Rightarrow> s32 option" and right v k w
  assume "\<And>right v k w. rec right v k = Some w \<Longrightarrow> v = 0 \<or> k \<noteq> MIN_16"
  then have "rec right v MIN_16 = None \<or> v = 0" for right by (metis option.exhaust)
  moreover assume "(if k = 0 \<or> v = 0 then Some v
     else if k <s 0 then rec (\<not> right) v (- k)
     else if 32 \<le>s k then None
     else if right then let L_Mask = (if v <s 0 then push_bit (32 - unat k) (NOT 0) else 0) in Some (L_Mask OR signed_drop_bit (unat k) v)
     else Some (push_bit (unat k) v)) = Some w"
  ultimately show "v = 0 \<or> k \<noteq> MIN_16" by (auto simp: word_sless_alt neg_min_16)
qed

lemma push_of_int: "push_bit n v = of_int (sint v * 2 ^ n)" for v :: "'a :: len word"
  by (simp add: push_bit_eq_mult)

lemma shift_s32_pos:
  assumes "v \<noteq> 0" "0 \<le> sint k"
  shows "shift_s32 right v k = (if sint k < 32 then Some (of_int (ashift (sint v) (if right then - sint k else sint k))) else None)"
proof (cases "k = 0")
  case True
  then show ?thesis by (subst shift_s32.simps) simp
next
  case False
  then have k: "sint k \<noteq> 0" using eq_of_int [of k 0] by auto
  have u: "unat k = nat (sint k)" by (rule unat_sint) fact
  have "(if v <s 0 then push_bit (32 - unat k) (NOT 0) else 0) OR signed_drop_bit (unat k) v = signed_drop_bit (unat k) v" if "sint k < 32"
    using shr_mask32 [of v "unat k"] that by (simp add: word_sless_alt u)
  moreover have "signed_drop_bit (unat k) v = of_int (sint v div 2 ^ nat (sint k))" by (rule eq_of_int) (simp add: sint_signed_drop u)
  ultimately show ?thesis using assms False k
    by (subst shift_s32.simps) (auto simp: word_sless_alt word_sle_eq u push_of_int ashift_def Let_def)
qed

lemma shift_s32_run:
  "shift_s32 right v k = (if v = 0 \<or> \<bar>sint k\<bar> < 32 then Some (of_int (ashift (sint v) (if right then - sint k else sint k))) else None)"
proof (cases "v = 0 \<or> 0 \<le> sint k")
  case True
  then show ?thesis using shift_s32_pos [of v k right] by (cases "v = 0") (subst shift_s32.simps, auto)
next
  case False
  show ?thesis
  proof (cases "k = MIN_16")
    case True
    then show ?thesis using False shift_s32_min [of right v k] by (cases "shift_s32 right v k") auto
  next
    case k: False
    then have n: "sint (- k) = - sint k" by (rule sint_neg)
    have "shift_s32 right v k = shift_s32 (\<not> right) v (- k)" using False by (subst shift_s32.simps) (auto simp: word_sless_alt)
    then show ?thesis using False shift_s32_pos [of v "- k" "\<not> right"] by (auto simp: n)
  qed
qed

lemma shift_s16_min: "shift_s16 right v k = Some w \<Longrightarrow> v = 0 \<or> k \<noteq> MIN_16"
proof (rule shift_s16.raw_induct [where P = "\<lambda>right v k w. v = 0 \<or> k \<noteq> MIN_16"])
  fix rec :: "bool \<Rightarrow> s16 \<Rightarrow> s16 \<Rightarrow> s16 option" and right v k w
  assume "\<And>right v k w. rec right v k = Some w \<Longrightarrow> v = 0 \<or> k \<noteq> MIN_16"
  then have "rec right v MIN_16 = None \<or> v = 0" for right by (metis option.exhaust)
  moreover assume "(if k = 0 \<or> v = 0 then Some v
     else if k <s 0 then rec (\<not> right) v (- k)
     else if right then
       (if (if v <s 0 then 16 else 31) <s k then None
        else let swMask = (if v <s 0 then ucast (push_bit (16 - unat k) (NOT 0 :: s32)) else 0) in
           Some (swMask OR ucast (signed_drop_bit (unat k) (scast v :: s32))))
     else if 32 \<le>s k then None
     else Some (ucast (scast v * push_bit (unat k) 1 :: s32))) = Some w"
  ultimately show "v = 0 \<or> k \<noteq> MIN_16" by (auto simp: word_sless_alt neg_min_16)
qed

text \<open>The longest shift for which the C expression is defined.\<close>

definition s16_shift_defined :: "s16 \<Rightarrow> int \<Rightarrow> bool" where
  "s16_shift_defined v e \<longleftrightarrow> v = 0 \<or> e < 32 \<and> - e \<le> (if sint v < 0 then 16 else 31)"

lemma drop_16: "ucast (signed_drop_bit n (scast (v :: s16) :: s32)) = (of_int (sint v div 2 ^ n) :: s16)"
  by (simp add: ucast_of_sint sint_signed_drop)

lemma ucast_of_int_16: "ucast (of_int k :: s32) = (of_int k :: s16)"
  by (rule bit_word_eqI) (simp add: bit_simps)

lemma mult_16: "ucast (scast (v :: s16) * push_bit n 1 :: s32) = (of_int (sint v * 2 ^ n) :: s16)"
proof -
  have "scast v * push_bit n 1 = (of_int (sint v * 2 ^ n) :: s32)" by (simp add: push_bit_eq_mult)
  then show ?thesis by (simp only: ucast_of_int_16)
qed

lemma shr_mask16': "sint (v :: s16) < 0 \<Longrightarrow> n \<le> 16 \<Longrightarrow> ucast (push_bit (16 - n) (NOT 0 :: s32)) OR (of_int (sint v div 2 ^ n) :: s16) = of_int (sint v div 2 ^ n)"
proof -
  have "signed_drop_bit n v = of_int (sint v div 2 ^ n)" by (rule eq_of_int) (simp add: sint_signed_drop)
  then show "sint v < 0 \<Longrightarrow> n \<le> 16 \<Longrightarrow> ?thesis" using shr_mask16 [of v n] by simp
qed

lemma shift_s16_pos:
  assumes "v \<noteq> 0" "0 \<le> sint k"
  shows "shift_s16 right v k = (if s16_shift_defined v (if right then - sint k else sint k)
    then Some (of_int (ashift (sint v) (if right then - sint k else sint k))) else None)"
proof (cases "k = 0")
  case True
  then show ?thesis by (subst shift_s16.simps) (simp add: s16_shift_defined_def)
next
  case False
  then have k: "sint k \<noteq> 0" "\<not> k <s 0" using eq_of_int [of k 0] assms(2) by (auto simp: word_sless_alt)
  have u: "unat k = nat (sint k)" by (rule unat_sint) fact
  have m: "(if v <s 0 then ucast (push_bit (16 - unat k) (NOT 0 :: s32)) else 0) OR (of_int (sint v div 2 ^ nat (sint k)) :: s16) = of_int (sint v div 2 ^ nat (sint k))"
    if "sint v < 0 \<longrightarrow> sint k \<le> 16" using shr_mask16' [of v "nat (sint k)"] that by (auto simp: word_sless_alt u nat_le_iff)
  have l: "ucast (scast v * push_bit (unat k) 1 :: s32) = (of_int (sint v * 2 ^ nat (sint k)) :: s16)" unfolding u by (rule mult_16)
  show ?thesis
  proof (cases right)
    case True
    then show ?thesis using assms False k m
      by (subst shift_s16.simps, unfold drop_16 u) (auto simp: word_sless_alt s16_shift_defined_def ashift_def Let_def)
  next
    case False
    then show ?thesis using assms \<open>k \<noteq> 0\<close> k l
      by (subst shift_s16.simps) (auto simp: word_sle_eq s16_shift_defined_def ashift_def)
  qed
qed

lemma shift_s16_run:
  "shift_s16 right v k = (let e = (if right then - sint k else sint k) in if s16_shift_defined v e then Some (of_int (ashift (sint v) e)) else None)"
proof (cases "v = 0 \<or> 0 \<le> sint k")
  case True
  then show ?thesis using shift_s16_pos [of v k right] by (cases "v = 0") (subst shift_s16.simps, auto simp: s16_shift_defined_def Let_def)
next
  case False
  show ?thesis
  proof (cases "k = MIN_16")
    case True
    then show ?thesis using False shift_s16_min [of right v k] by (cases "shift_s16 right v k") (auto simp: s16_shift_defined_def Let_def)
  next
    case k: False
    then have n: "sint (- k) = - sint k" by (rule sint_neg)
    have "shift_s16 right v k = shift_s16 (\<not> right) v (- k)" using False by (subst shift_s16.simps) (auto simp: word_sless_alt)
    then show ?thesis using False shift_s16_pos [of v "- k" "\<not> right"] by (auto simp: n Let_def)
  qed
qed

end
