(* ===== verification/Basic_Op_Spec.thy ===== *)
theory Basic_Op_Spec
  imports Basic_Op_Norm
begin

text \<open>
  The contract of the operators that saturate, its interpretation on the operators of the source, and the properties of the
  fixed-point operators.
\<close>

subsection \<open>Operators that saturate\<close>

text \<open>
  An operator that computes \<open>exact x\<close>, cut to \<open>m\<close> bits and a sign: when something is cut off the flag is raised, and
  nothing else of the state changes.
\<close>

locale saturating =
  fixes m :: nat and f :: "'x \<Rightarrow> 'r :: len word fx" and exact :: "'x \<Rightarrow> int"
  assumes run: "run_state (f x) s = (of_int (sat m (exact x)), flag (out m (exact x)) s)"
    and width: "m < LENGTH('r)"
begin

lemma result: "sint (fst (run_state (f x) s)) = sat m (exact x)"
proof -
  define d where "d = LENGTH('r) - Suc 0 - m"
  have d: "LENGTH('r) - Suc 0 = m + d" using width by (simp add: d_def)
  have "(2 :: int) ^ m \<le> 2 ^ (m + d)" by (intro power_increasing) auto
  then have "signed_take_bit (m + d) (sat m (exact x)) = sat m (exact x)"
    using sat_range [of m "exact x"] by (intro signed_take_bit_int_eq_self) linarith+
  then show ?thesis by (simp add: run sint_sbintrunc' d)
qed

text \<open>A flag that is raised stays raised.\<close>

lemma sticky: "giOverflow s = 1 \<Longrightarrow> giOverflow (snd (run_state (f x) s)) = 1"
  by (simp add: run flag_def)

text \<open>Between clearing the flag and restoring it the flag tells whether this operation saturated.\<close>

lemma bracket:
  "run_state (do { _ \<leftarrow> clearOverflow; r \<leftarrow> f x; i \<leftarrow> popOverflow; ret (r, i) }) s =
    ((of_int (sat m (exact x)), of_bool (out m (exact x))), s\<lparr>giOldOverflow := giOverflow s\<rparr>)"
  by (simp add: run clearOverflow_def popOverflow_def flag_def State_Monad.update_def State_Monad.get_def State_Monad.set_def Let_def)

end

interpretation sat_s32: saturating 15 s16_saturate_s32 sint
  by unfold_locales (simp_all add: fx_runs)

interpretation sat_s64: saturating 31 s32_saturate_s64 sint
  by unfold_locales (simp_all add: fx_runs)

interpretation add16: saturating 15 "\<lambda>(a, b). s16_add_s16_s16_sat a b" "\<lambda>(a, b). sint a + sint b"
  by unfold_locales (auto simp: fx_runs)

interpretation sub16: saturating 15 "\<lambda>(a, b). s16_sub_s16_s16_sat a b" "\<lambda>(a, b). sint a - sint b"
  by unfold_locales (auto simp: fx_runs)

interpretation add32: saturating 31 "\<lambda>(a, b). s32_add_s32_s32_sat a b" "\<lambda>(a, b). sint a + sint b"
  by unfold_locales (auto simp: fx_runs)

interpretation sub32: saturating 31 "\<lambda>(a, b). s32_sub_s32_s32_sat a b" "\<lambda>(a, b). sint a - sint b"
  by unfold_locales (auto simp: fx_runs)

interpretation neg16: saturating 15 s16_neg_s16_sat "\<lambda>a. - sint a"
  by unfold_locales (simp_all add: fx_runs)

interpretation neg32: saturating 31 s32_neg_s32_sat "\<lambda>a. - sint a"
  by unfold_locales (simp_all add: fx_runs)

interpretation abs16: saturating 15 u16_abs_s16_sat "\<lambda>a. \<bar>sint a\<bar>"
  by unfold_locales (simp_all add: fx_runs)

interpretation abs32: saturating 31 u32_abs_s32_sat "\<lambda>a. \<bar>sint a\<bar>"
  by unfold_locales (simp_all add: fx_runs)

interpretation round16: saturating 15 s16_round_s32_sat "\<lambda>a. (sint a + 32768) div 65536"
  by unfold_locales (simp_all add: fx_runs)

interpretation mult32: saturating 31 "\<lambda>(a, b). s32_mult_s16_s16_shift_sat a b" "\<lambda>(a, b). 2 * (sint a * sint b)"
  by unfold_locales (auto simp: fx_runs)

interpretation mac32: saturating 31 "\<lambda>(c, a, b). s32_mac_s32_s16_s16_sat c a b" "\<lambda>(c, a, b). sint c + sint a * sint b"
  by unfold_locales (auto simp: fx_runs)

subsection \<open>Properties\<close>

text \<open>C32: Sums, differences, negation, absolute value and rounding to the high half give the exact result, cut to the range of their
  type, and raise the flag exactly when something is cut off; a flag that is raised stays raised.\<close>

theorem fx_sums_saturate:
  "(\<forall>a b. sint (fst (run_state (s16_add_s16_s16_sat a b) s)) = sat 15 (sint a + sint b)
     \<and> snd (run_state (s16_add_s16_s16_sat a b) s) = flag (out 15 (sint a + sint b)) s)
   \<and> (\<forall>a b. sint (fst (run_state (s16_sub_s16_s16_sat a b) s)) = sat 15 (sint a - sint b)
     \<and> snd (run_state (s16_sub_s16_s16_sat a b) s) = flag (out 15 (sint a - sint b)) s)
   \<and> (\<forall>a b. sint (fst (run_state (s32_add_s32_s32_sat a b) s)) = sat 31 (sint a + sint b)
     \<and> snd (run_state (s32_add_s32_s32_sat a b) s) = flag (out 31 (sint a + sint b)) s)
   \<and> (\<forall>a b. sint (fst (run_state (s32_sub_s32_s32_sat a b) s)) = sat 31 (sint a - sint b)
     \<and> snd (run_state (s32_sub_s32_s32_sat a b) s) = flag (out 31 (sint a - sint b)) s)
   \<and> (\<forall>a. sint (fst (run_state (s32_neg_s32_sat a) s)) = sat 31 (- sint a)
     \<and> snd (run_state (s32_neg_s32_sat a) s) = flag (out 31 (- sint a)) s)
   \<and> (\<forall>a. sint (fst (run_state (u32_abs_s32_sat a) s)) = sat 31 \<bar>sint a\<bar>
     \<and> snd (run_state (u32_abs_s32_sat a) s) = flag (out 31 \<bar>sint a\<bar>) s)
   \<and> (\<forall>a. sint (fst (run_state (s16_round_s32_sat a) s)) = sat 15 ((sint a + 32768) div 65536)
     \<and> snd (run_state (s16_round_s32_sat a) s) = flag (out 15 ((sint a + 32768) div 65536)) s)"
  using add16.result [of "(a, b)" s for a b] sub16.result [of "(a, b)" s for a b] add32.result [of "(a, b)" s for a b]
    sub32.result [of "(a, b)" s for a b] neg32.result [of _ s] abs32.result [of _ s] round16.result [of _ s]
  by (simp add: fx_runs)

text \<open>C21: The saturating shifts of 32-bit numbers end for every shift and compute the number times a power of two, rounded down and cut
  to 32 bits; the two directions mirror each other. The flag is raised when something is cut off, and for \<open>-1\<close> shifted by 31 to the left.\<close>

theorem fx_shifts_saturate:
  "run_state (s32_shl_s32_sat v k) s =
     (of_int (sat 31 (ashift (sint v) (sint k))), flag (out 31 (ashift (sint v) (sint k)) \<or> sint v = - 1 \<and> sint k = 31) s)
   \<and> run_state (s32_shr_s32_sat v k) s =
     (of_int (sat 31 (ashift (sint v) (- sint k))), flag (out 31 (ashift (sint v) (- sint k)) \<or> sint v = - 1 \<and> sint k = - 31) s)"
  by (simp only: fx_runs)

text \<open>The rounding shifts give the nearest integer to the number times a power of two, halves upwards, for every shift, the
  longest ones included; only a shift to the left saturates.\<close>

theorem fx_shifts_round:
  "run_state (s32_shl_s32_rnd_sat v k) s =
     (of_int (sat 31 (rshift (sint v) (sint k))), flag (out 31 (rshift (sint v) (sint k)) \<or> sint v = - 1 \<and> sint k = 31) s)
   \<and> run_state (s16_shl_s16_sat_rnd a k) s =
     (of_int (sat 15 (rshift (sint a) (sint k))), flag (out 15 (rshift (sint a) (sint k)) \<or> sint a = - 1 \<and> sint k = 15) s)"
  by (simp only: fx_runs)

text \<open>The products of a 32-bit and a 16-bit number that are put together from those of the halves are the exact products.\<close>

theorem fx_products_exact:
  "map_option sint (s64_mult_s32_s16 a b) = Some (sint a * sint b)
   \<and> map_option sint (s64_mult_u32_s16 c b) = Some (uint c * sint b)
   \<and> map_option sint (s64_mult_s32_u16 a d) = Some (sint a * uint d)"
  by (simp only: s64_mult_s32_s16_ok s64_mult_u32_s16_ok s64_mult_s32_u16_ok)

text \<open>C27: The fractional product of two 32-bit numbers is the high half of the product, rounded to the nearest, except that
  it is one less when the product of the low halves has its highest bit set; it never saturates.\<close>

theorem fx_mult_rounds:
  "run_state (s32_mult_s32_s32_rnd_sat v w) s =
    (Some (of_int ((sint v * sint w + 2147483648) div 4294967296
       - of_bool (2147483648 \<le> (sint v mod 65536) * (sint w mod 65536)))), s)"
  by (simp only: fx_runs low_carry_def)

text \<open>C24: Normalisation ends for every number. The shift it returns for a number other than 0 brings it to a number that uses all of
  32 bits; it is between 0 and 31 for a number of 32 bits and between -32 and 31 for one of 64 bits.\<close>

theorem fx_norm_ends:
  "s16_norm_s32 0 = Some 0 \<and> s16_norm_s64 0 = Some 0
   \<and> (\<forall>v. v = 0 \<or> (\<exists>n \<le> 31. s16_norm_s32 v = Some (of_nat n) \<and> normal (sint v * 2 ^ n)))
   \<and> (\<forall>v. v = 0 \<or> (\<exists>n. - 32 \<le> n \<and> n \<le> 31 \<and> s16_norm_s64 v = Some (of_int n) \<and> normal (ashift (sint v) n)))"
  using s16_norm_s32_run s16_norm_s64_run by (auto simp: s16_norm_s32_def s16_norm_s64_def)


text \<open>Between clearing the overflow flag and popping it the flag tells whether the operation in between saturated, and the flag of
  the caller is restored.\<close>

theorem fx_flag_bracket:
  "run_state (do { _ \<leftarrow> clearOverflow; r \<leftarrow> s32_mac_s32_s16_s16_sat c a b; i \<leftarrow> popOverflow; ret (r, i) }) s =
    ((of_int (sat 31 (sint c + sint a * sint b)), of_bool (out 31 (sint c + sint a * sint b))), s\<lparr>giOldOverflow := giOverflow s\<rparr>)"
  using mac32.bracket [of "(c, a, b)" s] by simp

end
