(* ===== verification/Apm_Graph_Db.thy ===== *)
theory Apm_Graph_Db
  imports Spf_List
begin

text \<open>
  The data base of the audio processing manager (\<^verbatim>\<open>fwk/spf/apm/core/src/apm_graph_db.c\<close>): sub-graphs in a list, containers and
  modules in tables of lists, found by their ids; the lists are those of \<^verbatim>\<open>Spf_List\<close>. Objects live in stores by address; of their
  fields only those are kept that the functions here and in the command sequencer read. A pointer argument that is checked for \<open>NULL\<close> is an option, an
  output argument \<open>T **\<close> that is checked is a bool, and its content, if it is written, is part of the result.
\<close>

subsection \<open>Data\<close>

record apm_sub_graph =
  sub_graph_id :: u32
  sg_state :: u32

record apm_container =
  container_id :: u32

record apm_module =
  instance_id :: u32

record apm_cont_port_connect_info =
  self_sg_obj_ptr :: ptr
  peer_sg_obj_ptr :: ptr
  peer_sg_propagated_state :: u32
  port_conn_list_ptr :: ptr

record spf_module_port_handle =
  module_inst_id :: u32
  module_port_id :: u32

record spf_module_port_conn =
  self_mod_port_hdl :: spf_module_port_handle
  peer_mod_port_hdl :: spf_module_port_handle

record apm_pspc_module_list =
  pspc_sub_graph_id :: u32
  pspc_container_id :: u32

record apm_satellite_cont_node_info =
  satellite_cont_id :: u32
  parent_cont_id :: u32

record apm_mem =
  lists :: spf_list_state
  sub_graphs :: "apm_sub_graph store"
  containers :: "apm_container store"
  modules :: "apm_module store"
  port_infos :: "apm_cont_port_connect_info store"
  port_conns :: "spf_module_port_conn store"
  pspc_lists :: "apm_pspc_module_list store"
  sat_infos :: "apm_satellite_cont_node_info store"

record apm_graph_info =
  num_sub_graphs :: u32
  sub_graph_list_ptr :: ptr
  num_sub_graph_conn :: u32
  sub_graph_conn_list_ptr :: ptr
  num_conn :: u32
  conn_cfg_list_ptr :: ptr
  num_ctrl_link :: u32
  ctrl_link_cfg_list_ptr :: ptr
  num_containers :: u32
  container_list_ptr :: "ptr list"
  num_satellite_container :: u32
  sat_container_list_ptr :: ptr
  num_modules :: u32
  module_list_ptr :: "ptr list"

abbreviation (input) APM_INTERNAL_STATIC_HEAP_ID :: u32 where "APM_INTERNAL_STATIC_HEAP_ID \<equiv> 0x10"
abbreviation (input) APM_MODULE_HASH_TBL_SIZE :: u32 where "APM_MODULE_HASH_TBL_SIZE \<equiv> 64"
abbreviation (input) APM_CONT_HASH_TBL_SIZE :: u32 where "APM_CONT_HASH_TBL_SIZE \<equiv> 16"
abbreviation (input) APM_OBJ_TYPE_MODULE :: u32 where "APM_OBJ_TYPE_MODULE \<equiv> 0"
abbreviation (input) APM_OBJ_TYPE_CONTAINER :: u32 where "APM_OBJ_TYPE_CONTAINER \<equiv> 1"
abbreviation (input) APM_OBJ_TYPE_MAX :: u32 where "APM_OBJ_TYPE_MAX \<equiv> APM_OBJ_TYPE_CONTAINER"
abbreviation (input) APM_DB_OBJ_QUERY :: bool where "APM_DB_OBJ_QUERY \<equiv> False"
abbreviation (input) APM_DB_OBJ_CREATE_REQD :: bool where "APM_DB_OBJ_CREATE_REQD \<equiv> True"

definition apm_obj_hash_tbl_size :: "u32 list" where
  "apm_obj_hash_tbl_size = [APM_MODULE_HASH_TBL_SIZE, APM_CONT_HASH_TBL_SIZE]"

definition APM_HASH_FUNC :: "u32 \<Rightarrow> u32 \<Rightarrow> u32" where
  "APM_HASH_FUNC obj_id hash_tbl_size = obj_id AND (hash_tbl_size - 1)"

subsection \<open>Adding and removing\<close>

definition apm_db_add_node_to_list ::
    "alloc_env \<Rightarrow> spf_list_state \<Rightarrow> ptr option \<Rightarrow> ptr \<Rightarrow> u32 \<Rightarrow> (u32 \<times> ptr option \<times> u32 \<times> spf_list_state) option" where
  "apm_db_add_node_to_list env st list_head_pptr list_node_ptr node_cntr = do {
     (result, list_head_pptr, st) \<leftarrow> spf_list_insert_tail env st list_head_pptr list_node_ptr APM_INTERNAL_STATIC_HEAP_ID True;
     if result \<noteq> AR_EOK then Some (AR_EFAILED, list_head_pptr, node_cntr, st)
     else Some (result, list_head_pptr, node_cntr + 1, st)
   }"

definition apm_db_search_and_add_node_to_list ::
    "alloc_env \<Rightarrow> spf_list_state \<Rightarrow> ptr option \<Rightarrow> ptr \<Rightarrow> u32 \<Rightarrow> (u32 \<times> ptr option \<times> u32 \<times> spf_list_state) option" where
  "apm_db_search_and_add_node_to_list env st list_head_pptr list_node_ptr node_cntr = do {
     (result, added, list_head_pptr, st) \<leftarrow>
       spf_list_search_and_add_obj env st list_head_pptr list_node_ptr APM_INTERNAL_STATIC_HEAP_ID True;
     if result \<noteq> AR_EOK then Some (result, list_head_pptr, node_cntr, st)
     else
       (let is_node_added = (case added of None \<Rightarrow> False | Some b \<Rightarrow> b) in
        Some (result, list_head_pptr, if is_node_added then node_cntr + 1 else node_cntr, st))
   }"

definition apm_db_remove_node_from_list ::
    "spf_list_state \<Rightarrow> ptr option \<Rightarrow> ptr \<Rightarrow> u32 \<Rightarrow> (u32 \<times> ptr option \<times> u32 \<times> spf_list_state) option" where
  "apm_db_remove_node_from_list st list_head_pptr list_node_ptr node_cntr = do {
     (node_found, list_head_pptr, st) \<leftarrow> spf_list_find_delete_node st list_head_pptr list_node_ptr True;
     if \<not> node_found then Some (AR_EOK, list_head_pptr, node_cntr, st)
     else Some (AR_EOK, list_head_pptr, node_cntr - 1, st)
   }"

text \<open>The array of list heads is an argument and part of the result.\<close>

definition apm_db_add_obj_to_list ::
    "alloc_env \<Rightarrow> spf_list_state \<Rightarrow> ptr list \<Rightarrow> ptr \<Rightarrow> u32 \<Rightarrow> u32 \<Rightarrow> u32 \<Rightarrow> (u32 \<times> ptr list \<times> u32 \<times> spf_list_state) option" where
  "apm_db_add_obj_to_list env st list obj obj_id obj_type obj_cntr =
    (if APM_OBJ_TYPE_MAX < obj_type then Some (AR_EFAILED, list, obj_cntr, st)
     else do {
       tbl_size \<leftarrow> arr_at apm_obj_hash_tbl_size (unat obj_type);
       let index = unat (APM_HASH_FUNC obj_id tbl_size);
       head \<leftarrow> arr_at list index;
       (result, head, obj_cntr, st) \<leftarrow> apm_db_add_node_to_list env st (Some head) obj obj_cntr;
       head \<leftarrow> head;
       Some (result, list[index := head], obj_cntr, st)
     })"

definition apm_db_remove_obj_from_list ::
    "spf_list_state \<Rightarrow> ptr list \<Rightarrow> ptr \<Rightarrow> u32 \<Rightarrow> u32 \<Rightarrow> u32 \<Rightarrow> (u32 \<times> ptr list \<times> u32 \<times> spf_list_state) option" where
  "apm_db_remove_obj_from_list st list obj obj_id obj_type obj_cntr = do {
     tbl_size \<leftarrow> arr_at apm_obj_hash_tbl_size (unat obj_type);
     let index = unat (APM_HASH_FUNC obj_id tbl_size);
     head \<leftarrow> arr_at list index;
     if head = None then Some (AR_EFAILED, list, obj_cntr, st)
     else do {
       (result, head, obj_cntr, st) \<leftarrow> apm_db_remove_node_from_list st (Some head) obj obj_cntr;
       head \<leftarrow> head;
       Some (result, list[index := head], obj_cntr, st)
     }
   }"

subsection \<open>Finding objects\<close>

text \<open>
  The loop that the lookups share; \<open>key\<close> reads the id of an object. The inner result is what is returned from inside the loop:
  a code and an object, or nothing when the list is exhausted.
\<close>

partial_function (option) get_loop ::
    "spf_list_node store \<Rightarrow> (addr \<Rightarrow> u32 option) \<Rightarrow> ptr \<Rightarrow> u32 \<Rightarrow> (u32 \<times> ptr) option option" where
  "get_loop h key curr_ptr obj_id =
    (if curr_ptr = None then Some None
     else do {
       obj \<leftarrow> rd_obj h curr_ptr;
       (case obj of
          None \<Rightarrow> Some (Some (AR_EFAILED, None))
        | Some a \<Rightarrow> do {
            k \<leftarrow> key a;
            if k = obj_id then Some (Some (AR_EOK, Some a))
            else do { n \<leftarrow> rd_next h curr_ptr; get_loop h key n obj_id }
          })
     })"

text \<open>What the lookups do when the loop did not return.\<close>

definition query_result :: "bool \<Rightarrow> (u32 \<times> ptr) option \<Rightarrow> u32 \<times> ptr option" where
  "query_result query_type r =
    (case r of Some (result, obj) \<Rightarrow> (result, Some obj)
     | None \<Rightarrow> (if query_type = APM_DB_OBJ_QUERY then AR_EFAILED else AR_EOK, Some None))"

definition apm_db_get_sub_graph_node ::
    "apm_mem \<Rightarrow> apm_graph_info option \<Rightarrow> u32 \<Rightarrow> bool \<Rightarrow> bool \<Rightarrow> (u32 \<times> ptr option) option" where
  "apm_db_get_sub_graph_node m graph_info_ptr sg_id out query_type =
    (case graph_info_ptr of
       None \<Rightarrow> Some (AR_EFAILED, None)
     | Some gi \<Rightarrow>
         if \<not> out then Some (AR_EFAILED, None)
         else do {
           r \<leftarrow> get_loop (nodes (lists m)) (\<lambda>a. map_option sub_graph_id (sub_graphs m a)) (sub_graph_list_ptr gi) sg_id;
           Some (query_result query_type r)
         })"

text \<open>
  The satellite containers (\<^verbatim>\<open>apm_offload_utils.c\<close>): the id of the container that stands for a satellite. The loop does not
  advance over a node without an object.
\<close>

partial_function (option) sat_loop ::
    "spf_list_node store \<Rightarrow> apm_satellite_cont_node_info store \<Rightarrow> ptr \<Rightarrow> u32 \<Rightarrow> u32 option option" where
  "sat_loop h infos curr_ptr sat_cont_id =
    (if curr_ptr = None then Some None
     else do {
       obj \<leftarrow> rd_obj h curr_ptr;
       (case obj of
          None \<Rightarrow> sat_loop h infos curr_ptr sat_cont_id
        | Some a \<Rightarrow> do {
            info \<leftarrow> infos a;
            if satellite_cont_id info = sat_cont_id then Some (Some (parent_cont_id info))
            else do { n \<leftarrow> rd_next h curr_ptr; sat_loop h infos n sat_cont_id }
          })
     })"

definition apm_db_get_sat_contaniners_parent_cont_id :: "apm_mem \<Rightarrow> ptr \<Rightarrow> u32 \<Rightarrow> u32 option option" where
  "apm_db_get_sat_contaniners_parent_cont_id m sat_cont_info_ptr sat_cont_id =
     sat_loop (nodes (lists m)) (sat_infos m) sat_cont_info_ptr sat_cont_id"

text \<open>\<open>offload\<close> says whether the table of the offload utilities is there.\<close>

definition apm_db_get_container_node ::
    "bool \<Rightarrow> apm_mem \<Rightarrow> apm_graph_info option \<Rightarrow> u32 \<Rightarrow> bool \<Rightarrow> bool \<Rightarrow> (u32 \<times> ptr option) option" where
  "apm_db_get_container_node offload m graph_info_ptr cont_id out query_type =
    (case graph_info_ptr of
       None \<Rightarrow> Some (AR_EFAILED, None)
     | Some gi \<Rightarrow>
         if \<not> out then Some (AR_EFAILED, None)
         else do {
           parent \<leftarrow> (if 0 < num_satellite_container gi \<and> offload
                     then apm_db_get_sat_contaniners_parent_cont_id m (sat_container_list_ptr gi) cont_id else Some None);
           let cont_id = (case parent of None \<Rightarrow> cont_id | Some p \<Rightarrow> p);
           let index = unat (APM_HASH_FUNC cont_id APM_CONT_HASH_TBL_SIZE);
           head \<leftarrow> arr_at (container_list_ptr gi) index;
           r \<leftarrow> get_loop (nodes (lists m)) (\<lambda>a. map_option container_id (containers m a)) head cont_id;
           Some (query_result query_type r)
         })"

definition apm_db_get_module_node ::
    "apm_mem \<Rightarrow> apm_graph_info option \<Rightarrow> u32 \<Rightarrow> bool \<Rightarrow> bool \<Rightarrow> (u32 \<times> ptr option) option" where
  "apm_db_get_module_node m graph_info_ptr mod_instance_id out query_type =
    (case graph_info_ptr of
       None \<Rightarrow> Some (AR_EFAILED, None)
     | Some gi \<Rightarrow>
         if \<not> out then Some (AR_EFAILED, None)
         else do {
           let index = unat (APM_HASH_FUNC mod_instance_id APM_MODULE_HASH_TBL_SIZE);
           head \<leftarrow> arr_at (module_list_ptr gi) index;
           r \<leftarrow> get_loop (nodes (lists m)) (\<lambda>a. map_option instance_id (modules m a)) head mod_instance_id;
           Some (query_result query_type r)
         })"

text \<open>The condition of the loop over the connections between sub-graphs; a sub-graph that is not owned is a fault.\<close>

definition port_info_matches :: "apm_mem \<Rightarrow> apm_cont_port_connect_info \<Rightarrow> u32 \<Rightarrow> u32 \<Rightarrow> bool option" where
  "port_info_matches m info self_port_sg_id peer_port_sg_id =
    (if self_port_sg_id \<noteq> 0 \<and> peer_port_sg_id \<noteq> 0 then
       (if self_sg_obj_ptr info \<noteq> None \<and> peer_sg_obj_ptr info \<noteq> None then do {
          self \<leftarrow> load (sub_graphs m) (self_sg_obj_ptr info);
          if sub_graph_id self = self_port_sg_id then do {
            peer \<leftarrow> load (sub_graphs m) (peer_sg_obj_ptr info);
            Some (sub_graph_id peer = peer_port_sg_id)
          }
          else Some False
        }
        else Some False)
     else if self_port_sg_id \<noteq> 0 \<and> self_sg_obj_ptr info \<noteq> None then do {
       self \<leftarrow> load (sub_graphs m) (self_sg_obj_ptr info);
       Some (sub_graph_id self = self_port_sg_id)
     }
     else if peer_port_sg_id \<noteq> 0 \<and> peer_sg_obj_ptr info \<noteq> None then do {
       peer \<leftarrow> load (sub_graphs m) (peer_sg_obj_ptr info);
       Some (sub_graph_id peer = peer_port_sg_id)
     }
     else Some False)"

partial_function (option) port_info_loop :: "apm_mem \<Rightarrow> ptr \<Rightarrow> u32 \<Rightarrow> u32 \<Rightarrow> ptr option" where
  "port_info_loop m curr_ptr self_port_sg_id peer_port_sg_id =
    (if curr_ptr = None then Some None
     else do {
       obj \<leftarrow> rd_obj (nodes (lists m)) curr_ptr;
       (case obj of
          None \<Rightarrow> Some None
        | Some a \<Rightarrow> do {
            info \<leftarrow> port_infos m a;
            found \<leftarrow> port_info_matches m info self_port_sg_id peer_port_sg_id;
            if found then Some (Some a)
            else do { n \<leftarrow> rd_next (nodes (lists m)) curr_ptr; port_info_loop m n self_port_sg_id peer_port_sg_id }
          })
     })"

definition apm_db_get_cont_port_info_node :: "apm_mem \<Rightarrow> ptr \<Rightarrow> u32 \<Rightarrow> u32 \<Rightarrow> (u32 \<times> ptr) option" where
  "apm_db_get_cont_port_info_node m cont_port_info_list_ptr self_port_sg_id peer_port_sg_id =
    (if self_port_sg_id = 0 \<and> peer_port_sg_id = 0 then Some (AR_EFAILED, None)
     else do { p \<leftarrow> port_info_loop m cont_port_info_list_ptr self_port_sg_id peer_port_sg_id; Some (AR_EOK, p) })"

partial_function (option) pspc_loop :: "apm_mem \<Rightarrow> ptr \<Rightarrow> u32 \<Rightarrow> u32 \<Rightarrow> (u32 \<times> ptr) option" where
  "pspc_loop m curr_node_ptr sg_id cont_id =
    (if curr_node_ptr = None then Some (AR_EOK, None)
     else do {
       obj \<leftarrow> rd_obj (nodes (lists m)) curr_node_ptr;
       (case obj of
          None \<Rightarrow> Some (AR_EFAILED, None)
        | Some a \<Rightarrow> do {
            l \<leftarrow> pspc_lists m a;
            if pspc_sub_graph_id l = sg_id \<and> pspc_container_id l = cont_id then Some (AR_EOK, Some a)
            else do { n \<leftarrow> rd_next (nodes (lists m)) curr_node_ptr; pspc_loop m n sg_id cont_id }
          })
     })"

definition apm_db_get_module_list_node :: "apm_mem \<Rightarrow> ptr \<Rightarrow> u32 \<Rightarrow> u32 \<Rightarrow> bool \<Rightarrow> (u32 \<times> ptr option) option" where
  "apm_db_get_module_list_node m list_ptr sg_id cont_id out =
    (if \<not> out then Some (AR_EFAILED, None)
     else do { (result, p) \<leftarrow> pspc_loop m list_ptr sg_id cont_id; Some (result, Some p) })"

text \<open>Two nested loops: over the connections of each pair of sub-graphs, and over the pairs. Objects are not checked for \<open>NULL\<close>.\<close>

partial_function (option) conn_loop :: "apm_mem \<Rightarrow> ptr \<Rightarrow> u32 \<Rightarrow> u32 \<Rightarrow> ptr option" where
  "conn_loop m curr_conn_node_ptr module_iid port_id =
    (if curr_conn_node_ptr = None then Some None
     else do {
       obj \<leftarrow> rd_obj (nodes (lists m)) curr_conn_node_ptr;
       conn \<leftarrow> load (port_conns m) obj;
       if module_port_id (self_mod_port_hdl conn) = port_id \<and> module_inst_id (self_mod_port_hdl conn) = module_iid then Some obj
       else do { n \<leftarrow> rd_next (nodes (lists m)) curr_conn_node_ptr; conn_loop m n module_iid port_id }
     })"

partial_function (option) conn_list_loop :: "apm_mem \<Rightarrow> ptr \<Rightarrow> u32 \<Rightarrow> u32 \<Rightarrow> ptr option" where
  "conn_list_loop m curr_conn_list_ptr module_iid port_id =
    (if curr_conn_list_ptr = None then Some None
     else do {
       obj \<leftarrow> rd_obj (nodes (lists m)) curr_conn_list_ptr;
       info \<leftarrow> load (port_infos m) obj;
       p \<leftarrow> conn_loop m (port_conn_list_ptr info) module_iid port_id;
       if p \<noteq> None then Some p
       else do { n \<leftarrow> rd_next (nodes (lists m)) curr_conn_list_ptr; conn_list_loop m n module_iid port_id }
     })"

definition apm_db_get_cont_port_conn ::
    "apm_mem \<Rightarrow> ptr \<Rightarrow> u32 \<Rightarrow> u32 \<Rightarrow> bool \<Rightarrow> bool \<Rightarrow> (u32 \<times> ptr option) option" where
  "apm_db_get_cont_port_conn m cont_port_info_list_ptr module_iid port_id out obj_query_type =
    (if port_id = 0 \<or> module_iid = 0 \<or> cont_port_info_list_ptr = None \<or> \<not> out then Some (AR_EFAILED, None)
     else do {
       p \<leftarrow> conn_list_loop m cont_port_info_list_ptr module_iid port_id;
       Some (if p = None \<and> obj_query_type = APM_DB_OBJ_QUERY then AR_EFAILED else AR_EOK, Some p)
     })"

definition apm_db_get_num_instances :: "apm_graph_info option \<Rightarrow> u32" where
  "apm_db_get_num_instances graph_info_ptr =
    (case graph_info_ptr of None \<Rightarrow> 0 | Some gi \<Rightarrow> num_containers gi + num_modules gi)"

text \<open>
  How the data base is used: a module or container is added when the command that opens a graph is parsed
  (\<^verbatim>\<open>apm_gpr_cmd_parser.c\<close>), and removed when its sub-graph is closed (\<^verbatim>\<open>apm_cmd_utils.c\<close>) or it is destroyed (\<^verbatim>\<open>apm_msg_rsp_handler.c\<close>).
\<close>

definition register_module :: "alloc_env \<Rightarrow> apm_mem \<Rightarrow> apm_graph_info \<Rightarrow> ptr \<Rightarrow> u32 \<Rightarrow> (u32 \<times> apm_mem \<times> apm_graph_info) option" where
  "register_module env m gi module_node_ptr inst_id = do {
     (result, list, cntr, st) \<leftarrow>
       apm_db_add_obj_to_list env (lists m) (module_list_ptr gi) module_node_ptr inst_id APM_OBJ_TYPE_MODULE (num_modules gi);
     Some (result, m\<lparr>lists := st\<rparr>, gi\<lparr>module_list_ptr := list, num_modules := cntr\<rparr>)
   }"

definition unregister_module :: "apm_mem \<Rightarrow> apm_graph_info \<Rightarrow> ptr \<Rightarrow> (u32 \<times> apm_mem \<times> apm_graph_info) option" where
  "unregister_module m gi module_node_ptr = do {
     module \<leftarrow> load (modules m) module_node_ptr;
     (result, list, cntr, st) \<leftarrow>
       apm_db_remove_obj_from_list (lists m) (module_list_ptr gi) module_node_ptr (instance_id module) APM_OBJ_TYPE_MODULE (num_modules gi);
     Some (result, m\<lparr>lists := st\<rparr>, gi\<lparr>module_list_ptr := list, num_modules := cntr\<rparr>)
   }"

definition register_container :: "alloc_env \<Rightarrow> apm_mem \<Rightarrow> apm_graph_info \<Rightarrow> ptr \<Rightarrow> (u32 \<times> apm_mem \<times> apm_graph_info) option" where
  "register_container env m gi container_node_ptr = do {
     cont \<leftarrow> load (containers m) container_node_ptr;
     (result, list, cntr, st) \<leftarrow>
       apm_db_add_obj_to_list env (lists m) (container_list_ptr gi) container_node_ptr (container_id cont) APM_OBJ_TYPE_CONTAINER (num_containers gi);
     Some (result, m\<lparr>lists := st\<rparr>, gi\<lparr>container_list_ptr := list, num_containers := cntr\<rparr>)
   }"

definition unregister_container :: "apm_mem \<Rightarrow> apm_graph_info \<Rightarrow> ptr \<Rightarrow> (u32 \<times> apm_mem \<times> apm_graph_info) option" where
  "unregister_container m gi container_node_ptr = do {
     cont \<leftarrow> load (containers m) container_node_ptr;
     (result, list, cntr, st) \<leftarrow>
       apm_db_remove_obj_from_list (lists m) (container_list_ptr gi) container_node_ptr (container_id cont) APM_OBJ_TYPE_CONTAINER (num_containers gi);
     Some (result, m\<lparr>lists := st\<rparr>, gi\<lparr>container_list_ptr := list, num_containers := cntr\<rparr>)
   }"

end
