(* ===== verification/Apm_Graph_Db_Proofs.thy ===== *)
theory Apm_Graph_Db_Proofs
  imports Apm_Graph_Db Spf_List_Proofs
begin

text \<open>
  Correctness of the data base of the audio processing manager: its tables are maps from ids to objects, through the contract
  \<open>object_db\<close>, which is interpreted on the table of modules and on the table of containers; what is done to one table does not
  change what is found in another.
\<close>

subsection \<open>The contract\<close>

text \<open>
  A table of objects that are found by an id. The abstract state gives the objects of every id, oldest first; more than
  one object may have the same id, and then the oldest is found.
\<close>

locale object_db =
  fixes rel :: "'t \<Rightarrow> ('k \<Rightarrow> 'o list) \<Rightarrow> bool"
    and ready :: "'e \<Rightarrow> 't \<Rightarrow> bool"
    and key :: "'o \<Rightarrow> 'k option"
    and add :: "'e \<Rightarrow> 't \<Rightarrow> 'o \<Rightarrow> 'k \<Rightarrow> (u32 \<times> 't) option"
    and remove :: "'t \<Rightarrow> 'o \<Rightarrow> 'k \<Rightarrow> (u32 \<times> 't) option"
    and get :: "'t \<Rightarrow> 'k \<Rightarrow> 'o option option"
  assumes get_law: "rel t m \<Longrightarrow> get t k = Some (case m k of [] \<Rightarrow> None | a # _ \<Rightarrow> Some a)"
    and add_law: "rel t m \<Longrightarrow> ready e t \<Longrightarrow> key a = Some k \<Longrightarrow>
      \<exists>rc t'. add e t a k = Some (rc, t') \<and> (rc = AR_EFAILED \<and> rel t' m \<or> rc = AR_EOK \<and> rel t' (m(k := m k @ [a])))"
    and remove_law: "rel t m \<Longrightarrow> a \<in> set (m k) \<Longrightarrow>
      \<exists>t'. remove t a k = Some (AR_EOK, t') \<and> rel t' (m(k := remove1 a (m k)))"
begin

text \<open>An object with a new id is found after it was added, and no other id is affected.\<close>

lemma get_after_add:
  assumes "rel t m" "ready e t" "key a = Some k" "add e t a k = Some (AR_EOK, t')" "get t k = Some None"
  shows "get t' k = Some (Some a) \<and> (\<forall>j. j \<noteq> k \<longrightarrow> get t' j = get t j)"
proof -
  have r: "rel t' (m(k := m k @ [a]))" using add_law [OF assms(1-3)] assms(4) by auto
  have "m k = []" using get_law [OF assms(1), of k] assms(5) by (auto split: list.splits)
  then show ?thesis using get_law [OF r] get_law [OF assms(1)] by simp
qed

text \<open>An object with an id that is in use is hidden by the older one.\<close>

lemma older_is_found:
  assumes "rel t m" "ready e t" "key a = Some k" "add e t a k = Some (AR_EOK, t')" "get t k = Some (Some b)"
  shows "get t' k = Some (Some b)"
proof -
  have r: "rel t' (m(k := m k @ [a]))" using add_law [OF assms(1-3)] assms(4) by auto
  then show ?thesis using get_law [OF r, of k] get_law [OF assms(1), of k] assms(5) by (auto split: list.splits)
qed

text \<open>Removing what was just added brings back the abstract state.\<close>

lemma add_then_remove:
  assumes "rel t m" "ready e t" "key a = Some k" "add e t a k = Some (AR_EOK, t')" "a \<notin> set (m k)"
  shows "\<exists>t''. remove t' a k = Some (AR_EOK, t'') \<and> rel t'' m"
proof -
  have r: "rel t' (m(k := m k @ [a]))" using add_law [OF assms(1-3)] assms(4) by auto
  then show ?thesis using remove_law [OF r, of a k] assms(5) by (simp add: remove1_append)
qed

text \<open>The only object of an id is not found any more once it was removed.\<close>

lemma get_after_remove:
  assumes "rel t m" "m k = [a]"
  shows "\<exists>t'. remove t a k = Some (AR_EOK, t') \<and> get t' k = Some None \<and> (\<forall>j. j \<noteq> k \<longrightarrow> get t' j = get t j)"
proof -
  obtain t' where t': "remove t a k = Some (AR_EOK, t')" "rel t' (m(k := []))" using remove_law [OF assms(1), of a k] assms(2) by auto
  then show ?thesis using get_law [OF t'(2)] get_law [OF assms(1)] by simp
qed

end

subsection \<open>Tables of lists\<close>

text \<open>The heads of the lists, the nodes and the objects of each of them.\<close>

definition tbl :: "spf_list_node store \<Rightarrow> ptr list \<Rightarrow> addr list list \<Rightarrow> addr list list \<Rightarrow> bool" where
  "tbl h heads nss oss \<longleftrightarrow> length nss = length heads \<and> length oss = length heads \<and> distinct (concat nss)
     \<and> (\<forall>i < length heads. slist h (heads ! i) (nss ! i) (map Some (oss ! i)))"

text \<open>Every object is in the list that its id selects.\<close>

definition hashed :: "u32 \<Rightarrow> (addr \<Rightarrow> u32 option) \<Rightarrow> addr list list \<Rightarrow> bool" where
  "hashed sz key oss \<longleftrightarrow> (\<forall>i < length oss. \<forall>a \<in> set (oss ! i). \<exists>k. key a = Some k \<and> unat (APM_HASH_FUNC k sz) = i)"

lemma concat_update_split:
  assumes "i < length xss"
  shows "concat (xss[i := ys]) = concat (take i xss) @ ys @ concat (drop (Suc i) xss)"
    "concat xss = concat (take i xss) @ xss ! i @ concat (drop (Suc i) xss)"
proof -
  show "concat (xss[i := ys]) = concat (take i xss) @ ys @ concat (drop (Suc i) xss)" using assms by (simp add: upd_conv_take_nth_drop)
  show "concat xss = concat (take i xss) @ xss ! i @ concat (drop (Suc i) xss)"
    by (subst id_take_nth_drop [OF assms]) simp
qed

lemma nth_in_concat: "i < length xss \<Longrightarrow> set (xss ! i) \<subseteq> set (concat xss)"
  unfolding set_concat by (rule UN_upper) simp

lemma nth_disjoint:
  assumes "distinct (concat xss)" "i < length xss" "j < length xss" "i \<noteq> j"
  shows "set (xss ! i) \<inter> set (xss ! j) = {}"
  using assms
proof (induction xss arbitrary: i j)
  case (Cons xs xss)
  have "set xs \<inter> set (xss ! l) = {}" if "l < length xss" for l using Cons.prems(1) nth_in_concat [OF that] by auto
  then show ?case using Cons by (cases i; cases j) auto
qed simp

lemma tbl_keeps:
  assumes "keeps A h h'" "A \<inter> set (concat nss) = {}" "tbl h heads nss oss"
  shows "tbl h' heads nss oss"
proof -
  have "slist h' (heads ! i) (nss ! i) (map Some (oss ! i))" if i: "i < length heads" for i
  proof (rule slist_keeps [OF assms(1)])
    have "nss ! i \<in> set nss" using i assms(3) by (simp add: tbl_def)
    then show "A \<inter> set (nss ! i) = {}" using assms(2) by auto
    show "slist h (heads ! i) (nss ! i) (map Some (oss ! i))" using i assms(3) by (simp add: tbl_def)
  qed
  then show ?thesis using assms(3) by (simp add: tbl_def)
qed

lemma tbl_dom:
  assumes "tbl h heads nss oss"
  shows "set (concat nss) \<subseteq> dom h"
proof
  fix x assume "x \<in> set (concat nss)"
  then obtain xs where "xs \<in> set nss" "x \<in> set xs" by auto
  then obtain j where "j < length nss" "x \<in> set (nss ! j)" by (metis in_set_conv_nth)
  then show "x \<in> dom h" using assms slist_dom [of h "heads ! j" "nss ! j"] by (auto simp: tbl_def)
qed

lemma tbl_update:
  assumes t: "tbl h heads nss oss" and i: "i < length heads" and k: "keeps A h h'" "A \<inter> set (concat nss) \<subseteq> set (nss ! i)"
    and s: "slist h' hp' ns' (map Some os')" and d: "set ns' \<subseteq> set (nss ! i) \<union> B" "B \<inter> set (concat nss) = {}"
  shows "tbl h' (heads[i := hp']) (nss[i := ns']) (oss[i := os'])"
proof -
  have len: "length nss = length heads" "length oss = length heads" using t by (simp_all add: tbl_def)
  have dis: "distinct (concat nss)" using t by (simp add: tbl_def)
  have "slist h' (heads[i := hp'] ! j) (nss[i := ns'] ! j) (map Some (oss[i := os'] ! j))" if j: "j < length heads" for j
  proof (cases "j = i")
    case True
    then show ?thesis using s j len by simp
  next
    case False
    have "set (nss ! i) \<inter> set (nss ! j) = {}" using nth_disjoint [OF dis, of i j] i j len False by simp
    moreover have "set (nss ! j) \<subseteq> set (concat nss)" using j len by (intro nth_in_concat) simp
    ultimately have "A \<inter> set (nss ! j) = {}" using k(2) by blast
    then have "slist h' (heads ! j) (nss ! j) (map Some (oss ! j))" using slist_keeps [OF k(1)] t j by (simp add: tbl_def)
    then show ?thesis using False by simp
  qed
  moreover have "distinct (concat (nss[i := ns']))"
  proof -
    have i': "i < length nss" using i len by simp
    have "distinct ns'" using s by (simp add: slist_def dll_def)
    moreover have "set ns' \<inter> (set (concat (take i nss)) \<union> set (concat (drop (Suc i) nss))) = {}"
    proof -
      have "set (nss ! i) \<inter> (set (concat (take i nss)) \<union> set (concat (drop (Suc i) nss))) = {}"
        using dis unfolding concat_update_split(2) [OF i'] by (auto simp del: set_concat)
      moreover have "B \<inter> (set (concat (take i nss)) \<union> set (concat (drop (Suc i) nss))) = {}"
        using d(2) unfolding concat_update_split(2) [OF i'] by (auto simp del: set_concat)
      ultimately show ?thesis using d(1) by blast
    qed
    ultimately show ?thesis using dis unfolding concat_update_split [OF i'] by auto
  qed
  ultimately show ?thesis using len by (simp add: tbl_def)
qed

subsection \<open>Lookups\<close>

lemma get_loop_dseg:
  "dseg h pr ns None \<Longrightarrow> map (obj_at h) ns = map Some os \<Longrightarrow> \<forall>a \<in> set os. key a \<noteq> None \<Longrightarrow>
   get_loop h key (begp ns None) k = Some (map_option (\<lambda>a. (AR_EOK, Some a)) (List.find (\<lambda>a. key a = Some k) os))"
proof (induction ns arbitrary: pr os)
  case Nil
  then show ?case by (subst get_loop.simps) simp
next
  case (Cons n ns)
  then obtain a os' where os: "os = a # os'" "obj_at h n = Some a" by (cases os) auto
  have n: "n \<in> dom h" "nxt h n = begp ns None" "dseg h (Some n) ns None" using Cons.prems(1) by (auto split: if_splits)
  obtain ka where ka: "key a = Some ka" using Cons.prems(3) os by auto
  have "get_loop h key (begp ns None) k = Some (map_option (\<lambda>a. (AR_EOK, Some a)) (List.find (\<lambda>a. key a = Some k) os'))"
    by (rule Cons.IH [OF n(3)]) (use Cons.prems os in auto)
  then show ?case using os n ka by (subst get_loop.simps) (auto simp: mem_simps)
qed

lemma get_loop_slist:
  assumes "slist h p ns (map Some os)" "\<forall>a \<in> set os. key a \<noteq> None"
  shows "get_loop h key p k = Some (map_option (\<lambda>a. (AR_EOK, Some a)) (List.find (\<lambda>a. key a = Some k) os))"
proof -
  have "p = begp ns None" "dseg h None ns None" "map (obj_at h) ns = map Some os" using assms(1) by (auto simp: slist_def dll_def)
  then show ?thesis using get_loop_dseg [of h None ns os key k] assms(2) by simp
qed

text \<open>What a lookup answers, given the object it should find.\<close>

definition answer :: "bool \<Rightarrow> ptr \<Rightarrow> u32 \<times> ptr option" where
  "answer q p = (if p = None \<and> q = APM_DB_OBJ_QUERY then AR_EFAILED else AR_EOK, Some p)"

lemma query_result_find: "query_result q (map_option (\<lambda>a. (AR_EOK, Some a)) f) = answer q f"
  by (auto simp: query_result_def answer_def split: option.splits)

lemma answer_eq: "answer q p = answer q p' \<longleftrightarrow> p = p'"
  by (auto simp: answer_def)

lemma hashed_key: "hashed sz key oss \<Longrightarrow> i < length oss \<Longrightarrow> a \<in> set (oss ! i) \<Longrightarrow> key a \<noteq> None"
  unfolding hashed_def by fastforce

text \<open>The objects of an id, in the order in which they were added.\<close>

definition objs_of :: "(addr \<Rightarrow> u32 option) \<Rightarrow> addr list list \<Rightarrow> u32 \<Rightarrow> addr list" where
  "objs_of key oss k = filter (\<lambda>a. key a = Some k) (concat oss)"

lemma concat_map_only:
  "i < length xss \<Longrightarrow> \<forall>j < length xss. j \<noteq> i \<longrightarrow> f (xss ! j) = [] \<Longrightarrow> concat (map f xss) = f (xss ! i)"
proof (induction xss arbitrary: i)
  case (Cons xs xss)
  have tl: "f (xss ! j) = []" if "j < length xss" "Suc j \<noteq> i" for j using Cons.prems(2) [rule_format, of "Suc j"] that by simp
  show ?case
  proof (cases i)
    case 0
    then have "\<forall>ys \<in> set xss. f ys = []" using tl unfolding all_set_conv_all_nth by simp
    then show ?thesis using 0 by (simp add: concat_eq_Nil_conv)
  next
    case (Suc l)
    have "concat (map f xss) = f (xss ! l)" by (rule Cons.IH) (use Cons.prems(1) Suc tl in simp_all)
    moreover have "f xs = []" using Cons.prems(2) [rule_format, of 0] Suc by simp
    ultimately show ?thesis using Suc by simp
  qed
qed simp

lemma objs_of_bucket:
  assumes "hashed sz key oss" "unat (APM_HASH_FUNC k sz) < length oss"
  shows "objs_of key oss k = filter (\<lambda>a. key a = Some k) (oss ! unat (APM_HASH_FUNC k sz))"
proof -
  have "filter (\<lambda>a. key a = Some k) (oss ! j) = []" if "j < length oss" "j \<noteq> unat (APM_HASH_FUNC k sz)" for j
    using assms(1) that by (force simp: hashed_def filter_empty_conv)
  then have "concat (map (filter (\<lambda>a. key a = Some k)) oss) = filter (\<lambda>a. key a = Some k) (oss ! unat (APM_HASH_FUNC k sz))"
    by (intro concat_map_only assms(2)) blast
  then show ?thesis by (simp add: objs_of_def filter_concat)
qed

lemma find_filter: "List.find P xs = (case filter P xs of [] \<Rightarrow> None | a # _ \<Rightarrow> Some a)"
  by (induction xs) auto

lemma get_tbl:
  assumes "tbl h heads nss oss" "hashed sz key oss" "unat (APM_HASH_FUNC k sz) < length heads"
  shows "get_loop h key (heads ! unat (APM_HASH_FUNC k sz)) k
    = Some (map_option (\<lambda>a. (AR_EOK, Some a)) (case objs_of key oss k of [] \<Rightarrow> None | a # _ \<Rightarrow> Some a))"
proof -
  let ?i = "unat (APM_HASH_FUNC k sz)"
  have i: "?i < length oss" "slist h (heads ! ?i) (nss ! ?i) (map Some (oss ! ?i))" using assms(1,3) by (simp_all add: tbl_def)
  have "\<forall>a \<in> set (oss ! ?i). key a \<noteq> None" using hashed_key [OF assms(2) i(1)] by blast
  from get_loop_slist [OF i(2) this] show ?thesis unfolding find_filter objs_of_bucket [OF assms(2) i(1)] by simp
qed

subsection \<open>Changes of a table\<close>

text \<open>The index that an id selects in a table of the given type.\<close>

definition tbl_index :: "u32 \<Rightarrow> u32 \<Rightarrow> nat" where
  "tbl_index sz k = unat (APM_HASH_FUNC k sz)"

definition table_type :: "u32 \<Rightarrow> u32 \<Rightarrow> bool" where
  "table_type ty sz \<longleftrightarrow> ty = APM_OBJ_TYPE_MODULE \<and> sz = APM_MODULE_HASH_TBL_SIZE \<or> ty = APM_OBJ_TYPE_CONTAINER \<and> sz = APM_CONT_HASH_TBL_SIZE"

lemma table_type_size: "table_type ty sz \<Longrightarrow> arr_at apm_obj_hash_tbl_size (unat ty) = Some sz \<and> \<not> APM_OBJ_TYPE_MAX < ty"
  by (auto simp: table_type_def apm_obj_hash_tbl_size_def arr_at_def)

lemma tbl_index_lt: "table_type ty sz \<Longrightarrow> tbl_index sz k < unat sz"
proof -
  have "k AND 63 \<le> (63 :: u32)" "k AND 15 \<le> (15 :: u32)" by (rule word_and_le1)+
  then have "unat (k AND 63) \<le> 63" "unat (k AND 15) \<le> 15" unfolding word_le_nat_alt by simp_all
  then show "table_type ty sz \<Longrightarrow> tbl_index sz k < unat sz" by (auto simp: table_type_def tbl_index_def APM_HASH_FUNC_def)
qed

lemma add_obj_ok:
  assumes t: "tbl (nodes st) heads nss oss" and o: "owns st True" "env_ok env st True" and ty: "table_type ty sz" "length heads = unat sz"
  shows "\<exists>rc heads' c' st'. apm_db_add_obj_to_list env st heads (Some a) k ty c = Some (rc, heads', c', st') \<and> owns st' True \<and>
    (rc = AR_EFAILED \<and> heads' = heads \<and> c' = c \<and> nodes st' = nodes st
     \<or> rc = AR_EOK \<and> c' = c + 1 \<and> length heads' = length heads \<and> (\<exists>n. n \<notin> dom (nodes st)
        \<and> tbl (nodes st') heads' (nss[tbl_index sz k := nss ! tbl_index sz k @ [n]]) (oss[tbl_index sz k := oss ! tbl_index sz k @ [a]])
        \<and> keeps (insert n (set (nss ! tbl_index sz k))) (nodes st) (nodes st')))"
proof -
  let ?i = "tbl_index sz k"
  have i: "?i < length heads" using tbl_index_lt [OF ty(1)] ty(2) by simp
  have l: "slist (nodes st) (heads ! ?i) (nss ! ?i) (map Some (oss ! ?i))" using t i by (simp add: tbl_def)
  have "Some a \<noteq> None" by simp
  from insert_tail_added [OF l o this, of APM_INTERNAL_STATIC_HEAP_ID]
  obtain rc hp' st' where r: "spf_list_insert_tail env st (Some (heads ! ?i)) (Some a) APM_INTERNAL_STATIC_HEAP_ID True = Some (rc, Some hp', st')"
    "owns st' True" and cases: "rc = AR_ENOMEMORY \<and> hp' = heads ! ?i \<and> nodes st' = nodes st
      \<or> rc = AR_EOK \<and> (\<exists>n. n \<notin> dom (nodes st) \<and> slist (nodes st') hp' (nss ! ?i @ [n]) (map Some (oss ! ?i) @ [Some a])
                          \<and> keeps (insert n (set (nss ! ?i))) (nodes st) (nodes st'))"
    unfolding added_def by blast
  have run: "apm_db_add_obj_to_list env st heads (Some a) k ty c
      = Some (if rc = AR_EOK then (AR_EOK, heads[?i := hp'], c + 1, st') else (AR_EFAILED, heads[?i := hp'], c, st'))"
    using r(1) table_type_size [OF ty(1)] i
    by (simp add: apm_db_add_obj_to_list_def apm_db_add_node_to_list_def tbl_index_def mem_simps)
  from cases show ?thesis
  proof
    assume c: "rc = AR_ENOMEMORY \<and> hp' = heads ! ?i \<and> nodes st' = nodes st"
    then show ?thesis using run r(2) by auto
  next
    assume c: "rc = AR_EOK \<and> (\<exists>n. n \<notin> dom (nodes st) \<and> slist (nodes st') hp' (nss ! ?i @ [n]) (map Some (oss ! ?i) @ [Some a])
                          \<and> keeps (insert n (set (nss ! ?i))) (nodes st) (nodes st'))"
    then obtain n where n: "n \<notin> dom (nodes st)" "slist (nodes st') hp' (nss ! ?i @ [n]) (map Some (oss ! ?i @ [a]))"
      "keeps (insert n (set (nss ! ?i))) (nodes st) (nodes st')" by auto
    note dom = tbl_dom [OF t]
    have "tbl (nodes st') (heads[?i := hp']) (nss[?i := nss ! ?i @ [n]]) (oss[?i := oss ! ?i @ [a]])"
      by (rule tbl_update [OF t i n(3) _ n(2), where B = "{n}"]) (use n(1) dom in auto)
    then show ?thesis using run r(2) c n by (intro exI [of _ AR_EOK] exI [of _ "heads[?i := hp']"] exI [of _ "c + 1"] exI [of _ st']) auto
  qed
qed

lemma remove1_first: "map Some os = os1 @ Some a # os2 \<Longrightarrow> Some a \<notin> set os1 \<Longrightarrow> os1 @ os2 = map Some (remove1 a os)"
proof (induction os arbitrary: os1)
  case (Cons x os)
  then show ?case by (cases os1) auto
qed simp

lemma remove_obj_ok:
  assumes t: "tbl (nodes st) heads nss oss" and o: "owns st True" and ty: "table_type ty sz" "length heads = unat sz"
    and a: "a \<in> set (oss ! tbl_index sz k)"
  shows "\<exists>heads' st' ns'. apm_db_remove_obj_from_list st heads (Some a) k ty c = Some (AR_EOK, heads', c - 1, st') \<and> owns st' True
    \<and> length heads' = length heads \<and> set ns' \<subseteq> set (nss ! tbl_index sz k) \<and> Suc (length ns') = length (nss ! tbl_index sz k)
    \<and> tbl (nodes st') heads' (nss[tbl_index sz k := ns']) (oss[tbl_index sz k := remove1 a (oss ! tbl_index sz k)])
    \<and> keeps (set (nss ! tbl_index sz k)) (nodes st) (nodes st')"
proof -
  let ?i = "tbl_index sz k"
  have i: "?i < length heads" using tbl_index_lt [OF ty(1)] ty(2) by simp
  have l: "slist (nodes st) (heads ! ?i) (nss ! ?i) (map Some (oss ! ?i))" using t i by (simp add: tbl_def)
  obtain xs n ys os1 os2 where s: "nss ! ?i = xs @ n # ys" "map Some (oss ! ?i) = os1 @ Some a # os2" "length os1 = length xs" "Some a \<notin> set os1"
    using slist_first [OF l, of "Some a"] a by auto
  have "Some a \<noteq> None" by simp
  from search_delete_found [OF l [unfolded s(1,2)] s(3) o this s(4)]
  obtain st' where d: "spf_list_search_delete_node st (Some (heads ! ?i)) (Some a) True True = Some (True, Some (begp (xs @ ys) None), st')"
    "removed st xs n ys (os1 @ os2) True st'" by blast
  have r: "owns st' True" "slist (nodes st') (begp (xs @ ys) None) (xs @ ys) (map Some (remove1 a (oss ! ?i)))"
    "keeps (set (nss ! ?i)) (nodes st) (nodes st')"
    using d(2) remove1_first [OF s(2,4)] by (simp_all add: removed_def s(1))
  have "heads ! ?i \<noteq> None" using l s(1) slist_None [of "nodes st" "nss ! ?i"] by (metis append_is_Nil_conv list.distinct(1))
  then have run: "apm_db_remove_obj_from_list st heads (Some a) k ty c = Some (AR_EOK, heads[?i := begp (xs @ ys) None], c - 1, st')"
    using d(1) table_type_size [OF ty(1)] i
    by (auto simp: apm_db_remove_obj_from_list_def apm_db_remove_node_from_list_def spf_list_find_delete_node_def tbl_index_def mem_simps)
  have "tbl (nodes st') (heads[?i := begp (xs @ ys) None]) (nss[?i := xs @ ys]) (oss[?i := remove1 a (oss ! ?i)])"
    by (rule tbl_update [OF t i r(3) _ r(2), where B = "{}"]) (auto simp: s(1))
  then show ?thesis using run r s(1) by (intro exI [of _ "heads[?i := begp (xs @ ys) None]"] exI [of _ st'] exI [of _ "xs @ ys"]) auto
qed

text \<open>An object that is not in its list is left alone, and this is not reported as an error unless the list is empty.\<close>

lemma remove_obj_absent:
  assumes t: "tbl (nodes st) heads nss oss" and ty: "table_type ty sz" "length heads = unat sz" and a: "a \<notin> set (oss ! tbl_index sz k)"
  shows "apm_db_remove_obj_from_list st heads (Some a) k ty c
    = Some (if nss ! tbl_index sz k = [] then AR_EFAILED else AR_EOK, heads, c, st)"
proof -
  let ?i = "tbl_index sz k"
  have i: "?i < length heads" using tbl_index_lt [OF ty(1)] ty(2) by simp
  have l: "slist (nodes st) (heads ! ?i) (nss ! ?i) (map Some (oss ! ?i))" using t i by (simp add: tbl_def)
  have e: "heads ! ?i = None \<longleftrightarrow> nss ! ?i = []"
    using l slist_None [of "nodes st" "nss ! ?i"] slist_Some [of "nodes st"] by (cases "heads ! ?i") (auto, force)
  have "Some a \<notin> set (map Some (oss ! ?i))" using a by auto
  from search_delete_absent [OF l this] show ?thesis
    using table_type_size [OF ty(1)] i e
    by (auto simp: apm_db_remove_obj_from_list_def apm_db_remove_node_from_list_def spf_list_find_delete_node_def tbl_index_def mem_simps)
qed

subsection \<open>The tables of modules and containers\<close>

text \<open>The state of a table: the heads of its lists, the counter, the memory of the lists.\<close>

type_synonym table = "ptr list \<times> u32 \<times> spf_list_state"

fun table_rel :: "u32 \<Rightarrow> u32 \<Rightarrow> (addr \<Rightarrow> u32 option) \<Rightarrow> table \<Rightarrow> (u32 \<Rightarrow> addr list) \<Rightarrow> bool" where
  "table_rel ty sz key (heads, c, st) m \<longleftrightarrow> table_type ty sz \<and> length heads = unat sz \<and> owns st True
     \<and> (\<exists>nss oss. tbl (nodes st) heads nss oss \<and> hashed sz key oss \<and> m = objs_of key oss \<and> c = of_nat (length (concat oss)))"

fun table_ready :: "alloc_env \<Rightarrow> table \<Rightarrow> bool" where
  "table_ready env (heads, c, st) \<longleftrightarrow> env_ok env st True"

fun table_add :: "u32 \<Rightarrow> alloc_env \<Rightarrow> table \<Rightarrow> addr \<Rightarrow> u32 \<Rightarrow> (u32 \<times> table) option" where
  "table_add ty env (heads, c, st) a k = apm_db_add_obj_to_list env st heads (Some a) k ty c"

fun table_remove :: "u32 \<Rightarrow> table \<Rightarrow> addr \<Rightarrow> u32 \<Rightarrow> (u32 \<times> table) option" where
  "table_remove ty (heads, c, st) a k = apm_db_remove_obj_from_list st heads (Some a) k ty c"

lemma hashed_bucket: "hashed sz key oss \<Longrightarrow> j < length oss \<Longrightarrow> a \<in> set (oss ! j) \<Longrightarrow> key a = Some k \<Longrightarrow> tbl_index sz k = j"
  unfolding hashed_def tbl_index_def by fastforce

lemma hashed_update:
  assumes "hashed sz key oss" "\<forall>a \<in> set os'. a \<in> set (oss ! i) \<or> (\<exists>k. key a = Some k \<and> tbl_index sz k = i)"
  shows "hashed sz key (oss[i := os'])"
  unfolding hashed_def
proof (intro allI impI ballI)
  fix j a assume j: "j < length (oss[i := os'])" and a: "a \<in> set (oss[i := os'] ! j)"
  have old: "\<exists>k. key a = Some k \<and> unat (APM_HASH_FUNC k sz) = j" if "a \<in> set (oss ! j)" using assms(1) j that by (simp add: hashed_def)
  show "\<exists>k. key a = Some k \<and> unat (APM_HASH_FUNC k sz) = j"
  proof (cases "j = i")
    case True
    then show ?thesis using assms(2) a j old by (auto simp: tbl_index_def)
  next
    case False
    then show ?thesis using a old by simp
  qed
qed

lemma objs_of_update:
  assumes h: "hashed sz key oss" "hashed sz key (oss[tbl_index sz k := os'])" and l: "\<forall>j. tbl_index sz j < length oss"
    and same: "\<forall>j. j \<noteq> k \<longrightarrow> filter (\<lambda>a. key a = Some j) os' = filter (\<lambda>a. key a = Some j) (oss ! tbl_index sz k)"
  shows "objs_of key (oss[tbl_index sz k := os']) = (objs_of key oss)(k := filter (\<lambda>a. key a = Some k) os')"
proof
  fix j
  have "objs_of key (oss[tbl_index sz k := os']) j = filter (\<lambda>a. key a = Some j) (oss[tbl_index sz k := os'] ! tbl_index sz j)"
    using objs_of_bucket [OF h(2), of j] l by (simp add: tbl_index_def)
  moreover have "objs_of key oss j = filter (\<lambda>a. key a = Some j) (oss ! tbl_index sz j)"
    using objs_of_bucket [OF h(1), of j] l by (simp add: tbl_index_def)
  ultimately show "objs_of key (oss[tbl_index sz k := os']) j = ((objs_of key oss)(k := filter (\<lambda>a. key a = Some k) os')) j"
    using l same by (cases "j = k"; cases "tbl_index sz j = tbl_index sz k") auto
qed

lemma objs_of_add:
  assumes h: "hashed sz key oss" and l: "\<forall>j. tbl_index sz j < length oss" and a: "key a = Some k"
  shows "objs_of key (oss[tbl_index sz k := oss ! tbl_index sz k @ [a]]) = (objs_of key oss)(k := objs_of key oss k @ [a])"
proof -
  have h': "hashed sz key (oss[tbl_index sz k := oss ! tbl_index sz k @ [a]])" by (rule hashed_update [OF h]) (use a in auto)
  show ?thesis using objs_of_update [OF h h' l] objs_of_bucket [OF h, of k] l a unfolding tbl_index_def by auto
qed

lemma objs_of_remove:
  assumes h: "hashed sz key oss" and l: "\<forall>j. tbl_index sz j < length oss" and a: "key a = Some k"
  shows "objs_of key (oss[tbl_index sz k := remove1 a (oss ! tbl_index sz k)]) = (objs_of key oss)(k := remove1 a (objs_of key oss k))"
proof -
  have h': "hashed sz key (oss[tbl_index sz k := remove1 a (oss ! tbl_index sz k)])"
    by (rule hashed_update [OF h]) (use set_remove1_subset [of a "oss ! tbl_index sz k"] in blast)
  show ?thesis using objs_of_update [OF h h' l] objs_of_bucket [OF h, of k] l a unfolding tbl_index_def by (simp add: filter_remove1 remove1_idem)
qed

lemma length_concat_update:
  assumes "i < length xss"
  shows "length (concat (xss[i := ys])) + length (xss ! i) = length (concat xss) + length ys"
  unfolding concat_update_split [OF assms] by simp

lemma table_add_law:
  assumes "table_rel ty sz key t m" "table_ready env t" "key a = Some k"
  shows "\<exists>rc t'. table_add ty env t a k = Some (rc, t')
    \<and> (rc = AR_EFAILED \<and> table_rel ty sz key t' m \<or> rc = AR_EOK \<and> table_rel ty sz key t' (m(k := m k @ [a])))"
proof -
  obtain heads c st where t: "t = (heads, c, st)" by (cases t)
  let ?i = "tbl_index sz k"
  obtain nss oss where r: "table_type ty sz" "length heads = unat sz" "owns st True" "tbl (nodes st) heads nss oss" "hashed sz key oss"
    "m = objs_of key oss" "c = of_nat (length (concat oss))" using assms(1) by (auto simp: t)
  have e: "env_ok env st True" using assms(2) by (simp add: t)
  have len: "length oss = length heads" using r(4) by (simp add: tbl_def)
  have l: "\<forall>j. tbl_index sz j < length oss" using tbl_index_lt [OF r(1)] r(2) len by simp
  let ?os = "oss[?i := oss ! ?i @ [a]]"
  have h: "hashed sz key ?os" by (rule hashed_update [OF r(5)]) (use assms(3) in auto)
  have m: "objs_of key ?os = m(k := m k @ [a])"
    unfolding r(6) by (rule objs_of_add [OF r(5) l assms(3)])
  have n: "length (concat ?os) = Suc (length (concat oss))" using length_concat_update [of ?i oss "oss ! ?i @ [a]"] l by simp
  obtain rc heads' c' st' where add: "apm_db_add_obj_to_list env st heads (Some a) k ty c = Some (rc, heads', c', st')" "owns st' True"
    and cs: "rc = AR_EFAILED \<and> heads' = heads \<and> c' = c \<and> nodes st' = nodes st
     \<or> rc = AR_EOK \<and> c' = c + 1 \<and> length heads' = length heads \<and> (\<exists>n. n \<notin> dom (nodes st)
        \<and> tbl (nodes st') heads' (nss[?i := nss ! ?i @ [n]]) ?os
        \<and> keeps (insert n (set (nss ! ?i))) (nodes st) (nodes st'))"
    using add_obj_ok [OF r(4,3) e r(1,2), of a k c] by blast
  have "rc = AR_EFAILED \<and> table_rel ty sz key (heads', c', st') m \<or> rc = AR_EOK \<and> table_rel ty sz key (heads', c', st') (m(k := m k @ [a]))"
    using cs
  proof
    assume "rc = AR_EFAILED \<and> heads' = heads \<and> c' = c \<and> nodes st' = nodes st"
    then show ?thesis using r add(2) by auto
  next
    assume "rc = AR_EOK \<and> c' = c + 1 \<and> length heads' = length heads \<and> (\<exists>n. n \<notin> dom (nodes st)
        \<and> tbl (nodes st') heads' (nss[?i := nss ! ?i @ [n]]) ?os
        \<and> keeps (insert n (set (nss ! ?i))) (nodes st) (nodes st'))"
    then obtain nss' where "rc = AR_EOK" "c' = c + 1" "length heads' = length heads" "tbl (nodes st') heads' nss' ?os" by blast
    moreover have "c + 1 = of_nat (length (concat ?os))" unfolding n r(7) by simp
    ultimately show ?thesis using r(1,2) add(2) h m by (metis table_rel.simps)
  qed
  then show ?thesis using add(1) unfolding t table_add.simps by blast
qed

lemma table_remove_law:
  assumes "table_rel ty sz key t m" "a \<in> set (m k)"
  shows "\<exists>t'. table_remove ty t a k = Some (AR_EOK, t') \<and> table_rel ty sz key t' (m(k := remove1 a (m k)))"
proof -
  obtain heads c st where t: "t = (heads, c, st)" by (cases t)
  let ?i = "tbl_index sz k"
  obtain nss oss where r: "table_type ty sz" "length heads = unat sz" "owns st True" "tbl (nodes st) heads nss oss" "hashed sz key oss"
    "m = objs_of key oss" "c = of_nat (length (concat oss))" using assms(1) by (auto simp: t)
  have len: "length oss = length heads" using r(4) by (simp add: tbl_def)
  have l: "\<forall>j. tbl_index sz j < length oss" using tbl_index_lt [OF r(1)] r(2) len by simp
  have mk: "m k = filter (\<lambda>a. key a = Some k) (oss ! ?i)" using objs_of_bucket [OF r(5), of k] l unfolding r(6) tbl_index_def by simp
  have a: "a \<in> set (oss ! ?i)" "key a = Some k" using assms(2) unfolding mk by auto
  let ?os = "oss[?i := remove1 a (oss ! ?i)]"
  have h: "hashed sz key ?os" by (rule hashed_update [OF r(5)]) (use set_remove1_subset [of a "oss ! ?i"] in blast)
  have m: "objs_of key ?os = m(k := remove1 a (m k))"
    unfolding r(6) by (rule objs_of_remove [OF r(5) l a(2)])
  have n: "Suc (length (concat ?os)) = length (concat oss)"
  proof -
    have "Suc (length (remove1 a (oss ! ?i))) = length (oss ! ?i)" using length_pos_if_in_set [OF a(1)] a(1) by (simp add: length_remove1 del: length_greater_0_conv)
    then show ?thesis using length_concat_update [of ?i oss "remove1 a (oss ! ?i)"] l by simp
  qed
  obtain heads' st' ns' where rem: "apm_db_remove_obj_from_list st heads (Some a) k ty c = Some (AR_EOK, heads', c - 1, st')" "owns st' True"
    "length heads' = length heads" "tbl (nodes st') heads' (nss[?i := ns']) ?os"
    using remove_obj_ok [OF r(4,3,1,2) a(1), of c] by blast
  have "c - 1 = of_nat (length (concat ?os))" unfolding r(7) n [symmetric] by simp
  then have "table_rel ty sz key (heads', c - 1, st') (m(k := remove1 a (m k)))" using rem r(1,2) h m by (metis table_rel.simps)
  then show ?thesis using rem(1) unfolding t table_remove.simps by blast
qed

text \<open>The ids of the objects, as the lookups read them.\<close>

definition mod_key :: "apm_mem \<Rightarrow> addr \<Rightarrow> u32 option" where
  "mod_key m a = map_option instance_id (modules m a)"

definition cont_key :: "apm_mem \<Rightarrow> addr \<Rightarrow> u32 option" where
  "cont_key m a = map_option container_id (containers m a)"

definition sg_key :: "apm_mem \<Rightarrow> addr \<Rightarrow> u32 option" where
  "sg_key m a = map_option sub_graph_id (sub_graphs m a)"

fun module_get :: "apm_mem \<Rightarrow> apm_graph_info \<Rightarrow> table \<Rightarrow> u32 \<Rightarrow> ptr option" where
  "module_get m gi (heads, c, st) k = do {
     (_, p) \<leftarrow> apm_db_get_module_node (m\<lparr>lists := st\<rparr>) (Some (gi\<lparr>module_list_ptr := heads, num_modules := c\<rparr>)) k True APM_DB_OBJ_QUERY;
     p
   }"

fun container_get :: "apm_mem \<Rightarrow> apm_graph_info \<Rightarrow> table \<Rightarrow> u32 \<Rightarrow> ptr option" where
  "container_get m gi (heads, c, st) k = do {
     (_, p) \<leftarrow> apm_db_get_container_node False (m\<lparr>lists := st\<rparr>) (Some (gi\<lparr>container_list_ptr := heads, num_containers := c\<rparr>)) k True APM_DB_OBJ_QUERY;
     p
   }"

lemma module_node_tbl:
  assumes "tbl (nodes (lists m)) (module_list_ptr gi) nss oss" "length (module_list_ptr gi) = 64" "hashed 64 (mod_key m) oss"
  shows "apm_db_get_module_node m (Some gi) k True q = Some (answer q (case objs_of (mod_key m) oss k of [] \<Rightarrow> None | a # _ \<Rightarrow> Some a))"
proof -
  have i: "unat (APM_HASH_FUNC k 64) < 64" using tbl_index_lt [of APM_OBJ_TYPE_MODULE 64 k] by (simp add: table_type_def tbl_index_def)
  have "mod_key m = (\<lambda>a. map_option instance_id (modules m a))" by (simp add: mod_key_def fun_eq_iff)
  then show ?thesis using get_tbl [OF assms(1,3), of k] i assms(2)
    by (simp add: apm_db_get_module_node_def mem_simps query_result_find)
qed

lemma container_node_tbl:
  assumes "tbl (nodes (lists m)) (container_list_ptr gi) nss oss" "length (container_list_ptr gi) = 16" "hashed 16 (cont_key m) oss"
    and "offload \<longrightarrow> num_satellite_container gi = 0"
  shows "apm_db_get_container_node offload m (Some gi) k True q = Some (answer q (case objs_of (cont_key m) oss k of [] \<Rightarrow> None | a # _ \<Rightarrow> Some a))"
proof -
  have i: "unat (APM_HASH_FUNC k 16) < 16" using tbl_index_lt [of APM_OBJ_TYPE_CONTAINER 16 k] by (simp add: table_type_def tbl_index_def)
  have "cont_key m = (\<lambda>a. map_option container_id (containers m a))" by (simp add: cont_key_def fun_eq_iff)
  then show ?thesis using get_tbl [OF assms(1,3), of k] i assms(2,4)
    by (auto simp: apm_db_get_container_node_def mem_simps query_result_find)
qed

lemma sub_graph_node_list:
  assumes "slist (nodes (lists m)) (sub_graph_list_ptr gi) ns (map Some os)" "\<forall>a \<in> set os. sg_key m a \<noteq> None"
  shows "apm_db_get_sub_graph_node m (Some gi) k True q = Some (answer q (List.find (\<lambda>a. sg_key m a = Some k) os))"
proof -
  have "sg_key m = (\<lambda>a. map_option sub_graph_id (sub_graphs m a))" by (simp add: sg_key_def fun_eq_iff)
  then show ?thesis using get_loop_slist [OF assms, of k] by (simp add: apm_db_get_sub_graph_node_def query_result_find)
qed

lemma keys_lists [simp]: "mod_key (m\<lparr>lists := st\<rparr>) = mod_key m" "cont_key (m\<lparr>lists := st\<rparr>) = cont_key m" "sg_key (m\<lparr>lists := st\<rparr>) = sg_key m"
  by (simp_all add: mod_key_def cont_key_def sg_key_def fun_eq_iff)

interpretation module_db: object_db "table_rel APM_OBJ_TYPE_MODULE 64 (mod_key m)" table_ready "mod_key m"
    "table_add APM_OBJ_TYPE_MODULE" "table_remove APM_OBJ_TYPE_MODULE" "module_get m gi" for m gi
proof
  fix t :: table and ms k
  assume r: "table_rel APM_OBJ_TYPE_MODULE 64 (mod_key m) t ms"
  obtain heads c st where t: "t = (heads, c, st)" by (cases t)
  show "module_get m gi t k = Some (case ms k of [] \<Rightarrow> None | a # _ \<Rightarrow> Some a)"
    using r module_node_tbl [of "m\<lparr>lists := st\<rparr>" "gi\<lparr>module_list_ptr := heads, num_modules := c\<rparr>" _ _ k APM_DB_OBJ_QUERY]
    by (auto simp: t answer_def)
qed (erule (2) table_add_law, erule (1) table_remove_law)

interpretation container_db: object_db "table_rel APM_OBJ_TYPE_CONTAINER 16 (cont_key m)" table_ready "cont_key m"
    "table_add APM_OBJ_TYPE_CONTAINER" "table_remove APM_OBJ_TYPE_CONTAINER" "container_get m gi" for m gi
proof
  fix t :: table and ms k
  assume r: "table_rel APM_OBJ_TYPE_CONTAINER 16 (cont_key m) t ms"
  obtain heads c st where t: "t = (heads, c, st)" by (cases t)
  show "container_get m gi t k = Some (case ms k of [] \<Rightarrow> None | a # _ \<Rightarrow> Some a)"
    using r container_node_tbl [of "m\<lparr>lists := st\<rparr>" "gi\<lparr>container_list_ptr := heads, num_containers := c\<rparr>" _ _ False k APM_DB_OBJ_QUERY]
    by (auto simp: t answer_def)
qed (erule (2) table_add_law, erule (1) table_remove_law)

subsection \<open>The whole data base\<close>

text \<open>The modules, the containers and the list of sub-graphs, in lists that share no node.\<close>

definition db :: "apm_mem \<Rightarrow> apm_graph_info \<Rightarrow> addr list list \<Rightarrow> addr list list \<Rightarrow> addr list \<Rightarrow> bool" where
  "db m gi om oc os \<longleftrightarrow> owns (lists m) True \<and> length (module_list_ptr gi) = 64 \<and> length (container_list_ptr gi) = 16
     \<and> num_modules gi = of_nat (length (concat om)) \<and> num_containers gi = of_nat (length (concat oc))
     \<and> hashed 64 (mod_key m) om \<and> hashed 16 (cont_key m) oc \<and> (\<forall>a \<in> set os. sg_key m a \<noteq> None)
     \<and> (\<exists>nm nc ns. tbl (nodes (lists m)) (module_list_ptr gi) nm om \<and> tbl (nodes (lists m)) (container_list_ptr gi) nc oc
          \<and> slist (nodes (lists m)) (sub_graph_list_ptr gi) ns (map Some os) \<and> distinct (concat nm @ concat nc @ ns))"

lemma dbI:
  assumes "owns (lists m) True" "length (module_list_ptr gi) = 64" "length (container_list_ptr gi) = 16"
    and "num_modules gi = of_nat (length (concat om))" "num_containers gi = of_nat (length (concat oc))"
    and "hashed 64 (mod_key m) om" "hashed 16 (cont_key m) oc" "\<forall>a \<in> set os. sg_key m a \<noteq> None"
    and "tbl (nodes (lists m)) (module_list_ptr gi) nm om" "tbl (nodes (lists m)) (container_list_ptr gi) nc oc"
    and "slist (nodes (lists m)) (sub_graph_list_ptr gi) ns (map Some os)" "distinct (concat nm @ concat nc @ ns)"
  shows "db m gi om oc os"
  using assms unfolding db_def by blast

lemma db_lookups:
  assumes "db m gi om oc os"
  shows "apm_db_get_module_node m (Some gi) k True q = Some (answer q (case objs_of (mod_key m) om k of [] \<Rightarrow> None | a # _ \<Rightarrow> Some a))"
    "apm_db_get_container_node False m (Some gi) k True q = Some (answer q (case objs_of (cont_key m) oc k of [] \<Rightarrow> None | a # _ \<Rightarrow> Some a))"
    "apm_db_get_sub_graph_node m (Some gi) k True q = Some (answer q (List.find (\<lambda>a. sg_key m a = Some k) os))"
  using assms module_node_tbl [of m gi _ om k q] container_node_tbl [of m gi _ oc False k q] sub_graph_node_list [of m gi _ os k q]
  unfolding db_def by blast+

lemma distinct3:
  "distinct (as @ bs @ cs)
   \<longleftrightarrow> set as \<inter> set bs = {} \<and> set as \<inter> set cs = {} \<and> set bs \<inter> set cs = {} \<and> distinct as \<and> distinct bs \<and> distinct cs"
  by auto

text \<open>A change of some nodes that are not in use elsewhere.\<close>

lemma new_nodes_disjoint:
  assumes "i < length nss" "set ns' \<subseteq> set (nss ! i) \<union> B" "X \<inter> set (concat nss) = {}" "B \<inter> X = {}"
  shows "set (concat (nss[i := ns'])) \<inter> X = {}"
proof -
  have "set (nss ! i) \<subseteq> set (concat nss)" by (rule nth_in_concat) fact
  moreover have "set (concat (nss[i := ns'])) \<subseteq> set (concat nss) \<union> set ns'"
    unfolding concat_update_split [OF assms(1)] by (auto simp del: set_concat)
  ultimately show ?thesis using assms(2-4) by blast
qed

lemma others_kept:
  assumes t: "tbl h H1 n1 o1" "tbl h H2 n2 o2" "slist h p ns os" and d: "distinct (concat n1 @ concat n2 @ ns)" and i: "i < length n1"
    and k: "keeps (B \<union> set (n1 ! i)) h h'" "B \<inter> dom h = {}" and n: "distinct (concat (n1[i := ns']))" "set ns' \<subseteq> set (n1 ! i) \<union> B"
  shows "tbl h' H2 n2 o2" "slist h' p ns os" "distinct (concat (n1[i := ns']) @ concat n2 @ ns)"
proof -
  have old: "set (n1 ! i) \<subseteq> set (concat n1)" "B \<inter> set (concat n2) = {}" "B \<inter> set ns = {}"
    using nth_in_concat [OF i] k(2) tbl_dom [OF t(2)] slist_dom [OF t(3)] by blast+
  have X: "set (concat n1) \<inter> set (concat n2) = {}" "set (concat n1) \<inter> set ns = {}" "set (concat n2) \<inter> set ns = {}" "distinct (concat n2)" "distinct ns"
    using d unfolding distinct3 by blast+
  show "tbl h' H2 n2 o2" by (rule tbl_keeps [OF k(1) _ t(2)]) (use old X in blast)
  show "slist h' p ns os" by (rule slist_keeps [OF k(1) _ t(3)]) (use old X in blast)
  have "set (concat (n1[i := ns'])) \<inter> set (concat n2) = {}" "set (concat (n1[i := ns'])) \<inter> set ns = {}"
    by (rule new_nodes_disjoint [OF i n(2)]; use X old in blast)+
  then show "distinct (concat (n1[i := ns']) @ concat n2 @ ns)" unfolding distinct3 using X n(1) by blast
qed

lemma tbl_distinct: "tbl h heads nss oss \<Longrightarrow> distinct (concat nss)"
  by (simp add: tbl_def)

lemma distinct_swap: "distinct (xs @ ys @ zs) = distinct (ys @ xs @ zs)"
  by auto

lemma register_module_db:
  assumes d: "db m gi om oc os" and e: "env_ok env (lists m) True" and a: "mod_key m a = Some k"
  shows "\<exists>rc m' gi'. register_module env m gi (Some a) k = Some (rc, m', gi') \<and> (\<exists>st'. m' = m\<lparr>lists := st'\<rparr>)
    \<and> (rc = AR_EFAILED \<and> num_modules gi' = num_modules gi \<and> db m' gi' om oc os
       \<or> rc = AR_EOK \<and> num_modules gi' = num_modules gi + 1 \<and> db m' gi' (om[tbl_index 64 k := om ! tbl_index 64 k @ [a]]) oc os)"
proof -
  let ?i = "tbl_index 64 k" and ?h = "nodes (lists m)"
  have ty: "table_type APM_OBJ_TYPE_MODULE 64" "length (module_list_ptr gi) = unat (64 :: u32)" using d by (simp_all add: db_def table_type_def)
  obtain nm nc ns where t: "tbl ?h (module_list_ptr gi) nm om" "tbl ?h (container_list_ptr gi) nc oc"
    "slist ?h (sub_graph_list_ptr gi) ns (map Some os)" "distinct (concat nm @ concat nc @ ns)" using d by (auto simp: db_def)
  have o: "owns (lists m) True" using d by (simp add: db_def)
  have i: "?i < length nm" "?i < length om" using tbl_index_lt [OF ty(1), of k] ty(2) t(1) by (simp_all add: tbl_def)
  let ?om = "om[?i := om ! ?i @ [a]]"
  obtain rc heads' c' st' where run: "apm_db_add_obj_to_list env (lists m) (module_list_ptr gi) (Some a) k APM_OBJ_TYPE_MODULE (num_modules gi) = Some (rc, heads', c', st')"
    and o': "owns st' True"
    and cs: "rc = AR_EFAILED \<and> heads' = module_list_ptr gi \<and> c' = num_modules gi \<and> nodes st' = ?h
     \<or> rc = AR_EOK \<and> c' = num_modules gi + 1 \<and> length heads' = length (module_list_ptr gi) \<and> (\<exists>n. n \<notin> dom ?h
        \<and> tbl (nodes st') heads' (nm[?i := nm ! ?i @ [n]]) ?om \<and> keeps (insert n (set (nm ! ?i))) ?h (nodes st'))"
    using add_obj_ok [OF t(1) o e ty, of a k "num_modules gi"] by blast
  let ?m = "m\<lparr>lists := st'\<rparr>" and ?gi = "gi\<lparr>module_list_ptr := heads', num_modules := c'\<rparr>"
  have reg: "register_module env m gi (Some a) k = Some (rc, ?m, ?gi)" using run by (simp add: register_module_def)
  from cs have "rc = AR_EFAILED \<and> c' = num_modules gi \<and> db ?m ?gi om oc os \<or> rc = AR_EOK \<and> c' = num_modules gi + 1 \<and> db ?m ?gi ?om oc os"
  proof (elim disjE conjE exE)
    assume "rc = AR_EFAILED" "heads' = module_list_ptr gi" "c' = num_modules gi" "nodes st' = ?h"
    then show ?thesis using d o' by (simp add: db_def)
  next
    fix n assume c: "rc = AR_EOK" "c' = num_modules gi + 1" "length heads' = length (module_list_ptr gi)" and n: "n \<notin> dom ?h"
      "tbl (nodes st') heads' (nm[?i := nm ! ?i @ [n]]) ?om" "keeps (insert n (set (nm ! ?i))) ?h (nodes st')"
    have k: "keeps ({n} \<union> set (nm ! ?i)) ?h (nodes st')" "{n} \<inter> dom ?h = {}" using n by simp_all
    note rest = others_kept [OF t i(1) k tbl_distinct [OF n(2)]]
    have "hashed 64 (mod_key m) ?om" by (rule hashed_update) (use d a in \<open>auto simp: db_def\<close>)
    moreover have "num_modules gi + 1 = of_nat (length (concat ?om))"
      using d length_concat_update [OF i(2), of "om ! ?i @ [a]"] by (simp add: db_def)
    ultimately show ?thesis using d o' c n(2) rest unfolding db_def by auto
  qed
  then show ?thesis using reg by (intro exI [of _ rc] exI [of _ ?m] exI [of _ ?gi]) auto
qed

lemma register_container_db:
  assumes d: "db m gi om oc os" and e: "env_ok env (lists m) True" and a: "cont_key m a = Some k"
  shows "\<exists>rc m' gi'. register_container env m gi (Some a) = Some (rc, m', gi') \<and> (\<exists>st'. m' = m\<lparr>lists := st'\<rparr>)
    \<and> (rc = AR_EFAILED \<and> num_containers gi' = num_containers gi \<and> db m' gi' om oc os
       \<or> rc = AR_EOK \<and> num_containers gi' = num_containers gi + 1 \<and> db m' gi' om (oc[tbl_index 16 k := oc ! tbl_index 16 k @ [a]]) os)"
proof -
  let ?i = "tbl_index 16 k" and ?h = "nodes (lists m)"
  have ty: "table_type APM_OBJ_TYPE_CONTAINER 16" "length (container_list_ptr gi) = unat (16 :: u32)" using d by (simp_all add: db_def table_type_def)
  obtain nm nc ns where t: "tbl ?h (module_list_ptr gi) nm om" "tbl ?h (container_list_ptr gi) nc oc"
    "slist ?h (sub_graph_list_ptr gi) ns (map Some os)" "distinct (concat nm @ concat nc @ ns)" using d unfolding db_def by blast
  have sw: "distinct (concat nc @ concat nm @ ns)" using iffD1 [OF distinct_swap t(4)] .
  have o: "owns (lists m) True" using d by (simp add: db_def)
  obtain cont where cont: "containers m a = Some cont" "container_id cont = k" using a by (auto simp: cont_key_def)
  have i: "?i < length nc" "?i < length oc" using tbl_index_lt [OF ty(1), of k] ty(2) t(2) by (simp_all add: tbl_def)
  let ?oc = "oc[?i := oc ! ?i @ [a]]"
  obtain rc heads' c' st' where run: "apm_db_add_obj_to_list env (lists m) (container_list_ptr gi) (Some a) k APM_OBJ_TYPE_CONTAINER (num_containers gi) = Some (rc, heads', c', st')"
    and o': "owns st' True"
    and cs: "rc = AR_EFAILED \<and> heads' = container_list_ptr gi \<and> c' = num_containers gi \<and> nodes st' = ?h
     \<or> rc = AR_EOK \<and> c' = num_containers gi + 1 \<and> length heads' = length (container_list_ptr gi) \<and> (\<exists>n. n \<notin> dom ?h
        \<and> tbl (nodes st') heads' (nc[?i := nc ! ?i @ [n]]) ?oc \<and> keeps (insert n (set (nc ! ?i))) ?h (nodes st'))"
    using add_obj_ok [OF t(2) o e ty, of a k "num_containers gi"] by blast
  let ?m = "m\<lparr>lists := st'\<rparr>" and ?gi = "gi\<lparr>container_list_ptr := heads', num_containers := c'\<rparr>"
  have reg: "register_container env m gi (Some a) = Some (rc, ?m, ?gi)" using run cont by (simp add: register_container_def)
  from cs have "rc = AR_EFAILED \<and> c' = num_containers gi \<and> db ?m ?gi om oc os \<or> rc = AR_EOK \<and> c' = num_containers gi + 1 \<and> db ?m ?gi om ?oc os"
  proof (elim disjE conjE exE)
    assume "rc = AR_EFAILED" "heads' = container_list_ptr gi" "c' = num_containers gi" "nodes st' = ?h"
    then show ?thesis using d o' by (simp add: db_def)
  next
    fix n assume c: "rc = AR_EOK" "c' = num_containers gi + 1" "length heads' = length (container_list_ptr gi)" and n: "n \<notin> dom ?h"
      "tbl (nodes st') heads' (nc[?i := nc ! ?i @ [n]]) ?oc" "keeps (insert n (set (nc ! ?i))) ?h (nodes st')"
    have k: "keeps ({n} \<union> set (nc ! ?i)) ?h (nodes st')" "{n} \<inter> dom ?h = {}" using n by simp_all
    note rest = others_kept [OF t(2,1,3) sw i(1) k tbl_distinct [OF n(2)]]
    have "hashed 16 (cont_key m) ?oc" by (rule hashed_update) (use d a in \<open>auto simp: db_def\<close>)
    moreover have "num_containers gi + 1 = of_nat (length (concat ?oc))"
      using d length_concat_update [OF i(2), of "oc ! ?i @ [a]"] by (simp add: db_def)
    moreover note rest(1,2)
    moreover have "distinct (concat nm @ concat (nc[?i := nc ! ?i @ [n]]) @ ns)" using rest(3) unfolding distinct_swap [of "concat nm"] by simp
    ultimately have "db ?m ?gi om ?oc os"
      using d o' c n(2) by (intro dbI [where nm = nm and nc = "nc[?i := nc ! ?i @ [n]]" and ns = ns]) (simp_all add: db_def)
    then show ?thesis using c by simp
  qed
  then show ?thesis using reg by (intro exI [of _ rc] exI [of _ ?m] exI [of _ ?gi]) auto
qed

lemma unregister_module_db:
  assumes d: "db m gi om oc os" and a: "mod_key m a = Some k" "a \<in> set (om ! tbl_index 64 k)"
  shows "\<exists>m' gi'. unregister_module m gi (Some a) = Some (AR_EOK, m', gi') \<and> (\<exists>st'. m' = m\<lparr>lists := st'\<rparr>)
    \<and> num_modules gi' = num_modules gi - 1 \<and> db m' gi' (om[tbl_index 64 k := remove1 a (om ! tbl_index 64 k)]) oc os"
proof -
  let ?i = "tbl_index 64 k" and ?h = "nodes (lists m)"
  have ty: "table_type APM_OBJ_TYPE_MODULE 64" "length (module_list_ptr gi) = unat (64 :: u32)" using d by (simp_all add: db_def table_type_def)
  obtain nm nc ns where t: "tbl ?h (module_list_ptr gi) nm om" "tbl ?h (container_list_ptr gi) nc oc"
    "slist ?h (sub_graph_list_ptr gi) ns (map Some os)" "distinct (concat nm @ concat nc @ ns)" using d by (auto simp: db_def)
  have o: "owns (lists m) True" using d by (simp add: db_def)
  obtain mo where mo: "modules m a = Some mo" "instance_id mo = k" using a(1) by (auto simp: mod_key_def)
  have i: "?i < length nm" "?i < length om" using tbl_index_lt [OF ty(1), of k] ty(2) t(1) by (simp_all add: tbl_def)
  let ?om = "om[?i := remove1 a (om ! ?i)]"
  obtain heads' st' ns' where run: "apm_db_remove_obj_from_list (lists m) (module_list_ptr gi) (Some a) k APM_OBJ_TYPE_MODULE (num_modules gi) = Some (AR_EOK, heads', num_modules gi - 1, st')"
    and o': "owns st' True" "length heads' = length (module_list_ptr gi)" "set ns' \<subseteq> set (nm ! ?i)" "tbl (nodes st') heads' (nm[?i := ns']) ?om" "keeps (set (nm ! ?i)) ?h (nodes st')"
    using remove_obj_ok [OF t(1) o ty a(2), of "num_modules gi"] by blast
  let ?m = "m\<lparr>lists := st'\<rparr>" and ?gi = "gi\<lparr>module_list_ptr := heads', num_modules := num_modules gi - 1\<rparr>"
  have reg: "unregister_module m gi (Some a) = Some (AR_EOK, ?m, ?gi)" using run mo by (simp add: unregister_module_def)
  have k: "keeps ({} \<union> set (nm ! ?i)) ?h (nodes st')" "{} \<inter> dom ?h = {}" using o'(5) by simp_all
  note rest = others_kept [OF t i(1) k tbl_distinct [OF o'(4)], simplified, OF o'(3)]
  have "hashed 64 (mod_key m) ?om" by (rule hashed_update) (use d set_remove1_subset [of a "om ! ?i"] in \<open>auto simp: db_def\<close>)
  moreover have "num_modules gi - 1 = of_nat (length (concat ?om))"
  proof -
    have "Suc (length (remove1 a (om ! ?i))) = length (om ! ?i)" using length_pos_if_in_set [OF a(2)] a(2) by (simp add: length_remove1 del: length_greater_0_conv)
    then have "length (concat om) = Suc (length (concat ?om))" using length_concat_update [OF i(2), of "remove1 a (om ! ?i)"] by simp
    then show ?thesis using d by (simp add: db_def)
  qed
  ultimately have "db ?m ?gi ?om oc os" using d o' rest unfolding db_def by auto
  then show ?thesis using reg by (intro exI [of _ ?m] exI [of _ ?gi]) auto
qed

lemma unregister_container_db:
  assumes d: "db m gi om oc os" and a: "cont_key m a = Some k" "a \<in> set (oc ! tbl_index 16 k)"
  shows "\<exists>m' gi'. unregister_container m gi (Some a) = Some (AR_EOK, m', gi') \<and> (\<exists>st'. m' = m\<lparr>lists := st'\<rparr>)
    \<and> num_containers gi' = num_containers gi - 1 \<and> db m' gi' om (oc[tbl_index 16 k := remove1 a (oc ! tbl_index 16 k)]) os"
proof -
  let ?i = "tbl_index 16 k" and ?h = "nodes (lists m)"
  have ty: "table_type APM_OBJ_TYPE_CONTAINER 16" "length (container_list_ptr gi) = unat (16 :: u32)" using d by (simp_all add: db_def table_type_def)
  obtain nm nc ns where t: "tbl ?h (module_list_ptr gi) nm om" "tbl ?h (container_list_ptr gi) nc oc"
    "slist ?h (sub_graph_list_ptr gi) ns (map Some os)" "distinct (concat nm @ concat nc @ ns)" using d unfolding db_def by blast
  have sw: "distinct (concat nc @ concat nm @ ns)" using iffD1 [OF distinct_swap t(4)] .
  have o: "owns (lists m) True" using d by (simp add: db_def)
  obtain mo where mo: "containers m a = Some mo" "container_id mo = k" using a(1) by (auto simp: cont_key_def)
  have i: "?i < length nc" "?i < length oc" using tbl_index_lt [OF ty(1), of k] ty(2) t(2) by (simp_all add: tbl_def)
  let ?oc = "oc[?i := remove1 a (oc ! ?i)]"
  obtain heads' st' ns' where run: "apm_db_remove_obj_from_list (lists m) (container_list_ptr gi) (Some a) k APM_OBJ_TYPE_CONTAINER (num_containers gi) = Some (AR_EOK, heads', num_containers gi - 1, st')"
    and o': "owns st' True" "length heads' = length (container_list_ptr gi)" "set ns' \<subseteq> set (nc ! ?i)" "tbl (nodes st') heads' (nc[?i := ns']) ?oc" "keeps (set (nc ! ?i)) ?h (nodes st')"
    using remove_obj_ok [OF t(2) o ty a(2), of "num_containers gi"] by blast
  let ?m = "m\<lparr>lists := st'\<rparr>" and ?gi = "gi\<lparr>container_list_ptr := heads', num_containers := num_containers gi - 1\<rparr>"
  have reg: "unregister_container m gi (Some a) = Some (AR_EOK, ?m, ?gi)" using run mo by (simp add: unregister_container_def)
  have k: "keeps ({} \<union> set (nc ! ?i)) ?h (nodes st')" "{} \<inter> dom ?h = {}" "set ns' \<subseteq> set (nc ! ?i) \<union> {}" using o'(3,5) by simp_all
  note rest = others_kept [OF t(2,1,3) sw i(1) k(1,2) tbl_distinct [OF o'(4)] k(3)]
  have "hashed 16 (cont_key m) ?oc" by (rule hashed_update) (use d set_remove1_subset [of a "oc ! ?i"] in \<open>auto simp: db_def\<close>)
  moreover have "num_containers gi - 1 = of_nat (length (concat ?oc))"
  proof -
    have "Suc (length (remove1 a (oc ! ?i))) = length (oc ! ?i)" using length_pos_if_in_set [OF a(2)] a(2) by (simp add: length_remove1 del: length_greater_0_conv)
    then have "length (concat oc) = Suc (length (concat ?oc))" using length_concat_update [OF i(2), of "remove1 a (oc ! ?i)"] by simp
    then show ?thesis using d by (simp add: db_def)
  qed
  ultimately have "db ?m ?gi om ?oc os"
    using d o' rest(1,2) by (intro dbI [where nc = "nc[?i := ns']", OF _ _ _ _ _ _ _ _ _ _ _ iffD1 [OF distinct_swap rest(3)]]) (simp_all add: db_def)
  then show ?thesis using reg by (intro exI [of _ ?m] exI [of _ ?gi]) auto
qed

text \<open>What is found does not depend on the order of the table, only on the objects of each id.\<close>

lemma db_bucket_all:
  assumes "db m gi om oc os"
  shows "\<forall>j. tbl_index 64 j < length om" "\<forall>j. tbl_index 16 j < length oc" "hashed 64 (mod_key m) om" "hashed 16 (cont_key m) oc"
  using assms tbl_index_lt [of APM_OBJ_TYPE_MODULE 64] tbl_index_lt [of APM_OBJ_TYPE_CONTAINER 16] by (auto simp: db_def tbl_def table_type_def)

lemma db_module_objs:
  assumes "db m gi om oc os" "mod_key m a = Some k"
  shows "objs_of (mod_key m) (om[tbl_index 64 k := om ! tbl_index 64 k @ [a]]) = (objs_of (mod_key m) om)(k := objs_of (mod_key m) om k @ [a])"
  by (rule objs_of_add) (use db_bucket_all [OF assms(1)] assms(2) in simp_all)

lemma db_container_objs:
  assumes "db m gi om oc os" "cont_key m a = Some k"
  shows "objs_of (cont_key m) (oc[tbl_index 16 k := remove1 a (oc ! tbl_index 16 k)]) = (objs_of (cont_key m) oc)(k := remove1 a (objs_of (cont_key m) oc k))"
  by (rule objs_of_remove) (use db_bucket_all [OF assms(1)] assms(2) in simp_all)

subsection \<open>Satellite containers\<close>

text \<open>The id of the container that stands for the one with a given id.\<close>

definition stands_for :: "apm_mem \<Rightarrow> addr list \<Rightarrow> u32 \<Rightarrow> u32" where
  "stands_for m sats k =
    (case List.find (\<lambda>a. map_option satellite_cont_id (sat_infos m a) = Some k) sats of
       None \<Rightarrow> k | Some a \<Rightarrow> (case sat_infos m a of None \<Rightarrow> k | Some info \<Rightarrow> parent_cont_id info))"

lemma sat_loop_dseg:
  "dseg h pr ns None \<Longrightarrow> map (obj_at h) ns = map Some os \<Longrightarrow> set os \<subseteq> dom infos \<Longrightarrow>
   sat_loop h infos (begp ns None) k
     = Some (map_option (\<lambda>a. parent_cont_id (the (infos a))) (List.find (\<lambda>a. map_option satellite_cont_id (infos a) = Some k) os))"
proof (induction ns arbitrary: pr os)
  case Nil
  then show ?case by (subst sat_loop.simps) simp
next
  case (Cons n ns)
  then obtain a os' where os: "os = a # os'" "obj_at h n = Some a" by (cases os) auto
  have n: "n \<in> dom h" "nxt h n = begp ns None" "dseg h (Some n) ns None" using Cons.prems(1) by (auto split: if_splits)
  obtain info where "infos a = Some info" using Cons.prems(3) os by auto
  moreover have "sat_loop h infos (begp ns None) k
      = Some (map_option (\<lambda>a. parent_cont_id (the (infos a))) (List.find (\<lambda>a. map_option satellite_cont_id (infos a) = Some k) os'))"
    by (rule Cons.IH [OF n(3)]) (use Cons.prems os in auto)
  ultimately show ?case using os n by (subst sat_loop.simps) (auto simp: mem_simps)
qed

text \<open>At a node without an object the loop stays where it is.\<close>

lemma sat_loop_stuck:
  assumes "rd_obj h p = Some None"
  shows "sat_loop h infos p k = None"
proof -
  have "rd_obj h p \<noteq> Some None \<or> p = None" if "sat_loop h infos p k = Some r" for r
    by (rule sat_loop.raw_induct [where P = "\<lambda>h infos p k r. rd_obj h p \<noteq> Some None \<or> p = None", OF _ that])
      (auto split: if_splits option.splits bind_splits, blast)
  moreover have "p \<noteq> None" using assms by (cases p) (simp_all add: rd_obj_def load_def)
  ultimately show ?thesis using assms by (cases "sat_loop h infos p k") auto
qed

lemma sat_lookup:
  assumes "slist (nodes (lists m)) (sat_container_list_ptr gi) ns (map Some sats)" "set sats \<subseteq> dom (sat_infos m)" "0 < num_satellite_container gi"
  shows "apm_db_get_container_node True m (Some gi) k True q = apm_db_get_container_node False m (Some gi) (stands_for m sats k) True q"
proof -
  have l: "sat_container_list_ptr gi = begp ns None" "dseg (nodes (lists m)) None ns None" "map (obj_at (nodes (lists m))) ns = map Some sats"
    using assms(1) by (auto simp: slist_def dll_def)
  let ?f = "List.find (\<lambda>a. map_option satellite_cont_id (sat_infos m a) = Some k) sats"
  have run: "apm_db_get_sat_contaniners_parent_cont_id m (sat_container_list_ptr gi) k = Some (map_option (\<lambda>a. parent_cont_id (the (sat_infos m a))) ?f)"
    unfolding apm_db_get_sat_contaniners_parent_cont_id_def l(1) by (rule sat_loop_dseg [OF l(2,3) assms(2)])
  have "stands_for m sats k = (case map_option (\<lambda>a. parent_cont_id (the (sat_infos m a))) ?f of None \<Rightarrow> k | Some p \<Rightarrow> p)"
  proof (cases ?f)
    case (Some a)
    then have "a \<in> set sats" by (auto simp: find_Some_iff)
    then show ?thesis using assms(2) Some by (auto simp: stands_for_def)
  qed (simp add: stands_for_def)
  then show ?thesis using run assms(3) by (auto simp: apm_db_get_container_node_def)
qed

subsection \<open>An example\<close>

text \<open>One module is registered; a second one, whose id selects the same list, is not yet. The first satellite stands for container 16.\<close>

definition ex_apm :: apm_mem where
  "ex_apm = \<lparr>lists = ex_pool_lists, sub_graphs = Map.empty, containers = [500 \<mapsto> \<lparr>container_id = 16\<rparr>],
     modules = [100 \<mapsto> \<lparr>instance_id = 0x4001\<rparr>, 300 \<mapsto> \<lparr>instance_id = 0x4041\<rparr>], port_infos = Map.empty, port_conns = Map.empty,
     pspc_lists = Map.empty, sat_infos = [100 \<mapsto> \<lparr>satellite_cont_id = 32, parent_cont_id = 16\<rparr>]\<rparr>"

definition ex_gi :: apm_graph_info where
  "ex_gi = \<lparr>num_sub_graphs = 0, sub_graph_list_ptr = None, num_sub_graph_conn = 0, sub_graph_conn_list_ptr = None, num_conn = 0,
     conn_cfg_list_ptr = None, num_ctrl_link = 0, ctrl_link_cfg_list_ptr = None, num_containers = 0, container_list_ptr = replicate 16 None,
     num_satellite_container = 0, sat_container_list_ptr = None, num_modules = 1, module_list_ptr = (replicate 64 None)[1 := Some 1008]\<rparr>"

abbreviation (input) ex_om :: "addr list list" where "ex_om \<equiv> (replicate 64 [])[1 := [100]]"

lemma ex_tbl: "tbl (nodes (lists ex_apm)) (module_list_ptr ex_gi) ((replicate 64 [])[1 := [1008]]) ex_om"
proof -
  have "slist h None [] []" for h by (simp add: slist_def dll_def)
  then have t: "tbl (nodes (lists ex_apm)) (replicate 64 None) (replicate 64 []) (replicate 64 [])" by (simp add: tbl_def)
  have "tbl (nodes (lists ex_apm)) ((replicate 64 None)[1 := Some 1008]) ((replicate 64 [])[1 := [1008]]) ex_om"
    by (rule tbl_update [OF t, where A = "{}" and B = "{1008}"]) (use ex_pool_slist in \<open>simp_all add: ex_apm_def keeps_def\<close>)
  then show ?thesis by (simp add: ex_gi_def)
qed

lemma ex_db: "db ex_apm ex_gi ex_om (replicate 16 []) []"
proof (rule dbI [OF _ _ _ _ _ _ _ _ ex_tbl, where nc = "replicate 16 []" and ns = "[]"])
  show "owns (lists ex_apm) True" using ex_pool_owns by (simp add: ex_apm_def)
  have "hashed 64 (mod_key ex_apm) (replicate 64 [])" by (simp add: hashed_def)
  then show "hashed 64 (mod_key ex_apm) ex_om" by (rule hashed_update) (simp add: mod_key_def ex_apm_def tbl_index_def APM_HASH_FUNC_def)
  show "distinct (concat ((replicate 64 [])[1 := [1008 :: addr]]) @ concat (replicate 16 []) @ [])" using ex_tbl by (simp add: tbl_def)
  show "num_modules ex_gi = of_nat (length (concat ex_om))" by (subst concat_update_split) (simp_all add: ex_gi_def)
qed (simp_all add: ex_gi_def ex_apm_def hashed_def tbl_def slist_def dll_def)

lemma ex_apm_env: "env_ok ex_env (lists ex_apm) True"
  using ex_pool_env_ok by (simp add: ex_apm_def)

declare tail_loop.simps [code]

lemma ex_registered: "map_option fst (register_module ex_env ex_apm ex_gi (Some 300) 0x4041) = Some AR_EOK"
  by code_simp

lemma ex_om_concat: "concat ex_om = [100]"
  by (subst concat_update_split) simp_all

lemma ex_mod_key: "mod_key ex_apm 300 = Some 0x4041" "mod_key ex_apm 100 = Some 0x4001"
  by (simp_all add: mod_key_def ex_apm_def)

subsection \<open>Properties\<close>

text \<open>
  C30: A lookup in the hashed tables finds what a search through all objects finds: the first object that was added with the id. The
  code says whether there is one, unless the caller asks in order to create it. The same holds of the list of sub-graphs. With offload and
  satellite containers (in a well-formed list of them) a container is searched for under the id of the container that the given id stands for, the
  parent of the first satellite with that id or the id itself; otherwise under the given id.
\<close>

theorem apm_db_lookup_is_search:
  assumes "db m gi om oc os"
    and "offload \<and> 0 < num_satellite_container gi \<Longrightarrow>
      slist (nodes (lists m)) (sat_container_list_ptr gi) ns (map Some sats) \<and> set sats \<subseteq> dom (sat_infos m)"
  shows "apm_db_get_module_node m (Some gi) k True q = Some (answer q (List.find (\<lambda>a. mod_key m a = Some k) (concat om)))
    \<and> apm_db_get_container_node offload m (Some gi) k True q
        = Some (answer q (List.find (\<lambda>a. cont_key m a = Some (if offload \<and> 0 < num_satellite_container gi then stands_for m sats k else k)) (concat oc)))
    \<and> apm_db_get_sub_graph_node m (Some gi) k True q = Some (answer q (List.find (\<lambda>a. sg_key m a = Some k) os))"
proof -
  have "apm_db_get_container_node offload m (Some gi) k True q
      = apm_db_get_container_node False m (Some gi) (if offload \<and> 0 < num_satellite_container gi then stands_for m sats k else k) True q"
  proof (cases "offload \<and> 0 < num_satellite_container gi")
    case True
    then show ?thesis using sat_lookup [of m gi ns sats k q] assms(2) by simp
  next
    case False
    then show ?thesis by (auto simp: apm_db_get_container_node_def)
  qed
  then show ?thesis using db_lookups [OF assms(1)] by (simp add: objs_of_def find_filter)
qed

theorem apm_db_lookup_is_search_witness:
  "apm_db_get_module_node ex_apm (Some ex_gi) 0x4001 True APM_DB_OBJ_QUERY = Some (AR_EOK, Some (Some 100))
    \<and> apm_db_get_module_node ex_apm (Some ex_gi) 0x4041 True APM_DB_OBJ_QUERY = Some (AR_EFAILED, Some None)
    \<and> apm_db_get_container_node True ex_apm (Some (ex_gi\<lparr>num_satellite_container := 1, sat_container_list_ptr := Some 1008\<rparr>)) 32 True APM_DB_OBJ_QUERY
      = Some (AR_EFAILED, Some None)"
proof -
  let ?gi = "ex_gi\<lparr>num_satellite_container := 1, sat_container_list_ptr := Some 1008\<rparr>"
  have "db ex_apm ?gi ex_om (replicate 16 []) []" using ex_db by (simp add: db_def)
  moreover have "slist (nodes (lists ex_apm)) (sat_container_list_ptr ?gi) [1008] (map Some [100])" "set [100] \<subseteq> dom (sat_infos ex_apm)"
    using ex_pool_slist by (simp_all add: ex_apm_def)
  ultimately have "apm_db_get_container_node True ex_apm (Some ?gi) 32 True APM_DB_OBJ_QUERY = Some (AR_EFAILED, Some None)"
    using apm_db_lookup_is_search [of ex_apm ?gi ex_om "replicate 16 []" "[]" True "[1008]" "[100]" 32 APM_DB_OBJ_QUERY]
    by (simp add: answer_def concat_replicate_trivial)
  then show ?thesis
    using apm_db_lookup_is_search [OF ex_db, of False "[]" "[]" "0x4001" APM_DB_OBJ_QUERY] apm_db_lookup_is_search [OF ex_db, of False "[]" "[]" "0x4041" APM_DB_OBJ_QUERY]
    unfolding ex_om_concat by (simp add: answer_def ex_mod_key)
qed

text \<open>
  C23: Registering a module in the data base always returns. If there is no memory for the node, the data base is as it was. Otherwise the
  number of modules grows by one, and the id now finds the new module, or still the older one if there was one with that id. In both cases
  the data base stays well-formed, and what is found under any other id, among the containers and among the sub-graphs stays the same (the
  lookup of containers being the one without offload).
\<close>

theorem apm_db_register_module_ok:
  assumes "db m gi om oc os" "env_ok env (lists m) True" "mod_key m a = Some k"
  shows "\<exists>rc m' gi'. register_module env m gi (Some a) k = Some (rc, m', gi')
    \<and> (\<forall>j q. apm_db_get_container_node False m' (Some gi') j True q = apm_db_get_container_node False m (Some gi) j True q)
    \<and> (\<forall>j q. apm_db_get_sub_graph_node m' (Some gi') j True q = apm_db_get_sub_graph_node m (Some gi) j True q)
    \<and> (\<forall>j q. j \<noteq> k \<longrightarrow> apm_db_get_module_node m' (Some gi') j True q = apm_db_get_module_node m (Some gi) j True q)
    \<and> (rc = AR_EFAILED \<and> num_modules gi' = num_modules gi \<and> db m' gi' om oc os
         \<and> (\<forall>q. apm_db_get_module_node m' (Some gi') k True q = apm_db_get_module_node m (Some gi) k True q)
       \<or> rc = AR_EOK \<and> num_modules gi' = num_modules gi + 1 \<and> (\<exists>om'. db m' gi' om' oc os \<and> set (concat om') = insert a (set (concat om)))
         \<and> (\<forall>q. apm_db_get_module_node m' (Some gi') k True q
                = Some (AR_EOK, Some (Some (case List.find (\<lambda>b. mod_key m b = Some k) (concat om) of None \<Rightarrow> a | Some b \<Rightarrow> b)))))"
proof -
  let ?om = "om[tbl_index 64 k := om ! tbl_index 64 k @ [a]]"
  obtain rc m' gi' st' where r: "register_module env m gi (Some a) k = Some (rc, m', gi')" "m' = m\<lparr>lists := st'\<rparr>"
    and cs: "rc = AR_EFAILED \<and> num_modules gi' = num_modules gi \<and> db m' gi' om oc os
       \<or> rc = AR_EOK \<and> num_modules gi' = num_modules gi + 1 \<and> db m' gi' ?om oc os"
    using register_module_db [OF assms] by blast
  have keys: "mod_key m' = mod_key m" "cont_key m' = cont_key m" "sg_key m' = sg_key m" unfolding r(2) by simp_all
  note old = db_lookups [OF assms(1)]
  from cs show ?thesis
  proof
    assume c: "rc = AR_EFAILED \<and> num_modules gi' = num_modules gi \<and> db m' gi' om oc os"
    then have "db m' gi' om oc os" by simp
    note new = db_lookups [OF this, unfolded keys]
    show ?thesis using r(1) c by (intro exI [of _ rc] exI [of _ m'] exI [of _ gi']) (simp add: old new)
  next
    assume c: "rc = AR_EOK \<and> num_modules gi' = num_modules gi + 1 \<and> db m' gi' ?om oc os"
    then have d: "db m' gi' ?om oc os" by simp
    note new = db_lookups [OF d, unfolded keys db_module_objs [OF assms(1,3)]]
    have i: "tbl_index 64 k < length om" using db_bucket_all [OF assms(1)] by blast
    have s: "set (concat ?om) = insert a (set (concat om))" unfolding concat_update_split [OF i] by (auto simp del: set_concat)
    show ?thesis using r(1) c
      by (intro exI [of _ rc] exI [of _ m'] exI [of _ gi'])
        (auto simp: old new s answer_def find_filter objs_of_def simp del: set_concat split: list.splits intro!: exI [of _ ?om])
  qed
qed

theorem apm_db_register_module_ok_witness:
  "\<exists>rc m' gi'. register_module ex_env ex_apm ex_gi (Some 300) 0x4041 = Some (rc, m', gi')
    \<and> (\<forall>q. apm_db_get_module_node m' (Some gi') 0x4001 True q = apm_db_get_module_node ex_apm (Some ex_gi) 0x4001 True q)
    \<and> rc = AR_EOK \<and> num_modules gi' = 2"
proof -
  from apm_db_register_module_ok [OF ex_db ex_apm_env ex_mod_key(1)]
  obtain rc m' gi' where "register_module ex_env ex_apm ex_gi (Some 300) 0x4041 = Some (rc, m', gi')"
    "\<forall>j q. j \<noteq> 0x4041 \<longrightarrow> apm_db_get_module_node m' (Some gi') j True q = apm_db_get_module_node ex_apm (Some ex_gi) j True q"
    "rc = AR_EFAILED \<or> rc = AR_EOK \<and> num_modules gi' = num_modules ex_gi + 1" by blast
  moreover from this ex_registered have "rc = AR_EOK" by simp
  ultimately show ?thesis by (intro exI [of _ rc] exI [of _ m'] exI [of _ gi']) (auto simp: ex_gi_def)
qed

text \<open>
  C35: A module that was registered and is then unregistered leaves no trace: the removal succeeds, the number of modules is the old one, and
  every lookup, of modules, containers (without offload) and sub-graphs, answers as before the registration.
\<close>

theorem apm_db_module_roundtrip:
  assumes "db m gi om oc os" "env_ok env (lists m) True" "mod_key m a = Some k" "a \<notin> set (concat om)"
    and "register_module env m gi (Some a) k = Some (AR_EOK, m', gi')"
  shows "\<exists>m'' gi''. unregister_module m' gi' (Some a) = Some (AR_EOK, m'', gi'') \<and> db m'' gi'' om oc os \<and> num_modules gi'' = num_modules gi
    \<and> (\<forall>j q. apm_db_get_module_node m'' (Some gi'') j True q = apm_db_get_module_node m (Some gi) j True q)
    \<and> (\<forall>j q. apm_db_get_container_node False m'' (Some gi'') j True q = apm_db_get_container_node False m (Some gi) j True q)
    \<and> (\<forall>j q. apm_db_get_sub_graph_node m'' (Some gi'') j True q = apm_db_get_sub_graph_node m (Some gi) j True q)"
proof -
  let ?i = "tbl_index 64 k" and ?om = "om[tbl_index 64 k := om ! tbl_index 64 k @ [a]]"
  obtain st' where r: "m' = m\<lparr>lists := st'\<rparr>" "num_modules gi' = num_modules gi + 1" "db m' gi' ?om oc os"
    using register_module_db [OF assms(1-3)] assms(5) by auto
  have i: "?i < length om" using db_bucket_all [OF assms(1)] by blast
  then have a: "mod_key m' a = Some k" "a \<in> set (?om ! ?i)" using assms(3) by (simp_all add: r(1))
  obtain m'' gi'' st'' where u: "unregister_module m' gi' (Some a) = Some (AR_EOK, m'', gi'')" "m'' = m'\<lparr>lists := st''\<rparr>"
    "num_modules gi'' = num_modules gi' - 1" "db m'' gi'' (?om[?i := remove1 a (?om ! ?i)]) oc os"
    using unregister_module_db [OF r(3) a] by blast
  have "a \<notin> set (om ! ?i)" using assms(4) nth_in_concat [OF i] by blast
  then have "?om[?i := remove1 a (?om ! ?i)] = om" using i by (simp add: remove1_append)
  then have d: "db m'' gi'' om oc os" using u(4) by simp
  have keys: "mod_key m'' = mod_key m" "cont_key m'' = cont_key m" "sg_key m'' = sg_key m" unfolding u(2) r(1) by simp_all
  show ?thesis using u(1,3) r(2) d db_lookups [OF d] db_lookups [OF assms(1)]
    by (intro exI [of _ m''] exI [of _ gi'']) (simp add: keys)
qed

theorem apm_db_module_roundtrip_witness:
  "\<exists>m' gi' m'' gi''. register_module ex_env ex_apm ex_gi (Some 300) 0x4041 = Some (AR_EOK, m', gi')
    \<and> unregister_module m' gi' (Some 300) = Some (AR_EOK, m'', gi'') \<and> num_modules gi'' = 1
    \<and> (\<forall>j q. apm_db_get_module_node m'' (Some gi'') j True q = apm_db_get_module_node ex_apm (Some ex_gi) j True q)"
proof -
  obtain m' gi' where r: "register_module ex_env ex_apm ex_gi (Some 300) 0x4041 = Some (AR_EOK, m', gi')" using ex_registered by auto
  have "300 \<notin> set (concat ex_om)" unfolding ex_om_concat by simp
  from apm_db_module_roundtrip [OF ex_db ex_apm_env ex_mod_key(1) this r] show ?thesis using r by (auto simp: ex_gi_def)
qed

text \<open>
  With satellite containers, the lookup of a container looks for the container that stands for the given one: its parent if the id is that
  of a satellite, itself otherwise. A node of the list of satellites without an object, at its head, makes the lookup run forever.
\<close>

theorem apm_db_satellite_lookup:
  assumes "0 < num_satellite_container gi"
  shows "(\<forall>ns sats k q. slist (nodes (lists m)) (sat_container_list_ptr gi) ns (map Some sats) \<and> set sats \<subseteq> dom (sat_infos m) \<longrightarrow>
       apm_db_get_container_node True m (Some gi) k True q = apm_db_get_container_node False m (Some gi) (stands_for m sats k) True q)
    \<and> (\<forall>k q. rd_obj (nodes (lists m)) (sat_container_list_ptr gi) = Some None \<longrightarrow> apm_db_get_container_node True m (Some gi) k True q = None)"
proof (intro conjI allI impI)
  fix ns sats k q
  assume "slist (nodes (lists m)) (sat_container_list_ptr gi) ns (map Some sats) \<and> set sats \<subseteq> dom (sat_infos m)"
  then show "apm_db_get_container_node True m (Some gi) k True q = apm_db_get_container_node False m (Some gi) (stands_for m sats k) True q"
    using sat_lookup [OF _ _ assms] by blast
next
  fix k q
  assume "rd_obj (nodes (lists m)) (sat_container_list_ptr gi) = Some None"
  from sat_loop_stuck [OF this] show "apm_db_get_container_node True m (Some gi) k True q = None"
    using assms by (simp add: apm_db_get_container_node_def apm_db_get_sat_contaniners_parent_cont_id_def)
qed

theorem apm_db_satellite_lookup_witness:
  "apm_db_get_container_node True ex_apm (Some (ex_gi\<lparr>num_satellite_container := 1, sat_container_list_ptr := Some 1008\<rparr>)) 32 True APM_DB_OBJ_QUERY
    = apm_db_get_container_node False ex_apm (Some (ex_gi\<lparr>num_satellite_container := 1, sat_container_list_ptr := Some 1008\<rparr>)) 16 True APM_DB_OBJ_QUERY"
proof -
  let ?gi = "ex_gi\<lparr>num_satellite_container := 1, sat_container_list_ptr := Some 1008\<rparr>"
  have "slist (nodes (lists ex_apm)) (sat_container_list_ptr ?gi) [1008] (map Some [100]) \<and> set [100] \<subseteq> dom (sat_infos ex_apm)"
    using ex_pool_slist by (simp add: ex_apm_def)
  moreover have "stands_for ex_apm [100] 32 = 16" by (simp add: stands_for_def ex_apm_def)
  moreover have "0 < num_satellite_container ?gi" by simp
  ultimately show ?thesis using apm_db_satellite_lookup [of ?gi ex_apm] by metis
qed

end
