(* ===== verification/Apm_Sequencer.thy ===== *)
theory Apm_Sequencer
  imports Apm_Graph_Db
begin

text \<open>
  The command sequencer of the audio processing manager (\<^verbatim>\<open>fwk/spf/apm/core/src/apm_cmd_sequencer.c\<close>): it plans which messages the
  containers get for a command, and takes a command through its operations until a response is awaited or the command ends.

  The state is the part of \<^verbatim>\<open>apm_t\<close> and of its current command that the sequencer reads or writes. The five sequences of a command
  are a function from a reference, which stands for the pointers to them. What the sequencer calls outside of this file, most of it
  through tables of function pointers, is a parameter (\<open>apm_utils\<close>). The parts of the command that share memory in a
  union are separate fields: a command only uses the part that belongs to it, except an SPF_MSG_CMD_SET_CFG that closes all graphs, which in the
  code uses overlapping parts of both: for it the model supposes that they do not disturb each other, and its progress is not claimed.
\<close>

subsection \<open>Codes\<close>

abbreviation (input) AR_EUNEXPECTED :: u32 where "AR_EUNEXPECTED \<equiv> 5"

abbreviation (input) APM_CMD_GRAPH_OPEN :: u32 where "APM_CMD_GRAPH_OPEN \<equiv> 0x01001000"
abbreviation (input) APM_CMD_GRAPH_PREPARE :: u32 where "APM_CMD_GRAPH_PREPARE \<equiv> 0x01001001"
abbreviation (input) APM_CMD_GRAPH_START :: u32 where "APM_CMD_GRAPH_START \<equiv> 0x01001002"
abbreviation (input) APM_CMD_GRAPH_STOP :: u32 where "APM_CMD_GRAPH_STOP \<equiv> 0x01001003"
abbreviation (input) APM_CMD_GRAPH_CLOSE :: u32 where "APM_CMD_GRAPH_CLOSE \<equiv> 0x01001004"
abbreviation (input) APM_CMD_GRAPH_FLUSH :: u32 where "APM_CMD_GRAPH_FLUSH \<equiv> 0x01001005"
abbreviation (input) APM_CMD_SET_CFG :: u32 where "APM_CMD_SET_CFG \<equiv> 0x01001006"
abbreviation (input) APM_CMD_GET_CFG :: u32 where "APM_CMD_GET_CFG \<equiv> 0x01001007"
abbreviation (input) APM_CMD_REGISTER_CFG :: u32 where "APM_CMD_REGISTER_CFG \<equiv> 0x01001008"
abbreviation (input) APM_CMD_DEREGISTER_CFG :: u32 where "APM_CMD_DEREGISTER_CFG \<equiv> 0x01001009"
abbreviation (input) APM_CMD_CLOSE_ALL :: u32 where "APM_CMD_CLOSE_ALL \<equiv> 0x01001013"
abbreviation (input) APM_CMD_SHARED_SATELLITE_MEM_MAP_REGIONS :: u32 where "APM_CMD_SHARED_SATELLITE_MEM_MAP_REGIONS \<equiv> 0x01001026"
abbreviation (input) APM_CMD_SHARED_SATELLITE_MEM_UNMAP_REGIONS :: u32 where "APM_CMD_SHARED_SATELLITE_MEM_UNMAP_REGIONS \<equiv> 0x01001027"
abbreviation (input) APM_CMD_GRAPH_SUSPEND :: u32 where "APM_CMD_GRAPH_SUSPEND \<equiv> 0x01001043"
abbreviation (input) APM_CMD_SHARED_MEM_MAP_REGIONS_V2 :: u32 where "APM_CMD_SHARED_MEM_MAP_REGIONS_V2 \<equiv> 0x01001061"
abbreviation (input) APM_CMD_SHARED_MEM_UNMAP_REGIONS_V2 :: u32 where "APM_CMD_SHARED_MEM_UNMAP_REGIONS_V2 \<equiv> 0x01001062"
abbreviation (input) APM_CMD_SHARED_MEM_REGION_ACCESS_INFO :: u32 where "APM_CMD_SHARED_MEM_REGION_ACCESS_INFO \<equiv> 0x01001063"
abbreviation (input) APM_CMD_RSP_SHARED_MEM_MAP_REGIONS :: u32 where "APM_CMD_RSP_SHARED_MEM_MAP_REGIONS \<equiv> 0x02001001"
abbreviation (input) SPF_EVT_TO_APM_FOR_PATH_DELAY :: u32 where "SPF_EVT_TO_APM_FOR_PATH_DELAY \<equiv> 0x0300100A"
abbreviation (input) SPF_MSG_CMD_GRAPH_OPEN :: u32 where "SPF_MSG_CMD_GRAPH_OPEN \<equiv> 0x0100102B"
abbreviation (input) SPF_MSG_CMD_SET_CFG :: u32 where "SPF_MSG_CMD_SET_CFG \<equiv> 0x0100102C"
abbreviation (input) SPF_MSG_CMD_GET_CFG :: u32 where "SPF_MSG_CMD_GET_CFG \<equiv> 0x0100102D"
abbreviation (input) SPF_MSG_CMD_REGISTER_CFG :: u32 where "SPF_MSG_CMD_REGISTER_CFG \<equiv> 0x0100102E"
abbreviation (input) SPF_MSG_CMD_DEREGISTER_CFG :: u32 where "SPF_MSG_CMD_DEREGISTER_CFG \<equiv> 0x0100102F"
abbreviation (input) SPF_MSG_CMD_GRAPH_PREPARE :: u32 where "SPF_MSG_CMD_GRAPH_PREPARE \<equiv> 0x01001030"
abbreviation (input) SPF_MSG_CMD_GRAPH_START :: u32 where "SPF_MSG_CMD_GRAPH_START \<equiv> 0x01001031"
abbreviation (input) SPF_MSG_CMD_GRAPH_STOP :: u32 where "SPF_MSG_CMD_GRAPH_STOP \<equiv> 0x01001032"
abbreviation (input) SPF_MSG_CMD_GRAPH_FLUSH :: u32 where "SPF_MSG_CMD_GRAPH_FLUSH \<equiv> 0x01001033"
abbreviation (input) SPF_MSG_CMD_GRAPH_CLOSE :: u32 where "SPF_MSG_CMD_GRAPH_CLOSE \<equiv> 0x01001034"
abbreviation (input) SPF_MSG_CMD_GRAPH_CONNECT :: u32 where "SPF_MSG_CMD_GRAPH_CONNECT \<equiv> 0x01001035"
abbreviation (input) SPF_MSG_CMD_GRAPH_DISCONNECT :: u32 where "SPF_MSG_CMD_GRAPH_DISCONNECT \<equiv> 0x01001036"
abbreviation (input) SPF_MSG_CMD_DESTROY_CONTAINER :: u32 where "SPF_MSG_CMD_DESTROY_CONTAINER \<equiv> 0x01001037"
abbreviation (input) SPF_MSG_CMD_PROXY_GRAPH_PREPARE :: u32 where "SPF_MSG_CMD_PROXY_GRAPH_PREPARE \<equiv> 0x0100103C"
abbreviation (input) SPF_MSG_CMD_PROXY_GRAPH_START :: u32 where "SPF_MSG_CMD_PROXY_GRAPH_START \<equiv> 0x0100103D"
abbreviation (input) SPF_MSG_CMD_PROXY_GRAPH_STOP :: u32 where "SPF_MSG_CMD_PROXY_GRAPH_STOP \<equiv> 0x0100103E"
abbreviation (input) SPF_MSG_CMD_GRAPH_SUSPEND :: u32 where "SPF_MSG_CMD_GRAPH_SUSPEND \<equiv> 0x01001044"

abbreviation (input) APM_SG_STATE_INVALID :: u32 where "APM_SG_STATE_INVALID \<equiv> 0"
abbreviation (input) APM_SG_STATE_STOPPED :: u32 where "APM_SG_STATE_STOPPED \<equiv> 1"
abbreviation (input) APM_SG_STATE_SUSPENDED :: u32 where "APM_SG_STATE_SUSPENDED \<equiv> 2"
abbreviation (input) APM_SG_STATE_PREPARED :: u32 where "APM_SG_STATE_PREPARED \<equiv> 3"
abbreviation (input) APM_SG_STATE_STARTED :: u32 where "APM_SG_STATE_STARTED \<equiv> 4"

abbreviation (input) APM_OPEN_CMD_STATE_NORMAL :: u32 where "APM_OPEN_CMD_STATE_NORMAL \<equiv> 0"
abbreviation (input) APM_OPEN_CMD_STATE_CONT_CREATE_FAIL :: u32 where "APM_OPEN_CMD_STATE_CONT_CREATE_FAIL \<equiv> 1"
abbreviation (input) APM_OPEN_CMD_STATE_OPEN_FAIL :: u32 where "APM_OPEN_CMD_STATE_OPEN_FAIL \<equiv> 2"
abbreviation (input) APM_OPEN_CMD_STATE_CONNECT_FAIL :: u32 where "APM_OPEN_CMD_STATE_CONNECT_FAIL \<equiv> 3"

abbreviation (input) APM_CONT_LIST_WITH_CYCLIC_LINK :: u32 where "APM_CONT_LIST_WITH_CYCLIC_LINK \<equiv> 0"
abbreviation (input) APM_CONT_LIST_MAX :: u32 where "APM_CONT_LIST_MAX \<equiv> 2"
abbreviation (input) APM_CONT_LIST_TRAV_STOPPED :: u32 where "APM_CONT_LIST_TRAV_STOPPED \<equiv> 0"
abbreviation (input) APM_CONT_LIST_TRAV_STARTED :: u32 where "APM_CONT_LIST_TRAV_STARTED \<equiv> 1"

abbreviation (input) APM_CMN_CMD_OP_HANDLE_FAILURE :: u32 where "APM_CMN_CMD_OP_HANDLE_FAILURE \<equiv> 0x4000"
abbreviation (input) APM_CMN_CMD_OP_COMPLETED :: u32 where "APM_CMN_CMD_OP_COMPLETED \<equiv> 0x5000"

abbreviation (input) APM_OPEN_CMD_OP_SEND_CONT_OPEN_MSG :: u32 where "APM_OPEN_CMD_OP_SEND_CONT_OPEN_MSG \<equiv> 0"
abbreviation (input) APM_OPEN_CMD_OP_HDL_DATA_PATHS :: u32 where "APM_OPEN_CMD_OP_HDL_DATA_PATHS \<equiv> 1"
abbreviation (input) APM_OPEN_CMD_OP_PROXY_MGR_OPEN :: u32 where "APM_OPEN_CMD_OP_PROXY_MGR_OPEN \<equiv> 2"
abbreviation (input) APM_OPEN_CMD_PROXY_MGR_PREPROCESS :: u32 where "APM_OPEN_CMD_PROXY_MGR_PREPROCESS \<equiv> 3"
abbreviation (input) APM_OPEN_CMD_OP_PROXY_MGR_CFG :: u32 where "APM_OPEN_CMD_OP_PROXY_MGR_CFG \<equiv> 4"
abbreviation (input) APM_OPEN_CMD_OP_HDL_LINK_OPEN_INFO :: u32 where "APM_OPEN_CMD_OP_HDL_LINK_OPEN_INFO \<equiv> 5"
abbreviation (input) APM_OPEN_CMD_OP_HDL_LINK_START :: u32 where "APM_OPEN_CMD_OP_HDL_LINK_START \<equiv> 6"
abbreviation (input) APM_OPEN_CMD_OP_HDL_DB_QUERY_PREPROCESS :: u32 where "APM_OPEN_CMD_OP_HDL_DB_QUERY_PREPROCESS \<equiv> 7"
abbreviation (input) APM_OPEN_CMD_OP_HDL_DB_QUERY_SEND_INFO :: u32 where "APM_OPEN_CMD_OP_HDL_DB_QUERY_SEND_INFO \<equiv> 8"
abbreviation (input) APM_OPEN_CMD_OP_COMPLETED :: u32 where "APM_OPEN_CMD_OP_COMPLETED \<equiv> 9"
abbreviation (input) APM_OPEN_CMD_OP_ERR_HDLR :: u32 where "APM_OPEN_CMD_OP_ERR_HDLR \<equiv> APM_CMN_CMD_OP_HANDLE_FAILURE"
abbreviation (input) APM_OPEN_CMD_OP_HDL_CREATE_FAIL :: u32 where "APM_OPEN_CMD_OP_HDL_CREATE_FAIL \<equiv> 0x4001"
abbreviation (input) APM_OPEN_CMD_OP_PREPPROC_OPEN_CONNECT_FAIL :: u32 where "APM_OPEN_CMD_OP_PREPPROC_OPEN_CONNECT_FAIL \<equiv> 0x4002"
abbreviation (input) APM_OPEN_CMD_HDLR_CLOSE_SG_LIST :: u32 where "APM_OPEN_CMD_HDLR_CLOSE_SG_LIST \<equiv> 0x4003"

abbreviation (input) APM_GM_CMD_OP_PRE_PROCESS :: u32 where "APM_GM_CMD_OP_PRE_PROCESS \<equiv> 0"
abbreviation (input) APM_GM_CMD_OP_DB_QUERY_SEND_INFO :: u32 where "APM_GM_CMD_OP_DB_QUERY_SEND_INFO \<equiv> 1"
abbreviation (input) APM_GM_CMD_OP_PROCESS_REG_GRAPH :: u32 where "APM_GM_CMD_OP_PROCESS_REG_GRAPH \<equiv> 2"
abbreviation (input) APM_GM_CMD_OP_PROCESS_PROXY_GRAPH :: u32 where "APM_GM_CMD_OP_PROCESS_PROXY_GRAPH \<equiv> 3"
abbreviation (input) APM_GM_CMD_OP_CMN_HDLR :: u32 where "APM_GM_CMD_OP_CMN_HDLR \<equiv> 4"
abbreviation (input) APM_GM_CMD_OP_HDL_DATA_PATHS :: u32 where "APM_GM_CMD_OP_HDL_DATA_PATHS \<equiv> 5"
abbreviation (input) APM_GM_CMD_OP_COMPLETED :: u32 where "APM_GM_CMD_OP_COMPLETED \<equiv> 6"

abbreviation (input) APM_CLOSE_ALL_CMD_OP_CLOSE_SG :: u32 where "APM_CLOSE_ALL_CMD_OP_CLOSE_SG \<equiv> 1"

abbreviation (input) APM_SET_GET_CFG_CMD_OP_SEND_CONT_MSG :: u32 where "APM_SET_GET_CFG_CMD_OP_SEND_CONT_MSG \<equiv> 0"
abbreviation (input) APM_SET_GET_CFG_CMD_OP_SEND_PROXY_MGR_MSG :: u32 where "APM_SET_GET_CFG_CMD_OP_SEND_PROXY_MGR_MSG \<equiv> 1"
abbreviation (input) APM_SET_GET_CFG_CMD_OP_HDL_DBG_INFO :: u32 where "APM_SET_GET_CFG_CMD_OP_HDL_DBG_INFO \<equiv> 2"
abbreviation (input) APM_SET_GET_CFG_CMD_OP_CLOSE_ALL :: u32 where "APM_SET_GET_CFG_CMD_OP_CLOSE_ALL \<equiv> 3"
abbreviation (input) APM_SET_GET_CFG_CMD_OP_COMPLETED :: u32 where "APM_SET_GET_CFG_CMD_OP_COMPLETED \<equiv> 4"

abbreviation (input) APM_CMD_SEQ_IDX_INVALID :: u32 where "APM_CMD_SEQ_IDX_INVALID \<equiv> 0"
abbreviation (input) APM_SEQ_SET_UP_CONT_MSG_SEQ :: u32 where "APM_SEQ_SET_UP_CONT_MSG_SEQ \<equiv> 1"
abbreviation (input) APM_SEQ_SEND_MSG_TO_CONTAINERS :: u32 where "APM_SEQ_SEND_MSG_TO_CONTAINERS \<equiv> 2"
abbreviation (input) APM_SEQ_CONT_SEND_MSG_COMPLETED :: u32 where "APM_SEQ_CONT_SEND_MSG_COMPLETED \<equiv> 3"
abbreviation (input) APM_SEQ_VALIDATE_SG_LIST :: u32 where "APM_SEQ_VALIDATE_SG_LIST \<equiv> 5"
abbreviation (input) APM_SEQ_PREPROC_GRAPH_MGMT_MSG :: u32 where "APM_SEQ_PREPROC_GRAPH_MGMT_MSG \<equiv> 6"
abbreviation (input) APM_SEQ_PREPARE_FOR_NEXT_CONT_MSG :: u32 where "APM_SEQ_PREPARE_FOR_NEXT_CONT_MSG \<equiv> 7"
abbreviation (input) APM_SEQ_REG_SG_PROC_COMPLETED :: u32 where "APM_SEQ_REG_SG_PROC_COMPLETED \<equiv> 8"
abbreviation (input) APM_SEQ_SET_UP_PROXY_MGR_MSG_SEQ :: u32 where "APM_SEQ_SET_UP_PROXY_MGR_MSG_SEQ \<equiv> 9"
abbreviation (input) APM_SEQ_SEND_CFG_CMD_TO_PROXY_MGR :: u32 where "APM_SEQ_SEND_CFG_CMD_TO_PROXY_MGR \<equiv> 11"
abbreviation (input) APM_SEQ_SEND_MSG_TO_PROXY_MGR_COMPLETED :: u32 where "APM_SEQ_SEND_MSG_TO_PROXY_MGR_COMPLETED \<equiv> 12"

subsection \<open>Data\<close>

record apm_op_seq =
  op_idx :: u32
  curr_seq_idx :: u32
  curr_cmd_op_pending :: bool
  op_status :: u32

text \<open>The sequences of a command; a reference stands for a pointer to one of them.\<close>

datatype op_seq_ref = Graph_Open_Seq | Set_Get_Cfg_Cmd_Seq | Graph_Mgmt_Seq | Err_Hdlr_Seq | Close_All_Seq

text \<open>The functions that an entry point can be; the last one is reached through a table of function pointers.\<close>

datatype apm_cmd_seq_entry_func = Graph_Open_Sequencer | Graph_Mgmt_Sequencer | Set_Get_Cfg_Sequencer | Close_All_Seqncer

record apm_cmd_seq_info =
  op_seqs :: "op_seq_ref \<Rightarrow> apm_op_seq"
  pri_op_seq_ptr :: "op_seq_ref option"
  curr_op_seq_ptr :: "op_seq_ref option"
  parent_op_seq_ptr :: "op_seq_ref option"
  cmd_seq_entry_fptr :: "apm_cmd_seq_entry_func option"

record apm_cont_msg_opcode =
  num_msg_opcode :: u32
  opcode_list :: "u32 list"
  curr_opcode_idx :: u32

record apm_cmd_ctrl =
  cmd_opcode :: u32
  cmd_status :: u32
  cmd_pending :: bool
  cmd_seq :: apm_cmd_seq_info
  cont_msg_opcode :: apm_cont_msg_opcode
  open_sg_id_list_ptr :: ptr
  open_cmd_status :: u32
  reg_sg_list_ptr :: ptr
  cont_port_hdl_sg_list_ptr :: ptr
  cached_cont_list :: "ptr list"
  curr_cont_list_type :: u32
  cont_list_trav_state :: "u32 list"
  processed_sg_list_ptr :: ptr
  curr_sg_list_state :: u32
  sg_list_mixed_state :: bool
  is_close_all_needed :: bool
  cmd_rsp_pending :: bool
  pending_cont_list_ptr :: ptr
  active_proxy_mgr_list_ptr :: ptr

record apm =
  apm_memory :: apm_mem
  graph_info :: apm_graph_info
  cmd_ctrl :: apm_cmd_ctrl

type_synonym apm_step = "apm \<Rightarrow> (u32 \<times> apm) option"

text \<open>What is called outside of this file; a function in a table that may be missing is an option.\<close>

record apm_utils =
  send_msg_to_containers :: apm_step
  clear_pending_cont_list :: apm_step
  gm_cmd_cfg_sg_list_to_process :: apm_step
  gm_cmd_pre_processing :: apm_step
  gm_cmd_prepare_for_next_cont_msg :: apm_step
  clear_graph_mgmt_cmd_info :: apm_step
  update_cont_graph_list :: apm_step
  end_cmd :: apm_step
  proxy_graph_open_cmn_sequencer :: apm_step
  proxy_graph_mgmt_sequencer :: apm_step
  proxy_set_cfg_sequencer :: apm_step
  data_path_cfg_cmn_seqncer :: "(bool \<Rightarrow> apm_step) option"
  graph_open_handle_link_start :: "apm_step option"
  db_query_handle_graph_open :: "apm_step option"
  db_query_handle_graph_close :: "apm_step option"
  graph_open_err_hdlr_sequencer :: "apm_step option"
  populate_cont_open_cmd_err_hdlr_seq :: "apm_step option"
  cmd_set_cfg_close_all_seq :: "apm_step option"
  cmd_close_all_seqncer :: "apm_step option"
  debug_info_cfg_hdlr :: "apm_step option"

definition call_if_there :: "apm_step option \<Rightarrow> apm_step" where
  "call_if_there f s = (case f of None \<Rightarrow> Some (AR_EOK, s) | Some g \<Rightarrow> g s)"

definition upd_ctrl :: "(apm_cmd_ctrl \<Rightarrow> apm_cmd_ctrl) \<Rightarrow> apm \<Rightarrow> apm" where
  "upd_ctrl f s = s\<lparr>cmd_ctrl := f (cmd_ctrl s)\<rparr>"

definition upd_seq :: "(apm_cmd_seq_info \<Rightarrow> apm_cmd_seq_info) \<Rightarrow> apm_cmd_ctrl \<Rightarrow> apm_cmd_ctrl" where
  "upd_seq f c = c\<lparr>cmd_seq := f (cmd_seq c)\<rparr>"

definition op_of :: "apm_cmd_ctrl \<Rightarrow> op_seq_ref \<Rightarrow> apm_op_seq" where
  "op_of c r = op_seqs (cmd_seq c) r"

definition upd_op :: "op_seq_ref \<Rightarrow> (apm_op_seq \<Rightarrow> apm_op_seq) \<Rightarrow> apm_cmd_ctrl \<Rightarrow> apm_cmd_ctrl" where
  "upd_op r f = upd_seq (\<lambda>q. q\<lparr>op_seqs := (op_seqs q)(r := f (op_seqs q r))\<rparr>)"

definition upd_msg :: "(apm_cont_msg_opcode \<Rightarrow> apm_cont_msg_opcode) \<Rightarrow> apm_cmd_ctrl \<Rightarrow> apm_cmd_ctrl" where
  "upd_msg f c = c\<lparr>cont_msg_opcode := f (cont_msg_opcode c)\<rparr>"

subsection \<open>Operations on a sequence\<close>

definition apm_end_cmd_op_sequencer :: "apm_cmd_ctrl \<Rightarrow> op_seq_ref \<Rightarrow> apm_cmd_ctrl" where
  "apm_end_cmd_op_sequencer c r =
     upd_seq (\<lambda>q. q\<lparr>curr_op_seq_ptr := pri_op_seq_ptr q\<rparr>)
       (upd_op r (\<lambda>q. q\<lparr>op_idx := APM_CMN_CMD_OP_COMPLETED, curr_cmd_op_pending := False\<rparr>) c)"

definition apm_clear_curr_cmd_op_pending_status :: "apm_op_seq \<Rightarrow> apm_op_seq" where
  "apm_clear_curr_cmd_op_pending_status q = q\<lparr>curr_cmd_op_pending := False, curr_seq_idx := APM_CMD_SEQ_IDX_INVALID, op_status := AR_EOK\<rparr>"

definition apm_init_cmd_seq_info :: "apm_cmd_ctrl \<Rightarrow> apm_cmd_seq_entry_func \<Rightarrow> op_seq_ref \<Rightarrow> apm_cmd_ctrl" where
  "apm_init_cmd_seq_info c seq_fptr prim_op_seq_ptr =
     upd_op Err_Hdlr_Seq (\<lambda>q. q\<lparr>op_idx := APM_CMN_CMD_OP_HANDLE_FAILURE\<rparr>)
       (upd_seq (\<lambda>q. q\<lparr>cmd_seq_entry_fptr := Some seq_fptr, pri_op_seq_ptr := Some prim_op_seq_ptr, curr_op_seq_ptr := Some prim_op_seq_ptr\<rparr>) c)"

definition apm_init_next_cmd_op_seq_idx :: "u32 \<Rightarrow> apm_op_seq \<Rightarrow> apm_op_seq" where
  "apm_init_next_cmd_op_seq_idx next_seq_idx q =
    (if curr_seq_idx q = APM_CMD_SEQ_IDX_INVALID then q\<lparr>curr_seq_idx := next_seq_idx, curr_cmd_op_pending := True\<rparr> else q)"

definition apm_incr_cmd_op_idx :: "apm_op_seq \<Rightarrow> apm_op_seq" where
  "apm_incr_cmd_op_idx q =
    (if op_idx q \<noteq> APM_CMN_CMD_OP_COMPLETED \<and> \<not> curr_cmd_op_pending q
     then q\<lparr>op_idx := op_idx q + 1, curr_seq_idx := APM_CMD_SEQ_IDX_INVALID\<rparr> else q)"

definition apm_abort_cmd_op_sequencer :: "apm_cmd_ctrl \<Rightarrow> apm_cmd_ctrl option" where
  "apm_abort_cmd_op_sequencer c = do {
     let c = (if cmd_status c = AR_EOK then c\<lparr>cmd_status := AR_EFAILED\<rparr> else c);
     r \<leftarrow> pri_op_seq_ptr (cmd_seq c);
     Some (upd_op r (\<lambda>q. q\<lparr>op_idx := APM_CMN_CMD_OP_COMPLETED\<rparr>) c)
   }"

definition apm_cmd_seq_set_up_err_hdlr :: "apm_cmd_ctrl \<Rightarrow> (u32 \<times> apm_cmd_ctrl) option" where
  "apm_cmd_seq_set_up_err_hdlr c = do {
     r \<leftarrow> pri_op_seq_ptr (cmd_seq c);
     Some (AR_EOK, upd_op r (\<lambda>q. apm_clear_curr_cmd_op_pending_status (q\<lparr>op_idx := APM_CMN_CMD_OP_HANDLE_FAILURE\<rparr>)) c)
   }"

subsection \<open>The messages of a command\<close>

text \<open>Writing operation codes to consecutive places of the list; the index moves on. A write outside of the list is a fault.\<close>

fun put_opcodes :: "apm_cont_msg_opcode \<Rightarrow> u32 \<Rightarrow> u32 list \<Rightarrow> (apm_cont_msg_opcode \<times> u32) option" where
  "put_opcodes m i [] = Some (m, i)"
| "put_opcodes m i (v # vs) =
    (if unat i < length (opcode_list m) then put_opcodes (m\<lparr>opcode_list := (opcode_list m)[unat i := v]\<rparr>) (i + 1) vs else None)"

definition put_first :: "apm_cont_msg_opcode \<Rightarrow> u32 \<Rightarrow> apm_cont_msg_opcode option" where
  "put_first m v = map_option fst (put_opcodes m 0 [v])"

text \<open>The two loops that look for a peer that has to be suspended: over the sub-graphs of the command, and over the links.\<close>

partial_function (option) peer_sg_loop :: "apm_mem \<Rightarrow> apm_cont_port_connect_info \<Rightarrow> ptr \<Rightarrow> bool option" where
  "peer_sg_loop m conn curr_gm_cmd_sg_node_ptr =
    (if curr_gm_cmd_sg_node_ptr = None then Some False
     else do {
       obj \<leftarrow> rd_obj (nodes (lists m)) curr_gm_cmd_sg_node_ptr;
       sg \<leftarrow> load (sub_graphs m) obj;
       self \<leftarrow> load (sub_graphs m) (self_sg_obj_ptr conn);
       found \<leftarrow> (if sub_graph_id sg = sub_graph_id self \<and> peer_sg_propagated_state conn = APM_SG_STATE_STOPPED
                  then map_option (\<lambda>peer. sg_state peer = APM_SG_STATE_SUSPENDED) (load (sub_graphs m) (peer_sg_obj_ptr conn))
                  else Some False);
       if found then Some True
       else do { n \<leftarrow> rd_next (nodes (lists m)) curr_gm_cmd_sg_node_ptr; peer_sg_loop m conn n }
     })"

partial_function (option) peer_conn_loop :: "apm_mem \<Rightarrow> ptr \<Rightarrow> ptr \<Rightarrow> bool option" where
  "peer_conn_loop m reg_sg_list curr_port_conn_node_ptr =
    (if curr_port_conn_node_ptr = None then Some False
     else do {
       obj \<leftarrow> rd_obj (nodes (lists m)) curr_port_conn_node_ptr;
       found \<leftarrow> (if reg_sg_list = None then Some False else do { conn \<leftarrow> load (port_infos m) obj; peer_sg_loop m conn reg_sg_list });
       if found then Some True
       else do { n \<leftarrow> rd_next (nodes (lists m)) curr_port_conn_node_ptr; peer_conn_loop m reg_sg_list n }
     })"

text \<open>The answer holds \<open>False\<close> when the output argument was not written, as its caller sets it so.\<close>

definition apm_check_if_peer_suspend_reqd :: "apm \<Rightarrow> (u32 \<times> bool) option" where
  "apm_check_if_peer_suspend_reqd s =
    (let c = cmd_ctrl s in
     if cmd_opcode c \<notin> {APM_CMD_GRAPH_PREPARE, APM_CMD_GRAPH_START, SPF_MSG_CMD_PROXY_GRAPH_PREPARE, SPF_MSG_CMD_PROXY_GRAPH_START}
     then Some (AR_EOK, False)
     else if reg_sg_list_ptr c = None then Some (AR_EFAILED, False)
     else do {
       reqd \<leftarrow> peer_conn_loop (apm_memory s) (reg_sg_list_ptr c) (sub_graph_conn_list_ptr (graph_info s));
       Some (AR_EOK, reqd)
     })"

definition apm_populate_graph_close_proc_seq :: "apm_cmd_ctrl \<Rightarrow> u32 \<Rightarrow> apm_cont_msg_opcode \<Rightarrow> (u32 \<times> apm_cont_msg_opcode) option" where
  "apm_populate_graph_close_proc_seq c sub_graph_list_state m =
    (if sub_graph_list_state \<in> {APM_SG_STATE_STOPPED, APM_SG_STATE_PREPARED} then do {
       (result, m, i) \<leftarrow>
         (if cmd_opcode c = APM_CMD_GRAPH_OPEN then
            (if open_cmd_status c = APM_OPEN_CMD_STATE_OPEN_FAIL then do { p \<leftarrow> put_opcodes m 0 [SPF_MSG_CMD_GRAPH_CLOSE]; Some (AR_EOK, p) }
             else if open_cmd_status c = APM_OPEN_CMD_STATE_CONNECT_FAIL
             then do { p \<leftarrow> put_opcodes m 0 [SPF_MSG_CMD_GRAPH_DISCONNECT, SPF_MSG_CMD_GRAPH_CLOSE]; Some (AR_EOK, p) }
             else Some (AR_EUNEXPECTED, m, 0))
          else do { p \<leftarrow> put_opcodes m 0 [SPF_MSG_CMD_GRAPH_DISCONNECT, SPF_MSG_CMD_GRAPH_CLOSE]; Some (AR_EOK, p) });
       Some (result, m\<lparr>num_msg_opcode := i\<rparr>)
     }
     else if sub_graph_list_state \<in> {APM_SG_STATE_SUSPENDED, APM_SG_STATE_STARTED} then do {
       (m, i) \<leftarrow> put_opcodes m 0 [SPF_MSG_CMD_GRAPH_STOP];
       (m, i) \<leftarrow> (if op_idx (op_of c Graph_Mgmt_Seq) = APM_GM_CMD_OP_PROCESS_REG_GRAPH
                 then put_opcodes m i [SPF_MSG_CMD_GRAPH_DISCONNECT, SPF_MSG_CMD_GRAPH_CLOSE] else Some (m, i));
       Some (AR_EOK, m\<lparr>num_msg_opcode := i\<rparr>)
     }
     else Some (AR_EFAILED, m))"

definition apm_populate_graph_start_proc_seq ::
    "apm_cmd_ctrl \<Rightarrow> u32 \<Rightarrow> apm_cont_msg_opcode \<Rightarrow> bool \<Rightarrow> (u32 \<times> apm_cont_msg_opcode) option" where
  "apm_populate_graph_start_proc_seq c sub_graph_list_state m peer_suspend_reqd =
    (if sub_graph_list_state \<in> {APM_SG_STATE_PREPARED, APM_SG_STATE_SUSPENDED} then do { m \<leftarrow> put_first m SPF_MSG_CMD_GRAPH_START; Some (AR_EOK, m) }
     else if sub_graph_list_state = APM_SG_STATE_STOPPED then
       (if op_idx (op_of c Graph_Mgmt_Seq) = APM_GM_CMD_OP_PROCESS_REG_GRAPH then do {
          (m, i) \<leftarrow> (if peer_suspend_reqd then put_opcodes m 0 [SPF_MSG_CMD_GRAPH_SUSPEND] else Some (m, 0));
          (m, i) \<leftarrow> put_opcodes m i [SPF_MSG_CMD_GRAPH_PREPARE, SPF_MSG_CMD_GRAPH_START];
          Some (AR_EOK, m\<lparr>num_msg_opcode := i\<rparr>)
        }
        else do { m \<leftarrow> put_first m SPF_MSG_CMD_GRAPH_PREPARE; Some (AR_EOK, m) })
     else Some (AR_EFAILED, m))"

definition apm_populate_graph_mgmt_at_open_proc_seq ::
    "apm_cmd_ctrl \<Rightarrow> u32 \<Rightarrow> apm_cont_msg_opcode \<Rightarrow> bool \<Rightarrow> (u32 \<times> apm_cont_msg_opcode) option" where
  "apm_populate_graph_mgmt_at_open_proc_seq c sub_graph_list_state m peer_suspend_reqd =
    (let i = op_idx (op_of c Graph_Open_Seq) in
     if i = APM_OPEN_CMD_OP_ERR_HDLR then apm_populate_graph_close_proc_seq c sub_graph_list_state m
     else if i = APM_OPEN_CMD_OP_HDL_LINK_START then apm_populate_graph_start_proc_seq c sub_graph_list_state m peer_suspend_reqd
     else Some (AR_EUNSUPPORTED, m))"

text \<open>The list of messages of the current command after a step that changes it.\<close>

definition with_msg :: "apm \<Rightarrow> (u32 \<times> apm_cont_msg_opcode) option \<Rightarrow> (u32 \<times> apm) option" where
  "with_msg s r = map_option (\<lambda>(result, m). (result, upd_ctrl (upd_msg (\<lambda>_. m)) s)) r"

definition apm_populate_cont_graph_proc_seq :: apm_step where
  "apm_populate_cont_graph_proc_seq s =
    (let c = cmd_ctrl s; m = cont_msg_opcode c; st = curr_sg_list_state c in
     if st = APM_SG_STATE_INVALID then Some (AR_EFAILED, s)
     else do {
       (result, peer_suspend_reqd) \<leftarrow> apm_check_if_peer_suspend_reqd s;
       if result \<noteq> AR_EOK then Some (result, s)
       else with_msg s
         (if cmd_opcode c \<in> {APM_CMD_GRAPH_PREPARE, SPF_MSG_CMD_PROXY_GRAPH_PREPARE} then
            (if op_idx (op_of c Graph_Mgmt_Seq) = APM_GM_CMD_OP_PROCESS_REG_GRAPH \<and> peer_suspend_reqd then do {
               (m, i) \<leftarrow> put_opcodes m 0 [SPF_MSG_CMD_GRAPH_SUSPEND, SPF_MSG_CMD_GRAPH_PREPARE];
               Some (AR_EOK, m\<lparr>num_msg_opcode := i\<rparr>)
             }
             else do { m \<leftarrow> put_first m SPF_MSG_CMD_GRAPH_PREPARE; Some (AR_EOK, m) })
          else if cmd_opcode c \<in> {APM_CMD_GRAPH_STOP, SPF_MSG_CMD_PROXY_GRAPH_STOP} then do { m \<leftarrow> put_first m SPF_MSG_CMD_GRAPH_STOP; Some (AR_EOK, m) }
          else if cmd_opcode c = APM_CMD_GRAPH_FLUSH then do { m \<leftarrow> put_first m SPF_MSG_CMD_GRAPH_FLUSH; Some (AR_EOK, m) }
          else if cmd_opcode c = APM_CMD_GRAPH_SUSPEND then do { m \<leftarrow> put_first m SPF_MSG_CMD_GRAPH_SUSPEND; Some (AR_EOK, m) }
          else if cmd_opcode c \<in> {APM_CMD_GRAPH_START, SPF_MSG_CMD_PROXY_GRAPH_START} then apm_populate_graph_start_proc_seq c st m peer_suspend_reqd
          else if cmd_opcode c \<in> {APM_CMD_GRAPH_CLOSE, APM_CMD_CLOSE_ALL} then apm_populate_graph_close_proc_seq c st m
          else if cmd_opcode c = APM_CMD_GRAPH_OPEN then apm_populate_graph_mgmt_at_open_proc_seq c st m peer_suspend_reqd
          else Some (AR_EUNSUPPORTED, m))
     })"

definition set_first :: "apm \<Rightarrow> u32 \<Rightarrow> (u32 \<times> apm) option" where
  "set_first s v = with_msg s (do { m \<leftarrow> put_first (cont_msg_opcode (cmd_ctrl s)) v; Some (AR_EOK, m) })"

definition apm_populate_cont_graph_mgmt_cmd_seq :: apm_step where
  "apm_populate_cont_graph_mgmt_cmd_seq s =
    (let i = op_idx (op_of (cmd_ctrl s) Graph_Mgmt_Seq) in
     if i \<in> {APM_GM_CMD_OP_PRE_PROCESS, APM_GM_CMD_OP_DB_QUERY_SEND_INFO} then Some (AR_EOK, s)
     else if i \<in> {APM_GM_CMD_OP_PROCESS_REG_GRAPH, APM_GM_CMD_OP_PROCESS_PROXY_GRAPH} then apm_populate_cont_graph_proc_seq s
     else if i = APM_GM_CMD_OP_HDL_DATA_PATHS then set_first s SPF_MSG_CMD_SET_CFG
     else Some (AR_EFAILED, s))"

definition apm_populate_cont_open_cmd_seq :: "apm_utils \<Rightarrow> apm_step" where
  "apm_populate_cont_open_cmd_seq u s =
    (let i = op_idx (op_of (cmd_ctrl s) Graph_Open_Seq) in
     if i = APM_OPEN_CMD_OP_SEND_CONT_OPEN_MSG then
       with_msg s (do {
         (m, _) \<leftarrow> put_opcodes ((cont_msg_opcode (cmd_ctrl s))\<lparr>num_msg_opcode := 2\<rparr>) 0 [SPF_MSG_CMD_GRAPH_OPEN, SPF_MSG_CMD_GRAPH_CONNECT];
         Some (AR_EOK, m) })
     else if i = APM_OPEN_CMD_OP_HDL_LINK_START then apm_populate_cont_graph_mgmt_cmd_seq s
     else if i = APM_OPEN_CMD_OP_HDL_DATA_PATHS then set_first s SPF_MSG_CMD_SET_CFG
     else if i \<in> {APM_OPEN_CMD_OP_HDL_DB_QUERY_PREPROCESS, APM_OPEN_CMD_OP_HDL_DB_QUERY_SEND_INFO} then Some (AR_EOK, s)
     else if i = APM_OPEN_CMD_OP_ERR_HDLR then
       (case populate_cont_open_cmd_err_hdlr_seq u of None \<Rightarrow> Some (AR_EUNSUPPORTED, s) | Some f \<Rightarrow> f s)
     else Some (AR_EFAILED, s))"

definition apm_populate_spf_set_cfg_cmd_seq :: "apm_utils \<Rightarrow> apm_step" where
  "apm_populate_spf_set_cfg_cmd_seq u s =
    (let i = op_idx (op_of (cmd_ctrl s) Set_Get_Cfg_Cmd_Seq) in
     if i \<in> {APM_SET_GET_CFG_CMD_OP_SEND_CONT_MSG, APM_SET_GET_CFG_CMD_OP_SEND_PROXY_MGR_MSG} then set_first s SPF_MSG_CMD_SET_CFG
     else if i = APM_SET_GET_CFG_CMD_OP_CLOSE_ALL then
       (if is_close_all_needed (cmd_ctrl s) then call_if_there (cmd_set_cfg_close_all_seq u) s else Some (AR_EOK, s))
     else Some (AR_EOK, s))"

definition apm_populate_cont_cmd_seq :: "apm_utils \<Rightarrow> apm_step" where
  "apm_populate_cont_cmd_seq u s0 =
    (let s = upd_ctrl (upd_msg (\<lambda>m. \<lparr>num_msg_opcode = 1, opcode_list = replicate (length (opcode_list m)) 0, curr_opcode_idx = 0\<rparr>)) s0;
         o1 = cmd_opcode (cmd_ctrl s) in
     if o1 = APM_CMD_GRAPH_OPEN then apm_populate_cont_open_cmd_seq u s
     else if o1 = APM_CMD_SET_CFG then set_first s SPF_MSG_CMD_SET_CFG
     else if o1 = SPF_MSG_CMD_SET_CFG then apm_populate_spf_set_cfg_cmd_seq u s
     else if o1 = SPF_MSG_CMD_GET_CFG then Some (AR_EOK, s)
     else if o1 = APM_CMD_GET_CFG then set_first s SPF_MSG_CMD_GET_CFG
     else if o1 = SPF_EVT_TO_APM_FOR_PATH_DELAY then
       with_msg s (do {
         (m, _) \<leftarrow> put_opcodes ((cont_msg_opcode (cmd_ctrl s))\<lparr>num_msg_opcode := 2\<rparr>) 0 [SPF_MSG_CMD_SET_CFG, SPF_MSG_CMD_SET_CFG];
         Some (AR_EOK, m) })
     else if o1 = APM_CMD_REGISTER_CFG then set_first s SPF_MSG_CMD_REGISTER_CFG
     else if o1 = APM_CMD_DEREGISTER_CFG then set_first s SPF_MSG_CMD_DEREGISTER_CFG
     else if o1 \<in> {APM_CMD_GRAPH_PREPARE, APM_CMD_GRAPH_START, APM_CMD_GRAPH_STOP, APM_CMD_GRAPH_FLUSH, APM_CMD_GRAPH_CLOSE, APM_CMD_GRAPH_SUSPEND,
                   SPF_MSG_CMD_PROXY_GRAPH_PREPARE, SPF_MSG_CMD_PROXY_GRAPH_START, SPF_MSG_CMD_PROXY_GRAPH_STOP, APM_CMD_CLOSE_ALL}
     then apm_populate_cont_graph_mgmt_cmd_seq s
     else Some (AR_EFAILED, s))"

text \<open>The two functions that stand behind the pointers of the planner (\<^verbatim>\<open>apm_err_hdlr_utils.c\<close>, \<^verbatim>\<open>apm_close_all_utils.c\<close>).\<close>

definition apm_populate_cont_open_cmd_err_hdlr_seq :: apm_step where
  "apm_populate_cont_open_cmd_err_hdlr_seq s =
    (let c = cmd_ctrl s; i = op_idx (op_of c Err_Hdlr_Seq) in
     if i = APM_OPEN_CMD_OP_HDL_CREATE_FAIL then
       (if open_cmd_status c = APM_OPEN_CMD_STATE_CONT_CREATE_FAIL \<and> pending_cont_list_ptr c \<noteq> None
        then set_first s SPF_MSG_CMD_DESTROY_CONTAINER else Some (AR_EOK, s))
     else if i \<in> {APM_OPEN_CMD_OP_PREPPROC_OPEN_CONNECT_FAIL, APM_OPEN_CMD_HDLR_CLOSE_SG_LIST} then apm_populate_cont_graph_mgmt_cmd_seq s
     else Some (AR_EFAILED, s))"

definition apm_cmd_set_cfg_close_all_seq :: apm_step where
  "apm_cmd_set_cfg_close_all_seq s =
    (let c = cmd_ctrl s in
     if op_idx (op_of c Close_All_Seq) = APM_CLOSE_ALL_CMD_OP_CLOSE_SG
     then with_msg s (apm_populate_graph_close_proc_seq c (curr_sg_list_state c) (cont_msg_opcode c))
     else Some (AR_EOK, s))"

subsection \<open>Progress of the messages\<close>

definition apm_get_updated_sg_state :: "u32 \<Rightarrow> u32" where
  "apm_get_updated_sg_state msg_opcode =
    (if msg_opcode \<in> {SPF_MSG_CMD_GRAPH_OPEN, SPF_MSG_CMD_GRAPH_CONNECT, SPF_MSG_CMD_GRAPH_STOP} then APM_SG_STATE_STOPPED
     else if msg_opcode = SPF_MSG_CMD_GRAPH_PREPARE then APM_SG_STATE_PREPARED
     else if msg_opcode = SPF_MSG_CMD_GRAPH_START then APM_SG_STATE_STARTED
     else if msg_opcode = SPF_MSG_CMD_GRAPH_SUSPEND then APM_SG_STATE_SUSPENDED
     else APM_SG_STATE_INVALID)"

definition apm_is_sg_state_changing_msg_opcode :: "u32 \<Rightarrow> bool" where
  "apm_is_sg_state_changing_msg_opcode msg_opcode \<longleftrightarrow>
     msg_opcode \<in> {SPF_MSG_CMD_GRAPH_CONNECT, SPF_MSG_CMD_GRAPH_PREPARE, SPF_MSG_CMD_GRAPH_START, SPF_MSG_CMD_GRAPH_STOP, SPF_MSG_CMD_GRAPH_SUSPEND}"

partial_function (option) sg_state_loop :: "spf_list_node store \<Rightarrow> u32 \<Rightarrow> ptr \<Rightarrow> apm_sub_graph store \<Rightarrow> apm_sub_graph store option" where
  "sg_state_loop h new_sg_state curr_node_ptr sgs =
    (if curr_node_ptr = None then Some sgs
     else do {
       obj \<leftarrow> rd_obj h curr_node_ptr;
       sgs \<leftarrow> modify sgs obj (\<lambda>sg. sg\<lparr>sg_state := new_sg_state\<rparr>);
       n \<leftarrow> rd_next h curr_node_ptr;
       sg_state_loop h new_sg_state n sgs
     })"

text \<open>The record of state changes for debugging is left out; its result is ignored.\<close>

definition apm_update_cont_sg_state :: "apm \<Rightarrow> u32 \<Rightarrow> apm option" where
  "apm_update_cont_sg_state s msg_opcode = do {
     let c = cmd_ctrl s;
     let m = apm_memory s;
     let curr_node_ptr =
       (if msg_opcode \<in> {SPF_MSG_CMD_GRAPH_PREPARE, SPF_MSG_CMD_GRAPH_START, SPF_MSG_CMD_GRAPH_STOP, SPF_MSG_CMD_GRAPH_SUSPEND}
        then processed_sg_list_ptr c
        else if msg_opcode = SPF_MSG_CMD_GRAPH_CONNECT then open_sg_id_list_ptr c else None);
     sgs \<leftarrow> sg_state_loop (nodes (lists m)) (apm_get_updated_sg_state msg_opcode) curr_node_ptr (sub_graphs m);
     Some (s\<lparr>apm_memory := m\<lparr>sub_graphs := sgs\<rparr>\<rparr>)
   }"

definition apm_get_curr_cont_msg_opcode :: "apm_cmd_ctrl \<Rightarrow> u32 option" where
  "apm_get_curr_cont_msg_opcode c = arr_at (opcode_list (cont_msg_opcode c)) (unat (curr_opcode_idx (cont_msg_opcode c)))"

definition apm_check_cont_msg_seq_done :: "apm_cmd_ctrl \<Rightarrow> bool" where
  "apm_check_cont_msg_seq_done c \<longleftrightarrow> curr_opcode_idx (cont_msg_opcode c) = num_msg_opcode (cont_msg_opcode c)"

definition apm_cont_msg_one_iter_completed :: "apm \<Rightarrow> apm option" where
  "apm_cont_msg_one_iter_completed s = do {
     msg_opcode \<leftarrow> apm_get_curr_cont_msg_opcode (cmd_ctrl s);
     s \<leftarrow> (if apm_is_sg_state_changing_msg_opcode msg_opcode then apm_update_cont_sg_state s msg_opcode else Some s);
     Some (upd_ctrl (\<lambda>c. (upd_msg (\<lambda>m. m\<lparr>curr_opcode_idx := curr_opcode_idx m + 1\<rparr>) c)
       \<lparr>curr_cont_list_type := APM_CONT_LIST_WITH_CYCLIC_LINK,
        cont_list_trav_state := replicate (length (cont_list_trav_state c)) APM_CONT_LIST_TRAV_STOPPED\<rparr>) s)
   }"

definition apm_check_curr_cmd_op_is_pending :: "apm_utils \<Rightarrow> apm \<Rightarrow> (bool \<times> apm) option" where
  "apm_check_curr_cmd_op_is_pending u s = do {
     s \<leftarrow> apm_cont_msg_one_iter_completed s;
     r \<leftarrow> curr_op_seq_ptr (cmd_seq (cmd_ctrl s));
     if apm_check_cont_msg_seq_done (cmd_ctrl s) \<or> op_status (op_of (cmd_ctrl s) r) \<noteq> AR_EOK then do {
       (_, s) \<leftarrow> (if pending_cont_list_ptr (cmd_ctrl s) \<noteq> None then clear_pending_cont_list u s else Some (AR_EOK, s));
       Some (False, s)
     }
     else Some (True, s)
   }"

subsection \<open>Sequencers\<close>

definition set_seq_idx :: "op_seq_ref \<Rightarrow> u32 \<Rightarrow> apm \<Rightarrow> apm" where
  "set_seq_idx r i = upd_ctrl (upd_op r (\<lambda>q. q\<lparr>curr_seq_idx := i\<rparr>))"

definition apm_cmd_cmn_sequencer :: "apm_utils \<Rightarrow> apm_step" where
  "apm_cmd_cmn_sequencer u s = do {
     r \<leftarrow> curr_op_seq_ptr (cmd_seq (cmd_ctrl s));
     let s = upd_ctrl (upd_op r (apm_init_next_cmd_op_seq_idx APM_SEQ_SET_UP_CONT_MSG_SEQ)) s;
     let i = curr_seq_idx (op_of (cmd_ctrl s) r);
     if i = APM_SEQ_SET_UP_CONT_MSG_SEQ then do {
       (result, s) \<leftarrow> apm_populate_cont_cmd_seq u s;
       if result \<noteq> AR_EOK then Some (result, s)
       else Some (result, set_seq_idx r APM_SEQ_SEND_MSG_TO_CONTAINERS s)
     }
     else if i = APM_SEQ_SEND_MSG_TO_CONTAINERS then do {
       (result, s) \<leftarrow> send_msg_to_containers u s;
       Some (result, set_seq_idx r APM_SEQ_CONT_SEND_MSG_COMPLETED s)
     }
     else if i = APM_SEQ_CONT_SEND_MSG_COMPLETED then do {
       (pending, s) \<leftarrow> apm_check_curr_cmd_op_is_pending u s;
       if pending then Some (AR_EOK, set_seq_idx r APM_SEQ_SEND_MSG_TO_CONTAINERS s)
       else do {
         r' \<leftarrow> curr_op_seq_ptr (cmd_seq (cmd_ctrl s));
         Some (op_status (op_of (cmd_ctrl s) r'), upd_ctrl (upd_op r' apm_clear_curr_cmd_op_pending_status) s)
       }
     }
     else Some (AR_EOK, s)
   }"

definition abort_step :: apm_step where
  "abort_step s = map_option (\<lambda>c. (AR_EOK, s\<lparr>cmd_ctrl := c\<rparr>)) (apm_abort_cmd_op_sequencer (cmd_ctrl s))"

definition apm_cmd_graph_open_sequencer :: "apm_utils \<Rightarrow> apm_step" where
  "apm_cmd_graph_open_sequencer u s =
    (let i = op_idx (op_of (cmd_ctrl s) Graph_Open_Seq) in
     if i = APM_OPEN_CMD_OP_SEND_CONT_OPEN_MSG then apm_cmd_cmn_sequencer u s
     else if i = APM_OPEN_CMD_OP_HDL_DATA_PATHS then call_if_there (map_option (\<lambda>f. f True) (data_path_cfg_cmn_seqncer u)) s
     else if i \<in> {APM_OPEN_CMD_OP_PROXY_MGR_OPEN, APM_OPEN_CMD_PROXY_MGR_PREPROCESS, APM_OPEN_CMD_OP_PROXY_MGR_CFG}
     then proxy_graph_open_cmn_sequencer u s
     else if i \<in> {APM_OPEN_CMD_OP_HDL_LINK_OPEN_INFO, APM_OPEN_CMD_OP_HDL_LINK_START} then call_if_there (graph_open_handle_link_start u) s
     else if i \<in> {APM_OPEN_CMD_OP_HDL_DB_QUERY_PREPROCESS, APM_OPEN_CMD_OP_HDL_DB_QUERY_SEND_INFO} then call_if_there (db_query_handle_graph_open u) s
     else if i = APM_OPEN_CMD_OP_ERR_HDLR then
       (case graph_open_err_hdlr_sequencer u of
          None \<Rightarrow> Some (AR_EOK, s)
        | Some f \<Rightarrow> do {
            (result, s) \<leftarrow> f s;
            let over = (op_idx (op_of (cmd_ctrl s) Err_Hdlr_Seq) = APM_CMN_CMD_OP_COMPLETED \<or> result \<noteq> AR_EOK);
            let s = (if over then upd_ctrl (upd_op Graph_Open_Seq (\<lambda>q. q\<lparr>op_idx := APM_OPEN_CMD_OP_COMPLETED\<rparr>)) s else s);
            Some (if over then AR_EOK else result, upd_ctrl (upd_op Graph_Open_Seq (\<lambda>q. q\<lparr>curr_cmd_op_pending := True\<rparr>)) s)
          })
     else if i = APM_OPEN_CMD_OP_COMPLETED then Some (AR_EOK, upd_ctrl (\<lambda>c. apm_end_cmd_op_sequencer c Graph_Open_Seq) s)
     else abort_step s)"

text \<open>Is there another list of containers that has not been visited yet? An access outside of an array is a fault.\<close>

fun more_active :: "apm_cmd_ctrl \<Rightarrow> nat list \<Rightarrow> bool option" where
  "more_active c [] = Some False"
| "more_active c (idx # js) = do {
     list_ptr \<leftarrow> arr_at (cached_cont_list c) idx;
     if list_ptr = None then more_active c js
     else do {
       trav \<leftarrow> arr_at (cont_list_trav_state c) idx;
       if trav = APM_CONT_LIST_TRAV_STOPPED then Some True else more_active c js
     }
   }"

definition apm_gm_cmd_cont_msg_seq_determine_next_step :: "apm_utils \<Rightarrow> apm \<Rightarrow> apm option" where
  "apm_gm_cmd_cont_msg_seq_determine_next_step u s = do {
     let c = cmd_ctrl s;
     let t = curr_cont_list_type c;
     more \<leftarrow> (if t < APM_CONT_LIST_MAX then do {
         cont_lists \<leftarrow> those (map (arr_at (cached_cont_list c)) [0..<unat APM_CONT_LIST_MAX]);
         let num_active_cont_list = length (filter (\<lambda>p. p \<noteq> None) cont_lists);
         trav \<leftarrow> arr_at (cont_list_trav_state c) (unat t);
         if trav = APM_CONT_LIST_TRAV_STARTED then Some True
         else if 1 < num_active_cont_list then more_active c [Suc (unat t)..<unat APM_CONT_LIST_MAX]
         else Some False
       }
       else Some False);
     if more then Some (set_seq_idx Graph_Mgmt_Seq APM_SEQ_PREPARE_FOR_NEXT_CONT_MSG s)
     else do {
       s \<leftarrow> apm_cont_msg_one_iter_completed s;
       if \<not> apm_check_cont_msg_seq_done (cmd_ctrl s) then
         Some (if sg_list_mixed_state (cmd_ctrl s)
               then upd_ctrl (\<lambda>c. c\<lparr>sg_list_mixed_state := False\<rparr>) (set_seq_idx Graph_Mgmt_Seq APM_SEQ_PREPROC_GRAPH_MGMT_MSG s)
               else set_seq_idx Graph_Mgmt_Seq APM_SEQ_PREPARE_FOR_NEXT_CONT_MSG s)
       else do {
         let s = (if op_idx (op_of (cmd_ctrl s) Graph_Mgmt_Seq) = APM_GM_CMD_OP_PROCESS_REG_GRAPH
                  then upd_ctrl (upd_op Graph_Mgmt_Seq (\<lambda>q. q\<lparr>curr_cmd_op_pending := False\<rparr>)) s else s);
         (_, s) \<leftarrow> clear_graph_mgmt_cmd_info u (set_seq_idx Graph_Mgmt_Seq APM_SEQ_REG_SG_PROC_COMPLETED s);
         Some s
       }
     }
   }"

definition then_seq_idx :: "u32 \<Rightarrow> apm_step \<Rightarrow> apm_step" where
  "then_seq_idx i f s = map_option (\<lambda>(result, s). (result, set_seq_idx Graph_Mgmt_Seq i s)) (f s)"

definition apm_cmd_graph_mgmt_cmn_sequencer :: "apm_utils \<Rightarrow> apm_step" where
  "apm_cmd_graph_mgmt_cmn_sequencer u s =
    (if reg_sg_list_ptr (cmd_ctrl s) = None \<and> cont_port_hdl_sg_list_ptr (cmd_ctrl s) = None
     then Some (AR_EOK, upd_ctrl (upd_op Graph_Mgmt_Seq apm_clear_curr_cmd_op_pending_status) s)
     else
       (let s = upd_ctrl (upd_op Graph_Mgmt_Seq (apm_init_next_cmd_op_seq_idx APM_SEQ_VALIDATE_SG_LIST)) s;
            i = curr_seq_idx (op_of (cmd_ctrl s) Graph_Mgmt_Seq) in
        if i = APM_SEQ_VALIDATE_SG_LIST then then_seq_idx APM_SEQ_SET_UP_CONT_MSG_SEQ (gm_cmd_cfg_sg_list_to_process u) s
        else if i = APM_SEQ_SET_UP_CONT_MSG_SEQ then then_seq_idx APM_SEQ_PREPROC_GRAPH_MGMT_MSG (apm_populate_cont_cmd_seq u) s
        else if i = APM_SEQ_PREPROC_GRAPH_MGMT_MSG then then_seq_idx APM_SEQ_PREPARE_FOR_NEXT_CONT_MSG (gm_cmd_pre_processing u) s
        else if i = APM_SEQ_PREPARE_FOR_NEXT_CONT_MSG then then_seq_idx APM_SEQ_SEND_MSG_TO_CONTAINERS (gm_cmd_prepare_for_next_cont_msg u) s
        else if i = APM_SEQ_SEND_MSG_TO_CONTAINERS then then_seq_idx APM_SEQ_CONT_SEND_MSG_COMPLETED (send_msg_to_containers u) s
        else if i = APM_SEQ_CONT_SEND_MSG_COMPLETED
        then map_option (\<lambda>s. (AR_EOK, s)) (apm_gm_cmd_cont_msg_seq_determine_next_step u s)
        else if i = APM_SEQ_REG_SG_PROC_COMPLETED then Some (AR_EOK, s)
        else Some (AR_EFAILED, s)))"

definition apm_cmd_graph_mgmt_sequencer :: "apm_utils \<Rightarrow> apm_step" where
  "apm_cmd_graph_mgmt_sequencer u s0 =
    (let s1 = (if curr_op_seq_ptr (cmd_seq (cmd_ctrl s0)) \<noteq> Some Graph_Mgmt_Seq
               then upd_ctrl (upd_seq (\<lambda>q. q\<lparr>parent_op_seq_ptr := curr_op_seq_ptr q\<rparr>)) s0 else s0);
         s = upd_ctrl (upd_seq (\<lambda>q. q\<lparr>curr_op_seq_ptr := Some Graph_Mgmt_Seq\<rparr>)) s1;
         i = op_idx (op_of (cmd_ctrl s) Graph_Mgmt_Seq) in
     if i \<in> {APM_GM_CMD_OP_PRE_PROCESS, APM_GM_CMD_OP_DB_QUERY_SEND_INFO} then
       (if op_idx (op_of (cmd_ctrl s) Graph_Open_Seq) \<noteq> APM_OPEN_CMD_OP_ERR_HDLR then call_if_there (db_query_handle_graph_close u) s
        else Some (AR_EOK, s))
     else if i = APM_GM_CMD_OP_PROCESS_REG_GRAPH then apm_cmd_graph_mgmt_cmn_sequencer u s
     else if i = APM_GM_CMD_OP_PROCESS_PROXY_GRAPH then proxy_graph_mgmt_sequencer u s
     else if i = APM_GM_CMD_OP_CMN_HDLR then
       (if cmd_opcode (cmd_ctrl s) \<in> {APM_CMD_GRAPH_OPEN, APM_CMD_GRAPH_CLOSE} then do {
          (result, s) \<leftarrow> update_cont_graph_list u s;
          if result \<noteq> AR_EOK \<and> cmd_opcode (cmd_ctrl s) = APM_CMD_GRAPH_CLOSE
          then Some (AR_EOK, upd_ctrl (\<lambda>c. c\<lparr>cmd_status := result\<rparr>) s)
          else Some (result, s)
        }
        else Some (AR_EOK, s))
     else if i = APM_GM_CMD_OP_HDL_DATA_PATHS then call_if_there (map_option (\<lambda>f. f False) (data_path_cfg_cmn_seqncer u)) s
     else if i \<in> {APM_CMN_CMD_OP_HANDLE_FAILURE, APM_GM_CMD_OP_COMPLETED} then
       Some (AR_EOK, upd_ctrl (\<lambda>c. upd_seq (\<lambda>q. q\<lparr>curr_op_seq_ptr := parent_op_seq_ptr q, parent_op_seq_ptr := None\<rparr>)
         (apm_end_cmd_op_sequencer c Graph_Mgmt_Seq)) s)
     else abort_step s)"

definition apm_cmd_set_get_cfg_sequencer :: "apm_utils \<Rightarrow> apm_step" where
  "apm_cmd_set_get_cfg_sequencer u s0 =
    (let s = upd_ctrl (upd_seq (\<lambda>q. q\<lparr>curr_op_seq_ptr := Some Set_Get_Cfg_Cmd_Seq\<rparr>)) s0;
         i = op_idx (op_of (cmd_ctrl s) Set_Get_Cfg_Cmd_Seq) in
     if i = APM_SET_GET_CFG_CMD_OP_SEND_CONT_MSG then apm_cmd_cmn_sequencer u s
     else if i = APM_SET_GET_CFG_CMD_OP_SEND_PROXY_MGR_MSG then proxy_set_cfg_sequencer u s
     else if i = APM_SET_GET_CFG_CMD_OP_HDL_DBG_INFO then call_if_there (debug_info_cfg_hdlr u) s
     else if i = APM_SET_GET_CFG_CMD_OP_CLOSE_ALL then
       (if cmd_opcode (cmd_ctrl s) = SPF_MSG_CMD_SET_CFG \<and> is_close_all_needed (cmd_ctrl s) then
          (case cmd_close_all_seqncer u of
             None \<Rightarrow> Some (AR_EOK, s)
           | Some f \<Rightarrow> do {
               (result, s) \<leftarrow> f s;
               let over = (op_idx (op_of (cmd_ctrl s) Close_All_Seq) = APM_CMN_CMD_OP_COMPLETED \<or> result \<noteq> AR_EOK);
               Some (result, upd_ctrl (upd_op Set_Get_Cfg_Cmd_Seq (\<lambda>q. q\<lparr>curr_cmd_op_pending := \<not> over\<rparr>)) s)
             })
        else Some (AR_EOK, s))
     else if i \<in> {APM_CMN_CMD_OP_HANDLE_FAILURE, APM_SET_GET_CFG_CMD_OP_COMPLETED}
     then Some (AR_EOK, upd_ctrl (\<lambda>c. apm_end_cmd_op_sequencer c Set_Get_Cfg_Cmd_Seq) s)
     else abort_step s)"

text \<open>
  The function behind the messages to proxy managers (\<^verbatim>\<open>apm_proxy_vcpm_utils.c\<close>), with what it calls as parameters, and the one of the builds
  without proxy managers.
\<close>

definition apm_proxy_set_cfg_sequencer :: "apm_step \<Rightarrow> apm_step \<Rightarrow> apm_step" where
  "apm_proxy_set_cfg_sequencer populate_proxy_mgr_cmd_seq send_cfg_to_proxy_mgrs s = do {
     r \<leftarrow> curr_op_seq_ptr (cmd_seq (cmd_ctrl s));
     if active_proxy_mgr_list_ptr (cmd_ctrl s) = None \<and> \<not> curr_cmd_op_pending (op_of (cmd_ctrl s) r) then Some (AR_EOK, s)
     else do {
       let s = upd_ctrl (upd_op r (apm_init_next_cmd_op_seq_idx APM_SEQ_SET_UP_PROXY_MGR_MSG_SEQ)) s;
       let i = curr_seq_idx (op_of (cmd_ctrl s) r);
       if i = APM_SEQ_SET_UP_PROXY_MGR_MSG_SEQ then do {
         (result, s) \<leftarrow> populate_proxy_mgr_cmd_seq s;
         if result \<noteq> AR_EOK then Some (result, s) else Some (result, set_seq_idx r APM_SEQ_SEND_CFG_CMD_TO_PROXY_MGR s)
       }
       else if i = APM_SEQ_SEND_CFG_CMD_TO_PROXY_MGR then do {
         (result, s) \<leftarrow> send_cfg_to_proxy_mgrs s;
         Some (result, if \<not> cmd_rsp_pending (cmd_ctrl s) then upd_ctrl (upd_op r apm_clear_curr_cmd_op_pending_status) s
                       else set_seq_idx r APM_SEQ_SEND_MSG_TO_PROXY_MGR_COMPLETED s)
       }
       else if i = APM_SEQ_SEND_MSG_TO_PROXY_MGR_COMPLETED then
         Some (op_status (op_of (cmd_ctrl s) r), upd_ctrl (upd_op r apm_clear_curr_cmd_op_pending_status) s)
       else Some (AR_EOK, s)
     }
   }"

definition apm_proxy_set_cfg_sequencer_stub :: apm_step where
  "apm_proxy_set_cfg_sequencer_stub s = Some (AR_EOK, s)"

subsection \<open>The entry of the sequencer\<close>

definition run_entry :: "apm_utils \<Rightarrow> apm_step" where
  "run_entry u s =
    (case cmd_seq_entry_fptr (cmd_seq (cmd_ctrl s)) of
       None \<Rightarrow> None
     | Some Graph_Open_Sequencer \<Rightarrow> apm_cmd_graph_open_sequencer u s
     | Some Graph_Mgmt_Sequencer \<Rightarrow> apm_cmd_graph_mgmt_sequencer u s
     | Some Set_Get_Cfg_Sequencer \<Rightarrow> apm_cmd_set_get_cfg_sequencer u s
     | Some Close_All_Seqncer \<Rightarrow> (case cmd_close_all_seqncer u of None \<Rightarrow> None | Some f \<Rightarrow> f s))"

text \<open>The loop; the first argument is the result of the previous round.\<close>

partial_function (option) entry_loop :: "apm_utils \<Rightarrow> u32 \<Rightarrow> apm \<Rightarrow> (u32 \<times> apm) option" where
  "entry_loop u result s =
    (if cmd_rsp_pending (cmd_ctrl s) then Some (result, s)
     else do {
       (result, s) \<leftarrow> run_entry u s;
       let s = (if result \<noteq> AR_EOK then upd_ctrl (\<lambda>c. c\<lparr>cmd_status := cmd_status c OR result\<rparr>) s else s);
       r \<leftarrow> pri_op_seq_ptr (cmd_seq (cmd_ctrl s));
       let i = op_idx (op_of (cmd_ctrl s) r);
       if result \<noteq> AR_EOK \<and> i \<noteq> APM_CMN_CMD_OP_COMPLETED \<and> i \<noteq> APM_CMN_CMD_OP_HANDLE_FAILURE then
         entry_loop u result
           (upd_ctrl (upd_op r (\<lambda>q. apm_clear_curr_cmd_op_pending_status (q\<lparr>op_idx := APM_CMN_CMD_OP_HANDLE_FAILURE\<rparr>))) s)
       else if i = APM_CMN_CMD_OP_COMPLETED then end_cmd u (upd_ctrl (\<lambda>c. c\<lparr>cmd_pending := False\<rparr>) s)
       else do {
         r' \<leftarrow> curr_op_seq_ptr (cmd_seq (cmd_ctrl s));
         entry_loop u result (upd_ctrl (upd_op r' apm_incr_cmd_op_idx) s)
       }
     })"

definition apm_cmd_sequencer_cmn_entry :: "apm_utils \<Rightarrow> apm_step" where
  "apm_cmd_sequencer_cmn_entry u s = entry_loop u AR_EOK s"

definition apm_set_cmd_seq_func :: "apm_utils \<Rightarrow> apm_cmd_ctrl \<Rightarrow> u32 \<times> apm_cmd_ctrl" where
  "apm_set_cmd_seq_func u c =
    (let o1 = cmd_opcode c in
     if o1 = APM_CMD_GRAPH_OPEN then (AR_EOK, apm_init_cmd_seq_info c Graph_Open_Sequencer Graph_Open_Seq)
     else if o1 \<in> {APM_CMD_GRAPH_PREPARE, APM_CMD_GRAPH_START, APM_CMD_GRAPH_STOP, APM_CMD_GRAPH_FLUSH, APM_CMD_GRAPH_SUSPEND, APM_CMD_GRAPH_CLOSE,
                   SPF_MSG_CMD_PROXY_GRAPH_PREPARE, SPF_MSG_CMD_PROXY_GRAPH_START, SPF_MSG_CMD_PROXY_GRAPH_STOP}
     then (AR_EOK, apm_init_cmd_seq_info c Graph_Mgmt_Sequencer Graph_Mgmt_Seq)
     else if o1 \<in> {APM_CMD_SET_CFG, APM_CMD_GET_CFG, APM_CMD_REGISTER_CFG, APM_CMD_DEREGISTER_CFG, SPF_EVT_TO_APM_FOR_PATH_DELAY,
                   SPF_MSG_CMD_SET_CFG, SPF_MSG_CMD_GET_CFG}
     then (AR_EOK, apm_init_cmd_seq_info c Set_Get_Cfg_Sequencer Set_Get_Cfg_Cmd_Seq)
     else if o1 = APM_CMD_CLOSE_ALL then
       (AR_EOK, if cmd_close_all_seqncer u \<noteq> None then apm_init_cmd_seq_info c Close_All_Seqncer Close_All_Seq else c)
     else if o1 \<in> {APM_CMD_SHARED_SATELLITE_MEM_MAP_REGIONS, APM_CMD_RSP_SHARED_MEM_MAP_REGIONS, APM_CMD_SHARED_SATELLITE_MEM_UNMAP_REGIONS,
                   APM_CMD_SHARED_MEM_MAP_REGIONS_V2, APM_CMD_SHARED_MEM_UNMAP_REGIONS_V2, APM_CMD_SHARED_MEM_REGION_ACCESS_INFO}
     then (AR_EOK, c)
     else (AR_EUNSUPPORTED, c))"

end
