(* ===== verification/Apm_Sequencer_Plan.thy ===== *)
theory Apm_Sequencer_Plan
  imports Apm_Sequencer Spf_List_Proofs
begin

text \<open>
  The messages that are planned for a command of the audio processing manager: they fit their array, and those of a command on a graph take
  its sub-graphs from the state they are in to the one that the command asks for. The search for suspended peers is a search over
  all pairs of a link and a sub-graph.
\<close>

subsection \<open>Lists of operation codes\<close>

text \<open>The messages that are planned.\<close>

definition planned :: "apm_cont_msg_opcode \<Rightarrow> u32 list" where
  "planned m = take (unat (num_msg_opcode m)) (opcode_list m)"

text \<open>The list has the size of the array, the first message is the next, and at least one is planned.\<close>

definition msg_ok :: "apm_cont_msg_opcode \<Rightarrow> bool" where
  "msg_ok m \<longleftrightarrow> length (opcode_list m) = 3 \<and> curr_opcode_idx m = 0 \<and> 1 \<le> num_msg_opcode m \<and> num_msg_opcode m \<le> 3"

definition start_msg :: "apm_cont_msg_opcode \<Rightarrow> bool" where
  "start_msg m \<longleftrightarrow> opcode_list m = [0, 0, 0] \<and> curr_opcode_idx m = 0 \<and> num_msg_opcode m = 1"

lemma start_msg_ok: "start_msg m \<Longrightarrow> msg_ok m"
  by (simp add: start_msg_def msg_ok_def)

text \<open>What a step of the planner may leave behind; an error may leave any number.\<close>

definition plans :: "(u32 \<times> apm_cont_msg_opcode) option \<Rightarrow> bool" where
  "plans r \<longleftrightarrow> (\<exists>rc m. r = Some (rc, m) \<and> length (opcode_list m) = 3 \<and> curr_opcode_idx m = 0 \<and> (rc = AR_EOK \<longrightarrow> msg_ok m))"

lemma put_first_start: "start_msg m \<Longrightarrow> put_first m v = Some (m\<lparr>opcode_list := [v, 0, 0]\<rparr>)"
  by (simp add: put_first_def start_msg_def)

lemmas plan_simps = start_msg_def msg_ok_def plans_def put_first_def planned_def

lemma close_plans: "start_msg m \<Longrightarrow> plans (apm_populate_graph_close_proc_seq c st m)"
  by (auto simp: plan_simps apm_populate_graph_close_proc_seq_def)

lemma start_plans: "start_msg m \<Longrightarrow> plans (apm_populate_graph_start_proc_seq c st m peer)"
  by (auto simp: plan_simps apm_populate_graph_start_proc_seq_def)

lemma at_open_plans: "start_msg m \<Longrightarrow> plans (apm_populate_graph_mgmt_at_open_proc_seq c st m peer)"
  using close_plans start_plans by (auto simp: apm_populate_graph_mgmt_at_open_proc_seq_def Let_def plan_simps)

subsection \<open>Suspended peers\<close>

text \<open>The link \<open>l\<close> leads from the sub-graph \<open>a\<close> to a suspended peer that has not heard of it yet.\<close>

definition link_hit :: "apm_mem \<Rightarrow> addr \<Rightarrow> addr \<Rightarrow> bool" where
  "link_hit m l a \<longleftrightarrow> (\<exists>conn sg self peer. port_infos m l = Some conn \<and> sub_graphs m a = Some sg
     \<and> load (sub_graphs m) (self_sg_obj_ptr conn) = Some self \<and> load (sub_graphs m) (peer_sg_obj_ptr conn) = Some peer
     \<and> sub_graph_id sg = sub_graph_id self \<and> peer_sg_propagated_state conn = APM_SG_STATE_STOPPED \<and> sg_state peer = APM_SG_STATE_SUSPENDED)"

definition link_owned :: "apm_mem \<Rightarrow> addr \<Rightarrow> bool" where
  "link_owned m l \<longleftrightarrow> (\<exists>conn self peer. port_infos m l = Some conn
     \<and> load (sub_graphs m) (self_sg_obj_ptr conn) = Some self \<and> load (sub_graphs m) (peer_sg_obj_ptr conn) = Some peer)"

text \<open>The links between sub-graphs and the sub-graphs of the command are lists of objects that are there.\<close>

definition peers_ok :: "apm \<Rightarrow> addr list \<Rightarrow> addr list \<Rightarrow> bool" where
  "peers_ok s links sgs \<longleftrightarrow> (let m = apm_memory s; h = nodes (lists m) in
     (\<exists>ns. slist h (sub_graph_conn_list_ptr (graph_info s)) ns (map Some links)) \<and> (\<forall>l \<in> set links. link_owned m l)
     \<and> (\<exists>ns. slist h (reg_sg_list_ptr (cmd_ctrl s)) ns (map Some sgs)) \<and> set sgs \<subseteq> dom (sub_graphs m))"

lemma peer_sg_loop_dseg:
  assumes "port_infos m l = Some conn" "link_owned m l"
  shows "dseg (nodes (lists m)) pr ns None \<Longrightarrow> map (obj_at (nodes (lists m))) ns = map Some os \<Longrightarrow> set os \<subseteq> dom (sub_graphs m) \<Longrightarrow>
    peer_sg_loop m conn (begp ns None) = Some (\<exists>a \<in> set os. link_hit m l a)"
proof (induction ns arbitrary: pr os)
  case Nil
  then show ?case by (subst peer_sg_loop.simps) simp
next
  case (Cons n ns)
  then obtain a os' where os: "os = a # os'" "obj_at (nodes (lists m)) n = Some a" by (cases os) auto
  have n: "n \<in> dom (nodes (lists m))" "nxt (nodes (lists m)) n = begp ns None" "dseg (nodes (lists m)) (Some n) ns None"
    using Cons.prems(1) by (auto split: if_splits)
  obtain sg where sg: "sub_graphs m a = Some sg" using Cons.prems(3) os by auto
  obtain self peer where sp: "load (sub_graphs m) (self_sg_obj_ptr conn) = Some self" "load (sub_graphs m) (peer_sg_obj_ptr conn) = Some peer"
    using assms by (auto simp: link_owned_def)
  have "peer_sg_loop m conn (begp ns None) = Some (\<exists>a \<in> set os'. link_hit m l a)"
    by (rule Cons.IH [OF n(3)]) (use Cons.prems os in auto)
  then show ?case using os n sg sp assms(1) by (subst peer_sg_loop.simps) (auto simp: mem_simps link_hit_def)
qed

lemma peer_conn_loop_dseg:
  assumes "slist (nodes (lists m)) (Some p) ns' (map Some sgs)" "set sgs \<subseteq> dom (sub_graphs m)"
  shows "dseg (nodes (lists m)) pr ns None \<Longrightarrow> map (obj_at (nodes (lists m))) ns = map Some os \<Longrightarrow> \<forall>l \<in> set os. link_owned m l \<Longrightarrow>
    peer_conn_loop m (Some p) (begp ns None) = Some (\<exists>l \<in> set os. \<exists>a \<in> set sgs. link_hit m l a)"
proof (induction ns arbitrary: pr os)
  case Nil
  then show ?case by (subst peer_conn_loop.simps) simp
next
  case (Cons n ns)
  then obtain l os' where os: "os = l # os'" "obj_at (nodes (lists m)) n = Some l" by (cases os) auto
  have n: "n \<in> dom (nodes (lists m))" "nxt (nodes (lists m)) n = begp ns None" "dseg (nodes (lists m)) (Some n) ns None"
    using Cons.prems(1) by (auto split: if_splits)
  have l: "link_owned m l" using Cons.prems(3) os by simp
  obtain conn where conn: "port_infos m l = Some conn" using l by (auto simp: link_owned_def)
  have sl: "Some p = begp ns' None" "dseg (nodes (lists m)) None ns' None" "map (obj_at (nodes (lists m))) ns' = map Some sgs"
    using assms(1) by (auto simp: slist_def dll_def)
  have inner: "peer_sg_loop m conn (Some p) = Some (\<exists>a \<in> set sgs. link_hit m l a)"
    unfolding sl(1) by (rule peer_sg_loop_dseg [OF conn l sl(2,3) assms(2)])
  have "peer_conn_loop m (Some p) (begp ns None) = Some (\<exists>l \<in> set os'. \<exists>a \<in> set sgs. link_hit m l a)"
    by (rule Cons.IH [OF n(3)]) (use Cons.prems os in auto)
  then show ?case using os n conn inner by (subst peer_conn_loop.simps) (auto simp: mem_simps)
qed

lemma check_peers:
  assumes "peers_ok s links sgs" "reg_sg_list_ptr (cmd_ctrl s) \<noteq> None"
    and "cmd_opcode (cmd_ctrl s) \<in> {APM_CMD_GRAPH_PREPARE, APM_CMD_GRAPH_START, SPF_MSG_CMD_PROXY_GRAPH_PREPARE, SPF_MSG_CMD_PROXY_GRAPH_START}"
  shows "apm_check_if_peer_suspend_reqd s = Some (AR_EOK, \<exists>l \<in> set links. \<exists>a \<in> set sgs. link_hit (apm_memory s) l a)"
proof -
  let ?m = "apm_memory s" and ?h = "nodes (lists (apm_memory s))"
  obtain ns ns' p where l: "slist ?h (sub_graph_conn_list_ptr (graph_info s)) ns (map Some links)" "\<forall>l \<in> set links. link_owned ?m l"
    "slist ?h (Some p) ns' (map Some sgs)" "set sgs \<subseteq> dom (sub_graphs ?m)" "reg_sg_list_ptr (cmd_ctrl s) = Some p"
    using assms(1,2) by (auto simp: peers_ok_def Let_def)
  have d: "sub_graph_conn_list_ptr (graph_info s) = begp ns None" "dseg ?h None ns None" "map (obj_at ?h) ns = map Some links"
    using l(1) by (auto simp: slist_def dll_def)
  have "peer_conn_loop ?m (Some p) (sub_graph_conn_list_ptr (graph_info s)) = Some (\<exists>l \<in> set links. \<exists>a \<in> set sgs. link_hit ?m l a)"
    unfolding d(1) by (rule peer_conn_loop_dseg [OF l(3,4) d(2,3) l(2)])
  then show ?thesis using assms(3) l(5) by (simp add: apm_check_if_peer_suspend_reqd_def Let_def) blast
qed

lemma check_peers_total:
  assumes "peers_ok s links sgs"
  shows "\<exists>rc reqd. apm_check_if_peer_suspend_reqd s = Some (rc, reqd)"
proof (cases "reg_sg_list_ptr (cmd_ctrl s) = None \<or> cmd_opcode (cmd_ctrl s) \<notin>
    {APM_CMD_GRAPH_PREPARE, APM_CMD_GRAPH_START, SPF_MSG_CMD_PROXY_GRAPH_PREPARE, SPF_MSG_CMD_PROXY_GRAPH_START}")
  case True
  then show ?thesis by (auto simp: apm_check_if_peer_suspend_reqd_def Let_def)
next
  case False
  then show ?thesis using check_peers [OF assms] by simp
qed

subsection \<open>The whole planner\<close>

text \<open>Only the planned messages change.\<close>

definition steps :: "apm \<Rightarrow> (u32 \<times> apm) option \<Rightarrow> bool" where
  "steps s r \<longleftrightarrow> (\<exists>rc m. r = Some (rc, upd_ctrl (upd_msg (\<lambda>_. m)) s) \<and> length (opcode_list m) = 3 \<and> curr_opcode_idx m = 0
     \<and> (rc = AR_EOK \<longrightarrow> msg_ok m))"

lemma steps_with_msg: "plans r \<Longrightarrow> steps s (with_msg s r)"
  by (auto simp: plans_def steps_def with_msg_def)

lemma ctrl_simps [simp]:
  "cmd_ctrl (upd_ctrl f s) = f (cmd_ctrl s)" "apm_memory (upd_ctrl f s) = apm_memory s" "graph_info (upd_ctrl f s) = graph_info s"
  "cont_msg_opcode (upd_msg g c) = g (cont_msg_opcode c)" "cmd_seq (upd_msg g c) = cmd_seq c" "cmd_opcode (upd_msg g c) = cmd_opcode c"
  "op_of (upd_msg g c) = op_of c" "upd_ctrl f (upd_ctrl f' s) = upd_ctrl (\<lambda>c. f (f' c)) s" "upd_msg g (upd_msg g' c) = upd_msg (\<lambda>m. g (g' m)) c"
  by (auto simp: upd_ctrl_def upd_msg_def op_of_def fun_eq_iff)

lemma steps_keep: "start_msg (cont_msg_opcode (cmd_ctrl s)) \<Longrightarrow> steps s (Some (rc, s))"
  unfolding steps_def by (intro exI [of _ rc] exI [of _ "cont_msg_opcode (cmd_ctrl s)"]) (auto simp: plan_simps upd_ctrl_def upd_msg_def)

lemma set_first_steps: "start_msg (cont_msg_opcode (cmd_ctrl s)) \<Longrightarrow> steps s (set_first s v)"
  unfolding set_first_def by (rule steps_with_msg) (auto simp: plan_simps)

lemma graph_proc_steps:
  assumes "start_msg (cont_msg_opcode (cmd_ctrl s))" "peers_ok s links sgs"
  shows "steps s (apm_populate_cont_graph_proc_seq s)"
proof -
  let ?c = "cmd_ctrl s" let ?m = "cont_msg_opcode ?c"
  obtain rc reqd where chk: "apm_check_if_peer_suspend_reqd s = Some (rc, reqd)" using check_peers_total [OF assms(2)] by blast
  have m: "opcode_list ?m = [0, 0, 0]" "curr_opcode_idx ?m = 0" "num_msg_opcode ?m = 1" using assms(1) by (auto simp: start_msg_def)
  have one: "plans (do { m \<leftarrow> put_first ?m v; Some (AR_EOK, m) })" for v using m by (simp add: plan_simps)
  have two: "plans (do { (m, i) \<leftarrow> put_opcodes ?m 0 [v, w]; Some (AR_EOK, m\<lparr>num_msg_opcode := i\<rparr>) })" for v w using m by (simp add: plan_simps)
  have same: "plans (Some (AR_EUNSUPPORTED, ?m))" using m by (simp add: plans_def)
  show ?thesis
    unfolding apm_populate_cont_graph_proc_seq_def Let_def chk
    using steps_keep [OF assms(1)] one two same close_plans [OF assms(1)] start_plans [OF assms(1)] at_open_plans [OF assms(1)]
    by (auto intro!: steps_with_msg)
qed

lemma graph_mgmt_steps:
  assumes "start_msg (cont_msg_opcode (cmd_ctrl s))" "peers_ok s links sgs"
  shows "steps s (apm_populate_cont_graph_mgmt_cmd_seq s)"
  unfolding apm_populate_cont_graph_mgmt_cmd_seq_def Let_def
  using steps_keep [OF assms(1)] graph_proc_steps [OF assms] set_first_steps [OF assms(1)] by simp

lemma peers_ok_upd_msg [simp]: "peers_ok (upd_ctrl (upd_msg f) s) links sgs = peers_ok s links sgs"
  by (simp add: peers_ok_def upd_msg_def)

lemma err_hdlr_steps:
  assumes "start_msg (cont_msg_opcode (cmd_ctrl s))" "peers_ok s links sgs"
  shows "steps s (apm_populate_cont_open_cmd_err_hdlr_seq s)"
  unfolding apm_populate_cont_open_cmd_err_hdlr_seq_def Let_def
  using steps_keep [OF assms(1)] graph_mgmt_steps [OF assms] set_first_steps [OF assms(1)] by simp

lemma close_all_steps:
  assumes "start_msg (cont_msg_opcode (cmd_ctrl s))"
  shows "steps s (apm_cmd_set_cfg_close_all_seq s)"
  unfolding apm_cmd_set_cfg_close_all_seq_def Let_def
  using steps_keep [OF assms] steps_with_msg [OF close_plans [OF assms]] by simp

text \<open>The tables of function pointers hold the functions of the two extensions, or nothing.\<close>

definition plan_fptrs :: "apm_utils \<Rightarrow> bool" where
  "plan_fptrs u \<longleftrightarrow> populate_cont_open_cmd_err_hdlr_seq u \<in> {None, Some apm_populate_cont_open_cmd_err_hdlr_seq}
     \<and> cmd_set_cfg_close_all_seq u \<in> {None, Some apm_cmd_set_cfg_close_all_seq}"

lemma open_steps:
  assumes "start_msg (cont_msg_opcode (cmd_ctrl s))" "peers_ok s links sgs" "plan_fptrs u"
  shows "steps s (apm_populate_cont_open_cmd_seq u s)"
proof -
  have "steps s (with_msg s (do {
      (m, _) \<leftarrow> put_opcodes ((cont_msg_opcode (cmd_ctrl s))\<lparr>num_msg_opcode := 2\<rparr>) 0 [SPF_MSG_CMD_GRAPH_OPEN, SPF_MSG_CMD_GRAPH_CONNECT];
      Some (AR_EOK, m) }))"
    by (rule steps_with_msg) (use assms(1) in \<open>simp add: plan_simps\<close>)
  then show ?thesis
    unfolding apm_populate_cont_open_cmd_seq_def Let_def
    using steps_keep [OF assms(1)] graph_mgmt_steps [OF assms(1,2)] set_first_steps [OF assms(1)] err_hdlr_steps [OF assms(1,2)] assms(3)
    by (auto simp: plan_fptrs_def)
qed

lemma set_cfg_steps:
  assumes "start_msg (cont_msg_opcode (cmd_ctrl s))" "plan_fptrs u"
  shows "steps s (apm_populate_spf_set_cfg_cmd_seq u s)"
  unfolding apm_populate_spf_set_cfg_cmd_seq_def Let_def call_if_there_def
  using steps_keep [OF assms(1)] set_first_steps [OF assms(1)] close_all_steps [OF assms(1)] assms(2) by (auto simp: plan_fptrs_def)

lemma cmd_seq_steps:
  assumes "length (opcode_list (cont_msg_opcode (cmd_ctrl s))) = 3" "peers_ok s links sgs" "plan_fptrs u"
  shows "steps s (apm_populate_cont_cmd_seq u s)"
proof -
  let ?s = "upd_ctrl (upd_msg (\<lambda>m. \<lparr>num_msg_opcode = 1, opcode_list = replicate (length (opcode_list m)) 0, curr_opcode_idx = 0\<rparr>)) s"
  have st: "start_msg (cont_msg_opcode (cmd_ctrl ?s))" using assms(1) by (simp add: start_msg_def numeral_eq_Suc)
  have p: "peers_ok ?s links sgs" using assms(2) by simp
  have two: "steps ?s (with_msg ?s (do {
      (m, _) \<leftarrow> put_opcodes ((cont_msg_opcode (cmd_ctrl ?s))\<lparr>num_msg_opcode := 2\<rparr>) 0 [SPF_MSG_CMD_SET_CFG, SPF_MSG_CMD_SET_CFG]; Some (AR_EOK, m) }))"
    by (rule steps_with_msg) (use st in \<open>simp add: plan_simps\<close>)
  have "steps ?s (apm_populate_cont_cmd_seq u s)"
    unfolding apm_populate_cont_cmd_seq_def Let_def
    using steps_keep [OF st] set_first_steps [OF st] open_steps [OF st p assms(3)] set_cfg_steps [OF st assms(3)] graph_mgmt_steps [OF st p] two by simp
  then show ?thesis by (auto simp: steps_def)
qed

subsection \<open>The states of a sub-graph\<close>

text \<open>The life of a sub-graph in its containers, and what the messages of a command do to it.\<close>

datatype phase = Stopped | Prepared | Started | Suspended | Disconnected | Closed

definition phase_step :: "u32 \<Rightarrow> phase \<Rightarrow> phase option" where
  "phase_step msg p =
    (if msg = SPF_MSG_CMD_GRAPH_PREPARE then (if p = Stopped then Some Prepared else None)
     else if msg = SPF_MSG_CMD_GRAPH_START then (if p \<in> {Prepared, Suspended} then Some Started else None)
     else if msg = SPF_MSG_CMD_GRAPH_SUSPEND then (if p = Started then Some Suspended else None)
     else if msg = SPF_MSG_CMD_GRAPH_STOP then (if p \<in> {Started, Suspended} then Some Stopped else None)
     else if msg = SPF_MSG_CMD_GRAPH_DISCONNECT then (if p \<in> {Stopped, Prepared} then Some Disconnected else None)
     else if msg = SPF_MSG_CMD_GRAPH_CLOSE then (if p = Disconnected then Some Closed else None)
     else None)"

fun phase_run :: "u32 list \<Rightarrow> phase \<Rightarrow> phase option" where
  "phase_run [] p = Some p"
| "phase_run (msg # msgs) p = Option.bind (phase_step msg p) (phase_run msgs)"

definition phase_of :: "u32 \<Rightarrow> phase option" where
  "phase_of st = (if st = APM_SG_STATE_STOPPED then Some Stopped else if st = APM_SG_STATE_PREPARED then Some Prepared
     else if st = APM_SG_STATE_STARTED then Some Started else if st = APM_SG_STATE_SUSPENDED then Some Suspended else None)"

text \<open>What a command asks for, and from where it can be reached.\<close>

definition goal_of :: "u32 \<Rightarrow> phase \<Rightarrow> phase option" where
  "goal_of opc p =
    (if opc \<in> {APM_CMD_GRAPH_CLOSE, APM_CMD_CLOSE_ALL} then Some Closed
     else if opc \<in> {APM_CMD_GRAPH_START, SPF_MSG_CMD_PROXY_GRAPH_START} then (if p = Started then None else Some Started)
     else if opc \<in> {APM_CMD_GRAPH_PREPARE, SPF_MSG_CMD_PROXY_GRAPH_PREPARE} then (if p = Stopped then Some Prepared else None)
     else if opc \<in> {APM_CMD_GRAPH_STOP, SPF_MSG_CMD_PROXY_GRAPH_STOP} then (if p \<in> {Started, Suspended} then Some Stopped else None)
     else if opc = APM_CMD_GRAPH_SUSPEND then (if p = Started then Some Suspended else None)
     else None)"

lemma phase_of_cases:
  "phase_of st = Some p \<Longrightarrow> st = APM_SG_STATE_STOPPED \<and> p = Stopped \<or> st = APM_SG_STATE_PREPARED \<and> p = Prepared
     \<or> st = APM_SG_STATE_STARTED \<and> p = Started \<or> st = APM_SG_STATE_SUSPENDED \<and> p = Suspended"
  by (auto simp: phase_of_def split: if_splits)

text \<open>The peers are suspended first when a stopped sub-graph is prepared or started.\<close>

definition peer_msgs :: "u32 \<Rightarrow> phase \<Rightarrow> bool \<Rightarrow> u32 list" where
  "peer_msgs opc p reqd =
    (if reqd \<and> p = Stopped \<and> opc \<in> {APM_CMD_GRAPH_PREPARE, APM_CMD_GRAPH_START, SPF_MSG_CMD_PROXY_GRAPH_PREPARE, SPF_MSG_CMD_PROXY_GRAPH_START}
     then [SPF_MSG_CMD_GRAPH_SUSPEND] else [])"

definition reaches :: "u32 \<Rightarrow> phase \<Rightarrow> phase \<Rightarrow> bool \<Rightarrow> (u32 \<times> apm_cont_msg_opcode) option \<Rightarrow> bool" where
  "reaches opc p g reqd r \<longleftrightarrow> (\<exists>m msgs. r = Some (AR_EOK, m) \<and> msg_ok m \<and> planned m = peer_msgs opc p reqd @ msgs \<and> phase_run msgs p = Some g)"

lemma reachesI:
  "r = Some (AR_EOK, m) \<Longrightarrow> msg_ok m \<Longrightarrow> planned m = peer_msgs opc p reqd @ msgs \<Longrightarrow> phase_run msgs p = Some g \<Longrightarrow> reaches opc p g reqd r"
  unfolding reaches_def by blast

lemma close_reaches:
  assumes "start_msg m" "phase_of st = Some p" "op_idx (op_of c Graph_Mgmt_Seq) = APM_GM_CMD_OP_PROCESS_REG_GRAPH"
    and "cmd_opcode c \<in> {APM_CMD_GRAPH_CLOSE, APM_CMD_CLOSE_ALL}"
  shows "reaches (cmd_opcode c) p Closed reqd (apm_populate_graph_close_proc_seq c st m)"
  using assms phase_of_cases [OF assms(2)]
  by (elim insertE emptyE disjE conjE;
      simp add: reaches_def apm_populate_graph_close_proc_seq_def plan_simps peer_msgs_def phase_step_def)

lemma start_reaches:
  assumes "start_msg m" "phase_of st = Some p" "op_idx (op_of c Graph_Mgmt_Seq) = APM_GM_CMD_OP_PROCESS_REG_GRAPH" "p \<noteq> Started"
    and "cmd_opcode c \<in> {APM_CMD_GRAPH_START, SPF_MSG_CMD_PROXY_GRAPH_START}"
  shows "reaches (cmd_opcode c) p Started reqd (apm_populate_graph_start_proc_seq c st m reqd)"
  using assms phase_of_cases [OF assms(2)]
  by (elim insertE emptyE disjE conjE; cases reqd;
      simp add: reaches_def apm_populate_graph_start_proc_seq_def plan_simps peer_msgs_def phase_step_def)

lemma one_reaches:
  assumes "start_msg m" "phase_step v p = Some g" "peer_msgs opc p reqd = []"
  shows "reaches opc p g reqd (do { m \<leftarrow> put_first m v; Some (AR_EOK, m) })"
  using assms by (auto simp: reaches_def plan_simps)

lemma prepare_reaches:
  assumes "start_msg m" "opc \<in> {APM_CMD_GRAPH_PREPARE, SPF_MSG_CMD_PROXY_GRAPH_PREPARE}"
  shows "reaches opc Stopped Prepared reqd (if reqd then do { (m, i) \<leftarrow> put_opcodes m 0 [SPF_MSG_CMD_GRAPH_SUSPEND, SPF_MSG_CMD_GRAPH_PREPARE];
      Some (AR_EOK, m\<lparr>num_msg_opcode := i\<rparr>) } else do { m \<leftarrow> put_first m SPF_MSG_CMD_GRAPH_PREPARE; Some (AR_EOK, m) })"
  using assms by (auto simp: reaches_def plan_simps peer_msgs_def phase_step_def)

lemma check_peers_reg:
  assumes "peers_ok s links sgs" "reg_sg_list_ptr (cmd_ctrl s) \<noteq> None"
  shows "\<exists>reqd. apm_check_if_peer_suspend_reqd s = Some (AR_EOK, reqd)
    \<and> (\<forall>p. peer_msgs (cmd_opcode (cmd_ctrl s)) p reqd = peer_msgs (cmd_opcode (cmd_ctrl s)) p (\<exists>l \<in> set links. \<exists>a \<in> set sgs. link_hit (apm_memory s) l a))"
proof (cases "cmd_opcode (cmd_ctrl s) \<in> {APM_CMD_GRAPH_PREPARE, APM_CMD_GRAPH_START, SPF_MSG_CMD_PROXY_GRAPH_PREPARE, SPF_MSG_CMD_PROXY_GRAPH_START}")
  case True
  then show ?thesis using check_peers [OF assms] by simp
next
  case False
  then show ?thesis by (auto simp: apm_check_if_peer_suspend_reqd_def Let_def peer_msgs_def)
qed

lemma graph_proc_reaches:
  assumes "start_msg (cont_msg_opcode (cmd_ctrl s))" "apm_check_if_peer_suspend_reqd s = Some (AR_EOK, reqd)"
    and "op_idx (op_of (cmd_ctrl s) Graph_Mgmt_Seq) = APM_GM_CMD_OP_PROCESS_REG_GRAPH" "phase_of (curr_sg_list_state (cmd_ctrl s)) = Some p"
    and "goal_of (cmd_opcode (cmd_ctrl s)) p = Some g"
  shows "\<exists>r. apm_populate_cont_graph_proc_seq s = with_msg s r \<and> reaches (cmd_opcode (cmd_ctrl s)) p g reqd r"
proof -
  let ?c = "cmd_ctrl s" let ?opc = "cmd_opcode (cmd_ctrl s)"
  have st: "curr_sg_list_state ?c \<noteq> APM_SG_STATE_INVALID" using phase_of_cases [OF assms(4)] by auto
  consider (close) "?opc \<in> {APM_CMD_GRAPH_CLOSE, APM_CMD_CLOSE_ALL}" "g = Closed"
    | (start) "?opc \<in> {APM_CMD_GRAPH_START, SPF_MSG_CMD_PROXY_GRAPH_START}" "p \<noteq> Started" "g = Started"
    | (prepare) "?opc \<in> {APM_CMD_GRAPH_PREPARE, SPF_MSG_CMD_PROXY_GRAPH_PREPARE}" "p = Stopped" "g = Prepared"
    | (stop) "?opc \<in> {APM_CMD_GRAPH_STOP, SPF_MSG_CMD_PROXY_GRAPH_STOP}" "p \<in> {Started, Suspended}" "g = Stopped"
    | (suspend) "?opc = APM_CMD_GRAPH_SUSPEND" "p = Started" "g = Suspended"
    using assms(5) unfolding goal_of_def by (auto split: if_splits)
  then show ?thesis
  proof cases
    case close
    then have "apm_populate_cont_graph_proc_seq s = with_msg s (apm_populate_graph_close_proc_seq ?c (curr_sg_list_state ?c) (cont_msg_opcode ?c))"
      using st assms(2) by (auto simp: apm_populate_cont_graph_proc_seq_def Let_def)
    then show ?thesis using close_reaches [OF assms(1,4,3) close(1)] close(2) by blast
  next
    case start
    then have "apm_populate_cont_graph_proc_seq s = with_msg s (apm_populate_graph_start_proc_seq ?c (curr_sg_list_state ?c) (cont_msg_opcode ?c) reqd)"
      using st assms(2) by (auto simp: apm_populate_cont_graph_proc_seq_def Let_def)
    then show ?thesis using start_reaches [OF assms(1,4,3) start(2,1)] start(3) by blast
  next
    case prepare
    then have "apm_populate_cont_graph_proc_seq s = with_msg s (if reqd then do { (m, i) \<leftarrow> put_opcodes (cont_msg_opcode ?c) 0 [SPF_MSG_CMD_GRAPH_SUSPEND, SPF_MSG_CMD_GRAPH_PREPARE];
      Some (AR_EOK, m\<lparr>num_msg_opcode := i\<rparr>) } else do { m \<leftarrow> put_first (cont_msg_opcode ?c) SPF_MSG_CMD_GRAPH_PREPARE; Some (AR_EOK, m) })"
      using st assms(2,3) by (auto simp: apm_populate_cont_graph_proc_seq_def Let_def)
    then show ?thesis using prepare_reaches [OF assms(1) prepare(1)] prepare(2,3) by blast
  next
    case stop
    then have "apm_populate_cont_graph_proc_seq s = with_msg s (do { m \<leftarrow> put_first (cont_msg_opcode ?c) SPF_MSG_CMD_GRAPH_STOP; Some (AR_EOK, m) })"
      using st assms(2) by (auto simp: apm_populate_cont_graph_proc_seq_def Let_def)
    moreover have "phase_step SPF_MSG_CMD_GRAPH_STOP p = Some g" "peer_msgs ?opc p reqd = []" using stop by (auto simp: phase_step_def peer_msgs_def)
    ultimately show ?thesis using one_reaches [OF assms(1)] by blast
  next
    case suspend
    then have "apm_populate_cont_graph_proc_seq s = with_msg s (do { m \<leftarrow> put_first (cont_msg_opcode ?c) SPF_MSG_CMD_GRAPH_SUSPEND; Some (AR_EOK, m) })"
      using st assms(2) by (auto simp: apm_populate_cont_graph_proc_seq_def Let_def)
    moreover have "phase_step SPF_MSG_CMD_GRAPH_SUSPEND p = Some g" "peer_msgs ?opc p reqd = []" using suspend by (auto simp: phase_step_def peer_msgs_def)
    ultimately show ?thesis using one_reaches [OF assms(1)] by blast
  qed
qed

subsection \<open>An example\<close>

text \<open>One stopped sub-graph is to be started; it has a link to a suspended one.\<close>

definition ex_seq_mem :: apm_mem where
  "ex_seq_mem = \<lparr>lists = ex_lists\<lparr>nodes := [1 \<mapsto> fresh_node (Some 10), 2 \<mapsto> fresh_node (Some 20)]\<rparr>,
     sub_graphs = [20 \<mapsto> \<lparr>sub_graph_id = 7, sg_state = APM_SG_STATE_STOPPED\<rparr>, 21 \<mapsto> \<lparr>sub_graph_id = 8, sg_state = APM_SG_STATE_SUSPENDED\<rparr>],
     containers = Map.empty, modules = Map.empty,
     port_infos = [10 \<mapsto> \<lparr>self_sg_obj_ptr = Some 20, peer_sg_obj_ptr = Some 21, peer_sg_propagated_state = APM_SG_STATE_STOPPED, port_conn_list_ptr = None\<rparr>],
     port_conns = Map.empty, pspc_lists = Map.empty, sat_infos = Map.empty\<rparr>"

definition ex_op_seq :: apm_op_seq where
  "ex_op_seq = \<lparr>op_idx = 0, curr_seq_idx = 0, curr_cmd_op_pending = False, op_status = AR_EOK\<rparr>"

definition ex_ctrl :: "u32 \<Rightarrow> apm_cmd_ctrl" where
  "ex_ctrl opc = \<lparr>cmd_opcode = opc, cmd_status = AR_EOK, cmd_pending = True,
     cmd_seq = \<lparr>op_seqs = (\<lambda>_. ex_op_seq)(Graph_Mgmt_Seq := ex_op_seq\<lparr>op_idx := APM_GM_CMD_OP_PROCESS_REG_GRAPH\<rparr>),
       pri_op_seq_ptr = None, curr_op_seq_ptr = None, parent_op_seq_ptr = None, cmd_seq_entry_fptr = None\<rparr>,
     cont_msg_opcode = \<lparr>num_msg_opcode = 0, opcode_list = [0, 0, 0], curr_opcode_idx = 0\<rparr>,
     open_sg_id_list_ptr = None, open_cmd_status = APM_OPEN_CMD_STATE_NORMAL, reg_sg_list_ptr = Some 2, cont_port_hdl_sg_list_ptr = None,
     cached_cont_list = [None, None], curr_cont_list_type = 0, cont_list_trav_state = [0, 0], processed_sg_list_ptr = None,
     curr_sg_list_state = APM_SG_STATE_STOPPED, sg_list_mixed_state = False, is_close_all_needed = False, cmd_rsp_pending = False,
     pending_cont_list_ptr = None, active_proxy_mgr_list_ptr = None\<rparr>"

definition ex_apm_state :: "u32 \<Rightarrow> apm" where
  "ex_apm_state opc = \<lparr>apm_memory = ex_seq_mem,
     graph_info = \<lparr>num_sub_graphs = 2, sub_graph_list_ptr = None, num_sub_graph_conn = 1, sub_graph_conn_list_ptr = Some 1, num_conn = 0,
       conn_cfg_list_ptr = None, num_ctrl_link = 0, ctrl_link_cfg_list_ptr = None, num_containers = 0, container_list_ptr = replicate 16 None,
       num_satellite_container = 0, sat_container_list_ptr = None, num_modules = 0, module_list_ptr = replicate 64 None\<rparr>,
     cmd_ctrl = ex_ctrl opc\<rparr>"

definition ex_utils :: apm_utils where
  "ex_utils = \<lparr>send_msg_to_containers = (\<lambda>s. Some (AR_EOK, s)), clear_pending_cont_list = (\<lambda>s. Some (AR_EOK, s)),
     gm_cmd_cfg_sg_list_to_process = (\<lambda>s. Some (AR_EOK, s)), gm_cmd_pre_processing = (\<lambda>s. Some (AR_EOK, s)),
     gm_cmd_prepare_for_next_cont_msg = (\<lambda>s. Some (AR_EOK, s)), clear_graph_mgmt_cmd_info = (\<lambda>s. Some (AR_EOK, s)),
     update_cont_graph_list = (\<lambda>s. Some (AR_EOK, s)), end_cmd = (\<lambda>s. Some (cmd_status (cmd_ctrl s), s)),
     proxy_graph_open_cmn_sequencer = (\<lambda>s. Some (AR_EOK, s)), proxy_graph_mgmt_sequencer = (\<lambda>s. Some (AR_EOK, s)),
     proxy_set_cfg_sequencer = apm_proxy_set_cfg_sequencer_stub, data_path_cfg_cmn_seqncer = None, graph_open_handle_link_start = None,
     db_query_handle_graph_open = None, db_query_handle_graph_close = None, graph_open_err_hdlr_sequencer = None,
     populate_cont_open_cmd_err_hdlr_seq = Some apm_populate_cont_open_cmd_err_hdlr_seq,
     cmd_set_cfg_close_all_seq = Some apm_cmd_set_cfg_close_all_seq, cmd_close_all_seqncer = None, debug_info_cfg_hdlr = None\<rparr>"

lemma ex_peers_ok: "peers_ok (ex_apm_state opc) [10] [20]"
proof -
  have "slist (nodes (lists ex_seq_mem)) (Some 1) [1] (map Some [10])" "slist (nodes (lists ex_seq_mem)) (Some 2) [2] (map Some [20])"
    by (simp_all add: ex_seq_mem_def slist_def dll_def obj_at_def nxt_def prv_def)
  moreover have "link_owned ex_seq_mem 10" "{20} \<subseteq> dom (sub_graphs ex_seq_mem)" by (simp_all add: link_owned_def ex_seq_mem_def)
  ultimately show ?thesis by (auto simp: peers_ok_def ex_apm_state_def ex_ctrl_def Let_def)
qed

lemma ex_plan_fptrs: "plan_fptrs ex_utils"
  by (simp add: plan_fptrs_def ex_utils_def)

lemma ex_len: "length (opcode_list (cont_msg_opcode (cmd_ctrl (ex_apm_state opc)))) = 3"
  by (simp add: ex_apm_state_def ex_ctrl_def)

lemma ex_hit: "link_hit (apm_memory (ex_apm_state opc)) 10 20"
  by (simp add: link_hit_def ex_apm_state_def ex_seq_mem_def)

subsection \<open>Properties\<close>

text \<open>
  C40: Planning the messages of a command always returns and never writes outside the array of three operation codes. It changes nothing but
  the plan; when it succeeds, between one and three messages are planned and the first one is the next.
\<close>

theorem apm_cont_seq_fits:
  assumes "length (opcode_list (cont_msg_opcode (cmd_ctrl s))) = 3" "peers_ok s links sgs" "plan_fptrs u"
  shows "\<exists>rc m. apm_populate_cont_cmd_seq u s = Some (rc, upd_ctrl (upd_msg (\<lambda>_. m)) s) \<and> length (opcode_list m) = 3 \<and> curr_opcode_idx m = 0
    \<and> (rc = AR_EOK \<longrightarrow> 1 \<le> num_msg_opcode m \<and> num_msg_opcode m \<le> 3)"
  using cmd_seq_steps [OF assms] unfolding steps_def msg_ok_def by blast

theorem apm_cont_seq_fits_witness:
  "\<exists>rc m. apm_populate_cont_cmd_seq ex_utils (ex_apm_state APM_CMD_GRAPH_START) = Some (rc, upd_ctrl (upd_msg (\<lambda>_. m)) (ex_apm_state APM_CMD_GRAPH_START))
    \<and> length (opcode_list m) = 3"
  using apm_cont_seq_fits [OF ex_len ex_peers_ok ex_plan_fptrs, of APM_CMD_GRAPH_START] by blast

text \<open>
  C15: The messages that are planned for a command on the regular sub-graphs take them from the state they are in to the one the command asks for:
  every message is legal where it is sent, and the last one leaves the sub-graphs in the target state. They are preceded by one message
  to suspend the peers exactly when a stopped sub-graph is prepared or started and one of its links leads to a suspended peer that does not know of it.
  What a command asks for in which state is \<open>goal_of\<close>; a stop of sub-graphs that are only prepared is not among its cases.
\<close>

theorem apm_plan_reaches_goal:
  assumes "length (opcode_list (cont_msg_opcode (cmd_ctrl s))) = 3" "peers_ok s links sgs" "reg_sg_list_ptr (cmd_ctrl s) \<noteq> None"
    and "op_idx (op_of (cmd_ctrl s) Graph_Mgmt_Seq) = APM_GM_CMD_OP_PROCESS_REG_GRAPH"
    and "phase_of (curr_sg_list_state (cmd_ctrl s)) = Some p" "goal_of (cmd_opcode (cmd_ctrl s)) p = Some g"
  shows "\<exists>m msgs. apm_populate_cont_cmd_seq u s = Some (AR_EOK, upd_ctrl (upd_msg (\<lambda>_. m)) s) \<and> phase_run msgs p = Some g
    \<and> planned m = peer_msgs (cmd_opcode (cmd_ctrl s)) p (\<exists>l \<in> set links. \<exists>a \<in> set sgs. link_hit (apm_memory s) l a) @ msgs"
proof -
  let ?s = "upd_ctrl (upd_msg (\<lambda>m. \<lparr>num_msg_opcode = 1, opcode_list = replicate (length (opcode_list m)) 0, curr_opcode_idx = 0\<rparr>)) s"
  have st: "start_msg (cont_msg_opcode (cmd_ctrl ?s))" using assms(1) by (simp add: start_msg_def numeral_eq_Suc)
  have same: "cmd_opcode (cmd_ctrl ?s) = cmd_opcode (cmd_ctrl s)" "op_of (cmd_ctrl ?s) = op_of (cmd_ctrl s)"
    "curr_sg_list_state (cmd_ctrl ?s) = curr_sg_list_state (cmd_ctrl s)" "reg_sg_list_ptr (cmd_ctrl ?s) = reg_sg_list_ptr (cmd_ctrl s)"
    by simp_all (simp_all add: upd_msg_def)
  obtain reqd where reqd: "apm_check_if_peer_suspend_reqd ?s = Some (AR_EOK, reqd)"
    "\<forall>p. peer_msgs (cmd_opcode (cmd_ctrl s)) p reqd = peer_msgs (cmd_opcode (cmd_ctrl s)) p (\<exists>l \<in> set links. \<exists>a \<in> set sgs. link_hit (apm_memory s) l a)"
    using check_peers_reg [of ?s links sgs] assms(2,3) same by auto
  obtain r where r: "apm_populate_cont_graph_proc_seq ?s = with_msg ?s r" "reaches (cmd_opcode (cmd_ctrl s)) p g reqd r"
    using graph_proc_reaches [OF st reqd(1)] assms(4-6) same by auto
  have "cmd_opcode (cmd_ctrl s) \<in> {APM_CMD_GRAPH_PREPARE, APM_CMD_GRAPH_START, APM_CMD_GRAPH_STOP, APM_CMD_GRAPH_CLOSE, APM_CMD_GRAPH_SUSPEND,
      SPF_MSG_CMD_PROXY_GRAPH_PREPARE, SPF_MSG_CMD_PROXY_GRAPH_START, SPF_MSG_CMD_PROXY_GRAPH_STOP, APM_CMD_CLOSE_ALL}"
    using assms(6) unfolding goal_of_def by (auto split: if_splits)
  then have "apm_populate_cont_cmd_seq u s = apm_populate_cont_graph_mgmt_cmd_seq ?s" by (auto simp: apm_populate_cont_cmd_seq_def Let_def)
  then have "apm_populate_cont_cmd_seq u s = with_msg ?s r" using r(1) assms(4) same by (simp add: apm_populate_cont_graph_mgmt_cmd_seq_def Let_def)
  then show ?thesis using r(2) reqd(2) by (auto simp: reaches_def with_msg_def)
qed

theorem apm_plan_reaches_goal_witness:
  "\<exists>m msgs. apm_populate_cont_cmd_seq ex_utils (ex_apm_state APM_CMD_GRAPH_START) = Some (AR_EOK, upd_ctrl (upd_msg (\<lambda>_. m)) (ex_apm_state APM_CMD_GRAPH_START))
    \<and> phase_run msgs Stopped = Some Started \<and> planned m = SPF_MSG_CMD_GRAPH_SUSPEND # msgs"
proof -
  let ?s = "ex_apm_state APM_CMD_GRAPH_START"
  have "reg_sg_list_ptr (cmd_ctrl ?s) \<noteq> None" "op_idx (op_of (cmd_ctrl ?s) Graph_Mgmt_Seq) = APM_GM_CMD_OP_PROCESS_REG_GRAPH"
    "phase_of (curr_sg_list_state (cmd_ctrl ?s)) = Some Stopped" "goal_of (cmd_opcode (cmd_ctrl ?s)) Stopped = Some Started"
    by (simp_all add: ex_apm_state_def ex_ctrl_def op_of_def ex_op_seq_def phase_of_def goal_of_def)
  from apm_plan_reaches_goal [OF ex_len ex_peers_ok this, of ex_utils]
  show ?thesis using ex_hit [of APM_CMD_GRAPH_START] by (simp add: peer_msgs_def ex_apm_state_def ex_ctrl_def)
qed

end
