(* ===== verification/Apm_Sequencer_Run.thy ===== *)
theory Apm_Sequencer_Run
  imports Apm_Sequencer_Plan
begin

text \<open>
  The sequencer makes progress: a configuration command that does not close all graphs, whatever it waits for, gets to the next response it has
  to wait for or to its end, and in a graph management or configuration command a step that fails ends the command. The operations of a command are given by handlers with the contract \<open>op_handler\<close>: each
  call finishes the operation, fails, or has less left to do.
\<close>

subsection \<open>Configuration commands\<close>

abbreviation (input) cfg_seq :: "apm \<Rightarrow> apm_op_seq" where "cfg_seq s \<equiv> op_of (cmd_ctrl s) Set_Get_Cfg_Cmd_Seq"

definition cfg_opcodes :: "u32 set" where
  "cfg_opcodes = {APM_CMD_SET_CFG, APM_CMD_GET_CFG, APM_CMD_REGISTER_CFG, APM_CMD_DEREGISTER_CFG, SPF_EVT_TO_APM_FOR_PATH_DELAY,
     SPF_MSG_CMD_SET_CFG, SPF_MSG_CMD_GET_CFG}"

text \<open>A command that sets or gets configurations and does not close all graphs on the way.\<close>

definition cfg_cmd :: "apm \<Rightarrow> bool" where
  "cfg_cmd s \<longleftrightarrow> (let c = cmd_ctrl s in cmd_seq_entry_fptr (cmd_seq c) = Some Set_Get_Cfg_Sequencer
     \<and> pri_op_seq_ptr (cmd_seq c) = Some Set_Get_Cfg_Cmd_Seq \<and> curr_op_seq_ptr (cmd_seq c) = Some Set_Get_Cfg_Cmd_Seq
     \<and> cmd_opcode c \<in> cfg_opcodes \<and> length (opcode_list (cont_msg_opcode c)) = 3
     \<and> \<not> (cmd_opcode c = SPF_MSG_CMD_SET_CFG \<and> is_close_all_needed c))"

definition fresh_op :: "apm \<Rightarrow> bool" where
  "fresh_op s \<longleftrightarrow> curr_seq_idx (cfg_seq s) = APM_CMD_SEQ_IDX_INVALID \<and> \<not> curr_cmd_op_pending (cfg_seq s)"

lemmas seq_defs = upd_ctrl_def upd_seq_def upd_op_def upd_msg_def op_of_def set_seq_idx_def

subsection \<open>The contract of an operation\<close>

text \<open>
  An operation of a configuration command. When the functions it relies on are as they should be, it can be entered afresh; a call returns and stays in the command, and when it succeeds with
  the operation still pending, there is less left to do.
\<close>

locale op_handler =
  fixes ready :: bool
    and op :: u32
    and step :: apm_step
    and inv :: "apm \<Rightarrow> bool"
    and rank :: "apm \<Rightarrow> nat"
  assumes enter: "ready \<Longrightarrow> cfg_cmd s \<Longrightarrow> op_idx (cfg_seq s) = op \<Longrightarrow> fresh_op s \<Longrightarrow> inv s"
    and progress: "cfg_cmd s \<Longrightarrow> op_idx (cfg_seq s) = op \<Longrightarrow> inv s \<Longrightarrow>
      \<exists>rc s'. step s = Some (rc, s') \<and> cfg_cmd s' \<and> op_idx (cfg_seq s') = op
        \<and> (rc = AR_EOK \<longrightarrow> curr_cmd_op_pending (cfg_seq s') \<longrightarrow> inv s' \<and> rank s' < rank s)"

text \<open>A function that keeps out of the sequencing of the command.\<close>

definition quiet :: "apm_step \<Rightarrow> bool" where
  "quiet f \<longleftrightarrow> (\<forall>s. cfg_cmd s \<longrightarrow> (\<exists>rc s'. f s = Some (rc, s') \<and> cfg_cmd s' \<and> cont_msg_opcode (cmd_ctrl s') = cont_msg_opcode (cmd_ctrl s)
     \<and> op_idx (cfg_seq s') = op_idx (cfg_seq s) \<and> curr_seq_idx (cfg_seq s') = curr_seq_idx (cfg_seq s)
     \<and> curr_cmd_op_pending (cfg_seq s') = curr_cmd_op_pending (cfg_seq s)))"

lemma quietD:
  assumes "quiet f" "cfg_cmd s"
  obtains rc s' where "f s = Some (rc, s')" "cfg_cmd s'" "cont_msg_opcode (cmd_ctrl s') = cont_msg_opcode (cmd_ctrl s)"
    "op_idx (cfg_seq s') = op_idx (cfg_seq s)" "curr_seq_idx (cfg_seq s') = curr_seq_idx (cfg_seq s)"
    "curr_cmd_op_pending (cfg_seq s') = curr_cmd_op_pending (cfg_seq s)"
  using assms unfolding quiet_def by blast

subsection \<open>Messages to containers\<close>

definition calm :: "apm_cont_msg_opcode \<Rightarrow> bool" where
  "calm m \<longleftrightarrow> curr_opcode_idx m < num_msg_opcode m \<and> num_msg_opcode m \<le> 3 \<and> length (opcode_list m) = 3
     \<and> (\<forall>v \<in> set (opcode_list m). \<not> apm_is_sg_state_changing_msg_opcode v)"

lemma cfg_populate:
  assumes "cfg_cmd s" "op_idx (cfg_seq s) = APM_SET_GET_CFG_CMD_OP_SEND_CONT_MSG"
  shows "\<exists>m. apm_populate_cont_cmd_seq u s = Some (AR_EOK, upd_ctrl (upd_msg (\<lambda>_. m)) s) \<and> calm m \<and> curr_opcode_idx m = 0"
proof -
  let ?s = "upd_ctrl (upd_msg (\<lambda>m. \<lparr>num_msg_opcode = 1, opcode_list = replicate (length (opcode_list m)) 0, curr_opcode_idx = 0\<rparr>)) s"
  have st: "start_msg (cont_msg_opcode (cmd_ctrl ?s))" using assms(1) by (simp add: start_msg_def numeral_eq_Suc cfg_cmd_def Let_def)
  have one: "\<exists>m. set_first ?s v = Some (AR_EOK, upd_ctrl (upd_msg (\<lambda>_. m)) s) \<and> calm m \<and> curr_opcode_idx m = 0"
    if "\<not> apm_is_sg_state_changing_msg_opcode v" for v
    using put_first_start [OF st, of v] st that
    by (intro exI [of _ "\<lparr>num_msg_opcode = 1, opcode_list = [v, 0, 0], curr_opcode_idx = 0\<rparr>"])
      (simp add: set_first_def with_msg_def calm_def start_msg_def apm_is_sg_state_changing_msg_opcode_def)
  have two: "\<exists>m. with_msg ?s (do {
      (m, _) \<leftarrow> put_opcodes ((cont_msg_opcode (cmd_ctrl ?s))\<lparr>num_msg_opcode := 2\<rparr>) 0 [SPF_MSG_CMD_SET_CFG, SPF_MSG_CMD_SET_CFG];
      Some (AR_EOK, m) }) = Some (AR_EOK, upd_ctrl (upd_msg (\<lambda>_. m)) s) \<and> calm m \<and> curr_opcode_idx m = 0"
    using st by (intro exI [of _ "\<lparr>num_msg_opcode = 2, opcode_list = [SPF_MSG_CMD_SET_CFG, SPF_MSG_CMD_SET_CFG, 0], curr_opcode_idx = 0\<rparr>"])
      (simp add: with_msg_def calm_def start_msg_def apm_is_sg_state_changing_msg_opcode_def)
  have keep: "\<exists>m. Some (AR_EOK, ?s) = Some (AR_EOK, upd_ctrl (upd_msg (\<lambda>_. m)) s) \<and> calm m \<and> curr_opcode_idx m = 0"
    using st by (intro exI [of _ "cont_msg_opcode (cmd_ctrl ?s)"]) (auto simp: calm_def start_msg_def apm_is_sg_state_changing_msg_opcode_def seq_defs)
  have "cmd_opcode (cmd_ctrl s) \<in> cfg_opcodes" using assms(1) by (simp add: cfg_cmd_def Let_def)
  moreover have "op_idx (op_of (cmd_ctrl ?s) Set_Get_Cfg_Cmd_Seq) = 0" using assms(2) by simp
  ultimately show ?thesis
    unfolding apm_populate_cont_cmd_seq_def apm_populate_spf_set_cfg_cmd_seq_def Let_def cfg_opcodes_def
    using one two keep by (elim insertE emptyE) (simp_all add: apm_is_sg_state_changing_msg_opcode_def)
qed

definition cmn_inv :: "apm_utils \<Rightarrow> apm \<Rightarrow> bool" where
  "cmn_inv u s \<longleftrightarrow> quiet (send_msg_to_containers u) \<and> quiet (clear_pending_cont_list u)
     \<and> (curr_seq_idx (cfg_seq s) \<in> {APM_CMD_SEQ_IDX_INVALID, APM_SEQ_SET_UP_CONT_MSG_SEQ}
        \<or> curr_seq_idx (cfg_seq s) \<in> {APM_SEQ_SEND_MSG_TO_CONTAINERS, APM_SEQ_CONT_SEND_MSG_COMPLETED} \<and> calm (cont_msg_opcode (cmd_ctrl s)))"

definition msgs_left :: "apm_cont_msg_opcode \<Rightarrow> nat" where
  "msgs_left m = unat (num_msg_opcode m) - unat (curr_opcode_idx m)"

definition cmn_rank :: "apm \<Rightarrow> nat" where
  "cmn_rank s =
    (if curr_seq_idx (cfg_seq s) = APM_SEQ_SEND_MSG_TO_CONTAINERS then 2 * msgs_left (cont_msg_opcode (cmd_ctrl s)) + 1
     else if curr_seq_idx (cfg_seq s) = APM_SEQ_CONT_SEND_MSG_COMPLETED then 2 * msgs_left (cont_msg_opcode (cmd_ctrl s))
     else 10)"

lemma upd_op_simps [simp]:
  "op_of (upd_op r f c) r' = (if r' = r then f (op_of c r) else op_of c r')" "cont_msg_opcode (upd_op r f c) = cont_msg_opcode c"
  "cmd_opcode (upd_op r f c) = cmd_opcode c" "is_close_all_needed (upd_op r f c) = is_close_all_needed c"
  "pri_op_seq_ptr (cmd_seq (upd_op r f c)) = pri_op_seq_ptr (cmd_seq c)" "curr_op_seq_ptr (cmd_seq (upd_op r f c)) = curr_op_seq_ptr (cmd_seq c)"
  "cmd_seq_entry_fptr (cmd_seq (upd_op r f c)) = cmd_seq_entry_fptr (cmd_seq c)" "cmd_rsp_pending (upd_op r f c) = cmd_rsp_pending c"
  "cmd_status (upd_op r f c) = cmd_status c"
  by (simp_all add: seq_defs)

lemma cfg_cmd_upd_op [simp]: "cfg_cmd (upd_ctrl (upd_op r f) s) = cfg_cmd s"
    "cfg_cmd (upd_ctrl (\<lambda>c. upd_op r f (upd_op r' f' c)) s) = cfg_cmd s"
  by (simp_all add: cfg_cmd_def Let_def)

lemma set_seq_idx_simps [simp]:
  "cfg_cmd (set_seq_idx r i s) = cfg_cmd s" "cmd_ctrl (set_seq_idx r i s) = upd_op r (\<lambda>q. q\<lparr>curr_seq_idx := i\<rparr>) (cmd_ctrl s)"
  by (simp_all add: set_seq_idx_def)

lemma cfg_cmd_curr: "cfg_cmd s \<Longrightarrow> curr_op_seq_ptr (cmd_seq (cmd_ctrl s)) = Some Set_Get_Cfg_Cmd_Seq"
  by (simp add: cfg_cmd_def Let_def)

lemma cfg_cmd_upd_msg:
  "cfg_cmd s \<Longrightarrow> length (opcode_list m) = 3 \<Longrightarrow> cfg_cmd (upd_ctrl (upd_msg (\<lambda>_. m)) s)"
  by (simp add: cfg_cmd_def Let_def) (simp add: upd_msg_def)

text \<open>One message is done.\<close>

lemma one_iter:
  assumes "cfg_cmd s" "calm (cont_msg_opcode (cmd_ctrl s))"
  shows "\<exists>s'. apm_cont_msg_one_iter_completed s = Some s' \<and> cfg_cmd s' \<and> op_of (cmd_ctrl s') = op_of (cmd_ctrl s)
    \<and> cont_msg_opcode (cmd_ctrl s') = (cont_msg_opcode (cmd_ctrl s))\<lparr>curr_opcode_idx := curr_opcode_idx (cont_msg_opcode (cmd_ctrl s)) + 1\<rparr>"
proof -
  let ?m = "cont_msg_opcode (cmd_ctrl s)"
  have "unat (curr_opcode_idx ?m) < unat (num_msg_opcode ?m)" "unat (num_msg_opcode ?m) \<le> unat (3 :: u32)"
    using assms(2) by (simp_all add: calm_def word_less_nat_alt word_le_nat_alt)
  then have i: "unat (curr_opcode_idx ?m) < length (opcode_list ?m)" using assms(2) by (simp add: calm_def)
  then have "\<not> apm_is_sg_state_changing_msg_opcode (opcode_list ?m ! unat (curr_opcode_idx ?m))" using assms(2) by (auto simp: calm_def)
  then show ?thesis using i assms(1)
    by (simp add: apm_cont_msg_one_iter_completed_def apm_get_curr_cont_msg_opcode_def mem_simps)
      (simp add: cfg_cmd_def Let_def seq_defs fun_eq_iff)
qed

lemma calm_next:
  assumes "calm m" "curr_opcode_idx m + 1 \<noteq> num_msg_opcode m"
  shows "calm (m\<lparr>curr_opcode_idx := curr_opcode_idx m + 1\<rparr>)" "Suc (msgs_left (m\<lparr>curr_opcode_idx := curr_opcode_idx m + 1\<rparr>)) = msgs_left m"
proof -
  have lt: "curr_opcode_idx m < num_msg_opcode m" "num_msg_opcode m \<le> 3" using assms(1) by (simp_all add: calm_def)
  then have n: "unat (curr_opcode_idx m) < unat (num_msg_opcode m)" "unat (num_msg_opcode m) \<le> 3" unfolding word_less_nat_alt word_le_nat_alt by simp_all
  then have u: "unat (curr_opcode_idx m + 1) = Suc (unat (curr_opcode_idx m))" by (simp add: unat_word_ariths)
  moreover have "Suc (unat (curr_opcode_idx m)) \<noteq> unat (num_msg_opcode m)" using assms(2) u by (metis word_unat_eq_iff)
  ultimately show "calm (m\<lparr>curr_opcode_idx := curr_opcode_idx m + 1\<rparr>)" using assms(1) n by (simp add: calm_def word_less_nat_alt)
  show "Suc (msgs_left (m\<lparr>curr_opcode_idx := curr_opcode_idx m + 1\<rparr>)) = msgs_left m" using u n by (simp add: msgs_left_def)
qed

lemma calm_left: "calm m \<Longrightarrow> msgs_left m \<le> 3"
  unfolding calm_def msgs_left_def word_le_nat_alt by (simp add: le_diff_conv)

text \<open>The three stages.\<close>

lemma cmn_set_up:
  assumes "cfg_cmd s" "op_idx (cfg_seq s) = APM_SET_GET_CFG_CMD_OP_SEND_CONT_MSG" "cmn_inv u s"
    and "curr_seq_idx (cfg_seq s) \<in> {APM_CMD_SEQ_IDX_INVALID, APM_SEQ_SET_UP_CONT_MSG_SEQ}"
  shows "\<exists>s'. apm_cmd_cmn_sequencer u s = Some (AR_EOK, s') \<and> cfg_cmd s' \<and> op_idx (cfg_seq s') = op_idx (cfg_seq s) \<and> cmn_inv u s' \<and> cmn_rank s' < cmn_rank s"
proof -
  let ?s = "upd_ctrl (upd_op Set_Get_Cfg_Cmd_Seq (apm_init_next_cmd_op_seq_idx APM_SEQ_SET_UP_CONT_MSG_SEQ)) s"
  have c: "cfg_cmd ?s" "op_idx (cfg_seq ?s) = APM_SET_GET_CFG_CMD_OP_SEND_CONT_MSG" "curr_seq_idx (cfg_seq ?s) = APM_SEQ_SET_UP_CONT_MSG_SEQ"
    using assms by (auto simp: apm_init_next_cmd_op_seq_idx_def)
  obtain m where m: "apm_populate_cont_cmd_seq u ?s = Some (AR_EOK, upd_ctrl (upd_msg (\<lambda>_. m)) ?s)" "calm m" "curr_opcode_idx m = 0"
    using cfg_populate [OF c(1,2)] by blast
  let ?t = "set_seq_idx Set_Get_Cfg_Cmd_Seq APM_SEQ_SEND_MSG_TO_CONTAINERS (upd_ctrl (upd_msg (\<lambda>_. m)) ?s)"
  have run: "apm_cmd_cmn_sequencer u s = Some (AR_EOK, ?t)"
    using m(1) c(3) cfg_cmd_curr [OF assms(1)] by (simp add: apm_cmd_cmn_sequencer_def Let_def)
  have "cfg_cmd ?t" using cfg_cmd_upd_msg [OF c(1), of m] m(2) by (simp add: calm_def)
  moreover have "op_idx (cfg_seq ?t) = op_idx (cfg_seq s)" using assms(2) c(2) by simp
  moreover have "cmn_inv u ?t" using assms(3) m(2) by (simp add: cmn_inv_def)
  moreover have "cmn_rank ?t < cmn_rank s" using assms(4) calm_left [OF m(2)] by (auto simp: cmn_rank_def)
  ultimately show ?thesis using run by blast
qed

lemma cmn_send:
  assumes "cfg_cmd s" "cmn_inv u s" "curr_seq_idx (cfg_seq s) = APM_SEQ_SEND_MSG_TO_CONTAINERS"
  shows "\<exists>rc s'. apm_cmd_cmn_sequencer u s = Some (rc, s') \<and> cfg_cmd s' \<and> op_idx (cfg_seq s') = op_idx (cfg_seq s) \<and> cmn_inv u s' \<and> cmn_rank s' < cmn_rank s"
proof -
  have s: "upd_ctrl (upd_op Set_Get_Cfg_Cmd_Seq (apm_init_next_cmd_op_seq_idx i)) s = s" for i
    using assms(3) by (simp add: apm_init_next_cmd_op_seq_idx_def seq_defs)
  have q: "quiet (send_msg_to_containers u)" "calm (cont_msg_opcode (cmd_ctrl s))" using assms(2,3) by (auto simp: cmn_inv_def)
  obtain rc s1 where s1: "send_msg_to_containers u s = Some (rc, s1)" "cfg_cmd s1" "cont_msg_opcode (cmd_ctrl s1) = cont_msg_opcode (cmd_ctrl s)"
    "op_idx (cfg_seq s1) = op_idx (cfg_seq s)" using quietD [OF q(1) assms(1)] by metis
  let ?t = "set_seq_idx Set_Get_Cfg_Cmd_Seq APM_SEQ_CONT_SEND_MSG_COMPLETED s1"
  have run: "apm_cmd_cmn_sequencer u s = Some (rc, ?t)"
    using s1(1) assms(3) cfg_cmd_curr [OF assms(1)] by (simp add: apm_cmd_cmn_sequencer_def Let_def s apm_init_next_cmd_op_seq_idx_def)
  have "cfg_cmd ?t" "op_idx (cfg_seq ?t) = op_idx (cfg_seq s)" using s1 by simp_all
  moreover have "cmn_inv u ?t" using assms(2) q(2) s1(3) by (simp add: cmn_inv_def)
  moreover have "cmn_rank ?t < cmn_rank s" using assms(3) s1(3) by (simp add: cmn_rank_def)
  ultimately show ?thesis using run by blast
qed

lemma cmn_completed:
  assumes "cfg_cmd s" "cmn_inv u s" "curr_seq_idx (cfg_seq s) = APM_SEQ_CONT_SEND_MSG_COMPLETED"
  shows "\<exists>rc s'. apm_cmd_cmn_sequencer u s = Some (rc, s') \<and> cfg_cmd s' \<and> op_idx (cfg_seq s') = op_idx (cfg_seq s)
    \<and> (rc = AR_EOK \<longrightarrow> curr_cmd_op_pending (cfg_seq s') \<longrightarrow> cmn_inv u s' \<and> cmn_rank s' < cmn_rank s)"
proof -
  let ?m = "cont_msg_opcode (cmd_ctrl s)"
  have s: "upd_ctrl (upd_op Set_Get_Cfg_Cmd_Seq (apm_init_next_cmd_op_seq_idx i)) s = s" for i
    using assms(3) by (simp add: apm_init_next_cmd_op_seq_idx_def seq_defs)
  have q: "quiet (clear_pending_cont_list u)" "calm ?m" using assms(2,3) by (auto simp: cmn_inv_def)
  obtain s1 where s1: "apm_cont_msg_one_iter_completed s = Some s1" "cfg_cmd s1" "op_of (cmd_ctrl s1) = op_of (cmd_ctrl s)"
    "cont_msg_opcode (cmd_ctrl s1) = ?m\<lparr>curr_opcode_idx := curr_opcode_idx ?m + 1\<rparr>" using one_iter [OF assms(1) q(2)] by blast
  have cur: "curr_op_seq_ptr (cmd_seq (cmd_ctrl s)) = Some Set_Get_Cfg_Cmd_Seq" "curr_op_seq_ptr (cmd_seq (cmd_ctrl s1)) = Some Set_Get_Cfg_Cmd_Seq"
    using cfg_cmd_curr assms(1) s1(2) by auto
  show ?thesis
  proof (cases "apm_check_cont_msg_seq_done (cmd_ctrl s1) \<or> op_status (cfg_seq s1) \<noteq> AR_EOK")
    case True
    obtain rc s2 where s2: "(if pending_cont_list_ptr (cmd_ctrl s1) \<noteq> None then clear_pending_cont_list u s1 else Some (AR_EOK, s1)) = Some (rc, s2)"
      "cfg_cmd s2" "op_idx (cfg_seq s2) = op_idx (cfg_seq s1)"
    proof (cases "pending_cont_list_ptr (cmd_ctrl s1) = None")
      case True
      then show thesis using that [of AR_EOK s1] s1(2) by simp
    next
      case False
      then show thesis using quietD [OF q(1) s1(2)] that by (metis (no_types, lifting))
    qed
    have "apm_check_curr_cmd_op_is_pending u s = Some (False, s2)"
      using True s1(1) s2(1) cur(2) by (simp add: apm_check_curr_cmd_op_is_pending_def)
    then have "apm_cmd_cmn_sequencer u s
        = Some (op_status (cfg_seq s2), upd_ctrl (upd_op Set_Get_Cfg_Cmd_Seq apm_clear_curr_cmd_op_pending_status) s2)"
      using assms(3) cur(1) cfg_cmd_curr [OF s2(2)] by (simp add: apm_cmd_cmn_sequencer_def Let_def s apm_init_next_cmd_op_seq_idx_def)
    then show ?thesis using s2(2,3) s1(3) by (simp add: apm_clear_curr_cmd_op_pending_status_def)
  next
    case False
    let ?t = "set_seq_idx Set_Get_Cfg_Cmd_Seq APM_SEQ_SEND_MSG_TO_CONTAINERS s1"
    have ne: "curr_opcode_idx ?m + 1 \<noteq> num_msg_opcode ?m" using False s1(4) by (auto simp: apm_check_cont_msg_seq_done_def)
    have "apm_check_curr_cmd_op_is_pending u s = Some (True, s1)" using False s1(1) cur(2) by (simp add: apm_check_curr_cmd_op_is_pending_def)
    then have "apm_cmd_cmn_sequencer u s = Some (AR_EOK, ?t)" using assms(3) cur(1) by (simp add: apm_cmd_cmn_sequencer_def Let_def s apm_init_next_cmd_op_seq_idx_def)
    moreover have "cmn_inv u ?t" using assms(2) calm_next(1) [OF q(2) ne] s1(4) by (simp add: cmn_inv_def)
    moreover have "cmn_rank ?t < cmn_rank s" using assms(3) calm_next(2) [OF q(2) ne] s1(4) by (simp add: cmn_rank_def)
    ultimately show ?thesis using s1(2,3) by simp
  qed
qed

interpretation cont_msgs: op_handler "quiet (send_msg_to_containers u) \<and> quiet (clear_pending_cont_list u)"
    APM_SET_GET_CFG_CMD_OP_SEND_CONT_MSG "apm_cmd_cmn_sequencer u" "cmn_inv u" cmn_rank for u
proof
  fix s assume c: "cfg_cmd s" "op_idx (cfg_seq s) = APM_SET_GET_CFG_CMD_OP_SEND_CONT_MSG"
  show "cmn_inv u s" if "quiet (send_msg_to_containers u) \<and> quiet (clear_pending_cont_list u)" "fresh_op s"
    using that by (simp add: cmn_inv_def fresh_op_def)
  assume i: "cmn_inv u s"
  then consider "curr_seq_idx (cfg_seq s) \<in> {APM_CMD_SEQ_IDX_INVALID, APM_SEQ_SET_UP_CONT_MSG_SEQ}"
    | "curr_seq_idx (cfg_seq s) = APM_SEQ_SEND_MSG_TO_CONTAINERS" | "curr_seq_idx (cfg_seq s) = APM_SEQ_CONT_SEND_MSG_COMPLETED"
    by (auto simp: cmn_inv_def)
  then show "\<exists>rc s'. apm_cmd_cmn_sequencer u s = Some (rc, s') \<and> cfg_cmd s' \<and> op_idx (cfg_seq s') = APM_SET_GET_CFG_CMD_OP_SEND_CONT_MSG
      \<and> (rc = AR_EOK \<longrightarrow> curr_cmd_op_pending (cfg_seq s') \<longrightarrow> cmn_inv u s' \<and> cmn_rank s' < cmn_rank s)"
    using cmn_set_up [OF c i] cmn_send [OF c(1) i] cmn_completed [OF c(1) i] c(2) by cases metis+
qed

subsection \<open>Messages to proxy managers\<close>

definition proxy_inv :: "apm \<Rightarrow> bool" where
  "proxy_inv s \<longleftrightarrow> curr_seq_idx (cfg_seq s) \<in> {APM_CMD_SEQ_IDX_INVALID, APM_SEQ_SET_UP_PROXY_MGR_MSG_SEQ, APM_SEQ_SEND_CFG_CMD_TO_PROXY_MGR,
     APM_SEQ_SEND_MSG_TO_PROXY_MGR_COMPLETED}"

definition proxy_rank :: "apm \<Rightarrow> nat" where
  "proxy_rank s = (if curr_seq_idx (cfg_seq s) = APM_SEQ_SEND_MSG_TO_PROXY_MGR_COMPLETED then 1
     else if curr_seq_idx (cfg_seq s) = APM_SEQ_SEND_CFG_CMD_TO_PROXY_MGR then 2 else 3)"

lemma proxy_progress:
  assumes "cfg_cmd s" "quiet f" "quiet g" "proxy_inv s"
  shows "\<exists>rc s'. apm_proxy_set_cfg_sequencer f g s = Some (rc, s') \<and> cfg_cmd s' \<and> op_idx (cfg_seq s') = op_idx (cfg_seq s)
    \<and> (rc = AR_EOK \<longrightarrow> curr_cmd_op_pending (cfg_seq s') \<longrightarrow> proxy_inv s' \<and> proxy_rank s' < proxy_rank s)"
proof (cases "active_proxy_mgr_list_ptr (cmd_ctrl s) = None \<and> \<not> curr_cmd_op_pending (cfg_seq s)")
  case True
  then show ?thesis using cfg_cmd_curr [OF assms(1)] assms(1) by (simp add: apm_proxy_set_cfg_sequencer_def)
next
  case False
  let ?s = "upd_ctrl (upd_op Set_Get_Cfg_Cmd_Seq (apm_init_next_cmd_op_seq_idx APM_SEQ_SET_UP_PROXY_MGR_MSG_SEQ)) s"
  have c: "cfg_cmd ?s" "op_idx (cfg_seq ?s) = op_idx (cfg_seq s)" using assms(1) by (simp_all add: apm_init_next_cmd_op_seq_idx_def)
  note run = apm_proxy_set_cfg_sequencer_def [of f g s] cfg_cmd_curr [OF assms(1)]
  consider "curr_seq_idx (cfg_seq ?s) = APM_SEQ_SET_UP_PROXY_MGR_MSG_SEQ" "proxy_rank s = 3"
    | "curr_seq_idx (cfg_seq ?s) = APM_SEQ_SEND_CFG_CMD_TO_PROXY_MGR" "proxy_rank s = 2"
    | "curr_seq_idx (cfg_seq ?s) = APM_SEQ_SEND_MSG_TO_PROXY_MGR_COMPLETED"
    using assms(4) by (auto simp: proxy_inv_def proxy_rank_def apm_init_next_cmd_op_seq_idx_def)
  then show ?thesis
  proof cases
    case 1
    obtain rc s1 where s1: "f ?s = Some (rc, s1)" "cfg_cmd s1" "op_idx (cfg_seq s1) = op_idx (cfg_seq ?s)" using quietD [OF assms(2) c(1)] by metis
    then have "apm_proxy_set_cfg_sequencer f g s
        = Some (rc, if rc = AR_EOK then set_seq_idx Set_Get_Cfg_Cmd_Seq APM_SEQ_SEND_CFG_CMD_TO_PROXY_MGR s1 else s1)"
      using run False 1(1) by (auto simp: Let_def)
    then show ?thesis using s1(2,3) c(2) 1(2) by (auto simp: proxy_inv_def proxy_rank_def)
  next
    case 2
    obtain rc s1 where s1: "g ?s = Some (rc, s1)" "cfg_cmd s1" "op_idx (cfg_seq s1) = op_idx (cfg_seq ?s)" using quietD [OF assms(3) c(1)] by metis
    then have "apm_proxy_set_cfg_sequencer f g s
        = Some (rc, if \<not> cmd_rsp_pending (cmd_ctrl s1) then upd_ctrl (upd_op Set_Get_Cfg_Cmd_Seq apm_clear_curr_cmd_op_pending_status) s1
                    else set_seq_idx Set_Get_Cfg_Cmd_Seq APM_SEQ_SEND_MSG_TO_PROXY_MGR_COMPLETED s1)"
      using run False 2(1) by (auto simp: Let_def)
    then show ?thesis using s1(2,3) c(2) 2(2) by (auto simp: proxy_inv_def proxy_rank_def apm_clear_curr_cmd_op_pending_status_def)
  next
    case 3
    then have "apm_proxy_set_cfg_sequencer f g s = Some (op_status (cfg_seq ?s), upd_ctrl (upd_op Set_Get_Cfg_Cmd_Seq apm_clear_curr_cmd_op_pending_status) ?s)"
      using run False by (auto simp: Let_def)
    then show ?thesis using c by (auto simp: apm_clear_curr_cmd_op_pending_status_def)
  qed
qed

interpretation proxy_msgs: op_handler "quiet f \<and> quiet g" APM_SET_GET_CFG_CMD_OP_SEND_PROXY_MGR_MSG "apm_proxy_set_cfg_sequencer f g"
    "\<lambda>s. quiet f \<and> quiet g \<and> proxy_inv s" proxy_rank for f g
proof
  fix s assume c: "cfg_cmd s" "op_idx (cfg_seq s) = APM_SET_GET_CFG_CMD_OP_SEND_PROXY_MGR_MSG"
  show "quiet f \<and> quiet g \<and> proxy_inv s" if "quiet f \<and> quiet g" "fresh_op s" using that by (simp add: proxy_inv_def fresh_op_def)
  assume "quiet f \<and> quiet g \<and> proxy_inv s"
  then show "\<exists>rc s'. apm_proxy_set_cfg_sequencer f g s = Some (rc, s') \<and> cfg_cmd s' \<and> op_idx (cfg_seq s') = APM_SET_GET_CFG_CMD_OP_SEND_PROXY_MGR_MSG
      \<and> (rc = AR_EOK \<longrightarrow> curr_cmd_op_pending (cfg_seq s') \<longrightarrow> (quiet f \<and> quiet g \<and> proxy_inv s') \<and> proxy_rank s' < proxy_rank s)"
    using proxy_progress [OF c(1), of f g] c(2) by metis
qed

text \<open>Operations with nothing to do.\<close>

definition idle :: apm_step where
  "idle s = Some (AR_EOK, s)"

interpretation idle_op: op_handler True op idle "\<lambda>s. \<not> curr_cmd_op_pending (cfg_seq s)" "\<lambda>_. 0" for op
  by unfold_locales (auto simp: idle_def fresh_op_def)

text \<open>A function that keeps out of the sequencing is an operation that is done in one call.\<close>

interpretation quiet_op: op_handler "quiet h" op h "\<lambda>s. quiet h \<and> \<not> curr_cmd_op_pending (cfg_seq s)" "\<lambda>_. 0" for h op
proof
  fix s assume c: "cfg_cmd s" "op_idx (cfg_seq s) = op"
  show "quiet h \<and> \<not> curr_cmd_op_pending (cfg_seq s)" if "quiet h" "fresh_op s" using that by (simp add: fresh_op_def)
  assume "quiet h \<and> \<not> curr_cmd_op_pending (cfg_seq s)"
  then show "\<exists>rc s'. h s = Some (rc, s') \<and> cfg_cmd s' \<and> op_idx (cfg_seq s') = op
      \<and> (rc = AR_EOK \<longrightarrow> curr_cmd_op_pending (cfg_seq s') \<longrightarrow> (quiet h \<and> \<not> curr_cmd_op_pending (cfg_seq s')) \<and> (0 :: nat) < 0)"
    using quietD [of h s] c by metis
qed

interpretation proxy_stub: op_handler True APM_SET_GET_CFG_CMD_OP_SEND_PROXY_MGR_MSG apm_proxy_set_cfg_sequencer_stub
    "\<lambda>s. \<not> curr_cmd_op_pending (cfg_seq s)" "\<lambda>_. 0"
  by unfold_locales (auto simp: apm_proxy_set_cfg_sequencer_stub_def fresh_op_def)

subsection \<open>The loop\<close>

text \<open>How the sequencer may return: a response is awaited in a state that it can go on from, or the command was ended.\<close>

definition ended :: "apm_utils \<Rightarrow> op_seq_ref \<Rightarrow> u32 \<Rightarrow> apm \<Rightarrow> bool" where
  "ended u r rc s' \<longleftrightarrow> (\<exists>s. op_idx (op_of (cmd_ctrl s) r) = APM_CMN_CMD_OP_COMPLETED \<and> \<not> cmd_pending (cmd_ctrl s) \<and> end_cmd u s = Some (rc, s'))"

definition comes_back :: "apm_utils \<Rightarrow> (apm \<Rightarrow> bool) \<Rightarrow> u32 \<Rightarrow> apm \<Rightarrow> bool" where
  "comes_back u waits r s \<longleftrightarrow> (\<exists>rc s'. entry_loop u r s = Some (rc, s')
     \<and> (cmd_rsp_pending (cmd_ctrl s') \<and> waits s' \<or> ended u Set_Get_Cfg_Cmd_Seq rc s'))"

lemma comes_back_wait: "cmd_rsp_pending (cmd_ctrl s) \<Longrightarrow> waits s \<Longrightarrow> comes_back u waits r s"
  unfolding comes_back_def by (subst entry_loop.simps) simp

lemma cfg_parts: "cfg_cmd s \<Longrightarrow> pri_op_seq_ptr (cmd_seq (cmd_ctrl s)) = Some Set_Get_Cfg_Cmd_Seq"
  "cfg_cmd s \<Longrightarrow> cmd_seq_entry_fptr (cmd_seq (cmd_ctrl s)) = Some Set_Get_Cfg_Sequencer"
  by (simp_all add: cfg_cmd_def Let_def)

lemma cfg_cmd_status [simp]: "cfg_cmd (upd_ctrl (\<lambda>c. c\<lparr>cmd_status := x c\<rparr>) s) = cfg_cmd s"
  by (simp add: cfg_cmd_def Let_def)

lemma status_op [simp]: "op_of (c\<lparr>cmd_status := x\<rparr>) = op_of c" "cmd_seq (c\<lparr>cmd_status := x\<rparr>) = cmd_seq c"
  by (simp_all add: op_of_def fun_eq_iff)

text \<open>One round of the loop.\<close>

lemma round_ok:
  assumes "\<not> cmd_rsp_pending (cmd_ctrl s)" "run_entry u s = Some (AR_EOK, s1)" "cfg_cmd s1" "op_idx (cfg_seq s1) \<noteq> APM_CMN_CMD_OP_COMPLETED"
  shows "entry_loop u r s = entry_loop u AR_EOK (upd_ctrl (upd_op Set_Get_Cfg_Cmd_Seq apm_incr_cmd_op_idx) s1)"
  using assms cfg_parts(1) [OF assms(3)] cfg_cmd_curr [OF assms(3)] by (subst entry_loop.simps) (simp add: Let_def)

lemma round_failed:
  assumes "\<not> cmd_rsp_pending (cmd_ctrl s)" "run_entry u s = Some (rc, s1)" "rc \<noteq> AR_EOK" "pri_op_seq_ptr (cmd_seq (cmd_ctrl s1)) = Some p"
    and "op_idx (op_of (cmd_ctrl s1) p) \<noteq> APM_CMN_CMD_OP_COMPLETED" "op_idx (op_of (cmd_ctrl s1) p) \<noteq> APM_CMN_CMD_OP_HANDLE_FAILURE"
  shows "entry_loop u r s = entry_loop u rc (upd_ctrl (upd_op p (\<lambda>q. apm_clear_curr_cmd_op_pending_status (q\<lparr>op_idx := APM_CMN_CMD_OP_HANDLE_FAILURE\<rparr>)))
    (upd_ctrl (\<lambda>c. c\<lparr>cmd_status := cmd_status c OR rc\<rparr>) s1))"
  using assms by (subst entry_loop.simps) (simp add: Let_def)

lemma round_ended:
  assumes "\<not> cmd_rsp_pending (cmd_ctrl s)" "run_entry u s = Some (AR_EOK, s1)" "pri_op_seq_ptr (cmd_seq (cmd_ctrl s1)) = Some p"
    "op_idx (op_of (cmd_ctrl s1) p) = APM_CMN_CMD_OP_COMPLETED"
  shows "entry_loop u r s = end_cmd u (upd_ctrl (\<lambda>c. c\<lparr>cmd_pending := False\<rparr>) s1)"
  using assms by (subst entry_loop.simps) (simp add: Let_def)

lemma upd_curr_same: "cfg_cmd s \<Longrightarrow> upd_ctrl (upd_seq (\<lambda>q. q\<lparr>curr_op_seq_ptr := Some Set_Get_Cfg_Cmd_Seq\<rparr>)) s = s"
  by (simp add: cfg_cmd_def Let_def seq_defs)

lemma run_cfg: "cfg_cmd s \<Longrightarrow> run_entry u s = apm_cmd_set_get_cfg_sequencer u s"
  by (simp add: run_entry_def cfg_parts)

text \<open>The last operation, the handling of a failure and unknown operations complete the command.\<close>

lemma completes:
  assumes "cfg_cmd s" "op_idx (cfg_seq s) \<notin> {APM_SET_GET_CFG_CMD_OP_SEND_CONT_MSG, APM_SET_GET_CFG_CMD_OP_SEND_PROXY_MGR_MSG,
    APM_SET_GET_CFG_CMD_OP_HDL_DBG_INFO, APM_SET_GET_CFG_CMD_OP_CLOSE_ALL}"
  shows "\<exists>s1. run_entry u s = Some (AR_EOK, s1) \<and> pri_op_seq_ptr (cmd_seq (cmd_ctrl s1)) = Some Set_Get_Cfg_Cmd_Seq
    \<and> op_idx (cfg_seq s1) = APM_CMN_CMD_OP_COMPLETED"
proof (cases "op_idx (cfg_seq s) \<in> {APM_CMN_CMD_OP_HANDLE_FAILURE, APM_SET_GET_CFG_CMD_OP_COMPLETED}")
  case True
  then show ?thesis using assms cfg_parts(1) [OF assms(1)]
    by (auto simp: run_cfg apm_cmd_set_get_cfg_sequencer_def Let_def upd_curr_same apm_end_cmd_op_sequencer_def seq_defs)
next
  case False
  then show ?thesis using assms cfg_parts(1) [OF assms(1)]
    by (simp add: run_cfg apm_cmd_set_get_cfg_sequencer_def Let_def upd_curr_same abort_step_def apm_abort_cmd_op_sequencer_def)
qed

lemma comes_back_completes:
  assumes "\<And>s. \<exists>rc s'. end_cmd u s = Some (rc, s')" "cfg_cmd s"
    and "op_idx (cfg_seq s) \<notin> {APM_SET_GET_CFG_CMD_OP_SEND_CONT_MSG, APM_SET_GET_CFG_CMD_OP_SEND_PROXY_MGR_MSG,
      APM_SET_GET_CFG_CMD_OP_HDL_DBG_INFO, APM_SET_GET_CFG_CMD_OP_CLOSE_ALL}" "waits s"
  shows "comes_back u waits r s"
proof (cases "cmd_rsp_pending (cmd_ctrl s)")
  case False
  obtain s1 where s1: "run_entry u s = Some (AR_EOK, s1)" "pri_op_seq_ptr (cmd_seq (cmd_ctrl s1)) = Some Set_Get_Cfg_Cmd_Seq"
    "op_idx (cfg_seq s1) = APM_CMN_CMD_OP_COMPLETED" using completes [OF assms(2,3)] by blast
  let ?s = "upd_ctrl (\<lambda>c. c\<lparr>cmd_pending := False\<rparr>) s1"
  obtain rc s' where e: "end_cmd u ?s = Some (rc, s')" using assms(1) by blast
  then have "ended u Set_Get_Cfg_Cmd_Seq rc s'" unfolding ended_def using s1(3) by (intro exI [of _ ?s]) (simp add: op_of_def)
  then show ?thesis unfolding comes_back_def round_ended [OF False s1] using e by blast
qed (use assms(4) comes_back_wait in blast)

text \<open>A handler takes the loop to a response, to the end of the command or to the next operation.\<close>

context op_handler
begin

lemma comes_back_op:
  assumes runs: "\<And>s. cfg_cmd s \<Longrightarrow> op_idx (cfg_seq s) = op \<Longrightarrow> run_entry u s = step s"
    and op: "op \<noteq> APM_CMN_CMD_OP_COMPLETED" "op \<noteq> APM_CMN_CMD_OP_HANDLE_FAILURE"
    and waits: "\<And>s. cfg_cmd s \<Longrightarrow> op_idx (cfg_seq s) = op \<Longrightarrow> inv s \<Longrightarrow> waits s"
    and next_op: "\<And>r s. cfg_cmd s \<Longrightarrow> op_idx (cfg_seq s) = op + 1 \<Longrightarrow> fresh_op s \<Longrightarrow> comes_back u waits r s"
    and failed: "\<And>r s. cfg_cmd s \<Longrightarrow> op_idx (cfg_seq s) = APM_CMN_CMD_OP_HANDLE_FAILURE \<Longrightarrow> comes_back u waits r s"
  shows "cfg_cmd s \<Longrightarrow> op_idx (cfg_seq s) = op \<Longrightarrow> inv s \<Longrightarrow> comes_back u waits r s"
proof (induction "rank s" arbitrary: s r rule: less_induct)
  case less
  show ?case
  proof (cases "cmd_rsp_pending (cmd_ctrl s)")
    case True
    then show ?thesis using waits [OF less.prems] by (rule comes_back_wait)
  next
    case False
    obtain rc s1 where s1: "step s = Some (rc, s1)" "cfg_cmd s1" "op_idx (cfg_seq s1) = op"
      "rc = AR_EOK \<longrightarrow> curr_cmd_op_pending (cfg_seq s1) \<longrightarrow> inv s1 \<and> rank s1 < rank s"
      using progress [OF less.prems] by blast
    have run: "run_entry u s = Some (rc, s1)" using runs [OF less.prems(1,2)] s1(1) by simp
    show ?thesis
    proof (cases "rc = AR_EOK")
      case ok: True
      let ?s = "upd_ctrl (upd_op Set_Get_Cfg_Cmd_Seq apm_incr_cmd_op_idx) s1"
      have c: "cfg_cmd ?s" using s1(2) by simp
      have "entry_loop u r s = entry_loop u AR_EOK ?s" using round_ok [OF False run [unfolded ok] s1(2)] s1(3) op(1) by simp
      moreover have "comes_back u waits AR_EOK ?s"
      proof (cases "curr_cmd_op_pending (cfg_seq s1)")
        case True
        then have "?s = s1" by (simp add: apm_incr_cmd_op_idx_def seq_defs)
        then show ?thesis using less.hyps [of s1] s1 ok True by simp
      next
        case False
        then show ?thesis using next_op [OF c] s1(3) op(1) by (simp add: apm_incr_cmd_op_idx_def fresh_op_def)
      qed
      ultimately show ?thesis by (simp add: comes_back_def)
    next
      case bad: False
      let ?s = "upd_ctrl (upd_op Set_Get_Cfg_Cmd_Seq (\<lambda>q. apm_clear_curr_cmd_op_pending_status (q\<lparr>op_idx := APM_CMN_CMD_OP_HANDLE_FAILURE\<rparr>)))
        (upd_ctrl (\<lambda>c. c\<lparr>cmd_status := cmd_status c OR rc\<rparr>) s1)"
      have "cfg_cmd ?s" using s1(2) by (simp del: ctrl_simps(8))
      then have "comes_back u waits rc ?s" using failed by (simp add: apm_clear_curr_cmd_op_pending_status_def)
      moreover have "entry_loop u r s = entry_loop u rc ?s"
        by (rule round_failed [OF False run bad cfg_parts(1) [OF s1(2)]]) (use s1(3) op in simp_all)
      ultimately show ?thesis by (simp add: comes_back_def)
    qed
  qed
qed

end

text \<open>Where a configuration command can be when the sequencer is entered.\<close>

definition cfg_state :: "apm_utils \<Rightarrow> (apm \<Rightarrow> bool) \<Rightarrow> (apm \<Rightarrow> bool) \<Rightarrow> apm \<Rightarrow> bool" where
  "cfg_state u I1 I2 s \<longleftrightarrow> cfg_cmd s
     \<and> (op_idx (cfg_seq s) = APM_SET_GET_CFG_CMD_OP_SEND_CONT_MSG \<longrightarrow> cmn_inv u s)
     \<and> (op_idx (cfg_seq s) = APM_SET_GET_CFG_CMD_OP_SEND_PROXY_MGR_MSG \<longrightarrow> I1 s)
     \<and> (op_idx (cfg_seq s) = APM_SET_GET_CFG_CMD_OP_HDL_DBG_INFO \<longrightarrow> I2 s)
     \<and> (op_idx (cfg_seq s) = APM_SET_GET_CFG_CMD_OP_CLOSE_ALL \<longrightarrow> \<not> curr_cmd_op_pending (cfg_seq s))"

lemma run_ops:
  assumes "cfg_cmd s"
  shows "op_idx (cfg_seq s) = APM_SET_GET_CFG_CMD_OP_SEND_CONT_MSG \<Longrightarrow> run_entry u s = apm_cmd_cmn_sequencer u s"
    "op_idx (cfg_seq s) = APM_SET_GET_CFG_CMD_OP_SEND_PROXY_MGR_MSG \<Longrightarrow> run_entry u s = proxy_set_cfg_sequencer u s"
    "op_idx (cfg_seq s) = APM_SET_GET_CFG_CMD_OP_HDL_DBG_INFO \<Longrightarrow> run_entry u s = call_if_there (debug_info_cfg_hdlr u) s"
    "op_idx (cfg_seq s) = APM_SET_GET_CFG_CMD_OP_CLOSE_ALL \<Longrightarrow> run_entry u s = idle s"
  using assms by (simp_all add: run_cfg apm_cmd_set_get_cfg_sequencer_def Let_def upd_curr_same idle_def) (auto simp: cfg_cmd_def Let_def)

text \<open>What a configuration command needs of the functions that the sequencer calls.\<close>

definition cfg_utils :: "apm_utils \<Rightarrow> (apm \<Rightarrow> bool) \<Rightarrow> (apm \<Rightarrow> nat) \<Rightarrow> (apm \<Rightarrow> bool) \<Rightarrow> (apm \<Rightarrow> nat) \<Rightarrow> bool" where
  "cfg_utils u I1 R1 I2 R2 \<longleftrightarrow> quiet (send_msg_to_containers u) \<and> quiet (clear_pending_cont_list u)
     \<and> op_handler True APM_SET_GET_CFG_CMD_OP_SEND_PROXY_MGR_MSG (proxy_set_cfg_sequencer u) I1 R1
     \<and> op_handler True APM_SET_GET_CFG_CMD_OP_HDL_DBG_INFO (call_if_there (debug_info_cfg_hdlr u)) I2 R2
     \<and> (\<forall>s. \<exists>rc s'. end_cmd u s = Some (rc, s'))"

lemma cfg_comes_back:
  assumes u: "cfg_utils u I1 R1 I2 R2" and s: "cfg_state u I1 I2 s"
  shows "comes_back u (cfg_state u I1 I2) r s"
proof -
  let ?W = "cfg_state u I1 I2"
  have q: "quiet (send_msg_to_containers u) \<and> quiet (clear_pending_cont_list u)" using u by (simp add: cfg_utils_def)
  have h1: "op_handler True APM_SET_GET_CFG_CMD_OP_SEND_PROXY_MGR_MSG (proxy_set_cfg_sequencer u) I1 R1"
    and h2: "op_handler True APM_SET_GET_CFG_CMD_OP_HDL_DBG_INFO (call_if_there (debug_info_cfg_hdlr u)) I2 R2"
    and e: "\<And>s. \<exists>rc s'. end_cmd u s = Some (rc, s')" using u by (simp_all add: cfg_utils_def)
  have rest: "comes_back u ?W r s" if "cfg_cmd s" "op_idx (cfg_seq s) \<notin> {APM_SET_GET_CFG_CMD_OP_SEND_CONT_MSG,
      APM_SET_GET_CFG_CMD_OP_SEND_PROXY_MGR_MSG, APM_SET_GET_CFG_CMD_OP_HDL_DBG_INFO, APM_SET_GET_CFG_CMD_OP_CLOSE_ALL}" for r s
    by (rule comes_back_completes [OF e that]) (use that in \<open>simp add: cfg_state_def\<close>)
  have op3: "comes_back u ?W r s" if "cfg_cmd s" "op_idx (cfg_seq s) = APM_SET_GET_CFG_CMD_OP_CLOSE_ALL" "\<not> curr_cmd_op_pending (cfg_seq s)" for r s
    by (rule idle_op.comes_back_op [OF _ _ _ _ _ _ that]) (auto simp: run_ops cfg_state_def intro: rest)
  have op2: "comes_back u ?W r s" if "cfg_cmd s" "op_idx (cfg_seq s) = APM_SET_GET_CFG_CMD_OP_HDL_DBG_INFO" "I2 s" for r s
    by (rule op_handler.comes_back_op [OF h2 _ _ _ _ _ _ that]) (auto simp: run_ops cfg_state_def fresh_op_def intro: rest op3)
  have op1: "comes_back u ?W r s" if "cfg_cmd s" "op_idx (cfg_seq s) = APM_SET_GET_CFG_CMD_OP_SEND_PROXY_MGR_MSG" "I1 s" for r s
    by (rule op_handler.comes_back_op [OF h1 _ _ _ _ _ _ that])
      (auto simp: run_ops cfg_state_def intro: rest op2 op_handler.enter [OF h2])
  have op0: "comes_back u ?W r s" if "cfg_cmd s" "op_idx (cfg_seq s) = APM_SET_GET_CFG_CMD_OP_SEND_CONT_MSG" "cmn_inv u s" for r s
    by (rule cont_msgs.comes_back_op [OF _ _ _ _ _ _ that])
      (auto simp: run_ops cfg_state_def intro: rest op1 op_handler.enter [OF h1])
  show ?thesis using s rest [of s] op0 [of s] op1 [of s] op2 [of s] op3 [of s] unfolding cfg_state_def by blast
qed

text \<open>
  The functions of other files that a configuration command runs into: they return and keep out of its sequencing, the messages to proxy
  managers are sent by the modelled function or by the one of builds without proxy managers, and ending a command returns.
\<close>

definition cfg_calls :: "apm_utils \<Rightarrow> bool" where
  "cfg_calls u \<longleftrightarrow> quiet (send_msg_to_containers u) \<and> quiet (clear_pending_cont_list u)
     \<and> (proxy_set_cfg_sequencer u = apm_proxy_set_cfg_sequencer_stub
        \<or> (\<exists>f g. proxy_set_cfg_sequencer u = apm_proxy_set_cfg_sequencer f g \<and> quiet f \<and> quiet g))
     \<and> (\<forall>h. debug_info_cfg_hdlr u = Some h \<longrightarrow> quiet h)
     \<and> (\<forall>s. \<exists>rc s'. end_cmd u s = Some (rc, s'))"

definition proxy_at :: "apm_utils \<Rightarrow> apm \<Rightarrow> bool" where
  "proxy_at u = (if proxy_set_cfg_sequencer u = apm_proxy_set_cfg_sequencer_stub then (\<lambda>s. \<not> curr_cmd_op_pending (cfg_seq s)) else proxy_inv)"

definition cfg_waits :: "apm_utils \<Rightarrow> apm \<Rightarrow> bool" where
  "cfg_waits u = cfg_state u (proxy_at u) (\<lambda>s. \<not> curr_cmd_op_pending (cfg_seq s))"

lemma proxy_handler:
  assumes "cfg_calls u"
  shows "\<exists>R. op_handler True APM_SET_GET_CFG_CMD_OP_SEND_PROXY_MGR_MSG (proxy_set_cfg_sequencer u) (proxy_at u) R"
proof (cases "proxy_set_cfg_sequencer u = apm_proxy_set_cfg_sequencer_stub")
  case True
  then show ?thesis using proxy_stub.op_handler_axioms by (auto simp: proxy_at_def)
next
  case False
  then obtain f g where "proxy_set_cfg_sequencer u = apm_proxy_set_cfg_sequencer f g" "quiet f" "quiet g" using assms by (auto simp: cfg_calls_def)
  moreover from this have "op_handler True APM_SET_GET_CFG_CMD_OP_SEND_PROXY_MGR_MSG (apm_proxy_set_cfg_sequencer f g) proxy_inv proxy_rank"
    using proxy_msgs.op_handler_axioms [of f g] by simp
  ultimately show ?thesis using False by (auto simp: proxy_at_def)
qed

lemma debug_handler:
  assumes "cfg_calls u"
  shows "op_handler True APM_SET_GET_CFG_CMD_OP_HDL_DBG_INFO (call_if_there (debug_info_cfg_hdlr u)) (\<lambda>s. \<not> curr_cmd_op_pending (cfg_seq s)) (\<lambda>_. 0)"
proof (cases "debug_info_cfg_hdlr u")
  case None
  then have "call_if_there (debug_info_cfg_hdlr u) = idle" by (simp add: call_if_there_def idle_def fun_eq_iff)
  then show ?thesis using idle_op.op_handler_axioms by simp
next
  case (Some h)
  then have "call_if_there (debug_info_cfg_hdlr u) = h" "quiet h" using assms by (simp_all add: call_if_there_def fun_eq_iff cfg_calls_def)
  then show ?thesis using quiet_op.op_handler_axioms [of h] by simp
qed

lemma cfg_calls_utils:
  assumes "cfg_calls u"
  shows "\<exists>R. cfg_utils u (proxy_at u) R (\<lambda>s. \<not> curr_cmd_op_pending (cfg_seq s)) (\<lambda>_. 0)"
  using proxy_handler [OF assms] debug_handler [OF assms] assms by (auto simp: cfg_utils_def cfg_calls_def)

text \<open>A command is in such a state as soon as its sequencer was chosen.\<close>

lemma cfg_start:
  assumes "cfg_calls u" "cmd_opcode c \<in> cfg_opcodes" "\<not> (cmd_opcode c = SPF_MSG_CMD_SET_CFG \<and> is_close_all_needed c)"
    and "length (opcode_list (cont_msg_opcode c)) = 3"
    and "op_of c Set_Get_Cfg_Cmd_Seq = \<lparr>op_idx = APM_SET_GET_CFG_CMD_OP_SEND_CONT_MSG, curr_seq_idx = APM_CMD_SEQ_IDX_INVALID, curr_cmd_op_pending = False, op_status = e\<rparr>"
  shows "cfg_waits u (s\<lparr>cmd_ctrl := snd (apm_set_cmd_seq_func u c)\<rparr>)"
proof -
  have "apm_set_cmd_seq_func u c = (AR_EOK, apm_init_cmd_seq_info c Set_Get_Cfg_Sequencer Set_Get_Cfg_Cmd_Seq)"
    using assms(2) unfolding cfg_opcodes_def apm_set_cmd_seq_func_def by (elim insertE emptyE) simp_all
  then show ?thesis using assms
    by (simp add: cfg_waits_def cfg_state_def cfg_cmd_def cmn_inv_def cfg_calls_def apm_init_cmd_seq_info_def seq_defs Let_def)
qed

text \<open>A state in which a round changes nothing is never left.\<close>

lemma entry_loop_stuck:
  assumes "\<not> cmd_rsp_pending (cmd_ctrl s)" "run_entry u s = Some (AR_EOK, s)" "cfg_cmd s" "op_idx (cfg_seq s) \<noteq> APM_CMN_CMD_OP_COMPLETED"
    and "curr_cmd_op_pending (cfg_seq s)"
  shows "entry_loop u r s = None"
proof -
  have same: "upd_ctrl (upd_op Set_Get_Cfg_Cmd_Seq apm_incr_cmd_op_idx) s = s" using assms(5) by (simp add: apm_incr_cmd_op_idx_def seq_defs)
  have "u' = u \<longrightarrow> s' = s \<longrightarrow> False" if "entry_loop u' r' s' = Some y" for u' r' s' y
    by (rule entry_loop.raw_induct [where P = "\<lambda>u' r' s' y. u' = u \<longrightarrow> s' = s \<longrightarrow> False", OF _ that])
      (use assms cfg_parts(1) [OF assms(3)] cfg_cmd_curr [OF assms(3)] same in \<open>auto simp: Let_def, blast\<close>)
  then have "entry_loop u r s \<noteq> Some y" for y by blast
  then show ?thesis by (cases "entry_loop u r s") auto
qed

text \<open>So an unknown stage of the messages to containers makes the loop run forever.\<close>

lemma unknown_stage_stuck:
  assumes "cfg_cmd s" "op_idx (cfg_seq s) = APM_SET_GET_CFG_CMD_OP_SEND_CONT_MSG" "\<not> cmd_rsp_pending (cmd_ctrl s)" "curr_cmd_op_pending (cfg_seq s)"
    and "curr_seq_idx (cfg_seq s) \<notin> {APM_CMD_SEQ_IDX_INVALID, APM_SEQ_SET_UP_CONT_MSG_SEQ, APM_SEQ_SEND_MSG_TO_CONTAINERS, APM_SEQ_CONT_SEND_MSG_COMPLETED}"
  shows "apm_cmd_sequencer_cmn_entry u s = None"
proof -
  have s: "upd_ctrl (upd_op Set_Get_Cfg_Cmd_Seq (apm_init_next_cmd_op_seq_idx i)) s = s" for i
    using assms(5) by (simp add: apm_init_next_cmd_op_seq_idx_def seq_defs)
  have "run_entry u s = Some (AR_EOK, s)"
    using run_ops(1) [OF assms(1,2)] cfg_cmd_curr [OF assms(1)] assms(5) by (simp add: apm_cmd_cmn_sequencer_def Let_def s apm_init_next_cmd_op_seq_idx_def)
  then show ?thesis unfolding apm_cmd_sequencer_cmn_entry_def using entry_loop_stuck [OF assms(3) _ assms(1) _ assms(4)] assms(2) by simp
qed

text \<open>The sequencers whose handling of a failure is to end the command.\<close>

definition plain_seq :: "apm_cmd_seq_entry_func \<Rightarrow> op_seq_ref \<Rightarrow> bool" where
  "plain_seq f p \<longleftrightarrow> f = Graph_Mgmt_Sequencer \<and> p = Graph_Mgmt_Seq \<or> f = Set_Get_Cfg_Sequencer \<and> p = Set_Get_Cfg_Cmd_Seq"

lemma failure_round:
  assumes "cmd_seq_entry_fptr (cmd_seq (cmd_ctrl s)) = Some f" "pri_op_seq_ptr (cmd_seq (cmd_ctrl s)) = Some p" "plain_seq f p"
    and "op_idx (op_of (cmd_ctrl s) p) = APM_CMN_CMD_OP_HANDLE_FAILURE"
  shows "\<exists>s1. run_entry u s = Some (AR_EOK, s1) \<and> pri_op_seq_ptr (cmd_seq (cmd_ctrl s1)) = Some p
    \<and> op_idx (op_of (cmd_ctrl s1) p) = APM_CMN_CMD_OP_COMPLETED \<and> cmd_status (cmd_ctrl s1) = cmd_status (cmd_ctrl s)"
  using assms by (auto simp: plain_seq_def run_entry_def apm_cmd_graph_mgmt_sequencer_def apm_cmd_set_get_cfg_sequencer_def Let_def
      apm_end_cmd_op_sequencer_def seq_defs)

text \<open>The command is to handle a failure next.\<close>

definition failing :: "apm_cmd_seq_entry_func \<Rightarrow> op_seq_ref \<Rightarrow> apm \<Rightarrow> bool" where
  "failing f p s \<longleftrightarrow> cmd_seq_entry_fptr (cmd_seq (cmd_ctrl s)) = Some f \<and> pri_op_seq_ptr (cmd_seq (cmd_ctrl s)) = Some p
     \<and> op_idx (op_of (cmd_ctrl s) p) = APM_CMN_CMD_OP_HANDLE_FAILURE"

lemma failing_ends:
  assumes "failing f p s" "plain_seq f p" "\<not> cmd_rsp_pending (cmd_ctrl s)"
  shows "\<exists>s2. entry_loop u r s = end_cmd u s2 \<and> \<not> cmd_pending (cmd_ctrl s2)
    \<and> cmd_status (cmd_ctrl s2) = cmd_status (cmd_ctrl s) \<and> op_idx (op_of (cmd_ctrl s2) p) = APM_CMN_CMD_OP_COMPLETED"
proof -
  obtain s1 where s1: "run_entry u s = Some (AR_EOK, s1)" "pri_op_seq_ptr (cmd_seq (cmd_ctrl s1)) = Some p"
    "op_idx (op_of (cmd_ctrl s1) p) = APM_CMN_CMD_OP_COMPLETED" "cmd_status (cmd_ctrl s1) = cmd_status (cmd_ctrl s)"
    using failure_round [of s f p u] assms(1,2) by (auto simp: failing_def)
  then show ?thesis using round_ended [OF assms(3) s1(1-3)]
    by (intro exI [of _ "upd_ctrl (\<lambda>c. c\<lparr>cmd_pending := False\<rparr>) s1"]) (simp add: op_of_def)
qed

subsection \<open>An example\<close>

text \<open>A command to set a configuration, just after its sequencer was chosen.\<close>

definition ex_cfg_state :: apm where
  "ex_cfg_state = (ex_apm_state APM_CMD_SET_CFG)\<lparr>cmd_ctrl := snd (apm_set_cmd_seq_func ex_utils (ex_ctrl APM_CMD_SET_CFG))\<rparr>"

text \<open>
  The functions of other files that the example calls: the messages to containers and to proxy managers are sent at once and their
  responses are awaited; the messages to proxy managers are sent by the modelled function.
\<close>

definition ex_send :: apm_step where
  "ex_send s = Some (AR_EOK, upd_ctrl (\<lambda>c. c\<lparr>cmd_rsp_pending := True\<rparr>) s)"

definition ex_cfg_utils :: apm_utils where
  "ex_cfg_utils = ex_utils\<lparr>send_msg_to_containers := ex_send, proxy_set_cfg_sequencer := apm_proxy_set_cfg_sequencer idle ex_send,
     debug_info_cfg_hdlr := Some idle\<rparr>"

lemma ex_quiet: "quiet idle" "quiet (\<lambda>s. Some (AR_EOK, s))" "quiet ex_send"
  by (simp_all add: quiet_def idle_def ex_send_def cfg_cmd_def Let_def op_of_def)

lemma ex_cfg_calls: "cfg_calls ex_cfg_utils"
  using ex_quiet by (simp add: cfg_calls_def ex_cfg_utils_def) (auto simp: ex_utils_def)

lemma ex_cfg_waits: "cfg_waits ex_cfg_utils ex_cfg_state"
  using cfg_start [OF ex_cfg_calls, of "ex_ctrl APM_CMD_SET_CFG" _ "ex_apm_state APM_CMD_SET_CFG"]
  by (simp add: ex_cfg_state_def ex_ctrl_def ex_op_seq_def cfg_opcodes_def op_of_def apm_set_cmd_seq_func_def)

text \<open>The same command when the proxy managers are to get their messages.\<close>

definition ex_proxy_state :: apm where
  "ex_proxy_state = upd_ctrl (\<lambda>c. upd_op Set_Get_Cfg_Cmd_Seq (\<lambda>q. q\<lparr>op_idx := APM_SET_GET_CFG_CMD_OP_SEND_PROXY_MGR_MSG\<rparr>)
     (c\<lparr>active_proxy_mgr_list_ptr := Some 3\<rparr>)) ex_cfg_state"

lemma ex_proxy_waits: "cfg_waits ex_cfg_utils ex_proxy_state"
  using ex_cfg_waits by (simp add: cfg_waits_def cfg_state_def ex_proxy_state_def cfg_cmd_def Let_def proxy_at_def proxy_inv_def)
    (simp add: ex_cfg_state_def ex_ctrl_def ex_op_seq_def apm_set_cmd_seq_func_def apm_init_cmd_seq_info_def seq_defs)

text \<open>A graph that is to be started although its state was never determined.\<close>

definition ex_gm_state :: apm where
  "ex_gm_state = upd_ctrl (\<lambda>c. upd_op Graph_Mgmt_Seq (\<lambda>q. q\<lparr>curr_seq_idx := APM_SEQ_SET_UP_CONT_MSG_SEQ\<rparr>) (c\<lparr>curr_sg_list_state := APM_SG_STATE_INVALID\<rparr>))
     ((ex_apm_state APM_CMD_GRAPH_START)\<lparr>cmd_ctrl := snd (apm_set_cmd_seq_func ex_utils (ex_ctrl APM_CMD_GRAPH_START))\<rparr>)"

text \<open>A configuration whose messages to containers are sent only in part.\<close>

definition ex_part_utils :: apm_utils where
  "ex_part_utils = ex_utils\<lparr>send_msg_to_containers := (\<lambda>s. Some (AR_EFAILED, upd_ctrl (\<lambda>c. c\<lparr>cmd_rsp_pending := True\<rparr>) s))\<rparr>"

definition ex_part_state :: apm where
  "ex_part_state = upd_ctrl (upd_op Set_Get_Cfg_Cmd_Seq (\<lambda>q. q\<lparr>curr_seq_idx := APM_SEQ_SEND_MSG_TO_CONTAINERS, curr_cmd_op_pending := True\<rparr>)) ex_cfg_state"

subsection \<open>Properties\<close>

text \<open>
  C9: Whenever the sequencer is entered for a configuration command (set, get, register, deregister, path delay), other than an
  SPF_MSG_CMD_SET_CFG that also has to close all graphs, it returns: either it waits for a response, and then it can be entered again in the
  same way, or it has ended the command, once, with all operations completed.  It does so at the messages to containers, at the
  messages to proxy managers, at the debug information and at the end of the command, whatever messages are to be sent, and also when a step
  fails; and a command is in such a state as soon as its sequencer was chosen.  The functions of other files (sending to containers and to
  proxy managers, clearing the pending containers, the debug handler) are assumed to return and to leave the sequencing fields of the
  command alone, and end_cmd to return.
\<close>

theorem apm_cfg_command_progress:
  assumes "cfg_calls u"
  shows "(\<forall>s. cfg_waits u s \<longrightarrow> (\<exists>rc s'. apm_cmd_sequencer_cmn_entry u s = Some (rc, s')
      \<and> (cmd_rsp_pending (cmd_ctrl s') \<and> cfg_waits u s' \<or> ended u Set_Get_Cfg_Cmd_Seq rc s')))
    \<and> (\<forall>c e t. cmd_opcode c \<in> cfg_opcodes \<longrightarrow> \<not> (cmd_opcode c = SPF_MSG_CMD_SET_CFG \<and> is_close_all_needed c)
      \<longrightarrow> length (opcode_list (cont_msg_opcode c)) = 3
      \<longrightarrow> op_of c Set_Get_Cfg_Cmd_Seq = \<lparr>op_idx = APM_SET_GET_CFG_CMD_OP_SEND_CONT_MSG, curr_seq_idx = APM_CMD_SEQ_IDX_INVALID,
            curr_cmd_op_pending = False, op_status = e\<rparr>
      \<longrightarrow> cfg_waits u (t\<lparr>cmd_ctrl := snd (apm_set_cmd_seq_func u c)\<rparr>))"
proof -
  obtain R where "cfg_utils u (proxy_at u) R (\<lambda>s. \<not> curr_cmd_op_pending (cfg_seq s)) (\<lambda>_. 0)" using cfg_calls_utils [OF assms] by blast
  then have "\<exists>rc s'. apm_cmd_sequencer_cmn_entry u s = Some (rc, s')
      \<and> (cmd_rsp_pending (cmd_ctrl s') \<and> cfg_waits u s' \<or> ended u Set_Get_Cfg_Cmd_Seq rc s')" if "cfg_waits u s" for s
    using cfg_comes_back [of u _ R _ _ s AR_EOK] that unfolding comes_back_def apm_cmd_sequencer_cmn_entry_def cfg_waits_def by blast
  then show ?thesis using cfg_start [OF assms] by blast
qed

theorem apm_cfg_command_progress_witness:
  "(\<exists>rc s'. apm_cmd_sequencer_cmn_entry ex_cfg_utils ex_cfg_state = Some (rc, s')
      \<and> (cmd_rsp_pending (cmd_ctrl s') \<and> cfg_waits ex_cfg_utils s' \<or> ended ex_cfg_utils Set_Get_Cfg_Cmd_Seq rc s'))
    \<and> (\<exists>rc s'. apm_cmd_sequencer_cmn_entry ex_cfg_utils ex_proxy_state = Some (rc, s')
      \<and> (cmd_rsp_pending (cmd_ctrl s') \<and> cfg_waits ex_cfg_utils s' \<or> ended ex_cfg_utils Set_Get_Cfg_Cmd_Seq rc s'))"
  using apm_cfg_command_progress [OF ex_cfg_calls] ex_cfg_waits ex_proxy_waits by blast

text \<open>
  C31: A step that fails ends its command, for graph management and for configuration commands (not for GRAPH_OPEN, where a failure runs the error
  handler, nor for CLOSE_ALL, whose sequencer is a parameter): the failure becomes part of the status of the command and no further step is made.  When no
  response is pending after the failing step, the next round of the same call ends the command; when one is, as after a partial send, the call
  returns the failure and waits, and the next call without a pending response that finds the sequence so ends the command.  Either way the
  sequence is completed when the command is ended.
\<close>

theorem apm_failed_step_ends_command:
  assumes "\<not> cmd_rsp_pending (cmd_ctrl s)" "run_entry u s = Some (rc, s1)" "rc \<noteq> AR_EOK"
    and "cmd_seq_entry_fptr (cmd_seq (cmd_ctrl s1)) = Some f" "pri_op_seq_ptr (cmd_seq (cmd_ctrl s1)) = Some p" "plain_seq f p"
    and "op_idx (op_of (cmd_ctrl s1) p) \<notin> {APM_CMN_CMD_OP_COMPLETED, APM_CMN_CMD_OP_HANDLE_FAILURE}"
  shows "if cmd_rsp_pending (cmd_ctrl s1)
    then \<exists>s2. apm_cmd_sequencer_cmn_entry u s = Some (rc, s2) \<and> cmd_rsp_pending (cmd_ctrl s2)
      \<and> cmd_status (cmd_ctrl s2) = cmd_status (cmd_ctrl s1) OR rc \<and> failing f p s2
      \<and> (\<forall>s3. failing f p s3 \<and> \<not> cmd_rsp_pending (cmd_ctrl s3) \<longrightarrow> (\<exists>s4. apm_cmd_sequencer_cmn_entry u s3 = end_cmd u s4
          \<and> \<not> cmd_pending (cmd_ctrl s4) \<and> cmd_status (cmd_ctrl s4) = cmd_status (cmd_ctrl s3) \<and> op_idx (op_of (cmd_ctrl s4) p) = APM_CMN_CMD_OP_COMPLETED))
    else \<exists>s2. apm_cmd_sequencer_cmn_entry u s = end_cmd u s2 \<and> \<not> cmd_pending (cmd_ctrl s2)
      \<and> cmd_status (cmd_ctrl s2) = cmd_status (cmd_ctrl s1) OR rc \<and> op_idx (op_of (cmd_ctrl s2) p) = APM_CMN_CMD_OP_COMPLETED"
proof -
  let ?s = "upd_ctrl (upd_op p (\<lambda>q. apm_clear_curr_cmd_op_pending_status (q\<lparr>op_idx := APM_CMN_CMD_OP_HANDLE_FAILURE\<rparr>)))
    (upd_ctrl (\<lambda>c. c\<lparr>cmd_status := cmd_status c OR rc\<rparr>) s1)"
  have loop: "entry_loop u AR_EOK s = entry_loop u rc ?s" by (rule round_failed [OF assms(1-3,5)]) (use assms(7) in simp_all)
  have f: "failing f p ?s" "cmd_status (cmd_ctrl ?s) = cmd_status (cmd_ctrl s1) OR rc" "cmd_rsp_pending (cmd_ctrl ?s) = cmd_rsp_pending (cmd_ctrl s1)"
    using assms(4,5) by (simp_all add: failing_def apm_clear_curr_cmd_op_pending_status_def)
  show ?thesis
  proof (cases "cmd_rsp_pending (cmd_ctrl s1)")
    case True
    then have "entry_loop u rc ?s = Some (rc, ?s)" using f(3) by (subst entry_loop.simps) simp
    then show ?thesis unfolding apm_cmd_sequencer_cmn_entry_def loop using True f failing_ends [OF _ assms(6)] by auto
  next
    case False
    then show ?thesis unfolding apm_cmd_sequencer_cmn_entry_def loop using f failing_ends [OF f(1) assms(6), of u rc] by simp
  qed
qed

theorem apm_failed_step_ends_command_witness:
  "(\<exists>s2. apm_cmd_sequencer_cmn_entry ex_utils ex_gm_state = end_cmd ex_utils s2 \<and> \<not> cmd_pending (cmd_ctrl s2)
      \<and> op_idx (op_of (cmd_ctrl s2) Graph_Mgmt_Seq) = APM_CMN_CMD_OP_COMPLETED)
    \<and> (\<exists>s2. apm_cmd_sequencer_cmn_entry ex_part_utils ex_part_state = Some (AR_EFAILED, s2) \<and> cmd_rsp_pending (cmd_ctrl s2)
      \<and> failing Set_Get_Cfg_Sequencer Set_Get_Cfg_Cmd_Seq s2)"
proof
  note defs = ex_gm_state_def ex_apm_state_def ex_ctrl_def ex_op_seq_def apm_set_cmd_seq_func_def apm_init_cmd_seq_info_def seq_defs Let_def
  obtain s1 where "run_entry ex_utils ex_gm_state = Some (AR_EFAILED, s1)" "\<not> cmd_rsp_pending (cmd_ctrl s1)"
    "cmd_seq_entry_fptr (cmd_seq (cmd_ctrl s1)) = Some Graph_Mgmt_Sequencer" "pri_op_seq_ptr (cmd_seq (cmd_ctrl s1)) = Some Graph_Mgmt_Seq"
    "op_idx (op_of (cmd_ctrl s1) Graph_Mgmt_Seq) \<notin> {APM_CMN_CMD_OP_COMPLETED, APM_CMN_CMD_OP_HANDLE_FAILURE}"
    by (simp add: defs run_entry_def apm_cmd_graph_mgmt_sequencer_def apm_cmd_graph_mgmt_cmn_sequencer_def then_seq_idx_def
        apm_init_next_cmd_op_seq_idx_def apm_populate_cont_cmd_seq_def apm_populate_cont_graph_mgmt_cmd_seq_def apm_populate_cont_graph_proc_seq_def)
  moreover have "\<not> cmd_rsp_pending (cmd_ctrl ex_gm_state)" by (simp add: defs)
  ultimately show "\<exists>s2. apm_cmd_sequencer_cmn_entry ex_utils ex_gm_state = end_cmd ex_utils s2 \<and> \<not> cmd_pending (cmd_ctrl s2)
      \<and> op_idx (op_of (cmd_ctrl s2) Graph_Mgmt_Seq) = APM_CMN_CMD_OP_COMPLETED"
    using apm_failed_step_ends_command [of ex_gm_state ex_utils AR_EFAILED s1 Graph_Mgmt_Sequencer Graph_Mgmt_Seq] by (auto simp: plain_seq_def)
next
  note defs = ex_part_state_def ex_cfg_state_def ex_apm_state_def ex_ctrl_def ex_op_seq_def apm_set_cmd_seq_func_def apm_init_cmd_seq_info_def seq_defs Let_def
  obtain s1 where "run_entry ex_part_utils ex_part_state = Some (AR_EFAILED, s1)" "cmd_rsp_pending (cmd_ctrl s1)"
    "cmd_seq_entry_fptr (cmd_seq (cmd_ctrl s1)) = Some Set_Get_Cfg_Sequencer" "pri_op_seq_ptr (cmd_seq (cmd_ctrl s1)) = Some Set_Get_Cfg_Cmd_Seq"
    "op_idx (op_of (cmd_ctrl s1) Set_Get_Cfg_Cmd_Seq) \<notin> {APM_CMN_CMD_OP_COMPLETED, APM_CMN_CMD_OP_HANDLE_FAILURE}"
    by (simp add: defs run_entry_def apm_cmd_set_get_cfg_sequencer_def apm_cmd_cmn_sequencer_def apm_init_next_cmd_op_seq_idx_def ex_part_utils_def)
  moreover have "\<not> cmd_rsp_pending (cmd_ctrl ex_part_state)" by (simp add: defs)
  ultimately show "\<exists>s2. apm_cmd_sequencer_cmn_entry ex_part_utils ex_part_state = Some (AR_EFAILED, s2) \<and> cmd_rsp_pending (cmd_ctrl s2)
      \<and> failing Set_Get_Cfg_Sequencer Set_Get_Cfg_Cmd_Seq s2"
    using apm_failed_step_ends_command [of ex_part_state ex_part_utils AR_EFAILED s1 Set_Get_Cfg_Sequencer Set_Get_Cfg_Cmd_Seq] by (auto simp: plain_seq_def)
qed

end
