(* ===== verification/Spec2Isabelle.thy ===== *)
theory Spec2Isabelle
  imports Spf_List_Proofs Spf_Hashtable_Proofs Posal_Queue_Proofs Spf_Ref_Counter
    Gpr_Drv_Proofs Dam_Circ_Buf_Create Graph_Paths Graph_Ports Basic_Op_Spec
    Apm_Graph_Db_Proofs Apm_Sequencer_Run
begin

text \<open>
  Verification of the AudioReach engine: the data structures of the platform layer, the packet router, the circular buffer of
  the audio dam, the module graphs of the containers, the fixed-point operators of the modules, and the data base and the command sequencer of the audio processing manager.

  \<^bold>\<open>The program.\<close> The engine runs audio graphs on a signal processor. Its platform layer (\<^verbatim>\<open>fwk/platform/posal\<close>) offers pools of
  small nodes, queues, channels and memory; the framework (\<^verbatim>\<open>fwk/spf\<close>) builds lists, hash tables and reference counters on them and,
  on top of these, containers and the audio processing manager. Commands and events travel as packets through the generic packet
  router (\<^verbatim>\<open>gpr\<close>): modules register a callback for a port, packets come from pools of the router, are sent to the callback of
  their destination port or to the data link of another domain, and are answered and freed by their receiver.

  \<^bold>\<open>Theories and sources.\<close>
  \<^item> \<^verbatim>\<open>Ar_Prelude\<close>: result codes, stores of objects by address (\<open>'a store\<close>, a finite map; \<open>ptr\<close> is an optional address),
    \<open>load\<close>, \<open>modify\<close>, array access, facts on words, the collection \<open>inv_defs\<close> of the invariants.
  \<^item> \<^verbatim>\<open>Linked_Nodes\<close>: doubly linked chains and rings in a store, with their frame lemmas; shared by all list theories.
  \<^item> Contracts (locales): \<^verbatim>\<open>Node_Allocator\<close> (an allocator never hands out what is in use), \<^verbatim>\<open>Message_Queue\<close> (a first-in first-out
    queue), \<^verbatim>\<open>Keyed_Table\<close> (a table of keyed nodes) and \<^verbatim>\<open>Session_Table\<close> (a partial map from ports to sessions). Each is
    interpreted on the definitions that model the code: the node allocator on the buffer pool and on the router's packet
    memory, the queue on the platform's queue and on the router's lists, the keyed table on the hash table, the
    session table on both implementations of the router's sessions.
  \<^item> \<^verbatim>\<open>Posal_Bufpool\<close>, \<^verbatim>\<open>Bufpool_Inv\<close>, \<^verbatim>\<open>Bufpool_Proofs\<close>: \<^verbatim>\<open>posal_bufpool.c\<close>, its bit masks and node arrays kept at their
    width. The invariant is established by creation and kept by getting, returning, resetting and destroying; a node in use is never handed out
    again. Freeing unused node arrays does not keep it: the code subtracts an array from the counters twice (\<open>free_unused_counts_twice\<close>).
  \<^item> \<^verbatim>\<open>Spf_List\<close>, \<^verbatim>\<open>Spf_List_Proofs\<close>: \<^verbatim>\<open>spf_list_utils.c\<close> and its island part, each operation against the list it represents.
  \<^item> \<^verbatim>\<open>Spf_Hashtable\<close>, \<^verbatim>\<open>Spf_Hashtable_Proofs\<close>: \<^verbatim>\<open>spf_hashtable.c\<close>, refined to a map from keys to nodes.
  \<^item> \<^verbatim>\<open>Posal_Channel\<close>, \<^verbatim>\<open>Posal_Queue\<close>, \<^verbatim>\<open>Posal_Queue_Proofs\<close>: \<^verbatim>\<open>posal_channel.c\<close>, \<^verbatim>\<open>posal_queue.c\<close>; order, bounds and the signal that says
    that a queue is not empty.
  \<^item> \<^verbatim>\<open>Spf_Ref_Counter\<close>: \<^verbatim>\<open>spf_ref_counter.c\<close>; an object is destroyed exactly once, when its last reference goes.
  \<^item> \<^verbatim>\<open>Gpr_List\<close>, \<^verbatim>\<open>Gpr_List_Proofs\<close>: \<^verbatim>\<open>gpr_list.c\<close>; circular lists through a dummy node, first in first out, no double insertion.
  \<^item> \<^verbatim>\<open>Gpr_Memq\<close>, \<^verbatim>\<open>Gpr_Memq_Proofs\<close>: \<^verbatim>\<open>gpr_memq.c\<close>; memory cut into units, the free units in a list, an account of the holders when
    nothing is free.
  \<^item> \<^verbatim>\<open>Gpr_Session\<close>, \<^verbatim>\<open>Gpr_Session_Proofs\<close>: \<^verbatim>\<open>array_based\<close> and \<^verbatim>\<open>hash_based/gpr_session.c\<close>; the two are interchangeable while the array
    has room and memory is available.
  \<^item> \<^verbatim>\<open>Gpr_Drv\<close>, \<^verbatim>\<open>Gpr_Drv_Proofs\<close>: \<^verbatim>\<open>gpr_drv.c\<close>, \<^verbatim>\<open>gpr_drv_island.c\<close>, \<^verbatim>\<open>gpr_dynamic_allocation.c\<close> on top of the three before;
    packets are allocated from the right pool and return to it, reach the registered callback, and ending a command of the own
    domain hands the response to the requester's callback and loses no packet.

  \<^item> \<^verbatim>\<open>Stream_Buffer\<close>: a contract for a buffer with one writer and many readers, with an abstract machine that has one bounded queue for
    each reader; \<^verbatim>\<open>Byte_Ring\<close>: positions and segments of a ring of bytes.
  \<^item> \<^verbatim>\<open>Dam_Circ_Buf\<close>, \<^verbatim>\<open>Dam_Circ_Buf_Proofs\<close>, \<^verbatim>\<open>Dam_Circ_Buf_Contract\<close>, \<^verbatim>\<open>Dam_Circ_Buf_Create\<close>: \<^verbatim>\<open>audio_dam_buffer/lib/src/circular_buffer*.c\<close>,
    a ring of memory chunks. Writing, reading and moving readers refine the abstract machine, a reader that keeps up and is not moved
    loses nothing, one that is not moved with force gets bytes in order; creation and registration of a writer establish the invariant, and registration of a reader
    that does not make the buffer grow keeps it.
  \<^item> \<^verbatim>\<open>Graph_Utils\<close>: \<^verbatim>\<open>containers/cmn/graph_utils/src/graph_utils.c\<close>, the modules of a container with their ports.
    \<^verbatim>\<open>Graph_Sort\<close>: the order in which modules run is a topological one and complete. \<^verbatim>\<open>Graph_Paths\<close>: the parallel paths are the
    connected parts of the graph. \<^verbatim>\<open>Graph_Ports\<close>: indices of ports, attached modules.

  \<^item> \<^verbatim>\<open>Basic_Op\<close>, \<^verbatim>\<open>Basic_Op_Proofs\<close>, \<^verbatim>\<open>Basic_Op_Norm\<close>, \<^verbatim>\<open>Basic_Op_Spec\<close>: \<^verbatim>\<open>modules/cmn/common/utils/src/basic_op.c\<close>, the fixed-point operators of the
    modules, in a state monad over the overflow flag. Each is compared with integer arithmetic: saturating operators cut the exact
    result to the range of their type (the contract \<open>saturating\<close>, interpreted on each of them), shifts round as they
    should, normalisation ends, and the arguments for which the shifts without saturation are undefined or do not end are exactly described.

  \<^item> \<^verbatim>\<open>Apm_Graph_Db\<close>, \<^verbatim>\<open>Apm_Graph_Db_Proofs\<close>: \<^verbatim>\<open>apm/core/src/apm_graph_db.c\<close>, the sub-graphs, containers and modules that the audio
    processing manager knows, in tables of the lists of \<^verbatim>\<open>Spf_List\<close>. The tables are maps from ids to objects (the contract \<open>object_db\<close>,
    interpreted on both tables); a change of one of them leaves the others as they are.

  \<^item> \<^verbatim>\<open>Apm_Sequencer\<close>: \<^verbatim>\<open>apm/core/src/apm_cmd_sequencer.c\<close>, the state machine of a command. \<^verbatim>\<open>Apm_Sequencer_Plan\<close>: the messages
    planned for a command fit their array and take the sub-graphs through legal states to the one the command asks for.
    \<^verbatim>\<open>Apm_Sequencer_Run\<close>: the loop of the sequencer returns for configuration commands that do not close all graphs, by the contract
    \<open>op_handler\<close> of an operation (interpreted on the messages to containers, on those to proxy managers, on functions that keep out of the sequencing and on
    operations with nothing to do); in graph management and configuration commands a step that fails ends the command.

  \<^bold>\<open>Conventions.\<close> An operation is a function of the state that returns its result code, its output arguments and the new
  state in an \<open>option\<close>: \<open>None\<close> is a fault (a null or dangling pointer, an index out of range) or a loop that does not end. Loops over pointers are
  \<open>partial_function (option)\<close>; that they end is part of the theorems, which state the result and not only what
  holds if there is one. Loops over an index have the number of rounds left as an argument, which the caller sets to the
  bound of the loop. The recursion that propagates path indices has its depth as an argument; the number of modules is enough. Integers are words of the width of the source; the sizes of structures are those of
  a 64-bit build and conditional code is that of the portable build. Operations are atomic: the mutexes that
  make them so are left out, as are log messages. What an allocator, a callback, a destructor or a data link
  answers is a parameter; theorems name what they assume of it (memory that is handed out is fresh), and
  their witnesses give a concrete one.

  \<^bold>\<open>Not modelled.\<close> Initialisation and shutdown of the router's driver and its data links, the parser, the messages and the responses of the audio processing manager, the containers
  and their topologies, the other modules and the wrappers of the operating system; the manifest lists them with the
  reason. The next parts to model are further utilities of the containers.
\<close>

end
